(* ===== verification/Rust_Prelude.thy ===== *)
theory Rust_Prelude
  imports Main "HOL-Library.Word" "HOL-Library.Multiset" "HOL-Library.Product_Lexorder"
    "HOL-Library.List_Lexorder" "HOL-Library.Char_ord"
begin

text \<open>
  The shared vocabulary of the development: the Rust integer types at their width, checked
  arithmetic, \<open>Result\<close> as a sum type with its bind, the fallible iterators \<open>try_fold\<close> and
  \<open>collect::<Result<_,_>>\<close>, strings as UTF-8 byte strings, ASCII case folding and decimal
  formatting.  Unsigned integers are words; signed integers (\<open>i64\<close>, \<open>i128\<close>) are
  \<open>int\<close> with the range written out wherever the source can overflow; \<open>usize\<close> is
  \<open>nat\<close> with its 64-bit bound written out wherever the source checks it.
\<close>

named_theorems word_facts
named_theorems result_facts
named_theorems evals

section \<open>Integer types\<close>

type_synonym u8 = "8 word"
type_synonym u16 = "16 word"
type_synonym u32 = "32 word"
type_synonym u64 = "64 word"
type_synonym u128 = "128 word"
type_synonym i64 = int
type_synonym i128 = int
type_synonym usize = nat
type_synonym bytes = "u8 list"

definition checked_add :: "'a::len word \<Rightarrow> 'a word \<Rightarrow> 'a word option" where
  "checked_add a b = (if uint a + uint b < 2 ^ LENGTH('a) then Some (a + b) else None)"

definition checked_sub :: "'a::len word \<Rightarrow> 'a word \<Rightarrow> 'a word option" where
  "checked_sub a b = (if uint b \<le> uint a then Some (a - b) else None)"

definition checked_mul :: "'a::len word \<Rightarrow> 'a word \<Rightarrow> 'a word option" where
  "checked_mul a b = (if uint a * uint b < 2 ^ LENGTH('a) then Some (a * b) else None)"

definition saturating_add :: "'a::len word \<Rightarrow> 'a word \<Rightarrow> 'a word" where
  "saturating_add a b = (if uint a + uint b < 2 ^ LENGTH('a) then a + b else - 1)"

definition checked_add_i128 :: "i128 \<Rightarrow> i128 \<Rightarrow> i128 option" where
  "checked_add_i128 a b = (if - (2 ^ 127) \<le> a + b \<and> a + b < 2 ^ 127 then Some (a + b) else None)"

definition checked_sub_i128 :: "i128 \<Rightarrow> i128 \<Rightarrow> i128 option" where
  "checked_sub_i128 a b = (if - (2 ^ 127) \<le> a - b \<and> a - b < 2 ^ 127 then Some (a - b) else None)"

definition u128_of_u64 :: "u64 \<Rightarrow> u128" where
  "u128_of_u64 x = ucast x"

definition u64_try_from_u128 :: "u128 \<Rightarrow> u64 option" where
  "u64_try_from_u128 x = (if uint x < 2 ^ 64 then Some (ucast x) else None)"

definition u64_try_from_i128 :: "i128 \<Rightarrow> u64 option" where
  "u64_try_from_i128 x = (if 0 \<le> x \<and> x < 2 ^ 64 then Some (word_of_int x) else None)"

definition u128_try_from_i128 :: "i128 \<Rightarrow> u128 option" where
  "u128_try_from_i128 x = (if 0 \<le> x \<and> x < 2 ^ 127 then Some (word_of_int x) else None)"

lemmas prim_defs [evals] = checked_add_def checked_sub_def checked_mul_def saturating_add_def
  checked_add_i128_def checked_sub_i128_def u128_of_u64_def u64_try_from_u128_def
  u64_try_from_i128_def u128_try_from_i128_def

subsection \<open>What the checked operations compute, read through \<open>uint\<close>\<close>

lemma uint_nonneg [simp, intro]: "0 \<le> uint w"
  by simp

lemma checked_add_Some [word_facts]:
  "checked_add a b = Some c \<longleftrightarrow> uint c = uint a + uint b" for a b c :: "'a::len word"
proof
  assume "checked_add a b = Some c"
  then show "uint c = uint a + uint b"
    by (auto simp: checked_add_def uint_add_lem split: if_splits)
next
  assume eq: "uint c = uint a + uint b"
  have "uint c < 2 ^ LENGTH('a)" by (rule uint_lt2p)
  with eq have lt: "uint a + uint b < 2 ^ LENGTH('a)" by simp
  then have "uint (a + b) = uint c" by (simp add: uint_add_lem eq)
  then have "a + b = c" by (simp add: word_uint_eq_iff)
  with lt show "checked_add a b = Some c" by (simp add: checked_add_def)
qed

lemma checked_add_None [word_facts]:
  "checked_add a b = None \<longleftrightarrow> 2 ^ LENGTH('a) \<le> uint a + uint b" for a b :: "'a::len word"
  by (auto simp: checked_add_def)

lemma checked_sub_Some [word_facts]:
  "checked_sub a b = Some c \<longleftrightarrow> uint c = uint a - uint b" for a b c :: "'a::len word"
proof
  assume "checked_sub a b = Some c"
  then show "uint c = uint a - uint b"
    by (auto simp: checked_sub_def uint_sub_lem split: if_splits)
next
  assume eq: "uint c = uint a - uint b"
  then have le: "uint b \<le> uint a" using uint_nonneg[of c] by linarith
  then have "uint (a - b) = uint c" by (simp add: uint_sub_lem eq)
  then have "a - b = c" by (simp add: word_uint_eq_iff)
  with le show "checked_sub a b = Some c" by (simp add: checked_sub_def)
qed

lemma checked_sub_None [word_facts]:
  "checked_sub a b = None \<longleftrightarrow> uint a < uint b" for a b :: "'a::len word"
  by (auto simp: checked_sub_def)

lemma checked_mul_Some [word_facts]:
  "checked_mul a b = Some c \<longleftrightarrow> uint c = uint a * uint b" for a b c :: "'a::len word"
proof
  assume "checked_mul a b = Some c"
  then show "uint c = uint a * uint b"
    by (auto simp: checked_mul_def uint_mult_lem split: if_splits)
next
  assume eq: "uint c = uint a * uint b"
  have "uint c < 2 ^ LENGTH('a)" by (rule uint_lt2p)
  with eq have lt: "uint a * uint b < 2 ^ LENGTH('a)" by simp
  then have "uint (a * b) = uint c" by (simp add: uint_mult_lem eq)
  then have "a * b = c" by (simp add: word_uint_eq_iff)
  with lt show "checked_mul a b = Some c" by (simp add: checked_mul_def)
qed

lemma checked_mul_None [word_facts]:
  "checked_mul a b = None \<longleftrightarrow> 2 ^ LENGTH('a) \<le> uint a * uint b" for a b :: "'a::len word"
  by (auto simp: checked_mul_def)

lemma checked_add_i128_Some [word_facts]:
  "checked_add_i128 a b = Some c \<longleftrightarrow> c = a + b \<and> - (2 ^ 127) \<le> c \<and> c < 2 ^ 127"
  by (auto simp: checked_add_i128_def)

lemma checked_sub_i128_Some [word_facts]:
  "checked_sub_i128 a b = Some c \<longleftrightarrow> c = a - b \<and> - (2 ^ 127) \<le> c \<and> c < 2 ^ 127"
  by (auto simp: checked_sub_i128_def)

lemma uint_u128_of_u64 [simp, word_facts]: "uint (u128_of_u64 x) = uint x"
  by (simp add: u128_of_u64_def uint_up_ucast is_up)

lemma u64_bound [simp, word_facts]: "uint (x :: u64) < 2 ^ 64"
  using uint_lt2p[of x] by simp

lemma u128_bound [simp, word_facts]: "uint (x :: u128) < 2 ^ 128"
  using uint_lt2p[of x] by simp

lemma u64_bound_num: "uint (x :: u64) < 18446744073709551616"
  using u64_bound[of x] by simp

lemma u128_bound_num: "uint (x :: u128) < 340282366920938463463374607431768211456"
  using u128_bound[of x] by simp

lemma uint_word_of_int_small:
  "0 \<le> x \<Longrightarrow> x < 2 ^ LENGTH('a) \<Longrightarrow> uint (word_of_int x :: 'a::len word) = x"
  by (simp add: uint_word_of_int)

lemma u64_try_from_u128_Some [word_facts]:
  "u64_try_from_u128 x = Some y \<longleftrightarrow> uint y = uint x"
proof
  assume "u64_try_from_u128 x = Some y"
  then have "uint x < 2 ^ 64" and y: "y = ucast x"
    by (auto simp: u64_try_from_u128_def split: if_splits)
  then show "uint y = uint x"
    by (simp add: unsigned_ucast_eq take_bit_int_eq_self)
next
  assume eq: "uint y = uint x"
  then have lt: "uint x < 2 ^ 64" using u64_bound[of y] by simp
  then have "uint (ucast x :: u64) = uint x"
    by (simp add: unsigned_ucast_eq take_bit_int_eq_self)
  with eq have "ucast x = y" by (simp add: word_uint_eq_iff)
  with lt show "u64_try_from_u128 x = Some y" by (simp add: u64_try_from_u128_def)
qed

lemma u64_try_from_u128_None [word_facts]:
  "u64_try_from_u128 x = None \<longleftrightarrow> 2 ^ 64 \<le> uint x"
  by (auto simp: u64_try_from_u128_def)

lemma u64_try_from_i128_Some [word_facts]:
  "u64_try_from_i128 x = Some y \<longleftrightarrow> uint y = x"
proof
  assume "u64_try_from_i128 x = Some y"
  then show "uint y = x"
    by (auto simp: u64_try_from_i128_def uint_word_of_int_small split: if_splits)
next
  assume eq: "uint y = x"
  then have "0 \<le> x" "x < 2 ^ 64" using u64_bound[of y] by auto
  moreover from this have "word_of_int x = y"
    using eq by (simp add: word_uint_eq_iff uint_word_of_int_small)
  ultimately show "u64_try_from_i128 x = Some y" by (simp add: u64_try_from_i128_def)
qed

lemma u64_try_from_i128_None [word_facts]:
  "u64_try_from_i128 x = None \<longleftrightarrow> x < 0 \<or> 2 ^ 64 \<le> x"
  by (auto simp: u64_try_from_i128_def)

lemma u128_try_from_i128_Some [word_facts]:
  "u128_try_from_i128 x = Some y \<longleftrightarrow> uint y = x \<and> x < 2 ^ 127"
proof
  assume "u128_try_from_i128 x = Some y"
  then show "uint y = x \<and> x < 2 ^ 127"
    by (auto simp: u128_try_from_i128_def uint_word_of_int_small split: if_splits)
next
  assume eq: "uint y = x \<and> x < 2 ^ 127"
  then have "0 \<le> x" by auto
  moreover from this eq have "word_of_int x = y"
    by (simp add: word_uint_eq_iff uint_word_of_int_small)
  ultimately show "u128_try_from_i128 x = Some y" using eq by (simp add: u128_try_from_i128_def)
qed

lemma uint_saturating_add:
  "uint (saturating_add a b) = min (uint a + uint b) (2 ^ LENGTH('a) - 1)" for a b :: "'a::len word"
proof (cases "uint a + uint b < 2 ^ LENGTH('a)")
  case True
  then show ?thesis by (simp add: saturating_add_def uint_add_lem)
next
  case False
  then show ?thesis
    by (simp add: saturating_add_def unsigned_minus_1_eq_mask mask_eq_exp_minus_1)
qed

section \<open>\<open>Result\<close> and \<open>Option\<close>\<close>

fun rbind :: "'e + 'a \<Rightarrow> ('a \<Rightarrow> 'e + 'b) \<Rightarrow> 'e + 'b" where
  "rbind (Inl e) f = Inl e"
| "rbind (Inr a) f = f a"

definition ok_or :: "'a option \<Rightarrow> 'e \<Rightarrow> 'e + 'a" where
  "ok_or x e = (case x of None \<Rightarrow> Inl e | Some a \<Rightarrow> Inr a)"

definition map_err :: "('e \<Rightarrow> 'f) \<Rightarrow> 'e + 'a \<Rightarrow> 'f + 'a" where
  "map_err f x = (case x of Inl e \<Rightarrow> Inl (f e) | Inr a \<Rightarrow> Inr a)"

lemma rbind_Inr [simp, result_facts]: "rbind x f = Inr b \<longleftrightarrow> (\<exists>a. x = Inr a \<and> f a = Inr b)"
  by (cases x) auto

lemma rbind_Inl [result_facts]:
  "rbind x f = Inl e \<longleftrightarrow> x = Inl e \<or> (\<exists>a. x = Inr a \<and> f a = Inl e)"
  by (cases x) auto

lemma rbind_assoc: "rbind (rbind x f) g = rbind x (\<lambda>a. rbind (f a) g)"
  by (cases x) auto

lemma rbind_cong [fundef_cong]:
  "x = y \<Longrightarrow> (\<And>a. y = Inr a \<Longrightarrow> f a = g a) \<Longrightarrow> rbind x f = rbind y g"
  by (cases y) auto

lemma ok_or_Inr [simp, result_facts]: "ok_or x e = Inr a \<longleftrightarrow> x = Some a"
  by (cases x) (auto simp: ok_or_def)

lemma ok_or_Inl [simp, result_facts]: "ok_or x e = Inl e' \<longleftrightarrow> x = None \<and> e' = e"
  by (cases x) (auto simp: ok_or_def)

lemma ok_or_simps [simp, evals]: "ok_or None e = Inl e" "ok_or (Some a) e = Inr a"
  by (simp_all add: ok_or_def)

lemma map_err_Inr [simp, result_facts]: "map_err f x = Inr a \<longleftrightarrow> x = Inr a"
  by (cases x) (auto simp: map_err_def)

lemma map_err_simps [simp, evals]: "map_err f (Inl e) = Inl (f e)" "map_err f (Inr a) = Inr a"
  by (simp_all add: map_err_def)

lemma if_Inl_Inr [simp, result_facts]:
  "(if c then Inl e else x) = Inr a \<longleftrightarrow> \<not> c \<and> x = Inr a"
  "(if c then x else Inl e) = Inr a \<longleftrightarrow> c \<and> x = Inr a"
  by auto

subsection \<open>Fallible iterators\<close>

fun try_fold :: "('s \<Rightarrow> 'a \<Rightarrow> 'e + 's) \<Rightarrow> 's \<Rightarrow> 'a list \<Rightarrow> 'e + 's" where
  "try_fold f s [] = Inr s"
| "try_fold f s (x # xs) = rbind (f s x) (\<lambda>s'. try_fold f s' xs)"

fun try_map :: "('a \<Rightarrow> 'e + 'b) \<Rightarrow> 'a list \<Rightarrow> 'e + 'b list" where
  "try_map f [] = Inr []"
| "try_map f (x # xs) = rbind (f x) (\<lambda>y. rbind (try_map f xs) (\<lambda>ys. Inr (y # ys)))"

lemma try_map_Inr: "try_map f xs = Inr ys \<longleftrightarrow> list_all2 (\<lambda>x y. f x = Inr y) xs ys"
proof (induction xs arbitrary: ys)
  case Nil
  then show ?case by auto
next
  case (Cons x xs)
  then show ?case by (cases ys) auto
qed

lemma try_map_length: "try_map f xs = Inr ys \<Longrightarrow> length ys = length xs"
  by (auto simp: try_map_Inr list_all2_lengthD)

lemma try_map_nth: "try_map f xs = Inr ys \<Longrightarrow> i < length xs \<Longrightarrow> f (xs ! i) = Inr (ys ! i)"
  by (auto simp: try_map_Inr list_all2_conv_all_nth)

lemma try_map_total: "(\<And>x. x \<in> set xs \<Longrightarrow> f x = Inr (g x)) \<Longrightarrow> try_map f xs = Inr (map g xs)"
  by (induction xs) auto

lemma try_map_cong [fundef_cong]:
  "xs = ys \<Longrightarrow> (\<And>x. x \<in> set ys \<Longrightarrow> f x = g x) \<Longrightarrow> try_map f xs = try_map g ys"
proof (induction ys arbitrary: xs)
  case Nil
  then show ?case by simp
next
  case (Cons y ys)
  then show ?case by (auto intro!: rbind_cong)
qed

lemma try_fold_append:
  "try_fold f s (xs @ ys) = rbind (try_fold f s xs) (\<lambda>s'. try_fold f s' ys)"
proof (induction xs arbitrary: s)
  case Nil
  then show ?case by simp
next
  case (Cons x xs)
  then show ?case by (cases "f s x") auto
qed

lemma try_fold_map: "try_fold f s (map g xs) = try_fold (\<lambda>s x. f s (g x)) s xs"
  by (induction xs arbitrary: s) (auto intro: rbind_cong)

lemma try_fold_invariant:
  assumes "try_fold f s xs = Inr t" and "P s"
    and "\<And>s x s'. x \<in> set xs \<Longrightarrow> P s \<Longrightarrow> f s x = Inr s' \<Longrightarrow> P s'"
  shows "P t"
  using assms by (induction xs arbitrary: s) auto

text \<open>A checked sum, \<open>try_fold(0, checked_add)\<close>.\<close>

definition checked_sum :: "'e \<Rightarrow> ('x \<Rightarrow> 'a::len word) \<Rightarrow> 'x list \<Rightarrow> 'e + 'a word" where
  "checked_sum e f xs = try_fold (\<lambda>s x. ok_or (checked_add s (f x)) e) 0 xs"

lemma try_fold_add_Inr:
  "try_fold (\<lambda>s x. ok_or (checked_add s (f x)) e) s xs = Inr t
     \<longleftrightarrow> uint t = uint s + (\<Sum>x\<leftarrow>xs. uint (f x))"
  for s t :: "'a::len word"
proof (induction xs arbitrary: s)
  case Nil
  then show ?case by (auto simp: word_uint_eq_iff)
next
  case (Cons x xs)
  have nonneg: "0 \<le> (\<Sum>x\<leftarrow>xs. uint (f x))" by (induction xs) auto
  show ?case
  proof
    assume "try_fold (\<lambda>s x. ok_or (checked_add s (f x)) e) s (x # xs) = Inr t"
    then show "uint t = uint s + (\<Sum>x\<leftarrow>x # xs. uint (f x))"
      by (auto simp: Cons.IH checked_add_Some)
  next
    assume t: "uint t = uint s + (\<Sum>x\<leftarrow>x # xs. uint (f x))"
    have "uint t < 2 ^ LENGTH('a)" by (rule uint_lt2p)
    with t nonneg have "uint s + uint (f x) < 2 ^ LENGTH('a)" by simp
    then have "checked_add s (f x) = Some (s + f x)" by (simp add: checked_add_def)
    then have "uint (s + f x) = uint s + uint (f x)" by (simp add: checked_add_Some)
    with t show "try_fold (\<lambda>s x. ok_or (checked_add s (f x)) e) s (x # xs) = Inr t"
      using \<open>checked_add s (f x) = Some (s + f x)\<close> by (simp add: Cons.IH)
  qed
qed

lemma checked_sum_Inr [word_facts]:
  "checked_sum e f xs = Inr t \<longleftrightarrow> uint t = (\<Sum>x\<leftarrow>xs. uint (f x))"
  by (simp add: checked_sum_def try_fold_add_Inr)

lemma checked_sum_Inr_ex:
  "(\<Sum>x\<leftarrow>xs. uint (f x)) < 2 ^ LENGTH('a) \<Longrightarrow>
    checked_sum e f xs = Inr (word_of_int (\<Sum>x\<leftarrow>xs. uint (f x)) :: 'a::len word)"
proof -
  assume "(\<Sum>x\<leftarrow>xs. uint (f x)) < 2 ^ LENGTH('a)"
  moreover have "0 \<le> (\<Sum>x\<leftarrow>xs. uint (f x))" by (induction xs) auto
  ultimately show ?thesis by (simp add: checked_sum_Inr uint_word_of_int_small)
qed

lemma checked_sum_Inl:
  "checked_sum e f xs = Inl e' \<longleftrightarrow> 2 ^ LENGTH('a) \<le> (\<Sum>x\<leftarrow>xs. uint (f x)) \<and> e' = e"
  for f :: "'x \<Rightarrow> 'a::len word"
proof -
  have err: "try_fold (\<lambda>s x. ok_or (checked_add s (f x)) e) s xs = Inl d \<Longrightarrow> d = e" for s d
    by (induction xs arbitrary: s) (auto simp: rbind_Inl)
  show ?thesis
  proof (cases "checked_sum e f xs")
    case (Inl e'')
    then have "e'' = e" using err by (simp add: checked_sum_def)
    moreover have "2 ^ LENGTH('a) \<le> (\<Sum>x\<leftarrow>xs. uint (f x))"
      using Inl checked_sum_Inr_ex[of f xs e] by (metis Inl_Inr_False linorder_not_le)
    ultimately show ?thesis using Inl by auto
  next
    case (Inr t)
    then have "uint t = (\<Sum>x\<leftarrow>xs. uint (f x))" by (simp add: checked_sum_Inr)
    then show ?thesis using Inr uint_lt2p[of t] by auto
  qed
qed

section \<open>Strings\<close>

text \<open>
  A Rust \<open>String\<close> is its UTF-8 bytes: \<open>len()\<close> is the length of the list and the derived
  order is the lexicographic order of the bytes, the order of \<open>List_Lexorder\<close> over
  \<open>Char_ord\<close>.
\<close>

definition ascii_lower :: "char \<Rightarrow> char" where
  "ascii_lower c = (if CHR ''A'' \<le> c \<and> c \<le> CHR ''Z'' then char_of (of_char c + (32 :: nat)) else c)"

definition to_ascii_lowercase :: "string \<Rightarrow> string" where
  "to_ascii_lowercase s = map ascii_lower s"

definition eq_ignore_ascii_case :: "string \<Rightarrow> string \<Rightarrow> bool" where
  "eq_ignore_ascii_case a b \<longleftrightarrow> to_ascii_lowercase a = to_ascii_lowercase b"

definition string_bytes :: "string \<Rightarrow> bytes" where
  "string_bytes s = map (\<lambda>c. word_of_nat (of_char c)) s"

fun dec_digits :: "nat \<Rightarrow> string" where
  "dec_digits n = (if n < 10 then [char_of (48 + n)]
     else dec_digits (n div 10) @ [char_of (48 + n mod 10)])"

declare dec_digits.simps [simp del]

definition dec_int :: "int \<Rightarrow> string" where
  "dec_int x = (if x < 0 then ''-'' @ dec_digits (nat (- x)) else dec_digits (nat x))"

definition dec_word :: "'a::len word \<Rightarrow> string" where
  "dec_word w = dec_digits (nat (uint w))"

lemma ascii_lower_idem [simp]: "ascii_lower (ascii_lower c) = ascii_lower c"
proof (cases "CHR ''A'' \<le> c \<and> c \<le> CHR ''Z''")
  case True
  then have b: "of_char c + (32 :: nat) < 256" "\<not> of_char c + (32 :: nat) \<le> 90"
    by (auto simp: less_eq_char_def)
  have "\<not> char_of (of_char c + (32 :: nat)) \<le> CHR ''Z''"
    using b by (simp add: less_eq_char_def of_char_of)
  then show ?thesis using True by (simp add: ascii_lower_def)
next
  case False
  then show ?thesis by (auto simp add: ascii_lower_def)
qed

lemma to_ascii_lowercase_idem [simp]:
  "to_ascii_lowercase (to_ascii_lowercase s) = to_ascii_lowercase s"
  by (simp add: to_ascii_lowercase_def)

lemma eq_ignore_ascii_case_refl [simp]: "eq_ignore_ascii_case s s"
  by (simp add: eq_ignore_ascii_case_def)

section \<open>Lists\<close>

fun chunks :: "nat \<Rightarrow> 'a list \<Rightarrow> 'a list list" where
  "chunks n [] = []"
| "chunks n (x # xs) = (if n = 0 then [] else take n (x # xs) # chunks n (drop (n - 1) xs))"

lemma chunks_Cons_eq: "0 < n \<Longrightarrow> xs \<noteq> [] \<Longrightarrow> chunks n xs = take n xs # chunks n (drop n xs)"
  by (cases xs; cases n) auto

lemma concat_chunks: "0 < n \<Longrightarrow> concat (chunks n xs) = xs"
proof (induction n xs rule: chunks.induct)
  case (2 n x xs)
  then show ?case by (cases n) auto
qed simp

lemma chunks_bound: "0 < n \<Longrightarrow> c \<in> set (chunks n xs) \<Longrightarrow> c \<noteq> [] \<and> length c \<le> n"
proof (induction n xs rule: chunks.induct)
  case (2 n x xs)
  then show ?case by (cases n) auto
qed simp

lemma sum_list_map_concat:
  "sum_list (map f (concat xss)) = (\<Sum>xs\<leftarrow>xss. sum_list (map f xs))" for f :: "'a \<Rightarrow> int"
  by (induction xss) auto

lemma sum_list_uint_nonneg [simp]: "0 \<le> (\<Sum>x\<leftarrow>xs. uint (f x))"
  by (induction xs) auto

lemma sum_list_mono_mset:
  "mset xs \<subseteq># mset ys \<Longrightarrow> (\<And>y. y \<in> set ys \<Longrightarrow> 0 \<le> f y) \<Longrightarrow> sum_list (map f xs) \<le> sum_list (map f ys)"
  for f :: "'a \<Rightarrow> int"
proof -
  assume sub: "mset xs \<subseteq># mset ys" and nn: "\<And>y. y \<in> set ys \<Longrightarrow> 0 \<le> f y"
  obtain zs where zs: "mset ys = mset xs + mset zs"
    using sub by (metis ex_mset subset_mset.add_diff_inverse)
  then have "set zs \<subseteq> set ys" by (metis mset_append set_append set_mset_mset sup_ge2)
  then have "0 \<le> sum_list (map f zs)" using nn by (intro sum_list_nonneg) auto
  moreover have "sum_list (map f ys) = sum_list (map f xs) + sum_list (map f zs)"
    using zs by (metis map_append mset_append mset_map sum_list_append sum_mset_sum_list)
  ultimately show ?thesis by simp
qed

lemma sum_list_map_mset_eq:
  "mset xs = mset ys \<Longrightarrow> sum_list (map f xs) = sum_list (map f ys)" for f :: "'a \<Rightarrow> int"
  by (metis mset_map sum_mset_sum_list)

lemma filter_eq_replicate: "filter (\<lambda>x. x = k) xs = replicate (count (mset xs) k) k"
  by (induction xs) auto

text \<open>A stable sort by an injective key does not depend on the order of its input.\<close>

lemma sort_key_unique:
  assumes "mset xs = mset ys" and "inj_on f (set xs)"
  shows "sort_key f xs = sort_key f ys"
proof (rule properties_for_sort_key)
  show "mset (sort_key f ys) = mset xs" using assms(1) by simp
next
  fix k assume "k \<in> set (sort_key f ys)"
  have set_eq: "set xs = set ys" using assms(1) by (metis set_mset_mset)
  have filt: "filter (\<lambda>x. f k = f x) zs = replicate (count (mset zs) k) k"
    if "set zs = set xs" for zs
  proof -
    have k: "k \<in> set xs" using \<open>k \<in> set (sort_key f ys)\<close> set_eq by simp
    have "filter (\<lambda>x. f k = f x) zs = filter (\<lambda>x. x = k) zs"
      using that k assms(2) by (auto intro!: filter_cong simp: inj_on_def)
    then show ?thesis by (simp add: filter_eq_replicate)
  qed
  show "filter (\<lambda>x. f k = f x) (sort_key f ys) = filter (\<lambda>x. f k = f x) xs"
    using filt[of "sort_key f ys"] filt[of xs] set_eq assms(1) by simp
next
  show "sorted (map f (sort_key f ys))" by simp
qed

lemma inj_on_sort_key_strict:
  "distinct xs \<Longrightarrow> inj_on f (set xs) \<Longrightarrow> sorted_wrt (<) (map f (sort_key f xs))"
  by (simp add: strict_sorted_iff distinct_map)

end
