(* ===== verification/Ordered_Map.thy ===== *)
theory Ordered_Map
  imports Rust_Prelude
begin

text \<open>
  The \<open>BTreeMap\<close> the code accumulates into: lookups, insertion, and iteration in
  ascending key order.  The locale \<open>ordered_map\<close> states what the code relies on; its
  lemmas (iteration order is a function of the contents, grouping by key) are proved once
  and interpreted for the sorted association list the model computes with.
\<close>

section \<open>The interface\<close>

locale ordered_map =
  fixes empty_map :: "'m"
    and get :: "'m \<Rightarrow> 'k::linorder \<Rightarrow> 'v option"
    and put :: "'k \<Rightarrow> 'v \<Rightarrow> 'm \<Rightarrow> 'm"
    and entries :: "'m \<Rightarrow> ('k \<times> 'v) list"
    and invar :: "'m \<Rightarrow> bool"
  assumes invar_empty: "invar empty_map"
    and get_empty: "get empty_map k = None"
    and invar_put: "invar m \<Longrightarrow> invar (put k v m)"
    and get_put: "invar m \<Longrightarrow> get (put k v m) = (get m)(k \<mapsto> v)"
    and entries_sorted: "invar m \<Longrightarrow> sorted_wrt (<) (map fst (entries m))"
    and entries_get: "invar m \<Longrightarrow> map_of (entries m) = get m"
begin

lemma entries_distinct: "invar m \<Longrightarrow> distinct (map fst (entries m))"
  using entries_sorted[of m] by (simp add: strict_sorted_iff)

lemma get_iff_entries: "invar m \<Longrightarrow> get m k = Some v \<longleftrightarrow> (k, v) \<in> set (entries m)"
  using entries_distinct[of m] entries_get[of m] by (metis map_of_eq_Some_iff)

text \<open>Iteration order depends on the contents alone.\<close>

lemma entries_unique:
  assumes "invar m" and "invar n" and "get m = get n"
  shows "entries m = entries n"
proof (rule map_sorted_distinct_set_unique[of fst])
  show "sorted (map fst (entries m))" "sorted (map fst (entries n))"
    using entries_sorted assms by (auto simp: strict_sorted_iff)
  show "distinct (map fst (entries m))" "distinct (map fst (entries n))"
    using entries_distinct assms by auto
  show set_eq: "set (entries m) = set (entries n)"
    using assms get_iff_entries by (metis surj_pair subsetI subset_antisym)
  show "inj_on fst (set (entries m) \<union> set (entries n))"
    using entries_distinct[OF assms(1)] set_eq by (simp add: distinct_map)
qed

lemma set_entries_put:
  assumes "invar m"
  shows "set (entries (put k v m)) = insert (k, v) {p \<in> set (entries m). fst p \<noteq> k}"
proof -
  have "(k', u) \<in> set (entries (put k v m)) \<longleftrightarrow>
      (k', u) = (k, v) \<or> (k', u) \<in> set (entries m) \<and> k' \<noteq> k" for k' u
    using get_iff_entries[OF assms, of k' u] get_iff_entries[OF invar_put[OF assms], of k v k' u]
    by (auto simp: get_put[OF assms] split: if_splits)
  then show ?thesis by auto
qed

lemma sum_entries_put:
  fixes g :: "'k \<times> 'v \<Rightarrow> int"
  assumes "invar m"
  shows "sum_list (map g (entries (put k v m))) =
    sum_list (map g (entries m)) + g (k, v) - (case get m k of None \<Rightarrow> 0 | Some u \<Rightarrow> g (k, u))"
proof -
  let ?S = "set (entries m)" and ?R = "{p \<in> set (entries m). fst p \<noteq> k}"
  have as_set: "sum_list (map g (entries n)) = sum g (set (entries n))" if "invar n" for n
    using entries_distinct[OF that] by (simp add: sum_list_distinct_conv_sum_set distinct_map)
  have "sum g (set (entries (put k v m))) = g (k, v) + sum g ?R"
    by (simp add: set_entries_put[OF assms])
  moreover have "sum g ?S = sum g ?R + (case get m k of None \<Rightarrow> 0 | Some u \<Rightarrow> g (k, u))"
  proof (cases "get m k")
    case None
    then have "?R = ?S" using get_iff_entries[OF assms, of k] by auto
    with None show ?thesis by simp
  next
    case (Some u)
    then have "(k, u) \<in> ?S" by (simp add: get_iff_entries[OF assms])
    moreover have "p \<in> ?S - {(k, u)} \<longleftrightarrow> p \<in> ?R" for p
      using get_iff_entries[OF assms, of k "snd p"] Some by (cases p) auto
    then have "?S - {(k, u)} = ?R" by blast
    ultimately have "sum g ?S = g (k, u) + sum g ?R"
      by (metis List.finite_set sum.remove)
    with Some show ?thesis by simp
  qed
  ultimately show ?thesis by (simp add: as_set assms invar_put)
qed

end

section \<open>The sorted association list\<close>

type_synonym ('k, 'v) btree = "('k \<times> 'v) list"

definition bt_get :: "('k::linorder, 'v) btree \<Rightarrow> 'k \<Rightarrow> 'v option" where
  "bt_get m k = map_of m k"

fun bt_put :: "'k::linorder \<Rightarrow> 'v \<Rightarrow> ('k, 'v) btree \<Rightarrow> ('k, 'v) btree" where
  "bt_put k v [] = [(k, v)]"
| "bt_put k v ((k', v') # m) =
     (if k < k' then (k, v) # (k', v') # m
      else if k = k' then (k, v) # m else (k', v') # bt_put k v m)"

definition bt_ok :: "('k::linorder, 'v) btree \<Rightarrow> bool" where
  "bt_ok m \<longleftrightarrow> sorted_wrt (<) (map fst m)"

definition bt_entries :: "('k::linorder, 'v) btree \<Rightarrow> ('k \<times> 'v) list" where
  "bt_entries m = m"

definition bt_values :: "('k::linorder, 'v) btree \<Rightarrow> 'v list" where
  "bt_values m = map snd (bt_entries m)"

lemmas bt_evals [evals] = bt_get_def bt_entries_def bt_values_def

lemma keys_bt_put: "fst ` set (bt_put k v m) = insert k (fst ` set m)"
  by (induction k v m rule: bt_put.induct) auto

lemma bt_ok_put: "bt_ok m \<Longrightarrow> bt_ok (bt_put k v m)"
proof (induction k v m rule: bt_put.induct)
  case (2 k v k' v' m)
  then show ?case
    using keys_bt_put[of k v m] unfolding bt_ok_def by (fastforce dest: less_trans)
qed (simp add: bt_ok_def)

lemma bt_get_put: "bt_ok m \<Longrightarrow> bt_get (bt_put k v m) = (bt_get m)(k \<mapsto> v)"
proof (induction k v m rule: bt_put.induct)
  case (2 k v k' v' m)
  then show ?case unfolding bt_ok_def bt_get_def by (auto simp: fun_eq_iff)
qed (simp add: bt_get_def fun_eq_iff)

interpretation bt: ordered_map "[]" bt_get bt_put bt_entries bt_ok
  by unfold_locales (auto simp: bt_ok_def bt_get_def bt_entries_def bt_ok_put[unfolded bt_ok_def]
      bt_get_put[unfolded bt_ok_def bt_get_def])

subsection \<open>\<open>entry(key).or_insert(d)\<close> followed by a fallible update\<close>

definition bt_entry :: "'k::linorder \<Rightarrow> 'v \<Rightarrow> ('v \<Rightarrow> 'e + 'v) \<Rightarrow> ('k, 'v) btree \<Rightarrow> 'e + ('k, 'v) btree"
  where "bt_entry k d upd m =
    rbind (upd (case bt_get m k of None \<Rightarrow> d | Some v \<Rightarrow> v)) (\<lambda>v. Inr (bt_put k v m))"

definition bt_group ::
  "('x \<Rightarrow> 'k::linorder) \<Rightarrow> ('x \<Rightarrow> 'v) \<Rightarrow> ('x \<Rightarrow> 'v \<Rightarrow> 'e + 'v) \<Rightarrow> ('k, 'v) btree \<Rightarrow> 'x list
    \<Rightarrow> 'e + ('k, 'v) btree"
  where "bt_group key d step = try_fold (\<lambda>m x. bt_entry (key x) (d x) (step x) m)"

lemmas bt_group_evals [evals] = bt_entry_def bt_group_def

lemma bt_group_Nil [simp]: "bt_group key d step m [] = Inr m"
  by (simp add: bt_group_def)

lemma bt_group_Cons:
  "bt_group key d step m (x # xs) =
    rbind (step x (case bt_get m (key x) of None \<Rightarrow> d x | Some v \<Rightarrow> v))
      (\<lambda>v. bt_group key d step (bt_put (key x) v m) xs)"
  by (cases "step x (case bt_get m (key x) of None \<Rightarrow> d x | Some v \<Rightarrow> v)")
    (auto simp: bt_group_def bt_entry_def)

lemma bt_group_ok: "bt_group key d step m xs = Inr m' \<Longrightarrow> bt_ok m \<Longrightarrow> bt_ok m'"
  by (induction xs arbitrary: m) (auto simp: bt_group_Cons bt_ok_put)

text \<open>What a grouping pass leaves under one key: the fold of that key's items alone.\<close>

fun fold_from :: "('x \<Rightarrow> 'v) \<Rightarrow> ('x \<Rightarrow> 'v \<Rightarrow> 'e + 'v) \<Rightarrow> 'v option \<Rightarrow> 'x list \<Rightarrow> 'e + 'v option" where
  "fold_from d step v [] = Inr v"
| "fold_from d step v (x # xs) =
    rbind (step x (case v of None \<Rightarrow> d x | Some u \<Rightarrow> u)) (\<lambda>u. fold_from d step (Some u) xs)"

lemma bt_group_get:
  assumes "bt_group key d step m xs = Inr m'" and "bt_ok m"
  shows "fold_from d step (bt_get m k) (filter (\<lambda>x. key x = k) xs) = Inr (bt_get m' k)"
  using assms
proof (induction xs arbitrary: m)
  case (Cons x xs)
  then obtain v where
    v: "step x (case bt_get m (key x) of None \<Rightarrow> d x | Some v \<Rightarrow> v) = Inr v" and
    rest: "bt_group key d step (bt_put (key x) v m) xs = Inr m'"
    by (auto simp: bt_group_Cons)
  from Cons.IH[OF rest bt_ok_put[OF Cons.prems(2)]] Cons.prems(2) v
  show ?case by (auto simp: bt_get_put)
qed simp

lemma bt_group_keys:
  assumes "bt_group key d step m xs = Inr m'" and "bt_ok m"
  shows "fst ` set m' = fst ` set m \<union> key ` set xs"
  using assms
proof (induction xs arbitrary: m)
  case (Cons x xs)
  then obtain v where "bt_group key d step (bt_put (key x) v m) xs = Inr m'"
    by (auto simp: bt_group_Cons)
  from Cons.IH[OF this bt_ok_put[OF Cons.prems(2)]] show ?case by (simp add: keys_bt_put)
qed simp

text \<open>A pass whose every step adds \<open>w x\<close> to the measure \<open>g\<close> adds the items' total.\<close>

lemma bt_group_sum:
  assumes "bt_group key d step m xs = Inr m'" and "bt_ok m"
    and init: "\<And>x. g (d x) = 0"
    and add: "\<And>x v v'. x \<in> set xs \<Longrightarrow> step x v = Inr v' \<Longrightarrow> g v' = g v + (w x :: int)"
  shows "(\<Sum>p\<leftarrow>m'. g (snd p)) = (\<Sum>p\<leftarrow>m. g (snd p)) + (\<Sum>x\<leftarrow>xs. w x)"
  using assms(1,2,4)
proof (induction xs arbitrary: m)
  case (Cons x xs)
  from Cons.prems(1) obtain v where
    v: "step x (case bt_get m (key x) of None \<Rightarrow> d x | Some v \<Rightarrow> v) = Inr v" and
    rest: "bt_group key d step (bt_put (key x) v m) xs = Inr m'"
    by (auto simp: bt_group_Cons)
  have "(\<Sum>p\<leftarrow>m'. g (snd p)) = (\<Sum>p\<leftarrow>bt_put (key x) v m. g (snd p)) + (\<Sum>x\<leftarrow>xs. w x)"
    by (rule Cons.IH[OF rest bt_ok_put[OF Cons.prems(2)]]) (rule Cons.prems(3); simp)
  moreover have "g v = g (case bt_get m (key x) of None \<Rightarrow> d x | Some v \<Rightarrow> v) + w x"
    by (rule Cons.prems(3)[OF _ v]) simp
  then have "(\<Sum>p\<leftarrow>bt_put (key x) v m. g (snd p)) = (\<Sum>p\<leftarrow>m. g (snd p)) + w x"
    using bt.sum_entries_put[OF Cons.prems(2), of "\<lambda>p. g (snd p)" "key x" v] init[of x]
    by (auto simp: bt_entries_def split: option.splits)
  ultimately show ?case by simp
qed simp

text \<open>The same sum, key by key.\<close>

lemma bt_group_sum_at:
  assumes "bt_group key d step m xs = Inr m'" and "bt_ok m"
    and init: "\<And>x. g (d x) = 0"
    and add: "\<And>x v v'. x \<in> set xs \<Longrightarrow> step x v = Inr v' \<Longrightarrow> g v' = g v + (w x :: int)"
  shows "(case bt_get m' k of None \<Rightarrow> 0 | Some v \<Rightarrow> g v) =
    (case bt_get m k of None \<Rightarrow> 0 | Some v \<Rightarrow> g v) + (\<Sum>x\<leftarrow>filter (\<lambda>x. key x = k) xs. w x)"
  using assms(1,2,4)
proof (induction xs arbitrary: m)
  case (Cons x xs)
  from Cons.prems(1) obtain v where
    v: "step x (case bt_get m (key x) of None \<Rightarrow> d x | Some v \<Rightarrow> v) = Inr v" and
    rest: "bt_group key d step (bt_put (key x) v m) xs = Inr m'"
    by (auto simp: bt_group_Cons)
  have "(case bt_get m' k of None \<Rightarrow> 0 | Some v \<Rightarrow> g v) =
      (case bt_get (bt_put (key x) v m) k of None \<Rightarrow> 0 | Some v \<Rightarrow> g v) +
      (\<Sum>x\<leftarrow>filter (\<lambda>x. key x = k) xs. w x)"
    by (rule Cons.IH[OF rest bt_ok_put[OF Cons.prems(2)]]) (rule Cons.prems(3); simp)
  moreover have "g v = g (case bt_get m (key x) of None \<Rightarrow> d x | Some v \<Rightarrow> v) + w x"
    by (rule Cons.prems(3)[OF _ v]) simp
  ultimately show ?case
    using init[of x] by (auto simp: bt_get_put[OF Cons.prems(2)] split: option.splits)
qed simp

text \<open>Every value of the result satisfies what the steps establish.\<close>

lemma set_bt_put: "p \<in> set (bt_put k v m) \<Longrightarrow> p = (k, v) \<or> p \<in> set m"
  by (induction k v m rule: bt_put.induct) (auto split: if_splits)

lemma bt_group_values:
  assumes "bt_group key d step m xs = Inr m'"
    and "\<forall>p \<in> set m. P (fst p) (snd p)"
    and d: "\<And>x. x \<in> set xs \<Longrightarrow> P (key x) (d x)"
    and step: "\<And>x v v'. x \<in> set xs \<Longrightarrow> P (key x) v \<Longrightarrow> step x v = Inr v' \<Longrightarrow> P (key x) v'"
  shows "\<forall>p \<in> set m'. P (fst p) (snd p)"
  using assms
proof (induction xs arbitrary: m)
  case (Cons x xs)
  from Cons.prems(1) obtain v where
    v: "step x (case bt_get m (key x) of None \<Rightarrow> d x | Some v \<Rightarrow> v) = Inr v" and
    rest: "bt_group key d step (bt_put (key x) v m) xs = Inr m'"
    by (auto simp: bt_group_Cons)
  have "P (key x) (case bt_get m (key x) of None \<Rightarrow> d x | Some v \<Rightarrow> v)"
    using Cons.prems(2,3) by (auto simp: bt_get_def split: option.splits dest!: map_of_SomeD)
  then have "P (key x) v" using Cons.prems(4)[OF _ _ v] by simp
  then have "\<forall>p \<in> set (bt_put (key x) v m). P (fst p) (snd p)"
    using Cons.prems(2) set_bt_put by fastforce
  then show ?case by (rule Cons.IH[OF rest]) (use Cons.prems(3,4) in auto)
qed simp

end
