(* ===== verification/Weight_Map.thy ===== *)
theory Weight_Map
  imports Ordered_Map
begin

text \<open>
  Ordered maps from a key to a \<open>u128\<close> weight that is added up with \<open>checked_add\<close>: the
  accumulator of \<open>aggregate_entitlements\<close> and of the chunked window fold.  A weight map is
  determined by its keys and its weights, and adding items changes them item by item.
\<close>

definition add_weight :: "'e \<Rightarrow> u128 \<Rightarrow> u128 \<Rightarrow> 'e + u128" where
  "add_weight e w acc = ok_or (checked_add acc w) e"

definition add_weights ::
  "'e \<Rightarrow> ('x \<Rightarrow> 'k::linorder) \<Rightarrow> ('x \<Rightarrow> u128) \<Rightarrow> ('k, u128) btree \<Rightarrow> 'x list \<Rightarrow> 'e + ('k, u128) btree"
where
  "add_weights e key w = bt_group key (\<lambda>_. 0) (\<lambda>x. add_weight e (w x))"

lemmas weight_evals [evals] = add_weight_def add_weights_def

definition weight_at :: "('k::linorder, u128) btree \<Rightarrow> 'k \<Rightarrow> int" where
  "weight_at m k = (case bt_get m k of None \<Rightarrow> 0 | Some w \<Rightarrow> uint w)"

definition keys_of :: "('k::linorder, 'v) btree \<Rightarrow> 'k set" where
  "keys_of m = fst ` set m"

lemma keys_of_get: "k \<in> keys_of m \<longleftrightarrow> bt_get m k \<noteq> None"
  by (simp add: keys_of_def bt_get_def map_of_eq_None_iff)

lemma weight_at_nonneg [simp]: "0 \<le> weight_at m k"
  by (simp add: weight_at_def split: option.splits)

lemma weight_at_empty [simp]: "weight_at [] k = 0" "keys_of [] = {}"
  by (simp_all add: weight_at_def bt_get_def keys_of_def)

text \<open>Keys and weights determine the map, iteration order included.\<close>

lemma weight_map_unique:
  assumes "bt_ok m" and "bt_ok n" and "keys_of m = keys_of n"
    and w: "\<And>k. weight_at m k = weight_at n k"
  shows "m = n"
proof -
  have "bt_get m k = bt_get n k" for k
    using assms(3) w[of k] keys_of_get[of k m] keys_of_get[of k n]
    by (auto simp: weight_at_def word_uint_eq_iff split: option.splits)
  then have "bt_get m = bt_get n" ..
  from bt.entries_unique[OF assms(1,2) this] show ?thesis by (simp add: bt_entries_def)
qed

lemma add_weights_Cons:
  "add_weights e key w m (x # xs) =
    rbind (ok_or (checked_add (case bt_get m (key x) of None \<Rightarrow> 0 | Some v \<Rightarrow> v) (w x)) e)
      (\<lambda>v. add_weights e key w (bt_put (key x) v m) xs)"
  by (simp add: add_weights_def bt_group_Cons add_weight_def)

lemma add_weights_Nil [simp]: "add_weights e key w m [] = Inr m"
  by (simp add: add_weights_def)

lemma add_weights_Inr:
  assumes "add_weights e key w m xs = Inr m'" and "bt_ok m"
  shows "bt_ok m' \<and> keys_of m' = keys_of m \<union> key ` set xs \<and>
    (\<forall>k. weight_at m' k = weight_at m k + (\<Sum>x\<leftarrow>filter (\<lambda>x. key x = k) xs. uint (w x)))"
  using assms
proof (induction xs arbitrary: m)
  case (Cons x xs)
  from Cons.prems(1) obtain v where
    v: "checked_add (case bt_get m (key x) of None \<Rightarrow> 0 | Some v \<Rightarrow> v) (w x) = Some v" and
    rest: "add_weights e key w (bt_put (key x) v m) xs = Inr m'"
    by (auto simp: add_weights_Cons)
  have uv: "uint v = weight_at m (key x) + uint (w x)"
    using v by (auto simp: checked_add_Some weight_at_def split: option.splits)
  have put: "weight_at (bt_put (key x) v m) k =
      (if k = key x then weight_at m k + uint (w x) else weight_at m k)" for k
    using uv by (simp add: weight_at_def bt_get_put[OF Cons.prems(2)])
  note IH = Cons.IH[OF rest bt_ok_put[OF Cons.prems(2)]]
  show ?case
  proof (intro conjI allI)
    show "bt_ok m'" using IH by simp
    show "keys_of m' = keys_of m \<union> key ` set (x # xs)"
      using IH by (auto simp: keys_of_def keys_bt_put)
    fix k show "weight_at m' k = weight_at m k + (\<Sum>x\<leftarrow>filter (\<lambda>x. key x = k) (x # xs). uint (w x))"
      using IH put[of k] by auto
  qed
qed simp

lemma add_weights_succeeds:
  assumes "bt_ok m"
    and "\<And>k. weight_at m k + (\<Sum>x\<leftarrow>filter (\<lambda>x. key x = k) xs. uint (w x)) < 2 ^ 128"
  shows "\<exists>m'. add_weights e key w m xs = Inr m'"
  using assms
proof (induction xs arbitrary: m)
  case (Cons x xs)
  let ?old = "case bt_get m (key x) of None \<Rightarrow> 0 | Some v \<Rightarrow> v"
  have old: "uint ?old = weight_at m (key x)" by (simp add: weight_at_def split: option.splits)
  have nn: "0 \<le> (\<Sum>x\<leftarrow>filter (\<lambda>y. key y = key x) xs. uint (w x))"
    by (rule sum_list_uint_nonneg)
  have "weight_at m (key x) + (uint (w x) +
      (\<Sum>x\<leftarrow>filter (\<lambda>y. key y = key x) xs. uint (w x))) < 2 ^ 128"
    using Cons.prems(2)[of "key x"] by simp
  then have lt: "uint ?old + uint (w x) < 2 ^ 128" unfolding old using nn by linarith
  then have v: "checked_add ?old (w x) = Some (?old + w x)" by (simp add: checked_add_def)
  then have uv: "uint (?old + w x) = weight_at m (key x) + uint (w x)"
    using old by (simp add: checked_add_Some)
  have "weight_at (bt_put (key x) (?old + w x) m) k +
      (\<Sum>x\<leftarrow>filter (\<lambda>x. key x = k) xs. uint (w x)) < 2 ^ 128" for k
    using Cons.prems(2)[of k] uv by (auto simp: weight_at_def bt_get_put[OF Cons.prems(1)])
  from Cons.IH[OF bt_ok_put[OF Cons.prems(1)] this] show ?case
    by (simp add: add_weights_Cons v)
qed simp

lemma sum_filter_le:
  "(\<Sum>x\<leftarrow>filter P xs. uint (w x)) \<le> (\<Sum>x\<leftarrow>xs. uint (w x))"
proof (induction xs)
  case (Cons x xs)
  have "0 \<le> uint (w x)" by simp
  with Cons.IH show ?case by (simp only: filter.simps list.map sum_list.Cons split: if_split) linarith
qed simp

text \<open>The weights of one key in the entries of a map.\<close>

lemma entries_weight:
  assumes "bt_ok m"
  shows "(\<Sum>p\<leftarrow>filter (\<lambda>p. fst p = k) m. uint (snd p)) = weight_at m k"
  using assms
proof (induction m)
  case (Cons q m)
  then have ok: "bt_ok m" and nin: "fst q \<notin> fst ` set m"
    by (auto simp: bt_ok_def)
  have "k \<notin> fst ` set m \<Longrightarrow> filter (\<lambda>p. fst p = k) m = []"
    by (auto simp: filter_empty_conv image_iff)
  with Cons.IH[OF ok] nin show ?case
    by (cases q) (auto simp: weight_at_def bt_get_def)
qed simp

text \<open>
  Adding the entries of a map built from \<open>xs\<close> has the effect of adding \<open>xs\<close>: the
  chunked fold merges partial sums without changing the result.
\<close>

lemma add_weights_merge:
  assumes c: "add_weights e key w [] xs = Inr c" and m: "bt_ok m"
    and s: "add_weights e' key w m xs = Inr m'"
    and t: "add_weights e'' fst snd m c = Inr t"
  shows "t = m'"
proof (rule weight_map_unique)
  have ok: "bt_ok c" using add_weights_Inr[OF c] by (simp add: bt_ok_def)
  note C = add_weights_Inr[OF c]
  note S = add_weights_Inr[OF s m]
  note T = add_weights_Inr[OF t m]
  show "bt_ok t" "bt_ok m'" using S T by simp_all
  show "keys_of t = keys_of m'" using S T C by (auto simp: keys_of_def bt_ok_def)
  fix k show "weight_at t k = weight_at m' k"
    using S T C entries_weight[OF ok, of k] by (simp add: bt_ok_def)
qed

text \<open>The total weight of a map is the total weight of what was added.\<close>

lemma add_weights_total:
  assumes "add_weights e key w m xs = Inr m'" and "bt_ok m"
  shows "(\<Sum>p\<leftarrow>m'. uint (snd p)) = (\<Sum>p\<leftarrow>m. uint (snd p)) + (\<Sum>x\<leftarrow>xs. uint (w x))"
  using assms(1)[unfolded add_weights_def] assms(2)
  by (rule bt_group_sum) (auto simp: add_weight_def checked_add_Some)

text \<open>Renaming the keys by an order isomorphism renames the entries.\<close>

lemma bt_put_iso:
  assumes "\<And>a b. f a < f b \<longleftrightarrow> a < b" and "inj f"
  shows "bt_put (f k) v (map (\<lambda>p. (f (fst p), snd p)) m) = map (\<lambda>p. (f (fst p), snd p)) (bt_put k v m)"
  by (induction k v m rule: bt_put.induct) (use assms in \<open>auto simp: inj_eq\<close>)

lemma bt_get_iso:
  assumes "inj f"
  shows "bt_get (map (\<lambda>p. (f (fst p), snd p)) m) (f k) = bt_get m k"
  using assms by (induction m) (auto simp: bt_get_def inj_eq)

lemma add_weights_iso:
  assumes "\<And>a b. f a < f b \<longleftrightarrow> a < b" and "inj f"
  shows "add_weights e (\<lambda>x. f (key x)) w (map (\<lambda>p. (f (fst p), snd p)) m) xs =
    rbind (add_weights e key w m xs) (\<lambda>m'. Inr (map (\<lambda>p. (f (fst p), snd p)) m'))"
proof (induction xs arbitrary: m)
  case (Cons x xs)
  show ?case
    by (cases "checked_add (case bt_get m (key x) of None \<Rightarrow> 0 | Some v \<Rightarrow> v) (w x)")
      (simp_all add: add_weights_Cons bt_get_iso[OF assms(2)] bt_put_iso[OF assms] Cons.IH)
qed simp

lemma add_weights_append:
  "add_weights e key w m (xs @ ys) = rbind (add_weights e key w m xs) (\<lambda>m'. add_weights e key w m' ys)"
  by (simp add: add_weights_def bt_group_def try_fold_append)

lemma add_weights_map:
  "add_weights e key w m (map f xs) = add_weights e (\<lambda>x. key (f x)) (\<lambda>x. w (f x)) m xs"
  by (simp add: add_weights_def bt_group_def try_fold_map)

text \<open>A chunk summed on its own and then merged gives what summing it in place gives.\<close>

lemma add_weights_chunk:
  assumes s: "add_weights e key w m xs = Inr m'" and m: "bt_ok m"
  shows "\<exists>c. add_weights e' key w [] xs = Inr c \<and> add_weights e'' fst snd m c = Inr m'"
proof -
  have ok: "bt_ok []" by (simp add: bt_ok_def)
  note S = add_weights_Inr[OF s m]
  have bound: "weight_at m k + (\<Sum>x\<leftarrow>filter (\<lambda>x. key x = k) xs. uint (w x)) < 2 ^ 128" for k
  proof -
    have "weight_at m' k < 2 ^ 128" by (cases "bt_get m' k") (simp_all add: weight_at_def u128_bound_num)
    then show ?thesis using S by simp
  qed
  have "weight_at [] k + (\<Sum>x\<leftarrow>filter (\<lambda>x. key x = k) xs. uint (w x)) < 2 ^ 128" for k
  proof -
    have "0 \<le> weight_at m k" by simp
    with bound[of k] show ?thesis unfolding weight_at_empty by linarith
  qed
  from add_weights_succeeds[OF ok this] obtain c where c: "add_weights e' key w [] xs = Inr c" ..
  have "weight_at m k + (\<Sum>p\<leftarrow>filter (\<lambda>p. fst p = k) c. uint (snd p)) < 2 ^ 128" for k
    using bound[of k] add_weights_Inr[OF c ok] entries_weight[of c k] by simp
  from add_weights_succeeds[OF m this] obtain t where t: "add_weights e'' fst snd m c = Inr t" ..
  with c show ?thesis using add_weights_merge[OF c m s t] by simp
qed

end
