(* ===== verification/Builder_Types.thy ===== *)
theory Builder_Types
  imports Rust_Prelude
begin

text \<open>
  The data of \<open>qbit-pool-builder\<close>: its errors, the coinbase request, the allocated outputs
  and the payout manifest.  Error payloads that only carry a text formatted by a third-party
  crate are strings.
\<close>

datatype builder_error =
    EmptyCoinbaseValue
  | EmptyEntitlements
  | ZeroWeight string
  | WeightOverflow
  | AllocationOverflow
  | AllocationTotalMismatch u64 u64
  | InvalidP2mrProgram string string
  | PinnedFirstOutputMissing string
  | PinnedFirstOutputAmbiguous string
  | HeightOverflow
  | CoinbaseScriptSigTooLong usize
  | CoinbaseWeightTooHigh usize usize
  | Hex string
  | BuilderJson string
  | InvalidSigningSeedLength usize
  | InvalidPublicKeyLength usize
  | InvalidSignatureLength usize
  | SignatureVerificationFailed

record weighted_entitlement =
  we_recipient_id :: string
  we_order_key :: string
  we_program :: string
  we_weight :: u128

record pinned_first_output =
  pin_recipient_id :: string
  pin_order_key :: string
  pin_program :: string

record coinbase_build_request =
  cr_block_height :: u64
  cr_coinbase_value :: u64
  cr_entitlements :: "weighted_entitlement list"
  cr_witness_nonce_hex :: "string option"
  cr_witness_merkle_leaves_hex :: "string list"
  cr_script_sig_suffix_hex :: "string option"
  cr_pinned_first_output :: "pinned_first_output option"

record allocated_output =
  ao_recipient_id :: string
  ao_order_key :: string
  ao_p2mr_program :: bytes
  ao_script_pubkey :: bytes
  ao_weight :: u128
  ao_amount_sats :: u64

record built_coinbase =
  bc_tx_with_witness :: bytes
  bc_tx_without_witness :: bytes
  bc_txid :: bytes
  bc_wtxid :: bytes
  bc_witness_commitment_script :: bytes
  bc_outputs :: "allocated_output list"
  bc_total_weight :: u128
  bc_coinbase_weight_bytes :: usize

record payout_output =
  po_vout :: usize
  po_recipient_id :: string
  po_order_key :: string
  po_program :: string
  po_script_pubkey_hex :: string
  po_weight :: u128
  po_amount_sats :: u64

record payout_manifest =
  pm_schema :: string
  pm_block_height :: u64
  pm_coinbase_value :: u64
  pm_total_weight :: u128
  pm_coinbase_weight_bytes :: usize
  pm_payout_count :: usize
  pm_coinbase_tx_hex :: string
  pm_coinbase_txid :: string
  pm_coinbase_wtxid :: string
  pm_script_sig_hex :: string
  pm_script_sig_suffix_hex :: string
  pm_witness_nonce_hex :: string
  pm_witness_commitment_script_hex :: string
  pm_outputs :: "payout_output list"

record manifest_signature =
  sig_algorithm :: string
  sig_public_key_hex :: string
  sig_signature_hex :: string

record signed_payout_manifest =
  sm_manifest :: payout_manifest
  sm_signature :: manifest_signature

section \<open>The canonical account order\<close>

text \<open>
  Entitlements, accounts, recipients and outputs are all sorted by
  \<open>(order_key, recipient_id, p2mr_program_hex)\<close>.
\<close>

definition entitlement_key :: "weighted_entitlement \<Rightarrow> string \<times> string \<times> string" where
  "entitlement_key e = (we_order_key e, we_recipient_id e, we_program e)"

definition compare_entitlements :: "weighted_entitlement \<Rightarrow> weighted_entitlement \<Rightarrow> bool" where
  "compare_entitlements l r \<longleftrightarrow> entitlement_key l \<le> entitlement_key r"

lemmas entitlement_evals [evals] = entitlement_key_def

end
