(* ===== verification/Prism_Types.thy ===== *)
theory Prism_Types
  imports Builder_Types
begin

text \<open>
  The data of \<open>qbit-prism\<close> (\<open>lib.rs\<close>, \<open>window_cut.rs\<close>): errors, shares, the found
  block, the payout window and reward manifest, the payout policy and its manifest, and the
  maturity ledger.  Field names carry a short prefix per struct because several structs use
  the same name.
\<close>

section \<open>Errors\<close>

text \<open>
  \<open>PrismError\<close>, plus \<open>Panic\<close> for a Rust panic (an \<open>expect\<close> or an index out of
  bounds): the model keeps it as a value so that its absence is a theorem.
\<close>

datatype prism_error =
    ZeroNetworkDifficulty
  | ZeroShareDifficulty u64
  | DuplicateShareId string
  | ShareOutsideWindowCut u64
  | WindowOverflow
  | PayoutPolicyOverflow
  | InvalidMinOutputFloor
  | PoolFeeBpsTooHigh u16
  | DuplicatePoolFeeAccount
  | PoolFeeFirstRequiresPoolFee
  | EmptyWindow i64
  | DuplicateCarryForward string
  | CoinbaseBelowFloor u64 u64
  | NoOnchainRecipients
  | PayoutExceedsCandidateBalance u64 u128
  | PayoutBelowFloor string u64 u64
  | MaturePayoutDisconnect string
  | Builder builder_error
  | Json string
  | AuditMismatch string
  | AuditCoinbaseTxMismatch
  | ExpectedCoinbaseValueMismatch u64 u64
  | LedgerAttestationKeyReuse
  | InvalidCtvFanoutManifest string
  | InvalidAuditCommitment string
  | SettlementModeSelection string
  | Panic string

section \<open>Shares and the payout window\<close>

record accepted_share =
  sh_share_seq :: u64
  sh_share_id :: string
  sh_miner_id :: string
  sh_order_key :: string
  sh_program :: string
  sh_share_difficulty :: u128
  sh_network_difficulty :: u128
  sh_template_height :: u64
  sh_job_id :: string
  sh_job_issued_at_ms :: i64
  sh_accepted_at_ms :: i64
  sh_ntime :: u32
  sh_credit_policy :: "string option"

record found_block =
  fb_block_height :: u64
  fb_coinbase_value :: u64
  fb_network_difficulty :: u128
  fb_anchor_job_issued_at_ms :: i64

record counted_share =
  cs_share_seq :: u64
  cs_share_id :: string
  cs_miner_id :: string
  cs_order_key :: string
  cs_program :: string
  cs_share_difficulty :: u128
  cs_counted_difficulty :: u128
  cs_job_issued_at_ms :: i64
  cs_accepted_at_ms :: i64
  cs_credit_policy :: "string option"

record prism_window =
  pw_anchor_job_issued_at_ms :: i64
  pw_anchor_share_seq :: u64
  pw_requested_weight :: u128
  pw_counted_weight :: u128
  pw_shares :: "counted_share list"
  pw_entitlements :: "weighted_entitlement list"

record window_cut =
  cut_node_0 :: "u64 option"
  cut_node_1 :: "u64 option"

record reward_manifest =
  rm_schema :: string
  rm_block_height :: u64
  rm_coinbase_value :: u64
  rm_network_difficulty :: u128
  rm_window_multiplier :: u128
  rm_requested_weight :: u128
  rm_counted_weight :: u128
  rm_anchor_job_issued_at_ms :: i64
  rm_anchor_share_seq :: u64
  rm_newest_share_seq :: u64
  rm_oldest_share_seq :: u64
  rm_cut :: "window_cut option"
  rm_included_share_count :: usize
  rm_share_slice_digest_hex :: string
  rm_shares :: "counted_share list"
  rm_entitlements :: "weighted_entitlement list"

record reward_manifest_header =
  rh_schema :: string
  rh_block_height :: u64
  rh_coinbase_value :: u64
  rh_network_difficulty :: u128
  rh_window_multiplier :: u128
  rh_requested_weight :: u128
  rh_counted_weight :: u128
  rh_anchor_job_issued_at_ms :: i64
  rh_anchor_share_seq :: u64
  rh_newest_share_seq :: u64
  rh_oldest_share_seq :: u64
  rh_cut :: "window_cut option"
  rh_included_share_count :: usize
  rh_share_slice_digest_hex :: string
  rh_entitlements :: "weighted_entitlement list"

text \<open>\<open>MinerKey\<close>, with the derived lexicographic order of its fields.\<close>

datatype miner_key = MinerKey (mk_miner_id: string) (mk_order_key: string) (mk_program: string)

instantiation miner_key :: linorder
begin

definition less_eq_miner_key :: "miner_key \<Rightarrow> miner_key \<Rightarrow> bool" where
  "less_eq_miner_key a b \<longleftrightarrow>
    (mk_miner_id a, mk_order_key a, mk_program a) \<le> (mk_miner_id b, mk_order_key b, mk_program b)"

definition less_miner_key :: "miner_key \<Rightarrow> miner_key \<Rightarrow> bool" where
  "less_miner_key a b \<longleftrightarrow>
    (mk_miner_id a, mk_order_key a, mk_program a) < (mk_miner_id b, mk_order_key b, mk_program b)"

instance
proof
  fix x y z :: miner_key
  show "(x < y) = (x \<le> y \<and> \<not> y \<le> x)"
    unfolding less_eq_miner_key_def less_miner_key_def by (rule less_le_not_le)
  show "x \<le> x" by (simp add: less_eq_miner_key_def)
  show "x \<le> z" if "x \<le> y" "y \<le> z" using that
    unfolding less_eq_miner_key_def by (rule order_trans)
  show "x = y" if "x \<le> y" "y \<le> x"
  proof -
    have "(mk_miner_id x, mk_order_key x, mk_program x) = (mk_miner_id y, mk_order_key y, mk_program y)"
      using that unfolding less_eq_miner_key_def by (rule antisym)
    then show ?thesis by (cases x; cases y) simp
  qed
  show "x \<le> y \<or> y \<le> x" unfolding less_eq_miner_key_def by (rule linear)
qed

end

lemmas miner_key_evals [evals] = less_eq_miner_key_def less_miner_key_def

section \<open>The payout policy\<close>

datatype coinbase_output_policy = Canonical | PoolFeeFirst

record pool_fee_policy =
  fp_fee_bps :: u16
  fp_recipient_id :: string
  fp_order_key :: string
  fp_program :: string

record payout_policy =
  pp_spend_input_bytes :: u64
  pp_target_feerate :: u64
  pp_safety_multiplier :: u64
  pp_min_output_sats :: "u64 option"
  pp_pool_fee_policy :: "pool_fee_policy option"
  pp_coinbase_output_policy :: coinbase_output_policy

record carry_forward_balance =
  cb_recipient_id :: string
  cb_order_key :: string
  cb_program :: string
  cb_balance_sats :: i128

record pool_fee_manifest =
  pf_fee_bps :: u16
  pf_earned_sats :: u64
  pf_swept_dust_sats :: u64
  pf_amount_sats :: u64
  pf_recipient_id :: string
  pf_order_key :: string
  pf_program :: string

datatype account_type = Miner | PoolFee

datatype policy_action = Onchain | Accrued

record policy_account =
  pa_account_type :: account_type
  pa_recipient_id :: string
  pa_order_key :: string
  pa_program :: string
  pa_gross_sats :: u64
  pa_prior_balance :: i128
  pa_candidate_balance :: i128
  pa_onchain_sats :: u64
  pa_settlement_fee_sats :: u64
  pa_carry_forward :: i128
  pa_action :: policy_action

record policy_manifest =
  py_schema :: string
  py_block_height :: u64
  py_coinbase_value :: u64
  py_min_output_sats :: u64
  py_floor_formula :: string
  py_coinbase_output_policy :: coinbase_output_policy
  py_pool_fee :: "pool_fee_manifest option"
  py_accounts :: "policy_account list"
  py_onchain_entitlements :: "weighted_entitlement list"

record account_seed =
  sd_recipient_id :: string
  sd_order_key :: string
  sd_program :: string
  sd_gross_sats :: u64
  sd_prior_balance :: i128

section \<open>The maturity ledger\<close>

datatype maturity_state = Immature | Mature | Reversed

record maturity_entry =
  me_block_hash :: string
  me_block_height :: u64
  me_account_type :: account_type
  me_recipient_id :: string
  me_order_key :: string
  me_program :: string
  me_gross_sats :: u64
  me_prior_balance :: i128
  me_candidate_balance :: i128
  me_onchain_sats :: u64
  me_settlement_fee_sats :: u64
  me_carry_forward :: i128
  me_action :: policy_action
  me_state :: maturity_state

section \<open>Constants and account keys\<close>

definition PRISM_WINDOW_MULTIPLIER :: u128 where "PRISM_WINDOW_MULTIPLIER = 8"
definition DEFAULT_P2MR_SPEND_INPUT_BYTES :: u64 where "DEFAULT_P2MR_SPEND_INPUT_BYTES = 3680"
definition DEFAULT_MIN_OUTPUT_FEERATE_SATS_PER_BYTE :: u64 where
  "DEFAULT_MIN_OUTPUT_FEERATE_SATS_PER_BYTE = 1"
definition DEFAULT_MIN_OUTPUT_SAFETY_MULTIPLIER :: u64 where
  "DEFAULT_MIN_OUTPUT_SAFETY_MULTIPLIER = 4"
definition QBIT_COINBASE_MATURITY_BLOCKS :: u64 where "QBIT_COINBASE_MATURITY_BLOCKS = 1000"

definition account_key :: "string \<Rightarrow> string \<Rightarrow> string \<Rightarrow> string" where
  "account_key recipient_id order_key program =
    recipient_id @ [CHR 0x00] @ order_key @ [CHR 0x00] @ program"

definition payout_program_key :: "string \<Rightarrow> string" where
  "payout_program_key program = to_ascii_lowercase program"

lemmas const_evals [evals] = PRISM_WINDOW_MULTIPLIER_def DEFAULT_P2MR_SPEND_INPUT_BYTES_def
  DEFAULT_MIN_OUTPUT_FEERATE_SATS_PER_BYTE_def DEFAULT_MIN_OUTPUT_SAFETY_MULTIPLIER_def
  QBIT_COINBASE_MATURITY_BLOCKS_def account_key_def payout_program_key_def
  to_ascii_lowercase_def ascii_lower_def

end
