(* ===== verification/Window_Cut.thy ===== *)
theory Window_Cut
  imports Prism_Types "HOL-Library.Option_ord"
begin

text \<open>
  \<open>window_cut.rs\<close>: the per-node cut of a dual-writer payout window.  \<open>None\<close> orders below
  every \<open>Some\<close>, as Rust's derived order on \<open>Option\<close> does.
\<close>

datatype window_cut_error = ZeroEntry | UnknownNode u8

definition cut_new :: "u64 option \<Rightarrow> u64 option \<Rightarrow> window_cut_error + window_cut" where
  "cut_new node_0 node_1 =
    (if node_0 = Some 0 \<or> node_1 = Some 0 then Inl ZeroEntry
     else Inr \<lparr>cut_node_0 = node_0, cut_node_1 = node_1\<rparr>)"

definition cut_get :: "window_cut \<Rightarrow> u8 \<Rightarrow> window_cut_error + u64 option" where
  "cut_get c node =
    (if node = 0 then Inr (cut_node_0 c)
     else if node = 1 then Inr (cut_node_1 c) else Inl (UnknownNode node))"

definition cut_with :: "window_cut \<Rightarrow> u8 \<Rightarrow> u64 option \<Rightarrow> window_cut_error + window_cut" where
  "cut_with c node entry =
    (if node = 0 then cut_new entry (cut_node_1 c)
     else if node = 1 then cut_new (cut_node_0 c) entry else Inl (UnknownNode node))"

definition cut_top :: "window_cut \<Rightarrow> u64 option" where
  "cut_top c = max (cut_node_0 c) (cut_node_1 c)"

definition cut_admits :: "window_cut \<Rightarrow> u8 \<Rightarrow> u64 \<Rightarrow> bool" where
  "cut_admits c origin_node share_seq =
    (case cut_get c origin_node of
      Inr (Some entry) \<Rightarrow> share_seq \<le> entry
    | _ \<Rightarrow> False)"

definition cut_covers :: "window_cut \<Rightarrow> window_cut \<Rightarrow> bool" where
  "cut_covers c earlier \<longleftrightarrow>
    cut_node_0 earlier \<le> cut_node_0 c \<and> cut_node_1 earlier \<le> cut_node_1 c"

lemmas cut_evals [evals] = cut_new_def cut_get_def cut_with_def cut_top_def cut_admits_def
  cut_covers_def

text \<open>The cuts the constructors make: no entry is \<open>Some 0\<close>.\<close>

definition cut_wf :: "window_cut \<Rightarrow> bool" where
  "cut_wf c \<longleftrightarrow> cut_node_0 c \<noteq> Some 0 \<and> cut_node_1 c \<noteq> Some 0"

lemma cut_new_Inr: "cut_new a b = Inr c \<longleftrightarrow> c = \<lparr>cut_node_0 = a, cut_node_1 = b\<rparr> \<and> cut_wf c"
  by (auto simp: cut_new_def cut_wf_def)

lemma cut_with_wf: "cut_with c node entry = Inr c' \<Longrightarrow> cut_wf c'"
  by (auto simp: cut_with_def cut_new_Inr split: if_splits)

section \<open>Decoding\<close>

text \<open>
  The hand-written \<open>Deserialize\<close>: the visitor reads the object's members in order.  An
  entry the inner \<open>Option<u64>\<close> decoder refuses is \<open>BadValue\<close>.
\<close>

datatype cut_decode_error =
    UnknownField string
  | DuplicateField string
  | BadValue
  | ZeroEntryCustom
  | MissingField string

fun visit_map ::
  "u64 option option \<Rightarrow> u64 option option \<Rightarrow> (string \<times> u64 option option) list
    \<Rightarrow> cut_decode_error + window_cut"
where
  "visit_map node_0 node_1 [] =
    rbind (ok_or node_0 (MissingField ''0'')) (\<lambda>a.
    rbind (ok_or node_1 (MissingField ''1'')) (\<lambda>b.
    Inr \<lparr>cut_node_0 = a, cut_node_1 = b\<rparr>))"
| "visit_map node_0 node_1 ((key, value) # rest) =
    (if key = ''0'' then
       (if node_0 \<noteq> None then Inl (DuplicateField ''0'')
        else case value of
          None \<Rightarrow> Inl BadValue
        | Some entry \<Rightarrow>
            if entry = Some 0 then Inl ZeroEntryCustom else visit_map (Some entry) node_1 rest)
     else if key = ''1'' then
       (if node_1 \<noteq> None then Inl (DuplicateField ''1'')
        else case value of
          None \<Rightarrow> Inl BadValue
        | Some entry \<Rightarrow>
            if entry = Some 0 then Inl ZeroEntryCustom else visit_map node_0 (Some entry) rest)
     else Inl (UnknownField key))"

text \<open>The derived \<open>Serialize\<close>: both members, in node order.\<close>

definition cut_members :: "window_cut \<Rightarrow> (string \<times> u64 option option) list" where
  "cut_members c = [(''0'', Some (cut_node_0 c)), (''1'', Some (cut_node_1 c))]"

lemma visit_map_members: "cut_wf c \<Longrightarrow> visit_map None None (cut_members c) = Inr c"
  by (simp add: cut_members_def cut_wf_def)

text \<open>
  Only the two-member objects decode: an accepted member list is a permutation of the
  serialized one, so a cut has one encoding up to member order.
\<close>

lemma visit_map_Inr:
  assumes "visit_map a b ms = Inr c"
  shows "mset ms =
      (if a = None then {#(''0'', Some (cut_node_0 c))#} else {#}) +
      (if b = None then {#(''1'', Some (cut_node_1 c))#} else {#}) \<and>
    (\<forall>v. a = Some v \<longrightarrow> cut_node_0 c = v) \<and> (\<forall>v. b = Some v \<longrightarrow> cut_node_1 c = v) \<and>
    (a = None \<longrightarrow> cut_node_0 c \<noteq> Some 0) \<and> (b = None \<longrightarrow> cut_node_1 c \<noteq> Some 0)"
  using assms
  by (induction a b ms rule: visit_map.induct) (auto split: if_splits option.splits)

section \<open>What the cut promises\<close>

lemma cut_covers_refl: "cut_covers c c"
  by (simp add: cut_covers_def)

lemma cut_covers_trans: "cut_covers a b \<Longrightarrow> cut_covers b c \<Longrightarrow> cut_covers a c"
  by (auto simp: cut_covers_def)

lemma admits_le_top: "cut_admits c n s \<Longrightarrow> \<exists>t. cut_top c = Some t \<and> s \<le> t"
  by (cases "cut_node_0 c"; cases "cut_node_1 c")
    (auto simp: cut_admits_def cut_get_def cut_top_def max_def split: if_splits option.splits)

lemma admits_mono: "cut_covers c d \<Longrightarrow> cut_admits d n s \<Longrightarrow> cut_admits c n s"
  by (cases "cut_node_0 c"; cases "cut_node_1 c"; cases "cut_node_0 d"; cases "cut_node_1 d")
    (auto simp: cut_covers_def cut_admits_def cut_get_def split: if_splits)

text \<open>Covering is exactly admitting more: the converse holds for well-formed cuts.\<close>

lemma covers_iff_admits:
  assumes "cut_wf d"
  shows "cut_covers c d \<longleftrightarrow> (\<forall>n s. cut_admits d n s \<longrightarrow> cut_admits c n s)"
proof
  assume R: "\<forall>n s. cut_admits d n s \<longrightarrow> cut_admits c n s"
  have "cut_node_0 d \<le> cut_node_0 c"
  proof (cases "cut_node_0 d")
    case (Some s)
    then have "cut_admits d 0 s" by (simp add: cut_admits_def cut_get_def)
    then have "cut_admits c 0 s" using R by blast
    with Some show ?thesis by (auto simp: cut_admits_def cut_get_def split: option.splits)
  qed simp
  moreover have "cut_node_1 d \<le> cut_node_1 c"
  proof (cases "cut_node_1 d")
    case (Some s)
    then have "cut_admits d 1 s" by (simp add: cut_admits_def cut_get_def)
    then have "cut_admits c 1 s" using R by blast
    with Some show ?thesis by (auto simp: cut_admits_def cut_get_def split: option.splits)
  qed simp
  ultimately show "cut_covers c d" by (simp add: cut_covers_def)
qed (blast intro: admits_mono)

end
