(* ===== verification/Digest_Bytes.thy ===== *)
theory Digest_Bytes
  imports Rust_Prelude
begin

text \<open>
  The byte strings the program hashes: \<open>to_be_bytes\<close> / \<open>to_le_bytes\<close> of an integer of
  \<open>n\<close> bytes (two's complement for signed ones), length-prefixed strings, and the
  third-party functions (\<open>sha2\<close>, \<open>hex\<close>) as a record of parameters.  The encoders are
  shown to be uniquely parseable, which is what makes the digests commitments to their
  data.
\<close>

section \<open>Third-party functions\<close>

record crypto =
  sha256 :: "bytes \<Rightarrow> bytes"
  hex_encode :: "bytes \<Rightarrow> string"
  hex_decode :: "string \<Rightarrow> string + bytes"

text \<open>
  What the code relies on: a digest has 32 bytes, encoding and decoding hex invert each
  other on encoded strings, and decoding does not see ASCII case.
\<close>

definition hex_ok :: "crypto \<Rightarrow> bool" where
  "hex_ok c \<longleftrightarrow> (\<forall>b. hex_decode c (hex_encode c b) = Inr b)"

definition hash_ok :: "crypto \<Rightarrow> bool" where
  "hash_ok c \<longleftrightarrow> (\<forall>b. length (sha256 c b) = 32)"

lemma hex_encode_inj: "hex_ok c \<Longrightarrow> hex_encode c a = hex_encode c b \<longleftrightarrow> a = b"
  by (metis hex_ok_def sum.inject(2))

definition sha256_hex :: "crypto \<Rightarrow> bytes \<Rightarrow> string" where
  "sha256_hex c b = hex_encode c (sha256 c b)"

definition hash256 :: "crypto \<Rightarrow> bytes \<Rightarrow> bytes" where
  "hash256 c b = sha256 c (sha256 c b)"

lemmas crypto_evals [evals] = sha256_hex_def hash256_def

section \<open>Fixed-width integers\<close>

fun be_bytes :: "nat \<Rightarrow> int \<Rightarrow> bytes" where
  "be_bytes 0 x = []"
| "be_bytes (Suc n) x = be_bytes n (x div 256) @ [word_of_int x]"

fun le_bytes :: "nat \<Rightarrow> int \<Rightarrow> bytes" where
  "le_bytes 0 x = []"
| "le_bytes (Suc n) x = word_of_int x # le_bytes n (x div 256)"

text \<open>\<open>from_le_bytes\<close> of an unsigned integer.\<close>

fun le_value :: "bytes \<Rightarrow> int" where
  "le_value [] = 0"
| "le_value (b # bs) = uint b + 256 * le_value bs"

lemma be_bytes_rev: "be_bytes n x = rev (le_bytes n x)"
  by (induction n arbitrary: x) auto

lemma length_le_bytes [simp]: "length (le_bytes n x) = n"
  by (induction n arbitrary: x) auto

lemma length_be_bytes [simp]: "length (be_bytes n x) = n"
  by (simp add: be_bytes_rev)

lemma be_bytes_eq_Nil [simp]: "be_bytes n x = [] \<longleftrightarrow> n = 0"
  by (metis length_0_conv length_be_bytes)

lemma le_value_le_bytes: "le_value (le_bytes n x) = x mod 256 ^ n"
proof (induction n arbitrary: x)
  case (Suc n)
  have "x mod (256 * 256 ^ n) = 256 * (x div 256 mod 256 ^ n) + x mod 256"
    by (rule zmod_zmult2_eq) simp
  then show ?case using Suc by (simp add: uint_word_of_int)
qed simp

lemma le_value_bounds: "0 \<le> le_value bs \<and> le_value bs < 256 ^ length bs"
proof (induction bs)
  case (Cons b bs)
  moreover have "0 \<le> uint b" "uint b < 256" using uint_lt2p[of b] by auto
  ultimately show ?case by auto
qed simp

lemma le_bytes_le_value: "le_bytes (length bs) (le_value bs) = bs"
proof (induction bs)
  case (Cons b bs)
  have b: "uint b < 256" using uint_lt2p[of b] by simp
  have "word_of_int (uint b + 256 * le_value bs) = b"
  proof -
    have "uint (word_of_int (uint b + 256 * le_value bs) :: u8) = (uint b + 256 * le_value bs) mod 256"
      by (simp only: uint_word_of_int) simp
    then show ?thesis using b by (simp add: word_uint_eq_iff)
  qed
  moreover have "(uint b + 256 * le_value bs) div 256 = le_value bs" using b by simp
  ultimately show ?case using Cons by simp
qed simp

lemma le_bytes_inj: "le_bytes n x = le_bytes n y \<longleftrightarrow> x mod 256 ^ n = y mod 256 ^ n"
  by (metis le_value_le_bytes le_bytes_le_value length_le_bytes)

lemma be_bytes_inj: "be_bytes n x = be_bytes n y \<longleftrightarrow> x mod 256 ^ n = y mod 256 ^ n"
  by (simp add: be_bytes_rev le_bytes_inj)

definition u64_be :: "u64 \<Rightarrow> bytes" where "u64_be x = be_bytes 8 (uint x)"
definition u128_be :: "u128 \<Rightarrow> bytes" where "u128_be x = be_bytes 16 (uint x)"
definition i64_be :: "i64 \<Rightarrow> bytes" where "i64_be x = be_bytes 8 x"
definition i128_be :: "i128 \<Rightarrow> bytes" where "i128_be x = be_bytes 16 x"
definition string_be :: "string \<Rightarrow> bytes" where
  "string_be s = be_bytes 8 (int (length s)) @ string_bytes s"

definition i64_range :: "int \<Rightarrow> bool" where "i64_range x \<longleftrightarrow> - (2 ^ 63) \<le> x \<and> x < 2 ^ 63"
definition i128_range :: "int \<Rightarrow> bool" where "i128_range x \<longleftrightarrow> - (2 ^ 127) \<le> x \<and> x < 2 ^ 127"

lemmas digest_evals [evals] = u64_be_def u128_be_def i64_be_def i128_be_def string_be_def
  string_bytes_def

lemma mod_range_inj:
  fixes x y :: int
  assumes "- h \<le> x" "x < h" "- h \<le> y" "y < h" "x mod (2 * h) = y mod (2 * h)"
  shows "x = y"
proof -
  have "(2 * h) dvd (x - y)" using assms(5) by (simp add: mod_eq_dvd_iff)
  moreover have "\<bar>x - y\<bar> < 2 * h" using assms by linarith
  ultimately show ?thesis by (metis dvd_imp_le_int eq_iff_diff_eq_0 linorder_not_le abs_of_nonneg
        abs_ge_zero abs_le_zero_iff order_less_le_trans zdvd_not_zless zero_less_abs_iff dvd_abs_iff)
qed

lemma length_string_bytes [simp]: "length (string_bytes s) = length s"
  by (simp add: string_bytes_def)

lemma string_bytes_inj: "string_bytes s = string_bytes t \<longleftrightarrow> s = t"
proof -
  have "inj (\<lambda>c :: char. word_of_nat (of_char c) :: u8)"
  proof (rule injI)
    fix c d :: char
    assume eq: "(word_of_nat (of_char c) :: u8) = word_of_nat (of_char d)"
    have lt: "(of_char c :: nat) < 256" "(of_char d :: nat) < 256" by simp_all
    have "(of_char c :: nat) mod 256 = of_char d mod 256"
      using arg_cong[OF eq, of unat] by (simp add: unat_of_nat)
    with lt have "of_char c = (of_char d :: nat)" by simp
    then show "c = d" by (simp add: of_char_eq_iff)
  qed
  then show ?thesis by (simp add: string_bytes_def inj_map_eq_map)
qed

section \<open>Unique parses\<close>

lemma u64_be_append: "u64_be x @ r = u64_be y @ s \<longleftrightarrow> x = y \<and> r = s"
  by (auto simp: u64_be_def be_bytes_inj word_uint_eq_iff mod_pos_pos_trivial u64_bound_num)

lemma u128_be_append: "u128_be x @ r = u128_be y @ s \<longleftrightarrow> x = y \<and> r = s"
  by (auto simp: u128_be_def be_bytes_inj word_uint_eq_iff mod_pos_pos_trivial u128_bound_num)

lemma i64_be_append:
  "i64_range x \<Longrightarrow> i64_range y \<Longrightarrow> i64_be x @ r = i64_be y @ s \<longleftrightarrow> x = y \<and> r = s"
  using mod_range_inj[of "2 ^ 63" x y] by (auto simp: i64_be_def be_bytes_inj i64_range_def)

lemma i128_be_append:
  "i128_range x \<Longrightarrow> i128_range y \<Longrightarrow> i128_be x @ r = i128_be y @ s \<longleftrightarrow> x = y \<and> r = s"
  using mod_range_inj[of "2 ^ 127" x y] by (auto simp: i128_be_def be_bytes_inj i128_range_def)

lemma string_be_append:
  "length a < 2 ^ 64 \<Longrightarrow> length b < 2 ^ 64 \<Longrightarrow>
    string_be a @ r = string_be b @ s \<longleftrightarrow> a = b \<and> r = s"
  by (auto simp: string_be_def be_bytes_inj string_bytes_inj)

section \<open>A concrete instance of the parameters\<close>

text \<open>
  Hex as the \<open>hex\<close> crate documents it (lower-case output, either case accepted), with a
  32-byte stand-in for the hash: the instance on which the properties that take these
  parameters are exercised.
\<close>

definition hex_digit :: "nat \<Rightarrow> char" where
  "hex_digit n = (if n < 10 then char_of (48 + n) else char_of (87 + n))"

definition hex_value :: "char \<Rightarrow> nat option" where
  "hex_value c = (let n = of_char c in
    if 48 \<le> n \<and> n < 58 then Some (n - 48)
    else if 97 \<le> n \<and> n < 103 then Some (n - 87)
    else if 65 \<le> n \<and> n < 71 then Some (n - 55) else None)"

definition model_hex_encode :: "bytes \<Rightarrow> string" where
  "model_hex_encode bs = concat (map (\<lambda>b. [hex_digit (unat b div 16), hex_digit (unat b mod 16)]) bs)"

fun model_hex_decode :: "string \<Rightarrow> string + bytes" where
  "model_hex_decode [] = Inr []"
| "model_hex_decode [c] = Inl ''Odd number of digits''"
| "model_hex_decode (a # b # cs) =
    (case (hex_value a, hex_value b) of
      (Some x, Some y) \<Rightarrow> rbind (model_hex_decode cs) (\<lambda>bs. Inr (word_of_nat (16 * x + y) # bs))
    | _ \<Rightarrow> Inl ''Invalid character'')"

definition model_crypto :: crypto where
  "model_crypto = \<lparr>sha256 = \<lambda>b. le_bytes 32 (int (length b)), hex_encode = model_hex_encode,
    hex_decode = model_hex_decode\<rparr>"

lemma hex_value_digit: "n < 16 \<Longrightarrow> hex_value (hex_digit n) = Some n"
  by (auto simp: hex_value_def hex_digit_def Let_def of_char_of)

lemma model_hex_ok: "hex_ok model_crypto"
proof -
  have "model_hex_decode (model_hex_encode bs) = Inr bs" for bs
  proof (induction bs)
    case (Cons b bs)
    have lt: "unat b < 256" using unsigned_less[of b, where ?'a = nat] by simp
    then have "unat b div 16 < 16" "unat b mod 16 < 16" by auto
    moreover have "(word_of_nat (16 * (unat b div 16) + unat b mod 16) :: u8) = b" by simp
    ultimately show ?case
      using Cons by (simp add: model_hex_encode_def hex_value_digit del: of_nat_add of_nat_mult)
  qed (simp add: model_hex_encode_def)
  then show ?thesis by (simp add: hex_ok_def model_crypto_def)
qed

lemma model_hash_ok: "hash_ok model_crypto"
  by (simp add: hash_ok_def model_crypto_def)

end
