(* ===== verification/Reward_Window.thy ===== *)
theory Reward_Window
  imports Weight_Map Window_Cut Digest_Bytes
begin

text \<open>
  The payout window of \<open>lib.rs\<close>: which accepted shares a found block pays, newest first,
  up to a weight of eight network difficulties (\<open>eligible_window\<close>,
  \<open>compute_prism_window_in_cut\<close>), their aggregation per miner, and the slice digest.
\<close>

section \<open>Validation, eligibility and order\<close>

definition share_eligible :: "found_block \<Rightarrow> accepted_share \<Rightarrow> bool" where
  "share_eligible fb s \<longleftrightarrow>
    sh_job_issued_at_ms s \<le> fb_anchor_job_issued_at_ms fb \<and>
    sh_accepted_at_ms s \<le> fb_anchor_job_issued_at_ms fb"

definition outside_cut :: "u64 option option \<Rightarrow> accepted_share \<Rightarrow> bool" where
  "outside_cut limit s = (case limit of
    None \<Rightarrow> False
  | Some None \<Rightarrow> True
  | Some (Some t) \<Rightarrow> t < sh_share_seq s)"

fun scan_shares ::
  "found_block \<Rightarrow> u64 option option \<Rightarrow> string set \<Rightarrow> accepted_share list
    \<Rightarrow> prism_error + accepted_share list"
where
  "scan_shares fb limit seen [] = Inr []"
| "scan_shares fb limit seen (s # ss) =
    (if sh_share_difficulty s = 0 then Inl (ZeroShareDifficulty (sh_share_seq s))
     else if outside_cut limit s then Inl (ShareOutsideWindowCut (sh_share_seq s))
     else if sh_share_id s \<in> seen then Inl (DuplicateShareId (sh_share_id s))
     else rbind (scan_shares fb limit (insert (sh_share_id s) seen) ss) (\<lambda>rest.
       Inr (if share_eligible fb s then s # rest else rest)))"

definition newest_first :: "accepted_share list \<Rightarrow> accepted_share list" where
  "newest_first ss =
    (if successively (\<lambda>a b. sh_share_seq a < sh_share_seq b) ss then rev ss
     else if \<not> successively (\<lambda>a b. sh_share_seq b < sh_share_seq a) ss
       then sort_key (\<lambda>s. - uint (sh_share_seq s)) ss
     else ss)"

definition eligible_window ::
  "accepted_share list \<Rightarrow> found_block \<Rightarrow> window_cut option
    \<Rightarrow> prism_error + accepted_share list \<times> u128"
where
  "eligible_window shares fb wc =
    (if fb_network_difficulty fb = 0 then Inl ZeroNetworkDifficulty
     else
     rbind (scan_shares fb (map_option cut_top wc) {} shares) (\<lambda>eligible.
     rbind (ok_or (checked_mul (fb_network_difficulty fb) PRISM_WINDOW_MULTIPLIER) WindowOverflow)
       (\<lambda>requested. Inr (newest_first eligible, requested))))"

section \<open>The serial fold\<close>

definition counted_share_of :: "accepted_share \<Rightarrow> u128 \<Rightarrow> counted_share" where
  "counted_share_of s counted =
    \<lparr>cs_share_seq = sh_share_seq s, cs_share_id = sh_share_id s, cs_miner_id = sh_miner_id s,
     cs_order_key = sh_order_key s, cs_program = sh_program s,
     cs_share_difficulty = sh_share_difficulty s, cs_counted_difficulty = counted,
     cs_job_issued_at_ms = sh_job_issued_at_ms s, cs_accepted_at_ms = sh_accepted_at_ms s,
     cs_credit_policy = sh_credit_policy s\<rparr>"

fun count_shares :: "u128 \<Rightarrow> accepted_share list \<Rightarrow> counted_share list" where
  "count_shares remaining [] = []"
| "count_shares remaining (s # ss) =
    (if remaining = 0 then []
     else let counted = min (sh_share_difficulty s) remaining in
       counted_share_of s counted # count_shares (remaining - counted) ss)"

definition miner_key_of :: "counted_share \<Rightarrow> miner_key" where
  "miner_key_of c = MinerKey (cs_miner_id c) (cs_order_key c) (cs_program c)"

definition aggregate_entitlements ::
  "counted_share list \<Rightarrow> prism_error + weighted_entitlement list"
where
  "aggregate_entitlements counted =
    rbind (add_weights WindowOverflow miner_key_of cs_counted_difficulty [] counted) (\<lambda>weights.
    Inr (map (\<lambda>(key, weight).
      \<lparr>we_recipient_id = mk_miner_id key, we_order_key = mk_order_key key,
       we_program = mk_program key, we_weight = weight\<rparr>) (bt_entries weights)))"

definition compute_prism_window_in_cut ::
  "accepted_share list \<Rightarrow> found_block \<Rightarrow> window_cut option \<Rightarrow> prism_error + prism_window"
where
  "compute_prism_window_in_cut shares fb wc =
    rbind (eligible_window shares fb wc) (\<lambda>(eligible, requested).
    let counted = count_shares requested eligible in
    if counted = [] then Inl (EmptyWindow (fb_anchor_job_issued_at_ms fb))
    else
    rbind (checked_sum WindowOverflow cs_counted_difficulty counted) (\<lambda>counted_weight.
    rbind (aggregate_entitlements counted) (\<lambda>entitlements.
    Inr \<lparr>pw_anchor_job_issued_at_ms = fb_anchor_job_issued_at_ms fb,
         pw_anchor_share_seq = cs_share_seq (counted ! 0),
         pw_requested_weight = requested, pw_counted_weight = counted_weight,
         pw_shares = counted, pw_entitlements = entitlements\<rparr>)))"

definition compute_prism_window ::
  "accepted_share list \<Rightarrow> found_block \<Rightarrow> prism_error + prism_window" where
  "compute_prism_window shares fb = compute_prism_window_in_cut shares fb None"

lemmas window_evals [evals] = share_eligible_def outside_cut_def newest_first_def
  eligible_window_def counted_share_of_def miner_key_of_def aggregate_entitlements_def
  compute_prism_window_in_cut_def compute_prism_window_def

section \<open>The slice digest\<close>

definition slice_digest_bytes :: "counted_share \<Rightarrow> bytes" where
  "slice_digest_bytes c =
    u64_be (cs_share_seq c) @ string_be (cs_share_id c) @ string_be (cs_miner_id c) @
    string_be (cs_order_key c) @ string_be (cs_program c) @ u128_be (cs_share_difficulty c) @
    u128_be (cs_counted_difficulty c) @ i64_be (cs_job_issued_at_ms c) @
    i64_be (cs_accepted_at_ms c) @
    (case cs_credit_policy c of
      None \<Rightarrow> []
    | Some policy \<Rightarrow> string_be ''credit_policy'' @ string_be policy)"

definition slice_preimage :: "counted_share list \<Rightarrow> bytes" where
  "slice_preimage counted = concat (map slice_digest_bytes counted)"

definition share_slice_digest_hex :: "crypto \<Rightarrow> counted_share list \<Rightarrow> string" where
  "share_slice_digest_hex c counted = sha256_hex c (slice_preimage counted)"

lemmas slice_evals [evals] = slice_digest_bytes_def slice_preimage_def share_slice_digest_hex_def

section \<open>The order\<close>

text \<open>
  Reversing an ascending snapshot, or leaving a descending one, is the stable sort: the
  fast paths change nothing.
\<close>

lemma seq_desc_sorted:
  "sorted_wrt (\<lambda>a b. sh_share_seq b < sh_share_seq a) ss \<Longrightarrow>
    sort_key (\<lambda>s. - uint (sh_share_seq s)) ss = ss"
  by (rule sort_key_id_if_sorted)
    (auto simp: sorted_map word_less_def elim!: sorted_wrt_mono_rel[rotated])

lemma seq_less_transp:
  "transp (\<lambda>a b. sh_share_seq a < sh_share_seq b)" "transp (\<lambda>a b. sh_share_seq b < sh_share_seq a)"
  by (auto intro!: transpI)

lemma newest_first_sort: "newest_first ss = sort_key (\<lambda>s. - uint (sh_share_seq s)) ss"
proof (cases "successively (\<lambda>a b. sh_share_seq a < sh_share_seq b) ss")
  case True
  then have "sorted_wrt (\<lambda>a b. sh_share_seq b < sh_share_seq a) (rev ss)"
    by (simp add: successively_conv_sorted_wrt[OF seq_less_transp(1)] sorted_wrt_rev)
  then have *: "sort_key (\<lambda>s. - uint (sh_share_seq s)) (rev ss) = rev ss" by (rule seq_desc_sorted)
  have "inj_on (\<lambda>s. - uint (sh_share_seq s)) (set ss)"
  proof (rule inj_onI)
    fix a b assume ab: "a \<in> set ss" "b \<in> set ss" "- uint (sh_share_seq a) = - uint (sh_share_seq b)"
    then have "sh_share_seq a = sh_share_seq b" by (simp add: word_uint_eq_iff)
    moreover have "sorted_wrt (\<lambda>a b. sh_share_seq a < sh_share_seq b) ss"
      using True by (simp add: successively_conv_sorted_wrt[OF seq_less_transp(1)])
    ultimately show "a = b" using ab(1,2)
      by (auto simp: sorted_wrt_iff_nth_less in_set_conv_nth)
        (metis less_irrefl linorder_neqE_nat)
  qed
  then have "sort_key (\<lambda>s. - uint (sh_share_seq s)) ss =
      sort_key (\<lambda>s. - uint (sh_share_seq s)) (rev ss)"
    by (intro sort_key_unique) auto
  with * True show ?thesis by (simp add: newest_first_def)
next
  case False
  then show ?thesis
    by (auto simp: newest_first_def seq_desc_sorted successively_conv_sorted_wrt[OF seq_less_transp(2)])
qed

lemma mset_newest_first [simp]: "mset (newest_first ss) = mset ss"
  by (simp add: newest_first_sort)

lemma set_newest_first [simp]: "set (newest_first ss) = set ss"
  by (metis mset_newest_first set_mset_mset)

section \<open>The scan\<close>

text \<open>When the scan accepts, it returns the eligible shares in the order supplied.\<close>

lemma scan_shares_Inr:
  "scan_shares fb limit seen ss = Inr es \<longleftrightarrow>
    es = filter (share_eligible fb) ss \<and>
    (\<forall>s\<in>set ss. sh_share_difficulty s \<noteq> 0 \<and> \<not> outside_cut limit s \<and> sh_share_id s \<notin> seen) \<and>
    distinct (map sh_share_id ss)"
  by (induction fb limit seen ss arbitrary: es rule: scan_shares.induct)
    (auto, (metis image_eqI)+)

text \<open>When it refuses, the first offending share decides the error.\<close>

lemma scan_shares_Inl:
  assumes "scan_shares fb limit seen ss = Inl e"
  shows "\<exists>pre s post. ss = pre @ s # post \<and>
    (\<forall>x\<in>set pre. sh_share_difficulty x \<noteq> 0 \<and> \<not> outside_cut limit x) \<and>
    (sh_share_difficulty s = 0 \<and> e = ZeroShareDifficulty (sh_share_seq s) \<or>
     sh_share_difficulty s \<noteq> 0 \<and> outside_cut limit s \<and> e = ShareOutsideWindowCut (sh_share_seq s) \<or>
     sh_share_difficulty s \<noteq> 0 \<and> \<not> outside_cut limit s \<and>
       (sh_share_id s \<in> seen \<or> sh_share_id s \<in> sh_share_id ` set pre) \<and>
       e = DuplicateShareId (sh_share_id s))"
  using assms
proof (induction fb limit seen ss rule: scan_shares.induct)
  case (2 fb limit seen s ss)
  show ?case
  proof (cases "sh_share_difficulty s = 0 \<or> outside_cut limit s \<or> sh_share_id s \<in> seen")
    case True
    with "2.prems" show ?thesis
      by (intro exI[of _ "[]"] exI[of _ s] exI[of _ ss]) (auto split: if_splits)
  next
    case False
    with "2.prems" have "scan_shares fb limit (insert (sh_share_id s) seen) ss = Inl e"
      by (auto simp: rbind_Inl)
    from "2.IH"[OF _ _ _ this] False obtain pre x post where
      "ss = pre @ x # post" "\<forall>y\<in>set pre. sh_share_difficulty y \<noteq> 0 \<and> \<not> outside_cut limit y"
      "sh_share_difficulty x = 0 \<and> e = ZeroShareDifficulty (sh_share_seq x) \<or>
       sh_share_difficulty x \<noteq> 0 \<and> outside_cut limit x \<and> e = ShareOutsideWindowCut (sh_share_seq x) \<or>
       sh_share_difficulty x \<noteq> 0 \<and> \<not> outside_cut limit x \<and>
         (sh_share_id x \<in> insert (sh_share_id s) seen \<or> sh_share_id x \<in> sh_share_id ` set pre) \<and>
         e = DuplicateShareId (sh_share_id x)"
      by blast
    with False show ?thesis
      by (intro exI[of _ "s # pre"] exI[of _ x] exI[of _ post]) auto
  qed
qed simp

section \<open>The fold\<close>

text \<open>
  What a share is credited, from the shares newer than it: the abstract specification of
  the loop.  \<open>newer ss i\<close> is the difficulty of the \<open>i\<close> newest shares.
\<close>

definition newer :: "accepted_share list \<Rightarrow> nat \<Rightarrow> int" where
  "newer ss i = (\<Sum>s\<leftarrow>take i ss. uint (sh_share_difficulty s))"

definition spec_credit :: "int \<Rightarrow> accepted_share list \<Rightarrow> nat \<Rightarrow> int" where
  "spec_credit requested ss i = min (uint (sh_share_difficulty (ss ! i))) (requested - newer ss i)"

lemma newer_0 [simp]: "newer ss 0 = 0"
  by (simp add: newer_def)

lemma newer_Cons_Suc [simp]: "newer (s # ss) (Suc i) = uint (sh_share_difficulty s) + newer ss i"
  by (simp add: newer_def)

lemma newer_nonneg [simp]: "0 \<le> newer ss i"
  by (simp add: newer_def)

lemma newer_mono: "i \<le> j \<Longrightarrow> newer ss i \<le> newer ss j"
proof (induction ss arbitrary: i j)
  case (Cons s ss)
  then show ?case by (cases i; cases j) auto
qed (simp add: newer_def)

lemma uint_min_word: "uint (min a b) = min (uint a) (uint b)" for a b :: "'a::len word"
  by (auto simp: min_def word_le_def)

lemma uint_remaining: "uint (r - min d r) = uint r - min (uint d) (uint r)" for r d :: u128
proof -
  have "min d r \<le> r" by simp
  then show ?thesis by (simp only: uint_minus_simple_alt uint_min_word flip: uint_min_word)
qed

lemma count_shares_credit:
  shows "length (count_shares r ss) \<le> length ss"
    and "i < length (count_shares r ss) \<longleftrightarrow> i < length ss \<and> newer ss i < uint r"
    and "i < length (count_shares r ss) \<Longrightarrow>
      (\<exists>c. count_shares r ss ! i = counted_share_of (ss ! i) c \<and> uint c = spec_credit (uint r) ss i)"
proof (induction r ss arbitrary: i rule: count_shares.induct)
  case (1 r)
  { case 1 show ?case by simp next case 2 show ?case by simp next case 3 then show ?case by simp }
next
  case (2 r s ss)
  define d where "d = sh_share_difficulty s"
  have u: "uint (r - min d r) = uint r - min (uint d) (uint r)" by (rule uint_remaining)
  have r0: "r = 0 \<longleftrightarrow> uint r = 0" by (simp add: word_uint_eq_iff)
  {
    case 1 show ?case
      using "2.IH"(1)[OF _ refl] by (auto simp: Let_def)
  next
    case 2 show ?case
    proof (cases i)
      case 0
      then show ?thesis using r0 uint_nonneg[of r] by (auto simp: Let_def order_less_le)
    next
      case (Suc j)
      show ?thesis
      proof (cases "r = 0")
        case True
        then show ?thesis using newer_nonneg[of "s # ss" i] by (simp add: linorder_not_less)
      next
        case False
        have "j < length (count_shares (r - min d r) ss) \<longleftrightarrow>
            j < length ss \<and> newer ss j < uint (r - min d r)"
          unfolding d_def by (rule "2.IH"(2)[OF False refl])
        moreover have "newer ss j < uint r - min (uint d) (uint r) \<longleftrightarrow> uint d + newer ss j < uint r"
        proof -
          have "0 \<le> newer ss j" by simp
          then show ?thesis by (cases "uint d \<le> uint r") (simp_all only: min_def if_True if_False, linarith+)
        qed
        ultimately show ?thesis using False Suc u by (simp add: Let_def d_def)
      qed
    qed
  next
    case 3
    then have r: "r \<noteq> 0" by auto
    show ?case
    proof (cases i)
      case 0
      then show ?thesis using r by (auto simp: Let_def spec_credit_def uint_min_word)
    next
      case (Suc j)
      have j: "j < length (count_shares (r - min d r) ss)"
        using 3 r Suc by (simp add: Let_def d_def)
      then have "newer ss j < uint (r - min d r)"
        using "2.IH"(2)[OF r refl, of j] by (simp add: d_def)
      then have "min (uint d) (uint r) = uint d" unfolding u using newer_nonneg[of ss j] by linarith
      then have "spec_credit (uint (r - min d r)) ss j = spec_credit (uint r) (s # ss) (Suc j)"
        unfolding spec_credit_def u by (simp add: d_def algebra_simps)
      moreover obtain c where "count_shares (r - min d r) ss ! j = counted_share_of (ss ! j) c"
          "uint c = spec_credit (uint (r - min d r)) ss j"
        using "2.IH"(3)[OF r refl, of j] j unfolding d_def by blast
      ultimately show ?thesis using r Suc by (auto simp: Let_def d_def)
    qed
  }
qed

lemma count_shares_sum:
  "(\<Sum>c\<leftarrow>count_shares r ss. uint (cs_counted_difficulty c)) =
    min (uint r) (\<Sum>s\<leftarrow>ss. uint (sh_share_difficulty s))"
proof (induction r ss rule: count_shares.induct)
  case (2 r s ss)
  show ?case
  proof (cases "r = 0")
    case False
    have nn: "0 \<le> (\<Sum>s\<leftarrow>ss. uint (sh_share_difficulty s))" by (rule sum_list_uint_nonneg)
    have "(\<Sum>c\<leftarrow>count_shares r (s # ss). uint (cs_counted_difficulty c)) =
        uint (min (sh_share_difficulty s) r) +
        min (uint (r - min (sh_share_difficulty s) r)) (\<Sum>s\<leftarrow>ss. uint (sh_share_difficulty s))"
      using False "2.IH"[OF False refl] by (simp add: Let_def counted_share_of_def)
    also have "\<dots> = min (uint r) (uint (sh_share_difficulty s) + (\<Sum>s\<leftarrow>ss. uint (sh_share_difficulty s)))"
      unfolding uint_remaining uint_min_word 
      using nn by linarith
    finally show ?thesis by simp
  next
    case True
    then show ?thesis using sum_list_uint_nonneg[of sh_share_difficulty "s # ss"] by (simp add: min_def)
  qed
qed (simp add: min_def)

text \<open>The counted sum never overflows: the error branch of the code is dead.\<close>

lemma counted_sum_ok:
  "checked_sum WindowOverflow cs_counted_difficulty (count_shares r ss) =
    Inr (word_of_int (min (uint r) (\<Sum>s\<leftarrow>ss. uint (sh_share_difficulty s))))"
proof -
  have "(\<Sum>c\<leftarrow>count_shares r ss. uint (cs_counted_difficulty c)) < 2 ^ 128"
    unfolding count_shares_sum using u128_bound[of r] by (auto simp: min_def)
  then show ?thesis by (simp add: checked_sum_Inr_ex count_shares_sum)
qed

section \<open>Entitlements\<close>

definition miner_weight :: "counted_share list \<Rightarrow> miner_key \<Rightarrow> int" where
  "miner_weight counted k = (\<Sum>c\<leftarrow>filter (\<lambda>c. miner_key_of c = k) counted. uint (cs_counted_difficulty c))"

definition miner_of :: "weighted_entitlement \<Rightarrow> miner_key" where
  "miner_of e = MinerKey (we_recipient_id e) (we_order_key e) (we_program e)"

lemma miner_weight_le:
  "miner_weight counted k \<le> (\<Sum>c\<leftarrow>counted. uint (cs_counted_difficulty c))"
  unfolding miner_weight_def by (rule sum_filter_le)

lemma aggregate_entitlements_ok:
  assumes "(\<Sum>c\<leftarrow>counted. uint (cs_counted_difficulty c)) < 2 ^ 128"
  obtains es where "aggregate_entitlements counted = Inr es"
    "sorted_wrt (<) (map miner_of es)" "set (map miner_of es) = set (map miner_key_of counted)"
    "\<And>e. e \<in> set es \<Longrightarrow> uint (we_weight e) = miner_weight counted (miner_of e)"
    "(\<Sum>e\<leftarrow>es. uint (we_weight e)) = (\<Sum>c\<leftarrow>counted. uint (cs_counted_difficulty c))"
proof -
  have "weight_at [] k + (\<Sum>c\<leftarrow>filter (\<lambda>c. miner_key_of c = k) counted. uint (cs_counted_difficulty c))
      < 2 ^ 128" for k
    using miner_weight_le[of counted k] assms by (simp add: miner_weight_def)
  then obtain m where m: "add_weights WindowOverflow miner_key_of cs_counted_difficulty [] counted = Inr m"
    using add_weights_succeeds[where m = "[]" and key = miner_key_of and w = cs_counted_difficulty
        and xs = counted and e = WindowOverflow] unfolding bt_ok_def by auto
  let ?f = "\<lambda>p. \<lparr>we_recipient_id = mk_miner_id (fst p), we_order_key = mk_order_key (fst p),
       we_program = mk_program (fst p), we_weight = snd p :: u128\<rparr>"
  have agg: "aggregate_entitlements counted = Inr (map ?f m)"
    by (simp add: aggregate_entitlements_def m bt_entries_def case_prod_unfold)
  have ok: "bt_ok []" by (simp add: bt_ok_def)
  note M = add_weights_Inr[OF m ok]
  have keys: "map miner_of (map ?f m) = map fst m" by (simp add: miner_of_def comp_def)
  have wt: "uint (snd p) = weight_at m (fst p)" if "p \<in> set m" for p
  proof -
    have "distinct (map fst m)" using M by (simp add: bt_ok_def strict_sorted_iff)
    then have "map_of m (fst p) = Some (snd p)" using that by (cases p) (simp add: map_of_is_SomeI)
    then show ?thesis by (simp add: weight_at_def bt_get_def)
  qed
  show thesis
  proof (rule that[OF agg])
    show "sorted_wrt (<) (map miner_of (map ?f m))" using M unfolding keys by (simp add: bt_ok_def)
    show "set (map miner_of (map ?f m)) = set (map miner_key_of counted)"
      using M unfolding keys by (simp add: keys_of_def)
    show "uint (we_weight e) = miner_weight counted (miner_of e)" if "e \<in> set (map ?f m)" for e
      using that wt M by (auto simp: miner_of_def miner_weight_def)
    show "(\<Sum>e\<leftarrow>map ?f m. uint (we_weight e)) = (\<Sum>c\<leftarrow>counted. uint (cs_counted_difficulty c))"
      using add_weights_total[OF m ok] by (simp add: comp_def)
  qed
qed

section \<open>The window\<close>

definition window_valid :: "accepted_share list \<Rightarrow> found_block \<Rightarrow> window_cut option \<Rightarrow> bool" where
  "window_valid shares fb wc \<longleftrightarrow>
    fb_network_difficulty fb \<noteq> 0 \<and> uint (fb_network_difficulty fb) * 8 < 2 ^ 128 \<and>
    (\<forall>s\<in>set shares. sh_share_difficulty s \<noteq> 0 \<and> \<not> outside_cut (map_option cut_top wc) s) \<and>
    distinct (map sh_share_id shares)"

definition eligible_of :: "accepted_share list \<Rightarrow> found_block \<Rightarrow> accepted_share list" where
  "eligible_of shares fb =
    sort_key (\<lambda>s. - uint (sh_share_seq s)) (filter (share_eligible fb) shares)"

lemma eligible_window_Inr:
  "eligible_window shares fb wc = Inr (es, requested) \<longleftrightarrow>
    window_valid shares fb wc \<and> es = eligible_of shares fb \<and>
    uint requested = uint (fb_network_difficulty fb) * 8"
proof (cases "checked_mul (fb_network_difficulty fb) PRISM_WINDOW_MULTIPLIER")
  case None
  then have "2 ^ 128 \<le> uint (fb_network_difficulty fb) * 8"
    by (simp add: checked_mul_None PRISM_WINDOW_MULTIPLIER_def)
  then show ?thesis using None by (auto simp: eligible_window_def window_valid_def)
next
  case (Some q)
  then have q: "uint q = uint (fb_network_difficulty fb) * 8"
    by (simp add: checked_mul_Some PRISM_WINDOW_MULTIPLIER_def)
  then have "uint (fb_network_difficulty fb) * 8 < 2 ^ 128" using u128_bound[of q] by simp
  with Some q show ?thesis
    by (auto simp: eligible_window_def window_valid_def scan_shares_Inr newest_first_sort
        eligible_of_def word_uint_eq_iff)
qed

lemma count_shares_Nil: "requested \<noteq> 0 \<Longrightarrow> count_shares requested es = [] \<longleftrightarrow> es = []"
  by (cases es) (auto simp: Let_def)

text \<open>Everything the window function computes, in one elimination.\<close>

lemma compute_window_cases:
  assumes "compute_prism_window_in_cut shares fb wc = Inr w"
  obtains "window_valid shares fb wc" "eligible_of shares fb \<noteq> []"
    "uint (pw_requested_weight w) = uint (fb_network_difficulty fb) * 8"
    "pw_shares w = count_shares (pw_requested_weight w) (eligible_of shares fb)"
    "uint (pw_counted_weight w) = (\<Sum>c\<leftarrow>pw_shares w. uint (cs_counted_difficulty c))"
    "aggregate_entitlements (pw_shares w) = Inr (pw_entitlements w)"
    "pw_anchor_share_seq w = sh_share_seq (eligible_of shares fb ! 0)"
    "pw_anchor_job_issued_at_ms w = fb_anchor_job_issued_at_ms fb"
proof -
  from assms obtain es r cw ents where
    el: "eligible_window shares fb wc = Inr (es, r)" and ne: "count_shares r es \<noteq> []" and
    cw: "checked_sum WindowOverflow cs_counted_difficulty (count_shares r es) = Inr cw" and
    ents: "aggregate_entitlements (count_shares r es) = Inr ents" and
    w: "w = \<lparr>pw_anchor_job_issued_at_ms = fb_anchor_job_issued_at_ms fb,
         pw_anchor_share_seq = cs_share_seq (count_shares r es ! 0),
         pw_requested_weight = r, pw_counted_weight = cw,
         pw_shares = count_shares r es, pw_entitlements = ents\<rparr>"
    by (auto simp: compute_prism_window_in_cut_def Let_def split: if_splits)
  have ne': "es \<noteq> []" using ne by auto
  have "cs_share_seq (count_shares r es ! 0) = sh_share_seq (es ! 0)"
    using ne count_shares_credit(3)[of 0 r es] by (auto simp: counted_share_of_def)
  then show thesis
    using that el ne' cw ents by (simp add: w eligible_window_Inr checked_sum_Inr)
qed

text \<open>The function succeeds exactly on valid inputs with an eligible share.\<close>

lemma compute_window_total:
  assumes "window_valid shares fb wc" and "eligible_of shares fb \<noteq> []"
  shows "\<exists>w. compute_prism_window_in_cut shares fb wc = Inr w"
proof -
  let ?r = "word_of_int (uint (fb_network_difficulty fb) * 8) :: u128"
  let ?es = "eligible_of shares fb"
  have r: "uint ?r = uint (fb_network_difficulty fb) * 8"
    by (rule uint_word_of_int_small) (use assms(1) in \<open>auto simp: window_valid_def\<close>)
  then have el: "eligible_window shares fb wc = Inr (?es, ?r)"
    using assms(1) by (simp add: eligible_window_Inr)
  have "fb_network_difficulty fb \<noteq> 0" using assms(1) by (simp add: window_valid_def)
  then have "?r \<noteq> 0" using r by (auto simp: word_uint_eq_iff)
  then have ne: "count_shares ?r ?es \<noteq> []" using assms(2) by (simp add: count_shares_Nil)
  have "(\<Sum>c\<leftarrow>count_shares ?r ?es. uint (cs_counted_difficulty c)) < 2 ^ 128"
    unfolding count_shares_sum using u128_bound[of ?r] by (auto simp: min_def)
  then obtain ents where "aggregate_entitlements (count_shares ?r ?es) = Inr ents"
    by (rule aggregate_entitlements_ok)
  with el ne show ?thesis
    by (simp add: compute_prism_window_in_cut_def counted_sum_ok Let_def)
qed

lemma eligible_of_mset: "mset (eligible_of shares fb) = mset (filter (share_eligible fb) shares)"
  by (simp add: eligible_of_def)

lemma eligible_of_set: "set (eligible_of shares fb) = {s \<in> set shares. share_eligible fb s}"
  by (simp add: eligible_of_def)

lemma eligible_of_sum:
  "(\<Sum>s\<leftarrow>eligible_of shares fb. uint (sh_share_difficulty s)) =
    (\<Sum>s\<leftarrow>filter (share_eligible fb) shares. uint (sh_share_difficulty s))"
  by (rule sum_list_map_mset_eq) (rule eligible_of_mset)

lemma eligible_of_perm:
  assumes "mset shares = mset shares'"
    and "inj_on sh_share_seq {s \<in> set shares. share_eligible fb s}"
  shows "eligible_of shares fb = eligible_of shares' fb"
  unfolding eligible_of_def
proof (rule sort_key_unique)
  show "mset (filter (share_eligible fb) shares) = mset (filter (share_eligible fb) shares')"
    using assms(1) by simp
  show "inj_on (\<lambda>s. - uint (sh_share_seq s)) (set (filter (share_eligible fb) shares))"
    using assms(2) by (auto simp: inj_on_def word_uint_eq_iff)
qed

lemma window_valid_perm:
  "mset shares = mset shares' \<Longrightarrow> window_valid shares fb wc \<Longrightarrow> window_valid shares' fb wc"
  unfolding window_valid_def
  by (metis mset_map mset_eq_imp_distinct_iff set_mset_mset)

end
