(* ===== verification/Reward_Manifest.thy ===== *)
theory Reward_Manifest
  imports Reward_Window
begin

text \<open>
  The reward manifest of \<open>lib.rs\<close>: built from the window serially or over chunks on
  worker threads, split into header and window for storage, and restored from the
  shares.  The theory shows that the chunked fold is the serial one, that a stored header
  restores exactly the manifest it came from, and that the slice digest commits to the
  counted shares.
\<close>

section \<open>The manifest\<close>

definition reward_schema :: string where
  "reward_schema = ''qbit.prism.reward-manifest.v1''"

definition manifest_of_window ::
  "found_block \<Rightarrow> window_cut option \<Rightarrow> prism_window \<Rightarrow> string \<Rightarrow> prism_error + reward_manifest"
where
  "manifest_of_window fb wc w digest =
    (if pw_shares w = [] then Inl (Panic ''non-empty PRISM windows have a last share'')
     else Inr
      \<lparr>rm_schema = reward_schema, rm_block_height = fb_block_height fb,
       rm_coinbase_value = fb_coinbase_value fb,
       rm_network_difficulty = fb_network_difficulty fb,
       rm_window_multiplier = PRISM_WINDOW_MULTIPLIER,
       rm_requested_weight = pw_requested_weight w, rm_counted_weight = pw_counted_weight w,
       rm_anchor_job_issued_at_ms = pw_anchor_job_issued_at_ms w,
       rm_anchor_share_seq = pw_anchor_share_seq w,
       rm_newest_share_seq = cs_share_seq (pw_shares w ! 0),
       rm_oldest_share_seq = cs_share_seq (last (pw_shares w)),
       rm_cut = wc, rm_included_share_count = length (pw_shares w),
       rm_share_slice_digest_hex = digest, rm_shares = pw_shares w,
       rm_entitlements = pw_entitlements w\<rparr>)"

definition build_prism_reward_manifest_with_cut ::
  "crypto \<Rightarrow> accepted_share list \<Rightarrow> found_block \<Rightarrow> window_cut option \<Rightarrow> prism_error + reward_manifest"
where
  "build_prism_reward_manifest_with_cut c shares fb wc =
    rbind (compute_prism_window_in_cut shares fb wc) (\<lambda>window.
    manifest_of_window fb wc window (share_slice_digest_hex c (pw_shares window)))"

definition build_prism_reward_manifest ::
  "crypto \<Rightarrow> accepted_share list \<Rightarrow> found_block \<Rightarrow> prism_error + reward_manifest" where
  "build_prism_reward_manifest c shares fb = build_prism_reward_manifest_with_cut c shares fb None"

section \<open>Header and window\<close>

definition manifest_into_parts ::
  "reward_manifest \<Rightarrow> reward_manifest_header \<times> counted_share list" where
  "manifest_into_parts m =
    (\<lparr>rh_schema = rm_schema m, rh_block_height = rm_block_height m,
      rh_coinbase_value = rm_coinbase_value m, rh_network_difficulty = rm_network_difficulty m,
      rh_window_multiplier = rm_window_multiplier m, rh_requested_weight = rm_requested_weight m,
      rh_counted_weight = rm_counted_weight m,
      rh_anchor_job_issued_at_ms = rm_anchor_job_issued_at_ms m,
      rh_anchor_share_seq = rm_anchor_share_seq m, rh_newest_share_seq = rm_newest_share_seq m,
      rh_oldest_share_seq = rm_oldest_share_seq m, rh_cut = rm_cut m,
      rh_included_share_count = rm_included_share_count m,
      rh_share_slice_digest_hex = rm_share_slice_digest_hex m,
      rh_entitlements = rm_entitlements m\<rparr>, rm_shares m)"

definition header_into_manifest ::
  "reward_manifest_header \<Rightarrow> counted_share list \<Rightarrow> reward_manifest" where
  "header_into_manifest h shares =
    \<lparr>rm_schema = rh_schema h, rm_block_height = rh_block_height h,
     rm_coinbase_value = rh_coinbase_value h, rm_network_difficulty = rh_network_difficulty h,
     rm_window_multiplier = rh_window_multiplier h, rm_requested_weight = rh_requested_weight h,
     rm_counted_weight = rh_counted_weight h,
     rm_anchor_job_issued_at_ms = rh_anchor_job_issued_at_ms h,
     rm_anchor_share_seq = rh_anchor_share_seq h, rm_newest_share_seq = rh_newest_share_seq h,
     rm_oldest_share_seq = rh_oldest_share_seq h, rm_cut = rh_cut h,
     rm_included_share_count = rh_included_share_count h,
     rm_share_slice_digest_hex = rh_share_slice_digest_hex h, rm_shares = shares,
     rm_entitlements = rh_entitlements h\<rparr>"

definition restore_reward_manifest ::
  "crypto \<Rightarrow> reward_manifest_header \<Rightarrow> accepted_share list \<Rightarrow> found_block \<Rightarrow> prism_error + reward_manifest"
where
  "restore_reward_manifest c header shares fb =
    rbind (build_prism_reward_manifest_with_cut c shares fb (rh_cut header)) (\<lambda>m.
    case manifest_into_parts m of (rebuilt, window) \<Rightarrow>
      if rebuilt \<noteq> header then Inl (AuditMismatch ''reward_manifest'')
      else Inr (header_into_manifest rebuilt window))"

lemmas manifest_evals [evals] = reward_schema_def manifest_of_window_def
  build_prism_reward_manifest_with_cut_def build_prism_reward_manifest_def
  manifest_into_parts_def header_into_manifest_def restore_reward_manifest_def

lemma into_parts_into_manifest [simp]:
  "header_into_manifest (fst (manifest_into_parts m)) (snd (manifest_into_parts m)) = m"
  by (simp add: manifest_into_parts_def header_into_manifest_def)

lemma into_manifest_into_parts [simp]:
  "manifest_into_parts (header_into_manifest h shares) = (h, shares)"
  by (simp add: manifest_into_parts_def header_into_manifest_def)

text \<open>Restoring succeeds exactly when the header is the built manifest's own.\<close>

lemma restore_Inr:
  "restore_reward_manifest c header shares fb = Inr m \<longleftrightarrow>
    build_prism_reward_manifest_with_cut c shares fb (rh_cut header) = Inr m \<and>
    header = fst (manifest_into_parts m)"
  by (auto simp: restore_reward_manifest_def case_prod_unfold)

lemma manifest_rm_cut:
  "build_prism_reward_manifest_with_cut c shares fb wc = Inr m \<Longrightarrow> rm_cut m = wc"
  by (auto simp: build_prism_reward_manifest_with_cut_def manifest_of_window_def)

lemma restore_built:
  assumes "build_prism_reward_manifest_with_cut c shares fb wc = Inr m"
  shows "restore_reward_manifest c (fst (manifest_into_parts m)) shares fb = Inr m"
  using assms manifest_rm_cut[OF assms] by (simp add: restore_Inr manifest_into_parts_def)

lemma window_shares_ne:
  "compute_prism_window_in_cut shares fb wc = Inr w \<Longrightarrow> pw_shares w \<noteq> []"
  by (auto simp: compute_prism_window_in_cut_def Let_def)

text \<open>The \<open>expect\<close> on the last share cannot fire.\<close>

lemma build_manifest_Inr:
  "build_prism_reward_manifest_with_cut c shares fb wc = Inr m \<longleftrightarrow>
    (\<exists>w. compute_prism_window_in_cut shares fb wc = Inr w \<and>
      manifest_of_window fb wc w (share_slice_digest_hex c (pw_shares w)) = Inr m)"
  by (simp add: build_prism_reward_manifest_with_cut_def)

lemma build_manifest_window:
  assumes "compute_prism_window_in_cut shares fb wc = Inr w"
  shows "\<exists>m. build_prism_reward_manifest_with_cut c shares fb wc = Inr m \<and>
    rm_shares m = pw_shares w \<and> rm_entitlements m = pw_entitlements w"
  using window_shares_ne[OF assms]
  by (simp add: build_prism_reward_manifest_with_cut_def assms manifest_of_window_def)

section \<open>The chunked fold\<close>

text \<open>\<open>Parallelism\<close> (\<open>parallel.rs\<close>): both counts are raised to at least one.\<close>

record parallelism =
  par_workers :: usize
  par_chunk_len :: usize

definition parallelism_serial :: parallelism where
  "parallelism_serial = \<lparr>par_workers = 1, par_chunk_len = 2 ^ 64 - 1\<rparr>"

definition parallelism_new :: "usize \<Rightarrow> usize \<Rightarrow> parallelism" where
  "parallelism_new workers chunk_len = \<lparr>par_workers = max workers 1, par_chunk_len = max chunk_len 1\<rparr>"

definition is_serial :: "parallelism \<Rightarrow> bool" where
  "is_serial p \<longleftrightarrow> par_workers p \<le> 1"

text \<open>The first loop: the credited difficulties, decided serially.\<close>

fun take_credits :: "u128 \<Rightarrow> accepted_share list \<Rightarrow> u128 list" where
  "take_credits remaining [] = []"
| "take_credits remaining (s # ss) =
    (if remaining = 0 then []
     else let taken = min (sh_share_difficulty s) remaining in
       taken # take_credits (remaining - taken) ss)"

definition chunk_range :: "nat \<Rightarrow> 'a list \<Rightarrow> nat \<Rightarrow> 'a list" where
  "chunk_range chunk_len xs index =
    (let lo = index * chunk_len; hi = min ((index + 1) * chunk_len) (length xs) in
     take (hi - lo) (drop lo xs))"

definition div_ceil :: "nat \<Rightarrow> nat \<Rightarrow> nat" where
  "div_ceil a b = (a + b - 1) div b"

type_synonym weight_key = "string \<times> string \<times> string"
type_synonym folded = "counted_share list \<times> bytes \<times> (weight_key, u128) btree"

text \<open>A worker's job: the counted shares of a chunk, their digest bytes, their weights.\<close>

definition produce_step :: "folded \<Rightarrow> accepted_share \<times> u128 \<Rightarrow> prism_error + folded" where
  "produce_step acc p = (case acc of (chunk, digest_bytes, ws) \<Rightarrow> case p of (s, credited) \<Rightarrow>
    let counted = counted_share_of s credited in
    rbind (bt_entry (sh_miner_id s, sh_order_key s, sh_program s) 0
            (add_weight WindowOverflow credited) ws) (\<lambda>ws'.
    Inr (chunk @ [counted], digest_bytes @ slice_digest_bytes counted, ws')))"

definition produce_chunk :: "(accepted_share \<times> u128) list \<Rightarrow> prism_error + folded" where
  "produce_chunk = try_fold produce_step ([], [], [])"

text \<open>The consumer: append the chunk, absorb its bytes, merge its weights.\<close>

definition consume_chunk :: "folded \<Rightarrow> folded \<Rightarrow> prism_error + folded" where
  "consume_chunk acc produced = (case acc of (counted_shares, absorbed, ws) \<Rightarrow>
    case produced of (chunk, digest_bytes, chunk_ws) \<Rightarrow>
    rbind (add_weights WindowOverflow fst snd ws (bt_entries chunk_ws)) (\<lambda>ws'.
    Inr (counted_shares @ chunk, absorbed @ digest_bytes, ws')))"

definition fold_chunks :: "usize \<Rightarrow> accepted_share list \<Rightarrow> u128 list \<Rightarrow> prism_error + folded" where
  "fold_chunks chunk_len taken counted =
    try_fold (\<lambda>acc index.
      rbind (produce_chunk (zip (chunk_range chunk_len taken index) (chunk_range chunk_len counted index)))
        (consume_chunk acc)) ([], [], []) [0..<div_ceil (length taken) chunk_len]"

definition compute_prism_window_parallel ::
  "crypto \<Rightarrow> accepted_share list \<Rightarrow> found_block \<Rightarrow> window_cut option \<Rightarrow> parallelism
    \<Rightarrow> prism_error + prism_window \<times> string"
where
  "compute_prism_window_parallel c shares fb wc par =
    rbind (eligible_window shares fb wc) (\<lambda>(eligible, requested).
    let counted = take_credits requested eligible in
    if counted = [] then Inl (EmptyWindow (fb_anchor_job_issued_at_ms fb))
    else
    rbind (checked_sum WindowOverflow id counted) (\<lambda>counted_weight.
    let taken = take (length counted) eligible;
        chunk_len = min (par_chunk_len par) (length taken) in
    rbind (fold_chunks chunk_len taken counted) (\<lambda>(counted_shares, absorbed, ws).
    Inr (\<lparr>pw_anchor_job_issued_at_ms = fb_anchor_job_issued_at_ms fb,
          pw_anchor_share_seq = sh_share_seq (taken ! 0),
          pw_requested_weight = requested, pw_counted_weight = counted_weight,
          pw_shares = counted_shares,
          pw_entitlements = map (\<lambda>((miner_id, order_key, program), weight).
            \<lparr>we_recipient_id = miner_id, we_order_key = order_key, we_program = program,
             we_weight = weight\<rparr>) (bt_entries ws)\<rparr>, sha256_hex c absorbed))))"

definition build_prism_reward_manifest_parallel ::
  "crypto \<Rightarrow> accepted_share list \<Rightarrow> found_block \<Rightarrow> window_cut option \<Rightarrow> parallelism
    \<Rightarrow> prism_error + reward_manifest"
where
  "build_prism_reward_manifest_parallel c shares fb wc par =
    (if is_serial par then build_prism_reward_manifest_with_cut c shares fb wc
     else rbind (compute_prism_window_parallel c shares fb wc par)
       (\<lambda>(window, digest). manifest_of_window fb wc window digest))"

lemmas parallel_evals [evals] = parallelism_serial_def parallelism_new_def is_serial_def
  chunk_range_def div_ceil_def produce_step_def produce_chunk_def consume_chunk_def
  fold_chunks_def compute_prism_window_parallel_def build_prism_reward_manifest_parallel_def

subsection \<open>The chunks cover the window in order\<close>

lemma chunk_range_prefix:
  "0 < n \<Longrightarrow> concat (map (chunk_range n xs) [0..<k]) = take (k * n) xs"
proof (induction k)
  case (Suc k)
  have "chunk_range n xs k = take n (drop (k * n) xs)"
    by (auto simp: chunk_range_def Let_def min_def)
  then show ?case using Suc take_add[of "k * n" n xs] by (simp add: add.commute)
qed simp

lemma chunk_range_concat:
  assumes "0 < n"
  shows "concat (map (chunk_range n xs) [0..<div_ceil (length xs) n]) = xs"
proof -
  have "length xs < (length xs + n - 1) div n * n + n - (n - 1)"
    using assms div_mult_mod_eq[of "length xs + n - 1" n] mod_less_divisor[OF assms, of "length xs + n - 1"]
    by linarith
  then have "length xs \<le> div_ceil (length xs) n * n"
    using assms by (simp add: div_ceil_def)
  then show ?thesis by (simp add: chunk_range_prefix[OF assms])
qed

lemma chunk_range_zip:
  "length xs = length ys \<Longrightarrow>
    zip (chunk_range n xs i) (chunk_range n ys i) = chunk_range n (zip xs ys) i"
  by (simp add: chunk_range_def Let_def take_zip drop_zip)

subsection \<open>The parallel fold is the serial fold\<close>

lemma take_credits_length: "length (take_credits r ss) \<le> length ss"
  by (induction r ss rule: take_credits.induct) (auto simp: Let_def)

lemma count_shares_zip:
  "count_shares r ss =
    map (\<lambda>(s, credited). counted_share_of s credited) (zip (take (length (take_credits r ss)) ss) (take_credits r ss))"
  by (induction r ss rule: take_credits.induct) (auto simp: Let_def)

lemma map_credited: "map cs_counted_difficulty (count_shares r ss) = take_credits r ss"
  by (induction r ss rule: take_credits.induct) (auto simp: Let_def counted_share_of_def)

lemma checked_sum_map: "checked_sum e f xs = checked_sum e id (map f xs)"
proof -
  have "try_fold (\<lambda>s x. ok_or (checked_add s (f x)) e) s xs =
      try_fold (\<lambda>s x. ok_or (checked_add s (id x)) e) s (map f xs)" for s
    by (induction xs arbitrary: s) (auto intro: rbind_cong)
  then show ?thesis by (simp add: checked_sum_def)
qed

definition credit_key :: "accepted_share \<times> u128 \<Rightarrow> weight_key" where
  "credit_key p = (sh_miner_id (fst p), sh_order_key (fst p), sh_program (fst p))"

abbreviation counted_of :: "(accepted_share \<times> u128) list \<Rightarrow> counted_share list" where
  "counted_of zs \<equiv> map (\<lambda>(s, credited). counted_share_of s credited) zs"

lemma produce_step_eq:
  "produce_step (chunk, digest_bytes, ws) z =
    rbind (ok_or (checked_add (case bt_get ws (credit_key z) of None \<Rightarrow> 0 | Some v \<Rightarrow> v) (snd z))
        WindowOverflow)
      (\<lambda>v. Inr (chunk @ [counted_share_of (fst z) (snd z)],
        digest_bytes @ slice_digest_bytes (counted_share_of (fst z) (snd z)),
        bt_put (credit_key z) v ws))"
  by (cases "checked_add (case bt_get ws (credit_key z) of None \<Rightarrow> 0 | Some v \<Rightarrow> v) (snd z)")
    (simp_all add: produce_step_def bt_entry_def add_weight_def credit_key_def case_prod_unfold Let_def)

lemma produce_chunk_eq:
  "produce_chunk zs = rbind (add_weights WindowOverflow credit_key snd [] zs)
    (\<lambda>ws. Inr (counted_of zs, slice_preimage (counted_of zs), ws))"
proof -
  have "try_fold produce_step (chunk, digest_bytes, ws) zs =
      rbind (add_weights WindowOverflow credit_key snd ws zs)
        (\<lambda>ws'. Inr (chunk @ counted_of zs, digest_bytes @ slice_preimage (counted_of zs), ws'))"
    for chunk digest_bytes ws
  proof (induction zs arbitrary: chunk digest_bytes ws)
    case (Cons z zs)
    show ?case
      by (cases "checked_add (case bt_get ws (credit_key z) of None \<Rightarrow> 0 | Some v \<Rightarrow> v) (snd z)")
        (simp_all add: produce_step_eq add_weights_Cons Cons.IH slice_preimage_def case_prod_unfold)
  qed (simp add: slice_preimage_def)
  then show ?thesis by (simp add: produce_chunk_def)
qed

lemma fold_chunks_list:
  assumes "add_weights WindowOverflow credit_key snd ws (concat zss) = Inr m" and "bt_ok ws"
  shows "try_fold (\<lambda>acc zs. rbind (produce_chunk zs) (consume_chunk acc)) (shares, absorbed, ws) zss =
    Inr (shares @ counted_of (concat zss), absorbed @ slice_preimage (counted_of (concat zss)), m)"
  using assms
proof (induction zss arbitrary: shares absorbed ws)
  case (Cons zs zss)
  from Cons.prems(1) obtain m1 where
    m1: "add_weights WindowOverflow credit_key snd ws zs = Inr m1" and
    rest: "add_weights WindowOverflow credit_key snd m1 (concat zss) = Inr m"
    by (auto simp: add_weights_append)
  from add_weights_chunk[OF m1 Cons.prems(2), of WindowOverflow WindowOverflow] obtain ch where
    ch: "add_weights WindowOverflow credit_key snd [] zs = Inr ch" and
    merge: "add_weights WindowOverflow fst snd ws ch = Inr m1"
    by auto
  have "bt_ok m1" using add_weights_Inr[OF m1 Cons.prems(2)] by simp
  from Cons.IH[OF rest this] show ?case
    by (simp add: produce_chunk_eq ch consume_chunk_def bt_entries_def merge slice_preimage_def)
qed (simp add: slice_preimage_def)

lemma fold_chunks_eq:
  assumes "0 < n" and "length taken = length counted"
    and "add_weights WindowOverflow credit_key snd [] (zip taken counted) = Inr m"
  shows "fold_chunks n taken counted =
    Inr (counted_of (zip taken counted), slice_preimage (counted_of (zip taken counted)), m)"
proof -
  let ?zss = "map (chunk_range n (zip taken counted)) [0..<div_ceil (length taken) n]"
  have "concat ?zss = zip taken counted"
    using chunk_range_concat[OF assms(1), of "zip taken counted"] assms(2) by simp
  moreover have "fold_chunks n taken counted =
      try_fold (\<lambda>acc zs. rbind (produce_chunk zs) (consume_chunk acc)) ([], [], []) ?zss"
    by (simp add: fold_chunks_def chunk_range_zip[OF assms(2)] try_fold_map)
  ultimately show ?thesis using fold_chunks_list[of "[]" ?zss m "[]" "[]"] assms(3) by (simp add: bt_ok_def)
qed

definition miner_key_of_triple :: "weight_key \<Rightarrow> miner_key" where
  "miner_key_of_triple k = (case k of (a, b, p) \<Rightarrow> MinerKey a b p)"

lemma miner_key_triple_iso:
  "miner_key_of_triple a < miner_key_of_triple b \<longleftrightarrow> a < b" "inj miner_key_of_triple"
  by (cases a; cases b; simp add: miner_key_of_triple_def less_miner_key_def)
    (auto simp: miner_key_of_triple_def intro!: injI)

lemma aggregate_by_triple:
  "aggregate_entitlements (counted_of zs) =
    rbind (add_weights WindowOverflow credit_key snd [] zs) (\<lambda>m.
      Inr (map (\<lambda>((miner_id, order_key, program), weight).
        \<lparr>we_recipient_id = miner_id, we_order_key = order_key, we_program = program,
         we_weight = weight\<rparr>) m))"
proof -
  have "add_weights WindowOverflow miner_key_of cs_counted_difficulty [] (counted_of zs) =
      add_weights WindowOverflow (\<lambda>z. miner_key_of_triple (credit_key z)) snd [] zs"
    by (simp add: add_weights_map miner_key_of_def counted_share_of_def miner_key_of_triple_def
        credit_key_def case_prod_unfold)
  also have "\<dots> = rbind (add_weights WindowOverflow credit_key snd [] zs)
      (\<lambda>m. Inr (map (\<lambda>p. (miner_key_of_triple (fst p), snd p)) m))"
    using add_weights_iso[OF miner_key_triple_iso, of WindowOverflow credit_key snd "[]" zs] by simp
  finally show ?thesis
    by (cases "add_weights WindowOverflow credit_key snd [] zs")
      (simp_all add: aggregate_entitlements_def bt_entries_def case_prod_unfold miner_key_of_triple_def)
qed

lemma compute_window_parallel:
  assumes "0 < par_chunk_len par"
  shows "compute_prism_window_parallel c shares fb wc par =
    rbind (compute_prism_window_in_cut shares fb wc)
      (\<lambda>w. Inr (w, share_slice_digest_hex c (pw_shares w)))"
proof (cases "eligible_window shares fb wc")
  case (Inr er)
  obtain es r where er: "er = (es, r)" by fastforce
  let ?counted = "take_credits r es"
  let ?taken = "take (length ?counted) es"
  have counted: "count_shares r es = counted_of (zip ?taken ?counted)" by (rule count_shares_zip)
  have empty: "count_shares r es = [] \<longleftrightarrow> ?counted = []" by (metis map_credited map_is_Nil_conv)
  have len: "length ?taken = length ?counted" using take_credits_length[of r es] by simp
  show ?thesis
  proof (cases "?counted = []")
    case False
    have sum: "checked_sum WindowOverflow id ?counted =
        Inr (word_of_int (min (uint r) (\<Sum>s\<leftarrow>es. uint (sh_share_difficulty s))))"
      using counted_sum_ok[of r es] by (simp add: checked_sum_map[of _ cs_counted_difficulty] map_credited)
    have "(\<Sum>x\<leftarrow>count_shares r es. uint (cs_counted_difficulty x)) < 2 ^ 128"
      unfolding count_shares_sum using u128_bound[of r] by (auto simp: min_def)
    then obtain ents where ents: "aggregate_entitlements (count_shares r es) = Inr ents"
      by (rule aggregate_entitlements_ok)
    then obtain m where m: "add_weights WindowOverflow credit_key snd [] (zip ?taken ?counted) = Inr m"
      and ents_eq: "ents = map (\<lambda>((miner_id, order_key, program), weight).
        \<lparr>we_recipient_id = miner_id, we_order_key = order_key, we_program = program,
         we_weight = weight\<rparr>) m"
      unfolding counted aggregate_by_triple by auto
    have "0 < min (par_chunk_len par) (length ?taken)" using False len assms by simp
    note fold = fold_chunks_eq[OF this len m]
    have "sh_share_seq (?taken ! 0) = cs_share_seq (count_shares r es ! 0)"
      using False len count_shares_credit(3)[of 0 r es] empty by (auto simp: counted_share_of_def)
    then show ?thesis
      using False empty ents m fold sum
      by (simp add: compute_prism_window_parallel_def compute_prism_window_in_cut_def Inr er Let_def
          counted_sum_ok bt_entries_def share_slice_digest_hex_def flip: counted ents_eq)
  next
    case True
    then show ?thesis
      using empty by (simp add: compute_prism_window_parallel_def compute_prism_window_in_cut_def Inr er Let_def)
  qed
qed (simp add: compute_prism_window_parallel_def compute_prism_window_in_cut_def)

lemma build_manifest_parallel:
  assumes "0 < par_chunk_len par"
  shows "build_prism_reward_manifest_parallel c shares fb wc par =
    build_prism_reward_manifest_with_cut c shares fb wc"
  by (cases "compute_prism_window_in_cut shares fb wc")
    (simp_all add: build_prism_reward_manifest_parallel_def compute_window_parallel[OF assms]
      build_prism_reward_manifest_with_cut_def)

section \<open>The slice digest commits to the window\<close>

text \<open>
  Every string of a share is far shorter than \<open>2 ^ 62\<close> bytes, and the timestamps are
  \<open>i64\<close>.  The bound matters once: after a share without a credit policy, the tag
  \<open>credit_policy\<close> could only be read as the length of the next share's id, and those
  eight letters spell a number above \<open>2 ^ 62\<close>.
\<close>

definition slice_encodable :: "counted_share \<Rightarrow> bool" where
  "slice_encodable c \<longleftrightarrow>
    length (cs_share_id c) < 2 ^ 62 \<and> length (cs_miner_id c) < 2 ^ 62 \<and>
    length (cs_order_key c) < 2 ^ 62 \<and> length (cs_program c) < 2 ^ 62 \<and>
    (\<forall>p. cs_credit_policy c = Some p \<longrightarrow> length p < 2 ^ 62) \<and>
    i64_range (cs_job_issued_at_ms c) \<and> i64_range (cs_accepted_at_ms c)"

definition policy_bytes :: "string option \<Rightarrow> bytes" where
  "policy_bytes p = (case p of None \<Rightarrow> [] | Some policy \<Rightarrow> string_be ''credit_policy'' @ string_be policy)"

definition fixed_bytes :: "counted_share \<Rightarrow> bytes" where
  "fixed_bytes c =
    u64_be (cs_share_seq c) @ string_be (cs_share_id c) @ string_be (cs_miner_id c) @
    string_be (cs_order_key c) @ string_be (cs_program c) @ u128_be (cs_share_difficulty c) @
    u128_be (cs_counted_difficulty c) @ i64_be (cs_job_issued_at_ms c) @
    i64_be (cs_accepted_at_ms c)"

lemma slice_digest_split: "slice_digest_bytes c = fixed_bytes c @ policy_bytes (cs_credit_policy c)"
  by (simp add: slice_digest_bytes_def fixed_bytes_def policy_bytes_def)

lemma fixed_bytes_inj:
  assumes "slice_encodable c" and "slice_encodable d"
    and "fixed_bytes c @ r = fixed_bytes d @ s" and "cs_credit_policy c = cs_credit_policy d"
  shows "c = d"
  using assms unfolding fixed_bytes_def slice_encodable_def
  by (simp add: u64_be_append string_be_append u128_be_append i64_be_append)

lemma fixed_bytes_rest:
  assumes "slice_encodable c" and "slice_encodable d" and "fixed_bytes c @ r = fixed_bytes d @ s"
  shows "r = s"
  using assms unfolding fixed_bytes_def slice_encodable_def
  by (simp add: u64_be_append string_be_append u128_be_append i64_be_append)

lemma credit_tag_value: "take 8 (string_bytes ''credit_policy'') = be_bytes 8 7165901439040249712"
  by code_simp

lemma policy_not_share:
  assumes "\<forall>c\<in>set cs. slice_encodable c"
  shows "slice_preimage cs \<noteq> policy_bytes (Some p) @ r"
proof
  assume eq: "slice_preimage cs = policy_bytes (Some p) @ r"
  show False
  proof (cases cs)
    case Nil
    then show ?thesis using eq by (simp add: slice_preimage_def policy_bytes_def string_be_def)
  next
    case (Cons c cs')
    have "drop 8 (slice_preimage cs) = drop 8 (policy_bytes (Some p) @ r)" using eq by simp
    then have "take 8 (drop 8 (slice_preimage cs)) = take 8 (string_bytes ''credit_policy'')"
      by (simp add: policy_bytes_def string_be_def)
    moreover have "take 8 (drop 8 (slice_preimage cs)) = be_bytes 8 (int (length (cs_share_id c)))"
      by (simp add: Cons slice_preimage_def slice_digest_split fixed_bytes_def u64_be_def string_be_def)
    ultimately have "be_bytes 8 (int (length (cs_share_id c))) = be_bytes 8 7165901439040249712"
      by (simp only: credit_tag_value)
    then have "int (length (cs_share_id c)) mod 256 ^ 8 = 7165901439040249712"
      by (simp add: be_bytes_inj)
    then show False using assms Cons by (simp add: slice_encodable_def)
  qed
qed

lemma slice_preimage_inj:
  assumes "\<forall>c\<in>set cs. slice_encodable c" and "\<forall>d\<in>set ds. slice_encodable d"
    and "slice_preimage cs = slice_preimage ds"
  shows "cs = ds"
  using assms
proof (induction cs arbitrary: ds)
  case Nil
  then show ?case by (cases ds) (simp_all add: slice_preimage_def slice_digest_split fixed_bytes_def u64_be_def)
next
  case (Cons c cs)
  obtain d ds' where ds: "ds = d # ds'"
    using Cons.prems(3) by (cases ds) (simp_all add: slice_preimage_def slice_digest_split fixed_bytes_def u64_be_def)
  have enc: "slice_encodable c" "slice_encodable d" "\<forall>c\<in>set cs. slice_encodable c"
    "\<forall>d\<in>set ds'. slice_encodable d" using Cons.prems by (simp_all add: ds)
  let ?pc = "policy_bytes (cs_credit_policy c)" and ?pd = "policy_bytes (cs_credit_policy d)"
  have eq: "fixed_bytes c @ ?pc @ slice_preimage cs = fixed_bytes d @ ?pd @ slice_preimage ds'"
    using Cons.prems(3) by (simp add: ds slice_preimage_def slice_digest_split)
  have rest: "?pc @ slice_preimage cs = ?pd @ slice_preimage ds'"
    by (rule fixed_bytes_rest[OF enc(1,2) eq])
  have "cs_credit_policy c = cs_credit_policy d \<and> slice_preimage cs = slice_preimage ds'"
  proof (cases "cs_credit_policy c"; cases "cs_credit_policy d")
    fix p q assume p: "cs_credit_policy c = Some p" and q: "cs_credit_policy d = Some q"
    then show ?thesis using rest enc(1,2)
      by (simp add: policy_bytes_def string_be_append slice_encodable_def)
  next
    fix p assume "cs_credit_policy c = Some p" "cs_credit_policy d = None"
    then show ?thesis using rest policy_not_share[OF enc(4), of p "slice_preimage cs"]
      by (simp add: policy_bytes_def)
  next
    fix q assume "cs_credit_policy c = None" "cs_credit_policy d = Some q"
    then show ?thesis using rest policy_not_share[OF enc(3), of q "slice_preimage ds'"]
      by (simp add: policy_bytes_def)
  qed (use rest in \<open>simp add: policy_bytes_def\<close>)
  then show ?case
    using fixed_bytes_inj[OF enc(1,2) eq] Cons.IH[OF enc(3,4)] by (simp add: ds)
qed

end
