(* ===== verification/Reward_Properties.thy ===== *)
theory Reward_Properties
  imports Reward_Manifest
begin

text \<open>
  The properties of the payout window, its cut, and the reward manifest, each with a
  concrete instance.
\<close>

section \<open>Concrete data\<close>

definition sample_share :: "u64 \<Rightarrow> string \<Rightarrow> string \<Rightarrow> u128 \<Rightarrow> accepted_share" where
  "sample_share seq share_id miner difficulty =
    \<lparr>sh_share_seq = seq, sh_share_id = share_id, sh_miner_id = miner, sh_order_key = ''k'',
     sh_program = ''aa'', sh_share_difficulty = difficulty, sh_network_difficulty = 1,
     sh_template_height = 9, sh_job_id = ''j'', sh_job_issued_at_ms = 5,
     sh_accepted_at_ms = 6, sh_ntime = 0, sh_credit_policy = None\<rparr>"

definition sample_shares :: "accepted_share list" where
  "sample_shares = [sample_share 1 ''a'' ''m1'' 4, sample_share 2 ''b'' ''m2'' 3, sample_share 3 ''c'' ''m1'' 6]"

definition sample_block :: found_block where
  "sample_block = \<lparr>fb_block_height = 10, fb_coinbase_value = 5000, fb_network_difficulty = 1,
    fb_anchor_job_issued_at_ms = 7\<rparr>"

definition sample_window :: prism_window where
  "sample_window =
    (let c = \<lambda>s d. counted_share_of s d in
     \<lparr>pw_anchor_job_issued_at_ms = 7, pw_anchor_share_seq = 3, pw_requested_weight = 8,
      pw_counted_weight = 8,
      pw_shares = [c (sample_share 3 ''c'' ''m1'' 6) 6, c (sample_share 2 ''b'' ''m2'' 3) 2],
      pw_entitlements =
        [\<lparr>we_recipient_id = ''m1'', we_order_key = ''k'', we_program = ''aa'', we_weight = 6\<rparr>,
         \<lparr>we_recipient_id = ''m2'', we_order_key = ''k'', we_program = ''aa'', we_weight = 2\<rparr>]\<rparr>)"

lemma sample_window_ok: "compute_prism_window_in_cut sample_shares sample_block None = Inr sample_window"
  by code_simp

section \<open>The window\<close>

text \<open>
  C1: A found block pays the newest eligible shares.  Position by position, newest first,
  share \<open>i\<close> is counted exactly when the shares newer than it weigh less than eight network
  difficulties, and it is credited its difficulty or what is left of that weight, whichever
  is smaller.
\<close>

theorem window_pays_newest_first:
  assumes "compute_prism_window_in_cut shares fb wc = Inr w"
  shows "(i < length (pw_shares w) \<longleftrightarrow>
      i < length (eligible_of shares fb) \<and>
      newer (eligible_of shares fb) i < uint (fb_network_difficulty fb) * 8) \<and>
    (i < length (pw_shares w) \<longrightarrow>
      pw_shares w ! i = counted_share_of (eligible_of shares fb ! i)
        (word_of_int (spec_credit (uint (fb_network_difficulty fb) * 8) (eligible_of shares fb) i)))"
  using assms
proof (rule compute_window_cases)
  assume r: "uint (pw_requested_weight w) = uint (fb_network_difficulty fb) * 8"
    and s: "pw_shares w = count_shares (pw_requested_weight w) (eligible_of shares fb)"
  show ?thesis
    using count_shares_credit(2,3)[of i "pw_requested_weight w" "eligible_of shares fb"]
    unfolding s r by (metis word_of_int_uint)
qed

theorem window_pays_newest_first_witness:
  "length (pw_shares sample_window) = 2 \<and>
    pw_shares sample_window ! 1 = counted_share_of (sample_share 2 ''b'' ''m2'' 3) 2 \<and>
    newer (eligible_of sample_shares sample_block) 1 < 8"
  using window_pays_newest_first[OF sample_window_ok, of 1]
  by (simp add: sample_window_def sample_block_def Let_def)

text \<open>
  The window never counts more than eight network difficulties and never less than the
  eligible shares can fill; the entitlements are one per miner, ordered by miner key, each
  the sum of that miner's counted difficulty, and together they are the counted weight.
\<close>

theorem window_weight_exact:
  assumes "compute_prism_window_in_cut shares fb wc = Inr w"
  shows "uint (pw_counted_weight w) =
      min (uint (fb_network_difficulty fb) * 8)
        (\<Sum>s\<leftarrow>filter (share_eligible fb) shares. uint (sh_share_difficulty s)) \<and>
    (\<Sum>e\<leftarrow>pw_entitlements w. uint (we_weight e)) = uint (pw_counted_weight w) \<and>
    sorted_wrt (<) (map miner_of (pw_entitlements w)) \<and>
    set (map miner_of (pw_entitlements w)) = set (map miner_key_of (pw_shares w)) \<and>
    map (\<lambda>e. uint (we_weight e)) (pw_entitlements w) =
      map (\<lambda>e. miner_weight (pw_shares w) (miner_of e)) (pw_entitlements w)"
  using assms
proof (rule compute_window_cases)
  assume r: "uint (pw_requested_weight w) = uint (fb_network_difficulty fb) * 8"
    and s: "pw_shares w = count_shares (pw_requested_weight w) (eligible_of shares fb)"
    and cw: "uint (pw_counted_weight w) = (\<Sum>c\<leftarrow>pw_shares w. uint (cs_counted_difficulty c))"
    and ag: "aggregate_entitlements (pw_shares w) = Inr (pw_entitlements w)"
  have "(\<Sum>c\<leftarrow>pw_shares w. uint (cs_counted_difficulty c)) < 2 ^ 128"
    using u128_bound[of "pw_counted_weight w"] by (simp only: cw)
  then obtain es where es: "aggregate_entitlements (pw_shares w) = Inr es"
    "sorted_wrt (<) (map miner_of es)" "set (map miner_of es) = set (map miner_key_of (pw_shares w))"
    "\<And>e. e \<in> set es \<Longrightarrow> uint (we_weight e) = miner_weight (pw_shares w) (miner_of e)"
    "(\<Sum>e\<leftarrow>es. uint (we_weight e)) = (\<Sum>c\<leftarrow>pw_shares w. uint (cs_counted_difficulty c))"
    by (rule aggregate_entitlements_ok) blast
  have eq: "es = pw_entitlements w" using es(1) ag by simp
  have wt: "map (\<lambda>e. uint (we_weight e)) es = map (\<lambda>e. miner_weight (pw_shares w) (miner_of e)) es"
    using es(4) by simp
  have cw': "uint (pw_counted_weight w) = min (uint (fb_network_difficulty fb) * 8)
        (\<Sum>s\<leftarrow>filter (share_eligible fb) shares. uint (sh_share_difficulty s))"
    unfolding cw s count_shares_sum r eligible_of_sum ..
  have sm: "(\<Sum>e\<leftarrow>es. uint (we_weight e)) = uint (pw_counted_weight w)" using es(5) cw by simp
  show ?thesis using cw' sm es(2,3) wt unfolding eq by blast
qed

theorem window_weight_exact_witness:
  "uint (pw_counted_weight sample_window) = 8 \<and>
    (\<Sum>e\<leftarrow>pw_entitlements sample_window. uint (we_weight e)) = 8"
  using window_weight_exact[OF sample_window_ok] by (simp add: sample_window_def Let_def)

text \<open>
  A window exists exactly when the network difficulty is positive and its window does
  not overflow, every share has a difficulty, a fresh id and lies within the cut, and some
  share is eligible; no other failure is possible.
\<close>

theorem window_exists_iff:
  "(\<exists>w. compute_prism_window_in_cut shares fb wc = Inr w) \<longleftrightarrow>
    window_valid shares fb wc \<and> filter (share_eligible fb) shares \<noteq> []"
proof
  assume "\<exists>w. compute_prism_window_in_cut shares fb wc = Inr w"
  then obtain w where "compute_prism_window_in_cut shares fb wc = Inr w" ..
  then show "window_valid shares fb wc \<and> filter (share_eligible fb) shares \<noteq> []"
    by (rule compute_window_cases) (metis eligible_of_mset mset_zero_iff)
next
  assume R: "window_valid shares fb wc \<and> filter (share_eligible fb) shares \<noteq> []"
  then have "eligible_of shares fb \<noteq> []" by (metis eligible_of_mset mset_zero_iff)
  with R show "\<exists>w. compute_prism_window_in_cut shares fb wc = Inr w"
    by (blast intro: compute_window_total)
qed

text \<open>
  The window does not depend on the order in which the ledger returns the shares, as
  long as eligible shares have distinct sequence numbers.
\<close>

theorem window_order_independent:
  assumes "mset shares = mset shares'"
    and "inj_on sh_share_seq {s \<in> set shares. share_eligible fb s}"
    and "compute_prism_window_in_cut shares fb wc = Inr w"
  shows "compute_prism_window_in_cut shares' fb wc = Inr w"
  using assms(3)
proof (rule compute_window_cases)
  assume v: "window_valid shares fb wc"
  have el: "eligible_of shares' fb = eligible_of shares fb"
    using eligible_of_perm[OF assms(1,2)] by simp
  obtain q where q: "eligible_window shares fb wc = Inr (eligible_of shares fb, q)"
    "eligible_window shares' fb wc = Inr (eligible_of shares fb, q)"
    using v window_valid_perm[OF assms(1) v] assms(3)
    by (auto simp: compute_prism_window_in_cut_def eligible_window_Inr el)
  then show ?thesis using assms(3) by (simp add: compute_prism_window_in_cut_def)
qed

theorem window_order_independent_witness:
  "compute_prism_window_in_cut (rev sample_shares) sample_block None = Inr sample_window"
  by (rule window_order_independent[OF _ _ sample_window_ok])
    (auto simp: inj_on_def sample_shares_def sample_share_def)

section \<open>The manifest\<close>

text \<open>
  C29: Building the reward manifest over chunks on any number of worker threads gives the
  serial builder's result, byte for byte in the slice digest, errors included.
\<close>

theorem parallel_build_is_serial:
  "build_prism_reward_manifest_parallel c shares fb wc (parallelism_new workers chunk_len) =
    build_prism_reward_manifest_with_cut c shares fb wc"
  by (rule build_manifest_parallel) (simp add: parallelism_new_def)


text \<open>
  Two windows with the same slice digest are the same window, unless their byte
  strings are a collision of the hash.
\<close>

theorem slice_digest_commits:
  assumes "\<forall>s\<in>set cs. slice_encodable s" and "\<forall>s\<in>set ds. slice_encodable s"
    and "hex_ok c"
    and "sha256 c (slice_preimage cs) = sha256 c (slice_preimage ds) \<longrightarrow> slice_preimage cs = slice_preimage ds"
    and "share_slice_digest_hex c cs = share_slice_digest_hex c ds"
  shows "cs = ds"
proof -
  have "sha256 c (slice_preimage cs) = sha256 c (slice_preimage ds)"
    using assms(5) by (simp add: share_slice_digest_hex_def sha256_hex_def hex_encode_inj[OF assms(3)])
  with assms(4) have "slice_preimage cs = slice_preimage ds" by blast
  with assms(1,2) show ?thesis by (rule slice_preimage_inj)
qed

theorem slice_digest_commits_witness:
  "share_slice_digest_hex model_crypto (pw_shares sample_window) =
     share_slice_digest_hex model_crypto [counted_share_of (sample_share 3 ''c'' ''m1'' 6) 6,
       counted_share_of (sample_share 2 ''b'' ''m2'' 3) 2] \<and>
   pw_shares sample_window = [counted_share_of (sample_share 3 ''c'' ''m1'' 6) 6,
       counted_share_of (sample_share 2 ''b'' ''m2'' 3) 2]"
proof
  show eq: "share_slice_digest_hex model_crypto (pw_shares sample_window) =
     share_slice_digest_hex model_crypto [counted_share_of (sample_share 3 ''c'' ''m1'' 6) 6,
       counted_share_of (sample_share 2 ''b'' ''m2'' 3) 2]"
    by (simp add: sample_window_def Let_def)
  show "pw_shares sample_window = [counted_share_of (sample_share 3 ''c'' ''m1'' 6) 6,
       counted_share_of (sample_share 2 ''b'' ''m2'' 3) 2]"
    by (rule slice_digest_commits[OF _ _ model_hex_ok _ eq])
      (simp_all add: sample_window_def Let_def slice_encodable_def counted_share_of_def
        sample_share_def i64_range_def)
qed

end
