(* ===== verification/Codec.thy ===== *)
theory Codec
  imports Rust_Prelude Digest_Bytes
begin

text \<open>
  Deterministic binary encodings: a reader that consumes a prefix of the input, the writer
  it inverts, and the values that can be written.  The locale states both directions, so a
  value has one encoding and an accepted encoding is the value's own; its extensions give
  the same for pairs and for counted sequences, the shapes a transaction is made of.
\<close>

fun read_n :: "(bytes \<Rightarrow> 'e + 'a \<times> bytes) \<Rightarrow> nat \<Rightarrow> bytes \<Rightarrow> 'e + 'a list \<times> bytes" where
  "read_n read 0 bs = Inr ([], bs)"
| "read_n read (Suc n) bs =
    rbind (read bs) (\<lambda>(x, bs). rbind (read_n read n bs) (\<lambda>(xs, bs). Inr (x # xs, bs)))"

definition read_pair ::
  "(bytes \<Rightarrow> 'e + 'a \<times> bytes) \<Rightarrow> (bytes \<Rightarrow> 'e + 'b \<times> bytes) \<Rightarrow> bytes \<Rightarrow> 'e + ('a \<times> 'b) \<times> bytes" where
  "read_pair read1 read2 bs =
    rbind (read1 bs) (\<lambda>(x, bs). rbind (read2 bs) (\<lambda>(y, bs). Inr ((x, y), bs)))"

lemmas codec_evals [evals] = read_pair_def

locale codec =
  fixes read :: "bytes \<Rightarrow> 'e + 'a \<times> bytes"
    and enc :: "'a \<Rightarrow> bytes"
    and valid :: "'a \<Rightarrow> bool"
  assumes read_write: "valid x \<Longrightarrow> read (enc x @ r) = Inr (x, r)"
    and write_read: "read bs = Inr (x, r) \<Longrightarrow> valid x \<and> bs = enc x @ r"
begin

lemma read_iff: "read bs = Inr (x, r) \<longleftrightarrow> valid x \<and> bs = enc x @ r"
  using read_write write_read by blast

text \<open>Encodings are prefix-free.\<close>

lemma write_inj:
  assumes "valid x" and "valid y" and "enc x @ r = enc y @ s"
  shows "x = y \<and> r = s"
proof -
  have "read (enc x @ r) = Inr (x, r)" by (rule read_write[OF assms(1)])
  moreover have "read (enc x @ r) = Inr (y, s)"
    unfolding assms(3) by (rule read_write[OF assms(2)])
  ultimately show ?thesis by (metis Inr_inject prod.inject)
qed

lemma read_n_iff:
  "read_n read n bs = Inr (xs, r) \<longleftrightarrow>
    length xs = n \<and> (\<forall>x\<in>set xs. valid x) \<and> bs = concat (map enc xs) @ r"
proof (induction n arbitrary: bs xs)
  case (Suc n)
  show ?case
  proof
    assume "read_n read (Suc n) bs = Inr (xs, r)"
    then obtain x bs' xs' where "read bs = Inr (x, bs')" "read_n read n bs' = Inr (xs', r)" "xs = x # xs'"
      by auto
    then show "length xs = Suc n \<and> (\<forall>x\<in>set xs. valid x) \<and> bs = concat (map enc xs) @ r"
      using Suc.IH by (auto simp: read_iff)
  next
    assume R: "length xs = Suc n \<and> (\<forall>x\<in>set xs. valid x) \<and> bs = concat (map enc xs) @ r"
    then obtain x xs' where xs: "xs = x # xs'" by (cases xs) auto
    with R have "read bs = Inr (x, concat (map enc xs') @ r)" by (simp add: read_iff)
    moreover have "read_n read n (concat (map enc xs') @ r) = Inr (xs', r)"
      using R xs Suc.IH by simp
    ultimately show "read_n read (Suc n) bs = Inr (xs, r)" by (simp add: xs)
  qed
qed auto

end

locale codec_pair = a: codec read1 enc1 valid1 + b: codec read2 enc2 valid2
  for read1 :: "bytes \<Rightarrow> 'e + 'a \<times> bytes" and enc1 :: "'a \<Rightarrow> bytes" and valid1 :: "'a \<Rightarrow> bool"
    and read2 :: "bytes \<Rightarrow> 'e + 'b \<times> bytes" and enc2 :: "'b \<Rightarrow> bytes" and valid2 :: "'b \<Rightarrow> bool"

sublocale codec_pair \<subseteq> pair: codec "read_pair read1 read2"
  "\<lambda>p. enc1 (fst p) @ enc2 (snd p)" "\<lambda>p. valid1 (fst p) \<and> valid2 (snd p)"
  by unfold_locales (auto simp: read_pair_def a.read_write b.read_write dest!: a.write_read b.write_read)

text \<open>
  A counted sequence: a size, then that many items, each of at least one byte.  The reader
  of the size may refuse a count above the bytes that remain.
\<close>

locale counted_codec = codec read enc valid
  for read :: "bytes \<Rightarrow> 'e + 'a \<times> bytes" and enc :: "'a \<Rightarrow> bytes" and valid :: "'a \<Rightarrow> bool" +
  fixes read_size :: "bytes \<Rightarrow> 'e + nat \<times> bytes" and write_size :: "nat \<Rightarrow> bytes" and size_limit :: nat
  assumes write_ne: "valid x \<Longrightarrow> enc x \<noteq> []"
    and size_write: "n < size_limit \<Longrightarrow> n \<le> length r \<Longrightarrow> read_size (write_size n @ r) = Inr (n, r)"
    and size_read: "read_size bs = Inr (n, r) \<Longrightarrow> n < size_limit \<and> n \<le> length r \<and> bs = write_size n @ r"
begin

definition read_counted :: "bytes \<Rightarrow> 'e + 'a list \<times> bytes" where
  "read_counted bs = rbind (read_size bs) (\<lambda>(n, bs). read_n read n bs)"

definition write_counted :: "'a list \<Rightarrow> bytes" where
  "write_counted xs = write_size (length xs) @ concat (map enc xs)"

lemma length_concat_write: "\<forall>x\<in>set xs. valid x \<Longrightarrow> length xs \<le> length (concat (map enc xs))"
proof (induction xs)
  case (Cons x xs)
  then have "enc x \<noteq> []" using write_ne by simp
  then have "1 \<le> length (enc x)" by (cases "enc x") auto
  with Cons show ?case by simp
qed simp

lemma counted_iff:
  "read_counted bs = Inr (xs, r) \<longleftrightarrow>
    length xs < size_limit \<and> (\<forall>x\<in>set xs. valid x) \<and> bs = write_counted xs @ r"
proof
  assume "read_counted bs = Inr (xs, r)"
  then obtain n bs' where "read_size bs = Inr (n, bs')" "read_n read n bs' = Inr (xs, r)"
    by (auto simp: read_counted_def)
  then show "length xs < size_limit \<and> (\<forall>x\<in>set xs. valid x) \<and> bs = write_counted xs @ r"
    using size_read[of bs n bs'] by (auto simp: read_n_iff write_counted_def)
next
  assume R: "length xs < size_limit \<and> (\<forall>x\<in>set xs. valid x) \<and> bs = write_counted xs @ r"
  then have "read_size bs = Inr (length xs, concat (map enc xs) @ r)"
    using size_write[of "length xs" "concat (map enc xs) @ r"] length_concat_write[of xs]
    by (simp add: write_counted_def)
  then show "read_counted bs = Inr (xs, r)" using R by (simp add: read_counted_def read_n_iff)
qed

end

sublocale counted_codec \<subseteq> counted: codec read_counted write_counted
  "\<lambda>xs. length xs < size_limit \<and> (\<forall>x\<in>set xs. valid x)"
  by unfold_locales (auto simp: counted_iff)

end
