(* ===== verification/Apportion.thy ===== *)
theory Apportion
  imports Rust_Prelude
begin

text \<open>
  Largest-remainder apportionment, the integer-satoshi split that three routines of the
  program implement: \<open>allocate_weighted_amounts\<close> and \<open>allocate_proportional_fee\<close> of
  \<open>qbit-prism\<close>, and \<open>allocate_outputs\<close> of \<open>qbit-pool-builder\<close>.  The locale states
  the contract their callers rely on; the section after it has the arithmetic all three
  interpretations rest on.
\<close>

section \<open>The contract\<close>

text \<open>
  \<open>alloc T items\<close> returns the items paired with amounts: the same items, summing to
  the total, each amount the floor of its exact share or one more when that share is not
  an integer.
\<close>

locale apportionment =
  fixes alloc :: "u64 \<Rightarrow> 'x list \<Rightarrow> 'e + ('x \<times> u64) list"
    and weight :: "'x \<Rightarrow> int"
  assumes alloc_items: "alloc T xs = Inr ys \<Longrightarrow> mset (map fst ys) = mset xs"
    and alloc_total: "alloc T xs = Inr ys \<Longrightarrow> (\<Sum>y\<leftarrow>ys. uint (snd y)) = uint T"
    and alloc_quota: "alloc T xs = Inr ys \<Longrightarrow> y \<in> set ys \<Longrightarrow>
      uint T * weight (fst y) div (\<Sum>x\<leftarrow>xs. weight x) \<le> uint (snd y) \<and>
      uint (snd y) \<le> uint T * weight (fst y) div (\<Sum>x\<leftarrow>xs. weight x) +
        (if uint T * weight (fst y) mod (\<Sum>x\<leftarrow>xs. weight x) = 0 then 0 else 1)"
    and alloc_weight: "alloc T xs = Inr ys \<Longrightarrow>
      0 < (\<Sum>x\<leftarrow>xs. weight x) \<and> (\<forall>x\<in>set xs. 0 \<le> weight x)"
begin

lemma alloc_set: "alloc T xs = Inr ys \<Longrightarrow> fst ` set ys = set xs"
  using alloc_items[of T xs ys] by (metis list.set_map set_mset_mset)

lemma alloc_length: "alloc T xs = Inr ys \<Longrightarrow> length ys = length xs"
  using alloc_items[of T xs ys] by (metis length_map size_mset)

text \<open>No item is paid more than its weight while the weights cover the total.\<close>

lemma alloc_le_weight:
  assumes "alloc T xs = Inr ys" and "y \<in> set ys"
    and "uint T \<le> (\<Sum>x\<leftarrow>xs. weight x)"
  shows "uint (snd y) \<le> weight (fst y)"
proof -
  define W where "W = (\<Sum>x\<leftarrow>xs. weight x)"
  define w where "w = weight (fst y)"
  have W: "0 < W" and w: "0 \<le> w"
    using alloc_weight[OF assms(1)] alloc_set[OF assms(1)] assms(2) by (auto simp: W_def w_def)
  have le: "uint (snd y) \<le> uint T * w div W + (if uint T * w mod W = 0 then 0 else 1)"
    using alloc_quota[OF assms(1,2)] by (simp add: W_def w_def)
  have up: "uint T * w \<le> W * w"
    using assms(3) w by (intro mult_right_mono) (auto simp: W_def)
  have ediv: "uint T * w = W * (uint T * w div W) + uint T * w mod W"
    by simp
  have mod0: "0 \<le> uint T * w mod W" using W by simp
  show ?thesis
  proof (cases "uint T * w mod W = 0")
    case True
    with ediv up have "W * (uint T * w div W) \<le> W * w" by simp
    with W have "uint T * w div W \<le> w" by simp
    with le True show ?thesis by (simp add: w_def)
  next
    case False
    with ediv up mod0 have "W * (uint T * w div W) < W * w" by linarith
    with W have "uint T * w div W < w" by simp
    with le False show ?thesis by (simp add: w_def)
  qed
qed

text \<open>Weights that already are the amounts are returned unchanged.\<close>

lemma alloc_identity:
  assumes "alloc T xs = Inr ys" and "y \<in> set ys"
    and "uint T = (\<Sum>x\<leftarrow>xs. weight x)"
  shows "uint (snd y) = weight (fst y)"
proof -
  have "0 < (\<Sum>x\<leftarrow>xs. weight x)" using alloc_weight[OF assms(1)] by simp
  then show ?thesis using alloc_quota[OF assms(1,2)] by (simp add: assms(3))
qed

lemma alloc_zero_weight:
  "alloc T xs = Inr ys \<Longrightarrow> y \<in> set ys \<Longrightarrow> weight (fst y) = 0 \<Longrightarrow> uint (snd y) = 0"
  using alloc_quota[of T xs ys y] by (auto intro: antisym)

end

section \<open>The arithmetic\<close>

text \<open>
  \<open>base\<close> and \<open>rem\<close> are quotient and remainder of the exact shares; the units the floors
  leave over are fewer than the items with a fractional share, so giving one unit each
  to the items with the largest remainders reaches only items with a fractional share.
\<close>

lemma leftover_bounds:
  fixes T W :: int and w :: "nat \<Rightarrow> int"
  assumes W: "0 < W" and sum: "(\<Sum>i<n. w i) = W"
  defines "base \<equiv> \<lambda>i. T * w i div W" and "rem \<equiv> \<lambda>i. T * w i mod W"
  defines "r \<equiv> T - (\<Sum>i<n. base i)"
  shows "0 \<le> r" and "r \<le> int (card {i. i < n \<and> 0 < rem i})"
proof -
  have split: "T * w i = W * base i + rem i" for i by (simp add: base_def rem_def)
  have rem: "0 \<le> rem i" "rem i < W" for i using W by (auto simp: rem_def)
  have "T * W = (\<Sum>i<n. T * w i)" by (simp add: sum_distrib_left flip: sum)
  also have "\<dots> = W * (\<Sum>i<n. base i) + (\<Sum>i<n. rem i)"
    by (simp add: split sum.distrib sum_distrib_left)
  finally have total: "(\<Sum>i<n. rem i) = W * r" by (simp add: r_def algebra_simps)
  have "0 \<le> (\<Sum>i<n. rem i)" using rem by (simp add: sum_nonneg)
  with total W show "0 \<le> r" by (simp add: zero_le_mult_iff)
  have "(\<Sum>i<n. rem i) = (\<Sum>i\<in>{i. i < n \<and> 0 < rem i}. rem i)"
    by (rule sum.mono_neutral_right) (use rem in \<open>auto simp: order_less_le\<close>)
  also have "\<dots> \<le> (\<Sum>i\<in>{i. i < n \<and> 0 < rem i}. W)"
    using rem by (intro sum_mono) (auto intro: less_imp_le)
  finally have "W * r \<le> W * int (card {i. i < n \<and> 0 < rem i})" by (simp add: total mult.commute)
  with W show "r \<le> int (card {i. i < n \<and> 0 < rem i})" by simp
qed

lemma take_descending_positive:
  fixes rem :: "nat \<Rightarrow> int"
  assumes perm: "mset order = mset [0..<n]"
    and desc: "sorted_wrt (\<lambda>i j. rem j \<le> rem i) order"
    and r: "r \<le> card {i. i < n \<and> 0 < rem i}"
    and i: "i \<in> set (take r order)"
  shows "0 < rem i"
proof (rule ccontr)
  assume "\<not> 0 < rem i"
  obtain p where p: "p < r" "p < length order" "order ! p = i"
    using i by (auto simp: in_set_conv_nth)
  have set_order: "set order = {..<n}"
    using perm by (metis atLeast0LessThan set_mset_mset set_upt)
  have dist: "distinct order" using perm by (metis distinct_upt mset_eq_imp_distinct_iff)
  have "{i. i < n \<and> 0 < rem i} \<subseteq> set (take p order)"
  proof
    fix j assume "j \<in> {i. i < n \<and> 0 < rem i}"
    then have j: "j \<in> set order" "0 < rem j" using set_order by auto
    then obtain q where q: "q < length order" "order ! q = j" by (auto simp: in_set_conv_nth)
    have "q < p"
    proof (rule ccontr)
      assume "\<not> q < p"
      then have "rem j \<le> rem i"
        using desc p q by (cases "p = q") (auto simp: sorted_wrt_iff_nth_less)
      with j \<open>\<not> 0 < rem i\<close> show False by simp
    qed
    then show "j \<in> set (take p order)" using q by (auto simp: in_set_conv_nth)
  qed
  then have "card {i. i < n \<and> 0 < rem i} \<le> card (set (take p order))"
    by (intro card_mono) auto
  also have "\<dots> \<le> p" by (metis card_length length_take min.cobounded2 order_trans)
  finally show False using p r by simp
qed

lemma sum_indicator_take:
  assumes perm: "mset order = mset [0..<n]" and r: "r \<le> n"
  shows "(\<Sum>i<n. if i \<in> set (take r order) then 1 else 0) = (int r)"
proof -
  have set_order: "set order = {..<n}" and len: "length order = n"
    using perm by (metis atLeast0LessThan set_mset_mset set_upt)
      (metis perm diff_zero length_upt size_mset)
  have dist: "distinct order" using perm by (metis distinct_upt mset_eq_imp_distinct_iff)
  have sub: "set (take r order) \<subseteq> {..<n}" using set_order set_take_subset by fastforce
  have "(\<Sum>i<n. if i \<in> set (take r order) then 1 else 0) = int (card ({..<n} \<inter> set (take r order)))"
    by (simp add: sum.If_cases)
  also have "{..<n} \<inter> set (take r order) = set (take r order)" using sub by auto
  also have "card \<dots> = r" using dist r len by (simp add: distinct_card)
  finally show ?thesis .
qed

text \<open>The three facts every provider needs, over the list of weights.\<close>

lemma largest_remainder:
  fixes T :: int and ws :: "int list"
  assumes W: "0 < sum_list ws" and perm: "mset order = mset [0..<length ws]"
    and desc: "sorted_wrt (\<lambda>i j. T * ws ! j mod sum_list ws \<le> T * ws ! i mod sum_list ws) order"
  defines "r \<equiv> T - (\<Sum>w\<leftarrow>ws. T * w div sum_list ws)"
  shows "0 \<le> r" and "r \<le> int (length ws)"
    and "i \<in> set (take (nat r) order) \<Longrightarrow> 0 < T * ws ! i mod sum_list ws"
    and "(\<Sum>i<length ws. T * ws ! i div sum_list ws +
      (if i \<in> set (take (nat r) order) then 1 else 0)) = T"
proof -
  let ?W = "sum_list ws" and ?n = "length ws"
  have sumW: "(\<Sum>i<?n. ws ! i) = ?W"
    by (simp add: sum_list_sum_nth atLeast0LessThan)
  have r_def': "r = T - (\<Sum>i<?n. T * ws ! i div ?W)"
    by (simp add: r_def sum_list_sum_nth atLeast0LessThan)
  have "card {i. i < ?n \<and> 0 < T * ws ! i mod ?W} \<le> card {..<?n}"
    by (rule card_mono) auto
  then show r0: "0 \<le> r" and rc: "r \<le> int (length ws)"
    using leftover_bounds[OF W sumW, of T] by (simp_all add: r_def')
  have "nat r \<le> card {i. i < ?n \<and> 0 < T * ws ! i mod ?W}"
    using leftover_bounds(2)[OF W sumW, of T] by (simp add: r_def')
  then show "i \<in> set (take (nat r) order) \<Longrightarrow> 0 < T * ws ! i mod ?W"
    using take_descending_positive[OF perm desc] by blast
  have "(\<Sum>i<?n. if i \<in> set (take (nat r) order) then 1 else 0) = int (nat r)"
    using rc by (intro sum_indicator_take[OF perm]) simp
  then show "(\<Sum>i<?n. T * ws ! i div ?W + (if i \<in> set (take (nat r) order) then 1 else 0)) = T"
    using r0 by (simp add: sum.distrib r_def')
qed

section \<open>Bumping the selected entries in place\<close>

text \<open>\<open>for index in order { items[index] = inc(items[index])? }\<close>\<close>

definition bump_at :: "('p \<Rightarrow> 'e + 'p) \<Rightarrow> 'p list \<Rightarrow> nat list \<Rightarrow> 'e + 'p list" where
  "bump_at inc = try_fold (\<lambda>ps i. rbind (inc (ps ! i)) (\<lambda>p. Inr (ps[i := p])))"

lemmas bump_evals [evals] = bump_at_def

lemma bump_at_Inr:
  assumes "bump_at inc ps ixs = Inr qs" and "distinct ixs" and "set ixs \<subseteq> {..<length ps}"
  shows "length qs = length ps \<and>
    (\<forall>i<length ps. if i \<in> set ixs then inc (ps ! i) = Inr (qs ! i) else qs ! i = ps ! i)"
  using assms
proof (induction ixs arbitrary: ps)
  case Nil
  then show ?case by (simp add: bump_at_def)
next
  case (Cons j js)
  then obtain p where p: "inc (ps ! j) = Inr p" and rest: "bump_at inc (ps[j := p]) js = Inr qs"
    by (auto simp: bump_at_def)
  have IH: "length qs = length ps \<and> (\<forall>i<length ps. if i \<in> set js
      then inc (ps[j := p] ! i) = Inr (qs ! i) else qs ! i = ps[j := p] ! i)"
    using Cons.IH[OF rest] Cons.prems by simp
  show ?case
  proof (intro conjI allI impI)
    show "length qs = length ps" using IH by simp
    fix i assume i: "i < length ps"
    show "if i \<in> set (j # js) then inc (ps ! i) = Inr (qs ! i) else qs ! i = ps ! i"
      using IH i p Cons.prems(2) by (cases "i = j") (auto split: if_splits)
  qed
qed

lemma bump_at_total:
  assumes "distinct ixs" and "set ixs \<subseteq> {..<length ps}"
    and "\<forall>i\<in>set ixs. \<exists>q. inc (ps ! i) = Inr q"
  shows "\<exists>qs. bump_at inc ps ixs = Inr qs"
  using assms
proof (induction ixs arbitrary: ps)
  case Nil
  then show ?case by (simp add: bump_at_def)
next
  case (Cons j js)
  then obtain p where p: "inc (ps ! j) = Inr p" by auto
  have "\<exists>q. inc (ps[j := p] ! i) = Inr q" if "i \<in> set js" for i
    using that Cons.prems by (cases "i = j") auto
  then have "\<exists>qs. bump_at inc (ps[j := p]) js = Inr qs"
    using Cons.prems by (intro Cons.IH) auto
  then show ?case using p by (simp add: bump_at_def)
qed

lemma sorted_key_desc:
  assumes "sorted (map f xs)" and "\<And>i j. f i \<le> f j \<Longrightarrow> (rem j :: int) \<le> rem i"
  shows "sorted_wrt (\<lambda>i j. rem j \<le> rem i) xs"
  using assms by (auto simp: sorted_wrt_map intro: sorted_wrt_mono_rel[rotated])

end
