(* ===== verification/Merkle.thy ===== *)
theory Merkle
  imports Digest_Bytes
begin

text \<open>
  The Merkle root both crates compute (\<open>merkle_root\<close>, \<open>hash256_pair\<close>): levels of
  pairwise double hashes, the last node of an odd level paired with itself.  The root is
  binding for lists of one length, and not across lengths.
\<close>

definition hash256_pair :: "crypto \<Rightarrow> bytes \<Rightarrow> bytes \<Rightarrow> bytes" where
  "hash256_pair c left right = hash256 c (left @ right)"

text \<open>One pass over \<open>hashes.chunks(2)\<close>.\<close>

fun merkle_level :: "crypto \<Rightarrow> bytes list \<Rightarrow> bytes list" where
  "merkle_level c [] = []"
| "merkle_level c [a] = [hash256_pair c a a]"
| "merkle_level c (a # b # hs) = hash256_pair c a b # merkle_level c hs"

lemma length_merkle_level: "length (merkle_level c hs) = (length hs + 1) div 2"
  by (induction c hs rule: merkle_level.induct) auto

text \<open>\<open>None\<close> is the panic of \<open>hashes[0]\<close> on an empty vector.\<close>

function merkle_root :: "crypto \<Rightarrow> bytes list \<Rightarrow> bytes option" where
  "merkle_root c hashes =
    (if 1 < length hashes then merkle_root c (merkle_level c hashes)
     else case hashes of [] \<Rightarrow> None | h # _ \<Rightarrow> Some h)"
  by pat_completeness auto

termination merkle_root
  by (relation "measure (\<lambda>(_, hs). length hs)") (auto simp: length_merkle_level)

declare merkle_root.simps [simp del]

lemma merkle_root_one [simp]: "merkle_root c [h] = Some h"
  by (simp add: merkle_root.simps)

lemma merkle_root_Nil [simp]: "merkle_root c [] = None"
  by (simp add: merkle_root.simps)

lemma merkle_root_step: "1 < length hs \<Longrightarrow> merkle_root c hs = merkle_root c (merkle_level c hs)"
  by (simp add: merkle_root.simps)

lemma merkle_root_Some: "hs \<noteq> [] \<Longrightarrow> \<exists>r. merkle_root c hs = Some r"
proof (induction c hs rule: merkle_root.induct)
  case (1 c hs)
  show ?case
  proof (cases "1 < length hs")
    case True
    then have "length (merkle_level c hs) \<noteq> 0" by (simp add: length_merkle_level)
    then have "merkle_level c hs \<noteq> []" by auto
    then show ?thesis using "1.IH"[OF True] True by (simp add: merkle_root_step)
  next
    case False
    then show ?thesis using "1.prems" by (cases hs) auto
  qed
qed

lemma hash256_length: "hash_ok c \<Longrightarrow> length (hash256 c b) = 32"
  by (simp add: hash_ok_def hash256_def)

lemma merkle_level_length32:
  "hash_ok c \<Longrightarrow> \<forall>h\<in>set (merkle_level c hs). length h = 32"
  by (induction c hs rule: merkle_level.induct) (auto simp: hash256_pair_def hash256_length)

lemma merkle_root_length32:
  "hash_ok c \<Longrightarrow> \<forall>h\<in>set hs. length h = 32 \<Longrightarrow> merkle_root c hs = Some r \<Longrightarrow> length r = 32"
proof (induction c hs rule: merkle_root.induct)
  case (1 c hs)
  show ?case
  proof (cases "1 < length hs")
    case True
    then show ?thesis using "1.IH"[OF True] "1.prems" merkle_level_length32 by (simp add: merkle_root_step)
  next
    case False
    then show ?thesis using "1.prems" by (cases hs) auto
  qed
qed

section \<open>Binding\<close>

text \<open>The byte strings hashed while the root is computed.\<close>

fun level_payloads :: "bytes list \<Rightarrow> bytes set" where
  "level_payloads [] = {}"
| "level_payloads [a] = {a @ a}"
| "level_payloads (a # b # hs) = insert (a @ b) (level_payloads hs)"

function merkle_payloads :: "crypto \<Rightarrow> bytes list \<Rightarrow> bytes set" where
  "merkle_payloads c hs =
    (if 1 < length hs then level_payloads hs \<union> merkle_payloads c (merkle_level c hs) else {})"
  by pat_completeness auto

termination merkle_payloads
  by (relation "measure (\<lambda>(_, hs). length hs)") (auto simp: length_merkle_level)

declare merkle_payloads.simps [simp del]

lemma merkle_level_inj:
  assumes "length xs = length ys" and "\<forall>h\<in>set xs. length h = 32" and "\<forall>h\<in>set ys. length h = 32"
    and "inj_on (hash256 c) (level_payloads xs \<union> level_payloads ys)"
    and "merkle_level c xs = merkle_level c ys"
  shows "xs = ys"
  using assms
proof (induction c xs arbitrary: ys rule: merkle_level.induct)
  case (1 c)
  then show ?case by simp
next
  case (2 c a)
  from "2.prems"(1) obtain b where ys: "ys = [b]" by (cases ys) auto
  have "a @ a = b @ b"
    by (rule inj_onD[OF "2.prems"(4)]) (use "2.prems"(5) in \<open>simp_all add: ys hash256_pair_def\<close>)
  then show ?case using "2.prems"(2,3) by (simp add: ys)
next
  case (3 c a b hs)
  from "3.prems"(1) obtain a' b' hs' where ys: "ys = a' # b' # hs'" 
    by (cases ys; cases "tl ys") auto
  have "a @ b = a' @ b'"
    by (rule inj_onD[OF "3.prems"(4)]) (use "3.prems"(5) in \<open>simp_all add: ys hash256_pair_def\<close>)
  moreover have "length a = length a'" using "3.prems"(2,3) by (simp add: ys)
  moreover have "hs = hs'"
  proof (rule "3.IH")
    show "length hs = length hs'" using "3.prems"(1) by (simp add: ys)
    show "\<forall>h\<in>set hs. length h = 32" using "3.prems"(2) by simp
    show "\<forall>h\<in>set hs'. length h = 32" using "3.prems"(3) by (simp add: ys)
    show "merkle_level c hs = merkle_level c hs'" using "3.prems"(5) by (simp add: ys)
    show "inj_on (hash256 c) (level_payloads hs \<union> level_payloads hs')"
      by (rule inj_on_subset[OF "3.prems"(4)]) (auto simp: ys)
  qed
  ultimately show ?case by (simp add: ys)
qed

lemma merkle_root_binding:
  assumes "length xs = length ys" and "\<forall>h\<in>set xs. length h = 32" and "\<forall>h\<in>set ys. length h = 32"
    and "hash_ok c" and "inj_on (hash256 c) (merkle_payloads c xs \<union> merkle_payloads c ys)"
    and "merkle_root c xs = merkle_root c ys"
  shows "xs = ys"
  using assms
proof (induction c xs arbitrary: ys rule: merkle_root.induct)
  case (1 c xs)
  show ?case
  proof (cases "1 < length xs")
    case True
    then have long: "1 < length ys" using "1.prems"(1) by simp
    have px: "merkle_payloads c xs = level_payloads xs \<union> merkle_payloads c (merkle_level c xs)"
      using True by (subst merkle_payloads.simps) simp
    have py: "merkle_payloads c ys = level_payloads ys \<union> merkle_payloads c (merkle_level c ys)"
      using long by (subst merkle_payloads.simps) simp
    have "merkle_level c xs = merkle_level c ys"
    proof (rule "1.IH"[OF True])
      show "length (merkle_level c xs) = length (merkle_level c ys)"
        using "1.prems"(1) by (simp add: length_merkle_level)
      show "\<forall>h\<in>set (merkle_level c xs). length h = 32" "\<forall>h\<in>set (merkle_level c ys). length h = 32"
        by (rule merkle_level_length32[OF "1.prems"(4)])+
      show "inj_on (hash256 c) (merkle_payloads c (merkle_level c xs) \<union> merkle_payloads c (merkle_level c ys))"
        by (rule inj_on_subset[OF "1.prems"(5)]) (auto simp: px py)
      show "merkle_root c (merkle_level c xs) = merkle_root c (merkle_level c ys)"
        using "1.prems"(6) merkle_root_step[OF True] merkle_root_step[OF long] by simp
    qed (rule "1.prems"(4))
    moreover have "inj_on (hash256 c) (level_payloads xs \<union> level_payloads ys)"
      by (rule inj_on_subset[OF "1.prems"(5)]) (auto simp: px py)
    ultimately show ?thesis using merkle_level_inj[OF "1.prems"(1-3)] by blast
  next
    case False
    then show ?thesis using "1.prems"(1,6) by (cases xs; cases ys) auto
  qed
qed

text \<open>Lists of different lengths can share a root: an odd level repeats its last node.\<close>

lemma merkle_level_dup:
  "odd (length hs) \<Longrightarrow> merkle_level c (hs @ [last hs]) = merkle_level c hs"
  by (induction c hs rule: merkle_level.induct) auto

lemma merkle_root_dup:
  "odd (length hs) \<Longrightarrow> 1 < length hs \<Longrightarrow> merkle_root c (hs @ [last hs]) = merkle_root c hs"
  using merkle_root_step[of "hs @ [last hs]" c] merkle_root_step[of hs c] merkle_level_dup[of hs c]
  by (cases hs) auto

end
