(* ===== verification/Pool_Builder.thy ===== *)
theory Pool_Builder
  imports Builder_Types Apportion Merkle
begin

text \<open>
  \<open>qbit-pool-builder\<close>: the coinbase transaction of a request.  Allocation of the coinbase
  value over P2MR outputs with an optional pinned first output, the serialization of both
  transaction forms, the witness commitment, the height script, and the signed manifest.
\<close>

section \<open>Constants and third-party functions\<close>

definition P2MR_SCRIPT_LEN :: usize where "P2MR_SCRIPT_LEN = 34"
definition P2MR_PROGRAM_LEN :: usize where "P2MR_PROGRAM_LEN = 32"
definition P2MR_WITNESS_VERSION_OPCODE :: u8 where "P2MR_WITNESS_VERSION_OPCODE = 0x52"
definition WITNESS_COMMITMENT_HEADER :: bytes where "WITNESS_COMMITMENT_HEADER = [0xaa, 0x21, 0xa9, 0xed]"
definition WITNESS_COMMITMENT_SCRIPT_PREFIX :: bytes where
  "WITNESS_COMMITMENT_SCRIPT_PREFIX = [0x6a, 36]"
definition DEFAULT_WITNESS_NONCE :: bytes where "DEFAULT_WITNESS_NONCE = replicate 32 0"
definition MAX_SEQUENCE_NONFINAL :: u32 where "MAX_SEQUENCE_NONFINAL = 0xfffffffe"
definition MAX_COINBASE_SCRIPT_SIG_LEN :: usize where "MAX_COINBASE_SCRIPT_SIG_LEN = 100"
definition MAX_BLOCK_WEIGHT :: usize where "MAX_BLOCK_WEIGHT = 2000000"

lemmas builder_const_evals [evals] = P2MR_SCRIPT_LEN_def P2MR_PROGRAM_LEN_def
  P2MR_WITNESS_VERSION_OPCODE_def WITNESS_COMMITMENT_HEADER_def
  WITNESS_COMMITMENT_SCRIPT_PREFIX_def DEFAULT_WITNESS_NONCE_def MAX_SEQUENCE_NONFINAL_def
  MAX_COINBASE_SCRIPT_SIG_LEN_def MAX_BLOCK_WEIGHT_def

text \<open>
  \<open>ed25519_dalek\<close> and \<open>serde_json\<close> as parameters: the verifying key of a 32-byte seed,
  signing, key parsing and verification, and the canonical bytes of a manifest.
\<close>

record signer =
  sg_public_key :: "bytes \<Rightarrow> bytes"
  sg_sign :: "bytes \<Rightarrow> bytes \<Rightarrow> bytes"
  sg_key_valid :: "bytes \<Rightarrow> bool"
  sg_verify :: "bytes \<Rightarrow> bytes \<Rightarrow> bytes \<Rightarrow> bool"
  sg_manifest_json :: "payout_manifest \<Rightarrow> string + bytes"

section \<open>Hex fields\<close>

definition hex_decode_b :: "crypto \<Rightarrow> string \<Rightarrow> builder_error + bytes" where
  "hex_decode_b c s = map_err Hex (hex_decode c s)"

definition wrong_length :: "string \<Rightarrow> bytes \<Rightarrow> builder_error" where
  "wrong_length what decoded =
    InvalidP2mrProgram what (''expected 32 bytes, got '' @ dec_digits (length decoded))"

definition parse_p2mr_program :: "crypto \<Rightarrow> weighted_entitlement \<Rightarrow> builder_error + bytes" where
  "parse_p2mr_program c e =
    rbind (map_err (InvalidP2mrProgram (we_recipient_id e)) (hex_decode c (we_program e))) (\<lambda>program.
    if length program \<noteq> P2MR_PROGRAM_LEN then Inl (wrong_length (we_recipient_id e) program)
    else Inr program)"

definition witness_nonce :: "crypto \<Rightarrow> coinbase_build_request \<Rightarrow> builder_error + bytes" where
  "witness_nonce c req = (case cr_witness_nonce_hex req of
      Some raw \<Rightarrow> rbind (hex_decode_b c raw) (\<lambda>decoded.
        if length decoded \<noteq> 32 then Inl (wrong_length ''witness_nonce'' decoded) else Inr decoded)
    | None \<Rightarrow> Inr DEFAULT_WITNESS_NONCE)"

definition witness_leaves :: "crypto \<Rightarrow> coinbase_build_request \<Rightarrow> builder_error + bytes list" where
  "witness_leaves c req =
    try_map (\<lambda>(index, raw). rbind (hex_decode_b c raw) (\<lambda>decoded.
      if length decoded \<noteq> 32
      then Inl (wrong_length (''witness_merkle_leaf['' @ dec_digits index @ '']'') decoded)
      else Inr decoded)) (enumerate 0 (cr_witness_merkle_leaves_hex req))"

definition coinbase_script_sig_suffix :: "crypto \<Rightarrow> coinbase_build_request \<Rightarrow> builder_error + bytes" where
  "coinbase_script_sig_suffix c req = (case cr_script_sig_suffix_hex req of
      Some raw \<Rightarrow> hex_decode_b c raw
    | None \<Rightarrow> Inr [])"

section \<open>Allocation\<close>

definition p2mr_script_pubkey :: "bytes \<Rightarrow> bytes" where
  "p2mr_script_pubkey program =
    P2MR_WITNESS_VERSION_OPCODE # word_of_nat P2MR_PROGRAM_LEN # program"

definition is_p2mr_script_pubkey :: "bytes \<Rightarrow> bool" where
  "is_p2mr_script_pubkey script \<longleftrightarrow> length script = P2MR_SCRIPT_LEN \<and>
    script ! 0 = P2MR_WITNESS_VERSION_OPCODE \<and> script ! 1 = word_of_nat P2MR_PROGRAM_LEN"

definition pin_matches :: "pinned_first_output \<Rightarrow> weighted_entitlement \<Rightarrow> bool" where
  "pin_matches pinned e \<longleftrightarrow> we_recipient_id e = pin_recipient_id pinned \<and>
    we_order_key e = pin_order_key pinned \<and> eq_ignore_ascii_case (we_program e) (pin_program pinned)"

definition pinned_entitlement_index ::
  "weighted_entitlement list \<Rightarrow> pinned_first_output \<Rightarrow> builder_error + usize" where
  "pinned_entitlement_index es pinned =
    (case filter (\<lambda>i. pin_matches pinned (es ! i)) [0..<length es] of
      [] \<Rightarrow> Inl (PinnedFirstOutputMissing (pin_recipient_id pinned))
    | [i] \<Rightarrow> Inr i
    | _ \<Rightarrow> Inl (PinnedFirstOutputAmbiguous (pin_recipient_id pinned)))"

text \<open>\<open>entitlements[..=index].rotate_right(1)\<close>\<close>

definition rotate_prefix :: "usize \<Rightarrow> 'a list \<Rightarrow> 'a list" where
  "rotate_prefix index xs =
    (let prefix = take (index + 1) xs in last prefix # butlast prefix @ drop (index + 1) xs)"

definition positive_weight_sum :: "weighted_entitlement list \<Rightarrow> builder_error + u128" where
  "positive_weight_sum = try_fold (\<lambda>sum e.
    if we_weight e = 0 then Inl (ZeroWeight (we_recipient_id e))
    else ok_or (checked_add sum (we_weight e)) WeightOverflow) 0"

definition provisional_output ::
  "crypto \<Rightarrow> u64 \<Rightarrow> u128 \<Rightarrow> weighted_entitlement \<Rightarrow> builder_error + allocated_output \<times> u128" where
  "provisional_output c coinbase_value total_weight e =
    rbind (parse_p2mr_program c e) (\<lambda>program.
    rbind (ok_or (checked_mul (u128_of_u64 coinbase_value) (we_weight e)) AllocationOverflow) (\<lambda>product.
    rbind (ok_or (u64_try_from_u128 (product div total_weight)) AllocationOverflow) (\<lambda>amount.
    Inr (\<lparr>ao_recipient_id = we_recipient_id e, ao_order_key = we_order_key e,
          ao_p2mr_program = program, ao_script_pubkey = p2mr_script_pubkey program,
          ao_weight = we_weight e, ao_amount_sats = amount\<rparr>, product mod total_weight))))"

definition output_remainder_order :: "(allocated_output \<times> u128) list \<Rightarrow> usize list" where
  "output_remainder_order provisional =
    sort_key (\<lambda>i. case provisional ! i of (out, remainder) \<Rightarrow>
        (- uint remainder, ao_order_key out, ao_recipient_id out, ao_p2mr_program out))
      [0..<length provisional]"

definition bump_output :: "allocated_output \<times> u128 \<Rightarrow> builder_error + allocated_output \<times> u128" where
  "bump_output p = (case p of (out, remainder) \<Rightarrow>
    rbind (ok_or (checked_add (ao_amount_sats out) 1) AllocationOverflow) (\<lambda>amount.
    Inr (out\<lparr>ao_amount_sats := amount\<rparr>, remainder)))"

definition amount_sum :: "allocated_output list \<Rightarrow> builder_error + u64" where
  "amount_sum = checked_sum AllocationOverflow ao_amount_sats"

text \<open>The allocation of an ordered list of entitlements: the body after the sort and the pin.\<close>

definition allocate_ordered ::
  "crypto \<Rightarrow> u64 \<Rightarrow> weighted_entitlement list \<Rightarrow> builder_error + allocated_output list" where
  "allocate_ordered c coinbase_value es =
    rbind (positive_weight_sum es) (\<lambda>total_weight.
    rbind (try_map (provisional_output c coinbase_value total_weight) es) (\<lambda>provisional.
    rbind (amount_sum (map fst provisional)) (\<lambda>allocated.
    rbind (ok_or (checked_sub coinbase_value allocated) AllocationOverflow) (\<lambda>remainder_sats.
    rbind (bump_at bump_output provisional
             (take (unat remainder_sats) (output_remainder_order provisional))) (\<lambda>provisional'.
    let outputs = map fst provisional' in
    rbind (amount_sum outputs) (\<lambda>final_total.
    if final_total \<noteq> coinbase_value then Inl (AllocationTotalMismatch final_total coinbase_value)
    else Inr outputs))))))"

definition allocate_outputs :: "crypto \<Rightarrow> coinbase_build_request \<Rightarrow> builder_error + allocated_output list"
where
  "allocate_outputs c req =
    (if cr_coinbase_value req = 0 then Inl EmptyCoinbaseValue
     else if cr_entitlements req = [] then Inl EmptyEntitlements
     else
     let sorted_es = sort_key entitlement_key (cr_entitlements req) in
     rbind (case cr_pinned_first_output req of
         None \<Rightarrow> Inr sorted_es
       | Some pinned \<Rightarrow> rbind (pinned_entitlement_index sorted_es pinned) (\<lambda>index.
           Inr (rotate_prefix index sorted_es))) (\<lambda>es.
     allocate_ordered c (cr_coinbase_value req) es))"

section \<open>Serialization\<close>

definition compact_size :: "u64 \<Rightarrow> bytes" where
  "compact_size v =
    (if v < 253 then [ucast v]
     else if v \<le> 0xffff then 253 # le_bytes 2 (uint (ucast v :: u16))
     else if v \<le> 0xffffffff then 254 # le_bytes 4 (uint (ucast v :: u32))
     else 255 # le_bytes 8 (uint v))"

text \<open>
  \<open>minimal_script_num\<close>: magnitude bytes little-endian, the sign in the top bit of the last
  byte, in a byte of its own when that bit is taken.
\<close>

fun magnitude_bytes :: "nat \<Rightarrow> bytes" where
  "magnitude_bytes n = (if n = 0 then [] else word_of_nat (n mod 256) # magnitude_bytes (n div 256))"

declare magnitude_bytes.simps [simp del]

definition minimal_script_num :: "i64 \<Rightarrow> bytes" where
  "minimal_script_num value =
    (if value = 0 then []
     else
     let negative = value < 0; result = magnitude_bytes (nat \<bar>value\<bar>) in
     if bit (last result) 7 then result @ [if negative then 0x80 else 0]
     else if negative then butlast result @ [set_bit 7 (last result)]
     else result)"

definition compact_push :: "usize \<Rightarrow> bytes" where
  "compact_push len =
    (if len \<le> 75 then [word_of_nat len]
     else if len \<le> 0xff then [76, word_of_nat len]
     else if len \<le> 0xffff then 77 # le_bytes 2 (int len)
     else 78 # le_bytes 4 (int len))"

definition coinbase_height_script :: "u64 \<Rightarrow> builder_error + bytes" where
  "coinbase_height_script height =
    (if 0xffffffff < height then Inl HeightOverflow
     else if height \<le> 16 then Inr [0x50 + ucast height, 0]
     else let encoded = minimal_script_num (uint height) in
       Inr (compact_push (length encoded) @ encoded))"

definition coinbase_script_sig :: "crypto \<Rightarrow> coinbase_build_request \<Rightarrow> builder_error + bytes" where
  "coinbase_script_sig c req =
    rbind (coinbase_height_script (cr_block_height req)) (\<lambda>script.
    rbind (coinbase_script_sig_suffix c req) (\<lambda>suffix.
    let script = script @ suffix in
    if MAX_COINBASE_SCRIPT_SIG_LEN < length script then Inl (CoinbaseScriptSigTooLong (length script))
    else Inr script))"

definition coinbase_lock_time :: "u64 \<Rightarrow> builder_error + u32" where
  "coinbase_lock_time height =
    (if height = 0 \<or> 0xffffffff < height then Inl HeightOverflow else Inr (ucast (height - 1)))"

definition serialize_coinbase_input :: "crypto \<Rightarrow> coinbase_build_request \<Rightarrow> builder_error + bytes" where
  "serialize_coinbase_input c req =
    rbind (coinbase_script_sig c req) (\<lambda>script_sig.
    Inr (compact_size 1 @ replicate 32 0 @ le_bytes 4 0xffffffff @
      compact_size (word_of_nat (length script_sig)) @ script_sig @
      le_bytes 4 (uint MAX_SEQUENCE_NONFINAL)))"

definition serialize_output :: "allocated_output \<Rightarrow> bytes" where
  "serialize_output out = le_bytes 8 (sint (ao_amount_sats out)) @
    compact_size (word_of_nat (length (ao_script_pubkey out))) @ ao_script_pubkey out"

definition serialize_outputs :: "allocated_output list \<Rightarrow> bytes \<Rightarrow> bytes" where
  "serialize_outputs outputs commitment_script =
    compact_size (word_of_nat (length outputs + 1)) @ concat (map serialize_output outputs) @
    le_bytes 8 0 @ compact_size (word_of_nat (length commitment_script)) @ commitment_script"

definition serialize_witness :: "bytes \<Rightarrow> bytes" where
  "serialize_witness nonce = compact_size 1 @ compact_size (word_of_nat (length nonce)) @ nonce"

definition witness_merkle_root :: "crypto \<Rightarrow> bytes list \<Rightarrow> bytes option" where
  "witness_merkle_root c extra_leaves = merkle_root c (replicate 32 0 # extra_leaves)"

text \<open>The list of leaves is never empty, so the root exists.\<close>

definition witness_commitment_script :: "crypto \<Rightarrow> bytes list \<Rightarrow> bytes \<Rightarrow> bytes" where
  "witness_commitment_script c extra_leaves nonce =
    WITNESS_COMMITMENT_SCRIPT_PREFIX @ WITNESS_COMMITMENT_HEADER @
    hash256_pair c (the (witness_merkle_root c extra_leaves)) nonce"

definition display_hash_hex :: "bytes \<Rightarrow> string" where
  "display_hash_hex h = model_hex_encode (rev h)"

definition build_coinbase :: "crypto \<Rightarrow> coinbase_build_request \<Rightarrow> builder_error + built_coinbase" where
  "build_coinbase c req =
    rbind (allocate_outputs c req) (\<lambda>outputs.
    rbind (witness_nonce c req) (\<lambda>nonce.
    rbind (witness_leaves c req) (\<lambda>leaves.
    let commitment = witness_commitment_script c leaves nonce in
    rbind (serialize_coinbase_input c req) (\<lambda>input.
    rbind (coinbase_lock_time (cr_block_height req)) (\<lambda>lock_time.
    let tx_without = le_bytes 4 2 @ input @ serialize_outputs outputs commitment @ le_bytes 4 (uint lock_time);
        tx_with = le_bytes 4 2 @ [0, 1] @ input @ serialize_outputs outputs commitment @
          serialize_witness nonce @ le_bytes 4 (uint lock_time) in
    if MAX_BLOCK_WEIGHT < length tx_with then Inl (CoinbaseWeightTooHigh (length tx_with) MAX_BLOCK_WEIGHT)
    else
    rbind (amount_sum outputs) (\<lambda>allocated.
    if allocated \<noteq> cr_coinbase_value req
      then Inl (AllocationTotalMismatch allocated (cr_coinbase_value req))
    else
    rbind (checked_sum WeightOverflow ao_weight outputs) (\<lambda>total_weight.
    Inr \<lparr>bc_tx_with_witness = tx_with, bc_tx_without_witness = tx_without,
         bc_txid = hash256 c tx_without, bc_wtxid = hash256 c tx_with,
         bc_witness_commitment_script = commitment, bc_outputs = outputs,
         bc_total_weight = total_weight, bc_coinbase_weight_bytes = length tx_with\<rparr>)))))))"

definition payout_output_of :: "crypto \<Rightarrow> nat \<times> allocated_output \<Rightarrow> payout_output" where
  "payout_output_of c p = (case p of (index, out) \<Rightarrow>
    \<lparr>po_vout = index, po_recipient_id = ao_recipient_id out, po_order_key = ao_order_key out,
     po_program = hex_encode c (ao_p2mr_program out),
     po_script_pubkey_hex = hex_encode c (ao_script_pubkey out), po_weight = ao_weight out,
     po_amount_sats = ao_amount_sats out\<rparr>)"

definition coinbase_manifest_schema :: string where
  "coinbase_manifest_schema = ''qbit.prism.coinbase-manifest.v1''"

definition build_manifest :: "crypto \<Rightarrow> coinbase_build_request \<Rightarrow> builder_error + payout_manifest" where
  "build_manifest c req =
    rbind (build_coinbase c req) (\<lambda>built.
    rbind (coinbase_script_sig c req) (\<lambda>script_sig.
    rbind (coinbase_script_sig_suffix c req) (\<lambda>suffix.
    let outputs = map (payout_output_of c) (enumerate 0 (bc_outputs built)) in
    rbind (witness_nonce c req) (\<lambda>nonce.
    Inr \<lparr>pm_schema = coinbase_manifest_schema, pm_block_height = cr_block_height req,
         pm_coinbase_value = cr_coinbase_value req, pm_total_weight = bc_total_weight built,
         pm_coinbase_weight_bytes = bc_coinbase_weight_bytes built, pm_payout_count = length outputs,
         pm_coinbase_tx_hex = hex_encode c (bc_tx_with_witness built),
         pm_coinbase_txid = display_hash_hex (bc_txid built),
         pm_coinbase_wtxid = display_hash_hex (bc_wtxid built),
         pm_script_sig_hex = hex_encode c script_sig,
         pm_script_sig_suffix_hex = hex_encode c suffix,
         pm_witness_nonce_hex = hex_encode c nonce,
         pm_witness_commitment_script_hex = hex_encode c (bc_witness_commitment_script built),
         pm_outputs = outputs\<rparr>))))"

section \<open>Signing\<close>

definition canonical_manifest_bytes :: "signer \<Rightarrow> payout_manifest \<Rightarrow> builder_error + bytes" where
  "canonical_manifest_bytes sg m = map_err BuilderJson (sg_manifest_json sg m)"

definition signing_key_from_seed_hex :: "crypto \<Rightarrow> string \<Rightarrow> builder_error + bytes" where
  "signing_key_from_seed_hex c seed_hex =
    rbind (hex_decode_b c seed_hex) (\<lambda>seed.
    if length seed \<noteq> 32 then Inl (InvalidSigningSeedLength (length seed)) else Inr seed)"

definition public_key_hex :: "crypto \<Rightarrow> signer \<Rightarrow> bytes \<Rightarrow> string" where
  "public_key_hex c sg key = hex_encode c (sg_public_key sg key)"

definition sign_message_hex :: "crypto \<Rightarrow> signer \<Rightarrow> bytes \<Rightarrow> bytes \<Rightarrow> string" where
  "sign_message_hex c sg key message = hex_encode c (sg_sign sg key message)"

definition sign_manifest ::
  "crypto \<Rightarrow> signer \<Rightarrow> bytes \<Rightarrow> payout_manifest \<Rightarrow> builder_error + signed_payout_manifest" where
  "sign_manifest c sg key manifest =
    rbind (canonical_manifest_bytes sg manifest) (\<lambda>canonical.
    Inr \<lparr>sm_manifest = manifest, sm_signature =
      \<lparr>sig_algorithm = ''ed25519'', sig_public_key_hex = public_key_hex c sg key,
       sig_signature_hex = hex_encode c (sg_sign sg key canonical)\<rparr>\<rparr>)"

definition build_signed_manifest ::
  "crypto \<Rightarrow> signer \<Rightarrow> coinbase_build_request \<Rightarrow> bytes \<Rightarrow> builder_error + signed_payout_manifest" where
  "build_signed_manifest c sg req key = rbind (build_manifest c req) (sign_manifest c sg key)"

definition verify_ed25519_message ::
  "crypto \<Rightarrow> signer \<Rightarrow> string \<Rightarrow> bytes \<Rightarrow> string \<Rightarrow> builder_error + unit" where
  "verify_ed25519_message c sg public_hex message signature_hex =
    rbind (hex_decode_b c public_hex) (\<lambda>public_key.
    if length public_key \<noteq> 32 then Inl (InvalidPublicKeyLength (length public_key))
    else if \<not> sg_key_valid sg public_key then Inl SignatureVerificationFailed
    else
    rbind (hex_decode_b c signature_hex) (\<lambda>signature.
    if length signature \<noteq> 64 then Inl (InvalidSignatureLength (length signature))
    else if sg_verify sg public_key message signature then Inr ()
    else Inl SignatureVerificationFailed))"

definition verify_signed_manifest :: "crypto \<Rightarrow> signer \<Rightarrow> signed_payout_manifest \<Rightarrow> builder_error + unit" where
  "verify_signed_manifest c sg sm =
    (if sig_algorithm (sm_signature sm) \<noteq> ''ed25519'' then Inl SignatureVerificationFailed
     else rbind (canonical_manifest_bytes sg (sm_manifest sm)) (\<lambda>canonical.
       verify_ed25519_message c sg (sig_public_key_hex (sm_signature sm)) canonical
         (sig_signature_hex (sm_signature sm))))"

lemmas builder_evals [evals] = hex_decode_b_def wrong_length_def parse_p2mr_program_def
  witness_nonce_def witness_leaves_def coinbase_script_sig_suffix_def p2mr_script_pubkey_def
  is_p2mr_script_pubkey_def pin_matches_def pinned_entitlement_index_def rotate_prefix_def
  positive_weight_sum_def provisional_output_def output_remainder_order_def bump_output_def
  amount_sum_def allocate_ordered_def allocate_outputs_def compact_size_def
  minimal_script_num_def compact_push_def coinbase_height_script_def coinbase_script_sig_def
  coinbase_lock_time_def serialize_coinbase_input_def serialize_output_def serialize_outputs_def
  serialize_witness_def witness_merkle_root_def witness_commitment_script_def
  build_coinbase_def payout_output_of_def build_manifest_def

end
