(* ===== verification/Tx_Reader.thy ===== *)
theory Tx_Reader
  imports Codec Pool_Builder Prism_Types
begin

text \<open>
  \<open>TxReader\<close> of \<open>ctv.rs\<close>.  The reader's state is the input from its offset on:
  \<open>remaining()\<close> is the length of that list, and an offset that would overflow
  \<open>usize\<close> is out of range like any other.
\<close>

definition invalid_ctv_manifest :: "string \<Rightarrow> prism_error" where
  "invalid_ctv_manifest reason = InvalidCtvFanoutManifest reason"

definition truncated :: "string \<Rightarrow> prism_error" where
  "truncated field = invalid_ctv_manifest (field @ '' transaction is truncated'')"

definition QBIT_MAX_MONEY_SATS :: u64 where "QBIT_MAX_MONEY_SATS = 21000000000000000"

definition peek_u8 :: "string \<Rightarrow> bytes \<Rightarrow> prism_error + u8" where
  "peek_u8 field bs = (case bs of [] \<Rightarrow> Inl (truncated field) | b # _ \<Rightarrow> Inr b)"

definition read_u8 :: "string \<Rightarrow> bytes \<Rightarrow> prism_error + u8 \<times> bytes" where
  "read_u8 field bs = rbind (peek_u8 field bs) (\<lambda>b. Inr (b, drop 1 bs))"

definition read_bytes :: "string \<Rightarrow> nat \<Rightarrow> bytes \<Rightarrow> prism_error + bytes \<times> bytes" where
  "read_bytes field len bs =
    (if length bs < len then Inl (truncated field) else Inr (take len bs, drop len bs))"

definition read_u32 :: "string \<Rightarrow> bytes \<Rightarrow> prism_error + u32 \<times> bytes" where
  "read_u32 field bs = rbind (read_bytes field 4 bs) (\<lambda>(raw, bs). Inr (word_of_int (le_value raw), bs))"

text \<open>\<open>i64::from_le_bytes\<close>\<close>

definition i64_from_le :: "bytes \<Rightarrow> i64" where
  "i64_from_le raw = (let v = le_value raw in if v < 2 ^ 63 then v else v - 2 ^ 64)"

definition read_i64_nonnegative :: "string \<Rightarrow> bytes \<Rightarrow> prism_error + i64 \<times> bytes" where
  "read_i64_nonnegative field bs =
    rbind (read_bytes field 8 bs) (\<lambda>(raw, bs).
    let value = i64_from_le raw in
    if value < 0 then Inl (invalid_ctv_manifest (field @ '' has negative transaction output value''))
    else if uint QBIT_MAX_MONEY_SATS < value
      then Inl (invalid_ctv_manifest (field @ '' has transaction output value above MAX_MONEY''))
    else Inr (value, bs))"

definition non_canonical :: "string \<Rightarrow> prism_error" where
  "non_canonical field = invalid_ctv_manifest (field @ '' has non-canonical compact size'')"

definition read_compact_size :: "string \<Rightarrow> bytes \<Rightarrow> prism_error + u64 \<times> bytes" where
  "read_compact_size field bs =
    rbind (read_u8 field bs) (\<lambda>(first, bs).
    if first \<le> 0xfc then Inr (ucast first, bs)
    else if first = 0xfd then
      rbind (read_bytes field 2 bs) (\<lambda>(raw, bs).
      let value = le_value raw in
      if value < 0xfd then Inl (non_canonical field) else Inr (word_of_int value, bs))
    else if first = 0xfe then
      rbind (read_bytes field 4 bs) (\<lambda>(raw, bs).
      let value = le_value raw in
      if value \<le> 0xffff then Inl (non_canonical field) else Inr (word_of_int value, bs))
    else
      rbind (read_bytes field 8 bs) (\<lambda>(raw, bs).
      let value = le_value raw in
      if value \<le> 0xffffffff then Inl (non_canonical field) else Inr (word_of_int value, bs)))"

definition read_compact_size_as_usize :: "string \<Rightarrow> bytes \<Rightarrow> prism_error + usize \<times> bytes" where
  "read_compact_size_as_usize field bs =
    rbind (read_compact_size field bs) (\<lambda>(value, bs).
    if length bs < unat value then Inl (truncated field) else Inr (unat value, bs))"

definition read_var_bytes :: "string \<Rightarrow> bytes \<Rightarrow> prism_error + bytes \<times> bytes" where
  "read_var_bytes field bs =
    rbind (read_compact_size_as_usize field bs) (\<lambda>(len, bs). read_bytes field len bs)"

definition var_bytes :: "bytes \<Rightarrow> bytes" where
  "var_bytes b = compact_size (word_of_nat (length b)) @ b"

lemmas reader_evals [evals] = invalid_ctv_manifest_def truncated_def QBIT_MAX_MONEY_SATS_def
  peek_u8_def read_u8_def read_bytes_def read_u32_def i64_from_le_def read_i64_nonnegative_def
  non_canonical_def read_compact_size_def read_compact_size_as_usize_def read_var_bytes_def
  var_bytes_def

section \<open>Readers and writers as codecs\<close>

lemma read_bytes_Inr:
  "read_bytes field n bs = Inr (x, r) \<longleftrightarrow> length x = n \<and> bs = x @ r"
  by (auto simp: read_bytes_def)

interpretation fixed_bytes: codec "read_bytes field n" "\<lambda>b. b" "\<lambda>b. length b = n" for field n
  by unfold_locales (auto simp: read_bytes_Inr)

lemma le_bytes_uint_word:
  "length raw = n \<Longrightarrow> 8 * n = LENGTH('a) \<Longrightarrow>
    le_bytes n (uint (word_of_int (le_value raw) :: 'a::len word)) = raw"
proof -
  assume len: "length raw = n" and n: "8 * n = LENGTH('a)"
  have "(256 :: int) ^ n = 2 ^ LENGTH('a)" by (simp add: n[symmetric] power_mult)
  then have "le_value raw < 2 ^ LENGTH('a)" using le_value_bounds[of raw] len by simp
  then have "uint (word_of_int (le_value raw) :: 'a word) = le_value raw"
    using le_value_bounds[of raw] by (intro uint_word_of_int_small) auto
  then show ?thesis using le_bytes_le_value[of raw] len by simp
qed

lemma word_of_le_bytes:
  "8 * n = LENGTH('a) \<Longrightarrow> word_of_int (le_value (le_bytes n (uint w))) = w" for w :: "'a::len word"
proof -
  assume n: "8 * n = LENGTH('a)"
  have "(256 :: int) ^ n = 2 ^ LENGTH('a)" by (simp add: n[symmetric] power_mult)
  then have "uint w mod 256 ^ n = uint w" using uint_lt2p[of w] by (simp add: mod_pos_pos_trivial)
  then show ?thesis by (simp add: le_value_le_bytes)
qed

interpretation u32_codec: codec "read_u32 field" "\<lambda>w. le_bytes 4 (uint w)" "\<lambda>_. True" for field
proof unfold_locales
  fix x :: u32 and r
  show "read_u32 field (le_bytes 4 (uint x) @ r) = Inr (x, r)"
    using word_of_le_bytes[of 4 x] by (simp add: read_u32_def fixed_bytes.read_write)
next
  fix bs and x :: u32 and r
  assume "read_u32 field bs = Inr (x, r)"
  then obtain raw where "length raw = 4" "bs = raw @ r" "x = word_of_int (le_value raw)"
    by (auto simp: read_u32_def read_bytes_Inr)
  then show "True \<and> bs = le_bytes 4 (uint x) @ r"
    using le_bytes_uint_word[of raw 4, where 'a = 32] by simp
qed

definition money_ok :: "u64 \<Rightarrow> bool" where
  "money_ok a \<longleftrightarrow> a \<le> QBIT_MAX_MONEY_SATS"

text \<open>The amount of an output: read as \<open>i64\<close>, then cast to \<open>u64\<close>.\<close>

definition read_amount :: "string \<Rightarrow> bytes \<Rightarrow> prism_error + u64 \<times> bytes" where
  "read_amount field bs = rbind (read_i64_nonnegative field bs) (\<lambda>(v, bs). Inr (word_of_int v, bs))"

interpretation amount_codec: codec "read_amount field" "\<lambda>a. le_bytes 8 (uint a)" money_ok for field
proof unfold_locales
  fix x :: u64 and r
  assume "money_ok x"
  then have x: "uint x \<le> 21000000000000000" by (simp add: money_ok_def word_le_def QBIT_MAX_MONEY_SATS_def)
  have "le_value (le_bytes 8 (uint x)) = uint x"
    using x by (simp add: le_value_le_bytes mod_pos_pos_trivial)
  then show "read_amount field (le_bytes 8 (uint x) @ r) = Inr (x, r)"
    using x by (simp add: read_amount_def read_i64_nonnegative_def fixed_bytes.read_write
        i64_from_le_def Let_def QBIT_MAX_MONEY_SATS_def)
next
  fix bs and x :: u64 and r
  assume "read_amount field bs = Inr (x, r)"
  then obtain raw where raw: "length raw = 8" "bs = raw @ r" and
    ge: "\<not> i64_from_le raw < 0" and le: "\<not> uint QBIT_MAX_MONEY_SATS < i64_from_le raw" and
    x: "x = word_of_int (i64_from_le raw)"
    by (auto simp: read_amount_def read_i64_nonnegative_def read_bytes_Inr Let_def split: if_splits)
  have "le_value raw < 2 ^ 64" using le_value_bounds[of raw] raw by simp
  then have v: "i64_from_le raw = le_value raw" using ge
    by (auto simp: i64_from_le_def Let_def split: if_splits)
  then have "bs = le_bytes 8 (uint x) @ r"
    using le_bytes_uint_word[of raw 8, where 'a = 64] raw x by simp
  moreover have "uint x \<le> uint QBIT_MAX_MONEY_SATS"
    using le v x le_value_bounds[of raw] \<open>le_value raw < 2 ^ 64\<close> by (simp add: uint_word_of_int_small)
  ultimately show "money_ok x \<and> bs = le_bytes 8 (uint x) @ r" by (simp add: money_ok_def word_le_def)
qed

subsection \<open>Compact sizes\<close>

lemma read_u8_Cons [simp]: "read_u8 field (b # bs) = Inr (b, bs)"
  by (simp add: read_u8_def peek_u8_def)

lemma uint_ucast_small:
  "uint (v :: u64) < 2 ^ LENGTH('a) \<Longrightarrow> uint (ucast v :: 'a::len word) = uint v"
  by (simp add: unsigned_ucast_eq take_bit_int_eq_self)

lemma compact_size_cases:
  obtains "uint v < 253" "compact_size v = [ucast v]"
  | "253 \<le> uint v" "uint v \<le> 0xffff" "compact_size v = 253 # le_bytes 2 (uint v)"
  | "0xffff < uint v" "uint v \<le> 0xffffffff" "compact_size v = 254 # le_bytes 4 (uint v)"
  | "0xffffffff < uint v" "compact_size v = 255 # le_bytes 8 (uint v)"
proof -
  consider "uint v < 253" | "253 \<le> uint v" "uint v \<le> 0xffff"
    | "0xffff < uint v" "uint v \<le> 0xffffffff" | "0xffffffff < uint v" by linarith
  then show thesis
  proof cases
    case 1
    then have "compact_size v = [ucast v]"
      by (simp add: compact_size_def word_less_def)
    with 1 show thesis by (rule that(1))
  next
    case 2
    have "uint (ucast v :: u16) = uint v" by (rule uint_ucast_small) (use 2 in simp)
    with 2 have "compact_size v = 253 # le_bytes 2 (uint v)"
      by (simp add: compact_size_def word_less_def word_le_def)
    with 2 show thesis by (rule that(2))
  next
    case 3
    have "uint (ucast v :: u32) = uint v" by (rule uint_ucast_small) (use 3 in simp)
    with 3 have "compact_size v = 254 # le_bytes 4 (uint v)"
      by (simp add: compact_size_def word_less_def word_le_def)
    with 3 show thesis by (rule that(3))
  next
    case 4
    then have "compact_size v = 255 # le_bytes 8 (uint v)"
      by (simp add: compact_size_def word_less_def word_le_def)
    with 4 show thesis by (rule that(4))
  qed
qed

lemma read_compact_size_write: "read_compact_size field (compact_size v @ r) = Inr (v, r)"
proof (cases v rule: compact_size_cases)
  case 1
  have u: "uint (ucast v :: u8) = uint v" by (rule uint_ucast_small) (use 1 in simp)
  moreover have "uint (ucast (ucast v :: u8) :: u64) = uint v"
    using u by (simp add: uint_up_ucast is_up)
  then have "ucast (ucast v :: u8) = v" by (simp only: word_uint_eq_iff)
  ultimately show ?thesis using 1 by (simp add: read_compact_size_def word_le_def)
next
  case 2
  then have "le_value (le_bytes 2 (uint v)) = uint v" by (simp add: le_value_le_bytes)
  with 2 show ?thesis by (simp add: read_compact_size_def fixed_bytes.read_write Let_def)
next
  case 3
  then have "le_value (le_bytes 4 (uint v)) = uint v" by (simp add: le_value_le_bytes)
  with 3 show ?thesis by (simp add: read_compact_size_def fixed_bytes.read_write Let_def)
next
  case 4
  have "le_value (le_bytes 8 (uint v)) = uint v"
    by (simp add: le_value_le_bytes mod_pos_pos_trivial u64_bound_num)
  with 4 show ?thesis by (simp add: read_compact_size_def fixed_bytes.read_write Let_def)
qed

lemma le_bytes_raw: "length raw = n \<Longrightarrow> le_bytes n (le_value raw) = raw"
  using le_bytes_le_value[of raw] by simp

lemma read_compact_size_read:
  assumes "read_compact_size field bs = Inr (v, r)"
  shows "bs = compact_size v @ r"
proof -
  from assms obtain b bs' where bs: "bs = b # bs'"
    by (cases bs) (auto simp: read_compact_size_def read_u8_def peek_u8_def)
  have cs: "compact_size (word_of_int x :: u64) =
      (if x < 253 then [ucast (word_of_int x :: u64)] else if x \<le> 0xffff then 253 # le_bytes 2 x
       else if x \<le> 0xffffffff then 254 # le_bytes 4 x else 255 # le_bytes 8 x)"
    if "0 \<le> x" "x < 2 ^ 64" for x
  proof -
    have u: "uint (word_of_int x :: u64) = x" using that by (simp add: uint_word_of_int_small)
    show ?thesis by (cases "word_of_int x :: u64" rule: compact_size_cases) (simp_all add: u)
  qed
  consider (small) "b \<le> 0xfc" | (two) "b = 0xfd" | (four) "b = 0xfe" | (eight) "b = 0xff"
  proof -
    have "uint b < 256" using uint_lt2p[of b] by simp
    then have "uint b \<le> 0xfc \<or> uint b = 0xfd \<or> uint b = 0xfe \<or> uint b = 0xff" by linarith
    then show thesis using small two four eight by (auto simp: word_le_def word_uint_eq_iff)
  qed
  then show ?thesis
  proof cases
    case small
    then have v: "v = ucast b" "r = bs'" using assms by (simp_all add: read_compact_size_def bs)
    have "uint v = uint b" by (simp add: v uint_up_ucast is_up)
    moreover have "uint b \<le> 252" using small by (simp add: word_le_def)
    moreover have "ucast v = b"
      using \<open>uint v = uint b\<close> uint_ucast_small[of v, where 'a = 8] uint_lt2p[of b]
      by (simp add: word_uint_eq_iff)
    ultimately show ?thesis using v(2) bs by (cases v rule: compact_size_cases) simp_all
  next
    case two
    then obtain raw where raw: "length raw = 2" "bs' = raw @ r" and v: "v = word_of_int (le_value raw)"
      and ge: "\<not> le_value raw < 0xfd"
      using assms by (auto simp: read_compact_size_def bs read_bytes_Inr Let_def split: if_splits)
    have "le_value raw < 65536" using le_value_bounds[of raw] raw by simp
    then show ?thesis using raw v ge le_value_bounds[of raw] by (simp add: bs two cs le_bytes_raw)
  next
    case four
    then obtain raw where raw: "length raw = 4" "bs' = raw @ r" and v: "v = word_of_int (le_value raw)"
      and ge: "\<not> le_value raw \<le> 0xffff"
      using assms by (auto simp: read_compact_size_def bs read_bytes_Inr Let_def split: if_splits)
    have "le_value raw < 4294967296" using le_value_bounds[of raw] raw by simp
    then show ?thesis using raw v ge by (simp add: bs four cs le_bytes_raw)
  next
    case eight
    then obtain raw where raw: "length raw = 8" "bs' = raw @ r" and v: "v = word_of_int (le_value raw)"
      and ge: "\<not> le_value raw \<le> 0xffffffff"
      using assms by (auto simp: read_compact_size_def bs read_bytes_Inr Let_def split: if_splits)
    have "le_value raw < 18446744073709551616" using le_value_bounds[of raw] raw by simp
    then show ?thesis using raw v ge by (simp add: bs eight cs le_bytes_raw)
  qed
qed

interpretation compact_size_codec: codec "read_compact_size field" compact_size "\<lambda>_. True" for field
  by unfold_locales (auto simp: read_compact_size_write dest: read_compact_size_read)

definition write_size :: "nat \<Rightarrow> bytes" where
  "write_size n = compact_size (word_of_nat n)"

lemma unat_word_of_nat_u64: "n < 2 ^ 64 \<Longrightarrow> unat (word_of_nat n :: u64) = n"
  by (simp add: unat_of_nat take_bit_nat_eq_self)

lemma size_read_write:
  "n < 2 ^ 64 \<Longrightarrow> n \<le> length r \<Longrightarrow> read_compact_size_as_usize field (write_size n @ r) = Inr (n, r)"
  using unat_word_of_nat_u64[of n]
  by (simp add: read_compact_size_as_usize_def write_size_def read_compact_size_write)

lemma size_write_read:
  assumes "read_compact_size_as_usize field bs = Inr (n, r)"
  shows "n < 2 ^ 64 \<and> n \<le> length r \<and> bs = write_size n @ r"
proof -
  from assms obtain v where v: "read_compact_size field bs = Inr (v, r)" "n = unat v" "n \<le> length r"
    by (auto simp: read_compact_size_as_usize_def split: if_splits)
  have "unat v < 2 ^ 64" using unsigned_less[of v, where ?'a = nat] by simp
  moreover have "bs = compact_size (word_of_nat n) @ r"
    using read_compact_size_read[OF v(1)] v(2) by simp
  ultimately show ?thesis using v by (simp add: write_size_def)
qed

lemma write_size_ne: "write_size n \<noteq> []"
  unfolding write_size_def by (cases "word_of_nat n :: u64" rule: compact_size_cases) simp_all

interpretation var_bytes_codec: codec "read_var_bytes field" var_bytes "\<lambda>b. length b < 2 ^ 64" for field
proof unfold_locales
  fix x r assume "length (x :: bytes) < 2 ^ 64"
  then show "read_var_bytes field (var_bytes x @ r) = Inr (x, r)"
    using size_read_write[of "length x" "x @ r" field]
    by (simp add: read_var_bytes_def var_bytes_def write_size_def fixed_bytes.read_write)
next
  fix bs x r assume "read_var_bytes field bs = Inr (x, r)"
  then obtain n bs' where "read_compact_size_as_usize field bs = Inr (n, bs')"
    and "length x = n" "bs' = x @ r" by (auto simp: read_var_bytes_def read_bytes_Inr)
  then show "length x < 2 ^ 64 \<and> bs = var_bytes x @ r"
    using size_write_read[of field bs n bs'] by (simp add: var_bytes_def write_size_def)
qed

end
