(* ===== verification/Transaction.thy ===== *)
theory Transaction
  imports Tx_Reader
begin

text \<open>
  Transactions as \<open>ctv.rs\<close> reads and writes them: \<open>parse_transaction\<close>,
  \<open>serialize_tx_hex\<close>, the txid, and the CTV template hash.  Parsing accepts exactly the
  serialized forms (up to the value of the non-zero witness flag), and it recomputes the
  witness-free form it hashes.
\<close>

section \<open>Data\<close>

record parsed_tx_in =
  ti_prev_txid_hex :: string
  ti_prev_vout :: u32
  ti_script_sig :: bytes
  ti_sequence :: u32

record parsed_tx_out =
  to_amount_sats :: u64
  to_script_pubkey :: bytes

record parsed_transaction =
  tx_version :: u32
  tx_inputs :: "parsed_tx_in list"
  tx_outputs :: "parsed_tx_out list"
  tx_lock_time :: u32
  tx_witness_stacks :: "bytes list list option"
  tx_without_witness :: bytes

record tx_input_spec =
  is_prev_txid_hex :: string
  is_prev_vout :: u32
  is_script_sig :: bytes
  is_sequence :: u32
  is_witness_stack :: "bytes list"

record tx_output_spec =
  os_amount_sats :: u64
  os_script_pubkey :: bytes

section \<open>Reading\<close>

definition read_tx_in :: "crypto \<Rightarrow> string \<Rightarrow> bytes \<Rightarrow> prism_error + parsed_tx_in \<times> bytes" where
  "read_tx_in c field bs =
    rbind (read_bytes field 32 bs) (\<lambda>(prev_txid_raw, bs).
    rbind (read_u32 field bs) (\<lambda>(prev_vout, bs).
    rbind (read_var_bytes field bs) (\<lambda>(script_sig, bs).
    rbind (read_u32 field bs) (\<lambda>(sequence, bs).
    Inr (\<lparr>ti_prev_txid_hex = hex_encode c (rev prev_txid_raw), ti_prev_vout = prev_vout,
          ti_script_sig = script_sig, ti_sequence = sequence\<rparr>, bs)))))"

definition read_tx_out :: "string \<Rightarrow> bytes \<Rightarrow> prism_error + parsed_tx_out \<times> bytes" where
  "read_tx_out field bs =
    rbind (read_amount field bs) (\<lambda>(amount, bs).
    rbind (read_var_bytes field bs) (\<lambda>(script, bs).
    Inr (\<lparr>to_amount_sats = amount, to_script_pubkey = script\<rparr>, bs)))"

definition read_stack :: "string \<Rightarrow> bytes \<Rightarrow> prism_error + bytes list \<times> bytes" where
  "read_stack field bs =
    rbind (read_compact_size_as_usize field bs) (\<lambda>(item_count, bs).
    read_n (read_var_bytes field) item_count bs)"

definition tx_in_bytes :: "crypto \<Rightarrow> parsed_tx_in \<Rightarrow> prism_error + bytes" where
  "tx_in_bytes c i =
    rbind (map_err (\<lambda>_. Panic ''display txid hex'') (hex_decode c (ti_prev_txid_hex i))) (\<lambda>prev_txid.
    Inr (rev prev_txid @ le_bytes 4 (uint (ti_prev_vout i)) @ var_bytes (ti_script_sig i) @
      le_bytes 4 (uint (ti_sequence i))))"

definition tx_out_bytes :: "parsed_tx_out \<Rightarrow> bytes" where
  "tx_out_bytes out = le_bytes 8 (uint (to_amount_sats out)) @ var_bytes (to_script_pubkey out)"

definition without_witness ::
  "crypto \<Rightarrow> u32 \<Rightarrow> parsed_tx_in list \<Rightarrow> parsed_tx_out list \<Rightarrow> u32 \<Rightarrow> prism_error + bytes" where
  "without_witness c version inputs outputs lock_time =
    rbind (try_map (tx_in_bytes c) inputs) (\<lambda>ins.
    Inr (le_bytes 4 (uint version) @ write_size (length inputs) @ concat ins @
      write_size (length outputs) @ concat (map tx_out_bytes outputs) @ le_bytes 4 (uint lock_time)))"

text \<open>The body after the version and the witness marker.\<close>

definition parse_body ::
  "crypto \<Rightarrow> string \<Rightarrow> u32 \<Rightarrow> bool \<Rightarrow> bytes \<Rightarrow> prism_error + parsed_transaction" where
  "parse_body c field version has_witness bs =
    rbind (read_compact_size_as_usize field bs) (\<lambda>(input_count, bs).
    if input_count = 0 then Inl (invalid_ctv_manifest (field @ '' has no inputs''))
    else
    rbind (read_n (read_tx_in c field) input_count bs) (\<lambda>(inputs, bs).
    rbind (read_compact_size_as_usize field bs) (\<lambda>(output_count, bs).
    rbind (read_n (read_tx_out field) output_count bs) (\<lambda>(outputs, bs).
    rbind (if has_witness
        then rbind (read_n (read_stack field) input_count bs) (\<lambda>(stacks, bs). Inr (Some stacks, bs))
        else Inr (None, bs)) (\<lambda>(stacks, bs).
    rbind (read_u32 field bs) (\<lambda>(lock_time, bs).
    if bs \<noteq> [] then Inl (invalid_ctv_manifest (field @ '' has trailing transaction bytes''))
    else
    rbind (without_witness c version inputs outputs lock_time) (\<lambda>stripped.
    Inr \<lparr>tx_version = version, tx_inputs = inputs, tx_outputs = outputs, tx_lock_time = lock_time,
         tx_witness_stacks = stacks, tx_without_witness = stripped\<rparr>)))))))"

definition parse_transaction :: "crypto \<Rightarrow> string \<Rightarrow> bytes \<Rightarrow> prism_error + parsed_transaction" where
  "parse_transaction c field bs =
    rbind (read_u32 field bs) (\<lambda>(version, bs).
    rbind (peek_u8 field bs) (\<lambda>first.
    rbind (if first = 0
        then rbind (read_u8 field bs) (\<lambda>(_, bs).
          rbind (read_u8 field bs) (\<lambda>(flag, bs).
          if flag = 0 then Inl (invalid_ctv_manifest (field @ '' has invalid witness flag 0''))
          else Inr (True, bs)))
        else Inr (False, bs)) (\<lambda>(has_witness, bs).
    parse_body c field version has_witness bs)))"

definition parse_transaction_hex :: "crypto \<Rightarrow> string \<Rightarrow> string \<Rightarrow> prism_error + parsed_transaction" where
  "parse_transaction_hex c tx_hex field =
    rbind (map_err (\<lambda>e. invalid_ctv_manifest (field @ '' is not valid hex: '' @ e)) (hex_decode c tx_hex))
      (parse_transaction c field)"

definition txid_hex :: "crypto \<Rightarrow> parsed_transaction \<Rightarrow> string" where
  "txid_hex c tx = hex_encode c (rev (hash256 c (tx_without_witness tx)))"

section \<open>Writing\<close>

definition input_spec_bytes :: "crypto \<Rightarrow> tx_input_spec \<Rightarrow> prism_error + bytes" where
  "input_spec_bytes c i =
    rbind (map_err (\<lambda>e. invalid_ctv_manifest (''prev txid must be hex: '' @ e))
        (hex_decode c (is_prev_txid_hex i))) (\<lambda>prev_txid.
    if length prev_txid \<noteq> 32 then Inl (invalid_ctv_manifest ''prev txid must be 32 bytes'')
    else Inr (rev prev_txid @ le_bytes 4 (uint (is_prev_vout i)) @ var_bytes (is_script_sig i) @
      le_bytes 4 (uint (is_sequence i))))"

definition output_spec_bytes :: "tx_output_spec \<Rightarrow> bytes" where
  "output_spec_bytes out = le_bytes 8 (uint (os_amount_sats out)) @ var_bytes (os_script_pubkey out)"

definition stack_bytes :: "bytes list \<Rightarrow> bytes" where
  "stack_bytes items = write_size (length items) @ concat (map var_bytes items)"

definition serialize_tx ::
  "crypto \<Rightarrow> u32 \<Rightarrow> tx_input_spec list \<Rightarrow> tx_output_spec list \<Rightarrow> u32 \<Rightarrow> bool \<Rightarrow> prism_error + bytes" where
  "serialize_tx c version inputs outputs lock_time with_witness =
    rbind (try_map (input_spec_bytes c) inputs) (\<lambda>ins.
    Inr (le_bytes 4 (uint version) @ (if with_witness then [0, 1] else []) @
      write_size (length inputs) @ concat ins @
      write_size (length outputs) @ concat (map output_spec_bytes outputs) @
      (if with_witness then concat (map (\<lambda>i. stack_bytes (is_witness_stack i)) inputs) else []) @
      le_bytes 4 (uint lock_time)))"

definition serialize_tx_hex ::
  "crypto \<Rightarrow> u32 \<Rightarrow> tx_input_spec list \<Rightarrow> tx_output_spec list \<Rightarrow> u32 \<Rightarrow> bool \<Rightarrow> prism_error + string" where
  "serialize_tx_hex c version inputs outputs lock_time with_witness =
    rbind (serialize_tx c version inputs outputs lock_time with_witness) (\<lambda>tx. Inr (hex_encode c tx))"

lemmas transaction_evals [evals] = read_tx_in_def read_tx_out_def read_amount_def read_stack_def
  tx_in_bytes_def tx_out_bytes_def without_witness_def parse_body_def parse_transaction_def
  parse_transaction_hex_def txid_hex_def input_spec_bytes_def output_spec_bytes_def
  stack_bytes_def serialize_tx_def serialize_tx_hex_def write_size_def

section \<open>The parts as codecs\<close>

text \<open>An input before its txid is put into display order and hex.\<close>

type_synonym raw_in = "bytes \<times> u32 \<times> bytes \<times> u32"

definition read_raw_in :: "string \<Rightarrow> bytes \<Rightarrow> prism_error + raw_in \<times> bytes" where
  "read_raw_in field = read_pair (read_bytes field 32)
    (read_pair (read_u32 field) (read_pair (read_var_bytes field) (read_u32 field)))"

definition raw_in_bytes :: "raw_in \<Rightarrow> bytes" where
  "raw_in_bytes p = fst p @ le_bytes 4 (uint (fst (snd p))) @ var_bytes (fst (snd (snd p))) @
    le_bytes 4 (uint (snd (snd (snd p))))"

definition raw_in_valid :: "raw_in \<Rightarrow> bool" where
  "raw_in_valid p \<longleftrightarrow> length (fst p) = 32 \<and> length (fst (snd (snd p))) < 2 ^ 64"

definition display_in :: "crypto \<Rightarrow> raw_in \<Rightarrow> parsed_tx_in" where
  "display_in c p = \<lparr>ti_prev_txid_hex = hex_encode c (rev (fst p)), ti_prev_vout = fst (snd p),
    ti_script_sig = fst (snd (snd p)), ti_sequence = snd (snd (snd p))\<rparr>"

definition tx_out_valid :: "parsed_tx_out \<Rightarrow> bool" where
  "tx_out_valid out \<longleftrightarrow> money_ok (to_amount_sats out) \<and> length (to_script_pubkey out) < 2 ^ 64"

interpretation script_seq: codec_pair "read_var_bytes field" var_bytes "\<lambda>b. length b < 2 ^ 64"
  "read_u32 field" "\<lambda>w. le_bytes 4 (uint w)" "\<lambda>_. True" for field
  by unfold_locales

interpretation vout_script_seq: codec_pair "read_u32 field" "\<lambda>w. le_bytes 4 (uint w)" "\<lambda>_. True"
  "read_pair (read_var_bytes field) (read_u32 field)"
  "\<lambda>p. var_bytes (fst p) @ le_bytes 4 (uint (snd p))" "\<lambda>p. length (fst p) < 2 ^ 64 \<and> True" for field
  by unfold_locales

interpretation outpoint_in: codec_pair "read_bytes field 32" "\<lambda>b. b" "\<lambda>b. length b = 32"
  "read_pair (read_u32 field) (read_pair (read_var_bytes field) (read_u32 field))"
  "\<lambda>p. le_bytes 4 (uint (fst p)) @ var_bytes (fst (snd p)) @ le_bytes 4 (uint (snd (snd p)))"
  "\<lambda>p. True \<and> length (fst (snd p)) < 2 ^ 64 \<and> True" for field
  by unfold_locales

interpretation raw_in: codec "read_raw_in field" raw_in_bytes raw_in_valid for field
proof unfold_locales
  fix x r assume "raw_in_valid x"
  then show "read_raw_in field (raw_in_bytes x @ r) = Inr (x, r)"
    using outpoint_in.pair.read_write[of x field r]
    by (simp add: read_raw_in_def raw_in_bytes_def raw_in_valid_def)
next
  fix bs x r assume "read_raw_in field bs = Inr (x, r)"
  then show "raw_in_valid x \<and> bs = raw_in_bytes x @ r"
    using outpoint_in.pair.write_read[of field bs x r]
    by (simp add: read_raw_in_def raw_in_bytes_def raw_in_valid_def)
qed

lemma read_tx_in_raw:
  "read_tx_in c field bs = rbind (read_raw_in field bs) (\<lambda>(p, bs). Inr (display_in c p, bs))"
  by (simp add: read_tx_in_def read_raw_in_def read_pair_def display_in_def rbind_assoc case_prod_unfold)

interpretation tx_out: codec "read_tx_out field" tx_out_bytes tx_out_valid for field
proof unfold_locales
  fix x r assume "tx_out_valid x"
  then show "read_tx_out field (tx_out_bytes x @ r) = Inr (x, r)"
    by (simp add: read_tx_out_def tx_out_bytes_def tx_out_valid_def amount_codec.read_write
        var_bytes_codec.read_write)
next
  fix bs x r assume "read_tx_out field bs = Inr (x, r)"
  then obtain a s bs' where "read_amount field bs = Inr (a, bs')" "read_var_bytes field bs' = Inr (s, r)"
    "x = \<lparr>to_amount_sats = a, to_script_pubkey = s\<rparr>"
    by (auto simp: read_tx_out_def)
  then show "tx_out_valid x \<and> bs = tx_out_bytes x @ r"
    using amount_codec.write_read[of field bs a bs'] var_bytes_codec.write_read[of field bs' s r]
    by (simp add: tx_out_bytes_def tx_out_valid_def)
qed

lemma var_bytes_ne: "var_bytes b \<noteq> []"
  using write_size_ne[of "length b"] by (simp add: var_bytes_def write_size_def)

interpretation stack_items: counted_codec "read_var_bytes field" var_bytes "\<lambda>b. length b < 2 ^ 64"
  "read_compact_size_as_usize field" write_size "2 ^ 64" for field
  by unfold_locales (auto simp: var_bytes_ne size_read_write dest: size_write_read)

lemma stack_reader: "read_stack field = stack_items.read_counted field"
  "stack_bytes = stack_items.write_counted"
  by (auto simp: read_stack_def stack_items.read_counted_def stack_bytes_def
      stack_items.write_counted_def fun_eq_iff)

end
