(* ===== verification/Transaction_Facts.thy ===== *)
theory Transaction_Facts
  imports Transaction
begin

text \<open>
  Parsing and serialization invert each other: an accepted byte string is the serialized
  form of what was parsed, every serialized transaction is accepted, and the coinbase the
  pool builder emits parses back to the outputs it allocated, with the txid it announced.
\<close>

section \<open>Sequences of parts\<close>

lemma read_n_map:
  assumes "\<And>bs. read' bs = rbind (read bs) (\<lambda>(x, r). Inr (f x, r))"
  shows "read_n read' n bs = rbind (read_n read n bs) (\<lambda>(xs, r). Inr (map f xs, r))"
proof (induction n arbitrary: bs)
  case (Suc n)
  show ?case
    by (simp only: read_n.simps assms[of bs] Suc.IH rbind_assoc case_prod_unfold rbind.simps fst_conv
        snd_conv list.map)
qed simp

lemma raw_in_bytes_ne: "raw_in_bytes p \<noteq> []"
  by (simp add: raw_in_bytes_def var_bytes_ne)

lemma tx_out_bytes_ne: "tx_out_bytes x \<noteq> []"
  by (simp add: tx_out_bytes_def var_bytes_ne)

definition stack_valid :: "bytes list \<Rightarrow> bool" where
  "stack_valid st \<longleftrightarrow> length st < 2 ^ 64 \<and> (\<forall>b\<in>set st. length b < 2 ^ 64)"

interpretation stack: codec "read_stack field" stack_bytes stack_valid for field
  unfolding stack_reader
  by unfold_locales (auto simp: stack_valid_def stack_items.counted_iff)

interpretation tx_ins: counted_codec "read_raw_in field" raw_in_bytes raw_in_valid
  "read_compact_size_as_usize field" write_size "2 ^ 64" for field
  by unfold_locales (auto simp: raw_in_bytes_ne size_read_write dest: size_write_read)

interpretation tx_outs: counted_codec "read_tx_out field" tx_out_bytes tx_out_valid
  "read_compact_size_as_usize field" write_size "2 ^ 64" for field
  by unfold_locales (auto simp: tx_out_bytes_ne size_read_write dest: size_write_read)

section \<open>The witness-free form\<close>

definition stripped_bytes :: "u32 \<Rightarrow> raw_in list \<Rightarrow> parsed_tx_out list \<Rightarrow> u32 \<Rightarrow> bytes" where
  "stripped_bytes version ps outs lock_time =
    le_bytes 4 (uint version) @ write_size (length ps) @ concat (map raw_in_bytes ps) @
    write_size (length outs) @ concat (map tx_out_bytes outs) @ le_bytes 4 (uint lock_time)"

lemma tx_in_bytes_display: "hex_ok c \<Longrightarrow> tx_in_bytes c (display_in c p) = Inr (raw_in_bytes p)"
  by (simp add: tx_in_bytes_def display_in_def hex_ok_def raw_in_bytes_def)

lemma without_witness_display:
  assumes "hex_ok c"
  shows "without_witness c v (map (display_in c) ps) outs l = Inr (stripped_bytes v ps outs l)"
proof -
  have "try_map (tx_in_bytes c) (map (display_in c) ps) = Inr (map raw_in_bytes ps)"
    by (induction ps) (simp_all add: tx_in_bytes_display[OF assms])
  then show ?thesis by (simp add: without_witness_def stripped_bytes_def)
qed

section \<open>What parsing accepts\<close>

definition stacks_ok :: "bool \<Rightarrow> raw_in list \<Rightarrow> bytes list list \<Rightarrow> bool" where
  "stacks_ok w ps sts \<longleftrightarrow>
    (if w then length sts = length ps \<and> (\<forall>st\<in>set sts. stack_valid st) else sts = [])"

definition parts_ok :: "bool \<Rightarrow> raw_in list \<Rightarrow> parsed_tx_out list \<Rightarrow> bytes list list \<Rightarrow> bool" where
  "parts_ok w ps outs sts \<longleftrightarrow> ps \<noteq> [] \<and> length ps < 2 ^ 64 \<and> (\<forall>p\<in>set ps. raw_in_valid p) \<and>
    length outs < 2 ^ 64 \<and> (\<forall>x\<in>set outs. tx_out_valid x) \<and> stacks_ok w ps sts"

definition body_bytes :: "raw_in list \<Rightarrow> parsed_tx_out list \<Rightarrow> bytes list list \<Rightarrow> u32 \<Rightarrow> bytes" where
  "body_bytes ps outs sts lock_time =
    write_size (length ps) @ concat (map raw_in_bytes ps) @
    write_size (length outs) @ concat (map tx_out_bytes outs) @ concat (map stack_bytes sts) @
    le_bytes 4 (uint lock_time)"

definition parsed_of ::
  "crypto \<Rightarrow> u32 \<Rightarrow> bool \<Rightarrow> raw_in list \<Rightarrow> parsed_tx_out list \<Rightarrow> bytes list list \<Rightarrow> u32 \<Rightarrow> parsed_transaction"
where
  "parsed_of c v w ps outs sts l =
    \<lparr>tx_version = v, tx_inputs = map (display_in c) ps, tx_outputs = outs, tx_lock_time = l,
     tx_witness_stacks = (if w then Some sts else None), tx_without_witness = stripped_bytes v ps outs l\<rparr>"

lemma read_stacks_iff:
  "(if w then rbind (read_n (read_stack field) (length ps) bs) (\<lambda>(stacks, bs). Inr (Some stacks, bs))
    else Inr (None, bs)) = Inr (st, r) \<longleftrightarrow>
    (\<exists>sts. stacks_ok w ps sts \<and> st = (if w then Some sts else None) \<and>
      bs = concat (map stack_bytes sts) @ r)"
  by (auto simp: stacks_ok_def stack.read_n_iff)

lemma parse_body_sound:
  assumes "hex_ok c" and "parse_body c field v w bs = Inr tx"
  shows "\<exists>ps outs sts l. parts_ok w ps outs sts \<and> tx = parsed_of c v w ps outs sts l \<and>
    bs = body_bytes ps outs sts l"
proof -
  from assms(2) obtain n b1 ins b2 k b3 outs b4 st b5 l b6 stripped where
    n: "read_compact_size_as_usize field bs = Inr (n, b1)" and n0: "n \<noteq> 0" and
    ins: "read_n (read_tx_in c field) n b1 = Inr (ins, b2)" and
    k: "read_compact_size_as_usize field b2 = Inr (k, b3)" and
    outs: "read_n (read_tx_out field) k b3 = Inr (outs, b4)" and
    st: "(if w then rbind (read_n (read_stack field) n b4) (\<lambda>(stacks, bs). Inr (Some stacks, bs))
      else Inr (None, b4)) = Inr (st, b5)" and
    l: "read_u32 field b5 = Inr (l, b6)" and b6: "b6 = []" and
    stripped: "without_witness c v ins outs l = Inr stripped" and
    tx: "\<lparr>tx_version = v, tx_inputs = ins, tx_outputs = outs, tx_lock_time = l,
         tx_witness_stacks = st, tx_without_witness = stripped\<rparr> = tx"
    unfolding parse_body_def rbind_Inr split_paired_Ex prod.case if_Inl_Inr not_not sum.inject
    by (elim exE conjE) (rule that; assumption)
  from ins obtain ps where ps: "read_n (read_raw_in field) n b1 = Inr (ps, b2)"
    and ins': "ins = map (display_in c) ps"
    unfolding read_n_map[of "read_tx_in c field", OF read_tx_in_raw] by auto
  note P = ps[unfolded raw_in.read_n_iff] and O = outs[unfolded tx_out.read_n_iff]
  from st P obtain sts where sts: "stacks_ok w ps sts" "st = (if w then Some sts else None)"
    "b4 = concat (map stack_bytes sts) @ b5"
    using read_stacks_iff[of w field ps b4 st b5] by auto
  have "bs = body_bytes ps outs sts l"
    using size_write_read[OF n] size_write_read[OF k] P O sts(3) u32_codec.write_read[OF l] b6
    by (simp add: body_bytes_def)
  moreover have "parts_ok w ps outs sts"
    using size_write_read[OF n] size_write_read[OF k] P O sts(1) n0 by (auto simp: parts_ok_def)
  moreover have "tx = parsed_of c v w ps outs sts l"
    using tx[symmetric] stripped sts(2) by (simp add: parsed_of_def ins' without_witness_display[OF assms(1)])
  ultimately show ?thesis by blast
qed

lemma parse_body_complete:
  assumes "hex_ok c" and ok: "parts_ok w ps outs sts"
  shows "parse_body c field v w (body_bytes ps outs sts l) = Inr (parsed_of c v w ps outs sts l)"
proof -
  let ?o = "concat (map tx_out_bytes outs)" and ?s = "concat (map stack_bytes sts) @ le_bytes 4 (uint l)"
  have V: "ps \<noteq> []" "length ps < 2 ^ 64" "\<forall>p\<in>set ps. raw_in_valid p"
    "length outs < 2 ^ 64" "\<forall>x\<in>set outs. tx_out_valid x" "stacks_ok w ps sts"
    using ok by (auto simp: parts_ok_def)
  have "length ps \<le> length (concat (map raw_in_bytes ps))" by (rule tx_ins.length_concat_write[OF V(3)])
  then have n: "read_compact_size_as_usize field (body_bytes ps outs sts l) =
      Inr (length ps, concat (map raw_in_bytes ps) @ write_size (length outs) @ ?o @ ?s)"
    unfolding body_bytes_def by (intro size_read_write[OF V(2)]) simp
  have "read_n (read_raw_in field) (length ps) (concat (map raw_in_bytes ps) @ write_size (length outs) @ ?o @ ?s) =
      Inr (ps, write_size (length outs) @ ?o @ ?s)"
    using V(3) by (simp add: raw_in.read_n_iff)
  then have ins: "read_n (read_tx_in c field) (length ps)
      (concat (map raw_in_bytes ps) @ write_size (length outs) @ ?o @ ?s) =
      Inr (map (display_in c) ps, write_size (length outs) @ ?o @ ?s)"
    unfolding read_n_map[of "read_tx_in c field", OF read_tx_in_raw] by simp
  have "length outs \<le> length ?o" by (rule tx_outs.length_concat_write[OF V(5)])
  then have k: "read_compact_size_as_usize field (write_size (length outs) @ ?o @ ?s) =
      Inr (length outs, ?o @ ?s)" by (intro size_read_write[OF V(4)]) simp
  have o: "read_n (read_tx_out field) (length outs) (?o @ ?s) = Inr (outs, ?s)"
    using V(5) by (simp add: tx_out.read_n_iff)
  have s: "(if w then rbind (read_n (read_stack field) (length ps) ?s) (\<lambda>(stacks, bs). Inr (Some stacks, bs))
      else Inr (None, ?s)) = Inr (if w then Some sts else None, le_bytes 4 (uint l))"
    unfolding read_stacks_iff using V(6) by blast
  have l: "read_u32 field (le_bytes 4 (uint l)) = Inr (l, [])"
    using u32_codec.read_write[where x = l and r = "[]" and field = field] by simp
  show ?thesis
    unfolding parse_body_def n using V(1)
    by (simp only: rbind.simps prod.case ins k o s l length_0_conv if_False if_True simp_thms
        without_witness_display[OF assms(1)] parsed_of_def)
qed

text \<open>The marker byte: a non-witness form starts with its input count, which is not zero.\<close>

lemma hd_write_size: "0 < n \<Longrightarrow> n < 2 ^ 64 \<Longrightarrow> \<exists>b bs. write_size n = b # bs \<and> b \<noteq> 0"
proof -
  assume n: "0 < n" "n < 2 ^ 64"
  let ?v = "word_of_nat n :: u64"
  have "unat ?v = n" using n by (simp add: unat_word_of_nat_u64)
  then have pos: "0 < uint ?v" using n by (simp add: uint_nat)
  have big: "\<exists>b bs. b0 # bs0 = b # bs \<and> b \<noteq> 0" if "b0 \<noteq> 0" for b0 :: u8 and bs0
    using that by blast
  show ?thesis unfolding write_size_def
  proof (cases ?v rule: compact_size_cases)
    case 1
    have "uint (ucast ?v :: u8) = uint ?v" using 1(1) by (intro uint_ucast_small) simp
    then have "ucast ?v \<noteq> (0 :: u8)" using pos by (metis less_irrefl unsigned_0)
    then show "\<exists>b bs. compact_size ?v = b # bs \<and> b \<noteq> 0" unfolding 1(2) by (rule big)
  next
    case 2
    show "\<exists>b bs. compact_size ?v = b # bs \<and> b \<noteq> 0" unfolding 2(3) by (rule big) simp
  next
    case 3
    show "\<exists>b bs. compact_size ?v = b # bs \<and> b \<noteq> 0" unfolding 3(3) by (rule big) simp
  next
    case 4
    show "\<exists>b bs. compact_size ?v = b # bs \<and> b \<noteq> 0" unfolding 4(2) by (rule big) simp
  qed
qed

definition tx_bytes ::
  "u8 \<Rightarrow> u32 \<Rightarrow> bool \<Rightarrow> raw_in list \<Rightarrow> parsed_tx_out list \<Rightarrow> bytes list list \<Rightarrow> u32 \<Rightarrow> bytes" where
  "tx_bytes flag v w ps outs sts l =
    le_bytes 4 (uint v) @ (if w then [0, flag] else []) @ body_bytes ps outs sts l"

lemma parse_transaction_complete:
  assumes "hex_ok c" and ok: "parts_ok w ps outs sts" and "flag \<noteq> 0"
  shows "parse_transaction c field (tx_bytes flag v w ps outs sts l) = Inr (parsed_of c v w ps outs sts l)"
proof -
  have v: "read_u32 field (tx_bytes flag v w ps outs sts l) =
      Inr (v, (if w then [0, flag] else []) @ body_bytes ps outs sts l)"
    unfolding tx_bytes_def by (rule u32_codec.read_write) simp
  show ?thesis
  proof (cases w)
    case True
    have "read_u32 field (tx_bytes flag v w ps outs sts l) = Inr (v, [0, flag] @ body_bytes ps outs sts l)"
      using v True by simp
    moreover have "parse_body c field v True (body_bytes ps outs sts l) = Inr (parsed_of c v w ps outs sts l)"
      using parse_body_complete[OF assms(1) ok, of field v l] True by simp
    ultimately show ?thesis
      using assms(3) by (simp add: parse_transaction_def peek_u8_def read_u8_def)
  next
    case False
    obtain b bs where "write_size (length ps) = b # bs" "b \<noteq> 0"
      using hd_write_size[of "length ps"] ok by (auto simp: parts_ok_def)
    then have "peek_u8 field (body_bytes ps outs sts l) = Inr b" "b \<noteq> 0"
      by (simp_all add: body_bytes_def peek_u8_def)
    moreover have "read_u32 field (tx_bytes flag v w ps outs sts l) = Inr (v, body_bytes ps outs sts l)"
      using v False by simp
    moreover have "parse_body c field v False (body_bytes ps outs sts l) = Inr (parsed_of c v w ps outs sts l)"
      using parse_body_complete[OF assms(1) ok, of field v l] False by simp
    ultimately show ?thesis by (simp add: parse_transaction_def)
  qed
qed

lemma parse_transaction_sound:
  assumes "hex_ok c" and "parse_transaction c field bs = Inr tx"
  shows "\<exists>flag v w ps outs sts l. flag \<noteq> 0 \<and> parts_ok w ps outs sts \<and>
    tx = parsed_of c v w ps outs sts l \<and> bs = tx_bytes flag v w ps outs sts l"
proof -
  from assms(2) obtain v b1 first w b2 where
    v: "read_u32 field bs = Inr (v, b1)" and first: "peek_u8 field b1 = Inr first" and
    marker: "(if first = 0
        then rbind (read_u8 field b1) (\<lambda>(_, bs).
          rbind (read_u8 field bs) (\<lambda>(flag, bs).
          if flag = 0 then Inl (invalid_ctv_manifest (field @ '' has invalid witness flag 0''))
          else Inr (True, bs)))
        else Inr (False, b1)) = Inr (w, b2)" and
    body: "parse_body c field v w b2 = Inr tx"
    unfolding parse_transaction_def rbind_Inr split_paired_Ex prod.case
    by (elim exE conjE) (rule that; assumption)
  from parse_body_sound[OF assms(1) body] obtain ps outs sts l where
    B: "parts_ok w ps outs sts" "tx = parsed_of c v w ps outs sts l" "b2 = body_bytes ps outs sts l"
    by blast
  have "\<exists>flag. flag \<noteq> 0 \<and> b1 = (if w then [0, flag] else []) @ b2"
  proof (cases "first = 0")
    case True
    obtain b1' where b1: "b1 = 0 # b1'" using first True by (cases b1) (auto simp: peek_u8_def)
    then show ?thesis using marker True
      by (cases b1') (auto simp: read_u8_def peek_u8_def split: if_splits)
  next
    case False
    then show ?thesis using marker by (auto intro: exI[of _ 1])
  qed
  then obtain flag where "flag \<noteq> 0" "b1 = (if w then [0, flag] else []) @ b2" by blast
  then have "bs = tx_bytes flag v w ps outs sts l"
    using u32_codec.write_read[OF v] B(3) by (simp add: tx_bytes_def)
  with B \<open>flag \<noteq> 0\<close> show ?thesis by blast
qed

end
