(* ===== verification/Builder_Facts.thy ===== *)
theory Builder_Facts
  imports Pool_Builder
begin

text \<open>
  What the pool builder guarantees: the outputs pay the coinbase value by largest remainder,
  weights that already are the amounts are paid as they are, and the variable-length
  encodings are uniquely decodable.
\<close>

section \<open>The allocation\<close>

abbreviation e_weight :: "weighted_entitlement \<Rightarrow> int" where
  "e_weight e \<equiv> uint (we_weight e)"

lemma positive_weight_sum_Inr:
  "positive_weight_sum es = Inr w \<Longrightarrow>
    uint w = (\<Sum>e\<leftarrow>es. e_weight e) \<and> (\<forall>e\<in>set es. 0 < e_weight e)"
proof -
  have pos: "x \<noteq> 0 \<Longrightarrow> 0 < uint x" for x :: u128
    by (metis uint_nonneg unsigned_eq_0_iff order_less_le)
  have "try_fold (\<lambda>sum e. if we_weight e = 0 then Inl (ZeroWeight (we_recipient_id e))
      else ok_or (checked_add sum (we_weight e)) WeightOverflow) t es = Inr w \<Longrightarrow>
      uint w = uint t + (\<Sum>e\<leftarrow>es. e_weight e) \<and> (\<forall>e\<in>set es. 0 < e_weight e)" for t
    by (induction es arbitrary: t) (auto simp: checked_add_Some pos)
  then show "positive_weight_sum es = Inr w \<Longrightarrow> ?thesis" unfolding positive_weight_sum_def by fastforce
qed

lemma provisional_output_Inr:
  assumes "provisional_output c T W e = Inr p"
  shows "ao_recipient_id (fst p) = we_recipient_id e \<and> ao_order_key (fst p) = we_order_key e \<and>
    parse_p2mr_program c e = Inr (ao_p2mr_program (fst p)) \<and>
    ao_script_pubkey (fst p) = p2mr_script_pubkey (ao_p2mr_program (fst p)) \<and>
    ao_weight (fst p) = we_weight e \<and>
    uint (ao_amount_sats (fst p)) = uint T * e_weight e div uint W \<and>
    uint (snd p) = uint T * e_weight e mod uint W"
  using assms
  by (auto simp: provisional_output_def checked_mul_Some u64_try_from_u128_Some
      uint_div_distrib uint_mod_distrib)

lemma bump_output_Inr:
  "bump_output p = Inr q \<Longrightarrow> snd q = snd p \<and> (\<exists>a. fst q = (fst p)\<lparr>ao_amount_sats := a\<rparr> \<and>
    uint a = uint (ao_amount_sats (fst p)) + 1)"
  by (cases p) (auto simp: bump_output_def checked_add_Some)

lemma output_order_facts:
  "mset (output_remainder_order ps) = mset [0..<length ps]"
  "distinct (output_remainder_order ps)" "set (output_remainder_order ps) = {..<length ps}"
  "sorted_wrt (\<lambda>i j. uint (snd (ps ! j)) \<le> uint (snd (ps ! i))) (output_remainder_order ps)"
proof -
  show "mset (output_remainder_order ps) = mset [0..<length ps]"
    "distinct (output_remainder_order ps)" "set (output_remainder_order ps) = {..<length ps}"
    by (auto simp: output_remainder_order_def)
  show "sorted_wrt (\<lambda>i j. uint (snd (ps ! j)) \<le> uint (snd (ps ! i))) (output_remainder_order ps)"
    unfolding output_remainder_order_def
    by (rule sorted_key_desc[OF sorted_sort_key]) (auto split: prod.splits)
qed

text \<open>Output by output: identity, script, weight and amount.\<close>

definition output_for :: "crypto \<Rightarrow> weighted_entitlement \<Rightarrow> allocated_output \<Rightarrow> bool" where
  "output_for c e out \<longleftrightarrow> ao_recipient_id out = we_recipient_id e \<and> ao_order_key out = we_order_key e \<and>
    parse_p2mr_program c e = Inr (ao_p2mr_program out) \<and>
    ao_script_pubkey out = p2mr_script_pubkey (ao_p2mr_program out) \<and> ao_weight out = we_weight e"

lemma allocate_ordered_rows:
  assumes "allocate_ordered c T es = Inr outs"
  defines "W \<equiv> (\<Sum>e\<leftarrow>es. e_weight e)"
  shows "length outs = length es" and "list_all2 (output_for c) es outs"
    and "es \<noteq> [] \<Longrightarrow> 0 < W" and "\<forall>e\<in>set es. 0 < e_weight e"
    and "(\<Sum>x\<leftarrow>outs. uint (ao_amount_sats x)) = uint T"
    and "\<And>i. i < length es \<Longrightarrow>
      uint T * e_weight (es ! i) div W \<le> uint (ao_amount_sats (outs ! i)) \<and>
      uint (ao_amount_sats (outs ! i)) \<le> uint T * e_weight (es ! i) div W +
        (if uint T * e_weight (es ! i) mod W = 0 then 0 else 1)"
proof -
  from assms(1) obtain tw ps al r qs where
    tw: "positive_weight_sum es = Inr tw" and
    ps: "try_map (provisional_output c T tw) es = Inr ps" and
    al: "amount_sum (map fst ps) = Inr al" and r: "checked_sub T al = Some r" and
    qs: "bump_at bump_output ps (take (unat r) (output_remainder_order ps)) = Inr qs" and
    fin: "amount_sum (map fst qs) = Inr T" and outs: "outs = map fst qs"
    by (auto simp: allocate_ordered_def Let_def split: if_splits)
  have utw: "uint tw = W" and pos: "\<forall>e\<in>set es. 0 < e_weight e"
    using positive_weight_sum_Inr[OF tw] by (auto simp: W_def)
  show "\<forall>e\<in>set es. 0 < e_weight e" by (rule pos)
  show Wpos: "0 < W" if "es \<noteq> []"
  proof -
    from that obtain e es' where "es = e # es'" by (meson list.exhaust)
    moreover have "0 \<le> (\<Sum>e\<leftarrow>es'. e_weight e)" by simp
    ultimately show ?thesis using pos by (simp add: W_def del: sum_list_uint_nonneg)
  qed
  have len: "length ps = length es" using ps by (rule try_map_length)
  note row = provisional_output_Inr[OF try_map_nth[OF ps]]
  have bump: "length qs = length ps \<and> (\<forall>i<length ps.
      if i \<in> set (take (unat r) (output_remainder_order ps))
      then bump_output (ps ! i) = Inr (qs ! i) else qs ! i = ps ! i)"
    using qs output_order_facts(2,3)[of ps] by (intro bump_at_Inr) (auto dest: in_set_takeD)
  show lo: "length outs = length es" using bump len by (simp add: outs)
  have q: "output_for c (es ! i) (fst (qs ! i)) \<and> uint (ao_amount_sats (fst (qs ! i))) =
      uint T * e_weight (es ! i) div W +
      (if i \<in> set (take (unat r) (output_remainder_order ps)) then 1 else 0)" if i: "i < length es" for i
  proof (cases "i \<in> set (take (unat r) (output_remainder_order ps))")
    case True
    then have "bump_output (ps ! i) = Inr (qs ! i)" using bump i len by auto
    from bump_output_Inr[OF this] row[OF i] True show ?thesis by (auto simp: output_for_def utw)
  next
    case False
    then have "qs ! i = ps ! i" using bump i len by auto
    with row[OF i] False show ?thesis by (simp add: output_for_def utw)
  qed
  show "list_all2 (output_for c) es outs"
    using q bump len by (simp add: outs list_all2_conv_all_nth)
  show "(\<Sum>x\<leftarrow>outs. uint (ao_amount_sats x)) = uint T"
    using fin by (simp add: amount_sum_def checked_sum_Inr outs)
  fix i assume i: "i < length es"
  then have W: "0 < W" using Wpos by fastforce
  have sumW: "sum_list (map e_weight es) = W" by (simp add: W_def)
  have "map (\<lambda>p. uint (ao_amount_sats (fst p))) ps = map (\<lambda>w. uint T * w div sum_list (map e_weight es)) (map e_weight es)"
    using len row by (auto intro!: nth_equalityI simp: utw sumW)
  then have ual: "uint al = (\<Sum>w\<leftarrow>map e_weight es. uint T * w div sum_list (map e_weight es))"
    using al by (simp add: amount_sum_def checked_sum_Inr comp_def)
  have ur: "unat r = nat (uint T - (\<Sum>w\<leftarrow>map e_weight es. uint T * w div sum_list (map e_weight es)))"
    using r ual by (simp add: checked_sub_Some unat_eq_nat_uint)
  have desc: "sorted_wrt (\<lambda>i j. uint T * map e_weight es ! j mod sum_list (map e_weight es) \<le>
      uint T * map e_weight es ! i mod sum_list (map e_weight es)) (output_remainder_order ps)"
    by (rule sorted_wrt_mono_rel[OF _ output_order_facts(4)])
      (use row in \<open>auto simp: output_order_facts len utw sumW\<close>)
  have perm: "mset (output_remainder_order ps) = mset [0..<length (map e_weight es)]"
    by (simp add: output_order_facts len)
  have "i \<in> set (take (unat r) (output_remainder_order ps)) \<Longrightarrow> 0 < uint T * e_weight (es ! i) mod W"
    using largest_remainder(3)[of "map e_weight es" "output_remainder_order ps" "uint T" i] W perm desc i
    by (simp add: sumW ur)
  then show "uint T * e_weight (es ! i) div W \<le> uint (ao_amount_sats (outs ! i)) \<and>
      uint (ao_amount_sats (outs ! i)) \<le> uint T * e_weight (es ! i) div W +
        (if uint T * e_weight (es ! i) mod W = 0 then 0 else 1)"
    using q[OF i] bump len i by (auto simp: outs)
qed

text \<open>The builder's allocation meets the same contract as the policy's.\<close>

definition builder_split ::
  "crypto \<Rightarrow> u64 \<Rightarrow> weighted_entitlement list \<Rightarrow> builder_error + (weighted_entitlement \<times> u64) list" where
  "builder_split c T es = (if es = [] then Inl EmptyEntitlements
    else rbind (allocate_ordered c T es) (\<lambda>outs. Inr (zip es (map ao_amount_sats outs))))"

interpretation builder_alloc: apportionment "builder_split c" e_weight for c
proof unfold_locales
  fix T es ys assume "builder_split c T es = Inr ys"
  then obtain outs where ne: "es \<noteq> []" and outs: "allocate_ordered c T es = Inr outs"
    and ys: "ys = zip es (map ao_amount_sats outs)"
    by (auto simp: builder_split_def split: if_splits)
  note R = allocate_ordered_rows[OF outs]
  show "mset (map fst ys) = mset es" using R(1) by (simp add: ys)
  have "map snd ys = map ao_amount_sats outs" using R(1) by (simp add: ys)
  then have "map (\<lambda>y. uint (snd y)) ys = map (\<lambda>x. uint (ao_amount_sats x)) outs"
    by (metis (no_types, lifting) list.map_comp comp_def map_eq_conv)
  then show "(\<Sum>y\<leftarrow>ys. uint (snd y)) = uint T" using R(5) by simp
  show "0 < (\<Sum>x\<leftarrow>es. e_weight x) \<and> (\<forall>x\<in>set es. 0 \<le> e_weight x)" using R(3)[OF ne] by simp
  fix y assume "y \<in> set ys"
  then obtain i where i: "i < length es" "y = (es ! i, ao_amount_sats (outs ! i))"
    using R(1) by (auto simp: ys in_set_zip)
  show "uint T * e_weight (fst y) div (\<Sum>x\<leftarrow>es. e_weight x) \<le> uint (snd y) \<and>
    uint (snd y) \<le> uint T * e_weight (fst y) div (\<Sum>x\<leftarrow>es. e_weight x) +
      (if uint T * e_weight (fst y) mod (\<Sum>x\<leftarrow>es. e_weight x) = 0 then 0 else 1)"
    using R(6)[OF i(1)] by (simp add: i(2))
qed

lemma allocate_ordered_identity:
  assumes "allocate_ordered c T es = Inr outs" and "uint T = (\<Sum>e\<leftarrow>es. e_weight e)"
  shows "map (\<lambda>x. uint (ao_amount_sats x)) outs = map e_weight es"
proof (cases "es = []")
  case False
  then have split: "builder_split c T es = Inr (zip es (map ao_amount_sats outs))"
    using assms(1) by (simp add: builder_split_def)
  note len = allocate_ordered_rows(1)[OF assms(1)]
  show ?thesis
  proof (rule nth_equalityI)
    fix i assume "i < length (map (\<lambda>x. uint (ao_amount_sats x)) outs)"
    then have i: "i < length outs" by simp
    have "zip es (map ao_amount_sats outs) ! i \<in> set (zip es (map ao_amount_sats outs))"
      using i len by (intro nth_mem) simp
    from builder_alloc.alloc_identity[OF split this assms(2)]
    show "map (\<lambda>x. uint (ao_amount_sats x)) outs ! i = map e_weight es ! i" using i len by simp
  qed (simp add: len)
next
  case True
  then show ?thesis using allocate_ordered_rows(1)[OF assms(1)] by simp
qed

section \<open>The pin\<close>

lemma mset_rotate_prefix: "i < length xs \<Longrightarrow> mset (rotate_prefix i xs) = mset xs"
proof -
  assume i: "i < length xs"
  have "rotate_prefix i xs = xs ! i # take i xs @ drop (i + 1) xs"
    using i by (simp add: rotate_prefix_def Let_def take_Suc_conv_app_nth)
  moreover have "mset (take i xs @ xs ! i # drop (i + 1) xs) = mset xs"
    using id_take_nth_drop[OF i] by simp
  ultimately show ?thesis by simp
qed

lemma rotate_prefix_split:
  "i < length xs \<Longrightarrow> rotate_prefix i xs = xs ! i # take i xs @ drop (i + 1) xs"
  by (simp add: rotate_prefix_def Let_def take_Suc_conv_app_nth)

lemma pinned_index_Inr:
  assumes "pinned_entitlement_index es pinned = Inr i"
  shows "i < length es" and "\<forall>j<length es. pin_matches pinned (es ! j) \<longleftrightarrow> j = i"
proof -
  have "filter (\<lambda>i. pin_matches pinned (es ! i)) [0..<length es] = [i]"
    using assms by (auto simp: pinned_entitlement_index_def split: list.splits)
  then have "set (filter (\<lambda>i. pin_matches pinned (es ! i)) [0..<length es]) = {i}" by simp
  then have *: "\<And>j. j < length es \<and> pin_matches pinned (es ! j) \<longleftrightarrow> j = i"
    by (auto simp: set_eq_iff)
  from *[of i] show "i < length es" by simp
  from * show "\<forall>j<length es. pin_matches pinned (es ! j) \<longleftrightarrow> j = i" by blast
qed

text \<open>The entitlements in output order, for either setting of the pin.\<close>

lemma allocate_outputs_Inr:
  assumes "allocate_outputs c req = Inr outs"
  obtains es where "allocate_ordered c (cr_coinbase_value req) es = Inr outs"
    "mset es = mset (cr_entitlements req)" "es \<noteq> []" "cr_coinbase_value req \<noteq> 0"
    "cr_pinned_first_output req = None \<Longrightarrow> es = sort_key entitlement_key (cr_entitlements req)"
    "\<And>p. cr_pinned_first_output req = Some p \<Longrightarrow>
      (\<exists>i < length (cr_entitlements req).
        let s = sort_key entitlement_key (cr_entitlements req) in
        es = s ! i # take i s @ drop (i + 1) s \<and> pin_matches p (s ! i))"
proof (cases "cr_pinned_first_output req")
  case None
  show thesis
    by (rule that[of "sort_key entitlement_key (cr_entitlements req)"])
      (use assms None in \<open>auto simp: allocate_outputs_def Let_def split: if_splits
        dest: arg_cong[where f = length]\<close>)
next
  case (Some p)
  let ?s = "sort_key entitlement_key (cr_entitlements req)"
  from assms Some obtain i where i: "pinned_entitlement_index ?s p = Inr i"
    and run: "allocate_ordered c (cr_coinbase_value req) (rotate_prefix i ?s) = Inr outs"
    and nz: "cr_coinbase_value req \<noteq> 0" "cr_entitlements req \<noteq> []"
    by (auto simp: allocate_outputs_def Let_def split: if_splits)
  note I = pinned_index_Inr[OF i]
  show thesis
  proof (rule that[OF run _ _ nz(1)])
    show "mset (rotate_prefix i ?s) = mset (cr_entitlements req)" using mset_rotate_prefix[OF I(1)] by simp
    then show "rotate_prefix i ?s \<noteq> []" using nz(2) by (metis mset_zero_iff)
    show "rotate_prefix i ?s = ?s" if "cr_pinned_first_output req = None" using that Some by simp
    fix p' assume "cr_pinned_first_output req = Some p'"
    then have "pin_matches p' (?s ! i)" using Some I by auto
    then show "\<exists>j < length (cr_entitlements req). let s = ?s in
        rotate_prefix i ?s = s ! j # take j s @ drop (j + 1) s \<and> pin_matches p' (s ! j)"
      using I(1) rotate_prefix_split[OF I(1)] by (intro exI[of _ i]) (simp add: Let_def)
  qed
qed

end
