(* ===== verification/Builder_Properties.thy ===== *)
theory Builder_Properties
  imports Builder_Facts
begin

text \<open>
  The properties of the pool builder: what the coinbase outputs pay and in which order, that
  weights given as amounts are paid as they are, the script number of the block height, and
  the signed manifest.
\<close>

section \<open>Outputs\<close>

lemma sorted_remove_nth: "sorted xs \<Longrightarrow> i < length xs \<Longrightarrow> sorted (take i xs @ drop (i + 1) xs)"
proof -
  assume "sorted xs" "i < length xs"
  then have "sorted (take i xs @ xs ! i # drop (i + 1) xs)" using id_take_nth_drop[of i xs] by simp
  then show ?thesis by (auto simp: sorted_append)
qed

lemma sorted_map_remove_nth:
  "sorted (map f xs) \<Longrightarrow> i < length xs \<Longrightarrow> sorted (map f (take i xs @ drop (i + 1) xs))"
  using sorted_remove_nth[of "map f xs" i] by (simp add: take_map drop_map)

lemma outputs_in_order:
  assumes "allocate_outputs c req = Inr outs"
  obtains es where "allocate_ordered c (cr_coinbase_value req) es = Inr outs"
    "mset es = mset (cr_entitlements req)" "list_all2 (output_for c) es outs"
    "cr_pinned_first_output req = None \<Longrightarrow> sorted (map entitlement_key es)"
    "\<And>p. cr_pinned_first_output req = Some p \<Longrightarrow>
      es \<noteq> [] \<and> pin_matches p (hd es) \<and> sorted (map entitlement_key (tl es))"
proof -
  let ?s = "sort_key entitlement_key (cr_entitlements req)"
  from allocate_outputs_Inr[OF assms] obtain es where
    run: "allocate_ordered c (cr_coinbase_value req) es = Inr outs" and
    perm: "mset es = mset (cr_entitlements req)" and
    none: "cr_pinned_first_output req = None \<Longrightarrow> es = ?s" and
    some: "\<And>p. cr_pinned_first_output req = Some p \<Longrightarrow>
      (\<exists>i < length (cr_entitlements req). let s = ?s in
        es = s ! i # take i s @ drop (i + 1) s \<and> pin_matches p (s ! i))" by metis
  show thesis
  proof (rule that[OF run perm allocate_ordered_rows(2)[OF run]])
    show "sorted (map entitlement_key es)" if "cr_pinned_first_output req = None" using none[OF that] by simp
    fix p assume "cr_pinned_first_output req = Some p"
    from some[OF this] obtain i where "i < length ?s" "es = ?s ! i # take i ?s @ drop (i + 1) ?s"
      "pin_matches p (?s ! i)" by (auto simp: Let_def)
    then show "es \<noteq> [] \<and> pin_matches p (hd es) \<and> sorted (map entitlement_key (tl es))"
      using sorted_map_remove_nth[of entitlement_key ?s i] by simp
  qed
qed

text \<open>
  C37: The allocated outputs are the requested entitlements, each with its program, script
  and weight, in canonical order, the pinned one (when configured) moved to the front; they
  pay the coinbase value to the satoshi, each output the integer part of its exact share or
  one satoshi more.
\<close>

theorem coinbase_outputs_exact:
  assumes "allocate_outputs c req = Inr outs"
  shows "\<exists>es. mset es = mset (cr_entitlements req) \<and> list_all2 (output_for c) es outs \<and>
    (case cr_pinned_first_output req of
       None \<Rightarrow> sorted (map entitlement_key es)
     | Some p \<Rightarrow> es \<noteq> [] \<and> pin_matches p (hd es) \<and> sorted (map entitlement_key (tl es))) \<and>
    (\<Sum>x\<leftarrow>outs. uint (ao_amount_sats x)) = uint (cr_coinbase_value req) \<and>
    list_all (\<lambda>x. uint (ao_amount_sats x) - uint (cr_coinbase_value req) * uint (ao_weight x) div
        (\<Sum>e\<leftarrow>es. e_weight e) \<in>
      (if uint (cr_coinbase_value req) * uint (ao_weight x) mod (\<Sum>e\<leftarrow>es. e_weight e) = 0
       then {0} else {0, 1})) outs"
proof -
  from outputs_in_order[OF assms] obtain es where
    run: "allocate_ordered c (cr_coinbase_value req) es = Inr outs" and
    perm: "mset es = mset (cr_entitlements req)" and
    none: "cr_pinned_first_output req = None \<Longrightarrow> sorted (map entitlement_key es)" and
    some: "\<And>p. cr_pinned_first_output req = Some p \<Longrightarrow>
      es \<noteq> [] \<and> pin_matches p (hd es) \<and> sorted (map entitlement_key (tl es))" by metis
  note R = allocate_ordered_rows[OF run]
  have "case cr_pinned_first_output req of
       None \<Rightarrow> sorted (map entitlement_key es)
     | Some p \<Rightarrow> es \<noteq> [] \<and> pin_matches p (hd es) \<and> sorted (map entitlement_key (tl es))"
    using none some by (auto split: option.splits)
  moreover have "list_all (\<lambda>x. uint (ao_amount_sats x) - uint (cr_coinbase_value req) * uint (ao_weight x) div
        (\<Sum>e\<leftarrow>es. e_weight e) \<in>
      (if uint (cr_coinbase_value req) * uint (ao_weight x) mod (\<Sum>e\<leftarrow>es. e_weight e) = 0
       then {0} else {0, 1})) outs"
    unfolding list_all_length
  proof (intro allI impI)
    fix i assume "i < length outs"
    then have i: "i < length es" and w: "ao_weight (outs ! i) = we_weight (es ! i)"
      using R(1,2) by (auto simp: list_all2_conv_all_nth output_for_def)
    show "uint (ao_amount_sats (outs ! i)) - uint (cr_coinbase_value req) * uint (ao_weight (outs ! i)) div
        (\<Sum>e\<leftarrow>es. e_weight e) \<in>
      (if uint (cr_coinbase_value req) * uint (ao_weight (outs ! i)) mod (\<Sum>e\<leftarrow>es. e_weight e) = 0
       then {0} else {0, 1})" using R(6)[OF i] unfolding w by (auto split: if_splits)
  qed
  ultimately show ?thesis using perm R(2,5) by blast
qed

definition sample_request :: coinbase_build_request where
  "sample_request = \<lparr>cr_block_height = 700, cr_coinbase_value = 100,
    cr_entitlements = [
      \<lparr>we_recipient_id = ''b'', we_order_key = ''b'', we_program = model_hex_encode (replicate 32 7), we_weight = 1\<rparr>,
      \<lparr>we_recipient_id = ''a'', we_order_key = ''a'', we_program = model_hex_encode (replicate 32 9), we_weight = 2\<rparr>],
    cr_witness_nonce_hex = None, cr_witness_merkle_leaves_hex = [], cr_script_sig_suffix_hex = Some ''2f71'',
    cr_pinned_first_output = Some \<lparr>pin_recipient_id = ''b'', pin_order_key = ''b'',
      pin_program = model_hex_encode (replicate 32 7)\<rparr>\<rparr>"

definition sample_output :: "string \<Rightarrow> u8 \<Rightarrow> u128 \<Rightarrow> u64 \<Rightarrow> allocated_output" where
  "sample_output r b w a = \<lparr>ao_recipient_id = r, ao_order_key = r, ao_p2mr_program = replicate 32 b,
    ao_script_pubkey = p2mr_script_pubkey (replicate 32 b), ao_weight = w, ao_amount_sats = a\<rparr>"

lemma sample_outputs_ok:
  "allocate_outputs model_crypto sample_request = Inr [sample_output ''b'' 7 1 33, sample_output ''a'' 9 2 67]"
  by code_simp

theorem coinbase_outputs_exact_witness:
  "(\<Sum>x\<leftarrow>[sample_output ''b'' 7 1 33, sample_output ''a'' 9 2 67]. uint (ao_amount_sats x)) = 100"
proof -
  have v: "uint (cr_coinbase_value sample_request) = 100" by code_simp
  show ?thesis
    using coinbase_outputs_exact[OF sample_outputs_ok] unfolding v by (elim exE conjE) assumption
qed

lemma outputs_pay_weights:
  assumes "allocate_outputs c req = Inr outs"
    and "(\<Sum>e\<leftarrow>cr_entitlements req. e_weight e) = uint (cr_coinbase_value req)"
  shows "map (\<lambda>x. uint (ao_amount_sats x)) outs = map (\<lambda>x. uint (ao_weight x)) outs"
proof -
  from allocate_outputs_Inr[OF assms(1)] obtain es where
    run: "allocate_ordered c (cr_coinbase_value req) es = Inr outs" and
    perm: "mset es = mset (cr_entitlements req)" by metis
  have "(\<Sum>e\<leftarrow>es. e_weight e) = (\<Sum>e\<leftarrow>cr_entitlements req. e_weight e)"
    by (rule sum_list_map_mset_eq[OF perm])
  then have "map (\<lambda>x. uint (ao_amount_sats x)) outs = map e_weight es"
    using assms(2) by (intro allocate_ordered_identity[OF run]) simp
  moreover have "map (\<lambda>x. uint (ao_weight x)) outs = map e_weight es"
    using allocate_ordered_rows(1,2)[OF run]
    by (auto intro!: nth_equalityI simp: list_all2_conv_all_nth output_for_def)
  ultimately show ?thesis by simp
qed

text \<open>
  When the weights of the request already are satoshis that add up to the coinbase
  value, every output pays exactly its weight.
\<close>

theorem coinbase_pays_weights:
  assumes "allocate_outputs c req = Inr outs"
    and "(\<Sum>e\<leftarrow>cr_entitlements req. e_weight e) = uint (cr_coinbase_value req)"
  shows "map (\<lambda>x. uint (ao_amount_sats x)) outs = map (\<lambda>x. uint (ao_weight x)) outs"
  using assms by (rule outputs_pay_weights)

theorem coinbase_pays_weights_witness:
  "map (\<lambda>x. uint (ao_amount_sats x)) [sample_output ''b'' 7 1 1, sample_output ''a'' 9 2 2] = [1, 2]"
proof -
  have "allocate_outputs model_crypto (sample_request\<lparr>cr_coinbase_value := 3\<rparr>) =
    Inr [sample_output ''b'' 7 1 1, sample_output ''a'' 9 2 2]" by code_simp
  from coinbase_pays_weights[OF this] show ?thesis by (simp add: sample_request_def sample_output_def)
qed

section \<open>Script numbers\<close>

text \<open>The value a script interpreter reads: little-endian, the sign in the top bit of the last byte.\<close>

definition script_num_value :: "bytes \<Rightarrow> int" where
  "script_num_value bs = (if bs = [] then 0 else
    let v = le_value (butlast bs @ [unset_bit 7 (last bs)]) in if bit (last bs) 7 then - v else v)"

lemma magnitude_bytes_value: "le_value (magnitude_bytes n) = int n"
proof (induction n rule: magnitude_bytes.induct)
  case (1 n)
  show ?case
  proof (cases "n = 0")
    case True
    then show ?thesis by (subst magnitude_bytes.simps) simp
  next
    case False
    have "unat (word_of_nat (n mod 256) :: u8) = n mod 256" by (simp add: unat_of_nat)
    then have "uint (word_of_nat (n mod 256) :: u8) = int (n mod 256)" by (simp only: uint_nat)
    then show ?thesis using False 1 by (subst magnitude_bytes.simps) (simp add: zmod_int zdiv_int)
  qed
qed

lemma magnitude_bytes_Nil [simp]: "magnitude_bytes n = [] \<longleftrightarrow> n = 0"
  by (subst magnitude_bytes.simps) simp

lemma magnitude_bytes_last: "n \<noteq> 0 \<Longrightarrow> last (magnitude_bytes n) \<noteq> 0"
proof (induction n rule: magnitude_bytes.induct)
  case (1 n)
  show ?case
  proof (cases "n div 256 = 0")
    case True
    then have n: "n < 256" by simp
    have "unat (word_of_nat n :: u8) = n" using n by (simp add: unat_of_nat)
    then have "(word_of_nat n :: u8) \<noteq> 0" using "1.prems" by (metis unsigned_0)
    then show ?thesis using "1.prems" n True by (subst magnitude_bytes.simps) simp
  next
    case False
    then show ?thesis using 1 by (subst magnitude_bytes.simps) simp
  qed
qed

lemma unset_clear: "\<not> bit b n \<Longrightarrow> unset_bit n b = b" for b :: "'a::len word"
  by (rule bit_eqI) (auto simp: bit_unset_bit_iff)

lemma unset_set: "\<not> bit b 7 \<Longrightarrow> unset_bit 7 (set_bit 7 b) = b" for b :: u8
  by (rule bit_eqI) (auto simp: bit_unset_bit_iff bit_set_bit_iff)

lemma le_value_snoc0: "le_value (bs @ [0]) = le_value bs"
  by (induction bs) auto

text \<open>
  The script number written for a value reads back as that value, and it is minimal:
  its last byte carries magnitude, or only the sign because the byte before it uses its top
  bit.
\<close>

theorem script_num_exact:
  "script_num_value (minimal_script_num v) = v \<and>
   (unset_bit 7 (last (minimal_script_num v)) = 0 \<longrightarrow> v = 0 \<or>
     (1 < length (minimal_script_num v) \<and> bit (last (butlast (minimal_script_num v))) 7))"
proof (cases "v = 0")
  case False
  let ?m = "magnitude_bytes (nat \<bar>v\<bar>)"
  have ne: "?m \<noteq> []" and val: "le_value ?m = \<bar>v\<bar>" and nz: "last ?m \<noteq> 0"
    using False by (simp_all add: magnitude_bytes_value magnitude_bytes_last)
  have b80: "bit (0x80 :: u8) 7" "unset_bit 7 (0x80 :: u8) = 0" "unset_bit 7 (0 :: u8) = 0" by code_simp+
  consider (ext) "bit (last ?m) 7" | (neg) "\<not> bit (last ?m) 7" "v < 0" | (pos) "\<not> bit (last ?m) 7" "0 < v"
    using False by linarith
  then show ?thesis
  proof cases
    case ext
    then have "minimal_script_num v = ?m @ [if v < 0 then 0x80 else 0]"
      using False by (simp add: minimal_script_num_def Let_def)
    then show ?thesis using ext ne val b80 by (auto simp: script_num_value_def Let_def le_value_snoc0)
  next
    case neg
    then have m: "minimal_script_num v = butlast ?m @ [set_bit 7 (last ?m)]"
      using False by (simp add: minimal_script_num_def Let_def)
    have "bit (set_bit 7 (last ?m)) 7" by (simp add: bit_set_bit_iff)
    then show ?thesis using neg ne val nz by (simp add: m script_num_value_def Let_def unset_set)
  next
    case pos
    then have "minimal_script_num v = ?m" using False by (simp add: minimal_script_num_def Let_def)
    then show ?thesis using pos ne val nz by (simp add: script_num_value_def Let_def unset_clear)
  qed
qed (simp add: minimal_script_num_def script_num_value_def)

section \<open>The signed manifest\<close>

definition signer_ok :: "signer \<Rightarrow> bytes \<Rightarrow> bool" where
  "signer_ok sg key \<longleftrightarrow> length (sg_public_key sg key) = 32 \<and> sg_key_valid sg (sg_public_key sg key) \<and>
    (\<forall>m. length (sg_sign sg key m) = 64 \<and> sg_verify sg (sg_public_key sg key) m (sg_sign sg key m))"

lemma numbered_outputs:
  "map po_vout (map (payout_output_of c) (enumerate 0 outs)) = [0..<length outs]"
  "map po_amount_sats (map (payout_output_of c) (enumerate 0 outs)) = map ao_amount_sats outs"
  by (auto intro!: nth_equalityI simp: payout_output_of_def nth_enumerate_eq)

text \<open>
  A manifest the builder signed verifies, and the signed copy is the built manifest: its
  outputs are numbered from zero in transaction order and carry the allocated amounts.
\<close>

theorem signed_manifest_verifies:
  assumes "hex_ok c" and "signer_ok sg key" and "build_signed_manifest c sg req key = Inr sm"
  shows "verify_signed_manifest c sg sm = Inr () \<and> build_manifest c req = Inr (sm_manifest sm) \<and>
    pm_payout_count (sm_manifest sm) = length (pm_outputs (sm_manifest sm)) \<and>
    map po_vout (pm_outputs (sm_manifest sm)) = [0..<pm_payout_count (sm_manifest sm)] \<and>
    (\<exists>built. build_coinbase c req = Inr built \<and>
      map po_amount_sats (pm_outputs (sm_manifest sm)) = map ao_amount_sats (bc_outputs built) \<and>
      hex_decode c (pm_coinbase_tx_hex (sm_manifest sm)) = Inr (bc_tx_with_witness built))"
proof -
  from assms(3) obtain m where m: "build_manifest c req = Inr m" and sm: "sign_manifest c sg key m = Inr sm"
    by (auto simp: build_signed_manifest_def)
  have "sm_manifest sm = m" using sm by (auto simp: sign_manifest_def)
  moreover have "verify_signed_manifest c sg sm = Inr ()"
    using sm assms(1,2) by (auto simp: sign_manifest_def verify_signed_manifest_def
        verify_ed25519_message_def public_key_hex_def hex_decode_b_def hex_ok_def signer_ok_def)
  moreover have "pm_payout_count m = length (pm_outputs m) \<and>
    map po_vout (pm_outputs m) = [0..<pm_payout_count m] \<and>
    (\<exists>built. build_coinbase c req = Inr built \<and>
      map po_amount_sats (pm_outputs m) = map ao_amount_sats (bc_outputs built) \<and>
      hex_decode c (pm_coinbase_tx_hex m) = Inr (bc_tx_with_witness built))"
    using m assms(1)
    by (auto simp: build_manifest_def Let_def hex_ok_def numbered_outputs simp del: map_map)
  ultimately show ?thesis using m by simp
qed

theorem script_num_exact_witness:
  "script_num_value (minimal_script_num 128) = 128 \<and> 1 < length (minimal_script_num 128)"
proof -
  have "minimal_script_num 128 = [0x80, 0]" by code_simp
  moreover have "unset_bit 7 (0 :: u8) = 0" by code_simp
  ultimately show ?thesis using script_num_exact[of 128] by simp
qed

definition model_signer :: signer where
  "model_signer = \<lparr>sg_public_key = \<lambda>k. take 32 (k @ replicate 32 0), sg_sign = \<lambda>k m. take 64 (m @ replicate 64 0),
    sg_key_valid = \<lambda>p. True, sg_verify = \<lambda>p m s. s = take 64 (m @ replicate 64 0),
    sg_manifest_json = \<lambda>m. Inr (string_bytes (pm_coinbase_txid m))\<rparr>"

lemma model_signer_ok: "signer_ok model_signer key"
  by (auto simp: signer_ok_def model_signer_def min_def)

lemma sample_parts:
  "witness_nonce model_crypto sample_request = Inr DEFAULT_WITNESS_NONCE"
  "witness_leaves model_crypto sample_request = Inr []"
  "coinbase_script_sig_suffix model_crypto sample_request = Inr [0x2f, 0x71]"
  "coinbase_height_script 700 = Inr [2, 0xbc, 2]"
  "coinbase_lock_time (cr_block_height sample_request) = Inr 699"
  "amount_sum [sample_output ''b'' 7 1 33, sample_output ''a'' 9 2 67] = Inr 100"
  "checked_sum WeightOverflow ao_weight [sample_output ''b'' 7 1 33, sample_output ''a'' 9 2 67] = Inr 3"
  "cr_coinbase_value sample_request = 100" "cr_block_height sample_request = 700"
proof -
  show "witness_nonce model_crypto sample_request = Inr DEFAULT_WITNESS_NONCE" by code_simp
  show "witness_leaves model_crypto sample_request = Inr []" by code_simp
  show "coinbase_script_sig_suffix model_crypto sample_request = Inr [0x2f, 0x71]" by code_simp
  show "coinbase_height_script 700 = Inr [2, 0xbc, 2]" by code_simp
  show "coinbase_lock_time (cr_block_height sample_request) = Inr 699" by code_simp
  show "amount_sum [sample_output ''b'' 7 1 33, sample_output ''a'' 9 2 67] = Inr 100" by code_simp
  show "checked_sum WeightOverflow ao_weight [sample_output ''b'' 7 1 33, sample_output ''a'' 9 2 67] = Inr 3"
    by code_simp
  show "cr_coinbase_value sample_request = 100" "cr_block_height sample_request = 700"
    by (simp_all add: sample_request_def)
qed

lemma sample_coinbase: "\<exists>built. build_coinbase model_crypto sample_request = Inr built"
proof -
  note parts = sample_parts
  have script_sig: "coinbase_script_sig model_crypto sample_request = Inr [2, 0xbc, 2, 0x2f, 0x71]"
    by (simp add: coinbase_script_sig_def parts Let_def MAX_COINBASE_SCRIPT_SIG_LEN_def)
  have hash_len: "length (hash256_pair model_crypto a b) = 32" for a b
    using model_hash_ok by (simp add: hash256_pair_def hash256_def hash_ok_def)
  have script_len: "length (ao_script_pubkey (sample_output r b w a)) = 34" for r b w a
    by (simp add: sample_output_def p2mr_script_pubkey_def)
  have lens: "length (compact_size v) \<le> 9" for v :: u64 by (simp add: compact_size_def)
  show ?thesis
    using lens[of 1] lens[of 3] lens[of 32] lens[of 34] lens[of 38] lens[of 5]
    by (simp add: build_coinbase_def serialize_coinbase_input_def sample_outputs_ok parts script_sig sample_parts(5)[unfolded sample_parts(9)] Let_def
        serialize_outputs_def serialize_output_def script_len
        witness_commitment_script_def hash_len
        serialize_witness_def builder_const_evals)
qed

lemma sample_built: "\<exists>sm. build_signed_manifest model_crypto model_signer sample_request [1, 2, 3] = Inr sm"
proof -
  from sample_coinbase obtain built where "build_coinbase model_crypto sample_request = Inr built" ..
  moreover have "coinbase_script_sig model_crypto sample_request = Inr [2, 0xbc, 2, 0x2f, 0x71]"
    by (simp add: coinbase_script_sig_def sample_parts Let_def MAX_COINBASE_SCRIPT_SIG_LEN_def)
  ultimately show ?thesis
    by (auto simp: build_signed_manifest_def build_manifest_def Let_def sample_parts sign_manifest_def
        canonical_manifest_bytes_def model_signer_def)
qed

theorem signed_manifest_verifies_witness:
  "\<exists>sm. build_signed_manifest model_crypto model_signer sample_request [1, 2, 3] = Inr sm \<and>
    verify_signed_manifest model_crypto model_signer sm = Inr ()"
  using sample_built signed_manifest_verifies[OF model_hex_ok model_signer_ok] by metis

end
