(* ===== verification/Transaction_Properties.thy ===== *)
theory Transaction_Properties
  imports Transaction_Facts Builder_Properties
begin

text \<open>
  The properties of the transaction codec and of the coinbase the pool builder emits.
\<close>

section \<open>The input and output specifications of a parsed transaction\<close>

definition input_specs :: "parsed_transaction \<Rightarrow> tx_input_spec list" where
  "input_specs tx = map (\<lambda>(i, stack). \<lparr>is_prev_txid_hex = ti_prev_txid_hex i, is_prev_vout = ti_prev_vout i,
      is_script_sig = ti_script_sig i, is_sequence = ti_sequence i, is_witness_stack = stack\<rparr>)
    (zip (tx_inputs tx) (case tx_witness_stacks tx of Some stacks \<Rightarrow> stacks
      | None \<Rightarrow> replicate (length (tx_inputs tx)) []))"

definition output_specs :: "parsed_transaction \<Rightarrow> tx_output_spec list" where
  "output_specs tx = map (\<lambda>out. \<lparr>os_amount_sats = to_amount_sats out,
      os_script_pubkey = to_script_pubkey out\<rparr>) (tx_outputs tx)"

lemma input_spec_bytes_display:
  assumes "hex_ok c" and "raw_in_valid p"
  shows "input_spec_bytes c \<lparr>is_prev_txid_hex = ti_prev_txid_hex (display_in c p),
    is_prev_vout = ti_prev_vout (display_in c p), is_script_sig = ti_script_sig (display_in c p),
    is_sequence = ti_sequence (display_in c p), is_witness_stack = st\<rparr> = Inr (raw_in_bytes p)"
  using assms by (simp add: input_spec_bytes_def display_in_def hex_ok_def raw_in_bytes_def raw_in_valid_def)

lemma try_map_input_specs:
  assumes "hex_ok c"
  shows "length sts = length ps \<Longrightarrow> \<forall>p\<in>set ps. raw_in_valid p \<Longrightarrow>
    try_map (input_spec_bytes c) (map (\<lambda>(i, stack). \<lparr>is_prev_txid_hex = ti_prev_txid_hex i,
      is_prev_vout = ti_prev_vout i, is_script_sig = ti_script_sig i, is_sequence = ti_sequence i,
      is_witness_stack = stack\<rparr>) (zip (map (display_in c) ps) sts)) = Inr (map raw_in_bytes ps)"
proof (induction ps arbitrary: sts)
  case (Cons p ps)
  then obtain st sts' where "sts = st # sts'" by (cases sts) auto
  then show ?case using Cons input_spec_bytes_display[OF assms, of p st] by simp
qed simp

lemma output_specs_bytes: "map output_spec_bytes (map (\<lambda>out. \<lparr>os_amount_sats = to_amount_sats out,
    os_script_pubkey = to_script_pubkey out\<rparr>) outs) = map tx_out_bytes outs"
  by (simp add: output_spec_bytes_def tx_out_bytes_def)

lemma stacks_of_zip: "length sts = length ps \<Longrightarrow>
  map (\<lambda>i. stack_bytes (is_witness_stack i)) (map (\<lambda>(i, stack). \<lparr>is_prev_txid_hex = ti_prev_txid_hex i,
      is_prev_vout = ti_prev_vout i, is_script_sig = ti_script_sig i, is_sequence = ti_sequence i,
      is_witness_stack = stack\<rparr>) (zip ps sts)) = map stack_bytes sts"
  by (induction ps sts rule: list_induct2') auto

lemma serialize_parsed:
  fixes v l :: u32
  assumes "hex_ok c" and ok: "parts_ok w ps outs sts"
  defines "tx \<equiv> parsed_of c v w ps outs sts l"
  shows "serialize_tx c v (input_specs tx) (output_specs tx) l w = Inr (tx_bytes 1 v w ps outs sts l)"
    and "serialize_tx c v (input_specs tx) (output_specs tx) l False = Inr (stripped_bytes v ps outs l)"
proof -
  define sts' where "sts' = (if w then sts else replicate (length ps) [])"
  have len: "length sts' = length ps" and valid: "\<forall>p\<in>set ps. raw_in_valid p"
    using ok by (auto simp: parts_ok_def stacks_ok_def sts'_def)
  have specs: "input_specs tx = map (\<lambda>(i, stack). \<lparr>is_prev_txid_hex = ti_prev_txid_hex i,
      is_prev_vout = ti_prev_vout i, is_script_sig = ti_script_sig i, is_sequence = ti_sequence i,
      is_witness_stack = stack\<rparr>) (zip (map (display_in c) ps) sts')"
    by (simp add: input_specs_def tx_def parsed_of_def sts'_def)
  note T = try_map_input_specs[OF assms(1) len valid, folded specs]
  have n: "length (input_specs tx) = length ps" using len by (simp add: specs)
  have o: "length (output_specs tx) = length outs"
    "map output_spec_bytes (output_specs tx) = map tx_out_bytes outs"
    by (simp_all add: output_specs_def tx_def parsed_of_def output_spec_bytes_def tx_out_bytes_def)
  have st: "map (\<lambda>i. stack_bytes (is_witness_stack i)) (input_specs tx) = map stack_bytes sts'"
    unfolding specs by (rule stacks_of_zip) (simp add: len)
  have "sts = []" if "\<not> w" using that ok by (simp add: parts_ok_def stacks_ok_def)
  then show "serialize_tx c v (input_specs tx) (output_specs tx) l w = Inr (tx_bytes 1 v w ps outs sts l)"
    by (simp add: serialize_tx_def T n o st tx_bytes_def body_bytes_def sts'_def)
  show "serialize_tx c v (input_specs tx) (output_specs tx) l False = Inr (stripped_bytes v ps outs l)"
    by (simp add: serialize_tx_def T n o stripped_bytes_def)
qed

section \<open>What the parser accepts\<close>

text \<open>
  whatever parse_transaction accepts is, byte for byte, what serialize_tx writes for
  the parsed version, inputs, outputs, witness stacks and lock time; only the value of the
  non-zero witness flag (the sixth byte) is not kept.  The bytes hashed for the txid are
  those of the serialization without witness.
\<close>

theorem parse_is_serialize:
  assumes "hex_ok c" and "parse_transaction c field bs = Inr tx"
  shows "\<exists>bs'. serialize_tx c (tx_version tx) (input_specs tx) (output_specs tx) (tx_lock_time tx)
      (tx_witness_stacks tx \<noteq> None) = Inr bs' \<and>
    (bs = bs' \<or> tx_witness_stacks tx \<noteq> None \<and> bs ! 5 \<noteq> 0 \<and> bs[5 := 1] = bs') \<and>
    serialize_tx c (tx_version tx) (input_specs tx) (output_specs tx) (tx_lock_time tx) False =
      Inr (tx_without_witness tx) \<and>
    (\<forall>stacks. tx_witness_stacks tx = Some stacks \<longrightarrow> length stacks = length (tx_inputs tx))"
proof -
  from parse_transaction_sound[OF assms] obtain flag v w ps outs sts l where
    "flag \<noteq> 0" and ok: "parts_ok w ps outs sts" and tx: "tx = parsed_of c v w ps outs sts l" and
    bs: "bs = tx_bytes flag v w ps outs sts l" by blast
  note S = serialize_parsed[OF assms(1) ok, of v l]
  have f: "tx_version tx = v" "tx_lock_time tx = l" "tx_witness_stacks tx \<noteq> None \<longleftrightarrow> w"
    "tx_without_witness tx = stripped_bytes v ps outs l"
    by (simp_all add: tx parsed_of_def)
  have i: "i = 5 \<Longrightarrow> (le_bytes 4 x @ [0, flag] @ r)[i := 1] = le_bytes 4 x @ [0, 1] @ r \<and>
    (le_bytes 4 x @ [0, flag] @ r) ! i = flag" for x r i
    by (simp add: list_update_append nth_append)
  have "bs = tx_bytes 1 v w ps outs sts l \<or> w \<and> bs ! 5 \<noteq> 0 \<and> bs[5 := 1] = tx_bytes 1 v w ps outs sts l"
    using i[OF refl] \<open>flag \<noteq> 0\<close> by (cases w) (simp_all add: bs tx_bytes_def)
  moreover have "\<forall>stacks. tx_witness_stacks tx = Some stacks \<longrightarrow> length stacks = length (tx_inputs tx)"
    using ok by (auto simp: tx parsed_of_def parts_ok_def stacks_ok_def)
  ultimately show ?thesis unfolding f using S[folded tx] by auto
qed

theorem parse_is_serialize_witness:
  "\<exists>bs tx bs'. parse_transaction model_crypto ''tx'' bs = Inr tx \<and>
    serialize_tx model_crypto (tx_version tx) (input_specs tx) (output_specs tx) (tx_lock_time tx)
      (tx_witness_stacks tx \<noteq> None) = Inr bs'"
proof -
  have "parts_ok False [(replicate 32 7, 1, [0x51], 0)] [\<lparr>to_amount_sats = 5, to_script_pubkey = [0x52]\<rparr>] []"
    by (simp add: parts_ok_def raw_in_valid_def tx_out_valid_def stacks_ok_def money_ok_def
        QBIT_MAX_MONEY_SATS_def)
  from parse_transaction_complete[OF model_hex_ok this, of 1 "''tx''" 2 9] obtain bs tx where
    "parse_transaction model_crypto ''tx'' bs = Inr tx" by auto
  with parse_is_serialize[OF model_hex_ok this] show ?thesis by metis
qed

text \<open>
  Compact sizes have one encoding: a value is read exactly where its minimal encoding
  stands, and what follows it is left unread.
\<close>

theorem compact_size_canonical:
  "read_compact_size field bs = Inr (v, r) \<longleftrightarrow> bs = compact_size v @ r"
  using read_compact_size_read read_compact_size_write by metis

section \<open>The coinbase of the pool builder\<close>

lemma le_bytes_sint: "le_bytes 8 (sint a) = le_bytes 8 (uint a)" for a :: u64
proof -
  have "uint a = sint a mod 2 ^ 64" using uint_sint[of a] by (simp add: take_bit_eq_mod)
  then show ?thesis by (simp add: le_bytes_inj)
qed

definition coinbase_outputs :: "built_coinbase \<Rightarrow> parsed_tx_out list" where
  "coinbase_outputs built = map (\<lambda>out. \<lparr>to_amount_sats = ao_amount_sats out,
      to_script_pubkey = ao_script_pubkey out\<rparr>) (bc_outputs built) @
    [\<lparr>to_amount_sats = 0, to_script_pubkey = bc_witness_commitment_script built\<rparr>]"

lemma serialize_outputs_bytes:
  "serialize_outputs outs script @ r = write_size (length outs + 1) @
    concat (map tx_out_bytes (map (\<lambda>out. \<lparr>to_amount_sats = ao_amount_sats out,
      to_script_pubkey = ao_script_pubkey out\<rparr>) outs @ [\<lparr>to_amount_sats = 0, to_script_pubkey = script\<rparr>])) @ r"
proof -
  have "tx_out_bytes \<lparr>to_amount_sats = ao_amount_sats out, to_script_pubkey = ao_script_pubkey out\<rparr> =
    serialize_output out" for out
    by (simp add: tx_out_bytes_def serialize_output_def var_bytes_def le_bytes_sint)
  then show ?thesis
    by (simp add: serialize_outputs_def write_size_def tx_out_bytes_def var_bytes_def comp_def)
qed

definition null_outpoint :: "bytes \<Rightarrow> raw_in" where
  "null_outpoint script_sig = (replicate 32 0, 0xffffffff, script_sig, MAX_SEQUENCE_NONFINAL)"

lemma build_coinbase_form:
  assumes "build_coinbase c req = Inr built"
  obtains script_sig nonce lock where
    "coinbase_script_sig c req = Inr script_sig" "witness_nonce c req = Inr nonce"
    "coinbase_lock_time (cr_block_height req) = Inr lock"
    "allocate_outputs c req = Inr (bc_outputs built)"
    "bc_tx_with_witness built = tx_bytes 1 2 True [null_outpoint script_sig] (coinbase_outputs built) [[nonce]] lock"
    "bc_tx_without_witness built = stripped_bytes 2 [null_outpoint script_sig] (coinbase_outputs built) lock"
    "length (bc_tx_with_witness built) \<le> MAX_BLOCK_WEIGHT"
    "(\<Sum>x\<leftarrow>bc_outputs built. uint (ao_amount_sats x)) = uint (cr_coinbase_value req)"
proof -
  from assms obtain outs nonce leaves script_sig lock weight where
    outs: "allocate_outputs c req = Inr outs" and nonce: "witness_nonce c req = Inr nonce" and
    leaves: "witness_leaves c req = Inr leaves" and ss: "coinbase_script_sig c req = Inr script_sig" and
    lock: "coinbase_lock_time (cr_block_height req) = Inr lock" and
    sum: "amount_sum outs = Inr (cr_coinbase_value req)" and
    len: "length (bc_tx_with_witness built) \<le> MAX_BLOCK_WEIGHT" and
    built: "bc_outputs built = outs"
      "bc_tx_with_witness built = le_bytes 4 2 @ [0, 1] @ (compact_size 1 @ replicate 32 0 @ le_bytes 4 0xffffffff @
        compact_size (word_of_nat (length script_sig)) @ script_sig @ le_bytes 4 (uint MAX_SEQUENCE_NONFINAL)) @
        serialize_outputs outs (bc_witness_commitment_script built) @
        serialize_witness nonce @ le_bytes 4 (uint lock)"
      "bc_tx_without_witness built = le_bytes 4 2 @ (compact_size 1 @ replicate 32 0 @ le_bytes 4 0xffffffff @
        compact_size (word_of_nat (length script_sig)) @ script_sig @ le_bytes 4 (uint MAX_SEQUENCE_NONFINAL)) @
        serialize_outputs outs (bc_witness_commitment_script built) @ le_bytes 4 (uint lock)"
    by (auto simp: build_coinbase_def serialize_coinbase_input_def Let_def split: if_splits)
  show thesis
  proof (rule that[OF ss nonce lock])
    show "(\<Sum>x\<leftarrow>bc_outputs built. uint (ao_amount_sats x)) = uint (cr_coinbase_value req)"
      using sum by (simp add: built amount_sum_def checked_sum_Inr)
    show "length (bc_tx_with_witness built) \<le> MAX_BLOCK_WEIGHT" by (rule len)
  qed (simp_all add: outs built(1) built(2,3) tx_bytes_def body_bytes_def stripped_bytes_def
      null_outpoint_def raw_in_bytes_def serialize_outputs_bytes coinbase_outputs_def var_bytes_def
      write_size_def stack_bytes_def serialize_witness_def)
qed

lemma amount_le_total:
  assumes "x \<in> set outs" and "(\<Sum>x\<leftarrow>outs. uint (f x)) = uint T"
  shows "f x \<le> T"
proof -
  have "uint (f x) \<le> (\<Sum>x\<leftarrow>outs. uint (f x))" using assms(1) by (intro member_le_sum_list) auto
  then show ?thesis using assms(2) by (simp add: word_le_def)
qed

lemma lock_time_Inr: "coinbase_lock_time h = Inr lock \<Longrightarrow> uint lock = uint h - 1"
proof -
  assume "coinbase_lock_time h = Inr lock"
  then have h: "h \<noteq> 0" "uint h \<le> 0xffffffff" "lock = ucast (h - 1)"
    by (auto simp: coinbase_lock_time_def word_less_def split: if_splits)
  have "uint h \<noteq> 0" using h(1) by (simp add: unsigned_eq_0_iff)
  then have "1 \<le> uint h" using uint_nonneg[of h] by linarith
  then have m: "uint (h - 1) = uint h - 1" using uint_sub_lem[of 1 h] by simp
  have "uint (ucast (h - 1) :: u32) = uint (h - 1)"
    using h(2) m by (intro uint_ucast_small) simp
  then show "uint lock = uint h - 1" using h(3) m by simp
qed

text \<open>The parser returns the parts the builder serialized.\<close>

lemma coinbase_parsed:
  assumes "hex_ok c" and built: "build_coinbase c req = Inr built"
    and money: "cr_coinbase_value req \<le> QBIT_MAX_MONEY_SATS"
  obtains script_sig nonce lock where
    "coinbase_script_sig c req = Inr script_sig" "witness_nonce c req = Inr nonce"
    "coinbase_lock_time (cr_block_height req) = Inr lock"
    "bc_tx_without_witness built = stripped_bytes 2 [null_outpoint script_sig] (coinbase_outputs built) lock"
    "\<And>field. parse_transaction c field (bc_tx_with_witness built) =
      Inr (parsed_of c 2 True [null_outpoint script_sig] (coinbase_outputs built) [[nonce]] lock)"
proof -
  from build_coinbase_form[OF built] obtain script_sig nonce lock where
    B: "coinbase_script_sig c req = Inr script_sig" "coinbase_lock_time (cr_block_height req) = Inr lock"
    "bc_tx_with_witness built = tx_bytes 1 2 True [null_outpoint script_sig] (coinbase_outputs built) [[nonce]] lock"
    "bc_tx_without_witness built = stripped_bytes 2 [null_outpoint script_sig] (coinbase_outputs built) lock"
    "length (bc_tx_with_witness built) \<le> MAX_BLOCK_WEIGHT"
    "(\<Sum>x\<leftarrow>bc_outputs built. uint (ao_amount_sats x)) = uint (cr_coinbase_value req)"
    and nonce: "witness_nonce c req = Inr nonce" by metis
  have len: "length (concat (map tx_out_bytes (coinbase_outputs built))) + length nonce + length script_sig
      \<le> 2000000"
    using B(5) by (simp add: B(3) tx_bytes_def body_bytes_def null_outpoint_def raw_in_bytes_def
        var_bytes_def stack_bytes_def MAX_BLOCK_WEIGHT_def)
  have out_len: "length (to_script_pubkey x) + 1 \<le> length (tx_out_bytes x)" for x
    by (simp add: tx_out_bytes_def var_bytes_def)
  have outs_len: "length xs \<le> length (concat (map tx_out_bytes xs))" for xs
  proof (induction xs)
    case (Cons x xs)
    then show ?case using out_len[of x] by simp
  qed simp
  have "length (to_script_pubkey x) \<le> length (concat (map tx_out_bytes xs))" if "x \<in> set xs" for x xs
    using that out_len[of x] by (induction xs) auto
  then have scripts: "\<forall>x\<in>set (coinbase_outputs built). length (to_script_pubkey x) < 2 ^ 64"
    using len by fastforce
  have "\<forall>x\<in>set (coinbase_outputs built). to_amount_sats x \<le> QBIT_MAX_MONEY_SATS"
    using amount_le_total[OF _ B(6)] money by (auto simp: coinbase_outputs_def intro: order_trans)
  then have "parts_ok True [null_outpoint script_sig] (coinbase_outputs built) [[nonce]]"
    using len scripts outs_len[of "coinbase_outputs built"]
    by (auto simp: parts_ok_def raw_in_valid_def null_outpoint_def tx_out_valid_def money_ok_def
        stacks_ok_def stack_valid_def)
  from parse_transaction_complete[OF assms(1) this, of 1 _ 2 lock]
  have "parse_transaction c field (bc_tx_with_witness built) =
      Inr (parsed_of c 2 True [null_outpoint script_sig] (coinbase_outputs built) [[nonce]] lock)" for field
    by (simp add: B(3))
  with B nonce show thesis using that by blast
qed

text \<open>
  C25: the coinbase transaction build_coinbase returns, read back by the transaction parser
  of the CTV module, has one input with the null outpoint and the height script, exactly the
  allocated outputs followed by the zero-value witness commitment, and the builder's lock
  time; its witness-free bytes, hence its txid, are the builder's.
\<close>

theorem coinbase_parses_back:
  assumes "hex_ok c" and built: "build_coinbase c req = Inr built"
    and money: "cr_coinbase_value req \<le> QBIT_MAX_MONEY_SATS"
  shows "\<exists>tx script_sig. parse_transaction c field (bc_tx_with_witness built) = Inr tx \<and>
    coinbase_script_sig c req = Inr script_sig \<and>
    tx_inputs tx = [\<lparr>ti_prev_txid_hex = hex_encode c (replicate 32 0), ti_prev_vout = 0xffffffff,
      ti_script_sig = script_sig, ti_sequence = MAX_SEQUENCE_NONFINAL\<rparr>] \<and>
    map to_amount_sats (tx_outputs tx) = map ao_amount_sats (bc_outputs built) @ [0] \<and>
    map to_script_pubkey (tx_outputs tx) =
      map ao_script_pubkey (bc_outputs built) @ [bc_witness_commitment_script built] \<and>
    uint (tx_lock_time tx) = uint (cr_block_height req) - 1 \<and>
    tx_without_witness tx = bc_tx_without_witness built \<and>
    hash256 c (tx_without_witness tx) = bc_txid built"
proof -
  from coinbase_parsed[OF assms] obtain script_sig nonce lock where
    B: "coinbase_script_sig c req = Inr script_sig" "coinbase_lock_time (cr_block_height req) = Inr lock"
    "bc_tx_without_witness built = stripped_bytes 2 [null_outpoint script_sig] (coinbase_outputs built) lock"
    "parse_transaction c field (bc_tx_with_witness built) =
      Inr (parsed_of c 2 True [null_outpoint script_sig] (coinbase_outputs built) [[nonce]] lock)" by metis
  moreover have "uint lock = uint (cr_block_height req) - 1" by (rule lock_time_Inr[OF B(2)])
  moreover have "hash256 c (bc_tx_without_witness built) = bc_txid built"
    using built by (auto simp: build_coinbase_def Let_def split: if_splits)
  ultimately show ?thesis
    by (intro exI[of _ "parsed_of c 2 True [null_outpoint script_sig] (coinbase_outputs built) [[nonce]] lock"]
        exI[of _ script_sig])
      (simp add: parsed_of_def display_in_def null_outpoint_def coinbase_outputs_def comp_def)
qed

theorem coinbase_parses_back_witness:
  "\<exists>built tx. build_coinbase model_crypto sample_request = Inr built \<and>
    parse_transaction model_crypto ''coinbase'' (bc_tx_with_witness built) = Inr tx \<and>
    tx_without_witness tx = bc_tx_without_witness built"
proof -
  from sample_coinbase obtain built where b: "build_coinbase model_crypto sample_request = Inr built" ..
  have "cr_coinbase_value sample_request \<le> QBIT_MAX_MONEY_SATS"
    by (simp add: sample_request_def QBIT_MAX_MONEY_SATS_def)
  from coinbase_parses_back[OF model_hex_ok b this, of "''coinbase''"] b show ?thesis by blast
qed

end
