(* ===== verification/Allocation.thy ===== *)
theory Allocation
  imports Prism_Types Apportion
begin

text \<open>
  \<open>allocate_weighted_amounts\<close> (\<open>lib.rs\<close>): a total of satoshis split over weighted
  entitlements by largest remainder, ties by account key.  The theory shows when it
  succeeds, what each entitlement receives, and that it meets the apportionment contract.
\<close>

section \<open>The routine\<close>

definition provisional_share ::
  "u64 \<Rightarrow> u128 \<Rightarrow> weighted_entitlement \<Rightarrow> prism_error + (weighted_entitlement \<times> u64 \<times> u128)"
where
  "provisional_share total_sats total_weight e =
    rbind (ok_or (checked_mul (u128_of_u64 total_sats) (we_weight e)) PayoutPolicyOverflow) (\<lambda>product.
    rbind (ok_or (u64_try_from_u128 (product div total_weight)) PayoutPolicyOverflow) (\<lambda>amount.
    Inr (e, amount, product mod total_weight)))"

definition remainder_order :: "(weighted_entitlement \<times> u64 \<times> u128) list \<Rightarrow> nat list" where
  "remainder_order provisional =
    sort_key (\<lambda>i. (- uint (snd (snd (provisional ! i))), entitlement_key (fst (provisional ! i))))
      [0..<length provisional]"

definition bump_amount ::
  "weighted_entitlement \<times> u64 \<times> u128 \<Rightarrow> prism_error + (weighted_entitlement \<times> u64 \<times> u128)" where
  "bump_amount p = (case p of (e, amount, remainder) \<Rightarrow>
    rbind (ok_or (checked_add amount 1) PayoutPolicyOverflow) (\<lambda>amount'. Inr (e, amount', remainder)))"

definition allocate_weighted_amounts ::
  "u64 \<Rightarrow> weighted_entitlement list \<Rightarrow> prism_error + (weighted_entitlement \<times> u64) list" where
  "allocate_weighted_amounts total_sats entitlements =
    (let ordered = sort_key entitlement_key entitlements in
     rbind (checked_sum PayoutPolicyOverflow we_weight ordered) (\<lambda>total_weight.
     if total_weight = 0 then Inl PayoutPolicyOverflow
     else
     rbind (try_map (provisional_share total_sats total_weight) ordered) (\<lambda>provisional.
     rbind (checked_sum PayoutPolicyOverflow (\<lambda>p. fst (snd p)) provisional) (\<lambda>allocated.
     rbind (ok_or (checked_sub total_sats allocated) PayoutPolicyOverflow) (\<lambda>remainder_sats.
     rbind (bump_at bump_amount provisional
              (take (unat remainder_sats) (remainder_order provisional))) (\<lambda>provisional'.
     Inr (map (\<lambda>p. (fst p, fst (snd p))) provisional')))))))"

lemmas allocation_evals [evals] = provisional_share_def remainder_order_def bump_amount_def
  allocate_weighted_amounts_def

section \<open>What it computes\<close>

abbreviation weight_of :: "weighted_entitlement \<Rightarrow> int" where
  "weight_of e \<equiv> uint (we_weight e)"

abbreviation total_weight_of :: "weighted_entitlement list \<Rightarrow> int" where
  "total_weight_of es \<equiv> (\<Sum>e\<leftarrow>es. weight_of e)"

lemma total_weight_sort [simp]:
  "total_weight_of (sort_key f es) = total_weight_of es"
  by (rule sum_list_map_mset_eq) simp

lemma provisional_share_Inr:
  "provisional_share T W e = Inr p \<longleftrightarrow>
    fst p = e \<and> uint T * weight_of e < 2 ^ 128 \<and>
    uint (fst (snd p)) = uint T * weight_of e div uint W \<and>
    uint (snd (snd p)) = uint T * weight_of e mod uint W"
proof (cases "checked_mul (u128_of_u64 T) (we_weight e)")
  case None
  then have "\<not> uint T * weight_of e < 2 ^ 128" by (simp add: checked_mul_None)
  with None show ?thesis by (auto simp add: provisional_share_def)
next
  case (Some q)
  then have q: "uint q = uint T * weight_of e" by (simp add: checked_mul_Some)
  then have "uint T * weight_of e < 2 ^ 128" using u128_bound[of q] by simp
  moreover have "snd (snd p) = q mod W \<longleftrightarrow> uint (snd (snd p)) = uint q mod uint W"
    by (simp add: word_uint_eq_iff uint_mod_distrib)
  ultimately show ?thesis using Some q
    by (cases p) (auto simp: provisional_share_def u64_try_from_u128_Some uint_div_distrib
        uint_mod_distrib word_uint_eq_iff)
qed

lemma bump_amount_Inr:
  "bump_amount p = Inr q \<longleftrightarrow> fst q = fst p \<and> snd (snd q) = snd (snd p) \<and>
    uint (fst (snd q)) = uint (fst (snd p)) + 1"
  by (cases p; cases q) (auto simp: bump_amount_def checked_add_Some)

lemma remainder_order_perm: "mset (remainder_order ps) = mset [0..<length ps]"
  by (simp add: remainder_order_def)

lemma remainder_order_facts:
  "distinct (remainder_order ps)" "set (remainder_order ps) = {..<length ps}"
  by (auto simp: remainder_order_def)

lemma remainder_order_desc:
  "sorted_wrt (\<lambda>i j. uint (snd (snd (ps ! j))) \<le> uint (snd (snd (ps ! i)))) (remainder_order ps)"
  unfolding remainder_order_def by (rule sorted_key_desc[OF sorted_sort_key]) auto

text \<open>The provisional rows, as positions of the ordered entitlements.\<close>

lemma provisional_rows:
  assumes "try_map (provisional_share T W) es = Inr ps" and "i < length es"
  shows "fst (ps ! i) = es ! i"
    and "uint (fst (snd (ps ! i))) = uint T * weight_of (es ! i) div uint W"
    and "uint (snd (snd (ps ! i))) = uint T * weight_of (es ! i) mod uint W"
  using try_map_nth[OF assms] by (auto simp: provisional_share_Inr)

text \<open>
  The extra unit goes to the first entries of the remainder order; \<open>leftover\<close> is how many.
\<close>

definition leftover :: "int \<Rightarrow> int list \<Rightarrow> nat" where
  "leftover T ws = nat (T - (\<Sum>w\<leftarrow>ws. T * w div sum_list ws))"

lemma allocate_rows:
  assumes alloc: "allocate_weighted_amounts T es = Inr ys"
  defines "os \<equiv> sort_key entitlement_key es" and "W \<equiv> total_weight_of es"
  obtains ps where "0 < W" "W < 2 ^ 128" "length ps = length es" "map fst ys = os"
    "try_map (provisional_share T (word_of_int W)) os = Inr ps"
    "\<And>i. i < length es \<Longrightarrow> uint (snd (ys ! i)) = uint T * weight_of (os ! i) div W +
      (if i \<in> set (take (leftover (uint T) (map weight_of os)) (remainder_order ps)) then 1 else 0)"
proof -
  from alloc obtain W' ps a r qs where
    W': "checked_sum PayoutPolicyOverflow we_weight os = Inr W'" and nz: "W' \<noteq> 0" and
    ps: "try_map (provisional_share T W') os = Inr ps" and
    a: "checked_sum PayoutPolicyOverflow (\<lambda>p. fst (snd p)) ps = Inr a" and
    r: "checked_sub T a = Some r" and
    qs: "bump_at bump_amount ps (take (unat r) (remainder_order ps)) = Inr qs" and
    ys: "ys = map (\<lambda>p. (fst p, fst (snd p))) qs"
    by (auto simp: allocate_weighted_amounts_def Let_def os_def)
  have uW: "uint W' = W" using W' by (simp add: checked_sum_Inr os_def W_def)
  have W: "0 < W" "W < 2 ^ 128"
    using nz uW u128_bound[of W'] uint_nonneg[of W'] by (auto simp: word_uint_eq_iff order_less_le)
  have W'_eq: "W' = word_of_int W" using uW by (metis word_of_int_uint)
  have len: "length ps = length os" using ps by (rule try_map_length)
  have rows: "uint (fst (snd (ps ! i))) = uint T * weight_of (os ! i) div W" "fst (ps ! i) = os ! i"
    if "i < length os" for i using provisional_rows[OF ps that] uW by simp_all
  have ssum: "sum_list (map weight_of os) = W" by (simp add: os_def W_def)
  have "uint a = (\<Sum>p\<leftarrow>ps. uint (fst (snd p)))" using a by (simp add: checked_sum_Inr)
  also have "map (\<lambda>p. uint (fst (snd p))) ps = map (\<lambda>e. uint T * weight_of e div W) os"
    using len rows by (auto intro!: nth_equalityI)
  finally have ua: "uint a = (\<Sum>w\<leftarrow>map weight_of os. uint T * w div W)" by (simp add: comp_def)
  have unat_r: "unat r = leftover (uint T) (map weight_of os)"
    using r ua by (simp add: checked_sub_Some leftover_def ssum unat_eq_nat_uint)
  have bump: "length qs = length ps \<and> (\<forall>i<length ps.
      if i \<in> set (take (unat r) (remainder_order ps))
      then bump_amount (ps ! i) = Inr (qs ! i) else qs ! i = ps ! i)"
    using qs remainder_order_facts[of ps]
    by (intro bump_at_Inr) (auto dest: in_set_takeD)
  have fst_qs: "fst (qs ! i) = os ! i" if "i < length os" for i
    using bump that len rows(2)[OF that] by (auto simp: bump_amount_Inr split: if_splits)
  have amounts: "uint (snd (ys ! i)) = uint T * weight_of (os ! i) div W +
      (if i \<in> set (take (leftover (uint T) (map weight_of os)) (remainder_order ps)) then 1 else 0)"
    if "i < length es" for i
  proof -
    have i: "i < length os" using that by (simp add: os_def)
    have "snd (ys ! i) = fst (snd (qs ! i))" using i bump len by (simp add: ys)
    then show ?thesis
      using bump i len rows(1)[OF i] by (auto simp: bump_amount_Inr unat_r split: if_splits)
  qed
  have "map fst ys = os"
    using bump len fst_qs by (auto simp: ys intro!: nth_equalityI)
  then show thesis
    using that[OF W _ _ _ amounts] len ps W'_eq by (simp add: os_def)
qed

lemma allocate_fst: "allocate_weighted_amounts T es = Inr ys \<Longrightarrow> map fst ys = sort_key entitlement_key es"
  by (erule allocate_rows) simp

lemma largest_remainder_rows:
  assumes "try_map (provisional_share T (word_of_int (total_weight_of es))) (sort_key entitlement_key es) = Inr ps"
    and "0 < total_weight_of es" and "total_weight_of es < 2 ^ 128"
  defines "ws \<equiv> map weight_of (sort_key entitlement_key es)"
  shows "i \<in> set (take (leftover (uint T) ws) (remainder_order ps)) \<Longrightarrow>
      0 < uint T * ws ! i mod sum_list ws"
    and "(\<Sum>i<length ws. uint T * ws ! i div sum_list ws +
      (if i \<in> set (take (leftover (uint T) ws) (remainder_order ps)) then 1 else 0)) = uint T"
    and "0 \<le> uint T - (\<Sum>w\<leftarrow>ws. uint T * w div sum_list ws)"
proof -
  have W: "sum_list ws = total_weight_of es" by (simp add: ws_def)
  have uW: "uint (word_of_int (total_weight_of es) :: u128) = sum_list ws"
    using assms(2,3) by (simp add: W uint_word_of_int_small)
  have len: "length ps = length ws" using try_map_length[OF assms(1)] by (simp add: ws_def)
  have perm: "mset (remainder_order ps) = mset [0..<length ws]"
    by (simp add: remainder_order_perm len)
  have "sorted_wrt (\<lambda>i j. uint (snd (snd (ps ! j))) \<le> uint (snd (snd (ps ! i)))) (remainder_order ps)"
    by (rule remainder_order_desc)
  then have desc: "sorted_wrt (\<lambda>i j. uint T * ws ! j mod sum_list ws \<le> uint T * ws ! i mod sum_list ws)
      (remainder_order ps)"
    by (rule sorted_wrt_mono_rel[rotated])
      (use provisional_rows(3)[OF assms(1)] in \<open>auto simp: remainder_order_facts len uW ws_def\<close>)
  have pos: "0 < sum_list ws" using assms(2) by (simp add: W)
  show "i \<in> set (take (leftover (uint T) ws) (remainder_order ps)) \<Longrightarrow>
      0 < uint T * ws ! i mod sum_list ws"
    using largest_remainder(3)[OF pos perm desc] by (simp add: leftover_def)
  show "(\<Sum>i<length ws. uint T * ws ! i div sum_list ws +
      (if i \<in> set (take (leftover (uint T) ws) (remainder_order ps)) then 1 else 0)) = uint T"
    using largest_remainder(4)[OF pos perm desc] by (simp add: leftover_def)
  show "0 \<le> uint T - (\<Sum>w\<leftarrow>ws. uint T * w div sum_list ws)"
    by (rule largest_remainder(1)[OF pos perm desc])
qed

section \<open>The apportionment contract\<close>

interpretation prism_alloc: apportionment allocate_weighted_amounts weight_of
proof unfold_locales
  fix T es ys
  assume alloc: "allocate_weighted_amounts T es = Inr ys"
  define os where "os = sort_key entitlement_key es"
  obtain ps where ps: "0 < total_weight_of es" "total_weight_of es < 2 ^ 128" "length ps = length es"
    "map fst ys = os"
    "try_map (provisional_share T (word_of_int (total_weight_of es))) os = Inr ps"
    and amt: "\<And>i. i < length es \<Longrightarrow> uint (snd (ys ! i)) = uint T * weight_of (os ! i) div total_weight_of es +
      (if i \<in> set (take (leftover (uint T) (map weight_of os)) (remainder_order ps)) then 1 else 0)"
    using allocate_rows[OF alloc] unfolding os_def by metis
  have len: "length ys = length es" using ps(4) by (metis length_map length_sort os_def)
  have W: "sum_list (map weight_of os) = total_weight_of es" by (simp add: os_def)
  note lr = largest_remainder_rows[OF ps(5)[unfolded os_def] ps(1,2), folded os_def]
  show "mset (map fst ys) = mset es" using ps(4) by (simp add: os_def)
  show "0 < total_weight_of es \<and> (\<forall>e\<in>set es. 0 \<le> weight_of e)" using ps(1) by simp
  have "(\<Sum>y\<leftarrow>ys. uint (snd y)) = (\<Sum>i<length es. uint (snd (ys ! i)))"
    by (simp add: sum_list_sum_nth atLeast0LessThan len)
  also have "\<dots> = (\<Sum>i<length es. uint T * weight_of (os ! i) div total_weight_of es +
      (if i \<in> set (take (leftover (uint T) (map weight_of os)) (remainder_order ps)) then 1 else 0))"
    by (rule sum.cong) (simp_all add: amt)
  also have "\<dots> = uint T" using lr(2) by (simp add: W os_def)
  finally show "(\<Sum>y\<leftarrow>ys. uint (snd y)) = uint T" .
  fix y assume "y \<in> set ys"
  then obtain i where i: "i < length es" "y = ys ! i" using len by (auto simp: in_set_conv_nth)
  have fst_y: "fst y = os ! i" using i ps(4) len by (metis nth_map)
  show "uint T * weight_of (fst y) div total_weight_of es \<le> uint (snd y) \<and>
      uint (snd y) \<le> uint T * weight_of (fst y) div total_weight_of es +
        (if uint T * weight_of (fst y) mod total_weight_of es = 0 then 0 else 1)"
    using amt[OF i(1)] lr(1)[of i] i fst_y by (auto simp: W os_def)
qed

section \<open>Success, order independence, fairness\<close>

text \<open>The routine fails only on the overflows it checks and on a zero total weight.\<close>

lemma allocate_succeeds:
  assumes W: "0 < total_weight_of es" "total_weight_of es < 2 ^ 128"
    and prod: "\<forall>e\<in>set es. uint T * weight_of e < 2 ^ 128"
  shows "\<exists>ys. allocate_weighted_amounts T es = Inr ys"
proof -
  define os where "os = sort_key entitlement_key es"
  define tw :: u128 where "tw = word_of_int (total_weight_of es)"
  have utw: "uint tw = total_weight_of es" using W by (simp add: tw_def uint_word_of_int_small)
  have ssum: "sum_list (map weight_of os) = total_weight_of es" by (simp add: os_def)
  have le_W: "weight_of e \<le> total_weight_of es" if "e \<in> set os" for e
    using that member_le_sum_list[of "weight_of e" "map weight_of es"] by (auto simp: os_def)
  have share: "provisional_share T tw e = Inr (e, word_of_int (uint T * weight_of e div uint tw),
      word_of_int (uint T * weight_of e mod uint tw))" (is "_ = Inr ?p") if "e \<in> set os" for e
  proof -
    have "uint T * weight_of e div uint tw \<le> uint T * uint tw div uint tw"
      using le_W[OF that] W utw by (intro zdiv_mono1 mult_left_mono) auto
    moreover have "uint T * uint tw div uint tw = uint T" using W utw by simp
    ultimately have "uint T * weight_of e div uint tw \<le> uint T" by metis
    also note u64_bound[of T]
    finally have "uint T * weight_of e div uint tw < 2 ^ 64" .
    moreover have "uint T * weight_of e mod uint tw < 2 ^ 128"
      using W utw pos_mod_bound[of "uint tw" "uint T * weight_of e"] by linarith
    moreover have "uint T * weight_of e < 2 ^ 128" using prod that by (simp add: os_def)
    ultimately show ?thesis using W utw
      by (simp add: provisional_share_Inr uint_word_of_int_small pos_imp_zdiv_nonneg_iff)
  qed
  obtain ps where ps: "try_map (provisional_share T tw) os = Inr ps"
    by (rule that) (rule try_map_total[OF share])
  note ps' = ps[unfolded tw_def os_def]
  have len: "length ps = length os" using ps by (rule try_map_length)
  have sum_ps: "(\<Sum>p\<leftarrow>ps. uint (fst (snd p))) = (\<Sum>w\<leftarrow>map weight_of os. uint T * w div sum_list (map weight_of os))"
  proof -
    have "map (\<lambda>p. uint (fst (snd p))) ps = map (\<lambda>e. uint T * weight_of e div uint tw) os"
      using len provisional_rows(2)[OF ps] by (auto intro!: nth_equalityI)
    then show ?thesis by (simp add: comp_def utw ssum)
  qed
  have le_T: "(\<Sum>p\<leftarrow>ps. uint (fst (snd p))) \<le> uint T"
    using largest_remainder_rows(3)[OF ps' W] by (simp add: sum_ps os_def)
  then obtain a where a: "checked_sum PayoutPolicyOverflow (\<lambda>p. fst (snd p)) ps = Inr a"
    using checked_sum_Inr_ex[of "\<lambda>p. fst (snd p)" ps] u64_bound[of T] by fastforce
  then have ua: "uint a = (\<Sum>p\<leftarrow>ps. uint (fst (snd p)))" by (simp add: checked_sum_Inr)
  then obtain r where r: "checked_sub T a = Some r" using le_T by (auto simp: checked_sub_def)
  then have ur: "unat r = leftover (uint T) (map weight_of os)"
    using ua sum_ps by (simp add: checked_sub_Some leftover_def unat_eq_nat_uint)
  have "\<exists>q. bump_amount (ps ! i) = Inr q" if i: "i \<in> set (take (unat r) (remainder_order ps))" for i
  proof -
    have il: "i < length os" using i remainder_order_facts[of ps] len by (auto dest: in_set_takeD)
    have "0 < uint T * weight_of (os ! i) mod uint tw"
      using largest_remainder_rows(1)[OF ps' W, of i] i ur il by (simp add: os_def utw)
    then have "uint T * weight_of (os ! i) div uint tw * uint tw < uint T * weight_of (os ! i)"
      using minus_mod_eq_div_mult[of "uint T * weight_of (os ! i)" "uint tw"] by linarith
    also have "\<dots> \<le> uint T * uint tw" using le_W[of "os ! i"] il utw by (simp add: mult_left_mono)
    finally have "uint T * weight_of (os ! i) div uint tw < uint T" using W utw by simp
    then have "uint (fst (snd (ps ! i))) + 1 < 2 ^ 64"
      using provisional_rows(2)[OF ps il] u64_bound[of T] by linarith
    then show ?thesis by (cases "ps ! i") (simp add: bump_amount_def checked_add_def)
  qed
  then obtain qs where
    "bump_at bump_amount ps (take (unat r) (remainder_order ps)) = Inr qs"
    using bump_at_total[of "take (unat r) (remainder_order ps)" ps bump_amount]
      remainder_order_facts[of ps] by (auto dest: in_set_takeD)
  moreover have "checked_sum PayoutPolicyOverflow we_weight os = Inr tw"
    by (simp add: checked_sum_Inr utw os_def)
  moreover have "tw \<noteq> 0" using utw W by auto
  ultimately show ?thesis using ps a r
    by (simp add: allocate_weighted_amounts_def Let_def flip: os_def)
qed

text \<open>The result does not depend on the order in which the entitlements are supplied.\<close>

lemma allocate_order_independent:
  assumes "mset es = mset fs" and "inj_on entitlement_key (set es)"
  shows "allocate_weighted_amounts T es = allocate_weighted_amounts T fs"
  using sort_key_unique[OF assms] by (simp add: allocate_weighted_amounts_def)

text \<open>A larger weight is never paid less.\<close>

lemma allocate_monotone:
  assumes alloc: "allocate_weighted_amounts T es = Inr ys"
    and y: "y \<in> set ys" and z: "z \<in> set ys" and lt: "weight_of (fst y) < weight_of (fst z)"
  shows "uint (snd y) \<le> uint (snd z)"
proof -
  define os where "os = sort_key entitlement_key es"
  define W where "W = total_weight_of es"
  obtain ps where ps: "0 < W" "W < 2 ^ 128" "length ps = length es" "map fst ys = os"
    "try_map (provisional_share T (word_of_int W)) os = Inr ps"
    and amt: "\<And>i. i < length es \<Longrightarrow> uint (snd (ys ! i)) = uint T * weight_of (os ! i) div W +
      (if i \<in> set (take (leftover (uint T) (map weight_of os)) (remainder_order ps)) then 1 else 0)"
    using allocate_rows[OF alloc] unfolding os_def W_def by metis
  let ?sel = "set (take (leftover (uint T) (map weight_of os)) (remainder_order ps))"
  let ?w = "\<lambda>i. uint T * weight_of (os ! i)"
  have len: "length ys = length es" using ps(4) by (metis length_map length_sort os_def)
  obtain i j where i: "i < length es" "y = ys ! i" and j: "j < length es" "z = ys ! j"
    using y z len by (auto simp: in_set_conv_nth)
  have fst_i: "fst y = os ! i" "fst z = os ! j" using i j ps(4) len by (metis nth_map)+
  have le: "?w i \<le> ?w j" using lt fst_i by (simp add: mult_left_mono)
  then have div_le: "?w i div W \<le> ?w j div W" using ps(1) by (simp add: zdiv_mono1)
  show ?thesis
  proof (cases "?w i div W = ?w j div W \<and> i \<in> ?sel \<and> j \<notin> ?sel")
    case True
    have len_ps: "i < length os" "j < length os" using i j by (auto simp: os_def)
    have rem: "uint (snd (snd (ps ! k))) = ?w k mod W" if "k < length os" for k
      using provisional_rows(3)[OF ps(5) that] ps(1,2) by (simp add: uint_word_of_int_small)
    have "i \<in> ?sel \<Longrightarrow> j \<notin> ?sel \<Longrightarrow> ?w j mod W \<le> ?w i mod W"
    proof -
      let ?o = "remainder_order ps" and ?r = "leftover (uint T) (map weight_of os)"
      assume "i \<in> ?sel" "j \<notin> ?sel"
      then obtain p where p: "p < ?r" "p < length ?o" "?o ! p = i"
        by (auto simp: in_set_conv_nth)
      have "j \<in> set ?o" using j ps(3) by (simp add: remainder_order_facts)
      then obtain q where q: "q < length ?o" "?o ! q = j" by (auto simp: in_set_conv_nth)
      have "\<not> q < ?r" using \<open>j \<notin> ?sel\<close> q by (auto simp: in_set_conv_nth)
      with p have "p < q" by simp
      with p q have "uint (snd (snd (ps ! j))) \<le> uint (snd (snd (ps ! i)))"
        using remainder_order_desc[of ps] by (auto simp: sorted_wrt_iff_nth_less)
      then show ?thesis using rem len_ps by simp
    qed
    with True have "?w j mod W \<le> ?w i mod W" by simp
    moreover have "W * (?w i div W) = W * (?w j div W)" using True by simp
    ultimately have "?w j \<le> ?w i"
      using mult_div_mod_eq[of W "?w i"] mult_div_mod_eq[of W "?w j"] by linarith
    then have "uint T = 0" using lt fst_i
      by (smt (verit) mult_less_cancel_left_pos uint_nonneg)
    then show ?thesis using amt[OF i(1)] amt[OF j(1)] i j
        prism_alloc.alloc_total[OF alloc] prism_alloc.alloc_quota[OF alloc y] by simp
  next
    case False
    then show ?thesis using amt[OF i(1)] amt[OF j(1)] i j div_le by auto
  qed
qed

end
