(* ===== verification/Payout_Policy.thy ===== *)
theory Payout_Policy
  imports Allocation Ordered_Map
begin

text \<open>
  \<open>apply_payout_policy\<close> of \<open>lib.rs\<close>: the pool fee, the gross split of a block reward over
  payout programs, the merge with carried-forward balances, the choice of on-chain
  recipients above the output floor, and the balances carried on.
\<close>

section \<open>The policy\<close>

definition day_one_default :: payout_policy where
  "day_one_default =
    \<lparr>pp_spend_input_bytes = DEFAULT_P2MR_SPEND_INPUT_BYTES,
     pp_target_feerate = DEFAULT_MIN_OUTPUT_FEERATE_SATS_PER_BYTE,
     pp_safety_multiplier = DEFAULT_MIN_OUTPUT_SAFETY_MULTIPLIER,
     pp_min_output_sats = None, pp_pool_fee_policy = None,
     pp_coinbase_output_policy = Canonical\<rparr>"

definition min_output_sats :: "payout_policy \<Rightarrow> prism_error + u64" where
  "min_output_sats p = (case pp_min_output_sats p of
      Some floor \<Rightarrow> if floor = 0 then Inl InvalidMinOutputFloor else Inr floor
    | None \<Rightarrow> ok_or (Option.bind (checked_mul (pp_spend_input_bytes p) (pp_target_feerate p))
        (\<lambda>v. checked_mul v (pp_safety_multiplier p))) PayoutPolicyOverflow)"

definition floor_formula :: "payout_policy \<Rightarrow> string" where
  "floor_formula p = (case pp_min_output_sats p of
      Some floor \<Rightarrow> ''configured fixed floor: '' @ dec_word floor @ '' sats''
    | None \<Rightarrow> dec_word (pp_spend_input_bytes p) @ '' bytes/input * '' @
        dec_word (pp_target_feerate p) @ '' sat/byte * '' @
        dec_word (pp_safety_multiplier p) @ ''x safety'')"

definition pool_fee_manifest_of :: "u64 \<Rightarrow> payout_policy \<Rightarrow> prism_error + pool_fee_manifest option" where
  "pool_fee_manifest_of coinbase_value p = (case pp_pool_fee_policy p of
      None \<Rightarrow> Inr None
    | Some f \<Rightarrow>
        if 10000 < fp_fee_bps f then Inl (PoolFeeBpsTooHigh (fp_fee_bps f))
        else
        rbind (ok_or (checked_mul (u128_of_u64 coinbase_value) (ucast (fp_fee_bps f))) PayoutPolicyOverflow)
          (\<lambda>product.
        rbind (ok_or (u64_try_from_u128 (product div 10000)) PayoutPolicyOverflow) (\<lambda>fee_sats.
        Inr (Some \<lparr>pf_fee_bps = fp_fee_bps f, pf_earned_sats = fee_sats, pf_swept_dust_sats = 0,
          pf_amount_sats = fee_sats, pf_recipient_id = fp_recipient_id f,
          pf_order_key = fp_order_key f, pf_program = fp_program f\<rparr>))))"

section \<open>Aggregation by payout program\<close>

definition merge_carry :: "carry_forward_balance \<Rightarrow> carry_forward_balance \<Rightarrow> prism_error + carry_forward_balance"
where
  "merge_carry b entry =
    (let entry = (if (cb_order_key b, cb_recipient_id b) < (cb_order_key entry, cb_recipient_id entry)
       then entry\<lparr>cb_recipient_id := cb_recipient_id b, cb_order_key := cb_order_key b\<rparr> else entry) in
     rbind (ok_or (checked_add_i128 (cb_balance_sats entry) (cb_balance_sats b)) PayoutPolicyOverflow)
       (\<lambda>total. Inr (entry\<lparr>cb_balance_sats := total\<rparr>)))"

definition carry_forward_by_payout_program ::
  "carry_forward_balance list \<Rightarrow> prism_error + (string, carry_forward_balance) btree" where
  "carry_forward_by_payout_program balances =
    bt_group (\<lambda>b. payout_program_key (cb_program b)) (\<lambda>b. b\<lparr>cb_balance_sats := 0\<rparr>) merge_carry [] balances"

definition merge_entitlement :: "weighted_entitlement \<Rightarrow> weighted_entitlement \<Rightarrow> prism_error + weighted_entitlement"
where
  "merge_entitlement e entry =
    (let entry = (if (we_order_key e, we_recipient_id e) < (we_order_key entry, we_recipient_id entry)
       then entry\<lparr>we_recipient_id := we_recipient_id e, we_order_key := we_order_key e\<rparr> else entry) in
     rbind (ok_or (checked_add (we_weight entry) (we_weight e)) PayoutPolicyOverflow)
       (\<lambda>total. Inr (entry\<lparr>we_weight := total\<rparr>)))"

definition aggregate_entitlements_by_payout_program ::
  "weighted_entitlement list \<Rightarrow> prism_error + weighted_entitlement list" where
  "aggregate_entitlements_by_payout_program es =
    rbind (bt_group (\<lambda>e. payout_program_key (we_program e)) (\<lambda>e. e\<lparr>we_weight := 0\<rparr>)
             merge_entitlement [] es)
      (\<lambda>by_program. Inr (bt_values by_program))"

section \<open>Choosing the on-chain recipients\<close>

definition add_swept_dust_to_pool_fee ::
  "pool_fee_manifest option \<Rightarrow> u64 \<Rightarrow> prism_error + pool_fee_manifest option" where
  "add_swept_dust_to_pool_fee fee swept =
    (if swept = 0 then Inr fee
     else rbind (ok_or fee PayoutPolicyOverflow) (\<lambda>f.
       rbind (ok_or (checked_add (pf_swept_dust_sats f) swept) PayoutPolicyOverflow) (\<lambda>dust.
       rbind (ok_or (checked_add (pf_earned_sats f) dust) PayoutPolicyOverflow) (\<lambda>amount.
       Inr (Some (f\<lparr>pf_swept_dust_sats := dust, pf_amount_sats := amount\<rparr>))))))"

definition eligible_onchain_accounts :: "policy_account list \<Rightarrow> u64 \<Rightarrow> usize list" where
  "eligible_onchain_accounts accounts floor =
    filter (\<lambda>i. uint floor \<le> pa_candidate_balance (accounts ! i)) [0..<length accounts]"

definition selected_candidate_balance_sum ::
  "policy_account list \<Rightarrow> usize list \<Rightarrow> prism_error + u128" where
  "selected_candidate_balance_sum accounts selected =
    try_fold (\<lambda>sum i.
      rbind (ok_or (u128_try_from_i128 (pa_candidate_balance (accounts ! i))) PayoutPolicyOverflow)
        (\<lambda>balance. ok_or (checked_add sum balance) PayoutPolicyOverflow)) 0 selected"

text \<open>The cast \<open>as u128\<close> of an \<open>i128\<close> wraps.\<close>

definition candidate_entitlement :: "policy_account \<Rightarrow> weighted_entitlement" where
  "candidate_entitlement a =
    \<lparr>we_recipient_id = pa_recipient_id a, we_order_key = pa_order_key a,
     we_program = pa_program a, we_weight = word_of_int (pa_candidate_balance a)\<rparr>"

definition account_key_of :: "policy_account \<Rightarrow> string" where
  "account_key_of a = account_key (pa_recipient_id a) (pa_order_key a) (pa_program a)"

definition under_floor :: "u64 \<Rightarrow> (weighted_entitlement \<times> u64) list \<Rightarrow> string list" where
  "under_floor floor allocations =
    map (\<lambda>(e, _). account_key (we_recipient_id e) (we_order_key e) (we_program e))
      (filter (\<lambda>(_, amount). amount < floor) allocations)"

function select_loop ::
  "policy_account list \<Rightarrow> u64 \<Rightarrow> u64 \<Rightarrow> usize list \<Rightarrow> prism_error + usize list" where
  "select_loop accounts coinbase_value floor selected =
    (if selected = [] then Inl NoOnchainRecipients
     else
     rbind (selected_candidate_balance_sum accounts selected) (\<lambda>sum.
     if sum < u128_of_u64 coinbase_value then Inl (PayoutExceedsCandidateBalance coinbase_value sum)
     else
     rbind (allocate_weighted_amounts coinbase_value
              (map (\<lambda>i. candidate_entitlement (accounts ! i)) selected)) (\<lambda>allocations.
     let under = under_floor floor allocations in
     if under = [] then Inr selected
     else select_loop accounts coinbase_value floor
       (filter (\<lambda>i. account_key_of (accounts ! i) \<notin> set under) selected))))"
  by pat_completeness auto

text \<open>Every pass drops an account: one paid under the floor is among those selected.\<close>

lemma select_loop_shrinks:
  assumes "allocate_weighted_amounts v (map (\<lambda>i. candidate_entitlement (accounts ! i)) selected) = Inr ys"
    and "under_floor floor ys \<noteq> []"
  shows "length (filter (\<lambda>i. account_key_of (accounts ! i) \<notin> set (under_floor floor ys)) selected)
    < length selected"
proof -
  obtain e amount where ea: "(e, amount) \<in> set ys" "amount < floor"
    using assms(2) by (auto simp: under_floor_def filter_empty_conv)
  then have "e \<in> (\<lambda>i. candidate_entitlement (accounts ! i)) ` set selected"
    using prism_alloc.alloc_set[OF assms(1)] by force
  then obtain i where i: "i \<in> set selected" "e = candidate_entitlement (accounts ! i)" by auto
  have "account_key_of (accounts ! i) \<in> set (under_floor floor ys)"
    using ea i(2) by (force simp: under_floor_def candidate_entitlement_def account_key_of_def)
  with i(1) show ?thesis by (intro length_filter_less) auto
qed

termination select_loop
  by (relation "measure (\<lambda>(_, _, _, selected). length selected)") (auto intro: select_loop_shrinks)

declare select_loop.simps [simp del]

definition select_onchain_accounts ::
  "policy_account list \<Rightarrow> u64 \<Rightarrow> u64 \<Rightarrow> prism_error + usize list" where
  "select_onchain_accounts accounts coinbase_value floor =
    select_loop accounts coinbase_value floor (eligible_onchain_accounts accounts floor)"

section \<open>The accounts\<close>

definition entitlement_seed ::
  "(string, carry_forward_balance) btree \<Rightarrow> weighted_entitlement \<times> u64 \<Rightarrow> account_seed" where
  "entitlement_seed prior p = (case p of (e, gross) \<Rightarrow>
    \<lparr>sd_recipient_id = we_recipient_id e, sd_order_key = we_order_key e,
     sd_program = we_program e, sd_gross_sats = gross,
     sd_prior_balance = (case bt_get prior (payout_program_key (we_program e)) of
       None \<Rightarrow> 0 | Some b \<Rightarrow> cb_balance_sats b)\<rparr>)"

definition prior_seed :: "carry_forward_balance \<Rightarrow> account_seed" where
  "prior_seed b =
    \<lparr>sd_recipient_id = cb_recipient_id b, sd_order_key = cb_order_key b, sd_program = cb_program b,
     sd_gross_sats = 0, sd_prior_balance = cb_balance_sats b\<rparr>"

text \<open>The second loop: balances of programs not paid by this block.\<close>

fun prior_seeds ::
  "string set \<Rightarrow> carry_forward_balance list \<Rightarrow> account_seed list \<times> string set" where
  "prior_seeds seen [] = ([], seen)"
| "prior_seeds seen (b # bs) =
    (let key = payout_program_key (cb_program b) in
     if key \<in> seen then prior_seeds seen bs
     else case prior_seeds (insert key seen) bs of (seeds, seen') \<Rightarrow> (prior_seed b # seeds, seen'))"

definition seed_account :: "account_seed \<Rightarrow> prism_error + policy_account" where
  "seed_account s =
    rbind (ok_or (checked_add_i128 (sd_prior_balance s) (uint (sd_gross_sats s))) PayoutPolicyOverflow)
      (\<lambda>candidate. Inr
        \<lparr>pa_account_type = Miner, pa_recipient_id = sd_recipient_id s,
         pa_order_key = sd_order_key s, pa_program = sd_program s, pa_gross_sats = sd_gross_sats s,
         pa_prior_balance = sd_prior_balance s, pa_candidate_balance = candidate,
         pa_onchain_sats = 0, pa_settlement_fee_sats = 0, pa_carry_forward = candidate,
         pa_action = Accrued\<rparr>)"

definition policy_accounts ::
  "u64 \<Rightarrow> weighted_entitlement list \<Rightarrow> carry_forward_balance list
    \<Rightarrow> prism_error + policy_account list \<times> string set"
where
  "policy_accounts miner_reward entitlements prior_balances =
    rbind (aggregate_entitlements_by_payout_program entitlements) (\<lambda>settlement.
    rbind (allocate_weighted_amounts miner_reward settlement) (\<lambda>gross.
    rbind (carry_forward_by_payout_program prior_balances) (\<lambda>prior.
    let paid = set (map (\<lambda>(e, _). payout_program_key (we_program e)) gross) in
    case prior_seeds paid (bt_values prior) of (seeds, seen) \<Rightarrow>
    rbind (try_map seed_account (map (entitlement_seed prior) gross @ seeds)) (\<lambda>accounts.
    Inr (accounts, seen)))))"

text \<open>The amounts to emit on chain, and the pool fee with any swept dust.\<close>

definition onchain_amounts_of ::
  "policy_account list \<Rightarrow> u64 \<Rightarrow> u64 \<Rightarrow> pool_fee_manifest option
    \<Rightarrow> prism_error + (weighted_entitlement \<times> u64) list \<times> pool_fee_manifest option"
where
  "onchain_amounts_of accounts miner_reward floor fee =
    (let eligible = eligible_onchain_accounts accounts floor in
     if eligible = [] then
       (if fee = None then Inl NoOnchainRecipients
        else rbind (add_swept_dust_to_pool_fee fee miner_reward) (\<lambda>fee'. Inr ([], fee')))
     else
     rbind (selected_candidate_balance_sum accounts eligible) (\<lambda>eligible_sum.
     if eligible_sum < u128_of_u64 miner_reward then
       (if fee = None then Inl (PayoutExceedsCandidateBalance miner_reward eligible_sum)
        else
        rbind (ok_or (u64_try_from_u128 eligible_sum) PayoutPolicyOverflow) (\<lambda>paid.
        rbind (ok_or (checked_sub miner_reward paid) PayoutPolicyOverflow) (\<lambda>swept.
        rbind (add_swept_dust_to_pool_fee fee swept) (\<lambda>fee'.
        rbind (try_map (\<lambda>i.
            rbind (ok_or (u64_try_from_i128 (pa_candidate_balance (accounts ! i))) PayoutPolicyOverflow)
              (\<lambda>amount. Inr
                (\<lparr>we_recipient_id = pa_recipient_id (accounts ! i),
                  we_order_key = pa_order_key (accounts ! i), we_program = pa_program (accounts ! i),
                  we_weight = u128_of_u64 amount\<rparr>, amount))) eligible) (\<lambda>amounts.
        Inr (amounts, fee'))))))
     else
       rbind (select_onchain_accounts accounts miner_reward floor) (\<lambda>emitted.
       rbind (allocate_weighted_amounts miner_reward
                (map (\<lambda>i. candidate_entitlement (accounts ! i)) emitted)) (\<lambda>amounts.
       Inr (amounts, fee)))))"

text \<open>\<open>iter_mut().find(..)\<close> and the update of the account found.\<close>

definition account_matches :: "weighted_entitlement \<Rightarrow> policy_account \<Rightarrow> bool" where
  "account_matches e a \<longleftrightarrow> pa_recipient_id a = we_recipient_id e \<and>
    pa_order_key a = we_order_key e \<and> pa_program a = we_program e"

definition pay_account :: "u64 \<Rightarrow> u64 \<Rightarrow> policy_account \<Rightarrow> prism_error + policy_account" where
  "pay_account coinbase_value amount a =
    (if pa_candidate_balance a < uint amount then
       rbind (ok_or (u128_try_from_i128 (pa_candidate_balance a)) PayoutPolicyOverflow)
         (\<lambda>balance. Inl (PayoutExceedsCandidateBalance coinbase_value balance))
     else
       rbind (ok_or (checked_sub_i128 (pa_candidate_balance a) (uint amount)) PayoutPolicyOverflow)
         (\<lambda>carry. Inr (a\<lparr>pa_onchain_sats := amount, pa_carry_forward := carry, pa_action := Onchain\<rparr>)))"

fun pay_first ::
  "u64 \<Rightarrow> weighted_entitlement \<Rightarrow> u64 \<Rightarrow> policy_account list \<Rightarrow> prism_error + policy_account list"
where
  "pay_first coinbase_value e amount [] = Inl (Panic ''selected on-chain account must exist'')"
| "pay_first coinbase_value e amount (a # accounts) =
    (if account_matches e a
     then rbind (pay_account coinbase_value amount a) (\<lambda>a'. Inr (a' # accounts))
     else rbind (pay_first coinbase_value e amount accounts) (\<lambda>rest. Inr (a # rest)))"

definition pay_onchain ::
  "u64 \<Rightarrow> u64 \<Rightarrow> policy_account list \<Rightarrow> (weighted_entitlement \<times> u64) list \<Rightarrow> prism_error + policy_account list"
where
  "pay_onchain coinbase_value floor =
    try_fold (\<lambda>accounts (e, amount).
      if amount < floor then Inl (PayoutBelowFloor (we_recipient_id e) amount floor)
      else pay_first coinbase_value e amount accounts)"

definition fee_account :: "pool_fee_manifest \<Rightarrow> policy_account" where
  "fee_account f =
    \<lparr>pa_account_type = PoolFee, pa_recipient_id = pf_recipient_id f, pa_order_key = pf_order_key f,
     pa_program = pf_program f, pa_gross_sats = pf_amount_sats f, pa_prior_balance = 0,
     pa_candidate_balance = uint (pf_amount_sats f), pa_onchain_sats = pf_amount_sats f,
     pa_settlement_fee_sats = 0, pa_carry_forward = 0, pa_action = Onchain\<rparr>"

definition push_fee_account ::
  "string set \<Rightarrow> pool_fee_manifest option \<Rightarrow> policy_account list \<Rightarrow> prism_error + policy_account list"
where
  "push_fee_account seen fee accounts = (case fee of
      None \<Rightarrow> Inr accounts
    | Some f \<Rightarrow>
        if payout_program_key (pf_program f) \<in> seen then Inl DuplicatePoolFeeAccount
        else Inr (accounts @ [fee_account f]))"

definition onchain_entitlements_of :: "policy_account list \<Rightarrow> weighted_entitlement list" where
  "onchain_entitlements_of accounts =
    map (\<lambda>a. \<lparr>we_recipient_id = pa_recipient_id a, we_order_key = pa_order_key a,
        we_program = pa_program a, we_weight = u128_of_u64 (pa_onchain_sats a)\<rparr>)
      (filter (\<lambda>a. 0 < pa_onchain_sats a) accounts)"

definition onchain_sum_of :: "weighted_entitlement list \<Rightarrow> prism_error + u64" where
  "onchain_sum_of = try_fold (\<lambda>sum e.
    rbind (ok_or (u64_try_from_u128 (we_weight e)) PayoutPolicyOverflow)
      (\<lambda>w. ok_or (checked_add sum w) PayoutPolicyOverflow)) 0"

definition policy_schema :: string where
  "policy_schema = ''qbit.prism.payout-policy.v1''"

definition account_order :: "policy_account \<Rightarrow> string \<times> string \<times> string" where
  "account_order a = (pa_order_key a, pa_recipient_id a, pa_program a)"

definition apply_payout_policy ::
  "reward_manifest \<Rightarrow> carry_forward_balance list \<Rightarrow> payout_policy \<Rightarrow> prism_error + policy_manifest"
where
  "apply_payout_policy rm prior_balances policy =
    rbind (min_output_sats policy) (\<lambda>floor.
    rbind (pool_fee_manifest_of (rm_coinbase_value rm) policy) (\<lambda>fee.
    if pp_coinbase_output_policy policy = PoolFeeFirst \<and> fee = None
      then Inl PoolFeeFirstRequiresPoolFee
    else
    rbind (ok_or (checked_sub (rm_coinbase_value rm)
        (case fee of None \<Rightarrow> 0 | Some f \<Rightarrow> pf_amount_sats f)) PayoutPolicyOverflow) (\<lambda>miner_reward.
    if miner_reward < floor then Inl (CoinbaseBelowFloor miner_reward floor)
    else
    rbind (policy_accounts miner_reward (rm_entitlements rm) prior_balances) (\<lambda>(accounts, seen).
    rbind (onchain_amounts_of accounts miner_reward floor fee) (\<lambda>(amounts, fee').
    rbind (pay_onchain (rm_coinbase_value rm) floor accounts amounts) (\<lambda>paid.
    rbind (push_fee_account seen fee' paid) (\<lambda>all_accounts.
    let onchain = onchain_entitlements_of all_accounts in
    rbind (onchain_sum_of onchain) (\<lambda>onchain_sum.
    if onchain_sum \<noteq> rm_coinbase_value rm then Inl PayoutPolicyOverflow
    else Inr
      \<lparr>py_schema = policy_schema, py_block_height = rm_block_height rm,
       py_coinbase_value = rm_coinbase_value rm, py_min_output_sats = floor,
       py_floor_formula = floor_formula policy,
       py_coinbase_output_policy = pp_coinbase_output_policy policy, py_pool_fee = fee',
       py_accounts = sort_key account_order all_accounts, py_onchain_entitlements = onchain\<rparr>))))))))"

lemmas policy_evals [evals] = min_output_sats_def pool_fee_manifest_of_def merge_carry_def
  carry_forward_by_payout_program_def merge_entitlement_def
  aggregate_entitlements_by_payout_program_def add_swept_dust_to_pool_fee_def
  eligible_onchain_accounts_def selected_candidate_balance_sum_def candidate_entitlement_def
  account_key_of_def under_floor_def select_onchain_accounts_def entitlement_seed_def
  prior_seed_def seed_account_def policy_accounts_def onchain_amounts_of_def
  account_matches_def pay_account_def pay_onchain_def fee_account_def push_fee_account_def
  onchain_entitlements_of_def onchain_sum_of_def policy_schema_def account_order_def
  apply_payout_policy_def

end
