(* ===== verification/Policy_Facts.thy ===== *)
theory Policy_Facts
  imports Payout_Policy
begin

text \<open>
  What the payout policy guarantees: the accounts it builds are one per payout program,
  every satoshi of the reward and of the prior balances is on chain or carried forward,
  no recipient is paid under the floor or over its balance, and the error branches that
  guard the payment loop are dead.
\<close>

section \<open>Aggregation\<close>

text \<open>One entry per payout program, in key order.\<close>

lemma aggregate_keys:
  assumes "aggregate_entitlements_by_payout_program es = Inr agg"
  shows "sorted_wrt (<) (map (\<lambda>e. payout_program_key (we_program e)) agg)"
    and "set (map (\<lambda>e. payout_program_key (we_program e)) agg) =
      set (map (\<lambda>e. payout_program_key (we_program e)) es)"
proof -
  let ?key = "\<lambda>e. payout_program_key (we_program e)"
  from assms obtain m where
    m: "bt_group ?key (\<lambda>e. e\<lparr>we_weight := 0\<rparr>) merge_entitlement [] es = Inr m" and
    agg: "agg = map snd m"
    by (auto simp: aggregate_entitlements_by_payout_program_def bt_values_def bt_entries_def)
  have ok: "bt_ok []" by (simp add: bt_ok_def)
  have "\<forall>p\<in>set m. ?key (snd p) = fst p"
    by (rule bt_group_values[OF m, of "\<lambda>k v. ?key v = k"])
      (auto simp: merge_entitlement_def Let_def split: if_splits)
  then have keys: "map ?key agg = map fst m" by (simp add: agg)
  show "sorted_wrt (<) (map ?key agg)"
    using bt_group_ok[OF m ok] unfolding keys by (simp add: bt_ok_def)
  show "set (map ?key agg) = set (map ?key es)"
    using bt_group_keys[OF m ok] unfolding keys by simp
qed

lemma aggregate_weight:
  assumes "aggregate_entitlements_by_payout_program es = Inr agg"
  shows "total_weight_of agg = total_weight_of es"
proof -
  from assms obtain m where
    m: "bt_group (\<lambda>e. payout_program_key (we_program e)) (\<lambda>e. e\<lparr>we_weight := 0\<rparr>) merge_entitlement [] es = Inr m"
    and agg: "agg = map snd m"
    by (auto simp: aggregate_entitlements_by_payout_program_def bt_values_def bt_entries_def)
  have "(\<Sum>p\<leftarrow>m. uint (we_weight (snd p))) = 
      (\<Sum>p\<leftarrow>[]. uint (we_weight (snd (p :: string \<times> weighted_entitlement)))) + total_weight_of es"
    by (rule bt_group_sum[OF m, where g = "\<lambda>e. uint (we_weight e)"])
      (auto simp: bt_ok_def merge_entitlement_def Let_def checked_add_Some split: if_splits)
  then show ?thesis by (simp add: agg comp_def)
qed

lemma carry_forward_facts:
  assumes "carry_forward_by_payout_program bs = Inr m"
  shows "bt_ok m" and "\<forall>p\<in>set m. payout_program_key (cb_program (snd p)) = fst p"
    and "(\<Sum>p\<leftarrow>m. cb_balance_sats (snd p)) = (\<Sum>b\<leftarrow>bs. cb_balance_sats b)"
proof -
  note m = assms[unfolded carry_forward_by_payout_program_def]
  show "bt_ok m" by (rule bt_group_ok[OF m]) (simp add: bt_ok_def)
  show "\<forall>p\<in>set m. payout_program_key (cb_program (snd p)) = fst p"
    by (rule bt_group_values[OF m, of "\<lambda>k v. payout_program_key (cb_program v) = k"])
      (auto simp: merge_carry_def Let_def split: if_splits)
  have "(\<Sum>p\<leftarrow>m. cb_balance_sats (snd p)) =
      (\<Sum>p\<leftarrow>[]. cb_balance_sats (snd (p :: string \<times> carry_forward_balance))) + (\<Sum>b\<leftarrow>bs. cb_balance_sats b)"
    by (rule bt_group_sum[OF m])
      (auto simp: bt_ok_def merge_carry_def Let_def checked_add_i128_Some split: if_splits)
  then show "(\<Sum>p\<leftarrow>m. cb_balance_sats (snd p)) = (\<Sum>b\<leftarrow>bs. cb_balance_sats b)" by simp
qed

section \<open>Seeds\<close>

text \<open>With distinct programs the second loop is a filter.\<close>

lemma prior_seeds_distinct:
  assumes "distinct (map (\<lambda>b. payout_program_key (cb_program b)) bs)"
  shows "prior_seeds seen bs =
    (map prior_seed (filter (\<lambda>b. payout_program_key (cb_program b) \<notin> seen) bs),
     seen \<union> set (map (\<lambda>b. payout_program_key (cb_program b)) bs))"
  using assms
proof (induction bs arbitrary: seen)
  case (Cons b bs)
  let ?k = "payout_program_key (cb_program b)"
  have "filter (\<lambda>b. payout_program_key (cb_program b) \<notin> insert ?k seen) bs =
      filter (\<lambda>b. payout_program_key (cb_program b) \<notin> seen) bs"
    using Cons.prems by (intro filter_cong) (auto simp: image_iff)
  then show ?case using Cons.IH[of seen] Cons.IH[of "insert ?k seen"] Cons.prems
    by (simp add: Let_def insert_absorb)
qed simp

definition seed_key :: "account_seed \<Rightarrow> string" where
  "seed_key s = payout_program_key (sd_program s)"

definition acct_program_key :: "policy_account \<Rightarrow> string" where
  "acct_program_key a = payout_program_key (pa_program a)"

lemma sum_list_lookup:
  fixes f :: "'v \<Rightarrow> int" and m :: "('k \<times> 'v) list"
  assumes "distinct (map fst m)" and "distinct ks"
  shows "(\<Sum>k\<leftarrow>ks. case map_of m k of None \<Rightarrow> 0 | Some v \<Rightarrow> f v) +
    (\<Sum>p\<leftarrow>filter (\<lambda>p. fst p \<notin> set ks) m. f (snd p)) = (\<Sum>p\<leftarrow>m. f (snd p))"
  using assms
proof (induction m)
  case Nil
  then show ?case by (simp add: sum_list_0)
next
  case (Cons q m)
  obtain k v where q: "q = (k, v)" by fastforce
  let ?g = "\<lambda>m k. case map_of m k of None \<Rightarrow> 0 | Some v \<Rightarrow> f v"
  have nin: "map_of m k = None" using Cons.prems(1) by (simp add: q map_of_eq_None_iff)
  have upd: "?g (q # m) k' = ?g m k' + (if k' = k then f v else 0)" for k'
    using nin by (simp add: q)
  have "(\<Sum>k'\<leftarrow>ks. if k' = k then f v else 0) = (if k \<in> set ks then f v else 0)"
    using Cons.prems(2) by (induction ks) auto
  then have "(\<Sum>k'\<leftarrow>ks. ?g (q # m) k') = (\<Sum>k'\<leftarrow>ks. ?g m k') + (if k \<in> set ks then f v else 0)"
    unfolding upd by (simp add: sum_list_addf)
  then show ?case using Cons.IH Cons.prems by (auto simp: q)
qed

text \<open>The accounts: one per program, untouched, and every amount accounted for.\<close>

definition fresh_account :: "policy_account \<Rightarrow> bool" where
  "fresh_account a \<longleftrightarrow> pa_account_type a = Miner \<and> pa_onchain_sats a = 0 \<and>
    pa_settlement_fee_sats a = 0 \<and> pa_action a = Accrued \<and>
    pa_candidate_balance a = pa_prior_balance a + uint (pa_gross_sats a) \<and>
    pa_carry_forward a = pa_candidate_balance a \<and>
    - (2 ^ 127) \<le> pa_candidate_balance a \<and> pa_candidate_balance a < 2 ^ 127"

lemma seed_account_Inr:
  "seed_account s = Inr a \<Longrightarrow> fresh_account a \<and> acct_program_key a = seed_key s \<and>
    pa_gross_sats a = sd_gross_sats s \<and> pa_prior_balance a = sd_prior_balance s \<and>
    pa_recipient_id a = sd_recipient_id s \<and> pa_order_key a = sd_order_key s \<and>
    pa_program a = sd_program s"
  by (auto simp: seed_account_def fresh_account_def checked_add_i128_Some acct_program_key_def seed_key_def)

lemma try_map_seed:
  assumes "try_map seed_account ss = Inr as"
  shows "\<forall>a\<in>set as. fresh_account a" and "map acct_program_key as = map seed_key ss"
    and "map pa_gross_sats as = map sd_gross_sats ss"
    and "map pa_prior_balance as = map sd_prior_balance ss"
  using assms
  by (induction ss arbitrary: as) (auto dest: seed_account_Inr)

text \<open>What a list of balances holds for one payout program.\<close>

definition balance_under :: "string \<Rightarrow> carry_forward_balance list \<Rightarrow> int" where
  "balance_under k bs =
    (\<Sum>b\<leftarrow>filter (\<lambda>b. payout_program_key (cb_program b) = k) bs. cb_balance_sats b)"

lemma carry_forward_at:
  assumes "carry_forward_by_payout_program bs = Inr m"
  shows "(case map_of m k of None \<Rightarrow> 0 | Some b \<Rightarrow> cb_balance_sats b) = balance_under k bs"
    and "fst ` set m = (\<lambda>b. payout_program_key (cb_program b)) ` set bs"
proof -
  note m = assms[unfolded carry_forward_by_payout_program_def]
  have "(case bt_get m k of None \<Rightarrow> 0 | Some b \<Rightarrow> cb_balance_sats b) =
      (case bt_get ([] :: (string, carry_forward_balance) btree) k of None \<Rightarrow> 0 | Some b \<Rightarrow> cb_balance_sats b) + balance_under k bs"
    unfolding balance_under_def
    by (rule bt_group_sum_at[OF m, where g = cb_balance_sats and w = cb_balance_sats])
      (auto simp: bt_ok_def merge_carry_def Let_def checked_add_i128_Some split: if_splits)
  then show "(case map_of m k of None \<Rightarrow> 0 | Some b \<Rightarrow> cb_balance_sats b) = balance_under k bs"
    by (simp add: bt_get_def)
  show "fst ` set m = (\<lambda>b. payout_program_key (cb_program b)) ` set bs"
    using bt_group_keys[OF m] by (simp add: bt_ok_def)
qed

lemma policy_accounts_facts:
  assumes "policy_accounts reward es bs = Inr (accounts, seen)"
  shows "\<forall>a\<in>set accounts. fresh_account a"
    and "distinct (map acct_program_key accounts)"
    and "seen = set (map acct_program_key accounts)"
    and "(\<Sum>a\<leftarrow>accounts. uint (pa_gross_sats a)) = uint reward"
    and "(\<Sum>a\<leftarrow>accounts. pa_prior_balance a) = (\<Sum>b\<leftarrow>bs. cb_balance_sats b)"
    and "\<forall>a\<in>set accounts. pa_prior_balance a = balance_under (acct_program_key a) bs"
    and "(\<lambda>b. payout_program_key (cb_program b)) ` set bs \<subseteq> set (map acct_program_key accounts)"
proof -
  let ?key = "\<lambda>e. payout_program_key (we_program e)"
  let ?bkey = "\<lambda>b. payout_program_key (cb_program b)"
  from assms obtain settlement gross prior where
    agg: "aggregate_entitlements_by_payout_program es = Inr settlement" and
    gross: "allocate_weighted_amounts reward settlement = Inr gross" and
    prior: "carry_forward_by_payout_program bs = Inr prior" and
    rest: "(case prior_seeds (set (map (\<lambda>(e, _). ?key e) gross)) (bt_values prior) of (seeds, seen') \<Rightarrow>
      rbind (try_map seed_account (map (entitlement_seed prior) gross @ seeds)) (\<lambda>accounts.
        Inr (accounts, seen'))) = Inr (accounts, seen)"
    by (auto simp: policy_accounts_def Let_def)
  define ks where "ks = map (\<lambda>y. ?key (fst y)) gross"
  have "mset ks = mset (map ?key settlement)"
    unfolding ks_def using prism_alloc.alloc_items[OF gross]
    by (metis (no_types, lifting) list.map_comp comp_def map_eq_conv mset_map)
  moreover have "distinct (map ?key settlement)"
    using aggregate_keys(1)[OF agg] by (simp add: strict_sorted_iff)
  ultimately have dks: "distinct ks" by (metis mset_eq_imp_distinct_iff)
  note P = carry_forward_facts[OF prior]
  have dprior: "distinct (map fst prior)" using P(1) by (simp add: bt_ok_def strict_sorted_iff)
  have bkeys: "map ?bkey (map snd prior) = map fst prior" using P(2) by simp
  have dvals: "distinct (map ?bkey (map snd prior))" unfolding bkeys by (rule dprior)
  have paid: "set (map (\<lambda>(e, _). ?key e) gross) = set ks" by (simp add: ks_def case_prod_unfold)
  define seeds where "seeds = map prior_seed (filter (\<lambda>b. ?bkey b \<notin> set ks) (map snd prior))"
  have loop: "prior_seeds (set ks) (bt_values prior) = (seeds, set ks \<union> set (map fst prior))"
    using prior_seeds_distinct[OF dvals, of "set ks"] unfolding bkeys
    by (simp add: bt_values_def bt_entries_def seeds_def)
  from rest loop have accounts: "try_map seed_account (map (entitlement_seed prior) gross @ seeds) = Inr accounts"
    and seen: "seen = set ks \<union> set (map fst prior)" unfolding paid by auto
  have filt: "filter (\<lambda>b. ?bkey b \<notin> set ks) (map snd prior) = map snd (filter (\<lambda>p. fst p \<notin> set ks) prior)"
    using P(2) by (simp add: filter_map comp_def cong: filter_cong)
  have skeys: "map seed_key seeds = map fst (filter (\<lambda>p. fst p \<notin> set ks) prior)"
    unfolding seeds_def filt using P(2) by (simp add: seed_key_def prior_seed_def)
  have gkeys: "map seed_key (map (entitlement_seed prior) gross) = ks"
    by (simp add: ks_def seed_key_def entitlement_seed_def case_prod_unfold)
  note A = try_map_seed[OF accounts]
  show "\<forall>a\<in>set accounts. fresh_account a" by (rule A(1))
  have keys: "map acct_program_key accounts = ks @ map fst (filter (\<lambda>p. fst p \<notin> set ks) prior)"
    using A(2) gkeys skeys by simp
  show "distinct (map acct_program_key accounts)"
    unfolding keys using dks dprior by (auto simp: distinct_map_filter)
  show "seen = set (map acct_program_key accounts)" unfolding keys seen by auto
  have "(\<Sum>a\<leftarrow>accounts. uint (pa_gross_sats a)) = (\<Sum>s\<leftarrow>map (entitlement_seed prior) gross @ seeds. uint (sd_gross_sats s))"
    using A(3) by (metis (no_types, lifting) list.map_comp comp_def map_eq_conv)
  also have "\<dots> = (\<Sum>y\<leftarrow>gross. uint (snd y))"
    by (simp add: seeds_def prior_seed_def entitlement_seed_def case_prod_unfold comp_def sum_list_0)
  also have "\<dots> = uint reward" by (rule prism_alloc.alloc_total[OF gross])
  finally show "(\<Sum>a\<leftarrow>accounts. uint (pa_gross_sats a)) = uint reward" .
  have g: "map sd_prior_balance (map (entitlement_seed prior) gross) =
      map (\<lambda>k. case map_of prior k of None \<Rightarrow> 0 | Some b \<Rightarrow> cb_balance_sats b) ks"
    by (simp add: ks_def entitlement_seed_def case_prod_unfold bt_get_def)
  have s: "map sd_prior_balance seeds =
      map (\<lambda>p. cb_balance_sats (snd p)) (filter (\<lambda>p. fst p \<notin> set ks) prior)"
    unfolding seeds_def filt by (simp add: prior_seed_def)
  have "map (\<lambda>p. cb_balance_sats (snd p)) (filter (\<lambda>p. fst p \<notin> set ks) prior) =
      map (\<lambda>p. balance_under (fst p) bs) (filter (\<lambda>p. fst p \<notin> set ks) prior)"
    using dprior by (auto simp: carry_forward_at(1)[OF prior, symmetric])
  then have "map pa_prior_balance accounts = map (\<lambda>k. balance_under k bs) (map acct_program_key accounts)"
    unfolding A(4) keys map_append g s by (simp add: carry_forward_at(1)[OF prior])
  then show "\<forall>a\<in>set accounts. pa_prior_balance a = balance_under (acct_program_key a) bs" by simp
  have pk: "fst ` set prior \<subseteq> set ks \<union> fst ` {p \<in> set prior. fst p \<notin> set ks}" by auto
  show "(\<lambda>b. payout_program_key (cb_program b)) ` set bs \<subseteq> set (map acct_program_key accounts)"
    using pk unfolding keys carry_forward_at(2)[OF prior, symmetric] by simp
  have "(\<Sum>a\<leftarrow>accounts. pa_prior_balance a) =
      (\<Sum>k\<leftarrow>ks. case map_of prior k of None \<Rightarrow> 0 | Some b \<Rightarrow> cb_balance_sats b) +
      (\<Sum>p\<leftarrow>filter (\<lambda>p. fst p \<notin> set ks) prior. cb_balance_sats (snd p))"
    unfolding A(4) map_append sum_list_append g s ..
  also have "\<dots> = (\<Sum>p\<leftarrow>prior. cb_balance_sats (snd p))" by (rule sum_list_lookup[OF dprior dks])
  finally show "(\<Sum>a\<leftarrow>accounts. pa_prior_balance a) = (\<Sum>b\<leftarrow>bs. cb_balance_sats b)"
    using P(3) by simp
qed

section \<open>Selecting on-chain recipients\<close>

lemma entitlement_key_candidate [simp]: "entitlement_key (candidate_entitlement a) = account_order a"
  by (simp add: entitlement_key_def candidate_entitlement_def account_order_def)

lemma account_matches_iff: "account_matches e a \<longleftrightarrow> account_order a = entitlement_key e"
  by (auto simp: account_matches_def account_order_def entitlement_key_def)

lemma distinct_account_order:
  "distinct (map acct_program_key accounts) \<Longrightarrow> distinct (map account_order accounts)"
  by (auto simp: distinct_map inj_on_def account_order_def acct_program_key_def)

lemma eligible_facts:
  "i \<in> set (eligible_onchain_accounts accounts floor) \<longleftrightarrow>
    i < length accounts \<and> uint floor \<le> pa_candidate_balance (accounts ! i)"
  "distinct (eligible_onchain_accounts accounts floor)"
  by (auto simp: eligible_onchain_accounts_def)

lemma selected_sum_Inr:
  "selected_candidate_balance_sum accounts sel = Inr s \<Longrightarrow>
    uint s = (\<Sum>i\<leftarrow>sel. pa_candidate_balance (accounts ! i))"
proof -
  have "try_fold (\<lambda>sum i.
      rbind (ok_or (u128_try_from_i128 (pa_candidate_balance (accounts ! i))) PayoutPolicyOverflow)
        (\<lambda>balance. ok_or (checked_add sum balance) PayoutPolicyOverflow)) t sel = Inr s \<Longrightarrow>
      uint s = uint t + (\<Sum>i\<leftarrow>sel. pa_candidate_balance (accounts ! i))" for t
    by (induction sel arbitrary: t) (auto simp: u128_try_from_i128_Some checked_add_Some)
  then show "selected_candidate_balance_sum accounts sel = Inr s \<Longrightarrow>
    uint s = (\<Sum>i\<leftarrow>sel. pa_candidate_balance (accounts ! i))"
    unfolding selected_candidate_balance_sum_def by fastforce
qed

lemma candidate_weight:
  "0 \<le> pa_candidate_balance a \<Longrightarrow> pa_candidate_balance a < 2 ^ 127 \<Longrightarrow>
    weight_of (candidate_entitlement a) = pa_candidate_balance a"
  by (simp add: candidate_entitlement_def uint_word_of_int_small)

text \<open>What the selection loop returns: a selection whose allocation stays at the floor or above.\<close>

lemma select_loop_Inr:
  assumes "select_loop accounts v floor sel = Inr r"
  shows "set r \<subseteq> set sel \<and> (distinct sel \<longrightarrow> distinct r) \<and> r \<noteq> [] \<and>
    (\<exists>s. selected_candidate_balance_sum accounts r = Inr s \<and> uint v \<le> uint s) \<and>
    (\<exists>ys. allocate_weighted_amounts v (map (\<lambda>i. candidate_entitlement (accounts ! i)) r) = Inr ys \<and>
      (\<forall>y\<in>set ys. uint floor \<le> uint (snd y)))"
  using assms
proof (induction accounts v floor sel rule: select_loop.induct)
  case (1 accounts v floor sel)
  from "1.prems" obtain s ys where
    ne: "sel \<noteq> []" and s: "selected_candidate_balance_sum accounts sel = Inr s"
    and ge: "\<not> s < u128_of_u64 v"
    and ys: "allocate_weighted_amounts v (map (\<lambda>i. candidate_entitlement (accounts ! i)) sel) = Inr ys"
    and rest: "(let under = under_floor floor ys in if under = [] then Inr sel
      else select_loop accounts v floor
        (filter (\<lambda>i. account_key_of (accounts ! i) \<notin> set under) sel)) = Inr r"
    by (subst (asm) select_loop.simps) (auto split: if_splits)
  show ?case
  proof (cases "under_floor floor ys = []")
    case True
    then have "\<forall>y\<in>set ys. uint floor \<le> uint (snd y)"
      by (auto simp: under_floor_def filter_empty_conv word_le_def linorder_not_less)
    moreover have "uint v \<le> uint s" using ge by (simp add: word_less_def)
    moreover have "r = sel" using True rest by (simp add: Let_def)
    ultimately show ?thesis using ne s ys by auto
  next
    case False
    let ?sel' = "filter (\<lambda>i. account_key_of (accounts ! i) \<notin> set (under_floor floor ys)) sel"
    have "select_loop accounts v floor ?sel' = Inr r" using False rest by (simp add: Let_def)
    from "1.IH"[OF ne s ge ys refl False this] show ?thesis by auto
  qed
qed

section \<open>Paying the selected accounts\<close>

definition paid :: "u64 \<Rightarrow> policy_account \<Rightarrow> policy_account" where
  "paid amount a = a\<lparr>pa_onchain_sats := amount,
    pa_carry_forward := pa_candidate_balance a - uint amount, pa_action := Onchain\<rparr>"

lemma paid_simps [simp]:
  "account_order (paid amount a) = account_order a" "acct_program_key (paid amount a) = acct_program_key a"
  "pa_candidate_balance (paid amount a) = pa_candidate_balance a"
  by (simp_all add: paid_def account_order_def acct_program_key_def)

definition i128_balance :: "policy_account \<Rightarrow> bool" where
  "i128_balance a \<longleftrightarrow> - (2 ^ 127) \<le> pa_candidate_balance a \<and> pa_candidate_balance a < 2 ^ 127"

lemma pay_account_ok:
  "uint amount \<le> pa_candidate_balance a \<Longrightarrow> i128_balance a \<Longrightarrow> pay_account v amount a = Inr (paid amount a)"
proof -
  assume le: "uint amount \<le> pa_candidate_balance a" and ok: "i128_balance a"
  have "0 \<le> uint amount" by simp
  with le ok have "- (2 ^ 127) \<le> pa_candidate_balance a - uint amount \<and>
      pa_candidate_balance a - uint amount < 2 ^ 127" unfolding i128_balance_def by linarith
  then show ?thesis using le by (simp add: pay_account_def paid_def checked_sub_i128_def)
qed

lemma pay_first_ok:
  assumes "distinct (map account_order accounts)" and "a \<in> set accounts"
    and "account_order a = entitlement_key e"
    and "uint amount \<le> pa_candidate_balance a" and "i128_balance a"
  shows "pay_first v e amount accounts =
    Inr (map (\<lambda>x. if account_order x = entitlement_key e then paid amount x else x) accounts)"
  using assms
proof (induction accounts)
  case (Cons b accounts)
  show ?case
  proof (cases "account_order b = entitlement_key e")
    case True
    then have "\<forall>x\<in>set accounts. account_order x \<noteq> entitlement_key e"
      using Cons.prems(1) by (auto simp: image_iff)
    then have "map (\<lambda>x. if account_order x = entitlement_key e then paid amount x else x) accounts = accounts"
      by (simp add: map_idI)
    moreover have "a = b" using Cons.prems(1-3) True by (auto simp: image_iff)
    ultimately show ?thesis using True Cons.prems by (simp add: account_matches_iff pay_account_ok)
  next
    case False
    then show ?thesis using Cons by (auto simp: account_matches_iff)
  qed
qed simp

definition payable :: "u64 \<Rightarrow> policy_account list \<Rightarrow> (weighted_entitlement \<times> u64) list \<Rightarrow> bool" where
  "payable floor accounts amounts \<longleftrightarrow>
    distinct (map (\<lambda>y. entitlement_key (fst y)) amounts) \<and>
    (\<forall>y\<in>set amounts. uint floor \<le> uint (snd y) \<and>
      (\<exists>a\<in>set accounts. account_order a = entitlement_key (fst y) \<and> uint (snd y) \<le> pa_candidate_balance a))"

lemma payable_map:
  assumes "payable floor accounts amounts"
    and "\<And>a. account_order (f a) = account_order a \<and> pa_candidate_balance (f a) = pa_candidate_balance a"
  shows "payable floor (map f accounts) amounts"
  using assms by (auto simp: payable_def)

definition amount_for :: "(weighted_entitlement \<times> u64) list \<Rightarrow> policy_account \<Rightarrow> u64 option" where
  "amount_for amounts a = map_of (map (\<lambda>y. (entitlement_key (fst y), snd y)) amounts) (account_order a)"

definition settled :: "(weighted_entitlement \<times> u64) list \<Rightarrow> policy_account \<Rightarrow> policy_account" where
  "settled amounts a = (case amount_for amounts a of None \<Rightarrow> a | Some amount \<Rightarrow> paid amount a)"

text \<open>The payment loop cannot fail on payable amounts; none of its three errors is reachable.\<close>

lemma pay_onchain_ok:
  assumes "payable floor accounts amounts" and "distinct (map account_order accounts)"
    and "\<forall>a\<in>set accounts. i128_balance a"
  shows "pay_onchain v floor accounts amounts = Inr (map (settled amounts) accounts)"
  using assms
proof (induction amounts arbitrary: accounts)
  case Nil
  have "settled [] = (\<lambda>a. a)" by (rule ext) (simp add: settled_def amount_for_def)
  then show ?case by (simp add: pay_onchain_def)
next
  case (Cons y amounts)
  obtain e amount where y: "y = (e, amount)" by fastforce
  let ?pay = "\<lambda>x. if account_order x = entitlement_key e then paid amount x else x"
  from Cons.prems(1) obtain a where a: "a \<in> set accounts" "account_order a = entitlement_key e"
    "uint amount \<le> pa_candidate_balance a" and fl: "\<not> amount < floor"
    by (auto simp: payable_def y word_less_def)
  have first: "pay_first v e amount accounts = Inr (map ?pay accounts)"
    by (rule pay_first_ok[OF Cons.prems(2) a]) (use Cons.prems(3) a in blast)
  have orders: "map account_order (map ?pay accounts) = map account_order accounts" by simp
  have "payable floor accounts amounts" using Cons.prems(1) by (simp add: payable_def y)
  then have "payable floor (map ?pay accounts) amounts"
    by (rule payable_map) auto
  moreover have "distinct (map account_order (map ?pay accounts))" unfolding orders by (rule Cons.prems(2))
  moreover have "\<forall>a\<in>set (map ?pay accounts). i128_balance a"
    using Cons.prems(3) by (auto simp: i128_balance_def)
  ultimately have IH: "pay_onchain v floor (map ?pay accounts) amounts =
      Inr (map (settled amounts) (map ?pay accounts))" by (rule Cons.IH)
  have "settled amounts (?pay x) = settled (y # amounts) x" if "x \<in> set accounts" for x
  proof -
    have "entitlement_key e \<notin> (\<lambda>y. entitlement_key (fst y)) ` set amounts"
      using Cons.prems(1) by (simp add: payable_def y)
    then have "map_of (map (\<lambda>y. (entitlement_key (fst y), snd y)) amounts) (entitlement_key e) = None"
      by (simp add: map_of_eq_None_iff image_image)
    then show ?thesis by (auto simp: settled_def amount_for_def y)
  qed
  then have "map (settled amounts) (map ?pay accounts) = map (settled (y # amounts)) accounts" by simp
  then show ?case using IH first fl by (simp add: pay_onchain_def y)
qed

end
