(* ===== verification/Policy_Sound.thy ===== *)
theory Policy_Sound
  imports Policy_Facts
begin

text \<open>
  The payout policy as a whole: the amounts chosen are payable, they exhaust the miners'
  reward up to the dust swept to the pool fee, and the manifest conserves every satoshi.
\<close>

section \<open>The fee\<close>

definition fee_earned :: "pool_fee_manifest option \<Rightarrow> int" where
  "fee_earned fee = (case fee of None \<Rightarrow> 0 | Some f \<Rightarrow> uint (pf_earned_sats f))"

definition fee_swept :: "pool_fee_manifest option \<Rightarrow> int" where
  "fee_swept fee = (case fee of None \<Rightarrow> 0 | Some f \<Rightarrow> uint (pf_swept_dust_sats f))"

definition fee_amount :: "pool_fee_manifest option \<Rightarrow> int" where
  "fee_amount fee = (case fee of None \<Rightarrow> 0 | Some f \<Rightarrow> uint (pf_amount_sats f))"

definition fee_wf :: "pool_fee_manifest option \<Rightarrow> bool" where
  "fee_wf fee \<longleftrightarrow> fee_amount fee = fee_earned fee + fee_swept fee"

lemma pool_fee_manifest_facts:
  assumes "pool_fee_manifest_of v p = Inr fee"
  shows "fee_wf fee" and "fee_swept fee = 0"
    and "fee = None \<longleftrightarrow> pp_pool_fee_policy p = None"
    and "fee_earned fee = (case pp_pool_fee_policy p of None \<Rightarrow> 0
      | Some f \<Rightarrow> uint v * uint (fp_fee_bps f) div 10000)"
    and "\<And>f. fee = Some f \<Longrightarrow> (\<exists>q. pp_pool_fee_policy p = Some q \<and> pf_program f = fp_program q)"
proof -
  have bps: "uint (ucast (b :: u16) :: u128) = uint b" for b by (simp add: uint_up_ucast is_up)
  have "fee_wf fee \<and> fee_swept fee = 0 \<and> (fee = None \<longleftrightarrow> pp_pool_fee_policy p = None) \<and>
    fee_earned fee = (case pp_pool_fee_policy p of None \<Rightarrow> 0
      | Some f \<Rightarrow> uint v * uint (fp_fee_bps f) div 10000) \<and>
    (\<forall>f. fee = Some f \<longrightarrow> (\<exists>q. pp_pool_fee_policy p = Some q \<and> pf_program f = fp_program q))"
    using assms
    by (auto simp: pool_fee_manifest_of_def fee_wf_def fee_swept_def fee_amount_def fee_earned_def
        checked_mul_Some u64_try_from_u128_Some uint_div_distrib bps split: option.splits if_splits)
  then show "fee_wf fee" "fee_swept fee = 0" "fee = None \<longleftrightarrow> pp_pool_fee_policy p = None"
    "fee_earned fee = (case pp_pool_fee_policy p of None \<Rightarrow> 0
      | Some f \<Rightarrow> uint v * uint (fp_fee_bps f) div 10000)"
    "\<And>f. fee = Some f \<Longrightarrow> (\<exists>q. pp_pool_fee_policy p = Some q \<and> pf_program f = fp_program q)"
    by auto
qed

lemma add_swept_facts:
  assumes "add_swept_dust_to_pool_fee fee swept = Inr fee'" and "fee_wf fee" 
  shows "fee_wf fee' \<and> fee_swept fee' = fee_swept fee + uint swept \<and>
    fee_earned fee' = fee_earned fee \<and> (fee' = None \<longleftrightarrow> fee = None)"
  using assms
  by (auto simp: add_swept_dust_to_pool_fee_def fee_wf_def fee_swept_def fee_amount_def
      fee_earned_def checked_add_Some split: if_splits option.splits)

section \<open>The amounts\<close>

lemma direct_amounts:
  assumes "try_map (\<lambda>i. rbind (ok_or (u64_try_from_i128 (pa_candidate_balance (accounts ! i))) PayoutPolicyOverflow)
      (\<lambda>amount. Inr
        (\<lparr>we_recipient_id = pa_recipient_id (accounts ! i),
          we_order_key = pa_order_key (accounts ! i), we_program = pa_program (accounts ! i),
          we_weight = u128_of_u64 amount\<rparr>, amount))) ixs = Inr amounts"
  shows "map (\<lambda>y. entitlement_key (fst y)) amounts = map (\<lambda>i. account_order (accounts ! i)) ixs"
    and "map (\<lambda>y. uint (snd y)) amounts = map (\<lambda>i. pa_candidate_balance (accounts ! i)) ixs"
  using assms
  by (induction ixs arbitrary: amounts)
    (auto simp: entitlement_key_def account_order_def u64_try_from_i128_Some)

lemma orders_of_indices:
  assumes "distinct (map account_order accounts)" and "distinct ixs"
    and "\<forall>i\<in>set ixs. i < length accounts"
  shows "distinct (map (\<lambda>i. account_order (accounts ! i)) ixs)"
proof -
  have "inj_on (\<lambda>i. account_order (accounts ! i)) (set ixs)"
    using assms(1,3) by (auto simp: inj_on_def distinct_conv_nth)
  then show ?thesis using assms(2) by (simp add: distinct_map)
qed

lemma mset_map_image:
  "mset (map f xs) = mset ys \<Longrightarrow> mset (map (\<lambda>x. g (f x)) xs) = mset (map g ys)"
  by (metis (no_types, lifting) comp_def list.map_comp map_eq_conv mset_map)

text \<open>What is put on chain is payable and, with the dust newly swept, is the miners' reward.\<close>

lemma onchain_amounts_facts:
  assumes amounts: "onchain_amounts_of accounts reward floor fee = Inr (amounts, fee')"
    and dist: "distinct (map account_order accounts)"
    and bal: "\<forall>a\<in>set accounts. i128_balance a" and wf: "fee_wf fee"
  shows "payable floor accounts amounts"
    and "(\<Sum>y\<leftarrow>amounts. uint (snd y)) + (fee_swept fee' - fee_swept fee) = uint reward"
    and "fee_wf fee'" and "fee_earned fee' = fee_earned fee" and "fee' = None \<longleftrightarrow> fee = None"
    and "fee_swept fee \<le> fee_swept fee'"
proof -
  let ?el = "eligible_onchain_accounts accounts floor"
  let ?cand = "\<lambda>i. candidate_entitlement (accounts ! i)"
  have el_bal: "\<forall>i\<in>set ?el. i < length accounts \<and> uint floor \<le> pa_candidate_balance (accounts ! i)"
    by (simp add: eligible_facts)
  have el_ord: "distinct (map (\<lambda>i. account_order (accounts ! i)) ?el)"
    by (rule orders_of_indices[OF dist eligible_facts(2)]) (simp add: eligible_facts)
  have all: "payable floor accounts amounts \<and>
    (\<Sum>y\<leftarrow>amounts. uint (snd y)) + (fee_swept fee' - fee_swept fee) = uint reward \<and>
    fee_wf fee' \<and> fee_earned fee' = fee_earned fee \<and> (fee' = None \<longleftrightarrow> fee = None) \<and>
    fee_swept fee \<le> fee_swept fee'"
  proof (cases "?el = []")
    case True
    with amounts have "amounts = []" "add_swept_dust_to_pool_fee fee reward = Inr fee'"
      by (auto simp: onchain_amounts_of_def Let_def split: if_splits)
    then show ?thesis using add_swept_facts[OF _ wf] by (auto simp: payable_def)
  next
    case False
    with amounts obtain s where s: "selected_candidate_balance_sum accounts ?el = Inr s"
      by (auto simp: onchain_amounts_of_def Let_def)
    note us = selected_sum_Inr[OF s]
    show ?thesis
    proof (cases "s < u128_of_u64 reward")
      case True
      with amounts False s obtain pd swept where
        pd: "u64_try_from_u128 s = Some pd" and swept: "checked_sub reward pd = Some swept" and
        f': "add_swept_dust_to_pool_fee fee swept = Inr fee'" and
        am: "try_map (\<lambda>i. rbind (ok_or (u64_try_from_i128 (pa_candidate_balance (accounts ! i))) PayoutPolicyOverflow)
          (\<lambda>amount. Inr
            (\<lparr>we_recipient_id = pa_recipient_id (accounts ! i),
              we_order_key = pa_order_key (accounts ! i), we_program = pa_program (accounts ! i),
              we_weight = u128_of_u64 amount\<rparr>, amount))) ?el = Inr amounts"
        by (auto simp: onchain_amounts_of_def Let_def split: if_splits)
      note D = direct_amounts[OF am]
      have "payable floor accounts amounts"
        unfolding payable_def
      proof (intro conjI ballI)
        show "distinct (map (\<lambda>y. entitlement_key (fst y)) amounts)" unfolding D(1) by (rule el_ord)
        fix y assume "y \<in> set amounts"
        then obtain k where k: "k < length amounts" "y = amounts ! k" by (auto simp: in_set_conv_nth)
        have len: "length amounts = length ?el" using am by (rule try_map_length)
        have "entitlement_key (fst y) = account_order (accounts ! (?el ! k))"
          "uint (snd y) = pa_candidate_balance (accounts ! (?el ! k))"
          using k len D by (metis (no_types, lifting) nth_map)+
        moreover have "?el ! k \<in> set ?el" using k len by simp
        ultimately show "uint floor \<le> uint (snd y)"
          and "\<exists>a\<in>set accounts. account_order a = entitlement_key (fst y) \<and> uint (snd y) \<le> pa_candidate_balance a"
          using el_bal by (metis, metis nth_mem order_refl)
      qed
      moreover have "(\<Sum>y\<leftarrow>amounts. uint (snd y)) = uint s" unfolding D(2) us ..
      moreover have "uint s \<le> uint reward" using True by (simp add: word_less_def)
      ultimately show ?thesis using add_swept_facts[OF f' wf] pd swept
        by (simp add: u64_try_from_u128_Some checked_sub_Some)
    next
      case False': False
      with amounts False s obtain em where
        em: "select_onchain_accounts accounts reward floor = Inr em" and
        al: "allocate_weighted_amounts reward (map ?cand em) = Inr amounts" and f': "fee' = fee"
        by (auto simp: onchain_amounts_of_def Let_def split: if_splits)
      note L = select_loop_Inr[OF em[unfolded select_onchain_accounts_def]]
      have em_el: "\<forall>i\<in>set em. i \<in> set ?el" and dem: "distinct em"
        using L eligible_facts(2) by auto
      obtain t where t: "selected_candidate_balance_sum accounts em = Inr t" "uint reward \<le> uint t"
        using L by blast
      have fl: "\<forall>y\<in>set amounts. uint floor \<le> uint (snd y)" using L al by auto
      have wt: "weight_of (?cand i) = pa_candidate_balance (accounts ! i)" if "i \<in> set em" for i
      proof (rule candidate_weight)
        have "0 \<le> uint floor" by simp
        then show "0 \<le> pa_candidate_balance (accounts ! i)"
          using that em_el el_bal by (meson order_trans)
        show "pa_candidate_balance (accounts ! i) < 2 ^ 127"
          using that em_el el_bal bal by (meson i128_balance_def nth_mem)
      qed
      have "total_weight_of (map ?cand em) = uint t"
        unfolding selected_sum_Inr[OF t(1)] using wt by (simp add: comp_def cong: map_cong)
      then have le: "uint reward \<le> total_weight_of (map ?cand em)" using t(2) by simp
      have ms: "mset (map (\<lambda>y. entitlement_key (fst y)) amounts) = mset (map (\<lambda>i. account_order (accounts ! i)) em)"
        using mset_map_image[OF prism_alloc.alloc_items[OF al], of entitlement_key]
        by (simp add: comp_def)
      have "distinct (map (\<lambda>i. account_order (accounts ! i)) em)"
        by (rule orders_of_indices[OF dist dem]) (use em_el el_bal in auto)
      then have "distinct (map (\<lambda>y. entitlement_key (fst y)) amounts)"
        using ms by (metis mset_eq_imp_distinct_iff)
      moreover have "\<exists>a\<in>set accounts. account_order a = entitlement_key (fst y) \<and>
          uint (snd y) \<le> pa_candidate_balance a" if y: "y \<in> set amounts" for y
      proof -
        have "fst y \<in> set (map ?cand em)" using prism_alloc.alloc_set[OF al] y by blast
        then obtain i where i: "i \<in> set em" "fst y = ?cand i" by auto
        then have "uint (snd y) \<le> pa_candidate_balance (accounts ! i)"
          using prism_alloc.alloc_le_weight[OF al y le] wt by simp
        moreover have "accounts ! i \<in> set accounts" using i em_el el_bal by simp
        ultimately show ?thesis using i(2) by auto
      qed
      ultimately have "payable floor accounts amounts" using fl by (simp add: payable_def)
      then show ?thesis using f' wf prism_alloc.alloc_total[OF al] by simp
    qed
  qed
  then show "payable floor accounts amounts"
    "(\<Sum>y\<leftarrow>amounts. uint (snd y)) + (fee_swept fee' - fee_swept fee) = uint reward"
    "fee_wf fee'" "fee_earned fee' = fee_earned fee" "fee' = None \<longleftrightarrow> fee = None"
    "fee_swept fee \<le> fee_swept fee'"
    by simp_all
qed

section \<open>The settled accounts\<close>

lemma settled_simps [simp]:
  "account_order (settled amounts a) = account_order a"
  "acct_program_key (settled amounts a) = acct_program_key a"
  "pa_candidate_balance (settled amounts a) = pa_candidate_balance a"
  "pa_prior_balance (settled amounts a) = pa_prior_balance a"
  "pa_gross_sats (settled amounts a) = pa_gross_sats a"
  "pa_account_type (settled amounts a) = pa_account_type a"
  "pa_settlement_fee_sats (settled amounts a) = pa_settlement_fee_sats a"
  by (auto simp: settled_def paid_def account_order_def acct_program_key_def split: option.splits)

lemma fresh_i128: "fresh_account a \<Longrightarrow> i128_balance a"
  by (simp add: fresh_account_def i128_balance_def)

lemma amount_for_payable:
  assumes "payable floor accounts amounts" and "distinct (map account_order accounts)"
    and "a \<in> set accounts" and "amount_for amounts a = Some x"
  shows "uint floor \<le> uint x" and "uint x \<le> pa_candidate_balance a"
proof -
  obtain y where y: "y \<in> set amounts" "entitlement_key (fst y) = account_order a" "snd y = x"
    using assms(4) by (auto simp: amount_for_def dest!: map_of_SomeD)
  then obtain b where b: "b \<in> set accounts" "account_order b = account_order a"
    "uint x \<le> pa_candidate_balance b" and fl: "uint floor \<le> uint x"
    using assms(1) by (force simp: payable_def)
  have "b = a" using assms(2,3) b(1,2) unfolding distinct_map inj_on_def by blast
  then show "uint floor \<le> uint x" "uint x \<le> pa_candidate_balance a" using b fl by auto
qed

text \<open>What holds of a miner's account once the payments are made.\<close>

definition settled_account :: "u64 \<Rightarrow> policy_account \<Rightarrow> bool" where
  "settled_account floor a \<longleftrightarrow> pa_account_type a = Miner \<and> pa_settlement_fee_sats a = 0 \<and>
    pa_candidate_balance a = pa_prior_balance a + uint (pa_gross_sats a) \<and>
    pa_carry_forward a = pa_candidate_balance a - uint (pa_onchain_sats a) \<and>
    (pa_action a = Accrued \<longrightarrow> pa_onchain_sats a = 0) \<and>
    (pa_action a = Onchain \<longrightarrow> uint floor \<le> uint (pa_onchain_sats a) \<and>
      uint (pa_onchain_sats a) \<le> pa_candidate_balance a)"

lemma settled_account_ok:
  assumes "payable floor accounts amounts" and "distinct (map account_order accounts)"
    and "a \<in> set accounts" and "fresh_account a"
  shows "settled_account floor (settled amounts a)"
  using assms(4) amount_for_payable[OF assms(1-3)]
  by (auto simp: settled_account_def settled_def fresh_account_def paid_def split: option.splits)

lemma settled_onchain_sum:
  assumes "payable floor accounts amounts" and "distinct (map account_order accounts)"
    and "\<forall>a\<in>set accounts. fresh_account a"
  shows "(\<Sum>a\<leftarrow>map (settled amounts) accounts. uint (pa_onchain_sats a)) = (\<Sum>y\<leftarrow>amounts. uint (snd y))"
proof -
  let ?m = "map (\<lambda>y. (entitlement_key (fst y), snd y)) amounts"
  have dm: "distinct (map fst ?m)" using assms(1) by (simp add: payable_def comp_def)
  have "filter (\<lambda>p. fst p \<notin> set (map account_order accounts)) ?m = []"
  proof -
    have "account_order a \<in> set (map account_order accounts)" if "a \<in> set accounts" for a
      using that by simp
    then have "entitlement_key (fst y) \<in> set (map account_order accounts)" if "y \<in> set amounts" for y
      using that assms(1) unfolding payable_def by metis
    then show ?thesis by (auto simp: filter_empty_conv)
  qed
  then have "(\<Sum>k\<leftarrow>map account_order accounts. case map_of ?m k of None \<Rightarrow> 0 | Some v \<Rightarrow> uint v) =
      (\<Sum>p\<leftarrow>?m. uint (snd p))"
    using sum_list_lookup[OF dm assms(2), of uint] by simp
  moreover have "(\<Sum>a\<leftarrow>map (settled amounts) accounts. uint (pa_onchain_sats a)) =
      (\<Sum>k\<leftarrow>map account_order accounts. case map_of ?m k of None \<Rightarrow> 0 | Some v \<Rightarrow> uint v)"
    unfolding list.map_comp
    by (rule arg_cong[of _ _ sum_list], rule map_cong[OF refl])
      (use assms(3) in \<open>auto simp: settled_def amount_for_def fresh_account_def paid_def split: option.splits\<close>)
  ultimately show ?thesis by (simp add: comp_def)
qed

section \<open>The on-chain sum\<close>

lemma onchain_weights:
  "(\<Sum>e\<leftarrow>onchain_entitlements_of accounts. uint (we_weight e)) = (\<Sum>a\<leftarrow>accounts. uint (pa_onchain_sats a))"
proof (induction accounts)
  case (Cons a accounts)
  have "0 < pa_onchain_sats a \<or> uint (pa_onchain_sats a) = 0"
    by (metis unsigned_0 word_gt_0)
  then show ?case using Cons by (auto simp: onchain_entitlements_of_def)
qed (simp add: onchain_entitlements_of_def)

lemma onchain_sum_Inr:
  "onchain_sum_of es = Inr s \<Longrightarrow> uint s = total_weight_of es"
proof -
  have "try_fold (\<lambda>sum e. rbind (ok_or (u64_try_from_u128 (we_weight e)) PayoutPolicyOverflow)
      (\<lambda>w. ok_or (checked_add sum w) PayoutPolicyOverflow)) t es = Inr s \<Longrightarrow>
      uint s = uint t + total_weight_of es" for t
    by (induction es arbitrary: t) (auto simp: u64_try_from_u128_Some checked_add_Some)
  then show "onchain_sum_of es = Inr s \<Longrightarrow> uint s = total_weight_of es"
    unfolding onchain_sum_of_def by fastforce
qed

lemma onchain_sum_ok:
  assumes "total_weight_of es < 2 ^ 64"
  shows "onchain_sum_of es = Inr (word_of_int (total_weight_of es))"
proof -
  have "\<exists>s. try_fold (\<lambda>sum e. rbind (ok_or (u64_try_from_u128 (we_weight e)) PayoutPolicyOverflow)
      (\<lambda>w. ok_or (checked_add sum w) PayoutPolicyOverflow)) t es = Inr s"
    if "uint t + total_weight_of es < 2 ^ 64" for t
    using that
  proof (induction es arbitrary: t)
    case (Cons e es)
    have nn: "0 \<le> total_weight_of es" "0 \<le> uint t" "0 \<le> weight_of e" by simp_all
    with Cons.prems have lt: "weight_of e < 2 ^ 64" "uint t + weight_of e < 2 ^ 64"
      unfolding list.map sum_list.Cons by linarith+
    then obtain w where w: "u64_try_from_u128 (we_weight e) = Some w"
      by (auto simp: u64_try_from_u128_def)
    then have uw: "uint w = weight_of e" by (simp add: u64_try_from_u128_Some)
    obtain t' where t': "checked_add t w = Some t'" using lt uw by (auto simp: checked_add_def)
    then have "uint t' + total_weight_of es < 2 ^ 64"
      using Cons.prems uw by (simp add: checked_add_Some)
    from Cons.IH[OF this] show ?case using w t' by simp
  qed simp
  from this[of 0] assms obtain s where s: "onchain_sum_of es = Inr s"
    unfolding onchain_sum_of_def by auto
  then have "uint s = total_weight_of es" by (rule onchain_sum_Inr)
  then have "s = word_of_int (total_weight_of es)" by (metis word_of_int_uint)
  with s show ?thesis by simp
qed

section \<open>The whole policy\<close>

text \<open>
  Everything the policy does after the accounts and the amounts are known: no payment
  fails, and the final sum check passes.
\<close>

lemma policy_tail:
  assumes acc: "policy_accounts reward es bs = Inr (accounts, seen)"
    and am: "onchain_amounts_of accounts reward floor fee = Inr (amounts, fee')"
    and wf: "fee_wf fee" "fee_swept fee = 0" and total: "uint v = uint reward + fee_earned fee"
  defines "miners \<equiv> map (settled amounts) accounts"
  shows "pay_onchain v floor accounts amounts = Inr miners"
    and "\<forall>a\<in>set miners. settled_account floor a"
    and "(\<Sum>a\<leftarrow>miners. uint (pa_onchain_sats a)) + fee_swept fee' = uint reward"
    and "push_fee_account seen fee' miners = Inr all \<Longrightarrow>
      all = miners @ (case fee' of None \<Rightarrow> [] | Some f \<Rightarrow> [fee_account f]) \<and>
      distinct (map acct_program_key all) \<and>
      onchain_sum_of (onchain_entitlements_of all) = Inr v"
proof -
  note A = policy_accounts_facts[OF acc]
  have dist: "distinct (map account_order accounts)" by (rule distinct_account_order[OF A(2)])
  have bal: "\<forall>a\<in>set accounts. i128_balance a" using A(1) fresh_i128 by blast
  note F = onchain_amounts_facts[OF am dist bal wf(1)]
  show "pay_onchain v floor accounts amounts = Inr miners"
    unfolding miners_def by (rule pay_onchain_ok[OF F(1) dist bal])
  show "\<forall>a\<in>set miners. settled_account floor a"
    unfolding miners_def using settled_account_ok[OF F(1) dist] A(1) by auto
  show sum: "(\<Sum>a\<leftarrow>miners. uint (pa_onchain_sats a)) + fee_swept fee' = uint reward"
    unfolding miners_def settled_onchain_sum[OF F(1) dist A(1)] using F(2) wf(2) by simp
  assume push: "push_fee_account seen fee' miners = Inr all"
  have all: "all = miners @ (case fee' of None \<Rightarrow> [] | Some f \<Rightarrow> [fee_account f])"
    using push by (auto simp: push_fee_account_def split: option.splits if_splits)
  have keys: "map acct_program_key miners = map acct_program_key accounts"
    by (simp add: miners_def)
  have "distinct (map acct_program_key all)"
    using push A(2,3) keys unfolding all
    by (auto simp: push_fee_account_def fee_account_def acct_program_key_def split: option.splits if_splits)
  moreover have "(\<Sum>a\<leftarrow>all. uint (pa_onchain_sats a)) = uint v"
    using sum F(3,4) total wf
    by (auto simp: all fee_wf_def fee_amount_def fee_earned_def fee_swept_def fee_account_def split: option.splits)
  then have "total_weight_of (onchain_entitlements_of all) = uint v" by (simp only: onchain_weights)
  then have "onchain_sum_of (onchain_entitlements_of all) = Inr v"
    using onchain_sum_ok[of "onchain_entitlements_of all"] by (simp add: u64_bound_num)
  ultimately show "all = miners @ (case fee' of None \<Rightarrow> [] | Some f \<Rightarrow> [fee_account f]) \<and>
      distinct (map acct_program_key all) \<and> onchain_sum_of (onchain_entitlements_of all) = Inr v"
    using all by simp
qed

text \<open>The parts of a successful run.\<close>

lemma apply_policy_parts:
  assumes "apply_payout_policy rm bs p = Inr m"
  obtains floor fee reward accounts seen amounts fee' where
    "min_output_sats p = Inr floor" "pool_fee_manifest_of (rm_coinbase_value rm) p = Inr fee"
    "uint (rm_coinbase_value rm) = uint reward + fee_earned fee" "uint floor \<le> uint reward"
    "policy_accounts reward (rm_entitlements rm) bs = Inr (accounts, seen)"
    "onchain_amounts_of accounts reward floor fee = Inr (amounts, fee')"
    "push_fee_account seen fee' (map (settled amounts) accounts) =
      Inr (map (settled amounts) accounts @ (case fee' of None \<Rightarrow> [] | Some f \<Rightarrow> [fee_account f]))"
    "py_accounts m = sort_key account_order
      (map (settled amounts) accounts @ (case fee' of None \<Rightarrow> [] | Some f \<Rightarrow> [fee_account f]))"
    "py_onchain_entitlements m = onchain_entitlements_of
      (map (settled amounts) accounts @ (case fee' of None \<Rightarrow> [] | Some f \<Rightarrow> [fee_account f]))"
    "py_pool_fee m = fee'" "py_min_output_sats m = floor" "py_coinbase_value m = rm_coinbase_value rm"
    "py_coinbase_output_policy m = pp_coinbase_output_policy p"
    "py_coinbase_output_policy m = PoolFeeFirst \<Longrightarrow> fee \<noteq> None"
proof -
  from assms obtain floor fee reward accounts seen amounts fee' paid all s where
    floor: "min_output_sats p = Inr floor" and
    fee: "pool_fee_manifest_of (rm_coinbase_value rm) p = Inr fee" and
    pff: "\<not> (pp_coinbase_output_policy p = PoolFeeFirst \<and> fee = None)" and
    reward: "checked_sub (rm_coinbase_value rm) (case fee of None \<Rightarrow> 0 | Some f \<Rightarrow> pf_amount_sats f) = Some reward" and
    ge: "\<not> reward < floor" and
    acc: "policy_accounts reward (rm_entitlements rm) bs = Inr (accounts, seen)" and
    am: "onchain_amounts_of accounts reward floor fee = Inr (amounts, fee')" and
    pay: "pay_onchain (rm_coinbase_value rm) floor accounts amounts = Inr paid" and
    push: "push_fee_account seen fee' paid = Inr all" and
    m: "m = \<lparr>py_schema = policy_schema, py_block_height = rm_block_height rm,
       py_coinbase_value = rm_coinbase_value rm, py_min_output_sats = floor,
       py_floor_formula = floor_formula p,
       py_coinbase_output_policy = pp_coinbase_output_policy p, py_pool_fee = fee',
       py_accounts = sort_key account_order all, py_onchain_entitlements = onchain_entitlements_of all\<rparr>"
    by (auto simp: apply_payout_policy_def Let_def split: if_splits)
  note fee_facts = pool_fee_manifest_facts[OF fee]
  have amount: "uint (case fee of None \<Rightarrow> 0 | Some f \<Rightarrow> pf_amount_sats f) = fee_earned fee"
    using fee_facts(1,2) by (auto simp: fee_wf_def fee_amount_def fee_earned_def split: option.splits)
  have total: "uint (rm_coinbase_value rm) = uint reward + fee_earned fee"
    using reward amount by (simp add: checked_sub_Some)
  note T = policy_tail[OF acc am fee_facts(1,2) total]
  have paid: "paid = map (settled amounts) accounts" using T(1) pay by simp
  note T4 = T(4)[OF push[unfolded paid]]
  have le: "uint floor \<le> uint reward" using ge by (simp add: word_less_def)
  show thesis
    by (rule that[OF floor fee total le acc am])
      (use push T4 m paid pff in auto)
qed

lemma miners_of_all:
  assumes "\<forall>a\<in>set accounts. fresh_account a"
  shows "filter (\<lambda>a. pa_account_type a = Miner)
      (map (settled amounts) accounts @ (case fee of None \<Rightarrow> [] | Some f \<Rightarrow> [fee_account f])) =
    map (settled amounts) accounts"
proof -
  have "filter (\<lambda>a. pa_account_type a = Miner) (map (settled amounts) accounts) = map (settled amounts) accounts"
    using assms by (auto simp: filter_id_conv fresh_account_def)
  then show ?thesis by (simp add: fee_account_def split: option.splits)
qed

lemma sum_filter_sort:
  "(\<Sum>x\<leftarrow>filter P (sort_key k xs). f x) = (\<Sum>x\<leftarrow>filter P xs. f x)" for f :: "'a \<Rightarrow> int"
  by (rule sum_list_map_mset_eq) (simp add: mset_filter)

section \<open>Errors\<close>

text \<open>The errors the policy can return; \<open>Panic\<close> and \<open>PayoutBelowFloor\<close> are not among them.\<close>

definition policy_error :: "prism_error \<Rightarrow> bool" where
  "policy_error e = (case e of
      Panic _ \<Rightarrow> False
    | PayoutBelowFloor _ _ _ \<Rightarrow> False
    | _ \<Rightarrow> True)"

lemma checked_sum_policy_error: "checked_sum PayoutPolicyOverflow f xs = Inl e \<Longrightarrow> policy_error e"
  by (simp add: checked_sum_Inl policy_error_def)

lemma try_map_Inl: "try_map f xs = Inl e \<Longrightarrow> \<exists>x\<in>set xs. f x = Inl e"
  by (induction xs) (auto simp: rbind_Inl)

lemma try_fold_Inl: "try_fold f s xs = Inl e \<Longrightarrow> \<exists>x\<in>set xs. \<exists>t. f t x = Inl e"
proof (induction xs arbitrary: s)
  case (Cons x xs)
  from Cons.prems consider "f s x = Inl e" | s' where "try_fold f s' xs = Inl e"
    by (auto simp: rbind_Inl)
  then show ?case using Cons.IH by cases (auto intro: exI[of _ s])
qed simp

lemma bt_group_Inl: "bt_group key d step m xs = Inl e \<Longrightarrow> \<exists>x\<in>set xs. \<exists>v. step x v = Inl e"
  unfolding bt_group_def bt_entry_def by (drule try_fold_Inl) (auto simp: rbind_Inl)

lemma allocate_Inl: "allocate_weighted_amounts T es = Inl e \<Longrightarrow> policy_error e"
  by (auto simp: allocate_weighted_amounts_def Let_def rbind_Inl bump_at_def provisional_share_def
      bump_amount_def policy_error_def checked_sum_Inl split: if_splits prod.splits
      dest!: try_map_Inl try_fold_Inl)

lemma selected_sum_Inl: "selected_candidate_balance_sum accounts sel = Inl e \<Longrightarrow> policy_error e"
  by (auto simp: selected_candidate_balance_sum_def rbind_Inl policy_error_def dest!: try_fold_Inl)

lemma select_loop_Inl: "select_loop accounts v floor sel = Inl e \<Longrightarrow> policy_error e"
proof (induction accounts v floor sel rule: select_loop.induct)
  case (1 accounts v floor sel)
  note run = "1.prems"[unfolded select_loop.simps[of accounts v floor sel]]
  show ?case
  proof (cases "selected_candidate_balance_sum accounts sel")
    case (Inl e')
    then show ?thesis using run by (auto simp: policy_error_def dest: selected_sum_Inl split: if_splits)
  next
    case s: (Inr s)
    show ?thesis
    proof (cases "allocate_weighted_amounts v (map (\<lambda>i. candidate_entitlement (accounts ! i)) sel)")
      case (Inl e')
      then show ?thesis using run s by (auto simp: policy_error_def dest: allocate_Inl split: if_splits)
    next
      case ys: (Inr ys)
      show ?thesis
      proof (cases "sel = [] \<or> s < u128_of_u64 v \<or> under_floor floor ys = []")
        case True
        then show ?thesis using run s ys by (auto simp: policy_error_def Let_def split: if_splits)
      next
        case False
        then show ?thesis using run s ys "1.IH"[OF _ s _ ys refl] by (simp add: Let_def)
      qed
    qed
  qed
qed

lemma add_swept_Inl: "add_swept_dust_to_pool_fee fee swept = Inl e \<Longrightarrow> policy_error e"
  by (auto simp: add_swept_dust_to_pool_fee_def rbind_Inl policy_error_def split: if_splits)

lemma onchain_amounts_Inl: "onchain_amounts_of accounts reward floor fee = Inl e \<Longrightarrow> policy_error e"
  by (auto simp: onchain_amounts_of_def select_onchain_accounts_def Let_def rbind_Inl split: if_splits
      dest: selected_sum_Inl add_swept_Inl select_loop_Inl allocate_Inl dest!: try_map_Inl)
    (simp_all add: policy_error_def)

lemma policy_accounts_Inl: "policy_accounts reward es bs = Inl e \<Longrightarrow> policy_error e"
  by (auto simp: policy_accounts_def aggregate_entitlements_by_payout_program_def
      carry_forward_by_payout_program_def Let_def rbind_Inl seed_account_def merge_entitlement_def
      merge_carry_def case_prod_unfold split: if_splits dest: allocate_Inl dest!: try_map_Inl bt_group_Inl)
    (simp_all add: policy_error_def)

end
