(* ===== verification/Maturity.thy ===== *)
theory Maturity
  imports Policy_Sound
begin

text \<open>
  The maturity ledger of \<open>qbit-prism/src/lib.rs\<close>: the entries a block's policy manifest
  adds, their maturing with the tip, the reversal of disconnected blocks, and the replay of
  the active entries into carry-forward balances.  The step relation says how the entries
  evolve; what it preserves is proved by rule induction.
\<close>

section \<open>Operations\<close>

definition maturity_entry_of :: "string \<Rightarrow> u64 \<Rightarrow> policy_account \<Rightarrow> maturity_entry" where
  "maturity_entry_of block_hash block_height a =
    \<lparr>me_block_hash = block_hash, me_block_height = block_height, me_account_type = pa_account_type a,
     me_recipient_id = pa_recipient_id a, me_order_key = pa_order_key a, me_program = pa_program a,
     me_gross_sats = pa_gross_sats a, me_prior_balance = pa_prior_balance a,
     me_candidate_balance = pa_candidate_balance a, me_onchain_sats = pa_onchain_sats a,
     me_settlement_fee_sats = pa_settlement_fee_sats a, me_carry_forward = pa_carry_forward a,
     me_action = pa_action a, me_state = Immature\<rparr>"

definition build_maturity_entries :: "string \<Rightarrow> u64 \<Rightarrow> policy_manifest \<Rightarrow> maturity_entry list" where
  "build_maturity_entries block_hash block_height m =
    map (maturity_entry_of block_hash block_height) (py_accounts m)"

definition matures_at :: "maturity_entry \<Rightarrow> u64" where
  "matures_at e = saturating_add (me_block_height e) QBIT_COINBASE_MATURITY_BLOCKS"

definition update_entry :: "u64 \<Rightarrow> maturity_entry \<Rightarrow> maturity_entry" where
  "update_entry active_tip_height e =
    (if me_state e = Immature \<and> matures_at e \<le> active_tip_height then e\<lparr>me_state := Mature\<rparr> else e)"

definition update_maturity_states :: "maturity_entry list \<Rightarrow> u64 \<Rightarrow> maturity_entry list" where
  "update_maturity_states entries active_tip_height = map (update_entry active_tip_height) entries"

definition reverse_entry :: "string list \<Rightarrow> u64 \<Rightarrow> maturity_entry \<Rightarrow> prism_error + maturity_entry" where
  "reverse_entry hashes active_tip_height e =
    (if me_block_hash e \<in> set hashes then
       if matures_at e \<le> active_tip_height then Inl (MaturePayoutDisconnect (me_block_hash e))
       else (case me_state e of
           Immature \<Rightarrow> Inr (e\<lparr>me_state := Reversed\<rparr>)
         | Mature \<Rightarrow> Inl (MaturePayoutDisconnect (me_block_hash e))
         | Reversed \<Rightarrow> Inr e)
     else Inr e)"

definition reverse_disconnected_blocks ::
  "maturity_entry list \<Rightarrow> string list \<Rightarrow> u64 \<Rightarrow> prism_error + maturity_entry list" where
  "reverse_disconnected_blocks entries hashes active_tip_height =
    try_map (reverse_entry hashes active_tip_height) entries"

subsection \<open>Replay\<close>

definition replayed :: "maturity_entry \<Rightarrow> bool" where
  "replayed e \<longleftrightarrow> \<not> (me_state e = Reversed \<or> me_account_type e = PoolFee)"

definition empty_balance :: "maturity_entry \<Rightarrow> carry_forward_balance" where
  "empty_balance e = \<lparr>cb_recipient_id = me_recipient_id e, cb_order_key = me_order_key e,
    cb_program = me_program e, cb_balance_sats = 0\<rparr>"

definition replay_entry :: "maturity_entry \<Rightarrow> carry_forward_balance \<Rightarrow> prism_error + carry_forward_balance" where
  "replay_entry e balance =
    rbind (ok_or (checked_sub_i128 (uint (me_gross_sats e)) (uint (me_onchain_sats e)))
        (Panic ''u64 on-chain amount always fits i128'')) (\<lambda>delta_sats.
    let balance = (if (me_order_key e, me_recipient_id e) < (cb_order_key balance, cb_recipient_id balance)
      then balance\<lparr>cb_recipient_id := me_recipient_id e, cb_order_key := me_order_key e\<rparr> else balance) in
    rbind (ok_or (checked_add_i128 (cb_balance_sats balance) delta_sats)
        (Panic ''carry-forward delta replay should not overflow i128'')) (\<lambda>total.
    Inr (balance\<lparr>cb_balance_sats := total\<rparr>)))"

definition current_carry_forward_balances ::
  "maturity_entry list \<Rightarrow> prism_error + carry_forward_balance list" where
  "current_carry_forward_balances entries =
    rbind (bt_group (\<lambda>e. payout_program_key (me_program e)) empty_balance replay_entry []
             (filter replayed entries)) (\<lambda>balances.
    Inr (filter (\<lambda>b. cb_balance_sats b \<noteq> 0) (bt_values balances)))"

definition owed_balances_for_display ::
  "maturity_entry list \<Rightarrow> prism_error + carry_forward_balance list" where
  "owed_balances_for_display entries =
    rbind (current_carry_forward_balances entries) (\<lambda>balances.
    Inr (map (\<lambda>b. b\<lparr>cb_balance_sats := max (cb_balance_sats b) 0\<rparr>) balances))"

lemmas maturity_evals [evals] = maturity_entry_of_def build_maturity_entries_def matures_at_def
  update_entry_def update_maturity_states_def reverse_entry_def reverse_disconnected_blocks_def
  replayed_def empty_balance_def replay_entry_def current_carry_forward_balances_def
  owed_balances_for_display_def

section \<open>How the ledger evolves\<close>

text \<open>
  A block with a new hash is connected, the tip moves, or blocks are disconnected.
\<close>

inductive ledger_step :: "maturity_entry list \<Rightarrow> maturity_entry list \<Rightarrow> bool" where
  connect: "hash \<notin> me_block_hash ` set entries \<Longrightarrow>
    ledger_step entries (entries @ build_maturity_entries hash height m)"
| tip: "ledger_step entries (update_maturity_states entries tip)"
| disconnect: "reverse_disconnected_blocks entries hashes tip = Inr entries' \<Longrightarrow> ledger_step entries entries'"

inductive_cases ledger_stepE: "ledger_step s t"

section \<open>Reversal\<close>

definition reversal_allowed :: "u64 \<Rightarrow> maturity_entry \<Rightarrow> bool" where
  "reversal_allowed tip e \<longleftrightarrow> \<not> matures_at e \<le> tip \<and> me_state e \<noteq> Mature"

definition reversed :: "string list \<Rightarrow> maturity_entry \<Rightarrow> maturity_entry" where
  "reversed hashes e = (if me_block_hash e \<in> set hashes then e\<lparr>me_state := Reversed\<rparr> else e)"

lemma reverse_entry_Inr:
  "reverse_entry hashes tip e = Inr e' \<longleftrightarrow>
    (me_block_hash e \<in> set hashes \<longrightarrow> reversal_allowed tip e) \<and> e' = reversed hashes e"
  by (cases e) (auto simp: reverse_entry_def reversal_allowed_def reversed_def split: maturity_state.splits)

lemma reverse_Inr:
  "reverse_disconnected_blocks entries hashes tip = Inr entries' \<longleftrightarrow>
    (\<forall>e\<in>set entries. me_block_hash e \<in> set hashes \<longrightarrow> reversal_allowed tip e) \<and>
    entries' = map (reversed hashes) entries"
  unfolding reverse_disconnected_blocks_def try_map_Inr list_all2_conv_all_nth reverse_entry_Inr
  by (auto simp: all_set_conv_all_nth intro: nth_equalityI)

lemma reverse_entry_Inl:
  "reverse_entry hashes tip x = Inl e \<Longrightarrow> me_block_hash x \<in> set hashes \<and> \<not> reversal_allowed tip x \<and>
    e = MaturePayoutDisconnect (me_block_hash x)"
  by (cases "me_state x") (auto simp: reverse_entry_def reversal_allowed_def split: if_splits)

lemma reverse_Inl:
  "reverse_disconnected_blocks entries hashes tip = Inl e \<Longrightarrow>
    \<exists>x\<in>set entries. me_block_hash x \<in> set hashes \<and> \<not> reversal_allowed tip x \<and>
      e = MaturePayoutDisconnect (me_block_hash x)"
  unfolding reverse_disconnected_blocks_def using reverse_entry_Inl by (blast dest: try_map_Inl)

section \<open>What never changes, and what is final\<close>

text \<open>An entry changes its state only, and only from immature.\<close>

definition evolves :: "maturity_entry \<Rightarrow> maturity_entry \<Rightarrow> bool" where
  "evolves e e' \<longleftrightarrow> e' = e\<lparr>me_state := me_state e'\<rparr> \<and> (me_state e = Immature \<or> me_state e' = me_state e)"

lemma evolves_refl [simp]: "evolves e e"
  by (simp add: evolves_def)

lemma evolves_trans: "evolves a b \<Longrightarrow> evolves b c \<Longrightarrow> evolves a c"
  unfolding evolves_def by (cases a; cases b; cases c) auto

lemma evolves_update: "evolves e (update_entry tip e)"
  by (simp add: evolves_def update_entry_def)

lemma evolves_reversed:
  "me_block_hash e \<in> set hashes \<longrightarrow> reversal_allowed tip e \<Longrightarrow> evolves e (reversed hashes e)"
  by (cases "me_state e") (auto simp: evolves_def reversed_def reversal_allowed_def)

definition extends :: "maturity_entry list \<Rightarrow> maturity_entry list \<Rightarrow> bool" where
  "extends s t \<longleftrightarrow> (\<exists>u v. t = u @ v \<and> list_all2 evolves s u)"

lemma extends_refl: "extends s s"
  unfolding extends_def by (intro exI[of _ s] exI[of _ "[]"]) (simp add: list_all2_refl)

lemma extends_trans:
  assumes "extends r s" and "extends s t"
  shows "extends r t"
proof -
  obtain u v where u: "s = u @ v" "list_all2 evolves r u" using assms(1) by (auto simp: extends_def)
  obtain x y where x: "t = x @ y" "list_all2 evolves s x" using assms(2) by (auto simp: extends_def)
  obtain x1 x2 where "x = x1 @ x2" "list_all2 evolves u x1" "list_all2 evolves v x2"
    using x(2) unfolding u(1) by (auto simp: list_all2_append1)
  then show ?thesis
    using x(1) list_all2_trans[of evolves evolves evolves, OF evolves_trans u(2)] unfolding extends_def
    by (intro exI[of _ x1] exI[of _ "x2 @ y"]) auto
qed

lemma step_extends: "ledger_step s t \<Longrightarrow> extends s t"
proof (induction rule: ledger_step.induct)
  case (connect hash entries height m)
  then show ?case unfolding extends_def by (intro exI[of _ entries] exI) (auto simp: list_all2_refl)
next
  case (tip entries tip)
  then show ?case unfolding extends_def update_maturity_states_def
    by (intro exI[of _ "map (update_entry tip) entries"] exI[of _ "[]"])
      (simp add: list_all2_conv_all_nth evolves_update)
next
  case (disconnect entries hashes tip entries')
  then show ?case unfolding extends_def reverse_Inr
    by (intro exI[of _ entries'] exI[of _ "[]"]) (auto simp: list_all2_conv_all_nth intro: evolves_reversed)
qed

lemma steps_extend: "ledger_step\<^sup>*\<^sup>* s t \<Longrightarrow> extends s t"
  by (induction rule: rtranclp_induct) (auto intro: extends_refl extends_trans step_extends)

subsection \<open>A block matures, or is reversed, as a whole\<close>

definition uniform_blocks :: "maturity_entry list \<Rightarrow> bool" where
  "uniform_blocks s \<longleftrightarrow> (\<forall>x\<in>set s. \<forall>y\<in>set s. me_block_hash x = me_block_hash y \<longrightarrow>
    me_block_height x = me_block_height y \<and> me_state x = me_state y)"

lemma uniform_map:
  assumes "uniform_blocks s"
    and "\<And>e. me_block_hash (f e) = me_block_hash e \<and> me_block_height (f e) = me_block_height e"
    and "\<And>x y. me_block_hash x = me_block_hash y \<Longrightarrow> me_block_height x = me_block_height y \<Longrightarrow>
      me_state x = me_state y \<Longrightarrow> me_state (f x) = me_state (f y)"
  shows "uniform_blocks (map f s)"
  unfolding uniform_blocks_def set_map
proof (intro ballI impI; elim imageE)
  fix x y a b
  assume h: "me_block_hash x = me_block_hash y" and ab: "x = f a" "a \<in> set s" "y = f b" "b \<in> set s"
  then have "me_block_hash a = me_block_hash b" using assms(2)[of a] assms(2)[of b] by simp
  then have "me_block_height a = me_block_height b \<and> me_state a = me_state b"
    using assms(1)[unfolded uniform_blocks_def] ab by blast
  then show "me_block_height x = me_block_height y \<and> me_state x = me_state y"
    using assms(2)[of a] assms(2)[of b] assms(3)[of a b] \<open>me_block_hash a = me_block_hash b\<close> ab by simp
qed

lemma uniform_connect:
  assumes "hash \<notin> me_block_hash ` set s" and "uniform_blocks s"
  shows "uniform_blocks (s @ build_maturity_entries hash height m)"
proof -
  have new: "me_block_hash e = hash \<and> me_block_height e = height \<and> me_state e = Immature"
    if "e \<in> set (build_maturity_entries hash height m)" for e
  proof -
    from that obtain a where "e = maturity_entry_of hash height a"
      unfolding build_maturity_entries_def set_map by (rule imageE)
    then show ?thesis by (simp add: maturity_entry_of_def)
  qed
  show ?thesis unfolding uniform_blocks_def
  proof (intro ballI impI)
    fix x y assume xy: "x \<in> set (s @ build_maturity_entries hash height m)"
      "y \<in> set (s @ build_maturity_entries hash height m)" "me_block_hash x = me_block_hash y"
    have old: "me_block_hash e \<noteq> hash" if "e \<in> set s" for e using assms(1) that by blast
    consider "x \<in> set s" "y \<in> set s"
      | "x \<in> set (build_maturity_entries hash height m)" "y \<in> set (build_maturity_entries hash height m)"
      using xy(1,2) old[of x] old[of y] new[of x] new[of y] xy(3) unfolding set_append Un_iff by argo
    then show "me_block_height x = me_block_height y \<and> me_state x = me_state y"
    proof cases
      case 1
      then show ?thesis using assms(2)[unfolded uniform_blocks_def] xy(3) by blast
    next
      case 2
      then show ?thesis using new by metis
    qed
  qed
qed

lemma step_uniform: "ledger_step s t \<Longrightarrow> uniform_blocks s \<Longrightarrow> uniform_blocks t"
proof (induction rule: ledger_step.induct)
  case (connect hash entries height m)
  then show ?case by (rule uniform_connect)
next
  case (tip entries tip)
  show ?case unfolding update_maturity_states_def
  proof (rule uniform_map[OF tip.prems])
    show "me_block_hash (update_entry tip e) = me_block_hash e \<and>
        me_block_height (update_entry tip e) = me_block_height e" for e
      by (simp add: update_entry_def)
    show "me_state (update_entry tip x) = me_state (update_entry tip y)"
      if "me_block_height x = me_block_height y" "me_state x = me_state y" for x y
      using that by (simp add: update_entry_def matures_at_def)
  qed
next
  case (disconnect entries hashes tip entries')
  have "uniform_blocks (map (reversed hashes) entries)"
    by (rule uniform_map[OF disconnect.prems]) (auto simp: reversed_def)
  then show ?case using disconnect.hyps unfolding reverse_Inr by blast
qed

lemma reachable_uniform: "ledger_step\<^sup>*\<^sup>* [] s \<Longrightarrow> uniform_blocks s"
proof (induction rule: rtranclp_induct)
  case base
  then show ?case by (simp add: uniform_blocks_def)
next
  case (step s t)
  then show ?case by (blast intro: step_uniform)
qed

section \<open>What the replay computes\<close>

definition entry_delta :: "maturity_entry \<Rightarrow> int" where
  "entry_delta e = uint (me_gross_sats e) - uint (me_onchain_sats e)"

definition active_sum :: "string \<Rightarrow> maturity_entry list \<Rightarrow> int" where
  "active_sum k entries =
    (\<Sum>e\<leftarrow>filter (\<lambda>e. replayed e \<and> payout_program_key (me_program e) = k) entries. entry_delta e)"

lemma active_sum_append: "active_sum k (xs @ ys) = active_sum k xs + active_sum k ys"
  by (simp add: active_sum_def)

lemma delta_range: "\<bar>entry_delta e\<bar> < 2 ^ 64"
  using u64_bound[of "me_gross_sats e"] u64_bound[of "me_onchain_sats e"]
    uint_nonneg[of "me_gross_sats e"] uint_nonneg[of "me_onchain_sats e"]
  unfolding entry_delta_def by linarith

lemma delta_fits: "checked_sub_i128 (uint (me_gross_sats e)) (uint (me_onchain_sats e)) = Some (entry_delta e)"
proof -
  have "- (2 ^ 127) \<le> entry_delta e \<and> entry_delta e < 2 ^ 127" using delta_range[of e] by auto
  then show ?thesis by (simp add: checked_sub_i128_def entry_delta_def)
qed

lemma replay_entry_Inr:
  "replay_entry e b = Inr b' \<Longrightarrow> cb_balance_sats b' = cb_balance_sats b + entry_delta e \<and> cb_program b' = cb_program b"
  by (auto simp: replay_entry_def delta_fits Let_def checked_add_i128_Some split: if_splits)

lemma sorted_wrt_map_filter: "sorted_wrt R (map f xs) \<Longrightarrow> sorted_wrt R (map f (filter P xs))"
  by (induction xs) auto

lemma sum_one_key:
  "distinct (map fst m) \<Longrightarrow> (\<Sum>p\<leftarrow>filter (\<lambda>p. fst p = k) m. f (snd p)) =
    (case map_of m k of None \<Rightarrow> 0 | Some v \<Rightarrow> f v)" for f :: "'v \<Rightarrow> int"
proof (induction m)
  case (Cons p m)
  have "filter (\<lambda>q. fst q = fst p) m = []" using Cons.prems by (auto simp: filter_empty_conv rev_image_eqI)
  then show ?case using Cons by (cases p) auto
qed simp

lemma replay_entry_total:
  "checked_add_i128 (cb_balance_sats b) (entry_delta e) = Some t \<Longrightarrow> \<exists>b'. replay_entry e b = Inr b'"
  by (cases "(me_order_key e, me_recipient_id e) < (cb_order_key b, cb_recipient_id b)")
    (simp_all add: replay_entry_def delta_fits Let_def del: less_prod_simp)

lemma replay_at:
  assumes "current_carry_forward_balances entries = Inr bs"
  shows "sorted_wrt (<) (map (\<lambda>b. payout_program_key (cb_program b)) bs)"
    and "\<forall>b\<in>set bs. cb_balance_sats b \<noteq> 0"
    and "balance_under k bs = active_sum k entries"
proof -
  from assms obtain m where
    m: "bt_group (\<lambda>e. payout_program_key (me_program e)) empty_balance replay_entry [] (filter replayed entries) = Inr m"
    and bs: "bs = filter (\<lambda>b. cb_balance_sats b \<noteq> 0) (map snd m)"
    by (auto simp: current_carry_forward_balances_def bt_values_def bt_entries_def)
  show "\<forall>b\<in>set bs. cb_balance_sats b \<noteq> 0" by (simp add: bs)
  have ok: "bt_ok m" by (rule bt_group_ok[OF m]) (simp add: bt_ok_def)
  have keys: "\<forall>p\<in>set m. payout_program_key (cb_program (snd p)) = fst p"
    by (rule bt_group_values[OF m, of "\<lambda>k v. payout_program_key (cb_program v) = k"])
      (auto simp: empty_balance_def dest: replay_entry_Inr)
  then have mk: "map (\<lambda>b. payout_program_key (cb_program b)) (map snd m) = map fst m" by simp
  have "sorted_wrt (<) (map (\<lambda>b. payout_program_key (cb_program b)) (map snd m))"
    unfolding mk using ok by (simp add: bt_ok_def)
  then show "sorted_wrt (<) (map (\<lambda>b. payout_program_key (cb_program b)) bs)"
    unfolding bs by (rule sorted_wrt_map_filter)
  have d: "distinct (map fst m)" using ok by (simp add: bt_ok_def strict_sorted_iff)
  have "(case bt_get m k of None \<Rightarrow> 0 | Some b \<Rightarrow> cb_balance_sats b) =
    (case bt_get ([] :: (string, carry_forward_balance) btree) k of None \<Rightarrow> 0 | Some b \<Rightarrow> cb_balance_sats b) +
    (\<Sum>e\<leftarrow>filter (\<lambda>e. payout_program_key (me_program e) = k) (filter replayed entries). entry_delta e)"
    by (rule bt_group_sum_at[OF m, where g = cb_balance_sats and w = entry_delta])
      (auto simp: bt_ok_def empty_balance_def dest: replay_entry_Inr)
  then have lookup: "(case map_of m k of None \<Rightarrow> 0 | Some b \<Rightarrow> cb_balance_sats b) = active_sum k entries"
    by (simp add: bt_get_def active_sum_def conj_commute)
  have "balance_under k bs = (\<Sum>p\<leftarrow>filter (\<lambda>p. fst p = k) m. cb_balance_sats (snd p))"
  proof -
    have nz: "(\<Sum>b\<leftarrow>filter P (filter (\<lambda>b. cb_balance_sats b \<noteq> 0) xs). cb_balance_sats b) =
        (\<Sum>b\<leftarrow>filter P xs. cb_balance_sats b)" for P and xs :: "carry_forward_balance list"
      by (induction xs) auto
    have "filter (\<lambda>b. payout_program_key (cb_program b) = k) (map snd m) = map snd (filter (\<lambda>p. fst p = k) m)"
      using keys by (simp add: filter_map comp_def cong: filter_cong)
    then show ?thesis unfolding balance_under_def bs nz by (simp add: comp_def)
  qed
  also have "\<dots> = (case map_of m k of None \<Rightarrow> 0 | Some b \<Rightarrow> cb_balance_sats b)"
    by (rule sum_one_key[OF d])
  finally show "balance_under k bs = active_sum k entries" unfolding lookup .
qed

text \<open>Fewer than \<open>2 ^ 63\<close> entries cannot overflow.\<close>

lemma replay_total:
  assumes "int (length xs) \<le> n" and "\<forall>p\<in>set m. \<bar>cb_balance_sats (snd p)\<bar> \<le> (2 ^ 63 - n) * 2 ^ 64"
    and "n \<le> 2 ^ 63"
  shows "\<exists>m'. bt_group key empty_balance replay_entry m xs = Inr m'"
  using assms
proof (induction xs arbitrary: m n)
  case (Cons e xs)
  let ?b = "case bt_get m (key e) of None \<Rightarrow> empty_balance e | Some b \<Rightarrow> b"
  have n: "0 < n" using Cons.prems(1) by simp
  have b: "\<bar>cb_balance_sats ?b\<bar> \<le> (2 ^ 63 - n) * 2 ^ 64"
    using Cons.prems(2,3) by (auto simp: bt_get_def empty_balance_def split: option.splits dest!: map_of_SomeD)
  have step: "\<bar>cb_balance_sats ?b + entry_delta e\<bar> \<le> (2 ^ 63 - (n - 1)) * 2 ^ 64"
    using b delta_range[of e] by (simp add: algebra_simps)
  also have "\<dots> \<le> 2 ^ 127" using n by (simp add: algebra_simps)
  finally have "\<bar>cb_balance_sats ?b + entry_delta e\<bar> \<le> 2 ^ 127" .
  moreover have "\<bar>cb_balance_sats ?b + entry_delta e\<bar> < 2 ^ 127"
    using b delta_range[of e] n by (simp add: algebra_simps)
  ultimately have fits: "checked_add_i128 (cb_balance_sats ?b) (entry_delta e) = Some (cb_balance_sats ?b + entry_delta e)"
    by (auto simp: checked_add_i128_def abs_less_iff)
  obtain b' where b': "replay_entry e ?b = Inr b'" using replay_entry_total[OF fits] by blast
  have "\<forall>p\<in>set (bt_put (key e) b' m). \<bar>cb_balance_sats (snd p)\<bar> \<le> (2 ^ 63 - (n - 1)) * 2 ^ 64"
    using Cons.prems(2) step replay_entry_Inr[OF b'] by (fastforce dest: set_bt_put simp: algebra_simps)
  then have "\<exists>m'. bt_group key empty_balance replay_entry (bt_put (key e) b' m) xs = Inr m'"
    using Cons.prems(1,3) by (intro Cons.IH[of "n - 1"]) auto
  then show ?case using b' by (simp add: bt_group_Cons)
qed simp

end
