(* ===== verification/Policy_Properties.thy ===== *)
theory Policy_Properties
  imports Policy_Sound
begin

text \<open>
  The properties of the integer-satoshi allocation and of the payout policy, each with a
  concrete instance.
\<close>

section \<open>Allocation\<close>

definition sample_entitlement :: "string \<Rightarrow> string \<Rightarrow> u128 \<Rightarrow> weighted_entitlement" where
  "sample_entitlement r p w = \<lparr>we_recipient_id = r, we_order_key = r, we_program = p, we_weight = w\<rparr>"

definition sample_split :: "(weighted_entitlement \<times> u64) list" where
  "sample_split = [(sample_entitlement ''a'' ''aa'' 1, 34), (sample_entitlement ''b'' ''bb'' 1, 33),
    (sample_entitlement ''c'' ''cc'' 1, 33)]"

lemma sample_split_ok:
  "allocate_weighted_amounts 100 [sample_entitlement ''b'' ''bb'' 1, sample_entitlement ''c'' ''cc'' 1,
    sample_entitlement ''a'' ''aa'' 1] = Inr sample_split"
  by code_simp

text \<open>
  C28: An allocation pays the total exactly, over exactly the entitlements given, and pays
  each the integer part of its exact share or one satoshi more, the latter only when the
  share is fractional; an entitlement of larger weight is never paid less.
\<close>

theorem allocation_exact:
  assumes "allocate_weighted_amounts T es = Inr ys"
  shows "(\<Sum>y\<leftarrow>ys. uint (snd y)) = uint T \<and> mset (map fst ys) = mset es \<and>
    (y \<in> set ys \<longrightarrow>
      uint (snd y) - uint T * weight_of (fst y) div total_weight_of es \<in>
        (if uint T * weight_of (fst y) mod total_weight_of es = 0 then {0} else {0, 1})) \<and>
    (y \<in> set ys \<and> z \<in> set ys \<and> weight_of (fst y) < weight_of (fst z) \<longrightarrow>
      uint (snd y) \<le> uint (snd z))"
  using prism_alloc.alloc_total[OF assms] prism_alloc.alloc_items[OF assms]
    prism_alloc.alloc_quota[OF assms, of y] allocate_monotone[OF assms, of y z]
  by auto

theorem allocation_exact_witness:
  "(\<Sum>y\<leftarrow>sample_split. uint (snd y)) = 100 \<and>
    uint (snd (sample_split ! 0)) - 100 * 1 div 3 \<in> {0, 1}"
  using allocation_exact[OF sample_split_ok, of "sample_split ! 0" "sample_split ! 0"]
  by (simp add: sample_split_def sample_entitlement_def)

text \<open>
  An allocation succeeds whenever the weights have a positive total and no product of
  the total and a weight exceeds \<open>u128\<close>; the bumps of the remainder pass never overflow.
\<close>

theorem allocation_succeeds:
  assumes "0 < total_weight_of es" and "total_weight_of es < 2 ^ 128"
    and "\<forall>e\<in>set es. uint T * weight_of e < 2 ^ 128"
  shows "\<exists>ys. allocate_weighted_amounts T es = Inr ys"
  using assms by (rule allocate_succeeds)

theorem allocation_succeeds_witness:
  "\<exists>ys. allocate_weighted_amounts 7 [sample_entitlement ''a'' ''aa'' 5] = Inr ys"
  by (rule allocation_succeeds) (simp_all add: sample_entitlement_def)

section \<open>The payout policy\<close>

definition sample_reward :: "u64 \<Rightarrow> weighted_entitlement list \<Rightarrow> reward_manifest" where
  "sample_reward value es =
    \<lparr>rm_schema = ''s'', rm_block_height = 10, rm_coinbase_value = value, rm_network_difficulty = 1,
     rm_window_multiplier = 8, rm_requested_weight = 8, rm_counted_weight = 8,
     rm_anchor_job_issued_at_ms = 7, rm_anchor_share_seq = 3, rm_newest_share_seq = 3,
     rm_oldest_share_seq = 2, rm_cut = None, rm_included_share_count = 2,
     rm_share_slice_digest_hex = ''d'', rm_shares = [], rm_entitlements = es\<rparr>"

definition sample_policy :: "u64 \<Rightarrow> payout_policy" where
  "sample_policy floor =
    \<lparr>pp_spend_input_bytes = 1, pp_target_feerate = 1, pp_safety_multiplier = 1,
     pp_min_output_sats = Some floor,
     pp_pool_fee_policy = Some \<lparr>fp_fee_bps = 200, fp_recipient_id = ''pool'', fp_order_key = ''p'',
       fp_program = ''ff''\<rparr>,
     pp_coinbase_output_policy = PoolFeeFirst\<rparr>"

definition sample_carry :: "carry_forward_balance list" where
  "sample_carry = [\<lparr>cb_recipient_id = ''b'', cb_order_key = ''b'', cb_program = ''BB'', cb_balance_sats = 3\<rparr>]"

definition sample_manifest :: policy_manifest where
  "sample_manifest = projr (apply_payout_policy
    (sample_reward 1000 [sample_entitlement ''a'' ''aa'' 970, sample_entitlement ''b'' ''bb'' 10])
    sample_carry (sample_policy 50))"

lemma sample_manifest_ok:
  "apply_payout_policy
    (sample_reward 1000 [sample_entitlement ''a'' ''aa'' 970, sample_entitlement ''b'' ''bb'' 10])
    sample_carry (sample_policy 50) = Inr sample_manifest"
proof -
  have "\<not> isl (apply_payout_policy
    (sample_reward 1000 [sample_entitlement ''a'' ''aa'' 970, sample_entitlement ''b'' ''bb'' 10])
    sample_carry (sample_policy 50))" by code_simp
  then show ?thesis unfolding sample_manifest_def by simp
qed

lemma policy_onchain_sound:
  assumes "apply_payout_policy rm bs p = Inr m"
  shows "(\<Sum>e\<leftarrow>py_onchain_entitlements m. uint (we_weight e)) = uint (rm_coinbase_value rm) \<and>
    filter (\<lambda>e. we_weight e = 0) (py_onchain_entitlements m) = [] \<and>
    distinct (map (\<lambda>e. payout_program_key (we_program e)) (py_onchain_entitlements m))"
  using assms
proof (rule apply_policy_parts)
  fix floor fee reward accounts seen amounts fee'
  let ?all = "map (settled amounts) accounts @ (case fee' of None \<Rightarrow> [] | Some f \<Rightarrow> [fee_account f])"
  assume fee: "pool_fee_manifest_of (rm_coinbase_value rm) p = Inr fee"
    and total: "uint (rm_coinbase_value rm) = uint reward + fee_earned fee"
    and acc: "policy_accounts reward (rm_entitlements rm) bs = Inr (accounts, seen)"
    and am: "onchain_amounts_of accounts reward floor fee = Inr (amounts, fee')"
    and push: "push_fee_account seen fee' (map (settled amounts) accounts) = Inr ?all"
    and on: "py_onchain_entitlements m = onchain_entitlements_of ?all"
  note T = policy_tail(4)[OF acc am pool_fee_manifest_facts(1,2)[OF fee] total push]
  have sum: "total_weight_of (onchain_entitlements_of ?all) = uint (rm_coinbase_value rm)"
    using T onchain_sum_Inr by metis
  have pos: "filter (\<lambda>e. we_weight e = 0) (onchain_entitlements_of ?all) = []"
    by (auto simp: onchain_entitlements_of_def filter_empty_conv word_uint_eq_iff word_less_def)
  have "map (\<lambda>e. payout_program_key (we_program e)) (onchain_entitlements_of ?all) =
      map acct_program_key (filter (\<lambda>a. 0 < pa_onchain_sats a) ?all)"
    by (simp add: onchain_entitlements_of_def acct_program_key_def comp_def)
  then have "distinct (map (\<lambda>e. payout_program_key (we_program e)) (onchain_entitlements_of ?all))"
    using T by (metis distinct_map_filter)
  with sum pos show ?thesis unfolding on by blast
qed

text \<open>
  The coinbase is spent exactly: the on-chain entitlements sum to the coinbase value,
  each is positive, and no payout program is paid twice.
\<close>

theorem policy_pays_coinbase:
  assumes "apply_payout_policy rm bs p = Inr m"
  shows "(\<Sum>e\<leftarrow>py_onchain_entitlements m. uint (we_weight e)) = uint (rm_coinbase_value rm) \<and>
    filter (\<lambda>e. we_weight e = 0) (py_onchain_entitlements m) = [] \<and>
    distinct (map (\<lambda>e. payout_program_key (we_program e)) (py_onchain_entitlements m))"
  using assms by (rule policy_onchain_sound)

theorem policy_pays_coinbase_witness:
  "(\<Sum>e\<leftarrow>py_onchain_entitlements sample_manifest. uint (we_weight e)) = 1000"
  using policy_pays_coinbase[OF sample_manifest_ok] by (simp add: sample_reward_def)

text \<open>
  C2: No satoshi is created or lost.  The pool fee is the floor of its basis points plus the
  dust swept to it; the miners' gross amounts share the rest of the coinbase; and the
  balances carried on are the prior balances plus the gross amounts less what was put on
  chain, so in total they are the prior balances plus the swept dust.
\<close>

theorem policy_conserves:
  assumes "apply_payout_policy rm bs p = Inr m"
  shows "let miners = filter (\<lambda>a. pa_account_type a = Miner) (py_accounts m) in
    (\<Sum>a\<leftarrow>miners. uint (pa_gross_sats a)) + fee_earned (py_pool_fee m) = uint (rm_coinbase_value rm) \<and>
    (\<Sum>a\<leftarrow>miners. uint (pa_onchain_sats a)) + fee_amount (py_pool_fee m) = uint (rm_coinbase_value rm) \<and>
    (\<Sum>a\<leftarrow>miners. pa_prior_balance a) = (\<Sum>b\<leftarrow>bs. cb_balance_sats b) \<and>
    (\<Sum>a\<leftarrow>miners. pa_carry_forward a) = (\<Sum>b\<leftarrow>bs. cb_balance_sats b) + fee_swept (py_pool_fee m) \<and>
    fee_amount (py_pool_fee m) = fee_earned (py_pool_fee m) + fee_swept (py_pool_fee m) \<and>
    fee_earned (py_pool_fee m) = (case pp_pool_fee_policy p of None \<Rightarrow> 0
      | Some f \<Rightarrow> uint (rm_coinbase_value rm) * uint (fp_fee_bps f) div 10000)"
  using assms
proof (rule apply_policy_parts)
  fix floor fee reward accounts seen amounts fee'
  let ?all = "map (settled amounts) accounts @ (case fee' of None \<Rightarrow> [] | Some f \<Rightarrow> [fee_account f])"
  let ?miners = "map (settled amounts) accounts"
  assume fee: "pool_fee_manifest_of (rm_coinbase_value rm) p = Inr fee"
    and total: "uint (rm_coinbase_value rm) = uint reward + fee_earned fee"
    and acc: "policy_accounts reward (rm_entitlements rm) bs = Inr (accounts, seen)"
    and am: "onchain_amounts_of accounts reward floor fee = Inr (amounts, fee')"
    and accounts: "py_accounts m = sort_key account_order ?all"
    and pf: "py_pool_fee m = fee'"
  note A = policy_accounts_facts[OF acc]
  note ff = pool_fee_manifest_facts[OF fee]
  note T = policy_tail(1-3)[OF acc am ff(1,2) total]
  have dist: "distinct (map account_order accounts)" by (rule distinct_account_order[OF A(2)])
  have bal: "\<forall>a\<in>set accounts. i128_balance a" using A(1) fresh_i128 by blast
  note F = onchain_amounts_facts[OF am dist bal ff(1)]
  have miners: "(\<Sum>a\<leftarrow>filter (\<lambda>a. pa_account_type a = Miner) (py_accounts m). f a) = (\<Sum>a\<leftarrow>?miners. f a)"
    for f :: "policy_account \<Rightarrow> int"
    unfolding accounts sum_filter_sort miners_of_all[OF A(1)] ..
  have gross: "(\<Sum>a\<leftarrow>?miners. uint (pa_gross_sats a)) = uint reward" using A(4) by (simp add: comp_def)
  have prior: "(\<Sum>a\<leftarrow>?miners. pa_prior_balance a) = (\<Sum>b\<leftarrow>bs. cb_balance_sats b)"
    using A(5) by (simp add: comp_def)
  have "(\<Sum>a\<leftarrow>?miners. pa_carry_forward a) =
      (\<Sum>a\<leftarrow>?miners. pa_prior_balance a + uint (pa_gross_sats a) - uint (pa_onchain_sats a))"
    using T(2) by (intro arg_cong[of _ _ sum_list] map_cong[OF refl]) (metis settled_account_def)
  also have "\<dots> = (\<Sum>a\<leftarrow>?miners. pa_prior_balance a) + (\<Sum>a\<leftarrow>?miners. uint (pa_gross_sats a)) -
      (\<Sum>a\<leftarrow>?miners. uint (pa_onchain_sats a))"
    by (simp only: sum_list_addf sum_list_subtractf)
  finally have carry: "(\<Sum>a\<leftarrow>?miners. pa_carry_forward a) = (\<Sum>b\<leftarrow>bs. cb_balance_sats b) + fee_swept fee'"
    using gross prior T(3) by linarith
  show ?thesis
    unfolding Let_def miners pf
    using gross prior carry T(3) total F(3,4) ff(4) by (simp add: fee_wf_def)
qed

theorem policy_conserves_witness:
  "(\<Sum>a\<leftarrow>filter (\<lambda>a. pa_account_type a = Miner) (py_accounts sample_manifest). pa_carry_forward a) =
    3 + fee_swept (py_pool_fee sample_manifest) \<and>
    fee_earned (py_pool_fee sample_manifest) = 20"
  using policy_conserves[OF sample_manifest_ok]
  by (simp add: Let_def sample_carry_def sample_reward_def sample_policy_def)



text \<open>
  C36: The policy never panics and never reports a payment under the floor: the lookup of a
  selected account always finds it, and the guard on the amount is dead.
\<close>

theorem policy_never_panics:
  "apply_payout_policy rm bs p \<noteq> Inl (Panic s) \<and>
    apply_payout_policy rm bs p \<noteq> Inl (PayoutBelowFloor r a f)"
proof -
  have "policy_error e" if run: "apply_payout_policy rm bs p = Inl e" for e
  proof (rule ccontr)
    assume bad: "\<not> policy_error e"
    then have e: "(\<exists>s. e = Panic s) \<or> (\<exists>r a f. e = PayoutBelowFloor r a f)"
      by (auto simp: policy_error_def split: prism_error.splits)
    from run e bad obtain floor fee reward accounts seen amounts fee' where
      fee: "pool_fee_manifest_of (rm_coinbase_value rm) p = Inr fee" and
      reward: "checked_sub (rm_coinbase_value rm) (case fee of None \<Rightarrow> 0 | Some f \<Rightarrow> pf_amount_sats f) = Some reward" and
      acc: "policy_accounts reward (rm_entitlements rm) bs = Inr (accounts, seen)" and
      am: "onchain_amounts_of accounts reward floor fee = Inr (amounts, fee')" and
      tail: "rbind (pay_onchain (rm_coinbase_value rm) floor accounts amounts) (\<lambda>paid.
        rbind (push_fee_account seen fee' paid) (\<lambda>all.
        rbind (onchain_sum_of (onchain_entitlements_of all)) (\<lambda>s.
        if s \<noteq> rm_coinbase_value rm then Inl PayoutPolicyOverflow else Inr ()))) = Inl e"
      by (auto simp: apply_payout_policy_def rbind_Inl Let_def min_output_sats_def
          pool_fee_manifest_of_def split: if_splits option.splits
          dest: policy_accounts_Inl onchain_amounts_Inl)
    note ff = pool_fee_manifest_facts[OF fee]
    have "uint (case fee of None \<Rightarrow> 0 | Some f \<Rightarrow> pf_amount_sats f) = fee_earned fee"
      using ff(1,2) by (auto simp: fee_wf_def fee_amount_def fee_earned_def split: option.splits)
    then have total: "uint (rm_coinbase_value rm) = uint reward + fee_earned fee"
      using reward by (simp add: checked_sub_Some)
    note T = policy_tail[OF acc am ff(1,2) total]
    show False
    proof (cases "push_fee_account seen fee' (map (settled amounts) accounts)")
      case (Inl d)
      then have "e = d" using tail T(1) by simp
      then show False using Inl e by (auto simp: push_fee_account_def split: option.splits if_splits)
    next
      case (Inr all)
      have "onchain_sum_of (onchain_entitlements_of all) = Inr (rm_coinbase_value rm)"
        using T(4)[OF Inr] by blast
      then show False using tail T(1) Inr by simp
    qed
  qed
  then show ?thesis by (auto simp: policy_error_def)
qed

section \<open>The floor loop\<close>

text \<open>
  A pass of the selection drops every account whose share is under the floor, not the smallest
  of them: two equal accounts that could each be paid the whole coinbase value at the floor are
  dropped together, and the selection fails although paying either one would satisfy every
  guard.
\<close>

definition even_account :: "string \<Rightarrow> policy_account" where
  "even_account r = \<lparr>pa_account_type = Miner, pa_recipient_id = r, pa_order_key = r, pa_program = r, pa_gross_sats = 5, pa_prior_balance = 5,
    pa_candidate_balance = 10, pa_onchain_sats = 0, pa_settlement_fee_sats = 0, pa_carry_forward = 10, pa_action = Accrued\<rparr>"

lemma floor_drops_everyone:
  "select_onchain_accounts [even_account ''a'', even_account ''b''] 10 10 = Inl NoOnchainRecipients"
proof -
  have e: "eligible_onchain_accounts [even_account ''a'', even_account ''b''] 10 = [0, 1]" by code_simp
  have s: "selected_candidate_balance_sum [even_account ''a'', even_account ''b''] [0, 1] = Inr 20" by code_simp
  have a: "allocate_weighted_amounts 10 (map (\<lambda>i. candidate_entitlement ([even_account ''a'', even_account ''b''] ! i)) [0, 1]) =
     Inr [(candidate_entitlement (even_account ''a''), 5), (candidate_entitlement (even_account ''b''), 5)]" by code_simp
  have u: "under_floor 10 [(candidate_entitlement (even_account ''a''), 5), (candidate_entitlement (even_account ''b''), 5)] =
    map account_key_of [even_account ''a'', even_account ''b'']" by code_simp
  show ?thesis
    unfolding select_onchain_accounts_def e
    by (subst select_loop.simps) (simp add: s[simplified] a[simplified] u Let_def select_loop.simps[of _ _ _ "[]"] u128_of_u64_def)
qed

end
