(* ===== verification/Maturity_Properties.thy ===== *)
theory Maturity_Properties
  imports Maturity Policy_Properties
begin

text \<open>
  The properties of the maturity ledger, and of the loop it closes with the payout policy:
  the balances replayed after a block are the ones the block's policy manifest announced.
\<close>

section \<open>The entries\<close>

definition sample_block_entries :: "maturity_entry list" where
  "sample_block_entries = build_maturity_entries ''h1'' 10 sample_manifest"

text \<open>
  However the ledger evolves, an entry never loses its place, only its state changes,
  and matured and reversed are final.
\<close>

theorem ledger_entries_final:
  assumes "ledger_step\<^sup>*\<^sup>* s t" and "i < length s"
  shows "i < length t \<and> t ! i = (s ! i)\<lparr>me_state := me_state (t ! i)\<rparr> \<and>
    (me_state (s ! i) = Immature \<or> me_state (t ! i) = me_state (s ! i))"
proof -
  from steps_extend[OF assms(1)] obtain u v where t: "t = u @ v" and u: "list_all2 evolves s u"
    by (auto simp: extends_def)
  have i: "i < length u" "evolves (s ! i) (u ! i)"
    using u assms(2) by (auto simp: list_all2_conv_all_nth)
  then have "t ! i = u ! i" by (simp add: t nth_append)
  with i show ?thesis by (simp add: t evolves_def)
qed

definition sample_entry :: maturity_entry where
  "sample_entry = maturity_entry_of ''h'' 10 (fee_account
      \<lparr>pf_fee_bps = 0, pf_earned_sats = 1, pf_swept_dust_sats = 0, pf_amount_sats = 1,
       pf_recipient_id = ''p'', pf_order_key = ''p'', pf_program = ''aa''\<rparr>)"

theorem ledger_entries_final_witness:
  "me_gross_sats (update_maturity_states [sample_entry] 2000 ! 0) = 1 \<and>
    me_state (update_maturity_states [sample_entry] 2000 ! 0) = Mature"
proof -
  define t where "t = update_maturity_states [sample_entry] 2000"
  have "ledger_step\<^sup>*\<^sup>* [sample_entry] t" unfolding t_def by (rule r_into_rtranclp) (rule ledger_step.tip)
  from ledger_entries_final[OF this, of 0] have "t ! 0 = sample_entry\<lparr>me_state := me_state (t ! 0)\<rparr>" by simp
  then have "me_gross_sats (t ! 0) = me_gross_sats (sample_entry\<lparr>me_state := me_state (t ! 0)\<rparr>)" by (rule arg_cong)
  also have "\<dots> = 1" by (simp add: sample_entry_def maturity_entry_of_def fee_account_def)
  finally have "me_gross_sats (t ! 0) = 1" .
  moreover have "me_state (t ! 0) = Mature" unfolding t_def by code_simp
  ultimately show ?thesis unfolding t_def ..
qed

text \<open>
  In every ledger reached from the empty one a block is treated as a whole: its entries
  share their height, and they are all immature, all mature or all reversed.
\<close>

theorem blocks_are_atomic:
  assumes "ledger_step\<^sup>*\<^sup>* [] s" and "x \<in> set s" and "y \<in> set s" and "me_block_hash x = me_block_hash y"
  shows "me_block_height x = me_block_height y \<and> me_state x = me_state y"
  using reachable_uniform[OF assms(1)] assms(2-4) unfolding uniform_blocks_def by blast

theorem blocks_are_atomic_witness:
  "me_block_height (sample_block_entries ! 0) = me_block_height (sample_block_entries ! 1) \<and>
    me_state (sample_block_entries ! 0) = me_state (sample_block_entries ! 1)"
proof (rule blocks_are_atomic)
  have "length (py_accounts sample_manifest) = 3" unfolding sample_manifest_def by code_simp
  then have len: "length sample_block_entries = 3"
    by (simp add: sample_block_entries_def build_maturity_entries_def)
  have "ledger_step [] ([] @ sample_block_entries)"
    unfolding sample_block_entries_def by (rule ledger_step.connect) simp
  then show "ledger_step\<^sup>*\<^sup>* [] sample_block_entries" by (simp add: r_into_rtranclp)
  show "sample_block_entries ! 0 \<in> set sample_block_entries" "sample_block_entries ! 1 \<in> set sample_block_entries"
    using len by simp_all
  show "me_block_hash (sample_block_entries ! 0) = me_block_hash (sample_block_entries ! 1)"
    using len by (simp add: sample_block_entries_def build_maturity_entries_def maturity_entry_of_def)
qed

section \<open>Disconnecting\<close>

text \<open>
  Disconnecting succeeds exactly when no entry of the named blocks has matured, by its
  state or by the height of the tip; then it reverses those entries and touches no other.
  When it fails, it names a block whose entry has matured.
\<close>

theorem reversal_exact:
  "(case reverse_disconnected_blocks entries hashes tip of
      Inr entries' \<Rightarrow>
        filter (\<lambda>e. me_block_hash e \<in> set hashes \<and> (matures_at e \<le> tip \<or> me_state e = Mature)) entries = [] \<and>
        entries' = map (\<lambda>e. if me_block_hash e \<in> set hashes then e\<lparr>me_state := Reversed\<rparr> else e) entries
    | Inl err \<Rightarrow> (\<exists>e\<in>set entries. me_block_hash e \<in> set hashes \<and>
        (matures_at e \<le> tip \<or> me_state e = Mature) \<and> err = MaturePayoutDisconnect (me_block_hash e)))"
proof (cases "reverse_disconnected_blocks entries hashes tip")
  case (Inl err)
  then show ?thesis using reverse_Inl[OF Inl] by (auto simp: reversal_allowed_def)
next
  case (Inr entries')
  have "reversed hashes = (\<lambda>e. if me_block_hash e \<in> set hashes then e\<lparr>me_state := Reversed\<rparr> else e)"
    by (auto simp: reversed_def)
  then show ?thesis using Inr[unfolded reverse_Inr] Inr
    by (auto simp: filter_empty_conv reversal_allowed_def)
qed

text \<open>
  Connecting a block and disconnecting it before it matures leaves the balances exactly
  as they were, the identities shown for them included.
\<close>

theorem disconnect_undoes_connect:
  assumes "hash \<notin> me_block_hash ` set entries"
    and "tip < saturating_add height QBIT_COINBASE_MATURITY_BLOCKS"
  shows "\<exists>entries'. reverse_disconnected_blocks (entries @ build_maturity_entries hash height m) [hash] tip =
      Inr entries' \<and>
    current_carry_forward_balances entries' = current_carry_forward_balances entries \<and>
    owed_balances_for_display entries' = owed_balances_for_display entries"
proof -
  let ?new = "build_maturity_entries hash height m"
  have new: "me_block_hash e = hash \<and> reversal_allowed tip e" if "e \<in> set ?new" for e
  proof -
    from that obtain a where "e = maturity_entry_of hash height a"
      unfolding build_maturity_entries_def set_map by (rule imageE)
    then show ?thesis using assms(2) by (simp add: maturity_entry_of_def reversal_allowed_def matures_at_def)
  qed
  have old: "map (reversed [hash]) entries = entries"
    using assms(1) by (intro map_idI) (auto simp: reversed_def)
  have run: "reverse_disconnected_blocks (entries @ ?new) [hash] tip = Inr (map (reversed [hash]) (entries @ ?new))"
    using assms(1) new unfolding reverse_Inr by auto
  have "filter replayed (map (reversed [hash]) ?new) = []"
    using new by (auto simp: filter_empty_conv reversed_def replayed_def)
  then have "current_carry_forward_balances (map (reversed [hash]) (entries @ ?new)) =
      current_carry_forward_balances entries"
    by (simp add: current_carry_forward_balances_def old)
  with run show ?thesis by (auto simp: owed_balances_for_display_def)
qed

theorem disconnect_undoes_connect_witness:
  "\<exists>entries'. reverse_disconnected_blocks ([] @ build_maturity_entries ''h1'' 10 sample_manifest) [''h1''] 20 =
      Inr entries' \<and> current_carry_forward_balances entries' = current_carry_forward_balances []"
  using disconnect_undoes_connect[of "''h1''" "[]" 20 10 sample_manifest]
  by (auto simp: saturating_add_def QBIT_COINBASE_MATURITY_BLOCKS_def word_less_def)

section \<open>The balances\<close>

text \<open>
  Replay gives each payout program what its active miner entries earned less what they
  were paid on chain, leaves out zero balances, and lists the programs in order, each once;
  it cannot overflow with fewer than 2^63 entries.
\<close>

theorem replay_exact:
  assumes "length entries < 2 ^ 63"
  shows "\<exists>bs. current_carry_forward_balances entries = Inr bs \<and>
    (\<forall>k. balance_under k bs = active_sum k entries) \<and>
    sorted_wrt (<) (map (\<lambda>b. payout_program_key (cb_program b)) bs) \<and>
    filter (\<lambda>b. cb_balance_sats b = 0) bs = []"
proof -
  have "length (filter replayed entries) < 2 ^ 63" by (rule le_less_trans[OF length_filter_le assms])
  then have "int (length (filter replayed entries)) < int (2 ^ 63)" by (simp only: of_nat_less_iff)
  then have "int (length (filter replayed entries)) \<le> 2 ^ 63" by simp
  then obtain m where
    "bt_group (\<lambda>e. payout_program_key (me_program e)) empty_balance replay_entry [] (filter replayed entries) = Inr m"
    using replay_total[of "filter replayed entries" "2 ^ 63" "[]"] by auto
  then obtain bs where bs: "current_carry_forward_balances entries = Inr bs"
    by (simp add: current_carry_forward_balances_def)
  then show ?thesis using replay_at[OF bs] by (auto simp: filter_empty_conv)
qed

theorem replay_exact_witness:
  "\<exists>bs. current_carry_forward_balances sample_block_entries = Inr bs"
proof -
  have "length (py_accounts sample_manifest) = 3" unfolding sample_manifest_def by code_simp
  then have "length sample_block_entries < 2 ^ 63"
    by (simp add: sample_block_entries_def build_maturity_entries_def)
  from replay_exact[OF this] show ?thesis by blast
qed

lemma filter_one_key: "distinct (map f xs) \<Longrightarrow> x \<in> set xs \<Longrightarrow> filter (\<lambda>y. f y = f x) xs = [x]"
proof (induction xs)
  case (Cons y ys)
  show ?case
  proof (cases "f y = f x")
    case True
    then have "x = y" using Cons.prems by (auto simp: image_iff)
    moreover have "filter (\<lambda>y. f y = f x) ys = []" using Cons.prems True by (auto simp: filter_empty_conv image_iff)
    ultimately show ?thesis by simp
  next
    case False
    then show ?thesis using Cons by auto
  qed
qed simp

lemma prior_of_program:
  assumes acc: "policy_accounts reward es bs = Inr (accounts, seen)"
  shows "(\<Sum>a\<leftarrow>filter (\<lambda>a. acct_program_key a = k) accounts. pa_prior_balance a) = balance_under k bs"
proof (cases "k \<in> set (map acct_program_key accounts)")
  case True
  then obtain a where a: "a \<in> set accounts" "k = acct_program_key a" by auto
  show ?thesis unfolding a(2) filter_one_key[OF policy_accounts_facts(2)[OF acc] a(1)]
    using policy_accounts_facts(6)[OF acc] a(1) by simp
next
  case False
  then have "filter (\<lambda>a. acct_program_key a = k) accounts = []" by (auto simp: filter_empty_conv)
  moreover have "filter (\<lambda>b. payout_program_key (cb_program b) = k) bs = []"
    using False policy_accounts_facts(7)[OF acc] by (auto simp: filter_empty_conv)
  ultimately show ?thesis by (simp add: balance_under_def)
qed

text \<open>
  C3: The loop closes.  When a block's policy ran on the balances replayed from the ledger,
  the balances replayed after the block's entries are added are, program by program, the
  carry-forward balances its policy manifest announced.
\<close>

theorem replay_follows_policy:
  assumes before: "current_carry_forward_balances entries = Inr bs"
    and policy: "apply_payout_policy rm bs p = Inr m"
    and after: "current_carry_forward_balances (entries @ build_maturity_entries hash height m) = Inr bs'"
  shows "balance_under k bs' =
    (\<Sum>a\<leftarrow>filter (\<lambda>a. pa_account_type a = Miner \<and> acct_program_key a = k) (py_accounts m). pa_carry_forward a)"
  using policy
proof (rule apply_policy_parts)
  fix floor fee reward accounts seen amounts fee'
  let ?all = "map (settled amounts) accounts @ (case fee' of None \<Rightarrow> [] | Some f \<Rightarrow> [fee_account f])"
  let ?M = "filter (\<lambda>a. acct_program_key a = k) (map (settled amounts) accounts)"
  assume fee: "pool_fee_manifest_of (rm_coinbase_value rm) p = Inr fee"
    and total: "uint (rm_coinbase_value rm) = uint reward + fee_earned fee"
    and acc: "policy_accounts reward (rm_entitlements rm) bs = Inr (accounts, seen)"
    and am: "onchain_amounts_of accounts reward floor fee = Inr (amounts, fee')"
    and accounts: "py_accounts m = sort_key account_order ?all"
  have "filter (\<lambda>a. pa_account_type a = Miner \<and> acct_program_key a = k) ?all =
      filter (\<lambda>a. acct_program_key a = k) (filter (\<lambda>a. pa_account_type a = Miner) ?all)"
    by (simp only: filter_filter)
  also have "\<dots> = ?M" unfolding miners_of_all[OF policy_accounts_facts(1)[OF acc]] ..
  finally have m_all: "filter (\<lambda>a. pa_account_type a = Miner \<and> acct_program_key a = k) ?all = ?M" .
  have miners: "(\<Sum>a\<leftarrow>filter (\<lambda>a. pa_account_type a = Miner \<and> acct_program_key a = k) (py_accounts m). f a) =
      (\<Sum>a\<leftarrow>?M. f a)" for f :: "policy_account \<Rightarrow> int"
    unfolding accounts sum_filter_sort m_all ..
  have settled: "\<forall>a\<in>set (map (settled amounts) accounts). settled_account floor a"
    using policy_tail(2)[OF acc am pool_fee_manifest_facts(1,2)[OF fee] total] by blast
  have carry: "pa_carry_forward a = pa_prior_balance a + (uint (pa_gross_sats a) - uint (pa_onchain_sats a))"
    if "a \<in> set ?M" for a
    using settled that by (auto simp: settled_account_def)
  have "balance_under k bs' = balance_under k bs + active_sum k (build_maturity_entries hash height m)"
    using replay_at(3)[OF after] replay_at(3)[OF before] by (simp add: active_sum_append)
  also have "active_sum k (build_maturity_entries hash height m) =
      (\<Sum>a\<leftarrow>?M. uint (pa_gross_sats a) - uint (pa_onchain_sats a))"
  proof -
    have "replayed (maturity_entry_of hash height a) \<and>
        payout_program_key (me_program (maturity_entry_of hash height a)) = k \<longleftrightarrow>
        pa_account_type a = Miner \<and> acct_program_key a = k" for a
      by (cases "pa_account_type a") (simp_all add: maturity_entry_of_def replayed_def acct_program_key_def)
    then have "active_sum k (build_maturity_entries hash height m) =
        (\<Sum>a\<leftarrow>filter (\<lambda>a. pa_account_type a = Miner \<and> acct_program_key a = k) (py_accounts m).
          uint (pa_gross_sats a) - uint (pa_onchain_sats a))"
      by (simp add: active_sum_def build_maturity_entries_def filter_map comp_def entry_delta_def
          maturity_entry_of_def)
    then show ?thesis unfolding miners .
  qed
  also have "balance_under k bs = (\<Sum>a\<leftarrow>?M. pa_prior_balance a)"
  proof -
    have "pa_prior_balance (settled amounts a) = pa_prior_balance a \<and>
        acct_program_key (settled amounts a) = acct_program_key a" for a
      by (auto simp: settled_def paid_def acct_program_key_def split: option.splits)
    then show ?thesis unfolding prior_of_program[OF acc, symmetric] by (simp add: filter_map comp_def)
  qed
  also have "(\<Sum>a\<leftarrow>?M. pa_prior_balance a) + (\<Sum>a\<leftarrow>?M. uint (pa_gross_sats a) - uint (pa_onchain_sats a)) =
      (\<Sum>a\<leftarrow>?M. pa_carry_forward a)"
    unfolding sum_list_addf[symmetric] using carry by (intro arg_cong[of _ _ sum_list] map_cong) auto
  finally show ?thesis unfolding miners .
qed

theorem replay_follows_policy_witness:
  "\<exists>bs'. current_carry_forward_balances
      ([(maturity_entry_of ''h0'' 9 (the (find (\<lambda>a. pa_account_type a = Miner) (py_accounts sample_manifest))))
          \<lparr>me_recipient_id := ''b'', me_order_key := ''b'', me_program := ''BB'', me_gross_sats := 3,
           me_onchain_sats := 0\<rparr>] @ build_maturity_entries ''h1'' 10 sample_manifest) = Inr bs' \<and>
    balance_under ''bb'' bs' = 13"
proof -
  let ?e = "[(maturity_entry_of ''h0'' 9 (the (find (\<lambda>a. pa_account_type a = Miner) (py_accounts sample_manifest))))
          \<lparr>me_recipient_id := ''b'', me_order_key := ''b'', me_program := ''BB'', me_gross_sats := 3,
           me_onchain_sats := 0\<rparr>]"
  have before: "current_carry_forward_balances ?e = Inr sample_carry" unfolding sample_manifest_def by code_simp
  have len: "length (py_accounts sample_manifest) = 3" unfolding sample_manifest_def by code_simp
  then have "length (?e @ build_maturity_entries ''h1'' 10 sample_manifest) < 2 ^ 63"
    by (simp add: build_maturity_entries_def)
  then obtain bs' where after:
    "current_carry_forward_balances (?e @ build_maturity_entries ''h1'' 10 sample_manifest) = Inr bs'"
    using replay_exact by blast
  have "(\<Sum>a\<leftarrow>filter (\<lambda>a. pa_account_type a = Miner \<and> acct_program_key a = ''bb'') (py_accounts sample_manifest).
      pa_carry_forward a) = 13" unfolding sample_manifest_def by code_simp
  then show ?thesis using replay_follows_policy[OF before sample_manifest_ok after, of "''bb''"] after by auto
qed

end
