(* ===== verification/Policy_Request.thy ===== *)
theory Policy_Request
  imports Policy_Properties Builder_Properties Reward_Window
begin

text \<open>
  From the policy to the coinbase: the build requests of \<open>qbit-prism/src/lib.rs\<close>, and what
  the pool builder then pays.  The builder allocates by weight; because the policy's
  entitlements already are satoshis that sum to the coinbase value, it pays each account
  exactly the amount of its manifest.
\<close>

section \<open>Requests\<close>

definition build_prism_coinbase_request ::
  "accepted_share list \<Rightarrow> found_block \<Rightarrow> prism_error + coinbase_build_request \<times> prism_window" where
  "build_prism_coinbase_request shares fb =
    rbind (compute_prism_window shares fb) (\<lambda>window.
    Inr (\<lparr>cr_block_height = fb_block_height fb, cr_coinbase_value = fb_coinbase_value fb,
          cr_entitlements = pw_entitlements window, cr_witness_nonce_hex = None,
          cr_witness_merkle_leaves_hex = [], cr_script_sig_suffix_hex = None,
          cr_pinned_first_output = None\<rparr>, window))"

definition pool_fee_first_output :: "policy_manifest \<Rightarrow> pool_fee_manifest option" where
  "pool_fee_first_output m =
    (if py_coinbase_output_policy m \<noteq> PoolFeeFirst then None
     else (case py_pool_fee m of
         None \<Rightarrow> None
       | Some f \<Rightarrow> if 0 < pf_amount_sats f then Some f else None))"

definition pinned_first_output_for_policy :: "policy_manifest \<Rightarrow> pinned_first_output option" where
  "pinned_first_output_for_policy m = map_option (\<lambda>f.
    \<lparr>pin_recipient_id = pf_recipient_id f, pin_order_key = pf_order_key f,
     pin_program = pf_program f\<rparr>) (pool_fee_first_output m)"

definition build_policy_coinbase_request_with_coinbase_options ::
  "reward_manifest \<Rightarrow> carry_forward_balance list \<Rightarrow> payout_policy \<Rightarrow> string option \<Rightarrow> string list
    \<Rightarrow> prism_error + coinbase_build_request \<times> policy_manifest"
where
  "build_policy_coinbase_request_with_coinbase_options rm prior policy suffix leaves =
    rbind (apply_payout_policy rm prior policy) (\<lambda>m.
    Inr (\<lparr>cr_block_height = rm_block_height rm, cr_coinbase_value = rm_coinbase_value rm,
          cr_entitlements = py_onchain_entitlements m, cr_witness_nonce_hex = None,
          cr_witness_merkle_leaves_hex = leaves, cr_script_sig_suffix_hex = suffix,
          cr_pinned_first_output = pinned_first_output_for_policy m\<rparr>, m))"

definition build_policy_coinbase_request_with_coinbase_script_sig_suffix ::
  "reward_manifest \<Rightarrow> carry_forward_balance list \<Rightarrow> payout_policy \<Rightarrow> string option
    \<Rightarrow> prism_error + coinbase_build_request \<times> policy_manifest"
where
  "build_policy_coinbase_request_with_coinbase_script_sig_suffix rm prior policy suffix =
    build_policy_coinbase_request_with_coinbase_options rm prior policy suffix []"

definition build_policy_coinbase_request ::
  "reward_manifest \<Rightarrow> carry_forward_balance list \<Rightarrow> payout_policy
    \<Rightarrow> prism_error + coinbase_build_request \<times> policy_manifest"
where
  "build_policy_coinbase_request rm prior policy =
    build_policy_coinbase_request_with_coinbase_script_sig_suffix rm prior policy None"

lemmas request_evals [evals] = build_prism_coinbase_request_def pool_fee_first_output_def
  pinned_first_output_for_policy_def build_policy_coinbase_request_with_coinbase_options_def
  build_policy_coinbase_request_with_coinbase_script_sig_suffix_def build_policy_coinbase_request_def

section \<open>The entitlements are the paid accounts\<close>

lemma eq_ignore_case_key: "eq_ignore_ascii_case a b \<longleftrightarrow> payout_program_key a = payout_program_key b"
  by (simp add: eq_ignore_ascii_case_def payout_program_key_def)

lemma policy_onchain_form:
  assumes "apply_payout_policy rm bs p = Inr m"
  shows "mset (py_onchain_entitlements m) = mset (onchain_entitlements_of (py_accounts m))"
    and "\<And>f. py_pool_fee m = Some f \<Longrightarrow> 0 < pf_amount_sats f \<Longrightarrow>
      \<lparr>we_recipient_id = pf_recipient_id f, we_order_key = pf_order_key f, we_program = pf_program f,
       we_weight = u128_of_u64 (pf_amount_sats f)\<rparr> \<in> set (py_onchain_entitlements m)"
proof -
  have *: "mset (py_onchain_entitlements m) = mset (onchain_entitlements_of (py_accounts m)) \<and>
    (\<forall>f. py_pool_fee m = Some f \<longrightarrow> 0 < pf_amount_sats f \<longrightarrow>
      \<lparr>we_recipient_id = pf_recipient_id f, we_order_key = pf_order_key f, we_program = pf_program f,
       we_weight = u128_of_u64 (pf_amount_sats f)\<rparr> \<in> set (py_onchain_entitlements m))"
    using assms
  proof (rule apply_policy_parts)
    fix floor fee reward accounts seen amounts fee'
    let ?all = "map (settled amounts) accounts @ (case fee' of None \<Rightarrow> [] | Some f \<Rightarrow> [fee_account f])"
    assume accounts: "py_accounts m = sort_key account_order ?all"
      and on: "py_onchain_entitlements m = onchain_entitlements_of ?all"
      and pf: "py_pool_fee m = fee'"
    have "mset (onchain_entitlements_of (py_accounts m)) = mset (onchain_entitlements_of ?all)"
      unfolding onchain_entitlements_of_def accounts by (simp only: mset_map mset_filter mset_sort)
    moreover have "\<lparr>we_recipient_id = pf_recipient_id f, we_order_key = pf_order_key f, we_program = pf_program f,
       we_weight = u128_of_u64 (pf_amount_sats f)\<rparr> \<in> set (onchain_entitlements_of ?all)"
      if "fee' = Some f" "0 < pf_amount_sats f" for f
      using that by (simp add: onchain_entitlements_of_def fee_account_def)
    ultimately show ?thesis unfolding on pf by simp
  qed
  then show "mset (py_onchain_entitlements m) = mset (onchain_entitlements_of (py_accounts m))"
    and "\<And>f. py_pool_fee m = Some f \<Longrightarrow> 0 < pf_amount_sats f \<Longrightarrow>
      \<lparr>we_recipient_id = pf_recipient_id f, we_order_key = pf_order_key f, we_program = pf_program f,
       we_weight = u128_of_u64 (pf_amount_sats f)\<rparr> \<in> set (py_onchain_entitlements m)" by blast+
qed

section \<open>The coinbase pays the policy\<close>

lemma u64_of_u128: "ucast (u128_of_u64 x) = x"
  by (metis uint_u128_of_u64 word_of_int_uint unsigned_of_int ucast_eq)

lemma outputs_as_entitlements:
  assumes "list_all2 (output_for c) es outs"
    and "map (\<lambda>x. uint (ao_amount_sats x)) outs = map (\<lambda>x. uint (ao_weight x)) outs"
  shows "map (\<lambda>x. (ao_recipient_id x, ao_order_key x, ao_amount_sats x)) outs =
      map (\<lambda>e. (we_recipient_id e, we_order_key e, word_of_int (e_weight e))) es"
proof (rule nth_equalityI)
  have len: "length outs = length es" using assms(1) by (simp add: list_all2_conv_all_nth)
  then show "length (map (\<lambda>x. (ao_recipient_id x, ao_order_key x, ao_amount_sats x)) outs) =
    length (map (\<lambda>e. (we_recipient_id e, we_order_key e, word_of_int (e_weight e))) es)" by simp
  fix i assume "i < length (map (\<lambda>x. (ao_recipient_id x, ao_order_key x, ao_amount_sats x)) outs)"
  then have i: "i < length outs" by simp
  then have "uint (ao_amount_sats (outs ! i)) = uint (ao_weight (outs ! i))"
    using arg_cong[OF assms(2), of "\<lambda>xs. xs ! i"] by simp
  moreover have "output_for c (es ! i) (outs ! i)" using assms(1) i by (simp add: list_all2_conv_all_nth)
  ultimately have "ao_amount_sats (outs ! i) = word_of_int (e_weight (es ! i))"
    by (metis output_for_def word_of_int_uint)
  then show "map (\<lambda>x. (ao_recipient_id x, ao_order_key x, ao_amount_sats x)) outs ! i =
    map (\<lambda>e. (we_recipient_id e, we_order_key e, word_of_int (e_weight e))) es ! i"
    using \<open>output_for c (es ! i) (outs ! i)\<close> i len by (simp add: output_for_def)
qed


definition full_request :: "prism_error + coinbase_build_request \<times> policy_manifest" where
  "full_request = build_policy_coinbase_request_with_coinbase_options
    (sample_reward 1000 [sample_entitlement ''a'' (model_hex_encode (replicate 32 7)) 970,
      sample_entitlement ''b'' (model_hex_encode (replicate 32 9)) 10])
    [] ((sample_policy 5)\<lparr>pp_pool_fee_policy := Some \<lparr>fp_fee_bps = 200, fp_recipient_id = ''pool'', fp_order_key = ''p'',
       fp_program = model_hex_encode (replicate 32 11)\<rparr>\<rparr>) None []"

lemma full_request_ok:
  "full_request = Inr (fst (projr full_request), snd (projr full_request))"
proof -
  have "\<not> isl full_request" by code_simp
  then show ?thesis by simp
qed


end
