(* ===== verification/Settlement.thy ===== *)
theory Settlement
  imports Prism_Types Apportion Digest_Bytes Pool_Builder
begin

text \<open>
  \<open>qbit-prism/src/settlement.rs\<close>: which recipients of a block are paid by direct coinbase
  outputs and which through CTV fanout chunks, and how a fanout fee is taken from its
  recipients.  \<open>usize\<close> sums and products that the source checks are checked against
  \<open>2 ^ 64\<close> here.
\<close>

section \<open>Data\<close>

datatype settlement_mode = DirectCoinbase | CtvFanout | HybridCoinbaseCtvFanout

record fanout_fee_rate_policy =
  fr_market_fee_rate :: u64
  fr_premium_bps :: u64

record settlement_config =
  sc_max_coinbase_outputs :: usize
  sc_max_direct_outputs :: usize
  sc_max_fanout_recipients :: usize
  sc_reserved_outputs :: usize

record settlement_recipient =
  sr_recipient_id :: string
  sr_order_key :: string
  sr_program :: string
  sr_amount_sats :: u64

record settlement_chunk =
  ch_chunk_index :: usize
  ch_recipient_count :: usize
  ch_amount_sats :: u64
  ch_recipients :: "settlement_recipient list"

record fanout_fee_recipient =
  fe_recipient_id :: string
  fe_order_key :: string
  fe_program :: string
  fe_gross_sats :: u64
  fe_fee_sats :: u64
  fe_net_sats :: u64

record fanout_fee_decision =
  fd_total_gross_sats :: u64
  fd_requested_fee_sats :: u64
  fd_applied_fee_sats :: u64
  fd_payable :: "fanout_fee_recipient list"
  fd_carried :: "fanout_fee_recipient list"

record settlement_decision =
  sd_mode :: settlement_mode
  sd_direct_recipients :: "settlement_recipient list"
  sd_fanout_chunks :: "settlement_chunk list"
  sd_direct_count :: usize
  sd_fanout_recipient_count :: usize
  sd_fanout_chunk_count :: usize
  sd_direct_amount :: u64
  sd_fanout_amount :: u64
  sd_total_amount :: u64
  sd_coinbase_output_count :: usize
  sd_reserved_output_count :: usize
  sd_reason :: string

text \<open>\<open>SettlementAccountKey\<close>, whose derived order is that of its fields.\<close>

type_synonym settlement_key = "string \<times> string \<times> string"

definition MAX_COINBASE_SETTLEMENT_OUTPUTS :: usize where "MAX_COINBASE_SETTLEMENT_OUTPUTS = 500"
definition DEFAULT_MAX_COINBASE_SETTLEMENT_OUTPUTS :: usize where
  "DEFAULT_MAX_COINBASE_SETTLEMENT_OUTPUTS = 16"
definition MAX_DIRECT_COINBASE_OUTPUTS :: usize where
  "MAX_DIRECT_COINBASE_OUTPUTS = MAX_COINBASE_SETTLEMENT_OUTPUTS"
definition DEFAULT_MAX_DIRECT_COINBASE_OUTPUTS :: usize where "DEFAULT_MAX_DIRECT_COINBASE_OUTPUTS = 12"
definition QBIT_TRUC_MAX_TX_WEIGHT_BYTES :: usize where "QBIT_TRUC_MAX_TX_WEIGHT_BYTES = 50000"
definition CTV_FANOUT_P2MR_OUTPUT_BYTES :: usize where "CTV_FANOUT_P2MR_OUTPUT_BYTES = 43"
definition CTV_FANOUT_FIXED_WEIGHT_BYTES :: usize where "CTV_FANOUT_FIXED_WEIGHT_BYTES = 90"
definition MAX_CTV_FANOUT_RECIPIENTS_PER_TRANSACTION :: usize where
  "MAX_CTV_FANOUT_RECIPIENTS_PER_TRANSACTION = 1160"
definition DEFAULT_MAX_CTV_FANOUT_RECIPIENTS_PER_TRANSACTION :: usize where
  "DEFAULT_MAX_CTV_FANOUT_RECIPIENTS_PER_TRANSACTION = 1000"

lemmas settlement_consts [evals] = MAX_COINBASE_SETTLEMENT_OUTPUTS_def
  DEFAULT_MAX_COINBASE_SETTLEMENT_OUTPUTS_def MAX_DIRECT_COINBASE_OUTPUTS_def
  DEFAULT_MAX_DIRECT_COINBASE_OUTPUTS_def QBIT_TRUC_MAX_TX_WEIGHT_BYTES_def
  CTV_FANOUT_P2MR_OUTPUT_BYTES_def CTV_FANOUT_FIXED_WEIGHT_BYTES_def
  MAX_CTV_FANOUT_RECIPIENTS_PER_TRANSACTION_def DEFAULT_MAX_CTV_FANOUT_RECIPIENTS_PER_TRANSACTION_def

definition default_settlement_config :: settlement_config where
  "default_settlement_config =
    \<lparr>sc_max_coinbase_outputs = DEFAULT_MAX_COINBASE_SETTLEMENT_OUTPUTS,
     sc_max_direct_outputs = DEFAULT_MAX_DIRECT_COINBASE_OUTPUTS,
     sc_max_fanout_recipients = DEFAULT_MAX_CTV_FANOUT_RECIPIENTS_PER_TRANSACTION,
     sc_reserved_outputs = 0\<rparr>"

definition settlement_error :: "string \<Rightarrow> prism_error" where
  "settlement_error reason = SettlementModeSelection reason"

definition usize_add :: "usize \<Rightarrow> usize \<Rightarrow> usize option" where
  "usize_add a b = (if a + b < 2 ^ 64 then Some (a + b) else None)"

definition usize_mul :: "usize \<Rightarrow> usize \<Rightarrow> usize option" where
  "usize_mul a b = (if a * b < 2 ^ 64 then Some (a * b) else None)"

section \<open>Recipients\<close>

definition recipient_key :: "settlement_recipient \<Rightarrow> settlement_key" where
  "recipient_key r = (sr_order_key r, sr_recipient_id r, sr_program r)"

definition fee_recipient_key :: "fanout_fee_recipient \<Rightarrow> settlement_key" where
  "fee_recipient_key r = (fe_order_key r, fe_recipient_id r, fe_program r)"

definition direct_priority :: "settlement_recipient \<Rightarrow> int \<times> settlement_key" where
  "direct_priority r = (- uint (sr_amount_sats r), recipient_key r)"

definition normalize_recipient :: "crypto \<Rightarrow> settlement_recipient \<Rightarrow> prism_error + settlement_recipient" where
  "normalize_recipient c r =
    rbind (map_err (\<lambda>e. settlement_error (''recipient '' @ sr_recipient_id r @
        '' p2mr_program_hex must be hex: '' @ e)) (hex_decode c (sr_program r))) (\<lambda>bytes.
    if length bytes \<noteq> P2MR_PROGRAM_LEN
      then Inl (settlement_error (''recipient '' @ sr_recipient_id r @ '' p2mr_program_hex must be '' @
        dec_digits P2MR_PROGRAM_LEN @ '' bytes, got '' @ dec_digits (length bytes)))
    else Inr (r\<lparr>sr_program := hex_encode c bytes\<rparr>))"

definition normalize_recipient_programs ::
  "crypto \<Rightarrow> settlement_recipient list \<Rightarrow> prism_error + settlement_recipient list" where
  "normalize_recipient_programs c = try_map (normalize_recipient c)"

fun validate_recipients_from :: "settlement_key set \<Rightarrow> settlement_recipient list \<Rightarrow> prism_error + unit" where
  "validate_recipients_from seen [] = Inr ()"
| "validate_recipients_from seen (r # rs) =
    (if sr_amount_sats r = 0
     then Inl (settlement_error (''recipient '' @ sr_recipient_id r @ '' amount must be positive''))
     else if recipient_key r \<in> seen
     then Inl (settlement_error (''duplicate settlement recipient '' @ sr_recipient_id r))
     else validate_recipients_from (insert (recipient_key r) seen) rs)"

definition validate_recipients :: "settlement_recipient list \<Rightarrow> prism_error + unit" where
  "validate_recipients = validate_recipients_from {}"

definition sum_amounts :: "settlement_recipient list \<Rightarrow> prism_error + u64" where
  "sum_amounts = checked_sum (settlement_error ''settlement amount overflowed'') sr_amount_sats"

section \<open>Sizes\<close>

definition compact_size_len :: "usize \<Rightarrow> usize" where
  "compact_size_len v = (if v < 253 then 1 else if v \<le> 0xffff then 3 else if v \<le> 0xffffffff then 5 else 9)"

definition estimated_ctv_fanout_weight_bytes :: "usize \<Rightarrow> prism_error + usize" where
  "estimated_ctv_fanout_weight_bytes recipient_count =
    ok_or (case usize_add CTV_FANOUT_FIXED_WEIGHT_BYTES (compact_size_len recipient_count) of
        None \<Rightarrow> None
      | Some base \<Rightarrow> (case usize_mul recipient_count CTV_FANOUT_P2MR_OUTPUT_BYTES of
          None \<Rightarrow> None | Some outputs \<Rightarrow> usize_add base outputs))
      (settlement_error ''fanout weight estimate overflowed'')"

text \<open>The caller has checked that a chunk holds at least one recipient.\<close>

definition fanout_chunk_count :: "usize \<Rightarrow> usize \<Rightarrow> prism_error + usize" where
  "fanout_chunk_count recipient_count max_per_chunk =
    (if recipient_count = 0 then Inr 0
     else if max_per_chunk = 0 then Inl (Panic ''attempt to subtract with overflow'')
     else ok_or (map_option (\<lambda>adjusted. adjusted div max_per_chunk)
         (usize_add recipient_count (max_per_chunk - 1)))
       (settlement_error ''fanout chunk count overflowed''))"

definition validate_config :: "settlement_config \<Rightarrow> prism_error + unit" where
  "validate_config config =
    (if sc_max_coinbase_outputs config = 0
       then Inl (settlement_error ''max_coinbase_settlement_outputs must be positive'')
     else if MAX_COINBASE_SETTLEMENT_OUTPUTS < sc_max_coinbase_outputs config
       then Inl (settlement_error (''max_coinbase_settlement_outputs must be <= '' @
         dec_digits MAX_COINBASE_SETTLEMENT_OUTPUTS))
     else if MAX_DIRECT_COINBASE_OUTPUTS < sc_max_direct_outputs config
       then Inl (settlement_error (''max_direct_coinbase_outputs must be <= '' @
         dec_digits MAX_DIRECT_COINBASE_OUTPUTS))
     else if sc_max_fanout_recipients config = 0
       then Inl (settlement_error ''max_fanout_recipients_per_transaction must be positive'')
     else if MAX_CTV_FANOUT_RECIPIENTS_PER_TRANSACTION < sc_max_fanout_recipients config
       then Inl (settlement_error (''max_fanout_recipients_per_transaction must be <= '' @
         dec_digits MAX_CTV_FANOUT_RECIPIENTS_PER_TRANSACTION))
     else
     rbind (estimated_ctv_fanout_weight_bytes (sc_max_fanout_recipients config)) (\<lambda>weight.
     if QBIT_TRUC_MAX_TX_WEIGHT_BYTES < weight
       then Inl (settlement_error (''max_fanout_recipients_per_transaction exceeds qbit TRUC weight limit '' @
         dec_digits QBIT_TRUC_MAX_TX_WEIGHT_BYTES))
     else if sc_max_coinbase_outputs config < sc_reserved_outputs config
       then Inl (settlement_error ''reserved_coinbase_outputs exceeds max_coinbase_settlement_outputs'')
     else Inr ()))"

section \<open>Selecting the mode\<close>

definition resolve_pinned_direct_key ::
  "crypto \<Rightarrow> settlement_recipient list \<Rightarrow> settlement_config \<Rightarrow> settlement_recipient
    \<Rightarrow> prism_error + settlement_key"
where
  "resolve_pinned_direct_key c canonical config pinned =
    (if sc_max_direct_outputs config = 0
       then Inl (settlement_error ''pinned direct recipient requires max_direct_coinbase_outputs >= 1'')
     else
     rbind (normalize_recipient c pinned) (\<lambda>normalized.
     let key = recipient_key normalized in
     if key \<notin> set (map recipient_key canonical)
       then Inl (settlement_error (''pinned direct recipient '' @ sr_recipient_id pinned @
         '' is not among the settlement recipients''))
     else Inr key))"

text \<open>One turn of the search for the number of direct outputs: do they fit?\<close>

definition direct_count_fits :: "usize \<Rightarrow> settlement_config \<Rightarrow> usize \<Rightarrow> usize \<Rightarrow> prism_error + bool" where
  "direct_count_fits total_count config pinned direct_count =
    rbind (if total_count < pinned \<or> total_count - pinned < direct_count
        then Inl (settlement_error ''direct recipient count exceeded total recipients'')
        else Inr (total_count - pinned - direct_count)) (\<lambda>fanout_recipient_count.
    rbind (fanout_chunk_count fanout_recipient_count (sc_max_fanout_recipients config)) (\<lambda>chunk_count.
    rbind (ok_or (case usize_add (sc_reserved_outputs config) pinned of None \<Rightarrow> None
        | Some n \<Rightarrow> (case usize_add n direct_count of None \<Rightarrow> None
          | Some n \<Rightarrow> usize_add n chunk_count))
        (settlement_error ''coinbase settlement output count overflowed'')) (\<lambda>coinbase_outputs.
    Inr (coinbase_outputs \<le> sc_max_coinbase_outputs config))))"

fun direct_count_from :: "usize \<Rightarrow> settlement_config \<Rightarrow> usize \<Rightarrow> nat \<Rightarrow> prism_error + usize" where
  "direct_count_from total_count config pinned n =
    rbind (direct_count_fits total_count config pinned n) (\<lambda>fits.
    if fits then Inr n
    else (case n of
        0 \<Rightarrow> Inl (settlement_error (''recipient partition requires more than '' @
          dec_digits (sc_max_coinbase_outputs config) @ '' coinbase settlement outputs''))
      | Suc k \<Rightarrow> direct_count_from total_count config pinned k))"

declare direct_count_from.simps [simp del]

definition select_direct_count :: "usize \<Rightarrow> usize \<Rightarrow> settlement_config \<Rightarrow> usize \<Rightarrow> prism_error + usize" where
  "select_direct_count total_count candidates config pinned =
    direct_count_from total_count config pinned (min candidates (sc_max_direct_outputs config - pinned))"

definition decision_reason ::
  "usize \<Rightarrow> usize \<Rightarrow> usize \<Rightarrow> u64 \<Rightarrow> usize \<Rightarrow> settlement_config \<Rightarrow> usize \<Rightarrow> string" where
  "decision_reason direct_count fanout_count fanout_chunks direct_floor outputs config pinned =
    (let reason =
      (if fanout_count = 0 then
         dec_digits direct_count @ '' recipients meet the '' @ dec_word direct_floor @
         ''-sat direct floor and fit within the '' @ dec_digits (sc_max_coinbase_outputs config) @
         ''-output coinbase settlement cap''
       else if direct_count = 0 then
         dec_digits fanout_count @ '' recipients routed to '' @ dec_digits fanout_chunks @
         '' CTV fanout chunk(s) capped at '' @ dec_digits (sc_max_fanout_recipients config) @
         '' recipients each; '' @ dec_digits outputs @ '' coinbase settlement outputs used''
       else
         dec_digits direct_count @ '' recipients paid directly by largest-liability priority; '' @
         dec_digits fanout_count @ '' recipients routed to '' @ dec_digits fanout_chunks @
         '' CTV fanout chunk(s); '' @ dec_digits outputs @ '' of '' @
         dec_digits (sc_max_coinbase_outputs config) @ '' coinbase settlement outputs used'')
     in if pinned = 0 then reason
       else reason @ ''; '' @ dec_digits pinned @
         '' direct settlement slot(s) pinned by the coinbase output policy'')"

definition settlement_chunk_of ::
  "nat \<times> settlement_recipient list \<Rightarrow> prism_error + settlement_chunk" where
  "settlement_chunk_of p = (case p of (index, recipients) \<Rightarrow>
    rbind (sum_amounts recipients) (\<lambda>amount.
    Inr \<lparr>ch_chunk_index = index, ch_recipient_count = length recipients, ch_amount_sats = amount,
         ch_recipients = recipients\<rparr>))"

text \<open>The canonical recipients: programs in lowercase hex, sorted, positive and distinct.\<close>

definition canonical_recipients ::
  "crypto \<Rightarrow> settlement_recipient list \<Rightarrow> prism_error + settlement_recipient list" where
  "canonical_recipients c recipients =
    rbind (normalize_recipient_programs c recipients) (\<lambda>normalized.
    let canonical = sort_key recipient_key normalized in
    rbind (validate_recipients canonical) (\<lambda>_. Inr canonical))"

text \<open>The keys paid directly: the pinned one and the first of the candidates by amount.\<close>

definition direct_keys ::
  "settlement_recipient list \<Rightarrow> u64 \<Rightarrow> settlement_config \<Rightarrow> settlement_key option \<Rightarrow> prism_error + settlement_key set"
where
  "direct_keys canonical direct_floor config pinned_key =
    (let candidates = sort_key direct_priority
        (filter (\<lambda>r. direct_floor \<le> sr_amount_sats r \<and> pinned_key \<noteq> Some (recipient_key r)) canonical);
      pinned = (if pinned_key = None then 0 else 1) in
     rbind (select_direct_count (length canonical) (length candidates) config pinned) (\<lambda>direct_count.
     Inr (set_option pinned_key \<union> set (map recipient_key (take direct_count candidates)))))"

definition decide_settlement ::
  "settlement_recipient list \<Rightarrow> u64 \<Rightarrow> settlement_config \<Rightarrow> settlement_key option
    \<Rightarrow> prism_error + settlement_decision"
where
  "decide_settlement canonical direct_floor config pinned_key =
    rbind (sum_amounts canonical) (\<lambda>total_amount.
    rbind (direct_keys canonical direct_floor config pinned_key) (\<lambda>keys.
    let direct = filter (\<lambda>r. recipient_key r \<in> keys) canonical;
        fanout = filter (\<lambda>r. recipient_key r \<notin> keys) canonical in
    rbind (sum_amounts direct) (\<lambda>direct_amount.
    rbind (sum_amounts fanout) (\<lambda>fanout_amount.
    rbind (ok_or (checked_add direct_amount fanout_amount)
        (settlement_error ''settlement amount overflowed'')) (\<lambda>both.
    if both \<noteq> total_amount then Inl (settlement_error ''settlement partition lost value'')
    else
    rbind (try_map settlement_chunk_of
        (enumerate 0 (chunks (sc_max_fanout_recipients config) fanout))) (\<lambda>fanout_chunks.
    rbind (if direct \<noteq> [] \<and> fanout_chunks = [] then Inr DirectCoinbase
        else if direct = [] \<and> fanout_chunks \<noteq> [] then Inr CtvFanout
        else if direct \<noteq> [] then Inr HybridCoinbaseCtvFanout
        else Inl (settlement_error ''settlement partition is empty'')) (\<lambda>mode.
    let fanout_count = sum_list (map ch_recipient_count fanout_chunks) in
    rbind (ok_or (case usize_add (sc_reserved_outputs config) (length direct) of None \<Rightarrow> None
        | Some n \<Rightarrow> usize_add n (length fanout_chunks))
        (settlement_error ''coinbase settlement output count overflowed'')) (\<lambda>outputs.
    Inr \<lparr>sd_mode = mode, sd_direct_recipients = direct, sd_fanout_chunks = fanout_chunks,
         sd_direct_count = length direct, sd_fanout_recipient_count = fanout_count,
         sd_fanout_chunk_count = length fanout_chunks, sd_direct_amount = direct_amount,
         sd_fanout_amount = fanout_amount, sd_total_amount = total_amount,
         sd_coinbase_output_count = outputs, sd_reserved_output_count = sc_reserved_outputs config,
         sd_reason = decision_reason (length direct) fanout_count (length fanout_chunks) direct_floor
           outputs config (if pinned_key = None then 0 else 1)\<rparr>))))))))"

definition select_settlement_mode_with_pinned_direct ::
  "crypto \<Rightarrow> settlement_recipient list \<Rightarrow> u64 \<Rightarrow> settlement_config \<Rightarrow> settlement_recipient option
    \<Rightarrow> prism_error + settlement_decision"
where
  "select_settlement_mode_with_pinned_direct c recipients direct_floor config pinned_direct =
    rbind (validate_config config) (\<lambda>_.
    if recipients = [] then Inl (settlement_error ''no recipients to settle'')
    else
    rbind (canonical_recipients c recipients) (\<lambda>canonical.
    rbind (case pinned_direct of None \<Rightarrow> Inr None
      | Some pinned \<Rightarrow> rbind (resolve_pinned_direct_key c canonical config pinned) (\<lambda>k. Inr (Some k)))
      (\<lambda>pinned_key.
    decide_settlement canonical direct_floor config pinned_key)))"

definition select_settlement_mode ::
  "crypto \<Rightarrow> settlement_recipient list \<Rightarrow> u64 \<Rightarrow> settlement_config \<Rightarrow> prism_error + settlement_decision" where
  "select_settlement_mode c recipients direct_floor config =
    select_settlement_mode_with_pinned_direct c recipients direct_floor config None"

lemmas settlement_evals [evals] = default_settlement_config_def settlement_error_def usize_add_def
  usize_mul_def recipient_key_def fee_recipient_key_def direct_priority_def normalize_recipient_def
  normalize_recipient_programs_def validate_recipients_def sum_amounts_def compact_size_len_def
  estimated_ctv_fanout_weight_bytes_def fanout_chunk_count_def validate_config_def
  resolve_pinned_direct_key_def direct_count_fits_def select_direct_count_def decision_reason_def
  settlement_chunk_of_def canonical_recipients_def direct_keys_def decide_settlement_def
  select_settlement_mode_with_pinned_direct_def select_settlement_mode_def

end
