(* ===== verification/Settlement_Facts.thy ===== *)
theory Settlement_Facts
  imports Settlement
begin

text \<open>
  What the settlement partition guarantees: the recipients are split without loss, the
  direct ones are the largest, as many as the coinbase has room for, and the search for that
  number fails only when even the partition without direct outputs does not fit.
\<close>

section \<open>Recipients\<close>

lemma validate_from_Inr:
  "validate_recipients_from seen rs = Inr () \<longleftrightarrow>
    (\<forall>r\<in>set rs. sr_amount_sats r \<noteq> 0) \<and> distinct (map recipient_key rs) \<and>
    set (map recipient_key rs) \<inter> seen = {}"
  by (induction rs arbitrary: seen) (auto simp: if_Inl_Inr)

lemma validate_Inr:
  "validate_recipients rs = Inr u \<longleftrightarrow>
    (\<forall>r\<in>set rs. sr_amount_sats r \<noteq> 0) \<and> distinct (map recipient_key rs)"
  unfolding validate_recipients_def by (cases u) (simp add: validate_from_Inr)

lemma sum_amounts_Inr:
  "sum_amounts rs = Inr s \<longleftrightarrow> uint s = (\<Sum>r\<leftarrow>rs. uint (sr_amount_sats r))"
  by (simp add: sum_amounts_def checked_sum_Inr)

lemma sum_amounts_ex:
  "(\<exists>s. sum_amounts rs = Inr s) \<longleftrightarrow> (\<Sum>r\<leftarrow>rs. uint (sr_amount_sats r)) < 2 ^ 64"
proof
  assume "\<exists>s. sum_amounts rs = Inr s"
  then obtain s :: u64 where "uint s = (\<Sum>r\<leftarrow>rs. uint (sr_amount_sats r))" by (auto simp: sum_amounts_Inr)
  then show "(\<Sum>r\<leftarrow>rs. uint (sr_amount_sats r)) < 2 ^ 64" using u64_bound[of s] by simp
next
  assume "(\<Sum>r\<leftarrow>rs. uint (sr_amount_sats r)) < 2 ^ 64"
  then have "uint (word_of_int (\<Sum>r\<leftarrow>rs. uint (sr_amount_sats r)) :: u64) = (\<Sum>r\<leftarrow>rs. uint (sr_amount_sats r))"
    by (intro uint_word_of_int_small) simp_all
  then show "\<exists>s. sum_amounts rs = Inr s" by (auto simp: sum_amounts_Inr)
qed

lemma sum_filter_split:
  "(\<Sum>x\<leftarrow>xs. f x) = (\<Sum>x\<leftarrow>filter P xs. f x) + (\<Sum>x\<leftarrow>filter (\<lambda>x. \<not> P x) xs. f x)" for f :: "'a \<Rightarrow> int"
  by (induction xs) auto

lemma canonical_Inr:
  assumes "canonical_recipients c rs = Inr canonical"
  obtains ns where "normalize_recipient_programs c rs = Inr ns"
    "canonical = sort_key recipient_key ns" "length canonical = length rs"
    "sorted_wrt (<) (map recipient_key canonical)" "\<forall>r\<in>set canonical. sr_amount_sats r \<noteq> 0"
proof -
  from assms obtain ns where ns: "normalize_recipient_programs c rs = Inr ns"
    and can: "canonical = sort_key recipient_key ns"
    and ok: "\<forall>r\<in>set canonical. sr_amount_sats r \<noteq> 0" "distinct (map recipient_key canonical)"
    by (auto simp: canonical_recipients_def Let_def validate_Inr)
  have "sorted (map recipient_key canonical)" by (simp add: can)
  then have "sorted_wrt (<) (map recipient_key canonical)" using ok(2) by (simp add: strict_sorted_iff)
  moreover have "length canonical = length rs"
    using try_map_length[of "normalize_recipient c" rs ns] ns by (simp add: can normalize_recipient_programs_def)
  ultimately show thesis using that[OF ns can _ _ ok(1)] by blast
qed

section \<open>The number of direct outputs\<close>

definition ceil_div :: "nat \<Rightarrow> nat \<Rightarrow> nat" where
  "ceil_div m k = (k + (m - 1)) div m"

lemma ceil_div_0 [simp]: "0 < m \<Longrightarrow> ceil_div m 0 = 0"
  by (simp add: ceil_div_def)

lemma ceil_div_add: "0 < m \<Longrightarrow> ceil_div m (k + m) = Suc (ceil_div m k)"
proof -
  assume "0 < m"
  then have "((k + (m - 1)) + m) div m = (k + (m - 1)) div m + 1" by (intro div_add_self2) simp
  moreover have "k + m + (m - 1) = (k + (m - 1)) + m" by simp
  ultimately show ?thesis unfolding ceil_div_def by (simp only: Suc_eq_plus1)
qed

lemma ceil_div_mono: "j \<le> k \<Longrightarrow> ceil_div m j \<le> ceil_div m k"
  unfolding ceil_div_def by (intro div_le_mono) simp

lemma ceil_div_Suc: "0 < m \<Longrightarrow> ceil_div m (Suc k) \<le> Suc (ceil_div m k)"
  using ceil_div_mono[of "Suc k" "k + m" m] ceil_div_add[of m k] by simp

lemma ceil_div_le: "0 < m \<Longrightarrow> ceil_div m k \<le> k"
proof (induction k)
  case (Suc k)
  then show ?case using ceil_div_Suc[of m k] by linarith
qed simp

lemma ceil_div_small: "0 < k \<Longrightarrow> k \<le> m \<Longrightarrow> ceil_div m k = 1"
proof -
  assume k: "0 < k" "k \<le> m"
  then have "ceil_div m k \<le> ceil_div m (0 + m)" by (intro ceil_div_mono) simp
  then have "ceil_div m k \<le> 1" using ceil_div_add[of m 0] k by simp
  moreover have "m \<le> k + (m - 1)" using k by simp
  then have "1 \<le> ceil_div m k" unfolding ceil_div_def using k div_le_mono[of m "k + (m - 1)" m] by simp
  ultimately show ?thesis by simp
qed

definition settlement_outputs :: "usize \<Rightarrow> settlement_config \<Rightarrow> usize \<Rightarrow> usize \<Rightarrow> usize" where
  "settlement_outputs n config pinned d = sc_reserved_outputs config + pinned + d +
    ceil_div (sc_max_fanout_recipients config) (n - pinned - d)"

text \<open>Turning a fanout recipient into a direct one never frees an output.\<close>

lemma settlement_outputs_mono:
  assumes "0 < sc_max_fanout_recipients config" and "pinned + Suc d \<le> n"
  shows "settlement_outputs n config pinned d \<le> settlement_outputs n config pinned (Suc d)"
proof -
  have "n - pinned - d = Suc (n - pinned - Suc d)" using assms(2) by simp
  then show ?thesis
    using ceil_div_Suc[OF assms(1), of "n - pinned - Suc d"] unfolding settlement_outputs_def by simp
qed

definition config_ok :: "settlement_config \<Rightarrow> bool" where
  "config_ok config \<longleftrightarrow> 0 < sc_max_coinbase_outputs config \<and>
    sc_max_coinbase_outputs config \<le> 500 \<and> sc_max_direct_outputs config \<le> 500 \<and>
    0 < sc_max_fanout_recipients config \<and> sc_max_fanout_recipients config \<le> 1160 \<and>
    sc_reserved_outputs config \<le> sc_max_coinbase_outputs config"

lemma weight_estimate:
  "n < 2 ^ 32 \<Longrightarrow> estimated_ctv_fanout_weight_bytes n = Inr (90 + compact_size_len n + 43 * n)"
  by (simp add: estimated_ctv_fanout_weight_bytes_def usize_add_def usize_mul_def settlement_consts
      compact_size_len_def)

text \<open>The weight test of the configuration never fails: 1160 recipients need 49973 bytes.\<close>

lemma validate_config_Inr: "validate_config config = Inr u \<longleftrightarrow> config_ok config"
proof -
  let ?n = "sc_max_fanout_recipients config"
  have w: "?n \<le> 1160 \<Longrightarrow> 90 + compact_size_len ?n + 43 * ?n \<le> 50000"
    by (simp add: compact_size_len_def)
  have e: "?n \<le> 1160 \<Longrightarrow> estimated_ctv_fanout_weight_bytes ?n = Inr (90 + compact_size_len ?n + 43 * ?n)"
    by (rule weight_estimate) simp
  show ?thesis
  proof (cases "?n \<le> 1160")
    case True
    then show ?thesis
      using w e by (cases u) (auto simp: validate_config_def config_ok_def settlement_consts)
  next
    case False
    then show ?thesis by (auto simp: validate_config_def config_ok_def settlement_consts)
  qed
qed

lemma chunk_count_ok:
  "0 < m \<Longrightarrow> m \<le> 1160 \<Longrightarrow> k < 2 ^ 63 \<Longrightarrow> fanout_chunk_count k m = Inr (ceil_div m k)"
  by (auto simp: fanout_chunk_count_def usize_add_def ceil_div_def)

lemma direct_count_fits_ok:
  assumes "config_ok config" and "pinned \<le> 1" and "pinned + d \<le> n" and "n < 2 ^ 62"
  shows "direct_count_fits n config pinned d =
    Inr (settlement_outputs n config pinned d \<le> sc_max_coinbase_outputs config)"
proof -
  let ?k = "n - pinned - d" and ?m = "sc_max_fanout_recipients config"
  have m: "0 < ?m" "?m \<le> 1160" "sc_reserved_outputs config \<le> 500"
    using assms(1) by (auto simp: config_ok_def)
  have chunks: "fanout_chunk_count ?k ?m = Inr (ceil_div ?m ?k)"
    using m assms(4) by (intro chunk_count_ok) auto
  define q where "q = ceil_div ?m ?k"
  have "q \<le> n" using ceil_div_le[of ?m ?k] m by (simp add: q_def)
  then have adds: "usize_add (sc_reserved_outputs config) pinned = Some (sc_reserved_outputs config + pinned)"
    "usize_add (sc_reserved_outputs config + pinned) d = Some (sc_reserved_outputs config + pinned + d)"
    "usize_add (sc_reserved_outputs config + pinned + d) q = Some (sc_reserved_outputs config + pinned + d + q)"
    using assms(2-4) m by (simp_all add: usize_add_def)
  have "\<not> (n < pinned \<or> n - pinned < d)" using assms(3) by simp
  then show ?thesis
    unfolding direct_count_fits_def by (simp add: chunks adds settlement_outputs_def del: diff_diff_left flip: q_def)
qed

text \<open>The search finds the largest number that fits, and fails only when zero does not.\<close>

lemma direct_count_from_ok:
  assumes "config_ok config" and "pinned \<le> 1" and "n < 2 ^ 62"
  shows "pinned + d \<le> n \<Longrightarrow>
    (case direct_count_from n config pinned d of
       Inr k \<Rightarrow> k \<le> d \<and> settlement_outputs n config pinned k \<le> sc_max_coinbase_outputs config \<and>
         (\<forall>j. k < j \<and> j \<le> d \<longrightarrow> sc_max_coinbase_outputs config < settlement_outputs n config pinned j)
     | Inl e \<Rightarrow> sc_max_coinbase_outputs config < settlement_outputs n config pinned 0)"
proof (induction d)
  case 0
  then show ?case
    using direct_count_fits_ok[OF assms(1,2) _ assms(3), of 0]
    by (subst direct_count_from.simps) auto
next
  case (Suc d)
  show ?case
  proof (cases "settlement_outputs n config pinned (Suc d) \<le> sc_max_coinbase_outputs config")
    case True
    then show ?thesis
      using direct_count_fits_ok[OF assms(1,2) Suc.prems assms(3)]
      by (subst direct_count_from.simps) auto
  next
    case False
    then have "direct_count_from n config pinned (Suc d) = direct_count_from n config pinned d"
      using direct_count_fits_ok[OF assms(1,2) Suc.prems assms(3)]
      by (subst direct_count_from.simps) simp
    with False Suc show ?thesis by (auto split: sum.splits simp: le_Suc_eq)
  qed
qed

section \<open>The partition\<close>

lemma settlement_chunk_Inr:
  "settlement_chunk_of (i, rs) = Inr ch \<longleftrightarrow> ch_chunk_index ch = i \<and> ch_recipient_count ch = length rs \<and>
    ch_recipients ch = rs \<and> sum_amounts rs = Inr (ch_amount_sats ch)"
  by (cases ch) (auto simp: settlement_chunk_of_def)

lemma chunk_rows:
  "try_map settlement_chunk_of (enumerate i css) = Inr chs \<Longrightarrow>
    map ch_recipients chs = css \<and> map ch_chunk_index chs = [i..<i + length css] \<and>
    map ch_recipient_count chs = map length css \<and>
    list_all (\<lambda>ch. sum_amounts (ch_recipients ch) = Inr (ch_amount_sats ch)) chs"
proof (induction css arbitrary: i chs)
  case (Cons cs css)
  then obtain ch chs' where "settlement_chunk_of (i, cs) = Inr ch"
    and rest: "try_map settlement_chunk_of (enumerate (Suc i) css) = Inr chs'" and "chs = ch # chs'"
    by auto
  then show ?case using Cons.IH[OF rest] by (simp add: settlement_chunk_Inr upt_rec)
qed simp

lemma length_chunks: "0 < m \<Longrightarrow> length (chunks m xs) = ceil_div m (length xs)"
proof (induction m xs rule: chunks.induct)
  case (2 n x xs)
  have "length (chunks n (x # xs)) = Suc (length (chunks n (drop (n - 1) xs)))" using "2.prems" by simp
  also have "\<dots> = Suc (ceil_div n (length xs - (n - 1)))" using 2 by simp
  also have "\<dots> = ceil_div n (length (x # xs))"
  proof (cases "n \<le> length (x # xs)")
    case True
    then have "length xs - (n - 1) + n = length (x # xs)" using "2.prems" by simp
    then show ?thesis using ceil_div_add[OF "2.prems", of "length xs - (n - 1)"] by simp
  next
    case False
    then show ?thesis using ceil_div_small[of "length (x # xs)" n] "2.prems" by simp
  qed
  finally show ?case .
qed simp

lemma sum_amounts_part:
  assumes "sum_amounts (concat css) = Inr s" and "cs \<in> set css"
  shows "\<exists>t. sum_amounts cs = Inr t"
proof -
  have "(\<Sum>r\<leftarrow>cs. uint (sr_amount_sats r)) \<le> (\<Sum>r\<leftarrow>concat css. uint (sr_amount_sats r))"
    using assms(2)
  proof (induction css)
    case (Cons a css)
    have nn: "0 \<le> (\<Sum>r\<leftarrow>a. uint (sr_amount_sats r))" "0 \<le> (\<Sum>r\<leftarrow>concat css. uint (sr_amount_sats r))"
      by (rule sum_list_uint_nonneg)+
    have "(\<Sum>r\<leftarrow>concat (a # css). uint (sr_amount_sats r)) =
        (\<Sum>r\<leftarrow>a. uint (sr_amount_sats r)) + (\<Sum>r\<leftarrow>concat css. uint (sr_amount_sats r))" by simp
    note sum = this
    show ?case
    proof (cases "cs = a")
      case True
      then show ?thesis unfolding sum using nn(2) by simp
    next
      case False
      then have "(\<Sum>r\<leftarrow>cs. uint (sr_amount_sats r)) \<le> (\<Sum>r\<leftarrow>concat css. uint (sr_amount_sats r))"
        using Cons by simp
      then show ?thesis unfolding sum using nn(1) by linarith
    qed
  qed simp
  moreover have "(\<Sum>r\<leftarrow>concat css. uint (sr_amount_sats r)) < 2 ^ 64"
    using sum_amounts_ex[of "concat css"] assms(1) by blast
  ultimately show ?thesis unfolding sum_amounts_ex by (rule order_le_less_trans)
qed

lemma chunks_settle:
  assumes "0 < m" and "sum_amounts xs = Inr s"
  shows "\<exists>chs. try_map settlement_chunk_of (enumerate 0 (chunks m xs)) = Inr chs"
proof -
  have rows: "\<forall>cs\<in>set css. \<exists>t. sum_amounts cs = Inr t \<Longrightarrow>
      \<exists>chs. try_map settlement_chunk_of (enumerate i css) = Inr chs" for css i
  proof (induction css arbitrary: i)
    case (Cons cs css)
    then obtain t chs where "sum_amounts cs = Inr t"
      "try_map settlement_chunk_of (enumerate (Suc i) css) = Inr chs" by fastforce
    moreover from this(1) have "\<exists>ch. settlement_chunk_of (i, cs) = Inr ch" by (simp add: settlement_chunk_of_def)
    ultimately show ?case by auto
  qed simp
  have "\<forall>cs\<in>set (chunks m xs). \<exists>t. sum_amounts cs = Inr t"
    using sum_amounts_part[of "chunks m xs" s] assms by (simp add: concat_chunks)
  then show ?thesis by (rule rows)
qed

text \<open>The keys paid directly are those of the largest candidates, and the pinned one.\<close>

definition candidates_of ::
  "settlement_recipient list \<Rightarrow> u64 \<Rightarrow> settlement_key option \<Rightarrow> settlement_recipient list" where
  "candidates_of canonical direct_floor pinned_key = sort_key direct_priority
    (filter (\<lambda>r. direct_floor \<le> sr_amount_sats r \<and> pinned_key \<noteq> Some (recipient_key r)) canonical)"

lemma direct_keys_unfold:
  "direct_keys canonical direct_floor config pinned_key =
    rbind (select_direct_count (length canonical) (length (candidates_of canonical direct_floor pinned_key))
        config (if pinned_key = None then 0 else 1)) (\<lambda>d.
    Inr (set_option pinned_key \<union> set (map recipient_key (take d (candidates_of canonical direct_floor pinned_key)))))"
  by (simp add: direct_keys_def candidates_of_def Let_def)

lemma candidates_facts:
  assumes "distinct (map recipient_key canonical)"
  shows "distinct (map recipient_key (candidates_of canonical fl pk))"
    and "set (candidates_of canonical fl pk) =
      {r \<in> set canonical. fl \<le> sr_amount_sats r \<and> pk \<noteq> Some (recipient_key r)}"
    and "sorted (map direct_priority (candidates_of canonical fl pk))"
    and "set_option pk \<inter> set (map recipient_key (candidates_of canonical fl pk)) = {}"
proof -
  have "distinct (map recipient_key (filter (\<lambda>r. fl \<le> sr_amount_sats r \<and> pk \<noteq> Some (recipient_key r)) canonical))"
    using assms by (rule distinct_map_filter)
  then show "distinct (map recipient_key (candidates_of canonical fl pk))"
    unfolding candidates_of_def by (simp add: distinct_map del: filter.simps)
  show "set (candidates_of canonical fl pk) =
      {r \<in> set canonical. fl \<le> sr_amount_sats r \<and> pk \<noteq> Some (recipient_key r)}"
    by (simp add: candidates_of_def)
  show "sorted (map direct_priority (candidates_of canonical fl pk))" by (simp add: candidates_of_def)
  show "set_option pk \<inter> set (map recipient_key (candidates_of canonical fl pk)) = {}"
    by (auto simp: candidates_of_def)
qed

lemma length_filter_keys:
  assumes "distinct (map f xs)" and "K \<subseteq> f ` set xs"
  shows "length (filter (\<lambda>x. f x \<in> K) xs) = card K"
proof -
  have "set (map f (filter (\<lambda>x. f x \<in> K) xs)) = K" using assms(2) by auto
  moreover have "distinct (map f (filter (\<lambda>x. f x \<in> K) xs))" using assms(1) by (rule distinct_map_filter)
  ultimately show ?thesis using distinct_card by (metis length_map)
qed

lemma candidates_room:
  assumes "distinct (map recipient_key canonical)" and "set_option pk \<subseteq> set (map recipient_key canonical)"
  shows "(if pk = None then 0 else 1) + length (candidates_of canonical fl pk) \<le> length canonical"
proof -
  let ?cands = "candidates_of canonical fl pk"
  note F = candidates_facts[OF assms(1), where fl = fl and pk = pk]
  have "card (set_option pk \<union> set (map recipient_key ?cands)) \<le> card (set (map recipient_key canonical))"
    using assms(2) F(2) by (intro card_mono) auto
  moreover have "card (set_option pk \<union> set (map recipient_key ?cands)) =
      card (set_option pk) + card (set (map recipient_key ?cands))"
    using F(4) by (intro card_Un_disjoint) auto
  moreover have "card (set (map recipient_key ?cands)) = length ?cands"
    using distinct_card[OF F(1)] by simp
  moreover have "card (set (map recipient_key canonical)) = length canonical"
    using distinct_card[OF assms(1)] by simp
  moreover have "card (set_option pk) = (if pk = None then 0 else 1)" by (cases pk) auto
  ultimately show ?thesis by simp
qed

lemma direct_keys_search:
  fixes fl :: u64
  assumes ok: "config_ok config" and dist: "distinct (map recipient_key canonical)"
    and pk: "set_option pk \<subseteq> set (map recipient_key canonical)" and small: "length canonical < 2 ^ 62"
  defines "n \<equiv> length canonical" and "p \<equiv> (if pk = None then 0 else 1 :: nat)"
    and "cands \<equiv> candidates_of canonical fl pk"
  shows "(case direct_keys canonical fl config pk of
      Inr K \<Rightarrow> (\<exists>d \<le> min (length cands) (sc_max_direct_outputs config - p).
        K = set_option pk \<union> set (map recipient_key (take d cands)) \<and>
        settlement_outputs n config p d \<le> sc_max_coinbase_outputs config \<and>
        (\<forall>j. d < j \<and> j \<le> min (length cands) (sc_max_direct_outputs config - p) \<longrightarrow>
          sc_max_coinbase_outputs config < settlement_outputs n config p j))
    | Inl e \<Rightarrow> sc_max_coinbase_outputs config < settlement_outputs n config p 0)"
proof -
  let ?top = "min (length cands) (sc_max_direct_outputs config - p)"
  have "p + length cands \<le> n"
    using candidates_room[OF dist pk, of fl] by (simp add: n_def p_def cands_def)
  then have room: "p + ?top \<le> n" by simp
  have p1: "p \<le> 1" by (simp add: p_def)
  have unfold: "direct_keys canonical fl config pk = rbind (direct_count_from n config p ?top) (\<lambda>d.
      Inr (set_option pk \<union> set (map recipient_key (take d cands))))"
    unfolding direct_keys_unfold select_direct_count_def n_def p_def cands_def ..
  show ?thesis
    using direct_count_from_ok[OF ok p1 small[folded n_def] room]
    by (cases "direct_count_from n config p ?top") (auto simp: unfold)
qed

text \<open>How many recipients a set of direct keys selects.\<close>

lemma direct_count_of_keys:
  assumes dist: "distinct (map recipient_key canonical)"
    and pk: "set_option pk \<subseteq> set (map recipient_key canonical)"
    and d: "d \<le> length (candidates_of canonical fl pk)"
    and K: "K = set_option pk \<union> set (map recipient_key (take d (candidates_of canonical fl pk)))"
  shows "length (filter (\<lambda>r. recipient_key r \<in> K) canonical) = (if pk = None then 0 else 1) + d"
proof -
  let ?cands = "candidates_of canonical fl pk"
  note F = candidates_facts[OF dist, where fl = fl and pk = pk]
  have sub: "set (map recipient_key (take d ?cands)) \<subseteq> set (map recipient_key ?cands)"
    by (auto dest: in_set_takeD)
  have "set (map recipient_key ?cands) \<subseteq> recipient_key ` set canonical" using F(2) by auto
  then have "K \<subseteq> recipient_key ` set canonical" using pk sub unfolding K set_map by (meson Un_least subset_trans)
  then have "length (filter (\<lambda>r. recipient_key r \<in> K) canonical) = card K"
    by (rule length_filter_keys[OF dist])
  also have "\<dots> = card (set_option pk) + card (set (map recipient_key (take d ?cands)))"
    unfolding K using F(4) sub by (intro card_Un_disjoint) auto
  also have "distinct (map recipient_key (take d ?cands))" using F(1) by (simp add: take_map[symmetric])
  then have "card (set (map recipient_key (take d ?cands))) = d"
    using distinct_card[of "map recipient_key (take d ?cands)"] d by simp
  also have "card (set_option pk) = (if pk = None then 0 else 1)" by (cases pk) auto
  finally show ?thesis by simp
qed

text \<open>A decision, taken apart.\<close>

lemma decide_parts:
  assumes "decide_settlement canonical fl config pk = Inr dec"
  obtains K where "direct_keys canonical fl config pk = Inr K"
    "sd_direct_recipients dec = filter (\<lambda>r. recipient_key r \<in> K) canonical"
    "try_map settlement_chunk_of (enumerate 0 (chunks (sc_max_fanout_recipients config)
      (filter (\<lambda>r. recipient_key r \<notin> K) canonical))) = Inr (sd_fanout_chunks dec)"
    "sum_amounts canonical = Inr (sd_total_amount dec)"
    "sum_amounts (filter (\<lambda>r. recipient_key r \<in> K) canonical) = Inr (sd_direct_amount dec)"
    "sum_amounts (filter (\<lambda>r. recipient_key r \<notin> K) canonical) = Inr (sd_fanout_amount dec)"
    "sd_coinbase_output_count dec = sc_reserved_outputs config + length (sd_direct_recipients dec) +
      length (sd_fanout_chunks dec)"
proof -
  from assms obtain total_sats K direct_sats fanout_sats chs outs where
    run: "sum_amounts canonical = Inr total_sats" "direct_keys canonical fl config pk = Inr K"
      "sum_amounts (filter (\<lambda>r. recipient_key r \<in> K) canonical) = Inr direct_sats"
      "sum_amounts (filter (\<lambda>r. recipient_key r \<notin> K) canonical) = Inr fanout_sats"
      "try_map settlement_chunk_of (enumerate 0 (chunks (sc_max_fanout_recipients config)
        (filter (\<lambda>r. recipient_key r \<notin> K) canonical))) = Inr chs"
      "(case usize_add (sc_reserved_outputs config) (length (filter (\<lambda>r. recipient_key r \<in> K) canonical)) of
          None \<Rightarrow> None | Some n \<Rightarrow> usize_add n (length chs)) = Some outs"
    and dec: "sd_direct_recipients dec = filter (\<lambda>r. recipient_key r \<in> K) canonical"
      "sd_fanout_chunks dec = chs" "sd_total_amount dec = total_sats" "sd_direct_amount dec = direct_sats"
      "sd_fanout_amount dec = fanout_sats" "sd_coinbase_output_count dec = outs"
    unfolding decide_settlement_def Let_def by auto
  have "outs = sc_reserved_outputs config + length (filter (\<lambda>r. recipient_key r \<in> K) canonical) + length chs"
    using run(6) by (auto simp: usize_add_def split: if_splits)
  then show thesis by (intro that[of K]) (use run dec in simp_all)
qed

end
