(* ===== verification/Fanout_Fee.thy ===== *)
theory Fanout_Fee
  imports Settlement_Facts
begin

text \<open>
  The fanout fee of \<open>settlement.rs\<close>: its estimate from the market rate, its proportional
  allocation, and the loop that drops recipients the fee would push under the floor.  The
  allocation is the third provider of the apportionment contract.
\<close>

section \<open>The estimate\<close>

definition estimate_ctv_fanout_fee_sats :: "usize \<Rightarrow> fanout_fee_rate_policy \<Rightarrow> prism_error + u64" where
  "estimate_ctv_fanout_fee_sats recipient_count policy =
    (if recipient_count = 0 then Inl (settlement_error ''fanout recipient count must be positive'')
     else if fr_market_fee_rate policy = 0
       then Inl (settlement_error ''market_fee_rate_sats_per_1000_weight must be positive'')
     else if fr_premium_bps policy = 0 then Inl (settlement_error ''premium_bps must be positive'')
     else
     rbind (estimated_ctv_fanout_weight_bytes recipient_count) (\<lambda>fanout_weight.
     rbind (ok_or (case checked_mul (word_of_nat fanout_weight :: u128) (u128_of_u64 (fr_market_fee_rate policy)) of
         None \<Rightarrow> None | Some v \<Rightarrow> checked_mul v (u128_of_u64 (fr_premium_bps policy)))
       (settlement_error ''fanout fee estimate overflowed'')) (\<lambda>numerator.
     let denominator = 1000 * 10000 in
     rbind (ok_or (checked_add numerator (denominator - 1))
       (settlement_error ''fanout fee estimate overflowed'')) (\<lambda>sum.
     ok_or (u64_try_from_u128 (sum div denominator))
       (settlement_error ''fanout fee estimate exceeds uint64'')))))"

section \<open>The allocation\<close>

definition provisional_fee ::
  "u64 \<Rightarrow> u64 \<Rightarrow> settlement_recipient \<Rightarrow> prism_error + fanout_fee_recipient \<times> u128" where
  "provisional_fee fee_sats total_gross r =
    (if total_gross = 0 then Inl (Panic ''attempt to divide by zero'') else
    rbind (ok_or (checked_mul (u128_of_u64 fee_sats) (u128_of_u64 (sr_amount_sats r)))
      (settlement_error ''fanout fee allocation overflowed'')) (\<lambda>fee_product.
    rbind (ok_or (u64_try_from_u128 (fee_product div u128_of_u64 total_gross))
      (settlement_error ''fanout fee share exceeds uint64'')) (\<lambda>fee.
    rbind (ok_or (checked_sub (sr_amount_sats r) fee)
      (settlement_error ''fanout fee exceeds recipient amount'')) (\<lambda>net.
    Inr (\<lparr>fe_recipient_id = sr_recipient_id r, fe_order_key = sr_order_key r, fe_program = sr_program r,
          fe_gross_sats = sr_amount_sats r, fe_fee_sats = fee, fe_net_sats = net\<rparr>,
         fee_product mod u128_of_u64 total_gross)))))"

definition bump_fee :: "fanout_fee_recipient \<times> u128 \<Rightarrow> prism_error + fanout_fee_recipient \<times> u128" where
  "bump_fee p = (case p of (r, remainder) \<Rightarrow>
    rbind (ok_or (checked_add (fe_fee_sats r) 1) (settlement_error ''fanout fee share overflowed'')) (\<lambda>fee.
    rbind (ok_or (checked_sub (fe_gross_sats r) fee)
      (settlement_error ''fanout fee exceeds recipient amount'')) (\<lambda>net.
    Inr (r\<lparr>fe_fee_sats := fee, fe_net_sats := net\<rparr>, remainder))))"

definition fee_remainder_key :: "fanout_fee_recipient \<times> u128 \<Rightarrow> int \<times> settlement_key" where
  "fee_remainder_key p = (- uint (snd p), fee_recipient_key (fst p))"

definition allocate_proportional_fee ::
  "settlement_recipient list \<Rightarrow> u64 \<Rightarrow> u64 \<Rightarrow> prism_error + fanout_fee_recipient list" where
  "allocate_proportional_fee recipients fee_sats total_gross =
    rbind (try_map (provisional_fee fee_sats total_gross) recipients) (\<lambda>allocated.
    rbind (checked_sum (Panic ''attempt to add with overflow'') (\<lambda>p. fe_fee_sats (fst p)) allocated)
      (\<lambda>floor_fee_sum.
    rbind (ok_or (checked_sub fee_sats floor_fee_sum)
      (settlement_error ''fanout fee floor allocation exceeded total fee'')) (\<lambda>remainder_fee.
    let ordered = sort_key fee_remainder_key allocated in
    rbind (try_map bump_fee (take (unat remainder_fee) ordered)) (\<lambda>bumped.
    Inr (map fst (bumped @ drop (unat remainder_fee) ordered))))))"

lemmas fee_evals [evals] = estimate_ctv_fanout_fee_sats_def provisional_fee_def bump_fee_def
  fee_remainder_key_def allocate_proportional_fee_def

subsection \<open>Rows\<close>

abbreviation amount_of :: "settlement_recipient \<Rightarrow> int" where
  "amount_of r \<equiv> uint (sr_amount_sats r)"

definition charged :: "settlement_recipient \<Rightarrow> fanout_fee_recipient \<Rightarrow> bool" where
  "charged r f \<longleftrightarrow> fe_recipient_id f = sr_recipient_id r \<and> fe_order_key f = sr_order_key r \<and>
    fe_program f = sr_program r \<and> fe_gross_sats f = sr_amount_sats r \<and>
    uint (fe_net_sats f) = uint (fe_gross_sats f) - uint (fe_fee_sats f)"

definition charged_recipient :: "fanout_fee_recipient \<Rightarrow> settlement_recipient" where
  "charged_recipient f = \<lparr>sr_recipient_id = fe_recipient_id f, sr_order_key = fe_order_key f,
    sr_program = fe_program f, sr_amount_sats = fe_gross_sats f\<rparr>"

lemma charged_back: "charged r f \<Longrightarrow> charged_recipient f = r"
  by (cases r) (simp add: charged_def charged_recipient_def)

lemma key_charged_recipient [simp]: "recipient_key (charged_recipient f) = fee_recipient_key f"
  by (simp add: recipient_key_def charged_recipient_def fee_recipient_key_def)

lemma provisional_fee_Inr:
  assumes "provisional_fee T W r = Inr p"
  shows "charged r (fst p)" and "uint (fe_fee_sats (fst p)) = uint T * amount_of r div uint W"
    and "uint (snd p) = uint T * amount_of r mod uint W"
  using assms
  by (auto simp: provisional_fee_def charged_def checked_mul_Some u64_try_from_u128_Some
      checked_sub_Some uint_div_distrib uint_mod_distrib)

lemma bump_fee_Inr:
  assumes "bump_fee p = Inr q" and "charged r (fst p)"
  shows "charged r (fst q) \<and> uint (fe_fee_sats (fst q)) = uint (fe_fee_sats (fst p)) + 1"
  using assms by (cases p) (auto simp: bump_fee_def charged_def checked_add_Some checked_sub_Some)

text \<open>The provisional rows in remainder order, and how many of them get one satoshi more.\<close>

lemma fee_order:
  assumes al: "try_map (provisional_fee T W) rs = Inr al" and W: "uint W = (\<Sum>r\<leftarrow>rs. amount_of r)"
    and pos: "0 < uint W"
  defines "ps \<equiv> sort_key fee_remainder_key al"
  defines "rs' \<equiv> map (\<lambda>p. charged_recipient (fst p)) ps"
  defines "left \<equiv> uint T - (\<Sum>r\<leftarrow>rs'. uint T * amount_of r div uint W)"
  shows "mset rs' = mset rs"
    and "i < length ps \<Longrightarrow> charged (rs' ! i) (fst (ps ! i)) \<and>
      uint (fe_fee_sats (fst (ps ! i))) = uint T * amount_of (rs' ! i) div uint W \<and>
      uint (snd (ps ! i)) = uint T * amount_of (rs' ! i) mod uint W"
    and "(\<Sum>p\<leftarrow>al. uint (fe_fee_sats (fst p))) = (\<Sum>r\<leftarrow>rs'. uint T * amount_of r div uint W)"
    and "0 \<le> left" and "left \<le> int (length ps)"
    and "i < nat left \<Longrightarrow> 0 < uint T * amount_of (rs' ! i) mod uint W"
proof -
  have row: "charged (charged_recipient (fst p)) (fst p) \<and>
      uint (fe_fee_sats (fst p)) = uint T * amount_of (charged_recipient (fst p)) div uint W \<and>
      uint (snd p) = uint T * amount_of (charged_recipient (fst p)) mod uint W" if p: "p \<in> set al" for p
  proof -
    obtain r where r: "provisional_fee T W r = Inr p"
      using al p by (auto simp: try_map_Inr list_all2_conv_all_nth in_set_conv_nth)
    show ?thesis using provisional_fee_Inr[OF r] charged_back[OF provisional_fee_Inr(1)[OF r]] by simp
  qed
  have member: "ps ! i \<in> set al" if "i < length ps" for i
    using that by (metis nth_mem set_sort ps_def)
  have len: "length rs' = length ps" by (simp add: rs'_def)
  show prow: "charged (rs' ! i) (fst (ps ! i)) \<and>
      uint (fe_fee_sats (fst (ps ! i))) = uint T * amount_of (rs' ! i) div uint W \<and>
      uint (snd (ps ! i)) = uint T * amount_of (rs' ! i) mod uint W" if "i < length ps" for i
    using row[OF member[OF that]] that by (simp add: rs'_def)
  have "map (\<lambda>p. charged_recipient (fst p)) al = rs"
  proof (rule nth_equalityI)
    show "length (map (\<lambda>p. charged_recipient (fst p)) al) = length rs" using try_map_length[OF al] by simp
    show "map (\<lambda>p. charged_recipient (fst p)) al ! i = rs ! i"
      if "i < length (map (\<lambda>p. charged_recipient (fst p)) al)" for i
      using that try_map_length[OF al] charged_back[OF provisional_fee_Inr(1)[OF try_map_nth[OF al, of i]]]
      by simp
  qed
  then show perm: "mset rs' = mset rs" unfolding rs'_def ps_def by (metis mset_map mset_sort)
  have sumW: "sum_list (map amount_of rs') = uint W" using W perm by (metis mset_map sum_mset_sum_list)
  have "(\<Sum>p\<leftarrow>al. uint (fe_fee_sats (fst p))) = (\<Sum>p\<leftarrow>ps. uint (fe_fee_sats (fst p)))"
    by (rule sum_list_map_mset_eq) (simp add: ps_def)
  also have "\<dots> = (\<Sum>r\<leftarrow>rs'. uint T * amount_of r div uint W)"
    unfolding rs'_def map_map comp_def
    using row by (intro arg_cong[of _ _ sum_list] map_cong) (auto simp: ps_def)
  finally show "(\<Sum>p\<leftarrow>al. uint (fe_fee_sats (fst p))) = (\<Sum>r\<leftarrow>rs'. uint T * amount_of r div uint W)" .
  have "sorted (map fee_remainder_key ps)" by (simp add: ps_def)
  then have "fee_remainder_key (ps ! i) \<le> fee_remainder_key (ps ! j)" if "i < j" "j < length ps" for i j
    using that by (simp add: sorted_iff_nth_mono)
  then have "uint (snd (ps ! j)) \<le> uint (snd (ps ! i))" if "i < j" "j < length ps" for i j
    using that by (fastforce simp: fee_remainder_key_def)
  then have desc: "sorted_wrt (\<lambda>i j. uint T * map amount_of rs' ! j mod sum_list (map amount_of rs') \<le>
      uint T * map amount_of rs' ! i mod sum_list (map amount_of rs')) [0..<length rs']"
    unfolding sumW sorted_wrt_iff_nth_less using prow len by auto
  have idx: "mset [0..<length rs'] = mset [0..<length (map amount_of rs')]" by simp
  have "0 < sum_list (map amount_of rs')" using sumW pos by simp
  note L = largest_remainder[OF this idx desc, unfolded sumW map_map comp_def, folded left_def]
  show left: "0 \<le> left" "left \<le> int (length ps)" using L(1,2) len by simp_all
  show "0 < uint T * amount_of (rs' ! i) mod uint W" if "i < nat left"
  proof -
    have i: "i < length rs'" using that left len by linarith
    have "take (nat left) [0..<length rs'] = [0..<nat left]" using left len by (simp add: take_upt)
    then have "i \<in> set (take (nat left) [0..<length rs'])" using that by simp
    from L(3)[OF this] show ?thesis using i by simp
  qed
qed

text \<open>The rows of a successful allocation.\<close>

lemma fee_rows:
  assumes "allocate_proportional_fee rs T W = Inr out" and "uint W = (\<Sum>r\<leftarrow>rs. amount_of r)" and "0 < uint W"
  obtains rs' k where "mset rs' = mset rs" "list_all2 charged rs' out"
    "k \<le> length rs'" "int k = uint T - (\<Sum>r\<leftarrow>rs'. uint T * amount_of r div uint W)"
    "\<And>i. i < length rs' \<Longrightarrow> uint (fe_fee_sats (out ! i)) = uint T * amount_of (rs' ! i) div uint W + (if i < k then 1 else 0)"
    "\<And>i. i < k \<Longrightarrow> 0 < uint T * amount_of (rs' ! i) mod uint W"
proof -
  from assms(1) obtain al fs rem bumped where
    al: "try_map (provisional_fee T W) rs = Inr al" and
    fs: "checked_sum (Panic ''attempt to add with overflow'') (\<lambda>p. fe_fee_sats (fst p)) al = Inr fs" and
    rem: "checked_sub T fs = Some rem" and
    bumped: "try_map bump_fee (take (unat rem) (sort_key fee_remainder_key al)) = Inr bumped" and
    out: "out = map fst (bumped @ drop (unat rem) (sort_key fee_remainder_key al))"
    by (auto simp: allocate_proportional_fee_def Let_def)
  let ?ps = "sort_key fee_remainder_key al"
  define rs' where "rs' = map (\<lambda>p. charged_recipient (fst p)) ?ps"
  note O = fee_order[OF al assms(2,3), folded rs'_def]
  have k: "int (unat rem) = uint T - (\<Sum>r\<leftarrow>rs'. uint T * amount_of r div uint W)"
    using rem fs O(3) by (simp add: checked_sub_Some checked_sum_Inr flip: uint_nat)
  have nk: "nat (uint T - (\<Sum>r\<leftarrow>rs'. uint T * amount_of r div uint W)) = unat rem"
    using nat_int[of "unat rem"] unfolding k .
  have len: "length rs' = length ?ps" by (simp add: rs'_def)
  have "int (unat rem) \<le> int (length rs')" unfolding k using O(5) len by simp
  then have kn: "unat rem \<le> length rs'" by (simp only: of_nat_le_iff)
  have bl: "length bumped = unat rem" using try_map_length[OF bumped] kn len by simp
  have bump: "bump_fee (?ps ! i) = Inr (bumped ! i)" if "i < unat rem" for i
    using try_map_nth[OF bumped, of i] that kn len by simp
  have out_nth: "out ! i = fst (if i < unat rem then bumped ! i else ?ps ! i)" if "i < length rs'" for i
    using that kn len bl by (auto simp: out nth_append simp del: map_append)
  have fin: "charged (rs' ! i) (out ! i) \<and>
      uint (fe_fee_sats (out ! i)) = uint T * amount_of (rs' ! i) div uint W + (if i < unat rem then 1 else 0)"
    if i: "i < length rs'" for i
  proof (cases "i < unat rem")
    case True
    have "charged (rs' ! i) (fst (?ps ! i))" using O(2)[of i] i len by simp
    from bump_fee_Inr[OF bump[OF True] this] show ?thesis using O(2)[of i] i len True out_nth[OF i] by simp
  next
    case False
    then show ?thesis using O(2)[of i] i len out_nth[OF i] by simp
  qed
  show thesis
  proof (rule that[OF O(1) _ kn k])
    show "list_all2 charged rs' out"
      using fin kn len bl by (simp add: list_all2_conv_all_nth out del: map_append)
    show "uint (fe_fee_sats (out ! i)) = uint T * amount_of (rs' ! i) div uint W + (if i < unat rem then 1 else 0)"
      if "i < length rs'" for i using fin[OF that] by blast
    show "0 < uint T * amount_of (rs' ! i) mod uint W" if "i < unat rem" for i
      using O(6)[of i] that by (simp add: nk)
  qed
qed

subsection \<open>The apportionment contract\<close>

text \<open>
  The allocation as the loop calls it: over the sum of the candidates, which exceeds the fee.
\<close>

definition fee_split :: "u64 \<Rightarrow> settlement_recipient list \<Rightarrow> prism_error + (settlement_recipient \<times> u64) list" where
  "fee_split fee_sats candidates =
    rbind (sum_amounts candidates) (\<lambda>gross.
    if gross \<le> fee_sats then Inl (settlement_error ''fee not below the candidates'')
    else rbind (allocate_proportional_fee candidates fee_sats gross) (\<lambda>rows.
    Inr (map (\<lambda>f. (charged_recipient f, fe_fee_sats f)) rows)))"

lemma fee_split_rows:
  assumes "fee_split T rs = Inr ys"
  obtains W out where "sum_amounts rs = Inr W" "uint W = (\<Sum>r\<leftarrow>rs. amount_of r)" "uint T < uint W"
    "allocate_proportional_fee rs T W = Inr out" "ys = map (\<lambda>f. (charged_recipient f, fe_fee_sats f)) out"
  using assms by (auto simp: fee_split_def sum_amounts_Inr word_le_def not_le)

interpretation fee_alloc: apportionment fee_split amount_of
proof unfold_locales
  fix T rs ys
  assume split: "fee_split T rs = Inr ys"
  then obtain W out where W: "uint W = (\<Sum>r\<leftarrow>rs. amount_of r)" "uint T < uint W"
    and out: "allocate_proportional_fee rs T W = Inr out"
    and ys: "ys = map (\<lambda>f. (charged_recipient f, fe_fee_sats f)) out"
    by (rule fee_split_rows) blast
  have pos: "0 < uint W" using W(2) uint_nonneg[of T] by linarith
  from out W(1) pos obtain rs' k where perm: "mset rs' = mset rs" and ch: "list_all2 charged rs' out"
    and k: "k \<le> length rs'" "int k = uint T - (\<Sum>r\<leftarrow>rs'. uint T * amount_of r div uint W)"
    and fee: "\<And>i. i < length rs' \<Longrightarrow> uint (fe_fee_sats (out ! i)) =
      uint T * amount_of (rs' ! i) div uint W + (if i < k then 1 else 0)"
    and rem: "\<And>i. i < k \<Longrightarrow> 0 < uint T * amount_of (rs' ! i) mod uint W"
    by (rule fee_rows) blast
  have len: "length out = length rs'" using ch by (simp add: list_all2_lengthD)
  have row: "ys ! i = (rs' ! i, fe_fee_sats (out ! i))" if "i < length rs'" for i
    using that ch len charged_back by (auto simp: ys list_all2_conv_all_nth)
  have firsts: "map fst ys = rs'" using row len by (intro nth_equalityI) (simp_all add: ys)
  then show "mset (map fst ys) = mset rs" using perm by simp
  have "(\<Sum>y\<leftarrow>ys. uint (snd y)) = (\<Sum>i<length rs'. uint T * amount_of (rs' ! i) div uint W + (if i < k then 1 else 0))"
    using row fee len by (simp add: sum_list_sum_nth atLeast0LessThan ys)
  also have "\<dots> = (\<Sum>r\<leftarrow>rs'. uint T * amount_of r div uint W) + (\<Sum>i<length rs'. if i < k then 1 else 0)"
    by (simp add: sum.distrib sum_list_sum_nth atLeast0LessThan)
  also have "(\<Sum>i<length rs'. if i < k then 1 else 0 :: int) = int k"
  proof -
    have "{..<length rs'} \<inter> {i. i < k} = {..<k}" using k(1) by auto
    then show ?thesis by (simp add: sum.If_cases)
  qed
  finally show "(\<Sum>y\<leftarrow>ys. uint (snd y)) = uint T" using k(2) by simp
  show "0 < (\<Sum>r\<leftarrow>rs. amount_of r) \<and> (\<forall>r\<in>set rs. 0 \<le> amount_of r)" using W pos by simp
  fix y assume "y \<in> set ys"
  then obtain i where i: "i < length rs'" "y = ys ! i" using len by (auto simp: in_set_conv_nth ys)
  show "uint T * amount_of (fst y) div (\<Sum>r\<leftarrow>rs. amount_of r) \<le> uint (snd y) \<and>
      uint (snd y) \<le> uint T * amount_of (fst y) div (\<Sum>r\<leftarrow>rs. amount_of r) +
        (if uint T * amount_of (fst y) mod (\<Sum>r\<leftarrow>rs. amount_of r) = 0 then 0 else 1)"
    using row[OF i(1)] fee[OF i(1)] rem[of i] by (auto simp: i(2) simp flip: W(1))
qed

end
