(* ===== verification/Fanout_Decision.thy ===== *)
theory Fanout_Decision
  imports Fanout_Fee
begin

text \<open>
  The loop of \<open>apply_proportional_fanout_fee\<close>: recipients whose net amount would fall under
  the floor are taken out, without a fee, and the fee is allocated again over the rest.  It
  ends because every turn that repeats takes at least one recipient out; it never fails once
  the recipients are valid.
\<close>

section \<open>The loop\<close>

definition carried_fanout_fee_recipient :: "settlement_recipient \<Rightarrow> fanout_fee_recipient" where
  "carried_fanout_fee_recipient r = \<lparr>fe_recipient_id = sr_recipient_id r, fe_order_key = sr_order_key r,
    fe_program = sr_program r, fe_gross_sats = sr_amount_sats r, fe_fee_sats = 0,
    fe_net_sats = sr_amount_sats r\<rparr>"

definition waived :: "fanout_fee_recipient \<Rightarrow> fanout_fee_recipient" where
  "waived f = f\<lparr>fe_fee_sats := 0, fe_net_sats := fe_gross_sats f\<rparr>"

definition fee_decision ::
  "u64 \<Rightarrow> u64 \<Rightarrow> u64 \<Rightarrow> fanout_fee_recipient list \<Rightarrow> fanout_fee_recipient list \<Rightarrow> fanout_fee_decision" where
  "fee_decision total_gross fee_sats applied payable carried =
    \<lparr>fd_total_gross_sats = total_gross, fd_requested_fee_sats = fee_sats, fd_applied_fee_sats = applied,
     fd_payable = sort_key fee_recipient_key payable, fd_carried = sort_key fee_recipient_key carried\<rparr>"

definition below_floor :: "u64 \<Rightarrow> fanout_fee_recipient list \<Rightarrow> fanout_fee_recipient list" where
  "below_floor min_output rows = filter (\<lambda>f. \<not> min_output \<le> fe_net_sats f) rows"

definition retained :: "fanout_fee_recipient list \<Rightarrow> settlement_recipient list \<Rightarrow> settlement_recipient list" where
  "retained below candidates = filter (\<lambda>r. recipient_key r \<notin> fee_recipient_key ` set below) candidates"

lemma allocated_keys:
  assumes "sum_amounts candidates = Inr gross" and "\<not> gross \<le> fee_sats"
    and "allocate_proportional_fee candidates fee_sats gross = Inr rows"
  shows "fee_recipient_key ` set rows = recipient_key ` set candidates"
proof -
  have "fee_split fee_sats candidates = Inr (map (\<lambda>f. (charged_recipient f, fe_fee_sats f)) rows)"
    using assms by (simp add: fee_split_def)
  from fee_alloc.alloc_set[OF this] have "charged_recipient ` set rows = set candidates"
    by (simp add: image_image)
  then have "recipient_key ` charged_recipient ` set rows = recipient_key ` set candidates" by simp
  then show ?thesis by (simp add: image_image)
qed

lemma retained_shorter:
  assumes "sum_amounts candidates = Inr gross" and "\<not> gross \<le> fee_sats"
    and "allocate_proportional_fee candidates fee_sats gross = Inr rows" and "below_floor m rows \<noteq> []"
  shows "length (retained (below_floor m rows) candidates) < length candidates"
proof -
  obtain f where f: "f \<in> set (below_floor m rows)" using assms(4) by (meson list.set_sel(1))
  then have "fee_recipient_key f \<in> recipient_key ` set candidates"
    using allocated_keys[OF assms(1-3)] by (auto simp: below_floor_def)
  then obtain r where "r \<in> set candidates" "fee_recipient_key f = recipient_key r" by (rule imageE)
  then have "r \<in> set candidates" "recipient_key r \<in> fee_recipient_key ` set (below_floor m rows)"
    using f by (simp, metis image_eqI)
  then show ?thesis unfolding retained_def by (intro length_filter_less) auto
qed

function fee_loop ::
  "u64 \<Rightarrow> u64 \<Rightarrow> u64 \<Rightarrow> settlement_recipient list \<Rightarrow> fanout_fee_recipient list
    \<Rightarrow> prism_error + fanout_fee_decision"
where
  "fee_loop fee_sats min_output total_gross candidates carried =
    (if candidates = [] then Inr (fee_decision total_gross fee_sats 0 [] carried)
     else
     rbind (sum_amounts candidates) (\<lambda>gross.
     if gross \<le> fee_sats
       then Inr (fee_decision total_gross fee_sats 0 [] (carried @ map carried_fanout_fee_recipient candidates))
     else
     rbind (allocate_proportional_fee candidates fee_sats gross) (\<lambda>rows.
     if below_floor min_output rows = [] then Inr (fee_decision total_gross fee_sats fee_sats rows carried)
     else fee_loop fee_sats min_output total_gross (retained (below_floor min_output rows) candidates)
       (carried @ map waived (below_floor min_output rows)))))"
  by pat_completeness auto

termination
  by (relation "measure (\<lambda>(_, _, _, candidates, _). length candidates)") (auto intro: retained_shorter)

declare fee_loop.simps [simp del]

definition apply_proportional_fanout_fee ::
  "crypto \<Rightarrow> settlement_recipient list \<Rightarrow> u64 \<Rightarrow> u64 \<Rightarrow> prism_error + fanout_fee_decision" where
  "apply_proportional_fanout_fee c recipients fee_sats min_output =
    (if min_output = 0 then Inl (settlement_error ''min_output_sats must be positive'')
     else if recipients = [] then Inl (settlement_error ''no fanout recipients to charge'')
     else
     rbind (canonical_recipients c recipients) (\<lambda>candidates.
     rbind (sum_amounts candidates) (\<lambda>total_gross.
     fee_loop fee_sats min_output total_gross candidates [])))"

definition apply_estimated_proportional_fanout_fee ::
  "crypto \<Rightarrow> settlement_recipient list \<Rightarrow> u64 \<Rightarrow> fanout_fee_rate_policy \<Rightarrow> prism_error + fanout_fee_decision" where
  "apply_estimated_proportional_fanout_fee c recipients min_output policy =
    rbind (estimate_ctv_fanout_fee_sats (length recipients) policy) (\<lambda>fee_sats.
    apply_proportional_fanout_fee c recipients fee_sats min_output)"

lemmas fee_loop_evals [evals] = carried_fanout_fee_recipient_def waived_def fee_decision_def
  below_floor_def retained_def fee_loop.simps apply_proportional_fanout_fee_def
  apply_estimated_proportional_fanout_fee_def

section \<open>Never an error\<close>

text \<open>The floors of the shares stay under the amounts, and so does the extra satoshi.\<close>

lemma floor_share_bounds:
  fixes T a W :: int
  assumes "0 \<le> T" "T < W" "0 \<le> a" "a \<le> W"
  shows "0 \<le> T * a div W" and "T * a div W \<le> T" and "T * a div W \<le> a"
    and "0 < T * a mod W \<Longrightarrow> T * a div W < a"
proof -
  have W: "0 < W" using assms by simp
  show "0 \<le> T * a div W" using assms by (simp add: pos_imp_zdiv_nonneg_iff)
  have "T * a \<le> T * W" using assms by (intro mult_left_mono) simp_all
  then have "T * a div W \<le> T * W div W" using W by (intro zdiv_mono1)
  then show "T * a div W \<le> T" using W by simp
  have "T * a \<le> W * a" using assms by (intro mult_right_mono) simp_all
  then have "T * a div W \<le> W * a div W" using W by (intro zdiv_mono1)
  then show le: "T * a div W \<le> a" using W by simp
  assume "0 < T * a mod W"
  then have "a \<noteq> 0" by auto
  then have "T * a < W * a" using assms by (intro mult_strict_right_mono) simp_all
  then have "W * (T * a div W) < W * a" using \<open>0 < T * a mod W\<close> mult_div_mod_eq[of W "T * a"] by linarith
  then show "T * a div W < a" using W by simp
qed

lemma try_map_ex: "(\<And>x. x \<in> set xs \<Longrightarrow> \<exists>y. f x = Inr y) \<Longrightarrow> \<exists>ys. try_map f xs = Inr ys"
  by (induction xs) auto

lemma member_le_sum: "r \<in> set rs \<Longrightarrow> amount_of r \<le> (\<Sum>r\<leftarrow>rs. amount_of r)"
  by (rule member_le_sum_list) auto

lemma provisional_fee_total:
  assumes "uint T < uint W" and "amount_of r \<le> uint W"
  shows "\<exists>p. provisional_fee T W r = Inr p"
proof -
  note B = floor_share_bounds[OF uint_nonneg assms(1) uint_nonneg assms(2)]
  have W: "W \<noteq> 0" using assms(1) uint_nonneg[of T] by auto
  let ?q = "word_of_int (uint T * amount_of r div uint W) :: u64"
  have q: "uint ?q = uint T * amount_of r div uint W"
    using B(1,2) u64_bound[of T] by (intro uint_word_of_int_small) simp_all
  have "uint T * amount_of r < 2 ^ 64 * 2 ^ 64"
    using u64_bound[of T] u64_bound[of "sr_amount_sats r"] by (intro mult_strict_mono') auto
  then have "uint T * amount_of r < 2 ^ 128" by simp
  then obtain prod where prod: "checked_mul (u128_of_u64 T) (u128_of_u64 (sr_amount_sats r)) = Some prod"
    by (simp add: checked_mul_def)
  then have uprod: "uint prod = uint T * amount_of r" by (simp add: checked_mul_Some)
  have "u64_try_from_u128 (prod div u128_of_u64 W) = Some ?q"
    using q by (simp add: u64_try_from_u128_Some uint_div_distrib uprod)
  moreover have "checked_sub (sr_amount_sats r) ?q = Some (sr_amount_sats r - ?q)"
    using B(3) q by (simp add: checked_sub_def)
  ultimately show ?thesis using W prod by (simp add: provisional_fee_def)
qed

lemma bump_fee_total:
  assumes "provisional_fee T W r = Inr p" and "uint T < uint W" and "amount_of r \<le> uint W"
    and "0 < uint (snd p)"
  shows "\<exists>q. bump_fee p = Inr q"
proof -
  note F = provisional_fee_Inr[OF assms(1)]
  note B = floor_share_bounds[OF uint_nonneg assms(2) uint_nonneg assms(3)]
  have lt: "uint (fe_fee_sats (fst p)) < uint (fe_gross_sats (fst p))"
    using B(4) F assms(4) by (simp add: charged_def)
  then have "uint (fe_fee_sats (fst p)) + uint (1 :: u64) < 2 ^ 64"
    using u64_bound[of "fe_gross_sats (fst p)"] by simp
  then have a: "checked_add (fe_fee_sats (fst p)) 1 = Some (fe_fee_sats (fst p) + 1)"
    by (simp add: checked_add_def)
  then have "uint (fe_fee_sats (fst p) + 1) = uint (fe_fee_sats (fst p)) + 1" by (simp add: checked_add_Some)
  then have "checked_sub (fe_gross_sats (fst p)) (fe_fee_sats (fst p) + 1) =
      Some (fe_gross_sats (fst p) - (fe_fee_sats (fst p) + 1))"
    using lt by (simp add: checked_sub_def)
  with a show ?thesis by (simp add: bump_fee_def split_beta)
qed

lemma allocate_total:
  assumes W: "uint W = (\<Sum>r\<leftarrow>rs. amount_of r)" and lt: "uint T < uint W"
  shows "\<exists>out. allocate_proportional_fee rs T W = Inr out"
proof -
  have pos: "0 < uint W" using lt uint_nonneg[of T] by linarith
  have le: "amount_of r \<le> uint W" if "r \<in> set rs" for r using member_le_sum[OF that] W by simp
  obtain al where al: "try_map (provisional_fee T W) rs = Inr al"
    using try_map_ex[of rs "provisional_fee T W"] provisional_fee_total[OF lt le] by blast
  let ?ps = "sort_key fee_remainder_key al"
  define rs' where "rs' = map (\<lambda>p. charged_recipient (fst p)) ?ps"
  define left where "left = uint T - (\<Sum>r\<leftarrow>rs'. uint T * amount_of r div uint W)"
  note O = fee_order[OF al W pos, folded rs'_def, folded left_def]
  have "(\<Sum>p\<leftarrow>al. uint (fe_fee_sats (fst p))) < 2 ^ LENGTH(64)"
    unfolding O(3) using O(4) u64_bound[of T] by (simp add: left_def)
  from checked_sum_Inr_ex[OF this, of "Panic ''attempt to add with overflow''"] obtain fs :: u64 where
    fs: "checked_sum (Panic ''attempt to add with overflow'') (\<lambda>p. fe_fee_sats (fst p)) al = Inr fs" by blast
  then have ufs: "uint fs = uint T - left" using O(3) by (simp add: checked_sum_Inr left_def)
  then have "checked_sub T fs = Some (T - fs)" using O(4) by (simp add: checked_sub_def)
  then have rem: "checked_sub T fs = Some (T - fs)" "uint (T - fs) = left"
    using ufs by (simp_all add: checked_sub_Some)
  then have kn: "unat (T - fs) = nat left" by (simp only: unat_eq_nat_uint)
  have "\<exists>q. bump_fee p = Inr q" if "p \<in> set (take (nat left) ?ps)" for p
  proof -
    from that obtain i where i: "i < nat left" "i < length ?ps" "p = ?ps ! i" by (auto simp: in_set_conv_nth)
    have "p \<in> set al" using i by (metis nth_mem set_sort)
    then obtain j where j: "j < length al" "p = al ! j" by (auto simp: in_set_conv_nth)
    then have pr: "provisional_fee T W (rs ! j) = Inr p" "rs ! j \<in> set rs"
      using try_map_nth[OF al, of j] try_map_length[OF al] by simp_all
    have "0 < uint (snd p)" using O(6)[OF i(1)] O(2)[OF i(2)] i(3) by simp
    from bump_fee_total[OF pr(1) lt le[OF pr(2)] this] show ?thesis .
  qed
  then obtain bumped where "try_map bump_fee (take (nat left) ?ps) = Inr bumped"
    using try_map_ex[of "take (nat left) ?ps" bump_fee] by blast
  then show ?thesis using al fs rem(1) kn by (simp add: allocate_proportional_fee_def Let_def)
qed

section \<open>What the loop leaves unchanged\<close>

lemma below_floor_split:
  assumes perm: "mset (map charged_recipient rows) = mset candidates"
    and dist: "distinct (map recipient_key candidates)"
  shows "mset (retained (below_floor m rows) candidates) + mset (map charged_recipient (below_floor m rows))
    = mset candidates"
proof -
  let ?B = "below_floor m rows"
  have "mset (map fee_recipient_key rows) = mset (map recipient_key (map charged_recipient rows))"
    by (simp add: comp_def)
  also have "\<dots> = mset (map recipient_key candidates)" using perm by (metis mset_map)
  finally have "distinct (map fee_recipient_key rows)" using dist by (metis mset_eq_imp_distinct_iff)
  then have inj: "inj_on fee_recipient_key (set rows)" by (simp add: distinct_map)
  have key: "fee_recipient_key f \<in> fee_recipient_key ` set ?B \<longleftrightarrow> \<not> m \<le> fe_net_sats f" if "f \<in> set rows" for f
    using that inj_on_image_mem_iff[OF inj that, of "set ?B"] by (auto simp: below_floor_def)
  let ?P = "\<lambda>r. recipient_key r \<notin> fee_recipient_key ` set ?B"
  have "mset (retained ?B candidates) = filter_mset ?P (mset (map charged_recipient rows))"
    using perm by (simp add: retained_def)
  also have "\<dots> = mset (map charged_recipient (filter (?P \<circ> charged_recipient) rows))"
    by (simp only: mset_filter[symmetric] filter_map)
  also have "filter (?P \<circ> charged_recipient) rows = filter (\<lambda>f. m \<le> fe_net_sats f) rows"
    using key by (intro filter_cong) auto
  finally have "mset (retained ?B candidates) + mset (map charged_recipient ?B) =
      image_mset charged_recipient (mset (filter (\<lambda>f. m \<le> fe_net_sats f) rows @ ?B))"
    by simp
  also have "mset (filter (\<lambda>f. m \<le> fe_net_sats f) rows @ ?B) = mset rows" by (simp add: below_floor_def)
  finally show ?thesis using perm by simp
qed

text \<open>What the decision owes: the rows collected so far and those still to be charged.\<close>

definition fee_settled :: "u64 \<Rightarrow> u64 \<Rightarrow> fanout_fee_decision \<Rightarrow> bool" where
  "fee_settled fee_sats m d \<longleftrightarrow>
    fd_requested_fee_sats d = fee_sats \<and>
    fd_applied_fee_sats d = (if fd_payable d = [] then 0 else fee_sats) \<and>
    (\<Sum>f\<leftarrow>fd_payable d. uint (fe_fee_sats f)) = uint (fd_applied_fee_sats d) \<and>
    (\<forall>f\<in>set (fd_payable d). uint (fe_net_sats f) = uint (fe_gross_sats f) - uint (fe_fee_sats f) \<and> m \<le> fe_net_sats f) \<and>
    (\<forall>f\<in>set (fd_carried d). fe_fee_sats f = 0 \<and> fe_net_sats f = fe_gross_sats f)"

definition fee_fair :: "u64 \<Rightarrow> fanout_fee_recipient list \<Rightarrow> bool" where
  "fee_fair fee_sats rows \<longleftrightarrow>
    (\<forall>f\<in>set rows. uint fee_sats * uint (fe_gross_sats f) div (\<Sum>f\<leftarrow>rows. uint (fe_gross_sats f)) \<le> uint (fe_fee_sats f) \<and>
      uint (fe_fee_sats f) \<le> uint fee_sats * uint (fe_gross_sats f) div (\<Sum>f\<leftarrow>rows. uint (fe_gross_sats f)) +
        (if uint fee_sats * uint (fe_gross_sats f) mod (\<Sum>f\<leftarrow>rows. uint (fe_gross_sats f)) = 0 then 0 else 1))"

lemma charged_recipient_carried [simp]: "charged_recipient (carried_fanout_fee_recipient r) = r"
  by (simp add: charged_recipient_def carried_fanout_fee_recipient_def)

lemma charged_recipient_waived [simp]: "charged_recipient (waived f) = charged_recipient f"
  by (simp add: charged_recipient_def waived_def)

lemma image_mset_carried [simp]:
  "image_mset charged_recipient (image_mset carried_fanout_fee_recipient M) = M"
  by (simp add: multiset.map_comp comp_def)

lemma carried_fields [simp]:
  "fe_fee_sats (carried_fanout_fee_recipient r) = 0"
  "fe_net_sats (carried_fanout_fee_recipient r) = sr_amount_sats r"
  "fe_gross_sats (carried_fanout_fee_recipient r) = sr_amount_sats r"
  by (simp_all add: carried_fanout_fee_recipient_def)

text \<open>A turn of the loop that allocates the fee.\<close>

lemma allocated_facts:
  assumes "sum_amounts candidates = Inr gross" and "\<not> gross \<le> fee_sats"
    and "allocate_proportional_fee candidates fee_sats gross = Inr rows"
  shows "mset (map charged_recipient rows) = mset candidates"
    and "(\<Sum>f\<leftarrow>rows. uint (fe_fee_sats f)) = uint fee_sats"
    and "\<forall>f\<in>set rows. uint (fe_net_sats f) = uint (fe_gross_sats f) - uint (fe_fee_sats f)"
    and "fee_fair fee_sats rows"
proof -
  have split: "fee_split fee_sats candidates = Inr (map (\<lambda>f. (charged_recipient f, fe_fee_sats f)) rows)"
    using assms by (simp add: fee_split_def)
  show perm: "mset (map charged_recipient rows) = mset candidates"
    using fee_alloc.alloc_items[OF split] by (simp add: comp_def)
  show "(\<Sum>f\<leftarrow>rows. uint (fe_fee_sats f)) = uint fee_sats"
    using fee_alloc.alloc_total[OF split] by (simp add: comp_def)
  have gross: "uint gross = (\<Sum>r\<leftarrow>candidates. amount_of r)" using assms(1) by (simp add: sum_amounts_Inr)
  moreover have "0 < uint gross" using assms(2) uint_nonneg[of fee_sats] unfolding word_le_def by linarith
  ultimately obtain rs' where "list_all2 charged rs' rows" using fee_rows[OF assms(3)] by metis
  then show "\<forall>f\<in>set rows. uint (fe_net_sats f) = uint (fe_gross_sats f) - uint (fe_fee_sats f)"
    by (auto simp: list_all2_conv_all_nth charged_def in_set_conv_nth)
  have "(\<Sum>r\<leftarrow>candidates. amount_of r) = (\<Sum>r\<leftarrow>map charged_recipient rows. amount_of r)"
    by (rule sum_list_map_mset_eq) (simp only: perm)
  also have "\<dots> = (\<Sum>f\<leftarrow>rows. uint (fe_gross_sats f))" by (simp add: comp_def charged_recipient_def)
  finally have sums: "(\<Sum>r\<leftarrow>candidates. amount_of r) = (\<Sum>f\<leftarrow>rows. uint (fe_gross_sats f))" .
  have amount: "amount_of (charged_recipient f) = uint (fe_gross_sats f)" for f
    by (simp add: charged_recipient_def)
  show "fee_fair fee_sats rows"
    unfolding fee_fair_def
  proof
    fix f assume "f \<in> set rows"
    then have "(charged_recipient f, fe_fee_sats f) \<in> set (map (\<lambda>f. (charged_recipient f, fe_fee_sats f)) rows)"
      by simp
    from fee_alloc.alloc_quota[OF split this, unfolded sums fst_conv snd_conv amount]
    show "uint fee_sats * uint (fe_gross_sats f) div (\<Sum>f\<leftarrow>rows. uint (fe_gross_sats f)) \<le> uint (fe_fee_sats f) \<and>
      uint (fe_fee_sats f) \<le> uint fee_sats * uint (fe_gross_sats f) div (\<Sum>f\<leftarrow>rows. uint (fe_gross_sats f)) +
        (if uint fee_sats * uint (fe_gross_sats f) mod (\<Sum>f\<leftarrow>rows. uint (fe_gross_sats f)) = 0 then 0 else 1)" .
  qed
qed

lemma fee_fair_perm:
  assumes "mset xs = mset ys" and "fee_fair fee_sats xs"
  shows "fee_fair fee_sats ys"
proof -
  have "set xs = set ys" using assms(1) by (metis set_mset_mset)
  moreover have "(\<Sum>f\<leftarrow>xs. uint (fe_gross_sats f)) = (\<Sum>f\<leftarrow>ys. uint (fe_gross_sats f))"
    by (rule sum_list_map_mset_eq[OF assms(1)])
  ultimately show ?thesis using assms(2) by (simp add: fee_fair_def)
qed

lemma fee_loop_turn:
  assumes "fee_loop fee_sats m t candidates carried = Inr d" and "candidates \<noteq> []"
  obtains gross where "sum_amounts candidates = Inr gross" "gross \<le> fee_sats"
      "d = fee_decision t fee_sats 0 [] (carried @ map carried_fanout_fee_recipient candidates)"
  | gross rows where "sum_amounts candidates = Inr gross" "\<not> gross \<le> fee_sats"
      "allocate_proportional_fee candidates fee_sats gross = Inr rows" "below_floor m rows = []"
      "d = fee_decision t fee_sats fee_sats rows carried"
  | gross rows where "sum_amounts candidates = Inr gross" "\<not> gross \<le> fee_sats"
      "allocate_proportional_fee candidates fee_sats gross = Inr rows" "below_floor m rows \<noteq> []"
      "fee_loop fee_sats m t (retained (below_floor m rows) candidates) (carried @ map waived (below_floor m rows)) = Inr d"
proof -
  let ?C = "carried @ map carried_fanout_fee_recipient candidates"
  from assms obtain gross where g: "sum_amounts candidates = Inr gross"
    and rest: "(if gross \<le> fee_sats then Inr (fee_decision t fee_sats 0 [] ?C) else
      rbind (allocate_proportional_fee candidates fee_sats gross) (\<lambda>rows.
      if below_floor m rows = [] then Inr (fee_decision t fee_sats fee_sats rows carried)
      else fee_loop fee_sats m t (retained (below_floor m rows) candidates)
        (carried @ map waived (below_floor m rows)))) = Inr d"
    unfolding fee_loop.simps[of fee_sats m t candidates carried] rbind_Inr by auto
  show thesis
  proof (cases "gross \<le> fee_sats")
    case True
    then show thesis using that(1)[OF g True] rest by simp
  next
    case False
    then obtain rows where r: "allocate_proportional_fee candidates fee_sats gross = Inr rows"
      and rest': "(if below_floor m rows = [] then Inr (fee_decision t fee_sats fee_sats rows carried)
      else fee_loop fee_sats m t (retained (below_floor m rows) candidates)
        (carried @ map waived (below_floor m rows))) = Inr d"
      using rest by auto
    show thesis using that(2)[OF g False r] that(3)[OF g False r] rest'
      by (cases "below_floor m rows = []") simp_all
  qed
qed

lemma fee_decision_fields [simp]:
  "fd_total_gross_sats (fee_decision t r a ps cs) = t" "fd_requested_fee_sats (fee_decision t r a ps cs) = r"
  "fd_applied_fee_sats (fee_decision t r a ps cs) = a"
  "fd_payable (fee_decision t r a ps cs) = sort_key fee_recipient_key ps"
  "fd_carried (fee_decision t r a ps cs) = sort_key fee_recipient_key cs"
  by (simp_all add: fee_decision_def)

lemma below_floor_subset: "set (below_floor m rows) \<subseteq> set rows"
  by (auto simp: below_floor_def)

lemma sort_key_Nil_iff [simp]: "sort_key f xs = [] \<longleftrightarrow> xs = []"
  by (metis mset_sort mset_zero_iff)

lemma sum_list_sort_key [simp]: "(\<Sum>x\<leftarrow>sort_key k xs. f x) = (\<Sum>x\<leftarrow>xs. f x)" for f :: "'a \<Rightarrow> int"
  by (rule sum_list_map_mset_eq) simp

lemma fee_loop_facts:
  assumes "fee_loop fee_sats m t candidates carried = Inr d"
    and "distinct (map recipient_key candidates)"
    and "\<forall>f\<in>set carried. fe_fee_sats f = 0 \<and> fe_net_sats f = fe_gross_sats f"
  shows "fd_total_gross_sats d = t \<and> fee_settled fee_sats m d \<and> fee_fair fee_sats (fd_payable d) \<and>
    mset (map charged_recipient (fd_payable d)) + mset (map charged_recipient (fd_carried d)) =
      mset candidates + mset (map charged_recipient carried) \<and>
    sorted (map fee_recipient_key (fd_payable d)) \<and> sorted (map fee_recipient_key (fd_carried d))"
  using assms
proof (induction "length candidates" arbitrary: candidates carried rule: less_induct)
  case less
  show ?case
  proof (cases "candidates = []")
    case True
    then have "d = fee_decision t fee_sats 0 [] carried"
      using less.prems(1) by (simp add: fee_loop.simps)
    then show ?thesis using less.prems(3) True by (simp add: fee_settled_def fee_fair_def)
  next
    case False
    from less.prems(1) False show ?thesis
    proof (cases rule: fee_loop_turn)
      case (1 gross)
      then show ?thesis using less.prems(3)
        by (auto simp: fee_settled_def fee_fair_def)
    next
      case (2 gross rows)
      note A = allocated_facts[OF 2(1-3)]
      have ne: "rows \<noteq> []" using A(1) False by auto
      have floor: "\<forall>f\<in>set rows. m \<le> fe_net_sats f" using 2(4) by (auto simp: below_floor_def filter_empty_conv)
      have "fee_settled fee_sats m d"
        using 2(5) A ne floor less.prems(3) by (simp add: fee_settled_def)
      moreover have "fee_fair fee_sats (fd_payable d)"
        using fee_fair_perm[OF _ A(4), of "fd_payable d"] 2(5) by simp
      ultimately show ?thesis using A(1) 2(5) by simp
    next
      case (3 gross rows)
      note A = allocated_facts[OF 3(1-3)]
      have d: "distinct (map recipient_key (retained (below_floor m rows) candidates))"
        using less.prems(2) by (simp add: retained_def distinct_map_filter)
      have w: "\<forall>f\<in>set (carried @ map waived (below_floor m rows)). fe_fee_sats f = 0 \<and> fe_net_sats f = fe_gross_sats f"
        using less.prems(3) by (auto simp: waived_def)
      note IH = less.hyps[OF retained_shorter[OF 3(1-4)] 3(5) d w]
      have "mset (retained (below_floor m rows) candidates) +
          mset (map charged_recipient (carried @ map waived (below_floor m rows))) =
          mset candidates + mset (map charged_recipient carried)"
        using below_floor_split[OF A(1) less.prems(2), of m] by (simp add: comp_def add.assoc add.commute add.left_commute)
      then show ?thesis using IH by metis
    qed
  qed
qed

lemma fee_loop_total:
  assumes "(\<Sum>r\<leftarrow>candidates. amount_of r) < 2 ^ 64"
  shows "\<exists>d. fee_loop fee_sats m t candidates carried = Inr d"
  using assms
proof (induction "length candidates" arbitrary: candidates carried rule: less_induct)
  case less
  obtain gross where g: "sum_amounts candidates = Inr gross" using less.prems sum_amounts_ex by blast
  show ?case
  proof (cases "candidates = [] \<or> gross \<le> fee_sats")
    case True
    then show ?thesis using g by (subst fee_loop.simps) auto
  next
    case False
    then have "uint fee_sats < uint gross" by (simp add: word_le_def not_le)
    moreover have "uint gross = (\<Sum>r\<leftarrow>candidates. amount_of r)" using g by (simp add: sum_amounts_Inr)
    ultimately obtain rows where r: "allocate_proportional_fee candidates fee_sats gross = Inr rows"
      using allocate_total by blast
    show ?thesis
    proof (cases "below_floor m rows = []")
      case True
      then show ?thesis using False g r by (subst fee_loop.simps) simp
    next
      case below: False
      let ?cs = "retained (below_floor m rows) candidates"
      have "(\<Sum>r\<leftarrow>?cs. amount_of r) \<le> (\<Sum>r\<leftarrow>candidates. amount_of r)"
        by (rule sum_list_mono_mset) (auto simp: retained_def multiset_filter_subset)
      then have "(\<Sum>r\<leftarrow>?cs. amount_of r) < 2 ^ 64" using less.prems by linarith
      with retained_shorter[OF g _ r below] False
      obtain d where "fee_loop fee_sats m t ?cs (carried @ map waived (below_floor m rows)) = Inr d"
        using less.hyps by blast
      then show ?thesis using False g r below by (subst fee_loop.simps) simp
    qed
  qed
qed

end
