(* ===== verification/Settlement_Properties.thy ===== *)
theory Settlement_Properties
  imports Settlement_Facts
begin

text \<open>
  The properties of the settlement partition.
\<close>

section \<open>Decisions of a whole run\<close>

lemma select_parts:
  assumes "select_settlement_mode_with_pinned_direct c rs fl config pinned = Inr dec"
  obtains canonical pk where "config_ok config" "canonical_recipients c rs = Inr canonical"
    "sorted_wrt (<) (map recipient_key canonical)" "length canonical = length rs"
    "set_option pk \<subseteq> set (map recipient_key canonical)"
    "decide_settlement canonical fl config pk = Inr dec"
    "pinned = None \<Longrightarrow> pk = None"
    "\<And>p. pinned = Some p \<Longrightarrow> \<exists>q. normalize_recipient c p = Inr q \<and> pk = Some (recipient_key q)"
proof -
  from assms obtain canonical pk where
    cfg: "config_ok config" and can: "canonical_recipients c rs = Inr canonical" and
    pk: "(case pinned of None \<Rightarrow> Inr None
      | Some pinned \<Rightarrow> rbind (resolve_pinned_direct_key c canonical config pinned) (\<lambda>k. Inr (Some k))) = Inr pk"
    and dec: "decide_settlement canonical fl config pk = Inr dec"
    by (auto simp: select_settlement_mode_with_pinned_direct_def validate_config_Inr)
  from canonical_Inr[OF can] have srt: "sorted_wrt (<) (map recipient_key canonical)" "length canonical = length rs"
    by metis+
  show thesis
  proof (rule that[OF cfg can srt _ dec])
    show "set_option pk \<subseteq> set (map recipient_key canonical)"
      using pk by (auto simp: resolve_pinned_direct_key_def Let_def intro: rev_image_eqI
          split: option.splits if_splits)
    show "pk = None" if "pinned = None" using pk that by simp
    show "\<exists>q. normalize_recipient c p = Inr q \<and> pk = Some (recipient_key q)" if "pinned = Some p" for p
      using pk that by (auto simp: resolve_pinned_direct_key_def Let_def split: if_splits)
  qed
qed

text \<open>The keys chosen, with the count the search settled on.\<close>

lemma chosen_keys:
  assumes "config_ok config" and "sorted_wrt (<) (map recipient_key canonical)"
    and "set_option pk \<subseteq> set (map recipient_key canonical)" and "length canonical < 2 ^ 62"
    and "direct_keys canonical fl config pk = Inr K"
  obtains d where "d \<le> length (candidates_of canonical fl pk)"
    "K = set_option pk \<union> set (map recipient_key (take d (candidates_of canonical fl pk)))"
    "settlement_outputs (length canonical) config (if pk = None then 0 else 1) d \<le> sc_max_coinbase_outputs config"
    "length (filter (\<lambda>r. recipient_key r \<in> K) canonical) = (if pk = None then 0 else 1) + d"
    "length (filter (\<lambda>r. recipient_key r \<notin> K) canonical) = length canonical - (if pk = None then 0 else 1) - d"
proof -
  have dist: "distinct (map recipient_key canonical)" using assms(2) by (simp add: strict_sorted_iff)
  from direct_keys_search[OF assms(1) dist assms(3,4), of fl] assms(5) obtain d where
    d: "d \<le> length (candidates_of canonical fl pk)"
    "K = set_option pk \<union> set (map recipient_key (take d (candidates_of canonical fl pk)))"
    "settlement_outputs (length canonical) config (if pk = None then 0 else 1) d \<le> sc_max_coinbase_outputs config"
    by auto
  note n = direct_count_of_keys[OF dist assms(3) d(1,2)]
  have "length (filter (\<lambda>r. recipient_key r \<notin> K) canonical) = length canonical - (if pk = None then 0 else 1) - d"
    using n sum_length_filter_compl[of "\<lambda>r. recipient_key r \<in> K" canonical] by simp
  with d n show thesis by (rule that)
qed

lemma no_pin: "set_option (None :: settlement_key option) \<subseteq> A"
  by simp

lemma mset_partition: "mset (filter P xs) + mset (filter (\<lambda>x. \<not> P x) xs) = mset xs"
  by (induction xs) auto

lemma settlement_outputs_least:
  "0 < sc_max_fanout_recipients config \<Longrightarrow> d \<le> n \<Longrightarrow>
    settlement_outputs n config 0 0 \<le> settlement_outputs n config 0 d"
proof (induction d)
  case (Suc d)
  then show ?case using settlement_outputs_mono[of config 0 d n] by simp
qed simp

text \<open>Once direct keys are found, nothing else can fail.\<close>

lemma decide_total:
  assumes cfg: "config_ok config" and K: "direct_keys canonical fl config pk = Inr K"
    and sum: "(\<Sum>r\<leftarrow>canonical. uint (sr_amount_sats r)) < 2 ^ 64"
    and ne: "canonical \<noteq> []" and small: "length canonical < 2 ^ 62"
  shows "\<exists>dec. decide_settlement canonical fl config pk = Inr dec"
proof -
  let ?dir = "filter (\<lambda>r. recipient_key r \<in> K) canonical" and ?fan = "filter (\<lambda>r. recipient_key r \<notin> K) canonical"
  have m: "0 < sc_max_fanout_recipients config" "sc_reserved_outputs config \<le> 500"
    using cfg by (auto simp: config_ok_def)
  have split: "(\<Sum>r\<leftarrow>canonical. uint (sr_amount_sats r)) =
      (\<Sum>r\<leftarrow>?dir. uint (sr_amount_sats r)) + (\<Sum>r\<leftarrow>?fan. uint (sr_amount_sats r))"
    by (rule sum_filter_split)
  have "0 \<le> (\<Sum>r\<leftarrow>?dir. uint (sr_amount_sats r))" "0 \<le> (\<Sum>r\<leftarrow>?fan. uint (sr_amount_sats r))" by simp_all
  then have "(\<Sum>r\<leftarrow>?dir. uint (sr_amount_sats r)) < 2 ^ 64" "(\<Sum>r\<leftarrow>?fan. uint (sr_amount_sats r)) < 2 ^ 64"
    using sum split by linarith+
  with sum have ex: "\<exists>s. sum_amounts canonical = Inr s" "\<exists>s. sum_amounts ?dir = Inr s" "\<exists>s. sum_amounts ?fan = Inr s"
    unfolding sum_amounts_ex by blast+
  then obtain t a b where sums: "sum_amounts canonical = Inr t" "sum_amounts ?dir = Inr a" "sum_amounts ?fan = Inr b"
    by blast
  have add: "checked_add a b = Some t" using sums split by (simp add: checked_add_Some sum_amounts_Inr)
  from chunks_settle[OF m(1) sums(3)] obtain chs where
    chs: "try_map settlement_chunk_of (enumerate 0 (chunks (sc_max_fanout_recipients config) ?fan)) = Inr chs" ..
  have "length chs = ceil_div (sc_max_fanout_recipients config) (length ?fan)"
    using chunk_rows[OF chs] length_chunks[OF m(1)] by (metis length_map)
  moreover have fan_len: "length ?fan \<le> length canonical" by (rule length_filter_le)
  ultimately have lens: "length chs \<le> length canonical" "length ?dir \<le> length canonical"
    using order_trans[OF ceil_div_le[OF m(1)] fan_len] by simp_all
  have some: "?dir \<noteq> [] \<or> chs \<noteq> []"
  proof (cases "?fan = []")
    case True
    then have "?dir = canonical" by (auto simp: filter_empty_conv filter_id_conv)
    then show ?thesis using ne by simp
  next
    case False
    then have "chunks (sc_max_fanout_recipients config) ?fan \<noteq> []" using concat_chunks[OF m(1), of ?fan] by auto
    then show ?thesis using chunk_rows[OF chs] by auto
  qed
  then obtain mode where mode: "(if ?dir \<noteq> [] \<and> chs = [] then Inr DirectCoinbase
        else if ?dir = [] \<and> chs \<noteq> [] then Inr CtvFanout
        else if ?dir \<noteq> [] then Inr HybridCoinbaseCtvFanout
        else Inl (settlement_error ''settlement partition is empty'')) = Inr mode" by fastforce
  have "usize_add (sc_reserved_outputs config) (length ?dir) = Some (sc_reserved_outputs config + length ?dir)"
    "usize_add (sc_reserved_outputs config + length ?dir) (length chs) =
      Some (sc_reserved_outputs config + length ?dir + length chs)"
    using m(2) le_less_trans[OF lens(1) small] le_less_trans[OF lens(2) small] by (simp_all add: usize_add_def)
  then show ?thesis unfolding decide_settlement_def Let_def by (simp only: sums K add chs mode rbind.simps
        ok_or_simps option.case not_True_eq_False if_False simp_thms) simp
qed

lemma select_succeeds_iff:
  assumes "canonical_recipients c rs = Inr canonical" and "rs \<noteq> []" and "length rs < 2 ^ 62"
    and "(\<Sum>r\<leftarrow>canonical. uint (sr_amount_sats r)) < 2 ^ 64" and "validate_config config = Inr ()"
  shows "(\<exists>dec. select_settlement_mode c rs fl config = Inr dec) \<longleftrightarrow>
    sc_reserved_outputs config + ceil_div (sc_max_fanout_recipients config) (length rs)
      \<le> sc_max_coinbase_outputs config"
proof -
  have cfg: "config_ok config" using assms(5) by (simp add: validate_config_Inr)
  have m: "0 < sc_max_fanout_recipients config" using cfg by (simp add: config_ok_def)
  from canonical_Inr[OF assms(1)] have srt: "sorted_wrt (<) (map recipient_key canonical)"
    and len: "length canonical = length rs" by metis+
  have dist: "distinct (map recipient_key canonical)" using srt by (simp add: strict_sorted_iff)
  have small: "length canonical < 2 ^ 62" using len assms(3) by simp
  have run: "select_settlement_mode c rs fl config = decide_settlement canonical fl config None"
    using assms(1,2,5) by (simp add: select_settlement_mode_def select_settlement_mode_with_pinned_direct_def)
  have zero: "settlement_outputs (length canonical) config 0 0 =
      sc_reserved_outputs config + ceil_div (sc_max_fanout_recipients config) (length rs)"
    by (simp add: settlement_outputs_def len)
  show ?thesis
  proof
    assume "\<exists>dec. select_settlement_mode c rs fl config = Inr dec"
    then obtain dec where "decide_settlement canonical fl config None = Inr dec" using run by auto
    from decide_parts[OF this] obtain K where K: "direct_keys canonical fl config None = Inr K" by metis
    from chosen_keys[OF cfg srt no_pin small K] obtain d where
      d: "d \<le> length (candidates_of canonical fl None)"
      "settlement_outputs (length canonical) config 0 d \<le> sc_max_coinbase_outputs config" by (metis (full_types))
    have "d \<le> length canonical" using d(1) candidates_room[OF dist no_pin, of fl] by simp
    then show "sc_reserved_outputs config + ceil_div (sc_max_fanout_recipients config) (length rs)
      \<le> sc_max_coinbase_outputs config" using d(2) settlement_outputs_least[OF m] zero by fastforce
  next
    assume "sc_reserved_outputs config + ceil_div (sc_max_fanout_recipients config) (length rs)
      \<le> sc_max_coinbase_outputs config"
    then obtain K where "direct_keys canonical fl config None = Inr K"
      using direct_keys_search[OF cfg dist no_pin small, of fl] zero by (auto split: sum.splits)
    then show "\<exists>dec. select_settlement_mode c rs fl config = Inr dec"
      unfolding run using decide_total[OF cfg _ assms(4) _ small] assms(2) len by fastforce
  qed
qed

section \<open>A sample\<close>

definition sample_recipient :: "string \<Rightarrow> u8 \<Rightarrow> u64 \<Rightarrow> settlement_recipient" where
  "sample_recipient r b a = \<lparr>sr_recipient_id = r, sr_order_key = r,
    sr_program = model_hex_encode (replicate 32 b), sr_amount_sats = a\<rparr>"

definition sample_recipients :: "settlement_recipient list" where
  "sample_recipients = [sample_recipient ''c'' 7 30, sample_recipient ''a'' 8 20, sample_recipient ''b'' 9 5]"

definition sample_config :: settlement_config where
  "sample_config = default_settlement_config\<lparr>sc_max_direct_outputs := 1\<rparr>"

lemma sample_canonical: "canonical_recipients model_crypto sample_recipients =
    Inr [sample_recipient ''a'' 8 20, sample_recipient ''b'' 9 5, sample_recipient ''c'' 7 30]"
  by code_simp

lemma sample_config_ok: "config_ok sample_config" "validate_config sample_config = Inr ()"
  by (simp_all add: validate_config_Inr config_ok_def sample_config_def default_settlement_config_def
      settlement_consts)

lemma sample_decided: "\<exists>dec. select_settlement_mode model_crypto sample_recipients 10 sample_config = Inr dec"
  by (subst select_succeeds_iff[OF sample_canonical _ _ _ sample_config_ok(2)])
    (simp_all add: sample_recipients_def sample_recipient_def sample_config_def
      default_settlement_config_def settlement_consts ceil_div_def)

section \<open>The partition\<close>

text \<open>The chunks of the recipients left to a fanout: none is empty, and each sum is exact.\<close>

lemma fanout_chunks_ok:
  assumes "try_map settlement_chunk_of (enumerate 0 (chunks m rs)) = Inr chs" and "0 < m"
  shows "concat (map ch_recipients chs) = rs" and "length chs = length (chunks m rs)"
    and "map ch_chunk_index chs = [0..<length chs]"
    and "list_all (\<lambda>ch. ch_recipients ch \<noteq> [] \<and> length (ch_recipients ch) \<le> m \<and>
      uint (ch_amount_sats ch) = (\<Sum>r\<leftarrow>ch_recipients ch. uint (sr_amount_sats r))) chs"
proof -
  note R = chunk_rows[OF assms(1)]
  show "concat (map ch_recipients chs) = rs" using R by (simp add: concat_chunks[OF assms(2)])
  show n: "length chs = length (chunks m rs)" using R by (metis length_map)
  show "map ch_chunk_index chs = [0..<length chs]" using R n by simp
  have "ch_recipients ch \<in> set (chunks m rs)" if "ch \<in> set chs" for ch
    using R that by (metis imageI list.set_map)
  then show "list_all (\<lambda>ch. ch_recipients ch \<noteq> [] \<and> length (ch_recipients ch) \<le> m \<and>
      uint (ch_amount_sats ch) = (\<Sum>r\<leftarrow>ch_recipients ch. uint (sr_amount_sats r))) chs"
    using R chunks_bound[OF assms(2)] by (fastforce simp: list_all_iff sum_amounts_Inr)
qed

lemma decide_chunk_count:
  "decide_settlement canonical fl config pk = Inr dec \<Longrightarrow> sd_fanout_chunk_count dec = length (sd_fanout_chunks dec)"
  by (auto simp: decide_settlement_def Let_def split: if_splits)

text \<open>Direct recipients and chunks partition the canonical recipients; the pinned one is direct.\<close>

lemma partition_parts:
  assumes "select_settlement_mode_with_pinned_direct c rs fl config pinned = Inr dec"
  obtains canonical where "canonical_recipients c rs = Inr canonical"
    "mset (sd_direct_recipients dec @ concat (map ch_recipients (sd_fanout_chunks dec))) = mset canonical"
    "map ch_chunk_index (sd_fanout_chunks dec) = [0..<length (sd_fanout_chunks dec)]"
    "list_all (\<lambda>ch. ch_recipients ch \<noteq> [] \<and> length (ch_recipients ch) \<le> sc_max_fanout_recipients config \<and>
      uint (ch_amount_sats ch) = (\<Sum>r\<leftarrow>ch_recipients ch. uint (sr_amount_sats r))) (sd_fanout_chunks dec)"
    "\<forall>p. pinned = Some p \<longrightarrow> (\<exists>q. normalize_recipient c p = Inr q \<and>
      recipient_key q \<in> set (map recipient_key (sd_direct_recipients dec)))"
    "sd_fanout_chunk_count dec = length (sd_fanout_chunks dec)" "config_ok config"
proof -
  from select_parts[OF assms(1)] obtain canonical pk where
    cfg: "config_ok config" and can: "canonical_recipients c rs = Inr canonical" and
    pk: "set_option pk \<subseteq> set (map recipient_key canonical)" and
    dec: "decide_settlement canonical fl config pk = Inr dec" and
    pin: "\<And>p. pinned = Some p \<Longrightarrow> \<exists>q. normalize_recipient c p = Inr q \<and> pk = Some (recipient_key q)" by metis
  from decide_parts[OF dec] obtain K where
    K: "direct_keys canonical fl config pk = Inr K" and
    direct: "sd_direct_recipients dec = filter (\<lambda>r. recipient_key r \<in> K) canonical" and
    chunks: "try_map settlement_chunk_of (enumerate 0 (chunks (sc_max_fanout_recipients config)
      (filter (\<lambda>r. recipient_key r \<notin> K) canonical))) = Inr (sd_fanout_chunks dec)" by metis
  have m: "0 < sc_max_fanout_recipients config" using cfg by (simp add: config_ok_def)
  note R = fanout_chunks_ok[OF chunks m]
  have perm: "mset (sd_direct_recipients dec @ concat (map ch_recipients (sd_fanout_chunks dec))) = mset canonical"
    by (simp add: R(1) direct mset_partition)
  have "set_option pk \<subseteq> K" using K by (auto simp: direct_keys_def Let_def)
  then have "recipient_key q \<in> set (map recipient_key (sd_direct_recipients dec))" if "pk = Some (recipient_key q)" for q
    using that pk by (auto simp: direct)
  then have "\<exists>q. normalize_recipient c p = Inr q \<and> recipient_key q \<in> set (map recipient_key (sd_direct_recipients dec))"
    if "pinned = Some p" for p using pin[OF that] by metis
  then have "\<forall>p. pinned = Some p \<longrightarrow> (\<exists>q. normalize_recipient c p = Inr q \<and>
      recipient_key q \<in> set (map recipient_key (sd_direct_recipients dec)))" by blast
  then show thesis by (rule that[OF can perm R(3,4) _ decide_chunk_count[OF dec] cfg])
qed

text \<open>The outputs the decision counts are within the limit.\<close>

lemma decided_outputs_fit:
  assumes "config_ok config" and "sorted_wrt (<) (map recipient_key canonical)"
    and "set_option pk \<subseteq> set (map recipient_key canonical)" and "length canonical < 2 ^ 62"
    and "decide_settlement canonical fl config pk = Inr dec"
  shows "sd_coinbase_output_count dec \<le> sc_max_coinbase_outputs config"
proof -
  from decide_parts[OF assms(5)] obtain K where
    K: "direct_keys canonical fl config pk = Inr K" and
    direct: "sd_direct_recipients dec = filter (\<lambda>r. recipient_key r \<in> K) canonical" and
    chunks: "try_map settlement_chunk_of (enumerate 0 (chunks (sc_max_fanout_recipients config)
      (filter (\<lambda>r. recipient_key r \<notin> K) canonical))) = Inr (sd_fanout_chunks dec)" and
    outputs: "sd_coinbase_output_count dec = sc_reserved_outputs config + length (sd_direct_recipients dec) +
      length (sd_fanout_chunks dec)" by metis
  define p :: nat where "p = (if pk = None then 0 else 1)"
  from chosen_keys[OF assms(1-4) K, folded p_def] obtain d where
    d: "settlement_outputs (length canonical) config p d \<le> sc_max_coinbase_outputs config"
    "length (filter (\<lambda>r. recipient_key r \<in> K) canonical) = p + d"
    "length (filter (\<lambda>r. recipient_key r \<notin> K) canonical) = length canonical - p - d"
    by metis
  have m: "0 < sc_max_fanout_recipients config" using assms(1) by (simp add: config_ok_def)
  show ?thesis using d(1) unfolding outputs fanout_chunks_ok(2)[OF chunks m] length_chunks[OF m] d(3)
      direct d(2) settlement_outputs_def by simp
qed

text \<open>
  C8: No recipient and no satoshi is lost: the direct recipients and the chunks together
  are the canonical recipients; amounts add up; chunks are numbered from zero, never empty
  and within the limit; the coinbase outputs used, reserved ones included, are counted
  exactly and fit; and a pinned recipient is paid directly whatever its amount.
\<close>

theorem settlement_partition_exact:
  assumes "select_settlement_mode_with_pinned_direct c rs fl config pinned = Inr dec"
    and "length rs < 2 ^ 62"
  shows "\<exists>canonical. canonical_recipients c rs = Inr canonical \<and>
    mset (sd_direct_recipients dec @ concat (map ch_recipients (sd_fanout_chunks dec))) = mset canonical \<and>
    uint (sd_total_amount dec) = (\<Sum>r\<leftarrow>canonical. uint (sr_amount_sats r)) \<and>
    uint (sd_direct_amount dec) = (\<Sum>r\<leftarrow>sd_direct_recipients dec. uint (sr_amount_sats r)) \<and>
    uint (sd_direct_amount dec) + uint (sd_fanout_amount dec) = uint (sd_total_amount dec) \<and>
    map ch_chunk_index (sd_fanout_chunks dec) = [0..<length (sd_fanout_chunks dec)] \<and>
    list_all (\<lambda>ch. ch_recipients ch \<noteq> [] \<and> length (ch_recipients ch) \<le> sc_max_fanout_recipients config \<and>
      uint (ch_amount_sats ch) = (\<Sum>r\<leftarrow>ch_recipients ch. uint (sr_amount_sats r))) (sd_fanout_chunks dec) \<and>
    sd_coinbase_output_count dec = sc_reserved_outputs config + length (sd_direct_recipients dec) +
      length (sd_fanout_chunks dec) \<and>
    sd_coinbase_output_count dec \<le> sc_max_coinbase_outputs config \<and>
    (case pinned of None \<Rightarrow> True
     | Some p \<Rightarrow> \<exists>q. normalize_recipient c p = Inr q \<and>
         recipient_key q \<in> set (map recipient_key (sd_direct_recipients dec)))"
proof -
  from partition_parts[OF assms(1)] obtain canonical where P: "canonical_recipients c rs = Inr canonical"
    "mset (sd_direct_recipients dec @ concat (map ch_recipients (sd_fanout_chunks dec))) = mset canonical"
    "map ch_chunk_index (sd_fanout_chunks dec) = [0..<length (sd_fanout_chunks dec)]"
    "list_all (\<lambda>ch. ch_recipients ch \<noteq> [] \<and> length (ch_recipients ch) \<le> sc_max_fanout_recipients config \<and>
      uint (ch_amount_sats ch) = (\<Sum>r\<leftarrow>ch_recipients ch. uint (sr_amount_sats r))) (sd_fanout_chunks dec)" and
    pin: "\<forall>p. pinned = Some p \<longrightarrow> (\<exists>q. normalize_recipient c p = Inr q \<and>
      recipient_key q \<in> set (map recipient_key (sd_direct_recipients dec)))"
    by (rule partition_parts[OF assms(1)]) iprover
  from select_parts[OF assms(1)] obtain canonical' pk where
    cfg: "config_ok config" and can: "canonical_recipients c rs = Inr canonical'" and
    srt': "sorted_wrt (<) (map recipient_key canonical')" and len': "length canonical' = length rs" and
    pk': "set_option pk \<subseteq> set (map recipient_key canonical')" and
    dec': "decide_settlement canonical' fl config pk = Inr dec" by metis
  have same: "canonical' = canonical" using P(1) can by simp
  note srt = srt'[unfolded same] and len = len'[unfolded same] and pk = pk'[unfolded same] and dec = dec'[unfolded same]
  from decide_parts[OF dec] obtain K where
    direct: "sd_direct_recipients dec = filter (\<lambda>r. recipient_key r \<in> K) canonical" and
    sums: "sum_amounts canonical = Inr (sd_total_amount dec)"
      "sum_amounts (filter (\<lambda>r. recipient_key r \<in> K) canonical) = Inr (sd_direct_amount dec)"
      "sum_amounts (filter (\<lambda>r. recipient_key r \<notin> K) canonical) = Inr (sd_fanout_amount dec)" and
    outputs: "sd_coinbase_output_count dec = sc_reserved_outputs config + length (sd_direct_recipients dec) +
      length (sd_fanout_chunks dec)" by metis
  have fits: "sd_coinbase_output_count dec \<le> sc_max_coinbase_outputs config"
    using decided_outputs_fit[OF cfg srt pk _ dec] len assms(2) by simp
  have amounts: "uint (sd_total_amount dec) = (\<Sum>r\<leftarrow>canonical. uint (sr_amount_sats r))"
    "uint (sd_direct_amount dec) = (\<Sum>r\<leftarrow>sd_direct_recipients dec. uint (sr_amount_sats r))"
    "uint (sd_direct_amount dec) + uint (sd_fanout_amount dec) = uint (sd_total_amount dec)"
    using sums[unfolded sum_amounts_Inr] direct
      sum_filter_split[of "\<lambda>r. uint (sr_amount_sats r)" canonical "\<lambda>r. recipient_key r \<in> K"] by simp_all
  have "case pinned of None \<Rightarrow> True | Some p \<Rightarrow> \<exists>q. normalize_recipient c p = Inr q \<and>
      recipient_key q \<in> set (map recipient_key (sd_direct_recipients dec))"
    using pin by (cases pinned) simp_all
  then show ?thesis using P amounts outputs fits by blast
qed

theorem settlement_partition_exact_witness:
  "\<exists>dec. select_settlement_mode_with_pinned_direct model_crypto sample_recipients 10 sample_config None = Inr dec \<and>
    uint (sd_total_amount dec) = 55 \<and> sd_coinbase_output_count dec \<le> 16"
proof -
  obtain dec where
    dec: "select_settlement_mode_with_pinned_direct model_crypto sample_recipients 10 sample_config None = Inr dec"
    using sample_decided by (auto simp: select_settlement_mode_def)
  have "length sample_recipients < 2 ^ 62" by (simp add: sample_recipients_def)
  from settlement_partition_exact[OF dec this] have
    "uint (sd_total_amount dec) = 55 \<and> sd_coinbase_output_count dec \<le> sc_max_coinbase_outputs sample_config"
    unfolding sample_canonical by (auto simp: sample_recipient_def)
  with dec show ?thesis by (simp add: sample_config_def default_settlement_config_def settlement_consts)
qed

text \<open>
  Direct outputs go to the largest recipients: one paid directly, other than the pinned
  recipient, owes its place to an amount at the floor or above that no recipient left to a
  fanout exceeds.
\<close>

theorem direct_recipients_largest:
  assumes "select_settlement_mode c rs fl config = Inr dec" and "length rs < 2 ^ 62"
    and "r \<in> set (sd_direct_recipients dec)" and "ch \<in> set (sd_fanout_chunks dec)"
    and "s \<in> set (ch_recipients ch)"
  shows "fl \<le> sr_amount_sats r \<and> sr_amount_sats s \<le> sr_amount_sats r"
proof -
  obtain canonical where
    cfg: "config_ok config" and srt: "sorted_wrt (<) (map recipient_key canonical)" and
    len: "length canonical = length rs" and dec: "decide_settlement canonical fl config None = Inr dec"
    by (rule select_parts[OF assms(1)[unfolded select_settlement_mode_def]]) (rule that, simp_all)
  from decide_parts[OF dec] obtain K where
    K: "direct_keys canonical fl config None = Inr K" and
    direct: "sd_direct_recipients dec = filter (\<lambda>r. recipient_key r \<in> K) canonical" and
    chunks: "try_map settlement_chunk_of (enumerate 0 (chunks (sc_max_fanout_recipients config)
      (filter (\<lambda>r. recipient_key r \<notin> K) canonical))) = Inr (sd_fanout_chunks dec)" by metis
  have small: "length canonical < 2 ^ 62" using len assms(2) by simp
  from chosen_keys[OF cfg srt no_pin small K] obtain d where
    "K = set_option None \<union> set (map recipient_key (take d (candidates_of canonical fl None)))" by metis
  then have d: "K = set (map recipient_key (take d (candidates_of canonical fl None)))" by simp
  let ?cands = "candidates_of canonical fl None"
  have dist: "distinct (map recipient_key canonical)" using srt by (simp add: strict_sorted_iff)
  note F = candidates_facts[OF dist, where fl = fl and pk = None]
  have inj: "inj_on recipient_key (set canonical)" using dist by (simp add: distinct_map)
  have m: "0 < sc_max_fanout_recipients config" using cfg by (simp add: config_ok_def)
  have fan: "concat (map ch_recipients (sd_fanout_chunks dec)) = filter (\<lambda>r. recipient_key r \<notin> K) canonical"
    using chunk_rows[OF chunks] by (simp add: concat_chunks[OF m])
  have "s \<in> set (concat (map ch_recipients (sd_fanout_chunks dec)))" using assms(4,5) by auto
  then have "s \<in> set (filter (\<lambda>r. recipient_key r \<notin> K) canonical)" unfolding fan .
  then have s: "s \<in> set canonical" "recipient_key s \<notin> K" by auto
  have r: "r \<in> set canonical" "recipient_key r \<in> K" using assms(3) direct by auto
  from r(2) d obtain r' where r': "r' \<in> set (take d ?cands)" "recipient_key r' = recipient_key r" by auto
  then have "r' \<in> set canonical" using F(2) by (auto dest: in_set_takeD)
  then have rt: "r \<in> set (take d ?cands)" using r' r inj by (metis inj_onD)
  then have fl: "fl \<le> sr_amount_sats r" using F(2) by (auto dest: in_set_takeD)
  moreover have "sr_amount_sats s \<le> sr_amount_sats r"
  proof (cases "fl \<le> sr_amount_sats s")
    case True
    then have "s \<in> set ?cands" using s(1) F(2) by simp
    moreover have "s \<notin> set (take d ?cands)" using s(2) d by auto
    ultimately have "s \<in> set (drop d ?cands)" by (metis Un_iff append_take_drop_id set_append)
    then have "direct_priority r \<le> direct_priority s"
      using F(3) rt by (metis append_take_drop_id sorted_map sorted_wrt_append)
    then show ?thesis by (auto simp: direct_priority_def word_le_def)
  next
    case False
    then show ?thesis using fl by simp
  qed
  ultimately show ?thesis by blast
qed

theorem direct_recipients_largest_witness:
  "\<exists>dec r s. select_settlement_mode model_crypto sample_recipients 10 sample_config = Inr dec \<and>
    r \<in> set (sd_direct_recipients dec) \<and> s \<in> set (concat (map ch_recipients (sd_fanout_chunks dec))) \<and>
    sr_amount_sats s \<le> sr_amount_sats r"
proof -
  let ?can = "[sample_recipient ''a'' 8 20, sample_recipient ''b'' 9 5, sample_recipient ''c'' 7 30]"
  let ?r = "sample_recipient ''c'' 7 30" and ?s = "sample_recipient ''a'' 8 20"
  obtain dec where dec: "select_settlement_mode model_crypto sample_recipients 10 sample_config = Inr dec"
    using sample_decided ..
  have cands: "candidates_of ?can 10 None = [?r, ?s]" by code_simp
  have small: "length ?can < 2 ^ 62" "length sample_recipients < 2 ^ 62" by (simp_all add: sample_recipients_def)
  have "direct_count_fits 3 sample_config 0 1 = Inr True"
    using direct_count_fits_ok[OF sample_config_ok(1), of 0 1 3]
    by (simp add: settlement_outputs_def ceil_div_def sample_config_def default_settlement_config_def settlement_consts)
  then have one: "direct_count_from 3 sample_config 0 1 = Inr 1" by (subst direct_count_from.simps) simp
  have keys: "direct_keys ?can 10 sample_config None = Inr {recipient_key ?r}"
    unfolding direct_keys_unfold cands select_direct_count_def
    using one by (simp add: sample_config_def numeral_3_eq_3)
  have "decide_settlement ?can 10 sample_config None = Inr dec"
    using dec sample_canonical sample_config_ok(2)
    by (simp add: select_settlement_mode_def select_settlement_mode_with_pinned_direct_def sample_recipients_def)
  from decide_parts[OF this] keys have direct: "sd_direct_recipients dec = filter (\<lambda>r. recipient_key r \<in> {recipient_key ?r}) ?can"
    and chunks: "try_map settlement_chunk_of (enumerate 0 (chunks (sc_max_fanout_recipients sample_config)
      (filter (\<lambda>r. recipient_key r \<notin> {recipient_key ?r}) ?can))) = Inr (sd_fanout_chunks dec)"
    by (metis Inr_inject)+
  have r: "?r \<in> set (sd_direct_recipients dec)" unfolding direct by simp
  have "concat (map ch_recipients (sd_fanout_chunks dec)) = filter (\<lambda>r. recipient_key r \<notin> {recipient_key ?r}) ?can"
    using chunk_rows[OF chunks] sample_config_ok(1) by (simp add: concat_chunks config_ok_def)
  then have s: "?s \<in> set (concat (map ch_recipients (sd_fanout_chunks dec)))"
    by (simp add: recipient_key_def sample_recipient_def)
  then obtain ch where "ch \<in> set (sd_fanout_chunks dec)" "?s \<in> set (ch_recipients ch)" by auto
  from direct_recipients_largest[OF dec small(2) r this] dec r s show ?thesis by blast
qed

text \<open>
  Settlement never refuses a block because direct payment is impractical: with valid
  recipients and configuration it fails only when the fanout outputs alone, one for each
  full or partial chunk of recipients, do not fit beside the reserved ones.
\<close>

theorem settlement_succeeds_iff:
  assumes "canonical_recipients c rs = Inr canonical" and "rs \<noteq> []" and "length rs < 2 ^ 62"
    and "(\<Sum>r\<leftarrow>canonical. uint (sr_amount_sats r)) < 2 ^ 64" and "validate_config config = Inr ()"
  shows "(\<exists>dec. select_settlement_mode c rs fl config = Inr dec) \<longleftrightarrow>
    sc_reserved_outputs config + ceil_div (sc_max_fanout_recipients config) (length rs)
      \<le> sc_max_coinbase_outputs config"
  using assms by (rule select_succeeds_iff)

theorem settlement_succeeds_iff_witness:
  "(\<exists>dec. select_settlement_mode model_crypto sample_recipients 10 sample_config = Inr dec) \<longleftrightarrow>
    0 + ceil_div 1000 3 \<le> 16"
proof -
  have len: "length sample_recipients = 3" and ne: "sample_recipients \<noteq> []"
    by (simp_all add: sample_recipients_def)
  have small: "length sample_recipients < 2 ^ 62" by (simp add: len)
  have sum: "(\<Sum>r\<leftarrow>[sample_recipient ''a'' 8 20, sample_recipient ''b'' 9 5, sample_recipient ''c'' 7 30].
      uint (sr_amount_sats r)) < 2 ^ 64" by (simp add: sample_recipient_def)
  have cfg: "sc_reserved_outputs sample_config = 0" "sc_max_fanout_recipients sample_config = 1000"
    "sc_max_coinbase_outputs sample_config = 16"
    by (simp_all add: sample_config_def default_settlement_config_def settlement_consts)
  show ?thesis
    using settlement_succeeds_iff[OF sample_canonical ne small sum sample_config_ok(2), of 10]
    unfolding len cfg .
qed

end
