(* ===== verification/Fanout_Properties.thy ===== *)
theory Fanout_Properties
  imports Fanout_Decision Settlement_Properties
begin

text \<open>
  What the fanout fee guarantees: every recipient is either charged its share or carried
  whole, the shares add up to the fee that is applied, no share is a satoshi off its exact
  value, the loop never fails on valid recipients, and the estimate rounds up.
\<close>

section \<open>A whole run\<close>

lemma apply_fee_parts:
  assumes "apply_proportional_fanout_fee c rs fee_sats m = Inr d"
  obtains candidates gross where "canonical_recipients c rs = Inr candidates"
    "sum_amounts candidates = Inr gross" "fee_loop fee_sats m gross candidates [] = Inr d"
    "distinct (map recipient_key candidates)" "m \<noteq> 0" "rs \<noteq> []"
proof -
  from assms obtain candidates gross where c: "canonical_recipients c rs = Inr candidates"
    and g: "sum_amounts candidates = Inr gross" and l: "fee_loop fee_sats m gross candidates [] = Inr d"
    and "m \<noteq> 0" "rs \<noteq> []"
    unfolding apply_proportional_fanout_fee_def rbind_Inr if_Inl_Inr by blast
  moreover from c have "distinct (map recipient_key candidates)"
    by (rule canonical_Inr) (simp add: strict_sorted_iff)
  ultimately show thesis using that by blast
qed

text \<open>A run that drops one of three recipients and charges the other two.\<close>

definition paying :: "settlement_recipient \<Rightarrow> u64 \<Rightarrow> fanout_fee_recipient" where
  "paying r fee = (carried_fanout_fee_recipient r)\<lparr>fe_fee_sats := fee, fe_net_sats := sr_amount_sats r - fee\<rparr>"

lemma sample_sums:
  "sum_amounts [sample_recipient ''a'' 8 20, sample_recipient ''b'' 9 5, sample_recipient ''c'' 7 30] = Inr 55"
  "sum_amounts [sample_recipient ''a'' 8 20, sample_recipient ''c'' 7 30] = Inr 50"
  by (simp_all add: sum_amounts_Inr sample_recipient_def)

lemma sample_turns:
  "allocate_proportional_fee
      [sample_recipient ''a'' 8 20, sample_recipient ''b'' 9 5, sample_recipient ''c'' 7 30] 6 55 =
    Inr [paying (sample_recipient ''b'' 9 5) 1, paying (sample_recipient ''c'' 7 30) 3,
      paying (sample_recipient ''a'' 8 20) 2]"
  "allocate_proportional_fee [sample_recipient ''a'' 8 20, sample_recipient ''c'' 7 30] 6 50 =
    Inr [paying (sample_recipient ''c'' 7 30) 4, paying (sample_recipient ''a'' 8 20) 2]"
  by (simp_all add: fee_evals prim_defs checked_sum_def sample_recipient_def paying_def
      carried_fanout_fee_recipient_def)

lemma sample_floor:
  "below_floor 5 [paying (sample_recipient ''b'' 9 5) 1, paying (sample_recipient ''c'' 7 30) 3,
      paying (sample_recipient ''a'' 8 20) 2] = [paying (sample_recipient ''b'' 9 5) 1]"
  "below_floor 5 [paying (sample_recipient ''c'' 7 30) 4, paying (sample_recipient ''a'' 8 20) 2] = []"
  "retained [paying (sample_recipient ''b'' 9 5) 1]
      [sample_recipient ''a'' 8 20, sample_recipient ''b'' 9 5, sample_recipient ''c'' 7 30] =
    [sample_recipient ''a'' 8 20, sample_recipient ''c'' 7 30]"
  by (simp_all add: below_floor_def retained_def recipient_key_def fee_recipient_key_def
      sample_recipient_def paying_def carried_fanout_fee_recipient_def)

lemma sample_fee_decision:
  "apply_proportional_fanout_fee model_crypto sample_recipients 6 5 = Inr
    (fee_decision 55 6 6 [paying (sample_recipient ''c'' 7 30) 4, paying (sample_recipient ''a'' 8 20) 2]
      [carried_fanout_fee_recipient (sample_recipient ''b'' 9 5)])"
proof -
  have w: "waived (paying (sample_recipient ''b'' 9 5) 1) = carried_fanout_fee_recipient (sample_recipient ''b'' 9 5)"
    by (simp add: waived_def paying_def carried_fanout_fee_recipient_def)
  have two: "fee_loop 6 5 55 [sample_recipient ''a'' 8 20, sample_recipient ''c'' 7 30]
      [carried_fanout_fee_recipient (sample_recipient ''b'' 9 5)] = Inr (fee_decision 55 6 6
      [paying (sample_recipient ''c'' 7 30) 4, paying (sample_recipient ''a'' 8 20) 2]
      [carried_fanout_fee_recipient (sample_recipient ''b'' 9 5)])"
    by (subst fee_loop.simps) (simp add: sample_sums sample_turns sample_floor)
  have "fee_loop 6 5 55 [sample_recipient ''a'' 8 20, sample_recipient ''b'' 9 5, sample_recipient ''c'' 7 30] [] =
    Inr (fee_decision 55 6 6
      [paying (sample_recipient ''c'' 7 30) 4, paying (sample_recipient ''a'' 8 20) 2]
      [carried_fanout_fee_recipient (sample_recipient ''b'' 9 5)])"
    by (subst fee_loop.simps) (simp add: sample_sums sample_turns sample_floor w two)
  then show ?thesis
    using sample_canonical sample_sums by (simp add: apply_proportional_fanout_fee_def sample_recipients_def)
qed

section \<open>Properties\<close>

text \<open>
  C20: The fanout fee is exact: every recipient is either charged or carried forward whole;
  the payable rows pay their gross amount less their fee and stay at the floor or above;
  their fees add up to the fee that is applied, which is the requested one unless nobody
  can pay it; the carried rows pay nothing.
\<close>

theorem fanout_fee_exact:
  assumes "apply_proportional_fanout_fee c rs fee_sats m = Inr d"
  shows "\<exists>canonical. canonical_recipients c rs = Inr canonical \<and>
    mset (map charged_recipient (fd_payable d @ fd_carried d)) = mset canonical \<and>
    uint (fd_total_gross_sats d) = (\<Sum>r\<leftarrow>canonical. amount_of r) \<and>
    fd_applied_fee_sats d = (if fd_payable d = [] then 0 else fee_sats) \<and>
    (\<Sum>f\<leftarrow>fd_payable d. uint (fe_fee_sats f)) = uint (fd_applied_fee_sats d) \<and>
    list_all (\<lambda>f. uint (fe_net_sats f) = uint (fe_gross_sats f) - uint (fe_fee_sats f) \<and> m \<le> fe_net_sats f)
      (fd_payable d) \<and>
    list_all (\<lambda>f. fe_fee_sats f = 0 \<and> fe_net_sats f = fe_gross_sats f) (fd_carried d) \<and>
    sorted (map fee_recipient_key (fd_payable d)) \<and> sorted (map fee_recipient_key (fd_carried d))"
proof -
  from assms obtain canonical gross where c: "canonical_recipients c rs = Inr canonical"
    and g: "sum_amounts canonical = Inr gross" and l: "fee_loop fee_sats m gross canonical [] = Inr d"
    and dist: "distinct (map recipient_key canonical)" by (rule apply_fee_parts)
  note F = fee_loop_facts[OF l dist]
  show ?thesis
    using F c g by (intro exI[of _ canonical]) (simp add: fee_settled_def list_all_iff sum_amounts_Inr)
qed

theorem fanout_fee_exact_witness:
  "\<exists>d. apply_proportional_fanout_fee model_crypto sample_recipients 6 5 = Inr d \<and>
    (\<Sum>f\<leftarrow>fd_payable d. uint (fe_fee_sats f)) = 6 \<and> uint (fd_total_gross_sats d) = 55 \<and>
    map fe_recipient_id (fd_carried d) = [''b'']"
proof -
  from fanout_fee_exact[OF sample_fee_decision] show ?thesis
    unfolding sample_fee_decision
    by (simp add: carried_fanout_fee_recipient_def sample_recipient_def paying_def)
qed

text \<open>
  The fanout fee is fair: each payable recipient is charged the floor of its exact share
  of the fee among the payable recipients, or one satoshi more when the share is fractional.
\<close>

theorem fanout_fee_fair:
  assumes "apply_proportional_fanout_fee c rs fee_sats m = Inr d" and "f \<in> set (fd_payable d)"
  shows "let gross = (\<Sum>f\<leftarrow>fd_payable d. uint (fe_gross_sats f)); share = uint fee_sats * uint (fe_gross_sats f) in
    uint (fe_fee_sats f) = share div gross \<or>
    uint (fe_fee_sats f) = share div gross + 1 \<and> share mod gross \<noteq> 0"
proof -
  from assms(1) obtain canonical gross where l: "fee_loop fee_sats m gross canonical [] = Inr d"
    and dist: "distinct (map recipient_key canonical)" by (rule apply_fee_parts)
  have "fee_fair fee_sats (fd_payable d)" using fee_loop_facts[OF l dist] by simp
  then show ?thesis using assms(2) unfolding fee_fair_def Let_def
    by (elim ballE[of _ _ f]) (auto split: if_splits)
qed

theorem fanout_fee_fair_witness:
  "\<exists>d f. apply_proportional_fanout_fee model_crypto sample_recipients 6 5 = Inr d \<and>
    f \<in> set (fd_payable d) \<and> fe_fee_sats f = 4 \<and> uint (fe_fee_sats f) \<le> 6 * 30 div 50 + 1"
proof -
  let ?f = "paying (sample_recipient ''c'' 7 30) 4"
  from fanout_fee_fair[OF sample_fee_decision, of ?f] sample_fee_decision show ?thesis
    by (intro exI[of _ "fee_decision 55 6 6 [?f, paying (sample_recipient ''a'' 8 20) 2]
        [carried_fanout_fee_recipient (sample_recipient ''b'' 9 5)]"] exI[of _ ?f])
      (simp add: carried_fanout_fee_recipient_def sample_recipient_def paying_def)
qed

text \<open>
  The fanout fee is total: the loop ends, and with valid recipients whose amounts add up
  within 64 bits it returns a decision for every fee, and for every positive floor.
\<close>

theorem fanout_fee_succeeds:
  "(\<exists>d. apply_proportional_fanout_fee c rs fee_sats m = Inr d) \<longleftrightarrow>
    m \<noteq> 0 \<and> rs \<noteq> [] \<and>
    (\<exists>canonical. canonical_recipients c rs = Inr canonical \<and> (\<Sum>r\<leftarrow>canonical. amount_of r) < 2 ^ 64)"
proof
  assume "\<exists>d. apply_proportional_fanout_fee c rs fee_sats m = Inr d"
  then obtain d where "apply_proportional_fanout_fee c rs fee_sats m = Inr d" ..
  then show "m \<noteq> 0 \<and> rs \<noteq> [] \<and>
    (\<exists>canonical. canonical_recipients c rs = Inr canonical \<and> (\<Sum>r\<leftarrow>canonical. amount_of r) < 2 ^ 64)"
    by (rule apply_fee_parts) (use sum_amounts_ex in blast)
next
  assume A: "m \<noteq> 0 \<and> rs \<noteq> [] \<and>
    (\<exists>canonical. canonical_recipients c rs = Inr canonical \<and> (\<Sum>r\<leftarrow>canonical. amount_of r) < 2 ^ 64)"
  then obtain canonical where c: "canonical_recipients c rs = Inr canonical"
    and small: "(\<Sum>r\<leftarrow>canonical. amount_of r) < 2 ^ 64" by blast
  obtain gross where "sum_amounts canonical = Inr gross" using small sum_amounts_ex by blast
  with A c fee_loop_total[OF small, of fee_sats m gross "[]"]
  show "\<exists>d. apply_proportional_fanout_fee c rs fee_sats m = Inr d"
    by (simp add: apply_proportional_fanout_fee_def)
qed

text \<open>
  The fee estimate rounds up: it is the weight of the fanout times the market rate times
  the premium, in units of ten million, rounded up, so it never reserves too little, and less
  than one satoshi too much.
\<close>

theorem fanout_estimate_rounds_up:
  assumes "estimate_ctv_fanout_fee_sats n policy = Inr fee"
  shows "\<exists>weight. estimated_ctv_fanout_weight_bytes n = Inr weight \<and>
    weight = 90 + compact_size_len n + 43 * n \<and> 0 < n \<and>
    int weight * uint (fr_market_fee_rate policy) * uint (fr_premium_bps policy) \<le> uint fee * 10000000 \<and>
    uint fee * 10000000 < int weight * uint (fr_market_fee_rate policy) * uint (fr_premium_bps policy) + 10000000"
proof -
  have n: "n \<noteq> 0" using assms by (auto simp: estimate_ctv_fanout_fee_sats_def)
  from assms obtain weight v numerator total_sum where
    w: "estimated_ctv_fanout_weight_bytes n = Inr weight"
    and v: "checked_mul (word_of_nat weight :: u128) (u128_of_u64 (fr_market_fee_rate policy)) = Some v"
    and num: "checked_mul v (u128_of_u64 (fr_premium_bps policy)) = Some numerator"
    and t: "checked_add numerator (1000 * 10000 - 1) = Some total_sum"
    and fee: "u64_try_from_u128 (total_sum div (1000 * 10000)) = Some fee"
    unfolding estimate_ctv_fanout_fee_sats_def Let_def rbind_Inr if_Inl_Inr ok_or_Inr
    by (elim conjE exE) (auto split: option.splits)
  have weight: "weight = 90 + compact_size_len n + 43 * n" "weight < 2 ^ 64"
    using w by (auto simp: estimated_ctv_fanout_weight_bytes_def usize_add_def usize_mul_def settlement_consts
        split: option.splits if_splits)
  have "int weight < 2 ^ 64" using weight(2) by (metis of_nat_less_iff of_nat_numeral of_nat_power)
  then have "int weight < 2 ^ LENGTH(128)" by simp
  then have "uint (word_of_int (int weight) :: u128) = int weight" by (intro uint_word_of_int_small) simp_all
  then have uw: "uint (word_of_nat weight :: u128) = int weight" unfolding of_int_of_nat_eq .
  have total: "uint total_sum = int weight * uint (fr_market_fee_rate policy) * uint (fr_premium_bps policy) + 9999999"
    using t num v by (simp add: checked_add_Some checked_mul_Some uw)
  have "uint fee = uint total_sum div 10000000" using fee by (simp add: u64_try_from_u128_Some uint_div_distrib)
  then have "uint fee * 10000000 \<le> uint total_sum \<and> uint total_sum < uint fee * 10000000 + 10000000"
    using div_mult_mod_eq[of "uint total_sum" 10000000] pos_mod_bound[of 10000000 "uint total_sum"]
      pos_mod_sign[of 10000000 "uint total_sum"] by linarith
  then show ?thesis using w weight(1) n total by simp
qed
theorem fanout_estimate_rounds_up_witness:
  "estimate_ctv_fanout_fee_sats 2 \<lparr>fr_market_fee_rate = 1000, fr_premium_bps = 12000\<rparr> = Inr 213 \<and>
    177 * 1000 * 12000 \<le> (213 :: int) * 10000000"
proof -
  have "estimate_ctv_fanout_fee_sats 2 \<lparr>fr_market_fee_rate = 1000, fr_premium_bps = 12000\<rparr> = Inr 213"
    by (simp add: estimate_ctv_fanout_fee_sats_def estimated_ctv_fanout_weight_bytes_def usize_add_def
        usize_mul_def compact_size_len_def settlement_consts checked_mul_def checked_add_def u128_of_u64_def
        u64_try_from_u128_def)
  with fanout_estimate_rounds_up[OF this] show ?thesis by (auto simp: compact_size_len_def)
qed

end
