(* ===== verification/Ctv.thy ===== *)
theory Ctv
  imports Transaction Settlement
begin

text \<open>
  CTV fanouts of \<open>qbit-prism/src/ctv.rs\<close>: the data, the hex and hash helpers, the CTV
  template hash, the P2MR covenant program, and the fanout transaction of a list of payouts.
  \<open>serde_json\<close> is a parameter that gives the canonical bytes of a precommitment and of a
  manifest set.
\<close>

section \<open>Data\<close>

record ctv_payout =
  cp_recipient_id :: string
  cp_order_key :: string
  cp_program :: string
  cp_gross_sats :: u64
  cp_fee_sats :: u64
  cp_amount_sats :: u64

record ctv_output =
  co_vout :: u32
  co_recipient_id :: string
  co_order_key :: string
  co_program :: string
  co_script_hex :: string
  co_gross_sats :: u64
  co_fee_sats :: u64
  co_amount_sats :: u64

record ctv_precommitment =
  pc_schema :: string
  pc_block_height :: u64
  pc_chunk_index :: u32
  pc_chunk_count :: u32
  pc_coinbase_value :: u64
  pc_settlement_mode :: settlement_mode
  pc_covenant_value :: u64
  pc_covenant_script_hex :: string
  pc_template_hex :: string
  pc_input_index :: u32
  pc_sequence :: u32
  pc_lock_time :: u32
  pc_output_sum :: u64
  pc_fee_sats :: u64
  pc_anchor_vout :: "u32 option"
  pc_ctv_hash_hex :: string
  pc_leaf_script_hex :: string
  pc_program_hex :: string
  pc_control_block_hex :: string
  pc_reward_sha256_hex :: string
  pc_policy_sha256_hex :: string
  pc_outputs :: "ctv_output list"

record ctv_precommitment_input =
  ki_block_height :: u64
  ki_chunk_index :: u32
  ki_chunk_count :: u32
  ki_coinbase_value :: u64
  ki_settlement_mode :: settlement_mode
  ki_reward_sha256_hex :: string
  ki_policy_sha256_hex :: string
  ki_payouts :: "ctv_payout list"

record prepared_ctv_fanout =
  pf_precommitment :: ctv_precommitment
  pf_precommitment_sha256_hex :: string
  pf_witness_leaf_hex :: string
  pf_covenant_recipient_id :: string
  pf_covenant_order_key :: string
  pf_covenant_program_hex :: string
  pf_covenant_value :: u64

record ctv_manifest_input =
  mi_block_height :: u64
  mi_chunk_index :: u32
  mi_chunk_count :: u32
  mi_coinbase_value :: u64
  mi_settlement_mode :: settlement_mode
  mi_template_hex :: string
  mi_parent_hex :: string
  mi_parent_vout :: u32
  mi_fanout_hex :: string
  mi_reward_sha256_hex :: string
  mi_policy_sha256_hex :: string
  mi_payouts :: "ctv_payout list"

record ctv_manifest =
  cm_schema :: string
  cm_precommitment :: ctv_precommitment
  cm_precommitment_sha256_hex :: string
  cm_witness_leaf_hex :: string
  cm_parent_txid :: string
  cm_parent_hex :: string
  cm_parent_vout :: u32
  cm_covenant_value :: u64
  cm_covenant_script_hex :: string
  cm_fanout_hex :: string
  cm_fanout_txid :: string

record ctv_manifest_set =
  ms_schema :: string
  ms_block_height :: u64
  ms_coinbase_value :: u64
  ms_settlement_mode :: settlement_mode
  ms_reward_sha256_hex :: string
  ms_policy_sha256_hex :: string
  ms_parent_txid :: string
  ms_fanout_count :: u32
  ms_output_sum :: u64
  ms_fee_sats :: u64
  ms_covenant_value :: u64
  ms_manifests :: "ctv_manifest list"

record ctv_json =
  cj_precommitment :: "ctv_precommitment \<Rightarrow> string + bytes"
  cj_manifest_set :: "ctv_manifest_set \<Rightarrow> string + bytes"

definition CTV_FANOUT_MANIFEST_SCHEMA :: string where
  "CTV_FANOUT_MANIFEST_SCHEMA = ''qbit.prism.ctv-fanout-manifest.v1''"
definition CTV_FANOUT_MANIFEST_SET_SCHEMA :: string where
  "CTV_FANOUT_MANIFEST_SET_SCHEMA = ''qbit.prism.ctv-fanout-manifest-set.v1''"
definition CTV_FANOUT_PRECOMMITMENT_SCHEMA :: string where
  "CTV_FANOUT_PRECOMMITMENT_SCHEMA = ''qbit.prism.ctv-fanout-precommitment.v1''"
definition CTV_FANOUT_COMMITMENT_LEAF_TAG :: string where
  "CTV_FANOUT_COMMITMENT_LEAF_TAG = ''qbit.prism.ctv-fanout.commitment.v1''"
definition QBIT_P2MR_LEAF_VERSION :: u8 where "QBIT_P2MR_LEAF_VERSION = 0xc0"
definition QBIT_P2MR_CONTROL_BLOCK :: u8 where "QBIT_P2MR_CONTROL_BLOCK = 0xc1"
definition QBIT_OP_CHECKTEMPLATEVERIFY :: u8 where "QBIT_OP_CHECKTEMPLATEVERIFY = 0xbb"
definition QBIT_CTV_INPUT_INDEX :: u32 where "QBIT_CTV_INPUT_INDEX = 0"
definition COINBASE_PREVOUT_VOUT :: u32 where "COINBASE_PREVOUT_VOUT = 0xffffffff"
definition P2A_ANCHOR_SCRIPT_PUBKEY_HEX :: string where "P2A_ANCHOR_SCRIPT_PUBKEY_HEX = ''51024e73''"
definition CTV_FANOUT_ANCHOR_VALUE_SATS :: u64 where "CTV_FANOUT_ANCHOR_VALUE_SATS = 0"
definition CTV_FANOUT_TX_VERSION :: u32 where "CTV_FANOUT_TX_VERSION = 3"
definition CTV_FANOUT_SEQUENCE_BASE :: u32 where "CTV_FANOUT_SEQUENCE_BASE = 0x80000000"

lemmas ctv_consts [evals] = CTV_FANOUT_MANIFEST_SCHEMA_def CTV_FANOUT_MANIFEST_SET_SCHEMA_def
  CTV_FANOUT_PRECOMMITMENT_SCHEMA_def CTV_FANOUT_COMMITMENT_LEAF_TAG_def QBIT_P2MR_LEAF_VERSION_def
  QBIT_P2MR_CONTROL_BLOCK_def QBIT_OP_CHECKTEMPLATEVERIFY_def QBIT_CTV_INPUT_INDEX_def
  COINBASE_PREVOUT_VOUT_def P2A_ANCHOR_SCRIPT_PUBKEY_HEX_def CTV_FANOUT_ANCHOR_VALUE_SATS_def
  CTV_FANOUT_TX_VERSION_def CTV_FANOUT_SEQUENCE_BASE_def

section \<open>Checks\<close>

text \<open>\<open>if c { return Err(invalid_ctv_manifest(reason)) }\<close>, and a sequence of checks.\<close>

definition reject_if :: "bool \<Rightarrow> string \<Rightarrow> prism_error + unit" where
  "reject_if bad reason = (if bad then Inl (invalid_ctv_manifest reason) else Inr ())"

fun checks :: "('e + unit) list \<Rightarrow> 'e + unit" where
  "checks [] = Inr ()"
| "checks (x # xs) = rbind x (\<lambda>_. checks xs)"

lemma reject_if_Inr [simp]: "reject_if bad reason = Inr u \<longleftrightarrow> \<not> bad"
  by (cases u) (simp add: reject_if_def)

lemma checks_Inr: "checks xs = Inr u \<longleftrightarrow> (\<forall>x\<in>set xs. x = Inr ())"
  by (cases u, induction xs) auto

section \<open>Hex fields\<close>

definition decode_field :: "crypto \<Rightarrow> string \<Rightarrow> string \<Rightarrow> prism_error + bytes" where
  "decode_field c value field =
    map_err (\<lambda>e. invalid_ctv_manifest (field @ '' must be hex: '' @ e)) (hex_decode c value)"

definition decode_array :: "crypto \<Rightarrow> usize \<Rightarrow> string \<Rightarrow> string \<Rightarrow> prism_error + bytes" where
  "decode_array c n value field =
    rbind (decode_field c value field) (\<lambda>bytes.
    if length bytes = n then Inr bytes
    else Inl (invalid_ctv_manifest (field @ '' must be '' @ dec_digits n @ '' bytes, got '' @
      dec_digits (length bytes))))"

definition decode_hash_hex :: "crypto \<Rightarrow> string \<Rightarrow> string \<Rightarrow> prism_error + bytes" where
  "decode_hash_hex c = decode_array c 32"

definition decode_program_hex :: "crypto \<Rightarrow> string \<Rightarrow> string \<Rightarrow> prism_error + bytes" where
  "decode_program_hex c = decode_array c P2MR_PROGRAM_LEN"

definition normalize_txid_hex :: "crypto \<Rightarrow> string \<Rightarrow> string \<Rightarrow> prism_error + string" where
  "normalize_txid_hex c value field =
    rbind (decode_array c 32 value field) (\<lambda>bytes. Inr (hex_encode c bytes))"

definition normalize_hex :: "crypto \<Rightarrow> string \<Rightarrow> prism_error + string" where
  "normalize_hex c value =
    rbind (map_err (\<lambda>e. invalid_ctv_manifest (''invalid transaction hex: '' @ e)) (hex_decode c value))
      (\<lambda>bytes. Inr (hex_encode c bytes))"

definition validate_sha256_hex :: "crypto \<Rightarrow> string \<Rightarrow> string \<Rightarrow> prism_error + unit" where
  "validate_sha256_hex c value field = rbind (decode_hash_hex c value field) (\<lambda>_. Inr ())"

definition validate_canonical_sha256_hex :: "crypto \<Rightarrow> string \<Rightarrow> string \<Rightarrow> prism_error + unit" where
  "validate_canonical_sha256_hex c value field =
    rbind (decode_hash_hex c value field) (\<lambda>hash.
    reject_if (value \<noteq> hex_encode c hash) (field @ '' must be lowercase canonical hex''))"

definition validate_canonical_hex :: "crypto \<Rightarrow> string \<Rightarrow> string \<Rightarrow> prism_error + unit" where
  "validate_canonical_hex c value field =
    rbind (decode_field c value field) (\<lambda>bytes.
    reject_if (value \<noteq> hex_encode c bytes) (field @ '' must be lowercase canonical hex''))"

definition canonical_p2mr_program_hex :: "crypto \<Rightarrow> string \<Rightarrow> string \<Rightarrow> prism_error + string" where
  "canonical_p2mr_program_hex c value field =
    rbind (decode_program_hex c value field) (\<lambda>program. Inr (hex_encode c program))"

lemmas hex_field_evals [evals] = reject_if_def decode_field_def decode_array_def decode_hash_hex_def
  decode_program_hex_def normalize_txid_hex_def normalize_hex_def validate_sha256_hex_def
  validate_canonical_sha256_hex_def validate_canonical_hex_def canonical_p2mr_program_hex_def

section \<open>Hashes\<close>

definition tagged_hash :: "crypto \<Rightarrow> string \<Rightarrow> bytes \<Rightarrow> bytes" where
  "tagged_hash c tag payload =
    (let tag_hash = sha256 c (string_bytes tag) in sha256 c (tag_hash @ tag_hash @ payload))"

definition ctv_leaf_script :: "bytes \<Rightarrow> bytes" where
  "ctv_leaf_script ctv_hash = 32 # ctv_hash @ [QBIT_OP_CHECKTEMPLATEVERIFY]"

definition p2mr_tapleaf_hash :: "crypto \<Rightarrow> bytes \<Rightarrow> bytes" where
  "p2mr_tapleaf_hash c leaf_script =
    tagged_hash c ''P2MRLeaf'' (QBIT_P2MR_LEAF_VERSION # var_bytes leaf_script)"

text \<open>The preimage of the template hash: scriptSigs only when one of them is not empty.\<close>

definition ctv_preimage :: "crypto \<Rightarrow> parsed_transaction \<Rightarrow> usize \<Rightarrow> prism_error + bytes" where
  "ctv_preimage c tx input_index =
    (if length (tx_inputs tx) \<le> input_index then Inl (invalid_ctv_manifest ''CTV input index out of range'')
     else
     let scripts = (if \<exists>i\<in>set (tx_inputs tx). ti_script_sig i \<noteq> []
         then sha256 c (concat (map (\<lambda>i. var_bytes (ti_script_sig i)) (tx_inputs tx))) else []) in
     rbind (if int (length (tx_inputs tx)) < 2 ^ 32 then Inr (length (tx_inputs tx))
       else Inl (invalid_ctv_manifest ''CTV input count exceeds uint32'')) (\<lambda>input_count.
     rbind (if int (length (tx_outputs tx)) < 2 ^ 32 then Inr (length (tx_outputs tx))
       else Inl (invalid_ctv_manifest ''CTV output count exceeds uint32'')) (\<lambda>output_count.
     rbind (if int input_index < 2 ^ 32 then Inr input_index
       else Inl (invalid_ctv_manifest ''CTV input index exceeds uint32'')) (\<lambda>index.
     Inr (le_bytes 4 (uint (tx_version tx)) @ le_bytes 4 (uint (tx_lock_time tx)) @ scripts @
       le_bytes 4 (int input_count) @
       sha256 c (concat (map (\<lambda>i. le_bytes 4 (uint (ti_sequence i))) (tx_inputs tx))) @
       le_bytes 4 (int output_count) @
       sha256 c (concat (map tx_out_bytes (tx_outputs tx))) @
       le_bytes 4 (int index))))))"

definition default_ctv_hash_for_parsed_tx :: "crypto \<Rightarrow> parsed_transaction \<Rightarrow> usize \<Rightarrow> prism_error + bytes" where
  "default_ctv_hash_for_parsed_tx c tx input_index =
    rbind (ctv_preimage c tx input_index) (\<lambda>preimage. Inr (sha256 c preimage))"

definition default_ctv_hash_hex :: "crypto \<Rightarrow> string \<Rightarrow> usize \<Rightarrow> prism_error + string" where
  "default_ctv_hash_hex c tx_hex input_index =
    rbind (parse_transaction_hex c tx_hex ''tx_hex'') (\<lambda>tx.
    rbind (default_ctv_hash_for_parsed_tx c tx input_index) (\<lambda>h. Inr (hex_encode c h)))"

definition ctv_leaf_script_hex :: "crypto \<Rightarrow> string \<Rightarrow> prism_error + string" where
  "ctv_leaf_script_hex c ctv_hash_hex =
    rbind (decode_hash_hex c ctv_hash_hex ''ctv_hash_hex'') (\<lambda>ctv_hash.
    Inr (hex_encode c (ctv_leaf_script ctv_hash)))"

definition p2mr_program_for_ctv_leaf_hex :: "crypto \<Rightarrow> string \<Rightarrow> prism_error + string" where
  "p2mr_program_for_ctv_leaf_hex c leaf_hex =
    rbind (map_err (\<lambda>e. invalid_ctv_manifest (''invalid ctv_leaf_script_hex: '' @ e)) (hex_decode c leaf_hex))
      (\<lambda>leaf_script. Inr (hex_encode c (p2mr_tapleaf_hash c leaf_script)))"

definition commitment_witness_leaf_hex :: "crypto \<Rightarrow> string \<Rightarrow> prism_error + string" where
  "commitment_witness_leaf_hex c precommitment_sha256 =
    rbind (decode_hash_hex c precommitment_sha256 ''precommitment_sha256_hex'') (\<lambda>precommitment_hash.
    Inr (hex_encode c (sha256 c (string_bytes CTV_FANOUT_COMMITMENT_LEAF_TAG @ precommitment_hash))))"

definition canonical_precommitment_bytes :: "ctv_json \<Rightarrow> ctv_precommitment \<Rightarrow> prism_error + bytes" where
  "canonical_precommitment_bytes js p = map_err Json (cj_precommitment js p)"

lemmas ctv_hash_evals [evals] = tagged_hash_def ctv_leaf_script_def p2mr_tapleaf_hash_def ctv_preimage_def
  default_ctv_hash_for_parsed_tx_def default_ctv_hash_hex_def ctv_leaf_script_hex_def
  p2mr_program_for_ctv_leaf_hex_def commitment_witness_leaf_hex_def canonical_precommitment_bytes_def

section \<open>The fanout transaction\<close>

definition p2a_anchor_script_pubkey :: "crypto \<Rightarrow> prism_error + bytes" where
  "p2a_anchor_script_pubkey c =
    map_err (\<lambda>_. Panic ''static P2A script hex'') (hex_decode c P2A_ANCHOR_SCRIPT_PUBKEY_HEX)"

definition fanout_has_cpfp_anchor :: "u64 \<Rightarrow> bool" where
  "fanout_has_cpfp_anchor fee_sats \<longleftrightarrow> fee_sats = 0"

definition anchor_vout_for_fee :: "usize \<Rightarrow> u64 \<Rightarrow> prism_error + u32 option" where
  "anchor_vout_for_fee output_count fee_sats =
    (if \<not> fanout_has_cpfp_anchor fee_sats then Inr None
     else if int output_count < 2 ^ 32 then Inr (Some (word_of_nat output_count))
     else Inl (invalid_ctv_manifest ''fanout anchor vout exceeds uint32''))"

definition validate_chunk_identity :: "u32 \<Rightarrow> u32 \<Rightarrow> prism_error + unit" where
  "validate_chunk_identity chunk_index chunk_count = checks
    [reject_if (chunk_count = 0) ''fanout chunk_count must be positive'',
     reject_if (chunk_count \<le> chunk_index) ''fanout chunk_index must be less than chunk_count'']"

definition expected_fanout_sequence :: "u32 \<Rightarrow> prism_error + u32" where
  "expected_fanout_sequence chunk_index =
    ok_or (checked_add CTV_FANOUT_SEQUENCE_BASE chunk_index) (invalid_ctv_manifest ''fanout sequence overflowed'')"

definition output_spec_from_fanout_output :: "crypto \<Rightarrow> ctv_output \<Rightarrow> prism_error + tx_output_spec" where
  "output_spec_from_fanout_output c out =
    rbind (map_err (\<lambda>e. invalid_ctv_manifest (''fanout output scriptPubKey must be canonical hex: '' @ e))
        (hex_decode c (co_script_hex out))) (\<lambda>script.
    Inr \<lparr>os_amount_sats = co_amount_sats out, os_script_pubkey = script\<rparr>)"

definition fanout_output_specs :: "crypto \<Rightarrow> ctv_output list \<Rightarrow> bool \<Rightarrow> prism_error + tx_output_spec list" where
  "fanout_output_specs c outputs include_anchor =
    rbind (try_map (output_spec_from_fanout_output c) outputs) (\<lambda>specs.
    if include_anchor
    then rbind (p2a_anchor_script_pubkey c) (\<lambda>anchor.
      Inr (specs @ [\<lparr>os_amount_sats = CTV_FANOUT_ANCHOR_VALUE_SATS, os_script_pubkey = anchor\<rparr>]))
    else Inr specs)"

definition fanout_tx_hex ::
  "crypto \<Rightarrow> string \<Rightarrow> u32 \<Rightarrow> ctv_output list \<Rightarrow> bool \<Rightarrow> u32 \<Rightarrow> u32 \<Rightarrow> bytes list option \<Rightarrow> prism_error + string"
where
  "fanout_tx_hex c parent_txid parent_vout outputs include_anchor lock_time sequence witness =
    rbind (normalize_txid_hex c parent_txid ''fanout parent txid'') (\<lambda>prev_txid.
    rbind (fanout_output_specs c outputs include_anchor) (\<lambda>specs.
    serialize_tx_hex c CTV_FANOUT_TX_VERSION
      [\<lparr>is_prev_txid_hex = prev_txid, is_prev_vout = parent_vout, is_script_sig = [], is_sequence = sequence,
        is_witness_stack = (case witness of None \<Rightarrow> [] | Some w \<Rightarrow> w)\<rparr>]
      specs lock_time (witness \<noteq> None)))"

definition unsigned_fanout_tx_hex ::
  "crypto \<Rightarrow> string \<Rightarrow> u32 \<Rightarrow> ctv_output list \<Rightarrow> bool \<Rightarrow> u32 \<Rightarrow> u32 \<Rightarrow> prism_error + string"
where
  "unsigned_fanout_tx_hex c parent_txid parent_vout outputs include_anchor lock_time sequence =
    fanout_tx_hex c parent_txid parent_vout outputs include_anchor lock_time sequence None"

definition witnessed_fanout_tx_hex ::
  "crypto \<Rightarrow> string \<Rightarrow> u32 \<Rightarrow> ctv_output list \<Rightarrow> bool \<Rightarrow> u32 \<Rightarrow> u32 \<Rightarrow> bytes \<Rightarrow> prism_error + string"
where
  "witnessed_fanout_tx_hex c parent_txid parent_vout outputs include_anchor lock_time sequence leaf_script =
    fanout_tx_hex c parent_txid parent_vout outputs include_anchor lock_time sequence
      (Some [leaf_script, [QBIT_P2MR_CONTROL_BLOCK]])"

definition ensure_coinbase_shape :: "crypto \<Rightarrow> parsed_transaction \<Rightarrow> prism_error + unit" where
  "ensure_coinbase_shape c tx = (case tx_inputs tx of
      [i] \<Rightarrow> reject_if (ti_prev_txid_hex i \<noteq> concat (replicate 32 ''00'') \<or> ti_prev_vout i \<noteq> COINBASE_PREVOUT_VOUT)
        ''parent coinbase input must spend the null outpoint''
    | _ \<Rightarrow> Inl (invalid_ctv_manifest ''parent coinbase must have exactly one input''))"

definition validate_fanout_template :: "parsed_transaction \<Rightarrow> prism_error + unit" where
  "validate_fanout_template tx = checks
    [reject_if (tx_version tx \<noteq> CTV_FANOUT_TX_VERSION) ''fanout template must be a version 3 (TRUC) transaction'',
     reject_if (length (tx_inputs tx) \<noteq> 1) ''fanout template transaction must have exactly one input'',
     reject_if (tx_witness_stacks tx \<noteq> None) ''fanout template transaction must not include witness data'',
     reject_if (ti_script_sig (hd (tx_inputs tx)) \<noteq> []) ''fanout template input scriptSig must be empty'']"

definition ensure_fee_anchor_output :: "crypto \<Rightarrow> parsed_tx_out \<Rightarrow> u32 \<Rightarrow> usize \<Rightarrow> prism_error + unit" where
  "ensure_fee_anchor_output c out declared_vout expected_index = checks
    [reject_if (unat declared_vout \<noteq> expected_index) ''fee anchor vout mismatch'',
     reject_if (to_amount_sats out \<noteq> CTV_FANOUT_ANCHOR_VALUE_SATS) ''fee anchor value must be zero'',
     rbind (p2a_anchor_script_pubkey c) (\<lambda>anchor.
       reject_if (to_script_pubkey out \<noteq> anchor) ''fee anchor must use the P2A scriptPubKey'')]"

definition verify_fanout_witness :: "parsed_transaction \<Rightarrow> bytes \<Rightarrow> prism_error + unit" where
  "verify_fanout_witness tx leaf_script =
    rbind (ok_or (tx_witness_stacks tx) (invalid_ctv_manifest ''fanout transaction must include P2MR witness''))
      (\<lambda>witness.
    if witness = [] then Inl (invalid_ctv_manifest ''fanout witness input 0 is missing'')
    else let input_witness = hd witness in checks
      [reject_if (length input_witness \<noteq> 2) ''fanout P2MR witness must contain leaf script and control block'',
       reject_if (input_witness ! 0 \<noteq> leaf_script) ''fanout witness leaf script mismatch'',
       reject_if (input_witness ! 1 \<noteq> [QBIT_P2MR_CONTROL_BLOCK]) ''fanout witness control block mismatch''])"

lemmas fanout_tx_evals [evals] = p2a_anchor_script_pubkey_def fanout_has_cpfp_anchor_def
  anchor_vout_for_fee_def validate_chunk_identity_def expected_fanout_sequence_def
  output_spec_from_fanout_output_def fanout_output_specs_def fanout_tx_hex_def unsigned_fanout_tx_hex_def
  witnessed_fanout_tx_hex_def ensure_coinbase_shape_def validate_fanout_template_def
  ensure_fee_anchor_output_def verify_fanout_witness_def

end
