(* ===== verification/Ctv_Manifest.thy ===== *)
theory Ctv_Manifest
  imports Ctv
begin

text \<open>
  CTV fanout precommitments, manifests and manifest sets of \<open>qbit-prism/src/ctv.rs\<close>: they are
  prepared before the block is mined, finalized once the coinbase is known, and verified by
  recomputing every field.
\<close>

section \<open>Canonical outputs\<close>

definition payout_key :: "ctv_payout \<Rightarrow> settlement_key" where
  "payout_key p = (cp_order_key p, cp_recipient_id p, cp_program p)"

definition output_key :: "ctv_output \<Rightarrow> settlement_key" where
  "output_key out = (co_order_key out, co_recipient_id out, co_program out)"

definition payout_order :: "ctv_payout \<Rightarrow> string \<times> string \<times> string \<times> int" where
  "payout_order p = (cp_order_key p, cp_recipient_id p, cp_program p, uint (cp_amount_sats p))"

definition canonical_payout :: "crypto \<Rightarrow> ctv_payout \<Rightarrow> prism_error + ctv_payout" where
  "canonical_payout c p =
    rbind (canonical_p2mr_program_hex c (cp_program p) ''payout p2mr_program_hex'') (\<lambda>program.
    Inr (p\<lparr>cp_program := program\<rparr>))"

definition fanout_output :: "crypto \<Rightarrow> nat \<Rightarrow> ctv_payout \<Rightarrow> prism_error + ctv_output" where
  "fanout_output c index p =
    (if cp_amount_sats p = 0 then Inl (invalid_ctv_manifest ''fanout payout amount must be positive'')
     else
     let gross = (if cp_gross_sats p = 0 then cp_amount_sats p else cp_gross_sats p) in
     rbind (ok_or (checked_add (cp_amount_sats p) (cp_fee_sats p))
       (invalid_ctv_manifest ''fanout payout gross amount overflowed'')) (\<lambda>both.
     if both \<noteq> gross
       then Inl (invalid_ctv_manifest ''fanout payout gross amount must equal amount plus fee'')
     else
     rbind (decode_program_hex c (cp_program p) ''payout p2mr_program_hex'') (\<lambda>program.
     Inr \<lparr>co_vout = word_of_nat index, co_recipient_id = cp_recipient_id p, co_order_key = cp_order_key p,
          co_program = cp_program p, co_script_hex = hex_encode c (p2mr_script_pubkey program),
          co_gross_sats = gross, co_fee_sats = cp_fee_sats p, co_amount_sats = cp_amount_sats p\<rparr>)))"

fun fanout_outputs_from ::
  "crypto \<Rightarrow> settlement_key set \<Rightarrow> nat \<Rightarrow> ctv_payout list \<Rightarrow> prism_error + ctv_output list"
where
  "fanout_outputs_from c seen index [] = Inr []"
| "fanout_outputs_from c seen index (p # ps) =
    rbind (fanout_output c index p) (\<lambda>out.
    if payout_key p \<in> seen then Inl (invalid_ctv_manifest ''duplicate fanout payout recipient'')
    else
    rbind (fanout_outputs_from c (insert (payout_key p) seen) (Suc index) ps) (\<lambda>outs.
    Inr (out # outs)))"

definition canonical_fanout_outputs :: "crypto \<Rightarrow> ctv_payout list \<Rightarrow> prism_error + ctv_output list" where
  "canonical_fanout_outputs c payouts =
    (if payouts = [] then Inl (invalid_ctv_manifest ''fanout must have at least one payout'')
     else
     rbind (try_map (canonical_payout c) payouts) (\<lambda>canonical.
     fanout_outputs_from c {} 0 (sort_key payout_order canonical)))"

definition output_amount_sum :: "ctv_output list \<Rightarrow> prism_error + u64" where
  "output_amount_sum = checked_sum (invalid_ctv_manifest ''fanout output sum overflowed'') co_amount_sats"

definition output_fee_sum :: "ctv_output list \<Rightarrow> prism_error + u64" where
  "output_fee_sum = checked_sum (invalid_ctv_manifest ''fanout fee sum overflowed'') co_fee_sats"

section \<open>Precommitments\<close>

definition precommitment_row :: "crypto \<Rightarrow> settlement_key set \<Rightarrow> nat \<Rightarrow> ctv_output \<Rightarrow> prism_error + settlement_key" where
  "precommitment_row c seen index out =
    rbind (checks
      [reject_if (co_vout out \<noteq> word_of_nat index)
         (''fanout output '' @ dec_digits index @ '' vout mismatch''),
       reject_if (co_amount_sats out = 0)
         (''fanout output '' @ dec_digits index @ '' amount must be positive'')]) (\<lambda>_.
    rbind (canonical_p2mr_program_hex c (co_program out) ''precommitment p2mr_program_hex'') (\<lambda>program_hex.
    let key = (co_order_key out, co_recipient_id out, program_hex) in
    rbind (reject_if (key \<in> seen) ''duplicate fanout payout recipient'') (\<lambda>_.
    rbind (decode_program_hex c (co_program out) ''precommitment p2mr_program_hex'') (\<lambda>expected_program.
    rbind (checks
      [reject_if (co_program out \<noteq> hex_encode c expected_program)
         ''precommitment p2mr_program_hex must be lowercase canonical hex'',
       reject_if (hex_encode c (p2mr_script_pubkey expected_program) \<noteq> co_script_hex out)
         (''fanout output '' @ dec_digits index @ '' scriptPubKey mismatch'')]) (\<lambda>_.
    Inr key)))))"

fun precommitment_rows ::
  "crypto \<Rightarrow> settlement_key set \<Rightarrow> nat \<Rightarrow> u64 \<Rightarrow> u64 \<Rightarrow> ctv_output list \<Rightarrow> prism_error + u64 \<times> u64"
where
  "precommitment_rows c seen index amounts fees [] = Inr (amounts, fees)"
| "precommitment_rows c seen index amounts fees (out # outs) =
    rbind (precommitment_row c seen index out) (\<lambda>key.
    rbind (ok_or (checked_add amounts (co_amount_sats out))
      (invalid_ctv_manifest ''fanout output sum overflowed'')) (\<lambda>amounts.
    rbind (ok_or (checked_add fees (co_fee_sats out))
      (invalid_ctv_manifest ''fanout fee sum overflowed'')) (\<lambda>fees.
    precommitment_rows c (insert key seen) (Suc index) amounts fees outs)))"

definition check_anchor :: "u64 \<Rightarrow> u32 option \<Rightarrow> usize \<Rightarrow> prism_error + unit" where
  "check_anchor fee_sats anchor_vout output_count =
    (case anchor_vout of
      Some vout \<Rightarrow> (if fee_sats = 0
        then reject_if (unat vout \<noteq> output_count) ''fee anchor vout must follow the payouts''
        else Inl (invalid_ctv_manifest ''built-in-fee fanout must not include a CPFP anchor''))
    | None \<Rightarrow> reject_if (fee_sats = 0) ''zero-fee fanout must include a CPFP anchor'')"

definition verify_precommitment :: "crypto \<Rightarrow> ctv_precommitment \<Rightarrow> prism_error + unit" where
  "verify_precommitment c p =
    rbind (checks
      [reject_if (pc_schema p \<noteq> CTV_FANOUT_PRECOMMITMENT_SCHEMA) ''unexpected fanout precommitment schema'',
       validate_canonical_hex c (pc_covenant_script_hex p) ''precommitment covenant_script_pubkey_hex'',
       validate_canonical_hex c (pc_template_hex p) ''precommitment fanout_tx_template_hex'',
       validate_canonical_sha256_hex c (pc_ctv_hash_hex p) ''precommitment ctv_hash_hex'',
       validate_canonical_hex c (pc_leaf_script_hex p) ''precommitment ctv_leaf_script_hex'',
       rbind (canonical_p2mr_program_hex c (pc_program_hex p) ''precommitment p2mr_program_hex'') (\<lambda>program.
         reject_if (pc_program_hex p \<noteq> program) ''precommitment p2mr_program_hex must be lowercase canonical hex''),
       validate_canonical_hex c (pc_control_block_hex p) ''precommitment p2mr_control_block_hex'',
       validate_canonical_sha256_hex c (pc_reward_sha256_hex p) ''precommitment reward_manifest_sha256_hex'',
       validate_canonical_sha256_hex c (pc_policy_sha256_hex p) ''precommitment payout_policy_manifest_sha256_hex'',
       validate_chunk_identity (pc_chunk_index p) (pc_chunk_count p),
       rbind (expected_fanout_sequence (pc_chunk_index p)) (\<lambda>sequence.
         reject_if (pc_sequence p \<noteq> sequence) ''fanout sequence must equal the chunk index''),
       reject_if (pc_lock_time p \<noteq> ucast (pc_block_height p))
         ''fanout lock_time must equal block height for unique CTV context'',
       reject_if (pc_outputs p = []) ''fanout precommitment has no outputs'']) (\<lambda>_.
    rbind (precommitment_rows c {} 0 0 0 (pc_outputs p)) (\<lambda>(amounts, fees).
    rbind (checks
      [reject_if (amounts \<noteq> pc_output_sum p) ''fanout output sum mismatch'',
       reject_if (fees \<noteq> pc_fee_sats p) ''fanout fee sum mismatch'']) (\<lambda>_.
    rbind (ok_or (checked_add amounts fees) (invalid_ctv_manifest ''fanout funded value overflowed'')) (\<lambda>funded.
    checks
      [reject_if (funded \<noteq> pc_covenant_value p) ''fanout payouts plus fee do not equal covenant output value'',
       check_anchor (pc_fee_sats p) (pc_anchor_vout p) (length (pc_outputs p))]))))"

text \<open>\<open>format!("{:08}")\<close>.\<close>

definition dec_padded :: "nat \<Rightarrow> nat \<Rightarrow> string" where
  "dec_padded width n = replicate (width - length (dec_digits n)) (CHR ''0'') @ dec_digits n"

definition prepare_ctv_fanout_precommitment ::
  "crypto \<Rightarrow> ctv_json \<Rightarrow> ctv_precommitment_input \<Rightarrow> prism_error + prepared_ctv_fanout" where
  "prepare_ctv_fanout_precommitment c js inp =
    rbind (checks
      [reject_if (0xffffffff < ki_block_height inp) ''block height must fit fanout lock_time'',
       reject_if (ki_settlement_mode inp = DirectCoinbase)
         ''direct_coinbase mode cannot include a CTV fanout precommitment'',
       validate_chunk_identity (ki_chunk_index inp) (ki_chunk_count inp),
       validate_sha256_hex c (ki_reward_sha256_hex inp) ''reward_manifest_sha256_hex'',
       validate_sha256_hex c (ki_policy_sha256_hex inp) ''payout_policy_manifest_sha256_hex'']) (\<lambda>_.
    rbind (canonical_fanout_outputs c (ki_payouts inp)) (\<lambda>outputs.
    rbind (output_amount_sum outputs) (\<lambda>output_sum.
    rbind (output_fee_sum outputs) (\<lambda>fee_sats.
    rbind (ok_or (checked_add output_sum fee_sats)
      (invalid_ctv_manifest ''fanout covenant value overflowed'')) (\<lambda>covenant_value.
    rbind (expected_fanout_sequence (ki_chunk_index inp)) (\<lambda>sequence.
    rbind (unsigned_fanout_tx_hex c (concat (replicate 32 ''00'')) 0 outputs (fanout_has_cpfp_anchor fee_sats)
      (ucast (ki_block_height inp)) sequence) (\<lambda>template_hex.
    rbind (default_ctv_hash_hex c template_hex (unat QBIT_CTV_INPUT_INDEX)) (\<lambda>ctv_hash_hex.
    rbind (ctv_leaf_script_hex c ctv_hash_hex) (\<lambda>leaf_script_hex.
    rbind (p2mr_program_for_ctv_leaf_hex c leaf_script_hex) (\<lambda>program_hex.
    rbind (decode_program_hex c program_hex ''p2mr_program_hex'') (\<lambda>program.
    rbind (anchor_vout_for_fee (length outputs) fee_sats) (\<lambda>anchor_vout.
    let precommitment = \<lparr>pc_schema = CTV_FANOUT_PRECOMMITMENT_SCHEMA,
      pc_block_height = ki_block_height inp, pc_chunk_index = ki_chunk_index inp,
      pc_chunk_count = ki_chunk_count inp, pc_coinbase_value = ki_coinbase_value inp,
      pc_settlement_mode = ki_settlement_mode inp, pc_covenant_value = covenant_value,
      pc_covenant_script_hex = hex_encode c (p2mr_script_pubkey program), pc_template_hex = template_hex,
      pc_input_index = QBIT_CTV_INPUT_INDEX, pc_sequence = sequence,
      pc_lock_time = ucast (ki_block_height inp), pc_output_sum = output_sum, pc_fee_sats = fee_sats,
      pc_anchor_vout = anchor_vout, pc_ctv_hash_hex = ctv_hash_hex, pc_leaf_script_hex = leaf_script_hex,
      pc_program_hex = program_hex, pc_control_block_hex = hex_encode c [QBIT_P2MR_CONTROL_BLOCK],
      pc_reward_sha256_hex = to_ascii_lowercase (ki_reward_sha256_hex inp),
      pc_policy_sha256_hex = to_ascii_lowercase (ki_policy_sha256_hex inp), pc_outputs = outputs\<rparr> in
    rbind (verify_precommitment c precommitment) (\<lambda>_.
    rbind (canonical_precommitment_bytes js precommitment) (\<lambda>canonical.
    rbind (commitment_witness_leaf_hex c (sha256_hex c canonical)) (\<lambda>leaf.
    Inr \<lparr>pf_precommitment = precommitment, pf_precommitment_sha256_hex = sha256_hex c canonical,
      pf_witness_leaf_hex = leaf,
      pf_covenant_recipient_id = ''ctv-fanout-'' @ dec_word (ki_chunk_index inp),
      pf_covenant_order_key = ''ctv-fanout-'' @ dec_padded 8 (unat (ki_chunk_index inp)),
      pf_covenant_program_hex = program_hex, pf_covenant_value = covenant_value\<rparr>)))))))))))))))"

lemmas precommitment_evals [evals] = payout_key_def output_key_def payout_order_def canonical_payout_def
  fanout_output_def canonical_fanout_outputs_def output_amount_sum_def output_fee_sum_def
  precommitment_row_def check_anchor_def verify_precommitment_def dec_padded_def
  prepare_ctv_fanout_precommitment_def

section \<open>Manifests\<close>

text \<open>\<open>outputs.get(vout as usize)\<close>.\<close>

definition parent_output :: "parsed_transaction \<Rightarrow> u32 \<Rightarrow> prism_error + parsed_tx_out" where
  "parent_output parent vout =
    (if unat vout < length (tx_outputs parent) then Inr (tx_outputs parent ! unat vout)
     else Inl (invalid_ctv_manifest ''parent coinbase vout is out of range''))"

text \<open>
  One fanout output against its payout.  The sums come first, as in the source, so their
  overflow is reported before a mismatch.
\<close>

definition fanout_row :: "crypto \<Rightarrow> nat \<Rightarrow> parsed_tx_out \<Rightarrow> ctv_output \<Rightarrow> prism_error + unit" where
  "fanout_row c index out payout =
    rbind (checks
      [reject_if (co_vout payout \<noteq> word_of_nat index) (''fanout output '' @ dec_digits index @ '' vout mismatch''),
       reject_if (to_amount_sats out \<noteq> co_amount_sats payout)
         (''fanout output '' @ dec_digits index @ '' amount mismatch'')]) (\<lambda>_.
    rbind (decode_program_hex c (co_program payout) ''payout p2mr_program_hex'') (\<lambda>expected_program.
    checks
      [reject_if (to_script_pubkey out \<noteq> p2mr_script_pubkey expected_program)
         (''fanout output '' @ dec_digits index @ '' scriptPubKey mismatch''),
       reject_if (hex_encode c (p2mr_script_pubkey expected_program) \<noteq> co_script_hex payout)
         (''fanout output '' @ dec_digits index @ '' manifest scriptPubKey mismatch'')]))"

fun fanout_rows ::
  "crypto \<Rightarrow> nat \<Rightarrow> u64 \<Rightarrow> u64 \<Rightarrow> (parsed_tx_out \<times> ctv_output) list \<Rightarrow> prism_error + u64 \<times> u64"
where
  "fanout_rows c index amounts fees [] = Inr (amounts, fees)"
| "fanout_rows c index amounts fees ((out, payout) # rows) =
    rbind (ok_or (checked_add amounts (to_amount_sats out))
      (invalid_ctv_manifest ''fanout output sum overflowed'')) (\<lambda>amounts.
    rbind (ok_or (checked_add fees (co_fee_sats payout))
      (invalid_ctv_manifest ''fanout fee sum overflowed'')) (\<lambda>fees.
    rbind (fanout_row c index out payout) (\<lambda>_.
    fanout_rows c (Suc index) amounts fees rows)))"

text \<open>The fields of a manifest, before its transactions are parsed.\<close>

definition manifest_fields_ok :: "crypto \<Rightarrow> ctv_json \<Rightarrow> ctv_manifest \<Rightarrow> prism_error + unit" where
  "manifest_fields_ok c js m =
    (let p = cm_precommitment m in
    rbind (checks
      [reject_if (cm_schema m \<noteq> CTV_FANOUT_MANIFEST_SCHEMA) ''unexpected fanout manifest schema'',
       verify_precommitment c p,
       validate_canonical_sha256_hex c (cm_precommitment_sha256_hex m) ''manifest precommitment_sha256_hex'',
       validate_canonical_sha256_hex c (cm_witness_leaf_hex m) ''manifest commitment_witness_leaf_hex'',
       validate_canonical_sha256_hex c (cm_parent_txid m) ''manifest parent_coinbase_txid'',
       validate_canonical_hex c (cm_parent_hex m) ''manifest parent_coinbase_tx_hex'',
       validate_canonical_hex c (cm_covenant_script_hex m) ''manifest covenant_script_pubkey_hex'',
       validate_canonical_hex c (cm_fanout_hex m) ''manifest fanout_tx_hex'',
       validate_canonical_sha256_hex c (cm_fanout_txid m) ''manifest fanout_txid'',
       reject_if (pc_settlement_mode p = DirectCoinbase)
         ''direct_coinbase mode cannot include a CTV fanout manifest'',
       validate_chunk_identity (pc_chunk_index p) (pc_chunk_count p)]) (\<lambda>_.
    rbind (canonical_precommitment_bytes js p) (\<lambda>canonical.
    rbind (reject_if (cm_precommitment_sha256_hex m \<noteq> sha256_hex c canonical)
      ''fanout precommitment hash mismatch'') (\<lambda>_.
    rbind (commitment_witness_leaf_hex c (cm_precommitment_sha256_hex m)) (\<lambda>leaf.
    checks
      [reject_if (cm_witness_leaf_hex m \<noteq> leaf) ''fanout commitment witness leaf mismatch'',
       reject_if (pc_input_index p \<noteq> QBIT_CTV_INPUT_INDEX) ''only fanout input index 0 is supported'',
       reject_if (0xffffffff < pc_block_height p) ''block height must fit fanout lock_time'',
       validate_sha256_hex c (pc_reward_sha256_hex p) ''reward_manifest_sha256_hex'',
       validate_sha256_hex c (pc_policy_sha256_hex p) ''payout_policy_manifest_sha256_hex'',
       reject_if (pc_control_block_hex p \<noteq> hex_encode c [QBIT_P2MR_CONTROL_BLOCK]) ''P2MR control block mismatch''])))))"

text \<open>The covenant output of the parent coinbase.\<close>

definition manifest_parent_ok :: "crypto \<Rightarrow> ctv_manifest \<Rightarrow> prism_error + unit" where
  "manifest_parent_ok c m =
    rbind (parse_transaction_hex c (cm_parent_hex m) ''manifest parent_coinbase_tx_hex'') (\<lambda>parent.
    rbind (checks
      [ensure_coinbase_shape c parent,
       reject_if (txid_hex c parent \<noteq> cm_parent_txid m) ''parent coinbase txid mismatch'']) (\<lambda>_.
    rbind (parent_output parent (cm_parent_vout m)) (\<lambda>covenant.
    checks
      [reject_if (to_amount_sats covenant \<noteq> cm_covenant_value m) ''covenant output value mismatch'',
       reject_if (to_amount_sats covenant \<noteq> pc_covenant_value (cm_precommitment m))
         ''parent covenant value does not match precommitment'',
       reject_if (hex_encode c (to_script_pubkey covenant) \<noteq> cm_covenant_script_hex m)
         ''covenant scriptPubKey mismatch'',
       reject_if (cm_covenant_script_hex m \<noteq> pc_covenant_script_hex (cm_precommitment m))
         ''parent covenant scriptPubKey does not match precommitment''])))"

text \<open>The only input of the fanout, against the manifest.\<close>

definition fanout_input_ok :: "crypto \<Rightarrow> ctv_manifest \<Rightarrow> parsed_transaction \<Rightarrow> prism_error + unit" where
  "fanout_input_ok c m fanout =
    (let p = cm_precommitment m; i = hd (tx_inputs fanout) in checks
      [reject_if (txid_hex c fanout \<noteq> cm_fanout_txid m) ''fanout txid mismatch'',
       reject_if (length (tx_inputs fanout) \<noteq> 1) ''CTV fanout transaction must spend exactly one input'',
       reject_if (ti_script_sig i \<noteq> []) ''fanout input scriptSig must be empty'',
       reject_if (ti_prev_txid_hex i \<noteq> cm_parent_txid m) ''fanout prevout txid mismatch'',
       reject_if (ti_prev_vout i \<noteq> cm_parent_vout m) ''fanout prevout vout mismatch'',
       reject_if (ti_sequence i \<noteq> pc_sequence p) ''fanout sequence mismatch'',
       rbind (expected_fanout_sequence (pc_chunk_index p)) (\<lambda>sequence.
         reject_if (ti_sequence i \<noteq> sequence) ''fanout sequence must equal the chunk index''),
       reject_if (tx_lock_time fanout \<noteq> pc_lock_time p) ''fanout lock_time mismatch'',
       reject_if (pc_lock_time p \<noteq> ucast (pc_block_height p))
         ''fanout lock_time must equal block height for unique CTV context''])"

text \<open>The template hash, the leaf script and the covenant program it commits to.\<close>

definition covenant_ok ::
  "crypto \<Rightarrow> ctv_manifest \<Rightarrow> parsed_transaction \<Rightarrow> parsed_transaction \<Rightarrow> prism_error + unit" where
  "covenant_ok c m template fanout =
    (let p = cm_precommitment m in
    rbind (default_ctv_hash_for_parsed_tx c template (unat (pc_input_index p))) (\<lambda>template_hash.
    rbind (reject_if (hex_encode c template_hash \<noteq> pc_ctv_hash_hex p) ''precommitment CTV hash mismatch'') (\<lambda>_.
    rbind (default_ctv_hash_for_parsed_tx c fanout (unat (pc_input_index p))) (\<lambda>ctv_hash.
    let leaf_script = ctv_leaf_script ctv_hash; program = p2mr_tapleaf_hash c leaf_script in checks
      [reject_if (ctv_hash \<noteq> template_hash) ''CTV hash mismatch'',
       reject_if (hex_encode c leaf_script \<noteq> pc_leaf_script_hex p) ''CTV leaf script mismatch'',
       reject_if (hex_encode c program \<noteq> pc_program_hex p) ''P2MR program mismatch'',
       reject_if (hex_encode c (p2mr_script_pubkey program) \<noteq> cm_covenant_script_hex m)
         ''covenant scriptPubKey does not match CTV leaf'',
       verify_fanout_witness fanout leaf_script]))))"

text \<open>The outputs of the fanout, its fee anchor and its sums.\<close>

definition fanout_outputs_ok :: "crypto \<Rightarrow> ctv_manifest \<Rightarrow> parsed_transaction \<Rightarrow> prism_error + unit" where
  "fanout_outputs_ok c m fanout =
    (let p = cm_precommitment m; payouts = length (pc_outputs p) in
    rbind (reject_if (length (tx_outputs fanout) \<noteq> (if pc_anchor_vout p = None then payouts else payouts + 1))
      (if pc_anchor_vout p = None then ''built-in-fee fanout must have exactly the payout outputs''
       else ''fanout must have exactly the payouts plus one fee anchor output'')) (\<lambda>_.
    rbind (fanout_rows c 0 0 0 (zip (tx_outputs fanout) (pc_outputs p))) (\<lambda>(amounts, fees).
    rbind (checks
      [reject_if (amounts \<noteq> pc_output_sum p) ''fanout output sum mismatch'',
       reject_if (fees \<noteq> pc_fee_sats p) ''fanout fee sum mismatch'',
       (case pc_anchor_vout p of None \<Rightarrow> Inr ()
        | Some vout \<Rightarrow> ensure_fee_anchor_output c (tx_outputs fanout ! payouts) vout payouts)]) (\<lambda>_.
    rbind (ok_or (checked_add amounts fees) (invalid_ctv_manifest ''fanout funded value overflowed'')) (\<lambda>funded.
    reject_if (funded \<noteq> cm_covenant_value m) ''fanout payouts plus fee do not equal covenant output value'')))))"

definition verify_ctv_fanout_manifest_structure :: "crypto \<Rightarrow> ctv_json \<Rightarrow> ctv_manifest \<Rightarrow> prism_error + unit" where
  "verify_ctv_fanout_manifest_structure c js m =
    rbind (manifest_fields_ok c js m) (\<lambda>_.
    rbind (manifest_parent_ok c m) (\<lambda>_.
    rbind (parse_transaction_hex c (pc_template_hex (cm_precommitment m)) ''manifest fanout_tx_template_hex'')
      (\<lambda>template.
    rbind (validate_fanout_template template) (\<lambda>_.
    rbind (parse_transaction_hex c (cm_fanout_hex m) ''manifest fanout_tx_hex'') (\<lambda>fanout.
    rbind (fanout_input_ok c m fanout) (\<lambda>_.
    rbind (covenant_ok c m template fanout) (\<lambda>_.
    fanout_outputs_ok c m fanout)))))))"

definition build_ctv_fanout_manifest :: "crypto \<Rightarrow> ctv_json \<Rightarrow> ctv_manifest_input \<Rightarrow> prism_error + ctv_manifest" where
  "build_ctv_fanout_manifest c js inp =
    rbind (checks
      [reject_if (0xffffffff < mi_block_height inp) ''block height must fit fanout lock_time'',
       reject_if (mi_settlement_mode inp = DirectCoinbase)
         ''direct_coinbase mode cannot include a CTV fanout manifest'',
       validate_chunk_identity (mi_chunk_index inp) (mi_chunk_count inp),
       validate_sha256_hex c (mi_reward_sha256_hex inp) ''reward_manifest_sha256_hex'',
       validate_sha256_hex c (mi_policy_sha256_hex inp) ''payout_policy_manifest_sha256_hex'']) (\<lambda>_.
    rbind (parse_transaction_hex c (mi_parent_hex inp) ''parent_coinbase_tx_hex'') (\<lambda>parent.
    rbind (ensure_coinbase_shape c parent) (\<lambda>_.
    rbind (parse_transaction_hex c (mi_template_hex inp) ''fanout_tx_template_hex'') (\<lambda>template.
    rbind (parse_transaction_hex c (mi_fanout_hex inp) ''fanout_tx_hex'') (\<lambda>fanout.
    rbind (validate_fanout_template template) (\<lambda>_.
    rbind (parent_output parent (mi_parent_vout inp)) (\<lambda>covenant.
    rbind (default_ctv_hash_for_parsed_tx c template (unat QBIT_CTV_INPUT_INDEX)) (\<lambda>ctv_hash.
    rbind (default_ctv_hash_for_parsed_tx c fanout (unat QBIT_CTV_INPUT_INDEX)) (\<lambda>final_ctv_hash.
    rbind (reject_if (final_ctv_hash \<noteq> ctv_hash) ''fanout transaction does not match committed CTV template'') (\<lambda>_.
    let leaf_script = ctv_leaf_script ctv_hash; program = p2mr_tapleaf_hash c leaf_script;
        covenant_script = p2mr_script_pubkey program in
    rbind (reject_if (tx_inputs fanout = []) ''fanout transaction must have input 0'') (\<lambda>_.
    rbind (expected_fanout_sequence (mi_chunk_index inp)) (\<lambda>sequence.
    rbind (reject_if (ti_sequence (hd (tx_inputs fanout)) \<noteq> sequence)
      ''fanout sequence must equal the chunk index'') (\<lambda>_.
    rbind (canonical_fanout_outputs c (mi_payouts inp)) (\<lambda>outputs.
    rbind (output_amount_sum outputs) (\<lambda>output_sum.
    rbind (output_fee_sum outputs) (\<lambda>fee_sats.
    rbind (anchor_vout_for_fee (length outputs) fee_sats) (\<lambda>anchor_vout.
    rbind (normalize_hex c (mi_template_hex inp)) (\<lambda>template_hex.
    let precommitment = \<lparr>pc_schema = CTV_FANOUT_PRECOMMITMENT_SCHEMA,
      pc_block_height = mi_block_height inp, pc_chunk_index = mi_chunk_index inp,
      pc_chunk_count = mi_chunk_count inp, pc_coinbase_value = mi_coinbase_value inp,
      pc_settlement_mode = mi_settlement_mode inp, pc_covenant_value = to_amount_sats covenant,
      pc_covenant_script_hex = hex_encode c covenant_script, pc_template_hex = template_hex,
      pc_input_index = QBIT_CTV_INPUT_INDEX, pc_sequence = ti_sequence (hd (tx_inputs fanout)),
      pc_lock_time = tx_lock_time fanout, pc_output_sum = output_sum, pc_fee_sats = fee_sats,
      pc_anchor_vout = anchor_vout, pc_ctv_hash_hex = hex_encode c ctv_hash,
      pc_leaf_script_hex = hex_encode c leaf_script,
      pc_program_hex = hex_encode c program, pc_control_block_hex = hex_encode c [QBIT_P2MR_CONTROL_BLOCK],
      pc_reward_sha256_hex = to_ascii_lowercase (mi_reward_sha256_hex inp),
      pc_policy_sha256_hex = to_ascii_lowercase (mi_policy_sha256_hex inp), pc_outputs = outputs\<rparr> in
    rbind (canonical_precommitment_bytes js precommitment) (\<lambda>canonical.
    rbind (commitment_witness_leaf_hex c (sha256_hex c canonical)) (\<lambda>leaf.
    rbind (normalize_hex c (mi_parent_hex inp)) (\<lambda>parent_hex.
    rbind (normalize_hex c (mi_fanout_hex inp)) (\<lambda>fanout_hex.
    let manifest = \<lparr>cm_schema = CTV_FANOUT_MANIFEST_SCHEMA, cm_precommitment = precommitment,
      cm_precommitment_sha256_hex = sha256_hex c canonical, cm_witness_leaf_hex = leaf,
      cm_parent_txid = txid_hex c parent, cm_parent_hex = parent_hex, cm_parent_vout = mi_parent_vout inp,
      cm_covenant_value = to_amount_sats covenant, cm_covenant_script_hex = hex_encode c covenant_script,
      cm_fanout_hex = fanout_hex, cm_fanout_txid = txid_hex c fanout\<rparr> in
    rbind (verify_ctv_fanout_manifest_structure c js manifest) (\<lambda>_.
    Inr manifest)))))))))))))))))))))))"

definition payout_of_output :: "ctv_output \<Rightarrow> ctv_payout" where
  "payout_of_output out = \<lparr>cp_recipient_id = co_recipient_id out, cp_order_key = co_order_key out,
    cp_program = co_program out, cp_gross_sats = co_gross_sats out, cp_fee_sats = co_fee_sats out,
    cp_amount_sats = co_amount_sats out\<rparr>"

definition build_ctv_fanout_manifest_from_precommitment ::
  "crypto \<Rightarrow> ctv_json \<Rightarrow> ctv_precommitment \<Rightarrow> string \<Rightarrow> u32 \<Rightarrow> prism_error + ctv_manifest" where
  "build_ctv_fanout_manifest_from_precommitment c js p parent_hex parent_vout =
    rbind (verify_precommitment c p) (\<lambda>_.
    rbind (parse_transaction_hex c parent_hex ''parent_coinbase_tx_hex'') (\<lambda>parent.
    rbind (ensure_coinbase_shape c parent) (\<lambda>_.
    rbind (decode_field c (pc_leaf_script_hex p) ''ctv_leaf_script_hex'') (\<lambda>leaf_script.
    rbind (witnessed_fanout_tx_hex c (txid_hex c parent) parent_vout (pc_outputs p) (pc_anchor_vout p \<noteq> None)
      (pc_lock_time p) (pc_sequence p) leaf_script) (\<lambda>fanout_hex.
    build_ctv_fanout_manifest c js \<lparr>mi_block_height = pc_block_height p, mi_chunk_index = pc_chunk_index p,
      mi_chunk_count = pc_chunk_count p, mi_coinbase_value = pc_coinbase_value p,
      mi_settlement_mode = pc_settlement_mode p, mi_template_hex = pc_template_hex p,
      mi_parent_hex = parent_hex, mi_parent_vout = parent_vout, mi_fanout_hex = fanout_hex,
      mi_reward_sha256_hex = pc_reward_sha256_hex p, mi_policy_sha256_hex = pc_policy_sha256_hex p,
      mi_payouts = map payout_of_output (pc_outputs p)\<rparr>)))))"

definition verify_ctv_fanout_manifest_commitment_leaf ::
  "crypto \<Rightarrow> ctv_json \<Rightarrow> ctv_manifest \<Rightarrow> string list \<Rightarrow> prism_error + unit" where
  "verify_ctv_fanout_manifest_commitment_leaf c js m leaves =
    rbind (verify_ctv_fanout_manifest_structure c js m) (\<lambda>_.
    reject_if (to_ascii_lowercase (cm_witness_leaf_hex m) \<notin> set (map to_ascii_lowercase leaves))
      ''fanout precommitment witness leaf is missing'')"

section \<open>Manifest sets\<close>

record set_scan =
  ss_vouts :: "u32 set"
  ss_hashes :: "string set"
  ss_txids :: "string set"
  ss_leaves :: "string set"
  ss_output_sum :: u64
  ss_fee_sats :: u64
  ss_covenant_value :: u64

definition empty_scan :: set_scan where
  "empty_scan = \<lparr>ss_vouts = {}, ss_hashes = {}, ss_txids = {}, ss_leaves = {}, ss_output_sum = 0,
    ss_fee_sats = 0, ss_covenant_value = 0\<rparr>"

definition scan_manifest ::
  "crypto \<Rightarrow> ctv_json \<Rightarrow> ctv_manifest_set \<Rightarrow> set_scan \<Rightarrow> nat \<times> ctv_manifest \<Rightarrow> prism_error + set_scan" where
  "scan_manifest c js ms s im = (case im of (expected_index, m) \<Rightarrow>
    let p = cm_precommitment m in
    rbind (checks
      [verify_ctv_fanout_manifest_structure c js m,
       reject_if (pc_chunk_index p \<noteq> word_of_nat expected_index)
         ''fanout manifest set chunks must be contiguous and canonical'',
       reject_if (pc_chunk_count p \<noteq> ms_fanout_count ms) ''fanout chunk count mismatch'',
       reject_if (pc_block_height p \<noteq> ms_block_height ms) ''fanout set block height mismatch'',
       reject_if (pc_coinbase_value p \<noteq> ms_coinbase_value ms) ''fanout set coinbase value mismatch'',
       reject_if (pc_settlement_mode p \<noteq> ms_settlement_mode ms) ''fanout set settlement mode mismatch'',
       reject_if (pc_reward_sha256_hex p \<noteq> ms_reward_sha256_hex ms) ''fanout set reward manifest mismatch'',
       reject_if (pc_policy_sha256_hex p \<noteq> ms_policy_sha256_hex ms) ''fanout set payout policy manifest mismatch'',
       reject_if (cm_parent_txid m \<noteq> ms_parent_txid ms) ''fanout set parent coinbase mismatch'',
       reject_if (cm_parent_vout m \<in> ss_vouts s) ''duplicate fanout parent coinbase vout'',
       reject_if (pc_ctv_hash_hex p \<in> ss_hashes s) ''duplicate fanout CTV hash'',
       reject_if (cm_fanout_txid m \<in> ss_txids s) ''duplicate fanout txid'',
       reject_if (cm_witness_leaf_hex m \<in> ss_leaves s) ''duplicate fanout commitment witness leaf'']) (\<lambda>_.
    rbind (ok_or (checked_add (ss_output_sum s) (pc_output_sum p))
      (invalid_ctv_manifest ''fanout set output sum overflowed'')) (\<lambda>output_sum.
    rbind (ok_or (checked_add (ss_fee_sats s) (pc_fee_sats p))
      (invalid_ctv_manifest ''fanout set fee sum overflowed'')) (\<lambda>fee_sats.
    rbind (ok_or (checked_add (ss_covenant_value s) (cm_covenant_value m))
      (invalid_ctv_manifest ''fanout set covenant value overflowed'')) (\<lambda>covenant_value.
    Inr \<lparr>ss_vouts = insert (cm_parent_vout m) (ss_vouts s), ss_hashes = insert (pc_ctv_hash_hex p) (ss_hashes s),
         ss_txids = insert (cm_fanout_txid m) (ss_txids s), ss_leaves = insert (cm_witness_leaf_hex m) (ss_leaves s),
         ss_output_sum = output_sum, ss_fee_sats = fee_sats, ss_covenant_value = covenant_value\<rparr>)))))"

definition verify_ctv_fanout_manifest_set :: "crypto \<Rightarrow> ctv_json \<Rightarrow> ctv_manifest_set \<Rightarrow> prism_error + unit" where
  "verify_ctv_fanout_manifest_set c js ms =
    rbind (checks
      [reject_if (ms_schema ms \<noteq> CTV_FANOUT_MANIFEST_SET_SCHEMA) ''unexpected fanout manifest set schema'',
       reject_if (ms_manifests ms = []) ''fanout manifest set is empty'',
       reject_if (unat (ms_fanout_count ms) \<noteq> length (ms_manifests ms)) ''fanout manifest set count mismatch'',
       reject_if (ms_settlement_mode ms = DirectCoinbase)
         ''direct_coinbase mode cannot include a CTV fanout manifest set'',
       validate_canonical_sha256_hex c (ms_reward_sha256_hex ms) ''fanout set reward_manifest_sha256_hex'',
       validate_canonical_sha256_hex c (ms_policy_sha256_hex ms) ''fanout set payout_policy_manifest_sha256_hex'',
       validate_canonical_sha256_hex c (ms_parent_txid ms) ''fanout set parent_coinbase_txid'']) (\<lambda>_.
    rbind (try_fold (scan_manifest c js ms) empty_scan (enumerate 0 (ms_manifests ms))) (\<lambda>s.
    rbind (checks
      [reject_if (ss_output_sum s \<noteq> ms_output_sum ms) ''fanout set output sum mismatch'',
       reject_if (ss_fee_sats s \<noteq> ms_fee_sats ms) ''fanout set fee sum mismatch'',
       reject_if (ss_covenant_value s \<noteq> ms_covenant_value ms) ''fanout set covenant value mismatch'']) (\<lambda>_.
    rbind (ok_or (checked_add (ss_output_sum s) (ss_fee_sats s))
      (invalid_ctv_manifest ''fanout set funded value overflowed'')) (\<lambda>funded.
    reject_if (funded \<noteq> ss_covenant_value s) ''fanout set payouts plus fee do not equal covenant value''))))"

definition build_ctv_fanout_manifest_set ::
  "crypto \<Rightarrow> ctv_json \<Rightarrow> ctv_manifest list \<Rightarrow> prism_error + ctv_manifest_set" where
  "build_ctv_fanout_manifest_set c js manifests =
    (if manifests = [] then Inl (invalid_ctv_manifest ''fanout manifest set is empty'')
     else
     let sorted_ms = sort_key (\<lambda>m. pc_chunk_index (cm_precommitment m)) manifests;
         first = cm_precommitment (hd sorted_ms) in
     rbind (checked_sum (invalid_ctv_manifest ''fanout set output sum overflowed'')
       (\<lambda>m. pc_output_sum (cm_precommitment m)) sorted_ms) (\<lambda>output_sum.
     rbind (checked_sum (invalid_ctv_manifest ''fanout set fee sum overflowed'')
       (\<lambda>m. pc_fee_sats (cm_precommitment m)) sorted_ms) (\<lambda>fee_sats.
     rbind (checked_sum (invalid_ctv_manifest ''fanout set covenant value overflowed'')
       cm_covenant_value sorted_ms) (\<lambda>covenant_value.
     rbind (if int (length sorted_ms) < 2 ^ 32 then Inr (word_of_nat (length sorted_ms))
       else Inl (invalid_ctv_manifest ''fanout manifest count exceeds uint32'')) (\<lambda>fanout_count.
     let ms = \<lparr>ms_schema = CTV_FANOUT_MANIFEST_SET_SCHEMA, ms_block_height = pc_block_height first,
       ms_coinbase_value = pc_coinbase_value first, ms_settlement_mode = pc_settlement_mode first,
       ms_reward_sha256_hex = pc_reward_sha256_hex first, ms_policy_sha256_hex = pc_policy_sha256_hex first,
       ms_parent_txid = cm_parent_txid (hd sorted_ms), ms_fanout_count = fanout_count, ms_output_sum = output_sum,
       ms_fee_sats = fee_sats, ms_covenant_value = covenant_value, ms_manifests = sorted_ms\<rparr> in
     rbind (verify_ctv_fanout_manifest_set c js ms) (\<lambda>_. Inr ms))))))"

definition canonical_ctv_fanout_manifest_set_bytes :: "crypto \<Rightarrow> ctv_json \<Rightarrow> ctv_manifest_set \<Rightarrow> prism_error + bytes" where
  "canonical_ctv_fanout_manifest_set_bytes c js ms =
    rbind (verify_ctv_fanout_manifest_set c js ms) (\<lambda>_. map_err Json (cj_manifest_set js ms))"

definition ctv_fanout_manifest_set_sha256_hex :: "crypto \<Rightarrow> ctv_json \<Rightarrow> ctv_manifest_set \<Rightarrow> prism_error + string" where
  "ctv_fanout_manifest_set_sha256_hex c js ms =
    rbind (canonical_ctv_fanout_manifest_set_bytes c js ms) (\<lambda>bytes. Inr (sha256_hex c bytes))"

end
