(* ===== verification/Ctv_Facts.thy ===== *)
theory Ctv_Facts
  imports Ctv_Manifest Transaction_Facts
begin

text \<open>
  What the parts of a CTV fanout compute: the hex fields, the canonical outputs, the fanout
  transaction that parses back to them, and the template hash, which does not depend on the
  outpoint that is spent.
\<close>

section \<open>Hex fields\<close>

lemma decode_field_Inr [result_facts]: "decode_field c v f = Inr b \<longleftrightarrow> hex_decode c v = Inr b"
  by (simp add: decode_field_def)

lemma decode_array_Inr [result_facts]:
  "decode_array c n v f = Inr b \<longleftrightarrow> hex_decode c v = Inr b \<and> length b = n"
  by (auto simp: decode_array_def decode_field_Inr)

lemma decode_hash_Inr: "decode_hash_hex c v f = Inr b \<longleftrightarrow> hex_decode c v = Inr b \<and> length b = 32"
  by (simp add: decode_hash_hex_def decode_array_Inr)

lemma decode_program_Inr: "decode_program_hex c v f = Inr b \<longleftrightarrow> hex_decode c v = Inr b \<and> length b = 32"
  by (simp add: decode_program_hex_def decode_array_Inr P2MR_PROGRAM_LEN_def)

lemma normalize_txid_Inr:
  "normalize_txid_hex c v f = Inr h \<longleftrightarrow> (\<exists>b. hex_decode c v = Inr b \<and> length b = 32 \<and> h = hex_encode c b)"
  by (auto simp: normalize_txid_hex_def decode_array_Inr)

lemma normalize_hex_Inr:
  "normalize_hex c v = Inr h \<longleftrightarrow> (\<exists>b. hex_decode c v = Inr b \<and> h = hex_encode c b)"
  by (auto simp: normalize_hex_def)

lemma validate_sha256_Inr:
  "validate_sha256_hex c v f = Inr u \<longleftrightarrow> (\<exists>b. hex_decode c v = Inr b \<and> length b = 32)"
  by (simp add: validate_sha256_hex_def decode_hash_Inr)

lemma validate_canonical_hex_Inr:
  "validate_canonical_hex c v f = Inr u \<longleftrightarrow> (\<exists>b. hex_decode c v = Inr b \<and> v = hex_encode c b)"
  by (auto simp: validate_canonical_hex_def decode_field_Inr)

lemma validate_canonical_sha256_Inr:
  "validate_canonical_sha256_hex c v f = Inr u \<longleftrightarrow>
    (\<exists>b. hex_decode c v = Inr b \<and> length b = 32 \<and> v = hex_encode c b)"
  by (auto simp: validate_canonical_sha256_hex_def decode_hash_Inr)

lemma canonical_program_Inr:
  "canonical_p2mr_program_hex c v f = Inr h \<longleftrightarrow>
    (\<exists>b. hex_decode c v = Inr b \<and> length b = 32 \<and> h = hex_encode c b)"
  by (auto simp: canonical_p2mr_program_hex_def decode_program_Inr)

lemmas hex_Inr = decode_field_Inr decode_array_Inr decode_hash_Inr decode_program_Inr normalize_txid_Inr
  normalize_hex_Inr validate_sha256_Inr validate_canonical_hex_Inr validate_canonical_sha256_Inr
  canonical_program_Inr

text \<open>The field name only shows in errors.\<close>

lemma parse_hex_Inr:
  "parse_transaction_hex c h f = Inr tx \<longleftrightarrow> (\<exists>bs. hex_decode c h = Inr bs \<and> parse_transaction c f bs = Inr tx)"
  by (simp add: parse_transaction_hex_def)

lemma parse_any_field:
  assumes "hex_ok c" and "parse_transaction_hex c h f = Inr tx"
  shows "parse_transaction_hex c h g = Inr tx"
proof -
  from assms(2) obtain bs where bs: "hex_decode c h = Inr bs" "parse_transaction c f bs = Inr tx"
    by (auto simp: parse_hex_Inr)
  from parse_transaction_sound[OF assms(1) bs(2)] obtain flag v w ps outs sts l where
    "flag \<noteq> 0" "parts_ok w ps outs sts" "tx = parsed_of c v w ps outs sts l" "bs = tx_bytes flag v w ps outs sts l"
    by blast
  then have "parse_transaction c g bs = Inr tx" using parse_transaction_complete[OF assms(1)] by simp
  with bs(1) show ?thesis by (auto simp: parse_hex_Inr)
qed

lemma parsed_outputs_ok:
  assumes "hex_ok c" and "parse_transaction_hex c h f = Inr tx" and "x \<in> set (tx_outputs tx)"
  shows "to_amount_sats x \<le> QBIT_MAX_MONEY_SATS"
proof -
  from assms(2) obtain bs where "parse_transaction c f bs = Inr tx" by (auto simp: parse_hex_Inr)
  from parse_transaction_sound[OF assms(1) this] obtain flag v w ps outs sts l where
    "parts_ok w ps outs sts" "tx = parsed_of c v w ps outs sts l" by blast
  then show ?thesis using assms(3) by (auto simp: parts_ok_def parsed_of_def tx_out_valid_def money_ok_def)
qed

section \<open>Canonical outputs\<close>

text \<open>What an output of the list says, with the program it pays.\<close>

definition pays_program :: "crypto \<Rightarrow> ctv_output \<Rightarrow> bytes \<Rightarrow> bool" where
  "pays_program c out program \<longleftrightarrow> length program = 32 \<and> hex_decode c (co_program out) = Inr program \<and>
    co_program out = hex_encode c program \<and> co_script_hex out = hex_encode c (p2mr_script_pubkey program)"

definition output_ok :: "crypto \<Rightarrow> ctv_output \<Rightarrow> bool" where
  "output_ok c out \<longleftrightarrow> (\<exists>program. pays_program c out program) \<and> co_amount_sats out \<noteq> 0 \<and>
    uint (co_gross_sats out) = uint (co_amount_sats out) + uint (co_fee_sats out)"

definition program_of :: "crypto \<Rightarrow> ctv_output \<Rightarrow> bytes" where
  "program_of c out = projr (hex_decode c (co_program out))"

lemma program_of_eq: "pays_program c out program \<Longrightarrow> program_of c out = program"
  unfolding pays_program_def program_of_def by (metis sum.sel(2))

lemma fanout_output_Inr:
  assumes "fanout_output c i p = Inr out"
  shows "co_vout out = word_of_nat i" and "payout_key p = output_key out"
    and "payout_order (payout_of_output out) = payout_order p"
    and "fanout_output c i (payout_of_output out) = Inr out"
    and "co_amount_sats out \<noteq> 0" and "uint (co_gross_sats out) = uint (co_amount_sats out) + uint (co_fee_sats out)"
    and "\<exists>program. length program = 32 \<and> hex_decode c (cp_program p) = Inr program \<and>
      co_program out = cp_program p \<and> co_script_hex out = hex_encode c (p2mr_script_pubkey program)"
    and "payout_of_output out = p\<lparr>cp_gross_sats := co_gross_sats out\<rparr>"
proof -
  from assms obtain both program where
    a: "cp_amount_sats p \<noteq> 0" and both: "checked_add (cp_amount_sats p) (cp_fee_sats p) = Some both"
    and gross: "both = (if cp_gross_sats p = 0 then cp_amount_sats p else cp_gross_sats p)"
    and program: "hex_decode c (cp_program p) = Inr program" "length program = 32"
    and out: "out = \<lparr>co_vout = word_of_nat i, co_recipient_id = cp_recipient_id p, co_order_key = cp_order_key p,
          co_program = cp_program p, co_script_hex = hex_encode c (p2mr_script_pubkey program),
          co_gross_sats = both, co_fee_sats = cp_fee_sats p, co_amount_sats = cp_amount_sats p\<rparr>"
    by (auto simp: fanout_output_def Let_def decode_program_Inr)
  have sum: "uint both = uint (cp_amount_sats p) + uint (cp_fee_sats p)" using both by (simp add: checked_add_Some)
  have "uint (cp_amount_sats p) \<noteq> 0" using a by (simp add: unsigned_eq_0_iff)
  then have "0 < uint (cp_amount_sats p)" using uint_nonneg[of "cp_amount_sats p"] by linarith
  then have "0 < uint both" using sum uint_nonneg[of "cp_fee_sats p"] by linarith
  then have nz: "both \<noteq> 0" by auto
  show "co_vout out = word_of_nat i" "payout_key p = output_key out"
    "payout_order (payout_of_output out) = payout_order p" "co_amount_sats out \<noteq> 0"
    "uint (co_gross_sats out) = uint (co_amount_sats out) + uint (co_fee_sats out)"
    "payout_of_output out = p\<lparr>cp_gross_sats := co_gross_sats out\<rparr>"
    using a sum by (simp_all add: out payout_key_def output_key_def payout_order_def payout_of_output_def)
  show "\<exists>program. length program = 32 \<and> hex_decode c (cp_program p) = Inr program \<and>
      co_program out = cp_program p \<and> co_script_hex out = hex_encode c (p2mr_script_pubkey program)"
    using program by (simp add: out)
  show "fanout_output c i (payout_of_output out) = Inr out"
    using a both nz program by (simp add: fanout_output_def out payout_of_output_def Let_def decode_program_Inr)
qed

lemma fanout_outputs_from_Inr:
  "fanout_outputs_from c seen i ps = Inr outs \<longleftrightarrow>
    length outs = length ps \<and> (\<forall>j<length ps. fanout_output c (i + j) (ps ! j) = Inr (outs ! j)) \<and>
    distinct (map payout_key ps) \<and> payout_key ` set ps \<inter> seen = {}"
proof (induction ps arbitrary: seen i outs)
  case (Cons p ps)
  show ?case
  proof (cases outs)
    case Nil
    then show ?thesis by auto
  next
    case (Cons out outs')
    have all: "(\<forall>j<Suc n. P j) \<longleftrightarrow> P 0 \<and> (\<forall>j<n. P (Suc j))" for P :: "nat \<Rightarrow> bool" and n
      by (auto simp: less_Suc_eq_0_disj)
    show ?thesis by (auto simp: Cons Cons.IH all)
  qed
qed auto

text \<open>The canonical outputs of a list of payouts.\<close>

lemma canonical_outputs_Inr:
  assumes "hex_ok c" and "canonical_fanout_outputs c ps = Inr outs"
  shows "outs \<noteq> []" and "length outs = length ps" and "\<forall>out\<in>set outs. output_ok c out"
    and "distinct (map output_key outs)" and "sorted (map (payout_order \<circ> payout_of_output) outs)"
    and "\<forall>i<length outs. co_vout (outs ! i) = word_of_nat i"
    and "canonical_fanout_outputs c (map payout_of_output outs) = Inr outs"
proof -
  from assms(2) obtain canon where ne: "ps \<noteq> []" and canon: "try_map (canonical_payout c) ps = Inr canon"
    and from0: "fanout_outputs_from c {} 0 (sort_key payout_order canon) = Inr outs"
    by (auto simp: canonical_fanout_outputs_def)
  let ?s = "sort_key payout_order canon"
  note F = from0[unfolded fanout_outputs_from_Inr]
  have len: "length outs = length ?s" and row: "\<And>j. j < length outs \<Longrightarrow> fanout_output c j (?s ! j) = Inr (outs ! j)"
    and dist: "distinct (map payout_key ?s)" using F by auto
  show n: "length outs = length ps" using len try_map_length[OF canon] by simp
  then show "outs \<noteq> []" using ne by auto
  have keys: "map payout_key ?s = map output_key outs"
    using len fanout_output_Inr(2)[OF row] by (intro nth_equalityI) simp_all
  then show dist': "distinct (map output_key outs)" using dist by simp
  have orders: "map (payout_order \<circ> payout_of_output) outs = map payout_order ?s"
    using len fanout_output_Inr(3)[OF row] by (intro nth_equalityI) simp_all
  then show srt: "sorted (map (payout_order \<circ> payout_of_output) outs)" by simp
  show vouts: "\<forall>i<length outs. co_vout (outs ! i) = word_of_nat i" using fanout_output_Inr(1)[OF row] by blast
  have program: "cp_program p = hex_encode c b" if p: "p \<in> set canon" and dec: "hex_decode c (cp_program p) = Inr b" for p b
  proof -
    obtain q where "canonical_payout c q = Inr p"
      using canon p by (auto simp: try_map_Inr list_all2_conv_all_nth in_set_conv_nth)
    then obtain b' where "cp_program p = hex_encode c b'" by (auto simp: canonical_payout_def canonical_program_Inr)
    then show ?thesis using dec assms(1) by (simp add: hex_ok_def)
  qed
  show ok: "\<forall>out\<in>set outs. output_ok c out"
  proof
    fix out assume "out \<in> set outs"
    then obtain j where j: "j < length outs" "out = outs ! j" by (auto simp: in_set_conv_nth)
    have mem: "?s ! j \<in> set canon" using j len by (metis nth_mem set_sort)
    note R = fanout_output_Inr[OF row[OF j(1)]]
    from R(7) obtain b where b: "length b = 32" "hex_decode c (cp_program (?s ! j)) = Inr b"
      "co_program (outs ! j) = cp_program (?s ! j)" "co_script_hex (outs ! j) = hex_encode c (p2mr_script_pubkey b)" by blast
    then have "pays_program c out b" using program[OF mem b(2)] by (simp add: pays_program_def j(2))
    then show "output_ok c out" using R(5,6) by (auto simp: output_ok_def j(2))
  qed
  have "try_map (canonical_payout c) (map payout_of_output outs) = Inr (map (\<lambda>x. x) (map payout_of_output outs))"
  proof (rule try_map_total)
    fix p assume "p \<in> set (map payout_of_output outs)"
    then obtain out b where "p = payout_of_output out" "pays_program c out b" using ok by (auto simp: output_ok_def)
    then show "canonical_payout c p = Inr p"
      using assms(1) unfolding hex_ok_def
      by (auto simp: canonical_payout_def canonical_program_Inr pays_program_def payout_of_output_def)
  qed
  moreover have "sort_key payout_order (map payout_of_output outs) = map payout_of_output outs"
    using srt by (intro sort_key_id_if_sorted) simp
  moreover have "fanout_outputs_from c {} 0 (map payout_of_output outs) = Inr outs"
  proof -
    have key: "payout_key \<circ> payout_of_output = output_key"
      by (simp add: fun_eq_iff payout_key_def output_key_def payout_of_output_def)
    show ?thesis unfolding fanout_outputs_from_Inr
      using fanout_output_Inr(4)[OF row] dist' by (simp add: key)
  qed
  ultimately show "canonical_fanout_outputs c (map payout_of_output outs) = Inr outs"
    using ne n by (auto simp: canonical_fanout_outputs_def)
qed

section \<open>The fanout transaction\<close>

text \<open>\<open>hex::decode("51024e73")\<close>: push the two anchor bytes after \<open>OP_1\<close>.\<close>

definition p2a_ok :: "crypto \<Rightarrow> bool" where
  "p2a_ok c \<longleftrightarrow> hex_decode c P2A_ANCHOR_SCRIPT_PUBKEY_HEX = Inr [0x51, 0x02, 0x4e, 0x73]"

definition fanout_tx_outs :: "crypto \<Rightarrow> ctv_output list \<Rightarrow> bool \<Rightarrow> parsed_tx_out list" where
  "fanout_tx_outs c outs anchor =
    map (\<lambda>out. \<lparr>to_amount_sats = co_amount_sats out, to_script_pubkey = p2mr_script_pubkey (program_of c out)\<rparr>) outs @
    (if anchor then [\<lparr>to_amount_sats = 0, to_script_pubkey = [0x51, 0x02, 0x4e, 0x73]\<rparr>] else [])"

definition fanout_parsed ::
  "crypto \<Rightarrow> bytes \<Rightarrow> u32 \<Rightarrow> ctv_output list \<Rightarrow> bool \<Rightarrow> u32 \<Rightarrow> u32 \<Rightarrow> bytes list option \<Rightarrow> parsed_transaction" where
  "fanout_parsed c txid vout outs anchor lock sequence witness =
    parsed_of c CTV_FANOUT_TX_VERSION (witness \<noteq> None) [(rev txid, vout, [], sequence)]
      (fanout_tx_outs c outs anchor) (case witness of None \<Rightarrow> [] | Some w \<Rightarrow> [w]) lock"

definition fanout_bytes ::
  "crypto \<Rightarrow> bytes \<Rightarrow> u32 \<Rightarrow> ctv_output list \<Rightarrow> bool \<Rightarrow> u32 \<Rightarrow> u32 \<Rightarrow> bytes list option \<Rightarrow> bytes" where
  "fanout_bytes c txid vout outs anchor lock sequence witness =
    tx_bytes 1 CTV_FANOUT_TX_VERSION (witness \<noteq> None) [(rev txid, vout, [], sequence)]
      (fanout_tx_outs c outs anchor) (case witness of None \<Rightarrow> [] | Some w \<Rightarrow> [w]) lock"

lemma fanout_tx_hex_eq:
  assumes "hex_ok c" and "p2a_ok c" and "\<forall>out\<in>set outs. output_ok c out"
    and "hex_decode c txid = Inr raw" and "length raw = 32"
  shows "fanout_tx_hex c txid vout outs anchor lock sequence witness =
    Inr (hex_encode c (fanout_bytes c raw vout outs anchor lock sequence witness))"
proof -
  have spec: "output_spec_from_fanout_output c out =
      Inr \<lparr>os_amount_sats = co_amount_sats out, os_script_pubkey = p2mr_script_pubkey (program_of c out)\<rparr>"
    if mem: "out \<in> set outs" for out
  proof -
    obtain b where b: "pays_program c out b" using mem assms(3) by (auto simp: output_ok_def)
    then have "hex_decode c (co_script_hex out) = Inr (p2mr_script_pubkey b)"
      using assms(1) by (simp add: pays_program_def hex_ok_def)
    then show ?thesis using program_of_eq[OF b] by (simp add: output_spec_from_fanout_output_def)
  qed
  have specs: "fanout_output_specs c outs anchor = Inr (map (\<lambda>x. \<lparr>os_amount_sats = to_amount_sats x,
      os_script_pubkey = to_script_pubkey x\<rparr>) (fanout_tx_outs c outs anchor))"
    using try_map_total[of outs "output_spec_from_fanout_output c", OF spec] assms(2)
    by (simp add: fanout_output_specs_def fanout_tx_outs_def comp_def p2a_anchor_script_pubkey_def p2a_ok_def
        CTV_FANOUT_ANCHOR_VALUE_SATS_def)
  have outs: "concat (map output_spec_bytes (map (\<lambda>x. \<lparr>os_amount_sats = to_amount_sats x,
      os_script_pubkey = to_script_pubkey x\<rparr>) xs)) = concat (map tx_out_bytes xs)" for xs
    by (induction xs) (simp_all add: output_spec_bytes_def tx_out_bytes_def)
  have txid: "normalize_txid_hex c txid f = Inr (hex_encode c raw)" for f
    using assms(4,5) by (simp add: normalize_txid_hex_def decode_array_def decode_field_def)
  have inp: "input_spec_bytes c \<lparr>is_prev_txid_hex = hex_encode c raw, is_prev_vout = vout, is_script_sig = [],
      is_sequence = sequence, is_witness_stack = w\<rparr> = Inr (raw_in_bytes (rev raw, vout, [], sequence))" for w
    using assms(1,5) by (simp add: input_spec_bytes_def hex_ok_def raw_in_bytes_def)
  show ?thesis
    unfolding fanout_tx_hex_def txid specs rbind.simps serialize_tx_hex_def serialize_tx_def try_map.simps inp outs
    by (cases witness) (simp_all add: fanout_bytes_def tx_bytes_def body_bytes_def)
qed

lemma length_p2mr_script: "length (p2mr_script_pubkey program) = length program + 2"
  by (simp add: p2mr_script_pubkey_def)

lemma fanout_tx_outs_valid:
  assumes "\<forall>out\<in>set outs. output_ok c out" and "\<forall>out\<in>set outs. co_amount_sats out \<le> QBIT_MAX_MONEY_SATS"
  shows "\<forall>x\<in>set (fanout_tx_outs c outs anchor). tx_out_valid x"
proof -
  have "length (program_of c out) = 32" if "out \<in> set outs" for out
    using assms(1) program_of_eq that by (fastforce simp: output_ok_def pays_program_def)
  then show ?thesis
    using assms(2) by (auto simp: fanout_tx_outs_def tx_out_valid_def money_ok_def length_p2mr_script QBIT_MAX_MONEY_SATS_def)
qed

lemma fanout_parses:
  assumes "hex_ok c" and "\<forall>out\<in>set outs. output_ok c out"
    and "\<forall>out\<in>set outs. co_amount_sats out \<le> QBIT_MAX_MONEY_SATS" and "length outs < 2 ^ 62"
    and "length raw = 32" and "\<forall>w. witness = Some w \<longrightarrow> stack_valid w"
  shows "parse_transaction_hex c (hex_encode c (fanout_bytes c raw vout outs anchor lock sequence witness)) f =
    Inr (fanout_parsed c raw vout outs anchor lock sequence witness)"
proof -
  have "length (fanout_tx_outs c outs anchor) < 2 ^ 64" using assms(4) by (simp add: fanout_tx_outs_def)
  then have "parts_ok (witness \<noteq> None) [(rev raw, vout, [], sequence)] (fanout_tx_outs c outs anchor)
      (case witness of None \<Rightarrow> [] | Some w \<Rightarrow> [w])"
    using fanout_tx_outs_valid[OF assms(2,3)] assms(5,6)
    by (cases witness) (simp_all add: parts_ok_def raw_in_valid_def stacks_ok_def)
  from parse_transaction_complete[OF assms(1) this, of 1 f CTV_FANOUT_TX_VERSION lock] show ?thesis
    using assms(1) by (simp add: parse_transaction_hex_def hex_ok_def fanout_bytes_def fanout_parsed_def)
qed

text \<open>The template hash does not see the outpoint or the witness.\<close>

lemma fanout_hash_outpoint:
  "default_ctv_hash_for_parsed_tx c (fanout_parsed c raw vout outs anchor lock sequence witness) i =
    default_ctv_hash_for_parsed_tx c (fanout_parsed c raw' vout' outs anchor lock sequence witness') i"
  by (simp add: default_ctv_hash_for_parsed_tx_def ctv_preimage_def fanout_parsed_def parsed_of_def display_in_def)

lemma fanout_parsed_fields [simp]:
  "tx_version (fanout_parsed c raw vout outs anchor lock sequence witness) = CTV_FANOUT_TX_VERSION"
  "tx_inputs (fanout_parsed c raw vout outs anchor lock sequence witness) =
    [\<lparr>ti_prev_txid_hex = hex_encode c raw, ti_prev_vout = vout, ti_script_sig = [], ti_sequence = sequence\<rparr>]"
  "tx_outputs (fanout_parsed c raw vout outs anchor lock sequence witness) = fanout_tx_outs c outs anchor"
  "tx_lock_time (fanout_parsed c raw vout outs anchor lock sequence witness) = lock"
  "tx_witness_stacks (fanout_parsed c raw vout outs anchor lock sequence witness) = map_option (\<lambda>w. [w]) witness"
  by (cases witness; simp add: fanout_parsed_def parsed_of_def display_in_def)+

lemma ctv_hash_Inr:
  "default_ctv_hash_for_parsed_tx c tx i = Inr h \<Longrightarrow> hash_ok c \<Longrightarrow> length h = 32"
  by (auto simp: default_ctv_hash_for_parsed_tx_def hash_ok_def)

end
