(* ===== verification/Ctv_Final.thy ===== *)
theory Ctv_Final
  imports Ctv_Facts
begin

text \<open>
  A prepared fanout can be finalized: whatever coinbase is mined, as long as one of its
  outputs is the covenant of the precommitment with its value, the manifest is built and
  passes its own verification.
\<close>

section \<open>The outputs of a fanout\<close>

lemma checked_add_ex:
  fixes a b :: u64
  assumes "uint a + uint b < 2 ^ 64"
  obtains s where "checked_add a b = Some s" "uint s = uint a + uint b"
proof -
  have "checked_add a b = Some (a + b)" using assms by (simp add: checked_add_def)
  then show thesis using that by (simp add: checked_add_Some)
qed

lemma fanout_rows_Inr:
  "fanout_rows c i a f rows = Inr (A, F) \<longleftrightarrow>
    uint A = uint a + (\<Sum>r\<leftarrow>rows. uint (to_amount_sats (fst r))) \<and>
    uint F = uint f + (\<Sum>r\<leftarrow>rows. uint (co_fee_sats (snd r))) \<and>
    (\<forall>j<length rows. fanout_row c (i + j) (fst (rows ! j)) (snd (rows ! j)) = Inr ())"
proof (induction rows arbitrary: i a f)
  case Nil
  then show ?case by (auto simp: word_uint_eq_iff)
next
  case (Cons r rows)
  obtain out payout where r: "r = (out, payout)" by fastforce
  have all: "(\<forall>j<Suc n. P j) \<longleftrightarrow> P 0 \<and> (\<forall>j<n. P (Suc j))" for P :: "nat \<Rightarrow> bool" and n
    by (auto simp: less_Suc_eq_0_disj)
  let ?sa = "\<Sum>r\<leftarrow>rows. uint (to_amount_sats (fst r))" and ?sf = "\<Sum>r\<leftarrow>rows. uint (co_fee_sats (snd r))"
  show ?case
  proof
    assume "fanout_rows c i a f (r # rows) = Inr (A, F)"
    then show "uint A = uint a + (\<Sum>r\<leftarrow>r # rows. uint (to_amount_sats (fst r))) \<and>
      uint F = uint f + (\<Sum>r\<leftarrow>r # rows. uint (co_fee_sats (snd r))) \<and>
      (\<forall>j<length (r # rows). fanout_row c (i + j) (fst ((r # rows) ! j)) (snd ((r # rows) ! j)) = Inr ())"
      by (auto simp: r Cons.IH checked_add_Some all)
  next
    assume S: "uint A = uint a + (\<Sum>r\<leftarrow>r # rows. uint (to_amount_sats (fst r))) \<and>
      uint F = uint f + (\<Sum>r\<leftarrow>r # rows. uint (co_fee_sats (snd r))) \<and>
      (\<forall>j<length (r # rows). fanout_row c (i + j) (fst ((r # rows) ! j)) (snd ((r # rows) ! j)) = Inr ())"
    have "0 \<le> ?sa" "0 \<le> ?sf" by (rule sum_list_uint_nonneg)+
    moreover have "uint A < 2 ^ 64" "uint F < 2 ^ 64" by (rule u64_bound)+
    moreover have "uint A = uint a + uint (to_amount_sats out) + ?sa" "uint F = uint f + uint (co_fee_sats payout) + ?sf"
      using S r by simp_all
    ultimately have lt: "uint a + uint (to_amount_sats out) < 2 ^ 64" "uint f + uint (co_fee_sats payout) < 2 ^ 64"
      by linarith+
    from lt(1) obtain a' where a': "checked_add a (to_amount_sats out) = Some a'"
      "uint a' = uint a + uint (to_amount_sats out)" by (rule checked_add_ex)
    from lt(2) obtain f' where f': "checked_add f (co_fee_sats payout) = Some f'"
      "uint f' = uint f + uint (co_fee_sats payout)" by (rule checked_add_ex)
    have "fanout_rows c (Suc i) a' f' rows = Inr (A, F)" unfolding Cons.IH using S a'(2) f'(2) by (auto simp: r all)
    moreover have "fanout_row c i out payout = Inr ()" using S by (auto simp: r all)
    ultimately show "fanout_rows c i a f (r # rows) = Inr (A, F)" using a' f' by (simp add: r)
  qed
qed

lemma fanout_row_Inr:
  "fanout_row c i out payout = Inr u \<longleftrightarrow> co_vout payout = word_of_nat i \<and> to_amount_sats out = co_amount_sats payout \<and>
    (\<exists>program. hex_decode c (co_program payout) = Inr program \<and> length program = 32 \<and>
      to_script_pubkey out = p2mr_script_pubkey program \<and> co_script_hex payout = hex_encode c (p2mr_script_pubkey program))"
  by (cases u) (auto simp: fanout_row_def checks_Inr hex_Inr)

section \<open>What is prepared\<close>

text \<open>The precommitment of canonical outputs, from its parts.\<close>

definition precommitment_of ::
  "crypto \<Rightarrow> ctv_precommitment_input \<Rightarrow> ctv_output list \<Rightarrow> u64 \<Rightarrow> u64 \<Rightarrow> u64 \<Rightarrow> u32 \<Rightarrow> u32 option \<Rightarrow> bytes \<Rightarrow> bytes
    \<Rightarrow> ctv_precommitment"
where
  "precommitment_of c inp outs output_sum fee covenant sequence anchor raw h = (let lock = ucast (ki_block_height inp);
      program = p2mr_tapleaf_hash c (ctv_leaf_script h) in
    \<lparr>pc_schema = CTV_FANOUT_PRECOMMITMENT_SCHEMA, pc_block_height = ki_block_height inp,
     pc_chunk_index = ki_chunk_index inp, pc_chunk_count = ki_chunk_count inp,
     pc_coinbase_value = ki_coinbase_value inp, pc_settlement_mode = ki_settlement_mode inp,
     pc_covenant_value = covenant, pc_covenant_script_hex = hex_encode c (p2mr_script_pubkey program),
     pc_template_hex = hex_encode c (fanout_bytes c raw 0 outs (fee = 0) lock sequence None),
     pc_input_index = QBIT_CTV_INPUT_INDEX, pc_sequence = sequence, pc_lock_time = lock,
     pc_output_sum = output_sum, pc_fee_sats = fee, pc_anchor_vout = anchor, pc_ctv_hash_hex = hex_encode c h,
     pc_leaf_script_hex = hex_encode c (ctv_leaf_script h), pc_program_hex = hex_encode c program,
     pc_control_block_hex = hex_encode c [QBIT_P2MR_CONTROL_BLOCK],
     pc_reward_sha256_hex = to_ascii_lowercase (ki_reward_sha256_hex inp),
     pc_policy_sha256_hex = to_ascii_lowercase (ki_policy_sha256_hex inp), pc_outputs = outs\<rparr>)"

definition prepared_from ::
  "crypto \<Rightarrow> ctv_precommitment_input \<Rightarrow> ctv_output list \<Rightarrow> u64 \<Rightarrow> u64 \<Rightarrow> u64 \<Rightarrow> u32 \<Rightarrow> u32 option \<Rightarrow> bytes \<Rightarrow> bytes \<Rightarrow> bool"
where
  "prepared_from c inp outs output_sum fee covenant sequence anchor raw h \<longleftrightarrow>
    canonical_fanout_outputs c (ki_payouts inp) = Inr outs \<and>
    uint output_sum = (\<Sum>out\<leftarrow>outs. uint (co_amount_sats out)) \<and>
    uint fee = (\<Sum>out\<leftarrow>outs. uint (co_fee_sats out)) \<and>
    uint covenant = uint output_sum + uint fee \<and>
    expected_fanout_sequence (ki_chunk_index inp) = Inr sequence \<and>
    anchor_vout_for_fee (length outs) fee = Inr anchor \<and> length raw = 32 \<and>
    default_ctv_hash_hex c (hex_encode c (fanout_bytes c raw 0 outs (fee = 0) (ucast (ki_block_height inp)) sequence None))
      0 = Inr (hex_encode c h) \<and> length h = 32 \<and>
    ki_settlement_mode inp \<noteq> DirectCoinbase \<and> \<not> 0xffffffff < ki_block_height inp \<and>
    validate_chunk_identity (ki_chunk_index inp) (ki_chunk_count inp) = Inr () \<and>
    verify_precommitment c (precommitment_of c inp outs output_sum fee covenant sequence anchor raw h) = Inr ()"

lemma prepare_parts:
  assumes "hex_ok c" and "hash_ok c" and "p2a_ok c"
    and "prepare_ctv_fanout_precommitment c js inp = Inr pf"
  obtains outs output_sum fee covenant sequence anchor raw h canonical where
    "prepared_from c inp outs output_sum fee covenant sequence anchor raw h"
    "pf_precommitment pf = precommitment_of c inp outs output_sum fee covenant sequence anchor raw h"
    "canonical_precommitment_bytes js (pf_precommitment pf) = Inr canonical"
    "pf_precommitment_sha256_hex pf = sha256_hex c canonical"
    "commitment_witness_leaf_hex c (sha256_hex c canonical) = Inr (pf_witness_leaf_hex pf)"
    "pf_covenant_program_hex pf = pc_program_hex (pf_precommitment pf)" "pf_covenant_value pf = covenant"
proof -
  from assms(4) obtain outs output_sum fee covenant sequence template_hex hash_hex leaf_hex program_hex program anchor
      canonical leaf where
    init: "checks
      [reject_if (0xffffffff < ki_block_height inp) ''block height must fit fanout lock_time'',
       reject_if (ki_settlement_mode inp = DirectCoinbase)
         ''direct_coinbase mode cannot include a CTV fanout precommitment'',
       validate_chunk_identity (ki_chunk_index inp) (ki_chunk_count inp),
       validate_sha256_hex c (ki_reward_sha256_hex inp) ''reward_manifest_sha256_hex'',
       validate_sha256_hex c (ki_policy_sha256_hex inp) ''payout_policy_manifest_sha256_hex''] = Inr ()" and
    outs: "canonical_fanout_outputs c (ki_payouts inp) = Inr outs" and
    sums: "output_amount_sum outs = Inr output_sum" "output_fee_sum outs = Inr fee"
      "checked_add output_sum fee = Some covenant" and
    sequence: "expected_fanout_sequence (ki_chunk_index inp) = Inr sequence" and
    template: "unsigned_fanout_tx_hex c (concat (replicate 32 ''00'')) 0 outs (fanout_has_cpfp_anchor fee)
      (ucast (ki_block_height inp)) sequence = Inr template_hex" and
    hash: "default_ctv_hash_hex c template_hex (unat QBIT_CTV_INPUT_INDEX) = Inr hash_hex" and
    leaf: "ctv_leaf_script_hex c hash_hex = Inr leaf_hex" and
    prog: "p2mr_program_for_ctv_leaf_hex c leaf_hex = Inr program_hex"
      "decode_program_hex c program_hex ''p2mr_program_hex'' = Inr program" and
    anchor: "anchor_vout_for_fee (length outs) fee = Inr anchor" and
    rest: "let precommitment = \<lparr>pc_schema = CTV_FANOUT_PRECOMMITMENT_SCHEMA,
      pc_block_height = ki_block_height inp, pc_chunk_index = ki_chunk_index inp,
      pc_chunk_count = ki_chunk_count inp, pc_coinbase_value = ki_coinbase_value inp,
      pc_settlement_mode = ki_settlement_mode inp, pc_covenant_value = covenant,
      pc_covenant_script_hex = hex_encode c (p2mr_script_pubkey program), pc_template_hex = template_hex,
      pc_input_index = QBIT_CTV_INPUT_INDEX, pc_sequence = sequence,
      pc_lock_time = ucast (ki_block_height inp), pc_output_sum = output_sum, pc_fee_sats = fee,
      pc_anchor_vout = anchor, pc_ctv_hash_hex = hash_hex, pc_leaf_script_hex = leaf_hex,
      pc_program_hex = program_hex, pc_control_block_hex = hex_encode c [QBIT_P2MR_CONTROL_BLOCK],
      pc_reward_sha256_hex = to_ascii_lowercase (ki_reward_sha256_hex inp),
      pc_policy_sha256_hex = to_ascii_lowercase (ki_policy_sha256_hex inp), pc_outputs = outs\<rparr> in
      verify_precommitment c precommitment = Inr () \<and> canonical_precommitment_bytes js precommitment = Inr canonical \<and>
      commitment_witness_leaf_hex c (sha256_hex c canonical) = Inr leaf \<and>
      pf = \<lparr>pf_precommitment = precommitment, pf_precommitment_sha256_hex = sha256_hex c canonical,
        pf_witness_leaf_hex = leaf,
        pf_covenant_recipient_id = ''ctv-fanout-'' @ dec_word (ki_chunk_index inp),
        pf_covenant_order_key = ''ctv-fanout-'' @ dec_padded 8 (unat (ki_chunk_index inp)),
        pf_covenant_program_hex = program_hex, pf_covenant_value = covenant\<rparr>"
    unfolding prepare_ctv_fanout_precommitment_def rbind_Inr Let_def ok_or_Inr sum.inject
    by (elim exE conjE) (rule that, simp, assumption+, unfold Let_def, intro conjI, simp, assumption+, erule sym)
  note O = canonical_outputs_Inr[OF assms(1) outs]
  obtain raw where raw: "hex_decode c (concat (replicate 32 ''00'')) = Inr raw" "length raw = 32"
    using template by (auto simp: unsigned_fanout_tx_hex_def fanout_tx_hex_def normalize_txid_Inr)
  have t: "template_hex = hex_encode c (fanout_bytes c raw 0 outs (fee = 0) (ucast (ki_block_height inp)) sequence None)"
    using template fanout_tx_hex_eq[OF assms(1,3) O(3) raw]
    by (simp add: unsigned_fanout_tx_hex_def fanout_has_cpfp_anchor_def)
  obtain h where h: "hash_hex = hex_encode c h" "length h = 32"
    using hash ctv_hash_Inr[OF _ assms(2)] by (auto simp: default_ctv_hash_hex_def)
  have lh: "leaf_hex = hex_encode c (ctv_leaf_script h)"
    using leaf assms(1) by (auto simp: ctv_leaf_script_hex_def h decode_hash_Inr hex_ok_def)
  have ph: "program_hex = hex_encode c (p2mr_tapleaf_hash c (ctv_leaf_script h))"
    using prog(1) assms(1) by (auto simp: p2mr_program_for_ctv_leaf_hex_def lh hex_ok_def)
  have p: "program = p2mr_tapleaf_hash c (ctv_leaf_script h)"
    using prog(2) assms(1) by (auto simp: ph decode_program_Inr hex_ok_def)
  note R = rest[unfolded Let_def t h(1) lh ph p]
  show thesis
    by (rule that[of outs output_sum fee covenant sequence anchor raw h canonical])
      (use R init outs sums sequence anchor raw(2) hash h(2) in
        \<open>simp_all add: prepared_from_def precommitment_of_def Let_def output_amount_sum_def output_fee_sum_def
          checked_sum_Inr checked_add_Some checks_Inr t h(1) QBIT_CTV_INPUT_INDEX_def\<close>)
qed

section \<open>The manifest of a prepared fanout\<close>

text \<open>
  The parent coinbase pays the covenant: the output at \<open>vout\<close> has its value and script.
\<close>

definition pays_covenant :: "crypto \<Rightarrow> ctv_precommitment \<Rightarrow> parsed_transaction \<Rightarrow> u32 \<Rightarrow> bool" where
  "pays_covenant c p parent vout \<longleftrightarrow> unat vout < length (tx_outputs parent) \<and>
    to_amount_sats (tx_outputs parent ! unat vout) = pc_covenant_value p \<and>
    hex_encode c (to_script_pubkey (tx_outputs parent ! unat vout)) = pc_covenant_script_hex p"

definition parent_txid :: "crypto \<Rightarrow> parsed_transaction \<Rightarrow> bytes" where
  "parent_txid c parent = rev (hash256 c (tx_without_witness parent))"

definition final_fanout :: "crypto \<Rightarrow> ctv_precommitment \<Rightarrow> parsed_transaction \<Rightarrow> u32 \<Rightarrow> bytes \<Rightarrow> parsed_transaction" where
  "final_fanout c p parent vout leaf_script = fanout_parsed c (parent_txid c parent) vout (pc_outputs p)
    (pc_fee_sats p = 0) (pc_lock_time p) (pc_sequence p) (Some [leaf_script, [QBIT_P2MR_CONTROL_BLOCK]])"

definition final_fanout_bytes :: "crypto \<Rightarrow> ctv_precommitment \<Rightarrow> parsed_transaction \<Rightarrow> u32 \<Rightarrow> bytes \<Rightarrow> bytes" where
  "final_fanout_bytes c p parent vout leaf_script = fanout_bytes c (parent_txid c parent) vout (pc_outputs p)
    (pc_fee_sats p = 0) (pc_lock_time p) (pc_sequence p) (Some [leaf_script, [QBIT_P2MR_CONTROL_BLOCK]])"

lemma parent_txid_facts:
  assumes "hex_ok c" and "hash_ok c"
  shows "length (parent_txid c parent) = 32" and "txid_hex c parent = hex_encode c (parent_txid c parent)"
    and "hex_decode c (txid_hex c parent) = Inr (parent_txid c parent)"
  using assms by (simp_all add: parent_txid_def txid_hex_def hash256_def hash_ok_def hex_ok_def)

lemma precommitment_of_fields [simp]:
  "pc_outputs (precommitment_of c inp outs s f v q a r h) = outs"
  "pc_fee_sats (precommitment_of c inp outs s f v q a r h) = f"
  "pc_output_sum (precommitment_of c inp outs s f v q a r h) = s"
  "pc_covenant_value (precommitment_of c inp outs s f v q a r h) = v"
  "pc_sequence (precommitment_of c inp outs s f v q a r h) = q"
  "pc_anchor_vout (precommitment_of c inp outs s f v q a r h) = a"
  "pc_lock_time (precommitment_of c inp outs s f v q a r h) = ucast (ki_block_height inp)"
  "pc_block_height (precommitment_of c inp outs s f v q a r h) = ki_block_height inp"
  "pc_chunk_index (precommitment_of c inp outs s f v q a r h) = ki_chunk_index inp"
  "pc_chunk_count (precommitment_of c inp outs s f v q a r h) = ki_chunk_count inp"
  "pc_settlement_mode (precommitment_of c inp outs s f v q a r h) = ki_settlement_mode inp"
  "pc_coinbase_value (precommitment_of c inp outs s f v q a r h) = ki_coinbase_value inp"
  "pc_input_index (precommitment_of c inp outs s f v q a r h) = QBIT_CTV_INPUT_INDEX"
  "pc_ctv_hash_hex (precommitment_of c inp outs s f v q a r h) = hex_encode c h"
  "pc_leaf_script_hex (precommitment_of c inp outs s f v q a r h) = hex_encode c (ctv_leaf_script h)"
  "pc_program_hex (precommitment_of c inp outs s f v q a r h) = hex_encode c (p2mr_tapleaf_hash c (ctv_leaf_script h))"
  "pc_covenant_script_hex (precommitment_of c inp outs s f v q a r h) =
    hex_encode c (p2mr_script_pubkey (p2mr_tapleaf_hash c (ctv_leaf_script h)))"
  "pc_control_block_hex (precommitment_of c inp outs s f v q a r h) = hex_encode c [QBIT_P2MR_CONTROL_BLOCK]"
  "pc_template_hex (precommitment_of c inp outs s f v q a r h) =
    hex_encode c (fanout_bytes c r 0 outs (f = 0) (ucast (ki_block_height inp)) q None)"
  "pc_reward_sha256_hex (precommitment_of c inp outs s f v q a r h) = to_ascii_lowercase (ki_reward_sha256_hex inp)"
  "pc_policy_sha256_hex (precommitment_of c inp outs s f v q a r h) = to_ascii_lowercase (ki_policy_sha256_hex inp)"
  by (simp_all add: precommitment_of_def Let_def)

lemma anchor_vout_Inr:
  "anchor_vout_for_fee n fee = Inr a \<longleftrightarrow>
    (if fee = 0 then n < 2 ^ 32 \<and> a = Some (word_of_nat n) else a = None)"
proof -
  have "int n < 2 ^ 32 \<longleftrightarrow> n < 2 ^ 32" by (metis of_nat_less_iff of_nat_numeral of_nat_power)
  then show ?thesis by (auto simp: anchor_vout_for_fee_def fanout_has_cpfp_anchor_def)
qed

text \<open>The template and the final transaction parse, and commit to the same hash.\<close>

lemma prepared_transactions:
  assumes "hex_ok c" and "hash_ok c"
    and P: "prepared_from c inp outs output_sum fee covenant sequence anchor raw h"
    and small: "length outs < 2 ^ 62" and money: "covenant \<le> QBIT_MAX_MONEY_SATS"
  defines "lock \<equiv> ucast (ki_block_height inp) :: u32"
  shows "parse_transaction_hex c (hex_encode c (fanout_bytes c raw 0 outs (fee = 0) lock sequence None)) f =
      Inr (fanout_parsed c raw 0 outs (fee = 0) lock sequence None)"
    and "length txid = 32 \<Longrightarrow> parse_transaction_hex c (hex_encode c (fanout_bytes c txid vout outs (fee = 0) lock sequence
      (Some [ctv_leaf_script h, [QBIT_P2MR_CONTROL_BLOCK]]))) f = Inr (fanout_parsed c txid vout outs (fee = 0) lock
      sequence (Some [ctv_leaf_script h, [QBIT_P2MR_CONTROL_BLOCK]]))"
    and "default_ctv_hash_for_parsed_tx c (fanout_parsed c txid vout outs (fee = 0) lock sequence witness) 0 = Inr h"
proof -
  note P' = P[unfolded prepared_from_def]
  note O = canonical_outputs_Inr[OF assms(1) P'[THEN conjunct1]]
  have hlen: "length h = 32" using P' by blast
  have amounts: "\<forall>out\<in>set outs. co_amount_sats out \<le> QBIT_MAX_MONEY_SATS"
  proof
    fix out assume "out \<in> set outs"
    then have "uint (co_amount_sats out) \<le> (\<Sum>out\<leftarrow>outs. uint (co_amount_sats out))"
      by (intro member_le_sum_list) auto
    also have "\<dots> \<le> uint covenant" using P' uint_nonneg[of fee] by linarith
    finally show "co_amount_sats out \<le> QBIT_MAX_MONEY_SATS" using money by (simp add: word_le_def)
  qed
  show t: "parse_transaction_hex c (hex_encode c (fanout_bytes c raw 0 outs (fee = 0) lock sequence None)) f =
      Inr (fanout_parsed c raw 0 outs (fee = 0) lock sequence None)" for f
    using fanout_parses[OF assms(1) O(3) amounts small, of raw None] P' by simp
  have "stack_valid [ctv_leaf_script h, [QBIT_P2MR_CONTROL_BLOCK]]"
    using hlen by (simp add: stack_valid_def ctv_leaf_script_def)
  then show "length txid = 32 \<Longrightarrow> parse_transaction_hex c (hex_encode c (fanout_bytes c txid vout outs (fee = 0) lock sequence
      (Some [ctv_leaf_script h, [QBIT_P2MR_CONTROL_BLOCK]]))) f = Inr (fanout_parsed c txid vout outs (fee = 0) lock
      sequence (Some [ctv_leaf_script h, [QBIT_P2MR_CONTROL_BLOCK]]))"
    using fanout_parses[OF assms(1) O(3) amounts small, of txid "Some [ctv_leaf_script h, [QBIT_P2MR_CONTROL_BLOCK]]"]
    by simp
  have "default_ctv_hash_hex c (hex_encode c (fanout_bytes c raw 0 outs (fee = 0) lock sequence None)) 0 = Inr (hex_encode c h)"
    using P' by (simp add: lock_def)
  then have "default_ctv_hash_for_parsed_tx c (fanout_parsed c raw 0 outs (fee = 0) lock sequence None) 0 = Inr h"
    using hex_encode_inj[OF assms(1)] by (auto simp: default_ctv_hash_hex_def t)
  then show "default_ctv_hash_for_parsed_tx c (fanout_parsed c txid vout outs (fee = 0) lock sequence witness) 0 = Inr h"
    using fanout_hash_outpoint[of c txid vout outs "fee = 0" lock sequence witness 0 raw 0 None] by simp
qed

text \<open>Every check of the verifier passes on the final manifest.\<close>

lemma unat_word_of_nat_u32: "n < 2 ^ 32 \<Longrightarrow> unat (word_of_nat n :: u32) = n"
  by (simp add: unsigned_of_nat take_bit_nat_eq_self)

lemma fanout_rows_final:
  assumes "\<forall>out\<in>set outs. output_ok c out" and "\<forall>i<length outs. co_vout (outs ! i) = word_of_nat i"
    and "uint A = (\<Sum>out\<leftarrow>outs. uint (co_amount_sats out))" and "uint F = (\<Sum>out\<leftarrow>outs. uint (co_fee_sats out))"
  shows "fanout_rows c 0 0 0 (zip (fanout_tx_outs c outs anchor) outs) = Inr (A, F)"
proof -
  let ?g = "\<lambda>out. \<lparr>to_amount_sats = co_amount_sats out, to_script_pubkey = p2mr_script_pubkey (program_of c out)\<rparr>"
  have z: "zip (fanout_tx_outs c outs anchor) outs = map (\<lambda>out. (?g out, out)) outs"
    by (simp add: fanout_tx_outs_def zip_append1 zip_map1 zip_same_conv_map)
  have "fanout_row c i (?g (outs ! i)) (outs ! i) = Inr ()" if i: "i < length outs" for i
  proof -
    obtain b where b: "pays_program c (outs ! i) b"
      using assms(1) nth_mem[OF i] unfolding output_ok_def by blast
    then show ?thesis using assms(2) i program_of_eq[OF b] by (auto simp: fanout_row_Inr pays_program_def)
  qed
  then show ?thesis unfolding z fanout_rows_Inr using assms(3,4) by (simp add: comp_def)
qed

lemma final_outputs_ok:
  assumes "hex_ok c" and "p2a_ok c"
    and P: "prepared_from c inp outs output_sum fee covenant sequence anchor raw h"
    and m: "cm_precommitment m = precommitment_of c inp outs output_sum fee covenant sequence anchor raw h"
      "cm_covenant_value m = covenant"
    and fanout: "tx_outputs fanout = fanout_tx_outs c outs (fee = 0)"
  shows "fanout_outputs_ok c m fanout = Inr ()"
proof -
  note P' = P[unfolded prepared_from_def]
  note O = canonical_outputs_Inr[OF assms(1) P'[THEN conjunct1]]
  have anchor: "anchor = (if fee = 0 then Some (word_of_nat (length outs)) else None)"
    "fee = 0 \<Longrightarrow> length outs < 2 ^ 32"
    using P' by (auto simp: anchor_vout_Inr split: if_splits)
  have rows: "fanout_rows c 0 0 0 (zip (tx_outputs fanout) outs) = Inr (output_sum, fee)"
    unfolding fanout using P' by (intro fanout_rows_final[OF O(3,6)]) simp_all
  have add: "checked_add output_sum fee = Some covenant" using P' by (simp add: checked_add_Some)
  have anch: "fee = 0 \<Longrightarrow> ensure_fee_anchor_output c (tx_outputs fanout ! length outs) (word_of_nat (length outs)) (length outs) = Inr ()"
    using anchor(2) assms(2)
    by (simp add: ensure_fee_anchor_output_def checks_Inr fanout fanout_tx_outs_def nth_append p2a_ok_def
        p2a_anchor_script_pubkey_def CTV_FANOUT_ANCHOR_VALUE_SATS_def unat_word_of_nat_u32)
  show ?thesis
    unfolding fanout_outputs_ok_def m Let_def precommitment_of_fields rbind_Inr
    using rows add anch by (cases "fee = 0") (auto simp: anchor checks_Inr m fanout fanout_tx_outs_def)
qed

definition final_manifest ::
  "crypto \<Rightarrow> ctv_precommitment \<Rightarrow> bytes \<Rightarrow> string \<Rightarrow> parsed_transaction \<Rightarrow> bytes \<Rightarrow> u32 \<Rightarrow> bytes \<Rightarrow> ctv_manifest" where
  "final_manifest c p canonical leaf parent parent_bytes vout h =
    \<lparr>cm_schema = CTV_FANOUT_MANIFEST_SCHEMA, cm_precommitment = p, cm_precommitment_sha256_hex = sha256_hex c canonical,
     cm_witness_leaf_hex = leaf, cm_parent_txid = txid_hex c parent, cm_parent_hex = hex_encode c parent_bytes,
     cm_parent_vout = vout, cm_covenant_value = pc_covenant_value p,
     cm_covenant_script_hex = pc_covenant_script_hex p,
     cm_fanout_hex = hex_encode c (final_fanout_bytes c p parent vout (ctv_leaf_script h)),
     cm_fanout_txid = txid_hex c (final_fanout c p parent vout (ctv_leaf_script h))\<rparr>"

lemma final_manifest_fields [simp]:
  "cm_schema (final_manifest c p canonical leaf parent pb vout h) = CTV_FANOUT_MANIFEST_SCHEMA"
  "cm_precommitment (final_manifest c p canonical leaf parent pb vout h) = p"
  "cm_precommitment_sha256_hex (final_manifest c p canonical leaf parent pb vout h) = sha256_hex c canonical"
  "cm_witness_leaf_hex (final_manifest c p canonical leaf parent pb vout h) = leaf"
  "cm_parent_txid (final_manifest c p canonical leaf parent pb vout h) = txid_hex c parent"
  "cm_parent_hex (final_manifest c p canonical leaf parent pb vout h) = hex_encode c pb"
  "cm_parent_vout (final_manifest c p canonical leaf parent pb vout h) = vout"
  "cm_covenant_value (final_manifest c p canonical leaf parent pb vout h) = pc_covenant_value p"
  "cm_covenant_script_hex (final_manifest c p canonical leaf parent pb vout h) = pc_covenant_script_hex p"
  "cm_fanout_hex (final_manifest c p canonical leaf parent pb vout h) =
    hex_encode c (final_fanout_bytes c p parent vout (ctv_leaf_script h))"
  "cm_fanout_txid (final_manifest c p canonical leaf parent pb vout h) =
    txid_hex c (final_fanout c p parent vout (ctv_leaf_script h))"
  by (simp_all add: final_manifest_def)

lemma verified_shas:
  assumes "verify_precommitment c p = Inr u"
  shows "validate_sha256_hex c (pc_reward_sha256_hex p) f = Inr ()"
    and "validate_sha256_hex c (pc_policy_sha256_hex p) f = Inr ()"
  using assms by (auto simp: verify_precommitment_def checks_Inr hex_Inr)

text \<open>A precommitment, the bytes it is hashed in, and a coinbase that pays its covenant.\<close>

definition final_inputs ::
  "crypto \<Rightarrow> ctv_json \<Rightarrow> ctv_precommitment \<Rightarrow> bytes \<Rightarrow> string \<Rightarrow> string \<Rightarrow> bytes \<Rightarrow> parsed_transaction \<Rightarrow> u32 \<Rightarrow> bool" where
  "final_inputs c js p canonical leaf parent_hex pb parent vout \<longleftrightarrow>
    hex_ok c \<and> hash_ok c \<and> p2a_ok c \<and> canonical_precommitment_bytes js p = Inr canonical \<and>
    commitment_witness_leaf_hex c (sha256_hex c canonical) = Inr leaf \<and>
    hex_decode c parent_hex = Inr pb \<and> parse_transaction c ''parent_coinbase_tx_hex'' pb = Inr parent \<and>
    ensure_coinbase_shape c parent = Inr () \<and> pays_covenant c p parent vout"

lemma sha256_hex_decodes:
  assumes "hex_ok c" and "hash_ok c"
  shows "hex_decode c (sha256_hex c b) = Inr (sha256 c b)" "length (sha256 c b) = 32"
  using assms by (simp_all add: sha256_hex_def hex_ok_def hash_ok_def)

lemma final_fields_ok:
  assumes I: "final_inputs c js p canonical leaf parent_hex pb parent vout"
    and P: "prepared_from c inp outs output_sum fee covenant sequence anchor raw h"
    and p: "p = precommitment_of c inp outs output_sum fee covenant sequence anchor raw h"
  shows "manifest_fields_ok c js (final_manifest c p canonical leaf parent pb vout h) = Inr ()"
proof -
  note I' = I[unfolded final_inputs_def]
  have hex: "hex_ok c" and hash: "hash_ok c" using I' by blast+
  have dec: "hex_decode c (hex_encode c b) = Inr b" for b using hex by (simp add: hex_ok_def)
  have v: "verify_precommitment c p = Inr ()" using P p by (simp add: prepared_from_def)
  have sha: "validate_canonical_sha256_hex c (sha256_hex c b) f = Inr ()" for b f
    using sha256_hex_decodes[OF hex hash, of b] by (auto simp: validate_canonical_sha256_Inr sha256_hex_def)
  have txid: "validate_canonical_sha256_hex c (txid_hex c t) f = Inr ()" for t f
    using parent_txid_facts[OF hex hash, of t] by (auto simp: validate_canonical_sha256_Inr)
  have leaf: "validate_canonical_sha256_hex c leaf f = Inr ()" for f
  proof -
    obtain b where "leaf = hex_encode c (sha256 c b)" using I' by (auto simp: commitment_witness_leaf_hex_def)
    then show ?thesis using sha[of b f] by (simp add: sha256_hex_def)
  qed
  have enc: "validate_canonical_hex c (hex_encode c b) f = Inr ()" for b f
    using dec by (auto simp: validate_canonical_hex_Inr)
  have script: "pc_covenant_script_hex p = hex_encode c (p2mr_script_pubkey (p2mr_tapleaf_hash c (ctv_leaf_script h)))"
    by (simp add: p)
  show ?thesis
    unfolding manifest_fields_ok_def Let_def final_manifest_fields rbind_Inr
    using v sha txid leaf enc script I' verified_shas[OF v] P
    by (simp add: checks_Inr prepared_from_def) (simp add: p)
qed

lemma final_parent_ok:
  assumes I: "final_inputs c js p canonical leaf parent_hex pb parent vout"
  shows "manifest_parent_ok c (final_manifest c p canonical leaf parent pb vout h) = Inr ()"
proof -
  note I' = I[unfolded final_inputs_def]
  have "parse_transaction_hex c (hex_encode c pb) ''parent_coinbase_tx_hex'' = Inr parent"
    using I' by (simp add: parse_transaction_hex_def hex_ok_def)
  then have parse: "parse_transaction_hex c (hex_encode c pb) f = Inr parent" for f
    using parse_any_field I' by blast
  show ?thesis
    using I' parse by (simp add: manifest_parent_ok_def checks_Inr parent_output_def pays_covenant_def)
qed

lemma final_transactions_ok:
  assumes I: "final_inputs c js p canonical leaf parent_hex pb parent vout"
    and P: "prepared_from c inp outs output_sum fee covenant sequence anchor raw h"
    and p: "p = precommitment_of c inp outs output_sum fee covenant sequence anchor raw h"
  defines "m \<equiv> final_manifest c p canonical leaf parent pb vout h"
  shows "fanout_input_ok c m (final_fanout c p parent vout (ctv_leaf_script h)) = Inr ()"
    and "default_ctv_hash_for_parsed_tx c template 0 = Inr h \<Longrightarrow>
      default_ctv_hash_for_parsed_tx c (final_fanout c p parent vout (ctv_leaf_script h)) 0 = Inr h \<Longrightarrow>
      covenant_ok c m template (final_fanout c p parent vout (ctv_leaf_script h)) = Inr ()"
    and "fanout_outputs_ok c m (final_fanout c p parent vout (ctv_leaf_script h)) = Inr ()"
proof -
  note I' = I[unfolded final_inputs_def] and P' = P[unfolded prepared_from_def]
  have hex: "hex_ok c" and hash: "hash_ok c" and p2a: "p2a_ok c" using I' by blast+
  show "fanout_input_ok c m (final_fanout c p parent vout (ctv_leaf_script h)) = Inr ()"
    using P' parent_txid_facts[OF hex hash, of parent]
    by (simp add: fanout_input_ok_def Let_def checks_Inr m_def final_fanout_def p)
  show "default_ctv_hash_for_parsed_tx c template 0 = Inr h \<Longrightarrow>
      default_ctv_hash_for_parsed_tx c (final_fanout c p parent vout (ctv_leaf_script h)) 0 = Inr h \<Longrightarrow>
      covenant_ok c m template (final_fanout c p parent vout (ctv_leaf_script h)) = Inr ()"
    by (simp add: covenant_ok_def Let_def checks_Inr m_def p QBIT_CTV_INPUT_INDEX_def verify_fanout_witness_def
        final_fanout_def)
  show "fanout_outputs_ok c m (final_fanout c p parent vout (ctv_leaf_script h)) = Inr ()"
    by (rule final_outputs_ok[OF hex p2a P]) (simp_all add: m_def p final_fanout_def)
qed

lemma final_manifest_verifies:
  assumes I: "final_inputs c js p canonical leaf parent_hex pb parent vout"
    and P: "prepared_from c inp outs output_sum fee covenant sequence anchor raw h"
    and p: "p = precommitment_of c inp outs output_sum fee covenant sequence anchor raw h"
    and small: "length outs < 2 ^ 62"
  shows "verify_ctv_fanout_manifest_structure c js (final_manifest c p canonical leaf parent pb vout h) = Inr ()"
    and "build_ctv_fanout_manifest_from_precommitment c js p parent_hex vout =
      Inr (final_manifest c p canonical leaf parent pb vout h)"
proof -
  note I' = I[unfolded final_inputs_def] and P' = P[unfolded prepared_from_def]
  have hex: "hex_ok c" and hash: "hash_ok c" and p2a: "p2a_ok c" using I' by blast+
  have dec: "hex_decode c (hex_encode c b) = Inr b" for b using hex by (simp add: hex_ok_def)
  let ?pay = "tx_outputs parent ! unat vout"
  have pays: "unat vout < length (tx_outputs parent)" "to_amount_sats ?pay = covenant"
    "hex_encode c (to_script_pubkey ?pay) = pc_covenant_script_hex p"
    using I' by (simp_all add: pays_covenant_def p)
  have parse_parent: "parse_transaction_hex c parent_hex ''parent_coinbase_tx_hex'' = Inr parent"
    using I' by (simp add: parse_transaction_hex_def)
  then have money: "covenant \<le> QBIT_MAX_MONEY_SATS"
    using parsed_outputs_ok[OF hex] pays nth_mem[OF pays(1)] by metis
  define lock where "lock = (ucast (ki_block_height inp) :: u32)"
  note T = prepared_transactions[OF hex hash P small money, folded lock_def]
  let ?w = "Some [ctv_leaf_script h, [QBIT_P2MR_CONTROL_BLOCK]]"
  let ?template = "fanout_parsed c raw 0 outs (fee = 0) lock sequence None"
  let ?fanout = "fanout_parsed c (parent_txid c parent) vout outs (fee = 0) lock sequence ?w"
  let ?fb = "fanout_bytes c (parent_txid c parent) vout outs (fee = 0) lock sequence ?w"
  have fin: "final_fanout c p parent vout (ctv_leaf_script h) = ?fanout"
    "final_fanout_bytes c p parent vout (ctv_leaf_script h) = ?fb"
    by (simp_all add: final_fanout_def final_fanout_bytes_def p lock_def)
  have template_hex: "pc_template_hex p = hex_encode c (fanout_bytes c raw 0 outs (fee = 0) lock sequence None)"
    by (simp add: p lock_def)
  note parse_fanout = T(2)[OF parent_txid_facts(1)[OF hex hash, of parent]]
  note F = final_transactions_ok[OF I P p]
  have vt: "validate_fanout_template ?template = Inr ()" by (simp add: validate_fanout_template_def checks_Inr)
  show verified: "verify_ctv_fanout_manifest_structure c js (final_manifest c p canonical leaf parent pb vout h) = Inr ()"
    unfolding verify_ctv_fanout_manifest_structure_def
    using final_fields_ok[OF I P p] final_parent_ok[OF I] T(1) vt parse_fanout F(1) F(2)[OF T(3)] T(3) F(3)
    by (simp add: template_hex fin)
  note O = canonical_outputs_Inr[OF hex P'[THEN conjunct1]]
  have final_hex: "witnessed_fanout_tx_hex c (txid_hex c parent) vout outs (fee = 0) lock sequence (ctv_leaf_script h) =
      Inr (hex_encode c ?fb)"
    unfolding witnessed_fanout_tx_hex_def
    by (rule fanout_tx_hex_eq[OF hex p2a O(3)]) (use parent_txid_facts[OF hex hash, of parent] in simp_all)
  have anchor: "(anchor \<noteq> None) = (fee = 0)" using P' by (auto simp: anchor_vout_Inr split: if_splits)
  have v: "verify_precommitment c p = Inr ()" using P' p by blast
  have init: "checks
      [reject_if (0xffffffff < pc_block_height p) ''block height must fit fanout lock_time'',
       reject_if (pc_settlement_mode p = DirectCoinbase)
         ''direct_coinbase mode cannot include a CTV fanout manifest'',
       validate_chunk_identity (pc_chunk_index p) (pc_chunk_count p),
       validate_sha256_hex c (pc_reward_sha256_hex p) ''reward_manifest_sha256_hex'',
       validate_sha256_hex c (pc_policy_sha256_hex p) ''payout_policy_manifest_sha256_hex''] = Inr ()"
    using P' verified_shas[OF v] by (simp add: checks_Inr) (simp add: p)
  have sums: "output_amount_sum outs = Inr output_sum" "output_fee_sum outs = Inr fee"
    using P' by (simp_all add: output_amount_sum_def output_fee_sum_def checked_sum_Inr)
  let ?script = "p2mr_script_pubkey (p2mr_tapleaf_hash c (ctv_leaf_script h))"
  have rebuilt: "\<lparr>pc_schema = CTV_FANOUT_PRECOMMITMENT_SCHEMA,
      pc_block_height = pc_block_height p, pc_chunk_index = pc_chunk_index p,
      pc_chunk_count = pc_chunk_count p, pc_coinbase_value = pc_coinbase_value p,
      pc_settlement_mode = pc_settlement_mode p, pc_covenant_value = to_amount_sats ?pay,
      pc_covenant_script_hex = hex_encode c ?script,
      pc_template_hex = hex_encode c (fanout_bytes c raw 0 outs (fee = 0) lock sequence None),
      pc_input_index = QBIT_CTV_INPUT_INDEX, pc_sequence = ti_sequence (hd (tx_inputs ?fanout)),
      pc_lock_time = tx_lock_time ?fanout, pc_output_sum = output_sum, pc_fee_sats = fee,
      pc_anchor_vout = anchor, pc_ctv_hash_hex = hex_encode c h,
      pc_leaf_script_hex = hex_encode c (ctv_leaf_script h),
      pc_program_hex = hex_encode c (p2mr_tapleaf_hash c (ctv_leaf_script h)),
      pc_control_block_hex = hex_encode c [QBIT_P2MR_CONTROL_BLOCK],
      pc_reward_sha256_hex = to_ascii_lowercase (pc_reward_sha256_hex p),
      pc_policy_sha256_hex = to_ascii_lowercase (pc_policy_sha256_hex p), pc_outputs = outs\<rparr> = p"
    by (simp add: p pays lock_def precommitment_of_def Let_def to_ascii_lowercase_def comp_def)
  have manifest: "build_ctv_fanout_manifest c js \<lparr>mi_block_height = pc_block_height p, mi_chunk_index = pc_chunk_index p,
      mi_chunk_count = pc_chunk_count p, mi_coinbase_value = pc_coinbase_value p,
      mi_settlement_mode = pc_settlement_mode p, mi_template_hex = pc_template_hex p,
      mi_parent_hex = parent_hex, mi_parent_vout = vout, mi_fanout_hex = hex_encode c ?fb,
      mi_reward_sha256_hex = pc_reward_sha256_hex p, mi_policy_sha256_hex = pc_policy_sha256_hex p,
      mi_payouts = map payout_of_output (pc_outputs p)\<rparr> = Inr (final_manifest c p canonical leaf parent pb vout h)"
  proof -
    have outs: "pc_outputs p = outs" and index: "pc_chunk_index p = ki_chunk_index inp"
      and seq: "expected_fanout_sequence (ki_chunk_index inp) = Inr sequence" using P' by (simp_all add: p)
    have norm: "normalize_hex c (hex_encode c b) = Inr (hex_encode c b)" for b by (simp add: normalize_hex_def dec)
    have normp: "normalize_hex c parent_hex = Inr (hex_encode c pb)" using I' by (simp add: normalize_hex_def)
    have rejects: "reject_if (h \<noteq> h) ''fanout transaction does not match committed CTV template'' = Inr ()"
      "reject_if (tx_inputs ?fanout = []) ''fanout transaction must have input 0'' = Inr ()"
      "reject_if (ti_sequence (hd (tx_inputs ?fanout)) \<noteq> sequence) ''fanout sequence must equal the chunk index'' = Inr ()"
      by simp_all
    have vout: "parent_output parent vout = Inr ?pay" using pays(1) by (simp add: parent_output_def)
    have shape: "ensure_coinbase_shape c parent = Inr ()" and canon: "canonical_precommitment_bytes js p = Inr canonical"
      and leaf: "commitment_witness_leaf_hex c (sha256_hex c canonical) = Inr leaf" using I' by blast+
    have anch: "anchor_vout_for_fee (length outs) fee = Inr anchor" using P' by blast
    have zero: "unat QBIT_CTV_INPUT_INDEX = 0" by (simp add: QBIT_CTV_INPUT_INDEX_def)
    have scr: "hex_encode c ?script = pc_covenant_script_hex p" by (simp add: p)
    have txid: "txid_hex c ?fanout = txid_hex c (final_fanout c p parent vout (ctv_leaf_script h))"
      "hex_encode c ?fb = hex_encode c (final_fanout_bytes c p parent vout (ctv_leaf_script h))"
      by (simp_all only: fin)
    have covenant: "to_amount_sats ?pay = pc_covenant_value p" using pays(2) by (simp add: p)
    have last: "\<lparr>cm_schema = CTV_FANOUT_MANIFEST_SCHEMA, cm_precommitment = p,
      cm_precommitment_sha256_hex = sha256_hex c canonical, cm_witness_leaf_hex = leaf,
      cm_parent_txid = txid_hex c parent, cm_parent_hex = hex_encode c pb, cm_parent_vout = vout,
      cm_covenant_value = to_amount_sats ?pay, cm_covenant_script_hex = hex_encode c ?script,
      cm_fanout_hex = hex_encode c ?fb, cm_fanout_txid = txid_hex c ?fanout\<rparr> =
      final_manifest c p canonical leaf parent pb vout h"
      unfolding final_manifest_def scr txid covenant ..
    show ?thesis
      unfolding build_ctv_fanout_manifest_def ctv_manifest_input.select_convs init[unfolded index] rbind.simps parse_parent shape
        template_hex T(1) parse_fanout vt vout zero T(3) rejects Let_def index seq outs O(7) sums anch norm
      unfolding rebuilt[unfolded index] canon rbind.simps leaf normp norm last verified ..
  qed
  show "build_ctv_fanout_manifest_from_precommitment c js p parent_hex vout =
      Inr (final_manifest c p canonical leaf parent pb vout h)"
    unfolding build_ctv_fanout_manifest_from_precommitment_def
    using v parse_parent I' final_hex manifest anchor dec
    by (simp add: decode_field_def) (simp add: p lock_def)
qed

text \<open>A prepared fanout, finalized against any coinbase that pays its covenant.\<close>

lemma prepared_manifest:
  assumes "hex_ok c" and "hash_ok c" and "p2a_ok c"
    and "prepare_ctv_fanout_precommitment c js inp = Inr pf" and "length (ki_payouts inp) < 2 ^ 62"
    and "parse_transaction_hex c parent_hex ''parent_coinbase_tx_hex'' = Inr parent"
    and "ensure_coinbase_shape c parent = Inr ()" and "pays_covenant c (pf_precommitment pf) parent vout"
  shows "\<exists>m. build_ctv_fanout_manifest_from_precommitment c js (pf_precommitment pf) parent_hex vout = Inr m \<and>
    cm_precommitment m = pf_precommitment pf \<and> cm_witness_leaf_hex m = pf_witness_leaf_hex pf \<and>
    cm_parent_vout m = vout \<and> verify_ctv_fanout_manifest_structure c js m = Inr ()"
proof -
  obtain outs output_sum fee covenant sequence anchor raw h canonical where
    P: "prepared_from c inp outs output_sum fee covenant sequence anchor raw h"
    and p: "pf_precommitment pf = precommitment_of c inp outs output_sum fee covenant sequence anchor raw h"
    and can: "canonical_precommitment_bytes js (pf_precommitment pf) = Inr canonical"
    and leaf: "commitment_witness_leaf_hex c (sha256_hex c canonical) = Inr (pf_witness_leaf_hex pf)"
    by (rule prepare_parts[OF assms(1-4)])
  obtain pb where pb: "hex_decode c parent_hex = Inr pb" "parse_transaction c ''parent_coinbase_tx_hex'' pb = Inr parent"
    using assms(6) by (auto simp: parse_hex_Inr)
  have I: "final_inputs c js (pf_precommitment pf) canonical (pf_witness_leaf_hex pf) parent_hex pb parent vout"
    using assms can leaf pb by (simp add: final_inputs_def)
  have "canonical_fanout_outputs c (ki_payouts inp) = Inr outs" using P by (simp add: prepared_from_def)
  then have "length outs < 2 ^ 62" using canonical_outputs_Inr(2)[OF assms(1)] assms(5) by simp
  from final_manifest_verifies[OF I P p this] show ?thesis by (intro exI) (rule conjI, assumption, simp)
qed

end
