(* ===== verification/Ctv_Prepare.thy ===== *)
theory Ctv_Prepare
  imports Ctv_Final
begin

text \<open>
  When a fanout can be prepared: with canonical outputs whose total is money, a chunk index
  that fits its sequence, and lowercase manifest digests, preparation cannot fail.
\<close>

lemma precommitment_row_ok:
  assumes "output_ok c out" and "co_vout out = word_of_nat i" and "output_key out \<notin> seen"
  shows "precommitment_row c seen i out = Inr (output_key out)"
proof -
  obtain b where b: "pays_program c out b" using assms(1) unfolding output_ok_def by blast
  then have "canonical_p2mr_program_hex c (co_program out) f = Inr (co_program out)"
    "decode_program_hex c (co_program out) f = Inr b" for f
    unfolding pays_program_def canonical_program_Inr decode_program_Inr by metis+
  then show ?thesis
    using assms b by (simp add: precommitment_row_def output_ok_def pays_program_def output_key_def Let_def
        checks_Inr reject_if_def)
qed

lemma precommitment_rows_ok:
  assumes "\<forall>out\<in>set outs. output_ok c out" and "\<forall>j<length outs. co_vout (outs ! j) = word_of_nat (i + j)"
    and "distinct (map output_key outs)" and "output_key ` set outs \<inter> seen = {}"
    and "uint A = uint a + (\<Sum>out\<leftarrow>outs. uint (co_amount_sats out))"
    and "uint F = uint f + (\<Sum>out\<leftarrow>outs. uint (co_fee_sats out))"
  shows "precommitment_rows c seen i a f outs = Inr (A, F)"
  using assms
proof (induction outs arbitrary: seen i a f)
  case Nil
  then show ?case by (simp add: word_uint_eq_iff)
next
  case (Cons out outs)
  let ?sa = "\<Sum>out\<leftarrow>outs. uint (co_amount_sats out)" and ?sf = "\<Sum>out\<leftarrow>outs. uint (co_fee_sats out)"
  have "0 \<le> ?sa" "0 \<le> ?sf" by (rule sum_list_uint_nonneg)+
  moreover have "uint A < 2 ^ 64" "uint F < 2 ^ 64" by (rule u64_bound)+
  moreover have sums: "uint A = uint a + uint (co_amount_sats out) + ?sa" "uint F = uint f + uint (co_fee_sats out) + ?sf"
    using Cons.prems(5,6) by simp_all
  ultimately have lt: "uint a + uint (co_amount_sats out) < 2 ^ 64" "uint f + uint (co_fee_sats out) < 2 ^ 64"
    by linarith+
  from lt(1) obtain a' where a': "checked_add a (co_amount_sats out) = Some a'"
    "uint a' = uint a + uint (co_amount_sats out)" by (rule checked_add_ex)
  from lt(2) obtain f' where f': "checked_add f (co_fee_sats out) = Some f'"
    "uint f' = uint f + uint (co_fee_sats out)" by (rule checked_add_ex)
  have "co_vout out = word_of_nat i" using Cons.prems(2) by (elim allE[of _ 0]) simp
  then have "precommitment_row c seen i out = Inr (output_key out)"
    using Cons.prems(1,4) by (intro precommitment_row_ok) auto
  moreover have "precommitment_rows c (insert (output_key out) seen) (Suc i) a' f' outs = Inr (A, F)"
  proof (rule Cons.IH)
    show "\<forall>j<length outs. co_vout (outs ! j) = word_of_nat (Suc i + j)"
    proof (intro allI impI)
      fix j assume "j < length outs"
      then show "co_vout (outs ! j) = word_of_nat (Suc i + j)" using Cons.prems(2)[rule_format, of "Suc j"] by simp
    qed
  qed (use Cons.prems sums a' f' in auto)
  ultimately show ?case using a'(1) f'(1) by simp
qed

text \<open>The digests of the two manifests, in canonical form once lowercased.\<close>

definition digest_ok :: "crypto \<Rightarrow> string \<Rightarrow> bool" where
  "digest_ok c s \<longleftrightarrow> (\<exists>b. hex_decode c s = Inr b \<and> length b = 32 \<and> to_ascii_lowercase s = hex_encode c b)"

lemma precommitment_ok:
  assumes "hex_ok c" and "hash_ok c"
    and outs: "canonical_fanout_outputs c (ki_payouts inp) = Inr outs"
    and sums: "uint output_sum = (\<Sum>out\<leftarrow>outs. uint (co_amount_sats out))"
      "uint fee = (\<Sum>out\<leftarrow>outs. uint (co_fee_sats out))" "uint covenant = uint output_sum + uint fee"
    and seq: "expected_fanout_sequence (ki_chunk_index inp) = Inr sequence"
    and anchor: "anchor_vout_for_fee (length outs) fee = Inr anchor"
    and chunk: "validate_chunk_identity (ki_chunk_index inp) (ki_chunk_count inp) = Inr ()"
    and digests: "digest_ok c (ki_reward_sha256_hex inp)" "digest_ok c (ki_policy_sha256_hex inp)"
    and h: "length h = 32"
  shows "verify_precommitment c (precommitment_of c inp outs output_sum fee covenant sequence anchor raw h) = Inr ()"
proof -
  have dec: "hex_decode c (hex_encode c b) = Inr b" for b using assms(1) by (simp add: hex_ok_def)
  note O = canonical_outputs_Inr[OF assms(1) outs]
  have rows: "precommitment_rows c {} 0 0 0 outs = Inr (output_sum, fee)"
    using O sums by (intro precommitment_rows_ok) simp_all
  have add: "checked_add output_sum fee = Some covenant" using sums by (simp add: checked_add_Some)
  have enc: "validate_canonical_hex c (hex_encode c b) f = Inr ()" for b f
    by (auto simp: validate_canonical_hex_Inr dec)
  have enc32: "validate_canonical_sha256_hex c (hex_encode c b) f = Inr ()" if "length b = 32" for b f
    using that by (auto simp: validate_canonical_sha256_Inr dec)
  have "length (p2mr_tapleaf_hash c s) = 32" for s
    using assms(2) by (simp add: p2mr_tapleaf_hash_def tagged_hash_def Let_def hash_ok_def)
  then have prog: "canonical_p2mr_program_hex c (hex_encode c (p2mr_tapleaf_hash c s)) f =
      Inr (hex_encode c (p2mr_tapleaf_hash c s))" for s f
    by (auto simp: canonical_program_Inr dec)
  have dig: "validate_canonical_sha256_hex c (to_ascii_lowercase s) f = Inr ()" if "digest_ok c s" for s f
    using that enc32 by (auto simp: digest_ok_def)
  have anch: "check_anchor fee anchor (length outs) = Inr ()"
    using anchor by (auto simp: anchor_vout_Inr check_anchor_def unat_word_of_nat_u32 split: if_splits)
  show ?thesis
    unfolding verify_precommitment_def rbind_Inr precommitment_of_fields
    using rows add anch O(1) seq chunk enc enc32[OF h] prog dig digests
    by (simp add: checks_Inr reject_if_def) (simp add: precommitment_of_def Let_def)
qed

text \<open>The null outpoint of the template, 32 zero bytes in hex.\<close>

definition zeros_ok :: "crypto \<Rightarrow> bool" where
  "zeros_ok c \<longleftrightarrow> hex_decode c (concat (replicate 32 ''00'')) = Inr (replicate 32 0)"

lemma prepare_total:
  assumes hex: "hex_ok c" and hash: "hash_ok c" and p2a: "p2a_ok c" and zeros: "zeros_ok c"
    and json: "\<And>p. \<exists>b. cj_precommitment js p = Inr b"
    and height: "ki_block_height inp \<le> 0xffffffff" and mode: "ki_settlement_mode inp \<noteq> DirectCoinbase"
    and chunk: "ki_chunk_index inp < ki_chunk_count inp" "ki_chunk_index inp < 0x80000000"
    and digests: "digest_ok c (ki_reward_sha256_hex inp)" "digest_ok c (ki_policy_sha256_hex inp)"
    and outs: "canonical_fanout_outputs c (ki_payouts inp) = Inr outs" and len: "length outs + 1 < 2 ^ 32"
    and money: "(\<Sum>out\<leftarrow>outs. uint (co_gross_sats out)) \<le> uint QBIT_MAX_MONEY_SATS"
  shows "\<exists>pf. prepare_ctv_fanout_precommitment c js inp = Inr pf"
proof -
  have dec: "hex_decode c (hex_encode c b) = Inr b" for b using hex by (simp add: hex_ok_def)
  note O = canonical_outputs_Inr[OF hex outs]
  let ?sa = "\<Sum>out\<leftarrow>outs. uint (co_amount_sats out)" and ?sf = "\<Sum>out\<leftarrow>outs. uint (co_fee_sats out)"
  have "(\<Sum>out\<leftarrow>outs. uint (co_gross_sats out)) = (\<Sum>out\<leftarrow>outs. uint (co_amount_sats out) + uint (co_fee_sats out))"
    using O(3) by (intro arg_cong[of _ _ sum_list] map_cong) (auto simp: output_ok_def)
  also have "\<dots> = ?sa + ?sf" by (rule sum_list_addf)
  finally have total: "?sa + ?sf \<le> uint QBIT_MAX_MONEY_SATS" using money by simp
  have nn: "0 \<le> ?sa" "0 \<le> ?sf" by (rule sum_list_uint_nonneg)+
  have max: "uint QBIT_MAX_MONEY_SATS < 2 ^ 64" by (rule u64_bound)
  define output_sum where "output_sum = (word_of_int ?sa :: u64)"
  have "?sa < 2 ^ 64" using total nn max by linarith
  then have osum: "uint output_sum = ?sa" unfolding output_sum_def using nn by (intro uint_word_of_int_small) simp_all
  define fee where "fee = (word_of_int ?sf :: u64)"
  have "?sf < 2 ^ 64" using total nn max by linarith
  then have fee: "uint fee = ?sf" unfolding fee_def using nn by (intro uint_word_of_int_small) simp_all
  have "uint output_sum + uint fee < 2 ^ 64" using total max osum fee by linarith
  then obtain covenant where cov: "checked_add output_sum fee = Some covenant" "uint covenant = uint output_sum + uint fee"
    by (rule checked_add_ex)
  have "uint CTV_FANOUT_SEQUENCE_BASE + uint (ki_chunk_index inp) < 2 ^ 32"
    using chunk(2) by (simp add: CTV_FANOUT_SEQUENCE_BASE_def word_less_def)
  then obtain sequence where seq: "expected_fanout_sequence (ki_chunk_index inp) = Inr sequence"
    by (auto simp: expected_fanout_sequence_def checked_add_def)
  define lock where "lock = (ucast (ki_block_height inp) :: u32)"
  define raw :: bytes where "raw = replicate 32 0"
  let ?fb = "fanout_bytes c raw 0 outs (fee = 0) lock sequence None"
  let ?tx = "fanout_parsed c raw 0 outs (fee = 0) lock sequence None"
  have template: "unsigned_fanout_tx_hex c (concat (replicate 32 ''00'')) 0 outs (fanout_has_cpfp_anchor fee) lock sequence =
      Inr (hex_encode c ?fb)"
    unfolding unsigned_fanout_tx_hex_def fanout_has_cpfp_anchor_def
    using zeros by (intro fanout_tx_hex_eq[OF hex p2a O(3)]) (simp_all add: zeros_ok_def raw_def)
  have amounts: "\<forall>out\<in>set outs. co_amount_sats out \<le> QBIT_MAX_MONEY_SATS"
  proof
    fix out assume "out \<in> set outs"
    then have "uint (co_amount_sats out) \<le> ?sa" by (intro member_le_sum_list) auto
    also have "\<dots> \<le> uint QBIT_MAX_MONEY_SATS" using total nn by linarith
    finally show "co_amount_sats out \<le> QBIT_MAX_MONEY_SATS" by (simp add: word_le_def)
  qed
  have parse: "parse_transaction_hex c (hex_encode c ?fb) f = Inr ?tx" for f
    using len by (intro fanout_parses[OF hex O(3) amounts]) (simp_all add: raw_def)
  have "int (length (tx_outputs ?tx)) < 2 ^ 32"
    using len by (simp add: fanout_tx_outs_def)
  then obtain pre where "ctv_preimage c ?tx 0 = Inr pre" by (simp add: ctv_preimage_def)
  then obtain h where h: "default_ctv_hash_for_parsed_tx c ?tx 0 = Inr h" "length h = 32"
    using hash by (simp add: default_ctv_hash_for_parsed_tx_def hash_ok_def)
  define anchor where "anchor = (if fee = 0 then Some (word_of_nat (length outs) :: u32) else None)"
  have "length outs < 2 ^ 32" using len by linarith
  then have anchor: "anchor_vout_for_fee (length outs) fee = Inr anchor"
    unfolding anchor_vout_Inr anchor_def by simp
  have vchunk: "validate_chunk_identity (ki_chunk_index inp) (ki_chunk_count inp) = Inr ()"
    using chunk(1) by (auto simp: validate_chunk_identity_def checks_Inr not_le)
  define p where "p = precommitment_of c inp outs output_sum fee covenant sequence anchor raw h"
  have verified: "verify_precommitment c p = Inr ()"
    unfolding p_def by (rule precommitment_ok[OF hex hash outs osum fee cov(2) seq anchor vchunk digests h(2)])
  obtain b where "cj_precommitment js p = Inr b" using json by blast
  then have canonical: "canonical_precommitment_bytes js p = Inr b" by (simp add: canonical_precommitment_bytes_def)
  obtain leaf where leaf: "commitment_witness_leaf_hex c (sha256_hex c b) = Inr leaf"
    using sha256_hex_decodes[OF hex hash, of b]
    by (auto simp: commitment_witness_leaf_hex_def decode_hash_hex_def decode_array_def decode_field_def)
  have "validate_sha256_hex c s f = Inr ()" if "digest_ok c s" for s f
    using that by (auto simp: validate_sha256_Inr digest_ok_def)
  then have init: "checks
      [reject_if (0xffffffff < ki_block_height inp) ''block height must fit fanout lock_time'',
       reject_if (ki_settlement_mode inp = DirectCoinbase)
         ''direct_coinbase mode cannot include a CTV fanout precommitment'',
       validate_chunk_identity (ki_chunk_index inp) (ki_chunk_count inp),
       validate_sha256_hex c (ki_reward_sha256_hex inp) ''reward_manifest_sha256_hex'',
       validate_sha256_hex c (ki_policy_sha256_hex inp) ''payout_policy_manifest_sha256_hex''] = Inr ()"
    using height mode vchunk digests by (simp add: checks_Inr not_less)
  have amount_sums: "output_amount_sum outs = Inr output_sum" "output_fee_sum outs = Inr fee"
    using osum fee by (simp_all add: output_amount_sum_def output_fee_sum_def checked_sum_Inr)
  let ?program = "p2mr_tapleaf_hash c (ctv_leaf_script h)"
  have plen: "length ?program = 32"
    using hash by (simp add: p2mr_tapleaf_hash_def tagged_hash_def Let_def hash_ok_def)
  have hashes: "default_ctv_hash_hex c (hex_encode c ?fb) (unat QBIT_CTV_INPUT_INDEX) = Inr (hex_encode c h)"
    "ctv_leaf_script_hex c (hex_encode c h) = Inr (hex_encode c (ctv_leaf_script h))"
    "p2mr_program_for_ctv_leaf_hex c (hex_encode c (ctv_leaf_script h)) = Inr (hex_encode c ?program)"
    "decode_program_hex c (hex_encode c ?program) ''p2mr_program_hex'' = Inr ?program"
    using h plen by (simp_all add: default_ctv_hash_hex_def parse QBIT_CTV_INPUT_INDEX_def ctv_leaf_script_hex_def
        decode_hash_hex_def decode_program_hex_def decode_array_def decode_field_def dec
        p2mr_program_for_ctv_leaf_hex_def P2MR_PROGRAM_LEN_def)
  have add: "ok_or (checked_add output_sum fee) e = Inr covenant" for e :: prism_error using cov by simp
  have pfields: "p = \<lparr>pc_schema = CTV_FANOUT_PRECOMMITMENT_SCHEMA,
      pc_block_height = ki_block_height inp, pc_chunk_index = ki_chunk_index inp,
      pc_chunk_count = ki_chunk_count inp, pc_coinbase_value = ki_coinbase_value inp,
      pc_settlement_mode = ki_settlement_mode inp, pc_covenant_value = covenant,
      pc_covenant_script_hex = hex_encode c (p2mr_script_pubkey ?program), pc_template_hex = hex_encode c ?fb,
      pc_input_index = QBIT_CTV_INPUT_INDEX, pc_sequence = sequence,
      pc_lock_time = lock, pc_output_sum = output_sum, pc_fee_sats = fee,
      pc_anchor_vout = anchor, pc_ctv_hash_hex = hex_encode c h, pc_leaf_script_hex = hex_encode c (ctv_leaf_script h),
      pc_program_hex = hex_encode c ?program, pc_control_block_hex = hex_encode c [QBIT_P2MR_CONTROL_BLOCK],
      pc_reward_sha256_hex = to_ascii_lowercase (ki_reward_sha256_hex inp),
      pc_policy_sha256_hex = to_ascii_lowercase (ki_policy_sha256_hex inp), pc_outputs = outs\<rparr>"
    by (simp add: p_def precommitment_of_def Let_def lock_def)
  show ?thesis
    unfolding prepare_ctv_fanout_precommitment_def init rbind.simps outs amount_sums add seq template[unfolded lock_def]
      hashes[unfolded lock_def] anchor Let_def pfields[unfolded lock_def, symmetric] verified canonical leaf
    by blast
qed

end
