(* ===== verification/Ctv_Sound.thy ===== *)
theory Ctv_Sound
  imports Ctv_Final
begin

text \<open>
  What verification establishes: the outputs and sums of a fanout that verifies, the fold over
  a set of manifests, and the fields of the preimage behind a template hash.
\<close>

section \<open>Verified manifests\<close>

lemma fanout_rows_outputs:
  assumes "fanout_rows c 0 0 0 (zip xs outs) = Inr (A, F)" and "length outs \<le> length xs"
  shows "take (length outs) xs =
      map (\<lambda>out. \<lparr>to_amount_sats = co_amount_sats out, to_script_pubkey = p2mr_script_pubkey (program_of c out)\<rparr>) outs"
    and "uint A = (\<Sum>out\<leftarrow>outs. uint (co_amount_sats out))" and "uint F = (\<Sum>out\<leftarrow>outs. uint (co_fee_sats out))"
proof -
  let ?g = "\<lambda>out. \<lparr>to_amount_sats = co_amount_sats out, to_script_pubkey = p2mr_script_pubkey (program_of c out)\<rparr>"
  note R = assms(1)[unfolded fanout_rows_Inr]
  have row: "xs ! j = ?g (outs ! j)" if "j < length outs" for j
  proof -
    have "fanout_row c j (xs ! j) (outs ! j) = Inr ()" using R that assms(2) by simp
    then show ?thesis
      by (cases "xs ! j") (auto simp: fanout_row_Inr program_of_def)
  qed
  show eq: "take (length outs) xs = map ?g outs"
    using row assms(2) by (intro nth_equalityI) simp_all
  have z': "zip xs outs = map (\<lambda>out. (?g out, out)) outs"
    using row assms(2) by (intro nth_equalityI) simp_all
  show "uint A = (\<Sum>out\<leftarrow>outs. uint (co_amount_sats out))" "uint F = (\<Sum>out\<leftarrow>outs. uint (co_fee_sats out))"
    using R unfolding z' by (simp_all add: comp_def)
qed

lemma verified_anchor:
  assumes "verify_precommitment c p = Inr ()"
  shows "pc_anchor_vout p \<noteq> None \<longleftrightarrow> pc_fee_sats p = 0"
  using assms by (auto simp: verify_precommitment_def checks_Inr check_anchor_def split: option.splits if_splits)

lemma outputs_of_fanout:
  assumes "p2a_ok c" and "fanout_outputs_ok c m fanout = Inr ()" and "verify_precommitment c (cm_precommitment m) = Inr ()"
  defines "p \<equiv> cm_precommitment m"
  shows "tx_outputs fanout = fanout_tx_outs c (pc_outputs p) (pc_fee_sats p = 0)"
    and "(\<Sum>out\<leftarrow>pc_outputs p. uint (co_amount_sats out)) + (\<Sum>out\<leftarrow>pc_outputs p. uint (co_fee_sats out)) =
      uint (cm_covenant_value m)"
proof -
  let ?n = "length (pc_outputs p)"
  from assms(2) obtain A F funded where
    len: "length (tx_outputs fanout) = (if pc_anchor_vout p = None then ?n else ?n + 1)" and
    rows: "fanout_rows c 0 0 0 (zip (tx_outputs fanout) (pc_outputs p)) = Inr (A, F)" and
    anchor: "\<And>v. pc_anchor_vout p = Some v \<Longrightarrow> ensure_fee_anchor_output c (tx_outputs fanout ! ?n) v ?n = Inr ()" and
    funded: "checked_add A F = Some funded" "funded = cm_covenant_value m"
    by (auto simp: fanout_outputs_ok_def Let_def checks_Inr p_def split: if_splits option.splits)
  have le: "?n \<le> length (tx_outputs fanout)" using len by simp
  note R = fanout_rows_outputs[OF rows le]
  have fee: "pc_anchor_vout p \<noteq> None \<longleftrightarrow> pc_fee_sats p = 0" using verified_anchor assms(3) unfolding p_def .
  show "tx_outputs fanout = fanout_tx_outs c (pc_outputs p) (pc_fee_sats p = 0)"
  proof (cases "pc_anchor_vout p")
    case None
    then show ?thesis using R(1) len fee by (simp add: fanout_tx_outs_def)
  next
    case (Some v)
    have "to_amount_sats (tx_outputs fanout ! ?n) = 0" "to_script_pubkey (tx_outputs fanout ! ?n) = [0x51, 0x02, 0x4e, 0x73]"
      using anchor[OF Some] assms(1)
      by (auto simp: ensure_fee_anchor_output_def checks_Inr p2a_anchor_script_pubkey_def p2a_ok_def CTV_FANOUT_ANCHOR_VALUE_SATS_def)
    then have "tx_outputs fanout ! ?n = \<lparr>to_amount_sats = 0, to_script_pubkey = [0x51, 0x02, 0x4e, 0x73]\<rparr>" by simp
    moreover have "tx_outputs fanout = take ?n (tx_outputs fanout) @ [tx_outputs fanout ! ?n]"
      using take_Suc_conv_app_nth[of ?n "tx_outputs fanout"] len Some by simp
    ultimately show ?thesis using R(1) fee Some by (simp add: fanout_tx_outs_def)
  qed
  show "(\<Sum>out\<leftarrow>pc_outputs p. uint (co_amount_sats out)) + (\<Sum>out\<leftarrow>pc_outputs p. uint (co_fee_sats out)) =
      uint (cm_covenant_value m)"
    using funded R(2,3) by (simp add: checked_add_Some)
qed

section \<open>Manifest sets\<close>

definition scan_values :: "set_scan \<Rightarrow> int \<times> int \<times> int" where
  "scan_values s = (uint (ss_output_sum s), uint (ss_fee_sats s), uint (ss_covenant_value s))"

lemma scan_manifest_Inr:
  assumes "scan_manifest c js ms s (i, m) = Inr t"
  shows "verify_ctv_fanout_manifest_structure c js m = Inr ()" and "cm_parent_txid m = ms_parent_txid ms"
    and "pc_chunk_index (cm_precommitment m) = word_of_nat i" and "pc_chunk_count (cm_precommitment m) = ms_fanout_count ms"
    and "pc_reward_sha256_hex (cm_precommitment m) = ms_reward_sha256_hex ms \<and>
      pc_policy_sha256_hex (cm_precommitment m) = ms_policy_sha256_hex ms"
    and "cm_parent_vout m \<notin> ss_vouts s \<and> pc_ctv_hash_hex (cm_precommitment m) \<notin> ss_hashes s \<and>
      cm_fanout_txid m \<notin> ss_txids s \<and> cm_witness_leaf_hex m \<notin> ss_leaves s"
    and "ss_vouts t = insert (cm_parent_vout m) (ss_vouts s) \<and>
      ss_hashes t = insert (pc_ctv_hash_hex (cm_precommitment m)) (ss_hashes s) \<and>
      ss_txids t = insert (cm_fanout_txid m) (ss_txids s) \<and> ss_leaves t = insert (cm_witness_leaf_hex m) (ss_leaves s)"
    and "uint (ss_output_sum t) = uint (ss_output_sum s) + uint (pc_output_sum (cm_precommitment m)) \<and>
      uint (ss_fee_sats t) = uint (ss_fee_sats s) + uint (pc_fee_sats (cm_precommitment m)) \<and>
      uint (ss_covenant_value t) = uint (ss_covenant_value s) + uint (cm_covenant_value m)"
proof -
  from assms obtain a f v where
    ch: "checks
      [verify_ctv_fanout_manifest_structure c js m,
       reject_if (pc_chunk_index (cm_precommitment m) \<noteq> word_of_nat i)
         ''fanout manifest set chunks must be contiguous and canonical'',
       reject_if (pc_chunk_count (cm_precommitment m) \<noteq> ms_fanout_count ms) ''fanout chunk count mismatch'',
       reject_if (pc_block_height (cm_precommitment m) \<noteq> ms_block_height ms) ''fanout set block height mismatch'',
       reject_if (pc_coinbase_value (cm_precommitment m) \<noteq> ms_coinbase_value ms) ''fanout set coinbase value mismatch'',
       reject_if (pc_settlement_mode (cm_precommitment m) \<noteq> ms_settlement_mode ms) ''fanout set settlement mode mismatch'',
       reject_if (pc_reward_sha256_hex (cm_precommitment m) \<noteq> ms_reward_sha256_hex ms) ''fanout set reward manifest mismatch'',
       reject_if (pc_policy_sha256_hex (cm_precommitment m) \<noteq> ms_policy_sha256_hex ms) ''fanout set payout policy manifest mismatch'',
       reject_if (cm_parent_txid m \<noteq> ms_parent_txid ms) ''fanout set parent coinbase mismatch'',
       reject_if (cm_parent_vout m \<in> ss_vouts s) ''duplicate fanout parent coinbase vout'',
       reject_if (pc_ctv_hash_hex (cm_precommitment m) \<in> ss_hashes s) ''duplicate fanout CTV hash'',
       reject_if (cm_fanout_txid m \<in> ss_txids s) ''duplicate fanout txid'',
       reject_if (cm_witness_leaf_hex m \<in> ss_leaves s) ''duplicate fanout commitment witness leaf''] = Inr ()" and
    sums: "checked_add (ss_output_sum s) (pc_output_sum (cm_precommitment m)) = Some a"
      "checked_add (ss_fee_sats s) (pc_fee_sats (cm_precommitment m)) = Some f"
      "checked_add (ss_covenant_value s) (cm_covenant_value m) = Some v" and
    t: "t = \<lparr>ss_vouts = insert (cm_parent_vout m) (ss_vouts s),
         ss_hashes = insert (pc_ctv_hash_hex (cm_precommitment m)) (ss_hashes s),
         ss_txids = insert (cm_fanout_txid m) (ss_txids s), ss_leaves = insert (cm_witness_leaf_hex m) (ss_leaves s),
         ss_output_sum = a, ss_fee_sats = f, ss_covenant_value = v\<rparr>"
    by (auto simp: scan_manifest_def Let_def)
  show "verify_ctv_fanout_manifest_structure c js m = Inr ()" "cm_parent_txid m = ms_parent_txid ms"
    "pc_chunk_index (cm_precommitment m) = word_of_nat i" "pc_chunk_count (cm_precommitment m) = ms_fanout_count ms"
    "pc_reward_sha256_hex (cm_precommitment m) = ms_reward_sha256_hex ms \<and>
      pc_policy_sha256_hex (cm_precommitment m) = ms_policy_sha256_hex ms"
    "cm_parent_vout m \<notin> ss_vouts s \<and> pc_ctv_hash_hex (cm_precommitment m) \<notin> ss_hashes s \<and>
      cm_fanout_txid m \<notin> ss_txids s \<and> cm_witness_leaf_hex m \<notin> ss_leaves s"
    using ch by (simp_all add: checks_Inr)
  show "ss_vouts t = insert (cm_parent_vout m) (ss_vouts s) \<and>
      ss_hashes t = insert (pc_ctv_hash_hex (cm_precommitment m)) (ss_hashes s) \<and>
      ss_txids t = insert (cm_fanout_txid m) (ss_txids s) \<and> ss_leaves t = insert (cm_witness_leaf_hex m) (ss_leaves s)"
    by (simp add: t)
  show "uint (ss_output_sum t) = uint (ss_output_sum s) + uint (pc_output_sum (cm_precommitment m)) \<and>
      uint (ss_fee_sats t) = uint (ss_fee_sats s) + uint (pc_fee_sats (cm_precommitment m)) \<and>
      uint (ss_covenant_value t) = uint (ss_covenant_value s) + uint (cm_covenant_value m)"
    using sums by (simp add: t checked_add_Some)
qed

lemma scan_Inr:
  assumes "try_fold (scan_manifest c js ms) s (enumerate n xs) = Inr t"
  shows "list_all (\<lambda>m. verify_ctv_fanout_manifest_structure c js m = Inr () \<and> cm_parent_txid m = ms_parent_txid ms \<and>
      pc_chunk_count (cm_precommitment m) = ms_fanout_count ms \<and>
      pc_reward_sha256_hex (cm_precommitment m) = ms_reward_sha256_hex ms \<and>
      pc_policy_sha256_hex (cm_precommitment m) = ms_policy_sha256_hex ms) xs \<and>
    map (\<lambda>m. pc_chunk_index (cm_precommitment m)) xs = map word_of_nat [n..<n + length xs] \<and>
    distinct (map cm_parent_vout xs) \<and> cm_parent_vout ` set xs \<inter> ss_vouts s = {} \<and>
    distinct (map (\<lambda>m. pc_ctv_hash_hex (cm_precommitment m)) xs) \<and>
    (\<lambda>m. pc_ctv_hash_hex (cm_precommitment m)) ` set xs \<inter> ss_hashes s = {} \<and>
    distinct (map cm_fanout_txid xs) \<and> cm_fanout_txid ` set xs \<inter> ss_txids s = {} \<and>
    distinct (map cm_witness_leaf_hex xs) \<and> cm_witness_leaf_hex ` set xs \<inter> ss_leaves s = {} \<and>
    uint (ss_output_sum t) = uint (ss_output_sum s) + (\<Sum>m\<leftarrow>xs. uint (pc_output_sum (cm_precommitment m))) \<and>
    uint (ss_fee_sats t) = uint (ss_fee_sats s) + (\<Sum>m\<leftarrow>xs. uint (pc_fee_sats (cm_precommitment m))) \<and>
    uint (ss_covenant_value t) = uint (ss_covenant_value s) + (\<Sum>m\<leftarrow>xs. uint (cm_covenant_value m))"
  using assms
proof (induction xs arbitrary: s n)
  case Nil
  then show ?case by simp
next
  case (Cons m xs)
  from Cons.prems obtain s' where s': "scan_manifest c js ms s (n, m) = Inr s'"
    and rest: "try_fold (scan_manifest c js ms) s' (enumerate (Suc n) xs) = Inr t" by auto
  note M = scan_manifest_Inr[OF s']
  have "[n..<n + length (m # xs)] = n # [Suc n..<Suc n + length xs]" 
    using upt_conv_Cons[of n "n + length (m # xs)"] by simp
  then show ?case using Cons.IH[OF rest] M by simp
qed

section \<open>What the template hash covers\<close>

text \<open>The byte strings hashed for a template hash.\<close>

definition hashed_parts :: "crypto \<Rightarrow> parsed_transaction \<Rightarrow> nat \<Rightarrow> bytes set" where
  "hashed_parts c tx i =
    {concat (map (\<lambda>i. le_bytes 4 (uint (ti_sequence i))) (tx_inputs tx)), concat (map tx_out_bytes (tx_outputs tx)),
     projr (ctv_preimage c tx i)}"

lemma sequences_inj:
  fixes xs ys :: "u32 list"
  assumes "length xs = length ys" and "concat (map (\<lambda>x. le_bytes 4 (uint x)) xs) = concat (map (\<lambda>x. le_bytes 4 (uint x)) ys)"
  shows "xs = ys"
  using assms
proof (induction xs ys rule: list_induct2)
  case (Cons x xs y ys)
  then have "le_bytes 4 (uint x) = le_bytes 4 (uint y)" "xs = ys" by simp_all
  moreover have "uint x < 256 ^ 4" "uint y < 256 ^ 4" using uint_lt2p[of x] uint_lt2p[of y] by simp_all
  ultimately show ?case by (simp add: le_bytes_inj word_uint_eq_iff)
qed simp

text \<open>A preimage, cut into its fields.\<close>

definition preimage_form :: "crypto \<Rightarrow> parsed_transaction \<Rightarrow> nat \<Rightarrow> bytes \<Rightarrow> bytes \<Rightarrow> bool" where
  "preimage_form c tx i scripts pre \<longleftrightarrow> length scripts \<in> {0, 32} \<and>
    length (tx_inputs tx) < 2 ^ 32 \<and> length (tx_outputs tx) < 2 ^ 32 \<and> i < 2 ^ 32 \<and>
    pre = le_bytes 4 (uint (tx_version tx)) @ le_bytes 4 (uint (tx_lock_time tx)) @ scripts @
      le_bytes 4 (int (length (tx_inputs tx))) @
      sha256 c (concat (map (\<lambda>i. le_bytes 4 (uint (ti_sequence i))) (tx_inputs tx))) @
      le_bytes 4 (int (length (tx_outputs tx))) @ sha256 c (concat (map tx_out_bytes (tx_outputs tx))) @ le_bytes 4 (int i)"

lemma int_less_32: "int n < 2 ^ 32 \<longleftrightarrow> n < 2 ^ 32"
  by (metis of_nat_less_iff of_nat_numeral of_nat_power)

lemma ctv_preimage_Inr:
  assumes "hash_ok c" and "ctv_preimage c tx i = Inr pre"
  shows "\<exists>scripts. preimage_form c tx i scripts pre"
proof -
  define scripts where "scripts = (if \<exists>i\<in>set (tx_inputs tx). ti_script_sig i \<noteq> []
         then sha256 c (concat (map (\<lambda>i. var_bytes (ti_script_sig i)) (tx_inputs tx))) else [])"
  have "length scripts \<in> {0, 32}" using assms(1) by (simp add: scripts_def hash_ok_def)
  moreover have "int (length (tx_inputs tx)) < 2 ^ 32" "int (length (tx_outputs tx)) < 2 ^ 32" "int i < 2 ^ 32"
    "pre = le_bytes 4 (uint (tx_version tx)) @ le_bytes 4 (uint (tx_lock_time tx)) @ scripts @
      le_bytes 4 (int (length (tx_inputs tx))) @
      sha256 c (concat (map (\<lambda>i. le_bytes 4 (uint (ti_sequence i))) (tx_inputs tx))) @
      le_bytes 4 (int (length (tx_outputs tx))) @ sha256 c (concat (map tx_out_bytes (tx_outputs tx))) @ le_bytes 4 (int i)"
    using assms(2) unfolding ctv_preimage_def Let_def scripts_def[symmetric] rbind_Inr if_Inl_Inr by auto
  ultimately show ?thesis unfolding preimage_form_def int_less_32 by blast
qed

lemma le_bytes_4_nat: "m < 2 ^ 32 \<Longrightarrow> n < 2 ^ 32 \<Longrightarrow> le_bytes 4 (int m) = le_bytes 4 (int n) \<Longrightarrow> m = n"
proof -
  assume mn: "m < 2 ^ 32" "n < 2 ^ 32" and eq: "le_bytes 4 (int m) = le_bytes 4 (int n)"
  have "int m < 256 ^ 4" "int n < 256 ^ 4" using mn[folded int_less_32] by simp_all
  then show "m = n" using eq by (simp add: le_bytes_inj)
qed

lemma le_bytes_4_u32: "le_bytes 4 (uint x) = le_bytes 4 (uint y) \<Longrightarrow> x = y" for x y :: u32
  using sequences_inj[of "[x]" "[y]"] by simp

lemma preimage_parts:
  assumes "hash_ok c" and "preimage_form c tx i s pre" and "preimage_form c tx' i' s' pre"
  shows "tx_version tx = tx_version tx' \<and> tx_lock_time tx = tx_lock_time tx' \<and>
    length (tx_inputs tx) = length (tx_inputs tx') \<and>
    sha256 c (concat (map (\<lambda>i. le_bytes 4 (uint (ti_sequence i))) (tx_inputs tx))) =
      sha256 c (concat (map (\<lambda>i. le_bytes 4 (uint (ti_sequence i))) (tx_inputs tx'))) \<and>
    length (tx_outputs tx) = length (tx_outputs tx') \<and>
    sha256 c (concat (map tx_out_bytes (tx_outputs tx))) = sha256 c (concat (map tx_out_bytes (tx_outputs tx'))) \<and> i = i'"
proof -
  note F = assms(2)[unfolded preimage_form_def] and F' = assms(3)[unfolded preimage_form_def]
  have len: "length (sha256 c b) = 32" for b using assms(1) by (simp add: hash_ok_def)
  have "length pre = 84 + length s" "length pre = 84 + length s'" using F F' len by auto
  then have sl: "length s = length s'" by simp
  have "le_bytes 4 (uint (tx_version tx)) @ le_bytes 4 (uint (tx_lock_time tx)) @ s @
      le_bytes 4 (int (length (tx_inputs tx))) @
      sha256 c (concat (map (\<lambda>i. le_bytes 4 (uint (ti_sequence i))) (tx_inputs tx))) @
      le_bytes 4 (int (length (tx_outputs tx))) @ sha256 c (concat (map tx_out_bytes (tx_outputs tx))) @ le_bytes 4 (int i) =
    le_bytes 4 (uint (tx_version tx')) @ le_bytes 4 (uint (tx_lock_time tx')) @ s' @
      le_bytes 4 (int (length (tx_inputs tx'))) @
      sha256 c (concat (map (\<lambda>i. le_bytes 4 (uint (ti_sequence i))) (tx_inputs tx'))) @
      le_bytes 4 (int (length (tx_outputs tx'))) @ sha256 c (concat (map tx_out_bytes (tx_outputs tx'))) @ le_bytes 4 (int i')"
    using F F' by metis
  then have eqs: "le_bytes 4 (uint (tx_version tx)) = le_bytes 4 (uint (tx_version tx'))"
    "le_bytes 4 (uint (tx_lock_time tx)) = le_bytes 4 (uint (tx_lock_time tx'))"
    "le_bytes 4 (int (length (tx_inputs tx))) = le_bytes 4 (int (length (tx_inputs tx')))"
    "sha256 c (concat (map (\<lambda>i. le_bytes 4 (uint (ti_sequence i))) (tx_inputs tx))) =
      sha256 c (concat (map (\<lambda>i. le_bytes 4 (uint (ti_sequence i))) (tx_inputs tx')))"
    "le_bytes 4 (int (length (tx_outputs tx))) = le_bytes 4 (int (length (tx_outputs tx')))"
    "sha256 c (concat (map tx_out_bytes (tx_outputs tx))) = sha256 c (concat (map tx_out_bytes (tx_outputs tx')))"
    "le_bytes 4 (int i) = le_bytes 4 (int i')"
    by (simp_all add: sl len)
  have bounds: "length (tx_inputs tx) < 2 ^ 32" "length (tx_inputs tx') < 2 ^ 32" "length (tx_outputs tx) < 2 ^ 32"
    "length (tx_outputs tx') < 2 ^ 32" "i < 2 ^ 32" "i' < 2 ^ 32" using F F' by blast+
  show ?thesis
    using le_bytes_4_u32[OF eqs(1)] le_bytes_4_u32[OF eqs(2)] le_bytes_4_nat[OF bounds(1,2) eqs(3)]
      le_bytes_4_nat[OF bounds(3,4) eqs(5)] le_bytes_4_nat[OF bounds(5,6) eqs(7)] eqs(4,6) by blast
qed

end
