(* ===== verification/Ctv_Properties.thy ===== *)
theory Ctv_Properties
  imports Ctv_Prepare Ctv_Sound
begin

text \<open>
  What CTV fanouts guarantee: a prepared fanout can always be finalized against the coinbase
  that pays its covenant, a manifest that verifies describes a transaction that spends the
  covenant to exactly the payouts, a set of them adds up, and the template hash commits to
  the transaction.
\<close>

section \<open>A sample fanout\<close>

definition sample_fanout :: ctv_precommitment_input where
  "sample_fanout = \<lparr>ki_block_height = 700, ki_chunk_index = 0, ki_chunk_count = 1, ki_coinbase_value = 5000,
    ki_settlement_mode = CtvFanout, ki_reward_sha256_hex = model_hex_encode (replicate 32 1),
    ki_policy_sha256_hex = model_hex_encode (replicate 32 2),
    ki_payouts = [\<lparr>cp_recipient_id = ''alice'', cp_order_key = ''0'', cp_program = model_hex_encode (replicate 32 7),
      cp_gross_sats = 1000, cp_fee_sats = 100, cp_amount_sats = 900\<rparr>]\<rparr>"

definition sample_output :: ctv_output where
  "sample_output = \<lparr>co_vout = 0, co_recipient_id = ''alice'', co_order_key = ''0'',
    co_program = model_hex_encode (replicate 32 7), co_script_hex = model_hex_encode (p2mr_script_pubkey (replicate 32 7)),
    co_gross_sats = 1000, co_fee_sats = 100, co_amount_sats = 900\<rparr>"

definition sample_json :: ctv_json where
  "sample_json = \<lparr>cj_precommitment = \<lambda>_. Inr [], cj_manifest_set = \<lambda>_. Inr []\<rparr>"

lemma model_hex [simp]:
  "hex_decode model_crypto (model_hex_encode b) = Inr b" "hex_encode model_crypto b = model_hex_encode b"
  using model_hex_ok by (simp_all add: hex_ok_def model_crypto_def)

lemma model_p2a: "p2a_ok model_crypto" "zeros_ok model_crypto"
  by (code_simp, code_simp)

lemma sample_digests: "digest_ok model_crypto (ki_reward_sha256_hex sample_fanout)"
  "digest_ok model_crypto (ki_policy_sha256_hex sample_fanout)"
proof -
  have "to_ascii_lowercase (model_hex_encode (replicate 32 1)) = model_hex_encode (replicate 32 1)"
    "to_ascii_lowercase (model_hex_encode (replicate 32 2)) = model_hex_encode (replicate 32 2)" by code_simp+
  then show "digest_ok model_crypto (ki_reward_sha256_hex sample_fanout)"
    "digest_ok model_crypto (ki_policy_sha256_hex sample_fanout)"
    by (auto simp: digest_ok_def sample_fanout_def)
qed

lemma sample_outputs: "canonical_fanout_outputs model_crypto (ki_payouts sample_fanout) = Inr [sample_output]"
  by (simp add: canonical_fanout_outputs_def sample_fanout_def canonical_payout_def canonical_p2mr_program_hex_def
      decode_program_hex_def decode_array_def decode_field_def P2MR_PROGRAM_LEN_def fanout_output_def
      checked_add_def sample_output_def)

lemma sample_prepared: "\<exists>pf. prepare_ctv_fanout_precommitment model_crypto sample_json sample_fanout = Inr pf"
  by (rule prepare_total[OF model_hex_ok model_hash_ok model_p2a _ _ _ _ _ sample_digests sample_outputs])
    (simp_all add: sample_json_def sample_fanout_def sample_output_def QBIT_MAX_MONEY_SATS_def)

definition sample_parent :: "u64 \<Rightarrow> bytes \<Rightarrow> parsed_transaction" where
  "sample_parent value script = parsed_of model_crypto 2 False [(replicate 32 0, 0xffffffff, [], 0)]
    [\<lparr>to_amount_sats = value, to_script_pubkey = script\<rparr>] [] 0"

definition sample_parent_bytes :: "u64 \<Rightarrow> bytes \<Rightarrow> bytes" where
  "sample_parent_bytes value script = tx_bytes 1 2 False [(replicate 32 0, 0xffffffff, [], 0)]
    [\<lparr>to_amount_sats = value, to_script_pubkey = script\<rparr>] [] 0"

lemma sample_parent_ok:
  assumes "value \<le> QBIT_MAX_MONEY_SATS" and "length script < 2 ^ 64"
  shows "parse_transaction_hex model_crypto (model_hex_encode (sample_parent_bytes value script)) f =
      Inr (sample_parent value script)"
    and "ensure_coinbase_shape model_crypto (sample_parent value script) = Inr ()"
proof -
  have ok: "parts_ok False [(replicate 32 0, 0xffffffff, [], 0)] [\<lparr>to_amount_sats = value, to_script_pubkey = script\<rparr>] []"
    using assms by (simp add: parts_ok_def raw_in_valid_def tx_out_valid_def money_ok_def stacks_ok_def)
  show "parse_transaction_hex model_crypto (model_hex_encode (sample_parent_bytes value script)) f =
      Inr (sample_parent value script)"
    using parse_transaction_complete[OF model_hex_ok ok, of 1 f 2 0]
    by (simp add: parse_transaction_hex_def sample_parent_bytes_def sample_parent_def)
  have "model_hex_encode (replicate 32 0) = concat (replicate 32 ''00'')" by code_simp
  then show "ensure_coinbase_shape model_crypto (sample_parent value script) = Inr ()"
    by (simp add: ensure_coinbase_shape_def sample_parent_def parsed_of_def display_in_def COINBASE_PREVOUT_VOUT_def)
qed

lemma sample_mined:
  obtains pf parent_hex parent where
    "prepare_ctv_fanout_precommitment model_crypto sample_json sample_fanout = Inr pf"
    "parse_transaction_hex model_crypto parent_hex ''parent_coinbase_tx_hex'' = Inr parent"
    "ensure_coinbase_shape model_crypto parent = Inr ()"
    "pays_covenant model_crypto (pf_precommitment pf) parent 0" "uint (pc_covenant_value (pf_precommitment pf)) = 1000"
proof -
  obtain pf where pf: "prepare_ctv_fanout_precommitment model_crypto sample_json sample_fanout = Inr pf"
    using sample_prepared ..
  obtain outs output_sum fee covenant sequence anchor raw h canonical where
    P: "prepared_from model_crypto sample_fanout outs output_sum fee covenant sequence anchor raw h"
    and p: "pf_precommitment pf = precommitment_of model_crypto sample_fanout outs output_sum fee covenant sequence anchor raw h"
    by (rule prepare_parts[OF model_hex_ok model_hash_ok model_p2a(1) pf]) (rule that)
  have "outs = [sample_output]" using P sample_outputs by (simp add: prepared_from_def)
  then have cov: "uint covenant = 1000" using P by (simp add: prepared_from_def sample_output_def)
  let ?script = "p2mr_script_pubkey (p2mr_tapleaf_hash model_crypto (ctv_leaf_script h))"
  have "length (p2mr_tapleaf_hash model_crypto s) = 32" for s
    using model_hash_ok by (simp add: p2mr_tapleaf_hash_def tagged_hash_def Let_def hash_ok_def)
  then have ok: "covenant \<le> QBIT_MAX_MONEY_SATS" "length ?script < 2 ^ 64"
    using cov by (simp_all add: word_le_def QBIT_MAX_MONEY_SATS_def length_p2mr_script)
  have "pays_covenant model_crypto (pf_precommitment pf) (sample_parent covenant ?script) 0"
    by (simp add: pays_covenant_def p sample_parent_def parsed_of_def)
  from that[OF pf sample_parent_ok[OF ok] this] show thesis using cov p by simp
qed

lemma sample_manifest:
  obtains m where "verify_ctv_fanout_manifest_structure model_crypto sample_json m = Inr ()"
    "uint (pc_covenant_value (cm_precommitment m)) = 1000" "pc_chunk_index (cm_precommitment m) = 0"
    "pc_chunk_count (cm_precommitment m) = 1"
proof -
  obtain pf parent_hex parent where S: "prepare_ctv_fanout_precommitment model_crypto sample_json sample_fanout = Inr pf"
    "parse_transaction_hex model_crypto parent_hex ''parent_coinbase_tx_hex'' = Inr parent"
    "ensure_coinbase_shape model_crypto parent = Inr ()"
    "pays_covenant model_crypto (pf_precommitment pf) parent 0" "uint (pc_covenant_value (pf_precommitment pf)) = 1000"
    by (rule sample_mined)
  have len: "length (ki_payouts sample_fanout) < 2 ^ 62" by (simp add: sample_fanout_def)
  obtain m where m: "cm_precommitment m = pf_precommitment pf"
    "verify_ctv_fanout_manifest_structure model_crypto sample_json m = Inr ()"
    using prepared_manifest[OF model_hex_ok model_hash_ok model_p2a(1) S(1) len S(2-4)] by blast
  have "pc_chunk_index (pf_precommitment pf) = 0" "pc_chunk_count (pf_precommitment pf) = 1"
    using S(1) by (auto elim!: prepare_parts[OF model_hex_ok model_hash_ok model_p2a(1)] simp: sample_fanout_def)
  then show thesis using that[OF m(2)] S(5) m(1) by simp
qed

text \<open>The set of one manifest.\<close>

definition set_of_one :: "ctv_manifest \<Rightarrow> ctv_manifest_set" where
  "set_of_one m = (let p = cm_precommitment m in
    \<lparr>ms_schema = CTV_FANOUT_MANIFEST_SET_SCHEMA, ms_block_height = pc_block_height p,
     ms_coinbase_value = pc_coinbase_value p, ms_settlement_mode = pc_settlement_mode p,
     ms_reward_sha256_hex = pc_reward_sha256_hex p, ms_policy_sha256_hex = pc_policy_sha256_hex p,
     ms_parent_txid = cm_parent_txid m, ms_fanout_count = 1, ms_output_sum = pc_output_sum p,
     ms_fee_sats = pc_fee_sats p, ms_covenant_value = cm_covenant_value m, ms_manifests = [m]\<rparr>)"

lemma set_of_one_verifies:
  assumes v: "verify_ctv_fanout_manifest_structure c js m = Inr ()"
    and chunk: "pc_chunk_index (cm_precommitment m) = 0" "pc_chunk_count (cm_precommitment m) = 1"
  shows "verify_ctv_fanout_manifest_set c js (set_of_one m) = Inr ()"
proof -
  let ?p = "cm_precommitment m"
  from v have fields: "manifest_fields_ok c js m = Inr ()" and outs: "\<exists>fanout. fanout_outputs_ok c m fanout = Inr ()"
    by (auto simp: verify_ctv_fanout_manifest_structure_def)
  then have "verify_precommitment c ?p = Inr ()" and F: "pc_settlement_mode ?p \<noteq> DirectCoinbase"
    "\<exists>b. hex_decode c (cm_parent_txid m) = Inr b \<and> length b = 32 \<and> cm_parent_txid m = hex_encode c b"
    by (auto simp: manifest_fields_ok_def Let_def checks_Inr validate_canonical_sha256_Inr)
  then have sha: "validate_canonical_sha256_hex c (pc_reward_sha256_hex ?p) f = Inr ()"
    "validate_canonical_sha256_hex c (pc_policy_sha256_hex ?p) f = Inr ()" for f
    by (auto simp: verify_precommitment_def checks_Inr validate_canonical_sha256_Inr)
  have funded: "checked_add (pc_output_sum ?p) (pc_fee_sats ?p) = Some (cm_covenant_value m)"
    using outs by (auto simp: fanout_outputs_ok_def Let_def checks_Inr)
  have zero: "checked_add 0 x = Some x" for x :: u64 using u64_bound[of x] by (simp add: checked_add_def)
  show ?thesis
    using v chunk sha F funded
    by (simp add: verify_ctv_fanout_manifest_set_def set_of_one_def Let_def checks_Inr scan_manifest_def
        empty_scan_def zero validate_canonical_sha256_Inr)
qed

section \<open>Properties\<close>

text \<open>
  C11: A verified fanout manifest is sound: its parent has coinbase shape and pays the covenant,
  whose script is the P2MR program of the leaf that commits to the fanout; the fanout spends
  exactly that output, pays exactly the payouts, and a zero-value anchor when it carries no
  fee; payouts and fees add up to the covenant, so no satoshi is lost or gained.
\<close>

theorem fanout_manifest_sound:
  assumes "p2a_ok c" and "verify_ctv_fanout_manifest_structure c js m = Inr ()"
  shows "\<exists>parent fanout h.
    parse_transaction_hex c (cm_parent_hex m) ''manifest parent_coinbase_tx_hex'' = Inr parent \<and>
    parse_transaction_hex c (cm_fanout_hex m) ''manifest fanout_tx_hex'' = Inr fanout \<and>
    txid_hex c parent = cm_parent_txid m \<and> ensure_coinbase_shape c parent = Inr () \<and>
    pays_covenant c (cm_precommitment m) parent (cm_parent_vout m) \<and>
    tx_inputs fanout = [\<lparr>ti_prev_txid_hex = cm_parent_txid m, ti_prev_vout = cm_parent_vout m,
      ti_script_sig = [], ti_sequence = pc_sequence (cm_precommitment m)\<rparr>] \<and>
    tx_outputs fanout = fanout_tx_outs c (pc_outputs (cm_precommitment m)) (pc_fee_sats (cm_precommitment m) = 0) \<and>
    (\<Sum>out\<leftarrow>pc_outputs (cm_precommitment m). uint (co_amount_sats out)) +
      (\<Sum>out\<leftarrow>pc_outputs (cm_precommitment m). uint (co_fee_sats out)) =
      uint (pc_covenant_value (cm_precommitment m)) \<and>
    default_ctv_hash_for_parsed_tx c fanout 0 = Inr h \<and>
    pc_covenant_script_hex (cm_precommitment m) =
      hex_encode c (p2mr_script_pubkey (p2mr_tapleaf_hash c (ctv_leaf_script h))) \<and>
    verify_fanout_witness fanout (ctv_leaf_script h) = Inr ()"
proof -
  let ?p = "cm_precommitment m"
  from assms(2) obtain template fanout where
    fields: "manifest_fields_ok c js m = Inr ()" and parent_ok: "manifest_parent_ok c m = Inr ()" and
    fanout: "parse_transaction_hex c (cm_fanout_hex m) ''manifest fanout_tx_hex'' = Inr fanout" and
    input: "fanout_input_ok c m fanout = Inr ()" and cov: "covenant_ok c m template fanout = Inr ()" and
    outs: "fanout_outputs_ok c m fanout = Inr ()"
    by (auto simp: verify_ctv_fanout_manifest_structure_def)
  have v: "verify_precommitment c ?p = Inr ()" and idx: "pc_input_index ?p = 0"
    using fields by (auto simp: manifest_fields_ok_def Let_def checks_Inr QBIT_CTV_INPUT_INDEX_def)
  from parent_ok obtain parent where
    parent: "parse_transaction_hex c (cm_parent_hex m) ''manifest parent_coinbase_tx_hex'' = Inr parent"
    "ensure_coinbase_shape c parent = Inr ()" "txid_hex c parent = cm_parent_txid m"
    and pays: "pays_covenant c ?p parent (cm_parent_vout m)" "cm_covenant_value m = pc_covenant_value ?p"
      "cm_covenant_script_hex m = pc_covenant_script_hex ?p"
    by (auto simp: manifest_parent_ok_def checks_Inr parent_output_def pays_covenant_def split: if_splits)
  have inp: "length (tx_inputs fanout) = 1" "ti_script_sig (hd (tx_inputs fanout)) = []"
    "ti_prev_txid_hex (hd (tx_inputs fanout)) = cm_parent_txid m"
    "ti_prev_vout (hd (tx_inputs fanout)) = cm_parent_vout m" "ti_sequence (hd (tx_inputs fanout)) = pc_sequence ?p"
    using input by (auto simp: fanout_input_ok_def Let_def checks_Inr)
  then have input1: "tx_inputs fanout = [\<lparr>ti_prev_txid_hex = cm_parent_txid m, ti_prev_vout = cm_parent_vout m,
      ti_script_sig = [], ti_sequence = pc_sequence ?p\<rparr>]"
    by (cases "tx_inputs fanout") auto
  from cov obtain h where h: "default_ctv_hash_for_parsed_tx c fanout 0 = Inr h"
    "hex_encode c (p2mr_script_pubkey (p2mr_tapleaf_hash c (ctv_leaf_script h))) = cm_covenant_script_hex m"
    "verify_fanout_witness fanout (ctv_leaf_script h) = Inr ()"
    by (auto simp: covenant_ok_def Let_def checks_Inr idx)
  show ?thesis
    using parent fanout pays input1 outputs_of_fanout[OF assms(1) outs v] h
    by (intro exI[of _ parent] exI[of _ fanout] exI[of _ h]) simp
qed

theorem fanout_manifest_sound_witness:
  "\<exists>m parent (fanout :: parsed_transaction). verify_ctv_fanout_manifest_structure model_crypto sample_json m = Inr () \<and>
    pays_covenant model_crypto (cm_precommitment m) parent (cm_parent_vout m) \<and>
    tx_outputs fanout = fanout_tx_outs model_crypto (pc_outputs (cm_precommitment m)) (pc_fee_sats (cm_precommitment m) = 0) \<and>
    (\<Sum>out\<leftarrow>pc_outputs (cm_precommitment m). uint (co_amount_sats out)) +
      (\<Sum>out\<leftarrow>pc_outputs (cm_precommitment m). uint (co_fee_sats out)) = 1000"
proof -
  obtain m where m: "verify_ctv_fanout_manifest_structure model_crypto sample_json m = Inr ()"
    "uint (pc_covenant_value (cm_precommitment m)) = 1000"
    by (rule sample_manifest)
  from fanout_manifest_sound[OF model_p2a(1) m(1)] obtain parent fanout :: parsed_transaction where
    "pays_covenant model_crypto (cm_precommitment m) parent (cm_parent_vout m)"
    "tx_outputs fanout = fanout_tx_outs model_crypto (pc_outputs (cm_precommitment m)) (pc_fee_sats (cm_precommitment m) = 0)"
    "(\<Sum>out\<leftarrow>pc_outputs (cm_precommitment m). uint (co_amount_sats out)) +
      (\<Sum>out\<leftarrow>pc_outputs (cm_precommitment m). uint (co_fee_sats out)) =
      uint (pc_covenant_value (cm_precommitment m))"
    by (elim exE conjE) (rule that, assumption+)
  then show ?thesis using m by (intro exI[of _ m] exI[of _ parent] exI[of _ fanout]) simp
qed

text \<open>
  C9: A prepared fanout can always be finalized: for any coinbase that pays its covenant, at
  any output index, the manifest is built, keeps the precommitment and the witness leaf that
  were mined, and passes its own verification.
\<close>

theorem prepared_fanout_finalizes:
  assumes "hex_ok c" and "hash_ok c" and "p2a_ok c"
    and "prepare_ctv_fanout_precommitment c js inp = Inr pf" and "length (ki_payouts inp) < 2 ^ 62"
    and "parse_transaction_hex c parent_hex ''parent_coinbase_tx_hex'' = Inr parent"
    and "ensure_coinbase_shape c parent = Inr ()" and "pays_covenant c (pf_precommitment pf) parent vout"
  shows "\<exists>m. build_ctv_fanout_manifest_from_precommitment c js (pf_precommitment pf) parent_hex vout = Inr m \<and>
    cm_precommitment m = pf_precommitment pf \<and> cm_witness_leaf_hex m = pf_witness_leaf_hex pf \<and>
    cm_parent_vout m = vout \<and> verify_ctv_fanout_manifest_structure c js m = Inr ()"
  by (rule prepared_manifest[OF assms])

theorem prepared_fanout_finalizes_witness:
  "\<exists>pf parent_hex m. prepare_ctv_fanout_precommitment model_crypto sample_json sample_fanout = Inr pf \<and>
    build_ctv_fanout_manifest_from_precommitment model_crypto sample_json (pf_precommitment pf) parent_hex 0 = Inr m \<and>
    uint (pc_covenant_value (cm_precommitment m)) = 1000"
proof -
  obtain pf parent_hex parent where S: "prepare_ctv_fanout_precommitment model_crypto sample_json sample_fanout = Inr pf"
    "parse_transaction_hex model_crypto parent_hex ''parent_coinbase_tx_hex'' = Inr parent"
    "ensure_coinbase_shape model_crypto parent = Inr ()"
    "pays_covenant model_crypto (pf_precommitment pf) parent 0" "uint (pc_covenant_value (pf_precommitment pf)) = 1000"
    by (rule sample_mined)
  have len: "length (ki_payouts sample_fanout) < 2 ^ 62" by (simp add: sample_fanout_def)
  from prepared_fanout_finalizes[OF model_hex_ok model_hash_ok model_p2a(1) S(1) len S(2-4)] S(1,5)
  show ?thesis by metis
qed

text \<open>
  Preparation succeeds: payouts that have canonical outputs, at a height and chunk index
  in range, are always turned into a precommitment that verifies, as long as their gross
  amounts stay within the money supply.
\<close>

theorem fanout_preparation_succeeds:
  assumes "hex_ok c" and "hash_ok c" and "p2a_ok c" and "zeros_ok c"
    and "\<And>p. \<exists>b. cj_precommitment js p = Inr b"
    and "ki_block_height inp \<le> 0xffffffff" and "ki_settlement_mode inp \<noteq> DirectCoinbase"
    and "ki_chunk_index inp < ki_chunk_count inp" "ki_chunk_index inp < 0x80000000"
    and "digest_ok c (ki_reward_sha256_hex inp)" "digest_ok c (ki_policy_sha256_hex inp)"
    and "canonical_fanout_outputs c (ki_payouts inp) = Inr outs" and "length outs + 1 < 2 ^ 32"
    and "(\<Sum>out\<leftarrow>outs. uint (co_gross_sats out)) \<le> uint QBIT_MAX_MONEY_SATS"
  shows "\<exists>pf. prepare_ctv_fanout_precommitment c js inp = Inr pf \<and>
    verify_precommitment c (pf_precommitment pf) = Inr () \<and> pc_outputs (pf_precommitment pf) = outs"
proof -
  obtain pf where pf: "prepare_ctv_fanout_precommitment c js inp = Inr pf"
    using prepare_total[OF assms] by blast
  then have "verify_precommitment c (pf_precommitment pf) = Inr () \<and> pc_outputs (pf_precommitment pf) = outs"
    using assms(12) by (auto elim!: prepare_parts[OF assms(1-3)] simp: prepared_from_def)
  then show ?thesis using pf by blast
qed

theorem fanout_preparation_succeeds_witness:
  "\<exists>pf. prepare_ctv_fanout_precommitment model_crypto sample_json sample_fanout = Inr pf \<and>
    pc_outputs (pf_precommitment pf) = [sample_output]"
proof -
  have "\<exists>pf. prepare_ctv_fanout_precommitment model_crypto sample_json sample_fanout = Inr pf \<and>
      verify_precommitment model_crypto (pf_precommitment pf) = Inr () \<and> pc_outputs (pf_precommitment pf) = [sample_output]"
    by (rule fanout_preparation_succeeds[OF model_hex_ok model_hash_ok model_p2a _ _ _ _ _ sample_digests sample_outputs])
      (simp_all add: sample_json_def sample_fanout_def sample_output_def QBIT_MAX_MONEY_SATS_def)
  then show ?thesis by blast
qed

text \<open>
  A verified manifest set is sound: every manifest of it verifies and spends the same
  coinbase, the chunks are numbered without gaps, no two of them share an output of the
  coinbase, a template, a transaction or a witness leaf, and the totals of the set are the
  sums over its manifests, which together spend the covenants exactly.
\<close>

theorem fanout_set_sound:
  assumes "verify_ctv_fanout_manifest_set c js ms = Inr ()"
  shows "list_all (\<lambda>m. verify_ctv_fanout_manifest_structure c js m = Inr () \<and> cm_parent_txid m = ms_parent_txid ms \<and>
      pc_chunk_count (cm_precommitment m) = ms_fanout_count ms) (ms_manifests ms) \<and>
    map (\<lambda>m. unat (pc_chunk_index (cm_precommitment m))) (ms_manifests ms) = [0..<unat (ms_fanout_count ms)] \<and>
    distinct (map cm_parent_vout (ms_manifests ms)) \<and>
    distinct (map (\<lambda>m. pc_ctv_hash_hex (cm_precommitment m)) (ms_manifests ms)) \<and>
    distinct (map cm_fanout_txid (ms_manifests ms)) \<and> distinct (map cm_witness_leaf_hex (ms_manifests ms)) \<and>
    uint (ms_output_sum ms) = (\<Sum>m\<leftarrow>ms_manifests ms. uint (pc_output_sum (cm_precommitment m))) \<and>
    uint (ms_fee_sats ms) = (\<Sum>m\<leftarrow>ms_manifests ms. uint (pc_fee_sats (cm_precommitment m))) \<and>
    (\<Sum>m\<leftarrow>ms_manifests ms. uint (cm_covenant_value m)) = uint (ms_output_sum ms) + uint (ms_fee_sats ms)"
proof -
  let ?xs = "ms_manifests ms"
  from assms obtain s where n: "unat (ms_fanout_count ms) = length ?xs"
    and scan: "try_fold (scan_manifest c js ms) empty_scan (enumerate 0 ?xs) = Inr s"
    and totals: "ss_output_sum s = ms_output_sum ms" "ss_fee_sats s = ms_fee_sats ms"
      "ss_covenant_value s = ms_covenant_value ms" "checked_add (ss_output_sum s) (ss_fee_sats s) = Some (ss_covenant_value s)"
    by (auto simp: verify_ctv_fanout_manifest_set_def checks_Inr)
  note S = scan_Inr[OF scan]
  have "length ?xs < 2 ^ 32" using n unsigned_less[of "ms_fanout_count ms", where 'a = nat] by simp
  then have "map (\<lambda>i. unat (word_of_nat i :: u32)) [0..<length ?xs] = [0..<length ?xs]"
    by (intro map_idI) (simp add: unat_word_of_nat_u32)
  moreover have "map unat (map (\<lambda>m. pc_chunk_index (cm_precommitment m)) ?xs) =
      map unat (map (word_of_nat :: nat \<Rightarrow> u32) [0..<length ?xs])" using S by simp
  ultimately have "map (\<lambda>m. unat (pc_chunk_index (cm_precommitment m))) ?xs = [0..<length ?xs]"
    unfolding map_map comp_def by simp
  then show ?thesis
    using S totals n by (simp add: empty_scan_def checked_add_Some list_all_iff)
qed

theorem fanout_set_sound_witness:
  "\<exists>m. verify_ctv_fanout_manifest_set model_crypto sample_json (set_of_one m) = Inr () \<and>
    cm_covenant_value m = 1000 \<and> uint (pc_output_sum (cm_precommitment m)) + uint (pc_fee_sats (cm_precommitment m)) = 1000"
proof -
  obtain m where m: "verify_ctv_fanout_manifest_structure model_crypto sample_json m = Inr ()"
    "uint (pc_covenant_value (cm_precommitment m)) = 1000" "pc_chunk_index (cm_precommitment m) = 0"
    "pc_chunk_count (cm_precommitment m) = 1"
    by (rule sample_manifest)
  have s: "verify_ctv_fanout_manifest_set model_crypto sample_json (set_of_one m) = Inr ()"
    using m by (intro set_of_one_verifies)
  have "uint (cm_covenant_value m) = uint (pc_covenant_value (cm_precommitment m))"
    using m(1) by (auto simp: verify_ctv_fanout_manifest_structure_def manifest_parent_ok_def checks_Inr)
  then have "uint (cm_covenant_value m) = 1000" using m(2) by simp
  moreover from this have "cm_covenant_value m = 1000" by (simp add: word_uint_eq_iff)
  ultimately show ?thesis using fanout_set_sound[OF s] s by (intro exI[of _ m]) (simp add: set_of_one_def Let_def)
qed

text \<open>
  The template hash commits to the transaction: unless one of the byte strings hashed for
  one transaction collides with one hashed for the other, equal hashes mean equal version,
  lock time, sequences, outputs and input index.
\<close>

theorem ctv_hash_commits:
  assumes "hash_ok c" and "default_ctv_hash_for_parsed_tx c tx i = Inr h" and "default_ctv_hash_for_parsed_tx c tx' i' = Inr h"
    and "list_all tx_out_valid (tx_outputs tx)" and "list_all tx_out_valid (tx_outputs tx')"
    and "inj_on (sha256 c) (hashed_parts c tx i \<union> hashed_parts c tx' i')"
  shows "tx_version tx = tx_version tx' \<and> tx_lock_time tx = tx_lock_time tx' \<and>
    map ti_sequence (tx_inputs tx) = map ti_sequence (tx_inputs tx') \<and> tx_outputs tx = tx_outputs tx' \<and> i = i'"
proof -
  define seqs where "seqs = (\<lambda>tx :: parsed_transaction. concat (map (\<lambda>i. le_bytes 4 (uint (ti_sequence i))) (tx_inputs tx)))"
  define outs where "outs = (\<lambda>tx :: parsed_transaction. concat (map tx_out_bytes (tx_outputs tx)))"
  obtain pre where pre: "ctv_preimage c tx i = Inr pre" "h = sha256 c pre"
    using assms(2) by (auto simp: default_ctv_hash_for_parsed_tx_def)
  obtain pre' where pre': "ctv_preimage c tx' i' = Inr pre'" "h = sha256 c pre'"
    using assms(3) by (auto simp: default_ctv_hash_for_parsed_tx_def)
  have members: "pre \<in> hashed_parts c tx i" "pre' \<in> hashed_parts c tx' i'" "seqs tx \<in> hashed_parts c tx i"
    "seqs tx' \<in> hashed_parts c tx' i'" "outs tx \<in> hashed_parts c tx i" "outs tx' \<in> hashed_parts c tx' i'"
    by (simp_all add: hashed_parts_def pre(1) pre'(1) seqs_def outs_def)
  have same: "pre = pre'"
    using inj_onD[OF assms(6)] members(1,2) pre(2) pre'(2) by (metis UnI1 UnI2)
  obtain s s' where "preimage_form c tx i s pre" "preimage_form c tx' i' s' pre"
    using ctv_preimage_Inr[OF assms(1) pre(1)] ctv_preimage_Inr[OF assms(1) pre'(1)] same by blast
  note parts = preimage_parts[OF assms(1) this]
  have "sha256 c (seqs tx) = sha256 c (seqs tx')" "sha256 c (outs tx) = sha256 c (outs tx')"
    using parts by (simp_all add: seqs_def outs_def)
  then have eq: "seqs tx = seqs tx'" "outs tx = outs tx'"
    using inj_onD[OF assms(6)] members(3-6) by (metis UnI1 UnI2)+
  then have "map ti_sequence (tx_inputs tx) = map ti_sequence (tx_inputs tx')"
    using sequences_inj[of "map ti_sequence (tx_inputs tx)" "map ti_sequence (tx_inputs tx')"] parts
    by (simp add: seqs_def comp_def)
  moreover have "tx_outputs tx = tx_outputs tx'"
  proof -
    have "read_n (read_tx_out []) (length (tx_outputs tx)) (outs tx) = Inr (tx_outputs tx, [])"
      "read_n (read_tx_out []) (length (tx_outputs tx)) (outs tx) = Inr (tx_outputs tx', [])"
      unfolding tx_out.read_n_iff using assms(4,5) parts eq(2) by (simp_all add: outs_def list_all_iff)
    then show ?thesis by simp
  qed
  ultimately show ?thesis using parts by blast
qed

theorem ctv_hash_commits_witness:
  "let tx = sample_parent 1000 (replicate 34 0);
       tx' = tx\<lparr>tx_inputs := [\<lparr>ti_prev_txid_hex = ''00'', ti_prev_vout = 5, ti_script_sig = [], ti_sequence = 0\<rparr>]\<rparr> in
    default_ctv_hash_for_parsed_tx model_crypto tx 0 = default_ctv_hash_for_parsed_tx model_crypto tx' 0 \<and>
    tx_inputs tx \<noteq> tx_inputs tx' \<and> tx_outputs tx = tx_outputs tx'"
proof -
  define tx where "tx = sample_parent 1000 (replicate 34 0)"
  define tx' where "tx' = tx\<lparr>tx_inputs := [\<lparr>ti_prev_txid_hex = ''00'', ti_prev_vout = 5, ti_script_sig = [], ti_sequence = 0\<rparr>]\<rparr>"
  have one: "tx_inputs tx = [\<lparr>ti_prev_txid_hex = model_hex_encode (replicate 32 0), ti_prev_vout = 0xffffffff,
      ti_script_sig = [], ti_sequence = 0\<rparr>]"
    "tx_outputs tx = [\<lparr>to_amount_sats = 1000, to_script_pubkey = replicate 34 0\<rparr>]"
    by (simp_all add: tx_def sample_parent_def parsed_of_def display_in_def)
  have two: "tx_inputs tx' = [\<lparr>ti_prev_txid_hex = ''00'', ti_prev_vout = 5, ti_script_sig = [], ti_sequence = 0\<rparr>]"
    "tx_outputs tx' = tx_outputs tx" "tx_version tx' = tx_version tx" "tx_lock_time tx' = tx_lock_time tx"
    by (simp_all add: tx'_def)
  have same: "ctv_preimage model_crypto tx' 0 = ctv_preimage model_crypto tx 0"
    by (simp add: ctv_preimage_def one two Let_def)
  obtain pre where pre: "ctv_preimage model_crypto tx 0 = Inr pre"
    by (simp add: ctv_preimage_def one Let_def)
  obtain s where s: "preimage_form model_crypto tx 0 s pre" using ctv_preimage_Inr[OF model_hash_ok pre] ..
  have len: "length (sha256 model_crypto b) = 32" for b using model_hash_ok by (simp add: hash_ok_def)
  have vb: "length (var_bytes (replicate 34 0)) = 35" by code_simp
  have "length pre \<in> {84, 116}" using s len by (auto simp: preimage_form_def)
  then have inj: "inj_on (sha256 model_crypto) (hashed_parts model_crypto tx 0 \<union> hashed_parts model_crypto tx' 0)"
    unfolding hashed_parts_def same pre two one
    by (auto simp: inj_on_def model_crypto_def tx_out_bytes_def le_bytes_inj vb)
  obtain h where h: "default_ctv_hash_for_parsed_tx model_crypto tx 0 = Inr h" using pre by (simp add: default_ctv_hash_for_parsed_tx_def)
  then have h': "default_ctv_hash_for_parsed_tx model_crypto tx' 0 = Inr h" by (simp add: default_ctv_hash_for_parsed_tx_def same)
  have valid: "list_all tx_out_valid (tx_outputs tx)" "list_all tx_out_valid (tx_outputs tx')"
    unfolding two one by (simp_all add: tx_out_valid_def money_ok_def QBIT_MAX_MONEY_SATS_def)
  have "tx_inputs tx \<noteq> tx_inputs tx'" by (simp add: one two)
  then show ?thesis
    using ctv_hash_commits[OF model_hash_ok h h' valid inj] h h' unfolding Let_def tx_def[symmetric] tx'_def[symmetric] by simp
qed

end
