(* ===== verification/Audit_Types.thy ===== *)
theory Audit_Types
  imports Reward_Manifest Payout_Policy Ctv_Manifest
begin

text \<open>
  The audit bundle of \<open>lib.rs\<close>: a found block, the shares and balances it was computed
  from, every manifest derived from them, and the signed coinbase.  A bundle splits into its
  window of shares and a body with everything else.
\<close>

definition PRISM_AUDIT_COMMITMENT_LEAF_TAG :: string where
  "PRISM_AUDIT_COMMITMENT_LEAF_TAG = ''qbit.prism.audit.commitment.v1''"
definition AUDIT_BUNDLE_SCHEMA_V1 :: string where
  "AUDIT_BUNDLE_SCHEMA_V1 = ''qbit.prism.audit-bundle.v1''"
definition AUDIT_BUNDLE_SCHEMA_V1_1 :: string where
  "AUDIT_BUNDLE_SCHEMA_V1_1 = ''qbit.prism.audit-bundle.v1.1''"

record ledger_attestation =
  la_schema :: string
  la_block_height :: u64
  la_coinbase_value :: u64
  la_anchor_job_issued_at_ms :: i64
  la_network_difficulty :: u128
  la_share_slice_digest_hex :: string
  la_prior_balances_digest_hex :: string
  la_signature :: manifest_signature

record audit_bundle =
  ab_schema :: string
  ab_shares :: "accepted_share list"
  ab_found_block :: found_block
  ab_prior_balances :: "carry_forward_balance list"
  ab_payout_policy :: payout_policy
  ab_suffix_hex :: "string option"
  ab_witness_leaves_hex :: "string list"
  ab_commitment_leaves_hex :: "string list"
  ab_commitment_root_hex :: "string option"
  ab_attestation :: ledger_attestation
  ab_reward_manifest :: reward_manifest
  ab_policy_manifest :: policy_manifest
  ab_settlement_decision :: "settlement_decision option"
  ab_fee_policy :: "fanout_fee_rate_policy option"
  ab_fanout_set :: "ctv_manifest_set option"
  ab_signed_coinbase :: signed_payout_manifest

record audit_bundle_body =
  bb_schema :: string
  bb_found_block :: found_block
  bb_prior_balances :: "carry_forward_balance list"
  bb_payout_policy :: payout_policy
  bb_suffix_hex :: "string option"
  bb_witness_leaves_hex :: "string list"
  bb_commitment_leaves_hex :: "string list"
  bb_commitment_root_hex :: "string option"
  bb_attestation :: ledger_attestation
  bb_reward_manifest :: reward_manifest
  bb_policy_manifest :: policy_manifest
  bb_settlement_decision :: "settlement_decision option"
  bb_fee_policy :: "fanout_fee_rate_policy option"
  bb_fanout_set :: "ctv_manifest_set option"
  bb_signed_coinbase :: signed_payout_manifest

record audit_report =
  ar_schema :: string
  ar_block_height :: u64
  ar_coinbase_value :: u64
  ar_reward_sha256_hex :: string
  ar_policy_sha256_hex :: string
  ar_commitment_leaf_hex :: string
  ar_commitment_root_hex :: string
  ar_coinbase_sha256_hex :: string
  ar_bundle_sha256_hex :: string
  ar_coinbase_txid :: string
  ar_coinbase_wtxid :: string
  ar_coinbase_tx_hex :: string
  ar_min_output_sats :: u64
  ar_output_policy :: coinbase_output_policy
  ar_onchain_output_count :: usize
  ar_accrued_account_count :: usize

section \<open>Body and window\<close>

definition into_parts :: "audit_bundle \<Rightarrow> audit_bundle_body \<times> accepted_share list" where
  "into_parts b =
    (\<lparr>bb_schema = ab_schema b, bb_found_block = ab_found_block b,
      bb_prior_balances = ab_prior_balances b, bb_payout_policy = ab_payout_policy b,
      bb_suffix_hex = ab_suffix_hex b, bb_witness_leaves_hex = ab_witness_leaves_hex b,
      bb_commitment_leaves_hex = ab_commitment_leaves_hex b,
      bb_commitment_root_hex = ab_commitment_root_hex b, bb_attestation = ab_attestation b,
      bb_reward_manifest = ab_reward_manifest b, bb_policy_manifest = ab_policy_manifest b,
      bb_settlement_decision = ab_settlement_decision b, bb_fee_policy = ab_fee_policy b,
      bb_fanout_set = ab_fanout_set b, bb_signed_coinbase = ab_signed_coinbase b\<rparr>, ab_shares b)"

definition into_bundle :: "audit_bundle_body \<Rightarrow> accepted_share list \<Rightarrow> audit_bundle" where
  "into_bundle b shares =
    \<lparr>ab_schema = bb_schema b, ab_shares = shares, ab_found_block = bb_found_block b,
     ab_prior_balances = bb_prior_balances b, ab_payout_policy = bb_payout_policy b,
     ab_suffix_hex = bb_suffix_hex b, ab_witness_leaves_hex = bb_witness_leaves_hex b,
     ab_commitment_leaves_hex = bb_commitment_leaves_hex b,
     ab_commitment_root_hex = bb_commitment_root_hex b, ab_attestation = bb_attestation b,
     ab_reward_manifest = bb_reward_manifest b, ab_policy_manifest = bb_policy_manifest b,
     ab_settlement_decision = bb_settlement_decision b, ab_fee_policy = bb_fee_policy b,
     ab_fanout_set = bb_fanout_set b, ab_signed_coinbase = bb_signed_coinbase b\<rparr>"

text \<open>
  \<open>AuditBundleRef\<close> borrows either form field by field, so the view of a bundle is the bundle
  and the view of a body with its shares is \<open>into_bundle\<close>.
\<close>

definition from_bundle :: "audit_bundle \<Rightarrow> audit_bundle" where
  "from_bundle b = b"

definition from_parts :: "audit_bundle_body \<Rightarrow> accepted_share list \<Rightarrow> audit_bundle" where
  "from_parts b shares = into_bundle b shares"

lemma into_parts_into_bundle [simp]: "into_parts (into_bundle b shares) = (b, shares)"
  by (simp add: into_parts_def into_bundle_def)

lemma into_bundle_into_parts [simp]: "into_bundle (fst (into_parts b)) (snd (into_parts b)) = b"
  by (simp add: into_parts_def into_bundle_def)

definition audit_bundle_schema_for_shares :: "accepted_share list \<Rightarrow> string" where
  "audit_bundle_schema_for_shares shares =
    (if \<exists>s\<in>set shares. sh_credit_policy s \<noteq> None then AUDIT_BUNDLE_SCHEMA_V1_1
     else AUDIT_BUNDLE_SCHEMA_V1)"

end
