(* ===== verification/Audit_Json.thy ===== *)
theory Audit_Json
  imports Audit_Types
begin

text \<open>
  The canonical JSON of the audit artifacts and their digests: \<open>audit_hash.rs\<close>, the writers
  of \<open>parallel.rs\<close> and \<open>write_reward_manifest\<close> of \<open>lib.rs\<close>.  \<open>serde_json\<close> is a record of
  parameters; what the program frames by hand (struct splices, chunked arrays, the split of a
  bundle into prefix and suffix) is defined here.  An array is given by the results of
  serializing its elements.
\<close>

section \<open>The serializer\<close>

type_synonym json = "string + bytes"

record serde =
  sj_struct :: "(string \<times> json) list \<Rightarrow> json"
  sj_seq :: "json list \<Rightarrow> json"
  sj_string :: "string \<Rightarrow> json"
  sj_u64 :: "u64 \<Rightarrow> json"
  sj_u128 :: "u128 \<Rightarrow> json"
  sj_i64 :: "i64 \<Rightarrow> json"
  sj_usize :: "usize \<Rightarrow> json"
  sj_share :: "accepted_share \<Rightarrow> json"
  sj_counted_share :: "counted_share \<Rightarrow> json"
  sj_entitlement :: "weighted_entitlement \<Rightarrow> json"
  sj_cut :: "window_cut \<Rightarrow> json"
  sj_found_block :: "found_block \<Rightarrow> json"
  sj_balance :: "carry_forward_balance \<Rightarrow> json"
  sj_policy :: "payout_policy \<Rightarrow> json"
  sj_attestation :: "ledger_attestation \<Rightarrow> json"
  sj_policy_manifest :: "policy_manifest \<Rightarrow> json"
  sj_decision :: "settlement_decision \<Rightarrow> json"
  sj_fee_policy :: "fanout_fee_rate_policy \<Rightarrow> json"
  sj_fanout_set :: "ctv_manifest_set \<Rightarrow> json"
  sj_signed_manifest :: "signed_payout_manifest \<Rightarrow> json"

definition OPEN :: bytes where "OPEN = string_bytes ''{''"
definition CLOSE :: bytes where "CLOSE = string_bytes ''}''"
definition COMMA :: bytes where "COMMA = string_bytes '',''"
definition COLON :: bytes where "COLON = string_bytes '':''"
definition LBRACK :: bytes where "LBRACK = string_bytes ''[''"
definition RBRACK :: bytes where "RBRACK = string_bytes '']''"

text \<open>
  The compact output \<open>serde_json\<close> documents, which \<open>parallel.rs\<close> reproduces by hand: the
  fields of a struct and the elements of an array between their delimiters, a comma before
  each but the first, and the first failure of a value as the failure of the whole.
\<close>

fun compact_fields :: "serde \<Rightarrow> bool \<Rightarrow> (string \<times> json) list \<Rightarrow> json" where
  "compact_fields js first [] = Inr []"
| "compact_fields js first ((key, value) # fs) =
    rbind (sj_string js key) (\<lambda>k. rbind value (\<lambda>v. rbind (compact_fields js False fs) (\<lambda>rest.
    Inr ((if first then [] else COMMA) @ k @ COLON @ v @ rest))))"

fun compact_items :: "bool \<Rightarrow> json list \<Rightarrow> json" where
  "compact_items first [] = Inr []"
| "compact_items first (item # items) =
    rbind item (\<lambda>v. rbind (compact_items False items) (\<lambda>rest.
    Inr ((if first then [] else COMMA) @ v @ rest)))"

definition serde_compact :: "serde \<Rightarrow> bool" where
  "serde_compact js \<longleftrightarrow>
    (\<forall>fs. sj_struct js fs = rbind (compact_fields js True fs) (\<lambda>b. Inr (OPEN @ b @ CLOSE))) \<and>
    (\<forall>items. sj_seq js items = rbind (compact_items True items) (\<lambda>b. Inr (LBRACK @ b @ RBRACK)))"

section \<open>Chunked arrays\<close>

text \<open>\<open>write_array_frames\<close>: the frames handed to the consumer, in order.\<close>

definition array_frame :: "usize \<Rightarrow> json list \<Rightarrow> usize \<Rightarrow> json" where
  "array_frame chunk_len items index =
    try_fold (\<lambda>buffer (position, item). rbind item (\<lambda>v.
      Inr (buffer @ (if 0 < position \<or> 0 < index then COMMA else []) @ v)))
      [] (enumerate 0 (chunk_range chunk_len items index))"

definition write_array_frames :: "serde \<Rightarrow> json list \<Rightarrow> parallelism \<Rightarrow> string + bytes list" where
  "write_array_frames js items par =
    (let chunk_len = max (min (par_chunk_len par) (length items)) 1 in
     if is_serial par \<or> length items \<le> chunk_len then rbind (sj_seq js items) (\<lambda>frame. Inr [frame])
     else rbind (try_map (array_frame chunk_len items) [0..<div_ceil (length items) chunk_len]) (\<lambda>frames.
       Inr (LBRACK # frames @ [RBRACK])))"

definition write_array :: "serde \<Rightarrow> json list \<Rightarrow> parallelism \<Rightarrow> json" where
  "write_array js items par =
    (if is_serial par \<or> length items \<le> par_chunk_len par then sj_seq js items
     else rbind (write_array_frames js items par) (\<lambda>frames. Inr (concat frames)))"

section \<open>Spliced structs\<close>

text \<open>
  \<open>SpliceFields\<close>: the first serialization of the spliced field takes the value, a second
  one is an error.
\<close>

fun splice_fields :: "serde \<Rightarrow> string \<Rightarrow> json option \<Rightarrow> bool \<Rightarrow> (string \<times> json) list \<Rightarrow> json" where
  "splice_fields js field spliced first [] = Inr CLOSE"
| "splice_fields js field spliced first ((key, value) # fs) =
    rbind (sj_string js key) (\<lambda>k.
    rbind (if key = field then (case spliced of None \<Rightarrow> Inl ''spliced field serialized twice'' | Some v \<Rightarrow> v)
      else value) (\<lambda>v.
    rbind (splice_fields js field (if key = field then None else spliced) False fs) (\<lambda>rest.
    Inr ((if first then [] else COMMA) @ k @ COLON @ v @ rest))))"

definition struct_splice :: "serde \<Rightarrow> bytes \<Rightarrow> string \<Rightarrow> json \<Rightarrow> (string \<times> json) list \<Rightarrow> json" where
  "struct_splice js opening field spliced fs =
    rbind (splice_fields js field (Some spliced) True fs) (\<lambda>b. Inr (opening @ b))"

section \<open>The reward manifest\<close>

definition reward_fields :: "serde \<Rightarrow> reward_manifest \<Rightarrow> (string \<times> json) list" where
  "reward_fields js m =
    [(''schema'', sj_string js (rm_schema m)),
     (''block_height'', sj_u64 js (rm_block_height m)),
     (''coinbase_value_sats'', sj_u64 js (rm_coinbase_value m)),
     (''network_difficulty'', sj_u128 js (rm_network_difficulty m)),
     (''window_multiplier'', sj_u128 js (rm_window_multiplier m)),
     (''requested_window_weight'', sj_u128 js (rm_requested_weight m)),
     (''counted_window_weight'', sj_u128 js (rm_counted_weight m)),
     (''anchor_job_issued_at_ms'', sj_i64 js (rm_anchor_job_issued_at_ms m)),
     (''anchor_share_seq'', sj_u64 js (rm_anchor_share_seq m)),
     (''newest_share_seq'', sj_u64 js (rm_newest_share_seq m)),
     (''oldest_share_seq'', sj_u64 js (rm_oldest_share_seq m))] @
    (case rm_cut m of None \<Rightarrow> [] | Some wc \<Rightarrow> [(''cut'', sj_cut js wc)]) @
    [(''included_share_count'', sj_usize js (rm_included_share_count m)),
     (''share_slice_digest_hex'', sj_string js (rm_share_slice_digest_hex m)),
     (''shares'', sj_seq js (map (sj_counted_share js) (rm_shares m))),
     (''entitlements'', sj_seq js (map (sj_entitlement js) (rm_entitlements m)))]"

definition canonical_reward_manifest_bytes :: "serde \<Rightarrow> reward_manifest \<Rightarrow> json" where
  "canonical_reward_manifest_bytes js m = sj_struct js (reward_fields js m)"

definition write_reward_manifest :: "serde \<Rightarrow> reward_manifest \<Rightarrow> parallelism \<Rightarrow> json" where
  "write_reward_manifest js m par =
    (if is_serial par then canonical_reward_manifest_bytes js m
     else struct_splice js OPEN ''shares''
       (write_array js (map (sj_counted_share js) (rm_shares m)) par) (reward_fields js m))"

definition reward_manifest_sha256 :: "crypto \<Rightarrow> serde \<Rightarrow> reward_manifest \<Rightarrow> parallelism \<Rightarrow> json" where
  "reward_manifest_sha256 c js m par =
    rbind (write_reward_manifest js m par) (\<lambda>absorbed. Inr (sha256 c absorbed))"

definition canonical_payout_policy_manifest_bytes :: "serde \<Rightarrow> policy_manifest \<Rightarrow> json" where
  "canonical_payout_policy_manifest_bytes js m = sj_policy_manifest js m"

section \<open>The bundle\<close>

definition field_when :: "string \<Rightarrow> 'a option \<Rightarrow> ('a \<Rightarrow> json) \<Rightarrow> (string \<times> json) list" where
  "field_when key value f = (case value of None \<Rightarrow> [] | Some v \<Rightarrow> [(key, f v)])"

definition strings_when :: "serde \<Rightarrow> string \<Rightarrow> string list \<Rightarrow> (string \<times> json) list" where
  "strings_when js key xs = (if xs = [] then [] else [(key, sj_seq js (map (sj_string js) xs))])"

definition suffix_fields :: "serde \<Rightarrow> audit_bundle \<Rightarrow> (string \<times> json) list" where
  "suffix_fields js b =
    [(''found_block'', sj_found_block js (ab_found_block b)),
     (''prior_balances'', sj_seq js (map (sj_balance js) (ab_prior_balances b))),
     (''payout_policy'', sj_policy js (ab_payout_policy b))] @
    field_when ''coinbase_script_sig_suffix_hex'' (ab_suffix_hex b) (sj_string js) @
    strings_when js ''witness_merkle_leaves_hex'' (ab_witness_leaves_hex b) @
    strings_when js ''audit_commitment_leaves_hex'' (ab_commitment_leaves_hex b) @
    field_when ''audit_commitment_root_hex'' (ab_commitment_root_hex b) (sj_string js) @
    [(''ledger_window_attestation'', sj_attestation js (ab_attestation b)),
     (''reward_manifest'', canonical_reward_manifest_bytes js (ab_reward_manifest b)),
     (''payout_policy_manifest'', sj_policy_manifest js (ab_policy_manifest b))] @
    field_when ''settlement_mode_decision'' (ab_settlement_decision b) (sj_decision js) @
    field_when ''ctv_fanout_fee_policy'' (ab_fee_policy b) (sj_fee_policy js) @
    field_when ''ctv_fanout_manifest_set'' (ab_fanout_set b) (sj_fanout_set js) @
    [(''signed_coinbase_manifest'', sj_signed_manifest js (ab_signed_coinbase b))]"

definition canonical_bytes :: "serde \<Rightarrow> audit_bundle \<Rightarrow> json" where
  "canonical_bytes js b = sj_struct js
    ([(''schema'', sj_string js (ab_schema b)),
      (''shares'', sj_seq js (map (sj_share js) (ab_shares b)))] @ suffix_fields js b)"

definition canonical_audit_bundle_bytes :: "serde \<Rightarrow> audit_bundle \<Rightarrow> json" where
  "canonical_audit_bundle_bytes js b = canonical_bytes js (from_bundle b)"

definition canonical_audit_bundle_bytes_from_parts ::
  "serde \<Rightarrow> audit_bundle_body \<Rightarrow> accepted_share list \<Rightarrow> json" where
  "canonical_audit_bundle_bytes_from_parts js b shares = canonical_bytes js (from_parts b shares)"

section \<open>The digest in two parts\<close>

text \<open>\<open>ContinueObject\<close>: the opening brace of the suffix becomes a comma.\<close>

definition continue_object :: "bytes \<Rightarrow> json" where
  "continue_object bs = (case bs of
      [] \<Rightarrow> Inr []
    | b # rest \<Rightarrow> if [b] \<noteq> OPEN then Inl ''audit suffix must be an object'' else Inr (COMMA @ rest))"

definition write_prefix_header :: "serde \<Rightarrow> string \<Rightarrow> json" where
  "write_prefix_header js schema =
    rbind (sj_string js schema) (\<lambda>s.
    Inr (string_bytes (''{'' @ [CHR 0x22] @ ''schema'' @ [CHR 0x22] @ '':'') @ s @
      string_bytes ('','' @ [CHR 0x22] @ ''shares'' @ [CHR 0x22] @ '':'')))"

definition write_prefix :: "serde \<Rightarrow> string \<Rightarrow> accepted_share list \<Rightarrow> json" where
  "write_prefix js schema shares =
    rbind (write_prefix_header js schema) (\<lambda>header.
    rbind (sj_seq js (map (sj_share js) shares)) (\<lambda>array. Inr (header @ array)))"

definition write_suffix :: "serde \<Rightarrow> audit_bundle_body \<Rightarrow> json" where
  "write_suffix js b =
    rbind (sj_struct js (suffix_fields js (from_parts b []))) continue_object"

definition write_suffix_with :: "serde \<Rightarrow> audit_bundle_body \<Rightarrow> parallelism \<Rightarrow> json" where
  "write_suffix_with js b par =
    (if is_serial par then write_suffix js b
     else struct_splice js COMMA ''reward_manifest'' (write_reward_manifest js (bb_reward_manifest b) par)
       (suffix_fields js (from_parts b [])))"

text \<open>A SHA-256 state is the bytes it has absorbed.\<close>

record hash_prefix =
  hp_absorbed :: bytes
  hp_schema :: string

definition hash_prefix_new :: "serde \<Rightarrow> accepted_share list \<Rightarrow> string + hash_prefix" where
  "hash_prefix_new js shares =
    (let schema = audit_bundle_schema_for_shares shares in
     rbind (write_prefix js schema shares) (\<lambda>absorbed.
     Inr \<lparr>hp_absorbed = absorbed, hp_schema = schema\<rparr>))"

definition hash_prefix_new_with :: "serde \<Rightarrow> accepted_share list \<Rightarrow> parallelism \<Rightarrow> string + hash_prefix" where
  "hash_prefix_new_with js shares par =
    (let schema = audit_bundle_schema_for_shares shares in
     rbind (write_prefix_header js schema) (\<lambda>header.
     rbind (write_array js (map (sj_share js) shares) par) (\<lambda>array.
     Inr \<lparr>hp_absorbed = header @ array, hp_schema = schema\<rparr>)))"

definition hash_prefix_new_with_share_digest ::
  "crypto \<Rightarrow> serde \<Rightarrow> accepted_share list \<Rightarrow> parallelism \<Rightarrow> string + hash_prefix \<times> bytes" where
  "hash_prefix_new_with_share_digest c js shares par =
    (let schema = audit_bundle_schema_for_shares shares; items = map (sj_share js) shares in
     rbind (write_prefix_header js schema) (\<lambda>header.
     rbind (if is_serial par then write_array js items par
       else rbind (write_array_frames js items par) (\<lambda>frames. Inr (concat frames))) (\<lambda>array.
     Inr (\<lparr>hp_absorbed = header @ array, hp_schema = schema\<rparr>, sha256 c array))))"

definition hash_prefix_finish_with ::
  "crypto \<Rightarrow> serde \<Rightarrow> hash_prefix \<Rightarrow> audit_bundle_body \<Rightarrow> parallelism \<Rightarrow> prism_error + string" where
  "hash_prefix_finish_with c js p b par =
    (if bb_schema b \<noteq> hp_schema p then Inl (AuditMismatch ''schema'')
     else rbind (map_err Json (write_suffix_with js b par)) (\<lambda>suffix.
       Inr (sha256_hex c (hp_absorbed p @ suffix))))"

definition hash_prefix_finish ::
  "crypto \<Rightarrow> serde \<Rightarrow> hash_prefix \<Rightarrow> audit_bundle_body \<Rightarrow> prism_error + string" where
  "hash_prefix_finish c js p b = hash_prefix_finish_with c js p b parallelism_serial"

end
