(* ===== verification/Audit_Bundle.thy ===== *)
theory Audit_Bundle
  imports Audit_Json Policy_Request Fanout_Decision
begin

text \<open>
  Building an audit bundle (\<open>lib.rs\<close>): the commitment leaf and root over both manifests, the
  ledger's attestation of the window, the fee accounting of CTV fanouts, and the two builders
  (coinbase outputs only, and with CTV settlement).  The timing of build phases is not
  modelled; it wraps each step without changing it.
\<close>

section \<open>Commitments\<close>

definition commitment_leaf_hex :: "crypto \<Rightarrow> bytes \<Rightarrow> bytes \<Rightarrow> string" where
  "commitment_leaf_hex c reward_hash policy_hash =
    sha256_hex c (string_bytes PRISM_AUDIT_COMMITMENT_LEAF_TAG @ reward_hash @ policy_hash)"

definition prism_audit_commitment_leaf_hex ::
  "crypto \<Rightarrow> serde \<Rightarrow> reward_manifest \<Rightarrow> policy_manifest \<Rightarrow> prism_error + string" where
  "prism_audit_commitment_leaf_hex c js rm pm =
    rbind (map_err Json (canonical_reward_manifest_bytes js rm)) (\<lambda>reward.
    rbind (map_err Json (canonical_payout_policy_manifest_bytes js pm)) (\<lambda>policy.
    Inr (commitment_leaf_hex c (sha256 c reward) (sha256 c policy))))"

definition parse_audit_commitment_leaf :: "crypto \<Rightarrow> string \<Rightarrow> usize \<Rightarrow> prism_error + bytes" where
  "parse_audit_commitment_leaf c raw index =
    rbind (map_err (\<lambda>e. InvalidAuditCommitment (''commitment leaf '' @ dec_digits index @ '' is not hex: '' @ e))
      (hex_decode c raw)) (\<lambda>decoded.
    if length decoded \<noteq> 32
      then Inl (InvalidAuditCommitment (''commitment leaf '' @ dec_digits index @ '' must be 32 bytes, got '' @
        dec_digits (length decoded)))
    else Inr decoded)"

definition parse_audit_commitment_leaves :: "crypto \<Rightarrow> string list \<Rightarrow> prism_error + bytes list" where
  "parse_audit_commitment_leaves c leaves =
    (if leaves = [] then Inl (InvalidAuditCommitment ''at least one commitment leaf is required'')
     else try_map (\<lambda>(index, raw). parse_audit_commitment_leaf c raw index) (enumerate 0 leaves))"

definition audit_commitment_root_hex :: "crypto \<Rightarrow> string list \<Rightarrow> prism_error + string" where
  "audit_commitment_root_hex c leaves =
    rbind (parse_audit_commitment_leaves c leaves) (\<lambda>parsed.
    rbind (ok_or (merkle_root c parsed) (Panic ''index out of bounds'')) (\<lambda>root.
    Inr (hex_encode c root)))"

section \<open>The ledger's attestation\<close>

definition balance_order :: "carry_forward_balance \<Rightarrow> string \<times> string \<times> string" where
  "balance_order b = (cb_order_key b, cb_recipient_id b, cb_program b)"

definition balance_bytes :: "carry_forward_balance \<Rightarrow> bytes" where
  "balance_bytes b = string_be (cb_recipient_id b) @ string_be (cb_order_key b) @
    string_be (cb_program b) @ i128_be (cb_balance_sats b)"

definition prior_balances_digest :: "crypto \<Rightarrow> carry_forward_balance list \<Rightarrow> bytes" where
  "prior_balances_digest c balances = sha256 c (concat (map balance_bytes (sort_key balance_order balances)))"

definition prior_balances_digest_hex :: "crypto \<Rightarrow> carry_forward_balance list \<Rightarrow> string" where
  "prior_balances_digest_hex c balances = hex_encode c (prior_balances_digest c balances)"

definition ledger_attestation_schema :: string where
  "ledger_attestation_schema = ''qbit.prism.ledger-window-attestation.v1''"

definition canonical_ledger_window_attestation_bytes :: "serde \<Rightarrow> ledger_attestation \<Rightarrow> json" where
  "canonical_ledger_window_attestation_bytes js a = sj_struct js
    [(''schema'', sj_string js (la_schema a)),
     (''block_height'', sj_u64 js (la_block_height a)),
     (''coinbase_value_sats'', sj_u64 js (la_coinbase_value a)),
     (''anchor_job_issued_at_ms'', sj_i64 js (la_anchor_job_issued_at_ms a)),
     (''network_difficulty'', sj_u128 js (la_network_difficulty a)),
     (''share_slice_digest_hex'', sj_string js (la_share_slice_digest_hex a)),
     (''prior_balances_digest_hex'', sj_string js (la_prior_balances_digest_hex a))]"

definition build_ledger_window_attestation ::
  "crypto \<Rightarrow> signer \<Rightarrow> serde \<Rightarrow> reward_manifest \<Rightarrow> carry_forward_balance list \<Rightarrow> bytes
    \<Rightarrow> prism_error + ledger_attestation"
where
  "build_ledger_window_attestation c sg js rm prior key =
    (let a = \<lparr>la_schema = ledger_attestation_schema, la_block_height = rm_block_height rm,
        la_coinbase_value = rm_coinbase_value rm,
        la_anchor_job_issued_at_ms = rm_anchor_job_issued_at_ms rm,
        la_network_difficulty = rm_network_difficulty rm,
        la_share_slice_digest_hex = rm_share_slice_digest_hex rm,
        la_prior_balances_digest_hex = prior_balances_digest_hex c prior,
        la_signature = \<lparr>sig_algorithm = ''ed25519'', sig_public_key_hex = public_key_hex c sg key,
          sig_signature_hex = []\<rparr>\<rparr> in
     rbind (map_err Json (canonical_ledger_window_attestation_bytes js a)) (\<lambda>payload.
     Inr (a\<lparr>la_signature := (la_signature a)\<lparr>sig_signature_hex := sign_message_hex c sg key payload\<rparr>\<rparr>)))"

section \<open>The coinbase\<close>

definition build_profiled_signed_manifest ::
  "crypto \<Rightarrow> signer \<Rightarrow> coinbase_build_request \<Rightarrow> bytes \<Rightarrow> prism_error + signed_payout_manifest" where
  "build_profiled_signed_manifest c sg req key =
    rbind (map_err Builder (build_manifest c req)) (\<lambda>manifest.
    rbind (map_err Builder (canonical_manifest_bytes sg manifest)) (\<lambda>canonical.
    Inr \<lparr>sm_manifest = manifest, sm_signature =
      \<lparr>sig_algorithm = ''ed25519'', sig_public_key_hex = public_key_hex c sg key,
       sig_signature_hex = sign_message_hex c sg key canonical\<rparr>\<rparr>))"

definition pinned_settlement_recipient_for_policy :: "policy_manifest \<Rightarrow> settlement_recipient option" where
  "pinned_settlement_recipient_for_policy m = map_option (\<lambda>f.
    \<lparr>sr_recipient_id = pf_recipient_id f, sr_order_key = pf_order_key f, sr_program = pf_program f,
     sr_amount_sats = pf_amount_sats f\<rparr>) (pool_fee_first_output m)"

section \<open>Fanout fees\<close>

definition fee_account_key :: "fanout_fee_recipient \<Rightarrow> string" where
  "fee_account_key f = account_key (fe_recipient_id f) (fe_order_key f) (fe_program f)"

definition insert_fee_recipient ::
  "(string, fanout_fee_recipient) btree \<Rightarrow> fanout_fee_recipient
    \<Rightarrow> prism_error + (string, fanout_fee_recipient) btree"
where
  "insert_fee_recipient m f =
    (if bt_get m (fee_account_key f) \<noteq> None then Inl (settlement_error ''duplicate fanout fee recipient'')
     else Inr (bt_put (fee_account_key f) f m))"

definition charge_chunk ::
  "crypto \<Rightarrow> u64 \<Rightarrow> fanout_fee_rate_policy \<Rightarrow> (string, fanout_fee_recipient) btree \<Rightarrow> settlement_chunk
    \<Rightarrow> prism_error + (string, fanout_fee_recipient) btree"
where
  "charge_chunk c min_output fee_policy m chunk =
    rbind (estimate_ctv_fanout_fee_sats (length (ch_recipients chunk)) fee_policy) (\<lambda>fee_sats.
    rbind (apply_proportional_fanout_fee c (ch_recipients chunk) fee_sats min_output) (\<lambda>decision.
    if fd_carried decision \<noteq> []
      then Inl (settlement_error ''fanout fee would push a recipient below the payout floor'')
    else try_fold insert_fee_recipient m (fd_payable decision)))"

definition charge_account ::
  "(string, fanout_fee_recipient) btree \<Rightarrow> policy_account \<Rightarrow> prism_error + policy_account" where
  "charge_account m a = (case bt_get m (account_key_of a) of
      None \<Rightarrow> Inr a
    | Some f \<Rightarrow>
        if pa_onchain_sats a \<noteq> fe_gross_sats f then Inl (AuditMismatch ''ctv_fanout_fee_accounting'')
        else Inr (a\<lparr>pa_settlement_fee_sats := fe_fee_sats f\<rparr>))"

definition apply_ctv_fanout_fee_accounting ::
  "crypto \<Rightarrow> policy_manifest \<Rightarrow> settlement_decision \<Rightarrow> fanout_fee_rate_policy
    \<Rightarrow> prism_error + policy_manifest \<times> (string, fanout_fee_recipient) btree"
where
  "apply_ctv_fanout_fee_accounting c pm decision fee_policy =
    rbind (try_fold (charge_chunk c (py_min_output_sats pm) fee_policy) [] (sd_fanout_chunks decision))
      (\<lambda>recipients_by_key.
    rbind (try_map (charge_account recipients_by_key) (py_accounts pm)) (\<lambda>accounts.
    Inr (pm\<lparr>py_accounts := accounts\<rparr>, recipients_by_key)))"

section \<open>Settlement\<close>

definition settlement_recipient_of :: "weighted_entitlement \<Rightarrow> prism_error + settlement_recipient" where
  "settlement_recipient_of e =
    rbind (ok_or (u64_try_from_u128 (we_weight e)) PayoutPolicyOverflow) (\<lambda>amount.
    Inr \<lparr>sr_recipient_id = we_recipient_id e, sr_order_key = we_order_key e, sr_program = we_program e,
         sr_amount_sats = amount\<rparr>)"

definition settlement_recipients_from_entitlements ::
  "weighted_entitlement list \<Rightarrow> prism_error + settlement_recipient list" where
  "settlement_recipients_from_entitlements = try_map settlement_recipient_of"

definition direct_entitlement :: "settlement_recipient \<Rightarrow> weighted_entitlement" where
  "direct_entitlement r = \<lparr>we_recipient_id = sr_recipient_id r, we_order_key = sr_order_key r,
    we_program = sr_program r, we_weight = u128_of_u64 (sr_amount_sats r)\<rparr>"

definition covenant_entitlement :: "prepared_ctv_fanout \<Rightarrow> weighted_entitlement" where
  "covenant_entitlement p = \<lparr>we_recipient_id = pf_covenant_recipient_id p,
    we_order_key = pf_covenant_order_key p, we_program = pf_covenant_program_hex p,
    we_weight = u128_of_u64 (pf_covenant_value p)\<rparr>"

definition ctv_settlement_coinbase_entitlements ::
  "settlement_decision \<Rightarrow> prepared_ctv_fanout list \<Rightarrow> prism_error + weighted_entitlement list" where
  "ctv_settlement_coinbase_entitlements decision prepared =
    (if length prepared \<noteq> length (sd_fanout_chunks decision)
     then Inl (AuditMismatch ''ctv_fanout_chunk_count'')
     else Inr (map direct_entitlement (sd_direct_recipients decision) @ map covenant_entitlement prepared))"

definition find_coinbase_output_vout ::
  "payout_manifest \<Rightarrow> string \<Rightarrow> string \<Rightarrow> string \<Rightarrow> u64 \<Rightarrow> prism_error + u32" where
  "find_coinbase_output_vout m recipient_id order_key program amount =
    rbind (ok_or (find (\<lambda>out. po_recipient_id out = recipient_id \<and> po_order_key out = order_key \<and>
        po_program out = program \<and> po_amount_sats out = amount) (pm_outputs m))
      (AuditMismatch ''ctv_coinbase_output'')) (\<lambda>out.
    if int (po_vout out) < 2 ^ 32 then Inr (word_of_nat (po_vout out))
    else Inl (AuditMismatch ''ctv_coinbase_output_vout''))"

text \<open>The payouts of a chunk, with its fee accounting when there is one.\<close>

definition fanout_payout ::
  "(string, fanout_fee_recipient) btree \<Rightarrow> settlement_recipient \<Rightarrow> ctv_payout" where
  "fanout_payout fees r =
    (let fee = bt_get fees (account_key (sr_recipient_id r) (sr_order_key r) (sr_program r)) in
     \<lparr>cp_recipient_id = sr_recipient_id r, cp_order_key = sr_order_key r, cp_program = sr_program r,
      cp_gross_sats = (case fee of None \<Rightarrow> 0 | Some f \<Rightarrow> fe_gross_sats f),
      cp_fee_sats = (case fee of None \<Rightarrow> 0 | Some f \<Rightarrow> fe_fee_sats f),
      cp_amount_sats = (case fee of None \<Rightarrow> sr_amount_sats r | Some f \<Rightarrow> fe_net_sats f)\<rparr>)"

definition chunk_input ::
  "reward_manifest \<Rightarrow> settlement_decision \<Rightarrow> (string, fanout_fee_recipient) btree \<Rightarrow> string \<Rightarrow> string
    \<Rightarrow> settlement_chunk \<Rightarrow> prism_error + ctv_precommitment_input"
where
  "chunk_input rm decision fees reward_sha policy_sha chunk =
    (if 2 ^ 32 \<le> int (ch_chunk_index chunk) \<or> 2 ^ 32 \<le> int (sd_fanout_chunk_count decision)
     then Inl PayoutPolicyOverflow
     else Inr
      \<lparr>ki_block_height = rm_block_height rm, ki_chunk_index = word_of_nat (ch_chunk_index chunk),
       ki_chunk_count = word_of_nat (sd_fanout_chunk_count decision),
       ki_coinbase_value = rm_coinbase_value rm, ki_settlement_mode = sd_mode decision,
       ki_reward_sha256_hex = reward_sha, ki_policy_sha256_hex = policy_sha,
       ki_payouts = map (fanout_payout fees) (ch_recipients chunk)\<rparr>)"

definition prepare_fanouts ::
  "crypto \<Rightarrow> ctv_json \<Rightarrow> reward_manifest \<Rightarrow> settlement_decision \<Rightarrow> (string, fanout_fee_recipient) btree
    \<Rightarrow> string \<Rightarrow> string \<Rightarrow> prism_error + prepared_ctv_fanout list"
where
  "prepare_fanouts c cj rm decision fees reward_sha policy_sha =
    try_map (\<lambda>chunk. rbind (chunk_input rm decision fees reward_sha policy_sha chunk)
      (prepare_ctv_fanout_precommitment c cj)) (sd_fanout_chunks decision)"

definition finalize_fanout ::
  "crypto \<Rightarrow> ctv_json \<Rightarrow> payout_manifest \<Rightarrow> prepared_ctv_fanout \<Rightarrow> prism_error + ctv_manifest" where
  "finalize_fanout c cj m p =
    rbind (find_coinbase_output_vout m (pf_covenant_recipient_id p) (pf_covenant_order_key p)
      (pf_covenant_program_hex p) (pf_covenant_value p)) (\<lambda>vout.
    build_ctv_fanout_manifest_from_precommitment c cj (pf_precommitment p) (pm_coinbase_tx_hex m) vout)"

definition finalize_fanouts ::
  "crypto \<Rightarrow> ctv_json \<Rightarrow> payout_manifest \<Rightarrow> prepared_ctv_fanout list \<Rightarrow> prism_error + ctv_manifest_set option" where
  "finalize_fanouts c cj m prepared =
    (if prepared = [] then Inr None
     else rbind (try_map (finalize_fanout c cj m) prepared) (\<lambda>manifests.
       rbind (build_ctv_fanout_manifest_set c cj manifests) (\<lambda>ms. Inr (Some ms))))"

section \<open>The builder without CTV settlement\<close>

definition audit_coinbase_request ::
  "reward_manifest \<Rightarrow> policy_manifest \<Rightarrow> weighted_entitlement list \<Rightarrow> string \<Rightarrow> string list \<Rightarrow> string option
    \<Rightarrow> coinbase_build_request"
where
  "audit_coinbase_request rm pm entitlements root wleaves suffix =
    \<lparr>cr_block_height = rm_block_height rm, cr_coinbase_value = rm_coinbase_value rm,
     cr_entitlements = entitlements, cr_witness_nonce_hex = Some root,
     cr_witness_merkle_leaves_hex = wleaves, cr_script_sig_suffix_hex = suffix,
     cr_pinned_first_output = pinned_first_output_for_policy pm\<rparr>"

definition build_audit_bundle_body_with_coinbase_options_parallel ::
  "crypto \<Rightarrow> signer \<Rightarrow> serde \<Rightarrow> accepted_share list \<Rightarrow> found_block \<Rightarrow> window_cut option
    \<Rightarrow> carry_forward_balance list \<Rightarrow> payout_policy \<Rightarrow> string option \<Rightarrow> string list \<Rightarrow> bytes \<Rightarrow> bytes
    \<Rightarrow> parallelism \<Rightarrow> prism_error + audit_bundle_body"
where
  "build_audit_bundle_body_with_coinbase_options_parallel c sg js shares fb wc prior policy suffix
      wleaves coinbase_key ledger_key par =
    (if eq_ignore_ascii_case (public_key_hex c sg coinbase_key) (public_key_hex c sg ledger_key)
     then Inl LedgerAttestationKeyReuse
     else
     rbind (build_prism_reward_manifest_parallel c shares fb wc par) (\<lambda>rm.
     rbind (build_ledger_window_attestation c sg js rm prior ledger_key) (\<lambda>attestation.
     rbind (apply_payout_policy rm prior policy) (\<lambda>pm.
     rbind (map_err Json (reward_manifest_sha256 c js rm par)) (\<lambda>reward_hash.
     rbind (map_err Json (canonical_payout_policy_manifest_bytes js pm)) (\<lambda>policy_bytes.
     let leaves = [commitment_leaf_hex c reward_hash (sha256 c policy_bytes)] in
     rbind (audit_commitment_root_hex c leaves) (\<lambda>root.
     rbind (build_profiled_signed_manifest c sg
       (audit_coinbase_request rm pm (py_onchain_entitlements pm) root wleaves suffix) coinbase_key)
       (\<lambda>signed_manifest.
     Inr \<lparr>bb_schema = audit_bundle_schema_for_shares shares, bb_found_block = fb,
          bb_prior_balances = prior, bb_payout_policy = policy, bb_suffix_hex = suffix,
          bb_witness_leaves_hex = wleaves, bb_commitment_leaves_hex = leaves,
          bb_commitment_root_hex = Some root, bb_attestation = attestation, bb_reward_manifest = rm,
          bb_policy_manifest = pm, bb_settlement_decision = None, bb_fee_policy = None,
          bb_fanout_set = None, bb_signed_coinbase = signed_manifest\<rparr>))))))))"

definition build_audit_bundle_body_with_coinbase_options ::
  "crypto \<Rightarrow> signer \<Rightarrow> serde \<Rightarrow> accepted_share list \<Rightarrow> found_block \<Rightarrow> carry_forward_balance list
    \<Rightarrow> payout_policy \<Rightarrow> string option \<Rightarrow> string list \<Rightarrow> bytes \<Rightarrow> bytes \<Rightarrow> prism_error + audit_bundle_body"
where
  "build_audit_bundle_body_with_coinbase_options c sg js shares fb prior policy suffix wleaves
      coinbase_key ledger_key =
    build_audit_bundle_body_with_coinbase_options_parallel c sg js shares fb None prior policy suffix
      wleaves coinbase_key ledger_key parallelism_serial"

definition build_audit_bundle_with_coinbase_options ::
  "crypto \<Rightarrow> signer \<Rightarrow> serde \<Rightarrow> accepted_share list \<Rightarrow> found_block \<Rightarrow> carry_forward_balance list
    \<Rightarrow> payout_policy \<Rightarrow> string option \<Rightarrow> string list \<Rightarrow> bytes \<Rightarrow> bytes \<Rightarrow> prism_error + audit_bundle"
where
  "build_audit_bundle_with_coinbase_options c sg js shares fb prior policy suffix wleaves
      coinbase_key ledger_key =
    rbind (build_audit_bundle_body_with_coinbase_options c sg js shares fb prior policy suffix
      wleaves coinbase_key ledger_key) (\<lambda>body. Inr (into_bundle body shares))"

definition build_audit_bundle_body_with_coinbase_script_sig_suffix ::
  "crypto \<Rightarrow> signer \<Rightarrow> serde \<Rightarrow> accepted_share list \<Rightarrow> found_block \<Rightarrow> carry_forward_balance list
    \<Rightarrow> payout_policy \<Rightarrow> string option \<Rightarrow> bytes \<Rightarrow> bytes \<Rightarrow> prism_error + audit_bundle_body"
where
  "build_audit_bundle_body_with_coinbase_script_sig_suffix c sg js shares fb prior policy suffix
      coinbase_key ledger_key =
    build_audit_bundle_body_with_coinbase_options c sg js shares fb prior policy suffix []
      coinbase_key ledger_key"

definition build_audit_bundle_with_coinbase_script_sig_suffix ::
  "crypto \<Rightarrow> signer \<Rightarrow> serde \<Rightarrow> accepted_share list \<Rightarrow> found_block \<Rightarrow> carry_forward_balance list
    \<Rightarrow> payout_policy \<Rightarrow> string option \<Rightarrow> bytes \<Rightarrow> bytes \<Rightarrow> prism_error + audit_bundle"
where
  "build_audit_bundle_with_coinbase_script_sig_suffix c sg js shares fb prior policy suffix
      coinbase_key ledger_key =
    rbind (build_audit_bundle_body_with_coinbase_script_sig_suffix c sg js shares fb prior policy suffix
      coinbase_key ledger_key) (\<lambda>body. Inr (into_bundle body shares))"

definition build_audit_bundle_body ::
  "crypto \<Rightarrow> signer \<Rightarrow> serde \<Rightarrow> accepted_share list \<Rightarrow> found_block \<Rightarrow> carry_forward_balance list
    \<Rightarrow> payout_policy \<Rightarrow> bytes \<Rightarrow> bytes \<Rightarrow> prism_error + audit_bundle_body"
where
  "build_audit_bundle_body c sg js shares fb prior policy coinbase_key ledger_key =
    build_audit_bundle_body_with_coinbase_script_sig_suffix c sg js shares fb prior policy None
      coinbase_key ledger_key"

definition build_audit_bundle ::
  "crypto \<Rightarrow> signer \<Rightarrow> serde \<Rightarrow> accepted_share list \<Rightarrow> found_block \<Rightarrow> carry_forward_balance list
    \<Rightarrow> payout_policy \<Rightarrow> bytes \<Rightarrow> bytes \<Rightarrow> prism_error + audit_bundle"
where
  "build_audit_bundle c sg js shares fb prior policy coinbase_key ledger_key =
    rbind (build_audit_bundle_body c sg js shares fb prior policy coinbase_key ledger_key)
      (\<lambda>body. Inr (into_bundle body shares))"

section \<open>The builder with CTV settlement\<close>

definition build_audit_bundle_body_with_ctv_settlement_options_parallel ::
  "crypto \<Rightarrow> signer \<Rightarrow> serde \<Rightarrow> ctv_json \<Rightarrow> accepted_share list \<Rightarrow> found_block \<Rightarrow> window_cut option
    \<Rightarrow> carry_forward_balance list \<Rightarrow> payout_policy \<Rightarrow> u64 \<Rightarrow> settlement_config
    \<Rightarrow> fanout_fee_rate_policy option \<Rightarrow> string option \<Rightarrow> string list \<Rightarrow> bytes \<Rightarrow> bytes \<Rightarrow> parallelism
    \<Rightarrow> prism_error + audit_bundle_body"
where
  "build_audit_bundle_body_with_ctv_settlement_options_parallel c sg js cj shares fb wc prior policy
      direct_floor config fee_policy suffix wleaves coinbase_key ledger_key par =
    (if eq_ignore_ascii_case (public_key_hex c sg coinbase_key) (public_key_hex c sg ledger_key)
     then Inl LedgerAttestationKeyReuse
     else
     rbind (build_prism_reward_manifest_parallel c shares fb wc par) (\<lambda>rm.
     rbind (build_ledger_window_attestation c sg js rm prior ledger_key) (\<lambda>attestation.
     rbind (apply_payout_policy rm prior policy) (\<lambda>pm0.
     rbind (settlement_recipients_from_entitlements (py_onchain_entitlements pm0)) (\<lambda>recipients.
     rbind (select_settlement_mode_with_pinned_direct c recipients direct_floor config
       (pinned_settlement_recipient_for_policy pm0)) (\<lambda>decision.
     rbind (case fee_policy of Some fp \<Rightarrow> apply_ctv_fanout_fee_accounting c pm0 decision fp
       | None \<Rightarrow> Inr (pm0, [])) (\<lambda>(pm, fees).
     rbind (map_err Json (reward_manifest_sha256 c js rm par)) (\<lambda>reward_hash.
     rbind (map_err Json (canonical_payout_policy_manifest_bytes js pm)) (\<lambda>policy_bytes.
     rbind (prepare_fanouts c cj rm decision fees (hex_encode c reward_hash)
       (hex_encode c (sha256 c policy_bytes))) (\<lambda>prepared.
     let leaves = commitment_leaf_hex c reward_hash (sha256 c policy_bytes) # map pf_witness_leaf_hex prepared in
     rbind (audit_commitment_root_hex c leaves) (\<lambda>root.
     rbind (ctv_settlement_coinbase_entitlements decision prepared) (\<lambda>entitlements.
     rbind (build_profiled_signed_manifest c sg
       (audit_coinbase_request rm pm entitlements root wleaves suffix) coinbase_key)
       (\<lambda>signed_manifest.
     rbind (finalize_fanouts c cj (sm_manifest signed_manifest) prepared) (\<lambda>fanout_set.
     Inr \<lparr>bb_schema = audit_bundle_schema_for_shares shares, bb_found_block = fb,
          bb_prior_balances = prior, bb_payout_policy = policy, bb_suffix_hex = suffix,
          bb_witness_leaves_hex = wleaves, bb_commitment_leaves_hex = leaves,
          bb_commitment_root_hex = Some root, bb_attestation = attestation, bb_reward_manifest = rm,
          bb_policy_manifest = pm, bb_settlement_decision = Some decision, bb_fee_policy = fee_policy,
          bb_fanout_set = fanout_set, bb_signed_coinbase = signed_manifest\<rparr>))))))))))))))"

definition build_audit_bundle_body_with_ctv_settlement_options ::
  "crypto \<Rightarrow> signer \<Rightarrow> serde \<Rightarrow> ctv_json \<Rightarrow> accepted_share list \<Rightarrow> found_block
    \<Rightarrow> carry_forward_balance list \<Rightarrow> payout_policy \<Rightarrow> u64 \<Rightarrow> settlement_config
    \<Rightarrow> fanout_fee_rate_policy option \<Rightarrow> string option \<Rightarrow> string list \<Rightarrow> bytes \<Rightarrow> bytes
    \<Rightarrow> prism_error + audit_bundle_body"
where
  "build_audit_bundle_body_with_ctv_settlement_options c sg js cj shares fb prior policy direct_floor
      config fee_policy suffix wleaves coinbase_key ledger_key =
    build_audit_bundle_body_with_ctv_settlement_options_parallel c sg js cj shares fb None prior policy
      direct_floor config fee_policy suffix wleaves coinbase_key ledger_key parallelism_serial"

definition build_audit_bundle_with_ctv_settlement_options ::
  "crypto \<Rightarrow> signer \<Rightarrow> serde \<Rightarrow> ctv_json \<Rightarrow> accepted_share list \<Rightarrow> found_block
    \<Rightarrow> carry_forward_balance list \<Rightarrow> payout_policy \<Rightarrow> u64 \<Rightarrow> settlement_config
    \<Rightarrow> fanout_fee_rate_policy option \<Rightarrow> string option \<Rightarrow> string list \<Rightarrow> bytes \<Rightarrow> bytes
    \<Rightarrow> prism_error + audit_bundle"
where
  "build_audit_bundle_with_ctv_settlement_options c sg js cj shares fb prior policy direct_floor
      config fee_policy suffix wleaves coinbase_key ledger_key =
    rbind (build_audit_bundle_body_with_ctv_settlement_options c sg js cj shares fb prior policy
      direct_floor config fee_policy suffix wleaves coinbase_key ledger_key)
      (\<lambda>body. Inr (into_bundle body shares))"

end
