(* ===== verification/Audit_Verify.thy ===== *)
theory Audit_Verify
  imports Audit_Bundle
begin

text \<open>
  Verifying an audit bundle (\<open>lib.rs\<close>): the ledger's attestation is checked, every manifest is
  computed again from the shares and balances, the coinbase is built again and compared, and
  the digests of what was verified are reported.
\<close>

section \<open>The attestation\<close>

definition verify_ledger_window_attestation ::
  "crypto \<Rightarrow> signer \<Rightarrow> serde \<Rightarrow> audit_bundle \<Rightarrow> string \<Rightarrow> prism_error + unit" where
  "verify_ledger_window_attestation c sg js b writer_public_key_hex =
    (let a = ab_attestation b; fb = ab_found_block b in
     if la_schema a \<noteq> ledger_attestation_schema then Inl (AuditMismatch ''ledger_attestation_schema'')
     else if la_anchor_job_issued_at_ms a \<noteq> fb_anchor_job_issued_at_ms fb \<or>
       la_network_difficulty a \<noteq> fb_network_difficulty fb \<or> la_block_height a \<noteq> fb_block_height fb \<or>
       la_coinbase_value a \<noteq> fb_coinbase_value fb then Inl (AuditMismatch ''ledger_attestation_scope'')
     else if la_share_slice_digest_hex a \<noteq> rm_share_slice_digest_hex (ab_reward_manifest b)
       then Inl (AuditMismatch ''ledger_attestation_share_digest'')
     else if la_prior_balances_digest_hex a \<noteq> prior_balances_digest_hex c (ab_prior_balances b)
       then Inl (AuditMismatch ''ledger_attestation_prior_digest'')
     else if \<not> eq_ignore_ascii_case (sig_public_key_hex (la_signature a)) writer_public_key_hex
       then Inl (AuditMismatch ''ledger_attestation_public_key'')
     else if sig_algorithm (la_signature a) \<noteq> ''ed25519''
       then Inl (AuditMismatch ''ledger_attestation_signature'')
     else
     rbind (map_err Json (canonical_ledger_window_attestation_bytes js a)) (\<lambda>payload.
     map_err Builder (verify_ed25519_message c sg (sig_public_key_hex (la_signature a)) payload
       (sig_signature_hex (la_signature a)))))"

section \<open>The coinbase output policy\<close>

definition matches_pool_fee :: "pool_fee_manifest \<Rightarrow> string \<Rightarrow> string \<Rightarrow> string \<Rightarrow> bool" where
  "matches_pool_fee f recipient_id order_key program \<longleftrightarrow>
    recipient_id = pf_recipient_id f \<and> order_key = pf_order_key f \<and> eq_ignore_ascii_case program (pf_program f)"

definition recipient_is_pool_fee :: "pool_fee_manifest \<Rightarrow> settlement_recipient \<Rightarrow> bool" where
  "recipient_is_pool_fee f r \<longleftrightarrow> matches_pool_fee f (sr_recipient_id r) (sr_order_key r) (sr_program r)"

definition verify_coinbase_output_policy ::
  "policy_manifest \<Rightarrow> settlement_decision option \<Rightarrow> payout_manifest \<Rightarrow> prism_error + unit" where
  "verify_coinbase_output_policy pm decision m = (case pool_fee_first_output pm of
      None \<Rightarrow> Inr ()
    | Some f \<Rightarrow> (case pm_outputs m of
        [] \<Rightarrow> Inl (AuditMismatch ''coinbase_output_policy'')
      | out # _ \<Rightarrow>
          if po_vout out \<noteq> 0 \<or> \<not> matches_pool_fee f (po_recipient_id out) (po_order_key out) (po_program out) \<or>
            po_amount_sats out \<noteq> pf_amount_sats f then Inl (AuditMismatch ''coinbase_output_policy'')
          else (case decision of
              None \<Rightarrow> Inr ()
            | Some d \<Rightarrow>
                let fee_is_direct = list_ex (recipient_is_pool_fee f) (sd_direct_recipients d);
                    fee_in_fanout = list_ex (\<lambda>ch. list_ex (recipient_is_pool_fee f) (ch_recipients ch))
                      (sd_fanout_chunks d) in
                if \<not> fee_is_direct \<or> fee_in_fanout then Inl (AuditMismatch ''coinbase_output_policy'')
                else Inr ())))"

section \<open>The CTV settlement\<close>

definition settlement_recipient_cmp :: "settlement_recipient \<Rightarrow> string \<times> string \<times> string \<times> int" where
  "settlement_recipient_cmp r = (sr_order_key r, sr_recipient_id r, sr_program r, uint (sr_amount_sats r))"

definition covered_recipient :: "ctv_output \<Rightarrow> settlement_recipient" where
  "covered_recipient out = \<lparr>sr_recipient_id = co_recipient_id out, sr_order_key = co_order_key out,
    sr_program = co_program out,
    sr_amount_sats = (if co_gross_sats out = 0 then co_amount_sats out else co_gross_sats out)\<rparr>"

definition manifest_entitlement :: "ctv_manifest \<Rightarrow> weighted_entitlement" where
  "manifest_entitlement m =
    \<lparr>we_recipient_id = ''ctv-fanout-'' @ dec_word (pc_chunk_index (cm_precommitment m)),
     we_order_key = ''ctv-fanout-'' @ dec_padded 8 (unat (pc_chunk_index (cm_precommitment m))),
     we_program = pc_program_hex (cm_precommitment m), we_weight = u128_of_u64 (cm_covenant_value m)\<rparr>"

definition verify_settled_manifest ::
  "crypto \<Rightarrow> ctv_json \<Rightarrow> payout_manifest \<Rightarrow> string list \<Rightarrow> ctv_manifest \<Rightarrow> prism_error + unit" where
  "verify_settled_manifest c cj coinbase leaves m =
    (if cm_parent_hex m \<noteq> pm_coinbase_tx_hex coinbase then Inl (AuditMismatch ''ctv_fanout_parent_coinbase_tx'')
     else verify_ctv_fanout_manifest_commitment_leaf c cj m leaves)"

definition verify_fanout_set_of ::
  "crypto \<Rightarrow> ctv_json \<Rightarrow> settlement_decision \<Rightarrow> ctv_manifest_set option \<Rightarrow> payout_manifest \<Rightarrow> string list
    \<Rightarrow> prism_error + ctv_manifest list"
where
  "verify_fanout_set_of c cj decision fanout_set coinbase leaves =
    (if sd_fanout_chunk_count decision = 0 then
       (if fanout_set \<noteq> None then Inl (AuditMismatch ''unexpected_ctv_fanout_manifest_set'') else Inr [])
     else
     rbind (ok_or fanout_set (AuditMismatch ''ctv_fanout_manifest_set'')) (\<lambda>ms.
     rbind (verify_ctv_fanout_manifest_set c cj ms) (\<lambda>_.
     if ms_parent_txid ms \<noteq> pm_coinbase_txid coinbase then Inl (AuditMismatch ''ctv_fanout_parent_coinbase'')
     else if ms_settlement_mode ms \<noteq> sd_mode decision then Inl (AuditMismatch ''ctv_fanout_settlement_mode'')
     else if unat (ms_fanout_count ms) \<noteq> sd_fanout_chunk_count decision
       then Inl (AuditMismatch ''ctv_fanout_chunk_count'')
     else
     rbind (try_map (verify_settled_manifest c cj coinbase leaves) (ms_manifests ms)) (\<lambda>_.
     Inr (ms_manifests ms)))))"

definition verify_ctv_settlement_bundle ::
  "crypto \<Rightarrow> ctv_json \<Rightarrow> settlement_decision \<Rightarrow> ctv_manifest_set option \<Rightarrow> policy_manifest \<Rightarrow> payout_manifest
    \<Rightarrow> string list \<Rightarrow> prism_error + weighted_entitlement list"
where
  "verify_ctv_settlement_bundle c cj decision fanout_set pm coinbase leaves =
    rbind (verify_fanout_set_of c cj decision fanout_set coinbase leaves) (\<lambda>manifests.
    let covered = sd_direct_recipients decision @
        concat (map (\<lambda>m. map covered_recipient (pc_outputs (cm_precommitment m))) manifests) in
    rbind (settlement_recipients_from_entitlements (py_onchain_entitlements pm)) (\<lambda>expected.
    if sort_key settlement_recipient_cmp covered \<noteq> sort_key settlement_recipient_cmp expected
      then Inl (AuditMismatch ''ctv_settlement_coverage'')
    else Inr (map direct_entitlement (sd_direct_recipients decision) @ map manifest_entitlement manifests)))"

section \<open>The bundle\<close>

definition hex_vec_eq_ignore_ascii_case :: "string list \<Rightarrow> string list \<Rightarrow> bool" where
  "hex_vec_eq_ignore_ascii_case xs ys \<longleftrightarrow> length xs = length ys \<and>
    list_all (\<lambda>(x, y). eq_ignore_ascii_case x y) (zip xs ys)"

definition audit_verification_report ::
  "crypto \<Rightarrow> signer \<Rightarrow> serde \<Rightarrow> audit_bundle \<Rightarrow> payout_manifest \<Rightarrow> prism_error + audit_report" where
  "audit_verification_report c sg js b m =
    rbind (map_err Json (canonical_reward_manifest_bytes js (ab_reward_manifest b))) (\<lambda>reward.
    rbind (map_err Json (canonical_payout_policy_manifest_bytes js (ab_policy_manifest b))) (\<lambda>policy.
    rbind (prism_audit_commitment_leaf_hex c js (ab_reward_manifest b) (ab_policy_manifest b)) (\<lambda>leaf.
    rbind (audit_commitment_root_hex c (ab_commitment_leaves_hex b)) (\<lambda>root.
    rbind (map_err Json (sg_manifest_json sg m)) (\<lambda>coinbase.
    rbind (map_err Json (canonical_bytes js b)) (\<lambda>bundle.
    Inr \<lparr>ar_schema = ''qbit.prism.audit-verification-report.v1'',
         ar_block_height = fb_block_height (ab_found_block b),
         ar_coinbase_value = fb_coinbase_value (ab_found_block b),
         ar_reward_sha256_hex = sha256_hex c reward, ar_policy_sha256_hex = sha256_hex c policy,
         ar_commitment_leaf_hex = leaf, ar_commitment_root_hex = root,
         ar_coinbase_sha256_hex = sha256_hex c coinbase, ar_bundle_sha256_hex = sha256_hex c bundle,
         ar_coinbase_txid = pm_coinbase_txid m, ar_coinbase_wtxid = pm_coinbase_wtxid m,
         ar_coinbase_tx_hex = pm_coinbase_tx_hex m,
         ar_min_output_sats = py_min_output_sats (ab_policy_manifest b),
         ar_output_policy = py_coinbase_output_policy (ab_policy_manifest b),
         ar_onchain_output_count = length (pm_outputs m),
         ar_accrued_account_count =
           length (filter (\<lambda>a. pa_action a = Accrued) (py_accounts (ab_policy_manifest b)))\<rparr>))))))"

text \<open>The policy manifest expected of a bundle: the fee accounting is repeated when both parts are there.\<close>

definition expected_policy_manifest ::
  "crypto \<Rightarrow> reward_manifest \<Rightarrow> audit_bundle \<Rightarrow> prism_error + policy_manifest" where
  "expected_policy_manifest c rm b =
    rbind (apply_payout_policy rm (ab_prior_balances b) (ab_payout_policy b)) (\<lambda>pm.
    case (ab_settlement_decision b, ab_fee_policy b) of
      (Some d, Some fp) \<Rightarrow> rbind (apply_ctv_fanout_fee_accounting c pm d fp) (\<lambda>(pm', _). Inr pm')
    | _ \<Rightarrow> Inr pm)"

definition verify_audit_view ::
  "crypto \<Rightarrow> signer \<Rightarrow> serde \<Rightarrow> ctv_json \<Rightarrow> audit_bundle \<Rightarrow> string \<Rightarrow> prism_error + audit_report" where
  "verify_audit_view c sg js cj b writer_public_key_hex =
    (if ab_schema b \<noteq> audit_bundle_schema_for_shares (ab_shares b) then Inl (AuditMismatch ''schema'')
     else
     rbind (verify_ledger_window_attestation c sg js b writer_public_key_hex) (\<lambda>_.
     rbind (map_err Builder (verify_signed_manifest c sg (ab_signed_coinbase b))) (\<lambda>_.
     rbind (build_prism_reward_manifest_with_cut c (ab_shares b) (ab_found_block b)
       (rm_cut (ab_reward_manifest b))) (\<lambda>rm.
     if rm \<noteq> ab_reward_manifest b then Inl (AuditMismatch ''reward_manifest'')
     else
     rbind (expected_policy_manifest c rm b) (\<lambda>pm.
     if pm \<noteq> ab_policy_manifest b then Inl (AuditMismatch ''payout_policy_manifest'')
     else
     rbind (verify_coinbase_output_policy pm (ab_settlement_decision b) (sm_manifest (ab_signed_coinbase b))) (\<lambda>_.
     rbind (prism_audit_commitment_leaf_hex c js rm pm) (\<lambda>leaf.
     rbind (case ab_settlement_decision b of
         Some d \<Rightarrow> rbind (verify_ctv_settlement_bundle c cj d (ab_fanout_set b) pm
             (sm_manifest (ab_signed_coinbase b)) (ab_commitment_leaves_hex b)) (\<lambda>es.
           Inr (es, leaf # (case ab_fanout_set b of None \<Rightarrow> [] | Some ms \<Rightarrow> map cm_witness_leaf_hex (ms_manifests ms))))
       | None \<Rightarrow> Inr (py_onchain_entitlements pm, [leaf])) (\<lambda>(entitlements, leaves).
     if \<not> hex_vec_eq_ignore_ascii_case (ab_commitment_leaves_hex b) leaves
       then Inl (AuditMismatch ''audit_commitment_leaves'')
     else
     rbind (audit_commitment_root_hex c leaves) (\<lambda>root.
     if \<not> (case ab_commitment_root_hex b of None \<Rightarrow> False | Some r \<Rightarrow> eq_ignore_ascii_case r root)
       then Inl (AuditMismatch ''audit_commitment_root'')
     else
     rbind (map_err Builder (build_manifest c (audit_coinbase_request rm pm entitlements root
       (ab_witness_leaves_hex b) (ab_suffix_hex b)))) (\<lambda>m.
     if m \<noteq> sm_manifest (ab_signed_coinbase b) then Inl (AuditMismatch ''coinbase_manifest'')
     else audit_verification_report c sg js b m))))))))))"

definition verify_audit_bundle ::
  "crypto \<Rightarrow> signer \<Rightarrow> serde \<Rightarrow> ctv_json \<Rightarrow> audit_bundle \<Rightarrow> string \<Rightarrow> prism_error + audit_report" where
  "verify_audit_bundle c sg js cj b writer_public_key_hex =
    verify_audit_view c sg js cj (from_bundle b) writer_public_key_hex"

definition verify_audit_bundle_with_ledger_public_key ::
  "crypto \<Rightarrow> signer \<Rightarrow> serde \<Rightarrow> ctv_json \<Rightarrow> audit_bundle \<Rightarrow> string \<Rightarrow> prism_error + audit_report" where
  "verify_audit_bundle_with_ledger_public_key c sg js cj b writer_public_key_hex =
    verify_audit_bundle c sg js cj b writer_public_key_hex"

definition verify_audit_parts ::
  "crypto \<Rightarrow> signer \<Rightarrow> serde \<Rightarrow> ctv_json \<Rightarrow> audit_bundle_body \<Rightarrow> accepted_share list \<Rightarrow> string
    \<Rightarrow> prism_error + audit_report"
where
  "verify_audit_parts c sg js cj body shares writer_public_key_hex =
    verify_audit_view c sg js cj (from_parts body shares) writer_public_key_hex"

section \<open>Against the chain\<close>

text \<open>
  \<open>str::trim\<close>: the Unicode white space at both ends, each character as its UTF-8 bytes.
\<close>

definition utf8_seq :: "nat list \<Rightarrow> string" where
  "utf8_seq ns = map char_of ns"

definition white_space :: "string list" where
  "white_space = map (\<lambda>n. utf8_seq [n]) [9, 10, 11, 12, 13, 32] @ map utf8_seq [[0xc2, 0x85], [0xc2, 0xa0]] @
    map utf8_seq [[0xe1, 0x9a, 0x80], [0xe2, 0x80, 0xa8], [0xe2, 0x80, 0xa9], [0xe2, 0x80, 0xaf],
      [0xe2, 0x81, 0x9f], [0xe3, 0x80, 0x80]] @
    map (\<lambda>n. utf8_seq [0xe2, 0x80, n]) [0x80..<0x8b]"

function trim_start :: "string list \<Rightarrow> string \<Rightarrow> string" where
  "trim_start blanks s = (case find (\<lambda>b. b \<noteq> [] \<and> take (length b) s = b) blanks of
      None \<Rightarrow> s | Some b \<Rightarrow> trim_start blanks (drop (length b) s))"
  by pat_completeness auto

termination trim_start
  by (relation "measure (\<lambda>(_, s). length s)") (auto simp: find_Some_iff, metis length_drop length_greater_0_conv
    diff_less length_0_conv take_Nil)

declare trim_start.simps [simp del]

definition trim :: "string \<Rightarrow> string" where
  "trim s = rev (trim_start (map rev white_space) (rev (trim_start white_space s)))"

definition verify_audit_view_against_coinbase_tx_hex ::
  "crypto \<Rightarrow> signer \<Rightarrow> serde \<Rightarrow> ctv_json \<Rightarrow> audit_bundle \<Rightarrow> string \<Rightarrow> string \<Rightarrow> prism_error + audit_report" where
  "verify_audit_view_against_coinbase_tx_hex c sg js cj b onchain_hex writer_public_key_hex =
    rbind (verify_audit_view c sg js cj b writer_public_key_hex) (\<lambda>report.
    if \<not> eq_ignore_ascii_case (ar_coinbase_tx_hex report) (trim onchain_hex) then Inl AuditCoinbaseTxMismatch
    else Inr report)"

definition verify_audit_bundle_against_coinbase_tx_hex ::
  "crypto \<Rightarrow> signer \<Rightarrow> serde \<Rightarrow> ctv_json \<Rightarrow> audit_bundle \<Rightarrow> string \<Rightarrow> string \<Rightarrow> prism_error + audit_report" where
  "verify_audit_bundle_against_coinbase_tx_hex c sg js cj b onchain_hex writer_public_key_hex =
    verify_audit_view_against_coinbase_tx_hex c sg js cj (from_bundle b) onchain_hex writer_public_key_hex"

definition verify_audit_parts_against_coinbase_tx_hex ::
  "crypto \<Rightarrow> signer \<Rightarrow> serde \<Rightarrow> ctv_json \<Rightarrow> audit_bundle_body \<Rightarrow> accepted_share list \<Rightarrow> string \<Rightarrow> string
    \<Rightarrow> prism_error + audit_report"
where
  "verify_audit_parts_against_coinbase_tx_hex c sg js cj body shares onchain_hex writer_public_key_hex =
    verify_audit_view_against_coinbase_tx_hex c sg js cj (from_parts body shares) onchain_hex writer_public_key_hex"

definition verify_audit_view_against_coinbase_tx_hex_and_expected_coinbase_value ::
  "crypto \<Rightarrow> signer \<Rightarrow> serde \<Rightarrow> ctv_json \<Rightarrow> audit_bundle \<Rightarrow> string \<Rightarrow> string \<Rightarrow> u64 \<Rightarrow> prism_error + audit_report"
where
  "verify_audit_view_against_coinbase_tx_hex_and_expected_coinbase_value c sg js cj b onchain_hex
      writer_public_key_hex expected_value =
    rbind (verify_audit_view_against_coinbase_tx_hex c sg js cj b onchain_hex writer_public_key_hex) (\<lambda>report.
    if ar_coinbase_value report \<noteq> expected_value
      then Inl (ExpectedCoinbaseValueMismatch expected_value (ar_coinbase_value report))
    else Inr report)"

definition verify_audit_bundle_against_coinbase_tx_hex_and_expected_coinbase_value ::
  "crypto \<Rightarrow> signer \<Rightarrow> serde \<Rightarrow> ctv_json \<Rightarrow> audit_bundle \<Rightarrow> string \<Rightarrow> string \<Rightarrow> u64 \<Rightarrow> prism_error + audit_report"
where
  "verify_audit_bundle_against_coinbase_tx_hex_and_expected_coinbase_value c sg js cj b onchain_hex
      writer_public_key_hex expected_value =
    verify_audit_view_against_coinbase_tx_hex_and_expected_coinbase_value c sg js cj (from_bundle b)
      onchain_hex writer_public_key_hex expected_value"

definition verify_audit_parts_against_coinbase_tx_hex_and_expected_coinbase_value ::
  "crypto \<Rightarrow> signer \<Rightarrow> serde \<Rightarrow> ctv_json \<Rightarrow> audit_bundle_body \<Rightarrow> accepted_share list \<Rightarrow> string \<Rightarrow> string \<Rightarrow> u64
    \<Rightarrow> prism_error + audit_report"
where
  "verify_audit_parts_against_coinbase_tx_hex_and_expected_coinbase_value c sg js cj body shares onchain_hex
      writer_public_key_hex expected_value =
    verify_audit_view_against_coinbase_tx_hex_and_expected_coinbase_value c sg js cj (from_parts body shares)
      onchain_hex writer_public_key_hex expected_value"

end
