(* ===== verification/Audit_Hash.thy ===== *)
theory Audit_Hash
  imports Audit_Json "HOL-Library.Sublist"
begin

text \<open>
  The split digest is the digest of the whole bundle: chunked arrays and spliced structs have
  the bytes of the serial serializer, and prefix and suffix meet at the byte where the bundle
  continues.
\<close>

section \<open>What serde_json documents\<close>

text \<open>A string of printable characters without a quote or a backslash is only quoted.\<close>

definition plain_char :: "char \<Rightarrow> bool" where
  "plain_char ch \<longleftrightarrow> (let n = of_char ch :: nat in 32 \<le> n \<and> n < 127 \<and> n \<noteq> 34 \<and> n \<noteq> 92)"

definition serde_ok :: "serde \<Rightarrow> bool" where
  "serde_ok js \<longleftrightarrow> serde_compact js \<and>
    (\<forall>s. list_all plain_char s \<longrightarrow> sj_string js s = Inr (string_bytes ([CHR 0x22] @ s @ [CHR 0x22])))"

lemma struct_eq:
  "serde_compact js \<Longrightarrow> sj_struct js fs = rbind (compact_fields js True fs) (\<lambda>b. Inr (OPEN @ b @ CLOSE))"
  by (simp add: serde_compact_def)

lemma seq_eq:
  "serde_compact js \<Longrightarrow> sj_seq js items = rbind (compact_items True items) (\<lambda>b. Inr (LBRACK @ b @ RBRACK))"
  by (simp add: serde_compact_def)

lemma compact_fields_append:
  "compact_fields js first (fs @ gs) = rbind (compact_fields js first fs) (\<lambda>a.
    rbind (compact_fields js (first \<and> fs = []) gs) (\<lambda>b. Inr (a @ b)))"
proof (induction js first fs rule: compact_fields.induct)
  case (1 js first)
  then show ?case by (cases "compact_fields js first gs") simp_all
next
  case (2 js first key v fs)
  show ?case
    by (cases "sj_string js key"; cases v; cases "compact_fields js False fs"; cases "compact_fields js False gs")
      (simp_all add: 2)
qed

lemma compact_items_append:
  "compact_items first (xs @ ys) = rbind (compact_items first xs) (\<lambda>a.
    rbind (compact_items (first \<and> xs = []) ys) (\<lambda>b. Inr (a @ b)))"
proof (induction first xs rule: compact_items.induct)
  case (1 first)
  then show ?case by (cases "compact_items first ys") simp_all
next
  case (2 first x xs)
  show ?case
    by (cases x; cases "compact_items False xs"; cases "compact_items False ys") (simp_all add: 2)
qed

text \<open>The first field opens the struct, the others are preceded by a comma.\<close>

lemma compact_fields_later:
  "fs \<noteq> [] \<Longrightarrow> compact_fields js False fs = rbind (compact_fields js True fs) (\<lambda>r. Inr (COMMA @ r))"
proof (cases fs)
  case (Cons f gs)
  obtain key v where "f = (key, v)" by force
  then show ?thesis
    by (cases "sj_string js key"; cases v; cases "compact_fields js False gs") (simp_all add: Cons)
qed simp

section \<open>Chunked arrays\<close>

lemma try_map_map: "try_map f (map g xs) = try_map (\<lambda>x. f (g x)) xs"
  by (induction xs) (auto intro!: rbind_cong)

lemma array_frame_eq: "array_frame n items index = compact_items (index = 0) (chunk_range n items index)"
proof -
  have "try_fold (\<lambda>buffer (position, item). rbind item (\<lambda>v.
      Inr (buffer @ (if 0 < position \<or> 0 < index then COMMA else []) @ v))) buf (enumerate k xs) =
      rbind (compact_items (k = 0 \<and> index = 0) xs) (\<lambda>r. Inr (buf @ r))" for buf k xs
  proof (induction xs arbitrary: buf k)
    case (Cons x xs)
    show ?case by (cases x; cases "compact_items False xs") (simp_all add: Cons.IH)
  qed simp
  from this[of "[]" 0] show ?thesis
    by (cases "compact_items (index = 0) (chunk_range n items index)") (simp_all add: array_frame_def)
qed

lemma compact_items_concat:
  assumes "\<forall>xs\<in>set xss. xs \<noteq> []"
  shows "compact_items True (concat xss) =
    rbind (try_map (\<lambda>(i, xs). compact_items (i = 0) xs) (enumerate 0 xss)) (\<lambda>frames. Inr (concat frames))"
proof -
  have later: "compact_items False (concat yss) =
      rbind (try_map (\<lambda>(i, xs). compact_items (i = 0) xs) (enumerate (Suc k) yss)) (\<lambda>frames. Inr (concat frames))"
    for k yss
  proof (induction yss arbitrary: k)
    case (Cons ys yss)
    show ?case
      by (cases "compact_items False ys"; cases "try_map (\<lambda>(i, xs). compact_items (i = 0) xs) (enumerate (Suc (Suc k)) yss)")
        (simp_all add: compact_items_append Cons.IH[of "Suc k"])
  qed simp
  show ?thesis
  proof (cases xss)
    case (Cons xs yss)
    then show ?thesis using assms
      by (cases "compact_items True xs"; cases "try_map (\<lambda>(i, xs). compact_items (i = 0) xs) (enumerate (Suc 0) yss)")
        (simp_all add: compact_items_append later[of _ 0])
  qed simp
qed

lemma chunk_range_ne:
  assumes "0 < n" and "i < div_ceil (length xs) n"
  shows "chunk_range n xs i \<noteq> []"
proof -
  have "i * n < length xs"
  proof (rule ccontr)
    assume "\<not> i * n < length xs"
    then have "length xs + n - 1 < (i + 1) * n" using assms(1) by simp
    then have "(length xs + n - 1) div n < i + 1" using assms(1) by (simp add: div_less_iff_less_mult)
    then show False using assms(2) by (simp add: div_ceil_def)
  qed
  moreover have "i * n < (i + 1) * n" using assms(1) by simp
  ultimately show ?thesis by (simp add: chunk_range_def Let_def)
qed

lemma write_frames_eq:
  assumes "serde_compact js"
  shows "rbind (write_array_frames js items par) (\<lambda>frames. Inr (concat frames)) = sj_seq js items"
proof -
  let ?n = "max (min (par_chunk_len par) (length items)) 1"
  show ?thesis
  proof (cases "is_serial par \<or> length items \<le> ?n")
    case True
    then show ?thesis by (cases "sj_seq js items") (auto simp: write_array_frames_def Let_def)
  next
    case False
    have n: "0 < ?n" by simp
    let ?k = "div_ceil (length items) ?n"
    let ?xss = "map (chunk_range ?n items) [0..<?k]"
    have ne: "\<forall>xs\<in>set ?xss. xs \<noteq> []" using chunk_range_ne[OF n, of _ items] by fastforce
    have frames: "try_map (\<lambda>(i, xs). compact_items (i = 0) xs) (enumerate 0 ?xss) =
        try_map (array_frame ?n items) [0..<?k]"
      by (simp add: enumerate_map_upt try_map_map array_frame_eq[abs_def])
    have "concat ?xss = items" by (rule chunk_range_concat[OF n])
    with compact_items_concat[OF ne] have
      items: "compact_items True items = rbind (try_map (array_frame ?n items) [0..<?k]) (\<lambda>fr. Inr (concat fr))"
      by (simp only: frames)
    show ?thesis unfolding seq_eq[OF assms, of items] items using False
      by (cases "try_map (array_frame ?n items) [0..<?k]") (auto simp: write_array_frames_def Let_def)
  qed
qed

lemma write_array_eq: "serde_compact js \<Longrightarrow> write_array js items par = sj_seq js items"
  by (simp add: write_array_def write_frames_eq)

section \<open>Spliced structs\<close>

lemma splice_other:
  "field \<notin> fst ` set fs \<Longrightarrow>
    splice_fields js field spl first fs = rbind (compact_fields js first fs) (\<lambda>r. Inr (r @ CLOSE))"
proof (induction fs arbitrary: first)
  case (Cons f fs)
  obtain key v where f: "f = (key, v)" by force
  with Cons.prems have "key \<noteq> field" "field \<notin> fst ` set fs" by auto
  then show ?case using Cons.IH[of False]
    by (cases "sj_string js key"; cases v; cases "compact_fields js False fs") (simp_all add: f)
qed simp

lemma splice_eq:
  assumes "distinct (map fst fs)" and "\<And>v. (field, v) \<in> set fs \<Longrightarrow> spl = v"
  shows "splice_fields js field (Some spl) first fs = rbind (compact_fields js first fs) (\<lambda>r. Inr (r @ CLOSE))"
  using assms
proof (induction fs arbitrary: first)
  case (Cons f fs)
  obtain key v where f: "f = (key, v)" by force
  show ?case
  proof (cases "key = field")
    case True
    then have "field \<notin> fst ` set fs" "spl = v" using Cons.prems by (simp_all add: f)
    then show ?thesis using True
      by (cases "sj_string js key"; cases v; cases "compact_fields js False fs") (simp_all add: f splice_other)
  next
    case False
    have "splice_fields js field (Some spl) False fs = rbind (compact_fields js False fs) (\<lambda>r. Inr (r @ CLOSE))"
      using Cons by (intro Cons.IH) auto
    then show ?thesis using False
      by (cases "sj_string js key"; cases v; cases "compact_fields js False fs") (simp_all add: f)
  qed
qed simp

lemma struct_splice_eq:
  assumes "distinct (map fst fs)" and "\<And>v. (field, v) \<in> set fs \<Longrightarrow> spl = v"
  shows "struct_splice js opening field spl fs =
    rbind (compact_fields js True fs) (\<lambda>r. Inr (opening @ r @ CLOSE))"
  using splice_eq[OF assms, where js = js and first = True]
  by (cases "compact_fields js True fs") (simp_all add: struct_splice_def)

section \<open>The manifests\<close>

lemma subseq_distinct: "subseq xs ys \<Longrightarrow> distinct ys \<Longrightarrow> distinct xs"
  by (induction xs ys rule: list_emb.induct) (auto dest: list_emb_set)

lemma reward_fields_distinct: "distinct (map fst (reward_fields js m))"
  by (simp add: reward_fields_def split: option.splits)

lemma write_reward_eq:
  assumes "serde_compact js"
  shows "write_reward_manifest js m par = canonical_reward_manifest_bytes js m"
proof -
  have "write_array js (map (sj_counted_share js) (rm_shares m)) par = v"
    if "(''shares'', v) \<in> set (reward_fields js m)" for v
    using that write_array_eq[OF assms] by (auto simp: reward_fields_def split: option.splits)
  from struct_splice_eq[OF reward_fields_distinct this] show ?thesis
    by (simp add: write_reward_manifest_def canonical_reward_manifest_bytes_def struct_eq[OF assms])
qed

lemma reward_sha_eq:
  "serde_compact js \<Longrightarrow> reward_manifest_sha256 c js m par =
    rbind (canonical_reward_manifest_bytes js m) (\<lambda>b. Inr (sha256 c b))"
  by (simp add: reward_manifest_sha256_def write_reward_eq)

lemma suffix_fields_distinct: "distinct (map fst (suffix_fields js b))"
proof -
  have opt: "subseq (map fst (field_when k v f)) [k]" "subseq (map fst (strings_when js k xs)) [k]"
    for k :: string and v :: "'a option" and f xs
    by (auto simp: field_when_def strings_when_def split: option.splits)
  let ?keys = "[''found_block'', ''prior_balances'', ''payout_policy''] @ [''coinbase_script_sig_suffix_hex''] @
    [''witness_merkle_leaves_hex''] @ [''audit_commitment_leaves_hex''] @ [''audit_commitment_root_hex''] @
    [''ledger_window_attestation'', ''reward_manifest'', ''payout_policy_manifest''] @
    [''settlement_mode_decision''] @ [''ctv_fanout_fee_policy''] @ [''ctv_fanout_manifest_set''] @
    [''signed_coinbase_manifest'']"
  have "subseq (map fst (suffix_fields js b)) ?keys"
    unfolding suffix_fields_def map_append by (intro list_emb_append_mono opt) simp_all
  moreover have "distinct ?keys" by simp
  ultimately show ?thesis by (rule subseq_distinct)
qed

lemma suffix_fields_parts: "suffix_fields js (from_parts b shares) = suffix_fields js (from_parts b shares')"
  by (simp add: suffix_fields_def from_parts_def into_bundle_def)

lemma suffix_fields_ne: "suffix_fields js b \<noteq> []"
  by (simp add: suffix_fields_def)

lemma suffix_reward:
  "(''reward_manifest'', v) \<in> set (suffix_fields js (from_parts b shares)) \<Longrightarrow>
    v = canonical_reward_manifest_bytes js (bb_reward_manifest b)"
  by (auto simp: suffix_fields_def from_parts_def into_bundle_def field_when_def strings_when_def
      split: option.splits if_splits)

lemma write_suffix_eq:
  assumes "serde_compact js"
  shows "write_suffix_with js b par =
    rbind (compact_fields js True (suffix_fields js (from_parts b shares))) (\<lambda>r. Inr (COMMA @ r @ CLOSE))"
proof -
  have cont: "continue_object (OPEN @ r) = Inr (COMMA @ r)" for r
    by (simp add: continue_object_def OPEN_def string_bytes_def)
  have S: "struct_splice js COMMA ''reward_manifest'' (write_reward_manifest js (bb_reward_manifest b) par)
      (suffix_fields js (from_parts b [])) =
      rbind (compact_fields js True (suffix_fields js (from_parts b []))) (\<lambda>r. Inr (COMMA @ r @ CLOSE))"
    by (rule struct_splice_eq[OF suffix_fields_distinct]) (drule suffix_reward, simp add: write_reward_eq[OF assms])
  show ?thesis
    unfolding suffix_fields_parts[of js b shares "[]"]
    by (cases "compact_fields js True (suffix_fields js (from_parts b []))")
      (simp_all add: write_suffix_with_def write_suffix_def S struct_eq[OF assms] cont)
qed

lemma canonical_bytes_eq:
  assumes "serde_ok js"
  shows "canonical_bytes js (from_parts b shares) =
    rbind (write_prefix js (bb_schema b) shares) (\<lambda>p.
    rbind (compact_fields js True (suffix_fields js (from_parts b shares))) (\<lambda>r. Inr (p @ COMMA @ r @ CLOSE)))"
proof -
  have c: "serde_compact js" and
    key: "list_all plain_char s \<Longrightarrow> sj_string js s = Inr (string_bytes ([CHR 0x22] @ s @ [CHR 0x22]))" for s
    using assms by (auto simp: serde_ok_def)
  have keys: "sj_string js ''schema'' = Inr (string_bytes ([CHR 0x22] @ ''schema'' @ [CHR 0x22]))"
    "sj_string js ''shares'' = Inr (string_bytes ([CHR 0x22] @ ''shares'' @ [CHR 0x22]))"
    by (rule key; simp add: plain_char_def)+
  have view: "ab_schema (from_parts b shares) = bb_schema b" "ab_shares (from_parts b shares) = shares"
    by (simp_all add: from_parts_def into_bundle_def)
  show ?thesis
    unfolding canonical_bytes_def struct_eq[OF c] write_prefix_def write_prefix_header_def view
    by (cases "sj_string js (bb_schema b)"; cases "sj_seq js (map (sj_share js) shares)";
        cases "compact_fields js True (suffix_fields js (from_parts b shares))")
      (simp_all add: keys compact_fields_later[OF suffix_fields_ne] OPEN_def COMMA_def COLON_def string_bytes_def)
qed

lemma hash_prefix_eq:
  assumes "serde_compact js"
  shows "hash_prefix_new_with js shares par = hash_prefix_new js shares"
    and "hash_prefix_new_with_share_digest c js shares par =
      rbind (hash_prefix_new js shares) (\<lambda>p.
      rbind (sj_seq js (map (sj_share js) shares)) (\<lambda>array. Inr (p, sha256 c array)))"
proof -
  let ?h = "write_prefix_header js (audit_bundle_schema_for_shares shares)"
  let ?a = "sj_seq js (map (sj_share js) shares)"
  show "hash_prefix_new_with js shares par = hash_prefix_new js shares"
    by (cases ?h; cases ?a)
      (simp_all add: hash_prefix_new_with_def hash_prefix_new_def write_prefix_def Let_def write_array_eq[OF assms])
  show "hash_prefix_new_with_share_digest c js shares par =
      rbind (hash_prefix_new js shares) (\<lambda>p. rbind ?a (\<lambda>array. Inr (p, sha256 c array)))"
    by (cases ?h; cases ?a)
      (simp_all add: hash_prefix_new_with_share_digest_def hash_prefix_new_def write_prefix_def Let_def
        write_array_eq[OF assms] write_frames_eq[OF assms])
qed

end
