(* ===== verification/Audit_Facts.thy ===== *)
theory Audit_Facts
  imports Audit_Verify Audit_Hash
begin

text \<open>
  Facts the audit properties share: signatures and attestations the builder makes verify, the
  commitment leaves parse, and a pinned coinbase output is the first one with its own amount.
\<close>

section \<open>Hex as documented\<close>

text \<open>Lower-case output, two digits a byte, and a decoder that takes either case.\<close>

definition hex_documented :: "crypto \<Rightarrow> bool" where
  "hex_documented c \<longleftrightarrow> (\<forall>b. hex_encode c b = model_hex_encode b) \<and>
    (\<forall>s b. hex_decode c s = Inr b \<longleftrightarrow> model_hex_decode s = Inr b)"

lemma hex_value_lower: "hex_value ch = Some n \<Longrightarrow> hex_digit n = ascii_lower ch \<and> n < 16"
proof -
  assume v: "hex_value ch = Some n"
  let ?m = "of_char ch :: nat"
  have ch: "ch = char_of ?m" by simp
  from v consider "48 \<le> ?m" "?m < 58" "n = ?m - 48" | "97 \<le> ?m" "?m < 103" "n = ?m - 87"
    | "65 \<le> ?m" "?m < 71" "n = ?m - 55"
    by (auto simp: hex_value_def Let_def split: if_splits)
  then show ?thesis
  proof cases
    case 1
    then have "ascii_lower ch = ch" by (simp add: ascii_lower_def less_eq_char_def)
    moreover have "char_of (48 + n) = ch" "n < 10" using 1 by simp_all
    ultimately show ?thesis by (simp add: hex_digit_def)
  next
    case 2
    then have "ascii_lower ch = ch" by (simp add: ascii_lower_def less_eq_char_def)
    moreover have "char_of (87 + n) = ch" "\<not> n < 10" "n < 16" using 2 by (simp, linarith+)
    ultimately show ?thesis by (simp add: hex_digit_def)
  next
    case 3
    then have "87 + n = of_char ch + 32" by simp
    then have "char_of (87 + n) = ascii_lower ch" using 3 by (simp add: ascii_lower_def less_eq_char_def)
    moreover have "\<not> n < 10" "n < 16" using 3 by linarith+
    ultimately show ?thesis by (simp add: hex_digit_def)
  qed
qed

lemma model_hex_lower: "model_hex_decode s = Inr b \<Longrightarrow> model_hex_encode b = to_ascii_lowercase s"
proof (induction s arbitrary: b rule: model_hex_decode.induct)
  case (3 x y cs)
  then obtain m n bs where mn: "hex_value x = Some m" "hex_value y = Some n" and
    bs: "model_hex_decode cs = Inr bs" and b: "b = word_of_nat (16 * m + n) # bs"
    by (auto split: option.splits)
  note X = hex_value_lower[OF mn(1)] and Y = hex_value_lower[OF mn(2)]
  have "16 * m + n < 256" using X Y by linarith
  then have u: "unat (word_of_nat (16 * m + n) :: u8) = 16 * m + n"
    by (simp add: unat_of_nat del: of_nat_add of_nat_mult)
  have "(16 * m + n) div 16 = m" "(16 * m + n) mod 16 = n" using Y by simp_all
  moreover have "model_hex_encode bs = to_ascii_lowercase cs" using 3(1)[OF _ refl refl] mn bs by simp
  ultimately show ?case using X Y b u
    by (simp add: model_hex_encode_def to_ascii_lowercase_def del: of_nat_add of_nat_mult)
qed (auto simp: model_hex_encode_def to_ascii_lowercase_def)

lemma hex_documented_ok: "hex_documented c \<Longrightarrow> hex_ok c"
  using model_hex_ok by (simp add: hex_documented_def hex_ok_def model_crypto_def)

lemma hex_lower: "hex_documented c \<Longrightarrow> hex_decode c s = Inr b \<Longrightarrow> hex_encode c b = to_ascii_lowercase s"
  by (simp add: hex_documented_def model_hex_lower)

lemma hex_encode_lower: "hex_documented c \<Longrightarrow> to_ascii_lowercase (hex_encode c b) = hex_encode c b"
  using hex_lower[of c "hex_encode c b" b] hex_documented_ok by (simp add: hex_ok_def)

lemma same_program:
  "hex_documented c \<Longrightarrow> hex_decode c s = Inr b \<Longrightarrow> eq_ignore_ascii_case (hex_encode c b) s"
  by (simp add: eq_ignore_ascii_case_def hex_lower)

lemma model_hex_documented: "hex_documented model_crypto"
  by (simp add: hex_documented_def model_crypto_def)

section \<open>Signatures\<close>

lemma signature_verifies:
  assumes "hex_ok c" and "signer_ok sg key"
  shows "verify_ed25519_message c sg (public_key_hex c sg key) m (sign_message_hex c sg key m) = Inr ()"
  using assms
  by (simp add: verify_ed25519_message_def public_key_hex_def sign_message_hex_def hex_decode_b_def hex_ok_def
      signer_ok_def)

lemma profiled_manifest:
  assumes "hex_ok c" and "signer_ok sg key" and "build_profiled_signed_manifest c sg req key = Inr sm"
  shows "build_manifest c req = Inr (sm_manifest sm)" and "verify_signed_manifest c sg sm = Inr ()"
    and "\<exists>b. sg_manifest_json sg (sm_manifest sm) = Inr b"
  using assms(3) signature_verifies[OF assms(1,2)]
  by (auto simp: build_profiled_signed_manifest_def verify_signed_manifest_def canonical_manifest_bytes_def)

lemma attestation_fields:
  assumes "build_ledger_window_attestation c sg js rm prior key = Inr a"
  shows "la_schema a = ledger_attestation_schema" "la_block_height a = rm_block_height rm"
    "la_coinbase_value a = rm_coinbase_value rm" "la_anchor_job_issued_at_ms a = rm_anchor_job_issued_at_ms rm"
    "la_network_difficulty a = rm_network_difficulty rm"
    "la_share_slice_digest_hex a = rm_share_slice_digest_hex rm"
    "la_prior_balances_digest_hex a = prior_balances_digest_hex c prior"
    "sig_algorithm (la_signature a) = ''ed25519''"
    "sig_public_key_hex (la_signature a) = public_key_hex c sg key"
    "\<exists>payload. canonical_ledger_window_attestation_bytes js a = Inr payload \<and>
      sig_signature_hex (la_signature a) = sign_message_hex c sg key payload"
  using assms
  by (auto simp: build_ledger_window_attestation_def Let_def canonical_ledger_window_attestation_bytes_def)

lemma manifest_fields:
  assumes "build_prism_reward_manifest_with_cut c shares fb wc = Inr rm"
  shows "rm_block_height rm = fb_block_height fb" "rm_coinbase_value rm = fb_coinbase_value fb"
    "rm_network_difficulty rm = fb_network_difficulty fb"
    "rm_anchor_job_issued_at_ms rm = fb_anchor_job_issued_at_ms fb" "rm_cut rm = wc"
  using assms
  by (auto simp: build_prism_reward_manifest_with_cut_def manifest_of_window_def compute_prism_window_in_cut_def Let_def)

lemma attestation_verifies:
  assumes "hex_ok c" and "signer_ok sg key"
    and "build_prism_reward_manifest_with_cut c shares fb wc = Inr (ab_reward_manifest b)"
    and "build_ledger_window_attestation c sg js (ab_reward_manifest b) (ab_prior_balances b) key = Inr (ab_attestation b)"
    and "ab_found_block b = fb"
  shows "verify_ledger_window_attestation c sg js b (public_key_hex c sg key) = Inr ()"
proof -
  note A = attestation_fields[OF assms(4)]
  note M = manifest_fields[OF assms(3)]
  show ?thesis using A(10) signature_verifies[OF assms(1,2)]
    by (auto simp: verify_ledger_window_attestation_def Let_def A(1-9) M assms(5))
qed

section \<open>Commitment leaves\<close>

lemma leaf_bytes_parse:
  assumes "hex_ok c" and "\<forall>b\<in>set bs. length b = 32" and "bs \<noteq> []"
  shows "parse_audit_commitment_leaves c (map (hex_encode c) bs) = Inr bs"
proof -
  have "try_map (\<lambda>(index, raw). parse_audit_commitment_leaf c raw index) (enumerate k (map (hex_encode c) bs)) = Inr bs"
    for k using assms(2)
    by (induction bs arbitrary: k) (use assms(1) in \<open>simp_all add: parse_audit_commitment_leaf_def hex_ok_def\<close>)
  then show ?thesis using assms(3) by (simp add: parse_audit_commitment_leaves_def)
qed

lemma commitment_leaf_bytes:
  "commitment_leaf_hex c r p = hex_encode c (sha256 c (string_bytes PRISM_AUDIT_COMMITMENT_LEAF_TAG @ r @ p))"
  by (simp add: commitment_leaf_hex_def sha256_hex_def)

lemma parse_leaves_Inr:
  "parse_audit_commitment_leaves c leaves = Inr bs \<longleftrightarrow>
    leaves \<noteq> [] \<and> list_all2 (\<lambda>raw b. hex_decode c raw = Inr b \<and> length b = 32) leaves bs"
  by (auto simp: parse_audit_commitment_leaves_def try_map_Inr list_all2_conv_all_nth nth_enumerate_eq
      parse_audit_commitment_leaf_def)

lemma root_Inr:
  "audit_commitment_root_hex c leaves = Inr root \<longleftrightarrow>
    (\<exists>bs r. parse_audit_commitment_leaves c leaves = Inr bs \<and> merkle_root c bs = Some r \<and> root = hex_encode c r)"
  by (auto simp: audit_commitment_root_hex_def)

lemma hex_vec_eq_refl [simp]: "hex_vec_eq_ignore_ascii_case xs xs"
  by (auto simp: hex_vec_eq_ignore_ascii_case_def list_all_iff in_set_zip)

section \<open>The first coinbase output\<close>

lemma manifest_outputs:
  assumes "build_manifest c req = Inr m"
  obtains built where "build_coinbase c req = Inr built" "allocate_outputs c req = Inr (bc_outputs built)"
    "pm_outputs m = map (payout_output_of c) (enumerate 0 (bc_outputs built))"
    "pm_coinbase_tx_hex m = hex_encode c (bc_tx_with_witness built)"
    "pm_coinbase_txid m = display_hash_hex (bc_txid built)"
proof -
  from assms obtain built where "build_coinbase c req = Inr built"
    "pm_outputs m = map (payout_output_of c) (enumerate 0 (bc_outputs built))"
    "pm_coinbase_tx_hex m = hex_encode c (bc_tx_with_witness built)"
    "pm_coinbase_txid m = display_hash_hex (bc_txid built)"
    by (auto simp: build_manifest_def Let_def)
  moreover from this(1) have "allocate_outputs c req = Inr (bc_outputs built)"
    by (auto simp: build_coinbase_def Let_def split: if_splits)
  ultimately show thesis using that by blast
qed

text \<open>A successful pin has one match, which becomes the first output.\<close>

lemma pinned_output:
  assumes alloc: "allocate_outputs c req = Inr outs" and pin: "cr_pinned_first_output req = Some p"
    and e: "e \<in> set (cr_entitlements req)" "pin_matches p e"
    and sum: "(\<Sum>e\<leftarrow>cr_entitlements req. e_weight e) = uint (cr_coinbase_value req)"
  shows "\<exists>x xs. outs = x # xs \<and> output_for c e x \<and> uint (ao_amount_sats x) = e_weight e"
proof -
  let ?s = "sort_key entitlement_key (cr_entitlements req)"
  from alloc pin obtain i where i: "pinned_entitlement_index ?s p = Inr i"
    and run: "allocate_ordered c (cr_coinbase_value req) (rotate_prefix i ?s) = Inr outs"
    by (auto simp: allocate_outputs_def Let_def split: if_splits)
  note I = pinned_index_Inr[OF i]
  obtain j where j: "j < length ?s" "?s ! j = e" using e(1) by (metis in_set_conv_nth set_sort)
  then have "j = i" using I(2) e(2) by blast
  then have es: "rotate_prefix i ?s = e # take i ?s @ drop (i + 1) ?s"
    using rotate_prefix_split[OF I(1)] j by simp
  note rows = allocate_ordered_rows(2)[OF run, unfolded es]
  then obtain x xs where outs: "outs = x # xs" "output_for c e x" by (cases outs) auto
  moreover have "uint (ao_amount_sats x) = uint (ao_weight x)"
    using outputs_pay_weights[OF alloc sum] by (simp add: outs)
  ultimately show ?thesis by (auto simp: output_for_def)
qed

lemma pool_fee_first_facts:
  assumes "pool_fee_first_output pm = Some f"
  shows "py_pool_fee pm = Some f" "0 < pf_amount_sats f"
  using assms by (auto simp: pool_fee_first_output_def split: if_splits option.splits)

text \<open>
  The coinbase output policy holds of a coinbase whose request has an entitlement of the pool
  fee: the same account, its program up to case, its amount as weight.
\<close>

lemma first_output_is_fee:
  assumes hex: "hex_documented c" and m: "build_manifest c req = Inr m"
    and pin: "cr_pinned_first_output req = pinned_first_output_for_policy pm"
    and f: "pool_fee_first_output pm = Some f"
    and e: "e \<in> set (cr_entitlements req)" "we_recipient_id e = pf_recipient_id f"
      "we_order_key e = pf_order_key f" "eq_ignore_ascii_case (we_program e) (pf_program f)"
      "e_weight e = uint (pf_amount_sats f)"
    and sum: "(\<Sum>e\<leftarrow>cr_entitlements req. e_weight e) = uint (cr_coinbase_value req)"
  shows "\<exists>out outs. pm_outputs m = out # outs \<and> po_vout out = 0 \<and>
    matches_pool_fee f (po_recipient_id out) (po_order_key out) (po_program out) \<and>
    po_amount_sats out = pf_amount_sats f"
proof -
  obtain built where built: "build_coinbase c req = Inr built" "allocate_outputs c req = Inr (bc_outputs built)"
    "pm_outputs m = map (payout_output_of c) (enumerate 0 (bc_outputs built))"
    by (rule manifest_outputs[OF m]) blast
  let ?p = "\<lparr>pin_recipient_id = pf_recipient_id f, pin_order_key = pf_order_key f, pin_program = pf_program f\<rparr>"
  have p: "cr_pinned_first_output req = Some ?p" using pin f by (simp add: pinned_first_output_for_policy_def)
  have "pin_matches ?p e" using e by (simp add: pin_matches_def)
  from pinned_output[OF built(2) p e(1) this sum] obtain x xs where
    x: "bc_outputs built = x # xs" "output_for c e x" "uint (ao_amount_sats x) = e_weight e" by blast
  have "ao_amount_sats x = pf_amount_sats f" using x(3) e(5) by (simp add: word_uint_eq_iff)
  moreover have "eq_ignore_ascii_case (hex_encode c (ao_p2mr_program x)) (pf_program f)"
    using x(2) e(4) same_program[OF hex, of "we_program e"]
    by (auto simp: output_for_def eq_ignore_ascii_case_def parse_p2mr_program_def)
  ultimately show ?thesis using x(1,2) e(2,3) built(3)
    by (simp add: payout_output_of_def matches_pool_fee_def output_for_def)
qed

end
