(* ===== verification/Audit_Check.thy ===== *)
theory Audit_Check
  imports Audit_Facts
begin

text \<open>
  The checks of \<open>verify_audit_view\<close> taken together: what makes it succeed, and what its success
  establishes; and the parts of a bundle built without CTV settlement.
\<close>

section \<open>The verifier\<close>

text \<open>The coinbase entitlements and commitment leaves the verifier expects.\<close>

definition expected_settlement ::
  "crypto \<Rightarrow> ctv_json \<Rightarrow> audit_bundle \<Rightarrow> policy_manifest \<Rightarrow> string
    \<Rightarrow> prism_error + weighted_entitlement list \<times> string list"
where
  "expected_settlement c cj b pm leaf = (case ab_settlement_decision b of
      Some d \<Rightarrow> rbind (verify_ctv_settlement_bundle c cj d (ab_fanout_set b) pm
          (sm_manifest (ab_signed_coinbase b)) (ab_commitment_leaves_hex b)) (\<lambda>es.
        Inr (es, leaf # (case ab_fanout_set b of None \<Rightarrow> [] | Some ms \<Rightarrow> map cm_witness_leaf_hex (ms_manifests ms))))
    | None \<Rightarrow> Inr (py_onchain_entitlements pm, [leaf]))"

definition verified_parts ::
  "crypto \<Rightarrow> signer \<Rightarrow> serde \<Rightarrow> ctv_json \<Rightarrow> audit_bundle \<Rightarrow> string
    \<Rightarrow> string \<Rightarrow> weighted_entitlement list \<Rightarrow> string list \<Rightarrow> string \<Rightarrow> bool"
where
  "verified_parts c sg js cj b writer leaf es leaves root \<longleftrightarrow>
    ab_schema b = audit_bundle_schema_for_shares (ab_shares b) \<and>
    verify_ledger_window_attestation c sg js b writer = Inr () \<and>
    verify_signed_manifest c sg (ab_signed_coinbase b) = Inr () \<and>
    build_prism_reward_manifest_with_cut c (ab_shares b) (ab_found_block b) (rm_cut (ab_reward_manifest b)) =
      Inr (ab_reward_manifest b) \<and>
    expected_policy_manifest c (ab_reward_manifest b) b = Inr (ab_policy_manifest b) \<and>
    verify_coinbase_output_policy (ab_policy_manifest b) (ab_settlement_decision b)
      (sm_manifest (ab_signed_coinbase b)) = Inr () \<and>
    prism_audit_commitment_leaf_hex c js (ab_reward_manifest b) (ab_policy_manifest b) = Inr leaf \<and>
    expected_settlement c cj b (ab_policy_manifest b) leaf = Inr (es, leaves) \<and>
    hex_vec_eq_ignore_ascii_case (ab_commitment_leaves_hex b) leaves \<and>
    audit_commitment_root_hex c leaves = Inr root \<and>
    (\<exists>r. ab_commitment_root_hex b = Some r \<and> eq_ignore_ascii_case r root) \<and>
    build_manifest c (audit_coinbase_request (ab_reward_manifest b) (ab_policy_manifest b) es root
      (ab_witness_leaves_hex b) (ab_suffix_hex b)) = Inr (sm_manifest (ab_signed_coinbase b))"

lemma verify_view_Inr:
  "verify_audit_view c sg js cj b writer = Inr report \<longleftrightarrow>
    (\<exists>leaf es leaves root. verified_parts c sg js cj b writer leaf es leaves root) \<and>
    audit_verification_report c sg js b (sm_manifest (ab_signed_coinbase b)) = Inr report"
proof -
  have view: "verify_audit_view c sg js cj b writer =
    (if ab_schema b \<noteq> audit_bundle_schema_for_shares (ab_shares b) then Inl (AuditMismatch ''schema'')
     else
     rbind (verify_ledger_window_attestation c sg js b writer) (\<lambda>_.
     rbind (map_err Builder (verify_signed_manifest c sg (ab_signed_coinbase b))) (\<lambda>_.
     rbind (build_prism_reward_manifest_with_cut c (ab_shares b) (ab_found_block b)
       (rm_cut (ab_reward_manifest b))) (\<lambda>rm.
     if rm \<noteq> ab_reward_manifest b then Inl (AuditMismatch ''reward_manifest'')
     else
     rbind (expected_policy_manifest c rm b) (\<lambda>pm.
     if pm \<noteq> ab_policy_manifest b then Inl (AuditMismatch ''payout_policy_manifest'')
     else
     rbind (verify_coinbase_output_policy pm (ab_settlement_decision b) (sm_manifest (ab_signed_coinbase b))) (\<lambda>_.
     rbind (prism_audit_commitment_leaf_hex c js rm pm) (\<lambda>leaf.
     rbind (expected_settlement c cj b pm leaf) (\<lambda>el.
     if \<not> hex_vec_eq_ignore_ascii_case (ab_commitment_leaves_hex b) (snd el)
       then Inl (AuditMismatch ''audit_commitment_leaves'')
     else
     rbind (audit_commitment_root_hex c (snd el)) (\<lambda>root.
     if \<not> (case ab_commitment_root_hex b of None \<Rightarrow> False | Some r \<Rightarrow> eq_ignore_ascii_case r root)
       then Inl (AuditMismatch ''audit_commitment_root'')
     else
     rbind (map_err Builder (build_manifest c (audit_coinbase_request rm pm (fst el) root
       (ab_witness_leaves_hex b) (ab_suffix_hex b)))) (\<lambda>m.
     if m \<noteq> sm_manifest (ab_signed_coinbase b) then Inl (AuditMismatch ''coinbase_manifest'')
     else audit_verification_report c sg js b m))))))))))"
    by (simp only: verify_audit_view_def expected_settlement_def case_prod_unfold)
  show ?thesis unfolding view verified_parts_def
    by (auto split: option.splits)
qed

lemma report_exists:
  assumes "canonical_reward_manifest_bytes js (ab_reward_manifest b) = Inr rb"
    and "canonical_payout_policy_manifest_bytes js (ab_policy_manifest b) = Inr pb"
    and "audit_commitment_root_hex c (ab_commitment_leaves_hex b) = Inr root"
    and "sg_manifest_json sg m = Inr mb" and "canonical_bytes js b = Inr whole"
  obtains report where "audit_verification_report c sg js b m = Inr report"
    "ar_bundle_sha256_hex report = sha256_hex c whole" "ar_coinbase_tx_hex report = pm_coinbase_tx_hex m"
    "ar_coinbase_value report = fb_coinbase_value (ab_found_block b)"
    "ar_commitment_root_hex report = root"
    "ar_reward_sha256_hex report = sha256_hex c rb" "ar_policy_sha256_hex report = sha256_hex c pb"
  using assms that
  by (simp add: audit_verification_report_def prism_audit_commitment_leaf_hex_def)

section \<open>A bundle without CTV settlement\<close>

lemma body_parts:
  assumes compact: "serde_compact js" and par: "0 < par_chunk_len par"
    and build: "build_audit_bundle_body_with_coinbase_options_parallel c sg js shares fb wc prior policy
      sfx wleaves ck lk par = Inr body"
  obtains rb pb root where
    "build_prism_reward_manifest_with_cut c shares fb wc = Inr (bb_reward_manifest body)"
    "build_ledger_window_attestation c sg js (bb_reward_manifest body) prior lk = Inr (bb_attestation body)"
    "apply_payout_policy (bb_reward_manifest body) prior policy = Inr (bb_policy_manifest body)"
    "canonical_reward_manifest_bytes js (bb_reward_manifest body) = Inr rb"
    "canonical_payout_policy_manifest_bytes js (bb_policy_manifest body) = Inr pb"
    "bb_commitment_leaves_hex body = [commitment_leaf_hex c (sha256 c rb) (sha256 c pb)]"
    "audit_commitment_root_hex c (bb_commitment_leaves_hex body) = Inr root"
    "bb_commitment_root_hex body = Some root"
    "build_profiled_signed_manifest c sg (audit_coinbase_request (bb_reward_manifest body) (bb_policy_manifest body)
      (py_onchain_entitlements (bb_policy_manifest body)) root wleaves sfx) ck = Inr (bb_signed_coinbase body)"
    "bb_schema body = audit_bundle_schema_for_shares shares" "bb_found_block body = fb"
    "bb_prior_balances body = prior" "bb_payout_policy body = policy" "bb_suffix_hex body = sfx"
    "bb_witness_leaves_hex body = wleaves" "bb_settlement_decision body = None"
    "bb_fee_policy body = None" "bb_fanout_set body = None"
proof -
  from build show thesis
    unfolding build_audit_bundle_body_with_coinbase_options_parallel_def if_Inl_Inr rbind_Inr Let_def
      build_manifest_parallel[OF par] reward_sha_eq[OF compact] map_err_Inr sum.inject
    by (elim exE conjE) (rule that, auto)
qed

end
