(* ===== verification/Audit_Accept.thy ===== *)
theory Audit_Accept
  imports Audit_Check
begin

text \<open>
  What the builder makes, the verifier accepts: the bundle built without CTV settlement against
  its own coinbase transaction.
\<close>

section \<open>Hex digits are not white space\<close>

definition hex_chars :: "string \<Rightarrow> bool" where
  "hex_chars s \<longleftrightarrow> (\<forall>ch\<in>set s. hex_value ch \<noteq> None)"

lemma white_space_ends:
  "list_all (\<lambda>b. b \<noteq> [] \<and> hex_value (hd b) = None \<and> hex_value (last b) = None) white_space"
  by code_simp

lemma trim_start_hex:
  assumes "hex_chars s" and "\<And>b. b \<in> set blanks \<Longrightarrow> b \<noteq> [] \<Longrightarrow> hex_value (hd b) = None"
  shows "trim_start blanks s = s"
proof -
  have "find (\<lambda>b. b \<noteq> [] \<and> take (length b) s = b) blanks = None"
  proof (simp only: find_None_iff, rule notI, elim exE conjE)
    fix b assume b: "b \<in> set blanks" "b \<noteq> []" and p: "take (length b) s = b"
    have "set b \<subseteq> set s" using p set_take_subset by metis
    then have "hd b \<in> set s" using b(2) by auto
    then show False using assms(1) assms(2)[OF b] by (auto simp: hex_chars_def)
  qed
  then show ?thesis by (subst trim_start.simps) simp
qed

lemma trim_hex: "hex_chars s \<Longrightarrow> trim s = s"
proof -
  assume s: "hex_chars s"
  have ends: "b \<noteq> [] \<and> hex_value (hd b) = None \<and> hex_value (last b) = None" if "b \<in> set white_space" for b
    using white_space_ends that by (simp add: list_all_iff)
  have front: "trim_start white_space s = s" by (rule trim_start_hex[OF s]) (use ends in blast)
  have "hex_chars (rev s)" using s by (simp add: hex_chars_def)
  then have "trim_start (map rev white_space) (rev s) = rev s"
    by (rule trim_start_hex) (use ends in \<open>auto simp: hd_rev\<close>)
  then show "trim s = s" by (simp add: trim_def front)
qed

lemma hex_encode_chars: "hex_documented c \<Longrightarrow> hex_chars (hex_encode c b)"
proof -
  assume "hex_documented c"
  then have e: "hex_encode c b = model_hex_encode b" by (simp add: hex_documented_def)
  have "unat x div 16 < 16" for x :: u8 using unsigned_less[of x, where ?'a = nat] by simp
  then show ?thesis by (auto simp: e hex_chars_def model_hex_encode_def hex_value_digit)
qed

section \<open>From the checks to the report\<close>

lemma verified_accepts:
  assumes hex: "hex_documented c"
    and parts: "verified_parts c sg js cj b writer leaf es (ab_commitment_leaves_hex b) root"
    and json: "sg_manifest_json sg (sm_manifest (ab_signed_coinbase b)) = Inr mb"
    and whole: "canonical_bytes js b = Inr whole"
  obtains report where
    "verify_audit_view_against_coinbase_tx_hex_and_expected_coinbase_value c sg js cj b
      (pm_coinbase_tx_hex (sm_manifest (ab_signed_coinbase b))) writer (fb_coinbase_value (ab_found_block b)) =
      Inr report"
    "ar_bundle_sha256_hex report = sha256_hex c whole" "ar_commitment_root_hex report = root"
proof -
  let ?m = "sm_manifest (ab_signed_coinbase b)"
  from parts obtain rb pb where bytes: "canonical_reward_manifest_bytes js (ab_reward_manifest b) = Inr rb"
    "canonical_payout_policy_manifest_bytes js (ab_policy_manifest b) = Inr pb"
    by (auto simp: verified_parts_def prism_audit_commitment_leaf_hex_def)
  have root: "audit_commitment_root_hex c (ab_commitment_leaves_hex b) = Inr root"
    using parts by (simp add: verified_parts_def)
  from report_exists[OF bytes root json whole] obtain report where
    r: "audit_verification_report c sg js b ?m = Inr report" "ar_bundle_sha256_hex report = sha256_hex c whole"
    "ar_coinbase_tx_hex report = pm_coinbase_tx_hex ?m" "ar_coinbase_value report = fb_coinbase_value (ab_found_block b)"
    "ar_commitment_root_hex report = root" by metis
  have v: "verify_audit_view c sg js cj b writer = Inr report"
    using verify_view_Inr parts r(1) by blast
  have "build_manifest c (audit_coinbase_request (ab_reward_manifest b) (ab_policy_manifest b) es root
      (ab_witness_leaves_hex b) (ab_suffix_hex b)) = Inr ?m"
    using parts by (simp add: verified_parts_def)
  from manifest_outputs[OF this] obtain t where "pm_coinbase_tx_hex ?m = hex_encode c t" by metis
  then have "trim (pm_coinbase_tx_hex ?m) = pm_coinbase_tx_hex ?m"
    by (simp add: trim_hex hex_encode_chars[OF hex])
  then have "verify_audit_view_against_coinbase_tx_hex_and_expected_coinbase_value c sg js cj b
      (pm_coinbase_tx_hex ?m) writer (fb_coinbase_value (ab_found_block b)) = Inr report"
    by (simp add: verify_audit_view_against_coinbase_tx_hex_and_expected_coinbase_value_def
        verify_audit_view_against_coinbase_tx_hex_def v r(3,4) eq_ignore_ascii_case_def)
  then show thesis using r(2,5) that by blast
qed

section \<open>The bundle without CTV settlement\<close>

lemma output_policy_direct:
  assumes hex: "hex_documented c" and pm: "apply_payout_policy rm prior policy = Inr pm"
    and m: "build_manifest c req = Inr m"
    and req: "cr_entitlements req = py_onchain_entitlements pm" "cr_coinbase_value req = rm_coinbase_value rm"
      "cr_pinned_first_output req = pinned_first_output_for_policy pm"
  shows "verify_coinbase_output_policy pm None m = Inr ()"
proof (cases "pool_fee_first_output pm")
  case (Some f)
  note F = pool_fee_first_facts[OF Some]
  let ?e = "\<lparr>we_recipient_id = pf_recipient_id f, we_order_key = pf_order_key f, we_program = pf_program f,
    we_weight = u128_of_u64 (pf_amount_sats f)\<rparr>"
  have e: "?e \<in> set (cr_entitlements req)" using policy_onchain_form(2)[OF pm F] by (simp add: req)
  have sum: "(\<Sum>e\<leftarrow>cr_entitlements req. e_weight e) = uint (cr_coinbase_value req)"
    using policy_onchain_sound[OF pm] by (simp add: req)
  from first_output_is_fee[OF hex m req(3) Some e _ _ _ _ sum] obtain out outs where
    o: "pm_outputs m = out # outs" "po_vout out = 0"
      "matches_pool_fee f (po_recipient_id out) (po_order_key out) (po_program out)"
      "po_amount_sats out = pf_amount_sats f"
    by (auto simp: eq_ignore_ascii_case_def)
  then show ?thesis by (simp add: verify_coinbase_output_policy_def Some)
qed (simp add: verify_coinbase_output_policy_def)

lemma built_body_verified:
  assumes hex: "hex_documented c" and signer: "signer_ok sg ck" "signer_ok sg lk"
    and compact: "serde_compact js" and par: "0 < par_chunk_len par"
    and build: "build_audit_bundle_body_with_coinbase_options_parallel c sg js shares fb wc prior policy
      sfx wleaves ck lk par = Inr body"
  obtains leaf root where
    "verified_parts c sg js cj (into_bundle body shares) (public_key_hex c sg lk) leaf
      (py_onchain_entitlements (bb_policy_manifest body)) (bb_commitment_leaves_hex body) root"
    "\<exists>mb. sg_manifest_json sg (sm_manifest (bb_signed_coinbase body)) = Inr mb"
    "bb_found_block body = fb" "bb_commitment_root_hex body = Some root"
    "bb_schema body = audit_bundle_schema_for_shares shares"
proof -
  note hok = hex_documented_ok[OF hex]
  obtain rb pb root where B:
    "build_prism_reward_manifest_with_cut c shares fb wc = Inr (bb_reward_manifest body)"
    "build_ledger_window_attestation c sg js (bb_reward_manifest body) prior lk = Inr (bb_attestation body)"
    "apply_payout_policy (bb_reward_manifest body) prior policy = Inr (bb_policy_manifest body)"
    "canonical_reward_manifest_bytes js (bb_reward_manifest body) = Inr rb"
    "canonical_payout_policy_manifest_bytes js (bb_policy_manifest body) = Inr pb"
    "bb_commitment_leaves_hex body = [commitment_leaf_hex c (sha256 c rb) (sha256 c pb)]"
    "audit_commitment_root_hex c (bb_commitment_leaves_hex body) = Inr root"
    "bb_commitment_root_hex body = Some root"
    "build_profiled_signed_manifest c sg (audit_coinbase_request (bb_reward_manifest body) (bb_policy_manifest body)
      (py_onchain_entitlements (bb_policy_manifest body)) root wleaves sfx) ck = Inr (bb_signed_coinbase body)"
    "bb_schema body = audit_bundle_schema_for_shares shares" "bb_found_block body = fb"
    "bb_prior_balances body = prior" "bb_payout_policy body = policy" "bb_suffix_hex body = sfx"
    "bb_witness_leaves_hex body = wleaves" "bb_settlement_decision body = None"
    "bb_fee_policy body = None" "bb_fanout_set body = None"
    by (rule body_parts[OF compact par build])
  note P = profiled_manifest[OF hok signer(1) B(9)]
  let ?b = "into_bundle body shares"
  have view: "ab_shares ?b = shares" "ab_schema ?b = bb_schema body" "ab_found_block ?b = fb"
    "ab_reward_manifest ?b = bb_reward_manifest body" "ab_policy_manifest ?b = bb_policy_manifest body"
    "ab_prior_balances ?b = prior" "ab_payout_policy ?b = policy" "ab_attestation ?b = bb_attestation body"
    "ab_signed_coinbase ?b = bb_signed_coinbase body" "ab_settlement_decision ?b = None" "ab_fee_policy ?b = None"
    "ab_commitment_leaves_hex ?b = bb_commitment_leaves_hex body" "ab_commitment_root_hex ?b = Some root"
    "ab_witness_leaves_hex ?b = wleaves" "ab_suffix_hex ?b = sfx" "ab_fanout_set ?b = None"
    using B(8,11-18) by (simp_all add: into_bundle_def)
  have a: "verify_ledger_window_attestation c sg js ?b (public_key_hex c sg lk) = Inr ()"
    by (rule attestation_verifies[OF hok signer(2), where fb = fb and shares = shares and wc = wc])
      (simp_all add: view B(1,2))
  have cut: "rm_cut (bb_reward_manifest body) = wc" by (rule manifest_fields(5)[OF B(1)])
  have policy_ok: "verify_coinbase_output_policy (bb_policy_manifest body) None
      (sm_manifest (bb_signed_coinbase body)) = Inr ()"
    by (rule output_policy_direct[OF hex B(3) P(1)]) (simp_all add: audit_coinbase_request_def)
  have "verified_parts c sg js cj ?b (public_key_hex c sg lk) (commitment_leaf_hex c (sha256 c rb) (sha256 c pb))
      (py_onchain_entitlements (bb_policy_manifest body)) (bb_commitment_leaves_hex body) root"
    unfolding verified_parts_def view
    using B(1,3-7,10) a P(1,2) policy_ok cut
    by (simp add: expected_policy_manifest_def expected_settlement_def view prism_audit_commitment_leaf_hex_def
        eq_ignore_ascii_case_def)
  then show thesis using P(3) B(8,10,11) that by blast
qed

end
