(* ===== verification/Audit_Samples.thy ===== *)
theory Audit_Samples
  imports Audit_Accept Reward_Properties
begin

text \<open>
  When a coinbase is built, and a concrete block of two miners and a pool fee whose bundle the
  properties are exercised on.
\<close>

section \<open>A coinbase is built\<close>

lemma outputs_sums:
  assumes alloc: "allocate_outputs c req = Inr outs"
    and sum: "(\<Sum>e\<leftarrow>cr_entitlements req. e_weight e) = uint (cr_coinbase_value req)"
  shows "amount_sum outs = Inr (cr_coinbase_value req)"
    and "\<exists>w. checked_sum WeightOverflow ao_weight outs = Inr w"
proof -
  from outputs_in_order[OF alloc] obtain es where
    es: "mset es = mset (cr_entitlements req)" "list_all2 (output_for c) es outs" by metis
  have pay: "map (\<lambda>x. uint (ao_amount_sats x)) outs = map (\<lambda>x. uint (ao_weight x)) outs"
    by (rule outputs_pay_weights[OF alloc sum])
  have "map (\<lambda>x. uint (ao_weight x)) outs = map e_weight es"
    using es(2) by (induction rule: list_all2_induct) (simp_all add: output_for_def)
  moreover have "(\<Sum>e\<leftarrow>es. e_weight e) = uint (cr_coinbase_value req)"
    using es(1) sum by (metis mset_map sum_mset_sum_list)
  ultimately have total: "(\<Sum>x\<leftarrow>outs. uint (ao_weight x)) = uint (cr_coinbase_value req)" by simp
  then show "amount_sum outs = Inr (cr_coinbase_value req)"
    by (simp add: amount_sum_def checked_sum_Inr pay)
  have "checked_sum WeightOverflow ao_weight outs = Inr (u128_of_u64 (cr_coinbase_value req))"
    using total by (simp add: checked_sum_Inr uint_u128_of_u64)
  then show "\<exists>w. checked_sum WeightOverflow ao_weight outs = Inr w" ..
qed

lemma serialized_output_length:
  assumes "output_for c e x"
  shows "length (serialize_output x) \<le> 51"
  using assms by (auto simp: serialize_output_def output_for_def p2mr_script_pubkey_def compact_size_def
      parse_p2mr_program_def P2MR_PROGRAM_LEN_def split: if_splits)

lemma manifest_builds:
  assumes hash: "hash_ok c" and alloc: "allocate_outputs c req = Inr outs"
    and sum: "(\<Sum>e\<leftarrow>cr_entitlements req. e_weight e) = uint (cr_coinbase_value req)"
    and nonce: "witness_nonce c req = Inr nonce" "length nonce = 32"
    and leaves: "witness_leaves c req = Inr leaves"
    and sfx: "coinbase_script_sig_suffix c req = Inr sfx" and ss: "coinbase_script_sig c req = Inr script_sig"
    and lock: "coinbase_lock_time (cr_block_height req) = Inr lock"
    and count: "length outs \<le> 10000"
  shows "\<exists>m. build_manifest c req = Inr m"
proof -
  from outputs_in_order[OF alloc] obtain es where "list_all2 (output_for c) es outs" by metis
  then have each: "length (serialize_output x) \<le> 51" if "x \<in> set outs" for x
    using that serialized_output_length by (metis in_set_conv_nth list_all2_conv_all_nth)
  then have outs: "length (concat (map serialize_output outs)) \<le> 510000"
    using sum_list_mono[of outs "\<lambda>x. length (serialize_output x)" "\<lambda>_. 51"] count
    by (simp add: length_concat comp_def sum_list_triv)
  have h: "length (hash256_pair c a b) = 32" for a b using hash by (simp add: hash256_pair_def hash256_length)
  have ssl: "length script_sig \<le> 100"
    using ss by (auto simp: coinbase_script_sig_def Let_def MAX_COINBASE_SCRIPT_SIG_LEN_def split: if_splits)
  have com: "length (witness_commitment_script c leaves nonce) \<le> 100"
    by (simp add: witness_commitment_script_def h builder_const_evals)
  from outputs_sums[OF alloc sum] obtain w where
    sums: "amount_sum outs = Inr (cr_coinbase_value req)" "checked_sum WeightOverflow ao_weight outs = Inr w" by blast
  have cs: "length (compact_size v) \<le> 9" for v :: u64 by (simp add: compact_size_def)
  let ?input = "compact_size 1 @ replicate 32 0 @ le_bytes 4 0xffffffff @
      compact_size (word_of_nat (length script_sig)) @ script_sig @ le_bytes 4 (uint MAX_SEQUENCE_NONFINAL)"
  let ?tx = "le_bytes 4 2 @ [0, 1] @ ?input @ serialize_outputs outs (witness_commitment_script c leaves nonce) @
      serialize_witness nonce @ le_bytes 4 (uint lock)"
  have "length ?tx \<le> MAX_BLOCK_WEIGHT"
    using outs com ssl cs[of 1] cs[of "word_of_nat (length script_sig)"] cs[of "word_of_nat 32"]
      cs[of "word_of_nat (length outs + 1)"] cs[of "word_of_nat (length (witness_commitment_script c leaves nonce))"]
    by (simp add: serialize_outputs_def serialize_witness_def nonce(2) MAX_BLOCK_WEIGHT_def)
  then have "\<exists>built. build_coinbase c req = Inr built"
    by (simp add: build_coinbase_def serialize_coinbase_input_def alloc nonce(1) leaves ss lock sums Let_def)
  then show ?thesis by (auto simp: build_manifest_def ss sfx nonce(1) Let_def)
qed

section \<open>A serializer\<close>

definition quoted :: "string \<Rightarrow> bytes" where
  "quoted s = string_bytes ([CHR 0x22] @ s @ [CHR 0x22])"

definition sample_serde :: serde where
  "sample_serde =
    (let js = \<lparr>sj_struct = \<lambda>_. Inr [], sj_seq = \<lambda>items. rbind (compact_items True items) (\<lambda>b. Inr (LBRACK @ b @ RBRACK)),
      sj_string = \<lambda>s. Inr (quoted s), sj_u64 = \<lambda>_. Inr (string_bytes ''0''),
      sj_u128 = \<lambda>_. Inr (string_bytes ''0''), sj_i64 = \<lambda>_. Inr [], sj_usize = \<lambda>_. Inr [],
      sj_share = \<lambda>s. Inr (quoted (sh_share_id s)), sj_counted_share = \<lambda>s. Inr (quoted (cs_share_id s)),
      sj_entitlement = \<lambda>e. Inr (quoted (we_recipient_id e)), sj_cut = \<lambda>_. Inr [], sj_found_block = \<lambda>_. Inr [],
      sj_balance = \<lambda>b. Inr (quoted (cb_recipient_id b)), sj_policy = \<lambda>_. Inr [], sj_attestation = \<lambda>_. Inr [],
      sj_policy_manifest = \<lambda>m. Inr (concat (map (\<lambda>a. quoted (pa_recipient_id a)) (py_accounts m))),
      sj_decision = \<lambda>_. Inr [], sj_fee_policy = \<lambda>_. Inr [], sj_fanout_set = \<lambda>_. Inr [],
      sj_signed_manifest = \<lambda>_. Inr []\<rparr> in
     js\<lparr>sj_struct := \<lambda>fs. rbind (compact_fields js True fs) (\<lambda>b. Inr (OPEN @ b @ CLOSE))\<rparr>)"

lemma compact_fields_cong:
  "sj_string js = sj_string js' \<Longrightarrow> compact_fields js first fs = compact_fields js' first fs"
  by (induction js first fs rule: compact_fields.induct) (simp_all cong: rbind_cong)

lemma sample_serde_ok: "serde_ok sample_serde" and sample_serde_compact: "serde_compact sample_serde"
proof -
  show "serde_compact sample_serde"
    by (auto simp: serde_compact_def sample_serde_def Let_def intro!: rbind_cong compact_fields_cong)
  then show "serde_ok sample_serde" by (simp add: serde_ok_def sample_serde_def Let_def quoted_def)
qed

lemma compact_items_ok: "\<forall>i\<in>set items. \<exists>b. i = Inr b \<Longrightarrow> \<exists>r. compact_items first items = Inr r"
  by (induction items arbitrary: first) auto

lemma sample_seq_ok: "\<exists>r. sj_seq sample_serde (map (\<lambda>x. Inr (f x)) xs) = Inr r"
  using compact_items_ok[of "map (\<lambda>x. Inr (f x)) xs" True] by (auto simp: sample_serde_def Let_def)

lemma compact_fields_ok:
  "(\<And>k. \<exists>b. sj_string js k = Inr b) \<Longrightarrow> \<forall>(k, v)\<in>set fs. \<exists>b. v = Inr b \<Longrightarrow>
    \<exists>r. compact_fields js first fs = Inr r"
proof (induction js first fs rule: compact_fields.induct)
  case (2 js first key v fs)
  obtain k where "sj_string js key = Inr k" using "2.prems"(1) by blast
  moreover obtain b where "v = Inr b" using "2.prems"(2) by auto
  moreover obtain r where "compact_fields js False fs = Inr r" using 2 by fastforce
  ultimately show ?case by simp
qed simp

lemma sample_struct_ok:
  assumes "\<forall>(k, v)\<in>set fs. \<exists>b. v = Inr b"
  shows "\<exists>r. sj_struct sample_serde fs = Inr r"
proof -
  have "\<exists>r. compact_fields sample_serde True fs = Inr r"
    by (rule compact_fields_ok[OF _ assms]) (simp add: sample_serde_def Let_def)
  then show ?thesis by (auto simp: struct_eq[OF sample_serde_compact])
qed

lemma sample_values:
  "sj_string sample_serde = (\<lambda>s. Inr (quoted s))" "\<exists>b. sj_u64 sample_serde n = Inr b"
  "\<exists>b. sj_u128 sample_serde w = Inr b" "\<exists>b. sj_i64 sample_serde i = Inr b" "\<exists>b. sj_usize sample_serde u = Inr b"
  "sj_share sample_serde = (\<lambda>s. Inr (quoted (sh_share_id s)))"
  "sj_counted_share sample_serde = (\<lambda>s. Inr (quoted (cs_share_id s)))"
  "sj_entitlement sample_serde = (\<lambda>e. Inr (quoted (we_recipient_id e)))" "\<exists>b. sj_cut sample_serde wc = Inr b"
  "\<exists>b. sj_found_block sample_serde fb = Inr b"
  "sj_balance sample_serde = (\<lambda>b. Inr (quoted (cb_recipient_id b)))" "\<exists>b. sj_policy sample_serde p = Inr b"
  "\<exists>b. sj_attestation sample_serde a = Inr b" "\<exists>b. sj_policy_manifest sample_serde pm = Inr b"
  "\<exists>b. sj_decision sample_serde d = Inr b" "\<exists>b. sj_fee_policy sample_serde fp = Inr b"
  "\<exists>b. sj_fanout_set sample_serde ms = Inr b" "\<exists>b. sj_signed_manifest sample_serde sm = Inr b"
  by (simp_all add: sample_serde_def Let_def)

lemma sample_reward_bytes: "\<exists>b. canonical_reward_manifest_bytes sample_serde m = Inr b"
  unfolding canonical_reward_manifest_bytes_def reward_fields_def
  by (rule sample_struct_ok) (auto simp: sample_values sample_seq_ok split: option.splits)

lemma sample_policy_bytes: "\<exists>b. canonical_payout_policy_manifest_bytes sample_serde m = Inr b"
  by (simp add: canonical_payout_policy_manifest_bytes_def sample_values)

lemma sample_attestation_bytes: "\<exists>b. canonical_ledger_window_attestation_bytes sample_serde a = Inr b"
  unfolding canonical_ledger_window_attestation_bytes_def
  by (rule sample_struct_ok) (auto simp: sample_values)

lemma sample_bundle_bytes: "\<exists>b. canonical_bytes sample_serde a = Inr b"
  unfolding canonical_bytes_def suffix_fields_def
  by (rule sample_struct_ok)
    (auto simp: sample_values sample_seq_ok sample_reward_bytes field_when_def strings_when_def split: option.splits if_splits)

section \<open>A block\<close>

definition audit_program :: "u8 \<Rightarrow> string" where
  "audit_program n = model_hex_encode (replicate 32 n)"

definition audit_shares :: "accepted_share list" where
  "audit_shares = map (\<lambda>s. s\<lparr>sh_program := audit_program (if sh_miner_id s = ''m1'' then 7 else 9)\<rparr>) sample_shares"

definition audit_policy :: payout_policy where
  "audit_policy = \<lparr>pp_spend_input_bytes = 1, pp_target_feerate = 1, pp_safety_multiplier = 1,
     pp_min_output_sats = Some 5, pp_pool_fee_policy = Some \<lparr>fp_fee_bps = 200, fp_recipient_id = ''pool'',
       fp_order_key = ''p'', fp_program = audit_program 11\<rparr>, pp_coinbase_output_policy = PoolFeeFirst\<rparr>"

definition audit_entitlements :: "weighted_entitlement list" where
  "audit_entitlements =
    [\<lparr>we_recipient_id = ''m1'', we_order_key = ''k'', we_program = audit_program 7, we_weight = 6\<rparr>,
     \<lparr>we_recipient_id = ''m2'', we_order_key = ''k'', we_program = audit_program 9, we_weight = 2\<rparr>]"

definition audit_window :: prism_window where
  "audit_window = sample_window\<lparr>pw_entitlements := audit_entitlements,
    pw_shares := map (\<lambda>s. s\<lparr>cs_program := audit_program (if cs_miner_id s = ''m1'' then 7 else 9)\<rparr>)
      (pw_shares sample_window)\<rparr>"

lemma audit_window_ok: "compute_prism_window_in_cut audit_shares sample_block None = Inr audit_window"
  by code_simp

definition audit_reward :: reward_manifest where
  "audit_reward = projr (build_prism_reward_manifest_with_cut model_crypto audit_shares sample_block None)"

lemma audit_reward_built:
  "build_prism_reward_manifest_with_cut model_crypto audit_shares sample_block None =
    manifest_of_window sample_block None audit_window (share_slice_digest_hex model_crypto (pw_shares audit_window))"
  by (simp add: build_prism_reward_manifest_with_cut_def audit_window_ok)

lemma audit_window_shares: "pw_shares audit_window \<noteq> []" "pw_entitlements audit_window = audit_entitlements"
  by (simp_all add: audit_window_def sample_window_def Let_def)

lemma audit_reward_ok:
  "build_prism_reward_manifest_with_cut model_crypto audit_shares sample_block None = Inr audit_reward"
  by (simp add: audit_reward_def audit_reward_built manifest_of_window_def audit_window_shares)

lemma audit_reward_fields: "rm_coinbase_value audit_reward = 5000" "rm_block_height audit_reward = 10"
  "rm_entitlements audit_reward = audit_entitlements"
  by (simp_all add: audit_reward_def audit_reward_built manifest_of_window_def audit_window_shares)
    (simp_all add: sample_block_def)

lemma policy_of_fields:
  "rm_coinbase_value rm = rm_coinbase_value rm' \<Longrightarrow> rm_block_height rm = rm_block_height rm' \<Longrightarrow>
    rm_entitlements rm = rm_entitlements rm' \<Longrightarrow> apply_payout_policy rm bs p = apply_payout_policy rm' bs p"
  by (simp only: apply_payout_policy_def)

definition audit_policy_manifest :: policy_manifest where
  "audit_policy_manifest = projr (apply_payout_policy (sample_reward 5000 audit_entitlements) [] audit_policy)"

lemma audit_policy_ok: "apply_payout_policy audit_reward [] audit_policy = Inr audit_policy_manifest"
proof -
  have "\<not> isl (apply_payout_policy (sample_reward 5000 audit_entitlements) [] audit_policy)" by code_simp
  then have "apply_payout_policy (sample_reward 5000 audit_entitlements) [] audit_policy = Inr audit_policy_manifest"
    by (simp add: audit_policy_manifest_def)
  moreover have "apply_payout_policy audit_reward [] audit_policy =
      apply_payout_policy (sample_reward 5000 audit_entitlements) [] audit_policy"
    by (rule policy_of_fields) (simp_all add: audit_reward_fields sample_reward_def)
  ultimately show ?thesis by simp
qed

text \<open>The request of the bundle, and the parts of its coinbase that do not depend on the root.\<close>

definition audit_request :: "string \<Rightarrow> coinbase_build_request" where
  "audit_request root = audit_coinbase_request audit_reward audit_policy_manifest
    (py_onchain_entitlements audit_policy_manifest) root [] None"

lemma audit_outputs:
  "\<exists>outs. allocate_outputs model_crypto (audit_request root) = Inr outs \<and> length outs = 3"
proof -
  let ?req = "\<lparr>cr_block_height = 10, cr_coinbase_value = 5000,
     cr_entitlements = py_onchain_entitlements audit_policy_manifest, cr_witness_nonce_hex = None,
     cr_witness_merkle_leaves_hex = [], cr_script_sig_suffix_hex = None,
     cr_pinned_first_output = pinned_first_output_for_policy audit_policy_manifest\<rparr>"
  have "(case allocate_outputs model_crypto ?req of Inl _ \<Rightarrow> False | Inr outs \<Rightarrow> length outs = 3)" by code_simp
  moreover have "allocate_outputs model_crypto (audit_request root) = allocate_outputs model_crypto ?req"
    by (simp add: allocate_outputs_def audit_request_def audit_coinbase_request_def audit_reward_fields)
  ultimately show ?thesis by (auto split: sum.splits)
qed

lemma audit_coinbase_values:
  "coinbase_script_sig_suffix model_crypto (audit_request root) = Inr []"
  "coinbase_script_sig model_crypto (audit_request root) = Inr [0x5a, 0]"
  "coinbase_lock_time (cr_block_height (audit_request root)) = Inr 9"
  "witness_leaves model_crypto (audit_request root) = Inr []"
proof -
  have h: "coinbase_height_script 10 = Inr [0x5a, 0]" by code_simp
  have l: "coinbase_lock_time 10 = Inr 9" by code_simp
  have r: "cr_block_height (audit_request root) = 10" "cr_script_sig_suffix_hex (audit_request root) = None"
    "cr_witness_merkle_leaves_hex (audit_request root) = []"
    by (simp_all add: audit_request_def audit_coinbase_request_def audit_reward_fields)
  show s: "coinbase_script_sig_suffix model_crypto (audit_request root) = Inr []"
    by (simp add: coinbase_script_sig_suffix_def r)
  show "coinbase_script_sig model_crypto (audit_request root) = Inr [0x5a, 0]"
    by (simp add: coinbase_script_sig_def r s h MAX_COINBASE_SCRIPT_SIG_LEN_def)
  show "coinbase_lock_time (cr_block_height (audit_request root)) = Inr 9" by (simp only: r l)
  show "witness_leaves model_crypto (audit_request root) = Inr []" by (simp add: witness_leaves_def r)
qed

lemma audit_manifest_builds:
  assumes "length nonce = 32"
  shows "\<exists>m. build_manifest model_crypto (audit_request (model_hex_encode nonce)) = Inr m"
proof -
  obtain outs where outs: "allocate_outputs model_crypto (audit_request (model_hex_encode nonce)) = Inr outs"
    "length outs = 3" using audit_outputs by blast
  have "(\<Sum>e\<leftarrow>py_onchain_entitlements audit_policy_manifest. e_weight e) = uint (rm_coinbase_value audit_reward)"
    using policy_onchain_sound[OF audit_policy_ok] by blast
  then have sum: "(\<Sum>e\<leftarrow>cr_entitlements (audit_request (model_hex_encode nonce)). e_weight e) =
      uint (cr_coinbase_value (audit_request (model_hex_encode nonce)))"
    by (simp add: audit_request_def audit_coinbase_request_def)
  have n: "witness_nonce model_crypto (audit_request (model_hex_encode nonce)) = Inr nonce"
    using assms model_hex_ok
    by (simp add: witness_nonce_def audit_request_def audit_coinbase_request_def hex_decode_b_def hex_ok_def
        model_crypto_def)
  show ?thesis
    by (rule manifest_builds[OF model_hash_ok outs(1) sum n assms audit_coinbase_values(4,1,2,3)]) (simp add: outs(2))
qed

definition audit_body :: audit_bundle_body where
  "audit_body = projr (build_audit_bundle_body_with_coinbase_options_parallel model_crypto model_signer sample_serde
    audit_shares sample_block None [] audit_policy None [] [1] [2] parallelism_serial)"

lemma audit_body_ok:
  "build_audit_bundle_body_with_coinbase_options_parallel model_crypto model_signer sample_serde
    audit_shares sample_block None [] audit_policy None [] [1] [2] parallelism_serial = Inr audit_body"
proof -
  obtain rb where rb: "canonical_reward_manifest_bytes sample_serde audit_reward = Inr rb"
    using sample_reward_bytes by blast
  obtain pb where pb: "canonical_payout_policy_manifest_bytes sample_serde audit_policy_manifest = Inr pb"
    using sample_policy_bytes by blast
  obtain att where att: "build_ledger_window_attestation model_crypto model_signer sample_serde audit_reward [] [2] = Inr att"
    using sample_attestation_bytes by (fastforce simp: build_ledger_window_attestation_def Let_def)
  let ?leaf = "sha256 model_crypto (string_bytes PRISM_AUDIT_COMMITMENT_LEAF_TAG @ sha256 model_crypto rb @
    sha256 model_crypto pb)"
  have len: "length ?leaf = 32" using model_hash_ok by (simp add: hash_ok_def)
  have root: "audit_commitment_root_hex model_crypto [commitment_leaf_hex model_crypto (sha256 model_crypto rb)
      (sha256 model_crypto pb)] = Inr (model_hex_encode ?leaf)"
    using leaf_bytes_parse[OF model_hex_ok, of "[?leaf]"] len
    by (simp add: audit_commitment_root_hex_def commitment_leaf_bytes model_crypto_def)
  obtain m where m: "build_manifest model_crypto (audit_request (model_hex_encode ?leaf)) = Inr m"
    using audit_manifest_builds[OF len] by blast
  have keys: "\<not> eq_ignore_ascii_case (public_key_hex model_crypto model_signer [1])
      (public_key_hex model_crypto model_signer [2])" by code_simp
  have par: "build_prism_reward_manifest_parallel model_crypto audit_shares sample_block None parallelism_serial =
      Inr audit_reward"
    by (simp add: build_prism_reward_manifest_parallel_def audit_reward_ok is_serial_def parallelism_serial_def)
  have json: "sg_manifest_json model_signer x = Inr (string_bytes (pm_coinbase_txid x))" for x
    by (simp add: model_signer_def)
  have "\<not> isl (build_audit_bundle_body_with_coinbase_options_parallel model_crypto model_signer sample_serde
    audit_shares sample_block None [] audit_policy None [] [1] [2] parallelism_serial)"
    using m
    by (simp add: build_audit_bundle_body_with_coinbase_options_parallel_def keys par att audit_policy_ok pb Let_def
        reward_sha_eq[OF sample_serde_compact] rb root build_profiled_signed_manifest_def audit_request_def
        canonical_manifest_bytes_def json)
  then show ?thesis by (simp add: audit_body_def)
qed

lemma audit_bytes_ok: "\<exists>whole. canonical_audit_bundle_bytes_from_parts sample_serde body shares = Inr whole"
  by (simp add: canonical_audit_bundle_bytes_from_parts_def sample_bundle_bytes)

lemma audit_body_fields: "bb_settlement_decision audit_body = None"
  "rm_coinbase_value (bb_reward_manifest audit_body) = 5000"
  "length (bb_commitment_leaves_hex audit_body) = 1"
  "bb_reward_manifest audit_body = audit_reward" "bb_policy_manifest audit_body = audit_policy_manifest"
proof -
  have par: "0 < par_chunk_len parallelism_serial" by (simp add: parallelism_serial_def)
  have rm: "bb_settlement_decision audit_body = None \<and> bb_reward_manifest audit_body = audit_reward \<and>
      length (bb_commitment_leaves_hex audit_body) = 1"
    by (rule body_parts[OF sample_serde_compact par audit_body_ok]) (simp add: audit_reward_ok)
  have "apply_payout_policy (bb_reward_manifest audit_body) [] audit_policy = Inr (bb_policy_manifest audit_body)"
    by (rule body_parts[OF sample_serde_compact par audit_body_ok])
  with rm show "bb_policy_manifest audit_body = audit_policy_manifest" by (simp add: audit_policy_ok)
  from rm show "bb_settlement_decision audit_body = None" "rm_coinbase_value (bb_reward_manifest audit_body) = 5000"
    "length (bb_commitment_leaves_hex audit_body) = 1" "bb_reward_manifest audit_body = audit_reward"
    by (auto simp: audit_reward_fields)
qed

lemma audit_body_root:
  "\<exists>root. audit_commitment_root_hex model_crypto (bb_commitment_leaves_hex audit_body) = Inr root"
proof -
  have par: "0 < par_chunk_len parallelism_serial" by (simp add: parallelism_serial_def)
  show ?thesis by (rule body_parts[OF sample_serde_compact par audit_body_ok]) blast
qed

lemma audit_body_verifies:
  "\<exists>report. verify_audit_parts_against_coinbase_tx_hex model_crypto model_signer sample_serde cj
    audit_body audit_shares (pm_coinbase_tx_hex (sm_manifest (bb_signed_coinbase audit_body)))
    (public_key_hex model_crypto model_signer [2]) = Inr report"
proof -
  have par: "0 < par_chunk_len parallelism_serial" by (simp add: parallelism_serial_def)
  from built_body_verified[OF model_hex_documented model_signer_ok model_signer_ok sample_serde_compact par audit_body_ok]
  obtain leaf root mb where
    v: "verified_parts model_crypto model_signer sample_serde cj (into_bundle audit_body audit_shares)
      (public_key_hex model_crypto model_signer [2]) leaf
      (py_onchain_entitlements (bb_policy_manifest audit_body)) (bb_commitment_leaves_hex audit_body) root"
    "sg_manifest_json model_signer (sm_manifest (bb_signed_coinbase audit_body)) = Inr mb" by metis
  let ?b = "into_bundle audit_body audit_shares"
  have view: "ab_commitment_leaves_hex ?b = bb_commitment_leaves_hex audit_body"
    "ab_signed_coinbase ?b = bb_signed_coinbase audit_body"
    by (simp_all add: into_bundle_def)
  obtain whole where "canonical_bytes sample_serde ?b = Inr whole" using sample_bundle_bytes by blast
  from verified_accepts[OF model_hex_documented, of model_signer sample_serde cj ?b, unfolded view, OF v this]
  show ?thesis
    by (auto simp: verify_audit_parts_against_coinbase_tx_hex_def from_parts_def
        verify_audit_view_against_coinbase_tx_hex_and_expected_coinbase_value_def split: if_splits)
qed

text \<open>The byte strings hashed for this bundle have different lengths, so they do not collide.\<close>

lemma compact_fields_length:
  "compact_fields js first fs = Inr r \<Longrightarrow> (\<And>k q. sj_string js k = Inr q \<Longrightarrow> length k \<le> length q) \<Longrightarrow>
    (\<Sum>f\<leftarrow>fs. length (fst f)) \<le> length r"
proof (induction js first fs arbitrary: r rule: compact_fields.induct)
  case (2 js first key v fs)
  from "2.prems"(1) obtain k x rest where k: "sj_string js key = Inr k" "v = Inr x"
    "compact_fields js False fs = Inr rest" "r = (if first then [] else COMMA) @ k @ COLON @ x @ rest" by auto
  then show ?case using "2.IH"[OF k(1,2,3) "2.prems"(2)] "2.prems"(2)[OF k(1)] by simp
qed simp

lemma audit_reward_length:
  assumes "canonical_reward_manifest_bytes sample_serde audit_reward = Inr rb"
  shows "94 < length rb"
proof -
  from assms obtain r where r: "compact_fields sample_serde True (reward_fields sample_serde audit_reward) = Inr r"
    "length r \<le> length rb"
    by (auto simp: canonical_reward_manifest_bytes_def struct_eq[OF sample_serde_compact])
  have "(\<Sum>f\<leftarrow>reward_fields sample_serde audit_reward. length (fst f)) \<le> length r"
    by (rule compact_fields_length[OF r(1)]) (auto simp: sample_values quoted_def string_bytes_def)
  moreover have "94 < (\<Sum>f\<leftarrow>reward_fields sample_serde audit_reward. length (fst f))"
    by (simp add: reward_fields_def split: option.splits)
  ultimately show ?thesis using r(2) by linarith
qed

lemma audit_policy_length:
  assumes "canonical_payout_policy_manifest_bytes sample_serde audit_policy_manifest = Inr pb"
  shows "length pb = 14"
proof -
  have "length (concat (map (\<lambda>a. quoted (pa_recipient_id a)) (py_accounts audit_policy_manifest))) = 14" by code_simp
  then show ?thesis using assms
    by (auto simp: canonical_payout_policy_manifest_bytes_def sample_serde_def Let_def)
qed

lemma compact_fields_upper:
  "compact_fields js first fs = Inr r \<Longrightarrow> (\<And>k q. sj_string js k = Inr q \<Longrightarrow> length q \<le> length k + 2) \<Longrightarrow>
    \<forall>f\<in>set fs. \<forall>x. snd f = Inr x \<longrightarrow> length x \<le> m \<Longrightarrow>
    length r \<le> (\<Sum>f\<leftarrow>fs. length (fst f) + 4 + m)"
proof (induction js first fs arbitrary: r rule: compact_fields.induct)
  case (2 js first key v fs)
  from "2.prems"(1) obtain k x rest where k: "sj_string js key = Inr k" "v = Inr x"
    "compact_fields js False fs = Inr rest" "r = (if first then [] else COMMA) @ k @ COLON @ x @ rest" by auto
  have c: "length COMMA = 1" "length COLON = 1" by (simp_all add: COMMA_def COLON_def string_bytes_def)
  have "length rest \<le> (\<Sum>f\<leftarrow>fs. length (fst f) + 4 + m)"
    using "2.IH"[OF k(1,2,3) "2.prems"(2)] "2.prems"(3) by simp
  moreover have "length x \<le> m" using "2.prems"(3) k(2) by simp
  ultimately show ?case using "2.prems"(2)[OF k(1)] by (simp add: k(4) c)
qed simp

lemma audit_reward_upper:
  assumes "canonical_reward_manifest_bytes sample_serde audit_reward = Inr rb"
  shows "length rb < 2 ^ 256"
proof -
  from assms obtain r where r: "compact_fields sample_serde True (reward_fields sample_serde audit_reward) = Inr r"
    "length rb = length r + 2"
    by (auto simp: canonical_reward_manifest_bytes_def struct_eq[OF sample_serde_compact] OPEN_def CLOSE_def string_bytes_def)
  have enc: "length (sha256_hex model_crypto x) = 64" for x
    by (simp add: sha256_hex_def model_crypto_def model_hex_encode_def length_concat comp_def sum_list_triv)
  have digest: "length (rm_share_slice_digest_hex audit_reward) = 64"
    by (simp add: audit_reward_def audit_reward_built manifest_of_window_def audit_window_shares
        share_slice_digest_hex_def enc)
  have shares: "rm_shares audit_reward = pw_shares audit_window" "rm_included_share_count audit_reward = length (pw_shares audit_window)"
      "rm_schema audit_reward = reward_schema" "rm_cut audit_reward = None"
    by (simp_all add: audit_reward_def audit_reward_built manifest_of_window_def audit_window_shares)
  have "\<forall>f\<in>set (reward_fields sample_serde audit_reward). \<forall>x. snd f = Inr x \<longrightarrow> length x \<le> 100"
    by (simp add: reward_fields_def shares sample_values digest quoted_def string_bytes_def reward_schema_def
        audit_reward_fields audit_entitlements_def audit_window_def sample_window_def Let_def counted_share_of_def
        sample_share_def sample_serde_def LBRACK_def RBRACK_def COMMA_def)
  from compact_fields_upper[OF r(1) _ this] have "length r \<le> (\<Sum>f\<leftarrow>reward_fields sample_serde audit_reward. length (fst f) + 4 + 100)"
    by (simp add: sample_values quoted_def string_bytes_def)
  also have "\<dots> < 5000" by (simp add: reward_fields_def shares)
  finally show ?thesis using r(2) by simp
qed

lemma model_sha_lengths:
  assumes "length x < 2 ^ 256" and "length y < 2 ^ 256" and "sha256 model_crypto x = sha256 model_crypto y"
  shows "length x = length y"
proof -
  have "le_bytes 32 (int (length x)) = le_bytes 32 (int (length y))"
    using assms(3) by (simp add: model_crypto_def)
  then have "int (length x) mod 2 ^ 256 = int (length y) mod 2 ^ 256" by (simp add: le_bytes_inj)
  moreover have "int (length x) < 2 ^ 256" "int (length y) < 2 ^ 256" using assms(1,2) by simp_all
  ultimately show ?thesis by simp
qed

end
