(* ===== verification/Audit_Binding.thy ===== *)
theory Audit_Binding
  imports Audit_Samples Transaction_Properties
begin

text \<open>
  From the chain back to the bundle: the transaction on the chain is the coinbase the bundle
  describes, its outputs pay the entitlements, and its witness nonce is the commitment root.
\<close>

section \<open>Hex in either case\<close>

lemma hex_value_case: "hex_value (ascii_lower ch) = hex_value ch"
proof -
  let ?m = "of_char ch :: nat"
  have ch: "ch = char_of ?m" by simp
  show ?thesis
  proof (cases "CHR ''A'' \<le> ch \<and> ch \<le> CHR ''Z''")
    case True
    then have "65 \<le> ?m" "?m \<le> 90" by (simp_all add: less_eq_char_def)
    moreover have "(of_char (ascii_lower ch) :: nat) = ?m + 32"
      using True \<open>?m \<le> 90\<close> by (simp add: ascii_lower_def)
    ultimately show ?thesis by (simp add: hex_value_def Let_def)
  next
    case False
    then have "ascii_lower ch = ch" unfolding ascii_lower_def by (rule if_not_P)
    then show ?thesis by simp
  qed
qed

lemma model_decode_lower: "model_hex_decode (to_ascii_lowercase s) = Inr b \<longleftrightarrow> model_hex_decode s = Inr b"
proof (induction s arbitrary: b rule: model_hex_decode.induct)
  case (3 x y cs)
  show ?case
    by (cases "hex_value x"; cases "hex_value y")
      (simp_all add: to_ascii_lowercase_def hex_value_case 3[unfolded to_ascii_lowercase_def])
qed (simp_all add: to_ascii_lowercase_def)

lemma decode_case:
  assumes "hex_documented c" and "eq_ignore_ascii_case x y" and "hex_decode c x = Inr b"
  shows "hex_decode c y = Inr b"
proof -
  have "model_hex_decode (to_ascii_lowercase x) = Inr b"
    using assms(1,3) by (simp add: hex_documented_def model_decode_lower)
  then have "model_hex_decode y = Inr b"
    using assms(2) model_decode_lower[of y b] by (simp add: eq_ignore_ascii_case_def)
  then show ?thesis using assms(1) by (simp add: hex_documented_def)
qed

text \<open>A string equal to an encoding up to case decodes to the encoded bytes.\<close>

lemma decode_same_case:
  assumes "hex_documented c" and "eq_ignore_ascii_case (hex_encode c b) s"
  shows "hex_decode c s = Inr b"
  using decode_case[OF assms] hex_documented_ok[OF assms(1)] by (simp add: hex_ok_def)

lemma hex_vec_iff: "hex_vec_eq_ignore_ascii_case xs ys \<longleftrightarrow> list_all2 eq_ignore_ascii_case xs ys"
  by (simp add: hex_vec_eq_ignore_ascii_case_def list_all2_iff list_all_iff)

lemma parse_leaves_case:
  assumes "hex_documented c" and "hex_vec_eq_ignore_ascii_case xs ys"
    and "parse_audit_commitment_leaves c xs = Inr bs"
  shows "parse_audit_commitment_leaves c ys = Inr bs"
  using assms(2,3) decode_case[OF assms(1)]
  by (auto simp: parse_leaves_Inr hex_vec_iff list_all2_conv_all_nth)

section \<open>What the outputs pay\<close>

definition pays_entitlement :: "crypto \<Rightarrow> weighted_entitlement \<Rightarrow> parsed_tx_out \<Rightarrow> bool" where
  "pays_entitlement c e x \<longleftrightarrow>
    (\<exists>p. hex_decode c (we_program e) = Inr p \<and> length p = 32 \<and> to_script_pubkey x = p2mr_script_pubkey p) \<and>
    uint (to_amount_sats x) = e_weight e"

lemma audited_view:
  assumes "verify_audit_view_against_coinbase_tx_hex c sg js cj b onchain writer = Inr report"
  obtains leaf es leaves root built where
    "verified_parts c sg js cj b writer leaf es leaves root"
    "build_coinbase c (audit_coinbase_request (ab_reward_manifest b) (ab_policy_manifest b) es root
      (ab_witness_leaves_hex b) (ab_suffix_hex b)) = Inr built"
    "eq_ignore_ascii_case (hex_encode c (bc_tx_with_witness built)) (trim onchain)"
proof -
  from assms have v: "verify_audit_view c sg js cj b writer = Inr report"
    and tx: "eq_ignore_ascii_case (ar_coinbase_tx_hex report) (trim onchain)"
    by (auto simp: verify_audit_view_against_coinbase_tx_hex_def split: if_splits)
  from v obtain leaf es leaves root where p: "verified_parts c sg js cj b writer leaf es leaves root"
    and r: "audit_verification_report c sg js b (sm_manifest (ab_signed_coinbase b)) = Inr report"
    by (auto simp: verify_view_Inr)
  have "ar_coinbase_tx_hex report = pm_coinbase_tx_hex (sm_manifest (ab_signed_coinbase b))"
    using r by (auto simp: audit_verification_report_def)
  moreover have "build_manifest c (audit_coinbase_request (ab_reward_manifest b) (ab_policy_manifest b) es root
      (ab_witness_leaves_hex b) (ab_suffix_hex b)) = Inr (sm_manifest (ab_signed_coinbase b))"
    using p by (simp add: verified_parts_def)
  ultimately show thesis using that[OF p] tx by (elim manifest_outputs) auto
qed

lemma onchain_decodes:
  assumes "hex_documented c" and "eq_ignore_ascii_case (hex_encode c t) (trim onchain)"
  shows "parse_transaction_hex c (trim onchain) field = parse_transaction c field t"
  by (simp add: parse_transaction_hex_def decode_same_case[OF assms])

lemma coinbase_pays_entitlements:
  assumes hex: "hex_ok c" and built: "build_coinbase c req = Inr built"
    and sum: "(\<Sum>e\<leftarrow>cr_entitlements req. e_weight e) = uint (cr_coinbase_value req)"
    and money: "cr_coinbase_value req \<le> QBIT_MAX_MONEY_SATS"
  shows "\<exists>tx es. parse_transaction c field (bc_tx_with_witness built) = Inr tx \<and>
    mset es = mset (cr_entitlements req) \<and> list_all2 (pays_entitlement c) es (butlast (tx_outputs tx)) \<and>
    to_amount_sats (last (tx_outputs tx)) = 0 \<and> tx_outputs tx \<noteq> []"
proof -
  from coinbase_parsed[OF hex built money] obtain script_sig nonce lock where
    parse: "parse_transaction c field (bc_tx_with_witness built) =
      Inr (parsed_of c 2 True [null_outpoint script_sig] (coinbase_outputs built) [[nonce]] lock)" by metis
  have alloc: "allocate_outputs c req = Inr (bc_outputs built)"
    using built by (auto simp: build_coinbase_def Let_def split: if_splits)
  from outputs_in_order[OF alloc] obtain es where es: "mset es = mset (cr_entitlements req)"
    "list_all2 (output_for c) es (bc_outputs built)" by metis
  have pay: "\<And>i. i < length (bc_outputs built) \<Longrightarrow>
      uint (ao_amount_sats (bc_outputs built ! i)) = uint (ao_weight (bc_outputs built ! i))"
    using outputs_pay_weights[OF alloc sum] by (metis nth_map length_map)
  have "list_all2 (pays_entitlement c) es (butlast (coinbase_outputs built))"
    unfolding coinbase_outputs_def butlast_snoc list_all2_map2
  proof (rule list_all2_all_nthI)
    show "length es = length (bc_outputs built)" using es(2) by (rule list_all2_lengthD)
    fix i assume i: "i < length es"
    then have o: "output_for c (es ! i) (bc_outputs built ! i)" using es(2) by (simp add: list_all2_conv_all_nth)
    then show "pays_entitlement c (es ! i) \<lparr>to_amount_sats = ao_amount_sats (bc_outputs built ! i),
        to_script_pubkey = ao_script_pubkey (bc_outputs built ! i)\<rparr>"
      using pay[of i] i list_all2_lengthD[OF es(2)]
      by (auto simp: pays_entitlement_def output_for_def parse_p2mr_program_def hex_decode_b_def P2MR_PROGRAM_LEN_def
          split: if_splits)
  qed
  with parse es(1) show ?thesis
    by (intro exI[of _ "parsed_of c 2 True [null_outpoint script_sig] (coinbase_outputs built) [[nonce]] lock"]
        exI[of _ es]) (simp add: parsed_of_def coinbase_outputs_def)
qed

section \<open>What the nonce commits to\<close>

text \<open>The transaction ends with the 32-byte nonce and the lock time.\<close>

lemma nonce_of_transaction:
  assumes "build_coinbase c req = Inr built" and "witness_nonce c req = Inr nonce" and "length nonce = 32"
  shows "take 32 (drop (length (bc_tx_with_witness built) - 36) (bc_tx_with_witness built)) = nonce"
proof -
  from build_coinbase_form[OF assms(1)] obtain script_sig lock where
    "bc_tx_with_witness built = tx_bytes 1 2 True [null_outpoint script_sig] (coinbase_outputs built) [[nonce]] lock"
    using assms(2) by (metis sum.inject(2))
  then obtain pre where "bc_tx_with_witness built = pre @ nonce @ le_bytes 4 (uint lock)"
    by (simp add: tx_bytes_def body_bytes_def stack_bytes_def var_bytes_def)
  then show ?thesis using assms(3) by simp
qed

lemma commitment_leaf_length: "hash_ok c \<Longrightarrow> length (sha256 c b) = 32"
  by (simp add: hash_ok_def)

definition leaf_payload :: "crypto \<Rightarrow> bytes \<Rightarrow> bytes \<Rightarrow> bytes" where
  "leaf_payload c rb pb = string_bytes PRISM_AUDIT_COMMITMENT_LEAF_TAG @ sha256 c rb @ sha256 c pb"

lemma leaf_binding:
  assumes "hash_ok c"
    and "inj_on (sha256 c) {leaf_payload c rb pb, leaf_payload c rb' pb', rb, rb', pb, pb'}"
    and "sha256 c (leaf_payload c rb pb) = sha256 c (leaf_payload c rb' pb')"
  shows "rb = rb' \<and> pb = pb'"
proof -
  have "leaf_payload c rb pb = leaf_payload c rb' pb'" by (rule inj_onD[OF assms(2,3)]) simp_all
  then have "sha256 c rb = sha256 c rb'" "sha256 c pb = sha256 c pb'"
    using commitment_leaf_length[OF assms(1)] by (auto simp: leaf_payload_def)
  then show ?thesis using assms(2) by (auto dest: inj_onD)
qed

text \<open>What a bundle verified against a transaction shows of it: its nonce is the root of the leaves.\<close>

lemma verified_commitment:
  assumes hex: "hex_documented c" and hash: "hash_ok c"
    and v: "verify_audit_view_against_coinbase_tx_hex c sg js cj b onchain writer = Inr report"
    and rb: "canonical_reward_manifest_bytes js (ab_reward_manifest b) = Inr rb"
    and pb: "canonical_payout_policy_manifest_bytes js (ab_policy_manifest b) = Inr pb"
    and ls: "parse_audit_commitment_leaves c (ab_commitment_leaves_hex b) = Inr ls"
  obtains t nonce where "hex_decode c (trim onchain) = Inr t" "take 32 (drop (length t - 36) t) = nonce"
    "merkle_root c ls = Some nonce" "ls \<noteq> []" "hd ls = sha256 c (leaf_payload c rb pb)" "\<forall>h\<in>set ls. length h = 32"
proof -
  note hok = hex_documented_ok[OF hex]
  from audited_view[OF v] obtain leaf es leaves root built where
    p: "verified_parts c sg js cj b writer leaf es leaves root"
    and built: "build_coinbase c (audit_coinbase_request (ab_reward_manifest b) (ab_policy_manifest b) es root
      (ab_witness_leaves_hex b) (ab_suffix_hex b)) = Inr built"
    and tx: "eq_ignore_ascii_case (hex_encode c (bc_tx_with_witness built)) (trim onchain)" .
  have ls': "parse_audit_commitment_leaves c leaves = Inr ls"
    using parse_leaves_case[OF hex _ ls] p by (simp add: verified_parts_def)
  obtain r where r: "merkle_root c ls = Some r" "root = hex_encode c r"
    using p ls' by (auto simp: verified_parts_def root_Inr)
  obtain rest where leaves: "leaves = leaf # rest"
    using p by (auto simp: verified_parts_def expected_settlement_def split: option.splits)
  have leaf: "leaf = hex_encode c (sha256 c (leaf_payload c rb pb))"
    using p rb pb by (simp add: verified_parts_def prism_audit_commitment_leaf_hex_def commitment_leaf_bytes leaf_payload_def)
  have each: "ls \<noteq> []" "\<forall>h\<in>set ls. length h = 32"
    using ls by (auto simp: parse_leaves_Inr list_all2_conv_all_nth in_set_conv_nth)
  have hd: "hd ls = sha256 c (leaf_payload c rb pb)"
    using ls' hok by (cases ls) (auto simp: parse_leaves_Inr leaves leaf hex_ok_def)
  have len: "length r = 32" using merkle_root_length32[OF hash each(2) r(1)] .
  have nonce: "witness_nonce c (audit_coinbase_request (ab_reward_manifest b) (ab_policy_manifest b) es root
      (ab_witness_leaves_hex b) (ab_suffix_hex b)) = Inr r"
    using hok len by (simp add: witness_nonce_def audit_coinbase_request_def hex_decode_b_def hex_ok_def r(2))
  show thesis
    by (rule that[OF decode_same_case[OF hex tx] nonce_of_transaction[OF built nonce len] r(1) each(1) hd each(2)])
qed

end
