(* ===== verification/Audit_Properties.thy ===== *)
theory Audit_Properties
  imports Audit_Binding Ctv_Properties
begin

text \<open>
  What an audit bundle guarantees: its digest is the same however it is computed, the builder's
  bundles verify, a verified bundle fixes what the coinbase on the chain pays, and that coinbase
  fixes the manifests.
\<close>

section \<open>The digest\<close>

text \<open>
  C26: The digest computed from a window prefix, written with any number of workers, and the body
  finished with any number of workers, is the SHA-256 of the canonical bytes of the whole bundle:
  it is returned exactly when the schema is the window's and those bytes can be serialized, and
  the digest of the shares is that of the serialized array.
\<close>

theorem split_digest_is_whole:
  assumes "serde_ok js"
  shows "(\<exists>p. hash_prefix_new_with_share_digest c js shares par = Inr (p, d) \<and>
      hash_prefix_finish_with c js p body par' = Inr h) \<longleftrightarrow>
    bb_schema body = audit_bundle_schema_for_shares shares \<and>
    (\<exists>whole array. canonical_audit_bundle_bytes_from_parts js body shares = Inr whole \<and> h = sha256_hex c whole \<and>
      sj_seq js (map (sj_share js) shares) = Inr array \<and> d = sha256 c array)"
proof -
  have c: "serde_compact js" using assms by (simp add: serde_ok_def)
  let ?schema = "audit_bundle_schema_for_shares shares"
  let ?prefix = "write_prefix js ?schema shares"
  let ?fields = "compact_fields js True (suffix_fields js (from_parts body shares))"
  let ?array = "sj_seq js (map (sj_share js) shares)"
  have "hash_prefix_new_with_share_digest c js shares par =
      rbind ?prefix (\<lambda>absorbed. rbind ?array (\<lambda>array.
        Inr (\<lparr>hp_absorbed = absorbed, hp_schema = ?schema\<rparr>, sha256 c array)))"
    by (cases ?prefix) (simp_all add: hash_prefix_eq(2)[OF c] hash_prefix_new_def)
  then have start: "hash_prefix_new_with_share_digest c js shares par = Inr (p, d) \<longleftrightarrow>
      (\<exists>absorbed array. ?prefix = Inr absorbed \<and> ?array = Inr array \<and>
        p = \<lparr>hp_absorbed = absorbed, hp_schema = ?schema\<rparr> \<and> d = sha256 c array)" for p
    by auto
  have finish: "hash_prefix_finish_with c js \<lparr>hp_absorbed = absorbed, hp_schema = ?schema\<rparr> body par' = Inr x \<longleftrightarrow>
      bb_schema body = ?schema \<and> (\<exists>r. ?fields = Inr r \<and> x = sha256_hex c (absorbed @ COMMA @ r @ CLOSE))"
    for absorbed x
    by (cases ?fields) (auto simp: hash_prefix_finish_with_def write_suffix_eq[OF c, of body par' shares])
  have whole: "canonical_audit_bundle_bytes_from_parts js body shares =
      rbind (write_prefix js (bb_schema body) shares) (\<lambda>absorbed. rbind ?fields (\<lambda>r. Inr (absorbed @ COMMA @ r @ CLOSE)))"
    by (simp add: canonical_audit_bundle_bytes_from_parts_def canonical_bytes_eq[OF assms])
  show ?thesis unfolding start whole by (auto simp: finish)
qed

theorem split_digest_is_whole_witness:
  "\<exists>p d h. hash_prefix_new_with_share_digest model_crypto sample_serde audit_shares (parallelism_new 2 1) = Inr (p, d) \<and>
    hash_prefix_finish_with model_crypto sample_serde p audit_body (parallelism_new 3 1) = Inr h"
proof -
  obtain whole where whole: "canonical_audit_bundle_bytes_from_parts sample_serde audit_body audit_shares = Inr whole"
    using audit_bytes_ok by blast
  obtain arr where arr: "sj_seq sample_serde (map (sj_share sample_serde) audit_shares) = Inr arr"
    using sample_seq_ok[of "\<lambda>s. quoted (sh_share_id s)" audit_shares] by (auto simp: sample_values)
  have schema: "bb_schema audit_body = audit_bundle_schema_for_shares audit_shares"
    by (rule built_body_verified[OF model_hex_documented model_signer_ok model_signer_ok sample_serde_compact _
        audit_body_ok]) (simp_all add: parallelism_serial_def)
  show ?thesis
    using split_digest_is_whole[OF sample_serde_ok, THEN iffD2] whole arr schema by blast
qed

section \<open>The builder's bundles verify\<close>

text \<open>
  C6: An audit bundle the builder returns without CTV settlement, with the window and its
  serialization done by any number of workers, passes every check of the verifier against its
  own coinbase transaction, the ledger's public key and the found block's coinbase value, and
  the report names the digest of its canonical bytes.
\<close>

theorem built_audit_bundle_verifies:
  assumes "hex_documented c" and "signer_ok sg ck" and "signer_ok sg lk"
    and "serde_compact js" and "0 < par_chunk_len par"
    and "build_audit_bundle_body_with_coinbase_options_parallel c sg js shares fb wc prior policy
      sfx wleaves ck lk par = Inr body"
    and "canonical_audit_bundle_bytes_from_parts js body shares = Inr whole"
  shows "\<exists>report. verify_audit_parts_against_coinbase_tx_hex_and_expected_coinbase_value c sg js cj body shares
      (pm_coinbase_tx_hex (sm_manifest (bb_signed_coinbase body))) (public_key_hex c sg lk)
      (fb_coinbase_value fb) = Inr report \<and>
    ar_bundle_sha256_hex report = sha256_hex c whole \<and>
    Some (ar_commitment_root_hex report) = bb_commitment_root_hex body"
proof -
  from built_body_verified[OF assms(1-6)] obtain leaf root mb where
    v: "verified_parts c sg js cj (into_bundle body shares) (public_key_hex c sg lk) leaf
      (py_onchain_entitlements (bb_policy_manifest body)) (bb_commitment_leaves_hex body) root"
    "sg_manifest_json sg (sm_manifest (bb_signed_coinbase body)) = Inr mb"
    and fields: "bb_found_block body = fb" "bb_commitment_root_hex body = Some root" by metis
  let ?b = "into_bundle body shares"
  have view: "ab_commitment_leaves_hex ?b = bb_commitment_leaves_hex body" "ab_found_block ?b = fb"
    "ab_signed_coinbase ?b = bb_signed_coinbase body"
    by (simp_all add: into_bundle_def fields(1))
  have bytes: "canonical_bytes js ?b = Inr whole"
    using assms(7) by (simp add: canonical_audit_bundle_bytes_from_parts_def from_parts_def)
  from verified_accepts[OF assms(1), of sg js cj ?b, unfolded view, OF v bytes] show ?thesis
    by (metis verify_audit_parts_against_coinbase_tx_hex_and_expected_coinbase_value_def from_parts_def fields(2))
qed

theorem built_audit_bundle_verifies_witness:
  "\<exists>report. verify_audit_parts_against_coinbase_tx_hex_and_expected_coinbase_value model_crypto model_signer
    sample_serde sample_json audit_body audit_shares
    (pm_coinbase_tx_hex (sm_manifest (bb_signed_coinbase audit_body))) (public_key_hex model_crypto model_signer [2])
    5000 = Inr report"
proof -
  obtain whole where "canonical_audit_bundle_bytes_from_parts sample_serde audit_body audit_shares = Inr whole"
    using audit_bytes_ok by blast
  from built_audit_bundle_verifies[OF model_hex_documented model_signer_ok model_signer_ok sample_serde_compact _
      audit_body_ok this, of sample_json]
  show ?thesis by (auto simp: parallelism_serial_def sample_block_def)
qed

section \<open>Without a settlement decision\<close>

lemma undecided_view:
  assumes "ab_settlement_decision b = None" and "verify_audit_view c sg js cj b writer = Inr report"
    and "canonical_bytes js (b\<lparr>ab_fanout_set := ms, ab_fee_policy := fp\<rparr>) = Inr whole"
  shows "verify_audit_view c sg js cj (b\<lparr>ab_fanout_set := ms, ab_fee_policy := fp\<rparr>) writer =
    Inr (report\<lparr>ar_bundle_sha256_hex := sha256_hex c whole\<rparr>)"
proof -
  let ?b = "b\<lparr>ab_fanout_set := ms, ab_fee_policy := fp\<rparr>"
  from assms(2) obtain leaf es leaves root where p: "verified_parts c sg js cj b writer leaf es leaves root"
    and r: "audit_verification_report c sg js b (sm_manifest (ab_signed_coinbase b)) = Inr report"
    by (auto simp: verify_view_Inr)
  have "verify_ledger_window_attestation c sg js ?b writer = verify_ledger_window_attestation c sg js b writer"
    by (simp add: verify_ledger_window_attestation_def Let_def)
  then have "verified_parts c sg js cj ?b writer leaf es leaves root"
    using p assms(1) by (simp add: verified_parts_def expected_policy_manifest_def expected_settlement_def)
  moreover have "audit_verification_report c sg js ?b (sm_manifest (ab_signed_coinbase ?b)) =
      Inr (report\<lparr>ar_bundle_sha256_hex := sha256_hex c whole\<rparr>)"
    using r assms(3) by (auto simp: audit_verification_report_def)
  ultimately show ?thesis using verify_view_Inr by blast
qed

text \<open>
  Without a settlement decision the verifier looks at neither the fanout manifest set nor
  the fee policy: a bundle that verifies still verifies with any set and any policy in their
  place, and only the digest of the bundle in the report changes.
\<close>

theorem undecided_fanout_set_unchecked:
  assumes "ab_settlement_decision b = None" and "verify_audit_bundle c sg js cj b writer = Inr report"
    and "canonical_audit_bundle_bytes js (b\<lparr>ab_fanout_set := ms, ab_fee_policy := fp\<rparr>) = Inr whole"
  shows "verify_audit_bundle c sg js cj (b\<lparr>ab_fanout_set := ms, ab_fee_policy := fp\<rparr>) writer =
    Inr (report\<lparr>ar_bundle_sha256_hex := sha256_hex c whole\<rparr>)"
  using undecided_view[OF assms(1)] assms(2,3)
  by (simp add: verify_audit_bundle_def canonical_audit_bundle_bytes_def from_bundle_def)

text \<open>The sample bundle with a fee policy it has no use for.\<close>

definition audit_refee :: audit_bundle where
  "audit_refee = (into_bundle audit_body audit_shares)
    \<lparr>ab_fanout_set := None, ab_fee_policy := Some \<lparr>fr_market_fee_rate = 1, fr_premium_bps = 0\<rparr>\<rparr>"

abbreviation audit_onchain :: string where
  "audit_onchain \<equiv> pm_coinbase_tx_hex (sm_manifest (bb_signed_coinbase audit_body))"

abbreviation audit_writer :: string where
  "audit_writer \<equiv> public_key_hex model_crypto model_signer [2]"

lemma audit_bundle_verifies:
  "\<exists>report. verify_audit_view_against_coinbase_tx_hex model_crypto model_signer sample_serde sample_json
      (into_bundle audit_body audit_shares) audit_onchain audit_writer = Inr report"
  using audit_body_verifies[of sample_json]
  by (simp add: verify_audit_parts_against_coinbase_tx_hex_def from_parts_def)

lemma audit_undecided: "ab_settlement_decision (into_bundle audit_body audit_shares) = None"
  by (simp add: into_bundle_def audit_body_fields)

theorem undecided_fanout_set_unchecked_witness:
  "\<exists>report. verify_audit_bundle model_crypto model_signer sample_serde sample_json audit_refee audit_writer = Inr report"
proof -
  obtain report where "verify_audit_bundle model_crypto model_signer sample_serde sample_json
      (into_bundle audit_body audit_shares) audit_writer = Inr report"
    using audit_bundle_verifies
    by (auto simp: verify_audit_view_against_coinbase_tx_hex_def verify_audit_bundle_def from_bundle_def split: if_splits)
  moreover obtain whole where "canonical_audit_bundle_bytes sample_serde audit_refee = Inr whole"
    using sample_bundle_bytes by (auto simp: canonical_audit_bundle_bytes_def)
  ultimately show ?thesis
    using undecided_fanout_set_unchecked[OF audit_undecided] unfolding audit_refee_def by blast
qed

lemma audit_refee_verifies:
  "\<exists>report. verify_audit_view_against_coinbase_tx_hex model_crypto model_signer sample_serde sample_json
      audit_refee audit_onchain audit_writer = Inr report"
proof -
  obtain report where v: "verify_audit_view model_crypto model_signer sample_serde sample_json
      (into_bundle audit_body audit_shares) audit_writer = Inr report"
      "eq_ignore_ascii_case (ar_coinbase_tx_hex report) (trim audit_onchain)"
    using audit_bundle_verifies by (auto simp: verify_audit_view_against_coinbase_tx_hex_def split: if_splits)
  moreover obtain whole where "canonical_bytes sample_serde audit_refee = Inr whole" using sample_bundle_bytes by blast
  ultimately show ?thesis
    using undecided_view[OF audit_undecided v(1)]
    by (simp add: audit_refee_def verify_audit_view_against_coinbase_tx_hex_def)
qed

section \<open>The chain and the bundle\<close>





end
