(* ===== verification/Share_Json.thy ===== *)
theory Share_Json
  imports Prism_Types Digest_Bytes
begin

text \<open>
  The canonical JSON of an accepted share (\<open>canonical_share_fragment\<close> of \<open>window.rs\<close>): keys in
  sorted order, no blanks, every character outside printable ASCII escaped the way CPython's
  \<open>json.dumps\<close> does.  A Rust \<open>&str\<close> is its UTF-8 bytes; \<open>utf8_chars\<close> is
  \<open>str::chars\<close> on them.
\<close>

section \<open>Characters of a string\<close>

definition utf8_point :: "nat \<Rightarrow> string \<Rightarrow> nat" where
  "utf8_point high s = foldl (\<lambda>n c. 64 * n + of_char c mod 64) high s"

fun utf8_chars :: "string \<Rightarrow> nat list" where
  "utf8_chars [] = []"
| "utf8_chars (a # s) = (let n = of_char a in
    if n < 128 then n # utf8_chars s
    else if n < 224 then utf8_point (n mod 32) (take 1 s) # utf8_chars (drop 1 s)
    else if n < 240 then utf8_point (n mod 16) (take 2 s) # utf8_chars (drop 2 s)
    else utf8_point (n mod 8) (take 3 s) # utf8_chars (drop 3 s))"

text \<open>\<open>char::encode_utf16\<close> of a character outside the basic plane.\<close>

definition surrogates :: "nat \<Rightarrow> u16 list" where
  "surrogates n = [word_of_nat (0xD800 + (n - 0x10000) div 0x400), word_of_nat (0xDC00 + (n - 0x10000) mod 0x400)]"

section \<open>Escaping\<close>

definition HEX :: bytes where
  "HEX = string_bytes ''0123456789abcdef''"

definition push_u16_escape :: "u16 \<Rightarrow> bytes" where
  "push_u16_escape unit = [0x5c, 0x75,
    HEX ! unat (and (drop_bit 12 unit) 0xf), HEX ! unat (and (drop_bit 8 unit) 0xf),
    HEX ! unat (and (drop_bit 4 unit) 0xf), HEX ! unat (and unit 0xf)]"

definition escape_char :: "nat \<Rightarrow> bytes" where
  "escape_char n =
    (if n = 0x22 then [0x5c, 0x22]
     else if n = 0x5c then [0x5c, 0x5c]
     else if n = 0x08 then [0x5c, 0x62]
     else if n = 0x09 then [0x5c, 0x74]
     else if n = 0x0a then [0x5c, 0x6e]
     else if n = 0x0c then [0x5c, 0x66]
     else if n = 0x0d then [0x5c, 0x72]
     else if 0x20 \<le> n \<and> n < 0x7f then [word_of_nat n]
     else if n < 0x10000 then push_u16_escape (word_of_nat n)
     else concat (map push_u16_escape (surrogates n)))"

definition push_python_json_escaped_contents :: "string \<Rightarrow> bytes" where
  "push_python_json_escaped_contents s = concat (map escape_char (utf8_chars s))"

definition push_python_json_escaped :: "string \<Rightarrow> bytes" where
  "push_python_json_escaped s = [0x22] @ push_python_json_escaped_contents s @ [0x22]"

section \<open>One record\<close>

text \<open>The bytes of \<open>"key":\<close>.\<close>

definition json_key :: "string \<Rightarrow> bytes" where
  "json_key key = [0x22] @ string_bytes key @ [0x22, 0x3a]"

definition canonical_share_fragment :: "accepted_share \<Rightarrow> bytes" where
  "canonical_share_fragment s =
    [0x7b] @ json_key ''accepted_at_ms'' @ string_bytes (dec_int (sh_accepted_at_ms s)) @
    (case sh_credit_policy s of None \<Rightarrow> []
     | Some policy \<Rightarrow> [0x2c] @ json_key ''credit_policy'' @ push_python_json_escaped policy) @
    [0x2c] @ json_key ''job_id'' @ push_python_json_escaped (sh_job_id s) @
    [0x2c] @ json_key ''job_issued_at_ms'' @ string_bytes (dec_int (sh_job_issued_at_ms s)) @
    [0x2c] @ json_key ''miner_id'' @ push_python_json_escaped (sh_miner_id s) @
    [0x2c] @ json_key ''network_difficulty'' @ string_bytes (dec_word (sh_network_difficulty s)) @
    [0x2c] @ json_key ''ntime'' @ string_bytes (dec_word (sh_ntime s)) @
    [0x2c] @ json_key ''order_key'' @ push_python_json_escaped (sh_order_key s) @
    [0x2c] @ json_key ''p2mr_program_hex'' @ push_python_json_escaped (sh_program s) @
    [0x2c] @ json_key ''share_difficulty'' @ string_bytes (dec_word (sh_share_difficulty s)) @
    [0x2c] @ json_key ''share_id'' @ push_python_json_escaped (sh_share_id s) @
    [0x2c] @ json_key ''share_seq'' @ string_bytes (dec_word (sh_share_seq s)) @
    [0x2c] @ json_key ''template_height'' @ string_bytes (dec_word (sh_template_height s)) @ [0x7d]"

lemma fragment_not_empty [simp]: "canonical_share_fragment s \<noteq> []"
  by (simp add: canonical_share_fragment_def)

end
