(* ===== verification/Share_Window.thy ===== *)
theory Share_Window
  imports Share_Json
begin

text \<open>
  The paged payout window of \<open>window.rs\<close>: the fold of a full snapshot, its canonical items
  stream and digest, and the incremental advance by newly eligible shares with the byte
  surgery that keeps a copy of the items stream in step.  \<open>Rc<WindowPage>\<close> is the page itself:
  pages are immutable, so sharing them is not observable.  The subtractions of \<open>u128\<close> totals
  are those of a release build; \<open>Share_Window_Facts\<close> shows that none of them underflows.
\<close>

section \<open>Errors\<close>

datatype window_fold_error =
    NonPositiveWindowWeight
  | NonPositivePageSize
  | FoldDuplicateShareSeq
  | FoldDuplicateShareId
  | FoldNonPositiveDifficulty
  | FoldDifficultyOverflow

definition fold_rejection_category :: "window_fold_error \<Rightarrow> string option" where
  "fold_rejection_category e = (case e of
      NonPositiveWindowWeight \<Rightarrow> Some ''non_positive_window_weight''
    | NonPositivePageSize \<Rightarrow> Some ''non_positive_page_size''
    | FoldDuplicateShareSeq \<Rightarrow> Some ''duplicate_share_seq''
    | FoldDuplicateShareId \<Rightarrow> Some ''duplicate_share_id''
    | FoldNonPositiveDifficulty \<Rightarrow> Some ''non_positive_difficulty''
    | FoldDifficultyOverflow \<Rightarrow> None)"

datatype window_advance_error =
    AnchorMovedBackwards
  | AdvanceNonPositiveDifficulty
  | IneligibleAtNewAnchor
  | RepeatsPreviouslyEligible
  | NotAnAppend
  | DeltaOrderNotIncreasing
  | AdvanceDifficultyOverflow

definition advance_rejection_category :: "window_advance_error \<Rightarrow> string option" where
  "advance_rejection_category e = (case e of
      AnchorMovedBackwards \<Rightarrow> Some ''anchor_regression''
    | AdvanceNonPositiveDifficulty \<Rightarrow> Some ''delta_non_positive_difficulty''
    | IneligibleAtNewAnchor \<Rightarrow> Some ''delta_ineligible_at_anchor''
    | RepeatsPreviouslyEligible \<Rightarrow> Some ''delta_repeats_eligible_share''
    | NotAnAppend \<Rightarrow> Some ''delta_not_append''
    | DeltaOrderNotIncreasing \<Rightarrow> Some ''delta_order_not_increasing''
    | AdvanceDifficultyOverflow \<Rightarrow> None)"

section \<open>Pages and windows\<close>

record window_page =
  wp_records :: "accepted_share list"
  wp_fragments :: "bytes list"
  wp_total :: u128

record payout_window =
  win_anchor :: i64
  win_weight :: u128
  win_page_size :: usize
  win_pages :: "window_page list"
  win_total :: u128

record advance_stats =
  as_added_rows :: usize
  as_expired_rows :: usize
  as_touched_pages :: usize

record byte_delta =
  bd_drop_bytes :: usize
  bd_appended :: bytes

definition page_total :: "accepted_share list \<Rightarrow> u128" where
  "page_total records = foldl (\<lambda>t r. saturating_add t (sh_share_difficulty r)) 0 records"

definition page_from_records :: "accepted_share list \<Rightarrow> window_page" where
  "page_from_records records = \<lparr>wp_records = records, wp_fragments = map canonical_share_fragment records,
    wp_total = page_total records\<rparr>"

definition page_from_retained :: "accepted_share list \<Rightarrow> bytes list \<Rightarrow> window_page" where
  "page_from_retained records fragments = \<lparr>wp_records = records, wp_fragments = fragments,
    wp_total = page_total records\<rparr>"

section \<open>The fold of a full snapshot\<close>

definition eligible_at :: "i64 \<Rightarrow> accepted_share \<Rightarrow> bool" where
  "eligible_at anchor r \<longleftrightarrow> sh_job_issued_at_ms r \<le> anchor \<and> sh_accepted_at_ms r \<le> anchor"

fun check_snapshot :: "u64 option \<Rightarrow> string set \<Rightarrow> accepted_share list \<Rightarrow> window_fold_error + unit" where
  "check_snapshot prior ids [] = Inr ()"
| "check_snapshot prior ids (r # rs) =
    (if \<exists>p\<in>set_option prior. sh_share_seq r \<le> p then Inl FoldDuplicateShareSeq
     else if sh_share_id r \<in> ids then Inl FoldDuplicateShareId
     else if sh_share_difficulty r = 0 then Inl FoldNonPositiveDifficulty
     else check_snapshot (Some (sh_share_seq r)) (insert (sh_share_id r) ids) rs)"

text \<open>
  The walk from the newest record: \<open>start\<close> records are still to the left of the retained
  ones, whose weight is the accumulator.
\<close>

fun retain_from :: "u128 \<Rightarrow> accepted_share list \<Rightarrow> usize \<Rightarrow> u128 \<Rightarrow> window_fold_error + usize \<times> u128" where
  "retain_from w es 0 weight = Inr (0, weight)"
| "retain_from w es (Suc index) weight =
    (if w \<le> weight then Inr (Suc index, weight)
     else rbind (ok_or (checked_add weight (sh_share_difficulty (es ! index))) FoldDifficultyOverflow) (\<lambda>weight.
       retain_from w es index weight))"

definition from_full_snapshot ::
  "accepted_share list \<Rightarrow> i64 \<Rightarrow> u128 \<Rightarrow> usize \<Rightarrow> window_fold_error + payout_window" where
  "from_full_snapshot records anchor w page_size =
    (if w = 0 then Inl NonPositiveWindowWeight
     else if page_size = 0 then Inl NonPositivePageSize
     else let es = sort_key sh_share_seq (filter (eligible_at anchor) records) in
     rbind (check_snapshot None {} es) (\<lambda>_.
     rbind (retain_from w es (length es) 0) (\<lambda>(start, weight).
     Inr \<lparr>win_anchor = anchor, win_weight = w, win_page_size = page_size,
       win_pages = map page_from_records (chunks page_size (drop start es)), win_total = weight\<rparr>)))"

section \<open>Reading a window\<close>

definition record_count :: "payout_window \<Rightarrow> usize" where
  "record_count W = sum_list (map (\<lambda>p. length (wp_records p)) (win_pages W))"

definition fragment_lengths :: "payout_window \<Rightarrow> usize list" where
  "fragment_lengths W = concat (map (\<lambda>p. map length (wp_fragments p)) (win_pages W))"

definition canonical_items_bytes :: "payout_window \<Rightarrow> bytes" where
  "canonical_items_bytes W =
    fst (foldl (\<lambda>acc p. foldl (\<lambda>(out, sep) f. (out @ (if sep then [0x2c] else []) @ f, True)) acc (wp_fragments p))
      ([], False) (win_pages W))"

text \<open>The bytes fed to the digest between the brackets, with a comma pending or not.\<close>

fun digest_fragments :: "bool \<Rightarrow> bytes list \<Rightarrow> bytes" where
  "digest_fragments first_in_page [] = []"
| "digest_fragments first_in_page (f # fs) =
    (if first_in_page then [] else [0x2c]) @ f @ digest_fragments False fs"

fun digest_pages :: "bool \<Rightarrow> window_page list \<Rightarrow> bytes" where
  "digest_pages needs_separator [] = []"
| "digest_pages needs_separator (p # ps) =
    (if wp_fragments p = [] then digest_pages needs_separator ps
     else (if needs_separator then [0x2c] else []) @ digest_fragments True (wp_fragments p) @ digest_pages True ps)"

definition lower_hex :: "bytes \<Rightarrow> string" where
  "lower_hex bs = concat (map (\<lambda>b. [hex_digit (unat b div 16), hex_digit (unat b mod 16)]) bs)"

definition canonical_digest_hex :: "crypto \<Rightarrow> payout_window \<Rightarrow> string" where
  "canonical_digest_hex c W = lower_hex (sha256 c ([0x5b] @ digest_pages False (win_pages W) @ [0x5d]))"

definition shares_for_build :: "payout_window \<Rightarrow> accepted_share list" where
  "shares_for_build W = concat (map wp_records (win_pages W))"

section \<open>The advance\<close>

definition last_seq :: "payout_window \<Rightarrow> u64 option" where
  "last_seq W = (if win_pages W = [] \<or> wp_records (last (win_pages W)) = [] then None
    else Some (sh_share_seq (last (wp_records (last (win_pages W))))))"

fun check_delta ::
  "i64 \<Rightarrow> i64 \<Rightarrow> u64 option \<Rightarrow> u64 option \<Rightarrow> accepted_share list \<Rightarrow> window_advance_error + unit" where
  "check_delta old_anchor anchor prior prior_delta [] = Inr ()"
| "check_delta old_anchor anchor prior prior_delta (r # rs) =
    (if sh_share_difficulty r = 0 then Inl AdvanceNonPositiveDifficulty
     else if anchor < sh_job_issued_at_ms r \<or> anchor < sh_accepted_at_ms r then Inl IneligibleAtNewAnchor
     else if sh_job_issued_at_ms r \<le> old_anchor \<and> sh_accepted_at_ms r \<le> old_anchor then Inl RepeatsPreviouslyEligible
     else if \<exists>p\<in>set_option prior. sh_share_seq r \<le> p then Inl NotAnAppend
     else if \<exists>p\<in>set_option prior_delta. sh_share_seq r \<le> p then Inl DeltaOrderNotIncreasing
     else check_delta old_anchor anchor prior (Some (sh_share_seq r)) rs)"

text \<open>
  The old boundary page is filled up first: the pages, how many records of the delta it took,
  and the index of the old page it rewrote.
\<close>

definition fill_last_page ::
  "usize \<Rightarrow> window_page list \<Rightarrow> accepted_share list \<Rightarrow> bytes list \<Rightarrow> window_page list \<times> usize \<times> nat set" where
  "fill_last_page page_size pages delta fragments =
    (if delta = [] \<or> pages = [] \<or> \<not> length (wp_records (last pages)) < page_size then (pages, 0, {})
     else let taken = min (page_size - length (wp_records (last pages))) (length delta) in
       (butlast pages @ [page_from_retained (wp_records (last pages) @ take taken delta)
          (wp_fragments (last pages) @ take taken fragments)], taken, {length pages - 1}))"

definition append_pages ::
  "usize \<Rightarrow> window_page list \<Rightarrow> accepted_share list \<Rightarrow> bytes list \<Rightarrow> window_page list \<times> nat set" where
  "append_pages page_size pages delta fragments =
    (case fill_last_page page_size pages delta fragments of (filled, taken, touched) \<Rightarrow>
      (filled @ map2 page_from_retained (chunks page_size (drop taken delta)) (chunks page_size (drop taken fragments)),
       touched))"

text \<open>Whole pages that expire: the total left, the rows and pages dropped, the pages kept.\<close>

fun expire_pages :: "u128 \<Rightarrow> u128 \<Rightarrow> window_page list \<Rightarrow> u128 \<times> usize \<times> usize \<times> window_page list" where
  "expire_pages w left [] = (left, 0, 0, [])"
| "expire_pages w left (p # ps) =
    (if w \<le> left - wp_total p
     then (case expire_pages w (left - wp_total p) ps of (left', rows, n, kept) \<Rightarrow>
       (left', rows + length (wp_records p), Suc n, kept))
     else (left, 0, 0, p # ps))"

fun expire_records :: "u128 \<Rightarrow> u128 \<Rightarrow> accepted_share list \<Rightarrow> u128 \<times> usize" where
  "expire_records w left [] = (left, 0)"
| "expire_records w left (r # rs) =
    (if w \<le> left - sh_share_difficulty r
     then (case expire_records w (left - sh_share_difficulty r) rs of (left', n) \<Rightarrow> (left', Suc n))
     else (left, 0))"

definition advance_byte_delta :: "usize list \<Rightarrow> payout_window \<Rightarrow> usize \<Rightarrow> usize \<Rightarrow> byte_delta" where
  "advance_byte_delta old_lengths advanced old_count expired_rows =
    (let dropped_old = min expired_rows old_count; retained_old = old_count - dropped_old;
         dropped_bytes = sum_list (take dropped_old old_lengths);
         surviving_new = record_count advanced - retained_old;
         fragments = drop retained_old (concat (map wp_fragments (win_pages advanced))) in
     \<lparr>bd_drop_bytes =
        (if dropped_old = 0 then 0
         else if 0 < retained_old then dropped_bytes + dropped_old
         else dropped_bytes + (old_count - 1)),
      bd_appended = (if 0 < surviving_new then digest_fragments (retained_old = 0) fragments else [])\<rparr>)"

text \<open>The records that expire at the front of the first page, and that page without them.\<close>

definition expire_front :: "u128 \<Rightarrow> u128 \<Rightarrow> window_page list \<Rightarrow> u128 \<times> usize" where
  "expire_front w left pages = (case pages of [] \<Rightarrow> (left, 0) | p # _ \<Rightarrow> expire_records w left (wp_records p))"

definition trim_front :: "usize \<Rightarrow> window_page list \<Rightarrow> window_page list" where
  "trim_front partial pages =
    (if 0 < partial then page_from_retained (drop partial (wp_records (hd pages)))
       (drop partial (wp_fragments (hd pages))) # tl pages
     else pages)"

text \<open>The advanced window once the delta is accepted and the combined total fits.\<close>

definition slide :: "payout_window \<Rightarrow> accepted_share list \<Rightarrow> i64 \<Rightarrow> u128 \<Rightarrow> payout_window \<times> advance_stats \<times> byte_delta" where
  "slide W delta anchor combined =
    (let old_lengths = fragment_lengths W; old_count = length old_lengths;
         fragments = map canonical_share_fragment delta;
         (appended, touched) = append_pages (win_page_size W) (win_pages W) delta fragments;
         (left, rows, offset, kept) = expire_pages (win_weight W) combined appended;
         (left, partial) = expire_front (win_weight W) left kept;
         touched = (if 0 < partial \<and> offset < length (win_pages W) then insert offset touched else touched);
         advanced = \<lparr>win_anchor = anchor, win_weight = win_weight W, win_page_size = win_page_size W,
           win_pages = trim_front partial kept, win_total = left\<rparr> in
     (advanced,
      \<lparr>as_added_rows = length delta, as_expired_rows = rows + partial, as_touched_pages = card touched\<rparr>,
      advance_byte_delta old_lengths advanced old_count (rows + partial)))"

definition advance ::
  "payout_window \<Rightarrow> accepted_share list \<Rightarrow> i64
    \<Rightarrow> window_advance_error + payout_window \<times> advance_stats \<times> byte_delta"
where
  "advance W delta anchor =
    (if anchor < win_anchor W then Inl AnchorMovedBackwards
     else
     rbind (check_delta (win_anchor W) anchor (last_seq W) None delta) (\<lambda>_.
     rbind (checked_sum AdvanceDifficultyOverflow sh_share_difficulty delta) (\<lambda>delta_difficulty.
     rbind (ok_or (checked_add (win_total W) delta_difficulty) AdvanceDifficultyOverflow) (\<lambda>combined.
     Inr (slide W delta anchor combined)))))"

end
