(* ===== verification/Heavy_Suffix.thy ===== *)
theory Heavy_Suffix
  imports Rust_Prelude
begin

text \<open>
  The specification of a sliding payout window: of a list in order of age, the shortest
  suffix that carries a weight, or the whole list when it is too light.  A window that keeps
  this suffix of what it had and what was appended keeps it of everything ever appended.
\<close>

fun heavy_suffix :: "('a \<Rightarrow> int) \<Rightarrow> int \<Rightarrow> 'a list \<Rightarrow> 'a list" where
  "heavy_suffix d w [] = []"
| "heavy_suffix d w (x # xs) = (if w \<le> (\<Sum>y\<leftarrow>xs. d y) then heavy_suffix d w xs else x # xs)"

lemma heavy_suffix_short:
  assumes "\<And>x. x \<in> set xs \<Longrightarrow> 0 \<le> d x" and "w \<le> (\<Sum>y\<leftarrow>ys. d y)"
  shows "heavy_suffix d w (xs @ ys) = heavy_suffix d w ys"
  using assms(1)
proof (induction xs)
  case (Cons x xs)
  then have "0 \<le> (\<Sum>y\<leftarrow>xs. d y)" by (intro sum_list_nonneg) auto
  then show ?case using Cons assms(2) by simp
qed simp

lemma heavy_suffix_append:
  assumes "\<And>x. x \<in> set xs \<union> set ys \<Longrightarrow> 0 \<le> d x"
  shows "heavy_suffix d w (heavy_suffix d w xs @ ys) = heavy_suffix d w (xs @ ys)"
  using assms
proof (induction xs)
  case (Cons x xs)
  have "0 \<le> (\<Sum>y\<leftarrow>ys. d y)" using Cons.prems by (intro sum_list_nonneg) auto
  then show ?case using Cons by auto
qed simp

lemma heavy_suffix_drop:
  assumes "i \<le> length xs" and "i = 0 \<or> w \<le> (\<Sum>y\<leftarrow>drop i xs. d y)"
    and "i < length xs \<Longrightarrow> (\<Sum>y\<leftarrow>drop (Suc i) xs. d y) < w" and "\<And>x. x \<in> set xs \<Longrightarrow> 0 \<le> d x"
  shows "heavy_suffix d w xs = drop i xs"
  using assms
proof (induction xs arbitrary: i)
  case (Cons x xs)
  show ?case
  proof (cases i)
    case 0
    then show ?thesis using Cons.prems by simp
  next
    case (Suc j)
    have "0 \<le> (\<Sum>y\<leftarrow>take j xs. d y)" using Cons.prems(4) by (intro sum_list_nonneg) (auto dest: in_set_takeD)
    moreover have "(\<Sum>y\<leftarrow>xs. d y) = (\<Sum>y\<leftarrow>take j xs. d y) + (\<Sum>y\<leftarrow>drop j xs. d y)"
      by (metis append_take_drop_id map_append sum_list_append)
    ultimately have "w \<le> (\<Sum>y\<leftarrow>xs. d y)" using Cons.prems(2) Suc by simp
    moreover have "heavy_suffix d w xs = drop j xs"
      using Cons.prems Suc \<open>w \<le> (\<Sum>y\<leftarrow>xs. d y)\<close> by (intro Cons.IH) auto
    ultimately show ?thesis using Suc by simp
  qed
qed simp

lemma heavy_suffix_suffix: "\<exists>n. heavy_suffix d w xs = drop n xs \<and> n \<le> length xs"
proof (induction xs)
  case (Cons x xs)
  then obtain n where "heavy_suffix d w xs = drop n xs" "n \<le> length xs" by blast
  then have "heavy_suffix d w xs = drop (Suc n) (x # xs)" "Suc n \<le> length (x # xs)" by simp_all
  moreover have "x # xs = drop 0 (x # xs)" by simp
  ultimately show ?case by (metis heavy_suffix.simps(2) le0)
qed simp

lemma heavy_suffix_heavy:
  "w \<le> (\<Sum>y\<leftarrow>xs. d y) \<Longrightarrow> w \<le> (\<Sum>y\<leftarrow>heavy_suffix d w xs. d y)"
  by (induction xs) auto

lemma heavy_suffix_light: "(\<Sum>y\<leftarrow>xs. d y) < w \<Longrightarrow> (\<And>x. x \<in> set xs \<Longrightarrow> 0 \<le> d x) \<Longrightarrow> heavy_suffix d w xs = xs"
  by (cases xs) (fastforce simp: not_le)+

lemma heavy_suffix_least: "heavy_suffix d w xs = y # ys \<Longrightarrow> (\<Sum>y\<leftarrow>ys. d y) < w"
  by (induction xs) (auto split: if_splits)

lemma heavy_suffix_ne: "0 < w \<Longrightarrow> xs \<noteq> [] \<Longrightarrow> heavy_suffix d w xs \<noteq> []"
  by (induction xs) (auto, metis list.simps(8) not_le sum_list.Nil)

lemma last_heavy_suffix: "0 < w \<Longrightarrow> xs \<noteq> [] \<Longrightarrow> last (heavy_suffix d w xs) = last xs"
  using heavy_suffix_suffix[of d w xs] heavy_suffix_ne[of w xs d] by (metis drop_eq_Nil last_drop not_le)

section \<open>Windows that slide\<close>

text \<open>A run of steps, with the records each of them brings.\<close>

inductive runs :: "('w \<Rightarrow> 'r list \<Rightarrow> 'w \<Rightarrow> bool) \<Rightarrow> 'w \<Rightarrow> 'r list list \<Rightarrow> 'w \<Rightarrow> bool" for step where
  stay: "runs step W [] W"
| more: "runs step W rss V \<Longrightarrow> step V rs U \<Longrightarrow> runs step W (rss @ [rs]) U"

text \<open>
  What a window promises: a view of records, a weight no step changes, and after a step the
  shortest suffix of the old view and the new records with that weight.
\<close>

locale sliding_window =
  fixes view :: "'w \<Rightarrow> 'r list" and difficulty :: "'r \<Rightarrow> int" and weight :: "'w \<Rightarrow> int"
    and step :: "'w \<Rightarrow> 'r list \<Rightarrow> 'w \<Rightarrow> bool" and valid :: "'w \<Rightarrow> bool"
  assumes nonneg: "0 \<le> difficulty r"
    and keeps: "valid W \<Longrightarrow> step W rs W' \<Longrightarrow> valid W' \<and> weight W' = weight W"
    and slides: "valid W \<Longrightarrow> step W rs W' \<Longrightarrow> view W' = heavy_suffix difficulty (weight W) (view W @ rs)"
begin

lemma run_keeps: "runs step W rss V \<Longrightarrow> valid W \<Longrightarrow> valid V \<and> weight V = weight W"
  by (induction rule: runs.induct) (auto dest: keeps)

lemma run_slides:
  assumes "runs step W rss V" and "valid W" and "view W = heavy_suffix difficulty (weight W) xs"
  shows "view V = heavy_suffix difficulty (weight W) (xs @ concat rss)"
  using assms
proof (induction rule: runs.induct)
  case (more W rss V rs U)
  have "valid V" "weight V = weight W" using run_keeps[OF more.hyps(1) more.prems(1)] by simp_all
  then have "view U = heavy_suffix difficulty (weight W) (view V @ rs)" using slides more.hyps(2) by metis
  also have "\<dots> = heavy_suffix difficulty (weight W) ((xs @ concat rss) @ rs)"
    using more.IH more.prems nonneg by (simp only: heavy_suffix_append)
  finally show ?case by simp
qed simp

end

end
