(* ===== verification/Share_Window_Facts.thy ===== *)
theory Share_Window_Facts
  imports Share_Window Heavy_Suffix
begin

text \<open>
  What the paged window computes: the fold keeps the shortest suffix of the eligible records
  that carries the window weight, the advance keeps it of the window and the delta, and
  neither the pages nor the order of expiry (whole pages first) show in the result.
\<close>

abbreviation diff :: "accepted_share \<Rightarrow> int" where
  "diff r \<equiv> uint (sh_share_difficulty r)"

abbreviation weight_of :: "accepted_share list \<Rightarrow> int" where
  "weight_of rs \<equiv> \<Sum>r\<leftarrow>rs. diff r"

lemma weight_nonneg [simp]: "0 \<le> weight_of rs"
  by (intro sum_list_nonneg) auto

lemma weight_take_drop: "weight_of (take n rs) + weight_of (drop n rs) = weight_of rs"
  by (metis append_take_drop_id map_append sum_list_append)

lemma weight_take_le: "weight_of (take n rs) \<le> weight_of rs" and weight_drop_le: "weight_of (drop n rs) \<le> weight_of rs"
  using weight_take_drop[of n rs] weight_nonneg[of "take n rs"] weight_nonneg[of "drop n rs"] by linarith+

section \<open>Pages\<close>

definition page_ok :: "window_page \<Rightarrow> bool" where
  "page_ok p \<longleftrightarrow> wp_records p \<noteq> [] \<and> wp_fragments p = map canonical_share_fragment (wp_records p) \<and>
    uint (wp_total p) = weight_of (wp_records p)"

lemma page_total_exact:
  assumes "weight_of rs < 2 ^ 128"
  shows "uint (page_total rs) = weight_of rs"
proof -
  have "uint (foldl (\<lambda>t r. saturating_add t (sh_share_difficulty r)) t rs) = uint t + weight_of rs"
    if "uint t + weight_of rs < 2 ^ 128" for t :: u128
    using that
  proof (induction rs arbitrary: t)
    case (Cons r rs)
    have "uint t + (diff r + weight_of rs) < 2 ^ 128" using Cons.prems by simp
    then have "uint t + diff r < 2 ^ 128" using weight_nonneg[of rs] by linarith
    then have "uint (saturating_add t (sh_share_difficulty r)) = uint t + diff r"
      by (simp add: uint_saturating_add)
    then show ?case using Cons by simp
  qed simp
  from this[of 0] show ?thesis using assms by (simp add: page_total_def)
qed

lemma page_from_retained_ok:
  assumes "rs \<noteq> []" and "weight_of rs < 2 ^ 128"
  shows "page_ok (page_from_retained rs (map canonical_share_fragment rs))"
  using assms by (simp add: page_ok_def page_from_retained_def page_total_exact)

lemma page_from_records_eq: "page_from_records rs = page_from_retained rs (map canonical_share_fragment rs)"
  by (simp add: page_from_records_def page_from_retained_def)

lemma page_from_retained_records [simp]: "wp_records (page_from_retained rs fs) = rs"
  by (simp add: page_from_retained_def)

lemma weight_part:
  assumes "rs \<in> set rss"
  shows "weight_of rs \<le> weight_of (concat rss)"
proof -
  obtain us vs where "rss = us @ rs # vs" using split_list[OF assms] by blast
  then show ?thesis using weight_nonneg[of "concat us"] weight_nonneg[of "concat vs"] by simp
qed

lemma pages_of_chunks:
  assumes "0 < n" and "weight_of rs < 2 ^ 128"
  defines "ps \<equiv> map (\<lambda>c. page_from_retained c (map canonical_share_fragment c)) (chunks n rs)"
  shows "concat (map wp_records ps) = rs" and "\<forall>p\<in>set ps. page_ok p \<and> length (wp_records p) \<le> n"
proof -
  show "concat (map wp_records ps) = rs" by (simp add: ps_def comp_def concat_chunks assms(1))
  show "\<forall>p\<in>set ps. page_ok p \<and> length (wp_records p) \<le> n"
  proof
    fix p assume "p \<in> set ps"
    then obtain c where c: "c \<in> set (chunks n rs)" "p = page_from_retained c (map canonical_share_fragment c)"
      by (auto simp: ps_def)
    have "weight_of c < 2 ^ 128" using weight_part[OF c(1)] assms(1,2) by (simp add: concat_chunks)
    then show "page_ok p \<and> length (wp_records p) \<le> n"
      using chunks_bound[OF assms(1) c(1)] c(2) by (simp add: page_from_retained_ok)
  qed
qed

lemma chunks_map: "chunks n (map f xs) = map (map f) (chunks n xs)"
proof (induction n xs rule: chunks.induct)
  case (2 n x xs)
  then show ?case by (cases n) (simp_all add: take_map drop_map)
qed simp

lemma map2_pages:
  "map2 page_from_retained (chunks n rs) (chunks n (map canonical_share_fragment rs)) =
    map (\<lambda>c. page_from_retained c (map canonical_share_fragment c)) (chunks n rs)"
  unfolding chunks_map by (simp add: zip_map2 zip_same_conv_map comp_def)

section \<open>The fold\<close>

definition all_eligible :: "i64 \<Rightarrow> accepted_share list \<Rightarrow> accepted_share list" where
  "all_eligible anchor records = sort_key sh_share_seq (filter (eligible_at anchor) records)"

definition records_ok :: "accepted_share list \<Rightarrow> bool" where
  "records_ok rs \<longleftrightarrow> sorted_wrt (<) (map sh_share_seq rs) \<and> distinct (map sh_share_id rs) \<and>
    (\<forall>r\<in>set rs. sh_share_difficulty r \<noteq> 0)"

lemma check_snapshot_Inr:
  "check_snapshot prior ids rs = Inr () \<longleftrightarrow> sorted_wrt (<) (case_option [] (\<lambda>p. [p]) prior @ map sh_share_seq rs) \<and>
    distinct (map sh_share_id rs) \<and> ids \<inter> sh_share_id ` set rs = {} \<and> (\<forall>r\<in>set rs. sh_share_difficulty r \<noteq> 0)"
proof (induction rs arbitrary: prior ids)
  case Nil
  then show ?case by (simp split: option.split)
next
  case (Cons r rs)
  show ?case by (cases prior) (auto simp: Cons.IH not_le)
qed

lemma check_snapshot_ok: "check_snapshot None {} rs = Inr () \<longleftrightarrow> records_ok rs"
  by (simp add: check_snapshot_Inr records_ok_def)

lemma retain_from_Inr:
  assumes "i \<le> length es" and "uint weight = weight_of (drop i es)"
    and "i < length es \<Longrightarrow> weight_of (drop (Suc i) es) < uint w"
  shows "(\<exists>s v. retain_from w es i weight = Inr (s, v)) \<longleftrightarrow> weight_of (heavy_suffix diff (uint w) es) < 2 ^ 128"
    and "retain_from w es i weight = Inr (s, v) \<Longrightarrow>
      drop s es = heavy_suffix diff (uint w) es \<and> uint v = weight_of (drop s es)"
proof -
  have "(if weight_of (heavy_suffix diff (uint w) es) < 2 ^ 128
      then \<exists>s v. retain_from w es i weight = Inr (s, v) \<and> drop s es = heavy_suffix diff (uint w) es \<and>
        uint v = weight_of (drop s es)
      else retain_from w es i weight = Inl FoldDifficultyOverflow)"
    using assms
  proof (induction i arbitrary: weight)
    case 0
    then have "heavy_suffix diff (uint w) es = es" using heavy_suffix_drop[of 0 es "uint w" diff] by simp
    then show ?case using 0 u128_bound[of weight] by simp
  next
    case (Suc i)
    show ?case
    proof (cases "w \<le> weight")
      case True
      then have "heavy_suffix diff (uint w) es = drop (Suc i) es"
        using Suc.prems by (intro heavy_suffix_drop) (auto simp: word_le_def)
      then show ?thesis using True Suc.prems(2) u128_bound[of weight] by simp
    next
      case False
      have d: "weight_of (drop i es) = diff (es ! i) + weight_of (drop (Suc i) es)"
        using Cons_nth_drop_Suc[of i es] Suc.prems(1) by (metis Suc_le_lessD list.simps(9) sum_list.Cons)
      show ?thesis
      proof (cases "checked_add weight (sh_share_difficulty (es ! i))")
        case (Some v)
        then have "uint v = weight_of (drop i es)" using d Suc.prems(2) by (simp add: checked_add_Some)
        moreover have "weight_of (drop (Suc i) es) < uint w" using False Suc.prems(2) by (simp add: word_le_def not_le)
        ultimately show ?thesis using Suc.IH[of v] Suc.prems(1) False Some by simp
      next
        case None
        then have big: "2 ^ 128 \<le> weight_of (drop i es)" using d Suc.prems(2) by (simp add: checked_add_None)
        have lt: "weight_of (drop (Suc i) es) < uint w" using False Suc.prems(2) by (simp add: word_le_def not_le)
        have "uint w \<le> weight_of (drop i es)" using big u128_bound[of w] by linarith
        then have "heavy_suffix diff (uint w) es = drop i es"
          using lt Suc.prems(1) by (intro heavy_suffix_drop) auto
        then show ?thesis using None False big by simp
      qed
    qed
  qed
  then show "(\<exists>s v. retain_from w es i weight = Inr (s, v)) \<longleftrightarrow> weight_of (heavy_suffix diff (uint w) es) < 2 ^ 128"
    and "retain_from w es i weight = Inr (s, v) \<Longrightarrow>
      drop s es = heavy_suffix diff (uint w) es \<and> uint v = weight_of (drop s es)"
    by (auto split: if_splits)
qed

text \<open>A window: records in order and eligible, pages that describe them, and the least that carries the weight.\<close>

definition window_ok :: "payout_window \<Rightarrow> bool" where
  "window_ok W \<longleftrightarrow> 0 < win_weight W \<and> 0 < win_page_size W \<and>
    (\<forall>p\<in>set (win_pages W). page_ok p \<and> length (wp_records p) \<le> win_page_size W) \<and>
    uint (win_total W) = weight_of (shares_for_build W) \<and>
    sorted_wrt (<) (map sh_share_seq (shares_for_build W)) \<and>
    (\<forall>r\<in>set (shares_for_build W). sh_share_difficulty r \<noteq> 0 \<and> eligible_at (win_anchor W) r) \<and>
    shares_for_build W = heavy_suffix diff (uint (win_weight W)) (shares_for_build W)"

lemma heavy_suffix_idem: "heavy_suffix diff w (heavy_suffix diff w xs) = heavy_suffix diff w xs"
  using heavy_suffix_append[of xs "[]" diff w] by simp

lemma fold_facts:
  assumes "from_full_snapshot records anchor w page_size = Inr W"
  shows "window_ok W" and "records_ok (all_eligible anchor records)"
    and "win_anchor W = anchor \<and> win_weight W = w \<and> win_page_size W = page_size"
    and "shares_for_build W = heavy_suffix diff (uint w) (all_eligible anchor records)"
    and "win_pages W = map page_from_records (chunks page_size (shares_for_build W))"
proof -
  let ?es = "all_eligible anchor records"
  from assms obtain start where pos: "w \<noteq> 0" "page_size \<noteq> 0"
    and ok: "records_ok ?es" and ret: "retain_from w ?es (length ?es) 0 = Inr (start, win_total W)"
    and W: "W = \<lparr>win_anchor = anchor, win_weight = w, win_page_size = page_size,
      win_pages = map page_from_records (chunks page_size (drop start ?es)), win_total = win_total W\<rparr>"
    by (auto simp: from_full_snapshot_def Let_def check_snapshot_ok all_eligible_def[symmetric] split: if_splits)
  have start: "drop start ?es = heavy_suffix diff (uint w) ?es" "uint (win_total W) = weight_of (drop start ?es)"
    using retain_from_Inr(2)[OF _ _ _ ret] by simp_all
  have pages: "win_pages W = map (\<lambda>c. page_from_retained c (map canonical_share_fragment c)) (chunks page_size (drop start ?es))"
    by (subst W) (simp add: page_from_records_eq)
  have lt: "weight_of (drop start ?es) < 2 ^ 128" using start(2) u128_bound[of "win_total W"] by simp
  note P = pages_of_chunks[OF _ lt, of page_size]
  have sh: "shares_for_build W = drop start ?es" using P(1) pos(2) by (simp add: shares_for_build_def pages)
  show "win_anchor W = anchor \<and> win_weight W = w \<and> win_page_size W = page_size" by (subst (1 2 3) W) simp
  note A = this
  show "shares_for_build W = heavy_suffix diff (uint w) ?es" using sh start(1) by simp
  show "records_ok ?es" by (rule ok)
  show "win_pages W = map page_from_records (chunks page_size (shares_for_build W))"
    unfolding sh by (subst W) simp
  have elig: "eligible_at anchor r" if "r \<in> set (drop start ?es)" for r
    using in_set_dropD[OF that] by (auto simp: all_eligible_def)
  have "0 < w" using pos(1) by (simp add: word_less_def word_uint_eq_iff order_less_le)
  moreover have "sorted_wrt (<) (map sh_share_seq (drop start ?es))"
    using ok sorted_wrt_drop by (auto simp: records_ok_def drop_map[symmetric])
  moreover have "sh_share_difficulty r \<noteq> 0" if "r \<in> set (drop start ?es)" for r
    using ok in_set_dropD[OF that] by (auto simp: records_ok_def)
  ultimately show "window_ok W"
    unfolding window_ok_def sh using A P(2) pos(2) start elig by (simp add: pages heavy_suffix_idem)
qed

lemma fold_accepts:
  "(\<exists>W. from_full_snapshot records anchor w page_size = Inr W) \<longleftrightarrow> 0 < w \<and> 0 < page_size \<and>
    records_ok (all_eligible anchor records) \<and>
    weight_of (heavy_suffix diff (uint w) (all_eligible anchor records)) < 2 ^ 128"
proof -
  let ?es = "all_eligible anchor records"
  have pos: "w \<noteq> 0 \<longleftrightarrow> 0 < w" by (simp add: word_neq_0_conv)
  have "(\<exists>s v. retain_from w ?es (length ?es) 0 = Inr (s, v)) \<longleftrightarrow> weight_of (heavy_suffix diff (uint w) ?es) < 2 ^ 128"
    by (rule retain_from_Inr(1)) simp_all
  then show ?thesis
    by (auto simp: from_full_snapshot_def Let_def check_snapshot_ok all_eligible_def[symmetric] pos)
qed

end
