(* ===== verification/Share_Window_Advance.thy ===== *)
theory Share_Window_Advance
  imports Share_Window_Facts
begin

text \<open>
  The advance: which deltas it accepts, the records it keeps, what it says about rows and
  pages, and the surgery on the items stream.
\<close>

section \<open>The delta\<close>

lemma check_delta_Inr:
  "check_delta old_anchor anchor prior prior_delta rs = Inr () \<longleftrightarrow>
    (\<forall>r\<in>set rs. sh_share_difficulty r \<noteq> 0 \<and> eligible_at anchor r \<and> \<not> eligible_at old_anchor r \<and>
      (\<forall>p\<in>set_option prior. p < sh_share_seq r)) \<and>
    sorted_wrt (<) (case_option [] (\<lambda>p. [p]) prior_delta @ map sh_share_seq rs)"
proof (induction rs arbitrary: prior_delta)
  case Nil
  then show ?case by (simp split: option.split)
next
  case (Cons r rs)
  show ?case by (cases prior_delta) (auto simp: Cons.IH not_le not_less eligible_at_def)
qed

lemma last_seq_shares:
  assumes "\<forall>p\<in>set (win_pages W). page_ok p"
  shows "last_seq W = (if shares_for_build W = [] then None else Some (sh_share_seq (last (shares_for_build W))))"
proof (cases "win_pages W" rule: rev_cases)
  case Nil
  then show ?thesis by (simp add: last_seq_def shares_for_build_def)
next
  case (snoc ps p)
  then have "wp_records p \<noteq> []" using assms by (simp add: page_ok_def)
  then show ?thesis using snoc by (simp add: last_seq_def shares_for_build_def)
qed

section \<open>Pages of the delta\<close>

lemma append_pages_ok:
  assumes "0 < n" and "\<forall>p\<in>set ps. page_ok p \<and> length (wp_records p) \<le> n"
    and "weight_of (concat (map wp_records ps) @ delta) < 2 ^ 128"
    and "append_pages n ps delta (map canonical_share_fragment delta) = (qs, touched)"
  shows "concat (map wp_records qs) = concat (map wp_records ps) @ delta"
    and "\<forall>p\<in>set qs. page_ok p \<and> length (wp_records p) \<le> n"
    and "touched \<subseteq> {length ps - 1}" and "finite touched" and "length ps \<le> length qs" and "ps = [] \<Longrightarrow> touched = {}"
proof -
  obtain filled taken where fill: "fill_last_page n ps delta (map canonical_share_fragment delta) = (filled, taken, touched)"
    and qs: "qs = filled @ map2 page_from_retained (chunks n (drop taken delta)) (chunks n (drop taken (map canonical_share_fragment delta)))"
    using assms(4) by (auto simp: append_pages_def split: prod.splits)
  have F: "concat (map wp_records filled) = concat (map wp_records ps) @ take taken delta \<and>
    (\<forall>p\<in>set filled. page_ok p \<and> length (wp_records p) \<le> n) \<and> touched \<subseteq> {length ps - 1} \<and>
    length filled = length ps \<and> (ps = [] \<longrightarrow> touched = {})"
  proof (cases "delta = [] \<or> ps = [] \<or> \<not> length (wp_records (last ps)) < n")
    case True
    then show ?thesis using fill assms(2) by (auto simp: fill_last_page_def)
  next
    case False
    define k where "k = min (n - length (wp_records (last ps))) (length delta)"
    let ?rs = "wp_records (last ps) @ take k delta"
    have parts: "filled = butlast ps @ [page_from_retained ?rs (map canonical_share_fragment ?rs)]" "taken = k"
      "touched = {length ps - 1}"
      using fill False assms(2) last_in_set[of ps]
      by (auto simp: fill_last_page_def k_def Let_def page_ok_def take_map)
    have split: "ps = butlast ps @ [last ps]" using False by simp
    have lastok: "page_ok (last ps)" "length (wp_records (last ps)) \<le> n" using False assms(2) last_in_set[of ps] by auto
    have "weight_of ?rs \<le> weight_of (concat (map wp_records ps) @ delta)"
    proof -
      have "concat (map wp_records ps) @ delta = concat (map wp_records (butlast ps)) @ ?rs @ drop k delta"
        by (subst split) simp
      then show ?thesis by (simp add: add_increasing weight_take_le)
    qed
    then have "weight_of ?rs < 2 ^ 128" using assms(3) by linarith
    then have "page_ok (page_from_retained ?rs (map canonical_share_fragment ?rs))"
      using lastok by (intro page_from_retained_ok) (auto simp: page_ok_def)
    moreover have "length ?rs \<le> n" using lastok(2) by (simp add: k_def)
    moreover have "\<forall>p\<in>set (butlast ps). page_ok p \<and> length (wp_records p) \<le> n" using assms(2) in_set_butlastD by fast
    moreover have "concat (map wp_records ps) = concat (map wp_records (butlast ps)) @ wp_records (last ps)"
      by (subst split) simp
    ultimately show ?thesis using parts False by (auto simp: length_butlast)
  qed
  have "weight_of (drop taken delta) \<le> weight_of (concat (map wp_records ps) @ delta)"
    by (simp add: add_increasing weight_drop_le)
  then have lt: "weight_of (drop taken delta) < 2 ^ 128" using assms(3) by linarith
  note N = pages_of_chunks[OF assms(1) lt]
  have new: "map2 page_from_retained (chunks n (drop taken delta)) (chunks n (drop taken (map canonical_share_fragment delta))) =
      map (\<lambda>c. page_from_retained c (map canonical_share_fragment c)) (chunks n (drop taken delta))"
    by (simp only: drop_map map2_pages)
  show "concat (map wp_records qs) = concat (map wp_records ps) @ delta"
    using F N(1) unfolding qs new by simp
  show "\<forall>p\<in>set qs. page_ok p \<and> length (wp_records p) \<le> n" using F N(2) unfolding qs new by auto
  show "touched \<subseteq> {length ps - 1}" "ps = [] \<Longrightarrow> touched = {}" using F by auto
  then show "finite touched" using finite_subset by blast
  show "length ps \<le> length qs" using F by (simp add: qs)
qed

section \<open>Expiry\<close>

lemma word_sub_exact: "uint b \<le> uint a \<Longrightarrow> uint (a - b) = uint a - uint b" for a b :: "'a::len word"
  by (simp add: uint_sub_lem)

lemma expire_pages_ok:
  assumes "\<forall>p\<in>set ps. page_ok p" and "uint t = weight_of (concat (map wp_records ps))" and "0 < uint w"
    and "expire_pages w t ps = (t', rows, n, kept)"
  shows "kept = drop n ps \<and> n \<le> length ps \<and> rows = length (concat (map wp_records (take n ps))) \<and>
    uint t' = weight_of (concat (map wp_records kept)) \<and>
    heavy_suffix diff (uint w) (concat (map wp_records ps)) = heavy_suffix diff (uint w) (concat (map wp_records kept)) \<and>
    (kept \<noteq> [] \<longrightarrow> weight_of (concat (map wp_records (tl kept))) < uint w) \<and> (ps \<noteq> [] \<longrightarrow> kept \<noteq> [])"
  using assms
proof (induction ps arbitrary: t t' rows n kept)
  case (Cons p ps)
  let ?rest = "concat (map wp_records ps)"
  have p: "uint (wp_total p) = weight_of (wp_records p)" using Cons.prems(1) by (simp add: page_ok_def)
  have sub: "uint (t - wp_total p) = weight_of ?rest"
    using Cons.prems(2) p by (subst word_sub_exact) simp_all
  show ?case
  proof (cases "w \<le> t - wp_total p")
    case True
    obtain rows' n' where e: "expire_pages w (t - wp_total p) ps = (t', rows', n', kept)" "rows = rows' + length (wp_records p)" "n = Suc n'"
      using Cons.prems(4) True by (auto split: prod.splits)
    have heavy: "uint w \<le> weight_of ?rest" using True sub by (simp add: word_le_def)
    then have "ps \<noteq> []" using Cons.prems(3) by auto
    moreover have "heavy_suffix diff (uint w) (wp_records p @ ?rest) = heavy_suffix diff (uint w) ?rest"
      using heavy by (intro heavy_suffix_short) auto
    ultimately show ?thesis using Cons.IH[OF _ sub Cons.prems(3) e(1)] Cons.prems(1) e(2,3) by clarsimp
  next
    case False
    then show ?thesis using Cons.prems(2,4) sub by (auto simp: word_le_def)
  qed
qed auto

lemma expire_records_ok:
  assumes "uint t = weight_of (rs @ ys)" and "weight_of ys < uint w" and "expire_records w t rs = (t', n)"
  shows "n \<le> length rs \<and> (rs \<noteq> [] \<longrightarrow> n < length rs) \<and> uint t' = weight_of (drop n rs @ ys) \<and>
    heavy_suffix diff (uint w) (rs @ ys) = (if rs = [] then heavy_suffix diff (uint w) ys else drop n rs @ ys)"
  using assms
proof (induction rs arbitrary: t t' n)
  case (Cons r rs)
  have sub: "uint (t - sh_share_difficulty r) = weight_of (rs @ ys)"
    using Cons.prems(1) weight_nonneg[of rs] weight_nonneg[of ys] by (subst word_sub_exact) simp_all
  show ?case
  proof (cases "w \<le> t - sh_share_difficulty r")
    case True
    obtain n' where e: "expire_records w (t - sh_share_difficulty r) rs = (t', n')" "n = Suc n'"
      using Cons.prems(3) True by (auto split: prod.splits)
    have heavy: "uint w \<le> weight_of (rs @ ys)" using True sub by (simp add: word_le_def)
    then have "rs \<noteq> []" using Cons.prems(2) by auto
    then show ?thesis using Cons.IH[OF sub Cons.prems(2) e(1)] e(2) heavy by simp
  next
    case False
    then have "weight_of (rs @ ys) < uint w" using sub by (simp add: word_le_def not_le)
    then show ?thesis using Cons.prems(1,3) False by simp
  qed
qed simp

section \<open>One advance\<close>

lemma trim_front_ok:
  assumes ok: "\<forall>p\<in>set kept. page_ok p \<and> length (wp_records p) \<le> n"
    and t1: "uint t1 = weight_of (concat (map wp_records kept))"
    and least: "kept \<noteq> [] \<longrightarrow> weight_of (concat (map wp_records (tl kept))) < uint w"
    and part: "expire_front w t1 kept = (t2, partial)"
  shows "concat (map wp_records (trim_front partial kept)) = heavy_suffix diff (uint w) (concat (map wp_records kept)) \<and>
    uint t2 = weight_of (concat (map wp_records (trim_front partial kept))) \<and>
    concat (map wp_records (trim_front partial kept)) = drop partial (concat (map wp_records kept)) \<and>
    partial \<le> length (concat (map wp_records kept)) \<and>
    (\<forall>p\<in>set (trim_front partial kept). page_ok p \<and> length (wp_records p) \<le> n)"
proof (cases kept)
  case Nil
  then show ?thesis using part t1 by (simp add: expire_front_def trim_front_def)
next
  case (Cons p ps)
  let ?ys = "concat (map wp_records ps)"
  have p: "page_ok p" "length (wp_records p) \<le> n" using ok Cons by auto
  have er: "expire_records w t1 (wp_records p) = (t2, partial)" using part Cons by (simp add: expire_front_def)
  have e: "uint t1 = weight_of (wp_records p @ ?ys)" "weight_of ?ys < uint w"
    using t1 least by (simp_all add: Cons)
  have R: "partial < length (wp_records p)" "uint t2 = weight_of (drop partial (wp_records p) @ ?ys)"
    "heavy_suffix diff (uint w) (wp_records p @ ?ys) = drop partial (wp_records p) @ ?ys"
    using expire_records_ok[OF e er] p by (simp_all add: page_ok_def)
  have "weight_of (drop partial (wp_records p)) < 2 ^ 128"
    using p(1) weight_drop_le[of partial "wp_records p"] u128_bound[of "wp_total p"] by (simp add: page_ok_def)
  then have "page_ok (page_from_retained (drop partial (wp_records p)) (map canonical_share_fragment (drop partial (wp_records p))))"
    using R(1) by (intro page_from_retained_ok) auto
  then have "\<forall>p\<in>set (trim_front partial kept). page_ok p \<and> length (wp_records p) \<le> n"
    using Cons ok p by (auto simp: trim_front_def page_ok_def drop_map)
  moreover have "concat (map wp_records (trim_front partial kept)) = drop partial (wp_records p) @ ?ys"
    by (simp add: Cons trim_front_def)
  ultimately show ?thesis using R by (simp add: Cons)
qed

lemma append_sorted:
  assumes "sorted_wrt (<) (map sh_share_seq xs)" and "sorted_wrt (<) (map sh_share_seq delta)"
    and "\<And>r. r \<in> set delta \<Longrightarrow> xs \<noteq> [] \<Longrightarrow> sh_share_seq (last xs) < sh_share_seq r"
  shows "sorted_wrt (<) (map sh_share_seq (xs @ delta))"
  unfolding map_append sorted_wrt_append
proof (intro conjI ballI)
  fix x y assume "x \<in> set (map sh_share_seq xs)" "y \<in> set (map sh_share_seq delta)"
  then obtain r s where r: "r \<in> set xs" "x = sh_share_seq r" and s: "s \<in> set delta" "y = sh_share_seq s" by auto
  have "x \<le> sh_share_seq (last xs)"
    using assms(1) r by (cases xs rule: rev_cases) (auto simp: sorted_wrt_append less_imp_le)
  also have "xs \<noteq> []" using r by auto
  then have "sh_share_seq (last xs) < y" using assms(3)[OF s(1)] s(2) by simp
  finally show "x < y" .
qed (use assms(1,2) in auto)

text \<open>What an accepted advance is made of.\<close>

lemma advance_parts:
  assumes "advance W delta anchor = Inr (V, stats, bd)"
  obtains t0 pages touched t1 rows offset kept t2 partial where
    "\<not> anchor < win_anchor W" "check_delta (win_anchor W) anchor (last_seq W) None delta = Inr ()"
    "uint t0 = uint (win_total W) + weight_of delta"
    "append_pages (win_page_size W) (win_pages W) delta (map canonical_share_fragment delta) = (pages, touched)"
    "expire_pages (win_weight W) t0 pages = (t1, rows, offset, kept)"
    "expire_front (win_weight W) t1 kept = (t2, partial)"
    "V = \<lparr>win_anchor = anchor, win_weight = win_weight W, win_page_size = win_page_size W,
      win_pages = trim_front partial kept, win_total = t2\<rparr>"
    "stats = \<lparr>as_added_rows = length delta, as_expired_rows = rows + partial,
      as_touched_pages = card (if 0 < partial \<and> offset < length (win_pages W) then insert offset touched else touched)\<rparr>"
    "bd = advance_byte_delta (fragment_lengths W) V (length (fragment_lengths W)) (rows + partial)"
proof -
  from assms obtain dd t0 where
    anchor: "\<not> anchor < win_anchor W" and
    check: "check_delta (win_anchor W) anchor (last_seq W) None delta = Inr ()" and
    sums: "checked_sum AdvanceDifficultyOverflow sh_share_difficulty delta = Inr dd" "checked_add (win_total W) dd = Some t0" and
    out: "slide W delta anchor t0 = (V, stats, bd)"
    by (auto simp: advance_def split: if_splits)
  have t0: "uint t0 = uint (win_total W) + weight_of delta" using sums by (simp add: checked_sum_Inr checked_add_Some)
  obtain pages touched where
    app: "append_pages (win_page_size W) (win_pages W) delta (map canonical_share_fragment delta) = (pages, touched)"
    by fastforce
  obtain t1 rows offset kept where exp: "expire_pages (win_weight W) t0 pages = (t1, rows, offset, kept)"
    by (metis prod_cases4)
  obtain t2 partial where part: "expire_front (win_weight W) t1 kept = (t2, partial)" by fastforce
  show thesis
    by (rule that[OF anchor check t0 app exp part])
      (use out in \<open>auto simp: slide_def Let_def app exp part\<close>)
qed

lemma advance_facts:
  assumes W: "window_ok W" and adv: "advance W delta anchor = Inr (V, stats, bd)"
  defines "all \<equiv> shares_for_build W @ delta"
  shows "window_ok V"
    and "win_anchor V = anchor \<and> win_weight V = win_weight W \<and> win_page_size V = win_page_size W"
    and "shares_for_build V = heavy_suffix diff (uint (win_weight W)) all"
    and "shares_for_build V = drop (as_expired_rows stats) all \<and> as_expired_rows stats \<le> length all"
    and "as_added_rows stats = length delta \<and> as_touched_pages stats \<le> 2"
    and "bd = advance_byte_delta (fragment_lengths W) V (length (fragment_lengths W)) (as_expired_rows stats)"
    and "sorted_wrt (<) (map sh_share_seq all)"
proof -
  let ?w = "uint (win_weight W)"
  note W' = W[unfolded window_ok_def]
  obtain t0 pages touched t1 rows offset kept t2 partial where P:
    "\<not> anchor < win_anchor W" "check_delta (win_anchor W) anchor (last_seq W) None delta = Inr ()"
    "uint t0 = uint (win_total W) + weight_of delta"
    "append_pages (win_page_size W) (win_pages W) delta (map canonical_share_fragment delta) = (pages, touched)"
    "expire_pages (win_weight W) t0 pages = (t1, rows, offset, kept)"
    "expire_front (win_weight W) t1 kept = (t2, partial)" and
    V: "V = \<lparr>win_anchor = anchor, win_weight = win_weight W, win_page_size = win_page_size W,
      win_pages = trim_front partial kept, win_total = t2\<rparr>" and
    stats: "stats = \<lparr>as_added_rows = length delta, as_expired_rows = rows + partial,
      as_touched_pages = card (if 0 < partial \<and> offset < length (win_pages W) then insert offset touched else touched)\<rparr>" and
    bd: "bd = advance_byte_delta (fragment_lengths W) V (length (fragment_lengths W)) (rows + partial)"
    by (rule advance_parts[OF adv])
  have t0: "uint t0 = weight_of (concat (map wp_records (win_pages W)) @ delta)"
    using P(3) W' by (simp add: shares_for_build_def)
  have pos: "0 < win_page_size W" "0 < ?w" using W' by (auto simp: word_less_def)
  have pages_ok: "\<forall>p\<in>set (win_pages W). page_ok p \<and> length (wp_records p) \<le> win_page_size W" using W' by blast
  have lt: "weight_of (concat (map wp_records (win_pages W)) @ delta) < 2 ^ 128" using t0 u128_bound[of t0] by simp
  note A = append_pages_ok[OF pos(1) pages_ok lt P(4)]
  have all: "concat (map wp_records pages) = all" using A(1) by (simp add: all_def shares_for_build_def)
  have E: "kept = drop offset pages \<and> offset \<le> length pages \<and> rows = length (concat (map wp_records (take offset pages))) \<and>
    uint t1 = weight_of (concat (map wp_records kept)) \<and>
    heavy_suffix diff ?w (concat (map wp_records pages)) = heavy_suffix diff ?w (concat (map wp_records kept)) \<and>
    (kept \<noteq> [] \<longrightarrow> weight_of (concat (map wp_records (tl kept))) < ?w) \<and> (pages \<noteq> [] \<longrightarrow> kept \<noteq> [])"
    using A(2) t0 A(1) pos(2) by (intro expire_pages_ok[OF _ _ _ P(5)]) auto
  have "\<forall>p\<in>set kept. page_ok p \<and> length (wp_records p) \<le> win_page_size W"
    using A(2) E in_set_dropD by fast
  from trim_front_ok[OF this _ _ P(6)] E have
    K: "concat (map wp_records (trim_front partial kept)) = heavy_suffix diff ?w (concat (map wp_records kept))"
    "uint t2 = weight_of (concat (map wp_records (trim_front partial kept)))"
    "concat (map wp_records (trim_front partial kept)) = drop partial (concat (map wp_records kept))"
    "partial \<le> length (concat (map wp_records kept))"
    "\<forall>p\<in>set (trim_front partial kept). page_ok p \<and> length (wp_records p) \<le> win_page_size W" by blast+
  have sh: "shares_for_build V = concat (map wp_records (trim_front partial kept))" by (simp add: V shares_for_build_def)
  have "heavy_suffix diff ?w all = heavy_suffix diff ?w (concat (map wp_records kept))" using E by (simp only: all)
  then show view: "shares_for_build V = heavy_suffix diff ?w all" using K(1) by (simp only: sh)
  show fields: "win_anchor V = anchor \<and> win_weight V = win_weight W \<and> win_page_size V = win_page_size W" by (simp add: V)
  have split: "all = concat (map wp_records (take offset pages)) @ concat (map wp_records kept)"
    using E all by (metis append_take_drop_id concat_append map_append)
  have "rows = length (concat (map wp_records (take offset pages)))" using E by blast
  then show "shares_for_build V = drop (as_expired_rows stats) all \<and> as_expired_rows stats \<le> length all"
    unfolding split stats sh K(3) using K(4) by simp
  have "card touched \<le> 1" using A(3) card_mono[of "{length (win_pages W) - 1}" touched] by simp
  then show "as_added_rows stats = length delta \<and> as_touched_pages stats \<le> 2"
    using A(4) by (auto simp: stats card_insert_if)
  show "bd = advance_byte_delta (fragment_lengths W) V (length (fragment_lengths W)) (as_expired_rows stats)"
    using bd by (simp add: stats)
  have delta: "\<forall>r\<in>set delta. sh_share_difficulty r \<noteq> 0 \<and> eligible_at anchor r \<and>
      (shares_for_build W \<noteq> [] \<longrightarrow> sh_share_seq (last (shares_for_build W)) < sh_share_seq r)"
    "sorted_wrt (<) (map sh_share_seq delta)"
    using P(2) pages_ok by (auto simp: check_delta_Inr last_seq_shares)
  show sorted: "sorted_wrt (<) (map sh_share_seq all)"
    unfolding all_def using W' delta by (intro append_sorted) auto
  have "eligible_at anchor r" if "eligible_at (win_anchor W) r" for r
    using that P(1) by (auto simp: eligible_at_def)
  then have every: "\<forall>r\<in>set all. sh_share_difficulty r \<noteq> 0 \<and> eligible_at anchor r"
    using W' delta(1) by (auto simp: all_def)
  obtain n where n: "heavy_suffix diff ?w all = drop n all" using heavy_suffix_suffix[of diff ?w all] by auto
  have "sorted_wrt (<) (map sh_share_seq (drop n all))" using sorted by (simp add: drop_map[symmetric] sorted_wrt_drop)
  then show "window_ok V"
    unfolding window_ok_def view using W' fields K(2,5) every heavy_suffix_idem[of ?w all]
    by (auto simp: V sh[unfolded view, symmetric] n in_set_dropD)
qed

end
