(* ===== verification/Share_Window_Items.thy ===== *)
theory Share_Window_Items
  imports Share_Window_Advance
begin

text \<open>
  The canonical items stream of a window: it does not depend on the pages, it is what the
  digest hashes between brackets, and the surgery an advance reports turns the old stream
  into the new one.
\<close>

section \<open>The stream without pages\<close>

abbreviation joined :: "bytes list \<Rightarrow> bytes" where
  "joined fs \<equiv> digest_fragments True fs"

lemma fragments_append:
  "digest_fragments b (xs @ ys) = digest_fragments b xs @ digest_fragments (b \<and> xs = []) ys"
  by (induction xs arbitrary: b) simp_all

lemma length_fragments:
  "length (digest_fragments b fs) = sum_list (map length fs) + (if b then length fs - 1 else length fs)"
proof (induction fs arbitrary: b)
  case (Cons f fs)
  then show ?case by (cases fs) simp_all
qed simp

lemma fold_page:
  "foldl (\<lambda>(out, sep) f. (out @ (if sep then [0x2c] else []) @ f, True)) (out, sep) fs =
    (out @ digest_fragments (\<not> sep) fs, sep \<or> fs \<noteq> [])"
  by (induction fs arbitrary: out sep) simp_all

lemma fold_pages:
  "foldl (\<lambda>acc p. foldl (\<lambda>(out, sep) f. (out @ (if sep then [0x2c] else []) @ f, True)) acc (wp_fragments p)) (out, sep) ps =
    (out @ digest_fragments (\<not> sep) (concat (map wp_fragments ps)), sep \<or> concat (map wp_fragments ps) \<noteq> [])"
proof (induction ps arbitrary: out sep)
  case (Cons p ps)
  show ?case by (cases "wp_fragments p = []") (simp_all add: fold_page Cons.IH fragments_append)
qed simp

lemma items_joined: "canonical_items_bytes W = joined (concat (map wp_fragments (win_pages W)))"
  unfolding canonical_items_bytes_def fold_pages by simp

lemma digest_pages_fragments: "digest_pages sep ps = digest_fragments (\<not> sep) (concat (map wp_fragments ps))"
proof (induction ps arbitrary: sep)
  case (Cons p ps)
  have one: "(if sep then [0x2c] else []) @ digest_fragments True fs = digest_fragments (\<not> sep) fs" if "fs \<noteq> []" for fs
    using that by (cases fs) simp_all
  show ?case
    by (cases "wp_fragments p = []") (simp_all add: Cons.IH fragments_append one[symmetric])
qed simp

section \<open>The stream of the records\<close>

lemma pages_fragments:
  assumes "\<forall>p\<in>set ps. page_ok p"
  shows "concat (map wp_fragments ps) = map canonical_share_fragment (concat (map wp_records ps))"
  using assms by (induction ps) (simp_all add: page_ok_def)

lemma items_of_shares:
  assumes "window_ok W"
  shows "canonical_items_bytes W = joined (map canonical_share_fragment (shares_for_build W))"
    and "digest_pages False (win_pages W) = canonical_items_bytes W"
    and "fragment_lengths W = map (\<lambda>r. length (canonical_share_fragment r)) (shares_for_build W)"
    and "record_count W = length (shares_for_build W)"
proof -
  have ok: "\<forall>p\<in>set (win_pages W). page_ok p" using assms by (auto simp: window_ok_def)
  show i: "canonical_items_bytes W = joined (map canonical_share_fragment (shares_for_build W))"
    by (simp add: items_joined pages_fragments[OF ok] shares_for_build_def)
  show "digest_pages False (win_pages W) = canonical_items_bytes W"
    unfolding digest_pages_fragments items_joined by simp
  show "fragment_lengths W = map (\<lambda>r. length (canonical_share_fragment r)) (shares_for_build W)"
    using arg_cong[OF pages_fragments[OF ok], of "map length"]
    by (simp add: fragment_lengths_def shares_for_build_def map_concat comp_def)
  show "record_count W = length (shares_for_build W)"
    by (simp add: record_count_def shares_for_build_def length_concat comp_def)
qed

section \<open>Surgery\<close>

lemma joined_drop:
  assumes "k < length fs"
  shows "joined (drop k fs) = drop (sum_list (map length (take k fs)) + k) (joined fs)"
proof (cases "k = 0")
  case False
  have ne: "take k fs \<noteq> []" "drop k fs \<noteq> []" using assms False by auto
  have "joined fs = joined (take k fs @ drop k fs)" by simp
  also have "\<dots> = joined (take k fs) @ digest_fragments False (drop k fs)"
    unfolding fragments_append using ne by simp
  also have "digest_fragments False (drop k fs) = 0x2c # joined (drop k fs)" using ne(2) by (cases "drop k fs") simp_all
  finally have "joined fs = (joined (take k fs) @ [0x2c]) @ joined (drop k fs)" by simp
  moreover have "length (joined (take k fs) @ [0x2c]) = sum_list (map length (take k fs)) + k"
    using assms False by (simp add: length_fragments)
  ultimately show ?thesis by (metis append_eq_conv_conj)
qed simp

lemma surgery:
  fixes fs gs :: "bytes list"
  assumes "k \<le> length fs + length gs" and "concat (map wp_fragments (win_pages V)) = drop k (fs @ gs)"
    and "record_count V = length (drop k (fs @ gs))"
  defines "bd \<equiv> advance_byte_delta (map length fs) V (length fs) k"
  shows "joined (drop k (fs @ gs)) = drop (bd_drop_bytes bd) (joined fs) @ bd_appended bd"
proof (cases "k < length fs")
  case True
  have "bd_drop_bytes bd = sum_list (map length (take k fs)) + k"
    using True by (simp add: bd_def advance_byte_delta_def Let_def take_map)
  moreover have "bd_appended bd = digest_fragments False gs"
    using True assms(2,3) by (cases "gs = []") (simp_all add: bd_def advance_byte_delta_def Let_def)
  moreover have "joined (drop k fs @ gs) = joined (drop k fs) @ digest_fragments False gs"
    unfolding fragments_append using True by simp
  ultimately show ?thesis using True joined_drop[OF True] by simp
next
  case False
  let ?hs = "drop (k - length fs) gs"
  have "drop (bd_drop_bytes bd) (joined fs) = []"
    using False by (cases "fs = []") (simp_all add: bd_def advance_byte_delta_def Let_def length_fragments)
  moreover have "bd_appended bd = joined ?hs"
    using False assms(1-3) by (cases "k < length fs + length gs") (auto simp: bd_def advance_byte_delta_def Let_def)
  ultimately show ?thesis using False by simp
qed

end
