(* ===== verification/Share_Window_Properties.thy ===== *)
theory Share_Window_Properties
  imports Share_Window_Items Reward_Properties
begin

text \<open>
  What the paged window guarantees: the fold is exact, any run of advances ends in the window
  a fold of everything would give, the byte surgery keeps a copy of the stream in step, and
  the reward window computed from the retained records is the one of all of them.
\<close>

section \<open>Runs\<close>

definition window_step :: "payout_window \<Rightarrow> accepted_share list \<Rightarrow> payout_window \<Rightarrow> bool" where
  "window_step W delta V \<longleftrightarrow> (\<exists>anchor stats bd. advance W delta anchor = Inr (V, stats, bd))"

interpretation paged: sliding_window shares_for_build diff "\<lambda>W. uint (win_weight W)" window_step window_ok
  by unfold_locales (auto simp: window_step_def dest: advance_facts(1-3))

lemma records_sorted: "records_ok rs \<Longrightarrow> sorted_wrt (<) (map sh_share_seq rs)"
  by (simp add: records_ok_def)

lemma run_sorted:
  assumes "runs window_step W deltas V" and "window_ok W"
    and "shares_for_build W = heavy_suffix diff (uint (win_weight W)) es" and "sorted_wrt (<) (map sh_share_seq es)"
  shows "sorted_wrt (<) (map sh_share_seq (es @ concat deltas))"
  using assms
proof (induction rule: runs.induct)
  case (more W rss V rs U)
  let ?es = "es @ concat rss" and ?w = "uint (win_weight W)"
  have V: "window_ok V" "win_weight V = win_weight W"
    using paged.run_keeps[OF more.hyps(1) more.prems(1)] by (simp_all add: word_uint_eq_iff)
  have view: "shares_for_build V = heavy_suffix diff ?w ?es" by (rule paged.run_slides[OF more.hyps(1) more.prems(1,2)])
  have pos: "0 < ?w" using more.prems(1) by (auto simp: window_ok_def word_less_def)
  obtain anchor stats bd where "advance V rs anchor = Inr (U, stats, bd)" using more.hyps(2) by (auto simp: window_step_def)
  from advance_facts(7)[OF V(1) this] have srt: "sorted_wrt (<) (map sh_share_seq (shares_for_build V @ rs))" .
  have "sorted_wrt (<) (map sh_share_seq (?es @ rs))"
  proof (rule append_sorted)
    show "sorted_wrt (<) (map sh_share_seq ?es)" by (rule more.IH[OF more.prems])
    show "sorted_wrt (<) (map sh_share_seq rs)" using srt by (simp add: sorted_wrt_append)
    fix r assume "r \<in> set rs" "?es \<noteq> []"
    then have "last (shares_for_build V) = last ?es" "shares_for_build V \<noteq> []"
      unfolding view using last_heavy_suffix[OF pos] heavy_suffix_ne[OF pos] by blast+
    then show "sh_share_seq (last ?es) < sh_share_seq r"
      using srt \<open>r \<in> set rs\<close> last_in_set[of "shares_for_build V"] by (auto simp: sorted_wrt_append)
  qed
  then show ?case by simp
qed simp

lemma fold_sorted_perm:
  assumes "sorted_wrt (<) (map sh_share_seq xs)" and "mset ys = mset xs"
  shows "sort_key sh_share_seq ys = xs"
proof -
  have "sort_key sh_share_seq ys = sort_key sh_share_seq xs"
    using assms by (intro sort_key_unique) (auto simp: strict_sorted_iff distinct_map dest: mset_eq_setD)
  then show ?thesis using assms(1) by (simp add: strict_sorted_iff sort_key_id_if_sorted)
qed

lemma advance_accepts:
  assumes "window_ok W" and "win_anchor W \<le> anchor" and "check_delta (win_anchor W) anchor (last_seq W) None delta = Inr ()"
    and "weight_of (shares_for_build W @ delta) < 2 ^ 128"
  shows "\<exists>V stats bd. advance W delta anchor = Inr (V, stats, bd)"
proof -
  have W: "uint (win_total W) = weight_of (shares_for_build W)" using assms(1) by (simp add: window_ok_def)
  have "weight_of delta < 2 ^ 128" using assms(4) weight_nonneg[of "shares_for_build W"] by (simp only: map_append sum_list_append)
  then obtain dd where dd: "checked_sum AdvanceDifficultyOverflow sh_share_difficulty delta = Inr dd" "uint dd = weight_of delta"
    by (auto simp: checked_sum_Inr intro!: that[of "word_of_int (weight_of delta)"] uint_word_of_int_small)
  then obtain t where "checked_add (win_total W) dd = Some t"
    using assms(4) W by (auto simp: checked_add_def)
  then show ?thesis using assms(2,3) dd(1) by (auto simp: advance_def prod_eq_iff)
qed

section \<open>The reward window of the retained records\<close>

lemma count_shares_enough:
  "uint n \<le> weight_of xs \<Longrightarrow> count_shares n (xs @ ys) = count_shares n xs"
proof (induction xs arbitrary: n)
  case Nil
  then have "n = 0" using uint_nonneg[of n] by (simp add: word_uint_eq_iff)
  then show ?case by (cases ys) simp_all
next
  case (Cons x xs)
  let ?c = "min (sh_share_difficulty x) n"
  have "uint (n - ?c) = uint n - min (diff x) (uint n)" by (rule uint_remaining)
  then have "uint (n - ?c) \<le> weight_of xs" using Cons.prems weight_nonneg[of xs] by (auto simp: min_def)
  then show ?case using Cons.IH by (simp add: Let_def)
qed

lemma eligible_of_retained:
  assumes "from_full_snapshot records anchor w page_size = Inr W" and "fb_anchor_job_issued_at_ms fb = anchor"
  shows "eligible_of (shares_for_build W) fb = rev (shares_for_build W)"
    and "eligible_of records fb = rev (all_eligible anchor records)"
proof -
  have e: "share_eligible fb = eligible_at anchor" using assms(2) by (auto simp: share_eligible_def eligible_at_def fun_eq_iff)
  have desc: "sort_key (\<lambda>s. - uint (sh_share_seq s)) ys = rev xs"
    if "sorted_wrt (<) (map sh_share_seq xs)" "mset ys = mset xs" for xs ys
  proof -
    have "sort_key (\<lambda>s. - uint (sh_share_seq s)) ys = sort_key (\<lambda>s. - uint (sh_share_seq s)) (rev xs)"
      using that by (intro sort_key_unique)
        (auto simp: inj_on_def word_uint_eq_iff[symmetric] strict_sorted_iff distinct_map dest: mset_eq_setD)
    also have "\<dots> = rev xs" using that(1) by (intro seq_desc_sorted) (simp add: sorted_wrt_rev sorted_wrt_map)
    finally show ?thesis .
  qed
  note F = fold_facts[OF assms(1)]
  have "filter (share_eligible fb) (shares_for_build W) = shares_for_build W"
    using F(1,3) by (auto simp: window_ok_def e filter_id_conv)
  then show "eligible_of (shares_for_build W) fb = rev (shares_for_build W)"
    unfolding eligible_of_def using F(1) by (simp add: desc window_ok_def)
  show "eligible_of records fb = rev (all_eligible anchor records)"
    unfolding eligible_of_def e by (rule desc[OF records_sorted[OF F(2)]]) (simp add: all_eligible_def)
qed

section \<open>A sample run\<close>

definition sample_delta :: "accepted_share list" where
  "sample_delta = [(sample_share 4 ''d'' ''m2'' 2)\<lparr>sh_accepted_at_ms := 9\<rparr>]"

lemma sample_fold:
  obtains W where "from_full_snapshot sample_shares 7 8 2 = Inr W"
    "map sh_share_seq (shares_for_build W) = [2, 3]" "weight_of (shares_for_build W) = 9"
proof -
  have all: "all_eligible 7 sample_shares = sample_shares" by code_simp
  have heavy: "heavy_suffix diff (uint (8 :: u128)) sample_shares = drop 1 sample_shares"
    by (simp add: sample_shares_def sample_share_def)
  have "records_ok sample_shares" by code_simp
  moreover have "weight_of (drop 1 sample_shares) < 2 ^ 128" by (simp add: sample_shares_def sample_share_def)
  ultimately obtain W where W: "from_full_snapshot sample_shares 7 8 2 = Inr W"
    using fold_accepts[of sample_shares 7 8 2] all heavy by auto
  have "shares_for_build W = drop 1 sample_shares" using fold_facts(4)[OF W] by (simp only: all heavy)
  then show thesis using that[OF W] by (simp add: sample_shares_def sample_share_def)
qed

lemma sample_advance:
  obtains W V stats bd where "from_full_snapshot sample_shares 7 8 2 = Inr W"
    "advance W sample_delta 10 = Inr (V, stats, bd)" "map sh_share_seq (shares_for_build W) = [2, 3]"
proof -
  obtain W where W: "from_full_snapshot sample_shares 7 8 2 = Inr W"
    "map sh_share_seq (shares_for_build W) = [2, 3]" "weight_of (shares_for_build W) = 9" by (rule sample_fold)
  note F = fold_facts[OF W(1)]
  have "shares_for_build W \<noteq> []" "last (map sh_share_seq (shares_for_build W)) = 3" using W(2) by auto
  then have "last_seq W = Some 3"
    using last_seq_shares[of W] F(1) by (auto simp: window_ok_def last_map)
  then have "check_delta (win_anchor W) 10 (last_seq W) None sample_delta = Inr ()"
    using F(3) by (simp add: sample_delta_def sample_share_def)
  moreover have "weight_of (shares_for_build W @ sample_delta) < 2 ^ 128"
    using W(3) by (simp add: sample_delta_def sample_share_def)
  moreover have "win_anchor W \<le> 10" using F(3) by simp
  ultimately obtain V stats bd where "advance W sample_delta 10 = Inr (V, stats, bd)"
    using advance_accepts[OF F(1)] by blast
  then show thesis using that[OF W(1) _ W(2)] by blast
qed

section \<open>Properties\<close>

text \<open>
  C27: The fold of a snapshot is exact.  It succeeds just when weight and page size are
  positive, the eligible records have distinct sequence numbers and identifiers and positive
  difficulty, and what it would retain fits 128 bits.  It then retains, in sequence order, the
  shortest run of newest eligible records that carries the weight (all of them when they are
  too light), in pages that are full except for the last.
\<close>

theorem snapshot_fold_exact:
  "((\<exists>W. from_full_snapshot records anchor w page_size = Inr W) \<longleftrightarrow> 0 < w \<and> 0 < page_size \<and>
    records_ok (all_eligible anchor records) \<and>
    weight_of (heavy_suffix diff (uint w) (all_eligible anchor records)) < 2 ^ 128) \<and>
  (\<forall>W. from_full_snapshot records anchor w page_size = Inr W \<longrightarrow>
    uint (win_total W) = weight_of (shares_for_build W) \<and>
    map wp_records (win_pages W) = chunks page_size (shares_for_build W) \<and>
    (\<exists>k\<le>length (all_eligible anchor records). shares_for_build W = drop k (all_eligible anchor records) \<and>
      (k = 0 \<or> w \<le> win_total W) \<and>
      (\<forall>j>k. j \<le> length (all_eligible anchor records) \<longrightarrow> weight_of (drop j (all_eligible anchor records)) < uint w)))"
proof (intro conjI allI impI, rule fold_accepts)
  let ?es = "all_eligible anchor records"
  fix W assume W: "from_full_snapshot records anchor w page_size = Inr W"
  note F = fold_facts[OF W]
  show tot: "uint (win_total W) = weight_of (shares_for_build W)" using F(1) by (simp add: window_ok_def)
  show "map wp_records (win_pages W) = chunks page_size (shares_for_build W)"
    unfolding F(5) by (simp add: comp_def page_from_records_def)
  obtain k where k: "heavy_suffix diff (uint w) ?es = drop k ?es" "k \<le> length ?es" using heavy_suffix_suffix by blast
  have "k = 0 \<or> w \<le> win_total W"
  proof (cases "uint w \<le> weight_of ?es")
    case True
    then show ?thesis using heavy_suffix_heavy[of "uint w" diff ?es] F(4) tot by (simp add: word_le_def)
  next
    case False
    then have "heavy_suffix diff (uint w) ?es = ?es" by (intro heavy_suffix_light) auto
    then show ?thesis using k by (cases "k = 0") (auto dest: arg_cong[of _ _ length])
  qed
  moreover have "weight_of (drop j ?es) < uint w" if "k < j" "j \<le> length ?es" for j
  proof -
    have "k < length ?es" using that by simp
    then obtain y ys where y: "drop k ?es = y # ys" by (cases "drop k ?es") auto
    have "drop j ?es = drop (j - Suc k) ys"
      using y that(1) by (metis Suc_diff_Suc drop_Suc_Cons drop_drop le_add_diff_inverse2 less_imp_le_nat)
    then have "weight_of (drop j ?es) \<le> weight_of ys" by (simp add: weight_drop_le)
    also have "\<dots> < uint w" using heavy_suffix_least k(1) y by metis
    finally show ?thesis .
  qed
  ultimately show "\<exists>k\<le>length ?es. shares_for_build W = drop k ?es \<and> (k = 0 \<or> w \<le> win_total W) \<and>
      (\<forall>j>k. j \<le> length ?es \<longrightarrow> weight_of (drop j ?es) < uint w)"
    using F(4) k by metis
qed

theorem snapshot_fold_exact_witness:
  "\<exists>W. from_full_snapshot sample_shares 7 8 2 = Inr W \<and> map wp_records (win_pages W) = [shares_for_build W] \<and>
    map sh_share_seq (shares_for_build W) = [2, 3]"
proof -
  obtain W where W: "from_full_snapshot sample_shares 7 8 2 = Inr W"
    "map sh_share_seq (shares_for_build W) = [2, 3]" by (rule sample_fold)
  have "map wp_records (win_pages W) = chunks 2 (shares_for_build W)"
    using snapshot_fold_exact[of sample_shares 7 8 2] W(1) by blast
  moreover obtain a b where "shares_for_build W = [a, b]" using W(2) by (auto simp: map_eq_Cons_conv)
  ultimately show ?thesis using W by auto
qed

text \<open>
  C7: Advancing is folding.  However the newly eligible records arrive in deltas, the window a
  run of advances ends with retains the records, and has the total, the items stream and the
  digest, of the window folded from all the records at the last anchor, whatever the page size.
\<close>

theorem advances_equal_rebuild:
  assumes "from_full_snapshot records anchor w page_size = Inr W" and "runs window_step W deltas V"
    and "from_full_snapshot records' (win_anchor V) w page_size' = Inr U"
    and "mset (filter (eligible_at (win_anchor V)) records') = mset (filter (eligible_at anchor) records @ concat deltas)"
  shows "shares_for_build V = shares_for_build U \<and> win_total V = win_total U \<and>
    canonical_items_bytes V = canonical_items_bytes U \<and> canonical_digest_hex c V = canonical_digest_hex c U"
proof -
  note F = fold_facts[OF assms(1)] and G = fold_facts[OF assms(3)]
  let ?es = "all_eligible anchor records"
  have view: "shares_for_build W = heavy_suffix diff (uint (win_weight W)) ?es" using F(3,4) by simp
  have "sorted_wrt (<) (map sh_share_seq (?es @ concat deltas))"
    by (rule run_sorted[OF assms(2) F(1) view records_sorted[OF F(2)]])
  then have "all_eligible (win_anchor V) records' = ?es @ concat deltas"
    unfolding all_eligible_def[of "win_anchor V"] using assms(4)
    by (intro fold_sorted_perm) (simp_all add: all_eligible_def)
  then have same: "shares_for_build V = shares_for_build U"
    using paged.run_slides[OF assms(2) F(1) view] F(3) G(4) by simp
  have V: "window_ok V" using paged.run_keeps[OF assms(2) F(1)] by blast
  have "uint (win_total V) = uint (win_total U)" using V G(1) same by (simp add: window_ok_def)
  then show ?thesis
    using same items_of_shares[OF V] items_of_shares[OF G(1)]
    by (simp add: word_uint_eq_iff canonical_digest_hex_def)
qed

theorem advances_equal_rebuild_witness:
  "\<exists>W V U stats bd. from_full_snapshot sample_shares 7 8 2 = Inr W \<and> advance W sample_delta 10 = Inr (V, stats, bd) \<and>
    from_full_snapshot (sample_shares @ sample_delta) 10 8 3 = Inr U \<and> shares_for_build V = shares_for_build U \<and>
    map sh_share_seq (shares_for_build U) = [3, 4]"
proof -
  obtain W V stats bd where W: "from_full_snapshot sample_shares 7 8 2 = Inr W"
    and V: "advance W sample_delta 10 = Inr (V, stats, bd)" by (rule sample_advance)
  have all: "all_eligible 10 (sample_shares @ sample_delta) = sample_shares @ sample_delta" by code_simp
  have heavy: "heavy_suffix diff (uint (8 :: u128)) (sample_shares @ sample_delta) = drop 2 (sample_shares @ sample_delta)"
    by (simp add: sample_shares_def sample_delta_def sample_share_def)
  have "records_ok (sample_shares @ sample_delta)" by code_simp
  moreover have "weight_of (drop 2 (sample_shares @ sample_delta)) < 2 ^ 128"
    by (simp add: sample_shares_def sample_delta_def sample_share_def)
  ultimately obtain U where U: "from_full_snapshot (sample_shares @ sample_delta) 10 8 3 = Inr U"
    using fold_accepts[of "sample_shares @ sample_delta" 10 8 3] all heavy by auto
  have run: "runs window_step W [sample_delta] V"
    using runs.more[OF runs.stay, of window_step W sample_delta V] V by (auto simp: window_step_def)
  have anchor: "win_anchor V = 10" using advance_facts(2)[OF fold_facts(1)[OF W] V] by simp
  have "filter (eligible_at 10) (sample_shares @ sample_delta) = sample_shares @ sample_delta"
    "filter (eligible_at 7) sample_shares = sample_shares" by code_simp+
  then have "mset (filter (eligible_at (win_anchor V)) (sample_shares @ sample_delta)) =
      mset (filter (eligible_at 7) sample_shares @ concat [sample_delta])" by (simp add: anchor)
  from advances_equal_rebuild[OF W run _ this, of 3 U] U anchor have "shares_for_build V = shares_for_build U" by simp
  moreover have "shares_for_build U = drop 2 (sample_shares @ sample_delta)" using fold_facts(4)[OF U] by (simp only: all heavy)
  ultimately show ?thesis using W V U by (auto simp: sample_shares_def sample_delta_def sample_share_def)
qed

text \<open>
  C21: The byte surgery an advance reports is exact: dropping the bytes it names from the items
  stream and appending the ones it gives yields the new stream, so a copy maintained this way
  hashes, between brackets, to the digest of the window; the row counts balance and at most
  two old pages are rewritten.
\<close>

theorem surgery_mirrors_stream:
  assumes "from_full_snapshot records anchor w page_size = Inr W0" and "runs window_step W0 deltas W"
    and "advance W delta anchor' = Inr (V, stats, bd)"
  shows "canonical_items_bytes V = drop (bd_drop_bytes bd) (canonical_items_bytes W) @ bd_appended bd \<and>
    canonical_digest_hex c V = lower_hex (sha256 c ([0x5b] @ canonical_items_bytes V @ [0x5d])) \<and>
    record_count V + as_expired_rows stats = record_count W + as_added_rows stats \<and>
    as_added_rows stats = length delta \<and> as_touched_pages stats \<le> 2"
proof -
  have W: "window_ok W" using paged.run_keeps[OF assms(2) fold_facts(1)[OF assms(1)]] by blast
  note A = advance_facts[OF W assms(3)] and I = items_of_shares[OF W]
  note J = items_of_shares[OF A(1)]
  let ?fs = "map canonical_share_fragment (shares_for_build W)" and ?gs = "map canonical_share_fragment delta"
  let ?k = "as_expired_rows stats"
  have frag: "map canonical_share_fragment (shares_for_build V) = drop ?k (?fs @ ?gs)"
    using A(4) by (simp add: drop_map)
  have bd: "bd = advance_byte_delta (map length ?fs) V (length ?fs) ?k" using A(6) I(3) by (simp add: comp_def)
  have "joined (drop ?k (?fs @ ?gs)) = drop (bd_drop_bytes bd) (joined ?fs) @ bd_appended bd"
    unfolding bd
  proof (rule surgery)
    show "?k \<le> length ?fs + length ?gs" using A(4) by simp
    have "\<forall>p\<in>set (win_pages V). page_ok p" using A(1) by (simp add: window_ok_def)
    then show "concat (map wp_fragments (win_pages V)) = drop ?k (?fs @ ?gs)"
      using pages_fragments frag by (simp add: shares_for_build_def)
    show "record_count V = length (drop ?k (?fs @ ?gs))" using J(4) A(4) by simp
  qed
  then have "canonical_items_bytes V = drop (bd_drop_bytes bd) (canonical_items_bytes W) @ bd_appended bd"
    by (simp only: I(1) J(1) frag)
  moreover have "record_count V + ?k = record_count W + length delta" 
  proof -
    have "length (shares_for_build V) + ?k = length (shares_for_build W @ delta)" using A(4) by (metis le_add_diff_inverse2 length_drop)
    then show ?thesis using I(4) J(4) by simp
  qed
  ultimately show ?thesis using A(5) J(2) by (simp add: canonical_digest_hex_def)
qed

theorem surgery_mirrors_stream_witness:
  "\<exists>W V stats bd. advance W sample_delta 10 = Inr (V, stats, bd) \<and> map sh_share_seq (shares_for_build W) = [2, 3] \<and>
    canonical_items_bytes V = drop (bd_drop_bytes bd) (canonical_items_bytes W) @ bd_appended bd \<and> as_added_rows stats = 1"
proof -
  obtain W V stats bd where W: "from_full_snapshot sample_shares 7 8 2 = Inr W" "map sh_share_seq (shares_for_build W) = [2, 3]"
    and V: "advance W sample_delta 10 = Inr (V, stats, bd)" by (rule sample_advance)
  from surgery_mirrors_stream[OF W(1) runs.stay V] show ?thesis
    using W(2) V by (intro exI[of _ W] exI[of _ V] exI[of _ stats] exI[of _ bd]) (simp add: sample_delta_def)
qed

text \<open>
  The paged window pays like the whole ledger: when its weight covers eight network
  difficulties, the reward window computed from the records it retains is the one computed
  from all the records it was folded from.
\<close>

theorem retained_records_pay_the_same:
  assumes "from_full_snapshot records (fb_anchor_job_issued_at_ms fb) w page_size = Inr W"
    and "uint (fb_network_difficulty fb) * 8 \<le> uint w" and "compute_prism_window records fb = Inr pw"
  shows "compute_prism_window (shares_for_build W) fb = Inr pw"
proof -
  let ?es = "all_eligible (fb_anchor_job_issued_at_ms fb) records" and ?R = "shares_for_build W"
  note F = fold_facts[OF assms(1)] and E = eligible_of_retained[OF assms(1) refl]
  from assms(3) obtain requested where R: "eligible_window records fb None = Inr (rev ?es, requested)"
    by (auto simp: compute_prism_window_def compute_prism_window_in_cut_def eligible_window_Inr E(2))
  have req: "uint requested = uint (fb_network_difficulty fb) * 8" and valid: "window_valid records fb None"
    using R by (auto simp: eligible_window_Inr)
  obtain k where k: "?R = drop k ?es" "k \<le> length ?es" using F(4) heavy_suffix_suffix by metis
  have sub: "set ?R \<subseteq> set records" "distinct (map sh_share_id ?R)"
    using F(2) k by (auto simp: all_eligible_def records_ok_def drop_map[symmetric] dest: in_set_dropD)
  then have "window_valid ?R fb None" using valid by (auto simp: window_valid_def outside_cut_def)
  then have elig: "eligible_window ?R fb None = Inr (rev ?R, requested)" using req E(1) by (simp add: eligible_window_Inr)
  have "count_shares requested (rev ?es) = count_shares requested (rev ?R)"
  proof (cases "uint w \<le> weight_of ?es")
    case True
    then have "uint w \<le> weight_of ?R" unfolding F(4) by (rule heavy_suffix_heavy)
    then have "uint requested \<le> weight_of (rev ?R)" using req assms(2) by (simp add: rev_map[symmetric])
    moreover have "rev ?es = rev ?R @ rev (take k ?es)" using k(1) by (metis append_take_drop_id rev_append)
    ultimately show ?thesis by (simp only: count_shares_enough)
  next
    case False
    then have "?R = ?es" unfolding F(4) by (intro heavy_suffix_light) auto
    then show ?thesis by simp
  qed
  then show ?thesis
    using assms(3) R elig by (simp add: compute_prism_window_def compute_prism_window_in_cut_def)
qed

theorem retained_records_pay_the_same_witness:
  "\<exists>W. from_full_snapshot sample_shares 7 8 2 = Inr W \<and> length (shares_for_build W) < length sample_shares \<and>
    compute_prism_window (shares_for_build W) sample_block = Inr sample_window"
proof -
  obtain W where W: "from_full_snapshot sample_shares 7 8 2 = Inr W" "map sh_share_seq (shares_for_build W) = [2, 3]"
    by (rule sample_fold)
  have "from_full_snapshot sample_shares (fb_anchor_job_issued_at_ms sample_block) 8 2 = Inr W"
    using W(1) by (simp add: sample_block_def)
  from retained_records_pay_the_same[OF this, of sample_window] have
    "compute_prism_window (shares_for_build W) sample_block = Inr sample_window"
    using sample_window_ok by (simp add: compute_prism_window_def sample_block_def)
  moreover have "length (shares_for_build W) = 2" using arg_cong[OF W(2), of length] by simp
  ultimately show ?thesis using W(1) by (auto simp: sample_shares_def)
qed

end
