(* ===== verification/Window_Widths.thy ===== *)
theory Window_Widths
  imports Rust_Prelude
begin

text \<open>
  The declared integer widths of \<open>window.rs\<close>: which literals a width admits, and the search for
  the first integer of a request outside its width.  The JSON value of \<open>serde_json\<close> is a
  parameter, read the three ways the code reads it; \<open>str::parse\<close> of the standard library is
  modelled for decimal integers.
\<close>

section \<open>Integer literals\<close>

definition is_digit :: "char \<Rightarrow> bool" where
  "is_digit c \<longleftrightarrow> 48 \<le> (of_char c :: nat) \<and> (of_char c :: nat) < 58"

definition digits_value :: "string \<Rightarrow> nat option" where
  "digits_value s = (if s \<noteq> [] \<and> list_all is_digit s then Some (foldl (\<lambda>n c. 10 * n + (of_char c - 48)) 0 s) else None)"

text \<open>\<open>str::parse\<close> for an unsigned type of \<open>w\<close> bits and for \<open>i64\<close>: one sign, then digits, in range.\<close>

definition parse_unsigned :: "nat \<Rightarrow> string \<Rightarrow> nat option" where
  "parse_unsigned w s =
    (case digits_value (if s \<noteq> [] \<and> hd s = CHR ''+'' then tl s else s) of
       None \<Rightarrow> None
     | Some n \<Rightarrow> if n < 2 ^ w then Some n else None)"

definition parse_i64 :: "string \<Rightarrow> int option" where
  "parse_i64 s =
    (let negative = (s \<noteq> [] \<and> hd s = CHR ''-'') in
     case digits_value (if s \<noteq> [] \<and> (hd s = CHR ''+'' \<or> negative) then tl s else s) of
       None \<Rightarrow> None
     | Some n \<Rightarrow> let x = (if negative then - int n else int n) in
         if - (2 ^ 63) \<le> x \<and> x < 2 ^ 63 then Some x else None)"

datatype declared_width = U32 | U64 | U128 | I64

definition width_name :: "declared_width \<Rightarrow> string" where
  "width_name w = (case w of U32 \<Rightarrow> ''u32'' | U64 \<Rightarrow> ''u64'' | U128 \<Rightarrow> ''u128'' | I64 \<Rightarrow> ''i64'')"

definition width_admits :: "declared_width \<Rightarrow> string \<Rightarrow> bool" where
  "width_admits w literal = (case w of
      U32 \<Rightarrow> parse_unsigned 32 literal \<noteq> None
    | U64 \<Rightarrow> parse_unsigned 64 literal \<noteq> None
    | U128 \<Rightarrow> parse_unsigned 128 literal \<noteq> None
    | I64 \<Rightarrow> parse_i64 literal \<noteq> None)"

definition is_integer_literal :: "string \<Rightarrow> bool" where
  "is_integer_literal literal =
    (let digits = (if literal \<noteq> [] \<and> hd literal = CHR ''-'' then tl literal else literal) in
     digits \<noteq> [] \<and> list_all is_digit digits)"

section \<open>Requests\<close>

definition ACCEPTED_SHARE_WIDTHS :: "(string \<times> declared_width) list" where
  "ACCEPTED_SHARE_WIDTHS = [(''share_seq'', U64), (''share_difficulty'', U128), (''network_difficulty'', U128),
    (''template_height'', U64), (''job_issued_at_ms'', I64), (''accepted_at_ms'', I64), (''ntime'', U32)]"

definition PREPARE_WINDOW_REQUEST_WIDTHS :: "(string \<times> declared_width) list" where
  "PREPARE_WINDOW_REQUEST_WIDTHS = [(''window_weight'', U128), (''page_size'', U64),
    (''anchor_job_issued_at_ms'', I64), (''append_invalidation_epoch'', U64)]"

record 'j json_view =
  jv_get :: "'j \<Rightarrow> string \<Rightarrow> 'j option"
  jv_array :: "'j \<Rightarrow> 'j list option"
  jv_number :: "'j \<Rightarrow> string option"

record out_of_range_field =
  oor_field :: string
  oor_literal :: string
  oor_width :: declared_width

definition check_field :: "'j json_view \<Rightarrow> 'j option \<Rightarrow> string \<Rightarrow> declared_width \<Rightarrow> out_of_range_field option" where
  "check_field jv v field width =
    (case v of None \<Rightarrow> None
     | Some v \<Rightarrow> (case jv_number jv v of None \<Rightarrow> None
       | Some literal \<Rightarrow>
           if is_integer_literal literal \<and> \<not> width_admits width literal
           then Some \<lparr>oor_field = field, oor_literal = literal, oor_width = width\<rparr> else None))"

fun first_some :: "('a \<Rightarrow> 'b option) \<Rightarrow> 'a list \<Rightarrow> 'b option" where
  "first_some f [] = None"
| "first_some f (x # xs) = (case f x of None \<Rightarrow> first_some f xs | Some y \<Rightarrow> Some y)"

definition check_record :: "'j json_view \<Rightarrow> nat \<times> 'j \<Rightarrow> out_of_range_field option" where
  "check_record jv p = (case p of (index, r) \<Rightarrow>
    first_some (\<lambda>(field, width). check_field jv (jv_get jv r field)
      (''records['' @ dec_digits index @ ''].'' @ field) width) ACCEPTED_SHARE_WIDTHS)"

definition prepare_window_out_of_range :: "'j json_view \<Rightarrow> 'j \<Rightarrow> out_of_range_field option" where
  "prepare_window_out_of_range jv request =
    (case first_some (\<lambda>(field, width). check_field jv (jv_get jv request field) field width) PREPARE_WINDOW_REQUEST_WIDTHS of
       Some found \<Rightarrow> Some found
     | None \<Rightarrow> (case Option.bind (jv_get jv request ''records'') (jv_array jv) of
         None \<Rightarrow> None
       | Some records \<Rightarrow> first_some (check_record jv) (enumerate 0 records)))"

section \<open>What a width admits\<close>

definition width_range :: "declared_width \<Rightarrow> int set" where
  "width_range w = (case w of U32 \<Rightarrow> {0..<2 ^ 32} | U64 \<Rightarrow> {0..<2 ^ 64} | U128 \<Rightarrow> {0..<2 ^ 128} | I64 \<Rightarrow> {- (2 ^ 63)..<2 ^ 63})"

lemma digit_char: "n < 10 \<Longrightarrow> is_digit (char_of (48 + n)) \<and> (of_char (char_of (48 + n) :: char) :: nat) = 48 + n"
  by (simp add: is_digit_def of_char_of)

lemma digits_value_dec: "digits_value (dec_digits n) = Some n"
proof -
  have "dec_digits n \<noteq> [] \<and> list_all is_digit (dec_digits n) \<and>
      foldl (\<lambda>n c. 10 * n + (of_char c - 48)) 0 (dec_digits n) = n"
  proof (induction n rule: dec_digits.induct)
    case (1 n)
    show ?case
    proof (cases "n < 10")
      case True
      then show ?thesis using digit_char[of n] by (subst (1 2 3) dec_digits.simps) simp
    next
      case False
      have "n mod 10 < 10" by simp
      then show ?thesis using False 1 digit_char[of "n mod 10"] by (subst (1 2 3) dec_digits.simps) simp
    qed
  qed
  then show ?thesis by (simp add: digits_value_def)
qed

lemma dec_digits_head: "dec_digits n \<noteq> [] \<and> is_digit (hd (dec_digits n))"
  using digits_value_dec[of n] by (cases "dec_digits n") (auto simp: digits_value_def split: if_splits)

lemma not_sign: "is_digit c \<Longrightarrow> c \<noteq> CHR ''+'' \<and> c \<noteq> CHR ''-''"
  by (auto simp: is_digit_def)

lemma width_admits_dec: "width_admits w (dec_int x) \<longleftrightarrow> x \<in> width_range w"
proof -
  have head: "dec_digits n \<noteq> []" "hd (dec_digits n) \<noteq> CHR ''+''" "hd (dec_digits n) \<noteq> CHR ''-''" for n
    using dec_digits_head[of n] not_sign by auto
  have neg: "digits_value (CHR ''-'' # s) = None" for s by (simp add: digits_value_def is_digit_def)
  have u: "parse_unsigned k (dec_int x) \<noteq> None \<longleftrightarrow> 0 \<le> x \<and> x < 2 ^ k" for k
  proof (cases "x < 0")
    case True
    then show ?thesis by (simp add: parse_unsigned_def dec_int_def neg)
  next
    case False
    then have "nat x < 2 ^ k \<longleftrightarrow> x < 2 ^ k" by (simp add: nat_less_iff)
    then show ?thesis using False head[of "nat x"] by (simp add: parse_unsigned_def dec_int_def digits_value_dec)
  qed
  have i: "parse_i64 (dec_int x) \<noteq> None \<longleftrightarrow> - (2 ^ 63) \<le> x \<and> x < 2 ^ 63"
    using head[of "nat x"] by (cases "x < 0") (simp_all add: parse_i64_def dec_int_def digits_value_dec Let_def)
  show ?thesis
    by (cases w) (simp_all only: width_admits_def width_range_def declared_width.case u i atLeastLessThan_iff)
qed

lemma integer_literal_dec: "is_integer_literal (dec_int x)"
proof -
  have "list_all is_digit (dec_digits n)" for n
    using digits_value_dec[of n] by (auto simp: digits_value_def split: if_splits)
  then show ?thesis using dec_digits_head not_sign by (auto simp: is_integer_literal_def dec_int_def Let_def)
qed

text \<open>
  A request integer is reported just when it is outside its declared width: a field that
  holds the decimal form of \<open>x\<close> is flagged, with the literal as it arrived, if and only if the
  type of that width does not contain \<open>x\<close>.
\<close>

theorem out_of_range_exact:
  "jv_number jv v = Some (dec_int x) \<Longrightarrow>
    check_field jv (Some v) field width =
      (if x \<in> width_range width then None
       else Some \<lparr>oor_field = field, oor_literal = dec_int x, oor_width = width\<rparr>)"
  by (simp add: check_field_def width_admits_dec integer_literal_dec)

theorem out_of_range_exact_witness:
  "check_field \<lparr>jv_get = \<lambda>_ _. None, jv_array = \<lambda>_. None, jv_number = \<lambda>x. Some (dec_int x)\<rparr> (Some (2 ^ 64)) ''share_seq'' U64 =
    Some \<lparr>oor_field = ''share_seq'', oor_literal = dec_int (2 ^ 64), oor_width = U64\<rparr>"
  by (subst out_of_range_exact[of _ _ "2 ^ 64"]) (simp_all add: width_range_def)

end
