(* ===== verification/Work_Codec.thy ===== *)
theory Work_Codec
  imports Transaction_Facts Settlement
begin

text \<open>
  Reading transactions and blocks in \<open>qbit-prism-server/src/codec.rs\<close>: the cursor, the
  structural walk over one transaction, the witness-free form a txid hashes, the witness
  leaves and the coinbase of an assembled block, and the split of a coinbase around its
  extranonce.  The cursor keeps the whole input, because a count is checked against the
  length of the input and not against what is left of it.

  An error is the chain of its contexts, the outermost first.  Slices are shorter than
  \<open>2 ^ 64\<close> bytes, so the checked conversion of a count to \<open>usize\<close> cannot fail.
\<close>

type_synonym codec_error = "string list"

definition ensure :: "bool \<Rightarrow> string \<Rightarrow> codec_error + unit" where
  "ensure b msg = (if b then Inr () else Inl [msg])"

definition with_context :: "string \<Rightarrow> codec_error + 'a \<Rightarrow> codec_error + 'a" where
  "with_context msg r = map_err (\<lambda>e. msg # e) r"

text \<open>\<open>double_sha256\<close> and \<open>hash_display\<close>\<close>

definition double_sha256 :: "crypto \<Rightarrow> bytes \<Rightarrow> bytes" where
  "double_sha256 c b = sha256 c (sha256 c b)"

definition hash_display :: "crypto \<Rightarrow> bytes \<Rightarrow> string" where
  "hash_display c h = hex_encode c (rev h)"

text \<open>\<open>compact_size\<close>: the value is matched against ranges.\<close>

definition work_compact_size :: "u64 \<Rightarrow> bytes" where
  "work_compact_size value =
    (if value \<le> 252 then [ucast value]
     else if value \<le> 0xffff then [253] @ le_bytes 2 (uint (ucast value :: u16))
     else if value \<le> 0xffffffff then [254] @ le_bytes 4 (uint (ucast value :: u32))
     else [255] @ le_bytes 8 (uint value))"

section \<open>The cursor\<close>

record cursor =
  cu_bytes :: bytes
  cu_offset :: usize

definition cursor_take :: "usize \<Rightarrow> cursor \<Rightarrow> codec_error + bytes \<times> cursor" where
  "cursor_take len c =
    rbind (ok_or (usize_add (cu_offset c) len) [''transaction length overflow'']) (\<lambda>finish.
    if finish \<le> length (cu_bytes c)
    then Inr (take len (drop (cu_offset c) (cu_bytes c)), c\<lparr>cu_offset := finish\<rparr>)
    else Inl [''truncated transaction''])"

definition cursor_count :: "cursor \<Rightarrow> codec_error + usize \<times> cursor" where
  "cursor_count c =
    rbind (cursor_take 1 c) (\<lambda>(raw, c).
    let first = raw ! 0 in
    rbind (if first = 253 then rbind (cursor_take 2 c) (\<lambda>(raw, c). Inr (word_of_int (le_value raw) :: u64, c))
      else if first = 254 then rbind (cursor_take 4 c) (\<lambda>(raw, c). Inr (word_of_int (le_value raw), c))
      else if first = 255 then rbind (cursor_take 8 c) (\<lambda>(raw, c). Inr (word_of_int (le_value raw), c))
      else Inr (ucast first, c)) (\<lambda>(value, c).
    rbind (ensure (if first = 253 then 253 \<le> value else if first = 254 then 0xffff < value
        else if first = 255 then 0xffffffff < value else True) ''noncanonical compact size'') (\<lambda>_.
    rbind (ensure (unat value \<le> length (cu_bytes c)) ''transaction count exceeds input size'') (\<lambda>_.
    Inr (unat value, c)))))"

text \<open>\<open>c.take(n)?\<close> where the part is not used.\<close>

definition cursor_skip :: "usize \<Rightarrow> cursor \<Rightarrow> codec_error + cursor" where
  "cursor_skip len c = rbind (cursor_take len c) (\<lambda>(_, c). Inr c)"

text \<open>\<open>for _ in 0..n\<close> over a walk that moves the cursor.\<close>

fun walk_times :: "nat \<Rightarrow> (cursor \<Rightarrow> codec_error + cursor) \<Rightarrow> cursor \<Rightarrow> codec_error + cursor" where
  "walk_times 0 walk c = Inr c"
| "walk_times (Suc n) walk c = rbind (walk c) (walk_times n walk)"

section \<open>Transactions\<close>

text \<open>\<open>let n = c.count()?; c.take(n)?\<close>\<close>

definition walk_var_bytes :: "cursor \<Rightarrow> codec_error + cursor" where
  "walk_var_bytes c = rbind (cursor_count c) (\<lambda>(n, c). cursor_skip n c)"

definition walk_input :: "cursor \<Rightarrow> codec_error + cursor" where
  "walk_input c = rbind (cursor_skip 36 c) (\<lambda>c. rbind (walk_var_bytes c) (cursor_skip 4))"

definition walk_output :: "cursor \<Rightarrow> codec_error + cursor" where
  "walk_output c = rbind (cursor_skip 8 c) walk_var_bytes"

definition walk_witness :: "cursor \<Rightarrow> codec_error + cursor" where
  "walk_witness c = rbind (cursor_count c) (\<lambda>(items, c). walk_times items walk_var_bytes c)"

record transaction_layout =
  tl_body :: "usize \<times> usize"
  tl_locktime :: "usize \<times> usize"
  tl_len :: usize

definition walk_transaction :: "bytes \<Rightarrow> codec_error + transaction_layout" where
  "walk_transaction bs =
    rbind (ensure (10 \<le> length bs) ''transaction is too short'') (\<lambda>_.
    let c = \<lparr>cu_bytes = bs, cu_offset = 4\<rparr>; witness = (bs ! 4 = 0 \<and> bs ! 5 \<noteq> 0) in
    rbind (if witness then rbind (ensure (bs ! 5 = 1) ''unsupported witness transaction flags'') (\<lambda>_. cursor_skip 2 c)
      else Inr c) (\<lambda>c.
    let body_start = cu_offset c in
    rbind (cursor_count c) (\<lambda>(inputs, c).
    rbind (ensure (0 < inputs) ''transaction has no inputs'') (\<lambda>_.
    rbind (walk_times inputs walk_input c) (\<lambda>c.
    rbind (cursor_count c) (\<lambda>(outputs, c).
    rbind (walk_times outputs walk_output c) (\<lambda>c.
    let body_end = cu_offset c in
    rbind (if witness then walk_times inputs walk_witness c else Inr c) (\<lambda>c.
    let locktime_start = cu_offset c in
    rbind (cursor_skip 4 c) (\<lambda>c.
    Inr \<lparr>tl_body = (body_start, body_end), tl_locktime = (locktime_start, cu_offset c),
         tl_len = cu_offset c\<rparr>)))))))))"

text \<open>\<open>&tx[range]\<close>\<close>

definition slice :: "bytes \<Rightarrow> usize \<times> usize \<Rightarrow> bytes" where
  "slice bs r = take (snd r - fst r) (drop (fst r) bs)"

definition strip_witness_transaction :: "bytes \<Rightarrow> codec_error + bytes" where
  "strip_witness_transaction tx =
    rbind (walk_transaction tx) (\<lambda>layout.
    rbind (ensure (tl_len layout = length tx) ''transaction has trailing bytes'') (\<lambda>_.
    Inr (take 4 tx @ slice tx (tl_body layout) @ slice tx (tl_locktime layout))))"

section \<open>Blocks\<close>

text \<open>The loop of \<open>witness_merkle_leaves_from_block\<close>: its state is the offset and the leaves.\<close>

definition block_leaf ::
  "crypto \<Rightarrow> bytes \<Rightarrow> nat \<Rightarrow> usize \<times> string list \<Rightarrow> nat \<Rightarrow> codec_error + usize \<times> string list" where
  "block_leaf c block txs = (\<lambda>(offset, leaves) index.
    rbind (if offset \<le> length block then Inr (drop offset block)
      else Inl [''truncated block transaction list'']) (\<lambda>rest.
    rbind (with_context (''block transaction '' @ dec_digits index @ '' of '' @ dec_digits txs)
      (walk_transaction rest)) (\<lambda>layout.
    Inr (offset + tl_len layout,
      if 0 < index then leaves @ [hex_encode c (double_sha256 c (take (tl_len layout) rest))] else leaves))))"

definition witness_merkle_leaves_from_block :: "crypto \<Rightarrow> bytes \<Rightarrow> codec_error + string list" where
  "witness_merkle_leaves_from_block c block =
    rbind (ensure (80 \<le> length block) ''truncated block header'') (\<lambda>_.
    rbind (with_context ''block transaction count'' (cursor_count \<lparr>cu_bytes = block, cu_offset = 80\<rparr>)) (\<lambda>(txs, cur).
    rbind (ensure (0 < txs) ''block declares no transactions'') (\<lambda>_.
    rbind (try_fold (block_leaf c block txs) (cu_offset cur, []) [0..<txs]) (\<lambda>(offset, leaves).
    rbind (ensure (offset = length block)
      (''block has trailing bytes after '' @ dec_digits txs @ '' transactions'')) (\<lambda>_.
    Inr leaves)))))"

definition coinbase_from_block :: "bytes \<Rightarrow> codec_error + bytes" where
  "coinbase_from_block block =
    rbind (ensure (80 \<le> length block) ''truncated block header'') (\<lambda>_.
    rbind (with_context ''block transaction count'' (cursor_count \<lparr>cu_bytes = block, cu_offset = 80\<rparr>)) (\<lambda>(txs, cur).
    rbind (ensure (0 < txs) ''block declares no transactions'') (\<lambda>_.
    rbind (if cu_offset cur \<le> length block then Inr (drop (cu_offset cur) block)
      else Inl [''truncated block transaction list'']) (\<lambda>rest.
    rbind (with_context ''block coinbase'' (walk_transaction rest)) (\<lambda>layout.
    Inr (take (tl_len layout) rest))))))"

section \<open>The coinbase and its extranonce\<close>

definition coinbase_script_sig_of :: "bytes \<Rightarrow> codec_error + bytes" where
  "coinbase_script_sig_of tx =
    rbind (ensure (10 \<le> length tx) ''transaction is too short'') (\<lambda>_.
    let c = \<lparr>cu_bytes = tx, cu_offset = 4\<rparr> in
    rbind (if tx ! 4 = 0 \<and> tx ! 5 \<noteq> 0 then cursor_skip 2 c else Inr c) (\<lambda>c.
    rbind (cursor_count c) (\<lambda>(inputs, c).
    rbind (ensure (inputs = 1) ''a coinbase has exactly one input'') (\<lambda>_.
    rbind (cursor_skip 36 c) (\<lambda>c.
    rbind (cursor_count c) (\<lambda>(len, c).
    rbind (cursor_take len c) (\<lambda>(script, _). Inr script)))))))"

definition ends_with :: "bytes \<Rightarrow> bytes \<Rightarrow> bool" where
  "ends_with bs sfx \<longleftrightarrow> length sfx \<le> length bs \<and> drop (length bs - length sfx) bs = sfx"

definition split_coinbase_extranonce :: "bytes \<Rightarrow> bytes \<Rightarrow> codec_error + bytes \<times> bytes" where
  "split_coinbase_extranonce tx placeholder =
    rbind (ensure (10 \<le> length tx \<and> placeholder \<noteq> []) ''invalid coinbase or extranonce placeholder'') (\<lambda>_.
    let c = \<lparr>cu_bytes = tx, cu_offset = 4\<rparr> in
    rbind (if tx ! 4 = 0 \<and> tx ! 5 \<noteq> 0 then cursor_skip 2 c else Inr c) (\<lambda>c.
    rbind (cursor_count c) (\<lambda>(inputs, c).
    rbind (ensure (inputs = 1) ''coinbase must have exactly one input'') (\<lambda>_.
    rbind (cursor_take 36 c) (\<lambda>(prevout, c).
    rbind (ensure (take 32 prevout = replicate 32 0 \<and> drop 32 prevout = replicate 4 255)
      ''coinbase has non-null prevout'') (\<lambda>_.
    rbind (cursor_count c) (\<lambda>(n, c).
    rbind (cursor_take n c) (\<lambda>(script, c).
    rbind (ensure (ends_with script placeholder)
      ''coinbase scriptSig does not end with extranonce placeholder'') (\<lambda>_.
    let start = cu_offset c - length placeholder in
    Inr (take start tx, drop (cu_offset c) tx))))))))))"

end
