(* ===== verification/Work_Walk.thy ===== *)
theory Work_Walk
  imports Work_Codec
begin

text \<open>
  What the cursor reads.  A walker moves the cursor over one item of a set of byte strings;
  walkers compose and repeat, so the walk over a transaction accepts exactly the serialized
  transactions, wherever they stand in the input, and stops at their end.
\<close>

section \<open>Walkers\<close>

definition here :: "bytes \<Rightarrow> bytes \<Rightarrow> cursor" where
  "here pre r = \<lparr>cu_bytes = pre @ r, cu_offset = length pre\<rparr>"

definition fits :: "bytes \<Rightarrow> bytes \<Rightarrow> bool" where
  "fits pre r \<longleftrightarrow> length pre + length r < 2 ^ 64"

lemma fits_append [simp]: "fits (pre @ x) r \<longleftrightarrow> fits pre (x @ r)"
  by (simp add: fits_def add.assoc)

lemma here_offset [simp]: "cu_offset (here pre r) = length pre" "cu_bytes (here pre r) = pre @ r"
  by (simp_all add: here_def)

lemma take_here:
  assumes "fits pre r"
  shows "cursor_take n (here pre r) = Inr (x, c') \<longleftrightarrow>
    length x = n \<and> (\<exists>r'. r = x @ r' \<and> c' = here (pre @ x) r')"
proof (cases "n \<le> length r")
  case True
  then have "cursor_take n (here pre r) = Inr (take n r, here (pre @ take n r) (drop n r))"
    using assms by (simp add: cursor_take_def usize_add_def here_def fits_def)
  then show ?thesis using True by (auto intro: exI[of _ "drop n r"])
next
  case False
  then have "cursor_take n (here pre r) \<noteq> Inr (x, c')"
    by (auto simp: cursor_take_def usize_add_def here_def)
  then show ?thesis using False by auto
qed

locale walker =
  fixes walk :: "cursor \<Rightarrow> codec_error + cursor" and item :: "bytes \<Rightarrow> bool"
  assumes walk_iff: "fits pre r \<Longrightarrow> walk (here pre r) = Inr c' \<longleftrightarrow>
    (\<exists>x r'. item x \<and> r = x @ r' \<and> c' = here (pre @ x) r')"
begin

lemma times_iff: "fits pre r \<Longrightarrow> walk_times n walk (here pre r) = Inr c' \<longleftrightarrow>
  (\<exists>xs r'. length xs = n \<and> (\<forall>x\<in>set xs. item x) \<and> r = concat xs @ r' \<and> c' = here (pre @ concat xs) r')"
proof (induction n arbitrary: pre r)
  case (Suc n)
  show ?case
  proof
    assume "walk_times (Suc n) walk (here pre r) = Inr c'"
    then obtain x r1 where "item x" "r = x @ r1" "walk_times n walk (here (pre @ x) r1) = Inr c'"
      using walk_iff[OF Suc.prems] by auto
    moreover from this obtain xs r' where "length xs = n" "\<forall>x\<in>set xs. item x" "r1 = concat xs @ r'"
      "c' = here ((pre @ x) @ concat xs) r'" using Suc.IH[of "pre @ x" r1] Suc.prems by auto
    ultimately show "\<exists>xs r'. length xs = Suc n \<and> (\<forall>x\<in>set xs. item x) \<and> r = concat xs @ r' \<and>
        c' = here (pre @ concat xs) r'" by (intro exI[of _ "x # xs"] exI[of _ r']) simp
  next
    assume "\<exists>xs r'. length xs = Suc n \<and> (\<forall>x\<in>set xs. item x) \<and> r = concat xs @ r' \<and>
        c' = here (pre @ concat xs) r'"
    then obtain x xs r' where X: "length xs = n" "item x" "\<forall>x\<in>set xs. item x" "r = x @ concat xs @ r'"
      "c' = here (pre @ x @ concat xs) r'" by (auto simp: length_Suc_conv)
    then have "walk (here pre r) = Inr (here (pre @ x) (concat xs @ r'))"
      using walk_iff[OF Suc.prems] by blast
    moreover have "walk_times n walk (here (pre @ x) (concat xs @ r')) = Inr c'"
      using X Suc.prems Suc.IH[of "pre @ x" "concat xs @ r'"] by auto
    ultimately show "walk_times (Suc n) walk (here pre r) = Inr c'" by simp
  qed
qed auto

end

locale walker_seq = a: walker walk1 item1 + b: walker walk2 item2
  for walk1 :: "cursor \<Rightarrow> codec_error + cursor" and item1 and walk2 :: "cursor \<Rightarrow> codec_error + cursor" and item2

sublocale walker_seq \<subseteq> seq: walker "\<lambda>c. rbind (walk1 c) walk2" "\<lambda>x. \<exists>a b. x = a @ b \<and> item1 a \<and> item2 b"
proof
  fix pre r c' assume f: "fits pre r"
  show "rbind (walk1 (here pre r)) walk2 = Inr c' \<longleftrightarrow>
    (\<exists>x r'. (\<exists>a b. x = a @ b \<and> item1 a \<and> item2 b) \<and> r = x @ r' \<and> c' = here (pre @ x) r')"
  proof
    assume "rbind (walk1 (here pre r)) walk2 = Inr c'"
    then obtain c1 where c1: "walk1 (here pre r) = Inr c1" "walk2 c1 = Inr c'" by auto
    from c1(1)[unfolded a.walk_iff[OF f]] obtain a r1 where
      a: "item1 a" "r = a @ r1" and c1': "c1 = here (pre @ a) r1" by blast
    have "fits (pre @ a) r1" using f a by simp
    from c1(2)[unfolded c1' b.walk_iff[OF this]] obtain b r' where
      "item2 b" "r1 = b @ r'" "c' = here ((pre @ a) @ b) r'" by blast
    with a show "\<exists>x r'. (\<exists>a b. x = a @ b \<and> item1 a \<and> item2 b) \<and> r = x @ r' \<and> c' = here (pre @ x) r'"
      by (intro exI[of _ "a @ b"] exI[of _ r']) auto
  next
    assume "\<exists>x r'. (\<exists>a b. x = a @ b \<and> item1 a \<and> item2 b) \<and> r = x @ r' \<and> c' = here (pre @ x) r'"
    then obtain a b r' where X: "item1 a" "item2 b" "r = a @ b @ r'" "c' = here (pre @ a @ b) r'" by auto
    then have "walk1 (here pre r) = Inr (here (pre @ a) (b @ r'))" using a.walk_iff[OF f] by blast
    moreover have "fits (pre @ a) (b @ r')" using X f by simp
    then have "walk2 (here (pre @ a) (b @ r')) = Inr c'"
      using X(2,4) by (subst b.walk_iff) auto
    ultimately show "rbind (walk1 (here pre r)) walk2 = Inr c'" by simp
  qed
qed

lemma skip_here: "fits pre r \<Longrightarrow> cursor_skip n (here pre r) = Inr c' \<longleftrightarrow>
    (\<exists>x r'. length x = n \<and> r = x @ r' \<and> c' = here (pre @ x) r')"
  by (auto simp: cursor_skip_def take_here)

interpretation skip: walker "cursor_skip n" "\<lambda>x. length x = n" for n
  by unfold_locales (rule skip_here)

section \<open>Counts\<close>

lemma cursor_first: "fits pre (b # r) \<Longrightarrow> cursor_take (Suc 0) (here pre (b # r)) = Inr ([b], here (pre @ [b]) r)"
  by (simp add: take_here)

lemma first_byte:
  fixes b :: u8
  obtains "b \<noteq> 253" "b \<noteq> 254" "b \<noteq> 255" "b \<le> 0xfc" | "b = 253" | "b = 254" | "b = 255"
proof -
  have "uint b < 256" using uint_lt2p[of b] by simp
  then have "uint b \<le> 252 \<or> uint b = 253 \<or> uint b = 254 \<or> uint b = 255" by linarith
  then show thesis using that by (auto simp: word_le_def word_uint_eq_iff)
qed

lemma small_le_value: "length raw = n \<Longrightarrow> n \<le> 8 \<Longrightarrow> uint (word_of_int (le_value raw) :: u64) = le_value raw"
proof (rule uint_word_of_int_small)
  assume "length raw = n" "n \<le> 8"
  then have "(256 :: int) ^ length raw \<le> 256 ^ 8" by (intro power_increasing) simp_all
  then show "le_value raw < 2 ^ LENGTH(64)" using le_value_bounds[of raw] by simp
qed (use le_value_bounds in blast)

lemma count_reads:
  assumes f: "fits pre r" and c: "cursor_count (here pre r) = Inr (n, c')"
  shows "\<exists>v x r'. read_compact_size [] r = Inr (v, r') \<and> r = x @ r' \<and> n = unat v \<and>
    n \<le> length pre + length r \<and> c' = here (pre @ x) r'"
proof (cases r)
  case Nil
  then show ?thesis using c take_here[OF f, of "Suc 0"] by (auto simp: cursor_count_def)
next
  case (Cons b bs)
  note F = cursor_first[OF f[unfolded Cons]]
  have f': "fits (pre @ [b]) bs" using f by (simp add: Cons)
  have wide: "\<exists>v x r'. read_compact_size [] r = Inr (v, r') \<and> r = x @ r' \<and> n = unat v \<and>
      n \<le> length pre + length r \<and> c' = here (pre @ x) r'"
    if raw: "cursor_take k (here (pre @ [b]) bs) = Inr (raw, c1)" and v: "v = (word_of_int (le_value raw) :: u64)"
      and n: "n = unat v" "n \<le> length (cu_bytes c1)" "c' = c1"
      and same: "\<And>r1. bs = raw @ r1 \<Longrightarrow> read_compact_size [] (b # bs) = Inr (v, r1)" for k raw c1 v
  proof -
    from raw obtain r1 where r1: "bs = raw @ r1" "c1 = here ((pre @ [b]) @ raw) r1"
      using take_here[OF f'] by auto
    then show ?thesis using n v same[OF r1(1)] by (intro exI[of _ v] exI[of _ "b # raw"] exI[of _ r1]) (simp add: Cons)
  qed
  show ?thesis
  proof (cases b rule: first_byte)
    case 1
    then have "n = unat (ucast b :: u64)" "n \<le> length pre + length r" "c' = here (pre @ [b]) bs"
      using c by (auto simp: cursor_count_def Cons F ensure_def Let_def)
    moreover have "read_compact_size [] r = Inr (ucast b, bs)" using 1(4) by (simp add: Cons read_compact_size_def)
    ultimately show ?thesis by (intro exI[of _ "ucast b"] exI[of _ "[b]"] exI[of _ bs]) (simp add: Cons)
  next
    case 2
    obtain raw c1 where raw: "cursor_take 2 (here (pre @ [b]) bs) = Inr (raw, c1)"
      and n: "n = unat (word_of_int (le_value raw) :: u64)" "n \<le> length (cu_bytes c1)" "c' = c1"
      and ge: "253 \<le> (word_of_int (le_value raw) :: u64)"
      using c by (auto simp: cursor_count_def Cons 2 F[unfolded 2] ensure_def Let_def split: if_splits)
    have len: "length raw = 2" using raw take_here[OF f'] by blast
    show ?thesis
    proof (rule wide[OF raw refl n])
      fix r1 assume "bs = raw @ r1"
      then show "read_compact_size [] (b # bs) = Inr (word_of_int (le_value raw), r1)"
        using 2 len ge by (simp add: read_compact_size_def read_bytes_def Let_def word_le_def small_le_value)
    qed
  next
    case 3
    obtain raw c1 where raw: "cursor_take 4 (here (pre @ [b]) bs) = Inr (raw, c1)"
      and n: "n = unat (word_of_int (le_value raw) :: u64)" "n \<le> length (cu_bytes c1)" "c' = c1"
      and ge: "0xffff < (word_of_int (le_value raw) :: u64)"
      using c by (auto simp: cursor_count_def Cons 3 F[unfolded 3] ensure_def Let_def split: if_splits)
    have len: "length raw = 4" using raw take_here[OF f'] by blast
    show ?thesis
    proof (rule wide[OF raw refl n])
      fix r1 assume "bs = raw @ r1"
      then show "read_compact_size [] (b # bs) = Inr (word_of_int (le_value raw), r1)"
        using 3 len ge by (simp add: read_compact_size_def read_bytes_def Let_def word_less_def small_le_value)
    qed
  next
    case 4
    obtain raw c1 where raw: "cursor_take 8 (here (pre @ [b]) bs) = Inr (raw, c1)"
      and n: "n = unat (word_of_int (le_value raw) :: u64)" "n \<le> length (cu_bytes c1)" "c' = c1"
      and ge: "0xffffffff < (word_of_int (le_value raw) :: u64)"
      using c by (auto simp: cursor_count_def Cons 4 F[unfolded 4] ensure_def Let_def split: if_splits)
    have len: "length raw = 8" using raw take_here[OF f'] by blast
    show ?thesis
    proof (rule wide[OF raw refl n])
      fix r1 assume "bs = raw @ r1"
      then show "read_compact_size [] (b # bs) = Inr (word_of_int (le_value raw), r1)"
        using 4 len ge by (simp add: read_compact_size_def read_bytes_def Let_def word_less_def small_le_value)
    qed
  qed
qed

lemma count_writes:
  assumes f: "fits pre (compact_size v @ r)" and n: "unat v \<le> length pre + length (compact_size v @ r)"
  shows "cursor_count (here pre (compact_size v @ r)) = Inr (unat v, here (pre @ compact_size v) r)"
proof -
  have wide: "cursor_take k (here (pre @ [b]) (le_bytes k (uint v) @ r)) =
      Inr (le_bytes k (uint v), here (pre @ b # le_bytes k (uint v)) r)"
    if "compact_size v = b # le_bytes k (uint v)" for b k
    using f that by (subst take_here) simp_all
  have first: "cursor_take (Suc 0) (here pre (b # rest @ r)) = Inr ([b], here (pre @ [b]) (rest @ r))"
    if "compact_size v = b # rest" for b rest
    using f that by (intro cursor_first) simp
  show ?thesis
  proof (cases v rule: compact_size_cases)
    case 1
    have u: "uint (ucast v :: u8) = uint v" by (rule uint_ucast_small) (use 1 in simp)
    then have "uint (ucast (ucast v :: u8) :: u64) = uint v" by (simp add: uint_up_ucast is_up)
    then have "ucast (ucast v :: u8) = v" by (simp only: word_uint_eq_iff)
    moreover have "(ucast v :: u8) \<noteq> 253" "(ucast v :: u8) \<noteq> 254" "(ucast v :: u8) \<noteq> 255"
      using u 1(1) by (auto simp: word_uint_eq_iff)
    ultimately show ?thesis using n first[OF 1(2)]
      by (simp add: cursor_count_def 1(2) ensure_def Let_def)
  next
    case 2
    then have "le_value (le_bytes 2 (uint v)) = uint v" by (simp add: le_value_le_bytes)
    then show ?thesis using n first[OF 2(3)] wide[OF 2(3)] 2(1)
      by (simp add: cursor_count_def 2(3) ensure_def Let_def word_le_def)
  next
    case 3
    then have "le_value (le_bytes 4 (uint v)) = uint v" by (simp add: le_value_le_bytes)
    then show ?thesis using n first[OF 3(3)] wide[OF 3(3)] 3(1)
      by (simp add: cursor_count_def 3(3) ensure_def Let_def word_less_def)
  next
    case 4
    have "le_value (le_bytes 8 (uint v)) = uint v"
      by (simp add: le_value_le_bytes mod_pos_pos_trivial u64_bound_num)
    then show ?thesis using n first[OF 4(2)] wide[OF 4(2)] 4(1)
      by (simp add: cursor_count_def 4(2) ensure_def Let_def word_less_def)
  qed
qed

lemma count_here:
  assumes f: "fits pre r"
  shows "cursor_count (here pre r) = Inr (n, c') \<longleftrightarrow> n < 2 ^ 64 \<and> n \<le> length pre + length r \<and>
    (\<exists>r'. r = write_size n @ r' \<and> c' = here (pre @ write_size n) r')"
proof
  assume "cursor_count (here pre r) = Inr (n, c')"
  from count_reads[OF f this] obtain v x r' where R: "read_compact_size [] r = Inr (v, r')" "r = x @ r'"
    "n = unat v" "n \<le> length pre + length r" "c' = here (pre @ x) r'" by blast
  have "r = compact_size v @ r'" by (rule read_compact_size_read[OF R(1)])
  moreover have "compact_size v = write_size n" by (simp add: write_size_def R(3))
  moreover have "n < 2 ^ 64" using unsigned_less[of v, where ?'a = nat] by (simp add: R(3))
  ultimately show "n < 2 ^ 64 \<and> n \<le> length pre + length r \<and>
    (\<exists>r'. r = write_size n @ r' \<and> c' = here (pre @ write_size n) r')" using R by auto
next
  assume "n < 2 ^ 64 \<and> n \<le> length pre + length r \<and>
    (\<exists>r'. r = write_size n @ r' \<and> c' = here (pre @ write_size n) r')"
  then obtain r' where R: "n < 2 ^ 64" "n \<le> length pre + length r" "r = write_size n @ r'"
    "c' = here (pre @ write_size n) r'" by blast
  then show "cursor_count (here pre r) = Inr (n, c')"
    using f count_writes[of pre "word_of_nat n" r'] by (simp add: write_size_def unat_word_of_nat_u64)
qed

section \<open>The items of a transaction\<close>

lemma var_bytes_walk: "fits pre r \<Longrightarrow> walk_var_bytes (here pre r) = Inr c' \<longleftrightarrow>
    (\<exists>x r'. (\<exists>b. length b < 2 ^ 64 \<and> x = var_bytes b) \<and> r = x @ r' \<and> c' = here (pre @ x) r')"
proof
  assume f: "fits pre r" and "walk_var_bytes (here pre r) = Inr c'"
  then obtain n c1 where c: "cursor_count (here pre r) = Inr (n, c1)" "cursor_skip n c1 = Inr c'"
    by (auto simp: walk_var_bytes_def)
  from c(1)[unfolded count_here[OF f]] obtain r1 where
    n: "n < 2 ^ 64" and r: "r = write_size n @ r1" and c1: "c1 = here (pre @ write_size n) r1" by blast
  have "fits (pre @ write_size n) r1" using f r by simp
  from c(2)[unfolded c1 skip_here[OF this]] obtain b r' where
    "length b = n" "r1 = b @ r'" "c' = here ((pre @ write_size n) @ b) r'" by blast
  then show "\<exists>x r'. (\<exists>b. length b < 2 ^ 64 \<and> x = var_bytes b) \<and> r = x @ r' \<and> c' = here (pre @ x) r'"
    using n r by (intro exI[of _ "var_bytes b"] exI[of _ r']) (auto simp: var_bytes_def write_size_def)
next
  assume f: "fits pre r" and
    "\<exists>x r'. (\<exists>b. length b < 2 ^ 64 \<and> x = var_bytes b) \<and> r = x @ r' \<and> c' = here (pre @ x) r'"
  then obtain b r' where b: "length b < 2 ^ 64" "r = write_size (length b) @ b @ r'"
    "c' = here ((pre @ write_size (length b)) @ b) r'" by (auto simp: var_bytes_def write_size_def)
  then have "cursor_count (here pre r) = Inr (length b, here (pre @ write_size (length b)) (b @ r'))"
    unfolding count_here[OF f] by auto
  moreover have "fits (pre @ write_size (length b)) (b @ r')" using f b(2) by simp
  then have "cursor_skip (length b) (here (pre @ write_size (length b)) (b @ r')) = Inr c'"
    unfolding skip_here[OF \<open>fits (pre @ write_size (length b)) (b @ r')\<close>] using b(3) by blast
  ultimately show "walk_var_bytes (here pre r) = Inr c'" by (simp add: walk_var_bytes_def)
qed

interpretation var_walk: walker walk_var_bytes "\<lambda>x. \<exists>b. length b < 2 ^ 64 \<and> x = var_bytes b"
  by unfold_locales (rule var_bytes_walk)

interpretation script_then: walker_seq walk_var_bytes "\<lambda>x. \<exists>b. length b < 2 ^ 64 \<and> x = var_bytes b"
  "cursor_skip 4" "\<lambda>x. length x = 4"
  by unfold_locales

interpretation input_seq: walker_seq "cursor_skip 36" "\<lambda>x. length x = 36"
  "\<lambda>c. rbind (walk_var_bytes c) (cursor_skip 4)"
  "\<lambda>x. \<exists>a b. x = a @ b \<and> (\<exists>b. length b < 2 ^ 64 \<and> a = var_bytes b) \<and> length b = 4"
  by unfold_locales

interpretation output_seq: walker_seq "cursor_skip 8" "\<lambda>x. length x = 8"
  walk_var_bytes "\<lambda>x. \<exists>b. length b < 2 ^ 64 \<and> x = var_bytes b"
  by unfold_locales

lemma four_bytes: "length b = 4 \<longleftrightarrow> (\<exists>w :: u32. b = le_bytes 4 (uint w))"
proof
  assume "length b = 4"
  then have "b = le_bytes 4 (uint (word_of_int (le_value b) :: u32))" by (simp add: le_bytes_uint_word)
  then show "\<exists>w :: u32. b = le_bytes 4 (uint w)" by blast
qed auto

lemma eight_bytes: "length b = 8 \<longleftrightarrow> (\<exists>w :: u64. b = le_bytes 8 (uint w))"
proof
  assume "length b = 8"
  then have "b = le_bytes 8 (uint (word_of_int (le_value b) :: u64))" by (simp add: le_bytes_uint_word)
  then show "\<exists>w :: u64. b = le_bytes 8 (uint w)" by blast
qed auto

lemma input_item: "(\<exists>a b. x = a @ b \<and> length a = 36 \<and>
    (\<exists>c d. b = c @ d \<and> (\<exists>s. length s < 2 ^ 64 \<and> c = var_bytes s) \<and> length d = 4)) \<longleftrightarrow>
  (\<exists>p. raw_in_valid p \<and> x = raw_in_bytes p)"
proof
  assume "\<exists>a b. x = a @ b \<and> length a = 36 \<and>
    (\<exists>c d. b = c @ d \<and> (\<exists>s. length s < 2 ^ 64 \<and> c = var_bytes s) \<and> length d = 4)"
  then obtain a s d where X: "x = a @ var_bytes s @ d" "length a = 36" "length s < 2 ^ 64" "length d = 4" by auto
  then have "length (drop 32 a) = 4" by simp
  then obtain vout seq :: u32 where "drop 32 a = le_bytes 4 (uint vout)" "d = le_bytes 4 (uint seq)"
    using X(4) unfolding four_bytes by blast
  moreover have "a = take 32 a @ drop 32 a" by simp
  ultimately have "x = raw_in_bytes (take 32 a, vout, s, seq)"
    using X(1) by (metis append.assoc fst_conv raw_in_bytes_def snd_conv)
  moreover have "raw_in_valid (take 32 a, vout, s, seq)" using X by (simp add: raw_in_valid_def)
  ultimately show "\<exists>p. raw_in_valid p \<and> x = raw_in_bytes p" by blast
next
  assume "\<exists>p. raw_in_valid p \<and> x = raw_in_bytes p"
  then obtain p where p: "raw_in_valid p" "x = raw_in_bytes p" by blast
  let ?a = "fst p @ le_bytes 4 (uint (fst (snd p)))" and ?c = "var_bytes (fst (snd (snd p)))"
    and ?d = "le_bytes 4 (uint (snd (snd (snd p))))"
  have "x = ?a @ ?c @ ?d" "length ?a = 36" "length (fst (snd (snd p))) < 2 ^ 64" "length ?d = 4"
    using p by (simp_all add: raw_in_valid_def raw_in_bytes_def)
  then show "\<exists>a b. x = a @ b \<and> length a = 36 \<and>
    (\<exists>c d. b = c @ d \<and> (\<exists>s. length s < 2 ^ 64 \<and> c = var_bytes s) \<and> length d = 4)" by blast
qed

definition output_ok :: "parsed_tx_out \<Rightarrow> bool" where
  "output_ok out \<longleftrightarrow> length (to_script_pubkey out) < 2 ^ 64"

lemma output_item: "(\<exists>a b. x = a @ b \<and> length a = 8 \<and> (\<exists>s. length s < 2 ^ 64 \<and> b = var_bytes s)) \<longleftrightarrow>
  (\<exists>out. output_ok out \<and> x = tx_out_bytes out)"
proof
  assume "\<exists>a b. x = a @ b \<and> length a = 8 \<and> (\<exists>s. length s < 2 ^ 64 \<and> b = var_bytes s)"
  then obtain v :: u64 and s where "x = le_bytes 8 (uint v) @ var_bytes s" "length s < 2 ^ 64"
    unfolding eight_bytes by blast
  then show "\<exists>out. output_ok out \<and> x = tx_out_bytes out"
    by (intro exI[of _ "\<lparr>to_amount_sats = v, to_script_pubkey = s\<rparr>"]) (simp add: output_ok_def tx_out_bytes_def)
next
  assume "\<exists>out. output_ok out \<and> x = tx_out_bytes out"
  then obtain out :: parsed_tx_out where "length (to_script_pubkey out) < 2 ^ 64"
    "x = le_bytes 8 (uint (to_amount_sats out)) @ var_bytes (to_script_pubkey out)"
    unfolding output_ok_def tx_out_bytes_def by blast
  moreover have "length (le_bytes 8 (uint (to_amount_sats out))) = 8" by simp
  ultimately show "\<exists>a b. x = a @ b \<and> length a = 8 \<and> (\<exists>s. length s < 2 ^ 64 \<and> b = var_bytes s)" by blast
qed

interpretation input_walk: walker walk_input "\<lambda>x. \<exists>p. raw_in_valid p \<and> x = raw_in_bytes p"
  using input_seq.seq.walker_axioms unfolding input_item walk_input_def[abs_def] .

interpretation output_walk: walker walk_output "\<lambda>x. \<exists>out. output_ok out \<and> x = tx_out_bytes out"
  using output_seq.seq.walker_axioms unfolding output_item walk_output_def[abs_def] .

section \<open>Counted items\<close>

locale walker_counted = walker walk item for walk and item +
  assumes item_ne: "item x \<Longrightarrow> x \<noteq> []"
begin

lemma length_items: "\<forall>x\<in>set xs. item x \<Longrightarrow> length xs \<le> length (concat xs)"
proof (induction xs)
  case (Cons x xs)
  then have "x \<noteq> []" using item_ne by simp
  then have "1 \<le> length x" by (cases x) auto
  with Cons show ?case by simp
qed simp

lemma counted_iff:
  assumes f: "fits pre r"
  shows "(cursor_count (here pre r) = Inr (n, c1) \<and> walk_times n walk c1 = Inr c') \<longleftrightarrow>
    (\<exists>xs r'. n = length xs \<and> n < 2 ^ 64 \<and> (\<forall>x\<in>set xs. item x) \<and> r = write_size n @ concat xs @ r' \<and>
      c1 = here (pre @ write_size n) (concat xs @ r') \<and> c' = here (pre @ write_size n @ concat xs) r')"
    (is "?walk \<longleftrightarrow> ?items")
proof
  assume w: ?walk
  from w[unfolded count_here[OF f]] obtain r1 where
    n: "n < 2 ^ 64" and r: "r = write_size n @ r1" and c1: "c1 = here (pre @ write_size n) r1" by blast
  have f1: "fits (pre @ write_size n) r1" using f r by simp
  have "walk_times n walk (here (pre @ write_size n) r1) = Inr c'" using w c1 by simp
  from this[unfolded times_iff[OF f1]] obtain xs r' where
    X: "length xs = n" "\<forall>x\<in>set xs. item x" "r1 = concat xs @ r'" "c' = here ((pre @ write_size n) @ concat xs) r'"
    by blast
  show ?items
    by (rule exI[of _ xs], rule exI[of _ r'])
      (use n r c1 X in \<open>simp add: append_assoc\<close>)
next
  assume ?items
  then obtain xs r' where X: "n = length xs" "n < 2 ^ 64" "\<forall>x\<in>set xs. item x" "r = write_size n @ concat xs @ r'"
    "c1 = here (pre @ write_size n) (concat xs @ r')" "c' = here ((pre @ write_size n) @ concat xs) r'" by auto
  have "n \<le> length pre + length r" using length_items[OF X(3)] by (simp add: X(1,4))
  then have "cursor_count (here pre r) = Inr (n, c1)" unfolding count_here[OF f] using X by blast
  moreover have f1: "fits (pre @ write_size n) (concat xs @ r')" using f X(4) by simp
  have "walk_times n walk c1 = Inr c'" unfolding X(5) times_iff[OF f1] using X by blast
  ultimately show ?walk by blast
qed

end

sublocale walker_counted \<subseteq> counted: walker "\<lambda>c. rbind (cursor_count c) (\<lambda>(n, c). walk_times n walk c)"
  "\<lambda>x. \<exists>xs. length xs < 2 ^ 64 \<and> (\<forall>x\<in>set xs. item x) \<and> x = write_size (length xs) @ concat xs"
proof
  fix pre r c' assume f: "fits pre r"
  have "rbind (cursor_count (here pre r)) (\<lambda>(n, c). walk_times n walk c) = Inr c' \<longleftrightarrow>
      (\<exists>n c1. cursor_count (here pre r) = Inr (n, c1) \<and> walk_times n walk c1 = Inr c')" by auto
  then show "rbind (cursor_count (here pre r)) (\<lambda>(n, c). walk_times n walk c) = Inr c' \<longleftrightarrow>
      (\<exists>x r'. (\<exists>xs. length xs < 2 ^ 64 \<and> (\<forall>x\<in>set xs. item x) \<and> x = write_size (length xs) @ concat xs) \<and>
        r = x @ r' \<and> c' = here (pre @ x) r')"
    unfolding counted_iff[OF f] by (metis append_assoc)
qed

interpretation input_items: walker_counted walk_input "\<lambda>x. \<exists>p. raw_in_valid p \<and> x = raw_in_bytes p"
  by unfold_locales (auto simp: raw_in_bytes_ne)

interpretation output_items: walker_counted walk_output "\<lambda>x. \<exists>out. output_ok out \<and> x = tx_out_bytes out"
  by unfold_locales (auto simp: tx_out_bytes_ne)

interpretation witness_items: walker_counted walk_var_bytes "\<lambda>x. \<exists>b. length b < 2 ^ 64 \<and> x = var_bytes b"
  by unfold_locales (auto simp: var_bytes_ne)

lemma ex_items: "(\<forall>x\<in>set xs. \<exists>a. P a \<and> x = f a) \<longleftrightarrow> (\<exists>as. xs = map f as \<and> (\<forall>a\<in>set as. P a))"
proof
  assume "\<forall>x\<in>set xs. \<exists>a. P a \<and> x = f a"
  then show "\<exists>as. xs = map f as \<and> (\<forall>a\<in>set as. P a)"
  proof (induction xs)
    case (Cons x xs)
    then obtain a as where "P a" "x = f a" "xs = map f as" "\<forall>a\<in>set as. P a" by auto
    then show ?case by (intro exI[of _ "a # as"]) simp
  qed simp
next
  assume "\<exists>as. xs = map f as \<and> (\<forall>a\<in>set as. P a)"
  then obtain as where "xs = map f as" "\<forall>a\<in>set as. P a" by blast
  then show "\<forall>x\<in>set xs. \<exists>a. P a \<and> x = f a" by auto
qed

lemma witness_item: "(\<exists>xs. length xs < 2 ^ 64 \<and> (\<forall>x\<in>set xs. \<exists>b. length b < 2 ^ 64 \<and> x = var_bytes b) \<and>
    x = write_size (length xs) @ concat xs) \<longleftrightarrow> (\<exists>st. stack_valid st \<and> x = stack_bytes st)"
proof
  assume "\<exists>xs. length xs < 2 ^ 64 \<and> (\<forall>x\<in>set xs. \<exists>b. length b < 2 ^ 64 \<and> x = var_bytes b) \<and>
    x = write_size (length xs) @ concat xs"
  then obtain as where "length as < 2 ^ 64" "\<forall>b\<in>set as. length b < 2 ^ 64"
    "x = write_size (length as) @ concat (map var_bytes as)" unfolding ex_items by auto
  then show "\<exists>st. stack_valid st \<and> x = stack_bytes st"
    by (intro exI[of _ as]) (simp add: stack_valid_def stack_bytes_def)
next
  assume "\<exists>st. stack_valid st \<and> x = stack_bytes st"
  then obtain st where "stack_valid st" "x = stack_bytes st" by blast
  then show "\<exists>xs. length xs < 2 ^ 64 \<and> (\<forall>x\<in>set xs. \<exists>b. length b < 2 ^ 64 \<and> x = var_bytes b) \<and>
    x = write_size (length xs) @ concat xs"
    by (intro exI[of _ "map var_bytes st"]) (auto simp: stack_valid_def stack_bytes_def)
qed

interpretation witness_walk: walker walk_witness "\<lambda>x. \<exists>st. stack_valid st \<and> x = stack_bytes st"
  using witness_items.counted.walker_axioms unfolding witness_item walk_witness_def[abs_def] .

section \<open>Transactions\<close>

definition walk_ok :: "bool \<Rightarrow> raw_in list \<Rightarrow> parsed_tx_out list \<Rightarrow> bytes list list \<Rightarrow> bool" where
  "walk_ok w ps outs sts \<longleftrightarrow> ps \<noteq> [] \<and> length ps < 2 ^ 64 \<and> (\<forall>p\<in>set ps. raw_in_valid p) \<and>
    length outs < 2 ^ 64 \<and> (\<forall>x\<in>set outs. output_ok x) \<and> stacks_ok w ps sts"

text \<open>The body a txid keeps, and where the parts of a serialized transaction stand.\<close>

definition tx_core :: "raw_in list \<Rightarrow> parsed_tx_out list \<Rightarrow> bytes" where
  "tx_core ps outs = write_size (length ps) @ concat (map raw_in_bytes ps) @
    write_size (length outs) @ concat (map tx_out_bytes outs)"

definition tx_layout :: "bool \<Rightarrow> raw_in list \<Rightarrow> parsed_tx_out list \<Rightarrow> bytes list list \<Rightarrow> transaction_layout" where
  "tx_layout w ps outs sts = (let start = if w then 6 else 4;
      finish = start + length (tx_core ps outs); lock = finish + length (concat (map stack_bytes sts)) in
    \<lparr>tl_body = (start, finish), tl_locktime = (lock, lock + 4), tl_len = lock + 4\<rparr>)"

lemma tx_bytes_core: "tx_bytes flag v w ps outs sts l =
    le_bytes 4 (uint v) @ (if w then [0, flag] else []) @ tx_core ps outs @ concat (map stack_bytes sts) @
    le_bytes 4 (uint l)"
  by (simp add: tx_bytes_def body_bytes_def tx_core_def)

lemma stripped_core: "stripped_bytes v ps outs l = le_bytes 4 (uint v) @ tx_core ps outs @ le_bytes 4 (uint l)"
  by (simp add: stripped_bytes_def tx_core_def)

lemma length_tx_bytes: "length (tx_bytes flag v w ps outs sts l) = tl_len (tx_layout w ps outs sts)"
  by (simp add: tx_bytes_core tx_layout_def Let_def)

lemma raw_in_length: "raw_in_valid p \<Longrightarrow> 41 \<le> length (raw_in_bytes p)"
  using write_size_ne[of "length (fst (snd (snd p)))"]
  by (cases "write_size (length (fst (snd (snd p))))") (auto simp: raw_in_valid_def raw_in_bytes_def var_bytes_def write_size_def)

text \<open>After the marker: the body, the witness and the lock time.\<close>

definition walk_rest :: "bool \<Rightarrow> cursor \<Rightarrow> codec_error + (usize \<times> usize) \<times> (usize \<times> usize) \<times> cursor" where
  "walk_rest w c = (let body_start = cu_offset c in
    rbind (cursor_count c) (\<lambda>(inputs, c).
    rbind (ensure (0 < inputs) ''transaction has no inputs'') (\<lambda>_.
    rbind (walk_times inputs walk_input c) (\<lambda>c.
    rbind (cursor_count c) (\<lambda>(outputs, c).
    rbind (walk_times outputs walk_output c) (\<lambda>c.
    let body_end = cu_offset c in
    rbind (if w then walk_times inputs walk_witness c else Inr c) (\<lambda>c.
    let locktime_start = cu_offset c in
    rbind (cursor_skip 4 c) (\<lambda>c.
    Inr ((body_start, body_end), (locktime_start, cu_offset c), c)))))))))"

lemma walk_stacks_iff:
  assumes "fits pre r"
  shows "(if w then walk_times (length ps) walk_witness (here pre r) else Inr (here pre r)) = Inr c' \<longleftrightarrow>
    (\<exists>sts r'. stacks_ok w ps sts \<and> r = concat (map stack_bytes sts) @ r' \<and>
      c' = here (pre @ concat (map stack_bytes sts)) r')"
proof (cases w)
  case True
  show ?thesis
  proof
    assume "(if w then walk_times (length ps) walk_witness (here pre r) else Inr (here pre r)) = Inr c'"
    then obtain xs r' where X: "length xs = length ps" "\<forall>x\<in>set xs. \<exists>st. stack_valid st \<and> x = stack_bytes st"
      "r = concat xs @ r'" "c' = here (pre @ concat xs) r'"
      using True witness_walk.times_iff[OF assms] by auto
    from X(2)[unfolded ex_items] obtain sts where "xs = map stack_bytes sts" "\<forall>st\<in>set sts. stack_valid st" by blast
    with X True show "\<exists>sts r'. stacks_ok w ps sts \<and> r = concat (map stack_bytes sts) @ r' \<and>
      c' = here (pre @ concat (map stack_bytes sts)) r'"
      by (intro exI[of _ sts] exI[of _ r']) (simp add: stacks_ok_def)
  next
    assume "\<exists>sts r'. stacks_ok w ps sts \<and> r = concat (map stack_bytes sts) @ r' \<and>
      c' = here (pre @ concat (map stack_bytes sts)) r'"
    then obtain sts r' where "stacks_ok w ps sts" "r = concat (map stack_bytes sts) @ r'"
      "c' = here (pre @ concat (map stack_bytes sts)) r'" by blast
    then have "\<exists>xs r'. length xs = length ps \<and> (\<forall>x\<in>set xs. \<exists>st. stack_valid st \<and> x = stack_bytes st) \<and>
      r = concat xs @ r' \<and> c' = here (pre @ concat xs) r'"
      using True by (intro exI[of _ "map stack_bytes sts"] exI[of _ r']) (auto simp: stacks_ok_def)
    then show "(if w then walk_times (length ps) walk_witness (here pre r) else Inr (here pre r)) = Inr c'"
      using True witness_walk.times_iff[OF assms] by simp
  qed
qed (auto simp: stacks_ok_def)

definition rest_layout :: "nat \<Rightarrow> raw_in list \<Rightarrow> parsed_tx_out list \<Rightarrow> bytes list list \<Rightarrow>
    (usize \<times> usize) \<times> (usize \<times> usize)" where
  "rest_layout start ps outs sts = (let finish = start + length (tx_core ps outs);
      lock = finish + length (concat (map stack_bytes sts)) in ((start, finish), (lock, lock + 4)))"

lemma walk_rest_sound:
  assumes f: "fits pre r" and w: "walk_rest w (here pre r) = Inr (b, k, c')"
  shows "\<exists>ps outs sts l r'. walk_ok w ps outs sts \<and>
    r = tx_core ps outs @ concat (map stack_bytes sts) @ le_bytes 4 (uint (l :: u32)) @ r' \<and>
    (b, k) = rest_layout (length pre) ps outs sts \<and> cu_offset c' = snd k"
proof -
  from w obtain n c1 c2 m c3 c4 c5 c6 where
    n: "cursor_count (here pre r) = Inr (n, c1)" and n0: "0 < n" and ins: "walk_times n walk_input c1 = Inr c2" and
    m: "cursor_count c2 = Inr (m, c3)" and outs: "walk_times m walk_output c3 = Inr c4" and
    sts: "(if w then walk_times n walk_witness c4 else Inr c4) = Inr c5" and
    lock: "cursor_skip 4 c5 = Inr c6" and
    res: "b = (length pre, cu_offset c4)" "k = (cu_offset c5, cu_offset c6)" "c' = c6"
    by (auto simp: walk_rest_def Let_def ensure_def)
  have "cursor_count (here pre r) = Inr (n, c1) \<and> walk_times n walk_input c1 = Inr c2" using n ins by blast
  from this[unfolded input_items.counted_iff[OF f]] obtain xs r2 where
    X: "n = length xs" "n < 2 ^ 64" "\<forall>x\<in>set xs. \<exists>p. raw_in_valid p \<and> x = raw_in_bytes p"
    "r = write_size n @ concat xs @ r2" and c2: "c2 = here (pre @ write_size n @ concat xs) r2" by blast
  from X(3)[unfolded ex_items] obtain ps where ps: "xs = map raw_in_bytes ps" "\<forall>p\<in>set ps. raw_in_valid p" by blast
  let ?pre2 = "pre @ write_size n @ concat xs"
  have f2: "fits ?pre2 r2" using f X(4) by simp
  have "cursor_count (here ?pre2 r2) = Inr (m, c3) \<and> walk_times m walk_output c3 = Inr c4" using m outs c2 by blast
  from this[unfolded output_items.counted_iff[OF f2]] obtain ys r4 where
    Y: "m = length ys" "m < 2 ^ 64" "\<forall>x\<in>set ys. \<exists>out. output_ok out \<and> x = tx_out_bytes out"
    "r2 = write_size m @ concat ys @ r4" and c4: "c4 = here (?pre2 @ write_size m @ concat ys) r4" by blast
  from Y(3)[unfolded ex_items] obtain os where os: "ys = map tx_out_bytes os" "\<forall>x\<in>set os. output_ok x" by blast
  let ?pre4 = "?pre2 @ write_size m @ concat ys"
  have f4: "fits ?pre4 r4" using f X(4) Y(4) by simp
  have np: "n = length ps" by (simp add: X(1) ps(1))
  have "(if w then walk_times (length ps) walk_witness (here ?pre4 r4) else Inr (here ?pre4 r4)) = Inr c5"
    by (simp only: np[symmetric] c4[symmetric] sts)
  from this[unfolded walk_stacks_iff[OF f4]] obtain st r5 where
    S: "stacks_ok w ps st" "r4 = concat (map stack_bytes st) @ r5" and
    c5: "c5 = here (?pre4 @ concat (map stack_bytes st)) r5" by blast
  let ?pre5 = "?pre4 @ concat (map stack_bytes st)"
  have f5: "fits ?pre5 r5" using f X(4) Y(4) S(2) by simp
  from lock[unfolded c5 skip_here[OF f5]] obtain lb r' where
    L: "length lb = 4" "r5 = lb @ r'" and c6: "c6 = here (?pre5 @ lb) r'" by blast
  from L(1)[unfolded four_bytes] obtain l :: u32 where l: "lb = le_bytes 4 (uint l)" by blast
  have core: "tx_core ps os = write_size n @ concat xs @ write_size m @ concat ys"
    by (simp add: tx_core_def np[symmetric] ps(1)[symmetric] os(1) Y(1))
  have "walk_ok w ps os st" using X Y ps os S(1) n0 np by (auto simp: walk_ok_def)
  moreover have "r = tx_core ps os @ concat (map stack_bytes st) @ le_bytes 4 (uint l) @ r'"
    by (simp add: core X(4) Y(4) S(2) L(2) l)
  moreover have "(b, k) = rest_layout (length pre) ps os st" "cu_offset c' = snd k"
    using L(1) by (simp_all add: res rest_layout_def Let_def core c4 c5 c6)
  ultimately show ?thesis by blast
qed

lemma walk_rest_complete:
  assumes f: "fits pre r" and ok: "walk_ok w ps outs sts"
    and r: "r = tx_core ps outs @ concat (map stack_bytes sts) @ le_bytes 4 (uint (l :: u32)) @ r'"
  shows "\<exists>b k c'. walk_rest w (here pre r) = Inr (b, k, c') \<and> (b, k) = rest_layout (length pre) ps outs sts \<and>
    cu_offset c' = snd k"
proof -
  let ?xs = "map raw_in_bytes ps" and ?ys = "map tx_out_bytes outs"
  let ?n = "length ps" and ?m = "length outs"
  let ?r4 = "concat (map stack_bytes sts) @ le_bytes 4 (uint l) @ r'"
  let ?r2 = "write_size ?m @ concat ?ys @ ?r4"
  let ?pre2 = "pre @ write_size ?n @ concat ?xs"
  let ?pre4 = "?pre2 @ write_size ?m @ concat ?ys"
  let ?pre5 = "?pre4 @ concat (map stack_bytes sts)"
  have V: "0 < ?n" "?n < 2 ^ 64" "\<forall>p\<in>set ps. raw_in_valid p" "?m < 2 ^ 64" "\<forall>x\<in>set outs. output_ok x"
    "stacks_ok w ps sts" using ok by (auto simp: walk_ok_def)
  have fs: "fits ?pre2 ?r2" "fits ?pre4 ?r4" "fits ?pre5 (le_bytes 4 (uint l) @ r')"
    using f by (simp_all add: r tx_core_def)
  have items: "\<forall>x\<in>set ?xs. \<exists>p. raw_in_valid p \<and> x = raw_in_bytes p"
    "\<forall>x\<in>set ?ys. \<exists>out. output_ok out \<and> x = tx_out_bytes out" unfolding ex_items using V by blast+
  have "\<exists>xs r''. ?n = length xs \<and> ?n < 2 ^ 64 \<and> (\<forall>x\<in>set xs. \<exists>p. raw_in_valid p \<and> x = raw_in_bytes p) \<and>
      r = write_size ?n @ concat xs @ r'' \<and> here (pre @ write_size ?n) (concat ?xs @ ?r2) =
      here (pre @ write_size ?n) (concat xs @ r'') \<and> here ?pre2 ?r2 = here (pre @ write_size ?n @ concat xs) r''"
    using V(2) items(1) by (intro exI[of _ ?xs] exI[of _ ?r2]) (simp only: length_map r tx_core_def append_assoc simp_thms)
  from this[folded input_items.counted_iff[OF f]] obtain c1 where
    n: "cursor_count (here pre r) = Inr (?n, c1)" "walk_times ?n walk_input c1 = Inr (here ?pre2 ?r2)" by blast
  have "\<exists>xs r''. ?m = length xs \<and> ?m < 2 ^ 64 \<and> (\<forall>x\<in>set xs. \<exists>out. output_ok out \<and> x = tx_out_bytes out) \<and>
      ?r2 = write_size ?m @ concat xs @ r'' \<and> here (?pre2 @ write_size ?m) (concat ?ys @ ?r4) =
      here (?pre2 @ write_size ?m) (concat xs @ r'') \<and> here ?pre4 ?r4 = here (?pre2 @ write_size ?m @ concat xs) r''"
    using V(4) items(2) by (intro exI[of _ ?ys] exI[of _ ?r4]) (simp only: length_map append_assoc simp_thms)
  from this[folded output_items.counted_iff[OF fs(1)]] obtain c3 where
    m: "cursor_count (here ?pre2 ?r2) = Inr (?m, c3)" "walk_times ?m walk_output c3 = Inr (here ?pre4 ?r4)" by blast
  have s: "(if w then walk_times ?n walk_witness (here ?pre4 ?r4) else Inr (here ?pre4 ?r4)) =
      Inr (here ?pre5 (le_bytes 4 (uint l) @ r'))" unfolding walk_stacks_iff[OF fs(2)] using V(6) by blast
  have k: "cursor_skip 4 (here ?pre5 (le_bytes 4 (uint l) @ r')) = Inr (here (?pre5 @ le_bytes 4 (uint l)) r')"
    unfolding skip_here[OF fs(3)] by force
  have "walk_rest w (here pre r) = Inr ((length pre, length ?pre4), (length ?pre5, length (?pre5 @ le_bytes 4 (uint l))),
      here (?pre5 @ le_bytes 4 (uint l)) r')"
    using V(1) by (simp only: walk_rest_def Let_def n m s k rbind.simps prod.case ensure_def if_True here_offset)
  then show ?thesis by (simp add: rest_layout_def Let_def tx_core_def)
qed

lemma walk_transaction_rest:
  "walk_transaction bs = rbind (ensure (10 \<le> length bs) ''transaction is too short'') (\<lambda>_.
    let c = \<lparr>cu_bytes = bs, cu_offset = 4\<rparr>; w = (bs ! 4 = 0 \<and> bs ! 5 \<noteq> 0) in
    rbind (if w then rbind (ensure (bs ! 5 = 1) ''unsupported witness transaction flags'') (\<lambda>_. cursor_skip 2 c)
      else Inr c) (\<lambda>c.
    rbind (walk_rest w c) (\<lambda>(b, k, c). Inr \<lparr>tl_body = b, tl_locktime = k, tl_len = cu_offset c\<rparr>)))"
  by (simp only: walk_transaction_def walk_rest_def Let_def rbind_assoc case_prod_unfold rbind.simps fst_conv snd_conv)

lemma walk_start: "4 \<le> length bs \<Longrightarrow> \<lparr>cu_bytes = bs, cu_offset = 4\<rparr> = here (take 4 bs) (drop 4 bs)"
  by (simp add: here_def)

text \<open>The walk accepts exactly the serialized transactions, whatever follows them.\<close>

lemma walk_transaction_sound:
  assumes len: "length bs < 2 ^ 64" and walk: "walk_transaction bs = Inr L"
  shows "\<exists>v w ps outs sts l r. walk_ok w ps outs sts \<and> bs = tx_bytes 1 v w ps outs sts l @ r \<and>
    L = tx_layout w ps outs sts"
proof -
  define w where "w = (bs ! 4 = 0 \<and> bs ! 5 \<noteq> 0)"
  from walk have ten: "10 \<le> length bs" by (auto simp: walk_transaction_rest ensure_def split: if_splits)
  have start: "\<lparr>cu_bytes = bs, cu_offset = 4\<rparr> = here (take 4 bs) (drop 4 bs)" using ten by (intro walk_start) simp
  from walk obtain c b k c' where
    c: "(if w then rbind (ensure (bs ! 5 = 1) ''unsupported witness transaction flags'')
          (\<lambda>_. cursor_skip 2 (here (take 4 bs) (drop 4 bs)))
        else Inr (here (take 4 bs) (drop 4 bs))) = Inr c" and
    rest: "walk_rest w c = Inr (b, k, c')" and L: "L = \<lparr>tl_body = b, tl_locktime = k, tl_len = cu_offset c'\<rparr>"
    unfolding walk_transaction_rest Let_def start w_def[symmetric] rbind_Inr split_paired_Ex prod.case
      sum.inject
    by (elim exE conjE) (rule that, assumption, assumption, rule sym, assumption)
  have f: "fits (take 4 bs) (drop 4 bs)" using len by (simp add: fits_def)
  have "length (take 4 bs) = 4" using ten by simp
  then obtain v :: u32 where v: "take 4 bs = le_bytes 4 (uint v)" unfolding four_bytes by blast
  have "\<exists>r. drop 4 bs = (if w then [0, 1] else []) @ r \<and> c = here (take 4 bs @ (if w then [0, 1] else [])) r"
  proof (cases w)
    case True
    then have flag: "bs ! 5 = 1" and sk: "cursor_skip 2 (here (take 4 bs) (drop 4 bs)) = Inr c"
      using c by (auto simp: ensure_def split: if_splits)
    from sk[unfolded skip_here[OF f]] obtain x r where
      x: "length x = 2" "drop 4 bs = x @ r" "c = here (take 4 bs @ x) r" by blast
    have "x = take 2 (drop 4 bs)" using x by simp
    also have "\<dots> = [bs ! 4, bs ! 5]" using ten
      by (simp add: numeral_2_eq_2 numeral_eq_Suc take_Suc_conv_app_nth)
    finally have "x = [0, 1]" using True flag by (simp add: w_def)
    with x True show ?thesis by auto
  qed (use c in simp)
  then obtain r where r: "drop 4 bs = (if w then [0, 1] else []) @ r"
    "c = here (take 4 bs @ (if w then [0, 1] else [])) r" by blast
  have f': "fits (take 4 bs @ (if w then [0, 1] else [])) r" using f r(1) by simp
  from walk_rest_sound[OF f' rest[unfolded r(2)]] obtain ps outs sts l r' where
    R: "walk_ok w ps outs sts" "r = tx_core ps outs @ concat (map stack_bytes sts) @ le_bytes 4 (uint (l :: u32)) @ r'"
    "(b, k) = rest_layout (length (take 4 bs @ (if w then [0, 1] else []))) ps outs sts" "cu_offset c' = snd k"
    by blast
  have "bs = take 4 bs @ drop 4 bs" by simp
  then have "bs = tx_bytes 1 v w ps outs sts l @ r'" unfolding v r(1) R(2) by (simp add: tx_bytes_core)
  moreover have "L = tx_layout w ps outs sts" using R(3,4) ten
    by (auto simp: L rest_layout_def tx_layout_def Let_def)
  ultimately show ?thesis using R(1) by blast
qed

lemma walk_transaction_complete:
  assumes len: "length (tx_bytes 1 v w ps outs sts l @ r) < 2 ^ 64" and ok: "walk_ok w ps outs sts"
  shows "walk_transaction (tx_bytes 1 v w ps outs sts l @ r) = Inr (tx_layout w ps outs sts)"
proof -
  let ?bs = "tx_bytes 1 v w ps outs sts l @ r"
  let ?r = "tx_core ps outs @ concat (map stack_bytes sts) @ le_bytes 4 (uint l) @ r"
  let ?m = "if w then [0, 1] else [] :: bytes"
  obtain p ps' where ps: "ps = p # ps'" and p: "raw_in_valid p" using ok by (cases ps) (auto simp: walk_ok_def)
  have ten: "10 \<le> length ?bs" using raw_in_length[OF p] by (simp add: tx_bytes_core tx_core_def ps)
  have split: "take 4 ?bs = le_bytes 4 (uint v)" "drop 4 ?bs = ?m @ ?r" by (simp_all add: tx_bytes_core)
  have start: "\<lparr>cu_bytes = ?bs, cu_offset = 4\<rparr> = here (le_bytes 4 (uint v)) (?m @ ?r)"
    using walk_start[of ?bs] ten unfolding split by simp
  have nth: "?bs ! (4 + i) = (?m @ ?r) ! i" for i by (simp add: tx_bytes_core nth_append)
  obtain b bs' where b: "write_size (length ps) = b # bs'" "b \<noteq> 0"
    using hd_write_size[of "length ps"] ok by (auto simp: walk_ok_def)
  have w: "(?bs ! 4 = 0 \<and> ?bs ! 5 \<noteq> 0) = w" using nth[of 0] nth[of 1] b by (simp add: tx_core_def)
  have f: "fits (le_bytes 4 (uint v)) (?m @ ?r)" using len by (simp add: fits_def tx_bytes_core)
  then have f': "fits (le_bytes 4 (uint v) @ ?m) ?r" by simp
  have sk: "cursor_skip 2 (here (le_bytes 4 (uint v)) ([0, 1] @ ?r)) = Inr (here (le_bytes 4 (uint v) @ [0, 1]) ?r)" if w
  proof -
    have "fits (le_bytes 4 (uint v)) ([0, 1] @ ?r)" using f that by simp
    from skip_here[OF this, of 2] show ?thesis by (metis length_Cons list.size(3) numeral_2_eq_2)
  qed
  have c: "(if w then rbind (ensure (?bs ! 5 = 1) ''unsupported witness transaction flags'')
      (\<lambda>_. cursor_skip 2 (here (le_bytes 4 (uint v)) (?m @ ?r)))
    else Inr (here (le_bytes 4 (uint v)) (?m @ ?r))) = Inr (here (le_bytes 4 (uint v) @ ?m) ?r)"
    using nth[of 1] sk by (auto simp: ensure_def)
  from walk_rest_complete[OF f' ok refl] obtain bd k c' where
    R: "walk_rest w (here (le_bytes 4 (uint v) @ ?m) ?r) = Inr (bd, k, c')"
    "(bd, k) = rest_layout (length (le_bytes 4 (uint v) @ ?m)) ps outs sts" "cu_offset c' = snd k" by blast
  have "walk_transaction ?bs = Inr \<lparr>tl_body = bd, tl_locktime = k, tl_len = cu_offset c'\<rparr>"
    unfolding walk_transaction_rest Let_def start w using ten
    by (simp only: ensure_def if_True rbind.simps c[unfolded ensure_def] R(1) prod.case)
  then show ?thesis using R(2,3) by (auto simp: rest_layout_def tx_layout_def Let_def)
qed

text \<open>What stripping the witness accepts, and what it leaves.\<close>

lemma strip_iff:
  assumes len: "length tx < 2 ^ 64"
  shows "strip_witness_transaction tx = Inr s \<longleftrightarrow>
    (\<exists>v w ps outs sts l. walk_ok w ps outs sts \<and> tx = tx_bytes 1 v w ps outs sts l \<and> s = stripped_bytes v ps outs l)"
proof -
  have parts: "take 4 (tx_bytes 1 v w ps outs sts l) @ slice (tx_bytes 1 v w ps outs sts l) (tl_body (tx_layout w ps outs sts)) @
      slice (tx_bytes 1 v w ps outs sts l) (tl_locktime (tx_layout w ps outs sts)) = stripped_bytes v ps outs l"
    for v w ps outs sts l
    by (simp add: tx_bytes_core stripped_core slice_def tx_layout_def Let_def)
  show ?thesis
  proof
    assume "strip_witness_transaction tx = Inr s"
    then obtain L where L: "walk_transaction tx = Inr L" "tl_len L = length tx"
      "s = take 4 tx @ slice tx (tl_body L) @ slice tx (tl_locktime L)"
      by (auto simp: strip_witness_transaction_def ensure_def split: if_splits)
    from walk_transaction_sound[OF len L(1)] obtain v w ps outs sts l r where
      W: "walk_ok w ps outs sts" "tx = tx_bytes 1 v w ps outs sts l @ r" "L = tx_layout w ps outs sts" by blast
    have "r = []" using L(2) by (simp add: W(2,3) length_tx_bytes)
    then have "s = stripped_bytes v ps outs l" using L(3) parts by (simp add: W(2,3))
    moreover have "tx = tx_bytes 1 v w ps outs sts l" using W(2) \<open>r = []\<close> by simp
    ultimately show "\<exists>v w ps outs sts l. walk_ok w ps outs sts \<and> tx = tx_bytes 1 v w ps outs sts l \<and>
      s = stripped_bytes v ps outs l" using W(1) by blast
  next
    assume "\<exists>v w ps outs sts l. walk_ok w ps outs sts \<and> tx = tx_bytes 1 v w ps outs sts l \<and> s = stripped_bytes v ps outs l"
    then obtain v w ps outs sts l where W: "walk_ok w ps outs sts" "tx = tx_bytes 1 v w ps outs sts l"
      "s = stripped_bytes v ps outs l" by blast
    have "walk_transaction tx = Inr (tx_layout w ps outs sts)"
      using walk_transaction_complete[of v w ps outs sts l "[]"] len W by simp
    then show "strip_witness_transaction tx = Inr s"
      by (simp add: strip_witness_transaction_def ensure_def W(2,3) length_tx_bytes parts)
  qed
qed

lemma strip_tx:
  "walk_ok w ps outs sts \<Longrightarrow> length (tx_bytes 1 v w ps outs sts l) < 2 ^ 64 \<Longrightarrow>
    strip_witness_transaction (tx_bytes 1 v w ps outs sts l) = Inr (stripped_bytes v ps outs l)"
  using strip_iff by blast

end
