(* ===== verification/Work_Target.thy ===== *)
theory Work_Target
  imports Complex_Main "HOL-Library.Log_Nat" Work_Codec
begin

text \<open>
  Targets and difficulties of \<open>qbit-prism-server/src/codec.rs\<close>.  A \<open>BigUint\<close> is a natural number;
  its conversion to \<open>f64\<close> is a parameter, since the crate that does it is not part of the
  repository.  An \<open>f64\<close> is its bit pattern (\<open>to_bits\<close>), and its division is written out with
  the rounding of IEEE 754, to the nearest value and to the even one of two.
\<close>

unbundle bit_operations_syntax

section \<open>Compact targets\<close>

definition target_from_compact :: "u32 \<Rightarrow> codec_error + nat" where
  "target_from_compact bits =
    (let size = drop_bit 24 bits; mantissa = bits AND 0x007fffff in
    rbind (ensure (bits AND 0x00800000 = 0 \<and> mantissa \<noteq> 0) ''negative or zero compact target'') (\<lambda>_.
    rbind (ensure (size \<le> 34) ''compact target overflow'') (\<lambda>_.
    let value = (if size \<le> 3 then unat (drop_bit (8 * (3 - unat size)) mantissa)
      else push_bit (8 * (unat size - 3)) (unat mantissa)) in
    rbind (ensure (value \<noteq> 0 \<and> value < 2 ^ 256) ''compact target out of range'') (\<lambda>_.
    Inr value))))"

text \<open>Difficulty one, and the easiest target of the network.\<close>

definition DIFF1_BITS :: u32 where "DIFF1_BITS = 0x1d00ffff"

definition POW_LIMIT_BITS :: u32 where "POW_LIMIT_BITS = 0x207fffff"

section \<open>Floating point\<close>

type_synonym f64 = u64

definition f64_exponent_bits :: "f64 \<Rightarrow> nat" where
  "f64_exponent_bits d = unat (drop_bit 52 d AND 0x7ff)"

definition f64_is_finite :: "f64 \<Rightarrow> bool" where
  "f64_is_finite d \<longleftrightarrow> f64_exponent_bits d \<noteq> 0x7ff"

text \<open>\<open>d > 0.0\<close> and \<open>d >= 0.0\<close> for a number that is finite; minus zero is not positive.\<close>

definition f64_positive :: "f64 \<Rightarrow> bool" where
  "f64_positive d \<longleftrightarrow> \<not> bit d 63 \<and> d \<noteq> 0"

definition f64_not_negative :: "f64 \<Rightarrow> bool" where
  "f64_not_negative d \<longleftrightarrow> \<not> bit d 63 \<or> d = push_bit 63 1"

definition f64_mantissa :: "f64 \<Rightarrow> nat" where
  "f64_mantissa d = unat ((d AND mask 52) OR (if f64_exponent_bits d = 0 then 0 else push_bit 52 1))"

definition f64_exponent :: "f64 \<Rightarrow> int" where
  "f64_exponent d = (if f64_exponent_bits d = 0 then - 1074 else int (f64_exponent_bits d) - 1023 - 52)"

definition f64_infinity :: f64 where "f64_infinity = 0x7ff0000000000000"
definition f64_nan :: f64 where "f64_nan = 0x7ff8000000000000"

text \<open>
  The number nearest to \<open>n / d\<close> for positive \<open>n\<close> and \<open>d\<close>: \<open>e\<close> is the exponent of its last place.
\<close>

definition ratio_exponent :: "nat \<Rightarrow> nat \<Rightarrow> int" where
  "ratio_exponent n d = (let k = int (floorlog 2 n) - int (floorlog 2 d);
      low = (if 0 \<le> k then n < d * 2 ^ nat k else n * 2 ^ nat (- k) < d) in
    max (- 1074) ((if low then k - 1 else k) - 52))"

definition f64_round_ratio :: "nat \<Rightarrow> nat \<Rightarrow> f64" where
  "f64_round_ratio n d = (let e = ratio_exponent n d;
      num = n * 2 ^ nat (- e); den = d * 2 ^ nat e; q = num div den; r = num mod den;
      q' = (if den < 2 * r \<or> (2 * r = den \<and> odd q) then q + 1 else q);
      bits = nat (e + 1074) * 2 ^ 52 + q' in
    if 0x7ff0000000000000 \<le> bits then f64_infinity else word_of_nat bits)"

definition f64_div :: "f64 \<Rightarrow> f64 \<Rightarrow> f64" where
  "f64_div a b = (let sign = (if bit a 63 \<noteq> bit b 63 then push_bit 63 1 else 0);
      zero = (\<lambda>x. f64_mantissa x = 0); inf = (\<lambda>x. \<not> f64_is_finite x \<and> x AND mask 52 = 0);
      nan = (\<lambda>x. \<not> f64_is_finite x \<and> x AND mask 52 \<noteq> 0); e = f64_exponent a - f64_exponent b in
    if nan a \<or> nan b \<or> (inf a \<and> inf b) \<or> (zero a \<and> zero b) then f64_nan
    else if inf a \<or> zero b then sign OR f64_infinity
    else if inf b \<or> zero a then sign
    else sign OR f64_round_ratio (f64_mantissa a * 2 ^ nat e) (f64_mantissa b * 2 ^ nat (- e)))"

section \<open>Difficulties\<close>

definition difficulty_target :: "f64 \<Rightarrow> codec_error + nat" where
  "difficulty_target difficulty =
    rbind (ensure (f64_is_finite difficulty \<and> f64_positive difficulty)
      ''difficulty must be positive and finite'') (\<lambda>_.
    let bits = difficulty; raw_exponent = unat (drop_bit 52 bits AND 0x7ff);
      mantissa = (bits AND (push_bit 52 1 - 1)) OR (if raw_exponent = 0 then 0 else push_bit 52 1);
      exponent = (if raw_exponent = 0 then - 1074 else int raw_exponent - 1023 - 52) in
    rbind (target_from_compact 0x1d00ffff) (\<lambda>numerator.
    let denominator = unat mantissa;
      numerator' = (if exponent < 0 then push_bit (nat (- exponent)) numerator else numerator);
      denominator' = (if exponent < 0 then denominator else push_bit (nat exponent) denominator) in
    Inr (min (max (numerator' div denominator') 1) (push_bit 256 1 - 1))))"

text \<open>\<open>to_f64\<close> of a \<open>BigUint\<close> is the parameter.\<close>

definition target_difficulty :: "(nat \<Rightarrow> f64 option) \<Rightarrow> nat \<Rightarrow> codec_error + f64" where
  "target_difficulty to_f64 target =
    rbind (ensure (target \<noteq> 0) ''target must be positive'') (\<lambda>_.
    rbind (target_from_compact 0x1d00ffff) (\<lambda>one.
    rbind (ok_or (to_f64 one) [''difficulty conversion'']) (\<lambda>a.
    rbind (ok_or (to_f64 target) [''target conversion'']) (\<lambda>b.
    Inr (f64_div a b)))))"

definition scaled_target_difficulty :: "nat \<Rightarrow> codec_error + u128" where
  "scaled_target_difficulty target =
    rbind (ensure (target \<noteq> 0) ''target must be positive'') (\<lambda>_.
    rbind (target_from_compact 0x207fffff) (\<lambda>limit.
    let value = max ((limit * 1000000) div target) 1 in
    ok_or (if value < 2 ^ 128 then Some (word_of_nat value) else None) [''scaled difficulty exceeds u128'']))"

section \<open>Fields in hex\<close>

definition is_hexdigit :: "char \<Rightarrow> bool" where
  "is_hexdigit ch \<longleftrightarrow> hex_value ch \<noteq> None"

text \<open>\<open>u32::from_str_radix(value, 16)\<close> on hex digits, the only strings it is called on.\<close>

definition hex_number :: "string \<Rightarrow> nat" where
  "hex_number s = foldl (\<lambda>n ch. 16 * n + the (hex_value ch)) 0 s"

definition from_str_radix_16 :: "string \<Rightarrow> codec_error + u32" where
  "from_str_radix_16 s = (if s \<noteq> [] \<and> list_all is_hexdigit s then
      if hex_number s < 2 ^ 32 then Inr (word_of_nat (hex_number s))
      else Inl [''number too large to fit in target type'']
    else Inl [''invalid digit found in string''])"

definition parse_u32_hex :: "string \<Rightarrow> codec_error + u32" where
  "parse_u32_hex value =
    rbind (ensure (length value = 8 \<and> list_all is_hexdigit value) ''expected a 4-byte hex string'') (\<lambda>_.
    from_str_radix_16 value)"

text \<open>\<open>format!("{:08x}", w)\<close>\<close>

definition hex_u32 :: "u32 \<Rightarrow> string" where
  "hex_u32 w = model_hex_encode (be_bytes 4 (uint w))"

text \<open>
  The \<open>versionrollingmask\<close> member of a block template, by what \<open>serde_json\<close> says of it: absent, a
  number with its \<open>as_u64\<close>, a string, or another value.
\<close>

datatype mask_member = MaskAbsent | MaskNumber "u64 option" | MaskString string | MaskOther

definition strip_0x :: "string \<Rightarrow> string" where
  "strip_0x s = (if take 2 s = ''0x'' then drop 2 s else s)"

definition version_mask_from_template :: "mask_member \<Rightarrow> u32 \<Rightarrow> codec_error + u32" where
  "version_mask_from_template member fallback = (case member of
      MaskAbsent \<Rightarrow> Inr fallback
    | MaskNumber n \<Rightarrow> rbind (ok_or n [''invalid versionrollingmask'']) (\<lambda>n.
        ok_or (if n \<le> 0xffffffff then Some (ucast n) else None)
          [''out of range integral type conversion attempted''])
    | MaskString s \<Rightarrow> let s = strip_0x s in
        rbind (ensure (s \<noteq> [] \<and> length s \<le> 8 \<and> list_all is_hexdigit s) ''invalid versionrollingmask'') (\<lambda>_.
        from_str_radix_16 s)
    | MaskOther \<Rightarrow> Inl [''invalid versionrollingmask''])"

section \<open>What they compute\<close>

lemma compact_fields:
  fixes bits :: u32
  shows "unat (drop_bit 24 bits) = unat bits div 2 ^ 24"
    and "bits AND 0x00800000 = 0 \<longleftrightarrow> unat bits mod 2 ^ 24 < 2 ^ 23"
    and "unat (bits AND 0x007fffff) = unat bits mod 2 ^ 23"
proof -
  show "unat (drop_bit 24 bits) = unat bits div 2 ^ 24"
    unfolding unat_drop_bit_eq by (rule drop_bit_eq_div)
  have m: "(0x007fffff :: u32) = mask 23" by (simp add: mask_eq_exp_minus_1)
  show "unat (bits AND 0x007fffff) = unat bits mod 2 ^ 23"
    unfolding m take_bit_eq_mask[symmetric] unsigned_take_bit_eq by (rule take_bit_eq_mod)
  have "(0x00800000 :: u32) = push_bit 23 1" by (simp add: push_bit_eq_mult)
  then have "bits AND 0x00800000 = 0 \<longleftrightarrow> \<not> bit bits 23"
    by (metis and_exp_eq_0_iff_not_bit push_bit_of_1)
  also have "\<dots> \<longleftrightarrow> \<not> bit (unat bits) 23" by (simp add: bit_unsigned_iff)
  also have "\<dots> \<longleftrightarrow> even (unat bits div 2 ^ 23)" by (simp add: bit_iff_odd)
  also have "\<dots> \<longleftrightarrow> unat bits mod 2 ^ 24 < 2 ^ 23"
  proof -
    have "unat bits mod (2 ^ 23 * 2) = 2 ^ 23 * (unat bits div 2 ^ 23 mod 2) + unat bits mod 2 ^ 23"
      by (rule mod_mult2_eq)
    moreover have "unat bits mod 2 ^ 23 < 2 ^ 23" by simp
    ultimately show ?thesis by (cases "even (unat bits div 2 ^ 23)") (auto simp: even_iff_mod_2_eq_zero odd_iff_mod_2_eq_one)
  qed
  finally show "bits AND 0x00800000 = 0 \<longleftrightarrow> unat bits mod 2 ^ 24 < 2 ^ 23" .
qed

text \<open>
  The compact form: three bytes of mantissa, whose top bit is the sign, and the length in
  bytes.  What is accepted is exactly what has a positive value of at most 256 bits.
\<close>

lemma target_from_compact_iff:
  "target_from_compact bits = Inr t \<longleftrightarrow>
    unat bits mod 2 ^ 24 < 2 ^ 23 \<and> t = unat bits mod 2 ^ 24 * 256 ^ (unat bits div 2 ^ 24) div 256 ^ 3 \<and>
    0 < t \<and> t < 2 ^ 256"
proof -
  define s m where "s = unat bits div 2 ^ 24" and "m = unat bits mod 2 ^ 24"
  note F = compact_fields[of bits, folded s_def m_def]
  have s: "unat (drop_bit 24 bits) = s" by (rule F(1))
  have lo: "m mod 2 ^ 23 = unat (bits AND 0x007fffff)" by (simp add: F(3) m_def mod_mod_cancel)
  have val: "(if drop_bit 24 bits \<le> 3 then unat (drop_bit (8 * (3 - s)) (bits AND 0x007fffff))
      else push_bit (8 * (s - 3)) (unat (bits AND 0x007fffff))) = m * 256 ^ s div 256 ^ 3" if "m < 2 ^ 23"
  proof -
    have m: "unat (bits AND 0x007fffff) = m" using lo that by simp
    have le: "drop_bit 24 bits \<le> 3 \<longleftrightarrow> s \<le> 3" using s by (simp add: word_le_nat_alt)
    have pw: "(2 :: nat) ^ (8 * k) = 256 ^ k" for k by (simp add: power_mult)
    show ?thesis
    proof (cases "s \<le> 3")
      case True
      then have "(256 :: nat) ^ 3 = 256 ^ s * 256 ^ (3 - s)" by (simp flip: power_add)
      then have "m * 256 ^ s div 256 ^ 3 = m div 256 ^ (3 - s)"
        by (simp only: mult.commute[of m] div_mult_mult1_if) simp
      moreover have "unat (drop_bit (8 * (3 - s)) (bits AND 0x007fffff)) = m div 256 ^ (3 - s)"
        unfolding unat_drop_bit_eq m pw[symmetric] by (rule drop_bit_eq_div)
      ultimately show ?thesis using True le by simp
    next
      case False
      then have "(256 :: nat) ^ s = 256 ^ (3 + (s - 3))" by simp
      then have "(256 :: nat) ^ s = 256 ^ 3 * 256 ^ (s - 3)" by (simp only: power_add)
      then have "m * 256 ^ s div 256 ^ 3 = m * 256 ^ (s - 3)" by (simp only: mult.left_commute[of m]) simp
      then show ?thesis using False le by (simp only: push_bit_eq_mult m pw if_False)
    qed
  qed
  have big: "\<not> m * 256 ^ s div 256 ^ 3 < 2 ^ 256" if "0 < m" "34 < s"
  proof -
    have "(256 :: nat) ^ 35 \<le> 256 ^ s" using that by (intro power_increasing) simp_all
    also have "\<dots> \<le> m * 256 ^ s" using that by simp
    finally have "256 ^ 35 div 256 ^ 3 \<le> m * 256 ^ s div 256 ^ 3" by (rule div_le_mono)
    then show ?thesis by simp
  qed
  have nz: "bits AND 0x007fffff = 0 \<longleftrightarrow> m = 0" if "m < 2 ^ 23"
    using lo that by (metis mod_less unat_eq_zero unsigned_0)
  have "target_from_compact bits = Inr t \<longleftrightarrow> m < 2 ^ 23 \<and> m \<noteq> 0 \<and> s \<le> 34 \<and>
      0 < m * 256 ^ s div 256 ^ 3 \<and> m * 256 ^ s div 256 ^ 3 < 2 ^ 256 \<and> t = m * 256 ^ s div 256 ^ 3"
  proof (cases "m < 2 ^ 23")
    case True
    have "drop_bit 24 bits \<le> 34 \<longleftrightarrow> s \<le> 34" using s by (simp add: word_le_nat_alt)
    then show ?thesis unfolding target_from_compact_def Let_def F(1) val[OF True]
      by (auto simp: ensure_def F(2) True nz[OF True])
  next
    case False
    then show ?thesis by (simp add: target_from_compact_def Let_def ensure_def F(2))
  qed
  then show ?thesis unfolding s_def[symmetric] m_def[symmetric] using big
    by (metis bot_nat_0.not_eq_extremum div_0 mult_0 not_less)
qed

lemma compact_one [simp]: "target_from_compact 0x1d00ffff = Inr (0xffff * 2 ^ 208)"
  by (simp add: target_from_compact_iff)

lemma compact_limit [simp]: "target_from_compact 0x207fffff = Inr (0x7fffff * 2 ^ 232)"
  by (simp add: target_from_compact_iff)

definition DIFF1_TARGET :: nat where "DIFF1_TARGET = 0xffff * 2 ^ 208"

text \<open>The number a bit pattern stands for.\<close>

definition f64_value :: "f64 \<Rightarrow> real" where
  "f64_value d = (if bit d 63 then -1 else 1) * real (f64_mantissa d) * 2 powr real_of_int (f64_exponent d)"

lemma f64_mantissa_positive:
  assumes "f64_positive d"
  shows "0 < f64_mantissa d"
proof (rule ccontr)
  assume "\<not> 0 < f64_mantissa d"
  then have "unat ((d AND mask 52) OR (if f64_exponent_bits d = 0 then 0 else push_bit 52 1)) = 0"
    by (simp add: f64_mantissa_def)
  then have zero: "(d AND mask 52) OR (if f64_exponent_bits d = 0 then 0 else push_bit 52 1) = 0"
    by (simp only: unat_eq_zero)
  have e: "f64_exponent_bits d = 0"
  proof (rule ccontr)
    assume "f64_exponent_bits d \<noteq> 0"
    then have "bit ((d AND mask 52) OR (if f64_exponent_bits d = 0 then 0 else push_bit 52 1)) 52"
      by (simp add: bit_simps)
    then show False by (simp add: zero)
  qed
  have low0: "d AND mask 52 = 0" using zero e by simp
  have low: "\<not> bit d n" if "n < 52" for n
  proof -
    have "bit (d AND mask 52) n \<longleftrightarrow> bit d n" using that by (simp add: bit_simps)
    then show ?thesis by (simp only: low0 bit_0_eq bot_apply bot_bool_def simp_thms)
  qed
  have high: "\<not> bit d (52 + n)" if "n < 11" for n
  proof -
    have "drop_bit 52 d AND 0x7ff = 0" using e by (simp add: f64_exponent_bits_def unat_eq_zero)
    moreover have "(0x7ff :: u64) = mask 11" by (simp add: mask_eq_exp_minus_1)
    ultimately have "\<not> bit (drop_bit 52 d AND mask 11) n" by simp
    then show ?thesis using that by (simp add: bit_simps)
  qed
  have "\<not> bit d n" if "n < 64" for n
  proof -
    have "n < 52 \<or> (52 \<le> n \<and> n - 52 < 11) \<or> n = 63" using that by auto
    then consider "n < 52" | "52 \<le> n" "n - 52 < 11" | "n = 63" by blast
    then show ?thesis
    proof cases
      case 2
      then show ?thesis using high[of "n - 52"] by simp
    qed (use low assms in \<open>auto simp: f64_positive_def\<close>)
  qed
  then have "d = 0" by (intro bit_word_eqI) simp
  with assms show False by (simp add: f64_positive_def)
qed

text \<open>\<open>max(1)\<close> and \<open>min(2^256 - 1)\<close>\<close>

definition clamp_target :: "int \<Rightarrow> nat" where
  "clamp_target x = nat (min (max x 1) (2 ^ 256 - 1))"

lemma clamp_range: "1 \<le> clamp_target x \<and> clamp_target x < 2 ^ 256"
proof -
  have "1 \<le> min (max x 1) (2 ^ 256 - 1)" "min (max x 1) (2 ^ 256 - 1) < 2 ^ 256" by auto
  then show ?thesis unfolding clamp_target_def
    by (metis (no_types, lifting) nat_less_numeral_power_cancel_iff nat_mono nat_one_as_int nat_int of_nat_1)
qed

lemma clamp_mono: "x \<le> y \<Longrightarrow> clamp_target x \<le> clamp_target y"
  unfolding clamp_target_def by (intro nat_mono min.mono max.mono order_refl)

lemma clamp_of_nat: "clamp_target (int n) = min (max n 1) (2 ^ 256 - 1)"
  by (simp add: clamp_target_def min_def max_def)

text \<open>
  The target of a difficulty is the quotient of the target of difficulty one by the exact
  value of the bits, rounded down, and kept between one and the largest 256-bit number.
\<close>

lemma difficulty_target_floor:
  assumes "f64_is_finite d" and "f64_positive d"
  shows "difficulty_target d = Inr (clamp_target \<lfloor>real DIFF1_TARGET / f64_value d\<rfloor>)"
proof -
  define T where "T = DIFF1_TARGET"
  let ?e = "f64_exponent d" and ?m = "f64_mantissa d"
  define num den where "num = (if ?e < 0 then push_bit (nat (- ?e)) T else T)"
    and "den = (if ?e < 0 then ?m else push_bit (nat ?e) ?m)"
  have m: "0 < ?m" by (rule f64_mantissa_positive[OF assms(2)])
  have pos: "\<not> bit d 63" using assms(2) by (simp add: f64_positive_def)
  have "real num / real den = real T / f64_value d"
  proof (cases "?e < 0")
    case True
    then have "2 powr real_of_int ?e = 1 / 2 ^ nat (- ?e)"
      by (simp add: powr_real_of_int)
        (simp add: divide_inverse)
    then show ?thesis using True pos m by (simp add: num_def den_def f64_value_def push_bit_eq_mult)
  next
    case False
    then have "2 powr real_of_int ?e = 2 ^ nat ?e" by (simp add: powr_real_of_int)
    then show ?thesis using False pos by (simp add: num_def den_def f64_value_def push_bit_eq_mult mult.commute)
  qed
  then have q: "int (num div den) = \<lfloor>real T / f64_value d\<rfloor>"
    by (metis floor_divide_of_nat_eq)
  have "difficulty_target d = Inr (min (max (num div den) 1) (2 ^ 256 - 1))"
  proof -
    have one: "target_from_compact 0x1d00ffff = Inr T" by (simp add: T_def DIFF1_TARGET_def)
    have low: "push_bit 52 1 - 1 = (mask 52 :: u64)" by (simp add: mask_eq_exp_minus_1 push_bit_eq_mult)
    have ok: "f64_is_finite d \<and> f64_positive d" using assms by blast
    show ?thesis
      unfolding difficulty_target_def one Let_def ensure_def low f64_exponent_bits_def[symmetric]
        f64_exponent_def[symmetric] f64_mantissa_def[symmetric] num_def den_def push_bit_of_1[of 256]
      by (simp only: ok if_True rbind.simps simp_thms)
  qed
  then show ?thesis unfolding clamp_of_nat[symmetric] q by (simp add: T_def)
qed

lemma difficulty_target_Inl:
  "\<not> (f64_is_finite d \<and> f64_positive d) \<Longrightarrow> difficulty_target d = Inl [''difficulty must be positive and finite'']"
  unfolding difficulty_target_def ensure_def by (simp only: if_False rbind.simps)

lemma f64_value_positive: "f64_positive d \<Longrightarrow> 0 < f64_value d"
  using f64_mantissa_positive by (simp add: f64_value_def f64_positive_def)

lemma difficulty_target_range:
  "difficulty_target d = Inr t \<Longrightarrow> f64_is_finite d \<and> f64_positive d \<and> 1 \<le> t \<and> t < 2 ^ 256"
proof -
  assume t: "difficulty_target d = Inr t"
  then have d: "f64_is_finite d \<and> f64_positive d" using difficulty_target_Inl[of d] by fastforce
  show ?thesis using t difficulty_target_floor[of d] d clamp_range by (metis sum.inject(2))
qed

lemma target_range: "target_from_compact bits = Inr t \<Longrightarrow> 1 \<le> t \<and> t < 2 ^ 256"
  unfolding target_from_compact_iff by simp

text \<open>A higher difficulty never has a larger target.\<close>

lemma difficulty_target_mono:
  assumes "difficulty_target a = Inr s" and "difficulty_target b = Inr t" and "f64_value a \<le> f64_value b"
  shows "t \<le> s"
proof -
  have ab: "f64_is_finite a" "f64_positive a" "f64_is_finite b" "f64_positive b"
    using difficulty_target_range[OF assms(1)] difficulty_target_range[OF assms(2)] by auto
  have "real DIFF1_TARGET / f64_value b \<le> real DIFF1_TARGET / f64_value a"
    using assms(3) f64_value_positive[OF ab(2)] by (intro divide_left_mono mult_pos_pos) auto
  then have "\<lfloor>real DIFF1_TARGET / f64_value b\<rfloor> \<le> \<lfloor>real DIFF1_TARGET / f64_value a\<rfloor>" by (rule floor_mono)
  moreover have "s = clamp_target \<lfloor>real DIFF1_TARGET / f64_value a\<rfloor>"
    "t = clamp_target \<lfloor>real DIFF1_TARGET / f64_value b\<rfloor>"
    using trans[OF assms(1)[symmetric] difficulty_target_floor[OF ab(1,2)]]
      trans[OF assms(2)[symmetric] difficulty_target_floor[OF ab(3,4)]] by (simp_all only: sum.inject)
  ultimately show ?thesis using clamp_mono by simp
qed

section \<open>Hex fields\<close>

lemma hex_number_append: "hex_number (s @ t) = hex_number s * 16 ^ length t + hex_number t"
proof -
  have F: "foldl (\<lambda>n ch. 16 * n + the (hex_value ch)) a t =
      a * 16 ^ length t + foldl (\<lambda>n ch. 16 * n + the (hex_value ch)) 0 t" for a
  proof (induction t arbitrary: a)
    case (Cons ch t)
    show ?case unfolding foldl.simps Cons[of "16 * a + the (hex_value ch)"] Cons[of "16 * 0 + the (hex_value ch)"]
      by (simp add: algebra_simps)
  qed simp
  show ?thesis unfolding hex_number_def foldl_append by (rule F)
qed

lemma hex_number_byte: "hex_number [hex_digit (unat b div 16), hex_digit (unat b mod 16)] = unat b" for b :: u8
proof -
  have "unat b < 256" using unsigned_less[of b, where ?'a = nat] by simp
  then have "unat b div 16 < 16" "unat b mod 16 < 16" by auto
  then show ?thesis by (simp add: hex_number_def hex_value_digit)
qed

lemma hex_number_encode: "int (hex_number (model_hex_encode bs)) = le_value (rev bs)"
proof (induction bs rule: rev_induct)
  case (snoc b bs)
  have e: "model_hex_encode (bs @ [b]) = model_hex_encode bs @ [hex_digit (unat b div 16), hex_digit (unat b mod 16)]"
    by (simp add: model_hex_encode_def)
  show ?case unfolding e hex_number_append hex_number_byte using snoc by simp
qed (simp add: model_hex_encode_def hex_number_def)

lemma length_model_hex_encode: "length (model_hex_encode bs) = 2 * length bs"
  by (induction bs) (simp_all add: model_hex_encode_def)

lemma hexdigits_encode: "list_all is_hexdigit (model_hex_encode bs)"
proof (induction bs)
  case (Cons b bs)
  have "unat b < 256" using unsigned_less[of b, where ?'a = nat] by simp
  then have "unat b div 16 < 16" "unat b mod 16 < 16" by auto
  then show ?case using Cons by (simp add: model_hex_encode_def is_hexdigit_def hex_value_digit)
qed (simp add: model_hex_encode_def)

lemma parse_u32_hex_u32 [simp]: "parse_u32_hex (hex_u32 w) = Inr w"
proof -
  have v: "int (hex_number (hex_u32 w)) = uint w"
    using uint_lt2p[of w] by (simp add: hex_u32_def hex_number_encode be_bytes_rev le_value_le_bytes)
  then have "hex_number (hex_u32 w) < 2 ^ 32" using uint_lt2p[of w] by simp
  moreover have "word_of_nat (hex_number (hex_u32 w)) = w"
    using v by (metis of_int_of_nat_eq word_of_int_uint)
  moreover have "length (hex_u32 w) = 8" by (simp add: hex_u32_def length_model_hex_encode)
  ultimately show ?thesis
    using hexdigits_encode[of "be_bytes 4 (uint w)"]
    by (auto simp: parse_u32_hex_def ensure_def from_str_radix_16_def hex_u32_def)
qed

text \<open>Eight hex digits are always a \<open>u32\<close>: the conversion of \<open>parse_u32_hex\<close> cannot fail.\<close>

lemma hex_number_bound: "list_all is_hexdigit s \<Longrightarrow> hex_number s < 16 ^ length s"
proof (induction s rule: rev_induct)
  case (snoc ch s)
  then obtain n where n: "hex_value ch = Some n" "hex_number s < 16 ^ length s" by (auto simp: is_hexdigit_def)
  have "n < 16" using n(1) by (auto simp: hex_value_def Let_def split: if_splits)
  then show ?case using n by (simp add: hex_number_append) (simp add: hex_number_def)
qed (simp add: hex_number_def)

lemma parse_u32_hex_iff:
  "parse_u32_hex s = Inr w \<longleftrightarrow> length s = 8 \<and> list_all is_hexdigit s \<and> w = word_of_nat (hex_number s)"
proof -
  have "hex_number s < 2 ^ 32" if "length s = 8" "list_all is_hexdigit s"
    using hex_number_bound[OF that(2)] that(1) by simp
  then show ?thesis by (auto simp: parse_u32_hex_def ensure_def from_str_radix_16_def)
qed

end
