(* ===== verification/Work_Job.thy ===== *)
theory Work_Job
  imports Work_Target Merkle
begin

text \<open>
  Stratum work of \<open>qbit-prism-server/src/codec.rs\<close>: the Merkle branch of the coinbase, a job made
  from a payout manifest and a block template, its reassignment to a connection, the message
  that announces it, and the header and block of a submission.  A block template is the record
  of what \<open>serde_json\<close> says of its members, each with the accessor the code applies to it.
\<close>

section \<open>The Merkle branch\<close>

text \<open>\<open>level.as_chunks::<2>().0\<close>, each pair hashed; a level of odd length repeats its last hash.\<close>

fun hash_pairs :: "crypto \<Rightarrow> bytes list \<Rightarrow> bytes list" where
  "hash_pairs c (a # b # hs) = double_sha256 c (a @ b) # hash_pairs c hs"
| "hash_pairs c hs = []"

definition pad_level :: "bytes list \<Rightarrow> bytes list" where
  "pad_level level = (if length level mod 2 \<noteq> 0 then level @ [last level] else level)"

lemma length_hash_pairs: "length (hash_pairs c hs) = length hs div 2"
  by (induction c hs rule: hash_pairs.induct) auto

function branch_loop :: "crypto \<Rightarrow> bytes list \<Rightarrow> bytes list" where
  "branch_loop c level = (if 1 < length level
    then level ! 1 # branch_loop c (hash_pairs c (pad_level level)) else [])"
  by pat_completeness auto

termination branch_loop
  by (relation "measure (\<lambda>(_, level). length level)") (auto simp: length_hash_pairs pad_level_def)

declare branch_loop.simps [simp del]

definition merkle_branch_for_coinbase :: "crypto \<Rightarrow> bytes list \<Rightarrow> codec_error + bytes list" where
  "merkle_branch_for_coinbase c transactions =
    rbind (try_map (\<lambda>tx. rbind (strip_witness_transaction tx) (\<lambda>s. Inr (double_sha256 c s))) transactions) (\<lambda>txids.
    Inr (branch_loop c (replicate 32 0 # txids)))"

section \<open>Templates\<close>

datatype transactions_member = TransactionsAbsent | TransactionsOther | Transactions "string option list"

record block_template =
  bt_transactions :: transactions_member
  bt_previousblockhash :: "string option"
  bt_bits :: "string option"
  bt_version :: "i64 option"
  bt_curtime :: "u64 option"
  bt_mintime :: "u64 option"
  bt_versionrollingmask :: mask_member

text \<open>\<open>?\<close> on an error of the \<open>hex\<close> crate.\<close>

definition decode_hex :: "crypto \<Rightarrow> string \<Rightarrow> codec_error + bytes" where
  "decode_hex c s = map_err (\<lambda>e. [e]) (hex_decode c s)"

definition transactions_from_template :: "crypto \<Rightarrow> block_template \<Rightarrow> codec_error + bytes list" where
  "transactions_from_template c template =
    rbind (case bt_transactions template of TransactionsAbsent \<Rightarrow> Inr []
      | TransactionsOther \<Rightarrow> Inl [''template transactions must be an array'']
      | Transactions ts \<Rightarrow> Inr ts) (\<lambda>transactions.
    try_map (\<lambda>t. rbind (ok_or t [''transaction data missing'']) (decode_hex c)) transactions)"

definition witness_merkle_leaves_hex :: "crypto \<Rightarrow> bytes list \<Rightarrow> string list" where
  "witness_merkle_leaves_hex c transactions = map (\<lambda>tx. hex_encode c (double_sha256 c tx)) transactions"

section \<open>Jobs\<close>

datatype job_kind = Credit | BlockOnly

record job =
  jb_job_id :: string
  jb_previousblockhash :: string
  jb_prevhash :: string
  jb_coinb1 :: string
  jb_coinb2 :: string
  jb_full_coinbase_prefix :: string
  jb_full_coinbase_suffix :: string
  jb_merkle_branch :: "bytes list"
  jb_transactions :: "bytes list"
  jb_version :: u32
  jb_version_mask :: u32
  jb_nbits :: u32
  jb_ntime :: u32
  jb_mintime :: u32
  jb_network_target :: nat
  jb_share_target :: nat
  jb_share_difficulty :: f64
  jb_extranonce1 :: string
  jb_extranonce2_size :: usize
  jb_clean_jobs :: bool
  jb_resume_expires_at :: "nat option"
  jb_refresh_generation :: u64
  jb_payout_revision :: i64
  jb_kind :: job_kind

definition VERSION_ROLLING_MASK :: u32 where "VERSION_ROLLING_MASK = 0x1fffe000"

text \<open>\<open>as_chunks_mut::<4>().0\<close>, each word reversed; 32 bytes have no remainder.\<close>

fun reverse_words :: "bytes \<Rightarrow> bytes" where
  "reverse_words (a # b # c # d # bs) = d # c # b # a # reverse_words bs"
| "reverse_words bs = bs"

definition u32_try_from :: "u64 \<Rightarrow> codec_error + u32" where
  "u32_try_from v = (if v \<le> 0xffffffff then Inr (ucast v)
    else Inl [''out of range integral type conversion attempted''])"

text \<open>The target a share must meet: not below the network's, not above the floor's.\<close>

definition assigned_target :: "f64 \<Rightarrow> f64 \<Rightarrow> nat \<Rightarrow> codec_error + nat" where
  "assigned_target difficulty minimum network =
    rbind (difficulty_target difficulty) (\<lambda>t.
    let share = max t network in
    if f64_positive minimum then rbind (difficulty_target minimum) (\<lambda>m. Inr (min share m)) else Inr share)"

definition job_from_manifest ::
  "crypto \<Rightarrow> (nat \<Rightarrow> f64 option) \<Rightarrow> string \<Rightarrow> block_template \<Rightarrow> payout_manifest \<Rightarrow> string \<Rightarrow> usize \<Rightarrow>
    f64 \<Rightarrow> f64 \<Rightarrow> bool \<Rightarrow> codec_error + job" where
  "job_from_manifest c to_f64 job_id template manifest extranonce1 extranonce2_size desired minimum clean_jobs =
    rbind (ensure (0 < extranonce2_size \<and> extranonce2_size \<le> 32) ''invalid extranonce2 size'') (\<lambda>_.
    rbind (ensure (f64_is_finite minimum \<and> f64_not_negative minimum) ''invalid difficulty floor'') (\<lambda>_.
    rbind (decode_hex c (pm_coinbase_tx_hex manifest)) (\<lambda>coinbase.
    rbind (strip_witness_transaction coinbase) (\<lambda>stripped.
    rbind (ensure (eq_ignore_ascii_case (hash_display c (double_sha256 c stripped)) (pm_coinbase_txid manifest))
      ''manifest coinbase txid mismatch'') (\<lambda>_.
    rbind (decode_hex c extranonce1) (\<lambda>e1.
    let placeholder = e1 @ replicate extranonce2_size 0 in
    rbind (split_coinbase_extranonce stripped placeholder) (\<lambda>(coinb1, coinb2).
    rbind (split_coinbase_extranonce coinbase placeholder) (\<lambda>(full_prefix, full_suffix).
    rbind (transactions_from_template c template) (\<lambda>transactions.
    rbind (merkle_branch_for_coinbase c transactions) (\<lambda>merkle_branch.
    rbind (ok_or (bt_previousblockhash template) [''template previousblockhash missing'']) (\<lambda>previous.
    let previousblockhash = to_ascii_lowercase previous in
    rbind (decode_hex c previousblockhash) (\<lambda>prevhash_bytes.
    rbind (ensure (length prevhash_bytes = 32) ''previousblockhash must be 32 bytes'') (\<lambda>_.
    let prevhash_bytes = reverse_words (rev prevhash_bytes) in
    rbind (ok_or (bt_bits template) [''template bits missing'']) (\<lambda>bits.
    rbind (parse_u32_hex bits) (\<lambda>nbits.
    rbind (target_from_compact nbits) (\<lambda>network_target.
    rbind (assigned_target desired minimum network_target) (\<lambda>share_target.
    rbind (ok_or (bt_version template) [''template version missing'']) (\<lambda>version.
    rbind (ok_or (bt_curtime template) [''template curtime missing'']) (\<lambda>curtime.
    rbind (u32_try_from curtime) (\<lambda>ntime.
    rbind (u32_try_from (case bt_mintime template of None \<Rightarrow> 0 | Some m \<Rightarrow> m)) (\<lambda>mintime.
    rbind (version_mask_from_template (bt_versionrollingmask template) VERSION_ROLLING_MASK) (\<lambda>version_mask.
    rbind (target_difficulty to_f64 share_target) (\<lambda>share_difficulty.
    Inr \<lparr>jb_job_id = job_id, jb_previousblockhash = previousblockhash,
      jb_prevhash = hex_encode c prevhash_bytes, jb_coinb1 = hex_encode c coinb1,
      jb_coinb2 = hex_encode c coinb2, jb_full_coinbase_prefix = hex_encode c full_prefix,
      jb_full_coinbase_suffix = hex_encode c full_suffix, jb_merkle_branch = merkle_branch,
      jb_transactions = transactions, jb_version = word_of_int version, jb_version_mask = version_mask,
      jb_nbits = nbits, jb_ntime = ntime, jb_mintime = mintime, jb_network_target = network_target,
      jb_share_target = share_target, jb_share_difficulty = share_difficulty,
      jb_extranonce1 = extranonce1, jb_extranonce2_size = extranonce2_size, jb_clean_jobs = clean_jobs,
      jb_resume_expires_at = None, jb_refresh_generation = 0, jb_payout_revision = 0,
      jb_kind = Credit\<rparr>)))))))))))))))))))))))"

definition job_reassign ::
  "crypto \<Rightarrow> (nat \<Rightarrow> f64 option) \<Rightarrow> job \<Rightarrow> string \<Rightarrow> string \<Rightarrow> f64 \<Rightarrow> f64 \<Rightarrow> codec_error + job" where
  "job_reassign c to_f64 job job_id extranonce1 difficulty minimum =
    rbind (ensure (length extranonce1 = length (jb_extranonce1 job)) ''unexpected extranonce1 size'') (\<lambda>_.
    rbind (with_context ''invalid extranonce1'' (decode_hex c extranonce1)) (\<lambda>_.
    rbind (ensure (f64_is_finite minimum \<and> f64_not_negative minimum) ''invalid difficulty floor'') (\<lambda>_.
    rbind (assigned_target difficulty minimum (jb_network_target job)) (\<lambda>share_target.
    rbind (target_difficulty to_f64 share_target) (\<lambda>share_difficulty.
    Inr (job\<lparr>jb_job_id := job_id, jb_extranonce1 := extranonce1, jb_share_target := share_target,
      jb_share_difficulty := share_difficulty\<rparr>))))))"

text \<open>The parameters of \<open>mining.notify\<close>.\<close>

record notify_params =
  nf_job_id :: string
  nf_prevhash :: string
  nf_coinb1 :: string
  nf_coinb2 :: string
  nf_branch :: "string list"
  nf_version :: string
  nf_nbits :: string
  nf_ntime :: string
  nf_clean_jobs :: bool

definition job_notify :: "crypto \<Rightarrow> job \<Rightarrow> notify_params" where
  "job_notify c job = \<lparr>nf_job_id = jb_job_id job, nf_prevhash = jb_prevhash job, nf_coinb1 = jb_coinb1 job,
    nf_coinb2 = jb_coinb2 job, nf_branch = map (hex_encode c) (jb_merkle_branch job),
    nf_version = hex_u32 (jb_version job), nf_nbits = hex_u32 (jb_nbits job),
    nf_ntime = hex_u32 (jb_ntime job), nf_clean_jobs = jb_clean_jobs job\<rparr>"

section \<open>Submissions\<close>

record submission =
  sb_coinbase_tx_hex :: string
  sb_header_hex :: string
  sb_block_hex :: string
  sb_block_hash_hex :: string
  sb_share_pass :: bool
  sb_block_pass :: bool
  sb_extranonce2_hex :: string
  sb_ntime :: u32
  sb_nonce :: u32
  sb_applied_version :: u32

text \<open>\<open>BigUint::from_bytes_le\<close>\<close>

definition from_bytes_le :: "bytes \<Rightarrow> nat" where
  "from_bytes_le bs = nat (le_value bs)"

definition applied_version :: "u32 \<Rightarrow> u32 \<Rightarrow> string option \<Rightarrow> codec_error + u32" where
  "applied_version version version_mask version_bits = (case version_bits of None \<Rightarrow> Inr version
    | Some v \<Rightarrow> rbind (parse_u32_hex v) (\<lambda>bits.
        rbind (ensure (bits AND NOT version_mask = 0) ''version_bits include bits outside negotiated mask'') (\<lambda>_.
        Inr ((version AND NOT version_mask) OR bits))))"

definition climb_branch :: "crypto \<Rightarrow> bytes \<Rightarrow> bytes list \<Rightarrow> bytes" where
  "climb_branch c h branch = foldl (\<lambda>merkle sibling. double_sha256 c (merkle @ sibling)) h branch"

definition assemble_submission ::
  "crypto \<Rightarrow> job \<Rightarrow> string \<Rightarrow> string \<Rightarrow> string \<Rightarrow> string option \<Rightarrow> u32 \<Rightarrow> codec_error + submission" where
  "assemble_submission c job extranonce2 ntime_hex nonce_hex version_bits version_mask =
    rbind (ensure (length extranonce2 = jb_extranonce2_size job * 2) ''unexpected extranonce2 size'') (\<lambda>_.
    rbind (with_context ''invalid extranonce2'' (decode_hex c extranonce2)) (\<lambda>_.
    rbind (parse_u32_hex ntime_hex) (\<lambda>ntime.
    rbind (parse_u32_hex nonce_hex) (\<lambda>nonce.
    rbind (ensure (jb_mintime job \<le> ntime) ''ntime precedes template mintime'') (\<lambda>_.
    rbind (applied_version (jb_version job) version_mask version_bits) (\<lambda>version.
    rbind (decode_hex c (jb_full_coinbase_prefix job @ jb_extranonce1 job @ extranonce2 @
      jb_full_coinbase_suffix job)) (\<lambda>coinbase.
    rbind (decode_hex c (jb_coinb1 job @ jb_extranonce1 job @ extranonce2 @ jb_coinb2 job)) (\<lambda>preimage.
    rbind (strip_witness_transaction coinbase) (\<lambda>stripped.
    rbind (ensure (stripped = preimage) ''coinbase witness and txid preimage mismatch'') (\<lambda>_.
    let merkle = climb_branch c (double_sha256 c preimage) (jb_merkle_branch job) in
    rbind (decode_hex c (jb_previousblockhash job)) (\<lambda>previous.
    let header = le_bytes 4 (uint version) @ rev previous @ merkle @ le_bytes 4 (uint ntime) @
      le_bytes 4 (uint (jb_nbits job)) @ le_bytes 4 (uint nonce) in
    rbind (ensure (length header = 80) ''invalid header size'') (\<lambda>_.
    let hash = double_sha256 c header; hash_int = from_bytes_le hash;
      block_pass = (hash_int \<le> jb_network_target job);
      block = (if block_pass then header @ work_compact_size (1 + word_of_nat (length (jb_transactions job))) @
        coinbase @ concat (jb_transactions job) else []) in
    Inr \<lparr>sb_coinbase_tx_hex = hex_encode c coinbase, sb_header_hex = hex_encode c header,
      sb_block_hex = hex_encode c block, sb_block_hash_hex = hash_display c hash,
      sb_share_pass = (hash_int \<le> jb_share_target job), sb_block_pass = block_pass,
      sb_extranonce2_hex = to_ascii_lowercase extranonce2, sb_ntime = ntime, sb_nonce = nonce,
      sb_applied_version = version\<rparr>))))))))))))"

end
