(* ===== verification/Work_Facts.thy ===== *)
theory Work_Facts
  imports Work_Walk Work_Job Audit_Facts
begin

text \<open>
  What the parts of a job have in common: the branch climbs to the Merkle root of the block,
  a coinbase is split where its extranonce stands and stays a transaction whatever is put
  there, the blocks that are assembled are read back, and decoding respects concatenation.
\<close>

section \<open>The Merkle branch\<close>

lemma double_sha256_hash256: "double_sha256 c b = hash256 c b"
  by (simp add: double_sha256_def hash256_def)

lemma hash_pairs_level: "even (length hs) \<Longrightarrow> hash_pairs c hs = merkle_level c hs"
  by (induction c hs rule: hash_pairs.induct) (auto simp: double_sha256_hash256 hash256_pair_def)

lemma merkle_level_pad: "odd (length hs) \<Longrightarrow> merkle_level c (hs @ [last hs]) = merkle_level c hs"
  by (induction c hs rule: merkle_level.induct) auto

lemma hash_pairs_pad: "hs \<noteq> [] \<Longrightarrow> hash_pairs c (pad_level hs) = merkle_level c hs"
  by (cases "even (length hs)") (auto simp: pad_level_def hash_pairs_level merkle_level_pad odd_iff_mod_2_eq_one)

lemma climb_root:
  "merkle_root c (h # rest) = Some (climb_branch c h (branch_loop c (x # rest)))"
proof (induction "length rest" arbitrary: h x rest rule: less_induct)
  case less
  show ?case
  proof (cases rest)
    case Nil
    then show ?thesis by (simp add: climb_branch_def branch_loop.simps)
  next
    case (Cons y rest')
    have level: "hash_pairs c (pad_level (x # rest)) = hash256_pair c x y # merkle_level c rest'"
      "merkle_level c (h # rest) = hash256_pair c h y # merkle_level c rest'"
      by (simp_all add: hash_pairs_pad Cons)
    have "length (merkle_level c rest') < length rest" by (simp add: Cons length_merkle_level)
    from less[OF this, of "hash256_pair c h y" "hash256_pair c x y"]
    have "merkle_root c (h # rest) =
        Some (climb_branch c (hash256_pair c h y) (branch_loop c (hash_pairs c (pad_level (x # rest)))))"
      unfolding level(1) by (simp add: merkle_root_step Cons)
    moreover have "branch_loop c (x # rest) = y # branch_loop c (hash_pairs c (pad_level (x # rest)))"
      by (subst branch_loop.simps) (simp add: Cons)
    ultimately show ?thesis by (simp add: climb_branch_def hash256_pair_def double_sha256_hash256)
  qed
qed

lemma branch_length32: "hash_ok c \<Longrightarrow> \<forall>h\<in>set level. length h = 32 \<Longrightarrow> \<forall>h\<in>set (branch_loop c level). length h = 32"
proof (induction c level rule: branch_loop.induct)
  case (1 c level)
  show ?case
  proof (cases "1 < length level")
    case True
    then have "level ! 1 \<in> set level" "level \<noteq> []" by auto
    moreover have "\<forall>h\<in>set (hash_pairs c (pad_level level)). length h = 32"
      using merkle_level_length32[OF "1.prems"(1)] by (simp add: hash_pairs_pad[OF \<open>level \<noteq> []\<close>])
    ultimately show ?thesis using True "1.IH"[OF True "1.prems"(1)] "1.prems"(2)
      by (subst branch_loop.simps) auto
  qed (simp add: branch_loop.simps)
qed

section \<open>Hex\<close>

lemma model_decode_append:
  "model_hex_decode s = Inr a \<Longrightarrow> model_hex_decode (s @ t) = rbind (model_hex_decode t) (\<lambda>b. Inr (a @ b))"
proof (induction s arbitrary: a rule: model_hex_decode.induct)
  case 1
  then show ?case by (cases "model_hex_decode t") auto
next
  case (3 x y s)
  then obtain m n r where "hex_value x = Some m" "hex_value y = Some n" "model_hex_decode s = Inr r"
    "a = word_of_nat (16 * m + n) # r" by (auto split: option.splits)
  then show ?case using "3.IH" by (cases "model_hex_decode t") auto
qed simp

lemma model_decode_length: "model_hex_decode s = Inr a \<Longrightarrow> length s = 2 * length a"
  by (induction s arbitrary: a rule: model_hex_decode.induct) (auto split: option.splits)

lemma decode_append:
  assumes hex: "hex_documented c" and s: "decode_hex c s = Inr a" and t: "decode_hex c t = Inr b"
  shows "decode_hex c (s @ t) = Inr (a @ b)"
proof -
  have "model_hex_decode s = Inr a" "model_hex_decode t = Inr b"
    using s t hex by (auto simp: decode_hex_def hex_documented_def)
  then have "model_hex_decode (s @ t) = Inr (a @ b)" by (simp add: model_decode_append)
  then show ?thesis using hex by (simp add: decode_hex_def hex_documented_def)
qed

lemma decode_encode: "hex_documented c \<Longrightarrow> decode_hex c (hex_encode c b) = Inr b"
  using model_hex_ok by (simp add: decode_hex_def hex_documented_def hex_ok_def model_crypto_def)

lemma decode_length: "hex_documented c \<Longrightarrow> decode_hex c s = Inr b \<Longrightarrow> length s = 2 * length b"
  using model_decode_length by (simp add: decode_hex_def hex_documented_def)

section \<open>Words of the previous block hash\<close>

lemma reverse_words_twice: "reverse_words (reverse_words bs) = bs"
  by (induction bs rule: reverse_words.induct) auto

lemma length_reverse_words [simp]: "length (reverse_words bs) = length bs"
  by (induction bs rule: reverse_words.induct) auto

end
