(* ===== verification/Work_Coinbase.thy ===== *)
theory Work_Coinbase
  imports Work_Facts
begin

text \<open>
  The coinbase around its extranonce, and blocks.  A coinbase that splits is a transaction
  with one null input whose script ends in the placeholder; with other bytes of the same
  length in its place it is a transaction again, and its witness-free form is the split of
  the witness-free form.  A block put together from transactions is read back into them.
\<close>

section \<open>Reading at a known place\<close>

lemma take_at: "fits pre (x @ r) \<Longrightarrow> length x = n \<Longrightarrow>
    cursor_take n (here pre (x @ r)) = Inr (x, here (pre @ x) r)"
  by (subst take_here) auto

lemma count_at: "fits pre (write_size n @ r) \<Longrightarrow> n \<le> length r \<Longrightarrow>
    cursor_count (here pre (write_size n @ r)) = Inr (n, here (pre @ write_size n) r)"
  by (subst count_here) (auto simp: fits_def)

section \<open>Splitting\<close>

definition cb_in :: "bytes \<Rightarrow> u32 \<Rightarrow> raw_in" where
  "cb_in script q = (replicate 32 0, 0xffffffff, script, q)"

definition cb_prefix :: "u32 \<Rightarrow> bool \<Rightarrow> bytes \<Rightarrow> nat \<Rightarrow> bytes" where
  "cb_prefix v w s n = le_bytes 4 (uint v) @ (if w then [0, 1] else []) @ write_size 1 @
    replicate 32 0 @ le_bytes 4 0xffffffff @ write_size n @ s"

definition cb_suffix :: "u32 \<Rightarrow> parsed_tx_out list \<Rightarrow> bytes list list \<Rightarrow> u32 \<Rightarrow> bytes" where
  "cb_suffix q outs sts l = le_bytes 4 (uint q) @ write_size (length outs) @ concat (map tx_out_bytes outs) @
    concat (map stack_bytes sts) @ le_bytes 4 (uint l)"

lemma cb_tx: "tx_bytes 1 v w [cb_in (s @ e) q] outs sts l =
    cb_prefix v w s (length s + length e) @ e @ cb_suffix q outs sts l"
  by (simp add: tx_bytes_core tx_core_def cb_prefix_def cb_suffix_def cb_in_def raw_in_bytes_def var_bytes_def
      write_size_def)

lemma cb_stripped: "stripped_bytes v [cb_in (s @ e) q] outs l =
    cb_prefix v False s (length s + length e) @ e @ cb_suffix q outs [] l"
  by (simp add: stripped_core tx_core_def cb_prefix_def cb_suffix_def cb_in_def raw_in_bytes_def var_bytes_def
      write_size_def)

lemma stripped_is_tx: "stripped_bytes v ps outs l = tx_bytes 1 v False ps outs [] l"
  by (simp add: stripped_core tx_bytes_core)

lemma walk_ok_stripped: "walk_ok w ps outs sts \<Longrightarrow> walk_ok False ps outs []"
  by (simp add: walk_ok_def stacks_ok_def)

lemma walk_ok_script: "walk_ok w [cb_in s q] outs sts \<Longrightarrow> length t < 2 ^ 64 \<Longrightarrow> walk_ok w [cb_in t q] outs sts"
  by (simp add: walk_ok_def stacks_ok_def cb_in_def raw_in_valid_def)

lemma le_ff: "le_bytes 4 0xffffffff = replicate 4 255"
  by code_simp

lemma vout_ff: "le_bytes 4 (uint w) = replicate 4 255 \<longleftrightarrow> w = 0xffffffff" for w :: u32
proof
  assume "le_bytes 4 (uint w) = replicate 4 255"
  then have "le_bytes 4 (uint w) = le_bytes 4 (uint (0xffffffff :: u32))" by (simp add: le_ff)
  then have "word_of_int (le_value (le_bytes 4 (uint w))) = (word_of_int (le_value (le_bytes 4 (uint (0xffffffff :: u32)))) :: u32)"
    by (rule arg_cong)
  then show "w = 0xffffffff" by (simp only: word_of_le_bytes[where 'a = 32 and n = 4, simplified])
qed (simp add: le_ff)

lemma split_eval:
  assumes len: "length (tx_bytes 1 v w (p # ps) outs sts l) < 2 ^ 64" and ok: "walk_ok w (p # ps) outs sts"
  shows "split_coinbase_extranonce (tx_bytes 1 v w (p # ps) outs sts l) placeholder = Inr (a, b) \<longleftrightarrow>
    placeholder \<noteq> [] \<and> (\<exists>s q. p = cb_in (s @ placeholder) q \<and> ps = [] \<and>
      a = cb_prefix v w s (length s + length placeholder) \<and> b = cb_suffix q outs sts l)"
proof -
  let ?tx = "tx_bytes 1 v w (p # ps) outs sts l"
  let ?m = "if w then [0, 1] else [] :: bytes" and ?n = "length (p # ps)"
  obtain txid vout script q where p: "p = (txid, vout, script, q)" by (cases p) auto
  define r where "r = le_bytes 4 (uint q) @ concat (map raw_in_bytes ps) @ write_size (length outs) @
    concat (map tx_out_bytes outs) @ concat (map stack_bytes sts) @ le_bytes 4 (uint l)"
  let ?size = "write_size (length script)" and ?out = "txid @ le_bytes 4 (uint vout)"
  have txid: "length txid = 32" and sl: "length script < 2 ^ 64" and nl: "?n < 2 ^ 64"
    using ok by (auto simp: walk_ok_def raw_in_valid_def p)
  have tx: "?tx = le_bytes 4 (uint v) @ ?m @ write_size ?n @ ?out @ ?size @ script @ r"
    by (simp add: tx_bytes_core tx_core_def raw_in_bytes_def var_bytes_def write_size_def p r_def)
  have "length ps \<le> length (concat (map raw_in_bytes ps))"
    by (rule tx_ins.length_concat_write) (use ok in \<open>simp add: walk_ok_def\<close>)
  then have nr: "?n \<le> length (?out @ ?size @ script @ r)" by (simp add: r_def)
  have ten: "10 \<le> length ?tx" using txid by (simp add: tx)
  obtain b0 bs where b0: "write_size ?n = b0 # bs" "b0 \<noteq> 0" using hd_write_size[of ?n] nl by auto
  have marker: "(?tx ! 4 = 0 \<and> ?tx ! 5 \<noteq> 0) = w" using b0 by (simp add: tx nth_append)
  have start: "\<lparr>cu_bytes = ?tx, cu_offset = 4\<rparr> = here (le_bytes 4 (uint v)) (?m @ write_size ?n @ ?out @ ?size @ script @ r)"
    by (simp add: here_def tx)
  have F: "fits (le_bytes 4 (uint v)) (?m @ write_size ?n @ ?out @ ?size @ script @ r)"
    using len by (simp add: fits_def tx)
  have skip: "(if w then cursor_skip 2 (here (le_bytes 4 (uint v)) (?m @ write_size ?n @ ?out @ ?size @ script @ r))
      else Inr (here (le_bytes 4 (uint v)) (?m @ write_size ?n @ ?out @ ?size @ script @ r))) =
    Inr (here (le_bytes 4 (uint v) @ ?m) (write_size ?n @ ?out @ ?size @ script @ r))"
    using F take_at[of "le_bytes 4 (uint v)" "[0, 1]" "write_size ?n @ ?out @ ?size @ script @ r" 2]
    by (cases w) (simp_all add: cursor_skip_def)
  let ?p1 = "le_bytes 4 (uint v) @ ?m"
  let ?p2 = "?p1 @ write_size ?n" let ?p3 = "?p2 @ ?out" let ?p4 = "?p3 @ ?size" let ?p5 = "?p4 @ script"
  have c1: "cursor_count (here ?p1 (write_size ?n @ ?out @ ?size @ script @ r)) = Inr (?n, here ?p2 (?out @ ?size @ script @ r))"
    by (rule count_at[OF _ nr]) (use F in simp)
  have c2: "cursor_take 36 (here ?p2 (?out @ ?size @ script @ r)) = Inr (?out, here ?p3 (?size @ script @ r))"
    by (rule take_at) (use F txid in simp_all)
  have c3: "cursor_count (here ?p3 (?size @ script @ r)) = Inr (length script, here ?p4 (script @ r))"
    by (rule count_at) (use F in simp_all)
  have c4: "cursor_take (length script) (here ?p4 (script @ r)) = Inr (script, here ?p5 r)"
    by (rule take_at) (use F in simp_all)
  have pre: "?tx = ?p5 @ r" by (simp add: tx)
  have run: "split_coinbase_extranonce ?tx placeholder =
    rbind (ensure (10 \<le> length ?tx \<and> placeholder \<noteq> []) ''invalid coinbase or extranonce placeholder'') (\<lambda>_.
    rbind (ensure (?n = 1) ''coinbase must have exactly one input'') (\<lambda>_.
    rbind (ensure (take 32 ?out = replicate 32 0 \<and> drop 32 ?out = replicate 4 255)
      ''coinbase has non-null prevout'') (\<lambda>_.
    rbind (ensure (ends_with script placeholder)
      ''coinbase scriptSig does not end with extranonce placeholder'') (\<lambda>_.
    Inr (take (length ?p5 - length placeholder) ?tx, drop (length ?p5) ?tx)))))"
    by (simp only: split_coinbase_extranonce_def Let_def marker start skip rbind.simps c1 c2 c3 c4 prod.case
        here_offset)
  have "split_coinbase_extranonce ?tx placeholder = Inr (a, b) \<longleftrightarrow>
    placeholder \<noteq> [] \<and> ps = [] \<and> txid = replicate 32 0 \<and> vout = 0xffffffff \<and> ends_with script placeholder \<and>
    a = take (length ?p5 - length placeholder) ?tx \<and> b = drop (length ?p5) ?tx"
    unfolding run using ten txid vout_ff[of vout] by (simp add: ensure_def) blast
  also have "\<dots> \<longleftrightarrow> placeholder \<noteq> [] \<and> (\<exists>s q'. p = cb_in (s @ placeholder) q' \<and> ps = [] \<and>
      a = cb_prefix v w s (length s + length placeholder) \<and> b = cb_suffix q' outs sts l)"
  proof (cases "ps = [] \<and> txid = replicate 32 0 \<and> vout = 0xffffffff")
    case True
    have ends: "ends_with script placeholder \<longleftrightarrow> (\<exists>s. script = s @ placeholder)"
      by (auto simp: ends_with_def) (metis append_take_drop_id)
    have "take (length ?p5 - length placeholder) ?tx = cb_prefix v w s (length s + length placeholder) \<and>
        drop (length ?p5) ?tx = cb_suffix q outs sts l" if "script = s @ placeholder" for s
      unfolding pre using True that by (simp add: cb_prefix_def cb_suffix_def r_def)
    then show ?thesis using True unfolding ends by (auto simp: p cb_in_def)
  qed (auto simp: p cb_in_def)
  finally show ?thesis .
qed

section \<open>Blocks\<close>

lemma work_compact_size_size: "work_compact_size v = compact_size v"
proof -
  have "v \<le> 252 \<longleftrightarrow> v < 253" by (simp add: word_le_def word_less_def) linarith
  then show ?thesis by (simp add: work_compact_size_def compact_size_def)
qed

lemma walk_stripped:
  assumes "length (tx @ r) < 2 ^ 64" and "strip_witness_transaction tx = Inr s"
  shows "\<exists>layout. walk_transaction (tx @ r) = Inr layout \<and> tl_len layout = length tx"
proof -
  have "length tx < 2 ^ 64" using assms(1) by simp
  from assms(2)[unfolded strip_iff[OF this]] obtain v w ps outs sts l where
    W: "walk_ok w ps outs sts" "tx = tx_bytes 1 v w ps outs sts l" by blast
  then have "walk_transaction (tx @ r) = Inr (tx_layout w ps outs sts)"
    using walk_transaction_complete[of v w ps outs sts l r] assms(1) by simp
  then show ?thesis by (simp add: W(2) length_tx_bytes)
qed

lemma block_leaves:
  assumes len: "length block < 2 ^ 64"
  shows "block = pre @ concat txs \<Longrightarrow> i + length txs = n \<Longrightarrow>
    \<forall>tx\<in>set txs. \<exists>s. strip_witness_transaction tx = Inr s \<Longrightarrow>
    try_fold (block_leaf c block n) (length pre, leaves) [i..<n] =
      Inr (length block, leaves @ witness_merkle_leaves_hex c (if i = 0 then tl txs else txs))"
proof (induction txs arbitrary: pre i leaves)
  case Nil
  then show ?case by (simp add: witness_merkle_leaves_hex_def)
next
  case (Cons tx txs)
  obtain s where s: "strip_witness_transaction tx = Inr s" using Cons.prems(3) by auto
  have rest: "drop (length pre) block = tx @ concat txs" by (simp add: Cons.prems(1))
  have "length (tx @ concat txs) < 2 ^ 64" using len by (simp add: Cons.prems(1))
  from walk_stripped[OF this s] obtain layout where
    L: "walk_transaction (tx @ concat txs) = Inr layout" "tl_len layout = length tx" by blast
  have step: "block_leaf c block n (length pre, leaves) i = Inr (length pre + length tx,
      if 0 < i then leaves @ [hex_encode c (double_sha256 c tx)] else leaves)"
    unfolding block_leaf_def by (simp add: rest L with_context_def Cons.prems(1))
  have up: "[i..<n] = i # [Suc i..<n]" using Cons.prems(2) by (simp add: upt_rec)
  have IH: "try_fold (block_leaf c block n) (length pre + length tx, ls) [Suc i..<n] =
      Inr (length block, ls @ witness_merkle_leaves_hex c txs)" for ls
    using Cons.IH[of "pre @ tx" "Suc i" ls] Cons.prems by simp
  show ?case unfolding up try_fold.simps step rbind.simps IH by (simp add: witness_merkle_leaves_hex_def)
qed

text \<open>A block read back: its header, the count, and transactions that can be stripped.\<close>

lemma block_read_back:
  assumes len: "length (header @ write_size (length txs) @ concat txs) < 2 ^ 64" and "length header = 80"
    and "txs \<noteq> []" and "\<forall>tx\<in>set txs. \<exists>s. strip_witness_transaction tx = Inr s"
  shows "witness_merkle_leaves_from_block c (header @ write_size (length txs) @ concat txs) =
      Inr (witness_merkle_leaves_hex c (tl txs))"
    and "coinbase_from_block (header @ write_size (length txs) @ concat txs) = Inr (hd txs)"
proof -
  let ?block = "header @ write_size (length txs) @ concat txs"
  have "\<forall>tx\<in>set txs. tx \<noteq> []"
    using assms(4) by (auto simp: strip_witness_transaction_def walk_transaction_def ensure_def)
  then have "length txs \<le> length (concat txs)"
  proof (induction txs)
    case (Cons tx txs)
    then have "1 \<le> length tx" by (cases tx) auto
    with Cons show ?case by simp
  qed simp
  then have cnt: "cursor_count \<lparr>cu_bytes = ?block, cu_offset = 80\<rparr> =
      Inr (length txs, here (header @ write_size (length txs)) (concat txs))"
    using count_at[of header "length txs" "concat txs"] len assms(2) by (simp add: here_def fits_def)
  have "try_fold (block_leaf c ?block (length txs)) (length (header @ write_size (length txs)), []) [0..<length txs] =
      Inr (length ?block, [] @ witness_merkle_leaves_hex c (if (0 :: nat) = 0 then tl txs else txs))"
    by (rule block_leaves) (use len assms(4) in simp_all)
  then show "witness_merkle_leaves_from_block c ?block = Inr (witness_merkle_leaves_hex c (tl txs))"
    using assms(2,3) by (simp add: witness_merkle_leaves_from_block_def ensure_def with_context_def cnt)
  obtain tx txs' where txs: "txs = tx # txs'" using assms(3) by (cases txs) auto
  obtain s where s: "strip_witness_transaction tx = Inr s" using assms(4) txs by auto
  have "length (tx @ concat txs') < 2 ^ 64" using len by (simp add: txs)
  from walk_stripped[OF this s] obtain layout where
    "walk_transaction (concat txs) = Inr layout" "tl_len layout = length tx" by (auto simp: txs)
  moreover have "take (length tx) (concat txs) = hd txs" by (simp add: txs)
  moreover have "drop (length (header @ write_size (length txs))) ?block = concat txs" by simp
  ultimately show "coinbase_from_block ?block = Inr (hd txs)"
    using assms(2,3) by (simp add: coinbase_from_block_def ensure_def with_context_def cnt)
qed

end
