(* ===== verification/Work_Issued.thy ===== *)
theory Work_Issued
  imports Work_Coinbase
begin

text \<open>
  The jobs the server issues: made from a manifest, reassigned to connections and stamped with
  their session's fields.  All of them keep one invariant, the well-formedness of a job: its
  halves are a coinbase around an extranonce of fixed size and the witness-free form of that
  coinbase, its branch belongs to its transactions, and its parent hash has 32 bytes.
\<close>

definition job_ok :: "crypto \<Rightarrow> job \<Rightarrow> bool" where
  "job_ok c job \<longleftrightarrow> (\<exists>P S P' S' e1 prev.
    jb_full_coinbase_prefix job = hex_encode c P \<and> jb_full_coinbase_suffix job = hex_encode c S \<and>
    jb_coinb1 job = hex_encode c P' \<and> jb_coinb2 job = hex_encode c S' \<and>
    decode_hex c (jb_extranonce1 job) = Inr e1 \<and> 0 < jb_extranonce2_size job \<and> jb_extranonce2_size job \<le> 32 \<and>
    length (P @ e1 @ S) + jb_extranonce2_size job < 2 ^ 64 \<and>
    (\<forall>x. length x = length e1 + jb_extranonce2_size job \<longrightarrow>
      strip_witness_transaction (P @ x @ S) = Inr (P' @ x @ S')) \<and>
    merkle_branch_for_coinbase c (jb_transactions job) = Inr (jb_merkle_branch job) \<and>
    jb_previousblockhash job = hex_encode c prev \<and> length prev = 32 \<and>
    jb_prevhash job = hex_encode c (reverse_words (rev prev)) \<and>
    target_from_compact (jb_nbits job) = Inr (jb_network_target job))"

text \<open>
  \<open>stamped\<close> stands for the assignments of \<open>coordinator.rs\<close> to a job it has reassigned, when it is
  issued and when it is restored.
\<close>

inductive issued :: "crypto \<Rightarrow> (nat \<Rightarrow> f64 option) \<Rightarrow> job \<Rightarrow> bool" for c to_f64 where
  made: "job_from_manifest c to_f64 job_id template manifest extranonce1 width desired minimum clean_jobs = Inr job \<Longrightarrow>
    length (pm_coinbase_tx_hex manifest) < 2 ^ 64 \<Longrightarrow> issued c to_f64 job"
| reassigned: "issued c to_f64 job \<Longrightarrow>
    job_reassign c to_f64 job job_id extranonce1 difficulty minimum = Inr job' \<Longrightarrow> issued c to_f64 job'"
| stamped: "issued c to_f64 job \<Longrightarrow>
    issued c to_f64 (job\<lparr>jb_clean_jobs := clean, jb_share_target := target, jb_share_difficulty := difficulty,
      jb_version_mask := version_mask, jb_refresh_generation := generation, jb_payout_revision := revision,
      jb_resume_expires_at := expires, jb_kind := kind\<rparr>)"

lemma split_parts:
  assumes len: "length coinbase < 2 ^ 64" and strip: "strip_witness_transaction coinbase = Inr stripped"
    and s1: "split_coinbase_extranonce stripped placeholder = Inr (P', S')"
    and s2: "split_coinbase_extranonce coinbase placeholder = Inr (P, S)"
  shows "length (P @ placeholder @ S) = length coinbase"
    and "length x = length placeholder \<Longrightarrow> strip_witness_transaction (P @ x @ S) = Inr (P' @ x @ S')"
proof -
  from strip[unfolded strip_iff[OF len]] obtain v w ps outs sts l where
    W: "walk_ok w ps outs sts" "coinbase = tx_bytes 1 v w ps outs sts l" "stripped = stripped_bytes v ps outs l"
    by blast
  obtain p ps' where ps: "ps = p # ps'" using W(1) by (cases ps) (auto simp: walk_ok_def)
  have len': "length stripped < 2 ^ 64"
    using len unfolding W(2,3) by (simp add: tx_bytes_core stripped_core)
  from s2[unfolded W(2) ps split_eval[OF len[unfolded W(2) ps] W(1)[unfolded ps]]] obtain s q where
    A: "p = cb_in (s @ placeholder) q" "ps' = []" "P = cb_prefix v w s (length s + length placeholder)"
    "S = cb_suffix q outs sts l" by blast
  note ok' = walk_ok_stripped[OF W(1)[unfolded ps]]
  from s1[unfolded W(3) ps stripped_is_tx split_eval[OF len'[unfolded W(3) ps stripped_is_tx] ok']] obtain s' q' where
    B: "p = cb_in (s' @ placeholder) q'" "P' = cb_prefix v False s' (length s' + length placeholder)"
    "S' = cb_suffix q' outs [] l" by blast
  have same: "s' = s" "q' = q" using A(1) B(1) by (simp_all add: cb_in_def)
  have full: "P @ x @ S = tx_bytes 1 v w [cb_in (s @ x) q] outs sts l"
    "P' @ x @ S' = stripped_bytes v [cb_in (s @ x) q] outs l" if "length x = length placeholder" for x
    using that by (simp_all add: A B same cb_tx cb_stripped)
  show lens: "length (P @ placeholder @ S) = length coinbase"
    using full(1)[of placeholder] A(1,2) by (simp add: W(2) ps)
  assume x: "length x = length placeholder"
  have "length (s @ x) < 2 ^ 64"
    using W(1) x by (simp add: ps A(1,2) walk_ok_def raw_in_valid_def cb_in_def)
  from walk_ok_script[OF W(1)[unfolded ps A(1,2)] this] have "walk_ok w [cb_in (s @ x) q] outs sts" .
  moreover have "length (P @ x @ S) < 2 ^ 64" using lens len x by simp
  ultimately show "strip_witness_transaction (P @ x @ S) = Inr (P' @ x @ S')"
    unfolding full[OF x] by (intro strip_tx)
qed

lemma made_ok:
  assumes hex: "hex_documented c" and len: "length (pm_coinbase_tx_hex manifest) < 2 ^ 64"
    and job: "job_from_manifest c to_f64 job_id template manifest extranonce1 width desired minimum clean_jobs = Inr job"
  shows "job_ok c job"
proof -
  from job obtain coinbase stripped e1 P' S' P S branch prev where
    sz: "0 < width" "width \<le> 32" and
    coinbase: "decode_hex c (pm_coinbase_tx_hex manifest) = Inr coinbase" and
    strip: "strip_witness_transaction coinbase = Inr stripped" and
    e1: "decode_hex c extranonce1 = Inr e1" and
    s1: "split_coinbase_extranonce stripped (e1 @ replicate width 0) = Inr (P', S')" and
    s2: "split_coinbase_extranonce coinbase (e1 @ replicate width 0) = Inr (P, S)" and
    branch: "merkle_branch_for_coinbase c (jb_transactions job) = Inr branch" and
    prev: "decode_hex c (jb_previousblockhash job) = Inr prev" "length prev = 32"
      "to_ascii_lowercase (jb_previousblockhash job) = jb_previousblockhash job" and
    target: "target_from_compact (jb_nbits job) = Inr (jb_network_target job)" and
    J: "jb_full_coinbase_prefix job = hex_encode c P" "jb_full_coinbase_suffix job = hex_encode c S"
      "jb_coinb1 job = hex_encode c P'" "jb_coinb2 job = hex_encode c S'" "jb_extranonce1 job = extranonce1"
      "jb_extranonce2_size job = width" "jb_merkle_branch job = branch"
      "jb_prevhash job = hex_encode c (reverse_words (rev prev))"
    unfolding job_from_manifest_def Let_def ensure_def rbind_Inr split_paired_Ex prod.case if_Inl_Inr sum.inject
    by (elim exE conjE) (hypsubst, rule that; simp)
  have "length coinbase < 2 ^ 64" using decode_length[OF hex coinbase] len by simp
  note X = split_parts[OF this strip s1 s2]
  have "decode_hex c (jb_extranonce1 job) = Inr e1" using e1 J by simp
  moreover have "length (P @ e1 @ S) + jb_extranonce2_size job < 2 ^ 64" using X(1) \<open>length coinbase < 2 ^ 64\<close> J by simp
  moreover have "hex_encode c prev = jb_previousblockhash job"
    using prev hex_lower[OF hex, of "jb_previousblockhash job" prev] by (simp add: decode_hex_def)
  ultimately show ?thesis
    unfolding job_ok_def using X(2) sz branch prev target J
    by (intro exI[of _ P] exI[of _ S] exI[of _ P'] exI[of _ S'] exI[of _ e1] exI[of _ prev]) simp
qed

lemma reassigned_ok:
  assumes hex: "hex_documented c" and ok: "job_ok c job"
    and re: "job_reassign c to_f64 job job_id extranonce1 difficulty minimum = Inr job'"
  shows "job_ok c job'"
proof -
  from re obtain e1' target sd where
    e1': "decode_hex c extranonce1 = Inr e1'" and n: "length extranonce1 = length (jb_extranonce1 job)" and
    J: "job' = job\<lparr>jb_job_id := job_id, jb_extranonce1 := extranonce1, jb_share_target := target,
      jb_share_difficulty := sd\<rparr>"
    by (auto simp: job_reassign_def ensure_def with_context_def split: if_splits)
  from ok obtain P S P' S' e1 prev where O: "jb_full_coinbase_prefix job = hex_encode c P"
    "jb_full_coinbase_suffix job = hex_encode c S" "jb_coinb1 job = hex_encode c P'" "jb_coinb2 job = hex_encode c S'"
    "decode_hex c (jb_extranonce1 job) = Inr e1" "0 < jb_extranonce2_size job" "jb_extranonce2_size job \<le> 32"
    "length (P @ e1 @ S) + jb_extranonce2_size job < 2 ^ 64"
    "\<forall>x. length x = length e1 + jb_extranonce2_size job \<longrightarrow>
      strip_witness_transaction (P @ x @ S) = Inr (P' @ x @ S')"
    "merkle_branch_for_coinbase c (jb_transactions job) = Inr (jb_merkle_branch job)"
    "jb_previousblockhash job = hex_encode c prev" "length prev = 32"
    "jb_prevhash job = hex_encode c (reverse_words (rev prev))"
    "target_from_compact (jb_nbits job) = Inr (jb_network_target job)"
    unfolding job_ok_def by blast
  have "length e1' = length e1"
    using decode_length[OF hex e1'] decode_length[OF hex O(5)] n by simp
  then have "length (P @ e1' @ S) + jb_extranonce2_size job < 2 ^ 64"
    "\<forall>x. length x = length e1' + jb_extranonce2_size job \<longrightarrow>
      strip_witness_transaction (P @ x @ S) = Inr (P' @ x @ S')" using O(8,9) by simp_all
  moreover have same: "jb_full_coinbase_prefix job' = jb_full_coinbase_prefix job"
    "jb_full_coinbase_suffix job' = jb_full_coinbase_suffix job" "jb_coinb1 job' = jb_coinb1 job"
    "jb_coinb2 job' = jb_coinb2 job" "jb_extranonce1 job' = extranonce1"
    "jb_extranonce2_size job' = jb_extranonce2_size job" "jb_transactions job' = jb_transactions job"
    "jb_merkle_branch job' = jb_merkle_branch job" "jb_previousblockhash job' = jb_previousblockhash job"
    "jb_prevhash job' = jb_prevhash job" "jb_nbits job' = jb_nbits job"
    "jb_network_target job' = jb_network_target job" by (simp_all add: J)
  ultimately show ?thesis unfolding job_ok_def same using O(1-4,6,7,10-) e1' by blast
qed

lemma issued_ok: "issued c to_f64 job \<Longrightarrow> hex_documented c \<Longrightarrow> job_ok c job"
proof (induction rule: issued.induct)
  case (stamped job clean target difficulty version_mask generation revision expires kind)
  then show ?case by (simp add: job_ok_def)
qed (auto intro: made_ok reassigned_ok)

section \<open>What a submission is assembled into\<close>

text \<open>The coinbase and header of an issued job, its extranonces in place.\<close>

lemma branch_strips:
  assumes "merkle_branch_for_coinbase c txs = Inr branch"
  obtains strips where "try_map strip_witness_transaction txs = Inr strips"
    "branch = branch_loop c (replicate 32 0 # map (double_sha256 c) strips)"
proof -
  from assms obtain ids where
    ids: "try_map (\<lambda>tx. rbind (strip_witness_transaction tx) (\<lambda>s. Inr (double_sha256 c s))) txs = Inr ids" and
    branch: "branch = branch_loop c (replicate 32 0 # ids)" by (auto simp: merkle_branch_for_coinbase_def)
  have "try_map (\<lambda>tx. rbind (strip_witness_transaction tx) (\<lambda>s. Inr (double_sha256 c s))) txs = Inr ids \<Longrightarrow>
      \<exists>strips. try_map strip_witness_transaction txs = Inr strips \<and> ids = map (double_sha256 c) strips" for txs ids
  proof (induction txs arbitrary: ids)
    case (Cons tx txs)
    then show ?case by fastforce
  qed simp
  from this[OF ids] branch show thesis using that by blast
qed

definition header_bytes :: "u32 \<Rightarrow> bytes \<Rightarrow> bytes \<Rightarrow> u32 \<Rightarrow> u32 \<Rightarrow> u32 \<Rightarrow> bytes" where
  "header_bytes version parent merkle ntime nbits nonce = le_bytes 4 (uint version) @ parent @ merkle @
    le_bytes 4 (uint ntime) @ le_bytes 4 (uint nbits) @ le_bytes 4 (uint nonce)"

definition submission_of :: "crypto \<Rightarrow> job \<Rightarrow> bytes \<Rightarrow> bytes \<Rightarrow> string \<Rightarrow> u32 \<Rightarrow> u32 \<Rightarrow> u32 \<Rightarrow> submission" where
  "submission_of c job coinbase header extranonce2 ntime nonce version =
    (let hash = double_sha256 c header; hash_int = from_bytes_le hash;
      block_pass = (hash_int \<le> jb_network_target job);
      block = (if block_pass then header @ write_size (1 + length (jb_transactions job)) @
        coinbase @ concat (jb_transactions job) else []) in
    \<lparr>sb_coinbase_tx_hex = hex_encode c coinbase, sb_header_hex = hex_encode c header,
      sb_block_hex = hex_encode c block, sb_block_hash_hex = hash_display c hash,
      sb_share_pass = (hash_int \<le> jb_share_target job), sb_block_pass = block_pass,
      sb_extranonce2_hex = to_ascii_lowercase extranonce2, sb_ntime = ntime, sb_nonce = nonce,
      sb_applied_version = version\<rparr>)"

lemma assemble_ok:
  assumes hex: "hex_documented c" and hash: "hash_ok c" and ok: "job_ok c job"
    and x2: "decode_hex c extranonce2 = Inr x2" "length x2 = jb_extranonce2_size job"
    and nt: "parse_u32_hex ntime_hex = Inr ntime" "jb_mintime job \<le> ntime"
    and k: "parse_u32_hex nonce_hex = Inr nonce"
    and v: "applied_version (jb_version job) version_mask version_bits = Inr version"
  obtains coinbase preimage strips prev where
    "assemble_submission c job extranonce2 ntime_hex nonce_hex version_bits version_mask = Inr (submission_of c job coinbase
      (header_bytes version (rev prev) (climb_branch c (double_sha256 c preimage) (jb_merkle_branch job))
        ntime (jb_nbits job) nonce) extranonce2 ntime nonce version)"
    "strip_witness_transaction coinbase = Inr preimage"
    "decode_hex c (jb_coinb1 job @ jb_extranonce1 job @ extranonce2 @ jb_coinb2 job) = Inr preimage"
    "decode_hex c (jb_previousblockhash job) = Inr prev" "length prev = 32"
    "try_map strip_witness_transaction (jb_transactions job) = Inr strips"
    "merkle_root c (double_sha256 c preimage # map (double_sha256 c) strips) =
      Some (climb_branch c (double_sha256 c preimage) (jb_merkle_branch job))"
    "length (header_bytes version (rev prev) (climb_branch c (double_sha256 c preimage) (jb_merkle_branch job))
        ntime (jb_nbits job) nonce) = 80"
proof -
  from ok obtain P S P' S' e1 prev where O: "jb_full_coinbase_prefix job = hex_encode c P"
    "jb_full_coinbase_suffix job = hex_encode c S" "jb_coinb1 job = hex_encode c P'" "jb_coinb2 job = hex_encode c S'"
    "decode_hex c (jb_extranonce1 job) = Inr e1"
    "\<forall>x. length x = length e1 + jb_extranonce2_size job \<longrightarrow>
      strip_witness_transaction (P @ x @ S) = Inr (P' @ x @ S')"
    "merkle_branch_for_coinbase c (jb_transactions job) = Inr (jb_merkle_branch job)"
    "jb_previousblockhash job = hex_encode c prev" "length prev = 32"
    unfolding job_ok_def by blast
  let ?coinbase = "P @ e1 @ x2 @ S" and ?preimage = "P' @ e1 @ x2 @ S'"
  note dec = decode_append[OF hex] decode_encode[OF hex]
  have D: "decode_hex c (jb_full_coinbase_prefix job @ jb_extranonce1 job @ extranonce2 @ jb_full_coinbase_suffix job) = Inr ?coinbase"
    "decode_hex c (jb_coinb1 job @ jb_extranonce1 job @ extranonce2 @ jb_coinb2 job) = Inr ?preimage"
    unfolding O(1-4) by (intro dec O(5) x2(1))+
  have "strip_witness_transaction (P @ (e1 @ x2) @ S) = Inr (P' @ (e1 @ x2) @ S')"
    using O(6)[rule_format, of "e1 @ x2"] x2(2) by simp
  then have strip: "strip_witness_transaction ?coinbase = Inr ?preimage" by simp
  from branch_strips[OF O(7)] obtain strips where
    T: "try_map strip_witness_transaction (jb_transactions job) = Inr strips"
    "jb_merkle_branch job = branch_loop c (replicate 32 0 # map (double_sha256 c) strips)" by blast
  let ?root = "climb_branch c (double_sha256 c ?preimage) (jb_merkle_branch job)"
  have root: "merkle_root c (double_sha256 c ?preimage # map (double_sha256 c) strips) = Some ?root"
    unfolding T(2) by (rule climb_root)
  have "\<forall>h\<in>set (double_sha256 c ?preimage # map (double_sha256 c) strips). length h = 32"
    using hash256_length[OF hash] by (auto simp: double_sha256_hash256)
  from merkle_root_length32[OF hash this root] have r32: "length ?root = 32" .
  have prev: "decode_hex c (jb_previousblockhash job) = Inr prev" unfolding O(8) by (rule decode_encode[OF hex])
  let ?header = "header_bytes version (rev prev) ?root ntime (jb_nbits job) nonce"
  have h80: "length ?header = 80" using r32 O(9) by (simp add: header_bytes_def)
  have size: "work_compact_size (1 + word_of_nat (length (jb_transactions job))) = write_size (1 + length (jb_transactions job))"
    by (simp add: work_compact_size_size write_size_def)
  have "length extranonce2 = jb_extranonce2_size job * 2" using decode_length[OF hex x2(1)] x2(2) by simp
  then have "assemble_submission c job extranonce2 ntime_hex nonce_hex version_bits version_mask =
      Inr (submission_of c job ?coinbase ?header extranonce2 ntime nonce version)"
    using h80[unfolded header_bytes_def] nt(2)
    by (simp only: assemble_submission_def submission_of_def ensure_def if_True rbind.simps with_context_def x2(1)
        map_err_simps nt(1) k v D strip prev size Let_def header_bytes_def simp_thms)
  then show thesis using that[OF _ strip D(2) prev O(9) T(1) root h80] by blast
qed

end
