(* ===== verification/Stratum_Miner.thy ===== *)
theory Stratum_Miner
  imports Work_Issued
begin

text \<open>
  The Stratum miner of the repository (\<open>bin/qbit-prism-miner.rs\<close>): the work it reads from a
  \<open>mining.notify\<close>, the header it hashes, one attempt at a nonce, and the order in which a worker
  tries nonces and extranonces.  The rate limit, the sockets and the shutdown flag are not
  modelled; a message is the record of the parameters its accessors return.
\<close>

record work =
  mw_id :: string
  mw_coinb1 :: bytes
  mw_coinb2 :: bytes
  mw_extranonce1 :: bytes
  mw_extranonce2_size :: usize
  mw_branch :: "bytes list"
  mw_previous :: bytes
  mw_version :: u32
  mw_nbits :: u32
  mw_ntime :: u32
  mw_share_target :: nat
  mw_network_target :: nat

definition sibling_of :: "crypto \<Rightarrow> string \<Rightarrow> codec_error + bytes" where
  "sibling_of c v = rbind (decode_hex c v) (\<lambda>bytes.
    if length bytes = 32 then Inr bytes else Inl [''invalid merkle sibling length''])"

definition work_from_notify :: "crypto \<Rightarrow> notify_params \<Rightarrow> bytes \<Rightarrow> usize \<Rightarrow> f64 \<Rightarrow> codec_error + work" where
  "work_from_notify c p extranonce1 extranonce2_size difficulty =
    rbind (decode_hex c (nf_prevhash p)) (\<lambda>previous.
    rbind (ensure (length previous = 32) ''invalid prevhash length'') (\<lambda>_.
    let previous = reverse_words previous in
    rbind (try_map (sibling_of c) (nf_branch p)) (\<lambda>branch.
    rbind (parse_u32_hex (nf_nbits p)) (\<lambda>nbits.
    rbind (decode_hex c (nf_coinb1 p)) (\<lambda>coinb1.
    rbind (decode_hex c (nf_coinb2 p)) (\<lambda>coinb2.
    rbind (parse_u32_hex (nf_version p)) (\<lambda>version.
    rbind (parse_u32_hex (nf_ntime p)) (\<lambda>ntime.
    rbind (difficulty_target difficulty) (\<lambda>share_target.
    rbind (target_from_compact nbits) (\<lambda>network_target.
    Inr \<lparr>mw_id = nf_job_id p, mw_coinb1 = coinb1, mw_coinb2 = coinb2, mw_extranonce1 = extranonce1,
      mw_extranonce2_size = extranonce2_size, mw_branch = branch, mw_previous = previous,
      mw_version = version, mw_nbits = nbits, mw_ntime = ntime, mw_share_target = share_target,
      mw_network_target = network_target\<rparr>))))))))))"

text \<open>The header with a zero nonce, and the extranonce in hex.\<close>

definition extranonce2_bytes :: "usize \<Rightarrow> u64 \<Rightarrow> bytes" where
  "extranonce2_bytes width extra =
    (let used = min width 8 in take used (le_bytes 8 (uint extra)) @ replicate (width - used) 0)"

definition work_header :: "crypto \<Rightarrow> work \<Rightarrow> u64 \<Rightarrow> bytes \<times> string" where
  "work_header c work extra =
    (let extranonce2 = extranonce2_bytes (mw_extranonce2_size work) extra;
      coinbase = mw_coinb1 work @ mw_extranonce1 work @ extranonce2 @ mw_coinb2 work;
      merkle = climb_branch c (double_sha256 c coinbase) (mw_branch work) in
    (le_bytes 4 (uint (mw_version work)) @ mw_previous work @ merkle @ le_bytes 4 (uint (mw_ntime work)) @
      le_bytes 4 (uint (mw_nbits work)) @ replicate 4 0, hex_encode c extranonce2))"

record solution =
  so_job_id :: string
  so_extranonce2 :: string
  so_ntime :: u32
  so_nonce :: u32
  so_block :: "(string \<times> string) option"

text \<open>One pass of the inner loop of \<open>mine\<close>; \<open>any_block\<close> is its \<open>below_floor\<close>.\<close>

definition mine_attempt :: "crypto \<Rightarrow> bool \<Rightarrow> work \<Rightarrow> bytes \<Rightarrow> string \<Rightarrow> u32 \<Rightarrow> solution option" where
  "mine_attempt c any_block work header extranonce2 nonce =
    (let header = take 76 header @ le_bytes 4 (uint nonce) @ drop 80 header;
      digest = double_sha256 c header; hash = from_bytes_le digest;
      block = (hash \<le> mw_network_target work) in
    if hash \<le> mw_share_target work \<or> (any_block \<and> block)
    then Some \<lparr>so_job_id = mw_id work, so_extranonce2 = extranonce2, so_ntime = mw_ntime work, so_nonce = nonce,
      so_block = (if block then Some (hash_display c digest, hash_display c (mw_previous work)) else None)\<rparr>
    else None)"

record miner_state =
  ms_extra :: u64
  ms_nonce :: u32
  ms_header :: bytes
  ms_extranonce2 :: string

definition miner_start :: "crypto \<Rightarrow> work \<Rightarrow> u64 \<Rightarrow> miner_state" where
  "miner_start c work worker = (let (header, extranonce2) = work_header c work worker in
    \<lparr>ms_extra = worker, ms_nonce = 0, ms_header = header, ms_extranonce2 = extranonce2\<rparr>)"

definition miner_step :: "crypto \<Rightarrow> u64 \<Rightarrow> work \<Rightarrow> miner_state \<Rightarrow> miner_state" where
  "miner_step c threads work st = (let nonce = ms_nonce st + 1 in
    if nonce = 0 then let extra = ms_extra st + threads; (header, extranonce2) = work_header c work extra in
      st\<lparr>ms_extra := extra, ms_nonce := nonce, ms_header := header, ms_extranonce2 := extranonce2\<rparr>
    else st\<lparr>ms_nonce := nonce\<rparr>)"

text \<open>The attempts of a worker, in order.\<close>

fun miner_run :: "crypto \<Rightarrow> u64 \<Rightarrow> work \<Rightarrow> nat \<Rightarrow> miner_state \<Rightarrow> miner_state" where
  "miner_run c threads work 0 st = st"
| "miner_run c threads work (Suc n) st = miner_run c threads work n (miner_step c threads work st)"

section \<open>What the miner hashes\<close>

lemma length_extranonce2: "length (extranonce2_bytes width extra) = width"
  by (simp add: extranonce2_bytes_def Let_def)

lemma siblings_decoded:
  "hex_documented c \<Longrightarrow> \<forall>h\<in>set branch. length h = 32 \<Longrightarrow>
    try_map (sibling_of c) (map (hex_encode c) branch) = Inr branch"
  by (induction branch) (auto simp: sibling_of_def decode_encode)

lemma branch_32:
  assumes "hash_ok c" and "merkle_branch_for_coinbase c txs = Inr branch"
  shows "\<forall>h\<in>set branch. length h = 32"
proof -
  from assms(2) obtain strips where
    B: "branch = branch_loop c (replicate 32 0 # map (double_sha256 c) strips)" by (rule branch_strips)
  have "\<forall>h\<in>set (replicate 32 0 # map (double_sha256 c) strips). length h = 32"
    using hash256_length[OF assms(1)] by (auto simp: double_sha256_hash256)
  then show ?thesis unfolding B by (rule branch_length32[OF assms(1)])
qed

text \<open>The work a miner reads from the notification of an issued job.\<close>

lemma notified_work:
  assumes hex: "hex_documented c" and hash: "hash_ok c" and ok: "job_ok c job"
    and e1: "decode_hex c (jb_extranonce1 job) = Inr e1" and d: "difficulty_target difficulty = Inr target"
  obtains coinb1 coinb2 prev where
    "work_from_notify c (job_notify c job) e1 (jb_extranonce2_size job) difficulty = Inr \<lparr>mw_id = jb_job_id job,
      mw_coinb1 = coinb1, mw_coinb2 = coinb2, mw_extranonce1 = e1, mw_extranonce2_size = jb_extranonce2_size job,
      mw_branch = jb_merkle_branch job, mw_previous = rev prev, mw_version = jb_version job,
      mw_nbits = jb_nbits job, mw_ntime = jb_ntime job, mw_share_target = target,
      mw_network_target = jb_network_target job\<rparr>"
    "jb_coinb1 job = hex_encode c coinb1" "jb_coinb2 job = hex_encode c coinb2"
    "jb_previousblockhash job = hex_encode c prev"
proof -
  from ok obtain P S P' S' prev where O: "jb_coinb1 job = hex_encode c P'" "jb_coinb2 job = hex_encode c S'"
    "merkle_branch_for_coinbase c (jb_transactions job) = Inr (jb_merkle_branch job)"
    "jb_previousblockhash job = hex_encode c prev" "length prev = 32"
    "jb_prevhash job = hex_encode c (reverse_words (rev prev))"
    "target_from_compact (jb_nbits job) = Inr (jb_network_target job)"
    unfolding job_ok_def by blast
  have "work_from_notify c (job_notify c job) e1 (jb_extranonce2_size job) difficulty = Inr \<lparr>mw_id = jb_job_id job,
      mw_coinb1 = P', mw_coinb2 = S', mw_extranonce1 = e1, mw_extranonce2_size = jb_extranonce2_size job,
      mw_branch = jb_merkle_branch job, mw_previous = rev prev, mw_version = jb_version job,
      mw_nbits = jb_nbits job, mw_ntime = jb_ntime job, mw_share_target = target,
      mw_network_target = jb_network_target job\<rparr>"
    by (simp add: work_from_notify_def job_notify_def O d decode_encode[OF hex] ensure_def Let_def
        siblings_decoded[OF hex branch_32[OF hash O(3)]] reverse_words_twice)
  then show thesis using O(1,2,4) by (rule that)
qed

text \<open>Its header is the one the server assembles from the solution.\<close>

lemma nonce_in_place:
  "length (header_bytes version parent merkle ntime nbits nonce) = 80 \<Longrightarrow>
    take 76 (le_bytes 4 (uint version) @ parent @ merkle @ le_bytes 4 (uint ntime) @ le_bytes 4 (uint nbits) @ replicate 4 0) @
      le_bytes 4 (uint nonce) @
      drop 80 (le_bytes 4 (uint version) @ parent @ merkle @ le_bytes 4 (uint ntime) @ le_bytes 4 (uint nbits) @ replicate 4 0) =
    header_bytes version parent merkle ntime nbits nonce"
  by (simp add: header_bytes_def)

text \<open>The nonces of a worker: after \<open>n\<close> attempts it is at nonce \<open>n\<close> of its sequence of extranonces.\<close>

lemma miner_run_state:
  assumes "ms_extra st = word_of_nat worker + word_of_nat (k div 2 ^ 32) * threads"
    and "ms_nonce st = word_of_nat k" and "(ms_header st, ms_extranonce2 st) = work_header c work (ms_extra st)"
  shows "ms_extra (miner_run c threads work n st) = word_of_nat worker + word_of_nat ((k + n) div 2 ^ 32) * threads \<and>
    ms_nonce (miner_run c threads work n st) = word_of_nat (k + n) \<and>
    (ms_header (miner_run c threads work n st), ms_extranonce2 (miner_run c threads work n st)) =
      work_header c work (ms_extra (miner_run c threads work n st))"
  using assms
proof (induction n arbitrary: st k)
  case (Suc n)
  have zero: "(word_of_nat k + 1 :: u32) = 0 \<longleftrightarrow> Suc k mod 2 ^ 32 = 0"
  proof -
    have "(word_of_nat k + 1 :: u32) = word_of_nat (Suc k)" by simp
    then show ?thesis by (simp only: word_of_nat_eq_0_iff) (simp add: dvd_eq_mod_eq_0)
  qed
  have "ms_extra (miner_step c threads work st) = word_of_nat worker + word_of_nat (Suc k div 2 ^ 32) * threads \<and>
      ms_nonce (miner_step c threads work st) = word_of_nat (Suc k) \<and>
      (ms_header (miner_step c threads work st), ms_extranonce2 (miner_step c threads work st)) =
        work_header c work (ms_extra (miner_step c threads work st))"
  proof (cases "Suc k mod 2 ^ 32 = 0")
    case True
    then have "Suc k div 2 ^ 32 = k div 2 ^ 32 + 1" by (simp add: div_Suc)
    then show ?thesis using Suc.prems True zero
      by (simp add: miner_step_def Let_def case_prod_unfold algebra_simps)
  next
    case False
    then have "Suc k div 2 ^ 32 = k div 2 ^ 32" by (simp add: div_Suc)
    then show ?thesis using Suc.prems False zero
      by (simp add: miner_step_def Let_def)
  qed
  then show ?case using Suc.IH[of "miner_step c threads work st" "Suc k"] by simp
qed simp

end
