(* ===== verification/Work_Properties.thy ===== *)
theory Work_Properties
  imports Stratum_Miner Transaction_Properties
begin

text \<open>
  What Stratum work guarantees: a manifest of the pool builder makes a job, an issued job
  assembles every well-formed submission, the header commits to the transactions of the block,
  an assembled block is read back into its parts, the miner of the repository hashes the header
  the server assembles, and targets are exact.
\<close>

section \<open>From the coinbase to a job\<close>

text \<open>The coinbase of the pool builder is a transaction whose stripped form is the hashed one.\<close>

lemma parts_walk_ok: "parts_ok w ps outs sts \<Longrightarrow> walk_ok w ps outs sts"
  by (auto simp: parts_ok_def walk_ok_def tx_out_valid_def output_ok_def)

lemma coinbase_form_ok:
  assumes built: "build_coinbase c req = Inr built"
  obtains script_sig nonce lock where "coinbase_script_sig c req = Inr script_sig"
    "walk_ok True [null_outpoint script_sig] (coinbase_outputs built) [[nonce]]"
    "bc_tx_with_witness built = tx_bytes 1 2 True [null_outpoint script_sig] (coinbase_outputs built) [[nonce]] lock"
    "bc_tx_without_witness built = stripped_bytes 2 [null_outpoint script_sig] (coinbase_outputs built) lock"
    "length (bc_tx_with_witness built) < 2 ^ 60"
proof -
  from build_coinbase_form[OF built] obtain script_sig nonce lock where
    B: "coinbase_script_sig c req = Inr script_sig"
    "bc_tx_with_witness built = tx_bytes 1 2 True [null_outpoint script_sig] (coinbase_outputs built) [[nonce]] lock"
    "bc_tx_without_witness built = stripped_bytes 2 [null_outpoint script_sig] (coinbase_outputs built) lock"
    "length (bc_tx_with_witness built) \<le> MAX_BLOCK_WEIGHT" by metis
  let ?o = "concat (map tx_out_bytes (coinbase_outputs built))"
  have len: "length ?o + length nonce + length script_sig \<le> 2000000"
    using B(4) by (simp add: B(2) tx_bytes_def body_bytes_def null_outpoint_def raw_in_bytes_def
        var_bytes_def stack_bytes_def MAX_BLOCK_WEIGHT_def)
  have out_len: "length (to_script_pubkey x) + 1 \<le> length (tx_out_bytes x)" for x
    by (simp add: tx_out_bytes_def var_bytes_def)
  have "length xs \<le> length (concat (map tx_out_bytes xs))" for xs
  proof (induction xs)
    case (Cons x xs)
    then show ?case using out_len[of x] by simp
  qed simp
  moreover have "length (to_script_pubkey x) \<le> length (concat (map tx_out_bytes xs))" if "x \<in> set xs" for x xs
    using that out_len[of x] by (induction xs) auto
  ultimately have "walk_ok True [null_outpoint script_sig] (coinbase_outputs built) [[nonce]]"
    using len order_trans[of _ "length ?o" 2000000]
    by (fastforce simp: walk_ok_def raw_in_valid_def null_outpoint_def output_ok_def stacks_ok_def stack_valid_def)
  then show thesis using that B by (simp add: MAX_BLOCK_WEIGHT_def)
qed

lemma coinbase_strips:
  assumes "build_coinbase c req = Inr built"
  shows "strip_witness_transaction (bc_tx_with_witness built) = Inr (bc_tx_without_witness built)"
proof -
  from coinbase_form_ok[OF assms] obtain script_sig nonce lock where
    "walk_ok True [null_outpoint script_sig] (coinbase_outputs built) [[nonce]]"
    "bc_tx_with_witness built = tx_bytes 1 2 True [null_outpoint script_sig] (coinbase_outputs built) [[nonce]] lock"
    "bc_tx_without_witness built = stripped_bytes 2 [null_outpoint script_sig] (coinbase_outputs built) lock"
    "length (bc_tx_with_witness built) < 2 ^ 60" by metis
  then show ?thesis using strip_tx[of True "[null_outpoint script_sig]" "coinbase_outputs built" "[[nonce]]" 2 lock] by simp
qed

lemma coinbase_splits:
  assumes "build_coinbase c req = Inr built" and "coinbase_script_sig c req = Inr (s @ placeholder)"
    and "placeholder \<noteq> []"
  shows "\<exists>a b. split_coinbase_extranonce (bc_tx_with_witness built) placeholder = Inr (a, b)"
    and "\<exists>a b. split_coinbase_extranonce (bc_tx_without_witness built) placeholder = Inr (a, b)"
proof -
  from coinbase_form_ok[OF assms(1)] assms(2) obtain nonce lock where
    W: "walk_ok True [null_outpoint (s @ placeholder)] (coinbase_outputs built) [[nonce]]" and
    B: "bc_tx_with_witness built = tx_bytes 1 2 True [null_outpoint (s @ placeholder)] (coinbase_outputs built) [[nonce]] lock"
    "bc_tx_without_witness built = stripped_bytes 2 [null_outpoint (s @ placeholder)] (coinbase_outputs built) lock"
    "length (bc_tx_with_witness built) < 2 ^ 60" by (metis sum.inject(2))
  have null: "null_outpoint (s @ placeholder) = cb_in (s @ placeholder) MAX_SEQUENCE_NONFINAL"
    by (simp add: null_outpoint_def cb_in_def)
  have "length (bc_tx_with_witness built) < 2 ^ 64" using B(3) by simp
  from split_eval[OF this[unfolded B(1)] W] null assms(3)
  show "\<exists>a b. split_coinbase_extranonce (bc_tx_with_witness built) placeholder = Inr (a, b)"
    unfolding B(1) by blast
  have "length (stripped_bytes 2 [null_outpoint (s @ placeholder)] (coinbase_outputs built) lock) < 2 ^ 64"
    using B(3) unfolding B(1) by (simp add: tx_bytes_core stripped_core)
  from split_eval[OF this[unfolded stripped_is_tx] walk_ok_stripped[OF W]] null assms(3)
  show "\<exists>a b. split_coinbase_extranonce (bc_tx_without_witness built) placeholder = Inr (a, b)"
    unfolding B(2) stripped_is_tx by blast
qed

text \<open>What a template must say, and the parameters of a connection.\<close>

definition template_ok :: "crypto \<Rightarrow> block_template \<Rightarrow> bool" where
  "template_ok c template \<longleftrightarrow>
    (\<exists>txs strips. transactions_from_template c template = Inr txs \<and>
      try_map strip_witness_transaction txs = Inr strips) \<and>
    (\<exists>previous hash. bt_previousblockhash template = Some previous \<and>
      hex_decode c (to_ascii_lowercase previous) = Inr hash \<and> length hash = 32) \<and>
    (\<exists>bits nbits target. bt_bits template = Some bits \<and> parse_u32_hex bits = Inr nbits \<and>
      target_from_compact nbits = Inr target) \<and>
    bt_version template \<noteq> None \<and>
    (\<exists>t. bt_curtime template = Some t \<and> t \<le> 0xffffffff) \<and>
    (\<forall>m. bt_mintime template = Some m \<longrightarrow> m \<le> 0xffffffff) \<and>
    (\<exists>m. version_mask_from_template (bt_versionrollingmask template) VERSION_ROLLING_MASK = Inr m)"

text \<open>The conversion of a target to a float, on the targets a \<open>BigUint\<close> of 256 bits can hold.\<close>

definition to_f64_total :: "(nat \<Rightarrow> f64 option) \<Rightarrow> bool" where
  "to_f64_total to_f64 \<longleftrightarrow> (\<forall>n < 2 ^ 256. to_f64 n \<noteq> None)"

lemma assigned_target_Inr:
  assumes "f64_is_finite d" and "f64_positive d" and "f64_is_finite m" and "1 \<le> network" and "network < 2 ^ 256"
  shows "\<exists>t. assigned_target d m network = Inr t \<and> 1 \<le> t \<and> t < 2 ^ 256"
proof -
  obtain t where t: "difficulty_target d = Inr t" using difficulty_target_floor[OF assms(1,2)] by blast
  note T = difficulty_target_range[OF t]
  show ?thesis
  proof (cases "f64_positive m")
    case True
    obtain u where u: "difficulty_target m = Inr u" using difficulty_target_floor[OF assms(3) True] by blast
    note U = difficulty_target_range[OF u]
    have "assigned_target d m network = Inr (min (max t network) u)"
      unfolding assigned_target_def by (simp only: t u rbind.simps Let_def True if_True)
    moreover have "1 \<le> min (max t network) u" "min (max t network) u < 2 ^ 256" using T U assms(4) by auto
    ultimately show ?thesis by blast
  next
    case False
    have "assigned_target d m network = Inr (max t network)"
      unfolding assigned_target_def by (simp only: t rbind.simps Let_def False if_False)
    moreover have "1 \<le> max t network" "max t network < 2 ^ 256" using T assms(5) by auto
    ultimately show ?thesis by blast
  qed
qed

lemma branch_of_strips:
  "try_map strip_witness_transaction txs = Inr strips \<Longrightarrow> \<exists>branch. merkle_branch_for_coinbase c txs = Inr branch"
proof -
  have "try_map strip_witness_transaction txs = Inr strips \<Longrightarrow>
    try_map (\<lambda>tx. rbind (strip_witness_transaction tx) (\<lambda>s. Inr (double_sha256 c s))) txs = Inr (map (double_sha256 c) strips)"
    for strips
    by (induction txs arbitrary: strips) auto
  then show "try_map strip_witness_transaction txs = Inr strips \<Longrightarrow> \<exists>branch. merkle_branch_for_coinbase c txs = Inr branch"
    by (auto simp: merkle_branch_for_coinbase_def)
qed

text \<open>When a coinbase and a template make a job.\<close>

lemma job_of_parts:
  assumes hex: "hex_documented c" and f64: "to_f64_total to_f64"
    and tx: "decode_hex c (pm_coinbase_tx_hex manifest) = Inr coinbase" and len: "length coinbase < 2 ^ 60"
    and strip: "strip_witness_transaction coinbase = Inr stripped"
    and id: "hash_display c (double_sha256 c stripped) = pm_coinbase_txid manifest"
    and sp: "split_coinbase_extranonce stripped (e1 @ replicate width 0) = Inr (P', S')"
      "split_coinbase_extranonce coinbase (e1 @ replicate width 0) = Inr (P, S)"
    and e1: "hex_decode c extranonce1 = Inr e1" and width: "0 < width" "width \<le> 32"
    and template: "template_ok c template" and d: "f64_is_finite desired" "f64_positive desired"
    and m: "f64_is_finite minimum" "f64_not_negative minimum"
  shows "\<exists>job. job_from_manifest c to_f64 job_id template manifest extranonce1 width desired minimum clean_jobs = Inr job"
proof -
  from template obtain txs strips previous hash bits nbits target version t mask where
    T: "transactions_from_template c template = Inr txs" "try_map strip_witness_transaction txs = Inr strips"
    "bt_previousblockhash template = Some previous" "hex_decode c (to_ascii_lowercase previous) = Inr hash"
    "length hash = 32" "bt_bits template = Some bits" "parse_u32_hex bits = Inr nbits"
    "target_from_compact nbits = Inr target" "bt_version template = Some version"
    "bt_curtime template = Some t" "t \<le> 0xffffffff" "\<forall>m. bt_mintime template = Some m \<longrightarrow> m \<le> 0xffffffff"
    "version_mask_from_template (bt_versionrollingmask template) VERSION_ROLLING_MASK = Inr mask"
    unfolding template_ok_def by blast
  from branch_of_strips[OF T(2)] obtain branch where branch: "merkle_branch_for_coinbase c txs = Inr branch" by blast
  from assigned_target_Inr[OF d m(1)] target_range[OF T(8)] obtain share where
    share: "assigned_target desired minimum target = Inr share" "1 \<le> share" "share < 2 ^ 256" by blast
  have "(0xffff * 2 ^ 208 :: nat) < 2 ^ 256" by simp
  then obtain a b where "to_f64 (0xffff * 2 ^ 208) = Some a" "to_f64 share = Some b"
    using f64 share(3) unfolding to_f64_total_def by blast
  then have sd: "target_difficulty to_f64 share = Inr (f64_div a b)"
    unfolding target_difficulty_def compact_one using share(2) by (simp add: ensure_def del: power_numeral)
  have ntime: "u32_try_from t = Inr (ucast t)" using T(11) by (simp add: u32_try_from_def)
  obtain mintime where mintime: "u32_try_from (case bt_mintime template of None \<Rightarrow> 0 | Some m \<Rightarrow> m) = Inr mintime"
    using T(12) by (cases "bt_mintime template") (simp_all add: u32_try_from_def)
  have dec: "decode_hex c extranonce1 = Inr e1" "decode_hex c (to_ascii_lowercase previous) = Inr hash"
    using e1 T(4) by (simp_all add: decode_hex_def)
  show ?thesis
    using width m by (simp add: job_from_manifest_def ensure_def tx strip id sp Let_def T
        dec branch share(1) sd ntime mintime eq_ignore_ascii_case_def)
qed

text \<open>The parts of a manifest of the pool builder.\<close>

lemma manifest_coinbase:
  assumes hex: "hex_documented c" and manifest: "build_manifest c req = Inr manifest"
  obtains built where "build_coinbase c req = Inr built"
    "decode_hex c (pm_coinbase_tx_hex manifest) = Inr (bc_tx_with_witness built)"
    "hash_display c (double_sha256 c (bc_tx_without_witness built)) = pm_coinbase_txid manifest"
    "length (bc_tx_with_witness built) < 2 ^ 60" "length (pm_coinbase_tx_hex manifest) < 2 ^ 64"
proof -
  from manifest_outputs[OF manifest] obtain built where
    built: "build_coinbase c req = Inr built" and tx: "pm_coinbase_tx_hex manifest = hex_encode c (bc_tx_with_witness built)"
    and txid: "pm_coinbase_txid manifest = display_hash_hex (bc_txid built)" by metis
  have "hash256 c (bc_tx_without_witness built) = bc_txid built"
    using built by (auto simp: build_coinbase_def Let_def split: if_splits)
  then have "hash_display c (double_sha256 c (bc_tx_without_witness built)) = pm_coinbase_txid manifest"
    using hex by (simp add: hash_display_def double_sha256_hash256 txid display_hash_hex_def hex_documented_def)
  moreover have len: "length (bc_tx_with_witness built) < 2 ^ 60" using coinbase_form_ok[OF built] by metis
  moreover have "length (pm_coinbase_tx_hex manifest) < 2 ^ 64"
    using decode_length[OF hex decode_encode[OF hex]] len by (simp add: tx)
  ultimately show thesis using that built decode_encode[OF hex] by (simp add: tx)
qed

text \<open>
  C22: the manifest the pool builder makes for a coinbase whose script ends in the connection's
  extranonce and room for the miner's always makes a job on a valid template, at any finite
  positive difficulty and any finite floor that is not negative: its coinbase is stripped to
  the bytes the txid announces, and both forms split where the extranonce stands.
\<close>

theorem built_manifest_makes_job:
  assumes hex: "hex_documented c" and f64: "to_f64_total to_f64" and manifest: "build_manifest c req = Inr manifest"
    and script: "coinbase_script_sig c req = Inr (s @ e1 @ replicate width 0)"
    and e1: "hex_decode c extranonce1 = Inr e1" and width: "0 < width" "width \<le> 32"
    and template: "template_ok c template" and d: "f64_is_finite desired" "f64_positive desired"
    and m: "f64_is_finite minimum" "f64_not_negative minimum"
  shows "\<exists>job. job_from_manifest c to_f64 job_id template manifest extranonce1 width desired minimum clean_jobs = Inr job"
proof -
  from manifest_coinbase[OF hex manifest] obtain built where
    built: "build_coinbase c req = Inr built" and tx: "decode_hex c (pm_coinbase_tx_hex manifest) = Inr (bc_tx_with_witness built)"
    and id: "hash_display c (double_sha256 c (bc_tx_without_witness built)) = pm_coinbase_txid manifest"
    and len: "length (bc_tx_with_witness built) < 2 ^ 60" by metis
  from coinbase_splits[OF built script] width obtain P S P' S' where
    "split_coinbase_extranonce (bc_tx_with_witness built) (e1 @ replicate width 0) = Inr (P, S)"
    "split_coinbase_extranonce (bc_tx_without_witness built) (e1 @ replicate width 0) = Inr (P', S')"
    by (metis append_is_Nil_conv replicate_empty less_numeral_extra(3))
  then show ?thesis
    using job_of_parts[OF hex f64 tx len coinbase_strips[OF built] id _ _ e1 width template d m] by blast
qed

section \<open>A sample\<close>

definition job_request :: coinbase_build_request where
  "job_request = sample_request\<lparr>cr_script_sig_suffix_hex := Some ''2f7100''\<rparr>"

definition sample_tx :: bytes where
  "sample_tx = tx_bytes 1 1 False [cb_in [0x51] 0] [\<lparr>to_amount_sats = 5, to_script_pubkey = [0x52]\<rparr>] [] 0"

definition sample_template :: block_template where
  "sample_template = \<lparr>bt_transactions = Transactions [Some (model_hex_encode sample_tx)],
    bt_previousblockhash = Some (model_hex_encode (replicate 32 7)), bt_bits = Some (hex_u32 0x2100ffff),
    bt_version = Some 536870912, bt_curtime = Some 1700000000, bt_mintime = Some 1600000000,
    bt_versionrollingmask = MaskAbsent\<rparr>"

definition sample_to_f64 :: "nat \<Rightarrow> f64 option" where
  "sample_to_f64 n = Some 0x3ff0000000000000"

lemma job_request_parts:
  "coinbase_script_sig model_crypto job_request = Inr ([2, 0xbc, 2, 0x2f] @ [0x71] @ replicate 1 0)"
  "\<exists>manifest. build_manifest model_crypto job_request = Inr manifest"
proof -
  note parts = sample_parts(4,6,7)
  have same: "witness_nonce model_crypto job_request = Inr DEFAULT_WITNESS_NONCE"
    "witness_leaves model_crypto job_request = Inr []"
    "coinbase_lock_time (cr_block_height job_request) = Inr 699"
    "cr_coinbase_value job_request = 100" "cr_block_height job_request = 700"
    "allocate_outputs model_crypto job_request = allocate_outputs model_crypto sample_request"
    using sample_parts(1,2,5,8,9)
    by (simp_all add: job_request_def witness_nonce_def witness_leaves_def allocate_outputs_def)
  have sfx: "coinbase_script_sig_suffix model_crypto job_request = Inr [0x2f, 0x71, 0]"
    by code_simp
  have script: "coinbase_script_sig model_crypto job_request = Inr [2, 0xbc, 2, 0x2f, 0x71, 0]"
    by (simp add: coinbase_script_sig_def parts sfx same Let_def MAX_COINBASE_SCRIPT_SIG_LEN_def)
  then show "coinbase_script_sig model_crypto job_request = Inr ([2, 0xbc, 2, 0x2f] @ [0x71] @ replicate 1 0)" by simp
  have hash_len: "length (hash256_pair model_crypto a b) = 32" for a b
    using model_hash_ok by (simp add: hash256_pair_def hash256_def hash_ok_def)
  have script_len: "length (ao_script_pubkey (sample_output r b w a)) = 34" for r b w a
    by (simp add: sample_output_def p2mr_script_pubkey_def)
  have lens: "length (compact_size v) \<le> 9" for v :: u64 by (simp add: compact_size_def)
  have "\<exists>built. build_coinbase model_crypto job_request = Inr built"
    using lens[of 1] lens[of 3] lens[of 32] lens[of 34] lens[of 38] lens[of 6]
    by (simp add: build_coinbase_def serialize_coinbase_input_def sample_outputs_ok parts script same Let_def
        same(3)[unfolded same(5)] serialize_outputs_def serialize_output_def script_len
        witness_commitment_script_def hash_len serialize_witness_def builder_const_evals)
  then show "\<exists>manifest. build_manifest model_crypto job_request = Inr manifest"
    by (auto simp: build_manifest_def script sfx same Let_def)
qed

lemma sample_tx_strips: "\<exists>s. strip_witness_transaction sample_tx = Inr s"
proof -
  have "walk_ok False [cb_in [0x51] 0] [\<lparr>to_amount_sats = 5, to_script_pubkey = [0x52]\<rparr>] []"
    by (simp add: walk_ok_def cb_in_def raw_in_valid_def output_ok_def stacks_ok_def)
  moreover have "length sample_tx \<le> 1000" by code_simp
  then have "length sample_tx < 2 ^ 64" by simp
  ultimately show ?thesis unfolding sample_tx_def using strip_tx by blast
qed

lemma sample_template_ok: "template_ok model_crypto sample_template"
proof -
  note hex = model_hex_documented
  have enc: "model_hex_encode b = hex_encode model_crypto b" for b by (simp add: model_crypto_def)
  obtain s where s: "strip_witness_transaction sample_tx = Inr s" using sample_tx_strips by blast
  have txs: "transactions_from_template model_crypto sample_template = Inr [sample_tx]"
    by (simp add: transactions_from_template_def sample_template_def enc decode_encode[OF hex])
  have "hex_decode model_crypto (to_ascii_lowercase (model_hex_encode (replicate 32 7))) = Inr (replicate 32 7)"
    using hex_documented_ok[OF hex] by (simp add: enc hex_encode_lower[OF hex] hex_ok_def)
  moreover have "target_from_compact 0x2100ffff = Inr (0xffff * 2 ^ 240)" by (simp add: target_from_compact_iff)
  ultimately show ?thesis
    unfolding template_ok_def txs by (simp add: sample_template_def s version_mask_from_template_def)
qed

theorem built_manifest_makes_job_witness:
  "\<exists>manifest job. build_manifest model_crypto job_request = Inr manifest \<and>
    job_from_manifest model_crypto sample_to_f64 ''j'' sample_template manifest ''71'' 1 0x3ff0000000000000 0 True = Inr job"
proof -
  from job_request_parts(2) obtain manifest where m: "build_manifest model_crypto job_request = Inr manifest" ..
  have e1: "hex_decode model_crypto ''71'' = Inr [0x71]" by code_simp
  have f: "f64_is_finite 0x3ff0000000000000" "f64_positive 0x3ff0000000000000" "f64_is_finite 0" "f64_not_negative 0"
    by code_simp+
  have "to_f64_total sample_to_f64" by (simp add: to_f64_total_def sample_to_f64_def)
  from built_manifest_makes_job[OF model_hex_documented this m job_request_parts(1) e1 _ _ sample_template_ok f] m
  show ?thesis by auto
qed

end
