(* ===== verification/Stratum_Properties.thy ===== *)
theory Stratum_Properties
  imports Work_Properties
begin

text \<open>
  What issued Stratum work guarantees: every well-formed submission is assembled, its header
  commits to the block's transactions, an assembled block is read back, the miner of the
  repository finds what the server accepts, and targets are exact.
\<close>

section \<open>Submissions of issued jobs\<close>

lemma assemble_checks:
  assumes "assemble_submission c job extranonce2 ntime_hex nonce_hex version_bits version_mask = Inr s"
  obtains x t k v where "decode_hex c extranonce2 = Inr x" "length extranonce2 = jb_extranonce2_size job * 2"
    "parse_u32_hex ntime_hex = Inr t" "jb_mintime job \<le> t" "parse_u32_hex nonce_hex = Inr k"
    "applied_version (jb_version job) version_mask version_bits = Inr v"
  using assms unfolding assemble_submission_def Let_def ensure_def with_context_def rbind_Inr if_Inl_Inr map_err_Inr
  by (elim exE conjE) (rule that; assumption)

lemma issued_assembles:
  assumes hex: "hex_documented c" and hash: "hash_ok c" and issued: "issued c to_f64 job"
    and x: "decode_hex c extranonce2 = Inr x" "length extranonce2 = jb_extranonce2_size job * 2"
    and checks: "parse_u32_hex ntime_hex = Inr t" "jb_mintime job \<le> t" "parse_u32_hex nonce_hex = Inr k"
      "applied_version (jb_version job) version_mask version_bits = Inr v"
  shows "\<exists>s. assemble_submission c job extranonce2 ntime_hex nonce_hex version_bits version_mask = Inr s"
proof -
  have "length x = jb_extranonce2_size job" using decode_length[OF hex x(1)] x(2) by simp
  from assemble_ok[OF hex hash issued_ok[OF issued hex] x(1) this checks] show ?thesis by metis
qed

text \<open>
  C24: a job the server issued assembles a submission exactly when the fields of the submission
  are well formed: the second extranonce has the announced size in hex, the time is not
  before the template's minimum, the nonce and the version bits parse and the bits are within
  the negotiated mask.  The consistency checks of the coinbase and of the header size never
  fail, however often the job was reassigned.
\<close>

theorem issued_job_assembles:
  assumes hex: "hex_documented c" and hash: "hash_ok c" and issued: "issued c to_f64 job"
  shows "(\<exists>s. assemble_submission c job extranonce2 ntime_hex nonce_hex version_bits version_mask = Inr s) \<longleftrightarrow>
    length extranonce2 = jb_extranonce2_size job * 2 \<and> (\<exists>x. hex_decode c extranonce2 = Inr x) \<and>
    (\<exists>t. parse_u32_hex ntime_hex = Inr t \<and> jb_mintime job \<le> t) \<and> (\<exists>k. parse_u32_hex nonce_hex = Inr k) \<and>
    (\<exists>v. applied_version (jb_version job) version_mask version_bits = Inr v)"
    (is "?assembled \<longleftrightarrow> ?checks")
proof
  assume ?assembled
  then show ?checks by (elim exE assemble_checks) (auto simp: decode_hex_def)
next
  assume ?checks
  then show ?assembled using issued_assembles[OF assms] by (auto simp: decode_hex_def)
qed

lemma assembled_parts:
  assumes hex: "hex_documented c" and hash: "hash_ok c" and issued: "issued c to_f64 job"
    and s: "assemble_submission c job extranonce2 ntime_hex nonce_hex version_bits version_mask = Inr s"
  obtains coinbase stripped strips prev merkle where
    "s = submission_of c job coinbase (header_bytes (sb_applied_version s) (rev prev) merkle (sb_ntime s)
      (jb_nbits job) (sb_nonce s)) extranonce2 (sb_ntime s) (sb_nonce s) (sb_applied_version s)"
    "strip_witness_transaction coinbase = Inr stripped"
    "decode_hex c (jb_coinb1 job @ jb_extranonce1 job @ extranonce2 @ jb_coinb2 job) = Inr stripped"
    "try_map strip_witness_transaction (jb_transactions job) = Inr strips"
    "merkle_root c (map (double_sha256 c) (stripped # strips)) = Some merkle"
    "merkle = climb_branch c (double_sha256 c stripped) (jb_merkle_branch job)"
    "decode_hex c (jb_previousblockhash job) = Inr prev"
    "length (header_bytes (sb_applied_version s) (rev prev) merkle (sb_ntime s) (jb_nbits job) (sb_nonce s)) = 80"
    "applied_version (jb_version job) version_mask version_bits = Inr (sb_applied_version s)"
    "parse_u32_hex ntime_hex = Inr (sb_ntime s)" "parse_u32_hex nonce_hex = Inr (sb_nonce s)"
proof -
  from assemble_checks[OF s] obtain x t k v where X: "decode_hex c extranonce2 = Inr x"
    "length extranonce2 = jb_extranonce2_size job * 2"
    "parse_u32_hex ntime_hex = Inr t" "jb_mintime job \<le> t" "parse_u32_hex nonce_hex = Inr k"
    "applied_version (jb_version job) version_mask version_bits = Inr v" by metis
  then have "length x = jb_extranonce2_size job" using decode_length[OF hex X(1)] by simp
  from assemble_ok[OF hex hash issued_ok[OF issued hex] X(1) this X(3,4,5,6)]
  obtain coinbase preimage strips prev where
    E: "assemble_submission c job extranonce2 ntime_hex nonce_hex version_bits version_mask = Inr (submission_of c job coinbase
      (header_bytes v (rev prev) (climb_branch c (double_sha256 c preimage) (jb_merkle_branch job))
        t (jb_nbits job) k) extranonce2 t k v)" and
    A: "strip_witness_transaction coinbase = Inr preimage"
    "decode_hex c (jb_coinb1 job @ jb_extranonce1 job @ extranonce2 @ jb_coinb2 job) = Inr preimage"
    "decode_hex c (jb_previousblockhash job) = Inr prev" "length prev = 32"
    "try_map strip_witness_transaction (jb_transactions job) = Inr strips"
    "merkle_root c (double_sha256 c preimage # map (double_sha256 c) strips) =
      Some (climb_branch c (double_sha256 c preimage) (jb_merkle_branch job))"
    "length (header_bytes v (rev prev) (climb_branch c (double_sha256 c preimage) (jb_merkle_branch job))
        t (jb_nbits job) k) = 80" .
  from s E have S: "s = submission_of c job coinbase
      (header_bytes v (rev prev) (climb_branch c (double_sha256 c preimage) (jb_merkle_branch job))
        t (jb_nbits job) k) extranonce2 t k v" by (simp only: sum.inject)
  have f: "sb_applied_version s = v" "sb_ntime s = t" "sb_nonce s = k"
    unfolding S submission_of_def Let_def by simp_all
  have root: "merkle_root c (map (double_sha256 c) (preimage # strips)) =
      Some (climb_branch c (double_sha256 c preimage) (jb_merkle_branch job))" using A(6) by (simp only: list.map)
  show thesis
    by (rule that[unfolded f, OF S A(1,2,5) root refl A(3,7) X(6,3,5)])
qed

lemma submission_fields:
  assumes "s = submission_of c job coinbase header extranonce2 ntime nonce version"
  shows "sb_coinbase_tx_hex s = hex_encode c coinbase" "sb_header_hex s = hex_encode c header"
    "sb_block_hash_hex s = hash_display c (double_sha256 c header)"
    "sb_share_pass s \<longleftrightarrow> from_bytes_le (double_sha256 c header) \<le> jb_share_target job"
    "sb_block_pass s \<longleftrightarrow> from_bytes_le (double_sha256 c header) \<le> jb_network_target job"
    "sb_block_hex s = hex_encode c (if from_bytes_le (double_sha256 c header) \<le> jb_network_target job
      then header @ write_size (length (coinbase # jb_transactions job)) @ concat (coinbase # jb_transactions job) else [])"
  unfolding assms submission_of_def Let_def by simp_all

lemma assembled_coinbase:
  assumes "assemble_submission c job extranonce2 ntime_hex nonce_hex version_bits version_mask = Inr s"
  obtains coinbase where "sb_coinbase_tx_hex s = hex_encode c coinbase" "decode_hex c (jb_full_coinbase_prefix job @
      jb_extranonce1 job @ extranonce2 @ jb_full_coinbase_suffix job) = Inr coinbase"
  using assms unfolding assemble_submission_def Let_def rbind_Inr sum.inject
  by (elim exE conjE) (hypsubst, rule that; simp)

lemma applied_within_mask:
  "applied_version version version_mask bits = Inr v \<Longrightarrow> v AND NOT version_mask = version AND NOT version_mask"
  by (cases bits) (auto simp: applied_version_def ensure_def bit.conj_disj_distrib2 split: if_splits)

text \<open>
  C13: the header of a submission commits to the block the server would submit: its merkle root
  is the root over the txids of the assembled coinbase and of the template's transactions, its
  parent the template's previous block, and its version differs from the template's within the
  negotiated mask only.  The reported hash is the hash of exactly these 80 bytes, and the share
  and block flags compare it with the two targets of the job.
\<close>

theorem submission_header_exact:
  assumes hex: "hex_documented c" and hash: "hash_ok c" and issued: "issued c to_f64 job"
    and s: "assemble_submission c job extranonce2 ntime_hex nonce_hex version_bits version_mask = Inr s"
  shows "\<exists>coinbase stripped strips merkle prev header. sb_coinbase_tx_hex s = hex_encode c coinbase \<and>
    strip_witness_transaction coinbase = Inr stripped \<and>
    try_map strip_witness_transaction (jb_transactions job) = Inr strips \<and>
    merkle_root c (map (double_sha256 c) (stripped # strips)) = Some merkle \<and>
    decode_hex c (jb_previousblockhash job) = Inr prev \<and>
    header = header_bytes (sb_applied_version s) (rev prev) merkle (sb_ntime s) (jb_nbits job) (sb_nonce s) \<and>
    length header = 80 \<and> sb_header_hex s = hex_encode c header \<and>
    sb_block_hash_hex s = hash_display c (double_sha256 c header) \<and>
    (sb_share_pass s \<longleftrightarrow> from_bytes_le (double_sha256 c header) \<le> jb_share_target job) \<and>
    (sb_block_pass s \<longleftrightarrow> from_bytes_le (double_sha256 c header) \<le> jb_network_target job) \<and>
    sb_applied_version s AND NOT version_mask = jb_version job AND NOT version_mask"
proof -
  from assembled_parts[OF hex hash issued s] obtain coinbase stripped strips prev merkle where
    S: "s = submission_of c job coinbase (header_bytes (sb_applied_version s) (rev prev) merkle (sb_ntime s)
      (jb_nbits job) (sb_nonce s)) extranonce2 (sb_ntime s) (sb_nonce s) (sb_applied_version s)" and
    A: "strip_witness_transaction coinbase = Inr stripped"
    "decode_hex c (jb_coinb1 job @ jb_extranonce1 job @ extranonce2 @ jb_coinb2 job) = Inr stripped"
    "try_map strip_witness_transaction (jb_transactions job) = Inr strips"
    "merkle_root c (map (double_sha256 c) (stripped # strips)) = Some merkle"
    "merkle = climb_branch c (double_sha256 c stripped) (jb_merkle_branch job)"
    "decode_hex c (jb_previousblockhash job) = Inr prev"
    "length (header_bytes (sb_applied_version s) (rev prev) merkle (sb_ntime s) (jb_nbits job) (sb_nonce s)) = 80"
    "applied_version (jb_version job) version_mask version_bits = Inr (sb_applied_version s)"
    "parse_u32_hex ntime_hex = Inr (sb_ntime s)" "parse_u32_hex nonce_hex = Inr (sb_nonce s)" .
  let ?header = "header_bytes (sb_applied_version s) (rev prev) merkle (sb_ntime s) (jb_nbits job) (sb_nonce s)"
  have F: "sb_coinbase_tx_hex s = hex_encode c coinbase" "sb_header_hex s = hex_encode c ?header"
    "sb_block_hash_hex s = hash_display c (double_sha256 c ?header)"
    "sb_share_pass s \<longleftrightarrow> from_bytes_le (double_sha256 c ?header) \<le> jb_share_target job"
    "sb_block_pass s \<longleftrightarrow> from_bytes_le (double_sha256 c ?header) \<le> jb_network_target job"
    by (rule submission_fields[OF S])+
  show ?thesis
    by (intro exI[of _ coinbase] exI[of _ stripped] exI[of _ strips] exI[of _ merkle] exI[of _ prev] exI[of _ ?header]
      conjI refl F A(1,3,4,6,7) applied_within_mask[OF A(8)])
qed

text \<open>
  C23: a block the server assembles from a passing submission is read back by its own parser: the
  coinbase it takes from the block is the submission's, and the witness leaves it takes are
  those of the template's transactions.
\<close>

theorem assembled_block_reads_back:
  assumes hex: "hex_documented c" and hash: "hash_ok c" and issued: "issued c to_f64 job"
    and s: "assemble_submission c job extranonce2 ntime_hex nonce_hex version_bits version_mask = Inr s"
    and pass: "sb_block_pass s" and len: "length (sb_block_hex s) < 2 ^ 64"
  shows "\<exists>block coinbase. decode_hex c (sb_block_hex s) = Inr block \<and>
    coinbase_from_block block = Inr coinbase \<and> hex_encode c coinbase = sb_coinbase_tx_hex s \<and>
    witness_merkle_leaves_from_block c block = Inr (witness_merkle_leaves_hex c (jb_transactions job))"
proof -
  from assembled_parts[OF hex hash issued s] obtain coinbase stripped strips prev merkle where
    S: "s = submission_of c job coinbase (header_bytes (sb_applied_version s) (rev prev) merkle (sb_ntime s)
      (jb_nbits job) (sb_nonce s)) extranonce2 (sb_ntime s) (sb_nonce s) (sb_applied_version s)" and
    A: "strip_witness_transaction coinbase = Inr stripped"
    "try_map strip_witness_transaction (jb_transactions job) = Inr strips"
    "length (header_bytes (sb_applied_version s) (rev prev) merkle (sb_ntime s) (jb_nbits job) (sb_nonce s)) = 80"
    by metis
  let ?header = "header_bytes (sb_applied_version s) (rev prev) merkle (sb_ntime s) (jb_nbits job) (sb_nonce s)"
  let ?txs = "coinbase # jb_transactions job"
  let ?block = "?header @ write_size (length ?txs) @ concat ?txs"
  note F = submission_fields[OF S]
  have block: "sb_block_hex s = hex_encode c ?block" using F(6) pass[unfolded F(5)] by (simp only: if_True)
  have dec: "decode_hex c (sb_block_hex s) = Inr ?block" unfolding block by (rule decode_encode[OF hex])
  then have len': "length ?block < 2 ^ 64" using decode_length[OF hex dec] len by linarith
  have strips: "\<forall>tx\<in>set ?txs. \<exists>s. strip_witness_transaction tx = Inr s"
    using A(1,2) by (auto simp: try_map_Inr list_all2_conv_all_nth in_set_conv_nth)
  have "coinbase_from_block ?block = Inr coinbase"
    "witness_merkle_leaves_from_block c ?block = Inr (witness_merkle_leaves_hex c (jb_transactions job))"
    using block_read_back[OF len' A(3) _ strips] by simp_all
  then show ?thesis using dec F(1) by metis
qed

section \<open>The miner and the server\<close>

text \<open>What one attempt of the miner is, in terms of the submission the server assembles from it.\<close>

lemma attempt_assembles:
  assumes hex: "hex_documented c" and hash: "hash_ok c" and ok: "job_ok c job"
    and e1: "decode_hex c (jb_extranonce1 job) = Inr e1" and d: "difficulty_target difficulty = Inr target"
    and time: "jb_mintime job \<le> jb_ntime job"
    and work: "work_from_notify c (job_notify c job) e1 (jb_extranonce2_size job) difficulty = Inr work"
    and header: "work_header c work extra = (header, extranonce2)"
  obtains s where "assemble_submission c job extranonce2 (hex_u32 (jb_ntime job)) (hex_u32 nonce) None version_mask = Inr s"
    "mine_attempt c any_block work header extranonce2 nonce =
      (if from_bytes_le (double_sha256 c (take 76 header @ le_bytes 4 (uint nonce) @ drop 80 header)) \<le> target \<or>
        any_block \<and> sb_block_pass s
      then Some \<lparr>so_job_id = jb_job_id job, so_extranonce2 = extranonce2, so_ntime = jb_ntime job, so_nonce = nonce,
        so_block = (if sb_block_pass s then Some (sb_block_hash_hex s, jb_previousblockhash job) else None)\<rparr>
      else None)"
    "sb_share_pass s \<longleftrightarrow>
      from_bytes_le (double_sha256 c (take 76 header @ le_bytes 4 (uint nonce) @ drop 80 header)) \<le> jb_share_target job"
    "sb_header_hex s = hex_encode c (take 76 header @ le_bytes 4 (uint nonce) @ drop 80 header)"
proof -
  from notified_work[OF hex hash ok e1 d] obtain coinb1 coinb2 prev where
    E: "work_from_notify c (job_notify c job) e1 (jb_extranonce2_size job) difficulty = Inr \<lparr>mw_id = jb_job_id job,
      mw_coinb1 = coinb1, mw_coinb2 = coinb2, mw_extranonce1 = e1, mw_extranonce2_size = jb_extranonce2_size job,
      mw_branch = jb_merkle_branch job, mw_previous = rev prev, mw_version = jb_version job,
      mw_nbits = jb_nbits job, mw_ntime = jb_ntime job, mw_share_target = target,
      mw_network_target = jb_network_target job\<rparr>" and
    N: "jb_coinb1 job = hex_encode c coinb1" "jb_coinb2 job = hex_encode c coinb2"
    "jb_previousblockhash job = hex_encode c prev" .
  from work E have W: "work = \<lparr>mw_id = jb_job_id job,
      mw_coinb1 = coinb1, mw_coinb2 = coinb2, mw_extranonce1 = e1, mw_extranonce2_size = jb_extranonce2_size job,
      mw_branch = jb_merkle_branch job, mw_previous = rev prev, mw_version = jb_version job,
      mw_nbits = jb_nbits job, mw_ntime = jb_ntime job, mw_share_target = target,
      mw_network_target = jb_network_target job\<rparr>" by (simp only: sum.inject)
  let ?x2 = "extranonce2_bytes (jb_extranonce2_size job) extra"
  let ?p = "coinb1 @ e1 @ ?x2 @ coinb2"
  have H: "extranonce2 = hex_encode c ?x2" "header = le_bytes 4 (uint (jb_version job)) @ rev prev @
      climb_branch c (double_sha256 c ?p) (jb_merkle_branch job) @ le_bytes 4 (uint (jb_ntime job)) @
      le_bytes 4 (uint (jb_nbits job)) @ replicate 4 0"
    using header by (simp_all add: work_header_def Let_def W)
  have x2: "decode_hex c extranonce2 = Inr ?x2" unfolding H(1) by (rule decode_encode[OF hex])
  have v: "applied_version (jb_version job) version_mask None = Inr (jb_version job)" by (simp add: applied_version_def)
  from assemble_ok[OF hex hash ok x2 length_extranonce2 parse_u32_hex_u32 time parse_u32_hex_u32 v]
  obtain coinbase preimage strips prev' where
    S: "assemble_submission c job extranonce2 (hex_u32 (jb_ntime job)) (hex_u32 nonce) None version_mask =
      Inr (submission_of c job coinbase
        (header_bytes (jb_version job) (rev prev') (climb_branch c (double_sha256 c preimage) (jb_merkle_branch job))
          (jb_ntime job) (jb_nbits job) nonce) extranonce2 (jb_ntime job) nonce (jb_version job))" and
    A: "decode_hex c (jb_coinb1 job @ jb_extranonce1 job @ extranonce2 @ jb_coinb2 job) = Inr preimage"
    "decode_hex c (jb_previousblockhash job) = Inr prev'"
    "length (header_bytes (jb_version job) (rev prev') (climb_branch c (double_sha256 c preimage) (jb_merkle_branch job))
        (jb_ntime job) (jb_nbits job) nonce) = 80" by metis
  note dec = decode_append[OF hex] decode_encode[OF hex]
  have "decode_hex c (jb_coinb1 job @ jb_extranonce1 job @ extranonce2 @ jb_coinb2 job) = Inr ?p"
    unfolding N(1,2) by (intro dec e1 x2)
  with A(1) have p: "preimage = ?p" by (simp only: sum.inject)
  have prev: "prev' = prev" using A(2) decode_encode[OF hex, of prev] by (simp only: N(3) sum.inject)
  define h where "h = header_bytes (jb_version job) (rev prev)
    (climb_branch c (double_sha256 c ?p) (jb_merkle_branch job)) (jb_ntime job) (jb_nbits job) nonce"
  have put: "take 76 header @ le_bytes 4 (uint nonce) @ drop 80 header = h"
    unfolding h_def H(2) by (rule nonce_in_place[OF A(3)[unfolded p prev]])
  note F = submission_fields[OF refl, of c job coinbase h extranonce2 "jb_ntime job" nonce "jb_version job"]
  show thesis
  proof (rule that[OF S[unfolded p prev, folded h_def]])
    show "mine_attempt c any_block work header extranonce2 nonce =
      (if from_bytes_le (double_sha256 c (take 76 header @ le_bytes 4 (uint nonce) @ drop 80 header)) \<le> target \<or>
        any_block \<and> sb_block_pass (submission_of c job coinbase h extranonce2 (jb_ntime job) nonce (jb_version job))
      then Some \<lparr>so_job_id = jb_job_id job, so_extranonce2 = extranonce2, so_ntime = jb_ntime job, so_nonce = nonce,
        so_block = (if sb_block_pass (submission_of c job coinbase h extranonce2 (jb_ntime job) nonce (jb_version job))
          then Some (sb_block_hash_hex (submission_of c job coinbase h extranonce2 (jb_ntime job) nonce (jb_version job)),
            jb_previousblockhash job) else None)\<rparr>
      else None)"
      unfolding mine_attempt_def Let_def put F by (simp add: W N(3) hash_display_def)
  qed (simp_all only: put F)
qed

text \<open>
  C12: the miner of the repository and the server agree on every attempt.  On the notification of
  an issued job whose time is not before its minimum, the submission made of the miner's
  extranonce, time and nonce always assembles.  When the miner reports a solution it names that
  submission, with the hash and parent the server computes exactly when the server takes it for
  a block; when its target is within the job's the server counts the share.  When it reports
  nothing, the server would have taken neither a share at its target nor, with blocks below the
  floor enabled, a block.
\<close>

theorem miner_agrees_with_server:
  assumes hex: "hex_documented c" and hash: "hash_ok c" and issued: "issued c to_f64 job"
    and e1: "decode_hex c (jb_extranonce1 job) = Inr e1" and d: "difficulty_target difficulty = Inr target"
    and time: "jb_mintime job \<le> jb_ntime job"
    and work: "work_from_notify c (job_notify c job) e1 (jb_extranonce2_size job) difficulty = Inr work"
    and header: "work_header c work extra = (header, extranonce2)"
  shows "\<exists>s. assemble_submission c job extranonce2 (hex_u32 (jb_ntime job)) (hex_u32 nonce) None version_mask = Inr s \<and>
    (case mine_attempt c any_block work header extranonce2 nonce of
      None \<Rightarrow> (jb_share_target job \<le> target \<longrightarrow> \<not> sb_share_pass s) \<and> (any_block \<longrightarrow> \<not> sb_block_pass s)
    | Some found \<Rightarrow> found = \<lparr>so_job_id = jb_job_id job, so_extranonce2 = extranonce2, so_ntime = jb_ntime job,
        so_nonce = nonce,
        so_block = (if sb_block_pass s then Some (sb_block_hash_hex s, jb_previousblockhash job) else None)\<rparr> \<and>
      (target \<le> jb_share_target job \<longrightarrow> sb_share_pass s \<or> any_block \<and> sb_block_pass s))"
proof -
  from attempt_assembles[OF hex hash issued_ok[OF issued hex] e1 d time work header] obtain s where
    S: "assemble_submission c job extranonce2 (hex_u32 (jb_ntime job)) (hex_u32 nonce) None version_mask = Inr s" and
    A: "mine_attempt c any_block work header extranonce2 nonce =
      (if from_bytes_le (double_sha256 c (take 76 header @ le_bytes 4 (uint nonce) @ drop 80 header)) \<le> target \<or>
        any_block \<and> sb_block_pass s
      then Some \<lparr>so_job_id = jb_job_id job, so_extranonce2 = extranonce2, so_ntime = jb_ntime job, so_nonce = nonce,
        so_block = (if sb_block_pass s then Some (sb_block_hash_hex s, jb_previousblockhash job) else None)\<rparr>
      else None)"
    "sb_share_pass s \<longleftrightarrow>
      from_bytes_le (double_sha256 c (take 76 header @ le_bytes 4 (uint nonce) @ drop 80 header)) \<le> jb_share_target job"
    by metis
  show ?thesis
    by (intro exI[of _ s] conjI[OF S]) (unfold A, auto)
qed

text \<open>The extranonce of an attempt, and the numbers it can hold.\<close>

lemma take_le_bytes: "n \<le> k \<Longrightarrow> take n (le_bytes k x) = le_bytes n x"
proof (induction k arbitrary: n x)
  case (Suc k)
  then show ?case by (cases n) auto
qed simp

lemma extranonce2_number:
  assumes "k < 256 ^ min width 8"
  shows "le_value (take (min width 8) (extranonce2_bytes width (word_of_nat k))) = int k"
proof -
  have "(256 :: nat) ^ min width 8 \<le> 256 ^ 8" by (rule power_increasing) simp_all
  then have "k < 2 ^ 64" using assms by simp
  then have "uint (word_of_nat k :: u64) = int k" by (simp add: unsigned_of_nat take_bit_nat_eq_self)
  moreover have "int k mod 256 ^ min width 8 = int k" using assms by (simp flip: of_nat_power add: of_nat_less_iff)
  ultimately show ?thesis
    by (simp add: extranonce2_bytes_def Let_def take_le_bytes le_value_le_bytes)
qed

text \<open>Where worker \<open>i\<close> of \<open>threads\<close> stands after \<open>n\<close> attempts.\<close>

lemma worker_after:
  fixes work :: work and threads :: nat and c :: crypto
  defines "st \<equiv> \<lambda>i n. miner_run c (word_of_nat threads) work n (miner_start c work (word_of_nat i))"
  shows "ms_nonce (st i n) = word_of_nat n"
    and "ms_extranonce2 (st i n) =
      hex_encode c (extranonce2_bytes (mw_extranonce2_size work) (word_of_nat (i + n div 2 ^ 32 * threads)))"
proof -
  have "ms_extra (st i n) = word_of_nat i + word_of_nat ((0 + n) div 2 ^ 32) * word_of_nat threads \<and>
    ms_nonce (st i n) = word_of_nat (0 + n) \<and>
    (ms_header (st i n), ms_extranonce2 (st i n)) = work_header c work (ms_extra (st i n))"
    unfolding st_def by (rule miner_run_state) (simp_all add: miner_start_def case_prod_unfold Let_def)
  then have A: "ms_nonce (st i n) = word_of_nat n" "ms_extra (st i n) = word_of_nat (i + n div 2 ^ 32 * threads)"
    "ms_extranonce2 (st i n) = snd (work_header c work (ms_extra (st i n)))" by (simp_all, metis snd_conv)
  show "ms_nonce (st i n) = word_of_nat n" by (rule A(1))
  show "ms_extranonce2 (st i n) =
      hex_encode c (extranonce2_bytes (mw_extranonce2_size work) (word_of_nat (i + n div 2 ^ 32 * threads)))"
    unfolding A(3) A(2) by (simp only: work_header_def Let_def snd_conv)
qed

text \<open>
  the workers of the miner never hash the same header twice on one piece of work: as long as
  the extranonces they have reached fit the bytes that carry them, two attempts of the same or of
  different workers differ in the extranonce or in the nonce.
\<close>

theorem miners_never_repeat:
  assumes hex: "hex_documented c" and threads: "i < threads" "j < threads"
    and fits: "i + m div 2 ^ 32 * threads < 256 ^ min (mw_extranonce2_size work) 8"
      "j + n div 2 ^ 32 * threads < 256 ^ min (mw_extranonce2_size work) 8"
    and differ: "(i, m) \<noteq> (j, n)"
  shows "(ms_extranonce2 (miner_run c (word_of_nat threads) work m (miner_start c work (word_of_nat i))),
      ms_nonce (miner_run c (word_of_nat threads) work m (miner_start c work (word_of_nat i)))) \<noteq>
    (ms_extranonce2 (miner_run c (word_of_nat threads) work n (miner_start c work (word_of_nat j))),
      ms_nonce (miner_run c (word_of_nat threads) work n (miner_start c work (word_of_nat j))))"
proof
  assume "(ms_extranonce2 (miner_run c (word_of_nat threads) work m (miner_start c work (word_of_nat i))),
      ms_nonce (miner_run c (word_of_nat threads) work m (miner_start c work (word_of_nat i)))) =
    (ms_extranonce2 (miner_run c (word_of_nat threads) work n (miner_start c work (word_of_nat j))),
      ms_nonce (miner_run c (word_of_nat threads) work n (miner_start c work (word_of_nat j))))"
  then have E: "hex_encode c (extranonce2_bytes (mw_extranonce2_size work) (word_of_nat (i + m div 2 ^ 32 * threads))) =
      hex_encode c (extranonce2_bytes (mw_extranonce2_size work) (word_of_nat (j + n div 2 ^ 32 * threads)))"
    and N: "(word_of_nat m :: u32) = word_of_nat n"
    by (simp_all only: prod.inject worker_after)
  have "extranonce2_bytes (mw_extranonce2_size work) (word_of_nat (i + m div 2 ^ 32 * threads)) =
      extranonce2_bytes (mw_extranonce2_size work) (word_of_nat (j + n div 2 ^ 32 * threads))"
    using E hex_encode_inj[OF hex_documented_ok[OF hex]] by blast
  then have eq: "i + m div 2 ^ 32 * threads = j + n div 2 ^ 32 * threads"
    using extranonce2_number[OF fits(1)] extranonce2_number[OF fits(2)] by (metis of_nat_eq_iff)
  then have "(i + m div 2 ^ 32 * threads) mod threads = (j + n div 2 ^ 32 * threads) mod threads"
    "(i + m div 2 ^ 32 * threads) div threads = (j + n div 2 ^ 32 * threads) div threads" by simp_all
  then have "i = j" "m div 2 ^ 32 = n div 2 ^ 32" using threads by simp_all
  moreover have "m mod 2 ^ 32 = n mod 2 ^ 32" using N by (simp add: word_of_nat_eq_iff take_bit_eq_mod)
  ultimately show False using differ by (metis div_mult_mod_eq)
qed

section \<open>Targets\<close>

text \<open>
  C39: a difficulty is turned into the exact target: the difficulty-one target divided by the
  real number the float denotes, rounded down and clamped to what 256 bits hold and to at least
  one; a difficulty that is not finite and positive is refused.
\<close>

theorem difficulty_target_exact:
  "difficulty_target d = (if f64_is_finite d \<and> f64_positive d
    then Inr (clamp_target \<lfloor>real DIFF1_TARGET / f64_value d\<rfloor>) else Inl [''difficulty must be positive and finite''])"
proof (cases "f64_is_finite d \<and> f64_positive d")
  case True
  then show ?thesis unfolding if_P[OF True] by (intro difficulty_target_floor) blast+
next
  case False
  then show ?thesis unfolding if_not_P[OF False] by (rule difficulty_target_Inl)
qed

text \<open>
  compact bits decode to a target exactly when their sign bit is clear and the number they
  denote, mantissa times 256 to the exponent less three, rounded down, is positive and fits 256
  bits; then they decode to that number.
\<close>

theorem compact_target_exact:
  "target_from_compact bits = Inr t \<longleftrightarrow>
    unat bits mod 2 ^ 24 < 2 ^ 23 \<and> t = unat bits mod 2 ^ 24 * 256 ^ (unat bits div 2 ^ 24) div 256 ^ 3 \<and>
    0 < t \<and> t < 2 ^ 256"
  by (rule target_from_compact_iff)

section \<open>A sample\<close>

text \<open>A job the server issues for the sample coinbase and template, and its bounds.\<close>

lemma sample_made:
  "\<exists>manifest job. length (pm_coinbase_tx_hex manifest) < 2 ^ 62 \<and> job_from_manifest model_crypto sample_to_f64 ''j''
    sample_template manifest ''71'' 1 0x3ff0000000000000 0 True = Inr job"
proof -
  note hex = model_hex_documented
  from job_request_parts(2) obtain manifest where m: "build_manifest model_crypto job_request = Inr manifest" ..
  from manifest_coinbase[OF hex m] obtain built where
    B: "build_coinbase model_crypto job_request = Inr built"
    "decode_hex model_crypto (pm_coinbase_tx_hex manifest) = Inr (bc_tx_with_witness built)"
    "hash_display model_crypto (double_sha256 model_crypto (bc_tx_without_witness built)) = pm_coinbase_txid manifest"
    "length (bc_tx_with_witness built) < 2 ^ 60" by metis
  have f: "f64_is_finite 0x3ff0000000000000" "f64_positive 0x3ff0000000000000" "f64_is_finite 0" "f64_not_negative 0"
    and e1: "hex_decode model_crypto ''71'' = Inr [0x71]" by code_simp+
  have f64: "to_f64_total sample_to_f64" by (simp add: to_f64_total_def sample_to_f64_def)
  from coinbase_splits[OF B(1) job_request_parts(1)] obtain P S P' S' where
    "split_coinbase_extranonce (bc_tx_with_witness built) ([0x71] @ replicate 1 0) = Inr (P, S)"
    "split_coinbase_extranonce (bc_tx_without_witness built) ([0x71] @ replicate 1 0) = Inr (P', S')" by auto
  from job_of_parts[OF hex f64 B(2,4) coinbase_strips[OF B(1)] B(3) this(2,1) e1 _ _ sample_template_ok f]
  obtain job where "job_from_manifest model_crypto sample_to_f64 ''j''
      sample_template manifest ''71'' 1 0x3ff0000000000000 0 True = Inr job" by auto
  moreover have "length (pm_coinbase_tx_hex manifest) < 2 ^ 62" using decode_length[OF hex B(2)] B(4) by simp
  ultimately show ?thesis by blast
qed

lemma made_fields:
  assumes "job_from_manifest c to_f64 job_id template manifest extranonce1 width desired minimum clean_jobs = Inr job"
  obtains coinbase stripped e1 P' S' P S bits nbits curtime where
    "decode_hex c (pm_coinbase_tx_hex manifest) = Inr coinbase" "strip_witness_transaction coinbase = Inr stripped"
    "decode_hex c extranonce1 = Inr e1"
    "split_coinbase_extranonce stripped (e1 @ replicate width 0) = Inr (P', S')"
    "split_coinbase_extranonce coinbase (e1 @ replicate width 0) = Inr (P, S)"
    "jb_full_coinbase_prefix job = hex_encode c P" "jb_full_coinbase_suffix job = hex_encode c S"
    "transactions_from_template c template = Inr (jb_transactions job)"
    "bt_bits template = Some bits" "parse_u32_hex bits = Inr nbits" "target_from_compact nbits = Inr (jb_network_target job)"
    "assigned_target desired minimum (jb_network_target job) = Inr (jb_share_target job)"
    "bt_curtime template = Some curtime" "u32_try_from curtime = Inr (jb_ntime job)"
    "u32_try_from (case bt_mintime template of None \<Rightarrow> 0 | Some m \<Rightarrow> m) = Inr (jb_mintime job)"
    "jb_extranonce1 job = extranonce1" "jb_extranonce2_size job = width"
  using assms unfolding job_from_manifest_def Let_def ensure_def rbind_Inr split_paired_Ex prod.case if_Inl_Inr
    sum.inject ok_or_Inr
  by (elim exE conjE) (hypsubst, rule that; simp)

lemma sample_issued:
  obtains job where "issued model_crypto sample_to_f64 job" "jb_extranonce1 job = ''71''" "jb_extranonce2_size job = 1"
    "jb_mintime job = 1600000000" "jb_ntime job = 1700000000" "jb_transactions job = [sample_tx]"
    "32 \<le> jb_network_target job" "jb_network_target job \<le> jb_share_target job"
    "length (jb_full_coinbase_prefix job) + length (jb_full_coinbase_suffix job) < 2 ^ 62"
proof -
  note hex = model_hex_documented
  from sample_made obtain manifest job where len: "length (pm_coinbase_tx_hex manifest) < 2 ^ 62" and
    job: "job_from_manifest model_crypto sample_to_f64 ''j'' sample_template manifest ''71'' 1 0x3ff0000000000000 0 True = Inr job"
    by blast
  have "length (pm_coinbase_tx_hex manifest) < 2 ^ 64" using len by simp
  from issued.made[OF job this] have i: "issued model_crypto sample_to_f64 job" .
  from made_fields[OF job] obtain coinbase stripped e1 P' S' P S bits nbits curtime where
    J: "decode_hex model_crypto (pm_coinbase_tx_hex manifest) = Inr coinbase" "strip_witness_transaction coinbase = Inr stripped"
    "split_coinbase_extranonce stripped (e1 @ replicate 1 0) = Inr (P', S')"
    "split_coinbase_extranonce coinbase (e1 @ replicate 1 0) = Inr (P, S)"
    "jb_full_coinbase_prefix job = hex_encode model_crypto P" "jb_full_coinbase_suffix job = hex_encode model_crypto S" and
    K: "transactions_from_template model_crypto sample_template = Inr (jb_transactions job)"
    "bt_bits sample_template = Some bits" "parse_u32_hex bits = Inr nbits" "target_from_compact nbits = Inr (jb_network_target job)"
    "assigned_target 0x3ff0000000000000 0 (jb_network_target job) = Inr (jb_share_target job)"
    "bt_curtime sample_template = Some curtime" "u32_try_from curtime = Inr (jb_ntime job)"
    "u32_try_from (case bt_mintime sample_template of None \<Rightarrow> 0 | Some m \<Rightarrow> m) = Inr (jb_mintime job)" and
    E: "jb_extranonce1 job = ''71''" "jb_extranonce2_size job = 1" by metis
  have "model_hex_encode b = hex_encode model_crypto b" for b by (simp add: model_crypto_def)
  then have "jb_transactions job = [sample_tx]"
    using K(1) by (simp add: transactions_from_template_def sample_template_def decode_encode[OF hex])
  moreover have "nbits = 0x2100ffff" using K(2,3) by (auto simp: sample_template_def)
  then have "0xffff * 2 ^ 240 = jb_network_target job" using K(4) by (simp add: target_from_compact_iff)
  then have "32 \<le> jb_network_target job" by simp
  moreover have "\<not> f64_positive 0" by code_simp
  then have "jb_network_target job \<le> jb_share_target job"
    using K(5) by (auto simp: assigned_target_def Let_def rbind_Inr)
  moreover have "jb_mintime job = 1600000000" "jb_ntime job = 1700000000"
    using K(6-8) by (auto simp: sample_template_def u32_try_from_def)
  moreover have "length coinbase < 2 ^ 61" using decode_length[OF hex J(1)] len by simp
  then have "length (P @ (e1 @ replicate 1 0) @ S) < 2 ^ 61" using split_parts(1)[OF _ J(2,3,4)] by simp
  then have "length (jb_full_coinbase_prefix job) + length (jb_full_coinbase_suffix job) < 2 ^ 62"
    using decode_length[OF hex decode_encode[OF hex]] by (simp add: J(5,6))
  ultimately show thesis using that[OF i E] by blast
qed

lemma sample_assembles:
  assumes "issued model_crypto sample_to_f64 job" "jb_extranonce1 job = ''71''" "jb_extranonce2_size job = 1"
    "jb_mintime job = 1600000000"
  shows "\<exists>s. assemble_submission model_crypto job ''2a'' (hex_u32 1700000000) (hex_u32 7) None 0 = Inr s"
proof -
  have "decode_hex model_crypto ''2a'' = Inr [42]" by code_simp
  from issued_assembles[OF model_hex_documented model_hash_ok assms(1) this _ parse_u32_hex_u32 _ parse_u32_hex_u32] assms
  show ?thesis by (simp add: applied_version_def)
qed

theorem issued_job_assembles_witness:
  "\<exists>job s. issued model_crypto sample_to_f64 job \<and>
    assemble_submission model_crypto job ''2a'' (hex_u32 1700000000) (hex_u32 7) None 0 = Inr s"
proof -
  from sample_issued obtain job where job: "issued model_crypto sample_to_f64 job" "jb_extranonce2_size job = 1"
    "jb_mintime job = 1600000000" by metis
  have "hex_decode model_crypto ''2a'' = Inr [42]" by code_simp
  then show ?thesis
    using issued_job_assembles[OF model_hex_documented model_hash_ok job(1), of "''2a''" "hex_u32 1700000000" "hex_u32 7" None 0]
      job by (auto simp: applied_version_def)
qed

theorem submission_header_exact_witness:
  "\<exists>job s header. issued model_crypto sample_to_f64 job \<and>
    assemble_submission model_crypto job ''2a'' (hex_u32 1700000000) (hex_u32 7) None 0 = Inr s \<and>
    length header = 80 \<and> sb_block_hash_hex s = hash_display model_crypto (double_sha256 model_crypto header)"
proof -
  from sample_issued obtain job where job: "issued model_crypto sample_to_f64 job" "jb_extranonce1 job = ''71''"
    "jb_extranonce2_size job = 1" "jb_mintime job = 1600000000" by metis
  from sample_assembles[OF this] obtain s where
    s: "assemble_submission model_crypto job ''2a'' (hex_u32 1700000000) (hex_u32 7) None 0 = Inr s" ..
  from submission_header_exact[OF model_hex_documented model_hash_ok job(1) s] job(1) s show ?thesis by blast
qed

text \<open>Every digest of the model hash is 32: it passes the sample job's targets.\<close>

lemma sample_digest: "from_bytes_le (double_sha256 model_crypto b) = 32"
proof -
  have "double_sha256 model_crypto b = le_bytes 32 32" by (simp add: double_sha256_def model_crypto_def)
  then show ?thesis by (simp add: from_bytes_le_def le_value_le_bytes)
qed

lemma write_size_short: "length (write_size n) \<le> 9"
  by (simp add: write_size_def compact_size_def)

lemma sample_block:
  assumes job: "issued model_crypto sample_to_f64 job" "jb_extranonce1 job = ''71''" "jb_transactions job = [sample_tx]"
    "32 \<le> jb_network_target job"
    "length (jb_full_coinbase_prefix job) + length (jb_full_coinbase_suffix job) < 2 ^ 62"
    and s: "assemble_submission model_crypto job ''2a'' (hex_u32 1700000000) (hex_u32 7) None 0 = Inr s"
  shows "sb_block_pass s" and "length (sb_block_hex s) < 2 ^ 64"
proof -
  note hex = model_hex_documented
  from assembled_parts[OF hex model_hash_ok job(1) s] obtain coinbase prev merkle where
    S: "s = submission_of model_crypto job coinbase (header_bytes (sb_applied_version s) (rev prev) merkle (sb_ntime s)
      (jb_nbits job) (sb_nonce s)) ''2a'' (sb_ntime s) (sb_nonce s) (sb_applied_version s)" and
    h: "length (header_bytes (sb_applied_version s) (rev prev) merkle (sb_ntime s) (jb_nbits job) (sb_nonce s)) = 80"
    by metis
  note F = submission_fields[OF S]
  show "sb_block_pass s" unfolding F(5) sample_digest by (rule job(4))
  from assembled_coinbase[OF s] obtain b where
    b: "sb_coinbase_tx_hex s = hex_encode model_crypto b" "decode_hex model_crypto (jb_full_coinbase_prefix job @
      jb_extranonce1 job @ ''2a'' @ jb_full_coinbase_suffix job) = Inr b" .
  have "b = coinbase" using b(1) F(1) hex_encode_inj[OF hex_documented_ok[OF hex]] by simp
  then have "2 * length coinbase \<le> length (jb_full_coinbase_prefix job) + length (jb_full_coinbase_suffix job) + 4"
    using decode_length[OF hex b(2)] job(2) by simp
  then have "length coinbase \<le> 2 ^ 61 + 2" using job(5) by simp
  moreover have "length sample_tx \<le> 1000" by code_simp
  ultimately have "length (header_bytes (sb_applied_version s) (rev prev) merkle (sb_ntime s) (jb_nbits job) (sb_nonce s) @
      write_size (length (coinbase # jb_transactions job)) @ concat (coinbase # jb_transactions job)) \<le> 2 ^ 61 + 1091"
    using write_size_short[of "length (coinbase # jb_transactions job)"] h by (simp add: job(3))
  then show "length (sb_block_hex s) < 2 ^ 64"
    unfolding F(6) sample_digest if_P[OF job(4)] using decode_length[OF hex decode_encode[OF hex]] by simp
qed

theorem assembled_block_reads_back_witness:
  "\<exists>job s block. issued model_crypto sample_to_f64 job \<and>
    assemble_submission model_crypto job ''2a'' (hex_u32 1700000000) (hex_u32 7) None 0 = Inr s \<and> sb_block_pass s \<and>
    witness_merkle_leaves_from_block model_crypto block = Inr (witness_merkle_leaves_hex model_crypto [sample_tx])"
proof -
  from sample_issued obtain job where job: "issued model_crypto sample_to_f64 job" "jb_extranonce1 job = ''71''"
    "jb_extranonce2_size job = 1" "jb_mintime job = 1600000000" and
    more: "jb_transactions job = [sample_tx]" "32 \<le> jb_network_target job"
      "length (jb_full_coinbase_prefix job) + length (jb_full_coinbase_suffix job) < 2 ^ 62" by metis
  from sample_assembles[OF job] obtain s where
    s: "assemble_submission model_crypto job ''2a'' (hex_u32 1700000000) (hex_u32 7) None 0 = Inr s" ..
  note B = sample_block[OF job(1,2) more s]
  from assembled_block_reads_back[OF model_hex_documented model_hash_ok job(1) s B] job(1) s B(1) more(1)
  show ?thesis by metis
qed

theorem miner_agrees_with_server_witness:
  "\<exists>job e1 target work s. issued model_crypto sample_to_f64 job \<and>
    difficulty_target 0x3ff0000000000000 = Inr target \<and>
    work_from_notify model_crypto (job_notify model_crypto job) e1 1 0x3ff0000000000000 = Inr work \<and>
    assemble_submission model_crypto job (snd (work_header model_crypto work 5)) (hex_u32 1700000000) (hex_u32 7) None 0 = Inr s"
proof -
  note hex = model_hex_documented and hash = model_hash_ok
  from sample_issued obtain job where job: "issued model_crypto sample_to_f64 job" "jb_extranonce1 job = ''71''"
    "jb_extranonce2_size job = 1" "jb_mintime job = 1600000000" "jb_ntime job = 1700000000" by metis
  have e1: "decode_hex model_crypto (jb_extranonce1 job) = Inr [0x71]" unfolding job(2) by code_simp
  have "f64_is_finite 0x3ff0000000000000" "f64_positive 0x3ff0000000000000" by code_simp+
  then obtain target where d: "difficulty_target 0x3ff0000000000000 = Inr target" using difficulty_target_floor by blast
  from notified_work[OF hex hash issued_ok[OF job(1) hex] e1 d] obtain work where
    work: "work_from_notify model_crypto (job_notify model_crypto job) [0x71] (jb_extranonce2_size job) 0x3ff0000000000000 = Inr work"
    by metis
  from miner_agrees_with_server[OF hex hash job(1) e1 d _ work surjective_pairing, of 5 7 0] job(4,5) obtain s where
    "assemble_submission model_crypto job (snd (work_header model_crypto work 5)) (hex_u32 1700000000) (hex_u32 7) None 0 = Inr s"
    by auto
  with job(1,3) d work show ?thesis by metis
qed

theorem miners_never_repeat_witness:
  "\<exists>work. ms_extranonce2 (miner_run model_crypto 2 work 1 (miner_start model_crypto work 0)) \<noteq>
    ms_extranonce2 (miner_run model_crypto 2 work 1 (miner_start model_crypto work 1))"
proof -
  define work where "work = \<lparr>mw_id = ''j'', mw_coinb1 = [1], mw_coinb2 = [2], mw_extranonce1 = [3],
    mw_extranonce2_size = 4, mw_branch = [], mw_previous = replicate 32 0, mw_version = 1, mw_nbits = 0x1d00ffff,
    mw_ntime = 5, mw_share_target = 1, mw_network_target = 1\<rparr>"
  have "(ms_extranonce2 (miner_run model_crypto 2 work 1 (miner_start model_crypto work 0)),
      ms_nonce (miner_run model_crypto 2 work 1 (miner_start model_crypto work 0))) \<noteq>
    (ms_extranonce2 (miner_run model_crypto 2 work 1 (miner_start model_crypto work 1)),
      ms_nonce (miner_run model_crypto 2 work 1 (miner_start model_crypto work 1)))"
    using miners_never_repeat[OF model_hex_documented, of 0 2 1 1 work 1] by (simp add: work_def)
  moreover have "ms_nonce (miner_run model_crypto 2 work 1 (miner_start model_crypto work 0)) =
      ms_nonce (miner_run model_crypto 2 work 1 (miner_start model_crypto work 1))"
    by (simp add: miner_start_def miner_step_def Let_def case_prod_unfold)
  ultimately show ?thesis by blast
qed

end
