(* ===== verification/Ordered_Chunks.thy ===== *)
theory Ordered_Chunks
  imports Rust_Prelude
begin

text \<open>
  \<open>ordered_chunks\<close> of \<open>parallel.rs\<close> as a step relation: the calling thread, the queue of the builder
  pool and its running jobs, and the state they share under one mutex.  A step is one critical
  section, one wait, or one call of the consumer.  Only the jobs of this call are in the model;
  jobs of other calls can delay a step but not change it.
\<close>

section \<open>The state\<close>

text \<open>What a closure may do: return, fail, or panic.\<close>

datatype ('a, 'e, 'p) outcome = Returned 'a | Failed 'e | Panicked 'p

record ('c, 'e, 'p) chunk_shared =
  cs_ready :: "nat \<rightharpoonup> 'c"
  cs_failed :: "'e option"
  cs_panicked :: "'p option"
  cs_outstanding :: nat

definition stopping :: "('c, 'e, 'p) chunk_shared \<Rightarrow> bool" where
  "stopping st \<longleftrightarrow> cs_failed st \<noteq> None \<or> cs_panicked st \<noteq> None"

definition get_or_insert :: "'a option \<Rightarrow> 'a \<Rightarrow> 'a option" where
  "get_or_insert slot x = (case slot of None \<Rightarrow> Some x | Some y \<Rightarrow> Some y)"

text \<open>
  The calling thread: at the top of the loop, about to look for its chunk, asleep on the
  condition variable, consuming, settling (with the payload when the consumer's panic unwinds),
  asleep there, or done.
\<close>

datatype ('c, 'e, 'p) caller =
    Filling nat
  | Taking nat
  | Asleep nat
  | Consuming nat 'c
  | Settling "'p option"
  | Settling_Asleep "'p option"
  | Finished "(unit, 'e, 'p) outcome"

record ('s, 'c, 'e, 'p) chunk_run =
  rn_shared :: "('c, 'e, 'p) chunk_shared"
  rn_queue :: "nat list"
  rn_running :: "nat set"
  rn_next :: nat
  rn_caller :: "('c, 'e, 'p) caller"
  rn_consumer :: 's

text \<open>The arguments of the call, and the started threads of the pool.\<close>

record ('s, 'c, 'e, 'p) chunk_call =
  cc_chunks :: nat
  cc_workers :: nat
  cc_threads :: nat
  cc_produce :: "nat \<Rightarrow> ('c, 'e, 'p) outcome"
  cc_consume :: "nat \<Rightarrow> 'c \<Rightarrow> 's \<Rightarrow> 's \<times> (unit, 'e, 'p) outcome"

definition max_inflight :: "('s, 'c, 'e, 'p) chunk_call \<Rightarrow> nat" where
  "max_inflight k = min (max (cc_workers k) 1) (cc_chunks k) * 2"

section \<open>The steps\<close>

text \<open>Submitting ahead of the consumer, under the lock.\<close>

function submit_ahead :: "('s, 'c, 'e, 'p) chunk_call \<Rightarrow> nat \<Rightarrow> ('s, 'c, 'e, 'p) chunk_run \<Rightarrow> ('s, 'c, 'e, 'p) chunk_run" where
  "submit_ahead k index r =
    (if rn_next r < cc_chunks k \<and> rn_next r - index < max_inflight k \<and> \<not> stopping (rn_shared r)
     then submit_ahead k index (r\<lparr>
       rn_shared := (rn_shared r)\<lparr>cs_outstanding := cs_outstanding (rn_shared r) + 1\<rparr>,
       rn_queue := rn_queue r @ [rn_next r], rn_next := rn_next r + 1\<rparr>)
     else r)"
  by pat_completeness auto
termination by (relation "measure (\<lambda>(k, index, r). cc_chunks k - rn_next r)") auto

declare submit_ahead.simps [simp del]

text \<open>What a job leaves behind, and whom it wakes.\<close>

definition publish :: "nat \<Rightarrow> ('c, 'e, 'p) outcome \<Rightarrow> ('c, 'e, 'p) chunk_shared \<Rightarrow> ('c, 'e, 'p) chunk_shared" where
  "publish j res st = (case res of
      Returned chunk \<Rightarrow> st\<lparr>cs_ready := (cs_ready st)(j \<mapsto> chunk), cs_outstanding := cs_outstanding st - 1\<rparr>
    | Failed e \<Rightarrow> st\<lparr>cs_failed := get_or_insert (cs_failed st) e, cs_outstanding := cs_outstanding st - 1\<rparr>
    | Panicked p \<Rightarrow> st\<lparr>cs_panicked := get_or_insert (cs_panicked st) p, cs_outstanding := cs_outstanding st - 1\<rparr>)"

fun awake :: "('c, 'e, 'p) caller \<Rightarrow> ('c, 'e, 'p) caller" where
  "awake (Asleep i) = Taking i"
| "awake (Settling_Asleep u) = Settling u"
| "awake caller = caller"

text \<open>What the call returns once it has settled: an unwinding panic goes on, then a job's, then the error.\<close>

definition call_result :: "'p option \<Rightarrow> ('c, 'e, 'p) chunk_shared \<Rightarrow> (unit, 'e, 'p) outcome" where
  "call_result unwinding st = (case unwinding of Some p \<Rightarrow> Panicked p | None \<Rightarrow>
    (case cs_panicked st of Some p \<Rightarrow> Panicked p | None \<Rightarrow>
    (case cs_failed st of Some e \<Rightarrow> Failed e | None \<Rightarrow> Returned ())))"

inductive chunk_step :: "('s, 'c, 'e, 'p) chunk_call \<Rightarrow> ('s, 'c, 'e, 'p) chunk_run \<Rightarrow> ('s, 'c, 'e, 'p) chunk_run \<Rightarrow> bool" for k where
  fill: "rn_caller r = Filling i \<Longrightarrow> chunk_step k r ((submit_ahead k i r)\<lparr>rn_caller := Taking i\<rparr>)"
| take: "rn_caller r = Taking i \<Longrightarrow> cs_ready (rn_shared r) i = Some chunk \<Longrightarrow> chunk_step k r (r\<lparr>
    rn_shared := (rn_shared r)\<lparr>cs_ready := (cs_ready (rn_shared r))(i := None)\<rparr>, rn_caller := Consuming i chunk\<rparr>)"
| stop: "rn_caller r = Taking i \<Longrightarrow> cs_ready (rn_shared r) i = None \<Longrightarrow> stopping (rn_shared r) \<Longrightarrow>
    chunk_step k r (r\<lparr>rn_caller := Settling None\<rparr>)"
| sleep: "rn_caller r = Taking i \<Longrightarrow> cs_ready (rn_shared r) i = None \<Longrightarrow> \<not> stopping (rn_shared r) \<Longrightarrow>
    chunk_step k r (r\<lparr>rn_caller := Asleep i\<rparr>)"
| consumed: "rn_caller r = Consuming i chunk \<Longrightarrow> cc_consume k i chunk (rn_consumer r) = (s, Returned ()) \<Longrightarrow>
    chunk_step k r (r\<lparr>rn_caller := (if Suc i < cc_chunks k then Filling (Suc i) else Settling None), rn_consumer := s\<rparr>)"
| refused: "rn_caller r = Consuming i chunk \<Longrightarrow> cc_consume k i chunk (rn_consumer r) = (s, Failed e) \<Longrightarrow>
    chunk_step k r (r\<lparr>rn_shared := (rn_shared r)\<lparr>cs_failed := get_or_insert (cs_failed (rn_shared r)) e\<rparr>,
      rn_caller := Settling None, rn_consumer := s\<rparr>)"
| unwound: "rn_caller r = Consuming i chunk \<Longrightarrow> cc_consume k i chunk (rn_consumer r) = (s, Panicked p) \<Longrightarrow>
    chunk_step k r (r\<lparr>rn_caller := Settling (Some p), rn_consumer := s\<rparr>)"
| settle_sleep: "rn_caller r = Settling u \<Longrightarrow> 0 < cs_outstanding (rn_shared r) \<Longrightarrow>
    chunk_step k r (r\<lparr>rn_caller := Settling_Asleep u\<rparr>)"
| settled: "rn_caller r = Settling u \<Longrightarrow> cs_outstanding (rn_shared r) = 0 \<Longrightarrow>
    chunk_step k r (r\<lparr>rn_shared := \<lparr>cs_ready = Map.empty, cs_failed = None, cs_panicked = None, cs_outstanding = 0\<rparr>,
      rn_caller := Finished (call_result u (rn_shared r))\<rparr>)"
| start: "rn_queue r = j # q \<Longrightarrow> card (rn_running r) < cc_threads k \<Longrightarrow>
    chunk_step k r (r\<lparr>rn_queue := q, rn_running := insert j (rn_running r)\<rparr>)"
| finish: "j \<in> rn_running r \<Longrightarrow> chunk_step k r (r\<lparr>rn_shared := publish j (cc_produce k j) (rn_shared r),
    rn_running := rn_running r - {j}, rn_caller := awake (rn_caller r)\<rparr>)"

definition call_start :: "'s \<Rightarrow> ('s, 'c, 'e, 'p) chunk_run" where
  "call_start s = \<lparr>rn_shared = \<lparr>cs_ready = Map.empty, cs_failed = None, cs_panicked = None, cs_outstanding = 0\<rparr>,
    rn_queue = [], rn_running = {}, rn_next = 0, rn_caller = Filling 0, rn_consumer = s\<rparr>"

text \<open>The states a call can reach.\<close>

inductive reachable :: "('s, 'c, 'e, 'p) chunk_call \<Rightarrow> 's \<Rightarrow> ('s, 'c, 'e, 'p) chunk_run \<Rightarrow> bool" for k s where
  reach_start: "0 < cc_chunks k \<Longrightarrow> reachable k s (call_start s)"
| reach_step: "reachable k s r \<Longrightarrow> chunk_step k r r' \<Longrightarrow> reachable k s r'"

text \<open>The serial loop the function falls back to without a pool.\<close>

fun serial_from :: "('s, 'c, 'e, 'p) chunk_call \<Rightarrow> nat list \<Rightarrow> 's \<Rightarrow> 's \<times> (unit, 'e, 'p) outcome" where
  "serial_from k [] s = (s, Returned ())"
| "serial_from k (i # is) s = (case cc_produce k i of
      Failed e \<Rightarrow> (s, Failed e)
    | Panicked p \<Rightarrow> (s, Panicked p)
    | Returned chunk \<Rightarrow> (case cc_consume k i chunk s of
        (s', Returned _) \<Rightarrow> serial_from k is s'
      | (s', Failed e) \<Rightarrow> (s', Failed e)
      | (s', Panicked p) \<Rightarrow> (s', Panicked p)))"

definition serial_chunks :: "('s, 'c, 'e, 'p) chunk_call \<Rightarrow> 's \<Rightarrow> 's \<times> (unit, 'e, 'p) outcome" where
  "serial_chunks k s = serial_from k [0..<cc_chunks k] s"

text \<open>
  The call, its early return and its fallback included; \<open>pooled\<close> says that the pool is enabled, has
  a started thread, and the caller is not one of them.
\<close>

inductive ordered_chunks ::
  "('s, 'c, 'e, 'p) chunk_call \<Rightarrow> bool \<Rightarrow> 's \<Rightarrow> 's \<Rightarrow> (unit, 'e, 'p) outcome \<Rightarrow> bool" for k pooled s where
  no_chunks: "cc_chunks k = 0 \<Longrightarrow> ordered_chunks k pooled s s (Returned ())"
| serially: "0 < cc_chunks k \<Longrightarrow> \<not> pooled \<Longrightarrow> serial_chunks k s = (s', res) \<Longrightarrow> ordered_chunks k pooled s s' res"
| on_the_pool: "0 < cc_chunks k \<Longrightarrow> pooled \<Longrightarrow> reachable k s r \<Longrightarrow> rn_caller r = Finished res \<Longrightarrow>
    ordered_chunks k pooled s (rn_consumer r) res"

inductive_cases chunk_stepE: "chunk_step k r r'"

section \<open>The serial loop\<close>

lemma serial_from_append:
  "serial_from k (xs @ ys) s = (case serial_from k xs s of
      (s', Returned u) \<Rightarrow> serial_from k ys s' | (s', Failed e) \<Rightarrow> (s', Failed e) | (s', Panicked p) \<Rightarrow> (s', Panicked p))"
proof (induction xs arbitrary: s)
  case (Cons i xs)
  show ?case
  proof (cases "cc_produce k i")
    case (Returned chunk)
    obtain s1 res where r: "cc_consume k i chunk s = (s1, res)" by force
    show ?thesis by (cases res) (simp_all add: Returned r Cons)
  qed simp_all
qed simp

text \<open>A prefix of a loop that returns has returned.\<close>

lemma serial_prefix:
  assumes "serial_from k [0..<n] s = (s', Returned u)" and "i \<le> n"
  obtains s1 where "serial_from k [0..<i] s = (s1, Returned ())" "serial_from k [i..<n] s1 = (s', Returned u)"
proof -
  have "[0..<n] = [0..<i] @ [i..<n]" using assms(2) by (metis le_add_diff_inverse upt_add_eq_append zero_le)
  with assms(1) have A: "serial_from k ([0..<i] @ [i..<n]) s = (s', Returned u)" by simp
  obtain s1 res where R: "serial_from k [0..<i] s = (s1, res)" by force
  from A have "res = Returned ()" by (cases res) (simp_all add: serial_from_append R)
  moreover from this A have "serial_from k [i..<n] s1 = (s', Returned u)" by (simp add: serial_from_append R)
  ultimately show thesis using that R by simp
qed

lemma serial_next:
  assumes "serial_from k [0..<i] s = (s1, Returned ())" and "cc_produce k i = Returned chunk"
  shows "serial_from k [0..<Suc i] s = cc_consume k i chunk s1"
proof -
  obtain s2 res where r: "cc_consume k i chunk s1 = (s2, res)" by force
  then show ?thesis by (cases res) (simp_all add: serial_from_append assms)
qed

text \<open>What may go wrong: a production, or a consumption after the ones before it.\<close>

definition fault_of :: "('s, 'c, 'e, 'p) chunk_call \<Rightarrow> 's \<Rightarrow> (unit, 'e, 'p) outcome \<Rightarrow> bool" where
  "fault_of k s res \<longleftrightarrow> (\<exists>j<cc_chunks k. (case cc_produce k j of Returned chunk \<Rightarrow> False
      | Failed e \<Rightarrow> res = Failed e | Panicked p \<Rightarrow> res = Panicked p)) \<or>
    (\<exists>i<cc_chunks k. \<exists>s1 chunk. serial_from k [0..<i] s = (s1, Returned ()) \<and> cc_produce k i = Returned chunk \<and>
      res = snd (cc_consume k i chunk s1) \<and> res \<noteq> Returned ())"

lemma fault_stops_serial:
  assumes "fault_of k s res" shows "snd (serial_chunks k s) \<noteq> Returned ()"
proof
  assume "snd (serial_chunks k s) = Returned ()"
  then obtain s' where S: "serial_from k [0..<cc_chunks k] s = (s', Returned ())"
    by (metis serial_chunks_def prod.collapse)
  have step: "\<exists>s1 s2 chunk. serial_from k [0..<i] s = (s1, Returned ()) \<and> cc_produce k i = Returned chunk \<and>
      cc_consume k i chunk s1 = (s2, Returned ())" if "i < cc_chunks k" for i
  proof -
    from serial_prefix[OF S, of i] that obtain s1 where
      s1: "serial_from k [0..<i] s = (s1, Returned ())" "serial_from k [i..<cc_chunks k] s1 = (s', Returned ())" by auto
    have "[i..<cc_chunks k] = i # [Suc i..<cc_chunks k]" using that by (rule upt_conv_Cons)
    with s1 have A: "serial_from k (i # [Suc i..<cc_chunks k]) s1 = (s', Returned ())" by simp
    then obtain chunk where c: "cc_produce k i = Returned chunk" by (cases "cc_produce k i") auto
    obtain s2 res2 where r: "cc_consume k i chunk s1 = (s2, res2)" by force
    have "res2 = Returned ()" using A by (cases res2) (simp_all add: c r)
    with s1 c r show ?thesis by blast
  qed
  from assms[unfolded fault_of_def] show False
  proof (elim disjE exE conjE)
    fix j assume "j < cc_chunks k" "case cc_produce k j of Returned chunk \<Rightarrow> False
      | Failed e \<Rightarrow> res = Failed e | Panicked p \<Rightarrow> res = Panicked p"
    with step[of j] show False by auto
  next
    fix i s1 chunk assume "i < cc_chunks k" "serial_from k [0..<i] s = (s1, Returned ())" "cc_produce k i = Returned chunk"
      "res = snd (cc_consume k i chunk s1)" "res \<noteq> Returned ()"
    with step[of i] show False by auto
  qed
qed


chapter \<open>The invariant\<close>

text \<open>
  The invariant of a call of \<open>ordered_chunks\<close>: every index submitted and not consumed is with a
  job, ready, or given up because something failed; the look-ahead is bounded; the consumer is
  where the serial loop would be.
\<close>

section \<open>Submitting ahead\<close>

lemma submit_ahead_eq:
  assumes "i < cc_chunks k" and "i \<le> rn_next r" and "rn_next r \<le> cc_chunks k" and "rn_next r \<le> i + max_inflight k"
  shows "\<exists>m. submit_ahead k i r = r\<lparr>
      rn_shared := (rn_shared r)\<lparr>cs_outstanding := cs_outstanding (rn_shared r) + (m - rn_next r)\<rparr>,
      rn_queue := rn_queue r @ [rn_next r..<m], rn_next := m\<rparr> \<and>
    rn_next r \<le> m \<and> m \<le> cc_chunks k \<and> m \<le> i + max_inflight k \<and> (i < m \<or> stopping (rn_shared r))"
  using assms
proof (induction k i r rule: submit_ahead.induct)
  case (1 k i r)
  let ?more = "rn_next r < cc_chunks k \<and> rn_next r - i < max_inflight k \<and> \<not> stopping (rn_shared r)"
  let ?r = "r\<lparr>rn_shared := (rn_shared r)\<lparr>cs_outstanding := cs_outstanding (rn_shared r) + 1\<rparr>,
       rn_queue := rn_queue r @ [rn_next r], rn_next := rn_next r + 1\<rparr>"
  show ?case
  proof (cases ?more)
    case True
    have s: "stopping (rn_shared ?r) = stopping (rn_shared r)" by (simp add: stopping_def)
    have "i \<le> rn_next ?r" "rn_next ?r \<le> cc_chunks k" "rn_next ?r \<le> i + max_inflight k" using True 1 by auto
    from "1.IH"[OF True "1.prems"(1) this] obtain m where
      m: "submit_ahead k i ?r = ?r\<lparr>
        rn_shared := (rn_shared ?r)\<lparr>cs_outstanding := cs_outstanding (rn_shared ?r) + (m - rn_next ?r)\<rparr>,
        rn_queue := rn_queue ?r @ [rn_next ?r..<m], rn_next := m\<rparr>"
      "rn_next ?r \<le> m" "m \<le> cc_chunks k" "m \<le> i + max_inflight k" "i < m \<or> stopping (rn_shared ?r)" by blast
    have "[rn_next r..<m] = rn_next r # [Suc (rn_next r)..<m]" using m(2) by (intro upt_conv_Cons) simp
    then have "submit_ahead k i r = r\<lparr>
      rn_shared := (rn_shared r)\<lparr>cs_outstanding := cs_outstanding (rn_shared r) + (m - rn_next r)\<rparr>,
      rn_queue := rn_queue r @ [rn_next r..<m], rn_next := m\<rparr>"
      using m(1,2) True by (subst submit_ahead.simps) (simp add: Suc_diff_Suc)
    then show ?thesis using m(2-5) by (intro exI[of _ m]) (auto simp: stopping_def)
  next
    case False
    then have eq: "submit_ahead k i r = r" unfolding submit_ahead.simps[of k i r] by (simp only: if_False)
    have "0 < max_inflight k" using "1.prems" by (simp add: max_inflight_def)
    then show ?thesis using False "1.prems" by (intro exI[of _ "rn_next r"]) (auto simp: eq)
  qed
qed

section \<open>The invariant\<close>

definition jobs :: "('s, 'c, 'e, 'p) chunk_run \<Rightarrow> nat set" where
  "jobs r = set (rn_queue r) \<union> rn_running r"

text \<open>The indices from \<open>lo\<close> are not consumed; the window starts at \<open>pos\<close>.\<close>

definition book :: "('s, 'c, 'e, 'p) chunk_call \<Rightarrow> 's \<Rightarrow> nat \<Rightarrow> nat \<Rightarrow> ('s, 'c, 'e, 'p) chunk_run \<Rightarrow> bool" where
  "book k s lo pos r \<longleftrightarrow>
    distinct (rn_queue r) \<and> finite (rn_running r) \<and> set (rn_queue r) \<inter> rn_running r = {} \<and>
    cs_outstanding (rn_shared r) = length (rn_queue r) + card (rn_running r) \<and>
    lo \<le> rn_next r \<and> rn_next r \<le> cc_chunks k \<and> rn_next r \<le> pos + max_inflight k \<and>
    jobs r \<subseteq> {lo..<rn_next r} \<and> dom (cs_ready (rn_shared r)) \<subseteq> {lo..<rn_next r} \<and>
    jobs r \<inter> dom (cs_ready (rn_shared r)) = {} \<and>
    (\<forall>j chunk. cs_ready (rn_shared r) j = Some chunk \<longrightarrow> cc_produce k j = Returned chunk) \<and>
    (\<forall>j\<in>{lo..<rn_next r}. j \<in> jobs r \<or> j \<in> dom (cs_ready (rn_shared r)) \<or> stopping (rn_shared r)) \<and>
    (\<forall>e. cs_failed (rn_shared r) = Some e \<longrightarrow> fault_of k s (Failed e)) \<and>
    (\<forall>p. cs_panicked (rn_shared r) = Some p \<longrightarrow> fault_of k s (Panicked p))"

definition consumed_to :: "('s, 'c, 'e, 'p) chunk_call \<Rightarrow> 's \<Rightarrow> nat \<Rightarrow> 's \<Rightarrow> bool" where
  "consumed_to k s i s' \<longleftrightarrow> i \<le> cc_chunks k \<and> serial_from k [0..<i] s = (s', Returned ())"

definition settles :: "('s, 'c, 'e, 'p) chunk_call \<Rightarrow> 's \<Rightarrow> 'p option \<Rightarrow> ('s, 'c, 'e, 'p) chunk_run \<Rightarrow> bool" where
  "settles k s u r \<longleftrightarrow> (\<exists>lo pos. book k s lo pos r \<and> pos \<le> lo) \<and>
    (\<forall>p. u = Some p \<longrightarrow> fault_of k s (Panicked p)) \<and>
    (\<exists>i\<le>cc_chunks k. rn_consumer r = fst (serial_from k [0..<i] s)) \<and>
    (u = None \<longrightarrow> stopping (rn_shared r) \<or> consumed_to k s (cc_chunks k) (rn_consumer r))"

definition finishes :: "('s, 'c, 'e, 'p) chunk_call \<Rightarrow> 's \<Rightarrow> (unit, 'e, 'p) outcome \<Rightarrow> 's \<Rightarrow> bool" where
  "finishes k s res s' \<longleftrightarrow> (if res = Returned () then consumed_to k s (cc_chunks k) s' else fault_of k s res) \<and>
    (\<exists>i\<le>cc_chunks k. s' = fst (serial_from k [0..<i] s))"

fun phase :: "('s, 'c, 'e, 'p) chunk_call \<Rightarrow> 's \<Rightarrow> ('c, 'e, 'p) caller \<Rightarrow> ('s, 'c, 'e, 'p) chunk_run \<Rightarrow> bool" where
  "phase k s (Filling i) r \<longleftrightarrow> i < cc_chunks k \<and> book k s i i r \<and> consumed_to k s i (rn_consumer r)"
| "phase k s (Taking i) r \<longleftrightarrow> i < cc_chunks k \<and> book k s i i r \<and> consumed_to k s i (rn_consumer r) \<and>
    (i < rn_next r \<or> stopping (rn_shared r))"
| "phase k s (Asleep i) r \<longleftrightarrow> i < cc_chunks k \<and> book k s i i r \<and> consumed_to k s i (rn_consumer r) \<and>
    i < rn_next r \<and> cs_ready (rn_shared r) i = None \<and> \<not> stopping (rn_shared r)"
| "phase k s (Consuming i chunk) r \<longleftrightarrow> i < cc_chunks k \<and> book k s (Suc i) i r \<and> consumed_to k s i (rn_consumer r) \<and>
    cc_produce k i = Returned chunk"
| "phase k s (Settling u) r \<longleftrightarrow> settles k s u r"
| "phase k s (Settling_Asleep u) r \<longleftrightarrow> settles k s u r \<and> 0 < cs_outstanding (rn_shared r)"
| "phase k s (Finished res) r \<longleftrightarrow> rn_queue r = [] \<and> rn_running r = {} \<and> cs_ready (rn_shared r) = Map.empty \<and>
    cs_outstanding (rn_shared r) = 0 \<and> finishes k s res (rn_consumer r)"

lemma book_cong:
  "rn_shared r' = rn_shared r \<Longrightarrow> rn_queue r' = rn_queue r \<Longrightarrow> rn_running r' = rn_running r \<Longrightarrow> rn_next r' = rn_next r \<Longrightarrow>
    book k s lo pos r' = book k s lo pos r"
  by (simp add: book_def jobs_def)

lemma book_caller [simp]:
  "book k s lo pos (r\<lparr>rn_caller := c\<rparr>) = book k s lo pos r"
  "book k s lo pos (r\<lparr>rn_caller := c, rn_consumer := s'\<rparr>) = book k s lo pos r"
  by (rule book_cong; simp)+

lemma consumed_all: "consumed_to k s (cc_chunks k) s' \<Longrightarrow> serial_chunks k s = (s', Returned ())"
  by (simp add: consumed_to_def serial_chunks_def)

lemma faultless: "consumed_to k s (cc_chunks k) s' \<Longrightarrow> \<not> fault_of k s res"
  using fault_stops_serial consumed_all by fastforce

text \<open>Each kind of step.\<close>

lemma book_submit:
  assumes book: "book k s i i r" and i: "i < cc_chunks k"
  shows "book k s i i (submit_ahead k i r)"
    and "i < rn_next (submit_ahead k i r) \<or> stopping (rn_shared (submit_ahead k i r))"
    and "rn_consumer (submit_ahead k i r) = rn_consumer r"
proof -
  have "i \<le> rn_next r" "rn_next r \<le> cc_chunks k" "rn_next r \<le> i + max_inflight k" using book by (simp_all add: book_def)
  from submit_ahead_eq[OF i this] obtain m where
    m: "submit_ahead k i r = r\<lparr>
      rn_shared := (rn_shared r)\<lparr>cs_outstanding := cs_outstanding (rn_shared r) + (m - rn_next r)\<rparr>,
      rn_queue := rn_queue r @ [rn_next r..<m], rn_next := m\<rparr>"
    "rn_next r \<le> m" "m \<le> cc_chunks k" "m \<le> i + max_inflight k" "i < m \<or> stopping (rn_shared r)" by blast
  show "book k s i i (submit_ahead k i r)"
    using book m(2-4) unfolding m(1) book_def jobs_def
    by (auto simp: stopping_def)
  show "i < rn_next (submit_ahead k i r) \<or> stopping (rn_shared (submit_ahead k i r))"
    using m(5) by (simp add: m(1) stopping_def)
  show "rn_consumer (submit_ahead k i r) = rn_consumer r" by (simp add: m(1))
qed

lemma book_take:
  assumes book: "book k s i i r" and "cs_ready (rn_shared r) i = Some chunk"
  shows "book k s (Suc i) i (r\<lparr>rn_shared := (rn_shared r)\<lparr>cs_ready := (cs_ready (rn_shared r))(i := None)\<rparr>,
      rn_caller := caller\<rparr>)"
    and "cc_produce k i = Returned chunk"
proof -
  have i: "i \<in> dom (cs_ready (rn_shared r))" using assms(2) by blast
  then have ni: "i \<notin> jobs r" "i < rn_next r" using book by (auto simp: book_def)
  let ?r = "r\<lparr>rn_shared := (rn_shared r)\<lparr>cs_ready := (cs_ready (rn_shared r))(i := None)\<rparr>, rn_caller := caller\<rparr>"
  have same: "rn_queue ?r = rn_queue r" "rn_running ?r = rn_running r" "rn_next ?r = rn_next r" "jobs ?r = jobs r"
    "cs_outstanding (rn_shared ?r) = cs_outstanding (rn_shared r)" "stopping (rn_shared ?r) = stopping (rn_shared r)"
    "cs_failed (rn_shared ?r) = cs_failed (rn_shared r)" "cs_panicked (rn_shared ?r) = cs_panicked (rn_shared r)"
    "cs_ready (rn_shared ?r) = (cs_ready (rn_shared r))(i := None)"
    by (simp_all add: jobs_def stopping_def)
  have up: "{Suc i..<rn_next r} = {i..<rn_next r} - {i}" by auto
  show "book k s (Suc i) i ?r"
    using book ni unfolding book_def same up by (auto simp: Suc_le_eq)
  show "cc_produce k i = Returned chunk" using book assms(2) by (simp add: book_def)
qed

lemma book_advance: "book k s lo i r \<Longrightarrow> book k s lo (Suc i) r"
  by (simp add: book_def)

lemma book_refuse:
  assumes "book k s lo i r" and "fault_of k s (Failed e)"
  shows "book k s lo i (r\<lparr>rn_shared := (rn_shared r)\<lparr>cs_failed := get_or_insert (cs_failed (rn_shared r)) e\<rparr>,
      rn_caller := caller, rn_consumer := s'\<rparr>)"
  using assms unfolding book_def jobs_def
  by (auto simp: stopping_def get_or_insert_def split: option.splits)

lemma book_start:
  assumes "book k s lo i r" and "rn_queue r = j # q"
  shows "book k s lo i (r\<lparr>rn_queue := q, rn_running := insert j (rn_running r)\<rparr>)"
  using assms unfolding book_def jobs_def by (auto simp: stopping_def)

text \<open>What \<open>publish\<close> does to the shared state.\<close>

lemma publish_fields:
  "cs_outstanding (publish j res st) = cs_outstanding st - 1"
  "cs_ready (publish j res st) = (case res of Returned chunk \<Rightarrow> (cs_ready st)(j \<mapsto> chunk) | _ \<Rightarrow> cs_ready st)"
  "stopping (publish j res st) \<longleftrightarrow> stopping st \<or> \<not> (\<exists>chunk. res = Returned chunk)"
  "cs_failed (publish j res st) = Some e \<Longrightarrow> cs_failed st = Some e \<or> res = Failed e"
  "cs_panicked (publish j res st) = Some p \<Longrightarrow> cs_panicked st = Some p \<or> res = Panicked p"
  by (auto simp: publish_def stopping_def get_or_insert_def split: outcome.splits option.splits)

lemma book_finish:
  assumes book: "book k s lo i r" and j: "j \<in> rn_running r"
  shows "book k s lo i (r\<lparr>rn_shared := publish j (cc_produce k j) (rn_shared r),
    rn_running := rn_running r - {j}, rn_caller := caller\<rparr>)" (is "book k s lo i ?r")
proof -
  have jn: "j \<in> {lo..<rn_next r}" "j < cc_chunks k" "j \<notin> set (rn_queue r)" "j \<notin> dom (cs_ready (rn_shared r))"
    using book j by (auto simp: book_def jobs_def)
  have jobs: "jobs ?r = jobs r - {j}" using jn(3) by (auto simp: jobs_def)
  have fault: "fault_of k s (Failed e)" if "cc_produce k j = Failed e" for e
    unfolding fault_of_def using jn(2) that by (intro disjI1 exI[of _ j]) simp
  have fault': "fault_of k s (Panicked p)" if "cc_produce k j = Panicked p" for p
    unfolding fault_of_def using jn(2) that by (intro disjI1 exI[of _ j]) simp
  have "card (rn_running r) = Suc (card (rn_running r - {j}))"
    using book j by (metis book_def card.remove)
  then have out: "cs_outstanding (rn_shared ?r) = length (rn_queue ?r) + card (rn_running ?r)"
    using book by (simp add: publish_fields book_def)
  have ready: "cs_ready (rn_shared ?r) = (case cc_produce k j of Returned chunk \<Rightarrow> (cs_ready (rn_shared r))(j \<mapsto> chunk)
      | _ \<Rightarrow> cs_ready (rn_shared r))" by (simp add: publish_fields)
  have stop: "stopping (rn_shared ?r) \<longleftrightarrow> stopping (rn_shared r) \<or> \<not> (\<exists>chunk. cc_produce k j = Returned chunk)"
    by (simp add: publish_fields)
  have f: "\<forall>e. cs_failed (rn_shared ?r) = Some e \<longrightarrow> fault_of k s (Failed e)"
    "\<forall>p. cs_panicked (rn_shared ?r) = Some p \<longrightarrow> fault_of k s (Panicked p)"
    using book fault fault' publish_fields(4,5)[of j "cc_produce k j" "rn_shared r"] by (auto simp: book_def)
  show ?thesis
  proof (cases "cc_produce k j")
    case (Returned chunk)
    then have ready: "cs_ready (rn_shared ?r) = (cs_ready (rn_shared r))(j \<mapsto> chunk)"
      and stop: "stopping (rn_shared ?r) \<longleftrightarrow> stopping (rn_shared r)" using ready stop by simp_all
    show ?thesis using book jn f unfolding book_def out ready stop jobs
      by (auto simp: Returned)
  next
    case (Failed e)
    then have ready: "cs_ready (rn_shared ?r) = cs_ready (rn_shared r)" and stop: "stopping (rn_shared ?r) = True"
      using ready stop by simp_all
    show ?thesis using book jn f unfolding book_def out ready stop jobs by auto
  next
    case (Panicked p)
    then have ready: "cs_ready (rn_shared ?r) = cs_ready (rn_shared r)" and stop: "stopping (rn_shared ?r) = True"
      using ready stop by simp_all
    show ?thesis using book jn f unfolding book_def out ready stop jobs by auto
  qed
qed

section \<open>It holds throughout\<close>

lemma settles_cong:
  "rn_shared r' = rn_shared r \<Longrightarrow> rn_queue r' = rn_queue r \<Longrightarrow> rn_running r' = rn_running r \<Longrightarrow> rn_next r' = rn_next r \<Longrightarrow>
    rn_consumer r' = rn_consumer r \<Longrightarrow> settles k s u r' = settles k s u r"
  using book_cong[of r' r] by (simp add: settles_def)

text \<open>A call of the consumer at index \<open>i\<close>.\<close>

lemma consume_step:
  assumes "consumed_to k s i (rn_consumer r)" and "i < cc_chunks k" and "cc_produce k i = Returned chunk"
    and "cc_consume k i chunk (rn_consumer r) = (s', res)"
  shows "serial_from k [0..<Suc i] s = (s', res)" and "res \<noteq> Returned () \<Longrightarrow> fault_of k s res"
proof -
  have c: "serial_from k [0..<i] s = (rn_consumer r, Returned ())" using assms(1) by (simp add: consumed_to_def)
  show "serial_from k [0..<Suc i] s = (s', res)" using serial_next[OF c assms(3)] assms(4) by simp
  assume "res \<noteq> Returned ()"
  then show "fault_of k s res"
    unfolding fault_of_def using c assms(2-4) by (intro disjI2 exI[of _ i] conjI exI[of _ "rn_consumer r"] exI[of _ chunk]) simp_all
qed

lemma phase_settles: "i < cc_chunks k \<Longrightarrow> book k s i i r \<Longrightarrow> consumed_to k s i (rn_consumer r) \<Longrightarrow>
    stopping (rn_shared r) \<Longrightarrow> settles k s None r"
  unfolding settles_def consumed_to_def by (auto intro!: exI[of _ i])

lemma settles_finishes:
  assumes "settles k s u r"
  shows "finishes k s (call_result u (rn_shared r)) (rn_consumer r)"
proof -
  from assms obtain lo pos where B: "book k s lo pos r" "\<forall>p. u = Some p \<longrightarrow> fault_of k s (Panicked p)"
    "\<exists>i\<le>cc_chunks k. rn_consumer r = fst (serial_from k [0..<i] s)"
    "u = None \<longrightarrow> stopping (rn_shared r) \<or> consumed_to k s (cc_chunks k) (rn_consumer r)" unfolding settles_def by blast
  have f: "\<forall>e. cs_failed (rn_shared r) = Some e \<longrightarrow> fault_of k s (Failed e)"
    "\<forall>p. cs_panicked (rn_shared r) = Some p \<longrightarrow> fault_of k s (Panicked p)" using B(1) by (simp_all add: book_def)
  show ?thesis
  proof (cases "call_result u (rn_shared r) = Returned ()")
    case True
    then have "u = None" "\<not> stopping (rn_shared r)" by (auto simp: call_result_def stopping_def split: option.splits)
    then show ?thesis using B True by (simp add: finishes_def)
  next
    case False
    then have "fault_of k s (call_result u (rn_shared r))"
      using B(2) f by (auto simp: call_result_def split: option.splits)
    then show ?thesis using False B(3) by (simp add: finishes_def)
  qed
qed

lemma settles_finish_job:
  assumes "settles k s u r" and "j \<in> rn_running r"
  shows "settles k s u (r\<lparr>rn_shared := publish j (cc_produce k j) (rn_shared r),
    rn_running := rn_running r - {j}, rn_caller := caller\<rparr>)"
    (is "settles k s u ?r")
proof -
  from assms(1) obtain lo pos where b: "book k s lo pos r" "pos \<le> lo" unfolding settles_def by blast
  from book_finish[OF b(1) assms(2)] b(2) have "\<exists>lo pos. book k s lo pos ?r \<and> pos \<le> lo" by blast
  then show ?thesis using assms(1) unfolding settles_def by (auto simp: publish_fields(3))
qed

lemma phase_finish:
  assumes "phase k s (rn_caller r) r" and j: "j \<in> rn_running r"
  shows "phase k s (awake (rn_caller r)) (r\<lparr>rn_shared := publish j (cc_produce k j) (rn_shared r),
    rn_running := rn_running r - {j}, rn_caller := awake (rn_caller r)\<rparr>)"
  using assms(1)
proof (cases "rn_caller r")
  case (Taking i)
  then show ?thesis using assms(1) book_finish[OF _ j, of k s i i "Taking i"] by (auto simp: publish_fields(3))
qed (use assms book_finish[OF _ j] settles_finish_job[OF _ j] in auto)

lemma phase_consumed:
  assumes caller: "rn_caller r = Consuming i chunk" and phase: "phase k s (rn_caller r) r"
    and c: "cc_consume k i chunk (rn_consumer r) = (s', res)"
  shows "Suc i \<le> cc_chunks k" and "serial_from k [0..<Suc i] s = (s', res)" and "book k s (Suc i) (Suc i) r"
    and "res \<noteq> Returned () \<Longrightarrow> fault_of k s res"
proof -
  from phase have A: "i < cc_chunks k" "book k s (Suc i) i r" "consumed_to k s i (rn_consumer r)" "cc_produce k i = Returned chunk"
    by (simp_all add: caller)
  show "Suc i \<le> cc_chunks k" using A(1) by simp
  show "serial_from k [0..<Suc i] s = (s', res)" by (rule consume_step(1)[OF A(3,1,4) c])
  show "book k s (Suc i) (Suc i) r" by (rule book_advance[OF A(2)])
  show "res \<noteq> Returned () \<Longrightarrow> fault_of k s res" by (rule consume_step(2)[OF A(3,1,4) c])
qed

lemma phase_step:
  assumes "chunk_step k r r'" and "phase k s (rn_caller r) r"
  shows "phase k s (rn_caller r') r'"
  using assms
proof cases
  case (fill i)
  then show ?thesis using assms(2) book_submit[of k s i r] by (auto simp: stopping_def)
next
  case (take i chunk)
  then show ?thesis using assms(2) book_take[of k s i r chunk] by simp
next
  case (stop i)
  then show ?thesis using assms(2) phase_settles[of i k s r] settles_cong[of r' r k s None] by simp
next
  case (sleep i)
  then show ?thesis using assms(2) by auto
next
  case (consumed i chunk s')
  note P = phase_consumed[OF consumed(2) assms(2) consumed(3)]
  have c: "consumed_to k s (Suc i) s'" using P(1,2) by (simp add: consumed_to_def)
  show ?thesis
  proof (cases "Suc i < cc_chunks k")
    case True
    then show ?thesis using P(3) c by (simp add: consumed(1))
  next
    case False
    then have "Suc i = cc_chunks k" using P(1) by simp
    then show ?thesis using P(2,3) c unfolding consumed(1)
      by (auto simp: settles_def intro!: exI[of _ "Suc i"])
  qed
next
  case (refused i chunk s' e)
  note P = phase_consumed[OF refused(2) assms(2) refused(3)]
  have "stopping (rn_shared r')" by (simp add: refused(1) stopping_def get_or_insert_def split: option.splits)
  moreover have "book k s (Suc i) (Suc i) r'" unfolding refused(1) using P(3,4) by (intro book_refuse) simp_all
  moreover have "rn_consumer r' = fst (serial_from k [0..<Suc i] s)" using P(2) by (simp add: refused(1))
  ultimately have "settles k s None r'" using P(1) unfolding settles_def by blast
  then show ?thesis by (simp add: refused(1))
next
  case (unwound i chunk s' p)
  note P = phase_consumed[OF unwound(2) assms(2) unwound(3)]
  have "book k s (Suc i) (Suc i) r'" using P(3) by (simp add: unwound(1))
  moreover have "rn_consumer r' = fst (serial_from k [0..<Suc i] s)" using P(2) by (simp add: unwound(1))
  ultimately have "settles k s (Some p) r'" using P(1,4) unfolding settles_def by blast
  then show ?thesis by (simp add: unwound(1))
next
  case (settle_sleep u)
  then show ?thesis using assms(2) settles_cong[of r' r k s u] by simp
next
  case (settled u)
  have "settles k s u r" using assms(2) settled(2) by simp
  moreover from this have "rn_queue r = [] \<and> rn_running r = {}"
    using settled(3) by (auto simp: settles_def book_def)
  ultimately show ?thesis using settles_finishes by (simp add: settled(1))
next
  case (start j q)
  have eq: "rn_shared r' = rn_shared r" "rn_next r' = rn_next r" "rn_consumer r' = rn_consumer r" "rn_caller r' = rn_caller r"
    by (simp_all add: start(1))
  have b: "book k s lo i r'" if "book k s lo i r" for lo i
    unfolding start(1) by (rule book_start[OF that start(2)])
  then have "settles k s u r'" if "settles k s u r" for u
    using that unfolding settles_def eq by blast
  then show ?thesis using assms(2) b start(2) unfolding eq by (cases "rn_caller r") (auto simp: eq)
next
  case (finish j)
  then show ?thesis using phase_finish[OF assms(2)] by simp
qed

lemma reachable_phase: "reachable k s r \<Longrightarrow> phase k s (rn_caller r) r"
proof (induction rule: reachable.induct)
  case reach_start
  then show ?case
    by (simp add: call_start_def book_def jobs_def consumed_to_def)
next
  case (reach_step r r')
  show ?case by (rule phase_step[OF reach_step(2,3)])
qed

text \<open>The serial loop finishes in the same way.\<close>

lemma serial_finishes:
  assumes "serial_chunks k s = (s', res)"
  shows "finishes k s res s'"
proof -
  have from_here: "finishes k s res s'" if "i \<le> cc_chunks k" "serial_from k [0..<i] s = (s1, Returned ())"
    "serial_from k [i..<cc_chunks k] s1 = (s', res)" for i s1
    using that
  proof (induction "cc_chunks k - i" arbitrary: i s1)
    case 0
    then show ?case by (auto simp: finishes_def consumed_to_def intro!: exI[of _ i])
  next
    case (Suc d)
    then have i: "i < cc_chunks k" "[i..<cc_chunks k] = i # [Suc i..<cc_chunks k]" by (simp_all add: upt_conv_Cons)
    show ?case
    proof (cases "cc_produce k i")
      case (Returned chunk)
      obtain s2 res2 where c: "cc_consume k i chunk s1 = (s2, res2)" by force
      have n: "serial_from k [0..<Suc i] s = (s2, res2)" using serial_next[OF Suc.prems(2) Returned] c by simp
      have f: "fault_of k s res2" if "res2 \<noteq> Returned ()"
        unfolding fault_of_def using i(1) Suc.prems(2) Returned c that by fastforce
      show ?thesis
      proof (cases "res2 = Returned ()")
        case True
        then show ?thesis using Suc.hyps(1)[of "Suc i" s2] Suc.hyps(2) Suc.prems(3) i n c by (simp add: Returned)
      next
        case False
        then have "res = res2 \<and> s' = s2" using Suc.prems(3) c by (cases res2) (auto simp: i(2) Returned)
        then show ?thesis using f False i(1) n by (auto simp: finishes_def intro!: exI[of _ "Suc i"])
      qed
    qed (use Suc.prems i in \<open>auto simp: finishes_def fault_of_def intro!: exI[of _ i]\<close>)
  qed
  show ?thesis using from_here[of 0 s] assms by (simp add: serial_chunks_def)
qed

end
