(* ===== verification/Chunk_Properties.thy ===== *)
theory Chunk_Properties
  imports Ordered_Chunks
begin

text \<open>
  What \<open>ordered_chunks\<close> guarantees under every schedule of the pool: it is the serial loop, it always
  ends, its look-ahead is bounded, and no job outlives the call that lent it \<open>produce\<close>.
\<close>

section \<open>The serial loop\<close>

text \<open>
  C30: however the pool schedules the jobs, a call of \<open>ordered_chunks\<close> returns exactly when the
  serial loop does, and then the consumer has seen the same chunks in the same order.  Otherwise
  it reports something that did go wrong, in a production or in a consumption after the ones
  before it, and the consumer is where the serial loop over some prefix leaves it.
\<close>

theorem ordered_chunks_is_serial:
  assumes "ordered_chunks k pooled s s' res"
  shows "(res = Returned () \<longleftrightarrow> snd (serial_chunks k s) = Returned ()) \<and>
    (res = Returned () \<longrightarrow> s' = fst (serial_chunks k s)) \<and> (res \<noteq> Returned () \<longrightarrow> fault_of k s res) \<and>
    (\<exists>i\<le>cc_chunks k. s' = fst (serial_from k [0..<i] s))"
proof -
  have F: "finishes k s res s'"
    using assms
  proof cases
    case no_chunks
    then show ?thesis by (simp add: finishes_def consumed_to_def)
  next
    case serially
    show ?thesis by (rule serial_finishes[OF serially(3)])
  next
    case (on_the_pool r)
    then show ?thesis using reachable_phase[of k s r] by simp
  qed
  show ?thesis
  proof (cases "res = Returned ()")
    case True
    then have "serial_chunks k s = (s', Returned ())" using F consumed_all[of k s s'] True by (simp add: finishes_def)
    then show ?thesis using F True by (simp add: finishes_def)
  next
    case False
    then have "fault_of k s res" using F by (simp add: finishes_def)
    then show ?thesis using F False fault_stops_serial[of k s res] by (auto simp: finishes_def)
  qed
qed

section \<open>Progress and termination\<close>

fun rank :: "nat \<Rightarrow> ('c, 'e, 'p) caller \<Rightarrow> nat" where
  "rank n (Filling i) = 4 * (n - i) + 2"
| "rank n (Taking i) = 4 * (n - i) + 1"
| "rank n (Asleep i) = 4 * (n - i)"
| "rank n (Consuming i chunk) = 4 * (n - i) - 1"
| "rank n (Settling u) = 2"
| "rank n (Settling_Asleep u) = 1"
| "rank n (Finished res) = 0"

definition run_weight :: "('s, 'c, 'e, 'p) chunk_call \<Rightarrow> ('s, 'c, 'e, 'p) chunk_run \<Rightarrow> nat" where
  "run_weight k r = 3 * (cc_chunks k - rn_next r) + 3 * length (rn_queue r) + 2 * card (rn_running r) +
    rank (cc_chunks k) (rn_caller r)"

lemma phase_book: "phase k s (rn_caller r) r \<Longrightarrow> (\<exists>lo pos. book k s lo pos r \<and> pos \<le> lo) \<or> (\<exists>res. rn_caller r = Finished res)"
proof (cases "rn_caller r")
  case (Consuming i chunk)
  moreover assume "phase k s (rn_caller r) r"
  ultimately have "book k s (Suc i) i r \<and> i \<le> Suc i" by simp
  then show ?thesis by blast
qed (auto simp: settles_def)

lemma step_decreases:
  assumes step: "chunk_step k r r'" and phase: "phase k s (rn_caller r) r"
  shows "run_weight k r' < run_weight k r"
  using step
proof cases
  case (fill i)
  then have b: "i < cc_chunks k" "book k s i i r" using phase by simp_all
  then have "i \<le> rn_next r" "rn_next r \<le> cc_chunks k" "rn_next r \<le> i + max_inflight k" by (simp_all add: book_def)
  from submit_ahead_eq[OF b(1) this] obtain m where
    m: "submit_ahead k i r = r\<lparr>
      rn_shared := (rn_shared r)\<lparr>cs_outstanding := cs_outstanding (rn_shared r) + (m - rn_next r)\<rparr>,
      rn_queue := rn_queue r @ [rn_next r..<m], rn_next := m\<rparr>" "rn_next r \<le> m" "m \<le> cc_chunks k" by blast
  show ?thesis unfolding run_weight_def fill(1) m(1) using m(2,3) by (simp add: fill(2))
next
  case (consumed i chunk s')
  then have "i < cc_chunks k" using phase by simp
  then show ?thesis by (auto simp: run_weight_def consumed)
next
  case (start j q)
  from phase_book[OF phase] have "finite (rn_running r) \<and> j \<notin> rn_running r"
    using phase start(2) by (auto simp: book_def)
  then show ?thesis by (simp add: run_weight_def start)
next
  case (finish j)
  have "rank n (awake c) \<le> rank n c + 1" for n and c :: "('b, 'c, 'd) caller" by (cases c) auto
  moreover from phase_book[OF phase] have "finite (rn_running r)" using phase by (auto simp: book_def)
  then have "card (rn_running r) = Suc (card (rn_running r - {j}))" using finish(2) by (rule card.remove)
  ultimately show ?thesis using le_imp_less_Suc by (fastforce simp: run_weight_def finish(1))
qed (use phase in \<open>auto simp: run_weight_def\<close>)

text \<open>No state but a finished one is stuck.\<close>

lemma jobs_can_move:
  assumes "jobs r \<noteq> {}" and "0 < cc_threads k"
  shows "\<exists>r'. chunk_step k r r'"
proof (cases "rn_running r = {}")
  case True
  then obtain j q where "rn_queue r = j # q" using assms(1) by (cases "rn_queue r") (auto simp: jobs_def)
  then show ?thesis using chunk_step.start[of r j q k] assms(2) True by auto
next
  case False
  then show ?thesis using chunk_step.finish by fast
qed

lemma phase_moves:
  assumes phase: "phase k s (rn_caller r) r" and threads: "0 < cc_threads k"
  shows "(\<exists>res. rn_caller r = Finished res) \<or> (\<exists>r'. chunk_step k r r')"
proof (cases "rn_caller r")
  case (Filling i)
  then show ?thesis using chunk_step.fill by fast
next
  case (Taking i)
  then show ?thesis using chunk_step.take[OF Taking] chunk_step.stop[OF Taking] chunk_step.sleep[OF Taking]
    by (cases "cs_ready (rn_shared r) i") blast+
next
  case (Asleep i)
  then have "i < rn_next r" "book k s i i r" "cs_ready (rn_shared r) i = None" "\<not> stopping (rn_shared r)"
    using phase by simp_all
  then have "i \<in> jobs r" by (auto simp: book_def)
  then show ?thesis using jobs_can_move threads by blast
next
  case (Consuming i chunk)
  obtain s' res where c: "cc_consume k i chunk (rn_consumer r) = (s', res)" by force
  show ?thesis using chunk_step.consumed[OF Consuming] chunk_step.refused[OF Consuming] chunk_step.unwound[OF Consuming] c
    by (cases res) (simp, blast)+
next
  case (Settling u)
  then show ?thesis using chunk_step.settled[OF Settling] chunk_step.settle_sleep[OF Settling] by blast
next
  case (Settling_Asleep u)
  then have "0 < cs_outstanding (rn_shared r)" "settles k s u r" using phase by simp_all
  then have "jobs r \<noteq> {}" by (auto simp: settles_def book_def jobs_def)
  then show ?thesis using jobs_can_move threads by blast
qed blast

text \<open>
  C31: a call of \<open>ordered_chunks\<close> always ends.  There is no infinite run from its start, so no
  wake-up is lost and no schedule starves it, and as long as the pool has a thread every state
  it reaches is finished or can take a step: the call neither deadlocks nor sleeps forever.
\<close>

theorem ordered_chunks_always_ends:
  "wf {(r', r). reachable k s r \<and> chunk_step k r r'} \<and>
    (\<forall>r. reachable k s r \<longrightarrow> 0 < cc_threads k \<longrightarrow> (\<exists>res. rn_caller r = Finished res) \<or> (\<exists>r'. chunk_step k r r'))"
proof
  have "{(r', r). reachable k s r \<and> chunk_step k r r'} \<subseteq> measure (run_weight k)"
    by (auto intro: step_decreases[OF _ reachable_phase])
  then show "wf {(r', r). reachable k s r \<and> chunk_step k r r'}" by (rule wf_subset[OF wf_measure])
  show "\<forall>r. reachable k s r \<longrightarrow> 0 < cc_threads k \<longrightarrow> (\<exists>res. rn_caller r = Finished res) \<or> (\<exists>r'. chunk_step k r r')"
    by (intro allI impI) (rule phase_moves[OF reachable_phase])
qed

text \<open>Hence a call returns.\<close>

lemma run_finishes:
  assumes "reachable k s r" and "0 < cc_threads k"
  shows "\<exists>r' res. reachable k s r' \<and> rn_caller r' = Finished res"
  using assms(1)
proof (induction "run_weight k r" arbitrary: r rule: less_induct)
  case less
  then show ?case using phase_moves[OF reachable_phase[OF less.prems] assms(2)] step_decreases[OF _ reachable_phase[OF less.prems]]
    reach_step[OF less.prems] by metis
qed

text \<open>
  A condition variable may wake its waiter for no reason.  The waiter then looks again and goes
  back to the very state it was in, so these wake-ups are left out of the steps.
\<close>

lemma spurious_wake:
  assumes "reachable k s r"
  shows "rn_caller r = Asleep i \<Longrightarrow> chunk_step k (r\<lparr>rn_caller := Taking i\<rparr>) r"
    and "rn_caller r = Settling_Asleep u \<Longrightarrow> chunk_step k (r\<lparr>rn_caller := Settling u\<rparr>) r"
proof -
  note phase = reachable_phase[OF assms]
  have same: "rn_caller r = c \<Longrightarrow> r\<lparr>rn_caller := c\<rparr> = r" for c by (cases r) simp
  show "chunk_step k (r\<lparr>rn_caller := Taking i\<rparr>) r" if "rn_caller r = Asleep i"
  proof -
    have "chunk_step k (r\<lparr>rn_caller := Taking i\<rparr>) (r\<lparr>rn_caller := Asleep i\<rparr>)"
      using phase that chunk_step.sleep[of "r\<lparr>rn_caller := Taking i\<rparr>" i k] by simp
    then show ?thesis unfolding same[OF that] .
  qed
  show "chunk_step k (r\<lparr>rn_caller := Settling u\<rparr>) r" if "rn_caller r = Settling_Asleep u"
  proof -
    have "chunk_step k (r\<lparr>rn_caller := Settling u\<rparr>) (r\<lparr>rn_caller := Settling_Asleep u\<rparr>)"
      using phase that chunk_step.settle_sleep[of "r\<lparr>rn_caller := Settling u\<rparr>" u k] by simp
    then show ?thesis unfolding same[OF that] .
  qed
qed

section \<open>Bounds\<close>

lemma book_bound:
  assumes "book k s lo pos r"
  shows "card (jobs r) + card (dom (cs_ready (rn_shared r))) \<le> pos + max_inflight k - lo"
proof -
  have s: "jobs r \<union> dom (cs_ready (rn_shared r)) \<subseteq> {lo..<rn_next r}" "jobs r \<inter> dom (cs_ready (rn_shared r)) = {}"
    "rn_next r \<le> pos + max_inflight k" using assms by (auto simp: book_def)
  then have "finite (jobs r)" "finite (dom (cs_ready (rn_shared r)))" by (auto intro: finite_subset[of _ "{lo..<rn_next r}"])
  then have "card (jobs r) + card (dom (cs_ready (rn_shared r))) = card (jobs r \<union> dom (cs_ready (rn_shared r)))"
    using s(2) by (simp add: card_Un_disjoint)
  also have "\<dots> \<le> card {lo..<rn_next r}" using s(1) by (intro card_mono) simp_all
  also have "\<dots> \<le> pos + max_inflight k - lo" using s(3) by simp
  finally show ?thesis .
qed

text \<open>
  C32: a call never holds more than twice its workers' chunks in memory, counting the queued and
  running jobs, the chunks that are ready and the one being consumed; and when it returns, or
  unwinds, none of its jobs is queued or running and nothing can happen to it any more, so the
  closure it lent to the pool is not used after the call.
\<close>

theorem no_job_outlives_call:
  assumes "reachable k s r"
  shows "card (jobs r) + card (dom (cs_ready (rn_shared r))) +
      (case rn_caller r of Consuming i chunk \<Rightarrow> 1 | _ \<Rightarrow> 0) \<le> 2 * max (cc_workers k) 1 \<and>
    (\<forall>res. rn_caller r = Finished res \<longrightarrow> jobs r = {} \<and> \<not> (\<exists>r'. chunk_step k r r'))"
proof
  have phase: "phase k s (rn_caller r) r" by (rule reachable_phase[OF assms])
  have m: "max_inflight k \<le> 2 * max (cc_workers k) 1" by (simp add: max_inflight_def)
  show "card (jobs r) + card (dom (cs_ready (rn_shared r))) +
      (case rn_caller r of Consuming i chunk \<Rightarrow> 1 | _ \<Rightarrow> 0) \<le> 2 * max (cc_workers k) 1"
  proof (cases "rn_caller r")
    case (Consuming i chunk)
    then have "i < cc_chunks k" "book k s (Suc i) i r" using phase by simp_all
    then show ?thesis using book_bound[of k s "Suc i" i r] m Consuming by (auto simp: max_inflight_def)
  next
    case (Finished res)
    then show ?thesis using phase by (simp add: jobs_def)
  qed (use phase m book_bound[of k s _ _ r] in \<open>fastforce simp: settles_def\<close>)+
  show "\<forall>res. rn_caller r = Finished res \<longrightarrow> jobs r = {} \<and> \<not> (\<exists>r'. chunk_step k r r')"
  proof (intro allI impI conjI notI)
    fix res assume "rn_caller r = Finished res"
    then have e: "rn_queue r = []" "rn_running r = {}" and c: "rn_caller r = Finished res" using phase by simp_all
    show "jobs r = {}" using e by (simp add: jobs_def)
    assume "\<exists>r'. chunk_step k r r'"
    then obtain r' where "chunk_step k r r'" ..
    then show False by cases (use c e in auto)
  qed
qed

section \<open>A sample\<close>

text \<open>Three chunks on two threads; the second production fails in the second call.\<close>

definition sample_call :: "(nat list, nat, string, string) chunk_call" where
  "sample_call = \<lparr>cc_chunks = 3, cc_workers = 1, cc_threads = 2, cc_produce = (\<lambda>i. Returned (10 * i)),
    cc_consume = (\<lambda>i chunk s. (s @ [chunk], Returned ()))\<rparr>"

definition failing_call :: "(nat list, nat, string, string) chunk_call" where
  "failing_call = sample_call\<lparr>cc_produce := (\<lambda>i. if i = 1 then Failed ''disk'' else Returned (10 * i))\<rparr>"

lemma sample_serial:
  "serial_chunks sample_call [] = ([0, 10, 20], Returned ())" "snd (serial_chunks failing_call []) = Failed ''disk''"
  by (simp_all add: serial_chunks_def sample_call_def failing_call_def upt_rec numeral_3_eq_3)

theorem ordered_chunks_is_serial_witness:
  "ordered_chunks sample_call True [] [0, 10, 20] (Returned ()) \<and>
    (\<exists>s' res. ordered_chunks failing_call True [] s' res \<and> fault_of failing_call [] res)"
proof -
  have t: "0 < cc_chunks sample_call" "0 < cc_threads sample_call" "0 < cc_chunks failing_call" "0 < cc_threads failing_call"
    by (simp_all add: sample_call_def failing_call_def)
  obtain r res where r: "reachable sample_call [] r" "rn_caller r = Finished res"
    using run_finishes[OF reach_start[OF t(1)] t(2)] by blast
  have o1: "ordered_chunks sample_call True [] (rn_consumer r) res" by (rule on_the_pool[OF t(1) TrueI r])
  have "rn_consumer r = [0, 10, 20]" "res = Returned ()"
    using ordered_chunks_is_serial[OF o1] sample_serial(1) by simp_all
  with o1 have one: "ordered_chunks sample_call True [] [0, 10, 20] (Returned ())" by simp
  obtain r' res' where r': "reachable failing_call [] r'" "rn_caller r' = Finished res'"
    using run_finishes[OF reach_start[OF t(3)] t(4)] by blast
  have o2: "ordered_chunks failing_call True [] (rn_consumer r') res'" by (rule on_the_pool[OF t(3) TrueI r'])
  have "res' \<noteq> Returned ()" using ordered_chunks_is_serial[OF o2] sample_serial(2) by auto
  then have "fault_of failing_call [] res'" using ordered_chunks_is_serial[OF o2] by blast
  with one o2 show ?thesis by blast
qed

text \<open>A run of the sample that sleeps: the caller fills, looks for chunk 0, and waits.\<close>

definition sleeping :: "(nat list, nat, string, string) chunk_run" where
  "sleeping = (submit_ahead sample_call 0 (call_start []))\<lparr>rn_caller := Asleep 0\<rparr>"

lemma sample_sleeps: "reachable sample_call [] sleeping" "rn_queue sleeping = [0, 1]"
proof -
  have s: "submit_ahead sample_call 0 (call_start []) = (call_start [])\<lparr>
      rn_shared := \<lparr>cs_ready = Map.empty, cs_failed = None, cs_panicked = None, cs_outstanding = 2\<rparr>, rn_queue := [0, 1], rn_next := 2\<rparr>"
    by (simp add: submit_ahead.simps sample_call_def call_start_def max_inflight_def stopping_def)
  have "reachable sample_call [] (call_start [])" by (rule reach_start) (simp add: sample_call_def)
  from reach_step[OF this chunk_step.fill] have
    f: "reachable sample_call [] ((submit_ahead sample_call 0 (call_start []))\<lparr>rn_caller := Taking 0\<rparr>)"
    by (simp add: call_start_def)
  have "chunk_step sample_call ((submit_ahead sample_call 0 (call_start []))\<lparr>rn_caller := Taking 0\<rparr>)
      ((submit_ahead sample_call 0 (call_start []))\<lparr>rn_caller := Taking 0, rn_caller := Asleep 0\<rparr>)"
    unfolding s by (rule chunk_step.sleep) (simp_all add: call_start_def stopping_def)
  from reach_step[OF f this] show "reachable sample_call [] sleeping" by (simp add: sleeping_def)
  show "rn_queue sleeping = [0, 1]" by (simp add: sleeping_def s)
qed

theorem ordered_chunks_always_ends_witness:
  "rn_caller sleeping = Asleep 0 \<and> (\<exists>r'. chunk_step sample_call sleeping r')"
proof -
  have "(\<exists>res. rn_caller sleeping = Finished res) \<or> (\<exists>r'. chunk_step sample_call sleeping r')"
    using ordered_chunks_always_ends[of sample_call "[]"] sample_sleeps(1) by (simp add: sample_call_def)
  then show ?thesis by (simp add: sleeping_def)
qed

theorem no_job_outlives_call_witness: "card (jobs sleeping) = 2 \<and> card (jobs sleeping) \<le> 2 * max (cc_workers sample_call) 1"
proof -
  have "card (jobs sleeping) = 2" by (simp add: jobs_def sample_sleeps(2)) (simp add: sleeping_def submit_ahead.simps
    sample_call_def call_start_def max_inflight_def stopping_def)
  then show ?thesis using no_job_outlives_call[OF sample_sleeps(1)] by simp
qed

end
