(* ===== verification/Broadcast.thy ===== *)
theory Broadcast
  imports Ctv_Facts Work_Facts
begin

text \<open>
  \<open>broadcast.rs\<close>: the unsigned child that pays the fee of a fanout by spending its keyless anchor
  and a funding output, and the settlement status of a fanout.  \<open>invalid\<close> is
  \<^const>\<open>invalid_ctv_manifest\<close>, \<open>decode_txid\<close> is \<^const>\<open>decode_array\<close> at 32 bytes, and the module's
  \<open>compact_size\<close> computes \<^const>\<open>compact_size\<close>.
\<close>

definition CPFP_CHILD_TX_VERSION :: u32 where "CPFP_CHILD_TX_VERSION = CTV_FANOUT_TX_VERSION"

definition CPFP_CHILD_SEQUENCE :: u32 where "CPFP_CHILD_SEQUENCE = 0xfffffffd"

record cpfp_child_request =
  cq_fanout_txid :: string
  cq_anchor_vout :: u32
  cq_funding_txid :: string
  cq_funding_vout :: u32
  cq_funding_value_sats :: u64
  cq_fee_sats :: u64
  cq_change_script_pubkey_hex :: string

record cpfp_child =
  ch_unsigned_child_tx_hex :: string
  ch_change_value_sats :: u64
  ch_fee_sats :: u64

definition child_input_bytes :: "bytes \<Rightarrow> u32 \<Rightarrow> bytes" where
  "child_input_bytes display_txid vout =
    rev display_txid @ le_bytes 4 (uint vout) @ [0] @ le_bytes 4 (uint CPFP_CHILD_SEQUENCE)"

definition child_output_bytes :: "u64 \<Rightarrow> bytes \<Rightarrow> bytes" where
  "child_output_bytes value_sats script_pubkey =
    le_bytes 8 (uint value_sats) @ compact_size (word_of_nat (length script_pubkey)) @ script_pubkey"

definition build_cpfp_child :: "crypto \<Rightarrow> cpfp_child_request \<Rightarrow> prism_error + cpfp_child" where
  "build_cpfp_child c req =
    rbind (decode_array c 32 (cq_fanout_txid req) ''fanout_txid'') (\<lambda>fanout_txid.
    rbind (decode_array c 32 (cq_funding_txid req) ''funding_txid'') (\<lambda>funding_txid.
    if fanout_txid = funding_txid \<and> cq_anchor_vout req = cq_funding_vout req
    then Inl (invalid_ctv_manifest ''funding input must differ from the anchor outpoint'')
    else
    rbind (decode_field c (cq_change_script_pubkey_hex req) ''change_script_pubkey_hex'') (\<lambda>change_script_pubkey.
    if change_script_pubkey = [] then Inl (invalid_ctv_manifest ''change scriptPubKey must not be empty'')
    else if cq_fee_sats req = 0 then Inl (invalid_ctv_manifest ''CPFP fee must be positive'')
    else if cq_funding_value_sats req \<le> cq_fee_sats req
    then Inl (invalid_ctv_manifest ''funding value must exceed the fee so the change output is positive'')
    else
    let change_value_sats = cq_funding_value_sats req - cq_fee_sats req;
      tx = le_bytes 4 (uint CPFP_CHILD_TX_VERSION) @ compact_size 2 @
        child_input_bytes fanout_txid (cq_anchor_vout req) @ child_input_bytes funding_txid (cq_funding_vout req) @
        compact_size 1 @ child_output_bytes change_value_sats change_script_pubkey @ le_bytes 4 0 in
    Inr \<lparr>ch_unsigned_child_tx_hex = hex_encode c tx, ch_change_value_sats = change_value_sats,
      ch_fee_sats = cq_fee_sats req\<rparr>)))"

definition fanout_cpfp_package :: "string \<Rightarrow> string \<Rightarrow> string list" where
  "fanout_cpfp_package parent_fanout_tx_hex signed_child_tx_hex = [parent_fanout_tx_hex, signed_child_tx_hex]"

datatype settlement_status = Reorged | AwaitingMaturity | Broadcastable | Confirmed

definition fanout_settlement_status :: "u64 \<Rightarrow> u64 \<Rightarrow> bool \<Rightarrow> bool \<Rightarrow> settlement_status" where
  "fanout_settlement_status coinbase_height active_tip_height coinbase_in_active_chain fanout_confirmed =
    (if fanout_confirmed then Confirmed
     else if \<not> coinbase_in_active_chain then Reorged
     else if active_tip_height < saturating_add coinbase_height QBIT_COINBASE_MATURITY_BLOCKS then AwaitingMaturity
     else Broadcastable)"

section \<open>The child\<close>

lemma child_input_raw: "child_input_bytes txid vout = raw_in_bytes (rev txid, vout, [], CPFP_CHILD_SEQUENCE)"
  by (simp add: child_input_bytes_def raw_in_bytes_def var_bytes_def compact_size_def)

text \<open>The child is the serialization of a transaction with the two inputs and the change.\<close>

lemma child_tx_bytes:
  "le_bytes 4 (uint CPFP_CHILD_TX_VERSION) @ compact_size 2 @ child_input_bytes a v @ child_input_bytes b w @
    compact_size 1 @ child_output_bytes x script @ le_bytes 4 0 =
  tx_bytes 1 CPFP_CHILD_TX_VERSION False [(rev a, v, [], CPFP_CHILD_SEQUENCE), (rev b, w, [], CPFP_CHILD_SEQUENCE)]
    [\<lparr>to_amount_sats = x, to_script_pubkey = script\<rparr>] [] 0"
  by (simp add: child_input_raw child_output_bytes_def tx_bytes_def body_bytes_def write_size_def tx_out_bytes_def
      var_bytes_def)

lemma build_cpfp_child_Inr:
  "build_cpfp_child c req = Inr child \<longleftrightarrow> (\<exists>fanout funding script.
    decode_array c 32 (cq_fanout_txid req) ''fanout_txid'' = Inr fanout \<and>
    decode_array c 32 (cq_funding_txid req) ''funding_txid'' = Inr funding \<and>
    decode_field c (cq_change_script_pubkey_hex req) ''change_script_pubkey_hex'' = Inr script \<and>
    (fanout, cq_anchor_vout req) \<noteq> (funding, cq_funding_vout req) \<and> script \<noteq> [] \<and> 0 < cq_fee_sats req \<and>
    cq_fee_sats req < cq_funding_value_sats req \<and>
    child = \<lparr>ch_unsigned_child_tx_hex = hex_encode c (tx_bytes 1 CPFP_CHILD_TX_VERSION False
        [(rev fanout, cq_anchor_vout req, [], CPFP_CHILD_SEQUENCE), (rev funding, cq_funding_vout req, [], CPFP_CHILD_SEQUENCE)]
        [\<lparr>to_amount_sats = cq_funding_value_sats req - cq_fee_sats req, to_script_pubkey = script\<rparr>] [] 0),
      ch_change_value_sats = cq_funding_value_sats req - cq_fee_sats req, ch_fee_sats = cq_fee_sats req\<rparr>)"
  unfolding build_cpfp_child_def Let_def child_tx_bytes
  by (auto simp: word_neq_0_conv not_le)

text \<open>
  C33: a child the broadcaster builds parses back to a version-3 transaction with exactly two
  inputs, the fanout's anchor and the funding output, both signalling replacement, and exactly
  one output that returns the funding value less the fee, a positive amount, to the given
  script: it pays nothing else and cannot touch the fanout's payouts.
\<close>

theorem cpfp_child_exact:
  assumes hex: "hex_documented c" and child: "build_cpfp_child c req = Inr child"
    and money: "uint (cq_funding_value_sats req) \<le> uint QBIT_MAX_MONEY_SATS"
    and len: "length (cq_change_script_pubkey_hex req) < 2 ^ 64"
  shows "\<exists>tx script. parse_transaction_hex c (ch_unsigned_child_tx_hex child) field = Inr tx \<and>
    hex_decode c (cq_change_script_pubkey_hex req) = Inr script \<and> tx_version tx = 3 \<and> tx_lock_time tx = 0 \<and>
    tx_inputs tx = [\<lparr>ti_prev_txid_hex = to_ascii_lowercase (cq_fanout_txid req), ti_prev_vout = cq_anchor_vout req,
        ti_script_sig = [], ti_sequence = 0xfffffffd\<rparr>,
      \<lparr>ti_prev_txid_hex = to_ascii_lowercase (cq_funding_txid req), ti_prev_vout = cq_funding_vout req,
        ti_script_sig = [], ti_sequence = 0xfffffffd\<rparr>] \<and>
    tx_outputs tx = [\<lparr>to_amount_sats = ch_change_value_sats child, to_script_pubkey = script\<rparr>] \<and>
    uint (ch_change_value_sats child) + uint (ch_fee_sats child) = uint (cq_funding_value_sats req) \<and>
    0 < ch_change_value_sats child"
proof -
  from child obtain fanout funding script where
    D: "decode_array c 32 (cq_fanout_txid req) ''fanout_txid'' = Inr fanout"
    "decode_array c 32 (cq_funding_txid req) ''funding_txid'' = Inr funding"
    "decode_field c (cq_change_script_pubkey_hex req) ''change_script_pubkey_hex'' = Inr script" and
    fee: "0 < cq_fee_sats req" "cq_fee_sats req < cq_funding_value_sats req" and
    ch: "child = \<lparr>ch_unsigned_child_tx_hex = hex_encode c (tx_bytes 1 CPFP_CHILD_TX_VERSION False
        [(rev fanout, cq_anchor_vout req, [], CPFP_CHILD_SEQUENCE), (rev funding, cq_funding_vout req, [], CPFP_CHILD_SEQUENCE)]
        [\<lparr>to_amount_sats = cq_funding_value_sats req - cq_fee_sats req, to_script_pubkey = script\<rparr>] [] 0),
      ch_change_value_sats = cq_funding_value_sats req - cq_fee_sats req, ch_fee_sats = cq_fee_sats req\<rparr>"
    unfolding build_cpfp_child_Inr by blast
  have dec: "hex_decode c (cq_fanout_txid req) = Inr fanout" "length fanout = 32"
    "hex_decode c (cq_funding_txid req) = Inr funding" "length funding = 32"
    "hex_decode c (cq_change_script_pubkey_hex req) = Inr script"
    using D by (auto simp: decode_array_def decode_field_def split: if_splits)
  have low: "hex_encode c fanout = to_ascii_lowercase (cq_fanout_txid req)"
    "hex_encode c funding = to_ascii_lowercase (cq_funding_txid req)"
    using hex_lower[OF hex] dec(1,3) by simp_all
  have sub: "uint (cq_funding_value_sats req - cq_fee_sats req) = uint (cq_funding_value_sats req) - uint (cq_fee_sats req)"
    using fee(2) uint_sub_lem[of "cq_fee_sats req" "cq_funding_value_sats req"] by (simp add: word_less_def)
  have "0 \<le> uint (cq_fee_sats req)" by simp
  then have change: "uint (cq_funding_value_sats req - cq_fee_sats req) \<le> uint QBIT_MAX_MONEY_SATS"
    unfolding sub using money by linarith
  have "length script \<le> length (cq_change_script_pubkey_hex req)"
    using dec(5) hex model_decode_length by (fastforce simp: hex_documented_def)
  then have "parts_ok False [(rev fanout, cq_anchor_vout req, [], CPFP_CHILD_SEQUENCE),
      (rev funding, cq_funding_vout req, [], CPFP_CHILD_SEQUENCE)]
      [\<lparr>to_amount_sats = cq_funding_value_sats req - cq_fee_sats req, to_script_pubkey = script\<rparr>] []"
    using dec(2,4) len change
    by (simp add: parts_ok_def raw_in_valid_def tx_out_valid_def money_ok_def stacks_ok_def word_le_def)
  note parse = parse_transaction_complete[OF hex_documented_ok[OF hex] this, of 1 field CPFP_CHILD_TX_VERSION 0]
  let ?tx = "parsed_of c CPFP_CHILD_TX_VERSION False
      [(rev fanout, cq_anchor_vout req, [], CPFP_CHILD_SEQUENCE), (rev funding, cq_funding_vout req, [], CPFP_CHILD_SEQUENCE)]
      [\<lparr>to_amount_sats = cq_funding_value_sats req - cq_fee_sats req, to_script_pubkey = script\<rparr>] [] 0"
  have "parse_transaction_hex c (ch_unsigned_child_tx_hex child) field = Inr ?tx"
    using parse hex_documented_ok[OF hex] by (simp add: parse_transaction_hex_def ch hex_ok_def)
  then show ?thesis
    using dec(5) sub fee by (intro exI[of _ ?tx] exI[of _ script])
      (simp add: parsed_of_def display_in_def low ch CPFP_CHILD_TX_VERSION_def CTV_FANOUT_TX_VERSION_def
        CPFP_CHILD_SEQUENCE_def word_less_def)
qed

definition sample_child_request :: cpfp_child_request where
  "sample_child_request = \<lparr>cq_fanout_txid = model_hex_encode (replicate 32 1), cq_anchor_vout = 2,
    cq_funding_txid = model_hex_encode (replicate 32 2), cq_funding_vout = 1, cq_funding_value_sats = 50000,
    cq_fee_sats = 12000, cq_change_script_pubkey_hex = ''5220''\<rparr>"

theorem cpfp_child_exact_witness:
  "\<exists>child. build_cpfp_child model_crypto sample_child_request = Inr child \<and>
    uint (ch_change_value_sats child) + uint (ch_fee_sats child) = 50000"
proof -
  have "\<not> sum.isl (build_cpfp_child model_crypto sample_child_request)" by code_simp
  then obtain child where c: "build_cpfp_child model_crypto sample_child_request = Inr child"
    by (metis sum.collapse(2))
  have "uint (cq_funding_value_sats sample_child_request) \<le> uint QBIT_MAX_MONEY_SATS"
    "length (cq_change_script_pubkey_hex sample_child_request) < 2 ^ 64"
    by (simp_all add: sample_child_request_def QBIT_MAX_MONEY_SATS_def)
  from cpfp_child_exact[OF model_hex_documented c this] c show ?thesis by (auto simp: sample_child_request_def)
qed

text \<open>A fanout is broadcast only between the maturity of its coinbase and its own confirmation.\<close>

lemma broadcastable_iff:
  "fanout_settlement_status height tip active confirmed = Broadcastable \<longleftrightarrow>
    \<not> confirmed \<and> active \<and> min (uint height + uint QBIT_COINBASE_MATURITY_BLOCKS) (2 ^ 64 - 1) \<le> uint tip"
  by (auto simp: fanout_settlement_status_def uint_saturating_add word_less_def not_less)

end
