(* ===== verification/Divergence.thy ===== *)
theory Divergence
  imports Policy_Sound
begin

text \<open>
  \<open>ledger/divergence.rs\<close> of the server: the most debt a block can create (\<open>overpay_bound\<close>), the debt
  its rows create when they start to count (\<open>rows_divergence\<close>), and the decision to offer a block
  whose payout revision was superseded.  The \<open>HashMap\<close> of balances is used for lookups and for sums
  of terms that are not negative, so it is modelled by the sorted map; where an \<open>i128\<close> addition
  would overflow the model stops, and the theorems show that it does not.  What the database
  answers is an argument of the decision.
\<close>

section \<open>Checked arithmetic\<close>

definition add_i128 :: "i128 \<Rightarrow> i128 \<Rightarrow> prism_error + i128" where
  "add_i128 a b = ok_or (checked_add_i128 a b) (Panic ''arithmetic overflow'')"

definition sub_i128 :: "i128 \<Rightarrow> i128 \<Rightarrow> prism_error + i128" where
  "sub_i128 a b = ok_or (checked_sub_i128 a b) (Panic ''arithmetic overflow'')"

definition sum_i128 :: "i128 list \<Rightarrow> prism_error + i128" where
  "sum_i128 xs = try_fold add_i128 0 xs"

section \<open>The bound and the ceiling\<close>

definition overpay_ceiling_sats :: "u64 \<Rightarrow> u16 \<Rightarrow> i128" where
  "overpay_ceiling_sats coinbase_value_sats bps = uint coinbase_value_sats * uint bps div 10000"

definition program_key :: "string \<Rightarrow> string" where
  "program_key hex = to_ascii_lowercase hex"

definition balance_map :: "carry_forward_balance list \<Rightarrow> prism_error + (string, i128) btree" where
  "balance_map balances =
    bt_group (\<lambda>b. program_key (cb_program b)) (\<lambda>_. 0) (\<lambda>b total. add_i128 total (cb_balance_sats b)) [] balances"

definition overpay_bound :: "carry_forward_balance list \<Rightarrow> prism_error + i128" where
  "overpay_bound issued =
    rbind (balance_map issued) (\<lambda>m. sum_i128 (map (\<lambda>balance. max balance 0) (bt_values m)))"

section \<open>The divergence of a landing\<close>

record account_overpay =
  ao_program :: string
  ao_miner_id :: string
  ao_issued_prior_sats :: i128
  ao_current_prior_sats :: i128
  ao_gross_sats :: i128
  ao_onchain_sats :: i128
  ao_overpay_sats :: i128
  ao_debt_after_sats :: i128

record divergence =
  dv_divergent_accounts :: usize
  dv_overpay_sats :: i128
  dv_overpaid_debt_after_sats :: i128
  dv_pool_debt_after_sats :: i128
  dv_overpaid :: "account_overpay list"

record carry_row =
  cr_program :: string
  cr_miner_id :: string
  cr_issued_prior_sats :: i128
  cr_gross_sats :: i128
  cr_onchain_sats :: i128

text \<open>The local \<open>Row\<close>, and what the loop over the block's rows does to its entry.\<close>

record landing_row =
  lr_miner_id :: string
  lr_issued :: i128
  lr_gross :: i128
  lr_onchain :: i128

definition new_row :: "carry_row \<Rightarrow> landing_row" where
  "new_row row = \<lparr>lr_miner_id = cr_miner_id row, lr_issued = 0, lr_gross = 0, lr_onchain = 0\<rparr>"

definition merge_row :: "carry_row \<Rightarrow> landing_row \<Rightarrow> prism_error + landing_row" where
  "merge_row row entry =
    rbind (add_i128 (lr_issued entry) (cr_issued_prior_sats row)) (\<lambda>issued.
    rbind (add_i128 (lr_gross entry) (cr_gross_sats row)) (\<lambda>gross.
    rbind (add_i128 (lr_onchain entry) (cr_onchain_sats row)) (\<lambda>onchain.
    Inr (entry\<lparr>lr_issued := issued, lr_gross := gross, lr_onchain := onchain\<rparr>))))"

definition balance_before :: "(string, i128) btree \<Rightarrow> string \<Rightarrow> i128" where
  "balance_before current program = (case bt_get current program of None \<Rightarrow> 0 | Some b \<Rightarrow> b)"

text \<open>The loop over the programs of the block.\<close>

definition land_row ::
  "(string, i128) btree \<Rightarrow> divergence \<Rightarrow> string \<times> landing_row \<Rightarrow> prism_error + divergence" where
  "land_row current d p = (case p of (program, row) \<Rightarrow>
    let before = balance_before current program in
    rbind (add_i128 before (lr_gross row)) (\<lambda>earned.
    rbind (sub_i128 earned (lr_onchain row)) (\<lambda>after.
    rbind (sub_i128 0 before) (\<lambda>owed_before.
    rbind (sub_i128 0 after) (\<lambda>owed_after.
    let debt_before = max owed_before 0; debt_after = max owed_after 0 in
    rbind (sub_i128 debt_after debt_before) (\<lambda>increase.
    let overpay = max increase 0 in
    rbind (add_i128 (dv_pool_debt_after_sats d) debt_after) (\<lambda>pool.
    let d = d\<lparr>dv_divergent_accounts := dv_divergent_accounts d + (if lr_issued row \<noteq> before then 1 else 0),
      dv_pool_debt_after_sats := pool\<rparr> in
    if 0 < overpay then
      rbind (add_i128 (dv_overpay_sats d) overpay) (\<lambda>total.
      rbind (add_i128 (dv_overpaid_debt_after_sats d) debt_after) (\<lambda>debt.
      Inr (d\<lparr>dv_overpay_sats := total, dv_overpaid_debt_after_sats := debt,
        dv_overpaid := dv_overpaid d @ [\<lparr>ao_program = program, ao_miner_id = lr_miner_id row,
          ao_issued_prior_sats = lr_issued row, ao_current_prior_sats = before, ao_gross_sats = lr_gross row,
          ao_onchain_sats = lr_onchain row, ao_overpay_sats = overpay, ao_debt_after_sats = debt_after\<rparr>]\<rparr>)))
    else Inr d)))))))"

definition no_divergence :: divergence where
  "no_divergence = \<lparr>dv_divergent_accounts = 0, dv_overpay_sats = 0, dv_overpaid_debt_after_sats = 0,
    dv_pool_debt_after_sats = 0, dv_overpaid = []\<rparr>"

definition rows_divergence :: "carry_row list \<Rightarrow> carry_forward_balance list \<Rightarrow> prism_error + divergence" where
  "rows_divergence block_rows current =
    rbind (balance_map current) (\<lambda>current.
    rbind (bt_group (\<lambda>row. program_key (cr_program row)) new_row merge_row [] block_rows) (\<lambda>rows.
    rbind (try_fold (land_row current) no_divergence (bt_entries rows)) (\<lambda>d.
    rbind (try_map (\<lambda>(_, balance). sub_i128 0 balance)
        (filter (\<lambda>(program, _). bt_get rows program = None) (bt_entries current))) (\<lambda>owed.
    rbind (sum_i128 (map (\<lambda>b. max b 0) owed)) (\<lambda>rest.
    rbind (add_i128 (dv_pool_debt_after_sats d) rest) (\<lambda>pool.
    Inr (d\<lparr>dv_pool_debt_after_sats := pool\<rparr>)))))))"

definition carry_row_of :: "policy_account \<Rightarrow> carry_row" where
  "carry_row_of account = \<lparr>cr_program = pa_program account, cr_miner_id = pa_recipient_id account,
    cr_issued_prior_sats = pa_prior_balance account, cr_gross_sats = uint (pa_gross_sats account),
    cr_onchain_sats = uint (pa_onchain_sats account)\<rparr>"

definition landing_divergence ::
  "policy_account list \<Rightarrow> carry_forward_balance list \<Rightarrow> prism_error + divergence" where
  "landing_divergence accounts current =
    rows_divergence (map carry_row_of (filter (\<lambda>a. pa_account_type a = Miner) accounts)) current"

definition carry_free_rows :: "carry_row list \<Rightarrow> bool" where
  "carry_free_rows rows \<longleftrightarrow> list_all (\<lambda>row. cr_issued_prior_sats row = 0 \<and> cr_onchain_sats row \<le> cr_gross_sats row) rows"

section \<open>The offer of a superseded block\<close>

record offer_bound =
  ob_bound_sats :: i128
  ob_ceiling_sats :: i128
  ob_ceiling_bps :: u16
  ob_observed_revision :: i64

datatype offer_reservation = Reserved "offer_bound option" | Refused offer_bound

datatype ('e, 'h) offer_error = Database 'e | Submission_Held 'h | Claim_Lost | Bound_Failed prism_error

text \<open>
  What the function reads of the candidate, and what the database answers to each of its calls:
  the hold of the cluster (twice), the payout revision, the as-issued snapshot, the write of the
  decision, and the number of rows the reservation changed.
\<close>

record offer_candidate =
  oc_leased :: bool
  oc_payout_revision :: i64
  oc_coinbase_value_sats :: u64
  oc_not_current :: bool

record ('e, 'h) offer_database =
  od_hold :: "'e + 'h option"
  od_revision :: "'e + i64"
  od_snapshot :: "'e + carry_forward_balance list"
  od_hold_again :: "'e + 'h option"
  od_record_decision :: "i64 \<Rightarrow> i128 option \<Rightarrow> i128 \<Rightarrow> string \<Rightarrow> 'e + unit"
  od_reserve :: "'e + nat"
  od_commit :: "'e + unit"
  od_rollback :: "'e + unit"

definition asked :: "'e + 'a \<Rightarrow> ('e, 'h) offer_error + 'a" where
  "asked answer = (case answer of Inl e \<Rightarrow> Inl (Database e) | Inr x \<Rightarrow> Inr x)"

definition unless_held :: "'e + 'h option \<Rightarrow> ('e, 'h) offer_error + unit" where
  "unless_held answer = rbind (asked answer) (\<lambda>hold. case hold of Some h \<Rightarrow> Inl (Submission_Held h) | None \<Rightarrow> Inr ())"

definition reserve_in :: "('e, 'h) offer_database \<Rightarrow> offer_bound option \<Rightarrow> ('e, 'h) offer_error + offer_reservation" where
  "reserve_in db bound =
    rbind (asked (od_reserve db)) (\<lambda>reserved.
    if reserved \<noteq> 1 then Inl Claim_Lost
    else rbind (asked (od_commit db)) (\<lambda>_. Inr (Reserved bound)))"

definition reserve_offer_within ::
  "('e, 'h) offer_database \<Rightarrow> offer_candidate \<Rightarrow> u16 option \<Rightarrow> ('e, 'h) offer_error + offer_reservation" where
  "reserve_offer_within db candidate ceiling_bps =
    rbind (unless_held (od_hold db)) (\<lambda>_.
    case (if oc_leased candidate then None else ceiling_bps) of
      None \<Rightarrow> reserve_in db None
    | Some bps \<Rightarrow>
      rbind (asked (od_revision db)) (\<lambda>observed_revision.
      if observed_revision = oc_payout_revision candidate \<and> \<not> oc_not_current candidate then reserve_in db None
      else
      let ceiling_sats = overpay_ceiling_sats (oc_coinbase_value_sats candidate) bps in
      if bps = 0 then
        rbind (asked (od_record_decision db observed_revision None ceiling_sats ''disabled'')) (\<lambda>_.
        rbind (asked (od_commit db)) (\<lambda>_.
        Inr (Refused \<lparr>ob_bound_sats = 0, ob_ceiling_sats = ceiling_sats, ob_ceiling_bps = bps,
          ob_observed_revision = observed_revision\<rparr>)))
      else
        rbind (asked (od_rollback db)) (\<lambda>_.
        rbind (asked (od_snapshot db)) (\<lambda>issued.
        case overpay_bound issued of Inl e \<Rightarrow> Inl (Bound_Failed e) | Inr bound_sats \<Rightarrow>
        let bound = \<lparr>ob_bound_sats = bound_sats, ob_ceiling_sats = ceiling_sats, ob_ceiling_bps = bps,
            ob_observed_revision = observed_revision\<rparr>;
          offered = ob_bound_sats bound \<le> ob_ceiling_sats bound in
        rbind (unless_held (od_hold_again db)) (\<lambda>_.
        rbind (asked (od_record_decision db observed_revision (Some bound_sats) ceiling_sats
            (if offered then ''offered'' else ''abandoned''))) (\<lambda>_.
        if \<not> offered then rbind (asked (od_commit db)) (\<lambda>_. Inr (Refused bound))
        else reserve_in db (Some bound)))))))"


chapter \<open>Facts\<close>

text \<open>
  No sum of \<open>divergence.rs\<close> overflows on balances whose magnitudes add up to less than \<open>2 ^ 127\<close>, and
  what the loops then compute, as plain sums over the programs.
\<close>

lemma add_i128_Inr [word_facts]: "add_i128 a b = Inr c \<longleftrightarrow> c = a + b \<and> - (2 ^ 127) \<le> c \<and> c < 2 ^ 127"
  by (auto simp: add_i128_def checked_add_i128_Some)

lemma sub_i128_Inr [word_facts]: "sub_i128 a b = Inr c \<longleftrightarrow> c = a - b \<and> - (2 ^ 127) \<le> c \<and> c < 2 ^ 127"
  by (auto simp: sub_i128_def checked_sub_i128_Some)

lemma add_i128_ok: "\<bar>a\<bar> + \<bar>b\<bar> < 2 ^ 127 \<Longrightarrow> add_i128 a b = Inr (a + b)"
  by (auto simp: add_i128_Inr)

lemma sub_i128_ok: "\<bar>a\<bar> + \<bar>b\<bar> < 2 ^ 127 \<Longrightarrow> sub_i128 a b = Inr (a - b)"
  by (auto simp: sub_i128_Inr)

lemma try_fold_add_i128:
  "\<bar>s\<bar> + (\<Sum>x\<leftarrow>xs. \<bar>x\<bar>) < 2 ^ 127 \<Longrightarrow> try_fold add_i128 s xs = Inr (s + sum_list xs)"
proof (induction xs arbitrary: s)
  case (Cons x xs)
  have nn: "0 \<le> (\<Sum>x\<leftarrow>xs. \<bar>x\<bar>)" by (rule sum_list_nonneg) auto
  have "add_i128 s x = Inr (s + x)" by (rule add_i128_ok) (use Cons.prems nn in simp)
  moreover have "\<bar>s + x\<bar> + (\<Sum>x\<leftarrow>xs. \<bar>x\<bar>) < 2 ^ 127"
    using Cons.prems abs_triangle_ineq[of s x] by simp
  ultimately show ?case using Cons.IH by simp
qed simp

lemma sum_i128_ok: "(\<Sum>x\<leftarrow>xs. \<bar>x\<bar>) < 2 ^ 127 \<Longrightarrow> sum_i128 xs = Inr (sum_list xs)"
  using try_fold_add_i128[of 0 xs] by (simp add: sum_i128_def)

section \<open>The map of balances\<close>

definition magnitude :: "carry_forward_balance list \<Rightarrow> int" where
  "magnitude bs = (\<Sum>b\<leftarrow>bs. \<bar>cb_balance_sats b\<bar>)"

lemma magnitude_nonneg [simp]: "0 \<le> magnitude bs"
  unfolding magnitude_def by (rule sum_list_nonneg) auto

lemma bt_sum_member: "bt_get m k = Some v \<Longrightarrow> \<bar>v\<bar> \<le> (\<Sum>p\<leftarrow>m. \<bar>snd p\<bar>)" for v :: int
proof -
  assume "bt_get m k = Some v"
  then have "(k, v) \<in> set m" by (auto simp: bt_get_def dest: map_of_SomeD)
  then have "\<bar>v\<bar> \<in> set (map (\<lambda>p. \<bar>snd p\<bar>) m)" by force
  then show ?thesis by (intro member_le_sum_list) auto
qed

lemma balance_group:
  assumes "bt_ok m" and "(\<Sum>p\<leftarrow>m. \<bar>snd p\<bar>) + magnitude bs < 2 ^ 127"
  shows "\<exists>m'. bt_group (\<lambda>b. program_key (cb_program b)) (\<lambda>_. 0) (\<lambda>b total. add_i128 total (cb_balance_sats b)) m bs =
    Inr m' \<and> (\<Sum>p\<leftarrow>m'. \<bar>snd p\<bar>) \<le> (\<Sum>p\<leftarrow>m. \<bar>snd p\<bar>) + magnitude bs"
  using assms
proof (induction bs arbitrary: m)
  case (Cons b bs)
  let ?k = "program_key (cb_program b)"
  let ?u = "case bt_get m ?k of None \<Rightarrow> 0 | Some v \<Rightarrow> v"
  let ?v = "?u + cb_balance_sats b"
  have split: "magnitude (b # bs) = \<bar>cb_balance_sats b\<bar> + magnitude bs" by (simp add: magnitude_def)
  have "0 \<le> (\<Sum>p\<leftarrow>m. \<bar>snd p\<bar>)" by (rule sum_list_nonneg) auto
  then have u: "\<bar>?u\<bar> \<le> (\<Sum>p\<leftarrow>m. \<bar>snd p\<bar>)"
    using bt_sum_member[of m ?k] by (cases "bt_get m ?k") simp_all
  have "0 \<le> magnitude bs" by simp
  then have add: "add_i128 ?u (cb_balance_sats b) = Inr ?v"
    using u Cons.prems(2) unfolding split by (intro add_i128_ok) linarith
  have "(\<Sum>p\<leftarrow>bt_put ?k ?v m. \<bar>snd p\<bar>) = (\<Sum>p\<leftarrow>m. \<bar>snd p\<bar>) + \<bar>?v\<bar> - \<bar>?u\<bar>"
    using bt.sum_entries_put[OF Cons.prems(1), of "\<lambda>p. \<bar>snd p\<bar>" ?k ?v]
    by (simp add: bt_entries_def split: option.splits)
  moreover have "\<bar>?v\<bar> \<le> \<bar>?u\<bar> + \<bar>cb_balance_sats b\<bar>" by (rule abs_triangle_ineq)
  ultimately have s: "(\<Sum>p\<leftarrow>bt_put ?k ?v m. \<bar>snd p\<bar>) \<le> (\<Sum>p\<leftarrow>m. \<bar>snd p\<bar>) + \<bar>cb_balance_sats b\<bar>" by linarith
  then have "(\<Sum>p\<leftarrow>bt_put ?k ?v m. \<bar>snd p\<bar>) + magnitude bs < 2 ^ 127" using Cons.prems(2) unfolding split by linarith
  from Cons.IH[OF bt_ok_put[OF Cons.prems(1)] this] s show ?case
    unfolding bt_group_Cons add split by fastforce
qed (simp add: magnitude_def)

lemma balance_map_ok:
  assumes "magnitude bs < 2 ^ 127"
  obtains m where "balance_map bs = Inr m" "bt_ok m" "(\<Sum>p\<leftarrow>m. \<bar>snd p\<bar>) \<le> magnitude bs"
    "balance_before m = (\<lambda>k. balance_under k bs)"
proof -
  from balance_group[of "[]" bs] assms obtain m where m: "balance_map bs = Inr m" "(\<Sum>p\<leftarrow>m. \<bar>snd p\<bar>) \<le> magnitude bs"
    by (auto simp: balance_map_def bt_ok_def)
  have ok: "bt_ok m" by (rule bt_group_ok[OF m(1)[unfolded balance_map_def]]) (simp add: bt_ok_def)
  have "balance_before m k = balance_under k bs" for k
    using bt_group_sum_at[OF m(1)[unfolded balance_map_def], of "\<lambda>v. v" cb_balance_sats k]
    by (simp add: bt_ok_def add_i128_Inr balance_before_def balance_under_def program_key_def payout_program_key_def bt_get_def)
  then have "balance_before m = (\<lambda>k. balance_under k bs)" by (rule ext)
  with m ok that show thesis by blast
qed

lemma overpay_bound_ok:
  assumes "magnitude bs < 2 ^ 127" and m: "balance_map bs = Inr m" "(\<Sum>p\<leftarrow>m. \<bar>snd p\<bar>) \<le> magnitude bs"
  shows "overpay_bound bs = Inr (\<Sum>p\<leftarrow>m. max (snd p) 0)"
proof -
  have "(\<Sum>p\<leftarrow>m. \<bar>max (snd p) 0\<bar>) \<le> (\<Sum>p\<leftarrow>m. \<bar>snd p\<bar>)" by (rule sum_list_mono) auto
  then have "(\<Sum>x\<leftarrow>map (\<lambda>p. max (snd p) 0) m. \<bar>x\<bar>) < 2 ^ 127" using assms by (simp add: comp_def)
  from sum_i128_ok[OF this] show ?thesis by (simp add: overpay_bound_def m bt_values_def bt_entries_def comp_def)
qed

section \<open>The rows of a block\<close>

text \<open>With distinct keys every row has an entry of its own.\<close>

lemma mset_bt_put: "bt_get m k = None \<Longrightarrow> mset (bt_put k v m) = add_mset (k, v) (mset m)"
  by (induction k v m rule: bt_put.induct) (auto simp: bt_get_def split: if_splits)

lemma bt_group_distinct:
  assumes "bt_ok m" and "distinct (map key xs)" and "\<And>x. x \<in> set xs \<Longrightarrow> bt_get m (key x) = None"
    and "\<And>x. x \<in> set xs \<Longrightarrow> step x (d x) = Inr (f x)"
  shows "\<exists>m'. bt_group key d step m xs = Inr m' \<and> mset m' = mset m + mset (map (\<lambda>x. (key x, f x)) xs)"
  using assms
proof (induction xs arbitrary: m)
  case (Cons x xs)
  have none: "bt_get m (key x) = None" using Cons.prems(3) by simp
  have "bt_get (bt_put (key x) (f x) m) (key y) = None" if "y \<in> set xs" for y
    using that Cons.prems(1-3) by (auto simp: bt_get_put) (metis image_eqI)
  from Cons.IH[OF bt_ok_put[OF Cons.prems(1)] _ this] Cons.prems
  obtain m' where "bt_group key d step (bt_put (key x) (f x) m) xs = Inr m'"
    "mset m' = mset (bt_put (key x) (f x) m) + mset (map (\<lambda>x. (key x, f x)) xs)" by auto
  then show ?case by (simp add: bt_group_Cons none Cons.prems(4) mset_bt_put[OF none])
qed simp

definition row_of :: "carry_row \<Rightarrow> landing_row" where
  "row_of row = \<lparr>lr_miner_id = cr_miner_id row, lr_issued = cr_issued_prior_sats row, lr_gross = cr_gross_sats row,
    lr_onchain = cr_onchain_sats row\<rparr>"

lemma merge_new_row:
  assumes "\<bar>cr_issued_prior_sats row\<bar> < 2 ^ 127" "\<bar>cr_gross_sats row\<bar> < 2 ^ 127" "\<bar>cr_onchain_sats row\<bar> < 2 ^ 127"
  shows "merge_row row (new_row row) = Inr (row_of row)"
  using assms by (simp add: merge_row_def new_row_def row_of_def add_i128_ok)

section \<open>The loop over the programs\<close>

definition debt_after :: "int \<Rightarrow> landing_row \<Rightarrow> int" where
  "debt_after before row = max (- (before + lr_gross row - lr_onchain row)) 0"

definition overpaid_by :: "int \<Rightarrow> landing_row \<Rightarrow> int" where
  "overpaid_by before row = max (debt_after before row - max (- before) 0) 0"

text \<open>How far one row can move the sums.\<close>

definition reach :: "int \<Rightarrow> landing_row \<Rightarrow> int" where
  "reach before row = \<bar>before\<bar> + lr_gross row + lr_onchain row"

definition row_ok :: "landing_row \<Rightarrow> bool" where
  "row_ok row \<longleftrightarrow> 0 \<le> lr_gross row \<and> 0 \<le> lr_onchain row"

lemma row_reach:
  assumes "row_ok row"
  shows "0 \<le> debt_after before row" "debt_after before row \<le> reach before row" "0 \<le> overpaid_by before row"
    "overpaid_by before row \<le> debt_after before row" "0 \<le> reach before row"
  using assms by (auto simp: debt_after_def overpaid_by_def reach_def row_ok_def)

definition small_sums :: "int \<Rightarrow> divergence \<Rightarrow> bool" where
  "small_sums c d \<longleftrightarrow> 0 \<le> dv_overpay_sats d \<and> dv_overpay_sats d \<le> c \<and> 0 \<le> dv_overpaid_debt_after_sats d \<and>
    dv_overpaid_debt_after_sats d \<le> c \<and> 0 \<le> dv_pool_debt_after_sats d \<and> dv_pool_debt_after_sats d \<le> c"

lemma land_row_ok:
  assumes d: "small_sums c d" and row: "row_ok row" and room: "c + reach (balance_before cur k) row < 2 ^ 127"
  shows "\<exists>d'. land_row cur d (k, row) = Inr d' \<and> small_sums (c + reach (balance_before cur k) row) d' \<and>
    dv_overpay_sats d' = dv_overpay_sats d + overpaid_by (balance_before cur k) row \<and>
    dv_pool_debt_after_sats d' = dv_pool_debt_after_sats d + debt_after (balance_before cur k) row \<and>
    dv_divergent_accounts d' = dv_divergent_accounts d + (if lr_issued row = balance_before cur k then 0 else 1)"
proof -
  let ?b = "balance_before cur k"
  let ?a = "?b + lr_gross row - lr_onchain row"
  have c: "0 \<le> c" using d by (auto simp: small_sums_def)
  have r: "\<bar>?b\<bar> + lr_gross row + lr_onchain row < 2 ^ 127" using room c by (simp add: reach_def)
  have g: "0 \<le> lr_gross row" "0 \<le> lr_onchain row" using row by (simp_all add: row_ok_def)
  note R = row_reach[OF row, of ?b]
  have A: "add_i128 ?b (lr_gross row) = Inr (?b + lr_gross row)" by (rule add_i128_ok) (use r g in linarith)
  have S: "sub_i128 (?b + lr_gross row) (lr_onchain row) = Inr ?a" by (rule sub_i128_ok) (use r g in linarith)
  have lt: "\<bar>?a\<bar> < 2 ^ 127" "\<bar>?b\<bar> < 2 ^ 127" using r g by linarith+
  have N: "sub_i128 0 ?b = Inr (- ?b)" "sub_i128 0 ?a = Inr (- ?a)"
    using sub_i128_ok[of 0 ?a] sub_i128_ok[of 0 ?b] lt by simp_all
  have "0 \<le> max (- x) 0 \<and> max (- x) 0 < 2 ^ 127" if "\<bar>x\<bar> < 2 ^ 127" for x :: int using that by auto
  from this[OF lt(1)] this[OF lt(2)] have D: "sub_i128 (max (- ?a) 0) (max (- ?b) 0) = Inr (max (- ?a) 0 - max (- ?b) 0)"
    unfolding sub_i128_Inr by linarith
  have P: "add_i128 (dv_pool_debt_after_sats d) (max (- ?a) 0) = Inr (dv_pool_debt_after_sats d + debt_after ?b row)"
    unfolding debt_after_def[symmetric] by (rule add_i128_ok) (use d R room in \<open>auto simp: small_sums_def\<close>)
  have O: "add_i128 (dv_overpay_sats d) (overpaid_by ?b row) = Inr (dv_overpay_sats d + overpaid_by ?b row)"
    by (rule add_i128_ok) (use d R room in \<open>auto simp: small_sums_def\<close>)
  have E: "add_i128 (dv_overpaid_debt_after_sats d) (debt_after ?b row) = Inr (dv_overpaid_debt_after_sats d + debt_after ?b row)"
    by (rule add_i128_ok) (use d R room in \<open>auto simp: small_sums_def\<close>)
  have over: "max (max (- ?a) 0 - max (- ?b) 0) 0 = overpaid_by ?b row" by (simp add: overpaid_by_def debt_after_def)
  have debt: "max (- ?a) 0 = debt_after ?b row" by (simp add: debt_after_def)
  show ?thesis
    unfolding land_row_def Let_def prod.case A S N D P rbind.simps over
    using O E R d debt
    by (auto simp: small_sums_def)
qed

lemma land_rows_ok:
  assumes "small_sums c d" and "\<And>p. p \<in> set es \<Longrightarrow> row_ok (snd p)"
    and "c + (\<Sum>p\<leftarrow>es. reach (balance_before cur (fst p)) (snd p)) < 2 ^ 127"
  shows "\<exists>d'. try_fold (land_row cur) d es = Inr d' \<and>
    small_sums (c + (\<Sum>p\<leftarrow>es. reach (balance_before cur (fst p)) (snd p))) d' \<and>
    dv_overpay_sats d' = dv_overpay_sats d + (\<Sum>p\<leftarrow>es. overpaid_by (balance_before cur (fst p)) (snd p)) \<and>
    dv_pool_debt_after_sats d' = dv_pool_debt_after_sats d + (\<Sum>p\<leftarrow>es. debt_after (balance_before cur (fst p)) (snd p)) \<and>
    dv_divergent_accounts d' = dv_divergent_accounts d +
      length (filter (\<lambda>p. lr_issued (snd p) \<noteq> balance_before cur (fst p)) es)"
  using assms
proof (induction es arbitrary: c d)
  case (Cons p es)
  obtain k row where p: "p = (k, row)" by force
  let ?r = "reach (balance_before cur k) row"
  have row: "row_ok row" using Cons.prems(2)[of p] by (simp add: p)
  have nn: "0 \<le> (\<Sum>p\<leftarrow>es. reach (balance_before cur (fst p)) (snd p))"
    by (rule sum_list_nonneg) (use Cons.prems(2) row_reach(5) in auto)
  have "c + ?r < 2 ^ 127" using Cons.prems(3) nn by (simp add: p)
  from land_row_ok[OF Cons.prems(1) row this] obtain d1 where
    d1: "land_row cur d (k, row) = Inr d1" "small_sums (c + ?r) d1"
    "dv_overpay_sats d1 = dv_overpay_sats d + overpaid_by (balance_before cur k) row"
    "dv_pool_debt_after_sats d1 = dv_pool_debt_after_sats d + debt_after (balance_before cur k) row"
    "dv_divergent_accounts d1 = dv_divergent_accounts d + (if lr_issued row = balance_before cur k then 0 else 1)" by blast
  have "(c + ?r) + (\<Sum>p\<leftarrow>es. reach (balance_before cur (fst p)) (snd p)) < 2 ^ 127" using Cons.prems(3) by (simp add: p)
  from Cons.IH[OF d1(2) _ this] Cons.prems(2) obtain d' where "try_fold (land_row cur) d1 es = Inr d'"
    "small_sums (c + ?r + (\<Sum>p\<leftarrow>es. reach (balance_before cur (fst p)) (snd p))) d'"
    "dv_overpay_sats d' = dv_overpay_sats d1 + (\<Sum>p\<leftarrow>es. overpaid_by (balance_before cur (fst p)) (snd p))"
    "dv_pool_debt_after_sats d' = dv_pool_debt_after_sats d1 + (\<Sum>p\<leftarrow>es. debt_after (balance_before cur (fst p)) (snd p))"
    "dv_divergent_accounts d' = dv_divergent_accounts d1 +
      length (filter (\<lambda>p. lr_issued (snd p) \<noteq> balance_before cur (fst p)) es)" by auto
  then show ?case using d1 by (simp add: p add.assoc)
qed simp

section \<open>The divergence of distinct rows\<close>

lemma before_case: "(case map_of m k of None \<Rightarrow> 0 | Some v \<Rightarrow> f v) = f (balance_before m k)" if "f 0 = (0 :: int)"
  using that by (simp add: balance_before_def bt_get_def split: option.splits)

lemma sum_before:
  assumes "bt_ok m" and "distinct ks" and "f 0 = (0 :: int)"
  shows "(\<Sum>k\<leftarrow>ks. f (balance_before m k)) + (\<Sum>p\<leftarrow>filter (\<lambda>p. fst p \<notin> set ks) m. f (snd p)) = (\<Sum>p\<leftarrow>m. f (snd p))"
  using sum_list_lookup[of m ks f] assms by (simp add: before_case bt_ok_def strict_sorted_iff)

definition carry_key :: "carry_row \<Rightarrow> string" where
  "carry_key row = program_key (cr_program row)"

definition carry_row_ok :: "carry_row \<Rightarrow> bool" where
  "carry_row_ok row \<longleftrightarrow> \<bar>cr_issued_prior_sats row\<bar> < 2 ^ 127 \<and> 0 \<le> cr_gross_sats row \<and> 0 \<le> cr_onchain_sats row"

lemma rows_grouped:
  assumes "distinct (map carry_key rows)" and "\<And>row. row \<in> set rows \<Longrightarrow> carry_row_ok row"
    and "(\<Sum>row\<leftarrow>rows. cr_gross_sats row + cr_onchain_sats row) < 2 ^ 127"
  obtains es where "bt_group (\<lambda>row. program_key (cr_program row)) new_row merge_row [] rows = Inr es"
    "mset es = mset (map (\<lambda>row. (carry_key row, row_of row)) rows)"
proof -
  have "cr_gross_sats row + cr_onchain_sats row < 2 ^ 127" if "row \<in> set rows" for row
  proof -
    have "cr_gross_sats row + cr_onchain_sats row \<le> (\<Sum>row\<leftarrow>rows. cr_gross_sats row + cr_onchain_sats row)"
      by (rule member_le_sum_list) (use that assms(2) in \<open>auto simp: carry_row_ok_def\<close>)
    then show ?thesis using assms(3) by simp
  qed
  then have step: "merge_row row (new_row row) = Inr (row_of row)" if "row \<in> set rows" for row
    using that assms(2)[OF that] by (intro merge_new_row) (fastforce simp: carry_row_ok_def)+
  have "distinct (map (\<lambda>row. program_key (cr_program row)) rows)" using assms(1) by (simp add: carry_key_def[abs_def])
  from bt_group_distinct[of "[]" _ rows merge_row new_row row_of, OF _ this _ step] that show thesis
    by (auto simp: bt_ok_def bt_get_def carry_key_def)
qed

lemma landing_pool:
  assumes m: "bt_ok m" and ks: "distinct (map fst es)"
  shows "(\<Sum>p\<leftarrow>es. debt_after (balance_before m (fst p)) (snd p)) +
      (\<Sum>p\<leftarrow>filter (\<lambda>p. fst p \<notin> set (map fst es)) m. max (- snd p) 0)
    \<le> (\<Sum>p\<leftarrow>m. max (- snd p) 0) + (\<Sum>p\<leftarrow>es. overpaid_by (balance_before m (fst p)) (snd p))"
proof -
  have "(\<Sum>p\<leftarrow>es. debt_after (balance_before m (fst p)) (snd p)) \<le>
      (\<Sum>p\<leftarrow>es. max (- balance_before m (fst p)) 0 + overpaid_by (balance_before m (fst p)) (snd p))"
    by (rule sum_list_mono) (simp add: overpaid_by_def)
  also have "\<dots> = (\<Sum>p\<leftarrow>es. max (- balance_before m (fst p)) 0) + (\<Sum>p\<leftarrow>es. overpaid_by (balance_before m (fst p)) (snd p))"
    by (rule sum_list_addf)
  finally show ?thesis using sum_before[OF m ks, of "\<lambda>b. max (- b) 0"] by (simp add: comp_def)
qed

text \<open>The debt of the programs the block does not touch.\<close>

lemma unpaid_debt:
  fixes cur :: "(string \<times> int) list"
  assumes "(\<Sum>p\<leftarrow>cur. \<bar>snd p\<bar>) < 2 ^ 127"
  shows "try_map (\<lambda>(_, balance). sub_i128 0 balance) (filter P cur) = Inr (map (\<lambda>p. - snd p) (filter P cur))"
    and "sum_i128 (map (\<lambda>b. max b 0) (map (\<lambda>p. - snd p) (filter P cur))) = Inr (\<Sum>p\<leftarrow>filter P cur. max (- snd p) 0)"
    and "0 \<le> (\<Sum>p\<leftarrow>filter P cur. max (- snd p) 0)"
    and "(\<Sum>p\<leftarrow>filter P cur. max (- snd p) 0) \<le> (\<Sum>p\<leftarrow>cur. \<bar>snd p\<bar>)"
proof -
  have "sub_i128 0 (snd p) = Inr (- snd p)" if "p \<in> set (filter P cur)" for p
  proof -
    have "\<bar>snd p\<bar> \<in> set (map (\<lambda>p. \<bar>snd p\<bar>) cur)" using that by auto
    then have "\<bar>snd p\<bar> \<le> (\<Sum>p\<leftarrow>cur. \<bar>snd p\<bar>)" by (intro member_le_sum_list) auto
    then show ?thesis using sub_i128_ok[of 0 "snd p"] assms by simp
  qed
  then show "try_map (\<lambda>(_, balance). sub_i128 0 balance) (filter P cur) = Inr (map (\<lambda>p. - snd p) (filter P cur))"
    by (intro try_map_total) (simp only: case_prod_unfold)
  show nonneg: "0 \<le> (\<Sum>p\<leftarrow>filter P cur. max (- snd p) 0)" by (rule sum_list_nonneg) auto
  show le: "(\<Sum>p\<leftarrow>filter P cur. max (- snd p) 0) \<le> (\<Sum>p\<leftarrow>cur. \<bar>snd p\<bar>)" by (induction cur) auto
  show "sum_i128 (map (\<lambda>b. max b 0) (map (\<lambda>p. - snd p) (filter P cur))) = Inr (\<Sum>p\<leftarrow>filter P cur. max (- snd p) 0)"
    using sum_i128_ok[of "map (\<lambda>p. max (- snd p) 0) (filter P cur)"] le assms by (simp add: comp_def)
qed

text \<open>What a landing of distinct rows records, when the magnitudes leave room.\<close>

lemma rows_divergence_ok:
  assumes dist: "distinct (map carry_key rows)" and ok: "\<And>row. row \<in> set rows \<Longrightarrow> carry_row_ok row"
    and room: "2 * magnitude current + (\<Sum>row\<leftarrow>rows. cr_gross_sats row + cr_onchain_sats row) < 2 ^ 127"
  obtains cur d where "balance_map current = Inr cur" "rows_divergence rows current = Inr d"
    "dv_overpay_sats d = (\<Sum>row\<leftarrow>rows. overpaid_by (balance_under (carry_key row) current) (row_of row))"
    "dv_divergent_accounts d =
      length (filter (\<lambda>row. cr_issued_prior_sats row \<noteq> balance_under (carry_key row) current) rows)"
    "dv_pool_debt_after_sats d \<le> (\<Sum>p\<leftarrow>cur. max (- snd p) 0) + dv_overpay_sats d"
proof -
  define S where "S = (\<Sum>row\<leftarrow>rows. cr_gross_sats row + cr_onchain_sats row)"
  have S0: "0 \<le> S" unfolding S_def by (rule sum_list_nonneg) (use ok in \<open>auto simp: carry_row_ok_def\<close>)
  have lt: "magnitude current < 2 ^ 127" "S < 2 ^ 127" using room S0 magnitude_nonneg[of current] unfolding S_def by linarith+
  obtain cur where cur: "balance_map current = Inr cur" "bt_ok cur" "(\<Sum>p\<leftarrow>cur. \<bar>snd p\<bar>) \<le> magnitude current"
    "balance_before cur = (\<lambda>k. balance_under k current)" by (rule balance_map_ok[OF lt(1)])
  obtain es where es: "bt_group (\<lambda>row. program_key (cr_program row)) new_row merge_row [] rows = Inr es"
    "mset es = mset (map (\<lambda>row. (carry_key row, row_of row)) rows)"
    by (rule rows_grouped[OF dist ok lt(2)[unfolded S_def]])
  have over: "(\<Sum>p\<leftarrow>es. f p) = (\<Sum>row\<leftarrow>rows. f (carry_key row, row_of row))" for f :: "_ \<Rightarrow> int"
    using sum_list_map_mset_eq[OF es(2), of f] by (simp add: comp_def)
  have "mset (map fst es) = mset (map carry_key rows)" using es(2) by (metis (no_types, lifting) comp_def fst_conv list.map_comp map_eq_conv mset_map)
  then have keys: "distinct (map fst es)" using dist by (metis mset_eq_imp_distinct_iff)
  have rok: "row_ok (snd p)" if "p \<in> set es" for p
  proof -
    from that es(2) have "p \<in> set (map (\<lambda>row. (carry_key row, row_of row)) rows)" by (metis mset_eq_setD)
    then show ?thesis using ok by (auto simp: row_ok_def row_of_def carry_row_ok_def)
  qed
  have "(\<Sum>p\<leftarrow>es. \<bar>balance_before cur (fst p)\<bar>) \<le> (\<Sum>p\<leftarrow>cur. \<bar>snd p\<bar>)"
  proof -
    have "0 \<le> (\<Sum>p\<leftarrow>filter (\<lambda>p. fst p \<notin> set (map fst es)) cur. \<bar>snd p\<bar>)" by (rule sum_list_nonneg) auto
    then show ?thesis using sum_before[OF cur(2) keys, of abs] by (simp add: comp_def)
  qed
  then have reach: "(\<Sum>p\<leftarrow>es. reach (balance_before cur (fst p)) (snd p)) \<le> magnitude current + S"
    using cur(3) unfolding reach_def S_def over by (simp add: row_of_def sum_list_addf)
  have small: "small_sums 0 no_divergence" by (simp add: small_sums_def no_divergence_def)
  have "0 + (\<Sum>p\<leftarrow>es. reach (balance_before cur (fst p)) (snd p)) < 2 ^ 127"
    using reach room magnitude_nonneg[of current] unfolding S_def by linarith
  from land_rows_ok[OF small rok this] obtain d where
    d: "try_fold (land_row cur) no_divergence es = Inr d" "small_sums (magnitude current + S) d"
    "dv_overpay_sats d = (\<Sum>p\<leftarrow>es. overpaid_by (balance_before cur (fst p)) (snd p))"
    "dv_pool_debt_after_sats d = (\<Sum>p\<leftarrow>es. debt_after (balance_before cur (fst p)) (snd p))"
    "dv_divergent_accounts d = length (filter (\<lambda>p. lr_issued (snd p) \<noteq> balance_before cur (fst p)) es)"
    using reach by (auto simp: small_sums_def no_divergence_def)
  let ?out = "filter (\<lambda>p. fst p \<notin> set (map fst es)) cur"
  have out: "filter (\<lambda>(program, _). bt_get es program = None) (bt_entries cur) = ?out"
    by (simp add: bt_get_def bt_entries_def map_of_eq_None_iff case_prod_unfold)
  let ?rest = "\<Sum>p\<leftarrow>?out. max (- snd p) 0"
  have "(\<Sum>p\<leftarrow>cur. \<bar>snd p\<bar>) < 2 ^ 127" using cur(3) lt(1) by linarith
  note rest = unpaid_debt[OF this, of "\<lambda>p. fst p \<notin> set (map fst es)"]
  have pool: "add_i128 (dv_pool_debt_after_sats d) ?rest = Inr (dv_pool_debt_after_sats d + ?rest)"
    by (rule add_i128_ok) (use d(2) rest(3,4) cur(3) room in \<open>auto simp: small_sums_def S_def\<close>)
  let ?d = "d\<lparr>dv_pool_debt_after_sats := dv_pool_debt_after_sats d + ?rest\<rparr>"
  have run: "rows_divergence rows current = Inr ?d"
    using cur(1) es(1) d(1) rest(1,2) pool by (simp add: rows_divergence_def out bt_entries_def[of es])
  have "size (filter_mset (\<lambda>p. lr_issued (snd p) \<noteq> balance_before cur (fst p)) (mset es)) =
      length (filter (\<lambda>row. cr_issued_prior_sats row \<noteq> balance_before cur (carry_key row)) rows)"
    unfolding es(2) mset_filter[symmetric] size_mset by (simp add: filter_map comp_def row_of_def)
  then have div: "dv_divergent_accounts ?d = length (filter (\<lambda>row. cr_issued_prior_sats row \<noteq> balance_under (carry_key row) current) rows)"
    unfolding mset_filter[symmetric] size_mset by (simp add: d(5) cur(4))
  have sum: "dv_overpay_sats ?d = (\<Sum>row\<leftarrow>rows. overpaid_by (balance_under (carry_key row) current) (row_of row))"
    by (simp add: d(3) over cur(4))
  have "dv_pool_debt_after_sats ?d \<le> (\<Sum>p\<leftarrow>cur. max (- snd p) 0) + dv_overpay_sats ?d"
    using landing_pool[OF cur(2) keys] by (simp add: d(3,4))
  from that[OF cur(1) run sum div this] show thesis .
qed

end
