(* ===== verification/Divergence_Properties.thy ===== *)
theory Divergence_Properties
  imports Divergence Policy_Properties
begin

text \<open>
  The claims of \<open>divergence.rs\<close>: a landed block creates at most its positive as-issued float of
  debt, on whatever balances it lands, and a superseded block is offered only when that float is
  within the ceiling of its coinbase value.
\<close>

section \<open>The rows of a block the policy made\<close>

lemma balance_under_magnitude: "\<bar>balance_under k bs\<bar> \<le> magnitude bs"
  unfolding balance_under_def magnitude_def by (induction bs) auto

lemma miner_rows:
  assumes policy: "apply_payout_policy rm priors policy = Inr m" and room: "magnitude priors < 2 ^ 127"
  defines "rows \<equiv> map carry_row_of (filter (\<lambda>a. pa_account_type a = Miner) (py_accounts m))"
  shows "distinct (map carry_key rows)"
    and "\<And>row. row \<in> set rows \<Longrightarrow> carry_row_ok row \<and> cr_issued_prior_sats row = balance_under (carry_key row) priors \<and>
      cr_onchain_sats row \<le> max (cr_issued_prior_sats row + cr_gross_sats row) 0"
    and "(\<Sum>row\<leftarrow>rows. cr_gross_sats row + cr_onchain_sats row) < 2 ^ 66"
proof -
  from policy obtain floor fee reward accounts seen amounts fee' where
    P: "pool_fee_manifest_of (rm_coinbase_value rm) policy = Inr fee" "uint (rm_coinbase_value rm) = uint reward + fee_earned fee"
    "policy_accounts reward (rm_entitlements rm) priors = Inr (accounts, seen)"
    "onchain_amounts_of accounts reward floor fee = Inr (amounts, fee')"
    "py_accounts m = sort_key account_order
      (map (settled amounts) accounts @ (case fee' of None \<Rightarrow> [] | Some f \<Rightarrow> [fee_account f]))"
    by (rule apply_policy_parts) blast
  note A = policy_accounts_facts[OF P(3)]
  note T = policy_tail[OF P(3,4) pool_fee_manifest_facts(1,2)[OF P(1)] P(2)]
  have miners: "mset (filter (\<lambda>a. pa_account_type a = Miner) (py_accounts m)) = mset (map (settled amounts) accounts)"
    unfolding P(5) mset_filter mset_sort unfolding mset_filter[symmetric] miners_of_all[OF A(1)] ..
  have rows: "mset rows = mset (map (\<lambda>a. carry_row_of (settled amounts a)) accounts)"
    unfolding rows_def mset_map[of carry_row_of] miners by (simp add: image_mset.compositionality comp_def)
  have key: "carry_key (carry_row_of a) = acct_program_key a" for a
    by (simp add: carry_key_def carry_row_of_def program_key_def acct_program_key_def payout_program_key_def)
  have "mset (map carry_key rows) = mset (map acct_program_key accounts)"
    using rows by (metis (no_types, lifting) comp_def key list.map_comp map_eq_conv mset_map settled_simps(2))
  then show "distinct (map carry_key rows)" using A(2) by (metis mset_eq_imp_distinct_iff)
  show "carry_row_ok row \<and> cr_issued_prior_sats row = balance_under (carry_key row) priors \<and>
      cr_onchain_sats row \<le> max (cr_issued_prior_sats row + cr_gross_sats row) 0" if "row \<in> set rows" for row
  proof -
    from that rows obtain a where a: "a \<in> set accounts" "row = carry_row_of (settled amounts a)"
      by (metis (no_types, lifting) image_iff mset_eq_setD set_map)
    then have "settled_account floor (settled amounts a)" using T(2) by auto
    then have paid: "uint (pa_onchain_sats (settled amounts a)) \<le> max (pa_prior_balance a + uint (pa_gross_sats a)) 0"
      by (cases "pa_action (settled amounts a)") (auto simp: settled_account_def)
    have prior: "pa_prior_balance a = balance_under (acct_program_key a) priors" using A(6) a(1) by blast
    then have "\<bar>pa_prior_balance a\<bar> < 2 ^ 127" using balance_under_magnitude[of "acct_program_key a" priors] room by simp
    with paid prior show ?thesis unfolding a(2) key by (simp add: carry_row_ok_def carry_row_of_def)
  qed
  have "\<forall>a\<in>set accounts. i128_balance a" using A(1) fresh_i128 by blast
  from onchain_amounts_facts(6)[OF P(4) distinct_account_order[OF A(2)] this pool_fee_manifest_facts(1)[OF P(1)]]
  have swept: "0 \<le> fee_swept fee'" using pool_fee_manifest_facts(2)[OF P(1)] by simp
  have "(\<Sum>row\<leftarrow>rows. cr_gross_sats row + cr_onchain_sats row) =
      (\<Sum>a\<leftarrow>map (settled amounts) accounts. uint (pa_gross_sats a)) + (\<Sum>a\<leftarrow>map (settled amounts) accounts. uint (pa_onchain_sats a))"
    using sum_list_map_mset_eq[OF rows, of "\<lambda>row. cr_gross_sats row + cr_onchain_sats row"]
    by (simp add: comp_def carry_row_of_def sum_list_addf)
  also have "\<dots> \<le> uint reward + uint reward"
    using A(4) T(3) swept by (simp add: comp_def)
  finally show "(\<Sum>row\<leftarrow>rows. cr_gross_sats row + cr_onchain_sats row) < 2 ^ 66"
    using uint_lt2p[of reward] by simp
qed

section \<open>The bound\<close>

text \<open>One account: what it is overpaid is at most the balance it was issued on.\<close>

lemma overpaid_by_bound:
  assumes "0 \<le> lr_gross row" and "lr_onchain row \<le> max (lr_issued row + lr_gross row) 0"
  shows "overpaid_by before row \<le> max (lr_issued row) 0"
    and "overpaid_by (lr_issued row) row = 0"
  using assms by (auto simp: overpaid_by_def debt_after_def max_def split: if_splits)

lemma landing_bounded:
  assumes policy: "apply_payout_policy rm priors policy = Inr m"
    and room: "magnitude priors < 2 ^ 120" "magnitude current < 2 ^ 120"
  shows "\<exists>d bound cur. landing_divergence (py_accounts m) current = Inr d \<and> overpay_bound priors = Inr bound \<and>
    balance_map current = Inr cur \<and> 0 \<le> dv_overpay_sats d \<and> dv_overpay_sats d \<le> bound \<and>
    dv_pool_debt_after_sats d \<le> (\<Sum>p\<leftarrow>cur. max (- snd p) 0) + dv_overpay_sats d \<and>
    ((\<forall>k. balance_under k current = balance_under k priors) \<longrightarrow> dv_overpay_sats d = 0 \<and> dv_divergent_accounts d = 0)"
proof -
  let ?rows = "map carry_row_of (filter (\<lambda>a. pa_account_type a = Miner) (py_accounts m))"
  have lt: "magnitude priors < 2 ^ 127" using room by simp
  note M = miner_rows[OF policy lt]
  have "2 * magnitude current + (\<Sum>row\<leftarrow>?rows. cr_gross_sats row + cr_onchain_sats row) < 2 ^ 127"
    using M(3) room by simp
  from rows_divergence_ok[OF M(1) _ this] M(2) obtain cur d where
    d: "balance_map current = Inr cur" "rows_divergence ?rows current = Inr d"
    "dv_overpay_sats d = (\<Sum>row\<leftarrow>?rows. overpaid_by (balance_under (carry_key row) current) (row_of row))"
    "dv_divergent_accounts d = length (filter (\<lambda>row. cr_issued_prior_sats row \<noteq> balance_under (carry_key row) current) ?rows)"
    "dv_pool_debt_after_sats d \<le> (\<Sum>p\<leftarrow>cur. max (- snd p) 0) + dv_overpay_sats d" by blast
  obtain iss where iss: "balance_map priors = Inr iss" "bt_ok iss" "(\<Sum>p\<leftarrow>iss. \<bar>snd p\<bar>) \<le> magnitude priors"
    "balance_before iss = (\<lambda>k. balance_under k priors)" by (rule balance_map_ok[OF lt])
  have row: "0 \<le> lr_gross (row_of row)" "lr_onchain (row_of row) \<le> max (lr_issued (row_of row) + lr_gross (row_of row)) 0"
    "lr_issued (row_of row) = balance_under (carry_key row) priors" if "row \<in> set ?rows" for row
    using M(2)[OF that] by (auto simp: row_of_def carry_row_ok_def)
  have "dv_overpay_sats d \<le> (\<Sum>row\<leftarrow>?rows. max (balance_under (carry_key row) priors) 0)"
    unfolding d(3) by (rule sum_list_mono) (metis overpaid_by_bound(1) row)
  also have "\<dots> \<le> (\<Sum>p\<leftarrow>iss. max (snd p) 0)"
  proof -
    have "0 \<le> (\<Sum>p\<leftarrow>filter (\<lambda>p. fst p \<notin> set (map carry_key ?rows)) iss. max (snd p) 0)"
      by (rule sum_list_nonneg) auto
    then show ?thesis using sum_before[OF iss(2) M(1), of "\<lambda>v. max v 0"] by (simp add: iss(4) comp_def)
  qed
  finally have le: "dv_overpay_sats d \<le> (\<Sum>p\<leftarrow>iss. max (snd p) 0)" .
  have nonneg: "0 \<le> dv_overpay_sats d"
    unfolding d(3) by (rule sum_list_nonneg) (auto simp: overpaid_by_def)
  have same: "dv_overpay_sats d = 0 \<and> dv_divergent_accounts d = 0"
    if eq: "\<forall>k. balance_under k current = balance_under k priors"
  proof -
    have "overpaid_by (balance_under (carry_key r) current) (row_of r) = 0" if "r \<in> set ?rows" for r
      using eq overpaid_by_bound(2)[OF row(1,2)[OF that]] row(3)[OF that] by simp
    then have "map (\<lambda>r. overpaid_by (balance_under (carry_key r) current) (row_of r)) ?rows = map (\<lambda>_. 0) ?rows"
      by (intro map_cong refl)
    then have "dv_overpay_sats d = 0" unfolding d(3) by (simp only: sum_list_0)
    moreover have "dv_divergent_accounts d = 0" unfolding d(4) using eq M(2) by (auto simp: filter_empty_conv)
    ultimately show ?thesis by blast
  qed
  show ?thesis
    using d(1,2,5) overpay_bound_ok[OF lt iss(1,3)] le nonneg same unfolding landing_divergence_def by blast
qed

text \<open>
  C17: the debt a block creates when its rows start to count is never negative and at most the
  positive balances it was issued on, whatever the balances are by then; the pool's debt grows by
  no more than that; and on the balances it was issued on the block creates none and no account
  diverges.  No sum overflows while balances stay below \<open>2 ^ 120\<close> satoshis in total.
\<close>

theorem overpay_within_bound:
  assumes "apply_payout_policy rm priors policy = Inr m"
    and "magnitude priors < 2 ^ 120" "magnitude current < 2 ^ 120"
  shows "\<exists>d bound cur. landing_divergence (py_accounts m) current = Inr d \<and> overpay_bound priors = Inr bound \<and>
    balance_map current = Inr cur \<and> 0 \<le> dv_overpay_sats d \<and> dv_overpay_sats d \<le> bound \<and>
    dv_pool_debt_after_sats d \<le> (\<Sum>p\<leftarrow>cur. max (- snd p) 0) + dv_overpay_sats d \<and>
    ((\<forall>k. balance_under k current = balance_under k priors) \<longrightarrow> dv_overpay_sats d = 0 \<and> dv_divergent_accounts d = 0)"
  using assms by (rule landing_bounded)

text \<open>A balance of 60 was paid, and is gone by the time the block counts.\<close>

definition issued_balances :: "carry_forward_balance list" where
  "issued_balances = [\<lparr>cb_recipient_id = ''b'', cb_order_key = ''b'', cb_program = ''BB'', cb_balance_sats = 60\<rparr>]"

definition landed_block :: "prism_error + policy_manifest" where
  "landed_block = apply_payout_policy
    (sample_reward 1000 [sample_entitlement ''a'' ''aa'' 970, sample_entitlement ''b'' ''bb'' 10])
    issued_balances (sample_policy 50)"

definition landed_overpay :: "policy_manifest \<Rightarrow> i128 option" where
  "landed_overpay m = (case landing_divergence (py_accounts m) [] of Inl e \<Rightarrow> None | Inr d \<Rightarrow> Some (dv_overpay_sats d))"

lemma landed_overpaid: "case landed_block of Inl e \<Rightarrow> False | Inr m \<Rightarrow> (case landed_overpay m of None \<Rightarrow> False | Some x \<Rightarrow> 0 < x)"
  by code_simp

theorem overpay_within_bound_witness:
  "\<exists>m d bound. landed_block = Inr m \<and> landing_divergence (py_accounts m) [] = Inr d \<and> overpay_bound issued_balances = Inr bound \<and>
    0 < dv_overpay_sats d \<and> dv_overpay_sats d \<le> bound"
proof -
  from landed_overpaid obtain m where m: "landed_block = Inr m" "case landed_overpay m of None \<Rightarrow> False | Some x \<Rightarrow> 0 < x"
    by (auto split: sum.splits)
  have "magnitude issued_balances < 2 ^ 120" "magnitude [] < 2 ^ 120" by (simp_all add: magnitude_def issued_balances_def)
  from overpay_within_bound[OF m(1)[unfolded landed_block_def] this] m show ?thesis
    by (auto simp: landed_overpay_def)
qed

section \<open>The offer\<close>

lemma reserve_in_Inr: "reserve_in db bound = Inr r \<Longrightarrow> r = Reserved bound"
  by (auto simp: reserve_in_def split: if_splits)

lemma reserve_cases:
  assumes "reserve_offer_within db candidate ceiling_bps = Inr (Reserved b)"
  shows "(b = None \<and> (oc_leased candidate \<or> ceiling_bps = None \<or>
      od_revision db = Inr (oc_payout_revision candidate) \<and> \<not> oc_not_current candidate)) \<or>
    (\<exists>bps issued bound. ceiling_bps = Some bps \<and> 0 < bps \<and> od_snapshot db = Inr issued \<and> overpay_bound issued = Inr bound \<and>
      bound \<le> overpay_ceiling_sats (oc_coinbase_value_sats candidate) bps \<and> b \<noteq> None \<and> \<not> oc_leased candidate \<and>
      ob_bound_sats (the b) = bound)"
proof (cases "if oc_leased candidate then None else ceiling_bps")
  case None
  then show ?thesis
    using assms by (auto simp: reserve_offer_within_def dest!: reserve_in_Inr split: if_splits)
next
  case (Some bps)
  then have bps: "ceiling_bps = Some bps" "\<not> oc_leased candidate" by (auto split: if_splits)
  show ?thesis
    using assms bps unfolding reserve_offer_within_def
    by (auto simp: asked_def Let_def word_neq_0_conv dest!: reserve_in_Inr split: if_splits sum.splits)
qed

text \<open>
  C18: a reservation that is not unconditional is made only for work the ledger still holds current,
  or after the bound was checked; and then, when the snapshot holds the balances the policy was
  applied to, the debt the block creates on whatever balances it lands is at most the ceiling's
  basis points of its coinbase value.  A ceiling of zero reserves no superseded block.
\<close>

theorem capture_within_ceiling:
  assumes reserved: "reserve_offer_within db candidate (Some bps) = Inr (Reserved b)" and leased: "\<not> oc_leased candidate"
    and snapshot: "od_snapshot db = Inr priors" and policy: "apply_payout_policy rm priors policy = Inr m"
    and coinbase: "oc_coinbase_value_sats candidate = rm_coinbase_value rm"
    and room: "magnitude priors < 2 ^ 120" "magnitude current < 2 ^ 120"
  shows "(b = None \<and> od_revision db = Inr (oc_payout_revision candidate) \<and> \<not> oc_not_current candidate) \<or>
    (0 < bps \<and> (\<exists>d. landing_divergence (py_accounts m) current = Inr d \<and>
      dv_overpay_sats d * 10000 \<le> uint (rm_coinbase_value rm) * uint bps))"
proof -
  obtain d bound where d: "landing_divergence (py_accounts m) current = Inr d" "overpay_bound priors = Inr bound"
    "dv_overpay_sats d \<le> bound" using landing_bounded[OF policy room] by blast
  from reserve_cases[OF reserved] leased snapshot d(2) coinbase consider
    (current) "b = None \<and> od_revision db = Inr (oc_payout_revision candidate) \<and> \<not> oc_not_current candidate" |
    (capture) "0 < bps" "bound \<le> overpay_ceiling_sats (rm_coinbase_value rm) bps" by auto
  then show ?thesis
  proof cases
    case capture
    then have "dv_overpay_sats d \<le> uint (rm_coinbase_value rm) * uint bps div 10000"
      using d(3) by (simp add: overpay_ceiling_sats_def)
    then have "dv_overpay_sats d * 10000 \<le> uint (rm_coinbase_value rm) * uint bps" by linarith
    with capture(1) d(1) show ?thesis by blast
  qed blast
qed

definition sample_offer_database :: "(string, string) offer_database" where
  "sample_offer_database = \<lparr>od_hold = Inr None, od_revision = Inr 8, od_snapshot = Inr issued_balances, od_hold_again = Inr None,
    od_record_decision = (\<lambda>_ _ _ _. Inr ()), od_reserve = Inr 1, od_commit = Inr (), od_rollback = Inr ()\<rparr>"

definition sample_candidate :: offer_candidate where
  "sample_candidate = \<lparr>oc_leased = False, oc_payout_revision = 7, oc_coinbase_value_sats = 1000, oc_not_current = False\<rparr>"

theorem capture_within_ceiling_witness:
  "\<exists>b m d. reserve_offer_within sample_offer_database sample_candidate (Some 1000) = Inr (Reserved b) \<and>
    landed_block = Inr m \<and> landing_divergence (py_accounts m) [] = Inr d \<and> dv_overpay_sats d * 10000 \<le> 1000 * 1000"
proof -
  have "case reserve_offer_within sample_offer_database sample_candidate (Some 1000) of Inr (Reserved b) \<Rightarrow> True | _ \<Rightarrow> False"
    by code_simp
  then obtain b where b: "reserve_offer_within sample_offer_database sample_candidate (Some 1000) = Inr (Reserved b)"
    by (auto split: sum.splits offer_reservation.splits)
  from landed_overpaid obtain m where m: "landed_block = Inr m" by (auto split: sum.splits)
  have side: "\<not> oc_leased sample_candidate" "od_snapshot sample_offer_database = Inr issued_balances"
    "oc_coinbase_value_sats sample_candidate =
      rm_coinbase_value (sample_reward 1000 [sample_entitlement ''a'' ''aa'' 970, sample_entitlement ''b'' ''bb'' 10])"
    "magnitude issued_balances < 2 ^ 120" "magnitude [] < 2 ^ 120"
    by (simp_all add: sample_candidate_def sample_offer_database_def sample_reward_def magnitude_def issued_balances_def)
  from capture_within_ceiling[OF b side(1,2) m[unfolded landed_block_def] side(3-5)] b m show ?thesis
    by (auto simp: sample_offer_database_def sample_candidate_def sample_reward_def)
qed

end
