(* ===== verification/Carry_Owner.thy ===== *)
theory Carry_Owner
  imports Rust_Prelude
begin

text \<open>
  \<open>carry_owner.rs\<close> and \<open>node_identity.rs\<close> of the server: the rows of the role journal, the decision
  of the carry owner guard, and its alerts.  Of the JSON detail of a row the code reads two
  members; they are fields here, beside the rest of it.  Epochs and node indexes are the \<open>i64\<close> and
  \<open>i16\<close> of the source, only compared.
\<close>

section \<open>The two nodes\<close>

datatype node_index = A | B

definition all_nodes :: "node_index list" where "all_nodes = [A, B]"

fun node_from_index :: "int \<Rightarrow> node_index option" where
  "node_from_index i = (if i = 0 then Some A else if i = 1 then Some B else None)"

fun index_of :: "node_index \<Rightarrow> int" where
  "index_of A = 0"
| "index_of B = 1"

fun peer_of :: "node_index \<Rightarrow> node_index" where
  "peer_of A = B"
| "peer_of B = A"

definition peer_index :: "int \<Rightarrow> int" where "peer_index node_index = 1 - node_index"

definition share_seq_residue :: "node_index \<Rightarrow> int" where "share_seq_residue n = index_of n"

definition share_seq_at_or_above :: "node_index \<Rightarrow> int \<Rightarrow> int" where
  "share_seq_at_or_above n floor = (if floor mod 2 = share_seq_residue n then floor else floor + 1)"

fun extranonce1_range :: "node_index \<Rightarrow> u32 \<times> u32" where
  "extranonce1_range A = (1, 0x7fffffff)"
| "extranonce1_range B = (0x80000000, 0xffffffff)"

section \<open>The journal\<close>

record role_detail =
  rd_tip_height :: "u64 option"
  rd_peer_epoch :: "int option"
  rd_rest :: string

record role_row =
  ro_origin_node :: int
  ro_epoch :: int
  ro_carry_owner :: bool
  ro_action :: string
  ro_detail :: role_detail

definition tip_height :: "role_row \<Rightarrow> u64 option" where
  "tip_height row = rd_tip_height (ro_detail row)"

definition acquired_after :: "role_row \<Rightarrow> role_row \<Rightarrow> bool" where
  "acquired_after own release \<longleftrightarrow> ro_action own = ''acquire'' \<and>
    (case rd_peer_epoch (ro_detail own) of None \<Rightarrow> False | Some epoch \<Rightarrow> ro_epoch release \<le> epoch)"

text \<open>An answer carries the peer's latest row, its copy of this node's, and whether it is the primary's.\<close>

datatype peer_read = Answered "role_row option" "role_row option" bool | Read_Failed

fun peer_live :: "peer_read \<Rightarrow> role_row option" where
  "peer_live (Answered peer own_at_peer primary) = peer"
| "peer_live Read_Failed = None"

text \<open>The row of the higher epoch, the second of two of the same, as \<open>max_by_key\<close> takes the last.\<close>

fun newest :: "role_row option \<Rightarrow> role_row option \<Rightarrow> role_row option" where
  "newest None synced = synced"
| "newest (Some live) None = Some live"
| "newest (Some live) (Some synced) = (if ro_epoch synced < ro_epoch live then Some live else Some synced)"

section \<open>The decision\<close>

record guard_inputs =
  gi_node_index :: int
  gi_database_node :: "int option"
  gi_env_owner :: bool
  gi_own :: "role_row option"
  gi_peer_synced :: "role_row option"
  gi_peer_read :: peer_read
  gi_layout_mismatch :: "string option"

datatype carry_free_reason = NotOwner | NodeUnidentified | NoJournalRow | ConfigMismatch | SettingPending
  | OwnJournalBehindPeer | OwnJournalRolledBack | ClaimNotVetted | PeerClaimsOwnership | PeerJournalBehind
  | PeerNotSeeded | PeerUnconfirmed | LayoutMismatch

fun reason_alerts :: "carry_free_reason \<Rightarrow> bool" where
  "reason_alerts NotOwner = False"
| "reason_alerts PeerUnconfirmed = False"
| "reason_alerts SettingPending = False"
| "reason_alerts _ = True"

datatype carry_decision = Paying | CarryFree carry_free_reason

definition is_paying :: "carry_decision \<Rightarrow> bool" where "is_paying d \<longleftrightarrow> d = Paying"

fun decision_alerts :: "carry_decision \<Rightarrow> bool" where
  "decision_alerts Paying = False"
| "decision_alerts (CarryFree reason) = reason_alerts reason"

record guard =
  gd_peer_confirmed :: bool
  gd_highest_own_epoch :: "int option"

definition new_guard :: guard where
  "new_guard = \<lparr>gd_peer_confirmed = False, gd_highest_own_epoch = None\<rparr>"

definition seen_own_row :: "guard \<Rightarrow> bool" where
  "seen_own_row g \<longleftrightarrow> gd_highest_own_epoch g \<noteq> None"

definition carry_free :: "guard \<Rightarrow> carry_free_reason \<Rightarrow> guard \<times> carry_decision" where
  "carry_free g reason = (g\<lparr>gd_peer_confirmed := False\<rparr>, CarryFree reason)"

definition rolled_back :: "role_row option \<Rightarrow> int option \<Rightarrow> bool" where
  "rolled_back own highest = (case (own, highest) of
      (None, Some _) \<Rightarrow> True
    | (Some own, Some highest) \<Rightarrow> ro_epoch own < highest
    | (_, None) \<Rightarrow> False)"

text \<open>The end of the decision, once no row in sight stands against the claim.\<close>

definition confirm_peer :: "guard \<Rightarrow> role_row option \<Rightarrow> bool option \<Rightarrow> guard \<times> carry_decision" where
  "confirm_peer g peer read = (case read of
      Some primary \<Rightarrow> if peer = None then carry_free g PeerNotSeeded
        else let g = (if primary then g\<lparr>gd_peer_confirmed := True\<rparr> else g) in
          (g, if gd_peer_confirmed g then Paying else CarryFree PeerUnconfirmed)
    | None \<Rightarrow> (g, if gd_peer_confirmed g then Paying else CarryFree PeerUnconfirmed))"

definition holds :: "(role_row \<Rightarrow> bool) \<Rightarrow> role_row option \<Rightarrow> bool" where
  "holds P row = (case row of None \<Rightarrow> False | Some r \<Rightarrow> P r)"

definition judge_peer :: "guard \<Rightarrow> role_row \<Rightarrow> role_row option \<Rightarrow> role_row option \<Rightarrow> bool option \<Rightarrow> guard \<times> carry_decision" where
  "judge_peer g own live synced read =
    (let peer = newest live synced in
     if holds ro_carry_owner peer then carry_free g PeerClaimsOwnership
     else if holds ro_carry_owner live then carry_free g PeerJournalBehind
     else if holds (\<lambda>row. ro_action row = ''release'' \<and> \<not> acquired_after own row) peer then carry_free g ClaimNotVetted
     else confirm_peer g peer read)"

definition decide :: "guard \<Rightarrow> guard_inputs \<Rightarrow> guard \<times> carry_decision" where
  "decide g i =
    (if gi_database_node i \<noteq> Some (gi_node_index i) then carry_free g NodeUnidentified
     else if gi_layout_mismatch i \<noteq> None then carry_free g LayoutMismatch
     else if rolled_back (gi_own i) (gd_highest_own_epoch g) then carry_free g OwnJournalRolledBack
     else case gi_own i of None \<Rightarrow> carry_free g NoJournalRow | Some own \<Rightarrow>
     let g = g\<lparr>gd_highest_own_epoch := Some (ro_epoch own)\<rparr> in
     if ro_carry_owner own \<noteq> gi_env_owner i then
       carry_free g (if ro_action own = ''release'' \<or> ro_action own = ''acquire'' then SettingPending else ConfigMismatch)
     else if \<not> ro_carry_owner own then carry_free g NotOwner
     else (case gi_peer_read i of
         Answered peer own_at_peer primary \<Rightarrow>
           if holds (\<lambda>theirs. ro_epoch own < ro_epoch theirs) own_at_peer then carry_free g OwnJournalBehindPeer
           else judge_peer g own peer (gi_peer_synced i) (Some primary)
       | Read_Failed \<Rightarrow> judge_peer g own None (gi_peer_synced i) None))"

section \<open>Alerts\<close>

text \<open>Times are milliseconds elapsed since the instants the source keeps.\<close>

definition SETTING_PENDING_ALERT_AFTER :: nat where "SETTING_PENDING_ALERT_AFTER = 30 * 60 * 1000"
definition STARTUP_ALERT_AFTER :: nat where "STARTUP_ALERT_AFTER = 120 * 1000"
definition STARTUP_ALERT_CEILING :: nat where "STARTUP_ALERT_CEILING = 600 * 1000"

record start_up =
  su_since_started :: nat
  su_since_first_latched :: "nat option"

definition under_way :: "start_up \<Rightarrow> bool" where
  "under_way s = (case su_since_first_latched s of
      Some elapsed \<Rightarrow> elapsed < STARTUP_ALERT_AFTER
    | None \<Rightarrow> su_since_started s < STARTUP_ALERT_CEILING)"

definition alerting :: "carry_decision \<Rightarrow> nat \<Rightarrow> start_up \<Rightarrow> bool" where
  "alerting decision since start_up =
    (if decision = CarryFree SettingPending then SETTING_PENDING_ALERT_AFTER \<le> since
     else if decision = CarryFree NoJournalRow \<or> decision = CarryFree PeerNotSeeded then \<not> under_way start_up
     else decision_alerts decision)"

section \<open>What the decision is\<close>

lemmas decide_defs = decide_def judge_peer_def confirm_peer_def carry_free_def rolled_back_def holds_def Let_def

text \<open>A guard pays only on a claim of its own that nothing it saw contradicts.\<close>

definition unopposed :: "guard_inputs \<Rightarrow> role_row \<Rightarrow> bool" where
  "unopposed i own \<longleftrightarrow>
    (let live = peer_live (gi_peer_read i); peer = newest live (gi_peer_synced i) in
     \<not> holds ro_carry_owner peer \<and> \<not> holds ro_carry_owner live \<and>
     (\<forall>row. peer = Some row \<and> ro_action row = ''release'' \<longrightarrow> acquired_after own row) \<and>
     (case gi_peer_read i of Read_Failed \<Rightarrow> True
      | Answered _ own_at_peer _ \<Rightarrow> peer \<noteq> None \<and> \<not> holds (\<lambda>theirs. ro_epoch own < ro_epoch theirs) own_at_peer))"

definition primary_answered :: "guard_inputs \<Rightarrow> bool" where
  "primary_answered i \<longleftrightarrow> (case gi_peer_read i of Answered _ _ primary \<Rightarrow> primary | Read_Failed \<Rightarrow> False)"

lemma judge_peer_Paying:
  "snd (judge_peer g own live synced read) = Paying \<longleftrightarrow>
    \<not> holds ro_carry_owner (newest live synced) \<and> \<not> holds ro_carry_owner live \<and>
    (\<forall>row. newest live synced = Some row \<and> ro_action row = ''release'' \<longrightarrow> acquired_after own row) \<and>
    (read \<noteq> None \<longrightarrow> newest live synced \<noteq> None) \<and> (gd_peer_confirmed g \<or> read = Some True)"
  by (auto simp: judge_peer_def confirm_peer_def carry_free_def holds_def Let_def split: option.splits)

lemma decide_Paying_iff:
  "snd (decide g i) = Paying \<longleftrightarrow> gi_database_node i = Some (gi_node_index i) \<and> gi_layout_mismatch i = None \<and>
    gi_env_owner i \<and> (\<exists>own. gi_own i = Some own \<and> ro_carry_owner own \<and>
      (\<forall>highest. gd_highest_own_epoch g = Some highest \<longrightarrow> highest \<le> ro_epoch own) \<and>
      unopposed i own \<and> (gd_peer_confirmed g \<or> primary_answered i))"
  by (auto simp: decide_def carry_free_def Let_def rolled_back_def judge_peer_Paying unopposed_def primary_answered_def not_less
      split: option.splits peer_read.splits)

lemma decide_confirmed:
  "gd_peer_confirmed (fst (decide g i)) \<Longrightarrow> gd_peer_confirmed g \<or>
    (\<exists>peer own_at_peer. gi_peer_read i = Answered peer own_at_peer True \<and> \<not> holds ro_carry_owner peer)"
  by (auto simp: decide_defs split: option.splits peer_read.splits if_splits)

lemma decide_confirms_Paying: "gd_peer_confirmed (fst (decide g i)) \<longleftrightarrow> snd (decide g i) = Paying"
  by (auto simp: decide_defs split: option.splits peer_read.splits)

lemma decide_seen: "gd_peer_confirmed (fst (decide g i)) \<Longrightarrow> gd_highest_own_epoch (fst (decide g i)) \<noteq> None"
  by (auto simp: decide_defs split: option.splits peer_read.splits if_splits)

lemma decide_keeps_seen: "gd_highest_own_epoch g \<noteq> None \<Longrightarrow> gd_highest_own_epoch (fst (decide g i)) \<noteq> None"
  by (auto simp: decide_defs split: option.splits peer_read.splits)

chapter \<open>The pair\<close>

text \<open>
  The two nodes of a pair and their journals as one state machine.  Each node's guard runs
  \<open>check\<close> and then applies its decision to the carry gate, in four steps with anything of the
  other node between them: it reads its own journal, reads the peer (its primary as it is, a
  fallback that may answer anything, or nothing), decides, and moves the gate.  A check that read
  no row of its own may seed one, and decides on the answer it seeded on.  The operator's
  \<open>release\<close> appends at once; \<open>transfer\<close> reads the peer and appends later.  A restart resets the
  guard and closes the gate, and may follow a restore of the journal to anything.

  Two assumptions are about time.  A node that released is not made owner again while its guard
  has not yet seen the release (it looks every two seconds; a transfer waits for blocks): it is the
  condition \<open>vetted\<close> of the steps that make a claim, a transfer and the recovery of lost rows.
  And between a check's read of the peer and the seeding that follows it at once, the peer's
  newest row is not replaced.
\<close>

section \<open>The state\<close>

text \<open>Where a guard's loop stands: between checks, or with what it read or decided.\<close>

datatype guard_phase =
    Idle
  | Read_Own "role_row option" "role_row option"
  | Read_Peer "role_row option" "role_row option" peer_read
  | Decided carry_decision

record node_state =
  ns_own :: "role_row list"
  ns_copy :: "role_row list"
  ns_guard :: guard
  ns_phase :: guard_phase
  ns_gate :: bool
  ns_transfer :: "(role_row option \<times> role_row) option"

type_synonym pair_state = "node_index \<Rightarrow> node_state"

text \<open>Journals are newest first.\<close>

definition latest_row :: "role_row list \<Rightarrow> role_row option" where
  "latest_row rows = (case rows of [] \<Rightarrow> None | row # _ \<Rightarrow> Some row)"

definition claims :: "node_state \<Rightarrow> bool" where
  "claims s \<longleftrightarrow> holds ro_carry_owner (latest_row (ns_own s))"

text \<open>Work pays carried balances while the gate is open and this node's journal claims ownership.\<close>

definition pays :: "node_state \<Rightarrow> bool" where
  "pays s \<longleftrightarrow> ns_gate s \<and> claims s"

text \<open>The guard holds a confirmation of the peer, or is about to act on one.\<close>

definition vetted :: "node_state \<Rightarrow> bool" where
  "vetted s \<longleftrightarrow> ns_gate s \<or> gd_peer_confirmed (ns_guard s) \<or> (case ns_phase s of
      Read_Peer _ _ (Answered peer _ True) \<Rightarrow> \<not> holds ro_carry_owner peer
    | Decided d \<Rightarrow> is_paying d
    | _ \<Rightarrow> False)"

definition new_node :: node_state where
  "new_node = \<lparr>ns_own = [], ns_copy = [], ns_guard = new_guard, ns_phase = Idle, ns_gate = False, ns_transfer = None\<rparr>"

section \<open>The steps\<close>

text \<open>
  What a node's settings and database answer besides the journals: its identity, \<open>PRISM_CARRY_OWNER\<close>
  and the coinbase layouts.
\<close>

record settings =
  st_database_node :: "int option"
  st_env_owner :: bool
  st_layout_mismatch :: "string option"

datatype event =
    Begin_Check
  | Answer_Primary
  | Answer_Fallback "role_row option" "role_row option"
  | No_Answer
  | Decide settings
  | Apply
  | Check_Fails
  | Seed int bool
  | Release int role_detail
  | Read_For_Transfer
  | Write_Transfer int role_detail
  | Abandon_Transfer
  | Sync
  | Recover "role_row list"
  | Restart
  | Restore "role_row list" "role_row list"

definition append_role :: "node_index \<Rightarrow> int \<Rightarrow> bool \<Rightarrow> string \<Rightarrow> role_detail \<Rightarrow> node_state \<Rightarrow> node_state" where
  "append_role n epoch owner action detail s = s\<lparr>ns_own := \<lparr>ro_origin_node = index_of n, ro_epoch = epoch,
    ro_carry_owner = owner, ro_action = action, ro_detail = detail\<rparr> # ns_own s\<rparr>"

definition no_detail :: role_detail where
  "no_detail = \<lparr>rd_tip_height = None, rd_peer_epoch = None, rd_rest = ''''\<rparr>"

definition inputs_of :: "node_index \<Rightarrow> settings \<Rightarrow> role_row option \<Rightarrow> role_row option \<Rightarrow> peer_read \<Rightarrow> guard_inputs" where
  "inputs_of n st own synced read = \<lparr>gi_node_index = index_of n, gi_database_node = st_database_node st,
    gi_env_owner = st_env_owner st, gi_own = own, gi_peer_synced = synced, gi_peer_read = read,
    gi_layout_mismatch = st_layout_mismatch st\<rparr>"

definition check_decides :: "node_index \<Rightarrow> settings \<Rightarrow> role_row option \<Rightarrow> role_row option \<Rightarrow> peer_read \<Rightarrow> node_state \<Rightarrow> node_state" where
  "check_decides n st own synced read s = (case decide (ns_guard s) (inputs_of n st own synced read) of
      (g, d) \<Rightarrow> s\<lparr>ns_guard := g, ns_phase := Decided d\<rparr>)"

text \<open>One step of node \<open>n\<close>, when it can be taken; only this node's state changes.\<close>

fun node_step :: "node_index \<Rightarrow> event \<Rightarrow> node_state \<Rightarrow> node_state \<Rightarrow> node_state option" where
  "node_step n Begin_Check s p = (if ns_phase s = Idle
     then Some (s\<lparr>ns_phase := Read_Own (latest_row (ns_own s)) (latest_row (ns_copy s))\<rparr>) else None)"
| "node_step n Answer_Primary s p = (case ns_phase s of
     Read_Own own synced \<Rightarrow> Some (s\<lparr>ns_phase := Read_Peer own synced (Answered (latest_row (ns_own p)) (latest_row (ns_copy p)) True)\<rparr>)
   | _ \<Rightarrow> None)"
| "node_step n (Answer_Fallback peer own_at_peer) s p = (case ns_phase s of
     Read_Own own synced \<Rightarrow> Some (s\<lparr>ns_phase := Read_Peer own synced (Answered peer own_at_peer False)\<rparr>)
   | _ \<Rightarrow> None)"
| "node_step n No_Answer s p = (case ns_phase s of
     Read_Own own synced \<Rightarrow> Some (s\<lparr>ns_phase := Read_Peer own synced Read_Failed\<rparr>) | _ \<Rightarrow> None)"
| "node_step n (Decide st) s p = (case ns_phase s of
     Read_Peer own synced read \<Rightarrow> Some (check_decides n st own synced read s) | _ \<Rightarrow> None)"
| "node_step n Apply s p = (case ns_phase s of
     Decided d \<Rightarrow> Some (s\<lparr>ns_gate := is_paying d, ns_phase := Idle\<rparr>) | _ \<Rightarrow> None)"
| "node_step n Check_Fails s p = (case ns_phase s of
     Read_Own own synced \<Rightarrow> Some (s\<lparr>ns_phase := Idle\<rparr>)
   | Read_Peer own synced read \<Rightarrow> Some (s\<lparr>ns_phase := Idle\<rparr>) | _ \<Rightarrow> None)"
| "node_step n (Seed epoch owner) s p = (case ns_phase s of
     Read_Peer None synced (Answered peer None True) \<Rightarrow>
       if seen_own_row (ns_guard s) \<or> ns_own s = [] \<and> latest_row (ns_own p) \<noteq> peer then None
       else let s = (if ns_own s = [] then append_role n epoch owner ''seed'' no_detail s else s) in
         Some (s\<lparr>ns_phase := Read_Peer (latest_row (ns_own s)) (latest_row (ns_copy s)) (Answered peer None True)\<rparr>)
   | _ \<Rightarrow> None)"
| "node_step n (Release epoch detail) s p = (if claims s
     then Some (append_role n epoch False ''release'' detail s) else None)"
| "node_step n Read_For_Transfer s p = (case latest_row (ns_own p) of
     Some row \<Rightarrow> if \<not> claims s \<and> \<not> ro_carry_owner row
       then Some (s\<lparr>ns_transfer := Some (latest_row (ns_own s), row)\<rparr>) else None
   | None \<Rightarrow> None)"
| "node_step n (Write_Transfer epoch detail) s p = (case ns_transfer s of
     Some (own, row) \<Rightarrow> if latest_row (ns_own s) = own \<and> \<not> vetted s
       then Some (append_role n epoch True ''acquire'' detail (s\<lparr>ns_transfer := None, ns_copy := row # ns_copy s\<rparr>)) else None
   | None \<Rightarrow> None)"
| "node_step n Abandon_Transfer s p = Some (s\<lparr>ns_transfer := None\<rparr>)"
| "node_step n Sync s p = Some (s\<lparr>ns_copy := ns_own p\<rparr>)"
| "node_step n (Recover rows) s p = (if vetted s then None else Some (s\<lparr>ns_own := rows @ ns_own s\<rparr>))"
| "node_step n Restart s p = Some (s\<lparr>ns_guard := new_guard, ns_phase := Idle, ns_gate := False, ns_transfer := None\<rparr>)"
| "node_step n (Restore own copy) s p = Some (s\<lparr>ns_own := own, ns_copy := copy, ns_guard := new_guard,
     ns_phase := Idle, ns_gate := False, ns_transfer := None\<rparr>)"

definition pair_step :: "pair_state \<Rightarrow> node_index \<times> event \<Rightarrow> pair_state option" where
  "pair_step s e = (case e of (n, event) \<Rightarrow>
    map_option (\<lambda>s'. s(n := s')) (node_step n event (s n) (s (peer_of n))))"

fun run_pair :: "pair_state \<Rightarrow> (node_index \<times> event) list \<Rightarrow> pair_state option" where
  "run_pair s [] = Some s"
| "run_pair s (e # es) = Option.bind (pair_step s e) (\<lambda>s'. run_pair s' es)"

inductive pair_reachable :: "pair_state \<Rightarrow> bool" where
  pair_start: "pair_reachable (\<lambda>_. new_node)"
| pair_step: "pair_reachable s \<Longrightarrow> pair_step s e = Some s' \<Longrightarrow> pair_reachable s'"

section \<open>At most one node pays\<close>

text \<open>A guard is confirmed only once it has read a row of its own, and the gate opens only then.\<close>

definition node_ok :: "node_state \<Rightarrow> bool" where
  "node_ok s \<longleftrightarrow> (gd_peer_confirmed (ns_guard s) \<longrightarrow> seen_own_row (ns_guard s)) \<and>
    (ns_phase s = Decided Paying \<longrightarrow> gd_peer_confirmed (ns_guard s)) \<and>
    (ns_gate s \<longrightarrow> seen_own_row (ns_guard s)) \<and>
    (ns_transfer s \<noteq> None \<longrightarrow> \<not> holds ro_carry_owner (fst (the (ns_transfer s))))"

definition pair_ok :: "pair_state \<Rightarrow> bool" where
  "pair_ok s \<longleftrightarrow> node_ok (s A) \<and> node_ok (s B) \<and> \<not> (vetted (s A) \<and> claims (s A) \<and> vetted (s B) \<and> claims (s B))"

lemma check_decides_fields [simp]:
  "ns_own (check_decides n st own synced read s) = ns_own s"
  "ns_gate (check_decides n st own synced read s) = ns_gate s"
  "ns_transfer (check_decides n st own synced read s) = ns_transfer s"
  "ns_guard (check_decides n st own synced read s) = fst (decide (ns_guard s) (inputs_of n st own synced read))"
  "ns_phase (check_decides n st own synced read s) = Decided (snd (decide (ns_guard s) (inputs_of n st own synced read)))"
  by (simp_all add: check_decides_def case_prod_unfold)

lemma decide_vetted:
  assumes "gd_peer_confirmed (fst (decide g (inputs_of n st own synced read)))"
  shows "gd_peer_confirmed g \<or> (case read of Answered peer _ True \<Rightarrow> \<not> holds ro_carry_owner peer | _ \<Rightarrow> False)"
  using decide_confirmed[OF assms] by (auto simp: inputs_of_def)

text \<open>Each step changes one of the things \<^const>\<open>vetted\<close> and \<^const>\<open>claims\<close> look at.\<close>

lemma claims_simps [simp]:
  "claims (append_role n epoch owner action detail s) = owner"
  "claims (s\<lparr>ns_phase := ph\<rparr>) = claims s" "claims (s\<lparr>ns_gate := gate\<rparr>) = claims s"
  "claims (s\<lparr>ns_transfer := tr\<rparr>) = claims s" "claims (s\<lparr>ns_copy := copy\<rparr>) = claims s"
  "claims (s\<lparr>ns_guard := g\<rparr>) = claims s"
  "claims (check_decides n st own synced read s) = claims s"
  by (simp_all add: claims_def append_role_def latest_row_def holds_def)

lemma vetted_simps [simp]:
  "vetted (append_role n epoch owner action detail s) = vetted s" "vetted (s\<lparr>ns_own := rows\<rparr>) = vetted s"
  "vetted (s\<lparr>ns_transfer := tr\<rparr>) = vetted s" "vetted (s\<lparr>ns_copy := copy\<rparr>) = vetted s"
  "vetted (s\<lparr>ns_transfer := tr, ns_copy := copy\<rparr>) = vetted s"
  "vetted (s\<lparr>ns_own := rows, ns_copy := copy, ns_guard := new_guard, ns_phase := Idle, ns_gate := False\<rparr>) = False"
  "vetted (s\<lparr>ns_guard := new_guard, ns_phase := Idle, ns_gate := False\<rparr>) = False"
  by (simp_all add: vetted_def append_role_def new_guard_def)

lemma vetted_phase:
  "vetted (s\<lparr>ns_phase := Read_Own own synced\<rparr>) \<Longrightarrow> vetted s"
  "vetted (s\<lparr>ns_phase := Idle\<rparr>) \<Longrightarrow> vetted s"
  "vetted (s\<lparr>ns_phase := Read_Peer own synced Read_Failed\<rparr>) \<Longrightarrow> vetted s"
  "vetted (s\<lparr>ns_phase := Read_Peer own synced (Answered peer own_at_peer False)\<rparr>) \<Longrightarrow> vetted s"
  "vetted (s\<lparr>ns_phase := Read_Peer own synced (Answered peer own_at_peer True)\<rparr>) \<Longrightarrow>
    vetted s \<or> \<not> holds ro_carry_owner peer"
  "ns_phase s = Decided d \<Longrightarrow> vetted (s\<lparr>ns_gate := is_paying d, ns_phase := Idle\<rparr>) \<Longrightarrow> vetted s"
  by (auto simp: vetted_def)

lemma vetted_decides:
  assumes "ns_phase s = Read_Peer own synced read" and "vetted (check_decides n st own synced read s)"
  shows "vetted s"
  using assms decide_vetted[of "ns_guard s" n st own synced read]
  by (auto simp: vetted_def is_paying_def decide_confirms_Paying)

text \<open>
  A step makes a vetted claim only of what was one, or of a node whose peer, as it stands, claims
  nothing.
\<close>

lemma step_claims:
  assumes "node_step n e s p = Some s'" and "vetted s'" and "claims s'" and "node_ok s"
  shows "vetted s \<and> claims s \<or> \<not> claims p"
proof (cases e)
  case Answer_Primary
  then show ?thesis using assms(1-3) by (auto simp: claims_def[of p] split: guard_phase.splits dest!: vetted_phase(5))
next
  case (Seed epoch owner)
  then obtain synced peer where s: "ns_phase s = Read_Peer None synced (Answered peer None True)"
    "\<not> seen_own_row (ns_guard s)" "ns_own s = [] \<Longrightarrow> latest_row (ns_own p) = peer"
    using assms(1) by (auto split: guard_phase.splits option.splits peer_read.splits bool.splits if_splits)
  then have "\<not> ns_gate s" "\<not> gd_peer_confirmed (ns_guard s)" using assms(4) by (auto simp: node_ok_def)
  then have "\<not> holds ro_carry_owner peer" "ns_own s \<noteq> [] \<Longrightarrow> claims s"
    using assms(1-3) Seed s(1,2) by (auto simp: vetted_def append_role_def Let_def claims_def split: if_splits)
  then show ?thesis using s(1,3) by (cases "ns_own s = []") (auto simp: claims_def[of p] vetted_def)
next
  case (Decide st)
  then obtain own synced read where s: "ns_phase s = Read_Peer own synced read" "s' = check_decides n st own synced read s"
    using assms(1) by (auto split: guard_phase.splits)
  then show ?thesis using assms(2,3) vetted_decides[OF s(1)] by simp
next
  case Apply
  then obtain d where "ns_phase s = Decided d" "s' = s\<lparr>ns_gate := is_paying d, ns_phase := Idle\<rparr>"
    using assms(1) by (auto split: guard_phase.splits)
  then show ?thesis using assms(2,3) vetted_phase(6) by simp
qed (use assms(1-3) in \<open>auto split: guard_phase.splits option.splits if_splits dest!: vetted_phase(1-4)\<close>)

lemma step_node_ok:
  assumes "node_step n e s p = Some s'" and "node_ok s"
  shows "node_ok s'"
proof (cases e)
  case (Decide st)
  then obtain own synced read where s': "s' = check_decides n st own synced read s"
    using assms(1) by (auto split: guard_phase.splits)
  show ?thesis
    using assms(2) decide_seen[of "ns_guard s" "inputs_of n st own synced read"]
      decide_keeps_seen[of "ns_guard s" "inputs_of n st own synced read"]
    by (simp add: s' node_ok_def seen_own_row_def decide_confirms_Paying)
next
  case (Seed epoch owner)
  then show ?thesis using assms
    by (auto simp: node_ok_def append_role_def Let_def split: guard_phase.splits option.splits peer_read.splits bool.splits if_splits)
next
  case Apply
  then show ?thesis using assms by (auto simp: node_ok_def is_paying_def split: guard_phase.splits carry_decision.splits)
qed (use assms in \<open>auto simp: node_ok_def append_role_def new_guard_def claims_def split: guard_phase.splits option.splits if_splits\<close>)

lemma step_pair_ok: "pair_ok s \<Longrightarrow> pair_step s (n, e) = Some s' \<Longrightarrow> pair_ok s'"
proof -
  assume ok: "pair_ok s" and step: "pair_step s (n, e) = Some s'"
  then obtain t where t: "node_step n e (s n) (s (peer_of n)) = Some t" "s' = s(n := t)"
    by (auto simp: pair_step_def)
  have "node_ok t" by (rule step_node_ok[OF t(1)]) (use ok in \<open>cases n; simp add: pair_ok_def\<close>)
  moreover have "\<not> (vetted t \<and> claims t \<and> vetted (s (peer_of n)) \<and> claims (s (peer_of n)))"
    using step_claims[OF t(1)] ok by (cases n) (auto simp: pair_ok_def)
  ultimately show ?thesis using ok t(2) by (cases n) (auto simp: pair_ok_def)
qed

lemma reachable_pair_ok: "pair_reachable s \<Longrightarrow> pair_ok s"
proof (induction rule: pair_reachable.induct)
  case (pair_step s e s')
  then show ?case using step_pair_ok[of s "fst e" "snd e" s'] by simp
qed (simp add: pair_ok_def node_ok_def new_node_def new_guard_def vetted_def)

lemma run_pair_reachable: "pair_reachable s \<Longrightarrow> run_pair s es = Some s' \<Longrightarrow> pair_reachable s'"
  by (induction es arbitrary: s) (auto simp: bind_eq_Some_conv intro: pair_reachable.pair_step)

end
