(* ===== verification/Carry_Transfer.thy ===== *)
theory Carry_Transfer
  imports Carry_Owner Prism_Types Ordered_Map "HOL-Library.Sublist"
begin

text \<open>
  \<open>carry_owner/transfer.rs\<close>: how the scan recognises the pool's blocks, the checks of \<open>release\<close> and
  \<open>transfer\<close>, and the claim a transfer writes.  The texts of the checks are not modelled, and what
  the scan, the journals and the chain answer are arguments.
\<close>

section \<open>The chain scan\<close>

record coinbase_view =
  cv_block_hash :: string
  cv_script_sig :: bytes
  cv_output_scripts :: "bytes list"

record pool_recognizer =
  pr_tags :: "bytes list"
  pr_fee_scripts :: "bytes list"

text \<open>A tag among the windows of the script is an infix of it; the constructors refuse an empty tag.\<close>

definition is_pool_block :: "pool_recognizer \<Rightarrow> coinbase_view \<Rightarrow> bool" where
  "is_pool_block r coinbase \<longleftrightarrow> list_ex (\<lambda>tag. sublist tag (cv_script_sig coinbase)) (pr_tags r) \<or>
    list_ex (\<lambda>fee. fee \<in> set (cv_output_scripts coinbase)) (pr_fee_scripts r)"

datatype landing = Landed_Confirmed | Landed_Unconfirmed | Landing_Missing

text \<open>What the ledger holds of a block: its chain state and whether it is audited.\<close>

definition landing_of :: "(string \<times> bool) option \<Rightarrow> landing" where
  "landing_of landed = (case landed of
      Some (state, True) \<Rightarrow> if state = ''confirmed'' then Landed_Confirmed else Landed_Unconfirmed
    | _ \<Rightarrow> Landing_Missing)"

record scanned_block =
  sb_height :: u64
  sb_block_hash :: string
  sb_landing :: landing

record chain_scan =
  cs_from_height :: u64
  cs_tip_height :: u64
  cs_tip_hash :: string
  cs_pool_blocks :: "scanned_block list"

definition unresolved :: "chain_scan \<Rightarrow> scanned_block list" where
  "unresolved scan = filter (\<lambda>b. sb_landing b \<noteq> Landed_Confirmed) (cs_pool_blocks scan)"

section \<open>The checks\<close>

record transfer_check =
  tc_check :: string
  tc_ok :: bool

definition named_check :: "string \<Rightarrow> bool \<Rightarrow> transfer_check" where
  "named_check name ok = \<lparr>tc_check = name, tc_ok = ok\<rparr>"

record transfer_facts =
  tf_node_index :: int
  tf_database_node :: "int option"
  tf_own :: "role_row option"
  tf_peer_read :: peer_read
  tf_peer_synced :: "role_row option"
  tf_peer_claim :: "role_row option"
  tf_peer_claim_read :: bool
  tf_peer_claim_conflict :: bool
  tf_tip_height :: u64
  tf_release_depth :: u64
  tf_scan :: chain_scan

definition SCAN_REORG_MARGIN :: u64 where "SCAN_REORG_MARGIN = QBIT_COINBASE_MATURITY_BLOCKS"

definition saturating_sub :: "u64 \<Rightarrow> u64 \<Rightarrow> u64" where
  "saturating_sub a b = (if a < b then 0 else a - b)"

lemma uint_saturating_sub: "uint (saturating_sub a b) = max (uint a - uint b) 0"
  using uint_sub_lem[of b a] by (auto simp: saturating_sub_def word_less_def)

definition scan_start :: "transfer_facts \<Rightarrow> transfer_check" where
  "scan_start facts = named_check ''scan_start''
    (if \<not> tf_peer_claim_read facts then False
     else if tf_peer_claim_conflict facts then False
     else case tf_peer_claim facts of
         None \<Rightarrow> \<not> (holds (\<lambda>row. ro_action row = ''release'') (peer_live (tf_peer_read facts)) \<or>
           holds (\<lambda>row. ro_action row = ''release'') (tf_peer_synced facts))
       | Some claim \<Rightarrow> (case tip_height claim of
           Some tip \<Rightarrow> cs_from_height (tf_scan facts) \<le> saturating_sub tip SCAN_REORG_MARGIN
         | None \<Rightarrow> cs_from_height (tf_scan facts) = 0))"

definition live_conflict :: "role_row option \<Rightarrow> role_row option \<Rightarrow> bool" where
  "live_conflict live synced = (case (live, synced) of
      (Some live, Some synced) \<Rightarrow> ro_epoch live = ro_epoch synced \<and> live \<noteq> synced | _ \<Rightarrow> False)"

definition peer_not_owner :: "role_row option \<Rightarrow> role_row option \<Rightarrow> bool" where
  "peer_not_owner live synced = (case newest live synced of
      None \<Rightarrow> False
    | Some peer \<Rightarrow> if live_conflict live synced then False
        else if ro_carry_owner peer then False
        else if holds ro_carry_owner live then False
        else True)"

definition release_depth_check :: "transfer_facts \<Rightarrow> role_row option \<Rightarrow> transfer_check list" where
  "release_depth_check facts peer = (case peer of
      Some peer \<Rightarrow> if ro_action peer = ''release'' then [named_check ''release_depth'' (case tip_height peer of
          Some released \<Rightarrow> saturating_add released (tf_release_depth facts) \<le> tf_tip_height facts
        | None \<Rightarrow> False)] else []
    | None \<Rightarrow> [])"

definition transfer_checks :: "transfer_facts \<Rightarrow> transfer_check list" where
  "transfer_checks facts =
    [named_check ''node_identity'' (tf_database_node facts = Some (tf_node_index facts)),
     named_check ''this_node_not_owner'' (\<not> holds ro_carry_owner (tf_own facts))] @
    (case tf_peer_read facts of
        Read_Failed \<Rightarrow> [named_check ''peer_answered'' False]
      | Answered live own_at_peer _ \<Rightarrow>
          [named_check ''peer_answered'' True, named_check ''peer_not_owner'' (peer_not_owner live (tf_peer_synced facts)),
           named_check ''own_journal_current'' (\<not> holds (\<lambda>theirs. case tf_own facts of None \<Rightarrow> True
             | Some own \<Rightarrow> ro_epoch own < ro_epoch theirs) own_at_peer),
           scan_start facts] @
          release_depth_check facts (newest live (tf_peer_synced facts))) @
    [named_check ''chain_scan'' (unresolved (tf_scan facts) = [])]"

definition passed :: "transfer_check list \<Rightarrow> bool" where
  "passed checks \<longleftrightarrow> list_all tc_ok checks"

section \<open>The commands\<close>

definition MIN_RELEASE_DEPTH :: u64 where "MIN_RELEASE_DEPTH = 2"

definition release_checks :: "int \<Rightarrow> int option \<Rightarrow> role_row option \<Rightarrow> transfer_check list" where
  "release_checks node_index database_node own =
    [named_check ''node_identity'' (database_node = Some node_index),
     named_check ''this_node_owner'' (holds ro_carry_owner own)]"

text \<open>\<open>next_epoch\<close> is above every row the database holds and at least the clock in milliseconds.\<close>

definition next_epoch :: "int \<Rightarrow> role_row list \<Rightarrow> int" where
  "next_epoch clock_ms rows = max clock_ms (foldr (\<lambda>row m. max (ro_epoch row) m) rows 0 + 1)"

text \<open>
  The row \<open>release\<close> writes, from the local journal as observed and as read again under the lock
  (\<open>Inr None\<close>: nothing is written).
\<close>

definition release_row :: "int \<Rightarrow> int option \<Rightarrow> role_row option \<Rightarrow> role_row option \<Rightarrow> bool \<Rightarrow> u64 \<Rightarrow> string \<Rightarrow> int
    \<Rightarrow> string + role_row option" where
  "release_row node_index database_node own own_locked confirm tip reason epoch =
    (if \<not> passed (release_checks node_index database_node own) \<or> \<not> confirm then Inr None
     else if own_locked \<noteq> own then Inl ''this node's journal changed''
     else Inr (Some \<lparr>ro_origin_node = node_index, ro_epoch = epoch, ro_carry_owner = False, ro_action = ''release'',
       ro_detail = \<lparr>rd_tip_height = Some tip, rd_peer_epoch = None, rd_rest = reason\<rparr>\<rparr>))"

text \<open>
  What \<open>transfer\<close> reads after its checks: the peer's latest row again, the local rows before and
  after that row is copied, whether the copy met a conflict, and the block now active at the
  scanned tip's height.
\<close>

record transfer_reread =
  rr_peer_latest :: "role_row option"
  rr_own :: "role_row option"
  rr_copy_conflicts :: bool
  rr_own_locked :: "role_row option"
  rr_peer_locked :: "role_row option"
  rr_active_hash :: string

definition transfer_row :: "transfer_facts \<Rightarrow> bool \<Rightarrow> transfer_reread \<Rightarrow> string \<Rightarrow> int \<Rightarrow> string + role_row option" where
  "transfer_row facts confirm re reason epoch =
    (let live = peer_live (tf_peer_read facts); checked = newest live (tf_peer_synced facts) in
     if \<not> passed (transfer_checks facts) \<or> \<not> confirm then Inr None
     else case rr_peer_latest re of
       None \<Rightarrow> Inl ''the peer's journal changed or could not be read again''
     | Some latest \<Rightarrow>
       if Some latest \<noteq> live then Inl ''the peer's journal changed''
       else if ro_carry_owner latest then Inl ''the peer holds ownership''
       else if rr_own re \<noteq> tf_own facts then Inl ''this node's journal changed''
       else if rr_copy_conflicts re then Inl ''peer sync conflict''
       else if rr_own_locked re \<noteq> tf_own facts then Inl ''this node's journal changed''
       else if rr_peer_locked re \<noteq> checked then Inl ''the peer's journal changed''
       else if rr_active_hash re \<noteq> cs_tip_hash (tf_scan facts) then Inl ''the scanned tip is no longer active''
       else Inr (Some \<lparr>ro_origin_node = tf_node_index facts, ro_epoch = epoch, ro_carry_owner = True, ro_action = ''acquire'',
         ro_detail = \<lparr>rd_tip_height = Some (tf_tip_height facts), rd_peer_epoch = map_option ro_epoch checked,
           rd_rest = reason\<rparr>\<rparr>))"

section \<open>What a written claim was checked against\<close>

lemma newest_cases: "newest live synced = live \<or> newest live synced = synced"
  by (cases live; cases synced) auto

lemma passed_Answered:
  assumes "passed (transfer_checks facts)"
  obtains live own_at_peer primary peer where "tf_peer_read facts = Answered live own_at_peer primary"
    "newest live (tf_peer_synced facts) = Some peer" "\<not> ro_carry_owner peer" "\<not> holds ro_carry_owner live"
    "\<not> holds ro_carry_owner (tf_own facts)" "unresolved (tf_scan facts) = []"
    "tf_database_node facts = Some (tf_node_index facts)" "tc_ok (scan_start facts)"
    "holds (\<lambda>theirs. case tf_own facts of None \<Rightarrow> True | Some own \<Rightarrow> ro_epoch own < ro_epoch theirs) own_at_peer = False"
    "ro_action peer = ''release'' \<Longrightarrow> \<exists>released. tip_height peer = Some released \<and>
      saturating_add released (tf_release_depth facts) \<le> tf_tip_height facts"
proof (cases "tf_peer_read facts")
  case (Answered live own_at_peer primary)
  have "peer_not_owner live (tf_peer_synced facts)"
    using assms Answered by (simp add: passed_def transfer_checks_def named_check_def)
  then obtain peer where peer: "newest live (tf_peer_synced facts) = Some peer" "\<not> ro_carry_owner peer"
    "\<not> holds ro_carry_owner live"
    by (auto simp: peer_not_owner_def split: option.splits if_splits)
  have "ro_action peer = ''release'' \<Longrightarrow> \<exists>released. tip_height peer = Some released \<and>
      saturating_add released (tf_release_depth facts) \<le> tf_tip_height facts"
    using assms Answered peer(1)
    by (auto simp: passed_def transfer_checks_def named_check_def release_depth_check_def split: option.splits)
  with that Answered peer assms show thesis
    by (auto simp: passed_def transfer_checks_def named_check_def)
qed (use assms in \<open>simp add: passed_def transfer_checks_def named_check_def\<close>)

lemma transfer_row_written:
  assumes "transfer_row facts confirm re reason epoch = Inr (Some row)"
  shows "passed (transfer_checks facts)" and "rr_peer_latest re = peer_live (tf_peer_read facts)"
    and "rr_own_locked re = tf_own facts"
    and "rr_active_hash re = cs_tip_hash (tf_scan facts)"
    and "row = \<lparr>ro_origin_node = tf_node_index facts, ro_epoch = epoch, ro_carry_owner = True, ro_action = ''acquire'',
      ro_detail = \<lparr>rd_tip_height = Some (tf_tip_height facts),
        rd_peer_epoch = map_option ro_epoch (newest (peer_live (tf_peer_read facts)) (tf_peer_synced facts)),
        rd_rest = reason\<rparr>\<rparr>"
  using assms by (auto simp: transfer_row_def Let_def split: if_splits option.splits)


chapter \<open>The chain walk\<close>

text \<open>
  \<open>walk_chain\<close> and \<open>scan_chain\<close> of \<open>carry_owner/transfer.rs\<close>: reading the active chain height by height
  while it may move.  One turn of the loop is a function of what the node answers in it; the loop is
  a relation over turns, since a chain that keeps moving keeps it going.  Heights are natural
  numbers below \<open>2 ^ 64\<close>.
\<close>

record walked_block =
  wb_hash :: string
  wb_parent :: "string option"
  wb_pool :: bool

text \<open>The lowest height from \<open>from_height\<close> on whose block does not name the one below it.\<close>

fun first_link_break :: "(nat \<times> walked_block) list \<Rightarrow> nat \<Rightarrow> nat option" where
  "first_link_break ((low, b) # (high, b') # es) from_height =
    (if from_height \<le> low \<and> high = low + 1 \<and>
        (case wb_parent b' of None \<Rightarrow> False | Some parent \<Rightarrow> parent \<noteq> wb_hash b)
     then Some high else first_link_break ((high, b') # es) from_height)"
| "first_link_break _ from_height = None"

record chain_walk =
  cw_tip_height :: nat
  cw_tip_hash :: string
  cw_blocks :: "(nat, walked_block) btree"

record walking = chain_walk +
  wk_next :: nat

text \<open>What the node answers in one turn: the blocks it is asked for, its tip, and active hashes.\<close>

record walk_answers =
  wa_block :: "nat \<Rightarrow> walked_block"
  wa_tip :: "nat \<times> string"
  wa_active :: "nat \<Rightarrow> string"

definition read_blocks :: "walk_answers \<Rightarrow> nat \<Rightarrow> nat \<Rightarrow> (nat, walked_block) btree \<Rightarrow> (nat, walked_block) btree" where
  "read_blocks a from_h to_h blocks = fold (\<lambda>h m. bt_put h (wa_block a h) m) [from_h..<Suc to_h] blocks"

text \<open>The highest block read that is still active, at or below a height.\<close>

fun still_active :: "nat \<Rightarrow> (nat, walked_block) btree \<Rightarrow> (nat \<Rightarrow> string) \<Rightarrow> nat \<Rightarrow> nat option" where
  "still_active from_height blocks active height =
    (if height < from_height then None
     else if (case bt_get blocks height of None \<Rightarrow> False | Some b \<Rightarrow> wb_hash b = active height) then Some height
     else case height of 0 \<Rightarrow> None | Suc h \<Rightarrow> still_active from_height blocks active h)"

declare still_active.simps [simp del]

definition walk_turn :: "nat \<Rightarrow> walking \<Rightarrow> walk_answers \<Rightarrow> walking + chain_walk" where
  "walk_turn from_height w a =
    (let tip_height = cw_tip_height w; tip_hash = cw_tip_hash w;
       blocks = (if wk_next w \<le> tip_height then read_blocks a (wk_next w) tip_height (cw_blocks w) else cw_blocks w);
       top_is_tip = (tip_height < from_height \<or>
         (case bt_get blocks tip_height of None \<Rightarrow> False | Some b \<Rightarrow> wb_hash b = tip_hash)) in
     case (case first_link_break (bt_entries blocks) from_height of Some h \<Rightarrow> Some h
         | None \<Rightarrow> if top_is_tip then None else Some tip_height) of
       Some broken \<Rightarrow>
         let again = max (broken - 1) from_height in
         Inl \<lparr>cw_tip_height = fst (wa_tip a), cw_tip_hash = snd (wa_tip a),
           cw_blocks = filter (\<lambda>(h, _). h < again) blocks, wk_next = again\<rparr>
     | None \<Rightarrow>
         if snd (wa_tip a) = tip_hash
         then Inr \<lparr>cw_tip_height = tip_height, cw_tip_hash = tip_hash, cw_blocks = blocks\<rparr>
         else let keep = still_active from_height blocks (wa_active a) (min tip_height (fst (wa_tip a))) in
         Inl \<lparr>cw_tip_height = fst (wa_tip a), cw_tip_hash = snd (wa_tip a),
           cw_blocks = filter (\<lambda>(h, _). case keep of None \<Rightarrow> False | Some k \<Rightarrow> h \<le> k) blocks,
           wk_next = (case keep of None \<Rightarrow> from_height | Some k \<Rightarrow> k + 1)\<rparr>)"

definition walk_start :: "nat \<Rightarrow> nat \<times> string \<Rightarrow> walking" where
  "walk_start from_height tip = \<lparr>cw_tip_height = fst tip, cw_tip_hash = snd tip, cw_blocks = [], wk_next = from_height\<rparr>"

section \<open>The scan\<close>

definition scan_of :: "u64 \<Rightarrow> chain_walk \<Rightarrow> (string \<Rightarrow> (string \<times> bool) option) \<Rightarrow> chain_scan" where
  "scan_of from_height w landed = \<lparr>cs_from_height = from_height, cs_tip_height = word_of_nat (cw_tip_height w),
    cs_tip_hash = cw_tip_hash w, cs_pool_blocks = map (\<lambda>(h, b). \<lparr>sb_height = word_of_nat h, sb_block_hash = wb_hash b,
      sb_landing = landing_of (landed (wb_hash b))\<rparr>) (filter (\<lambda>(_, b). wb_pool b) (bt_entries (cw_blocks w)))\<rparr>"

section \<open>What an honest node answers\<close>

text \<open>
  Blocks form a tree: a hash determines its height, its parent and its coinbase.  The node may
  change its mind about which chain is active between any two answers, but every block it names
  is one of the tree.
\<close>

record block_tree =
  bt_height :: "string \<Rightarrow> nat"
  bt_parent :: "string \<Rightarrow> string"
  bt_pool :: "string \<Rightarrow> bool"

definition true_block :: "block_tree \<Rightarrow> nat \<Rightarrow> walked_block \<Rightarrow> bool" where
  "true_block t h b \<longleftrightarrow> bt_height t (wb_hash b) = h \<and> (0 < h \<longrightarrow> wb_parent b = Some (bt_parent t (wb_hash b))) \<and>
    wb_pool b = bt_pool t (wb_hash b)"

definition honest :: "block_tree \<Rightarrow> walk_answers \<Rightarrow> bool" where
  "honest t a \<longleftrightarrow> (\<forall>h. true_block t h (wa_block a h)) \<and> bt_height t (snd (wa_tip a)) = fst (wa_tip a)"

inductive walks :: "block_tree \<Rightarrow> nat \<Rightarrow> walking \<Rightarrow> chain_walk \<Rightarrow> bool" for t from_height where
  walk_ends: "honest t a \<Longrightarrow> walk_turn from_height w a = Inr r \<Longrightarrow> walks t from_height w r"
| walk_again: "honest t a \<Longrightarrow> walk_turn from_height w a = Inl w' \<Longrightarrow> walks t from_height w' r \<Longrightarrow> walks t from_height w r"

text \<open>The block at a height of the chain that ends in a block.\<close>

definition ancestor_at :: "block_tree \<Rightarrow> string \<Rightarrow> nat \<Rightarrow> string" where
  "ancestor_at t tip h = (bt_parent t ^^ (bt_height t tip - h)) tip"

section \<open>The invariant of the loop\<close>

definition walk_ok :: "block_tree \<Rightarrow> nat \<Rightarrow> nat \<Rightarrow> (nat, walked_block) btree \<Rightarrow> bool" where
  "walk_ok t from_height bnd blocks \<longleftrightarrow> bt_ok blocks \<and> (\<forall>(h, b)\<in>set blocks. true_block t h b \<and> h < bnd) \<and>
    (\<forall>h. from_height \<le> h \<and> h < bnd \<longrightarrow> bt_get blocks h \<noteq> None)"

lemma bt_get_filter: "bt_ok m \<Longrightarrow> P k \<Longrightarrow> bt_get (filter (\<lambda>(h, _). P h) m) k = bt_get m k"
  by (induction m) (auto simp: bt_get_def bt_ok_def)

lemma bt_ok_filter: "bt_ok m \<Longrightarrow> bt_ok (filter P m)"
  by (induction m) (auto simp: bt_ok_def)

lemma walk_ok_filter:
  assumes "walk_ok t from_height u blocks" and "\<And>h. from_height \<le> h \<Longrightarrow> h < u' \<Longrightarrow> P h \<and> h < u"
    and "\<And>h. P h \<Longrightarrow> h < u'"
  shows "walk_ok t from_height u' (filter (\<lambda>(h, _). P h) blocks)"
  unfolding walk_ok_def
proof (intro conjI allI impI)
  have ok: "bt_ok blocks" using assms(1) by (simp add: walk_ok_def)
  show "bt_ok (filter (\<lambda>(h, _). P h) blocks)" by (rule bt_ok_filter[OF ok])
  show "\<forall>(h, b)\<in>set (filter (\<lambda>(h, _). P h) blocks). true_block t h b \<and> h < u'"
    using assms(1,3) by (auto simp: walk_ok_def)
  show "bt_get (filter (\<lambda>(h, _). P h) blocks) h \<noteq> None" if "from_height \<le> h \<and> h < u'" for h
    using that assms(1,2) bt_get_filter[OF ok, of P h] by (simp add: walk_ok_def)
qed

lemma walk_ok_put:
  assumes "walk_ok t from_height u blocks" and "true_block t u b"
  shows "walk_ok t from_height (Suc u) (bt_put u b blocks)"
  unfolding walk_ok_def
proof (intro conjI allI impI)
  have ok: "bt_ok blocks" using assms(1) by (simp add: walk_ok_def)
  show "bt_ok (bt_put u b blocks)" by (rule bt_ok_put[OF ok])
  show "\<forall>(h, b)\<in>set (bt_put u b blocks). true_block t h b \<and> h < Suc u"
    using assms set_bt_put[of _ u b blocks] by (fastforce simp: walk_ok_def)
  show "bt_get (bt_put u b blocks) h \<noteq> None" if "from_height \<le> h \<and> h < Suc u" for h
    using that assms(1) by (cases "h = u") (auto simp: walk_ok_def bt_get_put[OF ok])
qed

lemma read_blocks_ok:
  assumes "honest t a" and "walk_ok t from_height n blocks"
  shows "walk_ok t from_height (n + k) (fold (\<lambda>h m. bt_put h (wa_block a h) m) [n..<n + k] blocks)"
proof (induction k)
  case (Suc k)
  then show ?case using walk_ok_put[OF Suc] assms(1) by (simp add: honest_def)
qed (use assms in simp)

lemma still_active_bounds: "still_active from_height blocks active h = Some k \<Longrightarrow> from_height \<le> k \<and> k \<le> h"
proof (induction h)
  case 0
  then show ?case by (auto simp: still_active.simps[of _ _ _ 0] split: if_splits)
next
  case (Suc h)
  then show ?case by (force simp: still_active.simps[of _ _ _ "Suc h"] split: if_splits)
qed

lemma link_break_le: "first_link_break es from_height = Some h \<Longrightarrow> h \<in> fst ` set es"
  by (induction es from_height rule: first_link_break.induct) (auto split: if_splits)

text \<open>Without a break every block names the one below it.\<close>

lemma no_link_break:
  assumes "first_link_break es from_height = None" and "bt_ok es" and "from_height \<le> l"
    and "(l, b) \<in> set es" and "(Suc l, b') \<in> set es" and "wb_parent b' = Some parent"
  shows "parent = wb_hash b"
  using assms
proof (induction es from_height rule: first_link_break.induct)
  case (1 low c high c' es from_height)
  have sorted: "low < high" "\<And>x. x \<in> set es \<Longrightarrow> high < fst x" "bt_ok ((high, c') # es)"
    using 1(3) by (auto simp: bt_ok_def)
  have rec: "first_link_break ((high, c') # es) from_height = None" using 1(2) by (simp split: if_splits)
  show ?case
  proof (cases "l = low")
    case True
    have "(Suc l, b') \<noteq> (low, c)" using True by simp
    then have in': "(Suc l, b') = (high, c') \<or> (Suc l, b') \<in> set es" using 1(6) by auto
    have "b = c" using 1(5) True sorted by fastforce
    moreover have "high = Suc l"
    proof (rule ccontr)
      assume "high \<noteq> Suc l"
      with in' have "high < Suc l" using sorted(2)[of "(Suc l, b')"] by auto
      then show False using sorted(1) True by simp
    qed
    then have "b' = c'" using in' sorted(2)[of "(Suc l, b')"] by auto
    ultimately show ?thesis using 1(2,4,7) True \<open>high = Suc l\<close> by (auto split: if_splits)
  next
    case False
    have "(l, b) \<in> set ((high, c') # es)" using 1(5) False by auto
    then have "low < l" using sorted(1) sorted(2)[of "(l, b)"] by auto
    then have "(Suc l, b') \<in> set ((high, c') # es)" "(l, b) \<in> set ((high, c') # es)" using 1(5,6) False by auto
    moreover have "\<not> (from_height \<le> low \<and> high = low + 1 \<and>
        (case wb_parent c' of None \<Rightarrow> False | Some parent \<Rightarrow> parent \<noteq> wb_hash c))" using 1(2) by (auto split: if_splits)
    ultimately show ?thesis using 1(1)[OF _ rec sorted(3) 1(4) _ _ 1(7)] by blast
  qed
qed auto

section \<open>A finished walk\<close>

lemma walk_turn_ok:
  assumes honest: "honest t a" and ok: "walk_ok t from_height (wk_next w) (cw_blocks w)" and low: "from_height \<le> wk_next w"
    and tip: "bt_height t (cw_tip_hash w) = cw_tip_height w"
  shows "case walk_turn from_height w a of
      Inl w' \<Rightarrow> walk_ok t from_height (wk_next w') (cw_blocks w') \<and> from_height \<le> wk_next w' \<and>
        bt_height t (cw_tip_hash w') = cw_tip_height w'
    | Inr r \<Rightarrow> (\<exists>u > cw_tip_height r. walk_ok t from_height u (cw_blocks r)) \<and> bt_height t (cw_tip_hash r) = cw_tip_height r \<and>
        first_link_break (cw_blocks r) from_height = None \<and>
        (from_height \<le> cw_tip_height r \<longrightarrow>
          (\<exists>b. bt_get (cw_blocks r) (cw_tip_height r) = Some b \<and> wb_hash b = cw_tip_hash r))"
proof -
  let ?T = "cw_tip_height w"
  define blocks where "blocks = (if wk_next w \<le> ?T then read_blocks a (wk_next w) ?T (cw_blocks w) else cw_blocks w)"
  have B: "walk_ok t from_height (max (Suc ?T) (wk_next w)) blocks"
  proof (cases "wk_next w \<le> ?T")
    case True
    then show ?thesis using read_blocks_ok[OF honest ok, of "Suc ?T - wk_next w"] by (simp add: blocks_def read_blocks_def max_def)
  next
    case False
    then have "max (Suc ?T) (wk_next w) = wk_next w" by simp
    with False ok show ?thesis unfolding blocks_def by simp
  qed
  have tip': "bt_height t (snd (wa_tip a)) = fst (wa_tip a)" using honest by (simp add: honest_def)
  let ?u = "max (Suc ?T) (wk_next w)"
  let ?top = "?T < from_height \<or> (case bt_get blocks ?T of None \<Rightarrow> False | Some b \<Rightarrow> wb_hash b = cw_tip_hash w)"
  let ?broken = "case first_link_break (bt_entries blocks) from_height of Some h \<Rightarrow> Some h | None \<Rightarrow> if ?top then None else Some ?T"
  note turn = walk_turn_def[of from_height w a, folded blocks_def, unfolded Let_def, folded blocks_def]
  show ?thesis
  proof (cases ?broken)
    case (Some broken)
    have "broken < ?u"
      using Some B link_break_le[of blocks from_height]
      by (fastforce simp: walk_ok_def bt_entries_def split: option.splits if_splits)
    then have "walk_ok t from_height (max (broken - 1) from_height) (filter (\<lambda>(h, _). h < max (broken - 1) from_height) blocks)"
      by (intro walk_ok_filter[OF B]) auto
    then show ?thesis using tip' by (simp add: turn Some)
  next
    case None
    then have link: "first_link_break blocks from_height = None" and top: ?top
      by (auto simp: bt_entries_def split: option.splits if_splits)
    show ?thesis
    proof (cases "snd (wa_tip a) = cw_tip_hash w")
      case True
      then show ?thesis using B tip link top by (auto simp: turn None split: option.splits intro!: exI[of _ ?u])
    next
      case False
      let ?keep = "still_active from_height blocks (wa_active a) (min ?T (fst (wa_tip a)))"
      show ?thesis
      proof (cases ?keep)
        case None': None
        have "walk_ok t from_height from_height (filter (\<lambda>(h, _). False) blocks)"
          by (rule walk_ok_filter[OF B]) auto
        then show ?thesis using tip' False by (simp add: turn None None')
      next
        case (Some k)
        have k: "k < ?u" "from_height \<le> k"
          using still_active_bounds[OF Some] by (auto simp: less_max_iff_disj)
        then have "walk_ok t from_height (k + 1) (filter (\<lambda>(h, _). h \<le> k) blocks)"
          by (intro walk_ok_filter[OF B]) auto
        then show ?thesis using tip' False k(2) by (simp add: turn None Some)
      qed
    qed
  qed
qed

lemma walks_ok:
  assumes "walks t from_height w r" and "walk_ok t from_height (wk_next w) (cw_blocks w)" and "from_height \<le> wk_next w"
    and "bt_height t (cw_tip_hash w) = cw_tip_height w"
  shows "(\<exists>u > cw_tip_height r. walk_ok t from_height u (cw_blocks r)) \<and> bt_height t (cw_tip_hash r) = cw_tip_height r \<and>
    first_link_break (cw_blocks r) from_height = None \<and>
    (from_height \<le> cw_tip_height r \<longrightarrow> (\<exists>b. bt_get (cw_blocks r) (cw_tip_height r) = Some b \<and> wb_hash b = cw_tip_hash r))"
  using assms
proof (induction rule: walks.induct)
  case (walk_ends a w r)
  from walk_turn_ok[OF this(1) this(3-5)] this(2) show ?case by simp
next
  case (walk_again a w w' r)
  from walk_turn_ok[OF this(1) this(5-7)] this(2) walk_again(4) show ?case by simp
qed

text \<open>Every block of the range is the ancestor of the tip at its height, and its mark is right.\<close>

lemma walk_ancestry:
  assumes walk: "walks t from_height (walk_start from_height tip) r" and tip: "bt_height t (snd tip) = fst tip"
    and "from_height \<le> h" "h \<le> cw_tip_height r"
  shows "\<exists>b. bt_get (cw_blocks r) h = Some b \<and> wb_hash b = ancestor_at t (cw_tip_hash r) h \<and>
    wb_pool b = bt_pool t (wb_hash b)"
proof -
  have "walk_ok t from_height (wk_next (walk_start from_height tip)) (cw_blocks (walk_start from_height tip))"
    by (auto simp: walk_ok_def walk_start_def bt_ok_def)
  from walks_ok[OF walk this] tip obtain u where
    u: "cw_tip_height r < u" "walk_ok t from_height u (cw_blocks r)" and
    R: "bt_height t (cw_tip_hash r) = cw_tip_height r" "first_link_break (cw_blocks r) from_height = None" and
    top: "from_height \<le> cw_tip_height r \<longrightarrow> (\<exists>b. bt_get (cw_blocks r) (cw_tip_height r) = Some b \<and> wb_hash b = cw_tip_hash r)"
    by (auto simp: walk_start_def)
  have true': "true_block t h b" if "bt_get (cw_blocks r) h = Some b" for h b
    using that u(2) by (auto simp: walk_ok_def bt_get_def dest!: map_of_SomeD)
  have "\<exists>b. bt_get (cw_blocks r) h = Some b \<and> wb_hash b = ancestor_at t (cw_tip_hash r) h"
    using assms(4,3)
  proof (induction rule: inc_induct)
    case base
    then show ?case using top R(1) by (simp add: ancestor_at_def)
  next
    case (step n)
    then obtain b' where b': "bt_get (cw_blocks r) (Suc n) = Some b'" "wb_hash b' = ancestor_at t (cw_tip_hash r) (Suc n)" by auto
    obtain b where b: "bt_get (cw_blocks r) n = Some b" using u step.hyps step.prems by (auto simp: walk_ok_def)
    have "bt_parent t (wb_hash b') = wb_hash b"
      by (rule no_link_break[OF R(2) _ step.prems(1)])
        (use u(2) b b'(1) true'[OF b'(1)] in \<open>auto simp: walk_ok_def bt_get_def true_block_def dest: map_of_SomeD\<close>)
    moreover have "cw_tip_height r - n = Suc (cw_tip_height r - Suc n)" using step.hyps by simp
    ultimately have "wb_hash b = ancestor_at t (cw_tip_hash r) n" using b'(2) R(1) by (simp add: ancestor_at_def)
    then show ?case using b by blast
  qed
  then show ?thesis using true' by (auto simp: true_block_def)
qed

end
