(* ===== verification/Carry_Properties.thy ===== *)
theory Carry_Properties
  imports Carry_Transfer
begin

text \<open>
  What the carry owner guard and the transfer of ownership guarantee: at most one node of the pair
  pays, a guard's decision, what a transfer checked before it claims, and that the guard of the new
  owner then pays.
\<close>

section \<open>One payer\<close>

text \<open>
  C14: in every reachable state of the pair, whatever the guards read of each other and in whatever
  order they, the operators, the sync, restarts and restores take their steps (within the two
  assumptions about time that its chapter in \<open>Carry_Owner\<close> states), at most one of the
  two nodes builds work that pays carried balances.
\<close>

theorem at_most_one_node_pays:
  assumes "pair_reachable s"
  shows "\<not> (pays (s A) \<and> pays (s B))"
  using reachable_pair_ok[OF assms] by (auto simp: pair_ok_def pays_def vetted_def)

definition sample_settings :: "int \<Rightarrow> settings" where
  "sample_settings n = \<lparr>st_database_node = Some n, st_env_owner = True, st_layout_mismatch = None\<rparr>"

text \<open>Node A seeds as the owner and pays, releases, and node B takes over and pays.\<close>

definition sample_handover :: "(node_index \<times> event) list" where
  "sample_handover = [(A, Begin_Check), (A, Answer_Primary), (A, Seed 1 True), (A, Decide (sample_settings 0)), (A, Apply),
    (B, Begin_Check), (B, Answer_Primary), (B, Seed 2 False), (B, Decide (sample_settings 1)), (B, Apply),
    (A, Begin_Check), (A, Answer_Primary), (A, Decide (sample_settings 0)), (A, Apply),
    (A, Release 3 (no_detail\<lparr>rd_tip_height := Some 100\<rparr>)),
    (A, Begin_Check), (A, No_Answer), (A, Decide (sample_settings 0)), (A, Apply),
    (B, Read_For_Transfer), (B, Write_Transfer 4 (no_detail\<lparr>rd_peer_epoch := Some 3\<rparr>)),
    (B, Begin_Check), (B, Answer_Primary), (B, Decide (sample_settings 1)), (B, Apply)]"

definition handed_over :: "nat \<Rightarrow> node_index \<Rightarrow> bool" where
  "handed_over k n = (case run_pair (\<lambda>_. new_node) (take k sample_handover) of None \<Rightarrow> False | Some s \<Rightarrow> pays (s n))"

theorem at_most_one_node_pays_witness:
  "\<exists>s s'. pair_reachable s \<and> pays (s A) \<and> \<not> pays (s B) \<and> pair_reachable s' \<and> pays (s' B) \<and> \<not> pays (s' A)"
proof -
  have start: "pair_reachable (\<lambda>_. new_node)" by (rule pair_reachable.pair_start)
  have "handed_over 14 A" "handed_over 25 B" by code_simp+
  then obtain s s' where s: "run_pair (\<lambda>_. new_node) (take 14 sample_handover) = Some s" "pays (s A)"
    and s': "run_pair (\<lambda>_. new_node) (take 25 sample_handover) = Some s'" "pays (s' B)"
    by (auto simp: handed_over_def split: option.splits)
  from at_most_one_node_pays[OF run_pair_reachable[OF start s(1)]]
    at_most_one_node_pays[OF run_pair_reachable[OF start s'(1)]] s s'
    run_pair_reachable[OF start s(1)] run_pair_reachable[OF start s'(1)]
  show ?thesis by blast
qed

section \<open>The decision\<close>

text \<open>
  a guard decides to pay exactly when the database is the configured node's, the layouts
  match, its own latest row claims ownership as the setting does and is not behind a row it has
  read, no row of the peer in sight claims, a release in sight is answered by a transfer made
  after it, the peer holds no newer row of this node, and the peer's primary has confirmed it, now
  or since; and it keeps its confirmation exactly when it pays.
\<close>

theorem guard_decision_exact:
  "(snd (decide g i) = Paying \<longleftrightarrow> gi_database_node i = Some (gi_node_index i) \<and> gi_layout_mismatch i = None \<and>
    gi_env_owner i \<and> (\<exists>own. gi_own i = Some own \<and> ro_carry_owner own \<and>
      (\<forall>highest. \<not> (gd_highest_own_epoch g = Some highest \<and> ro_epoch own < highest)) \<and>
      unopposed i own \<and> (gd_peer_confirmed g \<or> primary_answered i))) \<and>
    gd_peer_confirmed (fst (decide g i)) = (snd (decide g i) = Paying)"
  unfolding decide_Paying_iff decide_confirms_Paying by (auto simp: not_less)

section \<open>The transfer\<close>

text \<open>
  C15: a transfer writes its claim only after a scan that starts at or below the finality margin
  under the peer's last claim, and at 0 when that recorded no height; every pool block of the
  chain it scanned, from there to the tip, is landed and confirmed in this node's ledger; the
  scanned tip is still active when it writes; and a release it faces is buried as deep as asked.
\<close>

theorem transfer_covers_peer_work:
  assumes written: "transfer_row facts confirm re reason epoch = Inr (Some row)"
    and scan: "tf_scan facts = scan_of from_height r landed"
    and walk: "walks t (unat from_height) (walk_start (unat from_height) tip) r" and tip: "bt_height t (snd tip) = fst tip"
  shows "(\<forall>h. unat from_height \<le> h \<longrightarrow> h \<le> cw_tip_height r \<longrightarrow> bt_pool t (ancestor_at t (cw_tip_hash r) h) \<longrightarrow>
      landed (ancestor_at t (cw_tip_hash r) h) = Some (''confirmed'', True)) \<and>
    rr_active_hash re = cw_tip_hash r \<and>
    (\<forall>claim. tf_peer_claim facts = Some claim \<longrightarrow> (case tip_height claim of None \<Rightarrow> from_height = 0
      | Some claimed \<Rightarrow> uint from_height \<le> max (uint claimed - 1000) 0)) \<and>
    (\<forall>peer. newest (peer_live (tf_peer_read facts)) (tf_peer_synced facts) = Some peer \<and> ro_action peer = ''release'' \<longrightarrow>
      (\<exists>released. tip_height peer = Some released \<and>
        min (uint released + uint (tf_release_depth facts)) (2 ^ 64 - 1) \<le> uint (tf_tip_height facts)))"
proof -
  note W = transfer_row_written[OF written]
  from W(1) obtain live own_at_peer primary peer where P: "tf_peer_read facts = Answered live own_at_peer primary"
    "newest live (tf_peer_synced facts) = Some peer" "unresolved (tf_scan facts) = []" "tc_ok (scan_start facts)"
    "ro_action peer = ''release'' \<Longrightarrow> \<exists>released. tip_height peer = Some released \<and>
      saturating_add released (tf_release_depth facts) \<le> tf_tip_height facts"
    by (rule passed_Answered) blast
  have pool: "landed (ancestor_at t (cw_tip_hash r) h) = Some (''confirmed'', True)"
    if h: "unat from_height \<le> h" "h \<le> cw_tip_height r" "bt_pool t (ancestor_at t (cw_tip_hash r) h)" for h
  proof -
    obtain b where b: "bt_get (cw_blocks r) h = Some b" "wb_hash b = ancestor_at t (cw_tip_hash r) h" "wb_pool b"
      using walk_ancestry[OF walk tip h(1,2)] h(3) by auto
    have "(h, b) \<in> set (filter (\<lambda>(_, b). wb_pool b) (bt_entries (cw_blocks r)))"
      using b(1,3) by (auto simp: bt_get_def bt_entries_def dest: map_of_SomeD)
    then have "landing_of (landed (wb_hash b)) = Landed_Confirmed"
      using P(3) by (fastforce simp: unresolved_def scan scan_of_def filter_empty_conv)
    then show ?thesis using b(2) by (auto simp: landing_of_def split: option.splits if_splits bool.splits)
  qed
  have start: "case tip_height claim of None \<Rightarrow> from_height = 0 | Some claimed \<Rightarrow> uint from_height \<le> max (uint claimed - 1000) 0"
    if "tf_peer_claim facts = Some claim" for claim
    using P(4) that
    by (simp add: scan_start_def named_check_def scan scan_of_def SCAN_REORG_MARGIN_def QBIT_COINBASE_MATURITY_BLOCKS_def
        word_le_def uint_saturating_sub split: if_splits option.splits)
  have depth: "\<exists>released. tip_height peer = Some released \<and>
      min (uint released + uint (tf_release_depth facts)) (2 ^ 64 - 1) \<le> uint (tf_tip_height facts)"
    if "ro_action peer = ''release''"
    using P(5)[OF that] by (auto simp: word_le_def uint_saturating_add)
  have active: "rr_active_hash re = cw_tip_hash r" using W(4) by (simp add: scan scan_of_def)
  show ?thesis using pool active start depth P(1,2) by auto
qed

text \<open>
  C16: a claim a transfer has written pays: the guard of the new owner, whose setting has been
  changed to match, decides to pay as soon as the peer's primary answers as it did for the
  transfer.
\<close>

theorem transferred_claim_pays:
  assumes written: "transfer_row facts confirm re reason epoch = Inr (Some row)"
    and own: "gi_own i = Some row" "gi_env_owner i" "gi_node_index i = tf_node_index facts"
      "gi_database_node i = tf_database_node facts" "gi_layout_mismatch i = None"
    and peer: "gi_peer_read i = Answered (peer_live (tf_peer_read facts)) own_at_peer True"
      "gi_peer_synced i = newest (peer_live (tf_peer_read facts)) (tf_peer_synced facts)"
    and epochs: "\<not> holds (\<lambda>theirs. epoch < ro_epoch theirs) own_at_peer"
      "\<not> holds (\<lambda>highest. epoch < ro_epoch highest) (tf_own facts)"
      "gd_highest_own_epoch g = map_option ro_epoch (tf_own facts)"
  shows "decide g i = (\<lparr>gd_peer_confirmed = True, gd_highest_own_epoch = Some epoch\<rparr>, Paying)"
proof -
  note W = transfer_row_written[OF written]
  from W(1) obtain live theirs primary p where P: "tf_peer_read facts = Answered live theirs primary"
    "newest live (tf_peer_synced facts) = Some p" "\<not> ro_carry_owner p" "\<not> holds ro_carry_owner live"
    "tf_database_node facts = Some (tf_node_index facts)"
    by (rule passed_Answered) blast
  have n: "newest live (Some p) = Some p"
    using P(2) by (cases live; cases "tf_peer_synced facts") (auto split: if_splits)
  have r: "ro_epoch row = epoch" "ro_carry_owner row" "acquired_after row p"
    using W(5) P(1,2) by (simp_all add: acquired_after_def)
  have nb: "\<not> rolled_back (Some row) (gd_highest_own_epoch g)"
    using epochs(2,3) r(1) by (auto simp: rolled_back_def holds_def split: option.splits)
  show ?thesis
    unfolding decide_def own peer P(5) P(1) peer_live.simps P(2)
    using epochs(1) nb n P(3,4) r
    by (simp add: own P(5) judge_peer_def confirm_peer_def holds_def)
qed

section \<open>A transfer\<close>

definition row_at :: "int \<Rightarrow> int \<Rightarrow> bool \<Rightarrow> string \<Rightarrow> u64 option \<Rightarrow> role_row" where
  "row_at node epoch owner action tip = \<lparr>ro_origin_node = node, ro_epoch = epoch, ro_carry_owner = owner, ro_action = action,
    ro_detail = \<lparr>rd_tip_height = tip, rd_peer_epoch = None, rd_rest = ''''\<rparr>\<rparr>"

text \<open>A chain of two blocks over its genesis, the first of them the pool's.\<close>

definition sample_tree :: block_tree where
  "sample_tree = \<lparr>bt_height = length, bt_parent = tl, bt_pool = (\<lambda>b. length b = 1)\<rparr>"

definition sample_answers :: walk_answers where
  "sample_answers = \<lparr>wa_block = (\<lambda>h. \<lparr>wb_hash = replicate h CHR ''x'', wb_parent = Some (tl (replicate h CHR ''x'')),
    wb_pool = (h = 1)\<rparr>), wa_tip = (2, ''xx''), wa_active = (\<lambda>h. replicate h CHR ''x'')\<rparr>"

definition sample_walk :: chain_walk where
  "sample_walk = projr (walk_turn 0 (walk_start 0 (2, ''xx'')) sample_answers)"

definition sample_landed :: "string \<Rightarrow> (string \<times> bool) option" where
  "sample_landed b = (if b = ''x'' then Some (''confirmed'', True) else None)"

definition sample_facts :: transfer_facts where
  "sample_facts = \<lparr>tf_node_index = 1, tf_database_node = Some 1, tf_own = Some (row_at 1 2 False ''seed'' None),
    tf_peer_read = Answered (Some (row_at 0 3 False ''release'' (Some 0))) None True, tf_peer_synced = None,
    tf_peer_claim = Some (row_at 0 1 True ''seed'' None), tf_peer_claim_read = True, tf_peer_claim_conflict = False,
    tf_tip_height = 2, tf_release_depth = 2, tf_scan = scan_of 0 sample_walk sample_landed\<rparr>"

definition sample_reread :: transfer_reread where
  "sample_reread = \<lparr>rr_peer_latest = Some (row_at 0 3 False ''release'' (Some 0)), rr_own = tf_own sample_facts,
    rr_copy_conflicts = False, rr_own_locked = tf_own sample_facts,
    rr_peer_locked = Some (row_at 0 3 False ''release'' (Some 0)), rr_active_hash = ''xx''\<rparr>"

definition sample_acquire :: role_row where
  "sample_acquire = row_at 1 4 True ''acquire'' (Some 2)\<lparr>ro_detail := \<lparr>rd_tip_height = Some 2, rd_peer_epoch = Some 3, rd_rest = ''''\<rparr>\<rparr>"

lemma sample_transfer: "transfer_row sample_facts True sample_reread '''' 4 = Inr (Some sample_acquire)"
  by code_simp

lemma sample_walked: "walks sample_tree 0 (walk_start 0 (2, ''xx'')) sample_walk"
proof (rule walk_ends)
  show "honest sample_tree sample_answers"
    by (simp add: honest_def true_block_def sample_tree_def sample_answers_def)
  have "\<not> isl (walk_turn 0 (walk_start 0 (2, ''xx'')) sample_answers)" by code_simp
  then show "walk_turn 0 (walk_start 0 (2, ''xx'')) sample_answers = Inr sample_walk" by (simp add: sample_walk_def)
qed

theorem transfer_covers_peer_work_witness:
  "bt_pool sample_tree (ancestor_at sample_tree (cw_tip_hash sample_walk) 1) \<and>
    sample_landed (ancestor_at sample_tree (cw_tip_hash sample_walk) 1) = Some (''confirmed'', True) \<and>
    rr_active_hash sample_reread = cw_tip_hash sample_walk"
proof -
  have scan: "tf_scan sample_facts = scan_of 0 sample_walk sample_landed" by (simp add: sample_facts_def)
  have tip: "bt_height sample_tree (snd (2, ''xx'')) = fst (2, ''xx'')" by (simp add: sample_tree_def)
  have walked: "walks sample_tree (unat (0 :: u64)) (walk_start (unat (0 :: u64)) (2, ''xx'')) sample_walk"
    using sample_walked by simp
  have "cw_tip_hash sample_walk = ''xx''" "cw_tip_height sample_walk = 2" by code_simp+
  moreover from this have "bt_pool sample_tree (ancestor_at sample_tree (cw_tip_hash sample_walk) 1)"
    by (simp add: ancestor_at_def sample_tree_def)
  ultimately show ?thesis using transfer_covers_peer_work[OF sample_transfer scan walked tip] by simp
qed

definition sample_guard_inputs :: guard_inputs where
  "sample_guard_inputs = \<lparr>gi_node_index = 1, gi_database_node = Some 1, gi_env_owner = True, gi_own = Some sample_acquire,
    gi_peer_synced = Some (row_at 0 3 False ''release'' (Some 0)),
    gi_peer_read = Answered (Some (row_at 0 3 False ''release'' (Some 0))) None True, gi_layout_mismatch = None\<rparr>"

theorem transferred_claim_pays_witness:
  "snd (decide \<lparr>gd_peer_confirmed = False, gd_highest_own_epoch = Some 2\<rparr> sample_guard_inputs) = Paying"
  by (subst transferred_claim_pays[OF sample_transfer, where own_at_peer = None])
    (simp_all add: sample_guard_inputs_def sample_facts_def holds_def row_at_def)

end
