(* ===== verification/Carry_Gate.thy ===== *)
theory Carry_Gate
  imports Carry_Owner Work_Issued
begin

text \<open>
  \<open>ledger/carry.rs\<close>: the gate that decides which prior balances work is built on, the fence of its
  changes by payout revision bumps, and the node a coinbase names as its finder.  What the
  database does with a bump is an argument.
\<close>

section \<open>The finder of a block\<close>

definition u32_from_be_bytes :: "bytes \<Rightarrow> u32" where
  "u32_from_be_bytes bs = word_of_int (le_value (rev bs))"

definition in_range :: "node_index \<Rightarrow> u32 \<Rightarrow> bool" where
  "in_range n x \<longleftrightarrow> fst (extranonce1_range n) \<le> x \<and> x \<le> snd (extranonce1_range n)"

definition finder_node :: "bytes \<Rightarrow> bytes \<Rightarrow> nat \<Rightarrow> int option" where
  "finder_node coinbase_tx tag extranonce2_size =
    (case coinbase_script_sig_of coinbase_tx of Inl e \<Rightarrow> None | Inr script_sig \<Rightarrow>
     if length script_sig < extranonce2_size then None
     else let last = length script_sig - extranonce2_size in
     if last < 4 then None
     else let start = last - 4 in
     if \<not> ends_with (take start script_sig) tag then None
     else let extranonce1 = u32_from_be_bytes (take 4 (drop start script_sig)) in
     map_option index_of (find (\<lambda>node. in_range node extranonce1) all_nodes))"

definition layout_from_suffix :: "crypto \<Rightarrow> string \<Rightarrow> (bytes \<times> nat) option" where
  "layout_from_suffix c suffix_hex =
    (case hex_decode c suffix_hex of Inl e \<Rightarrow> None | Inr bs \<Rightarrow>
     let placeholder = length (takeWhile (\<lambda>byte. byte = 0) (rev bs)) in
     if placeholder < 4 then None
     else let width = placeholder - 4 in
     if width = 0 then None else Some (take (length bs - placeholder) bs, width))"

text \<open>The two texts of a mismatch: another layout, or a suffix that shows none.\<close>

datatype layout_mismatch = Other_Layout "bytes \<times> nat" "bytes \<times> nat" | No_Layout string

definition layout_difference :: "bytes \<times> nat \<Rightarrow> bytes \<times> nat \<Rightarrow> layout_mismatch option" where
  "layout_difference own peer = (if own \<noteq> peer then Some (Other_Layout own peer) else None)"

definition layout_mismatch_with ::
  "crypto \<Rightarrow> (bytes \<times> nat) option \<Rightarrow> string option \<Rightarrow> string option \<Rightarrow> layout_mismatch option" where
  "layout_mismatch_with c coinbase_layout peer_suffix_live peer_suffix_hex =
    (case coinbase_layout of None \<Rightarrow> None | Some own \<Rightarrow>
     case (case peer_suffix_hex of Some shown \<Rightarrow> Some shown | None \<Rightarrow> peer_suffix_live) of None \<Rightarrow> None | Some shown \<Rightarrow>
     case layout_from_suffix c shown of
       Some peer \<Rightarrow> layout_difference own peer
     | None \<Rightarrow> Some (No_Layout shown))"

definition found_here :: "int option \<Rightarrow> (bytes \<times> nat) option \<Rightarrow> bytes option \<Rightarrow> bool \<Rightarrow> bool \<Rightarrow> bool" where
  "found_here own_node coinbase_layout coinbase_tx origin_is_own offered =
    (case (own_node, coinbase_layout, coinbase_tx) of
      (Some own, Some (tag, width), Some coinbase) \<Rightarrow>
        (case finder_node coinbase tag width of None \<Rightarrow> origin_is_own \<and> offered | Some finder \<Rightarrow> finder = own)
    | _ \<Rightarrow> origin_is_own)"

section \<open>The gate\<close>

text \<open>The gate's three atomics, beside the payout revision its changes are fenced with.\<close>

record carry_gate =
  cg_paying :: bool
  cg_fence_pending :: bool
  cg_generation :: u64
  cg_revision :: int

definition new_gate :: "int \<Rightarrow> carry_gate" where
  "new_gate revision = \<lparr>cg_paying = False, cg_fence_pending = False, cg_generation = 0, cg_revision = revision\<rparr>"

text \<open>
  A bump that fails before its commit, one that commits, and one whose commit reports an error,
  having taken effect or not.
\<close>

datatype bump = Bump_Fails | Bump_Commits | Commit_Fails bool

definition fence_carry_change :: "bump \<Rightarrow> carry_gate \<Rightarrow> carry_gate" where
  "fence_carry_change bump g = (if \<not> cg_fence_pending g then g else
    (case bump of
      Bump_Fails \<Rightarrow> g
    | Bump_Commits \<Rightarrow> g\<lparr>cg_fence_pending := False, cg_revision := cg_revision g + 1\<rparr>
    | Commit_Fails landed \<Rightarrow> if landed then g\<lparr>cg_revision := cg_revision g + 1\<rparr> else g))"

definition set_carry_paying :: "bool \<Rightarrow> bool \<Rightarrow> bump \<Rightarrow> carry_gate \<Rightarrow> bool \<times> carry_gate" where
  "set_carry_paying dual_writer paying bump g =
    (if \<not> dual_writer then (False, g)
     else
     let changed = cg_paying g \<noteq> paying; g = g\<lparr>cg_paying := paying\<rparr>;
       g = (if changed then g\<lparr>cg_generation := cg_generation g + 1, cg_fence_pending := True\<rparr> else g) in
     (changed, fence_carry_change bump g))"

definition carry_paying :: "bool \<Rightarrow> carry_gate \<Rightarrow> bool" where
  "carry_paying dual_writer g \<longleftrightarrow> \<not> dual_writer \<or> cg_paying g"

text \<open>Whether a snapshot reads the balances: the gate, and in dual mode the node's own claim.\<close>

definition job_reads_balances :: "bool \<Rightarrow> carry_gate \<Rightarrow> bool option \<Rightarrow> bool" where
  "job_reads_balances dual_writer g own_claims \<longleftrightarrow>
    carry_paying dual_writer g \<and> (\<not> dual_writer \<or> own_claims = Some True)"

definition carry_free_prior_digest :: "crypto \<Rightarrow> bytes" where
  "carry_free_prior_digest c = prior_balances_digest c []"

definition carry_free_block :: "crypto \<Rightarrow> bool \<Rightarrow> bytes \<Rightarrow> bool" where
  "carry_free_block c dual_writer digest \<longleftrightarrow> dual_writer \<and> digest = carry_free_prior_digest c"

definition carry_paying_not_current :: "crypto \<Rightarrow> bool \<Rightarrow> bool \<Rightarrow> bool \<Rightarrow> bytes \<Rightarrow> bool" where
  "carry_paying_not_current c dual_writer gate_paying fence_pending digest \<longleftrightarrow>
    dual_writer \<and> (\<not> gate_paying \<or> fence_pending) \<and> \<not> carry_free_block c dual_writer digest"

definition carry_paying_not_current_now :: "crypto \<Rightarrow> bool \<Rightarrow> carry_gate \<Rightarrow> bytes \<Rightarrow> bool" where
  "carry_paying_not_current_now c dual_writer g digest \<longleftrightarrow>
    carry_paying_not_current c dual_writer (carry_paying dual_writer g) (cg_fence_pending g) digest"

definition carry_paying_unsendable :: "crypto \<Rightarrow> bool \<Rightarrow> carry_gate \<Rightarrow> bytes \<Rightarrow> u64 \<Rightarrow> bool" where
  "carry_paying_unsendable c dual_writer g digest generation \<longleftrightarrow>
    carry_paying_not_current_now c dual_writer g digest \<or>
    (dual_writer \<and> \<not> carry_free_block c True digest \<and> cg_generation g \<noteq> generation)"

definition carry_claim_withdrawn :: "crypto \<Rightarrow> bool \<Rightarrow> bytes \<Rightarrow> bool option \<Rightarrow> bool" where
  "carry_claim_withdrawn c dual_writer digest own_claims \<longleftrightarrow>
    dual_writer \<and> \<not> carry_free_block c True digest \<and> own_claims \<noteq> Some True"

section \<open>Changes are fenced\<close>

text \<open>What happens to the gate and the revision: the guard moves it, retries the fence, others bump.\<close>

datatype gate_event = Move bool bump | Retry bump | Other_Bump

fun gate_step :: "gate_event \<Rightarrow> carry_gate \<Rightarrow> carry_gate" where
  "gate_step (Move paying bump) g = snd (set_carry_paying True paying bump g)"
| "gate_step (Retry bump) g = fence_carry_change bump g"
| "gate_step Other_Bump g = g\<lparr>cg_revision := cg_revision g + 1\<rparr>"

definition gate_since :: "carry_gate \<Rightarrow> carry_gate \<Rightarrow> bool" where
  "gate_since g h \<longleftrightarrow> cg_revision g < cg_revision h \<or>
    cg_revision g = cg_revision h \<and> (cg_fence_pending h \<or> cg_generation h = cg_generation g \<and> cg_paying h = cg_paying g)"

lemma gate_since_step: "gate_since g h \<Longrightarrow> gate_since g (gate_step e h)"
  by (cases e) (auto simp: gate_since_def set_carry_paying_def fence_carry_change_def Let_def split: bump.splits)

lemma gate_since_run: "gate_since g (fold gate_step es g)"
proof -
  have "gate_since g h \<Longrightarrow> gate_since g (fold gate_step es h)" for h
    by (induction es arbitrary: h) (auto intro: gate_since_step)
  then show ?thesis by (simp add: gate_since_def)
qed

section \<open>The finder is the issuer\<close>

lemma script_sig_eval:
  assumes len: "length (tx_bytes 1 v w [cb_in script q] outs sts l) < 2 ^ 64" and ok: "walk_ok w [cb_in script q] outs sts"
  shows "coinbase_script_sig_of (tx_bytes 1 v w [cb_in script q] outs sts l) = Inr script"
proof -
  let ?tx = "tx_bytes 1 v w [cb_in script q] outs sts l"
  let ?m = "if w then [0, 1] else [] :: bytes"
  define r where "r = cb_suffix q outs sts l"
  let ?size = "write_size (length script)" and ?out = "replicate 32 0 @ le_bytes 4 0xffffffff :: bytes"
  have tx: "?tx = le_bytes 4 (uint v) @ ?m @ write_size 1 @ ?out @ ?size @ script @ r"
    using cb_tx[of v w script "[]" q outs sts l] by (simp add: cb_prefix_def r_def)
  obtain b0 bs where b0: "write_size 1 = b0 # bs" "b0 \<noteq> 0" using hd_write_size[of 1] by auto
  have marker: "(?tx ! 4 = 0 \<and> ?tx ! 5 \<noteq> 0) = w" using b0 by (simp add: tx nth_append)
  have start: "\<lparr>cu_bytes = ?tx, cu_offset = 4\<rparr> = here (le_bytes 4 (uint v)) (?m @ write_size 1 @ ?out @ ?size @ script @ r)"
    by (simp add: here_def tx)
  have F: "fits (le_bytes 4 (uint v)) (?m @ write_size 1 @ ?out @ ?size @ script @ r)"
    using len by (simp add: fits_def tx)
  have skip: "(if w then cursor_skip 2 (here (le_bytes 4 (uint v)) (?m @ write_size 1 @ ?out @ ?size @ script @ r))
      else Inr (here (le_bytes 4 (uint v)) (?m @ write_size 1 @ ?out @ ?size @ script @ r))) =
    Inr (here (le_bytes 4 (uint v) @ ?m) (write_size 1 @ ?out @ ?size @ script @ r))"
    using F take_at[of "le_bytes 4 (uint v)" "[0, 1]" "write_size 1 @ ?out @ ?size @ script @ r" 2]
    by (cases w) (simp_all add: cursor_skip_def)
  let ?p1 = "le_bytes 4 (uint v) @ ?m"
  let ?p2 = "?p1 @ write_size 1" let ?p3 = "?p2 @ ?out" let ?p4 = "?p3 @ ?size"
  have c1: "cursor_count (here ?p1 (write_size 1 @ ?out @ ?size @ script @ r)) = Inr (1, here ?p2 (?out @ ?size @ script @ r))"
    by (rule count_at) (use F in simp_all)
  have c2: "cursor_take 36 (here ?p2 (?out @ ?size @ script @ r)) = Inr (?out, here ?p3 (?size @ script @ r))"
    by (rule take_at) (use F in simp_all)
  have c2': "cursor_skip 36 (here ?p2 (?out @ ?size @ script @ r)) = Inr (here ?p3 (?size @ script @ r))"
    using c2 by (simp add: cursor_skip_def)
  have c3: "cursor_count (here ?p3 (?size @ script @ r)) = Inr (length script, here ?p4 (script @ r))"
    by (rule count_at) (use F in simp_all)
  have c4: "cursor_take (length script) (here ?p4 (script @ r)) = Inr (script, here (?p4 @ script) r)"
    by (rule take_at) (use F in simp_all)
  have "10 \<le> length ?tx" by (simp add: tx)
  then have ten: "ensure (10 \<le> length ?tx) ''transaction is too short'' = Inr ()" by (simp add: ensure_def)
  have one: "ensure ((1 :: nat) = 1) ''a coinbase has exactly one input'' = Inr ()" by (simp add: ensure_def)
  show ?thesis
    by (simp only: coinbase_script_sig_of_def Let_def marker start ten one skip rbind.simps c1 c2' c3 c4 prod.case)
qed

lemma find_node: "find (\<lambda>node. in_range node x) all_nodes = (if x = 0 then None else if x < 0x80000000 then Some A else Some B)" for x :: u32
proof -
  have "uint x < 2 ^ 32" using uint_lt2p[of x] by simp
  moreover have "1 \<le> uint x \<longleftrightarrow> x \<noteq> 0" using word_gt_0[of x] by (auto simp: word_less_def)
  ultimately show ?thesis by (auto simp: all_nodes_def in_range_def word_le_def word_less_def)
qed

lemma u32_from_be: "u32_from_be_bytes (be_bytes 4 (uint x)) = x"
  by (simp add: u32_from_be_bytes_def be_bytes_rev word_of_le_bytes)

lemma ends_with_append: "ends_with bs sfx \<longleftrightarrow> (\<exists>s. bs = s @ sfx)"
  by (auto simp: ends_with_def) (metis append_take_drop_id)

text \<open>
  C35: a block found on a coinbase that a node issued names that node: whatever extranonce1 of a
  node's half and extranonce2 of the shared width are put in place of the placeholder, the finder
  read back from the coinbase is the node whose half it is, and no node for the value 0.
\<close>

theorem finder_is_issuer:
  fixes x :: u32
  assumes len: "length coinbase < 2 ^ 64" and strip: "strip_witness_transaction coinbase = Inr stripped"
    and split: "split_coinbase_extranonce coinbase placeholder = Inr (P, S)"
    and script: "coinbase_script_sig_of coinbase = Inr script" "ends_with script (tag @ placeholder)"
    and width: "length placeholder = 4 + width" "length extranonce2 = width"
  shows "finder_node (P @ be_bytes 4 (uint x) @ extranonce2 @ S) tag width =
    (if x = 0 then None else if x < 0x80000000 then Some 0 else Some 1)"
proof -
  from strip[unfolded strip_iff[OF len]] obtain v w ps outs sts l where
    W: "walk_ok w ps outs sts" "coinbase = tx_bytes 1 v w ps outs sts l" by blast
  obtain p ps' where ps: "ps = p # ps'" using W(1) by (cases ps) (auto simp: walk_ok_def)
  from split[unfolded W(2) ps split_eval[OF len[unfolded W(2) ps] W(1)[unfolded ps]]] obtain s q where
    A: "p = cb_in (s @ placeholder) q" "ps' = []" "P = cb_prefix v w s (length s + length placeholder)"
    "S = cb_suffix q outs sts l" by blast
  note ok = W(1)[unfolded ps A(1,2)] and cb = W(2)[unfolded ps A(1,2)]
  have "script = s @ placeholder"
    using script_sig_eval[OF len[unfolded cb] ok] script(1) unfolding cb by simp
  then obtain s0 where s: "s = s0 @ tag"
    using script(2) unfolding ends_with_append by (metis append_assoc append_same_eq)
  let ?x = "be_bytes 4 (uint x) @ extranonce2"
  have lx: "length ?x = length placeholder" using width by simp
  have full: "P @ be_bytes 4 (uint x) @ extranonce2 @ S = tx_bytes 1 v w [cb_in (s @ ?x) q] outs sts l"
    using lx by (simp add: A(3,4) cb_tx[of v w s ?x])
  have len': "length (tx_bytes 1 v w [cb_in (s @ ?x) q] outs sts l) < 2 ^ 64"
    using len lx unfolding cb cb_tx by (simp add: cb_prefix_def)
  have "length (s @ ?x) < 2 ^ 64" using ok lx by (simp add: walk_ok_def raw_in_valid_def cb_in_def)
  note run = script_sig_eval[OF len' walk_ok_script[OF ok this]]
  show ?thesis
    unfolding full finder_node_def run sum.case Let_def
    by (simp add: s width(2) ends_with_append u32_from_be find_node)
qed

definition sample_tagged :: bytes where
  "sample_tagged = tx_bytes 1 1 False [cb_in ([7, 8] @ [9, 9] @ replicate 6 0) 0]
    [\<lparr>to_amount_sats = 50, to_script_pubkey = [0x51]\<rparr>] [] 0"

text \<open>An extranonce1 of node B's half.\<close>

theorem finder_is_issuer_witness:
  "\<exists>P S. split_coinbase_extranonce sample_tagged (replicate 6 0) = Inr (P, S) \<and>
    finder_node (P @ be_bytes 4 (uint (0x80000005 :: u32)) @ [1, 2] @ S) [9, 9] 2 = Some 1"
proof -
  let ?outs = "[\<lparr>to_amount_sats = 50, to_script_pubkey = [0x51]\<rparr>] :: parsed_tx_out list"
  have ok: "walk_ok False [cb_in ([7, 8, 9, 9] @ replicate 6 0) 0] ?outs []"
    by (simp add: walk_ok_def cb_in_def raw_in_valid_def stacks_ok_def output_ok_def)
  have tx: "sample_tagged = tx_bytes 1 1 False [cb_in ([7, 8, 9, 9] @ replicate 6 0) 0] ?outs [] 0"
    by (simp add: sample_tagged_def)
  have len: "length sample_tagged < 2 ^ 64"
    unfolding tx cb_tx by (simp add: cb_prefix_def cb_suffix_def write_size_def compact_size_def tx_out_bytes_def var_bytes_def)
  obtain stripped where strip: "strip_witness_transaction sample_tagged = Inr stripped"
    using strip_iff[OF len] ok tx by blast
  obtain P S where split: "split_coinbase_extranonce sample_tagged (replicate 6 0) = Inr (P, S)"
    using split_eval[OF len[unfolded tx] ok] unfolding tx by (metis replicate_empty zero_neq_numeral)
  have script: "coinbase_script_sig_of sample_tagged = Inr ([7, 8, 9, 9] @ replicate 6 0)"
    unfolding tx by (rule script_sig_eval[OF len[unfolded tx] ok])
  have ends: "ends_with ([7, 8, 9, 9 :: u8] @ replicate 6 0) ([9, 9] @ replicate 6 0)"
    by (simp add: ends_with_def)
  have "length (replicate 6 (0 :: u8)) = 4 + 2" "length [1, 2 :: u8] = 2" by simp_all
  from finder_is_issuer[OF len strip split script ends this, of "0x80000005"] split show ?thesis by (auto simp: word_less_def)
qed

section \<open>What is offered as current work\<close>

text \<open>
  C34: carry-paying work that an offer takes for current work, at the payout revision it was built
  at, was built while the gate was as it still is: open, fenced, and not moved since, not even away
  and back.  So it may be sent, and every change of the gate takes the work before it out of date.
\<close>

theorem current_work_is_fenced:
  assumes "later = fold gate_step events built" and "cg_revision later = cg_revision built"
    and "digest \<noteq> carry_free_prior_digest c" and "\<not> carry_paying_not_current_now c True later digest"
  shows "cg_paying built \<and> cg_paying later \<and> \<not> cg_fence_pending later \<and> cg_generation later = cg_generation built \<and>
    \<not> carry_paying_unsendable c True later digest (cg_generation built)"
  using gate_since_run[of built events] assms
  by (auto simp: gate_since_def carry_paying_unsendable_def carry_paying_not_current_now_def carry_paying_not_current_def
      carry_free_block_def carry_paying_def)

theorem current_work_is_fenced_witness:
  "let built = gate_step (Move True Bump_Commits) (new_gate 5); later = fold gate_step [Retry Bump_Fails] built in
    cg_paying later \<and> cg_revision later = 6 \<and> \<not> carry_paying_unsendable model_crypto True later [1] 1"
proof -
  let ?built = "gate_step (Move True Bump_Commits) (new_gate 5)"
  let ?later = "fold gate_step [Retry Bump_Fails] ?built"
  have "cg_revision ?later = cg_revision ?built" "[1] \<noteq> carry_free_prior_digest model_crypto"
    "\<not> carry_paying_not_current_now model_crypto True ?later [1]" by code_simp+
  from current_work_is_fenced[OF refl this] show ?thesis
    by (simp add: set_carry_paying_def fence_carry_change_def new_gate_def)
qed

end
