(* ===== verification/Spec2Isabelle.thy ===== *)
theory Spec2Isabelle
  imports Reward_Properties Transaction_Properties Maturity_Properties Policy_Request Fanout_Properties Ctv_Properties Audit_Properties
    Share_Window_Properties Window_Widths Audit_Facts Work_Properties Stratum_Properties
    Chunk_Properties Broadcast Divergence_Properties Carry_Properties Carry_Gate
begin

text \<open>
  A verification development for the PRISM mining pool of this repository, the Rust crates
  under \<open>src/qbitleap-qbitleapbtc/upstream/qbit-mining-bootstrap/crates\<close>.  PRISM pays the miners of a
  block directly from its coinbase: from the last accepted shares it computes who earned
  what, decides who is paid now, who is carried forward and who is paid by a later
  covenant (CTV) fanout, builds the coinbase transaction, and publishes an audit bundle from
  which anyone can recompute all of it.  The development models the two library crates that
  decide this, \<open>qbit-prism\<close> and \<open>qbit-pool-builder\<close>, function by function, and of the server crate
  \<open>qbit-prism-server\<close> the codec that turns the coinbase into work for the miners and their
  submissions into blocks (\<open>codec.rs\<close>), with the miner that consumes that work
  (\<open>bin/qbit-prism-miner.rs\<close>), the rules by which two nodes agree on who pays carried balances
  (\<open>carry_owner.rs\<close>, \<open>carry_owner/transfer.rs\<close>, \<open>ledger/carry.rs\<close>), the bound on the debt of a
  superseded block (\<open>ledger/divergence.rs\<close>) and the broadcast of fanouts (\<open>broadcast.rs\<close>).

  \<^bold>\<open>How the parts interact.\<close>  Accepted shares are cut to a payout window
  (\<open>compute_prism_window_in_cut\<close>), the window becomes a reward manifest with digests of its
  shares, the payout policy splits the block reward over the window's accounts and the
  balances carried so far, and the policy manifest becomes the request from which the pool
  builder makes the coinbase.  With CTV settlement the recipients are first partitioned in
  direct outputs and fanout chunks, the fanout fee is charged, each chunk is prepared as a
  covenant output and finalized against the mined coinbase.  Connecting the block writes the
  policy's entries in the maturity ledger, whose replay is the carry input of the next block.
  The bundle carries the shares, both manifests, the coinbase manifest and the fanouts; the
  verifier recomputes everything and compares it with the transaction on the chain.  Between
  blocks the pool keeps the window and its serialized items incrementally (\<open>window.rs\<close>).  The
  coinbase with its extranonce placeholder and the node's template become a job, the job a
  notification to the miners, and a submission a header and, when it is good enough, a block.
  A matured fanout that nobody mines is paid for by a child transaction (\<open>broadcast.rs\<close>).
  Of a pair of nodes only the carry owner builds work on the carried balances; ownership moves by
  a release on one node and a transfer on the other, which checks the chain and both journals.

  \<^bold>\<open>Which theory models what.\<close>  Paths are relative to the crates directory.
  \<^item> Shared vocabulary: \<open>Rust_Prelude\<close> (integers at their width, checked arithmetic, \<open>Result\<close>
    as a sum with \<open>rbind\<close>, \<open>try_fold\<close> and \<open>try_map\<close>, chunks, sums), \<open>Ordered_Map\<close> and \<open>Weight_Map\<close>
    (the \<open>BTreeMap\<close>s, as locales interpreted on the code's keys), \<open>Apportion\<close> (largest
    remainder), \<open>Digest_Bytes\<close> (the bytes that are hashed, hex), \<open>Merkle\<close>, \<open>Codec\<close>
    (deterministic binary encodings, as a locale), \<open>Heavy_Suffix\<close> (the specification of a
    sliding window).
  \<^item> \<open>Prism_Types\<close>, \<open>Window_Cut\<close>, \<open>Reward_Window\<close>, \<open>Reward_Manifest\<close>: the records of
    \<open>qbit-prism/src/lib.rs\<close>, \<open>window_cut.rs\<close>, the payout window, its serial and chunked builder, and
    the manifest restored from its stored header.  \<open>Reward_Properties\<close> states what they guarantee.
  \<^item> \<open>Allocation\<close>, \<open>Payout_Policy\<close>: \<open>allocate_weighted_amounts\<close> and \<open>apply_payout_policy\<close>, in the phases
    of its body.  \<open>Policy_Facts\<close>, \<open>Policy_Sound\<close> and \<open>Policy_Properties\<close>: conservation, floors, and the
    error branches that cannot be reached.
  \<^item> \<open>Builder_Types\<close>, \<open>Pool_Builder\<close>: \<open>qbit-pool-builder/src/lib.rs\<close>, the coinbase and its signed
    manifest; \<open>Builder_Facts\<close>, \<open>Builder_Properties\<close>.
  \<^item> \<open>Tx_Reader\<close>, \<open>Transaction\<close>: \<open>TxReader\<close>, \<open>parse_transaction\<close> and \<open>serialize_tx_hex\<close> of \<open>ctv.rs\<close>;
    \<open>Transaction_Facts\<close>, \<open>Transaction_Properties\<close>: the codec and the coinbase parsed back.
  \<^item> \<open>Maturity\<close>: the ledger entries, their states and their replay; \<open>Maturity_Properties\<close>: the step
    relation of connecting, maturing and disconnecting blocks, and its invariants.
  \<^item> \<open>Policy_Request\<close>: from the policy manifest to the coinbase request, and what is paid.
  \<^item> \<open>Settlement\<close>, \<open>Fanout_Fee\<close>, \<open>Fanout_Decision\<close>: \<open>settlement.rs\<close>; \<open>Settlement_Facts\<close>,
    \<open>Settlement_Properties\<close>, \<open>Fanout_Properties\<close>.
  \<^item> \<open>Ctv\<close>, \<open>Ctv_Manifest\<close>: the rest of \<open>ctv.rs\<close>; \<open>Ctv_Facts\<close>, \<open>Ctv_Prepare\<close>, \<open>Ctv_Final\<close>, \<open>Ctv_Sound\<close>,
    \<open>Ctv_Properties\<close>: preparation succeeds, finalization succeeds, verification is sound.
  \<^item> \<open>Share_Json\<close>, \<open>Share_Window\<close>, \<open>Share_Window_Advance\<close>, \<open>Share_Window_Items\<close>: \<open>window.rs\<close>, the paged
    window, its advance and its items stream; \<open>Share_Window_Facts\<close>, \<open>Share_Window_Properties\<close>:
    equivalence with the fold of everything.  \<open>Window_Widths\<close>: the declared integer widths.
  \<^item> \<open>Audit_Types\<close>, \<open>Audit_Json\<close>, \<open>Audit_Hash\<close>, \<open>Audit_Bundle\<close>, \<open>Audit_Verify\<close>: the bundle, the bytes its
    digests cover (\<open>audit_hash.rs\<close>), both builders and the verifier of \<open>lib.rs\<close>; \<open>Audit_Facts\<close>,
    \<open>Audit_Check\<close>, \<open>Audit_Accept\<close>, \<open>Audit_Samples\<close>, \<open>Audit_Binding\<close>, \<open>Audit_Properties\<close>.
  \<^item> \<open>Ordered_Chunks\<close>: \<open>ordered_chunks\<close> of \<open>parallel.rs\<close> as a step relation, one step per critical
    section of the calling thread or of a job, over every schedule of the pool;
    \<open>Chunk_Properties\<close>: it is the serial loop, it ends, and no job outlives it.
    Jobs of other calls are not in the state: they can only delay a step.  A spurious wake-up
    is a step back to a state in which the relation already is, which lemma \<open>spurious_wake\<close> shows.
    The product of the look-ahead is not checked against 64 bits: the number of chunks is
    bounded by the length of a slice.
  \<^item> \<open>Broadcast\<close>: \<open>broadcast.rs\<close>, the unsigned fee-paying child of a fanout and the settlement status.
  \<^item> \<open>Work_Codec\<close>, \<open>Work_Target\<close>, \<open>Work_Job\<close>: \<open>codec.rs\<close> of the server, the walk over transactions and
    blocks, compact targets and difficulties, jobs, notifications and submissions; \<open>Work_Walk\<close>
    and \<open>Work_Coinbase\<close> (what the walk accepts, the coinbase around its extranonce), \<open>Work_Facts\<close>,
    \<open>Work_Issued\<close> (every job the server issues is well formed), \<open>Work_Properties\<close>.
  \<^item> \<open>Stratum_Miner\<close>: the miner's work, header, attempts and the order in which its workers search;
    \<open>Stratum_Properties\<close>: the miner and the server agree, and no attempt is made twice.
  \<^item> \<open>Divergence\<close>, \<open>Divergence_Properties\<close>: \<open>ledger/divergence.rs\<close>, the bound of a block's debt, the debt
    its rows make when it lands, and the decision to offer it.  A 128-bit overflow stops the model;
    the theorems show that none occurs while the balances stay below \<open>2 ^ 120\<close>.  The \<open>HashMap\<close> of
    balances is a sorted map, and what the database answers is an argument.
  \<^item> \<open>Carry_Owner\<close>: the guard's decision (\<open>carry_owner.rs\<close>, \<open>node_identity.rs\<close>), and the two nodes as
    a state machine whose steps are the guards' rounds, operator commands, the copying of the journal,
    restarts and restores.  Two assumptions are about time: a node is not made owner again before
    its own guard has seen its release (\<open>vetted\<close>), and a check that seeds a journal finds the peer
    as it has just read it.
  \<^item> \<open>Carry_Transfer\<close>: \<open>transfer.rs\<close>, the walk back along the chain, the checks of a release and of a
    transfer, and the claim it writes.  The relation \<open>walks\<close> is the walk over several turns, in
    which the node answers from one tree of blocks.
  \<^item> \<open>Carry_Gate\<close>: \<open>ledger/carry.rs\<close>, the gate on prior balances, the fence of its changes, and the node
    that a coinbase names as its finder.  \<open>Carry_Properties\<close>: at most one node pays, and what a
    transfer has checked.

  \<^bold>\<open>What the groups of lemmas show.\<close>  Theories named \<open>_Facts\<close>, \<open>_Sound\<close>, \<open>_Final\<close>, \<open>_Prepare\<close>,
  \<open>_Check\<close>, \<open>_Accept\<close> and \<open>_Binding\<close> hold the lemmas a component offers to others; the theories
  named \<open>_Properties\<close> (and \<open>Policy_Request\<close>, \<open>Window_Widths\<close>) hold the statements meant
  to be read, numbered C1, C2 and so on in the order of their importance, each with an instance
  on concrete data when it has hypotheses.  They are of these kinds: every operation's result
  on success and when exactly it succeeds; conservation of satoshis through the whole pipeline;
  equality of the optimised routines (chunked builders, split digest, incremental window)
  with the plain ones; the builder's results are accepted by the verifier, and what is
  accepted pays what was earned; the invariants of the ledger and of the window; the work a
  miner is sent, the header it hashes and the block the server assembles from its answer agree;
  the worker pool changes neither the result of a build nor its end; at most one node of a pair
  pays carried balances, and a superseded block creates no more debt than its ceiling.

  \<^bold>\<open>Conventions.\<close>  Integers are words of the source's width, \<open>usize\<close> is a \<open>nat\<close> whose additions are
  checked against 64 bits where the code checks them, a \<open>Result\<close> is a sum whose left side carries
  the error constructor with its fields, and a panic (\<open>expect\<close>, slicing out of range) is a
  result of its own or is proved impossible.  Strings are lists of characters that stand for
  UTF-8 bytes.  A float is its 64 bits (IEEE 754 binary64), read exactly; a big integer is a \<open>nat\<close>.
  Maps keep their iteration order.  Loops are structural recursion or
  functions with a measure; no fuel is used.  Mutable builders return their new state.

  \<^bold>\<open>Parameters and hypotheses.\<close>  Code that is not under \<open>src\<close> is a parameter: SHA-256 and hex
  (record \<open>crypto\<close>), ed25519 (record of a signer and a verifier), the bytes \<open>serde_json\<close> writes, the conversion of a
  big integer to a float (\<open>to_f64\<close>).
  A theorem names what it relies on: \<open>hex_documented\<close> (hex encodes to lowercase digits and
  decodes what it encodes), \<open>hash_ok\<close> (32-byte digests), \<open>signer_ok\<close> (a signature verifies under its
  own key), \<open>serde_compact\<close> (compact JSON).  No theorem assumes that hashing is injective:
  where two inputs with the same digest matter, the theorem names the two byte strings that
  collide.  Each record of parameters has a concrete instance on which the hypotheses are
  proved and the witnesses are evaluated.

  \<^bold>\<open>Not modelled.\<close>  The rest of the server crate (asynchronous sockets, SQL against PostgreSQL,
  node RPC, metrics), the socket loop of the miner, the load generator, the simulator and the
  test gate: they move data between the database, the node and the libraries modelled here, and
  their meaning depends on systems whose code is not in the repository.  Of the library crates:
  timing of build phases, the \<open>Display\<close> texts of errors, \<open>serde\<close> attributes, the reuse of buffers,
  the start of the pool's threads, and the scanning of raw JSON in \<open>audit_body_ref.rs\<close>.
\<close>

end
